(* ===== verification/Prelude.thy ===== *)
theory Prelude
  imports Main "HOL-Library.Word" "HOL-Library.AList"
begin

text \<open>
  Shared vocabulary of the development: the Rust types every component uses (identifiers, clocks,
  results, hash maps), the generic lemmas on first-match lists and association lists that carry
  the component proofs, and three interfaces as locales: a hash map, a table of records with a
  first-match key, and a transition system with an inductive invariant.
\<close>

named_theorems table_simps \<open>first-match lookup and in-place update on lists of records\<close>
named_theorems hm_simps \<open>hash maps as association lists with distinct keys\<close>

subsection \<open>Rust base types\<close>

text \<open>
  \<^item> \<open>Uuid\<close> is its 128-bit value; the nil UUID is \<open>0\<close>.
  \<^item> \<open>std::time::Instant\<close> and \<open>Duration\<close> are nanoseconds; \<open>Instant::duration_since\<close> and
    \<open>Duration::saturating_sub\<close> both stop at zero, as subtraction on \<^typ>\<open>nat\<close> does.
  \<^item> \<open>DateTime<Utc>\<close> is nanoseconds since the epoch, as an \<^typ>\<open>int\<close>.
  \<^item> \<open>Result<T, E>\<close> is \<^typ>\<open>'e + 't\<close>, with \<^const>\<open>Inl\<close> for \<open>Err\<close>.
\<close>

type_synonym uuid = "128 word"
type_synonym instant = nat
type_synonym duration = nat
type_synonym datetime = int

abbreviation Ok :: "'a \<Rightarrow> 'e + 'a" where "Ok \<equiv> Inr"
abbreviation Err :: "'e \<Rightarrow> 'e + 'a" where "Err \<equiv> Inl"

definition secs :: "nat \<Rightarrow> duration" where
  "secs n = n * 1000000000"

text \<open>\<open>t + chrono::Duration::from_std(d).unwrap_or_else(..)\<close>: a duration chrono cannot hold falls back.\<close>

definition chrono_max :: nat where
  "chrono_max = 9223372036854775807000000"

definition add_std :: "datetime \<Rightarrow> duration \<Rightarrow> nat \<Rightarrow> datetime" where
  "add_std t d fallback_secs = t + int (if d \<le> chrono_max then d else secs fallback_secs)"

definition is_err :: "'e + 'a \<Rightarrow> bool" where
  "is_err r = (case r of Inl _ \<Rightarrow> True | Inr _ \<Rightarrow> False)"

lemma is_err_simps [simp]: "is_err (Inl e)" "\<not> is_err (Inr a)"
  by (simp_all add: is_err_def)

text \<open>A computation of the source that may panic.\<close>

datatype 'a outcome = Return 'a | Panic

subsection \<open>First-match tables: lists of records searched by a predicate\<close>

text \<open>
  \<open>xs.iter().find(p)\<close> is \<^const>\<open>List.find\<close>; \<open>if let Some(e) = xs.iter_mut().find(p) { f(e) }\<close>
  is \<open>update_first\<close>; \<open>xs.iter().position(p)\<close> followed by \<open>xs.remove(pos)\<close> is \<open>remove_first\<close>.
\<close>

fun update_first :: "('a \<Rightarrow> bool) \<Rightarrow> ('a \<Rightarrow> 'a) \<Rightarrow> 'a list \<Rightarrow> 'a list" where
  "update_first P f [] = []"
| "update_first P f (x # xs) = (if P x then f x # xs else x # update_first P f xs)"

fun remove_first :: "('a \<Rightarrow> bool) \<Rightarrow> 'a list \<Rightarrow> 'a list" where
  "remove_first P [] = []"
| "remove_first P (x # xs) = (if P x then xs else x # remove_first P xs)"

lemma find_None_iff_all: "List.find P xs = None \<longleftrightarrow> (\<forall>x\<in>set xs. \<not> P x)"
  by (induction xs) auto

lemma find_SomeD: "List.find P xs = Some x \<Longrightarrow> x \<in> set xs \<and> P x"
  by (induction xs) (auto split: if_splits)

lemma find_append [table_simps]:
  "List.find P (xs @ ys) = (case List.find P xs of None \<Rightarrow> List.find P ys | Some x \<Rightarrow> Some x)"
  by (induction xs) auto

lemma find_update_first_same:
  assumes "\<And>x. P x \<Longrightarrow> P (f x)"
  shows "List.find P (update_first P f xs) = map_option f (List.find P xs)"
  using assms by (induction xs) auto

lemma find_update_first_other:
  assumes "\<And>x. P x \<Longrightarrow> \<not> Q x \<and> \<not> Q (f x)"
  shows "List.find Q (update_first P f xs) = List.find Q xs"
  using assms by (induction xs) auto

lemma map_update_first [table_simps]:
  assumes "\<And>x. P x \<Longrightarrow> g (f x) = g x"
  shows "map g (update_first P f xs) = map g xs"
  using assms by (induction xs) auto

lemma length_update_first [simp]: "length (update_first P f xs) = length xs"
  by (induction xs) auto

lemma length_filter_update_first:
  assumes "\<And>x. P x \<Longrightarrow> Q (f x) = Q x"
  shows "length (filter Q (update_first P f xs)) = length (filter Q xs)"
  using assms by (induction xs) auto

lemma set_update_first: "set (update_first P f xs) \<subseteq> set xs \<union> f ` {x \<in> set xs. P x}"
  by (induction xs) auto

lemma set_remove_first: "set (remove_first P xs) \<subseteq> set xs"
  by (induction xs) auto

lemma length_remove_first [simp]:
  "length (remove_first P xs) = (if List.find P xs = None then length xs else length xs - 1)"
proof (induction xs)
  case (Cons x xs)
  then show ?case by (cases xs) auto
qed simp

lemma distinct_map_remove_first:
  "distinct (map g xs) \<Longrightarrow> distinct (map g (remove_first P xs))"
  by (induction xs) (use set_remove_first in fastforce)+

lemma find_remove_first_other:
  "(\<And>x. P x \<Longrightarrow> \<not> Q x) \<Longrightarrow> List.find Q (remove_first P xs) = List.find Q xs"
  by (induction xs) auto

lemma find_filter_other:
  "(\<And>x. \<not> P x \<Longrightarrow> \<not> Q x) \<Longrightarrow> List.find Q (filter P xs) = List.find Q xs"
  by (induction xs) auto

lemma find_key_distinct:
  assumes "distinct (map g xs)" and "x \<in> set xs"
  shows "List.find (\<lambda>y. g y = g x) xs = Some x"
  using assms by (induction xs) auto

subsection \<open>The table interface\<close>

text \<open>
  The access table and the endpoint registry keep a \<open>Vec\<close> of records found by a key and changed
  by the same idiom: mutate the record found, or push a fresh one. The locale fixes the key
  and a field-update that keeps it; the laws about lookup after such a write are proved here once.
\<close>

definition upsert :: "('r \<Rightarrow> 'k) \<Rightarrow> 'k \<Rightarrow> ('r \<Rightarrow> 'r) \<Rightarrow> 'r \<Rightarrow> 'r list \<Rightarrow> 'r list" where
  "upsert key k f fresh xs =
     (case List.find (\<lambda>e. key e = k) xs of
        Some _ \<Rightarrow> update_first (\<lambda>e. key e = k) f xs
      | None \<Rightarrow> xs @ [fresh])"

locale keyed_table =
  fixes key :: "'r \<Rightarrow> 'k"
begin

definition lookup :: "'r list \<Rightarrow> 'k \<Rightarrow> 'r option" where
  "lookup xs k = List.find (\<lambda>e. key e = k) xs"

lemma lookup_upsert_same:
  assumes "\<And>e. key (f e) = key e" and "key fresh = k"
  shows "lookup (upsert key k f fresh xs) k =
    Some (case lookup xs k of Some e \<Rightarrow> f e | None \<Rightarrow> fresh)"
proof (cases "lookup xs k")
  case None
  then show ?thesis
    using assms by (simp add: lookup_def upsert_def table_simps)
next
  case (Some e)
  then have "List.find (\<lambda>e. key e = k) (update_first (\<lambda>e. key e = k) f xs) = Some (f e)"
    using assms(1) by (simp add: lookup_def find_update_first_same)
  with Some show ?thesis by (simp add: lookup_def upsert_def)
qed

lemma lookup_upsert_other:
  assumes "\<And>e. key (f e) = key e" and "key fresh = k" and "k' \<noteq> k"
  shows "lookup (upsert key k f fresh xs) k' = lookup xs k'"
proof -
  have "List.find (\<lambda>e. key e = k') (update_first (\<lambda>e. key e = k) f xs) =
      List.find (\<lambda>e. key e = k') xs"
    using assms(1,3) by (intro find_update_first_other) auto
  with assms(2,3) show ?thesis
    by (auto simp: lookup_def upsert_def table_simps split: option.splits)
qed

lemma distinct_upsert:
  assumes "\<And>e. key (f e) = key e" and "key fresh = k" and "distinct (map key xs)"
  shows "distinct (map key (upsert key k f fresh xs))"
  using assms by (auto simp: upsert_def table_simps find_None_iff_all split: option.splits)

lemma lookup_remove_same: "lookup (filter (\<lambda>e. key e \<noteq> k) xs) k = None"
  by (simp add: lookup_def find_None_iff_all)

lemma lookup_remove_other:
  "k' \<noteq> k \<Longrightarrow> lookup (filter (\<lambda>e. key e \<noteq> k) xs) k' = lookup xs k'"
  unfolding lookup_def by (rule find_filter_other) simp

end

subsection \<open>Hash maps\<close>

text \<open>
  \<open>HashMap<K, V>\<close> is an association list with distinct keys. No operation of the model reads the
  order of the list except where the source iterates over the map, and there the theorems hold
  for every order.
\<close>

type_synonym ('k, 'v) hashmap = "('k \<times> 'v) list"

definition hm_wf :: "('k, 'v) hashmap \<Rightarrow> bool" where
  "hm_wf m \<longleftrightarrow> distinct (map fst m)"

definition hm_retain :: "('k \<Rightarrow> 'v \<Rightarrow> bool) \<Rightarrow> ('k, 'v) hashmap \<Rightarrow> ('k, 'v) hashmap" where
  "hm_retain P m = filter (\<lambda>(k, v). P k v) m"

definition hm_map_values :: "('v \<Rightarrow> 'v) \<Rightarrow> ('k, 'v) hashmap \<Rightarrow> ('k, 'v) hashmap" where
  "hm_map_values f m = map (\<lambda>(k, v). (k, f v)) m"

lemma hm_wf_Nil [simp]: "hm_wf []"
  by (simp add: hm_wf_def)

lemma hm_wf_update [simp, intro]: "hm_wf m \<Longrightarrow> hm_wf (AList.update k v m)"
  by (simp add: hm_wf_def distinct_update)

lemma hm_wf_delete [simp, intro]: "hm_wf m \<Longrightarrow> hm_wf (AList.delete k m)"
  by (simp add: hm_wf_def distinct_delete)

lemma hm_wf_map_entry [simp, intro]: "hm_wf m \<Longrightarrow> hm_wf (AList.map_entry k f m)"
  by (simp add: hm_wf_def distinct_map_entry)

lemma hm_wf_retain [simp, intro]: "hm_wf m \<Longrightarrow> hm_wf (hm_retain P m)"
  by (simp add: hm_wf_def hm_retain_def distinct_map_filter)

lemma fst_hm_map_values [simp]: "map fst (hm_map_values f m) = map fst m"
  by (induction m) (auto simp: hm_map_values_def)

lemma hm_wf_map_values [simp]: "hm_wf (hm_map_values f m) = hm_wf m"
  by (simp add: hm_wf_def)

lemma map_of_hm_map_values [hm_simps]: "map_of (hm_map_values f m) k = map_option f (map_of m k)"
  by (induction m) (auto simp: hm_map_values_def)

lemma map_of_hm_retain [hm_simps]:
  "hm_wf m \<Longrightarrow> map_of (hm_retain P m) k =
     (case map_of m k of Some v \<Rightarrow> if P k v then Some v else None | None \<Rightarrow> None)"
proof (induction m)
  case (Cons kv m)
  obtain k' v' where kv: "kv = (k', v')" by (cases kv)
  with Cons.prems have "k' \<notin> fst ` set m" and wf: "hm_wf m"
    by (auto simp: hm_wf_def)
  then have "map_of m k' = None" by (simp add: map_of_eq_None_iff)
  with Cons.IH [OF wf] kv show ?case
    by (auto simp: hm_retain_def split: option.splits)
qed (simp add: hm_retain_def)

lemma length_hm_retain: "length (hm_retain P m) \<le> length m"
  by (simp add: hm_retain_def)

lemma length_hm_map_values [simp]: "length (hm_map_values f m) = length m"
  by (simp add: hm_map_values_def)

lemma map_of_map_entry_eq [hm_simps]:
  "map_of (AList.map_entry k f m) k' =
     (if k' = k then map_option f (map_of m k) else map_of m k')"
  by (induction m) auto

lemma map_of_update_eq [hm_simps]:
  "map_of (AList.update k v m) k' = (if k' = k then Some v else map_of m k')"
  by (simp add: update_conv)

lemma map_of_delete_eq [hm_simps]:
  "map_of (AList.delete k m) k' = (if k' = k then None else map_of m k')"
  by (simp add: delete_conv)

lemma length_AList_update:
  "length (AList.update k v m) = (if map_of m k = None then Suc (length m) else length m)"
  by (induction m) auto

lemma length_AList_delete_le: "length (AList.delete k m) \<le> length m"
  by (simp add: AList.delete_eq)

lemma length_map_entry [simp]: "length (AList.map_entry k f m) = length m"
  by (induction m) auto

lemma fst_map_entry [simp]: "map fst (AList.map_entry k f m) = map fst m"
  by (induction m) auto

text \<open>The sum of a measure over the values of a map: byte budgets and counts of reserved slots.\<close>

definition sum_values :: "('v \<Rightarrow> nat) \<Rightarrow> ('k, 'v) hashmap \<Rightarrow> nat" where
  "sum_values f m = sum_list (map (\<lambda>(_, v). f v) m)"

lemma sum_values_Nil [simp]: "sum_values f [] = 0"
  by (simp add: sum_values_def)

lemma sum_values_update:
  "sum_values f (AList.update k v m) + (case map_of m k of Some q \<Rightarrow> f q | None \<Rightarrow> 0) = sum_values f m + f v"
  by (induction m) (auto simp: sum_values_def split: option.splits)

lemma sum_values_delete:
  "hm_wf m \<Longrightarrow> sum_values f (AList.delete k m) + (case map_of m k of Some q \<Rightarrow> f q | None \<Rightarrow> 0) = sum_values f m"
proof (induction m)
  case (Cons kv m)
  obtain k' v' where kv: "kv = (k', v')" by (cases kv)
  from Cons.prems kv have "k' \<notin> fst ` set m" and wf: "hm_wf m" by (auto simp: hm_wf_def)
  moreover from this(1) have "k = k' \<Longrightarrow> AList.delete k m = m" by (simp add: AList.delete_id)
  ultimately show ?case using Cons.IH [OF wf] kv by (auto simp: sum_values_def split: option.splits)
qed simp

lemma sum_values_mem: "map_of m k = Some v \<Longrightarrow> f v \<le> sum_values f m"
  by (induction m) (auto simp: sum_values_def split: if_splits)

lemma sum_values_zero: "hm_wf m \<Longrightarrow> (\<And>k v. map_of m k = Some v \<Longrightarrow> f v = 0) \<Longrightarrow> sum_values f m = 0"
proof (induction m)
  case (Cons kv m)
  obtain k' v' where kv: "kv = (k', v')" by (cases kv)
  from Cons.prems(1) kv have n: "map_of m k' = None" and wf: "hm_wf m" by (auto simp: hm_wf_def map_of_eq_None_iff)
  have "f v = 0" if "map_of m k = Some v" for k v
    using Cons.prems(2) [of k v] that n kv by (cases "k = k'") auto
  with Cons.IH [OF wf] Cons.prems(2) [of k' v'] kv show ?case by (simp add: sum_values_def)
qed simp

lemma length_delete_mem: "hm_wf m \<Longrightarrow> map_of m k = Some v \<Longrightarrow> Suc (length (AList.delete k m)) = length m"
proof (induction m)
  case (Cons kv m)
  obtain k' v' where kv: "kv = (k', v')" by (cases kv)
  from Cons.prems(1) kv have n: "k' \<notin> fst ` set m" and wf: "hm_wf m" by (auto simp: hm_wf_def)
  then show ?case using Cons.IH [OF wf] Cons.prems(2) kv by (cases "k = k'") (auto simp: AList.delete_id)
qed simp

locale hash_map =
  fixes get :: "'m \<Rightarrow> 'k \<Rightarrow> 'v option"
    and insert_kv :: "'k \<Rightarrow> 'v \<Rightarrow> 'm \<Rightarrow> 'm"
    and remove_k :: "'k \<Rightarrow> 'm \<Rightarrow> 'm"
    and retain :: "('k \<Rightarrow> 'v \<Rightarrow> bool) \<Rightarrow> 'm \<Rightarrow> 'm"
    and len :: "'m \<Rightarrow> nat"
    and wf :: "'m \<Rightarrow> bool"
  assumes get_insert: "get (insert_kv k v m) k' = (if k' = k then Some v else get m k')"
    and get_remove: "get (remove_k k m) k' = (if k' = k then None else get m k')"
    and get_retain: "wf m \<Longrightarrow> get (retain P m) k =
      (case get m k of Some v \<Rightarrow> if P k v then Some v else None | None \<Rightarrow> None)"
    and wf_insert: "wf m \<Longrightarrow> wf (insert_kv k v m)"
    and wf_remove: "wf m \<Longrightarrow> wf (remove_k k m)"
    and wf_retain: "wf m \<Longrightarrow> wf (retain P m)"
    and len_insert: "len (insert_kv k v m) = (if get m k = None then Suc (len m) else len m)"
    and len_retain: "len (retain P m) \<le> len m"
begin

text \<open>
  Pruning before a guarded insertion keeps a hard bound on the number of keys: the pattern of the
  keyed rate limiter.
\<close>

lemma guarded_insert_bounded:
  assumes "len m \<le> n" and "get (retain P m) k \<noteq> None \<or> len (retain P m) < n"
  shows "len (insert_kv k v (retain P m)) \<le> n"
  using assms len_retain [of P m] by (auto simp: len_insert)

lemma retain_insert_other:
  assumes "wf m" and "k' \<noteq> k"
  shows "get (insert_kv k v (retain P m)) k' =
    (case get m k' of Some v \<Rightarrow> if P k' v then Some v else None | None \<Rightarrow> None)"
  using assms by (simp add: get_insert get_retain)

end

interpretation alist_map: hash_map map_of AList.update AList.delete hm_retain length hm_wf
  by unfold_locales (auto simp: hm_simps length_AList_update length_hm_retain)

subsection \<open>Transition systems with an inductive invariant\<close>

text \<open>
  Concurrent use of a component under its mutex is an interleaving of its critical sections, so
  a component is a transition system whose steps are its locked operations. A property that
  holds initially and is kept by every step holds in every reachable state.
\<close>

inductive reaches :: "('s \<Rightarrow> 's \<Rightarrow> bool) \<Rightarrow> 's \<Rightarrow> 's \<Rightarrow> bool" for step s0 where
  reaches_refl: "reaches step s0 s0"
| reaches_step: "reaches step s0 s \<Longrightarrow> step s t \<Longrightarrow> reaches step s0 t"

locale invariant_system =
  fixes step :: "'s \<Rightarrow> 's \<Rightarrow> bool"
    and inv :: "'s \<Rightarrow> bool"
  assumes inv_step: "inv s \<Longrightarrow> step s t \<Longrightarrow> inv t"
begin

lemma reaches_inv: "reaches step s0 s \<Longrightarrow> inv s0 \<Longrightarrow> inv s"
  by (induction rule: reaches.induct) (auto intro: inv_step)

end

end
