(* ===== verification/Ratelimit.thy ===== *)
theory Ratelimit
  imports Prelude
begin

text \<open>
  The rate limiters of \<^verbatim>\<open>crates/aka-core/src/ratelimit.rs\<close>: the global sliding window
  (\<open>WindowLimiter\<close>) and the per-identity buckets (\<open>KeyedLimiter\<close>). Both record admitted hits in a
  queue, oldest first. The budget theorem (never more than \<open>max\<close> admitted hits in any interval of
  one window) is proved once, in the locale \<open>sliding_window\<close>, and both limiters are instances of it.
  Times are those at which the calls hold the mutex, in that order.
\<close>

subsection \<open>The global window\<close>

record window_limiter =
  window :: duration
  max_hits :: nat
  hits :: "instant list"

definition window_new :: "nat \<Rightarrow> duration \<Rightarrow> window_limiter" where
  "window_new mx w = \<lparr>window = w, max_hits = mx, hits = []\<rparr>"

definition window_retry_after :: "instant list \<Rightarrow> duration \<Rightarrow> instant \<Rightarrow> duration" where
  "window_retry_after hs w now = (case hs of [] \<Rightarrow> w | oldest # _ \<Rightarrow> w - (now - oldest))"

text \<open>The loop that drops expired hits from the front of the queue.\<close>

fun pop_expired :: "duration \<Rightarrow> instant \<Rightarrow> instant list \<Rightarrow> instant list" where
  "pop_expired w now [] = []"
| "pop_expired w now (front # hs) = (if now - front > w then pop_expired w now hs else front # hs)"

definition window_check_at :: "window_limiter \<Rightarrow> instant \<Rightarrow> (duration + unit) \<times> window_limiter" where
  "window_check_at l now =
     (let hs = pop_expired (window l) now (hits l) in
      if length hs \<ge> max_hits l
      then (Err (window_retry_after hs (window l) now), l\<lparr>hits := hs\<rparr>)
      else (Ok (), l\<lparr>hits := hs @ [now]\<rparr>))"

definition window_peek :: "window_limiter \<Rightarrow> instant \<Rightarrow> duration option \<times> window_limiter" where
  "window_peek l now =
     (let hs = pop_expired (window l) now (hits l) in
      (if length hs \<ge> max_hits l then Some (window_retry_after hs (window l) now) else None,
       l\<lparr>hits := hs\<rparr>))"

subsection \<open>Per-key windows\<close>

record keyed_limiter =
  kwindow :: duration
  kmax :: nat
  max_keys :: nat
  buckets :: "(string, instant list) hashmap"

definition keyed_new :: "nat \<Rightarrow> duration \<Rightarrow> keyed_limiter" where
  "keyed_new mx w = \<lparr>kwindow = w, kmax = mx, max_keys = 1024, buckets = []\<rparr>"

definition prune_buckets ::
    "duration \<Rightarrow> instant \<Rightarrow> (string, instant list) hashmap \<Rightarrow> (string, instant list) hashmap" where
  "prune_buckets w now m = hm_retain (\<lambda>_ hs. hs \<noteq> []) (hm_map_values (pop_expired w now) m)"

definition keyed_check_at ::
    "keyed_limiter \<Rightarrow> string \<Rightarrow> instant \<Rightarrow> (duration + unit) \<times> keyed_limiter" where
  "keyed_check_at l key now =
     (let m = prune_buckets (kwindow l) now (buckets l) in
      if map_of m key = None \<and> length m \<ge> max_keys l
      then (Err (kwindow l), l\<lparr>buckets := m\<rparr>)
      else
        let hs = (case map_of m key of Some hs \<Rightarrow> hs | None \<Rightarrow> []) in
        if length hs \<ge> kmax l
        then (Err (window_retry_after hs (kwindow l) now), l\<lparr>buckets := AList.update key hs m\<rparr>)
        else (Ok (), l\<lparr>buckets := AList.update key (hs @ [now]) m\<rparr>))"

definition keyed_retry_after ::
    "keyed_limiter \<Rightarrow> string \<Rightarrow> instant \<Rightarrow> duration option \<times> keyed_limiter" where
  "keyed_retry_after l key now =
     (case map_of (buckets l) key of
        None \<Rightarrow> (None, l)
      | Some hs0 \<Rightarrow>
          let hs = pop_expired (kwindow l) now hs0 in
          if hs = [] then (None, l\<lparr>buckets := AList.delete key (buckets l)\<rparr>)
          else (if length hs \<ge> kmax l then Some (window_retry_after hs (kwindow l) now) else None,
                l\<lparr>buckets := AList.update key hs (buckets l)\<rparr>))"

definition bucket_of :: "string \<Rightarrow> keyed_limiter \<Rightarrow> instant list" where
  "bucket_of k l = (case map_of (buckets l) k of Some hs \<Rightarrow> hs | None \<Rightarrow> [])"

subsection \<open>Expiry of a queue\<close>

lemma pop_expired_suffix: "\<exists>old. hs = old @ pop_expired w now hs"
proof (induction hs)
  case (Cons h hs)
  then obtain old where "hs = old @ pop_expired w now hs" by blast
  then have "h # hs = (h # old) @ pop_expired w now hs" by simp
  then have "\<exists>old'. h # hs = old' @ pop_expired w now hs" by blast
  then show ?case by (cases "now - h > w") (auto intro: exI [of _ "[]"])
qed simp

lemma length_pop_expired: "length (pop_expired w now hs) \<le> length hs"
  by (induction hs) auto

lemma pop_expired_sorted_filter:
  "sorted hs \<Longrightarrow> pop_expired w now hs = filter (\<lambda>h. now - h \<le> w) hs"
proof (induction hs)
  case (Cons h hs)
  show ?case
  proof (cases "now - h > w")
    case True
    with Cons show ?thesis by simp
  next
    case False
    with Cons.prems have "\<forall>x\<in>set (h # hs). now - x \<le> w" by auto
    with False show ?thesis by simp
  qed
qed simp

lemma pop_expired_mono: 
  "now \<le> now' \<Longrightarrow> pop_expired w now' (pop_expired w now hs) = pop_expired w now' hs"
  by (induction hs) auto

subsection \<open>The budget of a sliding window\<close>

text \<open>The times of the admitted events of a run, in order.\<close>

fun admitted_times ::
    "('s \<Rightarrow> 'e \<Rightarrow> 's) \<Rightarrow> ('s \<Rightarrow> 'e \<Rightarrow> bool) \<Rightarrow> ('e \<Rightarrow> instant) \<Rightarrow> 's \<Rightarrow> 'e list \<Rightarrow> instant list" where
  "admitted_times step adm time s [] = []"
| "admitted_times step adm time s (e # es) =
     (if adm s e then [time e] else []) @ admitted_times step adm time (step s e) es"

definition hits_within :: "instant \<Rightarrow> duration \<Rightarrow> instant list \<Rightarrow> nat" where
  "hits_within t w ts = length (filter (\<lambda>a. t \<le> a \<and> a \<le> t + w) ts)"

locale sliding_window =
  fixes bucket :: "'s \<Rightarrow> instant list"
    and valid :: "'s \<Rightarrow> bool"
    and step :: "'s \<Rightarrow> 'e \<Rightarrow> 's"
    and adm :: "'s \<Rightarrow> 'e \<Rightarrow> bool"
    and time :: "'e \<Rightarrow> instant"
    and w :: duration
    and mx :: nat
  assumes valid_step: "valid s \<Longrightarrow> valid (step s e)"
    and admit: "valid s \<Longrightarrow> adm s e \<Longrightarrow>
      bucket (step s e) = pop_expired w (time e) (bucket s) @ [time e] \<and>
      length (pop_expired w (time e) (bucket s)) < mx"
    and reject: "valid s \<Longrightarrow> \<not> adm s e \<Longrightarrow>
      bucket (step s e) = bucket s \<or> bucket (step s e) = pop_expired w (time e) (bucket s)"
begin

text \<open>
  What a state has to remember of the hits \<open>acc\<close> admitted so far: its bucket is what is left of them
  once the expired ones are gone, and no interval of one window holds more than \<open>mx\<close>.
\<close>

definition remembers :: "instant \<Rightarrow> instant list \<Rightarrow> 's \<Rightarrow> bool" where
  "remembers now acc s \<longleftrightarrow> sorted acc \<and> (\<forall>a\<in>set acc. a \<le> now) \<and>
     (\<exists>old. acc = old @ bucket s \<and> (\<forall>a\<in>set old. now - a > w)) \<and>
     (\<forall>t. hits_within t w acc \<le> mx)"

lemma remembers_prune:
  assumes "remembers now acc s" and "now \<le> now'"
  shows "\<exists>old. acc = old @ pop_expired w now' (bucket s) \<and> (\<forall>a\<in>set old. now' - a > w)"
proof -
  from assms obtain old where old: "acc = old @ bucket s" "\<forall>a\<in>set old. now - a > w"
    by (auto simp: remembers_def)
  have sorted: "sorted (bucket s)" using assms(1) old by (simp add: remembers_def sorted_append)
  obtain old' where old': "bucket s = old' @ pop_expired w now' (bucket s)"
    using pop_expired_suffix by blast
  have "\<forall>a\<in>set old'. now' - a > w"
  proof (rule ccontr)
    assume "\<not> (\<forall>a\<in>set old'. now' - a > w)"
    then obtain a where a: "a \<in> set old'" "now' - a \<le> w" by auto
    have "length (filter (\<lambda>h. now' - h \<le> w) (bucket s)) =
        length (filter (\<lambda>h. now' - h \<le> w) old') +
        length (filter (\<lambda>h. now' - h \<le> w) (pop_expired w now' (bucket s)))"
      using old' by (metis filter_append length_append)
    moreover have "filter (\<lambda>h. now' - h \<le> w) (pop_expired w now' (bucket s)) =
        pop_expired w now' (bucket s)"
      by (simp add: pop_expired_sorted_filter [OF sorted])
    moreover have "filter (\<lambda>h. now' - h \<le> w) old' \<noteq> []"
      using a by (auto simp: filter_empty_conv)
    ultimately show False by (simp add: pop_expired_sorted_filter [OF sorted])
  qed
  moreover have "\<forall>a\<in>set old. now' - a > w" using old(2) assms(2) by (meson diff_le_mono le_trans not_le)
  ultimately show ?thesis using old(1) old' by (metis Un_iff append.assoc set_append)
qed

lemma remembers_reject:
  assumes "remembers now acc s" and "now \<le> time e" and "valid s" and "\<not> adm s e"
  shows "remembers (time e) acc (step s e)"
proof -
  obtain old where old: "acc = old @ bucket s" "\<forall>a\<in>set old. now - a > w"
    using assms(1) by (auto simp: remembers_def)
  have "\<forall>a\<in>set old. time e - a > w"
    using old(2) assms(2) by (meson diff_le_mono le_trans not_le)
  with old(1) remembers_prune [OF assms(1,2)] reject [OF assms(3,4)]
  have "\<exists>old. acc = old @ bucket (step s e) \<and> (\<forall>a\<in>set old. time e - a > w)" by metis
  with assms(1,2) show ?thesis by (auto simp: remembers_def intro: order_trans)
qed

lemma remembers_admit:
  assumes "remembers now acc s" and "now \<le> time e" and "valid s" and "adm s e"
  shows "remembers (time e) (acc @ [time e]) (step s e)"
proof -
  let ?b = "pop_expired w (time e) (bucket s)"
  obtain old where old: "acc = old @ ?b" "\<forall>a\<in>set old. time e - a > w"
    using remembers_prune [OF assms(1,2)] by blast
  have b: "bucket (step s e) = ?b @ [time e]" and len: "length ?b < mx"
    using admit [OF assms(3,4)] by auto
  have le: "\<forall>a\<in>set acc. a \<le> time e"
    using assms(1,2) by (auto simp: remembers_def intro: order_trans)
  have "hits_within t w (acc @ [time e]) \<le> mx" for t
  proof (cases "t \<le> time e \<and> time e \<le> t + w")
    case True
    then have "filter (\<lambda>a. t \<le> a \<and> a \<le> t + w) old = []"
      using old(2) by (auto simp: filter_empty_conv)
    then have "hits_within t w (acc @ [time e]) =
        length (filter (\<lambda>a. t \<le> a \<and> a \<le> t + w) (?b @ [time e]))"
      by (simp add: hits_within_def old(1))
    also have "\<dots> \<le> length (?b @ [time e])" by (rule length_filter_le)
    finally have "hits_within t w (acc @ [time e]) \<le> length (?b @ [time e])" .
    with len show ?thesis by simp
  next
    case False
    then have "hits_within t w (acc @ [time e]) = hits_within t w acc" by (auto simp: hits_within_def)
    with assms(1) show ?thesis by (simp add: remembers_def)
  qed
  with assms(1) b old le show ?thesis by (auto simp: remembers_def sorted_append)
qed

lemma run_budget:
  assumes "remembers now acc s" and "valid s" and "sorted (now # map time es)"
  shows "hits_within t w (acc @ admitted_times step adm time s es) \<le> mx"
  using assms
proof (induction es arbitrary: now acc s)
  case Nil
  then show ?case by (simp add: remembers_def)
next
  case (Cons e es)
  then have e: "now \<le> time e" and es: "sorted (time e # map time es)" by auto
  show ?case
  proof (cases "adm s e")
    case True
    from Cons.IH [OF remembers_admit [OF Cons.prems(1) e Cons.prems(2) True]
        valid_step [OF Cons.prems(2)] es] True
    show ?thesis by simp
  next
    case False
    from Cons.IH [OF remembers_reject [OF Cons.prems(1) e Cons.prems(2) False]
        valid_step [OF Cons.prems(2)] es] False
    show ?thesis by simp
  qed
qed

lemma budget:
  assumes "valid s" and "bucket s = []" and "sorted (map time es)"
  shows "hits_within t w (admitted_times step adm time s es) \<le> mx"
proof -
  have "remembers 0 [] s" using assms by (simp add: remembers_def hits_within_def)
  from run_budget [OF this assms(1), of es t] assms(3) show ?thesis by simp
qed

end

subsection \<open>Both limiters are sliding windows\<close>

definition window_step :: "window_limiter \<Rightarrow> instant \<Rightarrow> window_limiter" where
  "window_step l now = snd (window_check_at l now)"

definition window_admits :: "window_limiter \<Rightarrow> instant \<Rightarrow> bool" where
  "window_admits l now = (fst (window_check_at l now) = Ok ())"

definition keyed_step :: "keyed_limiter \<Rightarrow> string \<times> instant \<Rightarrow> keyed_limiter" where
  "keyed_step l e = snd (keyed_check_at l (fst e) (snd e))"

definition keyed_admits :: "string \<Rightarrow> keyed_limiter \<Rightarrow> string \<times> instant \<Rightarrow> bool" where
  "keyed_admits k l e = (fst e = k \<and> fst (keyed_check_at l k (snd e)) = Ok ())"

interpretation global_window: sliding_window
    hits "\<lambda>l. window l = w \<and> max_hits l = mx" window_step window_admits "\<lambda>now. now" w mx
  for w mx
  by unfold_locales
    (auto simp: window_step_def window_admits_def window_check_at_def Let_def split: if_splits)

lemma map_of_prune_buckets [hm_simps]:
  "hm_wf m \<Longrightarrow> map_of (prune_buckets w now m) k =
     (case map_of m k of
        Some hs \<Rightarrow> if pop_expired w now hs = [] then None else Some (pop_expired w now hs)
      | None \<Rightarrow> None)"
  by (auto simp: prune_buckets_def map_of_hm_retain map_of_hm_map_values split: option.splits)

lemma hm_wf_prune_buckets [simp]: "hm_wf m \<Longrightarrow> hm_wf (prune_buckets w now m)"
  by (simp add: prune_buckets_def hm_wf_retain)

lemma length_prune_buckets: "length (prune_buckets w now m) \<le> length m"
  by (simp add: prune_buckets_def order_trans [OF length_hm_retain])

lemma bucket_of_prune:
  "hm_wf (buckets l) \<Longrightarrow> bucket_of k (l\<lparr>buckets := prune_buckets w now (buckets l)\<rparr>) =
     pop_expired w now (bucket_of k l)"
  by (auto simp: bucket_of_def map_of_prune_buckets split: option.splits)

text \<open>A check never evicts or resets the bucket of another key: it only ages it.\<close>

lemma keyed_check_other:
  assumes "hm_wf (buckets l)" and "k \<noteq> key"
  shows "bucket_of k (snd (keyed_check_at l key now)) = pop_expired (kwindow l) now (bucket_of k l)"
  using assms
  by (auto simp: keyed_check_at_def Let_def bucket_of_def map_of_prune_buckets map_of_update_eq
      split: option.splits)

lemma keyed_check_same_ok:
  assumes "hm_wf (buckets l)" and "fst (keyed_check_at l key now) = Ok ()"
  shows "bucket_of key (snd (keyed_check_at l key now)) =
      pop_expired (kwindow l) now (bucket_of key l) @ [now]"
    and "length (pop_expired (kwindow l) now (bucket_of key l)) < kmax l"
  using assms
  by (auto simp: keyed_check_at_def Let_def bucket_of_def map_of_prune_buckets map_of_update_eq
      split: option.splits if_splits)

lemma keyed_check_same_err:
  assumes "hm_wf (buckets l)" and "fst (keyed_check_at l key now) \<noteq> Ok ()"
  shows "bucket_of key (snd (keyed_check_at l key now)) =
      pop_expired (kwindow l) now (bucket_of key l)"
  using assms
  by (auto simp: keyed_check_at_def Let_def bucket_of_def map_of_prune_buckets map_of_update_eq
      split: option.splits if_splits)

lemma keyed_check_frame [simp]:
  "hm_wf (buckets l) \<Longrightarrow> hm_wf (buckets (snd (keyed_check_at l key now)))"
  "kwindow (snd (keyed_check_at l key now)) = kwindow l"
  "kmax (snd (keyed_check_at l key now)) = kmax l"
  "max_keys (snd (keyed_check_at l key now)) = max_keys l"
  by (simp_all add: keyed_check_at_def Let_def)

interpretation key_window: sliding_window
    "bucket_of k" "\<lambda>l. hm_wf (buckets l) \<and> kwindow l = w \<and> kmax l = mx"
    keyed_step "keyed_admits k" snd w mx
  for k w mx
proof unfold_locales
  fix s :: keyed_limiter and e :: "string \<times> instant"
  assume v: "hm_wf (buckets s) \<and> kwindow s = w \<and> kmax s = mx"
  then show "hm_wf (buckets (keyed_step s e)) \<and> kwindow (keyed_step s e) = w \<and>
      kmax (keyed_step s e) = mx"
    by (simp add: keyed_step_def)
  show "keyed_admits k s e \<Longrightarrow>
      bucket_of k (keyed_step s e) = pop_expired w (snd e) (bucket_of k s) @ [snd e] \<and>
      length (pop_expired w (snd e) (bucket_of k s)) < mx"
    using v keyed_check_same_ok by (auto simp: keyed_admits_def keyed_step_def)
  show "\<not> keyed_admits k s e \<Longrightarrow> bucket_of k (keyed_step s e) = bucket_of k s \<or>
      bucket_of k (keyed_step s e) = pop_expired w (snd e) (bucket_of k s)"
    using v keyed_check_same_err [of s k "snd e"] keyed_check_other [of s k "fst e" "snd e"]
    by (auto simp: keyed_admits_def keyed_step_def)
qed

subsection \<open>Reachable limiters\<close>

definition window_ok :: "window_limiter \<Rightarrow> instant \<Rightarrow> bool" where
  "window_ok l now \<longleftrightarrow> sorted (hits l) \<and> (\<forall>h\<in>set (hits l). h \<le> now) \<and> length (hits l) \<le> max_hits l"

lemma window_check_frame [simp]:
  "window (snd (window_check_at l now)) = window l"
  "max_hits (snd (window_check_at l now)) = max_hits l"
  by (simp_all add: window_check_at_def Let_def)

lemma window_check_ok:
  assumes "window_ok l now0" and "now0 \<le> now"
  shows "window_ok (snd (window_check_at l now)) now"
proof -
  have "length (pop_expired (window l) now (hits l)) \<le> max_hits l"
    using assms(1) length_pop_expired [of "window l" now "hits l"] by (simp add: window_ok_def)
  with assms show ?thesis
    by (auto simp: window_ok_def window_check_at_def Let_def pop_expired_sorted_filter sorted_append
        sorted_wrt_filter intro: order_trans)
qed

lemma window_run_ok:
  "window_ok l now0 \<Longrightarrow> sorted (now0 # ts @ [now]) \<Longrightarrow>
     window_ok (foldl window_step l ts) now \<and>
     window (foldl window_step l ts) = window l \<and> max_hits (foldl window_step l ts) = max_hits l"
proof (induction ts arbitrary: l now0)
  case Nil
  then show ?case by (auto simp: window_ok_def intro: order_trans)
next
  case (Cons t ts)
  then have "window_ok (window_step l t) t"
    by (auto simp: window_step_def intro: window_check_ok)
  moreover have "sorted (t # ts @ [now])" using Cons.prems(2) by auto
  ultimately show ?case using Cons.IH [of "window_step l t" t] by (simp add: window_step_def)
qed

lemma window_refusal_exact:
  assumes "window_ok l now" and "0 < max_hits l" and "window_check_at l now = (Err d, l')"
    and "now \<le> t"
  shows "fst (window_check_at l' t) = Ok () \<longleftrightarrow> now + d < t"
proof -
  let ?hs = "pop_expired (window l) now (hits l)"
  have l': "l' = l\<lparr>hits := ?hs\<rparr>" and len: "length ?hs \<ge> max_hits l"
    and d: "d = window_retry_after ?hs (window l) now"
    using assms(3) by (auto simp: window_check_at_def Let_def split: if_splits)
  have sub: "?hs = filter (\<lambda>h. now - h \<le> window l) (hits l)"
    using assms(1) by (simp add: window_ok_def pop_expired_sorted_filter)
  obtain h rest where hs: "?hs = h # rest" using len assms(2) by (cases ?hs) auto
  have h: "h \<le> now" "now - h \<le> window l"
    using arg_cong [OF trans [OF sub [symmetric] hs], of set] assms(1) by (auto simp: window_ok_def)
  have "length (h # rest) \<le> max_hits l"
    using assms(1) hs sub by (metis length_filter_le order_trans window_ok_def)
  then have rest: "length rest < max_hits l" by simp
  have d': "d = window l - (now - h)" using d hs by (simp add: window_retry_after_def)
  have short: "length (pop_expired (window l) t rest) < max_hits l"
    using rest length_pop_expired [of "window l" t rest] by simp
  show ?thesis
  proof (cases "now + d < t")
    case True
    then have "t - h > window l" using d' h by simp
    with True short show ?thesis by (simp add: window_check_at_def Let_def l' hs)
  next
    case False
    then have "\<not> t - h > window l" using d' h assms(4) by simp
    with False len hs show ?thesis by (simp add: window_check_at_def Let_def l')
  qed
qed

lemma keyed_check_keys:
  assumes "length (buckets l) \<le> max_keys l"
  shows "length (buckets (snd (keyed_check_at l key now))) \<le> max_keys l"
proof -
  let ?m = "prune_buckets (kwindow l) now (buckets l)"
  have "length ?m \<le> max_keys l" using length_prune_buckets assms order_trans by blast
  then show ?thesis by (auto simp: keyed_check_at_def Let_def length_AList_update)
qed

lemma keyed_run_keys:
  "length (buckets l) \<le> max_keys l \<Longrightarrow> length (buckets (foldl keyed_step l es)) \<le> max_keys l"
proof (induction es arbitrary: l)
  case (Cons e es)
  from Cons.prems have "length (buckets (keyed_step l e)) \<le> max_keys (keyed_step l e)"
    by (simp add: keyed_step_def keyed_check_keys)
  from Cons.IH [OF this] show ?case by (simp add: keyed_step_def)
qed simp

lemma window_peek_check:
  "now \<le> now' \<Longrightarrow> window_check_at (snd (window_peek l now)) now' = window_check_at l now'"
  by (simp add: window_peek_def window_check_at_def Let_def pop_expired_mono)

subsection \<open>Properties\<close>

text \<open>
  The global limiter never admits more than \<open>max\<close> attempts within any closed interval as long
  as its window, whatever the attempts and whenever the interval starts.
\<close>

theorem window_budget:
  assumes "sorted ts"
  shows "hits_within t w (admitted_times window_step window_admits (\<lambda>now. now) (window_new mx w) ts)
    \<le> mx"
  using global_window.budget [of "window_new mx w" w mx ts t] assms by (simp add: window_new_def)

theorem window_budget_witness:
  "sorted [0, 5, 6, 30::nat] \<and>
   hits_within 0 10 (admitted_times window_step window_admits (\<lambda>now. now) (window_new 2 10)
     [0, 5, 6, 30]) \<le> 2"
  using window_budget [of "[0, 5, 6, 30]" 0 10 2] by simp

text \<open>
  The keyed limiter gives every verified key its own budget: for every key, in every run of
  attempts on all keys, at most \<open>max\<close> attempts of that key are admitted in any interval of one window.
\<close>

theorem keyed_budget:
  assumes "sorted (map snd es)"
  shows "hits_within t w (admitted_times keyed_step (keyed_admits k) snd (keyed_new mx w) es) \<le> mx"
  using key_window.budget [of "keyed_new mx w" w mx k es t] assms
  by (simp add: keyed_new_def bucket_of_def)

theorem keyed_budget_witness:
  "sorted (map snd [(''a'', 0), (''b'', 1), (''a'', 2::nat)]) \<and>
   hits_within 0 9 (admitted_times keyed_step (keyed_admits ''a'') snd (keyed_new 1 9)
     [(''a'', 0), (''b'', 1), (''a'', 2)]) \<le> 1"
  using keyed_budget [of "[(''a'', 0), (''b'', 1), (''a'', 2)]" 0 9 "''a''" 1] by simp

text \<open>
  The bucket map is hard bounded and nobody's bucket is evicted to make room: after any run a
  fresh limiter holds at most 1024 keys, and an attempt on one key changes the bucket of another key
  only by dropping its expired hits.
\<close>

theorem keyed_bounded_without_eviction:
  "length (buckets (foldl keyed_step (keyed_new mx w) es)) \<le> 1024 \<and>
   (hm_wf (buckets l) \<longrightarrow> k \<noteq> key \<longrightarrow>
     bucket_of k (snd (keyed_check_at l key now)) = pop_expired (kwindow l) now (bucket_of k l))"
  using keyed_run_keys [of "keyed_new mx w" es] keyed_check_other [of l k key now]
  by (simp add: keyed_new_def)

theorem keyed_bounded_without_eviction_witness:
  "bucket_of ''b'' (snd (keyed_check_at
     \<lparr>kwindow = 9, kmax = 2, max_keys = 1024, buckets = [(''b'', [0])]\<rparr> ''a'' 5)) = [0]"
  using keyed_bounded_without_eviction [of 2 9 "[]"
      "\<lparr>kwindow = 9, kmax = 2, max_keys = 1024, buckets = [(''b'', [0])]\<rparr>" "''b''" "''a''" 5]
  by (simp add: hm_wf_def bucket_of_def)

text \<open>
  The advertised wait is exact up to one clock tick: after a refusal with \<open>Err d\<close> at time \<open>now\<close>,
  a limiter reached by any sequence of attempts refuses every attempt up to and including \<open>now + d\<close>
  and admits every attempt after it (the expiry test is strict, so waiting exactly \<open>d\<close> is refused).
\<close>

theorem window_retry_after_exact:
  assumes "sorted (ts @ [now])" and "0 < mx"
    and "window_check_at (foldl window_step (window_new mx w) ts) now = (Err d, l')"
    and "now \<le> t"
  shows "fst (window_check_at l' t) = Ok () \<longleftrightarrow> now + d < t"
proof -
  let ?l = "foldl window_step (window_new mx w) ts"
  have "window_ok ?l now \<and> max_hits ?l = mx"
    using window_run_ok [of "window_new mx w" 0 ts now] assms(1)
    by (simp add: window_ok_def window_new_def)
  then show ?thesis using window_refusal_exact [of ?l now d l' t] assms by simp
qed

theorem window_retry_after_exact_witness:
  "fst (window_check_at \<lparr>window = 10, max_hits = 1, hits = [0]\<rparr> 10) \<noteq> Ok () \<and>
   fst (window_check_at \<lparr>window = 10, max_hits = 1, hits = [0]\<rparr> 11) = Ok ()"
proof -
  have run: "window_check_at (foldl window_step (window_new 1 10) [0]) 5 =
      (Err 5, \<lparr>window = 10, max_hits = 1, hits = [0]\<rparr>)"
    by (simp add: window_check_at_def window_step_def window_new_def window_retry_after_def)
  show ?thesis
    using window_retry_after_exact [of "[0]" 5 1 10 5 "\<lparr>window = 10, max_hits = 1, hits = [0]\<rparr>" 10]
      window_retry_after_exact [of "[0]" 5 1 10 5 "\<lparr>window = 10, max_hits = 1, hits = [0]\<rparr>" 11] run
    by simp
qed

end
