(* ===== verification/RustStr.thy ===== *)
theory RustStr
  imports Prelude
begin

text \<open>
  Rust strings as the sequence of their Unicode scalar values. A \<open>str\<close> is a list of code points
  (\<^typ>\<open>nat\<close>), so that \<open>chars()\<close> is the list itself; \<open>len()\<close> is the length of the UTF-8 encoding.
  The theory holds what the components use of \<open>str\<close> and \<open>char\<close>: ASCII classes, Unicode white space,
  trimming, searching for a doubled brace, and the escaping that \<open>format!("{:?}", s)\<close> performs.
\<close>

type_synonym uchar = nat
type_synonym ustring = "uchar list"

definition ascii :: "string \<Rightarrow> ustring" where
  "ascii s = map of_char s"

lemma ascii_simps [simp]: "ascii [] = []" "ascii (c # s) = of_char c # ascii s"
  by (simp_all add: ascii_def)

subsection \<open>Character classes\<close>

definition is_ascii_digit :: "uchar \<Rightarrow> bool" where
  "is_ascii_digit c \<longleftrightarrow> 48 \<le> c \<and> c \<le> 57"

definition is_ascii_alphabetic :: "uchar \<Rightarrow> bool" where
  "is_ascii_alphabetic c \<longleftrightarrow> (65 \<le> c \<and> c \<le> 90) \<or> (97 \<le> c \<and> c \<le> 122)"

definition is_ascii_alphanumeric :: "uchar \<Rightarrow> bool" where
  "is_ascii_alphanumeric c \<longleftrightarrow> is_ascii_alphabetic c \<or> is_ascii_digit c"

text \<open>\<open>char::is_whitespace\<close>: the Unicode property \<open>White_Space\<close>.\<close>

definition is_whitespace :: "uchar \<Rightarrow> bool" where
  "is_whitespace c \<longleftrightarrow>
     (9 \<le> c \<and> c \<le> 13) \<or> c = 32 \<or> c = 133 \<or> c = 160 \<or> c = 5760 \<or>
     (8192 \<le> c \<and> c \<le> 8202) \<or> c = 8232 \<or> c = 8233 \<or> c = 8239 \<or> c = 8287 \<or> c = 12288"

definition to_ascii_lowercase :: "ustring \<Rightarrow> ustring" where
  "to_ascii_lowercase s = map (\<lambda>c. if 65 \<le> c \<and> c \<le> 90 then c + 32 else c) s"

definition to_ascii_uppercase :: "ustring \<Rightarrow> ustring" where
  "to_ascii_uppercase s = map (\<lambda>c. if 97 \<le> c \<and> c \<le> 122 then c - 32 else c) s"

definition utf8_width :: "uchar \<Rightarrow> nat" where
  "utf8_width c = (if c < 128 then 1 else if c < 2048 then 2 else if c < 65536 then 3 else 4)"

definition utf8_len :: "ustring \<Rightarrow> nat" where
  "utf8_len s = sum_list (map utf8_width s)"

lemma utf8_len_ascii: "\<forall>c\<in>set s. c < 128 \<Longrightarrow> utf8_len s = length s"
  by (induction s) (auto simp: utf8_len_def utf8_width_def)

definition trim :: "ustring \<Rightarrow> ustring" where
  "trim s = rev (dropWhile is_whitespace (rev (dropWhile is_whitespace s)))"

lemma trim_id:
  assumes "s \<noteq> []" and "\<not> is_whitespace (hd s)" and "\<not> is_whitespace (last s)"
  shows "trim s = s"
proof -
  obtain c cs where s: "s = c # cs" using assms(1) by (cases s) auto
  obtain d ds where r: "rev s = d # ds" using assms(1) by (cases "rev s") auto
  have "last s = d" using r assms(1) by (metis hd_rev list.sel(1))
  then have "dropWhile is_whitespace (rev s) = rev s" using assms(3) r by simp
  moreover have "dropWhile is_whitespace s = s" using assms(2) s by simp
  ultimately show ?thesis by (simp add: trim_def)
qed

lemma trim_infix: "\<exists>a b. s = a @ trim s @ b"
proof -
  let ?m = "dropWhile is_whitespace s"
  have "s = takeWhile is_whitespace s @ ?m" by simp
  moreover have "?m = trim s @ rev (takeWhile is_whitespace (rev ?m))"
    by (metis rev_append rev_rev_ident takeWhile_dropWhile_id trim_def)
  ultimately show ?thesis by metis
qed

subsection \<open>Searching for a doubled character\<close>

text \<open>
  \<open>s.find("{{")\<close> and \<open>s.find("}}")\<close>: the position of the first two adjacent occurrences, counted in
  characters. Slicing at that position is \<^const>\<open>take\<close> and \<^const>\<open>drop\<close>.
\<close>

fun find_pair :: "uchar \<Rightarrow> ustring \<Rightarrow> nat option" where
  "find_pair x (c # d # s) =
     (if c = x \<and> d = x then Some 0 else map_option Suc (find_pair x (d # s)))"
| "find_pair x _ = None"

fun no_pair :: "uchar \<Rightarrow> ustring \<Rightarrow> bool" where
  "no_pair x (c # d # s) = (\<not> (c = x \<and> d = x) \<and> no_pair x (d # s))"
| "no_pair x _ = True"

lemma find_pair_None: "find_pair x s = None \<longleftrightarrow> no_pair x s"
  by (induction x s rule: find_pair.induct) auto

lemma find_pair_append:
  "no_pair x (a @ [x]) \<Longrightarrow> find_pair x (a @ x # x # b) = Some (length a)"
proof (induction a)
  case (Cons c a)
  then show ?case by (cases a) auto
qed simp

lemma find_pair_Some:
  "find_pair x s = Some i \<Longrightarrow>
     no_pair x (take i s @ [x]) \<and> s = take i s @ x # x # drop (i + 2) s \<and> i + 2 \<le> length s"
proof (induction x s arbitrary: i rule: find_pair.induct)
  case (1 x c d s)
  show ?case
  proof (cases "c = x \<and> d = x")
    case True
    with "1.prems" show ?thesis by auto
  next
    case False
    with "1.prems" obtain j where j: "i = Suc j" "find_pair x (d # s) = Some j" by auto
    from "1.IH" [OF False j(2)] have ih: "no_pair x (take j (d # s) @ [x])"
      "d # s = take j (d # s) @ x # x # drop (j + 2) (d # s)" "j + 2 \<le> length (d # s)" by auto
    have "no_pair x (take i (c # d # s) @ [x])"
    proof (cases j)
      case 0
      then have "d = x" using ih(2) by simp
      with False 0 j(1) show ?thesis by simp
    next
      case (Suc k)
      with ih(1) False j(1) show ?thesis by auto
    qed
    moreover have "c # d # s = take i (c # d # s) @ x # x # drop (i + 2) (c # d # s)"
      using ih(2) j(1) by simp
    ultimately show ?thesis using ih(3) j(1) by simp
  qed
qed auto

lemmas find_pair_no_pair = find_pair_Some [THEN conjunct1]
lemmas find_pair_split = find_pair_Some [THEN conjunct2, THEN conjunct1]
lemmas find_pair_bound = find_pair_Some [THEN conjunct2, THEN conjunct2]

lemma no_pair_appendD1: "no_pair x (a @ b) \<Longrightarrow> no_pair x a"
proof (induction a)
  case (Cons c a)
  then show ?case by (cases a) auto
qed simp

lemma no_pair_ConsD: "no_pair x (c # s) \<Longrightarrow> no_pair x s"
  by (cases s) auto

lemma no_pair_appendD2: "no_pair x (a @ b) \<Longrightarrow> no_pair x b"
proof (induction a)
  case (Cons c a)
  then show ?case by (metis append_Cons no_pair_ConsD)
qed simp

lemma no_pair_infix: "no_pair x s \<Longrightarrow> s = a @ t @ b \<Longrightarrow> no_pair x t"
  by (metis no_pair_appendD1 no_pair_appendD2)

lemma no_pair_Cons_neq: "c \<noteq> x \<Longrightarrow> no_pair x (c # s) = no_pair x s"
  by (cases s) auto

lemma no_pair_append_sep:
  "c \<noteq> x \<Longrightarrow> no_pair x (a @ c # b) \<longleftrightarrow> no_pair x a \<and> no_pair x b"
proof (induction a)
  case Nil
  then show ?case by (simp add: no_pair_Cons_neq)
next
  case (Cons d a)
  then show ?case by (cases a) (auto simp: no_pair_Cons_neq)
qed

lemma no_pair_absent: "x \<notin> set s \<Longrightarrow> no_pair x s"
  by (induction x s rule: no_pair.induct) auto

lemma no_pair_absent_append: "x \<notin> set a \<Longrightarrow> no_pair x (a @ b) = no_pair x b"
  by (induction a) (auto simp: no_pair_Cons_neq)

subsection \<open>Debug formatting of strings\<close>

text \<open>
  \<open>format!("{:?}", s)\<close> quotes a string and escapes each character. Outside ASCII the escape depends on
  the tables of the standard library (grapheme extenders and unprintable characters), which are
  the parameter \<open>np\<close>.
\<close>

definition hex_digit :: "nat \<Rightarrow> uchar" where
  "hex_digit d = (if d < 10 then 48 + d else 87 + d)"

fun hex_digits :: "nat \<Rightarrow> ustring" where
  "hex_digits n = (if n < 16 then [hex_digit n] else hex_digits (n div 16) @ [hex_digit (n mod 16)])"

declare hex_digits.simps [simp del]

definition debug_escape :: "(uchar \<Rightarrow> bool) \<Rightarrow> uchar \<Rightarrow> ustring" where
  "debug_escape np c =
     (if c = 0 then [92, 48]
      else if c = 9 then [92, 116]
      else if c = 13 then [92, 114]
      else if c = 10 then [92, 110]
      else if c = 92 \<or> c = 34 then [92, c]
      else if c < 32 \<or> c = 127 \<or> (c > 127 \<and> np c) then [92, 117, 123] @ hex_digits c @ [125]
      else [c])"

definition debug_str :: "(uchar \<Rightarrow> bool) \<Rightarrow> ustring \<Rightarrow> ustring" where
  "debug_str np s = [34] @ concat (map (debug_escape np) s) @ [34]"

text \<open>Characters that \<open>{:?}\<close> prints as themselves, or only protects with a backslash.\<close>

definition plain_char :: "(uchar \<Rightarrow> bool) \<Rightarrow> uchar \<Rightarrow> bool" where
  "plain_char np c \<longleftrightarrow> 32 \<le> c \<and> c \<noteq> 127 \<and> \<not> (c > 127 \<and> np c)"

lemma debug_escape_plain:
  "plain_char np c \<Longrightarrow> debug_escape np c = (if c = 92 \<or> c = 34 then [92, c] else [c])"
  by (auto simp: debug_escape_def plain_char_def)

subsection \<open>Decimal numbers\<close>

text \<open>\<open>format!("{n}")\<close> for an unsigned integer.\<close>

fun show_nat :: "nat \<Rightarrow> ustring" where
  "show_nat n = (if n < 10 then [48 + n] else show_nat (n div 10) @ [48 + n mod 10])"

declare show_nat.simps [simp del]

definition digits_value :: "ustring \<Rightarrow> nat" where
  "digits_value s = foldl (\<lambda>acc c. 10 * acc + (c - 48)) 0 s"

text \<open>
  \<open>s.parse::<uN>()\<close> with \<open>bound = 2 ^ N\<close>: an optional plus sign, at least one digit, and a value that
  fits the type.
\<close>

definition parse_uint :: "nat \<Rightarrow> ustring \<Rightarrow> nat option" where
  "parse_uint bound s =
     (let ds = (case s of c # cs \<Rightarrow> if c = 43 then cs else s | [] \<Rightarrow> s) in
      if ds = [] \<or> (\<exists>c\<in>set ds. \<not> is_ascii_digit c) then None
      else if digits_value ds < bound then Some (digits_value ds) else None)"

lemma show_nat_digits: "\<forall>c\<in>set (show_nat n). is_ascii_digit c"
  by (induction n rule: show_nat.induct)
    (subst show_nat.simps, auto simp: is_ascii_digit_def)

lemma show_nat_nonempty: "show_nat n \<noteq> []"
  by (subst show_nat.simps) simp

lemma digits_value_show: "digits_value (show_nat n) = n"
proof (induction n rule: show_nat.induct)
  case (1 n)
  show ?case
  proof (cases "n < 10")
    case True
    then show ?thesis by (subst show_nat.simps) (simp add: digits_value_def)
  next
    case False
    with "1.IH" have "digits_value (show_nat (n div 10)) = n div 10" by simp
    with False show ?thesis by (subst show_nat.simps) (simp add: digits_value_def)
  qed
qed

lemma parse_uint_show: "n < bound \<Longrightarrow> parse_uint bound (show_nat n) = Some n"
proof -
  assume "n < bound"
  obtain c cs where s: "show_nat n = c # cs" using show_nat_nonempty by (cases "show_nat n") auto
  then have "c \<noteq> 43" using show_nat_digits [of n] by (auto simp: is_ascii_digit_def)
  with s \<open>n < bound\<close> show ?thesis
    using show_nat_digits [of n] digits_value_show [of n] by (simp add: parse_uint_def Let_def)
qed

lemma length_show_nat: "0 < d \<Longrightarrow> n < 10 ^ d \<Longrightarrow> length (show_nat n) \<le> d"
proof (induction d arbitrary: n)
  case (Suc d)
  show ?case
  proof (cases "n < 10")
    case True
    then show ?thesis by (subst show_nat.simps) simp
  next
    case False
    then have "0 < d" using Suc.prems by (cases d) auto
    moreover have "n div 10 < 10 ^ d" using Suc.prems(2) by (simp add: less_mult_imp_div_less mult.commute)
    ultimately show ?thesis using Suc.IH False by (subst show_nat.simps) simp
  qed
qed simp

text \<open>\<open>format!("{n:0width$}")\<close>: left-padded with zeros.\<close>

definition pad_zeros :: "nat \<Rightarrow> ustring \<Rightarrow> ustring" where
  "pad_zeros width s = replicate (width - length s) 48 @ s"

end
