(* ===== verification/Template.thy ===== *)
theory Template
  imports RustStr
begin

text \<open>
  The injection-template mini-language of \<^verbatim>\<open>crates/aka-core/src/template.rs\<close>: parsing, the set of
  referenced secrets, rendering, renaming a secret, and the canonical re-serialization. Base64 and
  percent encoding come from third-party crates and are parameters of \<open>render\<close>; the printability
  tables of the standard library are the parameter \<open>np\<close> of \<open>display_template\<close>. The main result is
  the round trip: what \<open>parse\<close> accepts, \<open>display\<close> prints so that it parses back to the same
  template, as long as its string literals hold only characters that \<open>{:?}\<close> leaves readable.
\<close>

subsection \<open>Data\<close>

datatype template_error =
    Unclosed
  | Empty
  | UnknownTransform ustring
  | NoArgs ustring
  | UrlArity
  | UnterminatedString
  | BadRef ustring
  | Unexpected ustring

datatype arg = ArgRef ustring | ArgLit ustring

datatype transform = Base64 | Url

datatype expr = ExprRef ustring | ExprTransform transform "arg list"

datatype segment = Literal ustring | Placeholder expr

type_synonym template = "segment list"

definition transform_name :: "transform \<Rightarrow> ustring" where
  "transform_name k = (case k of Base64 \<Rightarrow> ascii ''base64'' | Url \<Rightarrow> ascii ''url'')"

subsection \<open>Parsing\<close>

definition is_valid_secret_name :: "ustring \<Rightarrow> bool" where
  "is_valid_secret_name name =
     (case name of
        [] \<Rightarrow> False
      | c # cs \<Rightarrow> (is_ascii_alphabetic c \<or> c = 95) \<and>
          utf8_len name \<le> 64 \<and> (\<forall>d\<in>set cs. is_ascii_alphanumeric d \<or> d = 95))"

text \<open>The literal loop, entered after the opening quote; \<open>None\<close> is an unterminated literal.\<close>

fun parse_lit :: "ustring \<Rightarrow> (ustring \<times> ustring) option" where
  "parse_lit [] = None"
| "parse_lit (c # cs) =
     (if c = 34 then Some ([], cs)
      else if c = 92 then
        (case cs of
           [] \<Rightarrow> None
         | e # cs' \<Rightarrow>
             map_option (\<lambda>(lit, rest). ((if e = 34 \<or> e = 92 then [e] else [92, e]) @ lit, rest))
               (parse_lit cs'))
      else map_option (\<lambda>(lit, rest). (c # lit, rest)) (parse_lit cs))"

definition word_char :: "uchar \<Rightarrow> bool" where
  "word_char c \<longleftrightarrow> \<not> is_whitespace c \<and> c \<noteq> 34"

lemma parse_lit_length: "parse_lit s = Some (lit, rest) \<Longrightarrow> length rest < length s"
proof (induction s arbitrary: lit rest rule: parse_lit.induct)
  case (2 c cs)
  then show ?case by (fastforce split: if_splits list.splits)
qed simp

function parse_args :: "ustring \<Rightarrow> template_error + arg list" where
  "parse_args [] = Ok []"
| "parse_args (c # cs) =
     (if is_whitespace c then parse_args cs
      else if c = 34 then
        (case parse_lit cs of
           None \<Rightarrow> Err UnterminatedString
         | Some (lit, rest) \<Rightarrow>
             (case parse_args rest of Inl e \<Rightarrow> Err e | Inr args \<Rightarrow> Ok (ArgLit lit # args)))
      else
        let word = takeWhile word_char (c # cs) in
        if \<not> is_valid_secret_name word then Err (BadRef word)
        else (case parse_args (dropWhile word_char (c # cs)) of
                Inl e \<Rightarrow> Err e | Inr args \<Rightarrow> Ok (ArgRef word # args)))"
  by pat_completeness auto
termination
proof (relation "measure length")
  fix c cs x
  assume "\<not> is_whitespace c" "c \<noteq> 34" "x = takeWhile word_char (c # cs)"
  then show "(dropWhile word_char (c # cs), c # cs) \<in> measure length"
    by (simp add: word_char_def less_Suc_eq_le length_dropWhile_le)
qed (auto dest: parse_lit_length simp: less_Suc_eq)

declare parse_args.simps [simp del]

fun find_char :: "uchar \<Rightarrow> ustring \<Rightarrow> nat option" where
  "find_char x [] = None"
| "find_char x (c # s) = (if c = x then Some 0 else map_option Suc (find_char x s))"

definition transform_of_name :: "ustring \<Rightarrow> transform option" where
  "transform_of_name name =
     (if name = ascii ''base64'' then Some Base64 else if name = ascii ''url'' then Some Url else None)"

definition parse_expr :: "ustring \<Rightarrow> template_error + expr" where
  "parse_expr src =
     (let inner = trim src in
      if inner = [] then Err Empty
      else case find_char 40 inner of
        Some paren \<Rightarrow>
          let name = trim (take paren inner) in
          if last inner \<noteq> 41 then Err (Unexpected inner)
          else (case transform_of_name name of
            None \<Rightarrow> Err (UnknownTransform name)
          | Some kind \<Rightarrow>
              (case parse_args (drop (paren + 1) (butlast inner)) of
                 Inl e \<Rightarrow> Err e
               | Inr args \<Rightarrow>
                   if args = [] then Err (NoArgs (transform_name kind))
                   else if kind = Url \<and> length args \<noteq> 1 then Err UrlArity
                   else Ok (ExprTransform kind args)))
      | None \<Rightarrow>
          if \<not> is_valid_secret_name inner then Err (BadRef inner) else Ok (ExprRef inner))"

function parse_template :: "ustring \<Rightarrow> template_error + template" where
  "parse_template rest =
     (case find_pair 123 rest of
        None \<Rightarrow> Ok (if rest = [] then [] else [Literal rest])
      | Some op \<Rightarrow>
          let after = drop (op + 2) rest in
          (case find_pair 125 after of
             None \<Rightarrow> Err Unclosed
           | Some cl \<Rightarrow>
               (case parse_expr (take cl after) of
                  Inl e \<Rightarrow> Err e
                | Inr ex \<Rightarrow>
                    (case parse_template (drop (cl + 2) after) of
                       Inl e \<Rightarrow> Err e
                     | Inr segs \<Rightarrow>
                         Ok ((if op > 0 then [Literal (take op rest)] else []) @
                             Placeholder ex # segs)))))"
  by pat_completeness auto
termination
proof (relation "measure length")
  fix rest op after cl and ex :: expr
  assume "find_pair 123 rest = Some op" "after = drop (op + 2) rest"
  then show "(drop (cl + 2) after, rest) \<in> measure length"
    using find_pair_bound [of 123 rest op] by simp
qed simp

declare parse_template.simps [simp del]

subsection \<open>References, rendering, renaming\<close>

definition arg_refs :: "arg \<Rightarrow> ustring set" where
  "arg_refs a = (case a of ArgRef n \<Rightarrow> {n} | ArgLit _ \<Rightarrow> {})"

definition expr_refs :: "expr \<Rightarrow> ustring set" where
  "expr_refs e = (case e of ExprRef n \<Rightarrow> {n} | ExprTransform _ args \<Rightarrow> \<Union> (set (map arg_refs args)))"

fun template_refs :: "template \<Rightarrow> ustring set" where
  "template_refs [] = {}"
| "template_refs (Literal _ # segs) = template_refs segs"
| "template_refs (Placeholder e # segs) = expr_refs e \<union> template_refs segs"

fun render_args :: "(ustring \<Rightarrow> 'e + ustring) \<Rightarrow> arg list \<Rightarrow> 'e + ustring" where
  "render_args resolve [] = Ok []"
| "render_args resolve (ArgLit t # args) =
     (case render_args resolve args of Inl e \<Rightarrow> Err e | Inr s \<Rightarrow> Ok (t @ s))"
| "render_args resolve (ArgRef n # args) =
     (case resolve n of
        Inl e \<Rightarrow> Err e
      | Inr v \<Rightarrow> (case render_args resolve args of Inl e \<Rightarrow> Err e | Inr s \<Rightarrow> Ok (v @ s)))"

definition render_expr ::
    "(ustring \<Rightarrow> ustring) \<Rightarrow> (ustring \<Rightarrow> ustring) \<Rightarrow> (ustring \<Rightarrow> 'e + ustring) \<Rightarrow> expr \<Rightarrow> 'e + ustring" where
  "render_expr b64 pct resolve ex =
     (case ex of
        ExprRef n \<Rightarrow> resolve n
      | ExprTransform kind args \<Rightarrow>
          (case render_args resolve args of
             Inl e \<Rightarrow> Err e
           | Inr s \<Rightarrow> Ok (case kind of Base64 \<Rightarrow> b64 s | Url \<Rightarrow> pct s)))"

fun render :: "(ustring \<Rightarrow> ustring) \<Rightarrow> (ustring \<Rightarrow> ustring) \<Rightarrow> (ustring \<Rightarrow> 'e + ustring) \<Rightarrow>
    template \<Rightarrow> 'e + ustring" where
  "render b64 pct resolve [] = Ok []"
| "render b64 pct resolve (Literal t # segs) =
     (case render b64 pct resolve segs of Inl e \<Rightarrow> Err e | Inr s \<Rightarrow> Ok (t @ s))"
| "render b64 pct resolve (Placeholder ex # segs) =
     (case render_expr b64 pct resolve ex of
        Inl e \<Rightarrow> Err e
      | Inr v \<Rightarrow> (case render b64 pct resolve segs of Inl e \<Rightarrow> Err e | Inr s \<Rightarrow> Ok (v @ s)))"

definition rename_name :: "ustring \<Rightarrow> ustring \<Rightarrow> ustring \<Rightarrow> ustring" where
  "rename_name old new n = (if n = old then new else n)"

definition rename_arg :: "ustring \<Rightarrow> ustring \<Rightarrow> arg \<Rightarrow> arg" where
  "rename_arg old new a = (case a of ArgRef n \<Rightarrow> ArgRef (rename_name old new n) | ArgLit t \<Rightarrow> ArgLit t)"

definition rename_expr :: "ustring \<Rightarrow> ustring \<Rightarrow> expr \<Rightarrow> expr" where
  "rename_expr old new e =
     (case e of
        ExprRef n \<Rightarrow> ExprRef (rename_name old new n)
      | ExprTransform kind args \<Rightarrow> ExprTransform kind (map (rename_arg old new) args))"

definition rename_segment :: "ustring \<Rightarrow> ustring \<Rightarrow> segment \<Rightarrow> segment" where
  "rename_segment old new s =
     (case s of Literal t \<Rightarrow> Literal t | Placeholder e \<Rightarrow> Placeholder (rename_expr old new e))"

subsection \<open>Canonical form\<close>

definition display_arg :: "(uchar \<Rightarrow> bool) \<Rightarrow> arg \<Rightarrow> ustring" where
  "display_arg np a = (case a of ArgRef n \<Rightarrow> n | ArgLit t \<Rightarrow> debug_str np t)"

fun display_args :: "(uchar \<Rightarrow> bool) \<Rightarrow> arg list \<Rightarrow> ustring" where
  "display_args np [] = []"
| "display_args np [a] = display_arg np a"
| "display_args np (a # args) = display_arg np a @ [32] @ display_args np args"

definition display_expr :: "(uchar \<Rightarrow> bool) \<Rightarrow> expr \<Rightarrow> ustring" where
  "display_expr np e =
     (case e of
        ExprRef n \<Rightarrow> n
      | ExprTransform kind args \<Rightarrow> transform_name kind @ [40] @ display_args np args @ [41])"

fun display_template :: "(uchar \<Rightarrow> bool) \<Rightarrow> template \<Rightarrow> ustring" where
  "display_template np [] = []"
| "display_template np (Literal t # segs) = t @ display_template np segs"
| "display_template np (Placeholder e # segs) =
     [123, 123] @ display_expr np e @ [125, 125] @ display_template np segs"

definition rename_ref :: "(uchar \<Rightarrow> bool) \<Rightarrow> template \<Rightarrow> ustring \<Rightarrow> ustring \<Rightarrow> ustring" where
  "rename_ref np t old new = display_template np (map (rename_segment old new) t)"

subsection \<open>What parsing guarantees\<close>

definition wf_arg :: "arg \<Rightarrow> bool" where
  "wf_arg a = (case a of ArgRef n \<Rightarrow> is_valid_secret_name n | ArgLit t \<Rightarrow> no_pair 125 t)"

definition wf_expr :: "expr \<Rightarrow> bool" where
  "wf_expr e =
     (case e of
        ExprRef n \<Rightarrow> is_valid_secret_name n
      | ExprTransform kind args \<Rightarrow>
          args \<noteq> [] \<and> (\<forall>a\<in>set args. wf_arg a) \<and> (kind = Url \<longrightarrow> length args = 1))"

fun wf_template :: "template \<Rightarrow> bool" where
  "wf_template [] = True"
| "wf_template (Placeholder e # segs) = (wf_expr e \<and> wf_template segs)"
| "wf_template [Literal t] = (t \<noteq> [] \<and> no_pair 123 t)"
| "wf_template (Literal t # Placeholder e # segs) =
     (t \<noteq> [] \<and> no_pair 123 (t @ [123]) \<and> wf_expr e \<and> wf_template segs)"
| "wf_template (Literal _ # Literal _ # _) = False"

lemma parse_lit_no_pair:
  assumes "parse_lit s = Some (lit, rest)" and "no_pair 125 s"
  shows "no_pair 125 lit \<and> no_pair 125 rest \<and> (lit \<noteq> [] \<longrightarrow> hd lit = 125 \<longrightarrow> hd s = 125)"
  using assms
proof (induction s arbitrary: lit rest rule: parse_lit.induct)
  case (2 c cs)
  consider (quote) "c = 34" | (esc) e cs' where "c = 92" "cs = e # cs'" | (other) "c \<noteq> 34" "c \<noteq> 92"
    using "2.prems"(1) by (cases cs) (auto split: if_splits)
  then show ?case
  proof cases
    case quote
    with "2.prems" show ?thesis by (auto dest: no_pair_ConsD)
  next
    case esc
    then obtain l where l: "parse_lit cs' = Some (l, rest)"
      and lit: "lit = (if e = 34 \<or> e = 92 then [e] else [92, e]) @ l"
      using "2.prems"(1) by auto
    have np: "no_pair 125 (e # cs')" using "2.prems"(2) esc no_pair_ConsD by metis
    have ih: "no_pair 125 l" "no_pair 125 rest" "l \<noteq> [] \<longrightarrow> hd l = 125 \<longrightarrow> hd cs' = 125"
      using "2.IH"(1) [of e cs' l rest] esc l np no_pair_ConsD by auto
    have "cs' \<noteq> []" using l by (cases cs') auto
    then have "no_pair 125 (e # l)"
      using ih(1,3) np by (cases l; cases cs') auto
    with ih lit esc show ?thesis by (auto simp: no_pair_Cons_neq)
  next
    case other
    then obtain l where l: "parse_lit cs = Some (l, rest)" and lit: "lit = c # l"
      using "2.prems"(1) by auto
    have ih: "no_pair 125 l" "no_pair 125 rest" "l \<noteq> [] \<longrightarrow> hd l = 125 \<longrightarrow> hd cs = 125"
      using "2.IH"(2) [of l rest] other l "2.prems"(2) no_pair_ConsD by auto
    have "cs \<noteq> []" using l by (cases cs) auto
    then have "no_pair 125 (c # l)"
      using ih(1,3) "2.prems"(2) by (cases l; cases cs) auto
    with ih lit show ?thesis by simp
  qed
qed simp

lemma parse_args_wf:
  "parse_args s = Ok args \<Longrightarrow> no_pair 125 s \<Longrightarrow> \<forall>a\<in>set args. wf_arg a"
proof (induction s arbitrary: args rule: parse_args.induct)
  case 1
  then show ?case by (simp add: parse_args.simps)
next
  case (2 c cs)
  have tl: "no_pair 125 cs" using "2.prems"(2) no_pair_ConsD by blast
  consider (ws) "is_whitespace c" | (lit) "\<not> is_whitespace c" "c = 34"
    | (word) "\<not> is_whitespace c" "c \<noteq> 34" by blast
  then show ?case
  proof cases
    case ws
    with "2.prems"(1) "2.IH"(1) tl show ?thesis by (simp add: parse_args.simps)
  next
    case lit
    then obtain l rest args' where l: "parse_lit cs = Some (l, rest)"
      and args': "parse_args rest = Ok args'" "args = ArgLit l # args'"
      using "2.prems"(1) by (auto simp: parse_args.simps split: option.splits sum.splits)
    have "no_pair 125 l" "no_pair 125 rest" using parse_lit_no_pair [OF l tl] by auto
    with "2.IH"(2) lit l args' show ?thesis by (fastforce simp: wf_arg_def)
  next
    case word
    let ?w = "takeWhile word_char (c # cs)"
    obtain args' where v: "is_valid_secret_name ?w"
      and args': "parse_args (dropWhile word_char (c # cs)) = Ok args'" "args = ArgRef ?w # args'"
      using "2.prems"(1) word
      by (auto simp del: takeWhile.simps dropWhile.simps
          simp: parse_args.simps(2) [of c cs] Let_def split: if_splits sum.splits)
    have "no_pair 125 (dropWhile word_char (c # cs))"
      using "2.prems"(2) by (metis no_pair_appendD2 takeWhile_dropWhile_id)
    with "2.IH"(3) [of ?w args'] word v args' show ?thesis by (simp add: wf_arg_def)
  qed
qed

lemma parse_expr_wf:
  assumes "parse_expr s = Ok e" and "no_pair 125 s"
  shows "wf_expr e"
proof -
  have np: "no_pair 125 (trim s)" using assms(2) trim_infix no_pair_infix by metis
  show ?thesis
  proof (cases "find_char 40 (trim s)")
    case None
    with assms(1) show ?thesis
      by (auto simp: parse_expr_def Let_def wf_expr_def split: if_splits)
  next
    case (Some p)
    then obtain kind args where args: "parse_args (drop (p + 1) (butlast (trim s))) = Ok args"
      and e: "e = ExprTransform kind args" "args \<noteq> []" "kind = Url \<longrightarrow> length args = 1"
      using assms(1)
      by (auto simp: parse_expr_def Let_def split: if_splits option.splits sum.splits)
    have "no_pair 125 (drop (p + 1) (butlast (trim s)))"
      using np by (metis append_take_drop_id append_butlast_last_id butlast.simps(1) no_pair_appendD1
          no_pair_appendD2)
    from parse_args_wf [OF args this] e show ?thesis by (simp add: wf_expr_def)
  qed
qed

lemma wf_template_cons:
  assumes "wf_expr e" and "wf_template segs" and "no_pair 123 (t @ [123])"
  shows "wf_template ((if t \<noteq> [] then [Literal t] else []) @ Placeholder e # segs)"
  using assms by simp

lemma parse_template_wf: "parse_template s = Ok t \<Longrightarrow> wf_template t"
proof (induction s arbitrary: t rule: parse_template.induct)
  case (1 rest)
  show ?case
  proof (cases "find_pair 123 rest")
    case None
    with "1.prems" show ?thesis
      by (auto simp: parse_template.simps [of rest] find_pair_None split: if_splits)
  next
    case (Some op)
    let ?after = "drop (op + 2) rest"
    obtain cl ex segs where cl: "find_pair 125 ?after = Some cl"
      and ex: "parse_expr (take cl ?after) = Ok ex"
      and segs: "parse_template (drop (cl + 2) ?after) = Ok segs"
      and t: "t = (if op > 0 then [Literal (take op rest)] else []) @ Placeholder ex # segs"
      using "1.prems" Some
      by (auto simp: parse_template.simps [of rest] Let_def split: option.splits sum.splits)
    have "no_pair 125 (take cl ?after)"
      using find_pair_no_pair [OF cl] no_pair_appendD1 by blast
    from parse_expr_wf [OF ex this] have "wf_expr ex" .
    moreover have "wf_template segs" using "1.IH" [OF Some refl cl ex segs] .
    moreover have "no_pair 123 (take op rest @ [123])" by (rule find_pair_no_pair [OF Some])
    ultimately have
      "wf_template ((if take op rest \<noteq> [] then [Literal (take op rest)] else []) @ Placeholder ex # segs)"
      by (rule wf_template_cons)
    moreover have "op > 0 \<longleftrightarrow> take op rest \<noteq> []" using find_pair_bound [OF Some] by auto
    ultimately show ?thesis by (simp only: t)
  qed
qed

subsection \<open>What the canonical form preserves\<close>

definition plain_arg :: "(uchar \<Rightarrow> bool) \<Rightarrow> arg \<Rightarrow> bool" where
  "plain_arg np a = (case a of ArgRef _ \<Rightarrow> True | ArgLit t \<Rightarrow> (\<forall>c\<in>set t. plain_char np c))"

definition plain_segment :: "(uchar \<Rightarrow> bool) \<Rightarrow> segment \<Rightarrow> bool" where
  "plain_segment np s =
     (case s of Placeholder (ExprTransform _ args) \<Rightarrow> \<forall>a\<in>set args. plain_arg np a | _ \<Rightarrow> True)"

definition plain_template :: "(uchar \<Rightarrow> bool) \<Rightarrow> template \<Rightarrow> bool" where
  "plain_template np t \<longleftrightarrow> (\<forall>s\<in>set t. plain_segment np s)"

lemma valid_name_chars:
  assumes "is_valid_secret_name n"
  shows "n \<noteq> []" and "\<forall>c\<in>set n. is_ascii_alphanumeric c \<or> c = 95"
  using assms by (auto simp: is_valid_secret_name_def is_ascii_alphanumeric_def split: list.splits)

lemma name_char_props:
  assumes "is_ascii_alphanumeric c \<or> c = 95"
  shows "word_char c" "\<not> is_whitespace c" "c \<noteq> 34" "c \<noteq> 40" "c \<noteq> 123" "c \<noteq> 125"
  using assms
  by (auto simp: is_ascii_alphanumeric_def is_ascii_alphabetic_def is_ascii_digit_def word_char_def
      is_whitespace_def)

lemma parse_lit_escape:
  "\<forall>c\<in>set t. plain_char np c \<Longrightarrow>
     parse_lit (concat (map (debug_escape np) t) @ 34 # rest) = Some (t, rest)"
  by (induction t) (auto simp: debug_escape_plain)

lemma parse_args_display_arg:
  assumes "wf_arg a" and "plain_arg np a" and "rest = [] \<or> hd rest = 32"
  shows "parse_args (display_arg np a @ rest) =
    (case parse_args rest of Inl e \<Rightarrow> Err e | Inr args \<Rightarrow> Ok (a # args))"
proof (cases a)
  case (ArgLit t)
  then show ?thesis
    using assms(2) parse_lit_escape [of t np rest]
    by (simp add: display_arg_def debug_str_def plain_arg_def parse_args.simps(2) [of 34]
        is_whitespace_def split: sum.split)
next
  case (ArgRef n)
  with assms(1) have v: "is_valid_secret_name n" by (simp add: wf_arg_def)
  obtain c cs where n: "n = c # cs" using valid_name_chars(1) [OF v] by (cases n) auto
  have all: "\<forall>d\<in>set n. word_char d" using valid_name_chars(2) [OF v] name_char_props(1) by blast
  have c: "\<not> is_whitespace c" "c \<noteq> 34"
    using valid_name_chars(2) [OF v] name_char_props n by auto
  have stop: "takeWhile word_char rest = []" "dropWhile word_char rest = rest"
    using assms(3) by (cases rest; auto simp: word_char_def is_whitespace_def)+
  have "takeWhile word_char (c # cs @ rest) = n" "dropWhile word_char (c # cs @ rest) = rest"
    using all n stop by (auto simp: takeWhile_append dropWhile_append)
  then show ?thesis
    using v c ArgRef n
    by (simp del: takeWhile.simps dropWhile.simps add: parse_args.simps(2) [of c] display_arg_def
        split: sum.split)
qed

lemma parse_args_display:
  assumes "\<forall>a\<in>set args. wf_arg a \<and> plain_arg np a"
  shows "parse_args (display_args np args) = Ok args"
  using assms
proof (induction np args rule: display_args.induct)
  case (2 np a)
  then show ?case using parse_args_display_arg [of a np "[]"] by (simp add: parse_args.simps(1))
next
  case (3 np a b args)
  then show ?case
    using parse_args_display_arg [of a np "32 # display_args np (b # args)"]
    by (simp add: parse_args.simps(2) [of 32] is_whitespace_def)
qed (simp add: parse_args.simps)

lemma escape_no_pair:
  assumes "\<forall>c\<in>set t. plain_char np c" and "no_pair 125 t"
  shows "no_pair 125 (concat (map (debug_escape np) t))"
  using assms
proof (induction t)
  case (Cons c t)
  then have ih: "no_pair 125 (concat (map (debug_escape np) t))" using no_pair_ConsD by auto
  have esc: "debug_escape np c = (if c = 92 \<or> c = 34 then [92, c] else [c])"
    using Cons.prems by (simp add: debug_escape_plain)
  show ?case
  proof (cases "c = 125 \<and> t \<noteq> []")
    case True
    then obtain d ds where t: "t = d # ds" by (cases t) auto
    then have "d \<noteq> 125" using True Cons.prems(2) by simp
    moreover have "debug_escape np d = (if d = 92 \<or> d = 34 then [92, d] else [d])"
      using Cons.prems t by (simp add: debug_escape_plain)
    ultimately show ?thesis using ih esc True t by auto
  next
    case False
    with ih esc show ?thesis by (auto simp: no_pair_Cons_neq)
  qed
qed simp

lemma display_arg_no_pair:
  assumes "wf_arg a" and "plain_arg np a"
  shows "no_pair 125 (display_arg np a)"
proof (cases a)
  case (ArgRef n)
  then have "125 \<notin> set n" using assms(1) valid_name_chars(2) name_char_props(6)
    by (fastforce simp: wf_arg_def)
  then show ?thesis using ArgRef no_pair_absent by (simp add: display_arg_def)
next
  case (ArgLit t)
  then have "no_pair 125 (concat (map (debug_escape np) t))"
    using assms escape_no_pair by (simp add: wf_arg_def plain_arg_def)
  then show ?thesis
    using ArgLit no_pair_append_sep [of 34 125 "concat (map (debug_escape np) t)" "[]"]
    by (simp add: display_arg_def debug_str_def no_pair_Cons_neq)
qed

lemma display_args_no_pair:
  "\<forall>a\<in>set args. wf_arg a \<and> plain_arg np a \<Longrightarrow> no_pair 125 (display_args np args)"
  by (induction np args rule: display_args.induct)
    (auto simp: display_arg_no_pair no_pair_append_sep)

lemma transform_name_props:
  "125 \<notin> set (transform_name k)" "find_char 40 (transform_name k @ 40 # s) = Some (length (transform_name k))"
  "trim (transform_name k) = transform_name k" "transform_of_name (transform_name k) = Some k"
  "transform_name k \<noteq> []" "\<not> is_whitespace (hd (transform_name k))"
  by (cases k; simp add: transform_name_def transform_of_name_def trim_def is_whitespace_def)+

lemma find_char_absent: "x \<notin> set s \<Longrightarrow> find_char x s = None"
  by (induction s) auto

lemma parse_display_expr:
  assumes "wf_expr e" and "plain_segment np (Placeholder e)"
  shows "parse_expr (display_expr np e) = Ok e" and "no_pair 125 (display_expr np e @ [125])"
proof -
  have "parse_expr (display_expr np e) = Ok e \<and> no_pair 125 (display_expr np e @ [125])"
  proof (cases e)
    case (ExprRef n)
    then have v: "is_valid_secret_name n" using assms(1) by (simp add: wf_expr_def)
    note nc = valid_name_chars [OF v]
    have "trim n = n" using nc name_char_props(2) by (intro trim_id) auto
    moreover have "find_char 40 n = None" using nc name_char_props(4) by (intro find_char_absent) blast
    moreover have "125 \<notin> set n" using nc name_char_props(6) by blast
    ultimately show ?thesis
      using ExprRef v nc(1) by (simp add: display_expr_def parse_expr_def no_pair_absent_append)
  next
    case (ExprTransform k args)
    let ?d = "display_args np args"
    have wf: "args \<noteq> []" "\<forall>a\<in>set args. wf_arg a \<and> plain_arg np a" "k = Url \<longrightarrow> length args = 1"
      using assms ExprTransform by (auto simp: wf_expr_def plain_segment_def)
    let ?s = "transform_name k @ 40 # ?d @ [41]"
    have "trim ?s = ?s"
      using transform_name_props(5,6) by (intro trim_id) (auto simp: is_whitespace_def)
    moreover have "drop (length (transform_name k) + 1) (butlast ?s) = ?d"
      by (simp add: butlast_append)
    ultimately have "parse_expr ?s = Ok e"
      using parse_args_display [OF wf(2)] wf ExprTransform
      by (simp add: parse_expr_def transform_name_props)
    moreover have "no_pair 125 (?s @ [125])"
      using display_args_no_pair [OF wf(2)] transform_name_props(1)
      by (simp add: no_pair_absent_append no_pair_Cons_neq no_pair_append_sep)
    ultimately show ?thesis using ExprTransform by (simp add: display_expr_def)
  qed
  then show "parse_expr (display_expr np e) = Ok e" and "no_pair 125 (display_expr np e @ [125])"
    by auto
qed

lemma parse_placeholder:
  assumes "wf_expr e" and "plain_segment np (Placeholder e)" and "no_pair 123 (t @ [123])"
  shows "parse_template (t @ [123, 123] @ display_expr np e @ [125, 125] @ rest) =
    (case parse_template rest of
       Inl err \<Rightarrow> Err err
     | Inr segs \<Rightarrow> Ok ((if t \<noteq> [] then [Literal t] else []) @ Placeholder e # segs))"
proof -
  let ?x = "display_expr np e"
  let ?s = "t @ 123 # 123 # ?x @ 125 # 125 # rest"
  have o: "find_pair 123 ?s = Some (length t)" using find_pair_append [OF assms(3)] .
  have c: "find_pair 125 (?x @ 125 # 125 # rest) = Some (length ?x)"
    using find_pair_append [OF parse_display_expr(2) [OF assms(1,2)]] .
  have "parse_template ?s =
    (case parse_template rest of
       Inl err \<Rightarrow> Err err
     | Inr segs \<Rightarrow> Ok ((if t \<noteq> [] then [Literal t] else []) @ Placeholder e # segs))"
    using o c parse_display_expr(1) [OF assms(1,2)]
    by (simp add: parse_template.simps [of ?s] Let_def split: sum.splits)
  then show ?thesis by simp
qed

lemma parse_display:
  "wf_template t \<Longrightarrow> plain_template np t \<Longrightarrow> parse_template (display_template np t) = Ok t"
proof (induction t rule: wf_template.induct)
  case 1
  show ?case by (simp add: parse_template.simps [of "[]"])
next
  case (2 e segs)
  then show ?case
    using parse_placeholder [of e np "[]" "display_template np segs"]
    by (simp add: plain_template_def)
next
  case (3 t)
  then show ?case by (simp add: parse_template.simps [of t] find_pair_None [THEN iffD2])
next
  case (4 t e segs)
  then show ?case
    using parse_placeholder [of e np t "display_template np segs"] by (simp add: plain_template_def)
qed simp

subsection \<open>Renaming a reference\<close>

lemma wf_rename_arg:
  "is_valid_secret_name new \<Longrightarrow> wf_arg a \<Longrightarrow> wf_arg (rename_arg old new a)"
  by (cases a) (auto simp: wf_arg_def rename_arg_def rename_name_def)

lemma wf_rename_expr:
  "is_valid_secret_name new \<Longrightarrow> wf_expr e \<Longrightarrow> wf_expr (rename_expr old new e)"
  by (cases e) (auto simp: wf_expr_def rename_expr_def rename_name_def wf_rename_arg)

lemma rename_arg_simps [simp]:
  "rename_arg old new (ArgRef n) = ArgRef (rename_name old new n)"
  "rename_arg old new (ArgLit t) = ArgLit t"
  by (simp_all add: rename_arg_def)

lemma rename_segment_simps [simp]:
  "rename_segment old new (Literal t) = Literal t"
  "rename_segment old new (Placeholder e) = Placeholder (rename_expr old new e)"
  by (simp_all add: rename_segment_def)

lemma wf_rename_template:
  "is_valid_secret_name new \<Longrightarrow> wf_template t \<Longrightarrow> wf_template (map (rename_segment old new) t)"
  by (induction t rule: wf_template.induct) (auto simp: wf_rename_expr)

lemma plain_rename_arg [simp]: "plain_arg np (rename_arg old new a) = plain_arg np a"
  by (cases a) (auto simp: plain_arg_def rename_arg_def)

lemma plain_rename_template:
  "plain_template np (map (rename_segment old new) t) = plain_template np t"
proof -
  have "plain_segment np (rename_segment old new s) = plain_segment np s" for s
    by (auto simp: plain_segment_def rename_segment_def rename_expr_def
        split: segment.split expr.split)
  then show ?thesis by (simp add: plain_template_def)
qed

lemma arg_refs_rename: "arg_refs (rename_arg old new a) = rename_name old new ` arg_refs a"
  by (cases a) (auto simp: arg_refs_def rename_arg_def)

lemma expr_refs_rename: "expr_refs (rename_expr old new e) = rename_name old new ` expr_refs e"
  by (cases e) (auto simp: expr_refs_def rename_expr_def arg_refs_rename)

lemma template_refs_rename:
  "template_refs (map (rename_segment old new) t) = rename_name old new ` template_refs t"
  by (induction t rule: template_refs.induct) (auto simp: expr_refs_rename)

lemma render_args_rename:
  "render_args resolve (map (rename_arg old new) args) =
   render_args (\<lambda>n. resolve (rename_name old new n)) args"
proof (induction args)
  case (Cons a args)
  then show ?case by (cases a) (auto split: sum.split)
qed simp

lemma render_expr_rename:
  "render_expr b64 pct resolve (rename_expr old new e) =
   render_expr b64 pct (\<lambda>n. resolve (rename_name old new n)) e"
  by (cases e) (auto simp: render_expr_def rename_expr_def render_args_rename)

lemma render_rename:
  "render b64 pct resolve (map (rename_segment old new) t) =
   render b64 pct (\<lambda>n. resolve (rename_name old new n)) t"
proof (induction t)
  case (Cons s t)
  then show ?case by (cases s) (auto simp: render_expr_rename split: sum.split)
qed simp

subsection \<open>Rendering reads exactly the references\<close>

lemma render_args_cong:
  "\<forall>a\<in>set args. \<forall>n\<in>arg_refs a. resolve n = resolve' n \<Longrightarrow>
     render_args resolve args = render_args resolve' args"
proof (induction args)
  case (Cons a args)
  then show ?case by (cases a) (auto simp: arg_refs_def split: sum.split)
qed simp

lemma render_expr_cong:
  "\<forall>n\<in>expr_refs e. resolve n = resolve' n \<Longrightarrow>
     render_expr b64 pct resolve e = render_expr b64 pct resolve' e"
proof (cases e)
  case (ExprTransform k args)
  assume "\<forall>n\<in>expr_refs e. resolve n = resolve' n"
  then have "render_args resolve args = render_args resolve' args"
    using ExprTransform by (intro render_args_cong) (auto simp: expr_refs_def)
  then show ?thesis using ExprTransform by (simp add: render_expr_def)
qed (simp add: expr_refs_def render_expr_def)

lemma render_cong:
  "\<forall>n\<in>template_refs t. resolve n = resolve' n \<Longrightarrow>
     render b64 pct resolve t = render b64 pct resolve' t"
proof (induction t)
  case (Cons s t)
  then show ?case
    using render_expr_cong [of _ resolve resolve' b64 pct] by (cases s) (auto split: sum.split)
qed simp

lemma render_args_err:
  "is_err (render_args resolve args) \<longleftrightarrow> (\<exists>a\<in>set args. \<exists>n\<in>arg_refs a. is_err (resolve n))"
proof (induction args)
  case (Cons a args)
  then show ?case by (cases a) (auto simp: arg_refs_def is_err_def split: sum.splits)
qed simp

lemma render_expr_err:
  "is_err (render_expr b64 pct resolve e) \<longleftrightarrow> (\<exists>n\<in>expr_refs e. is_err (resolve n))"
proof (cases e)
  case (ExprTransform k args)
  have "is_err (render_expr b64 pct resolve e) \<longleftrightarrow> is_err (render_args resolve args)"
    using ExprTransform by (auto simp: render_expr_def is_err_def split: sum.splits)
  then show ?thesis using ExprTransform by (simp add: render_args_err expr_refs_def)
qed (simp add: render_expr_def expr_refs_def)

lemma render_err:
  "is_err (render b64 pct resolve t) \<longleftrightarrow> (\<exists>n\<in>template_refs t. is_err (resolve n))"
proof (induction t)
  case (Cons s t)
  show ?case
  proof (cases s)
    case (Literal l)
    then show ?thesis using Cons by (auto simp: is_err_def split: sum.splits)
  next
    case (Placeholder e)
    have "is_err (render b64 pct resolve (s # t)) \<longleftrightarrow>
        is_err (render_expr b64 pct resolve e) \<or> is_err (render b64 pct resolve t)"
      using Placeholder by (auto simp: is_err_def split: sum.splits)
    then show ?thesis using Placeholder Cons by (auto simp: render_expr_err)
  qed
qed simp

subsection \<open>Properties\<close>

text \<open>
  C40. Round trip: the canonical form of every template that parses is itself a template source
  that parses to the same template, provided its string arguments hold no control character and no
  character that the debug format takes for unprintable (\<open>plain_template\<close>). Those characters are
  printed as escapes that the parser reads differently, so such a template need not round-trip.
\<close>

theorem template_round_trip:
  assumes "parse_template src = Ok t" and "plain_template np t"
  shows "parse_template (display_template np t) = Ok t"
  using parse_display [OF parse_template_wf [OF assms(1)] assms(2)] .

lemma parse_bearer: "parse_template (ascii ''B {{ A }}!'') =
    Ok [Literal (ascii ''B ''), Placeholder (ExprRef (ascii ''A'')), Literal (ascii ''!'')]"
  by (simp add: parse_template.simps parse_expr_def trim_def is_whitespace_def
      is_valid_secret_name_def is_ascii_alphabetic_def utf8_len_def utf8_width_def)

theorem template_round_trip_witness:
  "parse_template (display_template (\<lambda>_. False)
      [Literal (ascii ''B ''), Placeholder (ExprRef (ascii ''A'')), Literal (ascii ''!'')]) =
    Ok [Literal (ascii ''B ''), Placeholder (ExprRef (ascii ''A'')), Literal (ascii ''!'')]"
  by (rule template_round_trip [OF parse_bearer])
    (simp add: plain_template_def plain_segment_def)

text \<open>
  Renaming a secret rewrites every reference and nothing else: for a template that parses, with
  readable literals, and a valid new name, the rewritten source parses, references exactly the
  renamed names, and renders under any resolver as the old template does when the old name is
  resolved as the new one.
\<close>

theorem rename_ref_correct:
  assumes "parse_template src = Ok t" and "plain_template np t" and "is_valid_secret_name new"
  shows "\<exists>t'. parse_template (rename_ref np t old new) = Ok t' \<and>
    template_refs t' = rename_name old new ` template_refs t \<and>
    (\<forall>resolve. render b64 pct resolve t' = render b64 pct (\<lambda>n. resolve (rename_name old new n)) t)"
proof -
  let ?t = "map (rename_segment old new) t"
  have "parse_template (rename_ref np t old new) = Ok ?t"
    unfolding rename_ref_def
    using parse_display wf_rename_template [OF assms(3) parse_template_wf [OF assms(1)]] assms(2)
    by (simp add: plain_rename_template)
  then show ?thesis
    by (intro exI [of _ ?t]) (simp add: template_refs_rename render_rename)
qed

theorem rename_ref_correct_witness:
  "\<exists>t'. parse_template (rename_ref (\<lambda>_. False)
      [Literal (ascii ''B ''), Placeholder (ExprRef (ascii ''A'')), Literal (ascii ''!'')]
      (ascii ''A'') (ascii ''N'')) = Ok t' \<and>
    template_refs t' = {ascii ''N''} \<and>
    (\<forall>resolve :: ustring \<Rightarrow> unit + ustring. render id id resolve t' =
      render id id (\<lambda>n. resolve (rename_name (ascii ''A'') (ascii ''N'') n))
        [Literal (ascii ''B ''), Placeholder (ExprRef (ascii ''A'')), Literal (ascii ''!'')])"
  using rename_ref_correct [OF parse_bearer, of "\<lambda>_. False" "ascii ''N''" "ascii ''A''" id id]
  by (simp add: plain_template_def plain_segment_def is_valid_secret_name_def
      is_ascii_alphabetic_def utf8_len_def utf8_width_def expr_refs_def rename_name_def)

text \<open>
  The readability condition is needed, and renaming a secret is where it bites: a literal
  holding a raw tab is written back as backslash-t, which the argument grammar reads as two
  characters, so the renamed template injects a different value.
\<close>

theorem rename_ref_tab_literal:
  "parse_template (ascii ''{{base64(A '' @ [34, 9, 34] @ ascii '')}}'') =
     Ok [Placeholder (ExprTransform Base64 [ArgRef (ascii ''A''), ArgLit [9]])] \<and>
   parse_template (rename_ref np
       [Placeholder (ExprTransform Base64 [ArgRef (ascii ''A''), ArgLit [9]])]
       (ascii ''A'') (ascii ''N'')) =
     Ok [Placeholder (ExprTransform Base64 [ArgRef (ascii ''N''), ArgLit [92, 116]])]"
  by (simp add: parse_template.simps parse_expr_def trim_def is_whitespace_def parse_args.simps
      transform_of_name_def rename_ref_def display_expr_def display_arg_def debug_str_def
      debug_escape_def rename_expr_def rename_arg_def rename_name_def transform_name_def
      word_char_def is_valid_secret_name_def is_ascii_alphabetic_def utf8_len_def utf8_width_def)

text \<open>
  \<open>refs\<close> is exact: rendering reads the resolver only at the referenced names (two resolvers
  that agree there render the same), and it fails exactly when one of these names fails to resolve.
\<close>

theorem template_refs_exact:
  "((\<forall>n\<in>template_refs t. resolve n = resolve' n) \<longrightarrow>
     render b64 pct resolve t = render b64 pct resolve' t) \<and>
   (is_err (render b64 pct resolve t) \<longleftrightarrow> (\<exists>n\<in>template_refs t. is_err (resolve n)))"
  using render_cong render_err by blast

theorem template_refs_exact_witness:
  "render id id (\<lambda>n. if n = [65] then Ok [1] else Err ()) [Placeholder (ExprRef [65])] =
   render id id (\<lambda>n. Ok [1] :: unit + ustring) [Placeholder (ExprRef [65])]"
  using template_refs_exact [of "[Placeholder (ExprRef [65])]"
      "\<lambda>n. if n = [65] then Ok [1] else Err ()" "\<lambda>n. Ok [1]" id id]
  by (simp add: expr_refs_def)

end
