(* ===== verification/Totp.thy ===== *)
theory Totp
  imports RustStr
begin

unbundle bit_operations_syntax

text \<open>
  Time-based one-time passwords, \<^verbatim>\<open>crates/aka-core/src/totp.rs\<close>: the hand-written Base32 codec on
  32-bit accumulators, parsing of seeds and \<open>otpauth\<close> URIs, the canonical vault representation and
  the RFC 6238 code. The URL parser (crate \<open>url\<close>) and the three HMACs (crates \<open>hmac\<close>, \<open>sha1\<close>,
  \<open>sha2\<close>) are parameters.
\<close>

subsection \<open>Data\<close>

datatype totp_algorithm = Sha1 | Sha256 | Sha512

definition algorithm_str :: "totp_algorithm \<Rightarrow> ustring" where
  "algorithm_str a =
     (case a of Sha1 \<Rightarrow> ascii ''SHA1'' | Sha256 \<Rightarrow> ascii ''SHA256'' | Sha512 \<Rightarrow> ascii ''SHA512'')"

record totp_spec =
  secret :: "8 word list"
  algorithm :: totp_algorithm
  digits :: nat
  period :: nat

text \<open>The messages of \<open>CoreError::InvalidTotpSeed\<close>, one constructor per message.\<close>

datatype totp_error =
    NoInput | InputTooLong | OnlyTotpUris | UnreadableUri | NotTimeBased | UnsupportedAlgorithm ustring
  | BadDigits | BadPeriod | NoSecret | NotBase32 | CharsAfterPadding | SecretTooShort

subsection \<open>Base32\<close>

text \<open>The value of a Base32 character; the loop skips spaces and dashes and notes padding.\<close>

definition b32_value :: "uchar \<Rightarrow> 32 word option" where
  "b32_value c =
     (if 65 \<le> c \<and> c \<le> 90 then Some (of_nat (c - 65))
      else if 97 \<le> c \<and> c \<le> 122 then Some (of_nat (c - 97))
      else if 50 \<le> c \<and> c \<le> 55 then Some (of_nat (c - 50 + 26))
      else None)"

fun decode_loop :: "ustring \<Rightarrow> 32 word \<Rightarrow> nat \<Rightarrow> bool \<Rightarrow> totp_error + 8 word list" where
  "decode_loop [] bits nbits padding = Ok []"
| "decode_loop (ch # chs) bits nbits padding =
     (if ch = 32 \<or> ch = 45 then decode_loop chs bits nbits padding
      else if ch = 61 then decode_loop chs bits nbits True
      else case b32_value ch of
        None \<Rightarrow> Err NotBase32
      | Some v \<Rightarrow>
          if padding then Err CharsAfterPadding
          else
            let bits' = push_bit 5 bits OR v; nbits' = nbits + 5 in
            if nbits' \<ge> 8 then
              (case decode_loop chs (bits' AND (push_bit (nbits' - 8) 1 - 1)) (nbits' - 8) padding of
                 Inl e \<Rightarrow> Err e
               | Inr out \<Rightarrow> Ok (ucast (drop_bit (nbits' - 8) bits') # out))
            else decode_loop chs bits' nbits' padding)"

definition decode_base32 :: "ustring \<Rightarrow> totp_error + 8 word list" where
  "decode_base32 input =
     (case decode_loop input 0 0 False of
        Inl e \<Rightarrow> Err e
      | Inr out \<Rightarrow> if length out < 8 then Err SecretTooShort else Ok out)"

definition b32_alphabet :: ustring where
  "b32_alphabet = ascii ''ABCDEFGHIJKLMNOPQRSTUVWXYZ234567''"

definition b32_char :: "32 word \<Rightarrow> uchar" where
  "b32_char w = b32_alphabet ! unat (w AND 31)"

text \<open>The inner \<open>while nbits >= 5\<close> loop: the characters it pushes and the bits it leaves.\<close>

fun emit_groups :: "32 word \<Rightarrow> nat \<Rightarrow> ustring \<times> nat" where
  "emit_groups bits nbits =
     (if nbits \<ge> 5 then
        let (out, rest) = emit_groups bits (nbits - 5) in (b32_char (drop_bit (nbits - 5) bits) # out, rest)
      else ([], nbits))"

declare emit_groups.simps [simp del]

fun encode_loop :: "8 word list \<Rightarrow> 32 word \<Rightarrow> nat \<Rightarrow> ustring" where
  "encode_loop [] bits nbits =
     (if nbits > 0 then [b32_char (push_bit (5 - nbits) bits)] else [])"
| "encode_loop (byte # bytes) bits nbits =
     (let bits' = push_bit 8 bits OR ucast byte;
          (out, rest) = emit_groups bits' (nbits + 8)
      in out @ encode_loop bytes bits' rest)"

definition encode_base32 :: "8 word list \<Rightarrow> ustring" where
  "encode_base32 bytes = encode_loop bytes 0 0"

subsection \<open>Seeds and URIs\<close>

text \<open>
  The result of \<open>url::Url::parse\<close> as far as the code reads it: the host and the decoded query pairs.
\<close>

record parsed_url =
  host :: "ustring option"
  query_pairs :: "(ustring \<times> ustring) list"

type_synonym url_parser = "ustring \<Rightarrow> parsed_url option"

text \<open>One query pair of the loop in \<open>parse_otpauth\<close>, on the four locals it updates.\<close>

type_synonym otpauth_locals = "8 word list option \<times> totp_algorithm \<times> nat \<times> nat"

definition otpauth_pair ::
    "otpauth_locals \<Rightarrow> ustring \<times> ustring \<Rightarrow> totp_error + otpauth_locals" where
  "otpauth_pair st kv =
     (case st of (sec, alg, dig, per) \<Rightarrow>
      let key = to_ascii_lowercase (fst kv); v = snd kv in
      if key = ascii ''secret'' then
        (case decode_base32 v of Inl e \<Rightarrow> Err e | Inr s \<Rightarrow> Ok (Some s, alg, dig, per))
      else if key = ascii ''algorithm'' then
        (let up = to_ascii_uppercase v in
         if up = ascii ''SHA1'' then Ok (sec, Sha1, dig, per)
         else if up = ascii ''SHA256'' then Ok (sec, Sha256, dig, per)
         else if up = ascii ''SHA512'' then Ok (sec, Sha512, dig, per)
         else Err (UnsupportedAlgorithm up))
      else if key = ascii ''digits'' then
        (case parse_uint (2 ^ 32) v of
           Some d \<Rightarrow> if 6 \<le> d \<and> d \<le> 8 then Ok (sec, alg, d, per) else Err BadDigits
         | None \<Rightarrow> Err BadDigits)
      else if key = ascii ''period'' then
        (case parse_uint (2 ^ 64) v of
           Some p \<Rightarrow> if 15 \<le> p \<and> p \<le> 120 then Ok (sec, alg, dig, p) else Err BadPeriod
         | None \<Rightarrow> Err BadPeriod)
      else Ok st)"

fun otpauth_loop :: "otpauth_locals \<Rightarrow> (ustring \<times> ustring) list \<Rightarrow> totp_error + otpauth_locals" where
  "otpauth_loop st [] = Ok st"
| "otpauth_loop st (kv # kvs) =
     (case otpauth_pair st kv of Inl e \<Rightarrow> Err e | Inr st' \<Rightarrow> otpauth_loop st' kvs)"

definition parse_otpauth :: "url_parser \<Rightarrow> ustring \<Rightarrow> totp_error + totp_spec" where
  "parse_otpauth url_parse input =
     (case url_parse input of
        None \<Rightarrow> Err UnreadableUri
      | Some uri \<Rightarrow>
          if map_option to_ascii_lowercase (host uri) \<noteq> Some (ascii ''totp'') then Err NotTimeBased
          else (case otpauth_loop (None, Sha1, 6, 30) (query_pairs uri) of
            Inl e \<Rightarrow> Err e
          | Inr (None, _, _, _) \<Rightarrow> Err NoSecret
          | Inr (Some s, a, d, p) \<Rightarrow>
              Ok \<lparr>secret = s, algorithm = a, digits = d, period = p\<rparr>))"

fun contains_scheme_sep :: "ustring \<Rightarrow> bool" where
  "contains_scheme_sep [] = False"
| "contains_scheme_sep (c # s) = (take 3 (c # s) = ascii ''://'' \<or> contains_scheme_sep s)"

definition totp_parse :: "url_parser \<Rightarrow> ustring \<Rightarrow> totp_error + totp_spec" where
  "totp_parse url_parse input =
     (let trimmed = trim input; lower = to_ascii_lowercase trimmed in
      if trimmed = [] then Err NoInput
      else if utf8_len trimmed > 2048 then Err InputTooLong
      else if take 10 lower = ascii ''otpauth://'' then parse_otpauth url_parse trimmed
      else if contains_scheme_sep lower then Err OnlyTotpUris
      else (case decode_base32 trimmed of
              Inl e \<Rightarrow> Err e
            | Inr s \<Rightarrow> Ok \<lparr>secret = s, algorithm = Sha1, digits = 6, period = 30\<rparr>))"

definition canonical :: "totp_spec \<Rightarrow> ustring" where
  "canonical spec =
     ascii ''otpauth://totp/multitool?secret='' @ encode_base32 (secret spec) @
     ascii ''&algorithm='' @ algorithm_str (algorithm spec) @
     ascii ''&digits='' @ show_nat (digits spec) @
     ascii ''&period='' @ show_nat (period spec)"

subsection \<open>Codes\<close>

definition be_bytes64 :: "nat \<Rightarrow> 8 word list" where
  "be_bytes64 n = map (\<lambda>i. of_nat (n div 256 ^ (7 - i))) [0..<8]"

text \<open>Dynamic truncation on 32-bit words; an index past the end of the MAC panics.\<close>

definition truncate_mac :: "8 word list \<Rightarrow> 32 word outcome" where
  "truncate_mac mac =
     (if mac = [] then Panic
      else let offset = unat (last mac AND 15) in
        if offset + 3 \<ge> length mac then Panic
        else Return (push_bit 24 (ucast (mac ! offset AND 127)) OR
                     push_bit 16 (ucast (mac ! (offset + 1))) OR
                     push_bit 8 (ucast (mac ! (offset + 2))) OR
                     ucast (mac ! (offset + 3))))"

definition code_at ::
    "(totp_algorithm \<Rightarrow> 8 word list \<Rightarrow> 8 word list \<Rightarrow> 8 word list) \<Rightarrow> totp_spec \<Rightarrow> nat \<Rightarrow>
     (ustring \<times> nat) outcome" where
  "code_at hmac spec unix_secs =
     (if period spec = 0 then Panic
      else let counter = unix_secs div period spec in
        (case truncate_mac (hmac (algorithm spec) (secret spec) (be_bytes64 counter)) of
           Panic \<Rightarrow> Panic
         | Return binary \<Rightarrow>
             let code = unat binary mod 10 ^ digits spec;
                 remaining = period spec - unix_secs mod period spec
             in Return (pad_zeros (digits spec) (show_nat code), remaining)))"

subsection \<open>The codec on numbers\<close>

lemma unat_shift_or:
  assumes "unat (x :: 32 word) < 2 ^ (32 - k)" and "unat v < 2 ^ k" and "k < 32"
  shows "unat (push_bit k x OR v) = unat x * 2 ^ k + unat v"
proof -
  have "push_bit k x + v = push_bit k x OR v"
  proof (rule disjunctive_add)
    fix n
    show "\<not> bit (push_bit k x) n \<or> \<not> bit v n"
    proof (cases "n < k")
      case False
      have "take_bit k (unat v) = unat v" using assms(2) by (simp add: take_bit_nat_eq_self)
      then have "unat (take_bit k v) = unat v" by (simp add: unsigned_take_bit_eq)
      then have "take_bit k v = v" by (rule unsigned_word_eqI)
      then have "bit v n \<longleftrightarrow> n < k \<and> bit v n" by (metis bit_take_bit_iff)
      with False show ?thesis by auto
    qed (simp add: bit_push_bit_iff)
  qed
  moreover have "unat (push_bit k x + v) = unat x * 2 ^ k + unat v"
  proof -
    have "unat x * 2 ^ k + unat v < 2 ^ 32"
    proof -
      have "unat x * 2 ^ k + unat v < unat x * 2^k + 2^k" using assms(2) by simp
      also have "\<dots> = (unat x + 1) * 2^k" by simp
      also have "\<dots> \<le> 2 ^ (32 - k) * 2 ^ k" using assms(1) by (intro mult_right_mono) auto
      also have "\<dots> = 2 ^ 32" using assms(3) by (simp flip: power_add)
      finally show ?thesis .
    qed
    moreover have "push_bit k x + v = of_nat (unat x * 2^k + unat v)"
      by (simp add: push_bit_eq_mult)
    ultimately show ?thesis by (simp only: unat_of_nat) simp
  qed
  ultimately show ?thesis by simp
qed

lemma unat_and_low: "unat (x AND (push_bit k 1 - 1) :: 32 word) = unat x mod 2 ^ k"
proof -
  have "push_bit k 1 - 1 = (mask k :: 32 word)" by (simp add: mask_eq_decr_exp push_bit_eq_mult)
  then have "x AND (push_bit k 1 - 1) = take_bit k x" by (simp only: take_bit_eq_mask)
  then show ?thesis unfolding unsigned_take_bit_eq by (simp add: unsigned_take_bit_eq flip: take_bit_eq_mod)
qed

lemma unat_drop: "unat (drop_bit k (x :: 32 word)) = unat x div 2 ^ k"
  unfolding unat_drop_bit_eq by (rule drop_bit_eq_div)

lemma unat_group: "unat (drop_bit k (x :: 32 word) AND 31) = (unat x div 2 ^ k) mod 32"
  using unat_and_low [of "drop_bit k x" 5] by (simp add: unat_drop)

lemma unat_of_nat32: "n < 2 ^ 32 \<Longrightarrow> unat (of_nat n :: 32 word) = n"
  by (simp add: unat_of_nat take_bit_nat_eq_self)

lemma b32_alphabet_value:
  "s < 32 \<Longrightarrow> b32_value (b32_alphabet ! s) = Some (of_nat s) \<and> b32_alphabet ! s \<notin> {32, 45, 61}"
proof -
  have "\<forall>s\<in>set [0..<32]. b32_value (b32_alphabet ! s) = Some (of_nat s) \<and> b32_alphabet ! s \<notin> {32, 45, 61}"
    by (simp add: b32_alphabet_def b32_value_def upt_rec)
  then show "s < 32 \<Longrightarrow> ?thesis" by (simp add: Ball_def)
qed


lemma decode_loop_symbol:
  assumes "b32_value ch = Some v" and "ch \<notin> {32, 45, 61}" and "push_bit 5 bits OR v = x"
  shows "decode_loop (ch # chs) bits nd False =
    (if nd < 3 then decode_loop chs x (nd + 5) False
     else case decode_loop chs (x AND (push_bit (nd - 3) 1 - 1)) (nd - 3) False of
       Inl e \<Rightarrow> Err e | Inr out \<Rightarrow> Ok (ucast (drop_bit (nd - 3) x) # out))"
proof -
  have "nd + 5 \<ge> 8 \<longleftrightarrow> \<not> nd < 3" and "nd + 5 - 8 = nd - 3" by auto
  with assms show ?thesis by (simp add: Let_def split: sum.split)
qed

text \<open>One decoder step on numbers.\<close>

lemma decode_step:
  assumes "nd < 8" and "d < 2 ^ nd" and "s < 32"
  shows "decode_loop (b32_alphabet ! s # chs) (of_nat d) nd False =
    (if nd < 3 then decode_loop chs (of_nat (d * 32 + s)) (nd + 5) False
     else case decode_loop chs (of_nat ((d * 32 + s) mod 2 ^ (nd - 3))) (nd - 3) False of
       Inl e \<Rightarrow> Err e
     | Inr out \<Rightarrow> Ok (of_nat ((d * 32 + s) div 2 ^ (nd - 3)) # out))"
proof -
  have "(2 :: nat) ^ nd \<le> 2 ^ 7" using assms(1) by (intro power_increasing) auto
  then have d: "d < 128" using assms(2) by simp
  have "unat (push_bit 5 (of_nat d :: 32 word) OR of_nat s) = d * 32 + s"
    using unat_shift_or [of "of_nat d" 5 "of_nat s"] d assms(3) by (simp add: unat_of_nat)
  then have w: "push_bit 5 (of_nat d :: 32 word) OR of_nat s = of_nat (d * 32 + s)"
    by (metis of_nat_unat ucast_id)
  have u: "unat (of_nat (d * 32 + s) :: 32 word) = d * 32 + s"
    using d assms(3) by (intro unat_of_nat32) simp
  have m: "(of_nat (d * 32 + s) :: 32 word) AND (push_bit k 1 - 1) = of_nat ((d * 32 + s) mod 2 ^ k)" for k
    by (metis of_nat_unat u ucast_id unat_and_low)
  have e: "(ucast (drop_bit k (of_nat (d * 32 + s) :: 32 word)) :: 8 word) = of_nat ((d * 32 + s) div 2 ^ k)" for k
    by (metis of_nat_unat u unat_drop)
  show ?thesis
    using decode_loop_symbol [OF _ _ w, of "b32_alphabet ! s"] b32_alphabet_value [OF assms(3)]
    by (simp only: m e) blast
qed

lemma take_drop_mod: "((x::nat) div 2 ^ k) mod 32 = (x mod 2 ^ (k + 5)) div 2 ^ k"
proof -
  have "x mod 2 ^ (k + 5) = x mod (2 ^ k * 32)" by (simp add: power_add)
  then show ?thesis by (simp add: mod_mult2_eq)
qed

text \<open>A character the encoder emits after shifting a byte in, when \<open>r\<close> are its pending bits.\<close>

lemma emitted_char:
  assumes "unat be mod 2 ^ ne = r" and "ne < 5" and "k + 5 \<le> ne + 8"
  shows "b32_char (drop_bit k (push_bit 8 be OR ucast (b :: 8 word))) =
    b32_alphabet ! (((r * 256 + unat b) div 2 ^ k) mod 32)"
proof -
  let ?be = "push_bit 8 be OR ucast b :: 32 word"
  have "unat ?be = (unat be * 256 + unat b) mod 2 ^ 32"
  proof -
    have "push_bit 8 be + ucast b = ?be"
    proof (rule disjunctive_add)
      fix n show "\<not> bit (push_bit 8 be) n \<or> \<not> bit (ucast b :: 32 word) n"
        by (auto simp: bit_push_bit_iff bit_ucast_iff dest: bit_imp_le_length)
    qed
    moreover have "push_bit 8 be + ucast b = (of_nat (unat be * 256 + unat b) :: 32 word)"
      by (simp add: push_bit_eq_mult)
    ultimately have "?be = of_nat (unat be * 256 + unat b)" by simp
    then show ?thesis by (simp only: unat_of_nat take_bit_eq_mod) simp
  qed
  moreover have "unat (drop_bit k ?be AND 31) = (unat ?be div 2 ^ k) mod 32"
    by (rule unat_group)
  ultimately have "unat (drop_bit k ?be AND 31) = ((unat be * 256 + unat b) mod 2 ^ 32 mod 2 ^ (k + 5)) div 2 ^ k"
    by (simp only: take_drop_mod)
  also have "\<dots> = ((unat be * 256 + unat b) mod 2 ^ (k + 5)) div 2 ^ k"
  proof -
    have "(2::nat) ^ (k + 5) dvd 2 ^ 32" using assms(2,3) by (intro le_imp_power_dvd) simp
    then show ?thesis by (simp only: mod_mod_cancel)
  qed
  also have "(unat be * 256 + unat b) mod 2 ^ (k + 5) = (r * 256 + unat b) mod 2 ^ (k + 5)"
  proof -
    have "unat be * 256 mod 2 ^ (ne + 8) = r * 256"
      using assms(1) mult_mod_right [of 256 "unat be" "2 ^ ne"] by (simp add: power_add mult.commute)
    then have "(unat be * 256 + unat b) mod 2 ^ (ne + 8) mod 2 ^ (k + 5) =
        (r * 256 + unat b) mod 2 ^ (ne + 8) mod 2 ^ (k + 5)"
      by (metis mod_add_left_eq)
    then show ?thesis using assms(3) by (simp add: mod_mod_cancel le_imp_power_dvd)
  qed
  finally show ?thesis by (simp add: b32_char_def take_drop_mod)
qed

text \<open>
  The encoder has \<open>ne < 5\<close> pending bits, the low \<open>ne\<close> bits of the last byte \<open>p\<close>; the decoder, fed
  everything emitted so far, holds the other \<open>8 - ne\<close> bits of \<open>p\<close>.
\<close>

lemma emit_groups_cases:
  "emit_groups bits 8 = ([b32_char (drop_bit 3 bits)], 3)"
  "emit_groups bits 9 = ([b32_char (drop_bit 4 bits)], 4)"
  "emit_groups bits 10 = ([b32_char (drop_bit 5 bits), b32_char (drop_bit 0 bits)], 0)"
  "emit_groups bits 11 = ([b32_char (drop_bit 6 bits), b32_char (drop_bit 1 bits)], 1)"
  "emit_groups bits 12 = ([b32_char (drop_bit 7 bits), b32_char (drop_bit 2 bits)], 2)"
  by (simp_all add: emit_groups.simps)

lemma emit_groups_small: "n < 5 \<Longrightarrow> emit_groups bits n = ([], n)"
  by (simp add: emit_groups.simps [of bits n])

lemma emit_groups_five:
  "n < 5 \<Longrightarrow> emit_groups bits (n + 5) = ([b32_char (drop_bit n bits)], n)"
  by (simp add: emit_groups.simps [of bits "n + 5"] emit_groups_small)

lemma emit_groups_byte:
  "emit_groups bits (n + 8) =
     (b32_char (drop_bit (n + 3) bits) # fst (emit_groups bits (n + 3)), snd (emit_groups bits (n + 3)))"
proof -
  have "n + 8 - 5 = n + 3" by simp
  then show ?thesis by (simp only: emit_groups.simps [of bits "n + 8"]) (simp add: case_prod_beta)
qed

lemma last_char:
  assumes "unat be mod 2 ^ ne = r" and "0 < ne" and "ne < 5"
  shows "b32_char (push_bit (5 - ne) be) = b32_alphabet ! (r * 2 ^ (5 - ne))"
proof -
  have "unat (push_bit (5 - ne) be AND 31) = (unat be * 2 ^ (5 - ne)) mod 2 ^ 32 mod 32"
  proof -
    have "push_bit (5 - ne) be = of_nat (unat be * 2 ^ (5 - ne))" by (simp add: push_bit_eq_mult)
    then have "unat (push_bit (5 - ne) be) = (unat be * 2 ^ (5 - ne)) mod 2 ^ 32"
      by (simp only: unat_of_nat take_bit_eq_mod) simp
    then show ?thesis using unat_group [of 0 "push_bit (5 - ne) be"] by (simp only: drop_bit_0 id_apply) simp
  qed
  also have "\<dots> = (unat be * 2 ^ (5 - ne)) mod (2 ^ ne * 2 ^ (5 - ne))"
    using assms(3) by (subst mod_mod_cancel) (auto simp flip: power_add)
  also have "\<dots> = r * 2 ^ (5 - ne)" using assms(1) by (simp add: mult_mod_left)
  finally show ?thesis by (simp add: b32_char_def)
qed


lemma unat_byte: "unat (b :: 8 word) < 256"
  using unsigned_less [of b, where 'a = nat] by simp

lemma shifted_byte_low:
  assumes "m \<le> 8"
  shows "unat (push_bit 8 be OR ucast (b :: 8 word) :: 32 word) mod 2 ^ m = unat b mod 2 ^ m"
proof -
  have "take_bit m (push_bit 8 be OR ucast b :: 32 word) = take_bit m (ucast b)"
    using assms by (auto simp: bit_eq_iff bit_take_bit_iff bit_or_iff bit_push_bit_iff)
  then have "unat (take_bit m (push_bit 8 be OR ucast b :: 32 word)) = unat (take_bit m (ucast b :: 32 word))"
    by simp
  then have "take_bit m (unat (push_bit 8 be OR ucast b :: 32 word)) = take_bit m (unat (ucast b :: 32 word))"
    by (simp only: unsigned_take_bit_eq)
  moreover have "unat (ucast b :: 32 word) = unat b"
    by (simp add: unsigned_ucast_eq take_bit_nat_eq_self unat_byte [THEN less_le_trans])
  ultimately show ?thesis by (simp add: take_bit_eq_mod)
qed

text \<open>Feeding the decoder one character, or two, on numbers.\<close>

lemma decode_emit:
  assumes "3 \<le> nd" and "nd < 8" and "d < 2 ^ nd" and "s < 32"
    and "(d * 32 + s) div 2 ^ (nd - 3) = p" and "(d * 32 + s) mod 2 ^ (nd - 3) = d'"
    and "decode_loop chs (of_nat d') (nd - 3) False = Ok out"
  shows "decode_loop (b32_alphabet ! s # chs) (of_nat d) nd False = Ok (of_nat p # out)"
  using decode_step [OF assms(2-4), of chs] assms by simp

lemma decode_keep:
  assumes "nd < 3" and "d < 2 ^ nd" and "s < 32" and "d * 32 + s = d'"
    and "decode_loop chs (of_nat d') (nd + 5) False = Ok out"
  shows "decode_loop (b32_alphabet ! s # chs) (of_nat d) nd False = Ok out"
  using decode_step [of nd d s chs] assms by simp

text \<open>
  The first character after a byte \<open>q\<close> is shifted in completes the pending byte \<open>p\<close> in the decoder,
  and leaves it with the high bits of \<open>q\<close>.
\<close>

lemma first_group:
  assumes "p < 256" and "q < (256::nat)" and "1 \<le> ne" and "ne < 5"
  defines "s \<equiv> ((p mod 2 ^ ne) * 256 + q) div 2 ^ (ne + 3)"
  shows "s = p mod 2 ^ ne * 2 ^ (5 - ne) + q div 2 ^ (ne + 3)" "s mod 32 = s" "s < 32" "(p div 2 ^ ne * 32 + s) div 2 ^ (5 - ne) = p"
    "(p div 2 ^ ne * 32 + s) mod 2 ^ (5 - ne) = q div 2 ^ (ne + 3)" "p div 2 ^ ne < 2 ^ (8 - ne)"
proof -
  let ?A = "2 ^ ne :: nat" and ?B = "2 ^ (5 - ne) :: nat" and ?K = "2 ^ (ne + 3) :: nat"
  have AB: "?A * ?B = 32" and KB: "?K * ?B = 256" and A8: "?A * 2 ^ (8 - ne) = 256"
    using assms(3,4) by (simp_all flip: power_add)
  have "(p mod ?A) * 256 + q = q + (p mod ?A * ?B) * ?K" using KB by (simp add: mult.assoc mult.commute)
  then have "s = (q + (p mod ?A * ?B) * ?K) div ?K" unfolding s_def by (simp only:)
  also have "\<dots> = p mod ?A * ?B + q div ?K" by (rule div_mult_self1) simp
  finally show s: "s = p mod ?A * ?B + q div ?K" .
  have qK: "q div ?K < ?B" using assms(2) KB by (intro less_mult_imp_div_less) (simp add: mult.commute)
  have "p * ?B = (p div ?A * ?A + p mod ?A) * ?B" by (simp only: div_mult_mod_eq)
  also have "\<dots> = p div ?A * (?A * ?B) + p mod ?A * ?B" by (simp only: distrib_right mult.assoc)
  finally have N: "p div ?A * 32 + s = p * ?B + q div ?K" using s AB by simp
  have "s < (p mod ?A) * ?B + ?B" using s qK by simp
  also have "\<dots> = (p mod ?A + 1) * ?B" by simp
  also have "\<dots> \<le> ?A * ?B" by (intro mult_right_mono) (simp_all add: Suc_leI)
  finally show s32: "s < 32" by (simp only: AB)
  then show "s mod 32 = s" by simp
  show "(p div ?A * 32 + s) div ?B = p" using qK by (simp add: N)
  show "(p div ?A * 32 + s) mod ?B = q div ?K" using qK by (simp add: N)
  show "p div ?A < 2 ^ (8 - ne)" using assms(1) A8 by (intro less_mult_imp_div_less) (simp add: mult.commute)
qed

lemma second_group:
  assumes "q < (256::nat)" and "1 \<le> m" and "m \<le> 2" and "N mod 256 = q"
  shows "q div 2 ^ (m + 5) * 32 + (N div 2 ^ m) mod 32 = q div 2 ^ m"
    "q div 2 ^ (m + 5) < 2 ^ (3 - m)"
proof -
  have "(N div 2 ^ m) mod 32 = (N mod 2 ^ (m + 5)) div 2 ^ m" by (rule take_drop_mod)
  also have "N mod 2 ^ (m + 5) = N mod 256 mod 2 ^ (m + 5)"
  proof -
    have "(2::nat) ^ (m + 5) dvd 2 ^ 8" using assms(3) by (intro le_imp_power_dvd) simp
    then show ?thesis by (simp add: mod_mod_cancel)
  qed
  also have "(N mod 256 mod 2 ^ (m + 5)) div 2 ^ m = (q div 2 ^ m) mod 32"
    using assms(4) by (simp only: take_drop_mod)
  finally have "(N div 2 ^ m) mod 32 = (q div 2 ^ m) mod 32" .
  moreover have "q div 2 ^ (m + 5) = q div 2 ^ m div 32" by (simp add: power_add div_mult2_eq)
  ultimately show "q div 2 ^ (m + 5) * 32 + (N div 2 ^ m) mod 32 = q div 2 ^ m" by simp
  have "(2::nat) ^ (m + 5) * 2 ^ (3 - m) = 2 ^ 8" using assms(3) by (simp flip: power_add)
  then show "q div 2 ^ (m + 5) < 2 ^ (3 - m)"
    using assms(1) by (intro less_mult_imp_div_less) (simp add: mult.commute)
qed

definition codec_rel :: "nat \<Rightarrow> nat \<Rightarrow> 32 word \<Rightarrow> bool" where
  "codec_rel ne p be \<longleftrightarrow> ne < 5 \<and> p < 256 \<and> unat be mod 2 ^ ne = p mod 2 ^ ne"

lemma codec_rel_next:
  "ne' < 5 \<Longrightarrow> codec_rel ne' (unat b) (push_bit 8 be OR ucast (b :: 8 word))"
  by (simp add: codec_rel_def shifted_byte_low unat_byte)

lemma decode_rest_of_byte:
  fixes b :: "8 word" and be :: "32 word"
  defines "be' \<equiv> push_bit 8 be OR ucast b"
  assumes r: "unat be mod 2 ^ ne = p mod 2 ^ ne" and ne: "0 < ne" and ne5: "ne < 5"
    and IH: "\<And>ne'. 0 < ne' \<Longrightarrow> ne' < 5 \<Longrightarrow>
      decode_loop (encode_loop bs be' ne') (of_nat (unat b div 2 ^ ne')) (8 - ne') False = Ok (b # bs)"
    and IH0: "decode_loop (encode_loop bs be' 0) (of_nat 0) 0 False = Ok bs"
  shows "decode_loop (fst (emit_groups be' (ne + 3)) @ encode_loop bs be' (snd (emit_groups be' (ne + 3))))
    (of_nat (unat b div 2 ^ (ne + 3))) (5 - ne) False = Ok (b # bs)"
proof -
  let ?q = "unat b" and ?N = "p mod 2 ^ ne * 256 + unat b"
  have q: "?q < 256" by (rule unat_byte)
  then have N: "?N mod 256 = ?q" by simp
  note ch = emitted_char [OF r ne5, of _ b, folded be'_def]
  have "ne = 1 \<or> ne = 2 \<or> ne = (ne - 2) + 2 \<and> 1 \<le> ne - 2 \<and> ne - 2 \<le> 2" using ne ne5 by auto
  then consider "ne = 1" | "ne = 2" | m where "ne = m + 2" "1 \<le> m" "m \<le> 2" by blast
  then show ?thesis
  proof cases
    case 1
    then have "emit_groups be' (ne + 3) = ([], 4)" by (simp add: emit_groups_small)
    with IH [of 4] 1 show ?thesis by simp
  next
    case 2
    have "?N = ?q + (p mod 2 ^ ne * 8) * 32" by simp
    then have "?N mod 32 = ?q mod 32" by (simp only: mod_mult_self1)
    then have "emit_groups be' 5 = ([b32_alphabet ! (?q mod 32)], 0)"
      using ch [of 0] 2 emit_groups_five [of 0 be'] by simp
    moreover have "decode_loop (b32_alphabet ! (?q mod 32) # encode_loop bs be' 0) (of_nat (?q div 32)) 3 False =
        Ok (of_nat ?q # bs)"
      using IH0 q by (intro decode_emit) auto
    ultimately show ?thesis using 2 by simp
  next
    case (3 m)
    have "emit_groups be' (m + 5) = ([b32_alphabet ! ((?N div 2 ^ m) mod 32)], m)"
      using ch [of m] 3 emit_groups_five [of m be'] by simp
    moreover have "decode_loop (b32_alphabet ! ((?N div 2 ^ m) mod 32) # encode_loop bs be' m)
        (of_nat (?q div 2 ^ (m + 5))) (3 - m) False = Ok (b # bs)"
      using IH [of m] second_group [OF q 3(2,3) N] 3 by (intro decode_keep) auto
    ultimately show ?thesis using 3 by (simp add: add.commute)
  qed
qed

lemma decode_encode_pending:
  "(codec_rel ne p be \<longrightarrow> 0 < ne \<longrightarrow>
     decode_loop (encode_loop bs be ne) (of_nat (p div 2 ^ ne)) (8 - ne) False = Ok (of_nat p # bs)) \<and>
   decode_loop (encode_loop bs be 0) (of_nat 0) 0 False = Ok bs"
proof (induction bs arbitrary: ne p be)
  case Nil
  have "decode_loop (encode_loop [] be ne) (of_nat (p div 2 ^ ne)) (8 - ne) False = Ok [of_nat p]"
    if rel: "codec_rel ne p be" and ne: "0 < ne"
  proof -
    have lt: "ne < 5" "p < 256" using rel by (auto simp: codec_rel_def)
    have f: "(p mod 2 ^ ne) * 256 div 2 ^ (ne + 3) = p mod 2 ^ ne * 2 ^ (5 - ne)"
      using first_group(1) [of p 0 ne] lt ne by simp
    have "encode_loop [] be ne = [b32_alphabet ! (p mod 2 ^ ne * 2 ^ (5 - ne))]"
      using last_char [of be ne "p mod 2 ^ ne"] rel ne by (simp add: codec_rel_def)
    moreover have "decode_loop [b32_alphabet ! (p mod 2 ^ ne * 2 ^ (5 - ne))] (of_nat (p div 2 ^ ne)) (8 - ne) False = Ok [of_nat p]"
      using first_group [of p 0 ne] lt ne f by (intro decode_emit) auto
    ultimately show ?thesis by simp
  qed
  then show ?case by simp
next
  case (Cons b bs)
  let ?be = "push_bit 8 be OR ucast b :: 32 word"
  let ?q = "unat b"
  have q: "?q < 256" by (rule unat_byte)
  have IH: "0 < ne' \<Longrightarrow> ne' < 5 \<Longrightarrow> decode_loop (encode_loop bs ?be ne') (of_nat (?q div 2 ^ ne')) (8 - ne') False = Ok (b # bs)" for ne'
    using Cons.IH [of ne' ?q ?be] codec_rel_next [of ne' b be] by simp
  have IH0: "decode_loop (encode_loop bs ?be 0) (of_nat 0) 0 False = Ok bs" using Cons.IH by blast
  have "decode_loop (encode_loop (b # bs) be ne) (of_nat (p div 2 ^ ne)) (8 - ne) False = Ok (of_nat p # b # bs)"
    if rel: "codec_rel ne p be" and ne: "0 < ne"
  proof -
    let ?N = "p mod 2 ^ ne * 256 + ?q"
    have r: "unat be mod 2 ^ ne = p mod 2 ^ ne" and p: "p < 256" and ne5: "ne < 5"
      using rel by (auto simp: codec_rel_def)
    note fg = first_group [OF p q _ ne5, OF Suc_leI [OF ne, folded One_nat_def]]
    note ch = emitted_char [OF r ne5, of _ b]
    have "decode_loop (fst (emit_groups ?be (ne + 3)) @ encode_loop bs ?be (snd (emit_groups ?be (ne + 3))))
        (of_nat (?q div 2 ^ (ne + 3))) (5 - ne) False = Ok (b # bs)"
      using decode_rest_of_byte [OF r ne ne5 IH IH0] .
    then have "decode_loop (b32_alphabet ! ((?N div 2 ^ (ne + 3)) mod 32) #
        fst (emit_groups ?be (ne + 3)) @ encode_loop bs ?be (snd (emit_groups ?be (ne + 3))))
        (of_nat (p div 2 ^ ne)) (8 - ne) False = Ok (of_nat p # b # bs)"
      using fg ne ne5 by (intro decode_emit) auto
    moreover have "encode_loop (b # bs) be ne = b32_alphabet ! ((?N div 2 ^ (ne + 3)) mod 32) #
        fst (emit_groups ?be (ne + 3)) @ encode_loop bs ?be (snd (emit_groups ?be (ne + 3)))"
      using ch [of "ne + 3"] by (simp only: encode_loop.simps Let_def emit_groups_byte) simp
    ultimately show ?thesis by simp
  qed
  moreover have "decode_loop (encode_loop (b # bs) be 0) (of_nat 0) 0 False = Ok (b # bs)"
  proof -
    have "?q div 8 < 32" using q by simp
    then have "encode_loop (b # bs) be 0 = b32_alphabet ! (?q div 8) # encode_loop bs ?be 3"
      using emitted_char [of be 0 0 3 b] by (simp add: emit_groups_cases)
    moreover have "decode_loop (b32_alphabet ! (?q div 8) # encode_loop bs ?be 3) (of_nat 0) 0 False = Ok (b # bs)"
      using IH [of 3] q by (intro decode_keep) auto
    ultimately show ?thesis by simp
  qed
  ultimately show ?case by simp
qed

subsection \<open>Shape of encoded seeds\<close>

lemma b32_char_in: "b32_char w \<in> set b32_alphabet"
proof -
  have "unat (w AND 31) < 32" using unat_group [of 0 w] by simp
  then have "unat (w AND 31) < length b32_alphabet" by (simp add: b32_alphabet_def)
  then show ?thesis by (simp only: b32_char_def nth_mem)
qed

lemma emit_groups_alphabet: "set (fst (emit_groups bits n)) \<subseteq> set b32_alphabet"
proof (induction bits n rule: emit_groups.induct)
  case (1 bits n)
  then show ?case using b32_char_in by (subst emit_groups.simps) (auto simp: case_prod_beta Let_def)
qed

lemma encode_loop_alphabet: "set (encode_loop bs bits n) \<subseteq> set b32_alphabet"
proof (induction bs arbitrary: bits n)
  case Nil
  then show ?case using b32_char_in by auto
next
  case (Cons b bs)
  then show ?case using emit_groups_alphabet by (auto simp: Let_def case_prod_beta)
qed

lemma b32_alphabet_chars: "c \<in> set b32_alphabet \<Longrightarrow> (65 \<le> c \<and> c \<le> 90) \<or> (50 \<le> c \<and> c \<le> 55)"
  by (auto simp: b32_alphabet_def)

lemma emit_groups_count: "snd (emit_groups bits n) = n mod 5 \<and> length (fst (emit_groups bits n)) = n div 5"
proof (induction bits n rule: emit_groups.induct)
  case (1 bits n)
  show ?case
  proof (cases "n \<ge> 5")
    case True
    then have "n mod 5 = (n - 5) mod 5" "n div 5 = Suc ((n - 5) div 5)"
      by (simp_all add: le_mod_geq le_div_geq)
    with True "1.IH" show ?thesis by (subst (1 2) emit_groups.simps) (simp add: case_prod_beta)
  qed (simp add: emit_groups_small)
qed

lemma length_encode_loop: "n < 5 \<Longrightarrow> length (encode_loop bs bits n) = (n + 8 * length bs + 4) div 5"
proof (induction bs bits n rule: encode_loop.induct)
  case (1 bits n)
  have "0 < n \<Longrightarrow> n < 5 \<Longrightarrow> (n + 4) div 5 = 1" by presburger
  with 1 show ?case by simp
next
  case (2 byte bytes bits n)
  let ?bits = "push_bit 8 bits OR ucast byte :: 32 word"
  have "length (encode_loop (byte # bytes) bits n) =
      (n + 8) div 5 + ((n + 8) mod 5 + 8 * length bytes + 4) div 5"
    using "2.IH" [OF refl refl, of "fst (emit_groups ?bits (n + 8))" "(n + 8) mod 5"]
      emit_groups_count [of ?bits "n + 8"]
    by (cases "emit_groups ?bits (n + 8)") (auto simp: Let_def)
  also have "\<dots> = ((n + 8) mod 5 + 8 * length bytes + 4 + (n + 8) div 5 * 5) div 5"
    by (subst div_mult_self1) simp_all
  also have "\<dots> = (n + 8 * length (byte # bytes) + 4) div 5"
    using mod_div_mult_eq [of "n + 8" 5] by (intro arg_cong [where f = "\<lambda>x. x div 5"]) simp
  finally show ?case .
qed

lemma length_encode_base32: "length (encode_base32 bs) = (8 * length bs + 4) div 5"
  by (simp add: encode_base32_def length_encode_loop)

lemma encode_base32_chars:
  "\<forall>c\<in>set (encode_base32 bs). (65 \<le> c \<and> c \<le> 90) \<or> (50 \<le> c \<and> c \<le> 55)"
  using encode_loop_alphabet b32_alphabet_chars unfolding encode_base32_def by blast

subsection \<open>What parsing guarantees\<close>

definition wf_spec :: "totp_spec \<Rightarrow> bool" where
  "wf_spec s \<longleftrightarrow> 8 \<le> length (secret s) \<and> 6 \<le> digits s \<and> digits s \<le> 8 \<and> 15 \<le> period s \<and> period s \<le> 120"

definition wf_locals :: "otpauth_locals \<Rightarrow> bool" where
  "wf_locals st = (case st of (sec, _, d, p) \<Rightarrow>
     (\<forall>b. sec = Some b \<longrightarrow> 8 \<le> length b) \<and> 6 \<le> d \<and> d \<le> 8 \<and> 15 \<le> p \<and> p \<le> 120)"

lemma decode_base32_length: "decode_base32 s = Ok b \<Longrightarrow> 8 \<le> length b"
  by (auto simp: decode_base32_def split: sum.splits if_splits)

lemma otpauth_pair_wf: "wf_locals st \<Longrightarrow> otpauth_pair st kv = Ok st' \<Longrightarrow> wf_locals st'"
  by (auto simp del: ascii_simps simp: otpauth_pair_def wf_locals_def Let_def decode_base32_length
      split: prod.splits if_splits sum.splits option.splits)

lemma otpauth_loop_wf: "wf_locals st \<Longrightarrow> otpauth_loop st kvs = Ok st' \<Longrightarrow> wf_locals st'"
  by (induction kvs arbitrary: st) (auto split: sum.splits dest: otpauth_pair_wf)

lemma parse_otpauth_wf:
  assumes "parse_otpauth u i = Ok s"
  shows "wf_spec s"
proof -
  obtain uri where uri: "u i = Some uri"
    using assms by (cases "u i") (simp_all add: parse_otpauth_def)
  then obtain st where st: "otpauth_loop (None, Sha1, 6, 30) (query_pairs uri) = Ok st"
    using assms
    by (cases "otpauth_loop (None, Sha1, 6, 30) (query_pairs uri)")
      (simp_all add: parse_otpauth_def split: if_splits)
  have "wf_locals st"
    using st by (rule otpauth_loop_wf [rotated]) (simp add: wf_locals_def)
  moreover obtain b a d p where "st = (Some b, a, d, p)"
    and "s = \<lparr>secret = b, algorithm = a, digits = d, period = p\<rparr>"
    using assms uri st
    by (cases st; cases "fst st") (simp_all add: parse_otpauth_def split: if_splits)
  ultimately show ?thesis by (simp add: wf_locals_def wf_spec_def)
qed

lemma totp_parse_wf:
  assumes "totp_parse u i = Ok s"
  shows "wf_spec s"
proof (cases "take 10 (to_ascii_lowercase (trim i)) = ascii ''otpauth://''")
  case True
  with assms have "parse_otpauth u (trim i) = Ok s"
    by (simp del: ascii_simps add: totp_parse_def Let_def split: if_splits)
  then show ?thesis by (rule parse_otpauth_wf)
next
  case False
  with assms obtain b where "decode_base32 (trim i) = Ok b"
    and s: "s = \<lparr>secret = b, algorithm = Sha1, digits = 6, period = 30\<rparr>"
    by (cases "decode_base32 (trim i)")
      (simp_all del: ascii_simps add: totp_parse_def Let_def split: if_splits)
  then show ?thesis using decode_base32_length by (simp add: wf_spec_def)
qed

subsection \<open>The canonical form parses back\<close>

lemma decode_encode_base32: "8 \<le> length bs \<Longrightarrow> decode_base32 (encode_base32 bs) = Ok bs"
  using decode_encode_pending [of 0 0 0 bs]
  by (simp add: decode_base32_def encode_base32_def)

definition canonical_url :: "totp_spec \<Rightarrow> parsed_url" where
  "canonical_url spec =
     \<lparr>host = Some (ascii ''totp''),
      query_pairs =
        [(ascii ''secret'', encode_base32 (secret spec)),
         (ascii ''algorithm'', algorithm_str (algorithm spec)),
         (ascii ''digits'', show_nat (digits spec)),
         (ascii ''period'', show_nat (period spec))]\<rparr>"

lemma parse_canonical_url:
  assumes "wf_spec spec" and "u i = Some (canonical_url spec)"
  shows "parse_otpauth u i = Ok spec"
proof -
  have b: "8 \<le> length (secret spec)" and d: "6 \<le> digits spec" "digits spec \<le> 8"
    and p: "15 \<le> period spec" "period spec \<le> 120"
    using assms(1) by (auto simp: wf_spec_def)
  have "parse_uint (2 ^ 32) (show_nat (digits spec)) = Some (digits spec)"
    and "parse_uint (2 ^ 64) (show_nat (period spec)) = Some (period spec)"
    using d p by (auto intro: parse_uint_show)
  then show ?thesis
    using assms(2) decode_encode_base32 [OF b] d p
    by (cases "algorithm spec")
      (simp_all add: parse_otpauth_def canonical_url_def otpauth_pair_def algorithm_str_def
        to_ascii_lowercase_def to_ascii_uppercase_def)
qed

lemma trim_canonical: "trim (canonical spec) = canonical spec"
proof (rule trim_id)
  have "last (canonical spec) = last (show_nat (period spec))"
    using show_nat_nonempty by (simp add: canonical_def)
  then show "\<not> is_whitespace (last (canonical spec))"
    using show_nat_digits [of "period spec"] show_nat_nonempty [of "period spec"]
    by (auto simp: is_ascii_digit_def is_whitespace_def dest!: last_in_set)
qed (simp_all add: canonical_def is_whitespace_def)

lemma canonical_scheme: "take 10 (to_ascii_lowercase (canonical spec)) = ascii ''otpauth://''"
  by (simp add: canonical_def to_ascii_lowercase_def)

lemma no_scheme_sep: "58 \<notin> set s \<Longrightarrow> \<not> contains_scheme_sep s"
  by (induction s) auto

lemma bare_seed_parses:
  assumes "8 \<le> length bs" and "length (encode_base32 bs) \<le> 2048"
  shows "totp_parse u (encode_base32 bs) = Ok \<lparr>secret = bs, algorithm = Sha1, digits = 6, period = 30\<rparr>"
proof -
  let ?e = "encode_base32 bs"
  note ch = encode_base32_chars [of bs]
  have ne: "?e \<noteq> []" using assms(1) length_encode_base32 [of bs] by auto
  have nows: "\<forall>c\<in>set ?e. \<not> is_whitespace c" using ch by (auto simp: is_whitespace_def)
  have "trim ?e = ?e" using ne nows by (intro trim_id) (auto simp: hd_in_set last_in_set)
  moreover have "utf8_len ?e \<le> 2048" using utf8_len_ascii [of ?e] ch assms(2) by fastforce
  moreover have "58 \<notin> set (to_ascii_lowercase ?e)" using ch by (fastforce simp: to_ascii_lowercase_def)
  moreover have "take 10 (to_ascii_lowercase ?e) \<noteq> ascii ''otpauth://''"
  proof
    assume "take 10 (to_ascii_lowercase ?e) = ascii ''otpauth://''"
    then have "set (ascii ''otpauth://'') \<subseteq> set (to_ascii_lowercase ?e)" by (metis set_take_subset)
    with \<open>58 \<notin> set (to_ascii_lowercase ?e)\<close> show False by simp
  qed
  ultimately show ?thesis
    using ne decode_encode_base32 [OF assms(1)] no_scheme_sep by (simp add: totp_parse_def Let_def)
qed

subsection \<open>Codes\<close>

lemma unat_and15: "unat (w AND 15 :: 8 word) < 16"
proof -
  have "w AND 15 \<le> (15 :: 8 word)" by (rule word_and_le1)
  then show ?thesis by (simp add: word_le_nat_alt)
qed

lemma truncate_mac_total:
  assumes "20 \<le> length mac"
  shows "\<exists>b. truncate_mac mac = Return b"
proof -
  have "unat (last mac AND 15) + 3 < length mac" using unat_and15 [of "last mac"] assms by simp
  moreover have "mac \<noteq> []" using assms by auto
  ultimately show ?thesis by (simp add: truncate_mac_def Let_def)
qed

lemma pad_zeros_code:
  assumes "0 < d" and "n < 10 ^ d"
  shows "length (pad_zeros d (show_nat n)) = d" and "\<forall>c\<in>set (pad_zeros d (show_nat n)). is_ascii_digit c"
  using length_show_nat [OF assms] show_nat_digits [of n]
  by (auto simp: pad_zeros_def is_ascii_digit_def)

lemma same_step:
  fixes t t' per :: nat
  assumes "0 < per" and "t \<le> t'" and "t' < t + (per - t mod per)"
  shows "t' div per = t div per" and "per - t' mod per = per - t mod per - (t' - t)"
proof -
  have lt: "t mod per < per" using assms(1) by simp
  have "t' = t div per * per + (t mod per + (t' - t))" using assms(2) by (simp add: mult.commute)
  moreover have small: "t mod per + (t' - t) < per" using assms lt by simp
  ultimately have div: "t' div per = t div per" and mod: "t' mod per = t mod per + (t' - t)"
    by (metis assms(1) bot_nat_0.not_eq_extremum div_mult_self3 div_less add.right_neutral,
        metis mod_less mod_mult_self3)
  show "t' div per = t div per" by (rule div)
  show "per - t' mod per = per - t mod per - (t' - t)" using mod by simp
qed

lemma code_at_eq:
  assumes "0 < period spec"
    and "truncate_mac (hmac (algorithm spec) (secret spec) (be_bytes64 (t div period spec))) = Return b"
  shows "code_at hmac spec t =
    Return (pad_zeros (digits spec) (show_nat (unat b mod 10 ^ digits spec)), period spec - t mod period spec)"
  using assms by (simp add: code_at_def Let_def)

subsection \<open>Properties\<close>

text \<open>
  The hand-written Base32 codec is lossless: every seed of at least eight bytes is recovered
  from its encoding, through the 32-bit shift registers of both loops.
\<close>

theorem base32_round_trip:
  assumes "8 \<le> length bs"
  shows "decode_base32 (encode_base32 bs) = Ok bs"
  using assms by (rule decode_encode_base32)

theorem base32_round_trip_witness:
  "decode_base32 (encode_base32 [1, 2, 3, 4, 5, 6, 7, 255]) = Ok [1, 2, 3, 4, 5, 6, 7, 255]"
  by (rule base32_round_trip) simp

text \<open>
  A stored seed stays readable: whatever \<open>parse\<close> accepts, its canonical form parses back to the
  same secret, algorithm, digit count and period, provided the URL parser reads the canonical text as
  the host and the four query pairs it is made of and the text is within the 2048-byte limit.
\<close>

theorem totp_canonical_round_trip:
  assumes "totp_parse url_parse input = Ok spec"
    and url: "url_parse (canonical spec) = Some (canonical_url spec)"
    and "utf8_len (canonical spec) \<le> 2048"
  shows "totp_parse url_parse (canonical spec) = Ok spec"
proof -
  have "canonical spec \<noteq> []" by (simp add: canonical_def)
  then show ?thesis
    using parse_canonical_url [of spec url_parse "canonical spec"] totp_parse_wf [OF assms(1)] url assms(3)
    by (simp del: ascii_simps add: totp_parse_def Let_def trim_canonical canonical_scheme)
qed

abbreviation demo_seed :: "8 word list" where
  "demo_seed \<equiv> [1, 2, 3, 4, 5, 6, 7, 8]"

abbreviation demo_spec :: totp_spec where
  "demo_spec \<equiv> \<lparr>secret = demo_seed, algorithm = Sha1, digits = 6, period = 30\<rparr>"

lemma demo_parse: "totp_parse u (encode_base32 demo_seed) = Ok demo_spec"
  by (rule bare_seed_parses) (simp_all add: length_encode_base32)

lemma canonical_bare_length:
  "utf8_len (canonical \<lparr>secret = bs, algorithm = Sha1, digits = 6, period = 30\<rparr>) =
     length (encode_base32 bs) + 66"
proof -
  have "utf8_len (a @ b) = utf8_len a + utf8_len b" for a b by (simp add: utf8_len_def)
  moreover have "utf8_len (encode_base32 bs) = length (encode_base32 bs)"
    using encode_base32_chars [of bs] by (intro utf8_len_ascii) fastforce
  ultimately show ?thesis
    by (simp add: canonical_def algorithm_str_def show_nat.simps)
       (simp add: utf8_len_def utf8_width_def)
qed

theorem totp_canonical_round_trip_witness:
  "totp_parse (\<lambda>_. Some (canonical_url demo_spec)) (canonical demo_spec) = Ok demo_spec"
  by (rule totp_canonical_round_trip [OF demo_parse])
    (simp_all add: canonical_bare_length length_encode_base32)

text \<open>
  The 2048-byte limit is checked on the input but not on what is stored: a bare seed of 1240 to
  1280 bytes is accepted, yet its canonical form (66 bytes longer than the seed text) exceeds the
  limit, so every later attempt to compute a code from the vault fails.
\<close>

theorem totp_accepted_seed_unusable:
  assumes "1240 \<le> length bs" and "length bs \<le> 1280"
  shows "totp_parse u (encode_base32 bs) = Ok \<lparr>secret = bs, algorithm = Sha1, digits = 6, period = 30\<rparr> \<and>
    totp_parse u (canonical \<lparr>secret = bs, algorithm = Sha1, digits = 6, period = 30\<rparr>) =
      Err InputTooLong"
proof -
  let ?spec = "\<lparr>secret = bs, algorithm = Sha1, digits = 6, period = 30\<rparr>"
  have "totp_parse u (encode_base32 bs) = Ok ?spec"
    using assms by (intro bare_seed_parses) (simp_all add: length_encode_base32)
  moreover have "canonical ?spec \<noteq> []" by (simp add: canonical_def)
  moreover have "1984 \<le> (8 * length bs + 4) div 5" using assms(1) by simp
  then have "utf8_len (canonical ?spec) > 2048"
    by (simp add: canonical_bare_length length_encode_base32)
  ultimately show ?thesis
    by (simp add: totp_parse_def Let_def trim_canonical)
qed

theorem totp_accepted_seed_unusable_witness:
  "totp_parse (\<lambda>_. None) (canonical
     \<lparr>secret = replicate 1250 0, algorithm = Sha1, digits = 6, period = 30\<rparr>) = Err InputTooLong"
  using totp_accepted_seed_unusable [of "replicate 1250 0"] by simp

text \<open>
  Codes are well formed and stable: for every accepted seed and any HMAC with at least 20 bytes of
  output, \<open>code_at\<close> never indexes out of range, returns exactly the configured number of digits and a
  remaining time between one second and the period that ends on a step boundary, and returns the same
  code for the rest of the step.
\<close>

theorem totp_code_stable:
  assumes "totp_parse url_parse input = Ok spec"
    and hmac: "\<And>a k m. 20 \<le> length (hmac a k m)"
  shows "\<exists>code remaining. code_at hmac spec t = Return (code, remaining) \<and>
    length code = digits spec \<and> (\<forall>c\<in>set code. is_ascii_digit c) \<and>
    1 \<le> remaining \<and> remaining \<le> period spec \<and> period spec dvd (t + remaining) \<and>
    (\<forall>t'. t \<le> t' \<and> t' < t + remaining \<longrightarrow> code_at hmac spec t' = Return (code, remaining - (t' - t)))"
proof -
  have wf: "0 < period spec" "0 < digits spec" using totp_parse_wf [OF assms(1)] by (auto simp: wf_spec_def)
  obtain b where b: "truncate_mac (hmac (algorithm spec) (secret spec) (be_bytes64 (t div period spec))) = Return b"
    using truncate_mac_total [OF hmac] by blast
  let ?code = "pad_zeros (digits spec) (show_nat (unat b mod 10 ^ digits spec))"
  let ?rem = "period spec - t mod period spec"
  have "code_at hmac spec t' = Return (?code, ?rem - (t' - t))" if "t \<le> t' \<and> t' < t + ?rem" for t'
    using same_step [of "period spec" t t'] that wf code_at_eq [of spec hmac t' b] b by simp
  moreover have "period spec dvd t + ?rem"
  proof -
    have "t + ?rem = t div period spec * period spec + period spec"
      using wf(1) by (metis add.commute add_diff_assoc2 div_mult_mod_eq le_add_diff_inverse
          less_or_eq_imp_le mod_less_divisor group_cancel.add1 add.assoc)
    then show ?thesis by (metis dvd_add dvd_refl dvd_triv_right)
  qed
  moreover have "1 \<le> ?rem" using mod_less_divisor [OF wf(1), of t] by linarith
  ultimately show ?thesis
    using code_at_eq [of spec hmac t b] wf(1) b pad_zeros_code [OF wf(2), of "unat b mod 10 ^ digits spec"]
    by (intro exI [of _ ?code] exI [of _ ?rem]) auto
qed

theorem totp_code_stable_witness:
  "\<exists>code remaining. code_at (\<lambda>_ _ _. replicate 20 7) demo_spec 59 = Return (code, remaining) \<and>
    length code = 6 \<and> (\<forall>c\<in>set code. is_ascii_digit c) \<and> 1 \<le> remaining \<and> remaining \<le> 30 \<and>
    30 dvd (59 + remaining) \<and>
    (\<forall>t'. 59 \<le> t' \<and> t' < 59 + remaining \<longrightarrow>
      code_at (\<lambda>_ _ _. replicate 20 7) demo_spec t' = Return (code, remaining - (t' - 59)))"
  using totp_code_stable [OF demo_parse, of "\<lambda>_ _ _. replicate 20 7" 59] by simp

end
