(* ===== verification/Wire.thy ===== *)
theory Wire
  imports Prelude
begin

text \<open>
  The wire vocabulary of \<^verbatim>\<open>crates/aka-core/src/wire.rs\<close>: the closed registry of machine-readable
  error reasons, its spelling on the wire and the inverse lookup.
\<close>

datatype error_reason =
    MissingToken
  | InvalidToken
  | TokenExpired
  | TokenSuperseded
  | InvalidAgentName
  | PairingRateLimited
  | PairingFailed
  | UnknownConnection
  | WrongConnectionType
  | InvalidJson
  | InvalidMethod
  | InvalidPath
  | ReservedHeader
  | InvalidHeader
  | InvalidBody
  | RequestTooLarge
  | MissingSecret
  | InvalidSecret
  | RequestIdMismatch
  | OutcomeNotReplayable
  | DeniedByPolicy
  | ApprovalDenied
  | ApprovalTimeout
  | ApprovalUnavailable
  | RateLimited
  | IdempotencyCapacity
  | TicketSessionLimit
  | BrokerSessionLimit
  | EndpointBusy
  | UnknownTicket
  | TicketExpired
  | UpstreamTimeout
  | UpstreamError
  | UpstreamConnectFailed
  | ResponseTooLarge
  | CredentialRenderFailed
  | CredentialRefreshUnavailable
  | SshAgentOpenFailed
  | NotServedRemotely
  | McpUnavailable
  | BadConnectionConfig
  | BodyUnavailable
  | SpoolFailed
  | UploadTimeout
  | ProxyNotRunning
  | BrokerShutdown

definition error_reason_ALL :: "error_reason list" where
  "error_reason_ALL =
     [MissingToken,
      InvalidToken,
      TokenExpired,
      TokenSuperseded,
      InvalidAgentName,
      PairingRateLimited,
      PairingFailed,
      UnknownConnection,
      WrongConnectionType,
      InvalidJson,
      InvalidMethod,
      InvalidPath,
      ReservedHeader,
      InvalidHeader,
      InvalidBody,
      RequestTooLarge,
      MissingSecret,
      InvalidSecret,
      RequestIdMismatch,
      OutcomeNotReplayable,
      DeniedByPolicy,
      ApprovalDenied,
      ApprovalTimeout,
      ApprovalUnavailable,
      RateLimited,
      IdempotencyCapacity,
      TicketSessionLimit,
      BrokerSessionLimit,
      EndpointBusy,
      UnknownTicket,
      TicketExpired,
      UpstreamTimeout,
      UpstreamError,
      UpstreamConnectFailed,
      ResponseTooLarge,
      CredentialRenderFailed,
      CredentialRefreshUnavailable,
      SshAgentOpenFailed,
      NotServedRemotely,
      McpUnavailable,
      BadConnectionConfig,
      BodyUnavailable,
      SpoolFailed,
      UploadTimeout,
      ProxyNotRunning,
      BrokerShutdown]"

fun error_reason_as_str :: "error_reason \<Rightarrow> string" where
  "error_reason_as_str MissingToken = ''missing_token''"
| "error_reason_as_str InvalidToken = ''invalid_token''"
| "error_reason_as_str TokenExpired = ''token_expired''"
| "error_reason_as_str TokenSuperseded = ''token_superseded''"
| "error_reason_as_str InvalidAgentName = ''invalid_agent_name''"
| "error_reason_as_str PairingRateLimited = ''pairing_rate_limited''"
| "error_reason_as_str PairingFailed = ''pairing_failed''"
| "error_reason_as_str UnknownConnection = ''unknown_connection''"
| "error_reason_as_str WrongConnectionType = ''wrong_connection_type''"
| "error_reason_as_str InvalidJson = ''invalid_json''"
| "error_reason_as_str InvalidMethod = ''invalid_method''"
| "error_reason_as_str InvalidPath = ''invalid_path''"
| "error_reason_as_str ReservedHeader = ''reserved_header''"
| "error_reason_as_str InvalidHeader = ''invalid_header''"
| "error_reason_as_str InvalidBody = ''invalid_body''"
| "error_reason_as_str RequestTooLarge = ''request_too_large''"
| "error_reason_as_str MissingSecret = ''missing_secret''"
| "error_reason_as_str InvalidSecret = ''invalid_secret''"
| "error_reason_as_str RequestIdMismatch = ''request_id_mismatch''"
| "error_reason_as_str OutcomeNotReplayable = ''outcome_not_replayable''"
| "error_reason_as_str DeniedByPolicy = ''denied_by_policy''"
| "error_reason_as_str ApprovalDenied = ''approval_denied''"
| "error_reason_as_str ApprovalTimeout = ''approval_timeout''"
| "error_reason_as_str ApprovalUnavailable = ''approval_unavailable''"
| "error_reason_as_str RateLimited = ''rate_limited''"
| "error_reason_as_str IdempotencyCapacity = ''idempotency_capacity''"
| "error_reason_as_str TicketSessionLimit = ''ticket_session_limit''"
| "error_reason_as_str BrokerSessionLimit = ''broker_session_limit''"
| "error_reason_as_str EndpointBusy = ''endpoint_busy''"
| "error_reason_as_str UnknownTicket = ''unknown_ticket''"
| "error_reason_as_str TicketExpired = ''ticket_expired''"
| "error_reason_as_str UpstreamTimeout = ''upstream_timeout''"
| "error_reason_as_str UpstreamError = ''upstream_error''"
| "error_reason_as_str UpstreamConnectFailed = ''upstream_connect_failed''"
| "error_reason_as_str ResponseTooLarge = ''response_too_large''"
| "error_reason_as_str CredentialRenderFailed = ''credential_render_failed''"
| "error_reason_as_str CredentialRefreshUnavailable = ''credential_refresh_unavailable''"
| "error_reason_as_str SshAgentOpenFailed = ''ssh_agent_open_failed''"
| "error_reason_as_str NotServedRemotely = ''not_served_remotely''"
| "error_reason_as_str McpUnavailable = ''mcp_unavailable''"
| "error_reason_as_str BadConnectionConfig = ''bad_connection_config''"
| "error_reason_as_str BodyUnavailable = ''body_unavailable''"
| "error_reason_as_str SpoolFailed = ''spool_failed''"
| "error_reason_as_str UploadTimeout = ''upload_timeout''"
| "error_reason_as_str ProxyNotRunning = ''proxy_not_running''"
| "error_reason_as_str BrokerShutdown = ''broker_shutdown''"

definition error_reason_from_str :: "string \<Rightarrow> error_reason option" where
  "error_reason_from_str value = List.find (\<lambda>r. error_reason_as_str r = value) error_reason_ALL"

lemma error_reason_ALL_complete: "set error_reason_ALL = UNIV"
proof -
  have "r \<in> set error_reason_ALL" for r by (cases r) (simp_all add: error_reason_ALL_def)
  then show ?thesis by auto
qed

lemma error_reason_spellings_distinct: "distinct (map error_reason_as_str error_reason_ALL)"
  by code_simp

text \<open>
  The registry is closed and unambiguous: \<open>ALL\<close> lists every reason exactly once, no two reasons
  share a spelling, and reading a spelling back gives the reason it was written for.
\<close>

theorem error_reason_round_trip:
  "set error_reason_ALL = UNIV \<and> distinct error_reason_ALL \<and> length error_reason_ALL = 46 \<and>
   inj error_reason_as_str \<and> error_reason_from_str (error_reason_as_str r) = Some r"
proof -
  have d: "distinct (map error_reason_as_str error_reason_ALL)" by (rule error_reason_spellings_distinct)
  have "error_reason_from_str (error_reason_as_str r) = Some r"
    unfolding error_reason_from_str_def
    using d by (rule find_key_distinct) (simp add: error_reason_ALL_complete)
  moreover have "inj error_reason_as_str"
    using d error_reason_ALL_complete by (simp add: distinct_map)
  moreover have "length error_reason_ALL = 46" by (simp add: error_reason_ALL_def)
  ultimately show ?thesis
    using d error_reason_ALL_complete by (simp add: distinct_map)
qed

end
