(* ===== verification/CoreTypes.thy ===== *)
theory CoreTypes
  imports RustStr Wire
begin

text \<open>
  The shared data model of \<^verbatim>\<open>crates/aka-core/src/types.rs\<close> and \<^verbatim>\<open>error.rs\<close>: connections and their
  configuration, target equivalence, request signers, per-connection access records, direct
  endpoints, and the core error type. Every Rust \<open>String\<close> is a \<^typ>\<open>ustring\<close>.
\<close>

subsection \<open>Errors\<close>

datatype connection_field =
    FieldHost | FieldScheme | FieldPort | FieldDatabase | FieldUser | FieldUrl | FieldTemplate | FieldHostKeyFingerprint

datatype core_error =
    SecretNameTaken ustring
  | ConnectionNameTaken ustring
  | ConnectionTargetTaken ustring
  | SecretNotFound
  | OnePasswordIntegrationNotFound
  | OnePasswordIntegrationInUse "ustring list"
  | InvalidOnePasswordIntegration ustring
  | OnePassword ustring ustring
  | ExternalSecretReadOnly
  | ConnectionNotFound
  | ConnectionChanged
  | ApprovalConnectionChanged
  | SecretInUse "ustring list"
  | InvalidSecretName ustring
  | InvalidSite ustring
  | InvalidTotpSeed ustring
  | TotpNotConfigured
  | NotAPassword
  | InvalidConnectionName ustring
  | TemplateInvalid ustring
  | UnknownTemplateRef ustring
  | WrongSecretCount ustring
  | InvalidConnectionConfig ustring
  | InvalidSetting ustring
  | InvalidConnectionField connection_field ustring
  | KindChange
  | EndpointNotFound
  | EndpointExpired
  | EndpointLimit nat
  | EndpointRequiresWiring
  | ProposalCredential ustring
  | ProposalStale
  | BrokerAlreadyRunning ustring
  | BrokerStateBusy "nat option"
  | OAuthError ustring
  | VaultError ustring
  | IoError
  | CorruptState
  | StateTampered
  | UnsupportedStateVersion nat nat

subsection \<open>Connections\<close>

datatype connection_kind = KindApi | KindPg | KindSsh

definition kind_as_str :: "connection_kind \<Rightarrow> ustring" where
  "kind_as_str k = (case k of KindApi \<Rightarrow> ascii ''api'' | KindPg \<Rightarrow> ascii ''pg'' | KindSsh \<Rightarrow> ascii ''ssh'')"

datatype pg_ssl_mode = Disable | Prefer | Require | VerifyCa | VerifyFull

record aws_sigv4 =
  region :: ustring
  service :: ustring
  access_key_ref :: ustring
  secret_key_ref :: ustring
  session_token_ref :: "ustring option"

datatype signer_spec = AwsSigv4 aws_sigv4 | GcpServiceAccount ustring ustring

definition signer_refs :: "signer_spec \<Rightarrow> ustring list" where
  "signer_refs s =
     (case s of
        AwsSigv4 a \<Rightarrow> [access_key_ref a, secret_key_ref a] @
          (case session_token_ref a of Some t \<Rightarrow> [t] | None \<Rightarrow> [])
      | GcpServiceAccount key_ref scope \<Rightarrow> [key_ref])"

definition signer_rename_ref :: "ustring \<Rightarrow> ustring \<Rightarrow> signer_spec \<Rightarrow> signer_spec \<times> bool" where
  "signer_rename_ref old new s =
     (let ren = (\<lambda>f. if f = old then new else f) in
      case s of
        AwsSigv4 a \<Rightarrow>
          (AwsSigv4 (a\<lparr>access_key_ref := ren (access_key_ref a),
                       secret_key_ref := ren (secret_key_ref a),
                       session_token_ref := map_option ren (session_token_ref a)\<rparr>),
           access_key_ref a = old \<or> secret_key_ref a = old \<or> session_token_ref a = Some old)
      | GcpServiceAccount key_ref scope \<Rightarrow>
          (GcpServiceAccount (ren key_ref) scope, key_ref = old))"

record oauth_spec =
  auth_url :: ustring
  token_url :: ustring
  client_id :: ustring
  scopes :: "ustring list"
  extra_auth_params :: "(ustring \<times> ustring) list"
  token_secret_id :: "uuid option"

record api_config =
  api_host :: ustring
  api_scheme :: ustring
  api_port :: "16 word option"
  api_trusted_ca_bundle_path :: "ustring option"
  api_template :: ustring
  mcp_path :: "ustring option"
  test_path :: "ustring option"
  api_oauth :: "oauth_spec option"
  signer :: "signer_spec option"
  client_cert_path :: "ustring option"
  client_key_path :: "ustring option"

record pg_config =
  pg_host :: ustring
  pg_port :: "16 word"
  dbname :: ustring
  pg_user :: ustring
  sslmode :: pg_ssl_mode
  pg_trusted_ca_bundle_path :: "ustring option"

record ssh_config =
  destination :: "ustring option"
  ssh_host :: ustring
  ssh_port :: "16 word"
  ssh_user :: ustring
  host_key_fingerprint :: ustring

datatype connection_config = Api api_config | Pg pg_config | Ssh ssh_config

definition config_kind :: "connection_config \<Rightarrow> connection_kind" where
  "config_kind c = (case c of Api _ \<Rightarrow> KindApi | Pg _ \<Rightarrow> KindPg | Ssh _ \<Rightarrow> KindSsh)"

definition show_u16 :: "16 word \<Rightarrow> ustring" where
  "show_u16 p = show_nat (unat p)"

definition config_target :: "connection_config \<Rightarrow> ustring" where
  "config_target c =
     (case c of
        Api a \<Rightarrow>
          let default_port = (if api_scheme a = ascii ''https'' then 443
                              else if api_scheme a = ascii ''http'' then 80 else 0);
              origin = api_scheme a @ ascii ''://'' @ api_host a
          in (case api_port a of
                Some p \<Rightarrow> if p \<noteq> default_port then origin @ [58] @ show_u16 p else origin
              | None \<Rightarrow> origin)
      | Pg p \<Rightarrow> pg_user p @ [64] @ pg_host p @ [58] @ show_u16 (pg_port p) @ [47] @ dbname p
      | Ssh s \<Rightarrow> if ssh_port s = 22 then ssh_user s @ [64] @ ssh_host s
                 else ssh_user s @ [64] @ ssh_host s @ [58] @ show_u16 (ssh_port s))"

definition host_key :: "ustring \<Rightarrow> ustring" where
  "host_key h = to_ascii_lowercase (rev (dropWhile (\<lambda>c. c = 46) (rev h)))"

definition effective_port :: "ustring \<Rightarrow> 16 word option \<Rightarrow> 16 word" where
  "effective_port scheme port =
     (case port of Some p \<Rightarrow> p | None \<Rightarrow> if scheme = ascii ''https'' then 443 else 80)"

definition has_equivalent_target :: "connection_config \<Rightarrow> connection_config \<Rightarrow> bool" where
  "has_equivalent_target a b =
     (case (a, b) of
        (Api x, Api y) \<Rightarrow> api_scheme x = api_scheme y \<and> host_key (api_host x) = host_key (api_host y) \<and>
          effective_port (api_scheme x) (api_port x) = effective_port (api_scheme y) (api_port y)
      | (Pg x, Pg y) \<Rightarrow> host_key (pg_host x) = host_key (pg_host y) \<and> pg_port x = pg_port y \<and>
          dbname x = dbname y \<and> pg_user x = pg_user y
      | (Ssh x, Ssh y) \<Rightarrow> host_key (ssh_host x) = host_key (ssh_host y) \<and> ssh_port x = ssh_port y \<and>
          ssh_user x = ssh_user y
      | _ \<Rightarrow> False)"

definition ssh_destination :: "connection_config \<Rightarrow> ustring option" where
  "ssh_destination c =
     (case c of Ssh s \<Rightarrow> Some (case destination s of Some d \<Rightarrow> d | None \<Rightarrow> ssh_host s) | _ \<Rightarrow> None)"

record connection_oauth =
  grant_id :: uuid
  oauth_expires_at :: "datetime option"

record connection =
  conn_id :: uuid
  conn_name :: ustring
  conn_config :: connection_config
  conn_secrets :: "uuid list"
  account :: "ustring option"
  conn_oauth :: "connection_oauth option"
  conn_created_at :: datetime
  conn_updated_at :: datetime

definition conn_kind :: "connection \<Rightarrow> connection_kind" where
  "conn_kind c = config_kind (conn_config c)"

definition conn_target :: "connection \<Rightarrow> ustring" where
  "conn_target c = config_target (conn_config c)"

subsection \<open>Access records and endpoints\<close>

datatype confirm_mode = ConfirmOff | ConfirmOn

record tool_access =
  connection_id :: uuid
  enabled :: bool
  allowed_tools :: "ustring list option"
  confirm :: confirm_mode
  expose_response_credentials :: bool
  audit_statements :: "bool option"
  updated_at :: datetime

record direct_endpoint =
  ep_id :: uuid
  ep_connection_id :: uuid
  ep_kind :: connection_kind
  secret_hash :: ustring
  ep_secret :: ustring
  port :: "16 word option"
  require_auth :: bool
  created_at :: datetime
  expires_at :: "datetime option"

definition is_expired :: "datetime \<Rightarrow> direct_endpoint \<Rightarrow> bool" where
  "is_expired now e = (case expires_at e of Some t \<Rightarrow> now \<ge> t | None \<Rightarrow> False)"

subsection \<open>Properties\<close>

lemma equivalent_target_refl: "has_equivalent_target a a"
  by (cases a) (simp_all add: has_equivalent_target_def)

lemma equivalent_target_sym: "has_equivalent_target a b \<Longrightarrow> has_equivalent_target b a"
  by (auto simp: has_equivalent_target_def split: connection_config.splits)

lemma equivalent_target_trans:
  "has_equivalent_target a b \<Longrightarrow> has_equivalent_target b c \<Longrightarrow> has_equivalent_target a c"
  by (auto simp: has_equivalent_target_def split: connection_config.splits)

lemma signer_rename_refs:
  "signer_refs (fst (signer_rename_ref old new s)) = map (\<lambda>f. if f = old then new else f) (signer_refs s)"
  by (cases s) (auto simp: signer_refs_def signer_rename_ref_def Let_def split: option.splits)

lemma signer_rename_changed: "snd (signer_rename_ref old new s) \<longleftrightarrow> old \<in> set (signer_refs s)"
  by (cases s) (auto simp: signer_refs_def signer_rename_ref_def Let_def split: option.splits)

text \<open>
  Target equivalence, which decides whether two saved tools point at the same place, is an
  equivalence relation, never relates tools of different kinds, and ignores letter case and
  trailing dots of the host.
\<close>

theorem equivalent_target_equivalence:
  "equivp has_equivalent_target \<and>
   (has_equivalent_target a b \<longrightarrow> config_kind a = config_kind b) \<and>
   has_equivalent_target (Ssh s) (Ssh (s\<lparr>ssh_host := to_ascii_lowercase (ssh_host s) @ [46]\<rparr>))"
proof (intro conjI)
  show "equivp has_equivalent_target"
    by (rule equivpI) (auto intro!: reflpI sympI transpI intro: equivalent_target_refl
        equivalent_target_sym equivalent_target_trans)
  show "has_equivalent_target a b \<longrightarrow> config_kind a = config_kind b"
    by (auto simp: has_equivalent_target_def config_kind_def split: connection_config.splits)
  have "host_key (to_ascii_lowercase h @ [46]) = host_key h" for h
  proof -
    have "dropWhile (\<lambda>c. c = 46) (map f xs) = map f (dropWhile (\<lambda>c. c = 46) xs)"
      if "\<And>c. f c = 46 \<longleftrightarrow> c = 46" for f :: "nat \<Rightarrow> nat" and xs
      using that by (induction xs) auto
    then show ?thesis
      by (simp add: host_key_def to_ascii_lowercase_def flip: rev_map) (simp add: rev_map comp_def)
  qed
  then show "has_equivalent_target (Ssh s) (Ssh (s\<lparr>ssh_host := to_ascii_lowercase (ssh_host s) @ [46]\<rparr>))"
    by (simp add: has_equivalent_target_def)
qed

theorem equivalent_target_equivalence_witness:
  "config_kind (Ssh \<lparr>destination = None, ssh_host = [97], ssh_port = 22, ssh_user = [], host_key_fingerprint = []\<rparr>) =
   config_kind (Ssh \<lparr>destination = None, ssh_host = [65, 46], ssh_port = 22, ssh_user = [], host_key_fingerprint = []\<rparr>)"
  using equivalent_target_equivalence
    [of "Ssh \<lparr>destination = None, ssh_host = [97], ssh_port = 22, ssh_user = [], host_key_fingerprint = []\<rparr>"
        "Ssh \<lparr>destination = None, ssh_host = [65, 46], ssh_port = 22, ssh_user = [], host_key_fingerprint = []\<rparr>"]
  by (simp add: has_equivalent_target_def host_key_def to_ascii_lowercase_def)

end
