(* ===== verification/Integrity.thy ===== *)
theory Integrity
  imports CoreTypes
begin

unbundle bit_operations_syntax

text \<open>
  Sealed state files, \<^verbatim>\<open>crates/aka-core/src/integrity.rs\<close>: the hex codec, the MAC over
  basename, schema version and payload, sealing and verified reading, key establishment, and the
  record chain. HMAC-SHA256 and the JSON text layer (serde) are parameters; a file on disk is what
  \<open>serde_json::from_slice::<SealRead>\<close> makes of it: an envelope, or something else.
\<close>

type_synonym bytes = "8 word list"

subsection \<open>Hexadecimal strings\<close>

definition hex_nibble :: "8 word \<Rightarrow> 8 word" where
  "hex_nibble n = (if n < 10 then 48 + n else 87 + n)"

definition encode_hex :: "bytes \<Rightarrow> bytes" where
  "encode_hex bs = concat (map (\<lambda>b. [hex_nibble (drop_bit 4 b), hex_nibble (b AND 15)]) bs)"

definition hex_val :: "8 word \<Rightarrow> 8 word option" where
  "hex_val c =
     (if 48 \<le> c \<and> c \<le> 57 then Some (c - 48)
      else if 97 \<le> c \<and> c \<le> 102 then Some (c - 87)
      else if 65 \<le> c \<and> c \<le> 70 then Some (c - 55)
      else None)"

text \<open>\<open>u8::from_str_radix(s, 16)\<close> on a slice of two bytes: a leading plus sign is accepted.\<close>

definition from_radix16 :: "8 word \<Rightarrow> 8 word \<Rightarrow> 8 word option" where
  "from_radix16 a b =
     (if a = 43 then hex_val b
      else case (hex_val a, hex_val b) of (Some x, Some y) \<Rightarrow> Some (push_bit 4 x OR y) | _ \<Rightarrow> None)"

definition is_continuation :: "8 word \<Rightarrow> bool" where
  "is_continuation b = (b AND 192 = 128)"

text \<open>
  The string is given by its UTF-8 bytes. Slicing \<open>&hex[i..i + 2]\<close> panics when the slice ends inside
  a character, that is, before a continuation byte; collecting into \<open>Option\<close> stops at the first pair
  that is no number.
\<close>

fun decode_hex_pairs :: "bytes \<Rightarrow> bytes option outcome" where
  "decode_hex_pairs (a # b # rest) =
     (if rest \<noteq> [] \<and> is_continuation (hd rest) then Panic
      else case from_radix16 a b of
        None \<Rightarrow> Return None
      | Some v \<Rightarrow>
          (case decode_hex_pairs rest of
             Panic \<Rightarrow> Panic
           | Return r \<Rightarrow> Return (map_option ((#) v) r)))"
| "decode_hex_pairs _ = Return (Some [])"

definition decode_hex :: "bytes \<Rightarrow> bytes option outcome" where
  "decode_hex hex = (if odd (length hex) then Return None else decode_hex_pairs hex)"

subsection \<open>Seals\<close>

type_synonym hmac = "bytes \<Rightarrow> bytes \<Rightarrow> bytes"

definition be_bytes32 :: "nat \<Rightarrow> bytes" where
  "be_bytes32 n = [of_nat (n div 16777216), of_nat (n div 65536), of_nat (n div 256), of_nat n]"

record envelope =
  env_v :: nat
  schema_version :: "nat option"
  env_alg :: bytes
  env_mac :: bytes
  payload :: bytes

datatype state_file = Sealed envelope | Bare bytes | Unreadable

type_synonym path = "bytes list"
type_synonym disk = "path \<Rightarrow> state_file option"

record state_integrity =
  key :: bytes
  established :: bool

definition alg_name :: bytes where
  "alg_name = map of_char ''hmac-sha256''"

definition basename :: "path \<Rightarrow> bytes" where
  "basename p = (if p = [] then [] else last p)"

text \<open>The bytes fed to the MAC.\<close>

definition mac_input :: "bytes \<Rightarrow> nat option \<Rightarrow> bytes \<Rightarrow> bytes" where
  "mac_input base sv pl =
     base @ [0] @ (case sv of Some v \<Rightarrow> be_bytes32 v @ [0] | None \<Rightarrow> []) @ pl"

definition mac_hex :: "hmac \<Rightarrow> state_integrity \<Rightarrow> bytes \<Rightarrow> nat option \<Rightarrow> bytes \<Rightarrow> bytes" where
  "mac_hex hm si base sv pl = encode_hex (hm (key si) (mac_input base sv pl))"

definition verify_mac ::
    "hmac \<Rightarrow> state_integrity \<Rightarrow> bytes \<Rightarrow> nat option \<Rightarrow> bytes \<Rightarrow> bytes \<Rightarrow> bool outcome" where
  "verify_mac hm si base sv pl hex =
     (case decode_hex hex of
        Panic \<Rightarrow> Panic
      | Return None \<Rightarrow> Return False
      | Return (Some expected) \<Rightarrow> Return (hm (key si) (mac_input base sv pl) = expected))"

text \<open>
  \<open>write\<close>: \<open>raw_json\<close> is \<open>RawValue::from_string\<close> on UTF-8 text (\<open>None\<close> for bytes that are not JSON), and
  \<open>io_ok\<close> says whether the atomic file write succeeds.
\<close>

definition seal :: "hmac \<Rightarrow> state_integrity \<Rightarrow> path \<Rightarrow> bytes \<Rightarrow> envelope" where
  "seal hm si p raw =
     \<lparr>env_v = 1, schema_version = Some 1, env_alg = alg_name,
      env_mac = mac_hex hm si (basename p) (Some 1) raw, payload = raw\<rparr>"

definition write_sealed ::
    "hmac \<Rightarrow> (bytes \<Rightarrow> bytes option) \<Rightarrow> state_integrity \<Rightarrow> bool \<Rightarrow> path \<Rightarrow> bytes \<Rightarrow> disk \<Rightarrow>
     (core_error + unit) \<times> disk" where
  "write_sealed hm raw_json si io_ok p pl d =
     (case raw_json pl of
        None \<Rightarrow> (Err CorruptState, d)
      | Some raw \<Rightarrow>
          if io_ok then (Ok (), d(p \<mapsto> Sealed (seal hm si p raw))) else (Err IoError, d))"

definition read_verified ::
    "hmac \<Rightarrow> (bytes \<Rightarrow> bytes option) \<Rightarrow> state_integrity \<Rightarrow> bool \<Rightarrow> path \<Rightarrow> disk \<Rightarrow>
     ((core_error + bytes option) \<times> disk) outcome" where
  "read_verified hm raw_json si io_ok p d =
     (case d p of
        None \<Rightarrow> Return (Ok None, d)
      | Some Unreadable \<Rightarrow> Return (Err IoError, d)
      | Some (Sealed e) \<Rightarrow>
          if env_v e \<noteq> 1 \<or> env_alg e \<noteq> alg_name then Return (Err StateTampered, d)
          else (case verify_mac hm si (basename p) (schema_version e) (payload e) (env_mac e) of
            Panic \<Rightarrow> Panic
          | Return False \<Rightarrow> Return (Err StateTampered, d)
          | Return True \<Rightarrow>
              (case schema_version e of
                 Some v \<Rightarrow>
                   if v > 1 then Return (Err (UnsupportedStateVersion v 1), d)
                   else if v = 1 then Return (Ok (Some (payload e)), d)
                   else Return (Err StateTampered, d)
               | None \<Rightarrow>
                   Return (Ok (Some (payload e)), snd (write_sealed hm raw_json si io_ok p (payload e) d))))
      | Some (Bare bs) \<Rightarrow>
          if established si then Return (Err StateTampered, d)
          else (case write_sealed hm raw_json si io_ok p bs d of
            (Inl e, d') \<Rightarrow> Return (Err e, d')
          | (Inr _, d') \<Rightarrow> Return (Ok (Some bs), d')))"

subsection \<open>Establishing the key\<close>

text \<open>
  \<open>open_with_established_state\<close>: \<open>stored\<close> is the vault's answer for the reserved item, \<open>fresh\<close> the 32
  random bytes, \<open>set_result\<close> the vault's answer to storing them.
\<close>

definition integrity_open ::
    "(core_error + bytes) \<Rightarrow> bytes \<Rightarrow> (core_error + unit) \<Rightarrow> bool \<Rightarrow>
     (core_error + state_integrity) outcome" where
  "integrity_open stored fresh set_result established_on_disk =
     (case stored of
        Inr hex \<Rightarrow>
          (case decode_hex hex of
             Panic \<Rightarrow> Panic
           | Return None \<Rightarrow> Return (Err (VaultError (ascii ''integrity key is corrupt'')))
           | Return (Some k) \<Rightarrow> Return (Ok \<lparr>key = k, established = True\<rparr>))
      | Inl SecretNotFound \<Rightarrow>
          (case set_result of
             Inl e \<Rightarrow> Return (Err e)
           | Inr _ \<Rightarrow> Return (Ok \<lparr>key = fresh, established = established_on_disk\<rparr>))
      | Inl e \<Rightarrow> Return (Err e))"

text \<open>\<open>sealed_state_exists\<close>; \<open>has_seal_keys\<close> asks a non-envelope file for the keys \<open>mac\<close> and \<open>payload\<close>.\<close>

fun sealed_state_exists :: "(bytes \<Rightarrow> bool) \<Rightarrow> disk \<Rightarrow> path list \<Rightarrow> core_error + bool" where
  "sealed_state_exists has_seal_keys d [] = Ok False"
| "sealed_state_exists has_seal_keys d (p # ps) =
     (case d p of
        None \<Rightarrow> sealed_state_exists has_seal_keys d ps
      | Some Unreadable \<Rightarrow> Err IoError
      | Some (Sealed _) \<Rightarrow> Ok True
      | Some (Bare bs) \<Rightarrow>
          if has_seal_keys bs then Ok True else sealed_state_exists has_seal_keys d ps)"

subsection \<open>The record chain\<close>

definition chain_input :: "bytes \<Rightarrow> bytes \<Rightarrow> bytes \<Rightarrow> bytes" where
  "chain_input base previous rec = base @ [0] @ previous @ [0] @ rec"

definition chain :: "hmac \<Rightarrow> state_integrity \<Rightarrow> bytes \<Rightarrow> bytes \<Rightarrow> bytes \<Rightarrow> bytes" where
  "chain hm si base previous rec = encode_hex (hm (key si) (chain_input base previous rec))"

definition xor_fold :: "bytes \<Rightarrow> bytes \<Rightarrow> 8 word" where
  "xor_fold xs ys = foldl (\<lambda>acc (a, b). acc OR (a XOR b)) 0 (zip xs ys)"

definition chain_matches :: "bytes \<Rightarrow> bytes \<Rightarrow> bool outcome" where
  "chain_matches expected found =
     (case (decode_hex expected, decode_hex found) of
        (Return (Some e), Return (Some f)) \<Rightarrow>
          Return (length e = length f \<and> xor_fold e f = 0)
      | (Panic, _) \<Rightarrow> Panic
      | (_, Panic) \<Rightarrow> Panic
      | _ \<Rightarrow> Return False)"

subsection \<open>Lemmas\<close>

lemma word8_less: "unat (w :: 8 word) < 256"
  using unsigned_less [of w, where 'a = nat] by simp

lemma nibble_bounds: "unat (drop_bit 4 (b :: 8 word)) < 16" "unat (b AND 15) < 16"
proof -
  have "unat (drop_bit 4 b) = unat b div 2 ^ 4" unfolding unat_drop_bit_eq by (rule drop_bit_eq_div)
  then show "unat (drop_bit 4 b) < 16" using word8_less [of b] by simp
  have "b AND 15 \<le> (15 :: 8 word)" by (rule word_and_le1)
  then show "unat (b AND 15) < 16" by (simp add: word_le_nat_alt)
qed

lemma word8_cases16: "unat (n :: 8 word) < 16 \<Longrightarrow> n \<in> of_nat ` {0..<16}"
  by (rule image_eqI [of _ _ "unat n"]) auto

lemma hex_nibble_props:
  assumes "unat n < 16"
  shows "hex_val (hex_nibble n) = Some n" "hex_nibble n \<noteq> 43" "\<not> is_continuation (hex_nibble n)"
proof -
  have "n \<in> set (map of_nat [0..<16])" using word8_cases16 [OF assms] by simp
  moreover have "\<forall>n\<in>set (map of_nat [0..<16]). hex_val (hex_nibble n) = Some n \<and> hex_nibble n \<noteq> 43 \<and>
      \<not> is_continuation (hex_nibble n)"
    by (simp add: upt_rec hex_val_def hex_nibble_def is_continuation_def)
  ultimately show "hex_val (hex_nibble n) = Some n" "hex_nibble n \<noteq> 43" "\<not> is_continuation (hex_nibble n)"
    by auto
qed

lemma nibbles_join: "push_bit 4 (drop_bit 4 b) OR (b AND 15) = (b :: 8 word)"
proof -
  have "b AND 15 = take_bit 4 b" by (simp add: take_bit_eq_mask mask_eq_exp_minus_1)
  then show ?thesis by (auto simp: bit_eq_iff bit_or_iff bit_push_bit_iff bit_drop_bit_eq bit_take_bit_iff)
qed

lemma from_radix16_nibbles:
  "from_radix16 (hex_nibble (drop_bit 4 b)) (hex_nibble (b AND 15)) = Some b"
  using hex_nibble_props [OF nibble_bounds(1) [of b]] hex_nibble_props [OF nibble_bounds(2) [of b]]
  by (simp add: from_radix16_def nibbles_join)

lemma decode_encode_hex: "decode_hex (encode_hex bs) = Return (Some bs)"
proof -
  have "decode_hex_pairs (encode_hex bs) = Return (Some bs)"
  proof (induction bs)
    case (Cons b bs)
    have "encode_hex bs = [] \<or> \<not> is_continuation (hd (encode_hex bs))"
      using hex_nibble_props(3) [OF nibble_bounds(1)] by (cases bs) (simp_all add: encode_hex_def)
    with Cons show ?case using from_radix16_nibbles [of b] by (auto simp: encode_hex_def)
  qed (simp add: encode_hex_def)
  moreover have "even (length (encode_hex bs))" by (induction bs) (simp_all add: encode_hex_def)
  ultimately show ?thesis by (simp add: decode_hex_def)
qed

lemma decode_hex_ascii:
  assumes "\<forall>c\<in>set s. \<not> is_continuation c"
  shows "decode_hex s \<noteq> Panic"
proof -
  have "decode_hex_pairs s \<noteq> Panic"
    using assms by (induction s rule: decode_hex_pairs.induct) (auto split: option.splits outcome.splits)
  then show ?thesis by (simp add: decode_hex_def)
qed

lemma nul_free_split:
  assumes "a @ [0] @ x = b @ [0] @ y" and "(0 :: 8 word) \<notin> set a" and "0 \<notin> set b"
  shows "a = b \<and> x = y"
  using assms
proof (induction a arbitrary: b)
  case Nil
  then show ?case by (cases b) auto
next
  case (Cons c a)
  then show ?case by (cases b) auto
qed

lemma be_bytes32_inj: "a < 2 ^ 32 \<Longrightarrow> b < 2 ^ 32 \<Longrightarrow> be_bytes32 a = be_bytes32 b \<Longrightarrow> a = b"
proof -
  assume lt: "a < 2 ^ 32" "b < 2 ^ 32" and eq: "be_bytes32 a = be_bytes32 b"
  have w: "(of_nat x :: 8 word) = of_nat y \<longleftrightarrow> x mod 256 = y mod 256" for x y
    by (simp add: word_of_nat_eq_iff take_bit_eq_mod)
  have d: "x = 256 * (256 * (256 * (x div 16777216 mod 256) + x div 65536 mod 256) + x div 256 mod 256) + x mod 256"
    if "x < 2 ^ 32" for x :: nat
  proof -
    have "x div 16777216 < 256" using that by (simp add: less_mult_imp_div_less)
    then have q3: "x div 16777216 mod 256 = x div 16777216" by simp
    have q2: "x div 65536 = 256 * (x div 16777216) + x div 65536 mod 256"
      using div_mult2_eq [of x 65536 256] mult_div_mod_eq [of 256 "x div 65536"] by simp
    have q1: "x div 256 = 256 * (x div 65536) + x div 256 mod 256"
      using div_mult2_eq [of x 256 256] mult_div_mod_eq [of 256 "x div 256"] by simp
    have "x = 256 * (x div 256) + x mod 256" by (rule mult_div_mod_eq [symmetric])
    then show ?thesis unfolding q3 q2 [symmetric] q1 [symmetric] .
  qed
  from eq have bytes: "a div 16777216 mod 256 = b div 16777216 mod 256"
    "a div 65536 mod 256 = b div 65536 mod 256" "a div 256 mod 256 = b div 256 mod 256" "a mod 256 = b mod 256"
    by (simp_all add: be_bytes32_def w)
  from d [OF lt(1)] show "a = b" unfolding bytes by (rule trans) (rule d [OF lt(2), symmetric])
qed

text \<open>The MAC input determines file name, version and payload, because neither names nor JSON hold NUL.\<close>

lemma mac_input_inj:
  assumes "0 \<notin> set base" "0 \<notin> set base'" and "pl \<noteq> []" "hd pl \<noteq> 0" and "pl' \<noteq> []" "hd pl' \<noteq> 0"
    and "\<And>v. sv = Some v \<Longrightarrow> v < 2 ^ 24" and "\<And>v. sv' = Some v \<Longrightarrow> v < 2 ^ 24"
    and "mac_input base sv pl = mac_input base' sv' pl'"
  shows "base = base' \<and> sv = sv' \<and> pl = pl'"
proof -
  have b: "base = base'" and rest:
    "(case sv of Some v \<Rightarrow> be_bytes32 v @ [0] | None \<Rightarrow> []) @ pl =
     (case sv' of Some v \<Rightarrow> be_bytes32 v @ [0] | None \<Rightarrow> []) @ pl'"
    using nul_free_split [OF assms(9) [unfolded mac_input_def] assms(1,2)] by auto
  have z: "hd (be_bytes32 v) = 0 \<and> be_bytes32 v \<noteq> []" if "v < 2 ^ 24" for v
    using that by (simp add: be_bytes32_def)
  consider (none) "sv = None" "sv' = None" | (both) v v' where "sv = Some v" "sv' = Some v'"
    | (left) v where "sv = Some v" "sv' = None" | (right) v where "sv = None" "sv' = Some v"
    by (cases sv; cases sv') auto
  then show ?thesis
  proof cases
    case none
    with b rest show ?thesis by simp
  next
    case both
    then have "be_bytes32 v = be_bytes32 v'" and "pl = pl'" using rest by (simp_all add: be_bytes32_def)
    moreover have "v < 2 ^ 32" "v' < 2 ^ 32" using assms(7) [OF both(1)] assms(8) [OF both(2)] by auto
    ultimately show ?thesis using be_bytes32_inj both b by auto
  next
    case left
    then have "hd pl' = hd (be_bytes32 v)" using rest z [OF assms(7) [OF left(1)]]
      by (metis append_Nil hd_append2 append_assoc option.case)
    then show ?thesis using z [OF assms(7) [OF left(1)]] assms(6) by simp
  next
    case right
    then have "hd pl = hd (be_bytes32 v)" using rest z [OF assms(8) [OF right(2)]]
      by (metis append_Nil hd_append2 append_assoc option.case)
    then show ?thesis using z [OF assms(8) [OF right(2)]] assms(4) by simp
  qed
qed

lemma verify_mac_hex [simp]: "verify_mac hm si base sv pl (mac_hex hm si base sv pl) = Return True"
  by (simp add: verify_mac_def mac_hex_def decode_encode_hex)

lemma byte_xor_eq_0_iff: "(a XOR b = (0 :: 8 word)) \<longleftrightarrow> a = b"
  by (auto simp: bit_eq_iff bit_xor_iff)

lemma xor_foldl: "length (xs :: bytes) = length ys \<Longrightarrow>
    foldl (\<lambda>acc (a, b). acc OR (a XOR b)) acc (zip xs ys) = 0 \<longleftrightarrow> acc = 0 \<and> xs = ys"
proof (induction xs ys arbitrary: acc rule: list_induct2)
  case (Cons x xs y ys)
  show ?case
    by (simp only: zip_Cons_Cons foldl_Cons prod.case Cons.IH or_eq_0_iff byte_xor_eq_0_iff list.inject conj_assoc)
qed simp

subsection \<open>Properties\<close>

text \<open>
  What is sealed can be read back: after a successful write, a verified read of the same path
  returns exactly the sealed bytes and leaves the disk alone, with or without an established key and
  for any HMAC.
\<close>

theorem write_then_read:
  assumes "raw_json pl = Some raw"
    and "write_sealed hm raw_json si True p pl d = (r, d')"
  shows "r = Ok () \<and> read_verified hm raw_json si io_ok p d' = Return (Ok (Some raw), d')"
  using assms by (auto simp: write_sealed_def read_verified_def seal_def)

theorem write_then_read_witness:
  "read_verified (\<lambda>k m. m) (\<lambda>b. Some b) \<lparr>key = [], established = True\<rparr> False [[97]]
     (snd (write_sealed (\<lambda>k m. m) (\<lambda>b. Some b) \<lparr>key = [], established = True\<rparr> True [[97]] [123, 125] Map.empty)) =
   Return (Ok (Some [123, 125]),
     snd (write_sealed (\<lambda>k m. m) (\<lambda>b. Some b) \<lparr>key = [], established = True\<rparr> True [[97]] [123, 125] Map.empty))"
  using write_then_read [of "\<lambda>b. Some b" "[123, 125]" "[123, 125]" "\<lambda>k m. m"
      "\<lparr>key = [], established = True\<rparr>" "[[97]]" Map.empty
      "fst (write_sealed (\<lambda>k m. m) (\<lambda>b. Some b) \<lparr>key = [], established = True\<rparr> True [[97]] [123, 125] Map.empty)"
      "snd (write_sealed (\<lambda>k m. m) (\<lambda>b. Some b) \<lparr>key = [], established = True\<rparr> True [[97]] [123, 125] Map.empty)"
      False]
  by (simp only: prod.collapse simp_thms)

text \<open>
  C16. Nothing unauthenticated loads once the key is established: a payload is returned only if the
  file is a version-1 envelope whose MAC is the HMAC, under the vault key, of this very basename,
  schema version and payload; and these bytes determine all three, so a seal can neither be moved to
  another state file nor be stripped of its version.
\<close>

theorem only_authenticated_state_loads:
  assumes "established si" and "read_verified hm raw_json si io_ok p d = Return (Ok (Some pl), d')"
  shows "\<exists>e. d p = Some (Sealed e) \<and> pl = payload e \<and> env_v e = 1 \<and> schema_version e \<in> {None, Some 1} \<and>
    decode_hex (env_mac e) = Return (Some (hm (key si) (mac_input (basename p) (schema_version e) pl))) \<and>
    (\<forall>base' sv' pl'. 0 \<notin> set (basename p) \<and> 0 \<notin> set base' \<and> pl \<noteq> [] \<and> hd pl \<noteq> 0 \<and> pl' \<noteq> [] \<and> hd pl' \<noteq> 0 \<and>
       sv' \<in> {None, Some 1} \<and> mac_input base' sv' pl' = mac_input (basename p) (schema_version e) pl \<longrightarrow>
       base' = basename p \<and> sv' = schema_version e \<and> pl' = pl)"
proof -
  obtain e where e: "d p = Some (Sealed e)" "env_v e = 1"
    and v: "verify_mac hm si (basename p) (schema_version e) (payload e) (env_mac e) = Return True"
    and pl: "pl = payload e" "schema_version e \<in> {None, Some 1}"
    using assms
    by (auto simp: read_verified_def split: option.splits state_file.splits if_splits outcome.splits bool.splits)
  have m: "decode_hex (env_mac e) = Return (Some (hm (key si) (mac_input (basename p) (schema_version e) pl)))"
    using v pl(1) by (auto simp: verify_mac_def split: outcome.splits option.splits)
  have "base' = basename p \<and> sv' = schema_version e \<and> pl' = pl"
    if "0 \<notin> set (basename p) \<and> 0 \<notin> set base' \<and> pl \<noteq> [] \<and> hd pl \<noteq> 0 \<and> pl' \<noteq> [] \<and> hd pl' \<noteq> 0 \<and>
       sv' \<in> {None, Some 1} \<and> mac_input base' sv' pl' = mac_input (basename p) (schema_version e) pl"
    for base' sv' pl'
    using that pl(2) by (intro mac_input_inj) auto
  with e pl m show ?thesis by blast
qed

theorem only_authenticated_state_loads_witness:
  "\<exists>e. ([[[97::8 word]] \<mapsto> Sealed (seal (\<lambda>k m. m) \<lparr>key = [], established = True\<rparr> [[97]] [123, 125])]) [[97]] =
       Some (Sealed e) \<and> [123, 125] = payload e"
proof -
  let ?si = "\<lparr>key = [], established = True\<rparr>"
  let ?d = "[[[97::8 word]] \<mapsto> Sealed (seal (\<lambda>k m. m) ?si [[97]] [123, 125])]"
  have "read_verified (\<lambda>k m. m) (\<lambda>b. Some b) ?si True [[97]] ?d = Return (Ok (Some [123, 125]), ?d)"
    by (simp add: read_verified_def seal_def)
  from only_authenticated_state_loads [OF _ this] show ?thesis by auto
qed

text \<open>
  A tampered seal can crash the reader instead of being refused: slicing the MAC text two bytes
  at a time panics when a multi-byte character straddles a slice, so an envelope whose \<open>mac\<close> is the
  four bytes of \<open>a\<close>, e-acute, \<open>a\<close> makes a verified read panic for every key and HMAC.
\<close>

theorem tampered_mac_panics:
  "read_verified hm raw_json si io_ok p
     (d(p \<mapsto> Sealed \<lparr>env_v = 1, schema_version = sv, env_alg = alg_name, env_mac = [97, 195, 169, 97], payload = pl\<rparr>)) =
   Panic"
  by (simp add: read_verified_def verify_mac_def decode_hex_def is_continuation_def)

text \<open>
  The constant-time comparison of chain heads is equality: on two hex encodings the OR-of-XORs
  fold accepts exactly equal byte strings.
\<close>

theorem chain_matches_correct:
  "chain_matches (encode_hex a) (encode_hex b) = Return (a = b)"
  by (auto simp: chain_matches_def decode_encode_hex xor_fold_def xor_foldl)

end
