(* ===== verification/Policy.thy ===== *)
theory Policy
  imports CoreTypes "HOL-Library.List_Lexorder"
begin

text \<open>
  The authorization table, \<^verbatim>\<open>crates/aka-core/src/policy.rs\<close>: per-connection access records, their sealed
  file with a generation number, the rollback check against the generation kept in the store's
  index (\<^verbatim>\<open>store.rs\<close>, \<open>AccessGenerationStore for Store\<close>), crash recovery, and the migration of
  the two older policy files. What \<open>read_verified\<close> and serde make of a file is the value of
  \<open>access_file\<close>; every write takes the error it fails with, if any, as an argument.
\<close>

subsection \<open>State\<close>

datatype access_state_read =
    Current nat "tool_access list"
  | Legacy "tool_access list"

record access_disk =
  access_file :: "core_error + access_state_read option"
  access_generation :: nat

record access_table =
  entries :: "tool_access list"
  generation :: nat
  has_generation_store :: bool

record legacy_wiring =
  wiring_connection_id :: uuid
  wiring_allowed_tools :: "ustring list option"

record legacy_rule =
  rule_client_id :: uuid
  rule_connection_id :: uuid

text \<open>
  The error with which the file write and the index write fail; \<open>None\<close> for success. The write of the file
  may fail after its rename (the flush of the directory): the flag says that the new file is in place.
\<close>

record write_faults =
  file_fault :: "(core_error \<times> bool) option"
  index_fault :: "core_error option"

definition u64_max :: nat where
  "u64_max = 2 ^ 64 - 1"

subsection \<open>Persisting\<close>

definition advance_access_generation ::
    "core_error option \<Rightarrow> access_disk \<Rightarrow> (core_error + nat) \<times> access_disk" where
  "advance_access_generation fault d =
     (if access_generation d = u64_max
      then (Err (InvalidSetting (ascii ''access generation overflow'')), d)
      else case fault of
        Some e \<Rightarrow> (Err e, d)
      | None \<Rightarrow> (Ok (access_generation d + 1), d\<lparr>access_generation := access_generation d + 1\<rparr>))"

definition persist ::
    "write_faults \<Rightarrow> tool_access list \<Rightarrow> access_table \<Rightarrow> access_disk \<Rightarrow>
     (core_error + unit) \<times> access_table \<times> access_disk" where
  "persist w next t d =
     (if generation t = u64_max
      then (Err (InvalidSetting (ascii ''access generation overflow'')), t, d)
      else
        let gen = generation t + 1 in
        case file_fault w of
          Some (e, renamed) \<Rightarrow> (Err e, t, if renamed then d\<lparr>access_file := Ok (Some (Current gen next))\<rparr> else d)
        | None \<Rightarrow>
            let d = d\<lparr>access_file := Ok (Some (Current gen next))\<rparr> in
            if has_generation_store t then
              (case advance_access_generation (index_fault w) d of
                 (Inl e, d) \<Rightarrow> (Err e, t, d)
               | (Inr g, d) \<Rightarrow>
                   if g \<noteq> gen then (Err (InvalidSetting (ascii ''access generation skew'')), t, d)
                   else (Ok (), t\<lparr>generation := gen\<rparr>, d))
            else (Ok (), t\<lparr>generation := gen\<rparr>, d))"

text \<open>The tail of every setter: \<open>self.persist(&next)?; *entries = next; Ok(true)\<close>.\<close>

definition commit_entries ::
    "write_faults \<Rightarrow> tool_access list \<Rightarrow> access_table \<Rightarrow> access_disk \<Rightarrow>
     (core_error + bool) \<times> access_table \<times> access_disk" where
  "commit_entries w next t d =
     (case persist w next t d of
        (Inl e, t, d) \<Rightarrow> (Err e, t, d)
      | (Inr _, t, d) \<Rightarrow> (Ok True, t\<lparr>entries := next\<rparr>, d))"

subsection \<open>Opening and migration\<close>

definition migrate_wiring :: "(uuid \<Rightarrow> datetime) \<Rightarrow> legacy_wiring list \<Rightarrow> uuid \<Rightarrow> tool_access" where
  "migrate_wiring now wirings c =
     (let wired = filter (\<lambda>w. wiring_connection_id w = c) wirings in
      if wired = [] then
        \<lparr>connection_id = c, enabled = False, allowed_tools = None, confirm = ConfirmOff,
         expose_response_credentials = False, audit_statements = None, updated_at = now c\<rparr>
      else
        let tools =
          (if list_ex (\<lambda>w. wiring_allowed_tools w = None) wired then None
           else Some (remdups_adj (sort
             (concat (map (\<lambda>w. case wiring_allowed_tools w of Some ts \<Rightarrow> ts | None \<Rightarrow> []) wired))))) in
        \<lparr>connection_id = c, enabled = True, allowed_tools = tools, confirm = ConfirmOff,
         expose_response_credentials = False, audit_statements = None, updated_at = now c\<rparr>)"

definition migrate_rule :: "(uuid \<Rightarrow> datetime) \<Rightarrow> legacy_rule list \<Rightarrow> uuid \<Rightarrow> tool_access" where
  "migrate_rule now rules c =
     \<lparr>connection_id = c,
      enabled = list_ex (\<lambda>r. rule_client_id r \<noteq> 0 \<and> rule_connection_id r = c) rules,
      allowed_tools = None, confirm = ConfirmOff, expose_response_credentials = False,
      audit_statements = None, updated_at = now c\<rparr>"

text \<open>
  The first half of \<open>open_with_legacy_policy_and_generation\<close>: what the sealed file gives (entries,
  generation, whether it is the old format), after the check against the index.
\<close>

definition load_access ::
    "bool \<Rightarrow> write_faults \<Rightarrow> access_disk \<Rightarrow>
     (core_error + tool_access list option \<times> nat \<times> bool) \<times> access_disk" where
  "load_access has_store w d =
     (let expected = (if has_store then access_generation d else 0) in
      case access_file d of
        Inl e \<Rightarrow> (Err e, d)
      | Inr (Some (Current gen es)) \<Rightarrow>
          if has_store \<and> gen \<ge> expected \<and> gen - expected = 1 then
            (case advance_access_generation (index_fault w) d of
               (Inl e, d) \<Rightarrow> (Err e, d)
             | (Inr g, d) \<Rightarrow>
                 if g \<noteq> gen then (Err StateTampered, d) else (Ok (Some es, gen, False), d))
          else if has_store \<and> gen \<noteq> expected then (Err StateTampered, d)
          else (Ok (Some es, gen, False), d)
      | Inr (Some (Legacy es)) \<Rightarrow>
          if expected \<noteq> 0 then (Err StateTampered, d) else (Ok (Some es, 0, True), d)
      | Inr None \<Rightarrow>
          if expected \<noteq> 0 then (Err StateTampered, d) else (Ok (None, 0, False), d))"

text \<open>
  The migration of \<open>wirings.json\<close>, then of \<open>rules.json\<close>: a path is optional, and reading it gives an
  error, nothing (no such file), or its records. The result says whether something was migrated.
\<close>

definition migrate_policy ::
    "(core_error + legacy_wiring list option) option \<Rightarrow> (core_error + legacy_rule list option) option \<Rightarrow>
     uuid list \<Rightarrow> (uuid \<Rightarrow> datetime) \<Rightarrow> core_error + tool_access list option" where
  "migrate_policy wirings rules known now =
     (case wirings of
        Some (Inl e) \<Rightarrow> Err e
      | Some (Inr (Some ws)) \<Rightarrow> Ok (Some (map (migrate_wiring now ws) known))
      | _ \<Rightarrow>
          (case rules of
             Some (Inl e) \<Rightarrow> Err e
           | Some (Inr (Some rs)) \<Rightarrow> Ok (Some (map (migrate_rule now rs) known))
           | _ \<Rightarrow> Ok None))"

definition open_access ::
    "bool \<Rightarrow> (core_error + legacy_wiring list option) option \<Rightarrow> (core_error + legacy_rule list option) option \<Rightarrow>
     uuid list \<Rightarrow> (uuid \<Rightarrow> datetime) \<Rightarrow> write_faults \<Rightarrow> access_disk \<Rightarrow>
     (core_error + access_table) \<times> access_disk" where
  "open_access has_store wirings rules known now w d =
     (case load_access has_store w d of
        (Inl e, d) \<Rightarrow> (Err e, d)
      | (Inr (loaded, gen, migrate_legacy_access), d) \<Rightarrow>
          let t = \<lparr>entries = [], generation = gen, has_generation_store = has_store\<rparr> in
          (case (case loaded of Some es \<Rightarrow> Ok None | None \<Rightarrow> migrate_policy wirings rules known now) of
             Inl e \<Rightarrow> (Err e, d)
           | Inr migrated \<Rightarrow>
               let es = (case loaded of Some es \<Rightarrow> es | None \<Rightarrow> (case migrated of Some es \<Rightarrow> es | None \<Rightarrow> [])) in
               if migrate_legacy_access \<or> migrated \<noteq> None then
                 (case persist w es t d of
                    (Inl e, _, d) \<Rightarrow> (Err e, d)
                  | (Inr _, t, d) \<Rightarrow> (Ok (t\<lparr>entries := es\<rparr>), d))
               else (Ok (t\<lparr>entries := es\<rparr>), d)))"

subsection \<open>Queries\<close>

definition access_entry :: "access_table \<Rightarrow> uuid \<Rightarrow> tool_access option" where
  "access_entry t c = List.find (\<lambda>e. connection_id e = c) (entries t)"

definition allows :: "access_table \<Rightarrow> uuid \<Rightarrow> bool" where
  "allows t c =
     (case List.find (\<lambda>e. connection_id e = c) (entries t) of Some e \<Rightarrow> enabled e | None \<Rightarrow> True)"

definition allowed_tools_of :: "access_table \<Rightarrow> uuid \<Rightarrow> ustring list option" where
  "allowed_tools_of t c =
     (case List.find (\<lambda>e. connection_id e = c) (entries t) of Some e \<Rightarrow> allowed_tools e | None \<Rightarrow> None)"

definition confirm_mode_of :: "access_table \<Rightarrow> uuid \<Rightarrow> confirm_mode" where
  "confirm_mode_of t c =
     (case List.find (\<lambda>e. connection_id e = c) (entries t) of Some e \<Rightarrow> confirm e | None \<Rightarrow> ConfirmOff)"

definition exposes_response_credentials :: "access_table \<Rightarrow> uuid \<Rightarrow> bool" where
  "exposes_response_credentials t c =
     (case List.find (\<lambda>e. connection_id e = c) (entries t) of
        Some e \<Rightarrow> expose_response_credentials e
      | None \<Rightarrow> True)"

definition audits_statements :: "access_table \<Rightarrow> uuid \<Rightarrow> bool \<Rightarrow> bool" where
  "audits_statements t c dflt =
     (case List.find (\<lambda>e. connection_id e = c) (entries t) of
        Some e \<Rightarrow> (case audit_statements e of Some b \<Rightarrow> b | None \<Rightarrow> dflt)
      | None \<Rightarrow> dflt)"

subsection \<open>Setters\<close>

definition set_enabled ::
    "write_faults \<Rightarrow> datetime \<Rightarrow> uuid \<Rightarrow> bool \<Rightarrow> access_table \<Rightarrow> access_disk \<Rightarrow>
     (core_error + bool) \<times> access_table \<times> access_disk" where
  "set_enabled w now c b t d =
     (if allows t c = b then (Ok False, t, d)
      else commit_entries w
        (upsert connection_id c (\<lambda>e. e\<lparr>enabled := b, updated_at := now\<rparr>)
          \<lparr>connection_id = c, enabled = b, allowed_tools = None, confirm = ConfirmOff,
           expose_response_credentials = True, audit_statements = None, updated_at = now\<rparr> (entries t)) t d)"

definition set_allowed_tools ::
    "write_faults \<Rightarrow> datetime \<Rightarrow> uuid \<Rightarrow> ustring list option \<Rightarrow> access_table \<Rightarrow> access_disk \<Rightarrow>
     (core_error + bool) \<times> access_table \<times> access_disk" where
  "set_allowed_tools w now c tools t d =
     (if allowed_tools_of t c = tools then (Ok False, t, d)
      else commit_entries w
        (upsert connection_id c (\<lambda>e. e\<lparr>allowed_tools := tools, updated_at := now\<rparr>)
          \<lparr>connection_id = c, enabled = True, allowed_tools = tools, confirm = ConfirmOff,
           expose_response_credentials = True, audit_statements = None, updated_at = now\<rparr> (entries t)) t d)"

definition set_confirm_mode ::
    "write_faults \<Rightarrow> datetime \<Rightarrow> uuid \<Rightarrow> confirm_mode \<Rightarrow> access_table \<Rightarrow> access_disk \<Rightarrow>
     (core_error + bool) \<times> access_table \<times> access_disk" where
  "set_confirm_mode w now c m t d =
     (if confirm_mode_of t c = m then (Ok False, t, d)
      else commit_entries w
        (upsert connection_id c (\<lambda>e. e\<lparr>confirm := m, updated_at := now\<rparr>)
          \<lparr>connection_id = c, enabled = True, allowed_tools = None, confirm = m,
           expose_response_credentials = True, audit_statements = None, updated_at = now\<rparr> (entries t)) t d)"

definition set_expose_response_credentials ::
    "write_faults \<Rightarrow> datetime \<Rightarrow> uuid \<Rightarrow> bool \<Rightarrow> access_table \<Rightarrow> access_disk \<Rightarrow>
     (core_error + bool) \<times> access_table \<times> access_disk" where
  "set_expose_response_credentials w now c b t d =
     (if exposes_response_credentials t c = b then (Ok False, t, d)
      else commit_entries w
        (upsert connection_id c (\<lambda>e. e\<lparr>expose_response_credentials := b, updated_at := now\<rparr>)
          \<lparr>connection_id = c, enabled = True, allowed_tools = None, confirm = ConfirmOff,
           expose_response_credentials = b, audit_statements = None, updated_at = now\<rparr> (entries t)) t d)"

definition set_audit_statements ::
    "write_faults \<Rightarrow> datetime \<Rightarrow> uuid \<Rightarrow> bool option \<Rightarrow> access_table \<Rightarrow> access_disk \<Rightarrow>
     (core_error + bool) \<times> access_table \<times> access_disk" where
  "set_audit_statements w now c b t d =
     (if (case List.find (\<lambda>e. connection_id e = c) (entries t) of Some e \<Rightarrow> audit_statements e | None \<Rightarrow> None) = b
      then (Ok False, t, d)
      else commit_entries w
        (upsert connection_id c (\<lambda>e. e\<lparr>audit_statements := b, updated_at := now\<rparr>)
          \<lparr>connection_id = c, enabled = True, allowed_tools = None, confirm = ConfirmOff,
           expose_response_credentials = True, audit_statements = b, updated_at = now\<rparr> (entries t)) t d)"

definition remove_for_connection ::
    "write_faults \<Rightarrow> uuid \<Rightarrow> access_table \<Rightarrow> access_disk \<Rightarrow>
     (core_error + bool) \<times> access_table \<times> access_disk" where
  "remove_for_connection w c t d =
     (let next = filter (\<lambda>e. connection_id e \<noteq> c) (entries t) in
      if length next \<noteq> length (entries t) then commit_entries w next t d else (Ok False, t, d))"

subsection \<open>The lookup laws of the table\<close>

interpretation access: keyed_table connection_id .

lemma access_entry_lookup: "access_entry t c = access.lookup (entries t) c"
  by (simp add: access_entry_def access.lookup_def)

lemma queries_by_entry:
  "allows t c = (case access_entry t c of Some e \<Rightarrow> enabled e | None \<Rightarrow> True)"
  "allowed_tools_of t c = (case access_entry t c of Some e \<Rightarrow> allowed_tools e | None \<Rightarrow> None)"
  "confirm_mode_of t c = (case access_entry t c of Some e \<Rightarrow> confirm e | None \<Rightarrow> ConfirmOff)"
  "exposes_response_credentials t c =
     (case access_entry t c of Some e \<Rightarrow> expose_response_credentials e | None \<Rightarrow> True)"
  "audits_statements t c dflt =
     (case access_entry t c of
        Some e \<Rightarrow> (case audit_statements e of Some b \<Rightarrow> b | None \<Rightarrow> dflt) | None \<Rightarrow> dflt)"
  by (simp_all add: access_entry_def allows_def allowed_tools_of_def confirm_mode_of_def
      exposes_response_credentials_def audits_statements_def)

text \<open>
  The contract of a setter: one field with its default, an update of that field and a fresh record.
  The five setters of the source are instances.
\<close>

locale access_field =
  fixes field :: "tool_access \<Rightarrow> 'v"
    and upd :: "datetime \<Rightarrow> 'v \<Rightarrow> tool_access \<Rightarrow> tool_access"
    and fresh :: "datetime \<Rightarrow> uuid \<Rightarrow> 'v \<Rightarrow> tool_access"
  assumes field_upd: "field (upd now v e) = v"
    and id_upd: "connection_id (upd now v e) = connection_id e"
    and field_fresh: "field (fresh now c v) = v"
    and id_fresh: "connection_id (fresh now c v) = c"
begin

definition written :: "datetime \<Rightarrow> uuid \<Rightarrow> 'v \<Rightarrow> tool_access list \<Rightarrow> tool_access list" where
  "written now c v es = upsert connection_id c (upd now v) (fresh now c v) es"

lemma entry_written:
  "access.lookup (written now c v es) c =
     Some (case access.lookup es c of Some e \<Rightarrow> upd now v e | None \<Rightarrow> fresh now c v)"
  unfolding written_def by (rule access.lookup_upsert_same) (simp_all add: id_upd id_fresh)

lemma entry_other: "c' \<noteq> c \<Longrightarrow> access.lookup (written now c v es) c' = access.lookup es c'"
  unfolding written_def by (rule access.lookup_upsert_other) (simp_all add: id_upd id_fresh)

lemma distinct_written:
  "distinct (map connection_id es) \<Longrightarrow> distinct (map connection_id (written now c v es))"
  unfolding written_def by (rule access.distinct_upsert) (simp_all add: id_upd id_fresh)

end

interpretation enabled_field: access_field enabled
  "\<lambda>now v e. e\<lparr>enabled := v, updated_at := now\<rparr>"
  "\<lambda>now c v. \<lparr>connection_id = c, enabled = v, allowed_tools = None, confirm = ConfirmOff,
     expose_response_credentials = True, audit_statements = None, updated_at = now\<rparr>"
  by unfold_locales simp_all

interpretation tools_field: access_field allowed_tools
  "\<lambda>now v e. e\<lparr>allowed_tools := v, updated_at := now\<rparr>"
  "\<lambda>now c v. \<lparr>connection_id = c, enabled = True, allowed_tools = v, confirm = ConfirmOff,
     expose_response_credentials = True, audit_statements = None, updated_at = now\<rparr>"
  by unfold_locales simp_all

interpretation confirm_field: access_field confirm
  "\<lambda>now v e. e\<lparr>confirm := v, updated_at := now\<rparr>"
  "\<lambda>now c v. \<lparr>connection_id = c, enabled = True, allowed_tools = None, confirm = v,
     expose_response_credentials = True, audit_statements = None, updated_at = now\<rparr>"
  by unfold_locales simp_all

interpretation expose_field: access_field expose_response_credentials
  "\<lambda>now v e. e\<lparr>expose_response_credentials := v, updated_at := now\<rparr>"
  "\<lambda>now c v. \<lparr>connection_id = c, enabled = True, allowed_tools = None, confirm = ConfirmOff,
     expose_response_credentials = v, audit_statements = None, updated_at = now\<rparr>"
  by unfold_locales simp_all

interpretation audit_field: access_field audit_statements
  "\<lambda>now v e. e\<lparr>audit_statements := v, updated_at := now\<rparr>"
  "\<lambda>now c v. \<lparr>connection_id = c, enabled = True, allowed_tools = None, confirm = ConfirmOff,
     expose_response_credentials = True, audit_statements = v, updated_at = now\<rparr>"
  by unfold_locales simp_all

lemmas setter_forms =
  set_enabled_def [folded enabled_field.written_def]
  set_allowed_tools_def [folded tools_field.written_def]
  set_confirm_mode_def [folded confirm_field.written_def]
  set_expose_response_credentials_def [folded expose_field.written_def]
  set_audit_statements_def [folded audit_field.written_def]

subsection \<open>Commits\<close>

lemma commit_entries_Ok:
  "commit_entries w next t d = (Ok r, t', d') \<Longrightarrow> r \<and> entries t' = next"
  by (auto simp: commit_entries_def split: prod.splits sum.splits)

lemma persist_Err_table: "persist w next t d = (Err e, t', d') \<Longrightarrow> t' = t"
  by (auto simp: persist_def Let_def split: if_splits option.splits prod.splits sum.splits)

lemma commit_entries_Err: "commit_entries w next t d = (Err e, t', d') \<Longrightarrow> t' = t"
  by (auto simp: commit_entries_def dest: persist_Err_table split: prod.splits sum.splits)

text \<open>Memory and disk agree, up to one interrupted commit that left the file one generation ahead.\<close>

definition access_consistent :: "access_table \<times> access_disk \<Rightarrow> bool" where
  "access_consistent = (\<lambda>(t, d).
     has_generation_store t \<and> generation t = access_generation d \<and> generation t \<le> u64_max \<and>
     (case access_file d of
        Inl _ \<Rightarrow> False
      | Inr None \<Rightarrow> generation t = 0 \<and> entries t = []
      | Inr (Some (Legacy _)) \<Rightarrow> False
      | Inr (Some (Current g es)) \<Rightarrow>
          g = generation t \<and> es = entries t \<or> g = generation t + 1 \<and> g \<le> u64_max))"

lemma commit_entries_consistent:
  assumes "access_consistent (t, d)" and "commit_entries w next t d = (r, t', d')"
  shows "access_consistent (t', d')"
  using assms
  by (auto simp: access_consistent_def commit_entries_def persist_def advance_access_generation_def Let_def
      split: if_splits option.splits prod.splits sum.splits access_state_read.splits)

lemma load_access_consistent:
  assumes "load_access True w d = (Ok (loaded, gen, legacy), d')" and "access_generation d \<le> u64_max"
  shows "gen = access_generation d' \<and> gen \<le> u64_max \<and>
    (case loaded of
       Some es \<Rightarrow> legacy \<and> gen = 0 \<or> \<not> legacy \<and> access_file d' = Ok (Some (Current gen es))
     | None \<Rightarrow> gen = 0 \<and> \<not> legacy \<and> access_file d' = Ok None)"
  using assms
  by (auto simp: load_access_def advance_access_generation_def Let_def
      split: if_splits option.splits sum.splits access_state_read.splits prod.splits)

lemma persist_consistent:
  assumes "persist w es t d = (Ok (), t', d')" and "has_generation_store t"
    and "generation t = access_generation d" and "generation t \<le> u64_max"
  shows "access_consistent (t'\<lparr>entries := es\<rparr>, d')"
  using assms
  by (auto simp: access_consistent_def persist_def advance_access_generation_def Let_def
      split: if_splits option.splits prod.splits sum.splits)

lemma open_access_consistent:
  assumes "open_access True ws rs known now w d = (Ok t, d')" and "access_generation d \<le> u64_max"
  shows "access_consistent (t, d')"
proof -
  from assms(1) obtain loaded gen legacy d1 where
    l: "load_access True w d = (Ok (loaded, gen, legacy), d1)"
    by (auto simp: open_access_def split: prod.splits sum.splits)
  note f = load_access_consistent [OF l assms(2)]
  show ?thesis
  proof (cases loaded)
    case (Some es)
    then show ?thesis
      using assms(1) l f persist_consistent [of w es "\<lparr>entries = [], generation = gen, has_generation_store = True\<rparr>" d1]
      by (auto simp: open_access_def Let_def access_consistent_def split: prod.splits sum.splits if_splits)
  next
    case None
    with assms(1) l obtain migrated where m: "migrate_policy ws rs known now = Ok migrated"
      by (auto simp: open_access_def Let_def split: sum.splits)
    show ?thesis
    proof (cases migrated)
      case None
      then show ?thesis
        using assms(1) l f m \<open>loaded = None\<close> by (auto simp: open_access_def Let_def access_consistent_def)
    next
      case (Some es)
      then show ?thesis
        using assms(1) l f m \<open>loaded = None\<close>
          persist_consistent [of w es "\<lparr>entries = [], generation = gen, has_generation_store = True\<rparr>" d1]
        by (auto simp: open_access_def Let_def split: prod.splits sum.splits)
    qed
  qed
qed

text \<open>
  The life of the table beside its disk: every setter with any pattern of write failures (a crash
  between the two writes leaves the disk as a failed index write does), and restarts.
\<close>

inductive access_step :: "access_table \<times> access_disk \<Rightarrow> access_table \<times> access_disk \<Rightarrow> bool" where
  step_enabled: "set_enabled w now c b t d = (r, s) \<Longrightarrow> access_step (t, d) s"
| step_tools: "set_allowed_tools w now c ts t d = (r, s) \<Longrightarrow> access_step (t, d) s"
| step_confirm: "set_confirm_mode w now c m t d = (r, s) \<Longrightarrow> access_step (t, d) s"
| step_expose: "set_expose_response_credentials w now c b t d = (r, s) \<Longrightarrow> access_step (t, d) s"
| step_audit: "set_audit_statements w now c a t d = (r, s) \<Longrightarrow> access_step (t, d) s"
| step_remove: "remove_for_connection w c t d = (r, s) \<Longrightarrow> access_step (t, d) s"
| step_restart: "open_access True ws rs known clock w d = (Ok t', d') \<Longrightarrow> access_step (t, d) (t', d')"

lemma setter_commits:
  assumes "(if p then (Ok False, t, d) else commit_entries w next t d) = (r, t', d')"
    and "access_consistent (t, d)"
  shows "access_consistent (t', d')"
  using assms by (auto split: if_splits intro: commit_entries_consistent)

lemma access_step_consistent:
  "access_step s s' \<Longrightarrow> access_consistent s \<Longrightarrow> access_consistent s'"
proof (induction rule: access_step.induct)
  case (step_remove w c t d r s)
  then show ?case
    by (cases s) (auto simp: remove_for_connection_def Let_def split: if_splits intro: commit_entries_consistent)
next
  case (step_restart ws rs known clock w d t' d' t)
  then show ?case by (intro open_access_consistent) (auto simp: access_consistent_def)
qed (case_tac s; simp add: setter_forms split del: if_split; blast intro: setter_commits)+

interpretation access_life: invariant_system access_step access_consistent
  by unfold_locales (rule access_step_consistent)

definition no_faults :: write_faults where
  "no_faults = \<lparr>file_fault = None, index_fault = None\<rparr>"

lemma reopen_consistent:
  assumes "access_consistent (t, d)" and "access_file d \<noteq> Ok None"
  shows "open_access True ws rs known now no_faults d =
    (case access_file d of
       Inr (Some (Current g es)) \<Rightarrow>
         (Ok \<lparr>entries = es, generation = g, has_generation_store = True\<rparr>, d\<lparr>access_generation := g\<rparr>))"
proof -
  from assms obtain g es where f: "access_file d = Ok (Some (Current g es))"
    and g: "g = access_generation d \<or> g = access_generation d + 1 \<and> g \<le> u64_max"
    by (auto simp: access_consistent_def split: sum.splits option.splits access_state_read.splits)
  have "load_access True no_faults d = (Ok (Some es, g, False), d\<lparr>access_generation := g\<rparr>)"
    using g by (auto simp: load_access_def f advance_access_generation_def no_faults_def Let_def)
  then show ?thesis by (simp add: open_access_def f)
qed

lemma sorted_dedup_distinct: "sorted xs \<Longrightarrow> distinct (remdups_adj xs)"
  by (induction xs rule: remdups_adj.induct) (auto dest: antisym)

subsection \<open>Properties\<close>

text \<open>
  C2. No sequence of policy changes, write failures, crashes between the two writes and restarts
  locks the user out: in every state reached after a successful open, the table opens again, with
  the entries in memory or, when the last commits were interrupted, with the entries of the file
  that is one generation ahead.
\<close>

theorem access_always_reopens:
  assumes "open_access True ws rs known now w d0 = (Ok t0, d1)" and "access_generation d0 \<le> u64_max"
    and "reaches access_step (t0, d1) (t, d)"
  shows "\<exists>t' d'. open_access True None None [] clock no_faults d = (Ok t', d') \<and>
    (entries t' = entries t \<or> access_file d = Ok (Some (Current (generation t + 1) (entries t'))))"
proof -
  have c: "access_consistent (t, d)"
    using access_life.reaches_inv [OF assms(3)] open_access_consistent [OF assms(1,2)] by blast
  show ?thesis
  proof (cases "access_file d = Ok None")
    case True
    with c show ?thesis
      by (simp add: access_consistent_def open_access_def load_access_def migrate_policy_def)
  next
    case False
    then show ?thesis
      using c reopen_consistent [OF c False, of None None "[]" clock]
      by (auto simp: access_consistent_def split: sum.splits option.splits access_state_read.splits)
  qed
qed

theorem access_always_reopens_witness:
  "\<exists>t' d'. open_access True None None [] (\<lambda>_. 0) no_faults
      \<lparr>access_file = Ok (Some (Current 5 [])), access_generation = 5\<rparr> = (Ok t', d') \<and>
    (entries t' = [] \<or> access_file \<lparr>access_file = Ok (Some (Current 5 [])), access_generation = 5\<rparr> =
      Ok (Some (Current (5 + 1) (entries t'))))"
  using access_always_reopens [of None None "[]" "\<lambda>_. 0" no_faults
      "\<lparr>access_file = Ok (Some (Current 5 [])), access_generation = 4\<rparr>"
      "\<lparr>entries = [], generation = 5, has_generation_store = True\<rparr>"
      "\<lparr>access_file = Ok (Some (Current 5 [])), access_generation = 5\<rparr>"
      "\<lparr>entries = [], generation = 5, has_generation_store = True\<rparr>"
      "\<lparr>access_file = Ok (Some (Current 5 [])), access_generation = 5\<rparr>" "\<lambda>_. 0"]
  by (simp add: open_access_def load_access_def advance_access_generation_def no_faults_def u64_max_def Let_def
      reaches_refl)

text \<open>
  C3. A policy change is atomic: when it reports success, memory holds exactly the new entries and a
  restart comes up with exactly them; when it reports failure, the running table is unchanged, and
  either nothing changed on disk, so that a restart does what it would have done before, or a restart
  comes up with the new entries. After an earlier change that failed with its file in place, what a
  restart would have done before is to come up with that change's entries.
\<close>

theorem access_commit_atomic:
  assumes "access_consistent (t, d)" and "commit_entries w next t d = (r, t', d')"
  shows "if is_err r
    then t' = t \<and> (d' = d \<or>
      (\<exists>t'' d''. open_access True ws rs known clock no_faults d' = (Ok t'', d'') \<and> entries t'' = next))
    else r = Ok True \<and> entries t' = next \<and>
      (\<exists>t'' d''. open_access True ws rs known clock no_faults d' = (Ok t'', d'') \<and>
        entries t'' = next \<and> generation t'' = generation t')"
proof -
  have "if is_err r then t' = t \<and> (d' = d \<or> access_file d' = Ok (Some (Current (generation t + 1) next)))
     else r = Ok True \<and> entries t' = next \<and> access_file d' = Ok (Some (Current (generation t') next))"
    using assms by (auto simp: access_consistent_def commit_entries_def persist_def advance_access_generation_def Let_def
        split: if_splits option.splits prod.splits sum.splits)
  with reopen_consistent [OF commit_entries_consistent [OF assms], of ws rs known clock]
  show ?thesis by (auto split: if_splits)
qed

theorem access_commit_atomic_witness:
  "\<exists>t'' d''. open_access True None None [] (\<lambda>_. 0) no_faults
      \<lparr>access_file = Ok (Some (Current 1 [])), access_generation = 0\<rparr> = (Ok t'', d'') \<and> entries t'' = []"
  using access_commit_atomic [of "\<lparr>entries = [], generation = 0, has_generation_store = True\<rparr>"
      "\<lparr>access_file = Ok None, access_generation = 0\<rparr>"
      "\<lparr>file_fault = Some (IoError, True), index_fault = None\<rparr>" "[]" "Err IoError"
      "\<lparr>entries = [], generation = 0, has_generation_store = True\<rparr>"
      "\<lparr>access_file = Ok (Some (Current 1 [])), access_generation = 0\<rparr>" None None "[]" "\<lambda>_. 0"]
  by (simp add: access_consistent_def commit_entries_def persist_def advance_access_generation_def u64_max_def Let_def)

text \<open>
  C33. Rolling the policy file back fails closed once the index has recorded a generation (a policy
  change has been committed): then a missing file, a file of the old format, and a sealed file of any
  other generation than the index's or the next are all refused as tampered, and opening changes
  nothing on disk. Before the first recorded generation a missing file and an old file are accepted.
\<close>

theorem access_rollback_refused:
  assumes "access_generation d \<noteq> 0"
    and "access_file d = Ok None \<or> access_file d = Ok (Some (Legacy es)) \<or>
      access_file d = Ok (Some (Current g es)) \<and> g \<noteq> access_generation d \<and> g \<noteq> access_generation d + 1"
  shows "open_access True ws rs known clock w d = (Err StateTampered, d)"
  using assms by (auto simp: open_access_def load_access_def Let_def)

theorem access_rollback_refused_witness:
  "open_access True None None [] (\<lambda>_. 0) no_faults
     \<lparr>access_file = Ok (Some (Current 1 [])), access_generation = 2\<rparr> =
   (Err StateTampered, \<lparr>access_file = Ok (Some (Current 1 [])), access_generation = 2\<rparr>)"
  using access_rollback_refused [of "\<lparr>access_file = Ok (Some (Current 1 [])), access_generation = 2\<rparr>" "[]" 1]
  by simp

text \<open>
  Switching agents on or off for a connection does just that: on success the connection is
  allowed exactly as asked, the result tells whether that is a change, its tool subset,
  confirmation, response-credential and statement settings stay, and so does every other
  connection's record; on failure the table is unchanged.
\<close>

theorem set_enabled_effect:
  assumes "set_enabled w now c b t d = (r, t', d')"
  shows "case r of
      Inl _ \<Rightarrow> t' = t
    | Inr changed \<Rightarrow> allows t' c = b \<and> (changed \<longleftrightarrow> allows t c \<noteq> b) \<and>
        allowed_tools_of t' c = allowed_tools_of t c \<and> confirm_mode_of t' c = confirm_mode_of t c \<and>
        exposes_response_credentials t' c = exposes_response_credentials t c \<and>
        audits_statements t' c dflt = audits_statements t c dflt \<and>
        (c' \<noteq> c \<longrightarrow> access_entry t' c' = access_entry t c')"
proof (cases "allows t c = b")
  case True
  with assms show ?thesis by (auto simp: set_enabled_def)
next
  case False
  with assms have k: "commit_entries w (enabled_field.written now c b (entries t)) t d = (r, t', d')"
    by (simp add: setter_forms)
  show ?thesis
  proof (cases r)
    case (Inl e)
    with k show ?thesis by (auto dest: commit_entries_Err)
  next
    case (Inr changed)
    from commit_entries_Ok [OF k [unfolded Inr]] have "changed" and e: "entries t' = enabled_field.written now c b (entries t)"
      by auto
    with Inr False show ?thesis
      by (simp add: queries_by_entry access_entry_lookup e enabled_field.entry_written enabled_field.entry_other
          split: option.splits)
  qed
qed

theorem set_enabled_effect_witness:
  "\<not> allows (fst (snd (set_enabled no_faults 7 3 False
      \<lparr>entries = [], generation = 0, has_generation_store = False\<rparr>
      \<lparr>access_file = Ok None, access_generation = 0\<rparr>))) 3"
  using set_enabled_effect [of no_faults 7 3 False "\<lparr>entries = [], generation = 0, has_generation_store = False\<rparr>"
      "\<lparr>access_file = Ok None, access_generation = 0\<rparr>" "Ok True"
      "fst (snd (set_enabled no_faults 7 3 False
        \<lparr>entries = [], generation = 0, has_generation_store = False\<rparr> \<lparr>access_file = Ok None, access_generation = 0\<rparr>))"
      "snd (snd (set_enabled no_faults 7 3 False
        \<lparr>entries = [], generation = 0, has_generation_store = False\<rparr> \<lparr>access_file = Ok None, access_generation = 0\<rparr>))"]
  by (simp add: set_enabled_def allows_def commit_entries_def persist_def no_faults_def u64_max_def Let_def upsert_def)

text \<open>
  Migrating the per-agent wirings keeps the aggregate posture: a known connection is enabled
  exactly if some agent was wired to it; it gets every tool if some wiring had no subset, and
  otherwise exactly the union of the subsets, sorted and without repetition; response credentials
  are contained and confirmation is off.
\<close>

theorem wiring_migration_posture:
  assumes "open_access True (Some (Ok (Some ws))) rs known now w d = (Ok t, d')"
    and "access_file d = Ok None" and "c \<in> set known"
  shows "(allows t c \<longleftrightarrow> (\<exists>x\<in>set ws. wiring_connection_id x = c)) \<and>
    \<not> exposes_response_credentials t c \<and> confirm_mode_of t c = ConfirmOff \<and>
    (allows t c \<longrightarrow> (case allowed_tools_of t c of
       None \<Rightarrow> \<exists>x\<in>set ws. wiring_connection_id x = c \<and> wiring_allowed_tools x = None
     | Some ts \<Rightarrow> sorted ts \<and> distinct ts \<and>
         set ts = \<Union> {set us | us x. x \<in> set ws \<and> wiring_connection_id x = c \<and> wiring_allowed_tools x = Some us}))"
proof -
  have gen: "access_generation d = 0" and "entries t = map (migrate_wiring now ws) known"
    using assms(1,2) by (auto simp: open_access_def load_access_def migrate_policy_def Let_def
        split: if_splits prod.splits sum.splits)
  moreover have "connection_id (migrate_wiring now ws k) = k" for k
    by (simp add: migrate_wiring_def Let_def)
  then have "List.find (\<lambda>e. connection_id e = c) (map (migrate_wiring now ws) ks) = Some (migrate_wiring now ws c)"
    if "c \<in> set ks" for ks
    using that by (induction ks) auto
  ultimately have e: "access_entry t c = Some (migrate_wiring now ws c)"
    using assms(3) by (simp add: access_entry_def)
  let ?wired = "filter (\<lambda>w. wiring_connection_id w = c) ws"
  have u: "set (concat (map (\<lambda>w. case wiring_allowed_tools w of Some ts \<Rightarrow> ts | None \<Rightarrow> []) ?wired)) =
      \<Union> {set us | us x. x \<in> set ws \<and> wiring_connection_id x = c \<and> wiring_allowed_tools x = Some us}"
    by (force split: option.splits)
  have "wired \<noteq> [] \<longleftrightarrow> (\<exists>x\<in>set wired. True)" for wired :: "legacy_wiring list"
    by (cases wired) auto
  then show ?thesis
    using e u
    by (auto simp: queries_by_entry migrate_wiring_def Let_def list_ex_iff filter_empty_conv
        sorted_dedup_distinct split: if_splits)
qed

theorem wiring_migration_posture_witness:
  "allowed_tools_of \<lparr>entries = [migrate_wiring (\<lambda>_. 0)
       [\<lparr>wiring_connection_id = 4, wiring_allowed_tools = Some [[98], [97]]\<rparr>,
        \<lparr>wiring_connection_id = 4, wiring_allowed_tools = Some [[97]]\<rparr>] 4],
     generation = 1, has_generation_store = True\<rparr> 4 \<noteq> Some [[98], [97], [97]]"
  using wiring_migration_posture [of
      "[\<lparr>wiring_connection_id = 4, wiring_allowed_tools = Some [[98], [97]]\<rparr>,
        \<lparr>wiring_connection_id = 4, wiring_allowed_tools = Some [[97]]\<rparr>]" None "[4]" "\<lambda>_. 0" no_faults
      "\<lparr>access_file = Ok None, access_generation = 0\<rparr>"
      "\<lparr>entries = [migrate_wiring (\<lambda>_. 0)
        [\<lparr>wiring_connection_id = 4, wiring_allowed_tools = Some [[98], [97]]\<rparr>,
         \<lparr>wiring_connection_id = 4, wiring_allowed_tools = Some [[97]]\<rparr>] 4],
        generation = 1, has_generation_store = True\<rparr>"
      "\<lparr>access_file = Ok (Some (Current 1 [migrate_wiring (\<lambda>_. 0)
        [\<lparr>wiring_connection_id = 4, wiring_allowed_tools = Some [[98], [97]]\<rparr>,
         \<lparr>wiring_connection_id = 4, wiring_allowed_tools = Some [[97]]\<rparr>] 4])), access_generation = 1\<rparr>" 4]
  by (auto simp: open_access_def load_access_def migrate_policy_def persist_def advance_access_generation_def
      no_faults_def u64_max_def Let_def allows_def migrate_wiring_def)

text \<open>
  The generation does not single out one policy: when an index write fails and the next change
  succeeds, both files carry the same generation, and putting the first file back is accepted as
  current, although its change was reported as failed and never took effect.
\<close>

theorem failed_commit_replays:
  assumes "access_consistent (t, d)" and "generation t < u64_max"
    and "commit_entries \<lparr>file_fault = None, index_fault = Some e\<rparr> es1 t d = (r1, t1, d1)"
    and "commit_entries no_faults es2 t1 d1 = (r2, t2, d2)"
  shows "r1 = Err e \<and> entries t1 = entries t \<and> r2 = Ok True \<and> entries t2 = es2 \<and>
    (\<exists>t3 d3. open_access True ws rs known clock w (d2\<lparr>access_file := access_file d1\<rparr>) = (Ok t3, d3) \<and> entries t3 = es1)"
  using assms
  by (auto simp: access_consistent_def commit_entries_def persist_def advance_access_generation_def no_faults_def
      Let_def open_access_def load_access_def)

theorem failed_commit_replays_witness:
  "\<exists>t3 d3. open_access True None None [] (\<lambda>_. 0) no_faults
     \<lparr>access_file = Ok (Some (Current 1 [])), access_generation = 1\<rparr> = (Ok t3, d3) \<and> entries t3 = []"
  using failed_commit_replays [of "\<lparr>entries = [], generation = 0, has_generation_store = True\<rparr>"
      "\<lparr>access_file = Ok None, access_generation = 0\<rparr>" IoError "[]" "Err IoError"
      "\<lparr>entries = [], generation = 0, has_generation_store = True\<rparr>"
      "\<lparr>access_file = Ok (Some (Current 1 [])), access_generation = 0\<rparr>" "[]" "Ok True"
      "\<lparr>entries = [], generation = 1, has_generation_store = True\<rparr>"
      "\<lparr>access_file = Ok (Some (Current 1 [])), access_generation = 1\<rparr>" None None "[]" "\<lambda>_. 0" no_faults]
  by (simp add: access_consistent_def commit_entries_def persist_def advance_access_generation_def no_faults_def
      u64_max_def Let_def)

end
