(* ===== verification/Endpoints.thy ===== *)
theory Endpoints
  imports CoreTypes "HOL-Library.Multiset"
begin

text \<open>
  The direct-endpoint registry, \<^verbatim>\<open>crates/aka-core/src/endpoints.rs\<close>: issuing and rotating endpoint secrets,
  expiry and renewal, revocation, and authentication of a presented secret. SHA-256 is the
  parameter \<open>hash_secret\<close>; the random secret and id of an issue are arguments, as are the clock and
  the fault of the sealed write. The sealed file holds the records without their plaintext secrets.
\<close>

definition ENDPOINT_LIFETIME :: int where
  "ENDPOINT_LIFETIME = 30 * 24 * 60 * 60 * 1000000000"

text \<open>
  How the sealed write fails (\<open>None\<close> for success): with an error, before the file is replaced or, as the
  flag says, after it (the flush of the directory that ends \<open>write_private_atomic\<close>).
\<close>

type_synonym write_fault = "(core_error \<times> bool) option"

record registry =
  max_total :: nat
  endpoints :: "direct_endpoint list"
  reg_file :: "direct_endpoint list option"

record issued_endpoint =
  issued :: direct_endpoint
  issued_secret :: ustring

text \<open>\<open>#[serde(skip_serializing)] secret\<close>: a record as it is written.\<close>

definition shed_secret :: "direct_endpoint \<Rightarrow> direct_endpoint" where
  "shed_secret e = e\<lparr>ep_secret := []\<rparr>"

subsection \<open>Operations\<close>

fun retain_unseen :: "uuid list \<Rightarrow> direct_endpoint list \<Rightarrow> direct_endpoint list" where
  "retain_unseen seen [] = []"
| "retain_unseen seen (e # es) =
     (if ep_connection_id e \<in> set seen then retain_unseen seen es
      else e # retain_unseen (seen @ [ep_connection_id e]) es)"

definition persist_endpoints ::
    "write_fault \<Rightarrow> direct_endpoint list \<Rightarrow> registry \<Rightarrow> (core_error + unit) \<times> registry" where
  "persist_endpoints fault es r =
     (case fault of
        Some (e, replaced) \<Rightarrow> (Err e, if replaced then r\<lparr>reg_file := Some (map shed_secret es)\<rparr> else r)
      | None \<Rightarrow> (Ok (), r\<lparr>reg_file := Some (map shed_secret es)\<rparr>))"

text \<open>An opening that fails leaves no registry; its rewrite only drops records that the next opening would drop.\<close>

definition open_registry ::
    "nat \<Rightarrow> core_error option \<Rightarrow> (core_error + direct_endpoint list option) \<Rightarrow> core_error + registry" where
  "open_registry limit fault stored =
     (case stored of
        Inl e \<Rightarrow> Err e
      | Inr loaded \<Rightarrow>
          let es = (case loaded of Some es \<Rightarrow> es | None \<Rightarrow> []);
              kept = retain_unseen [] (sort_key (\<lambda>e. - created_at e) es) in
          if length kept \<noteq> length es then
            (case fault of
               Some e \<Rightarrow> Err e
             | None \<Rightarrow> Ok \<lparr>max_total = limit, endpoints = kept, reg_file = Some (map shed_secret kept)\<rparr>)
          else Ok \<lparr>max_total = limit, endpoints = kept, reg_file = loaded\<rparr>)"

text \<open>\<open>self.persist(&next)?; *endpoints = next; Ok(result)\<close>\<close>

definition commit_endpoints ::
    "write_fault \<Rightarrow> direct_endpoint list \<Rightarrow> 'a \<Rightarrow> registry \<Rightarrow> (core_error + 'a) \<times> registry" where
  "commit_endpoints fault next result r =
     (case persist_endpoints fault next r of
        (Inl e, r) \<Rightarrow> (Err e, r)
      | (Inr _, r) \<Rightarrow> (Ok result, r\<lparr>endpoints := next\<rparr>))"

definition issue ::
    "(ustring \<Rightarrow> ustring) \<Rightarrow> write_fault \<Rightarrow> datetime \<Rightarrow> ustring \<Rightarrow> uuid \<Rightarrow> uuid \<Rightarrow> connection_kind \<Rightarrow>
     registry \<Rightarrow> (core_error + issued_endpoint) \<times> registry" where
  "issue hash_secret fault now secret fresh_id c kind r =
     (case List.find (\<lambda>e. ep_connection_id e = c) (endpoints r) of
        Some existing \<Rightarrow>
          if is_expired now existing then (Err EndpointExpired, r)
          else
            let rotate = (\<lambda>e. e\<lparr>secret_hash := hash_secret secret, ep_secret := secret, ep_kind := kind\<rparr>) in
            commit_endpoints fault (update_first (\<lambda>e. ep_connection_id e = c) rotate (endpoints r))
              \<lparr>issued = rotate existing, issued_secret = secret\<rparr> r
      | None \<Rightarrow>
          if length (endpoints r) \<ge> max_total r then (Err (EndpointLimit (max_total r)), r)
          else
            let endpoint = \<lparr>ep_id = fresh_id, ep_connection_id = c, ep_kind = kind,
                  secret_hash = hash_secret secret, ep_secret = secret, port = None, require_auth = False,
                  created_at = now, expires_at = None\<rparr> in
            commit_endpoints fault (endpoints r @ [endpoint]) \<lparr>issued = endpoint, issued_secret = secret\<rparr> r)"

definition set_deadline ::
    "write_fault \<Rightarrow> datetime option \<Rightarrow> uuid \<Rightarrow> registry \<Rightarrow> (core_error + direct_endpoint) \<times> registry" where
  "set_deadline fault deadline i r =
     (case List.find (\<lambda>e. ep_id e = i) (endpoints r) of
        None \<Rightarrow> (Err EndpointNotFound, r)
      | Some e \<Rightarrow>
          commit_endpoints fault (update_first (\<lambda>e. ep_id e = i) (\<lambda>e. e\<lparr>expires_at := deadline\<rparr>) (endpoints r))
            (e\<lparr>expires_at := deadline\<rparr>) r)"

definition renew ::
    "write_fault \<Rightarrow> datetime \<Rightarrow> uuid \<Rightarrow> registry \<Rightarrow> (core_error + direct_endpoint) \<times> registry" where
  "renew fault now i r = set_deadline fault (Some (now + ENDPOINT_LIFETIME)) i r"

definition set_expiry ::
    "write_fault \<Rightarrow> datetime \<Rightarrow> uuid \<Rightarrow> bool \<Rightarrow> registry \<Rightarrow> (core_error + direct_endpoint) \<times> registry" where
  "set_expiry fault now i expire r =
     set_deadline fault (if expire then Some (now + ENDPOINT_LIFETIME) else None) i r"

definition set_require_auth ::
    "write_fault \<Rightarrow> uuid \<Rightarrow> bool \<Rightarrow> registry \<Rightarrow> (core_error + bool) \<times> registry" where
  "set_require_auth fault i b r =
     (case List.find (\<lambda>e. ep_id e = i) (endpoints r) of
        None \<Rightarrow> (Err EndpointNotFound, r)
      | Some e \<Rightarrow>
          if require_auth e = b then (Ok False, r)
          else commit_endpoints fault (update_first (\<lambda>e. ep_id e = i) (\<lambda>e. e\<lparr>require_auth := b\<rparr>) (endpoints r)) True r)"

definition set_port ::
    "write_fault \<Rightarrow> uuid \<Rightarrow> 16 word \<Rightarrow> registry \<Rightarrow> (core_error + unit) \<times> registry" where
  "set_port fault i p r =
     (case List.find (\<lambda>e. ep_id e = i) (endpoints r) of
        None \<Rightarrow> (Ok (), r)
      | Some e \<Rightarrow>
          if port e = Some p then (Ok (), r)
          else commit_endpoints fault (update_first (\<lambda>e. ep_id e = i) (\<lambda>e. e\<lparr>port := Some p\<rparr>) (endpoints r)) () r)"

definition revoke ::
    "write_fault \<Rightarrow> uuid \<Rightarrow> registry \<Rightarrow> (core_error + direct_endpoint option) \<times> registry" where
  "revoke fault i r =
     (case List.find (\<lambda>e. ep_id e = i) (endpoints r) of
        None \<Rightarrow> (Ok None, r)
      | Some e \<Rightarrow> commit_endpoints fault (remove_first (\<lambda>e. ep_id e = i) (endpoints r)) (Some e) r)"

definition revoke_all ::
    "write_fault \<Rightarrow> registry \<Rightarrow> (core_error + direct_endpoint list) \<times> registry" where
  "revoke_all fault r =
     (if endpoints r = [] then (Ok [], r) else commit_endpoints fault [] (endpoints r) r)"

definition get_endpoint :: "registry \<Rightarrow> uuid \<Rightarrow> direct_endpoint option" where
  "get_endpoint r i = List.find (\<lambda>e. ep_id e = i) (endpoints r)"

definition get_for_connection :: "registry \<Rightarrow> uuid \<Rightarrow> direct_endpoint option" where
  "get_for_connection r c = List.find (\<lambda>e. ep_connection_id e = c) (endpoints r)"

definition resolve_secret ::
    "(ustring \<Rightarrow> ustring) \<Rightarrow> datetime \<Rightarrow> ustring \<Rightarrow> registry \<Rightarrow> direct_endpoint option" where
  "resolve_secret hash_secret now presented r =
     List.find (\<lambda>e. secret_hash e = hash_secret presented \<and> \<not> is_expired now e) (endpoints r)"

definition remove_endpoints_for_connection ::
    "write_fault \<Rightarrow> uuid \<Rightarrow> registry \<Rightarrow> (core_error + direct_endpoint list) \<times> registry" where
  "remove_endpoints_for_connection fault c r =
     (let removed = filter (\<lambda>e. ep_connection_id e = c) (endpoints r);
          kept = filter (\<lambda>e. ep_connection_id e \<noteq> c) (endpoints r) in
      if removed = [] then (Ok removed, r) else commit_endpoints fault kept removed r)"

subsection \<open>The registry as a transition system\<close>

text \<open>
  The operations, with the write faults that \<open>late\<close> allows (without it, none after the file is replaced), and restarts,
  which open the file again.
\<close>

definition allowed_fault :: "bool \<Rightarrow> write_fault \<Rightarrow> bool" where
  "allowed_fault late f \<longleftrightarrow> late \<or> (case f of Some (_, replaced) \<Rightarrow> \<not> replaced | None \<Rightarrow> True)"

inductive endpoint_step :: "(ustring \<Rightarrow> ustring) \<Rightarrow> bool \<Rightarrow> registry \<Rightarrow> registry \<Rightarrow> bool" for hash_secret late where
  ep_issue: "allowed_fault late fault \<Longrightarrow> issue hash_secret fault now secret i c kind r = (x, r') \<Longrightarrow> endpoint_step hash_secret late r r'"
| ep_renew: "allowed_fault late fault \<Longrightarrow> renew fault now i r = (y, r') \<Longrightarrow> endpoint_step hash_secret late r r'"
| ep_expiry: "allowed_fault late fault \<Longrightarrow> set_expiry fault now i b r = (y, r') \<Longrightarrow> endpoint_step hash_secret late r r'"
| ep_auth: "allowed_fault late fault \<Longrightarrow> set_require_auth fault i b r = (z, r') \<Longrightarrow> endpoint_step hash_secret late r r'"
| ep_port: "allowed_fault late fault \<Longrightarrow> set_port fault i p r = (u, r') \<Longrightarrow> endpoint_step hash_secret late r r'"
| ep_revoke: "allowed_fault late fault \<Longrightarrow> revoke fault i r = (v, r') \<Longrightarrow> endpoint_step hash_secret late r r'"
| ep_revoke_all: "allowed_fault late fault \<Longrightarrow> revoke_all fault r = (l, r') \<Longrightarrow> endpoint_step hash_secret late r r'"
| ep_remove: "allowed_fault late fault \<Longrightarrow> remove_endpoints_for_connection fault c r = (l, r') \<Longrightarrow> endpoint_step hash_secret late r r'"
| ep_restart: "open_registry (max_total r) None (Ok (reg_file r)) = Ok r' \<Longrightarrow> endpoint_step hash_secret late r r'"

text \<open>The records of the file; memory and file each hold at most one per connection and no more than the bound.\<close>

definition stored_endpoints :: "registry \<Rightarrow> direct_endpoint list" where
  "stored_endpoints r = (case reg_file r of Some es \<Rightarrow> es | None \<Rightarrow> [])"

definition registry_sound :: "registry \<Rightarrow> bool" where
  "registry_sound r \<longleftrightarrow>
     distinct (map ep_connection_id (endpoints r)) \<and> length (endpoints r) \<le> max_total r \<and>
     distinct (map ep_connection_id (stored_endpoints r)) \<and> length (stored_endpoints r) \<le> max_total r"

definition registry_ok :: "registry \<Rightarrow> bool" where
  "registry_ok r \<longleftrightarrow>
     distinct (map ep_connection_id (endpoints r)) \<and> length (endpoints r) \<le> max_total r \<and>
     image_mset shed_secret (mset (stored_endpoints r)) = image_mset shed_secret (mset (endpoints r))"

definition registry_inv :: "nat \<Rightarrow> bool \<Rightarrow> registry \<Rightarrow> bool" where
  "registry_inv limit late r \<longleftrightarrow> max_total r = limit \<and> registry_sound r \<and> (\<not> late \<longrightarrow> registry_ok r)"

lemma shed_secret_simps [simp]:
  "ep_connection_id (shed_secret e) = ep_connection_id e" "ep_id (shed_secret e) = ep_id e"
  "secret_hash (shed_secret e) = secret_hash e" "expires_at (shed_secret e) = expires_at e"
  "created_at (shed_secret e) = created_at e" "shed_secret (shed_secret e) = shed_secret e"
  by (simp_all add: shed_secret_def)

lemma commit_registry_inv:
  assumes "registry_inv limit late r" and "allowed_fault late fault" and "distinct (map ep_connection_id next)" and "length next \<le> max_total r"
  shows "registry_inv limit late (snd (commit_endpoints fault next x r))"
  using assms
  by (auto simp: registry_inv_def registry_sound_def registry_ok_def allowed_fault_def stored_endpoints_def commit_endpoints_def persist_endpoints_def
      multiset.map_comp comp_def split: option.splits)

lemma registry_invD:
  "registry_inv limit late r \<Longrightarrow> distinct (map ep_connection_id (endpoints r))"
  "registry_inv limit late r \<Longrightarrow> length (endpoints r) \<le> max_total r"
  by (simp_all add: registry_inv_def registry_sound_def)

lemma commit_registry_ok:
  assumes "registry_ok r" and "\<not> is_err (fst (commit_endpoints fault next x r))" and "distinct (map ep_connection_id next)" and "length next \<le> max_total r"
  shows "registry_ok (snd (commit_endpoints fault next x r))"
  using assms
  by (auto simp: registry_ok_def stored_endpoints_def commit_endpoints_def persist_endpoints_def multiset.map_comp comp_def
      split: option.splits)

lemma registry_okD:
  "registry_ok r \<Longrightarrow> distinct (map ep_connection_id (endpoints r))"
  "registry_ok r \<Longrightarrow> length (endpoints r) \<le> max_total r"
  by (simp_all add: registry_ok_def)

lemma issue_inv:
  "registry_inv limit late r \<Longrightarrow> allowed_fault late fault \<Longrightarrow> registry_inv limit late (snd (issue h fault now secret i c kind r))"
  using registry_invD [of limit late r]
  by (auto simp: issue_def Let_def find_None_iff_all table_simps intro!: commit_registry_inv split: option.splits)

lemma set_deadline_inv:
  "registry_inv limit late r \<Longrightarrow> allowed_fault late fault \<Longrightarrow> registry_inv limit late (snd (set_deadline fault dl i r))"
  using registry_invD [of limit late r]
  by (auto simp: set_deadline_def table_simps intro!: commit_registry_inv split: option.splits)

lemma other_ops_inv:
  assumes "registry_inv limit late r" and "allowed_fault late fault"
  shows "registry_inv limit late (snd (set_require_auth fault i b r))" "registry_inv limit late (snd (set_port fault i p r))"
    "registry_inv limit late (snd (revoke fault i r))" "registry_inv limit late (snd (revoke_all fault r))"
    "registry_inv limit late (snd (remove_endpoints_for_connection fault c r))"
proof -
  note ok = registry_invD [OF assms(1)]
  show "registry_inv limit late (snd (set_require_auth fault i b r))" "registry_inv limit late (snd (set_port fault i p r))"
    using assms ok by (auto simp: set_require_auth_def set_port_def table_simps
        intro!: commit_registry_inv split: option.splits)
  show "registry_inv limit late (snd (revoke fault i r))"
    using assms ok by (auto simp: revoke_def intro!: commit_registry_inv distinct_map_remove_first split: option.splits)
  show "registry_inv limit late (snd (revoke_all fault r))"
    using assms by (auto simp: revoke_all_def intro!: commit_registry_inv)
  show "registry_inv limit late (snd (remove_endpoints_for_connection fault c r))"
    using assms ok by (auto simp: remove_endpoints_for_connection_def Let_def distinct_map_filter
        intro!: commit_registry_inv intro: order_trans [OF length_filter_le])
qed

subsection \<open>Opening\<close>

lemma retain_unseen_sub: "length (retain_unseen seen es) \<le> length es \<and> set (retain_unseen seen es) \<subseteq> set es"
  by (induction es arbitrary: seen) (auto simp: le_SucI)

lemma retain_unseen_fresh:
  "distinct (map ep_connection_id (retain_unseen seen es)) \<and>
   (\<forall>e\<in>set (retain_unseen seen es). ep_connection_id e \<notin> set seen)"
  by (induction es arbitrary: seen) (auto, fastforce+)

lemma retain_unseen_id:
  "length (retain_unseen seen es) = length es \<Longrightarrow> retain_unseen seen es = es"
proof (induction es arbitrary: seen)
  case (Cons e es)
  show ?case
  proof (cases "ep_connection_id e \<in> set seen")
    case True
    with Cons.prems have "length (retain_unseen seen es) = Suc (length es)" by simp
    with retain_unseen_sub [of seen es] show ?thesis by simp
  next
    case False
    with Cons show ?thesis by simp
  qed
qed simp

lemma retain_unseen_distinct:
  "distinct (map ep_connection_id es) \<Longrightarrow> \<forall>e\<in>set es. ep_connection_id e \<notin> set seen \<Longrightarrow> retain_unseen seen es = es"
proof (induction es arbitrary: seen)
  case (Cons e es)
  have "\<forall>x\<in>set es. ep_connection_id x \<notin> set (seen @ [ep_connection_id e])"
    using Cons.prems by (auto simp: image_iff)
  with Cons show ?case by simp
qed simp

lemma open_registry_ok:
  assumes "open_registry limit fault stored = Ok r" and "length (endpoints r) \<le> limit"
  shows "registry_ok r"
proof -
  from assms(1) obtain loaded es where st: "stored = Ok loaded"
    and es: "es = (case loaded of Some es \<Rightarrow> es | None \<Rightarrow> [])"
    by (auto simp: open_registry_def split: sum.splits)
  let ?sorted = "sort_key (\<lambda>e. - created_at e) es"
  let ?kept = "retain_unseen [] ?sorted"
  have d: "distinct (map ep_connection_id ?kept)" using retain_unseen_fresh by blast
  show ?thesis
  proof (cases "length ?kept = length es")
    case True
    then have k: "?kept = ?sorted" by (intro retain_unseen_id) simp
    with assms st es True have "r = \<lparr>max_total = limit, endpoints = ?sorted, reg_file = loaded\<rparr>"
      by (simp add: open_registry_def Let_def)
    with assms(2) d k es show ?thesis by (auto simp: registry_ok_def stored_endpoints_def split: option.splits)
  next
    case False
    with assms(1) st es have "r = \<lparr>max_total = limit, endpoints = ?kept, reg_file = Some (map shed_secret ?kept)\<rparr>"
      by (auto simp: open_registry_def Let_def split: option.splits)
    with assms(2) d show ?thesis by (simp add: registry_ok_def stored_endpoints_def multiset.map_comp comp_def)
  qed
qed

lemma shed_eq_distinct:
  assumes "image_mset shed_secret (mset xs) = image_mset shed_secret (mset ys)"
  shows "distinct (map ep_connection_id xs) = distinct (map ep_connection_id ys)"
proof -
  have "image_mset ep_connection_id (image_mset shed_secret (mset xs)) =
      image_mset ep_connection_id (image_mset shed_secret (mset ys))" using assms by simp
  then have "mset (map ep_connection_id xs) = mset (map ep_connection_id ys)"
    by (simp add: multiset.map_comp comp_def)
  then show ?thesis by (rule mset_eq_imp_distinct_iff)
qed

lemma find_shed_eq:
  assumes "image_mset shed_secret (mset xs) = image_mset shed_secret (mset ys)"
    and "distinct (map ep_connection_id ys)"
  shows "map_option shed_secret (List.find (\<lambda>e. ep_connection_id e = c) xs) =
    map_option shed_secret (List.find (\<lambda>e. ep_connection_id e = c) ys)"
proof -
  let ?f = "\<lambda>zs. List.find (\<lambda>e. ep_connection_id e = c) (map shed_secret zs)"
  have m: "map_option shed_secret (List.find (\<lambda>e. ep_connection_id e = c) zs) = ?f zs" for zs
    by (induction zs) auto
  have eq: "mset (map shed_secret xs) = mset (map shed_secret ys)" using assms(1) by simp
  have d: "distinct (map ep_connection_id (map shed_secret xs))"
    using assms(2) shed_eq_distinct [OF assms(1)] by (simp add: comp_def)
  have "?f xs = ?f ys"
  proof (cases "?f ys")
    case None
    then have "?f xs = None" using mset_eq_setD [OF eq] unfolding find_None_iff_all by blast
    with None show ?thesis by simp
  next
    case (Some e)
    then have "e \<in> set (map shed_secret xs)" "ep_connection_id e = c"
      using find_SomeD [OF Some] mset_eq_setD [OF eq] by auto
    then show ?thesis using find_key_distinct [OF d] Some by metis
  qed
  then show ?thesis by (simp add: m)
qed

lemma find_sorted:
  assumes "distinct (map ep_connection_id es)"
  shows "List.find (\<lambda>e. ep_connection_id e = c) (sort_key f es) = List.find (\<lambda>e. ep_connection_id e = c) es"
proof (cases "List.find (\<lambda>e. ep_connection_id e = c) es")
  case None
  then have "List.find (\<lambda>e. ep_connection_id e = c) (sort_key f es) = None" by (simp add: find_None_iff_all)
  with None show ?thesis by simp
next
  case (Some e)
  have "distinct (map ep_connection_id (sort_key f es))" using assms by (simp add: distinct_map)
  moreover have "e \<in> set (sort_key f es)" "ep_connection_id e = c" using find_SomeD [OF Some] by simp_all
  ultimately show ?thesis using find_key_distinct Some by metis
qed

lemma registry_ok_sound: "registry_ok r \<Longrightarrow> registry_sound r"
proof -
  assume ok: "registry_ok r"
  then have eq: "image_mset shed_secret (mset (stored_endpoints r)) = image_mset shed_secret (mset (endpoints r))"
    by (simp add: registry_ok_def)
  from arg_cong [OF this, of size] have "length (stored_endpoints r) = length (endpoints r)" by simp
  with ok shed_eq_distinct [OF eq] show ?thesis by (simp add: registry_ok_def registry_sound_def)
qed

text \<open>A sound registry opens again, with the records of its file.\<close>

lemma reopen_sound:
  assumes "registry_sound r"
  shows "open_registry limit None (Ok (reg_file r)) =
    Ok \<lparr>max_total = limit, endpoints = sort_key (\<lambda>e. - created_at e) (stored_endpoints r), reg_file = reg_file r\<rparr>"
proof -
  have "distinct (map ep_connection_id (sort_key (\<lambda>e. - created_at e) (stored_endpoints r)))"
    using assms by (simp add: registry_sound_def distinct_map)
  then have "retain_unseen [] (sort_key (\<lambda>e. - created_at e) (stored_endpoints r)) = sort_key (\<lambda>e. - created_at e) (stored_endpoints r)"
    by (intro retain_unseen_distinct) auto
  then show ?thesis by (simp add: open_registry_def stored_endpoints_def Let_def)
qed

lemma open_registry_limit: "open_registry limit fault stored = Ok r \<Longrightarrow> max_total r = limit"
  by (auto simp: open_registry_def Let_def split: sum.splits option.splits if_splits)

lemma open_registry_inv:
  assumes "open_registry limit fault stored = Ok r" and "length (endpoints r) \<le> limit"
  shows "registry_inv limit late r"
  using open_registry_ok [OF assms] open_registry_limit [OF assms(1)] by (simp add: registry_inv_def registry_ok_sound)

lemma reopen_registry:
  assumes "registry_ok r"
  shows "\<exists>r'. open_registry limit None (Ok (reg_file r)) = Ok r' \<and>
    (\<forall>c. map_option shed_secret (get_for_connection r' c) = map_option shed_secret (get_for_connection r c))"
proof -
  have "distinct (map ep_connection_id (stored_endpoints r))" using registry_ok_sound [OF assms] by (simp add: registry_sound_def)
  note f = find_sorted [OF this]
  have "image_mset shed_secret (mset (stored_endpoints r)) = image_mset shed_secret (mset (endpoints r))"
    "distinct (map ep_connection_id (endpoints r))" using assms by (simp_all add: registry_ok_def)
  note e = find_shed_eq [OF this]
  show ?thesis by (simp add: reopen_sound [OF registry_ok_sound [OF assms]] get_for_connection_def f e)
qed

lemma endpoint_step_inv: "endpoint_step h late r r' \<Longrightarrow> registry_inv limit late r \<Longrightarrow> registry_inv limit late r'"
proof (induction rule: endpoint_step.induct)
  case (ep_restart r r')
  then have s: "registry_sound r" "max_total r = limit" by (simp_all add: registry_inv_def)
  from ep_restart(1) reopen_sound [OF s(1), of "max_total r"] have "endpoints r' = sort_key (\<lambda>e. - created_at e) (stored_endpoints r)" by auto
  with s have "length (endpoints r') \<le> limit" by (simp add: registry_sound_def)
  with open_registry_inv [OF ep_restart(1)] s(2) show ?case by simp
qed (use issue_inv set_deadline_inv other_ops_inv in \<open>fastforce simp: renew_def set_expiry_def dest: arg_cong [of _ _ snd]\<close>)+

interpretation endpoint_life: invariant_system "endpoint_step h late" "registry_inv limit late" for h late limit
  by unfold_locales (rule endpoint_step_inv)

subsection \<open>Authentication\<close>

interpretation endpoint_table: keyed_table ep_connection_id .

lemma commit_endpoints_Ok:
  assumes "commit_endpoints fault next x r = (Ok y, r')"
  shows "y = x \<and> endpoints r' = next \<and> reg_file r' = Some (map shed_secret next)"
  using assms by (auto simp: commit_endpoints_def persist_endpoints_def split: option.splits)

text \<open>With pairwise different hashes, a secret resolves to the one record holding its hash.\<close>

lemma find_hash_unique:
  assumes "distinct (map secret_hash es)" and "e \<in> set es" and "secret_hash e = k"
  shows "List.find (\<lambda>x. secret_hash x = k \<and> P x) es = (if P e then Some e else None)"
  using assms by (induction es) (auto simp: find_None_iff_all image_iff)

lemma find_hash_none:
  "k \<notin> secret_hash ` set es \<Longrightarrow> List.find (\<lambda>x. secret_hash x = k \<and> P x) es = None"
  by (auto simp: find_None_iff_all)

lemma update_first_mem:
  "List.find P es = Some e \<Longrightarrow> f e \<in> set (update_first P f es)"
  by (induction es) (auto split: if_splits)

lemma hashes_after_rotation:
  assumes "distinct (map secret_hash es)" and "List.find P es = Some e" and "k \<notin> secret_hash ` set es"
    and "secret_hash (f e) = k"
  shows "distinct (map secret_hash (update_first P f es)) \<and>
    secret_hash ` set (update_first P f es) = insert k (secret_hash ` set es - {secret_hash e})"
  using assms
proof (induction es)
  case (Cons x es)
  show ?case
  proof (cases "P x")
    case True
    with Cons.prems show ?thesis by auto
  next
    case False
    with Cons.prems have "e \<in> set es" by (auto dest: find_SomeD)
    then have "secret_hash e \<in> secret_hash ` set es" by (rule imageI)
    with False Cons show ?thesis by auto
  qed
qed simp

lemma find_hash_untouched:
  assumes "List.find P es = Some e" and "k \<noteq> secret_hash e" and "k \<noteq> secret_hash (f e)"
  shows "List.find (\<lambda>x. secret_hash x = k \<and> Q x) (update_first P f es) =
    List.find (\<lambda>x. secret_hash x = k \<and> Q x) es"
  using assms by (induction es) (auto split: if_splits)

subsection \<open>Properties\<close>

text \<open>
  C37. Whatever sequence of operations and restarts the registry has gone through since it was opened with no more endpoints than its bound,
  failed writes included, it holds at most one endpoint per connection and no more than its bound; it opens again from its sealed
  file, with exactly the file's records, and these too are at most one per connection and within the bound. As long as no write has failed after
  replacing the file (\<open>late\<close> is false), the file has the record that memory has for every connection, up to the plaintext secret, which is
  not written; otherwise the file may be ahead by the change that was reported as failed.
\<close>

theorem endpoint_registry_invariant:
  assumes "open_registry limit fault stored = Ok r0" and "length (endpoints r0) \<le> limit"
    and "reaches (endpoint_step hash_secret late) r0 r"
  shows "distinct (map ep_connection_id (endpoints r)) \<and> length (endpoints r) \<le> limit \<and>
    (\<exists>r'. open_registry limit None (Ok (reg_file r)) = Ok r' \<and>
       distinct (map ep_connection_id (endpoints r')) \<and> length (endpoints r') \<le> limit \<and>
       (\<forall>c. get_for_connection r' c = List.find (\<lambda>e. ep_connection_id e = c) (stored_endpoints r)) \<and>
       (late \<or> (\<forall>c. map_option shed_secret (get_for_connection r' c) = map_option shed_secret (get_for_connection r c))))"
proof -
  have i: "registry_inv limit late r"
    using endpoint_life.reaches_inv [OF assms(3)] open_registry_inv [OF assms(1,2)] by blast
  then have s: "registry_sound r" and m: "max_total r = limit" by (simp_all add: registry_inv_def)
  have d: "distinct (map ep_connection_id (stored_endpoints r))" using s by (simp add: registry_sound_def)
  show ?thesis
  proof (intro conjI exI)
    show "open_registry limit None (Ok (reg_file r)) =
      Ok \<lparr>max_total = limit, endpoints = sort_key (\<lambda>e. - created_at e) (stored_endpoints r), reg_file = reg_file r\<rparr>" by (rule reopen_sound [OF s])
    then show "late \<or> (\<forall>c. map_option shed_secret (get_for_connection
        \<lparr>max_total = limit, endpoints = sort_key (\<lambda>e. - created_at e) (stored_endpoints r), reg_file = reg_file r\<rparr> c) =
      map_option shed_secret (get_for_connection r c))"
      using i reopen_registry [of r limit] by (auto simp: registry_inv_def)
  qed (use s m d in \<open>simp_all add: registry_sound_def distinct_map get_for_connection_def find_sorted\<close>)
qed

definition sample_endpoint :: direct_endpoint where
  "sample_endpoint = \<lparr>ep_id = 1, ep_connection_id = 2, ep_kind = KindPg, secret_hash = [5], ep_secret = [5],
     port = None, require_auth = True, created_at = 0, expires_at = None\<rparr>"

theorem endpoint_registry_invariant_witness:
  "(\<exists>r'. open_registry 4 None (Ok (Some [sample_endpoint])) = Ok r' \<and>
    map_option shed_secret (get_for_connection r' 2) = Some (shed_secret sample_endpoint)) \<and>
   (\<exists>r'. open_registry 4 None (Ok (Some [])) = Ok r' \<and> get_for_connection r' 2 = None)"
proof -
  have o: "open_registry 4 None (Ok (Some [sample_endpoint])) =
      Ok \<lparr>max_total = 4, endpoints = [sample_endpoint], reg_file = Some [sample_endpoint]\<rparr>"
    by (simp add: open_registry_def Let_def)
  let ?r = "\<lparr>max_total = 4, endpoints = [sample_endpoint], reg_file = Some [sample_endpoint]\<rparr>"
  let ?late = "(snd (revoke (Some (IoError, True)) 1 ?r))"
  have late: "?late = ?r\<lparr>reg_file := Some []\<rparr>"
    by (simp add: revoke_def sample_endpoint_def commit_endpoints_def persist_endpoints_def)
  have "reaches (endpoint_step id True) ?r ?late"
    by (rule reaches_step [OF reaches_refl], rule ep_revoke [where fault = "Some (IoError, True)" and i = 1])
      (simp_all add: allowed_fault_def prod_eq_iff)
  from endpoint_registry_invariant [OF o _ this] obtain r' where 1: "open_registry 4 None (Ok (reg_file ?late)) = Ok r'"
    "\<forall>c. get_for_connection r' c = List.find (\<lambda>e. ep_connection_id e = c) (stored_endpoints ?late)" by auto
  have f: "reg_file ?late = Some []" "stored_endpoints ?late = []" by (simp_all only: late stored_endpoints_def) simp_all
  from endpoint_registry_invariant [OF o _ reaches_refl [of "endpoint_step id False"]]
  obtain r'' where 2: "open_registry 4 None (Ok (Some [sample_endpoint])) = Ok r''"
    "\<forall>c. map_option shed_secret (get_for_connection r'' c) = map_option shed_secret (get_for_connection ?r c)"
    by auto
  have "get_for_connection ?r 2 = Some sample_endpoint" by (simp add: get_for_connection_def sample_endpoint_def)
  with spec [OF 2(2), of 2] have "map_option shed_secret (get_for_connection r'' 2) = Some (shed_secret sample_endpoint)" by simp
  moreover from spec [OF 1(2), of 2] have "get_for_connection r' 2 = None" unfolding f by simp
  moreover have "open_registry 4 None (Ok (Some [])) = Ok r'" using 1(1) unfolding f .
  ultimately show ?thesis using 2(1) by blast
qed

text \<open>
  C36. Rotation replaces exactly one secret: issuing again for a connection whose endpoint has not
  expired makes the old secret useless at once and the new one authenticate as that endpoint, which
  keeps its id, port, authentication requirement and deadline; every other secret resolves as before.
  The hypothesis on hashes is the absence of a SHA-256 collision among the stored secrets.
\<close>

theorem issue_rotates_secret:
  assumes "issue hash_secret None now secret i c kind r = (Ok x, r')"
    and "get_for_connection r c = Some e" and "secret_hash e = hash_secret old"
    and "distinct (map secret_hash (endpoints r))" and "hash_secret secret \<notin> secret_hash ` set (endpoints r)"
  shows "resolve_secret hash_secret t old r' = None \<and>
    resolve_secret hash_secret now secret r' = Some (issued x) \<and>
    issued x = e\<lparr>secret_hash := hash_secret secret, ep_secret := secret, ep_kind := kind\<rparr> \<and>
    (hash_secret s \<notin> {hash_secret old, hash_secret secret} \<longrightarrow>
       resolve_secret hash_secret t s r' = resolve_secret hash_secret t s r)"
proof -
  let ?f = "\<lambda>e. e\<lparr>secret_hash := hash_secret secret, ep_secret := secret, ep_kind := kind\<rparr>"
  let ?es = "update_first (\<lambda>e. ep_connection_id e = c) ?f (endpoints r)"
  have fnd: "List.find (\<lambda>e. ep_connection_id e = c) (endpoints r) = Some e"
    using assms(2) by (simp add: get_for_connection_def)
  with assms(1) have live: "\<not> is_expired now e"
    and "commit_endpoints None ?es \<lparr>issued = ?f e, issued_secret = secret\<rparr> r = (Ok x, r')"
    by (auto simp: issue_def Let_def split: if_splits)
  note res = commit_endpoints_Ok [OF this(2)]
  have h: "distinct (map secret_hash ?es)"
    "secret_hash ` set ?es = insert (hash_secret secret) (secret_hash ` set (endpoints r) - {secret_hash e})"
    using hashes_after_rotation [OF assms(4) fnd assms(5), of ?f] by simp_all
  have "hash_secret old \<noteq> hash_secret secret" using assms(3,5) find_SomeD [OF fnd] by (metis image_eqI)
  then have "hash_secret old \<notin> secret_hash ` set ?es" using h(2) assms(3) by simp
  then have old: "resolve_secret hash_secret t old r' = None"
    unfolding resolve_secret_def using res by (simp add: find_hash_none)
  have "\<not> is_expired now (?f e)" using live by (simp add: is_expired_def)
  then have new: "resolve_secret hash_secret now secret r' = Some (?f e)"
    unfolding resolve_secret_def using res find_hash_unique [OF h(1) update_first_mem [OF fnd, of ?f]] by simp
  from old new res show ?thesis
    using find_hash_untouched [OF fnd, of "hash_secret s" ?f] assms(3) by (simp add: resolve_secret_def)
qed

theorem issue_rotates_secret_witness:
  "resolve_secret id 9 [5] (snd (issue id None 3 [6] 7 2 KindPg
     \<lparr>max_total = 4, endpoints = [sample_endpoint], reg_file = None\<rparr>)) = None"
proof -
  let ?r = "\<lparr>max_total = 4, endpoints = [sample_endpoint], reg_file = None\<rparr>"
  have "issue id None 3 [6] 7 2 KindPg ?r =
      (Ok \<lparr>issued = sample_endpoint\<lparr>secret_hash := [6], ep_secret := [6], ep_kind := KindPg\<rparr>, issued_secret = [6]\<rparr>,
       snd (issue id None 3 [6] 7 2 KindPg ?r))"
    by (simp add: issue_def sample_endpoint_def is_expired_def commit_endpoints_def persist_endpoints_def)
  from issue_rotates_secret [OF this, of sample_endpoint "[5]" 9] show ?thesis
    by (simp add: get_for_connection_def sample_endpoint_def)
qed

text \<open>
  Renewal keeps the pasted configuration alive for exactly thirty days: after renewing at time
  \<open>now\<close>, expired or not, the unchanged secret authenticates as that endpoint at every time before
  \<open>now\<close> plus thirty days and at no later one.
\<close>

theorem renew_window_exact:
  assumes "renew None now i r = (Ok e', r')" and "get_endpoint r i = Some e"
    and "secret_hash e = hash_secret s" and "distinct (map secret_hash (endpoints r))"
  shows "resolve_secret hash_secret t s r' =
      (if t < now + 30 * 24 * 60 * 60 * 1000000000 then Some e' else None) \<and>
    e' = e\<lparr>expires_at := Some (now + ENDPOINT_LIFETIME)\<rparr>"
proof -
  let ?f = "\<lambda>e. e\<lparr>expires_at := Some (now + ENDPOINT_LIFETIME)\<rparr>"
  let ?es = "update_first (\<lambda>e. ep_id e = i) ?f (endpoints r)"
  have fnd: "List.find (\<lambda>e. ep_id e = i) (endpoints r) = Some e"
    using assms(2) by (simp add: get_endpoint_def)
  with assms(1) have "commit_endpoints None ?es (?f e) r = (Ok e', r')"
    by (simp add: renew_def set_deadline_def)
  note res = commit_endpoints_Ok [OF this]
  have "distinct (map secret_hash ?es)"
    using assms(4) by (simp add: map_update_first [where g = secret_hash])
  note f = find_hash_unique [OF this update_first_mem [OF fnd, of ?f]]
  show ?thesis
    unfolding resolve_secret_def using res f assms(3) by (simp add: is_expired_def ENDPOINT_LIFETIME_def)
qed

theorem renew_window_exact_witness:
  "resolve_secret id 100 [5] (snd (renew None 3 1 \<lparr>max_total = 4, endpoints = [sample_endpoint], reg_file = None\<rparr>)) \<noteq> None"
proof -
  let ?r = "\<lparr>max_total = 4, endpoints = [sample_endpoint], reg_file = None\<rparr>"
  have "renew None 3 1 ?r =
      (Ok (sample_endpoint\<lparr>expires_at := Some (3 + ENDPOINT_LIFETIME)\<rparr>), snd (renew None 3 1 ?r))"
    by (simp add: renew_def set_deadline_def sample_endpoint_def commit_endpoints_def persist_endpoints_def)
  from renew_window_exact [OF this, of sample_endpoint id "[5]" 100] show ?thesis
    by (simp add: get_endpoint_def sample_endpoint_def)
qed

text \<open>
  Endpoints die with their connection: once removal for a connection reports success, no secret
  authenticates to it at any time, neither in the running registry nor after a restart from the
  file; exactly its records are returned, and other connections keep theirs.
\<close>

theorem endpoints_die_with_connection:
  assumes "remove_endpoints_for_connection fault c r = (Ok removed, r')" and "registry_ok r"
  shows "(\<forall>s t e. resolve_secret hash_secret t s r' = Some e \<longrightarrow> ep_connection_id e \<noteq> c) \<and>
    (\<exists>r''. open_registry limit None (Ok (reg_file r')) = Ok r'' \<and> get_for_connection r'' c = None) \<and>
    set removed = {e \<in> set (endpoints r). ep_connection_id e = c} \<and>
    (c' \<noteq> c \<longrightarrow> get_for_connection r' c' = get_for_connection r c')"
proof -
  let ?kept = "filter (\<lambda>e. ep_connection_id e \<noteq> c) (endpoints r)"
  have "length ?kept \<le> max_total r" using length_filter_le order_trans registry_okD(2) [OF assms(2)] by blast
  then have "registry_ok r'"
    using assms commit_registry_ok [OF assms(2), of fault ?kept "filter (\<lambda>e. ep_connection_id e = c) (endpoints r)"] registry_okD(1) [OF assms(2)]
    by (auto simp: remove_endpoints_for_connection_def Let_def distinct_map_filter split: if_splits)
  from reopen_registry [OF this] obtain r'' where r'': "open_registry limit None (Ok (reg_file r')) = Ok r''"
    and g: "map_option shed_secret (get_for_connection r'' c) = map_option shed_secret (get_for_connection r' c)"
    by blast
  have es: "endpoints r' = filter (\<lambda>e. ep_connection_id e \<noteq> c) (endpoints r)"
    and rm: "removed = filter (\<lambda>e. ep_connection_id e = c) (endpoints r)"
    using assms(1)
    by (auto simp: remove_endpoints_for_connection_def Let_def filter_empty_conv dest!: commit_endpoints_Ok
        split: if_splits)
  then have "get_for_connection r' c = None" by (simp add: get_for_connection_def find_None_iff_all)
  moreover have "get_for_connection r' c' = get_for_connection r c'" if "c' \<noteq> c"
    using endpoint_table.lookup_remove_other [OF that, of "endpoints r"] es
    by (simp add: get_for_connection_def endpoint_table.lookup_def)
  ultimately show ?thesis using g r'' es rm
    by (auto simp: resolve_secret_def dest!: find_SomeD)
qed

theorem endpoints_die_with_connection_witness:
  "resolve_secret id 1 [5] \<lparr>max_total = 4, endpoints = [sample_endpoint], reg_file = Some [sample_endpoint]\<rparr> =
     Some sample_endpoint \<and>
   resolve_secret id 1 [5] (snd (remove_endpoints_for_connection None 2
     \<lparr>max_total = 4, endpoints = [sample_endpoint], reg_file = Some [sample_endpoint]\<rparr>)) \<noteq> Some sample_endpoint"
proof -
  let ?r = "\<lparr>max_total = 4, endpoints = [sample_endpoint], reg_file = Some [sample_endpoint]\<rparr>"
  have "remove_endpoints_for_connection None 2 ?r = (Ok [sample_endpoint], snd (remove_endpoints_for_connection None 2 ?r))"
    "registry_ok ?r"
    by (simp_all add: remove_endpoints_for_connection_def registry_ok_def stored_endpoints_def commit_endpoints_def persist_endpoints_def
        sample_endpoint_def)
  moreover have "ep_connection_id sample_endpoint = 2" "resolve_secret id 1 [5] ?r = Some sample_endpoint"
    by (simp_all add: sample_endpoint_def resolve_secret_def is_expired_def)
  ultimately show ?thesis using endpoints_die_with_connection [of None 2 ?r "[sample_endpoint]" _ id] by blast
qed

end
