(* ===== verification/Sessions.thy ===== *)
theory Sessions
  imports CoreTypes "HOL-Library.Multiset"
begin

text \<open>
  The data plane, \<^verbatim>\<open>crates/aka-core/src/sessions.rs\<close>: tickets with a redemption window and two budgets,
  redemptions that reserve a slot before the upstream dial, live sessions with a close cell, and the
  broad revocations. The state behind the mutex is the record \<open>data_plane\<close>; each operation is one
  critical section of it. The clock reading of an operation is its argument \<open>now\<close>, and the ticket
  value is the 128-bit random string \<open>mint_ticket\<close> returns.
\<close>

subsection \<open>State\<close>

record ticket_entry =
  tk_agent :: ustring
  tk_connection :: connection
  issued :: instant
  active_sessions :: nat
  total_sessions :: nat
  invalidated :: bool

record session_info =
  si_id :: nat
  si_kind :: connection_kind
  si_agent :: ustring
  si_connection :: ustring
  si_detail :: ustring
  opened_at :: datetime

record session_entry =
  info :: session_info
  ticket :: "ustring option"
  endpoint_id :: "uuid option"
  s_connection_id :: uuid
  close :: "ustring option"

datatype redeem_error = Unknown | Expired | TicketSessionLimit | BrokerSessionLimit

record redemption =
  r_ticket :: ustring
  r_agent :: ustring
  r_connection :: connection

record session_handle =
  h_id :: nat
  h_kind :: connection_kind
  h_agent :: ustring
  h_connection :: ustring
  bytes_up :: nat
  bytes_down :: nat

text \<open>The audit records the data plane appends; each is followed by \<open>events.sessions_changed()\<close>.\<close>

datatype plane_event =
    SessionOpened ustring session_info "(ustring \<times> ustring) list"
  | SessionClosed ustring session_handle ustring

record data_plane =
  ticket_ttl :: duration
  per_ticket :: nat
  per_ticket_total :: nat
  global :: nat
  tickets :: "(ustring, ticket_entry) hashmap"
  sessions :: "(nat, session_entry) hashmap"
  next_session :: nat
  audit :: "plane_event list"

definition kind_label :: "connection_kind \<Rightarrow> ustring" where
  "kind_label k = (case k of KindPg \<Rightarrow> ascii ''Postgres'' | KindSsh \<Rightarrow> ascii ''SSH'' | KindApi \<Rightarrow> ascii ''API'')"

definition redeem_reason :: "redeem_error \<Rightarrow> error_reason" where
  "redeem_reason e = (case e of
       Unknown \<Rightarrow> UnknownTicket | Expired \<Rightarrow> TicketExpired
     | TicketSessionLimit \<Rightarrow> error_reason.TicketSessionLimit
     | BrokerSessionLimit \<Rightarrow> error_reason.BrokerSessionLimit)"

definition redeem_status :: "redeem_error \<Rightarrow> nat" where
  "redeem_status e = (case e of
       Unknown \<Rightarrow> 404 | Expired \<Rightarrow> 410 | TicketSessionLimit \<Rightarrow> 503 | BrokerSessionLimit \<Rightarrow> 503)"

definition new_data_plane :: "duration \<Rightarrow> nat \<Rightarrow> nat \<Rightarrow> nat \<Rightarrow> data_plane" where
  "new_data_plane ttl pt ptt g =
     \<lparr>ticket_ttl = ttl, per_ticket = pt, per_ticket_total = ptt, global = g,
      tickets = [], sessions = [], next_session = 0, audit = []\<rparr>"

subsection \<open>Operations\<close>

definition sweep :: "instant \<Rightarrow> data_plane \<Rightarrow> data_plane" where
  "sweep now p =
     (let keep_until = ticket_ttl p + secs 600 in
      p\<lparr>tickets := hm_retain (\<lambda>_ t. active_sessions t > 0 \<or> now - issued t \<le> keep_until) (tickets p)\<rparr>)"

definition issue_ticket :: "instant \<Rightarrow> ustring \<Rightarrow> ustring \<Rightarrow> connection \<Rightarrow> data_plane \<Rightarrow> data_plane" where
  "issue_ticket now value agent c p =
     (let p = sweep now p in
      p\<lparr>tickets := AList.update value
          \<lparr>tk_agent = agent, tk_connection = c, issued = now, active_sessions = 0, total_sessions = 0,
           invalidated = False\<rparr> (tickets p)\<rparr>)"

definition redeem :: "instant \<Rightarrow> ustring \<Rightarrow> data_plane \<Rightarrow> (redeem_error + redemption) \<times> data_plane" where
  "redeem now value p =
     (let p = sweep now p;
          global_active = length (sessions p) in
      case map_of (tickets p) value of
        None \<Rightarrow> (Err Unknown, p)
      | Some t \<Rightarrow>
          if invalidated t then (Err Expired, p)
          else if now - issued t > ticket_ttl p then (Err Expired, p)
          else if active_sessions t \<ge> per_ticket p \<or> total_sessions t \<ge> per_ticket_total p
            then (Err TicketSessionLimit, p)
          else if global_active \<ge> global p then (Err BrokerSessionLimit, p)
          else
            (Ok \<lparr>r_ticket = value, r_agent = tk_agent t, r_connection = tk_connection t\<rparr>,
             p\<lparr>tickets := AList.map_entry value
                 (\<lambda>t. t\<lparr>active_sessions := active_sessions t + 1, total_sessions := total_sessions t + 1\<rparr>)
                 (tickets p)\<rparr>))"

definition opened_label :: "connection_kind \<Rightarrow> ustring \<Rightarrow> ustring" where
  "opened_label kind conn = kind_label kind @ ascii '' session opened: '' @ conn"

definition via_endpoint :: "ustring \<times> ustring" where
  "via_endpoint = (ascii ''via'', ascii ''endpoint'')"

definition register_session ::
    "datetime \<Rightarrow> connection_kind \<Rightarrow> ustring \<Rightarrow> connection \<Rightarrow> ustring option \<Rightarrow> uuid option \<Rightarrow>
     (ustring \<times> ustring) list \<Rightarrow> data_plane \<Rightarrow> session_handle \<times> data_plane" where
  "register_session wall kind agent c tk ep extra p =
     (let i = next_session p + 1;
          inf = \<lparr>si_id = i, si_kind = kind, si_agent = agent, si_connection = conn_name c,
                 si_detail = conn_target c, opened_at = wall\<rparr> in
      (\<lparr>h_id = i, h_kind = kind, h_agent = agent, h_connection = conn_name c, bytes_up = 0, bytes_down = 0\<rparr>,
       p\<lparr>next_session := i,
         sessions := AList.update i
           \<lparr>info = inf, ticket = tk, endpoint_id = ep, s_connection_id = conn_id c, close = None\<rparr> (sessions p),
         audit := audit p @ [SessionOpened (opened_label kind (conn_name c)) inf extra]\<rparr>))"

definition start_endpoint_session_with_fields ::
    "instant \<Rightarrow> datetime \<Rightarrow> ustring \<Rightarrow> connection \<Rightarrow> uuid \<Rightarrow> connection_kind \<Rightarrow> (ustring \<times> ustring) list \<Rightarrow>
     data_plane \<Rightarrow> (redeem_error + session_handle) \<times> data_plane" where
  "start_endpoint_session_with_fields now wall agent c ep kind extra p =
     (let p = sweep now p in
      if length (sessions p) \<ge> global p then (Err BrokerSessionLimit, p)
      else case register_session wall kind agent c None (Some ep) (via_endpoint # extra) p of
        (h, p) \<Rightarrow> (Ok h, p))"

definition start_with_fields ::
    "datetime \<Rightarrow> connection_kind \<Rightarrow> (ustring \<times> ustring) list \<Rightarrow> redemption \<Rightarrow> data_plane \<Rightarrow>
     session_handle \<times> data_plane" where
  "start_with_fields wall kind extra r p =
     register_session wall kind (r_agent r) (r_connection r) (Some (r_ticket r)) None extra p"

definition drop_redemption :: "redemption \<Rightarrow> data_plane \<Rightarrow> data_plane" where
  "drop_redemption r p =
     p\<lparr>tickets := AList.map_entry (r_ticket r)
         (\<lambda>t. t\<lparr>active_sessions := active_sessions t - 1, total_sessions := total_sessions t - 1\<rparr>) (tickets p)\<rparr>"

definition session_list :: "data_plane \<Rightarrow> session_info list" where
  "session_list p = sort_key si_id (map (\<lambda>(_, s). info s) (sessions p))"

text \<open>\<open>signal_close\<close> on the close cell of one session keeps the first reason.\<close>

definition signal_close :: "ustring \<Rightarrow> session_entry \<Rightarrow> session_entry" where
  "signal_close reason s = (if close s \<noteq> None then s else s\<lparr>close := Some reason\<rparr>)"

definition signal_session :: "ustring \<Rightarrow> nat \<Rightarrow> data_plane \<Rightarrow> data_plane" where
  "signal_session reason i p = p\<lparr>sessions := AList.map_entry i (signal_close reason) (sessions p)\<rparr>"

definition close_session :: "nat \<Rightarrow> data_plane \<Rightarrow> bool \<times> data_plane" where
  "close_session i p =
     (case map_of (sessions p) i of
        Some _ \<Rightarrow> (True, signal_session (ascii ''closed_by_user'') i p)
      | None \<Rightarrow> (False, p))"

definition invalidate_tickets :: "(connection \<Rightarrow> bool) \<Rightarrow> data_plane \<Rightarrow> data_plane" where
  "invalidate_tickets P p =
     p\<lparr>tickets := hm_map_values (\<lambda>t. if P (tk_connection t) then t\<lparr>invalidated := True\<rparr> else t) (tickets p)\<rparr>"

text \<open>
  The broad closes invalidate and collect the close cells under the lock and send the signals after
  releasing it: \<open>close_targets\<close> is the collected list, \<open>signal_each\<close> the sending.
\<close>

definition close_targets :: "(session_entry \<Rightarrow> bool) \<Rightarrow> data_plane \<Rightarrow> nat list" where
  "close_targets P p = map fst (filter (\<lambda>(_, s). P s) (sessions p))"

definition signal_each :: "ustring \<Rightarrow> nat list \<Rightarrow> data_plane \<Rightarrow> data_plane" where
  "signal_each reason is p = fold (signal_session reason) is p"

definition close_all :: "ustring \<Rightarrow> data_plane \<Rightarrow> nat \<times> data_plane" where
  "close_all reason p =
     (let p = invalidate_tickets (\<lambda>_. True) p;
          targets = close_targets (\<lambda>_. True) p in
      (length targets, signal_each reason targets p))"

definition close_connection_sessions :: "uuid \<Rightarrow> ustring \<Rightarrow> data_plane \<Rightarrow> nat \<times> data_plane" where
  "close_connection_sessions c reason p =
     (let p = invalidate_tickets (\<lambda>k. conn_id k = c) p;
          targets = close_targets (\<lambda>s. s_connection_id s = c) p in
      (length targets, signal_each reason targets p))"

definition close_endpoint_sessions :: "uuid \<Rightarrow> ustring \<Rightarrow> data_plane \<Rightarrow> nat \<times> data_plane" where
  "close_endpoint_sessions ep reason p =
     (let targets = close_targets (\<lambda>s. endpoint_id s = Some ep) p in
      (length targets, signal_each reason targets p))"

definition closed_label :: "session_handle \<Rightarrow> ustring" where
  "closed_label h = kind_label (h_kind h) @ ascii '' session closed: '' @ h_connection h"

definition finish_inner :: "session_handle \<Rightarrow> ustring \<Rightarrow> data_plane \<Rightarrow> data_plane" where
  "finish_inner h reason p =
     (case map_of (sessions p) (h_id h) of
        None \<Rightarrow> p
      | Some s \<Rightarrow>
          p\<lparr>sessions := AList.delete (h_id h) (sessions p),
            tickets := (case ticket s of
                Some k \<Rightarrow> AList.map_entry k (\<lambda>t. t\<lparr>active_sessions := active_sessions t - 1\<rparr>) (tickets p)
              | None \<Rightarrow> tickets p),
            audit := audit p @ [SessionClosed (closed_label h) h reason]\<rparr>)"

text \<open>\<open>finish\<close> consumes the handle, whose \<open>Drop\<close> then runs \<open>finish_inner\<close> once more.\<close>

definition finish :: "session_handle \<Rightarrow> ustring \<Rightarrow> data_plane \<Rightarrow> data_plane" where
  "finish h reason p = finish_inner h (ascii ''transport_dropped'') (finish_inner h reason p)"

subsection \<open>The data plane with its callers\<close>

text \<open>
  The data plane together with the redemptions held by connection tasks that are still dialing, and two
  history variables: the ticket values minted and the tickets for which a session was started. A step is one critical section; a
  broad close is its locked part (\<open>ps_invalidate\<close>) followed by one \<open>ps_signal\<close> per collected cell,
  with any other steps in between. A freshly minted value was never minted before: it is 128 random bits.
\<close>

record plane_system =
  plane :: data_plane
  pending :: "redemption list"
  started :: "ustring list"
  minted :: "ustring list"

inductive plane_step :: "plane_system \<Rightarrow> plane_system \<Rightarrow> bool" where
  ps_issue: "value \<notin> set (minted s) \<Longrightarrow>
    plane_step s (s\<lparr>plane := issue_ticket now value agent c (plane s), minted := value # minted s\<rparr>)"
| ps_redeem: "redeem now value (plane s) = (Ok r, p') \<Longrightarrow>
    plane_step s (s\<lparr>plane := p', pending := r # pending s\<rparr>)"
| ps_refuse: "redeem now value (plane s) = (Err e, p') \<Longrightarrow> plane_step s (s\<lparr>plane := p'\<rparr>)"
| ps_start: "r \<in> set (pending s) \<Longrightarrow> start_with_fields wall kind extra r (plane s) = (h, p') \<Longrightarrow>
    plane_step s (s\<lparr>plane := p', pending := remove1 r (pending s), started := r_ticket r # started s\<rparr>)"
| ps_drop: "r \<in> set (pending s) \<Longrightarrow>
    plane_step s (s\<lparr>plane := drop_redemption r (plane s), pending := remove1 r (pending s)\<rparr>)"
| ps_endpoint: "start_endpoint_session_with_fields now wall agent c ep kind extra (plane s) = (x, p') \<Longrightarrow>
    plane_step s (s\<lparr>plane := p'\<rparr>)"
| ps_invalidate: "plane_step s (s\<lparr>plane := invalidate_tickets P (plane s)\<rparr>)"
| ps_signal: "plane_step s (s\<lparr>plane := signal_session reason i (plane s)\<rparr>)"
| ps_finish: "plane_step s (s\<lparr>plane := finish h reason (plane s)\<rparr>)"

subsection \<open>Budget accounting\<close>

definition on_ticket :: "ustring \<Rightarrow> data_plane \<Rightarrow> nat" where
  "on_ticket k p = length (filter (\<lambda>(_, s). ticket s = Some k) (sessions p))"

definition reserved :: "ustring \<Rightarrow> redemption list \<Rightarrow> nat" where
  "reserved k rs = length (filter (\<lambda>r. r_ticket r = k) rs)"

text \<open>\<open>A k\<close> slots of ticket \<open>k\<close> are in use and \<open>T k\<close> have been used up so far.\<close>

definition accounts :: "data_plane \<Rightarrow> (ustring \<Rightarrow> nat) \<Rightarrow> (ustring \<Rightarrow> nat) \<Rightarrow> bool" where
  "accounts p A T \<longleftrightarrow> hm_wf (tickets p) \<and> (\<forall>k. T k \<le> per_ticket_total p \<and> A k \<le> per_ticket p \<and>
     (\<forall>t. map_of (tickets p) k = Some t \<longrightarrow> active_sessions t = A k \<and> total_sessions t = T k) \<and>
     (map_of (tickets p) k = None \<longrightarrow> A k = 0))"

definition plane_ok :: "plane_system \<Rightarrow> bool" where
  "plane_ok s \<longleftrightarrow> hm_wf (sessions (plane s)) \<and> (\<forall>i\<in>set (map fst (sessions (plane s))). i \<le> next_session (plane s)) \<and>
     accounts (plane s) (\<lambda>k. on_ticket k (plane s) + reserved k (pending s))
       (\<lambda>k. reserved k (pending s) + count_list (started s) k)"

lemma accountsD:
  assumes "accounts p A T"
  shows "T k \<le> per_ticket_total p" "A k \<le> per_ticket p" "hm_wf (tickets p)"
    "map_of (tickets p) k = Some t \<Longrightarrow> active_sessions t = A k \<and> total_sessions t = T k"
    "map_of (tickets p) k = None \<Longrightarrow> A k = 0"
  using assms by (simp_all add: accounts_def)

lemma sweep_frame [simp]:
  "sessions (sweep now p) = sessions p" "next_session (sweep now p) = next_session p"
  "per_ticket (sweep now p) = per_ticket p" "per_ticket_total (sweep now p) = per_ticket_total p"
  "ticket_ttl (sweep now p) = ticket_ttl p" "global (sweep now p) = global p"
  by (simp_all add: sweep_def Let_def)

lemma accounts_sweep: "accounts p A T \<Longrightarrow> accounts (sweep now p) A T"
  by (fastforce simp: accounts_def sweep_def Let_def hm_simps split: option.splits if_splits)

lemma accounts_map_entry:
  assumes "accounts p A T" and "map_of (tickets p) k \<noteq> None"
    and "\<And>t. active_sessions t = A k \<Longrightarrow> total_sessions t = T k \<Longrightarrow>
      active_sessions (f t) = a \<and> total_sessions (f t) = b"
    and "a \<le> per_ticket p" and "b \<le> per_ticket_total p"
  shows "accounts (p\<lparr>tickets := AList.map_entry k f (tickets p)\<rparr>) (A(k := a)) (T(k := b))"
  using assms by (auto simp: accounts_def hm_simps)

lemma accounts_cong:
  assumes "accounts p A T" and "tickets p' = tickets p" "per_ticket p' = per_ticket p"
    "per_ticket_total p' = per_ticket_total p" and "A' = A" "T' = T"
  shows "accounts p' A' T'"
  using assms by (simp add: accounts_def)

lemma map_of_sessions_length:
  assumes "hm_wf m" and "map_of m i = Some s"
  shows "length (filter P m) = length (filter P (AList.delete i m)) + (if P (i, s) then 1 else 0)"
  using assms
proof (induction m)
  case (Cons kv m)
  show ?case
  proof (cases "fst kv = i")
    case True
    with Cons.prems have "i \<notin> fst ` set m" "kv = (i, s)" by (auto simp: hm_wf_def split: if_splits prod.splits)
    then have "AList.delete i m = m" by (intro AList.delete_id) auto
    with \<open>kv = (i, s)\<close> show ?thesis by simp
  next
    case False
    then have "map_of m i = Some s" "hm_wf m" using Cons.prems by (auto simp: hm_wf_def split: prod.splits if_splits)
    moreover have "AList.delete i (kv # m) = kv # AList.delete i m" using False by (cases kv) simp
    ultimately show ?thesis using Cons.IH by simp
  qed
qed simp

lemma AList_update_fresh: "i \<notin> set (map fst m) \<Longrightarrow> AList.update i v m = m @ [(i, v)]"
  by (induction m) auto

lemma on_ticket_map_entry:
  assumes "\<And>s. ticket (f s) = ticket s"
  shows "length (filter (\<lambda>(_, s). ticket s = Some k) (AList.map_entry i f m)) =
    length (filter (\<lambda>(_, s). ticket s = Some k) m)"
  using assms by (induction m) auto

lemma reserved_remove1:
  "r \<in> set rs \<Longrightarrow> reserved k rs = reserved k (remove1 r rs) + (if r_ticket r = k then 1 else 0)"
  by (induction rs) (auto simp: reserved_def)

lemma plane_okD:
  assumes "plane_ok s"
  shows "hm_wf (sessions (plane s))" "next_session (plane s) + 1 \<notin> set (map fst (sessions (plane s)))"
    "accounts (plane s) (\<lambda>k. on_ticket k (plane s) + reserved k (pending s))
      (\<lambda>k. reserved k (pending s) + count_list (started s) k)"
  using assms by (auto simp: plane_ok_def)

lemma register_session_on_ticket:
  assumes "register_session wall kind agent c tk ep extra p = (h, p')"
    and "next_session p + 1 \<notin> set (map fst (sessions p))"
  shows "on_ticket k p' = on_ticket k p + (if tk = Some k then 1 else 0)"
  using assms by (auto simp: register_session_def Let_def on_ticket_def AList_update_fresh)

lemma register_session_frame:
  assumes "register_session wall kind agent c tk ep extra p = (h, p')"
  shows "tickets p' = tickets p" "per_ticket p' = per_ticket p" "per_ticket_total p' = per_ticket_total p"
    "hm_wf (sessions p) \<Longrightarrow> hm_wf (sessions p')"
    "\<forall>i\<in>set (map fst (sessions p)). i \<le> next_session p \<Longrightarrow> \<forall>i\<in>set (map fst (sessions p')). i \<le> next_session p'"
    "next_session p' = next_session p + 1"
proof -
  show "tickets p' = tickets p" "per_ticket p' = per_ticket p" "per_ticket_total p' = per_ticket_total p"
    "hm_wf (sessions p) \<Longrightarrow> hm_wf (sessions p')" and n: "next_session p' = next_session p + 1"
    using assms by (auto simp: register_session_def Let_def)
  have keys: "set (map fst (sessions p')) = insert (next_session p + 1) (set (map fst (sessions p)))"
  proof -
    from assms obtain e where "sessions p' = AList.update (next_session p + 1) e (sessions p)"
      by (auto simp: register_session_def Let_def)
    then show ?thesis using dom_update [of "next_session p + 1" e "sessions p"] by simp
  qed
  show "\<forall>i\<in>set (map fst (sessions p')). i \<le> next_session p'"
    if "\<forall>i\<in>set (map fst (sessions p)). i \<le> next_session p"
    unfolding keys n using that by auto
qed

lemma plane_ok_sweep: "plane_ok s \<Longrightarrow> plane_ok (s\<lparr>plane := sweep now (plane s)\<rparr>)"
  by (simp add: plane_ok_def accounts_sweep on_ticket_def)

lemma plane_ok_issue:
  assumes "plane_ok s" and "map_of (tickets (plane s)) value = None" and "value \<notin> set (started s)"
  shows "plane_ok (s\<lparr>plane := issue_ticket now value agent c (plane s), minted := ms\<rparr>)"
proof -
  note ok = plane_ok_sweep [OF assms(1), of now, unfolded plane_ok_def]
  have "on_ticket value (plane s) + reserved value (pending s) = 0"
    using accountsD(5) [OF plane_okD(3) [OF assms(1)] assms(2)] .
  moreover have "count_list (started s) value = 0" using assms(3) by (simp add: count_list_0_iff)
  ultimately show ?thesis
    using ok by (auto simp: plane_ok_def issue_ticket_def Let_def accounts_def on_ticket_def hm_simps)
qed

lemma plane_ok_redeem:
  assumes "plane_ok s" and "redeem now value (plane s) = (Ok r, p')"
  shows "plane_ok (s\<lparr>plane := p', pending := r # pending s\<rparr>)"
proof -
  let ?p = "sweep now (plane s)"
  let ?A = "\<lambda>k. on_ticket k (plane s) + reserved k (pending s)"
  let ?T = "\<lambda>k. reserved k (pending s) + count_list (started s) k"
  let ?f = "\<lambda>t. t\<lparr>active_sessions := active_sessions t + 1, total_sessions := total_sessions t + 1\<rparr>"
  have acc: "accounts ?p ?A ?T" using accounts_sweep [OF plane_okD(3) [OF assms(1)]] .
  from assms(2) obtain t where t: "map_of (tickets ?p) value = Some t"
    and lim: "active_sessions t < per_ticket ?p" "total_sessions t < per_ticket_total ?p"
    and r: "r_ticket r = value" and p': "p' = ?p\<lparr>tickets := AList.map_entry value ?f (tickets ?p)\<rparr>"
    by (auto simp: redeem_def Let_def split: option.splits if_splits)
  have "accounts p' (?A(value := ?A value + 1)) (?T(value := ?T value + 1))"
    unfolding p' using t lim accountsD(4) [OF acc t] by (intro accounts_map_entry [OF acc]) auto
  then have "accounts p' (\<lambda>k. on_ticket k p' + reserved k (r # pending s))
      (\<lambda>k. reserved k (r # pending s) + count_list (started s) k)"
    by (rule accounts_cong) (auto simp: fun_eq_iff reserved_def r p' on_ticket_def)
  then show ?thesis using assms(1) by (simp add: plane_ok_def p')
qed

lemma plane_ok_start:
  assumes "plane_ok s" and "r \<in> set (pending s)" and "start_with_fields wall kind extra r (plane s) = (h, p')"
  shows "plane_ok (s\<lparr>plane := p', pending := remove1 r (pending s), started := r_ticket r # started s\<rparr>)"
proof -
  note reg = assms(3) [unfolded start_with_fields_def]
  note fr = register_session_frame [OF reg]
  note cnt = register_session_on_ticket [OF reg plane_okD(2) [OF assms(1)]]
  have "accounts p' (\<lambda>k. on_ticket k p' + reserved k (remove1 r (pending s)))
      (\<lambda>k. reserved k (remove1 r (pending s)) + count_list (r_ticket r # started s) k)"
    by (rule accounts_cong [OF plane_okD(3) [OF assms(1)] fr(1-3)])
      (auto simp: fun_eq_iff cnt reserved_remove1 [OF assms(2)])
  then show ?thesis using assms(1) fr(4,5) by (simp add: plane_ok_def del: set_map)
qed

lemma plane_ok_endpoint:
  assumes "plane_ok s" and "start_endpoint_session_with_fields now wall agent c ep kind extra (plane s) = (x, p')"
  shows "plane_ok (s\<lparr>plane := p'\<rparr>)"
proof (cases "length (sessions (plane s)) \<ge> global (plane s)")
  case True
  with assms plane_ok_sweep [OF assms(1), of now] show ?thesis
    by (simp add: start_endpoint_session_with_fields_def Let_def)
next
  case False
  let ?s = "s\<lparr>plane := sweep now (plane s)\<rparr>"
  from False assms(2) obtain h where
    reg: "register_session wall kind agent c None (Some ep) (via_endpoint # extra) (plane ?s) = (h, p')"
    by (auto simp: start_endpoint_session_with_fields_def Let_def split: prod.splits)
  note ok = plane_ok_sweep [OF assms(1), of now]
  note fr = register_session_frame [OF reg]
  note cnt = register_session_on_ticket [OF reg plane_okD(2) [OF ok]]
  have "accounts p' (\<lambda>k. on_ticket k p' + reserved k (pending s))
      (\<lambda>k. reserved k (pending s) + count_list (started s) k)"
    by (rule accounts_cong [OF plane_okD(3) [OF ok] fr(1-3)]) (auto simp: fun_eq_iff cnt)
  then show ?thesis using ok fr(4,5) by (simp add: plane_ok_def del: set_map)
qed

lemma plane_ok_drop:
  assumes "plane_ok s" and "r \<in> set (pending s)"
  shows "plane_ok (s\<lparr>plane := drop_redemption r (plane s), pending := remove1 r (pending s)\<rparr>)"
proof -
  let ?p = "plane s" and ?k = "r_ticket r"
  let ?A = "\<lambda>k. on_ticket k ?p + reserved k (pending s)"
  let ?T = "\<lambda>k. reserved k (pending s) + count_list (started s) k"
  note acc = plane_okD(3) [OF assms(1)] and res = reserved_remove1 [OF assms(2)]
  have "map_of (tickets ?p) ?k \<noteq> None" using accountsD(5) [OF acc, of ?k] res [of ?k] by auto
  then have "accounts (drop_redemption r ?p) (?A(?k := ?A ?k - 1)) (?T(?k := ?T ?k - 1))"
    unfolding drop_redemption_def
    using accountsD(1,2) [OF acc, of ?k] by (intro accounts_map_entry [OF acc]) auto
  then have "accounts (drop_redemption r ?p) (\<lambda>k. on_ticket k (drop_redemption r ?p) + reserved k (remove1 r (pending s)))
      (\<lambda>k. reserved k (remove1 r (pending s)) + count_list (started s) k)"
    by (rule accounts_cong) (auto simp: fun_eq_iff res drop_redemption_def on_ticket_def)
  then show ?thesis using assms(1) by (simp add: plane_ok_def drop_redemption_def)
qed

lemma plane_ok_finish_inner:
  assumes "plane_ok s"
  shows "plane_ok (s\<lparr>plane := finish_inner h reason (plane s)\<rparr>)"
proof (cases "map_of (sessions (plane s)) (h_id h)")
  case None
  with assms show ?thesis by (simp add: finish_inner_def)
next
  case (Some e)
  let ?p = "plane s" and ?p' = "finish_inner h reason (plane s)"
  let ?A = "\<lambda>k. on_ticket k ?p + reserved k (pending s)"
  let ?T = "\<lambda>k. reserved k (pending s) + count_list (started s) k"
  note acc = plane_okD(3) [OF assms]
  have cnt: "on_ticket k ?p = on_ticket k ?p' + (if ticket e = Some k then 1 else 0)" for k
    using map_of_sessions_length [OF plane_okD(1) [OF assms] Some, of "\<lambda>(_, s). ticket s = Some k"] Some
    by (simp add: on_ticket_def finish_inner_def)
  have "accounts ?p' (\<lambda>k. on_ticket k ?p' + reserved k (pending s)) ?T"
  proof (cases "ticket e")
    case None
    then show ?thesis using Some cnt
      by (intro accounts_cong [OF acc]) (auto simp: fun_eq_iff finish_inner_def)
  next
    case (Some k)
    let ?f = "\<lambda>t. t\<lparr>active_sessions := active_sessions t - 1\<rparr>"
    have "map_of (tickets ?p) k \<noteq> None" using accountsD(5) [OF acc, of k] cnt [of k] Some by auto
    then have "accounts (?p\<lparr>tickets := AList.map_entry k ?f (tickets ?p)\<rparr>) (?A(k := ?A k - 1)) (?T(k := ?T k))"
      using accountsD(1,2) [OF acc, of k] by (intro accounts_map_entry [OF acc]) auto
    then show ?thesis
      by (rule accounts_cong) (use Some \<open>map_of (sessions ?p) (h_id h) = Some e\<close> cnt in
          \<open>auto simp: fun_eq_iff finish_inner_def\<close>)
  qed
  then show ?thesis
    using assms Some by (auto simp: plane_ok_def finish_inner_def AList.delete_eq hm_wf_def distinct_map_filter)
qed

lemma signal_close_frame [simp]:
  "ticket (signal_close reason s) = ticket s" "s_connection_id (signal_close reason s) = s_connection_id s"
  "endpoint_id (signal_close reason s) = endpoint_id s" "info (signal_close reason s) = info s"
  by (simp_all add: signal_close_def)

lemma plane_ok_signal:
  assumes "plane_ok s"
  shows "plane_ok (s\<lparr>plane := signal_session reason i (plane s)\<rparr>)"
proof -
  let ?p' = "signal_session reason i (plane s)"
  have "on_ticket k ?p' = on_ticket k (plane s)" for k
    by (simp add: on_ticket_def signal_session_def on_ticket_map_entry)
  then have "accounts ?p' (\<lambda>k. on_ticket k ?p' + reserved k (pending s))
      (\<lambda>k. reserved k (pending s) + count_list (started s) k)"
    by (intro accounts_cong [OF plane_okD(3) [OF assms]]) (auto simp: signal_session_def)
  with assms show ?thesis by (simp add: plane_ok_def signal_session_def del: set_map)
qed

lemma plane_ok_invalidate:
  "plane_ok s \<Longrightarrow> plane_ok (s\<lparr>plane := invalidate_tickets P (plane s)\<rparr>)"
  by (auto simp: plane_ok_def invalidate_tickets_def on_ticket_def accounts_def hm_simps)

text \<open>Every value in use was minted, so a new one starts with clean accounts.\<close>

definition ticket_values :: "data_plane \<Rightarrow> ustring set" where
  "ticket_values p = dom (map_of (tickets p))"

definition minted_ok :: "plane_system \<Rightarrow> bool" where
  "minted_ok s \<longleftrightarrow> hm_wf (tickets (plane s)) \<and>
     ticket_values (plane s) \<union> set (started s) \<union> r_ticket ` set (pending s) \<subseteq> set (minted s)"

lemma hm_wf_sweep [simp, intro]: "hm_wf (tickets p) \<Longrightarrow> hm_wf (tickets (sweep now p))"
  by (simp add: sweep_def Let_def)

lemma map_of_sweep:
  "hm_wf (tickets p) \<Longrightarrow> map_of (tickets (sweep now p)) k = Some t \<Longrightarrow> map_of (tickets p) k = Some t"
  by (auto simp: sweep_def Let_def hm_simps split: option.splits if_splits)

lemma values_sweep: "hm_wf (tickets p) \<Longrightarrow> ticket_values (sweep now p) \<subseteq> ticket_values p"
  by (auto simp: ticket_values_def dest: map_of_sweep)

lemma values_ops [simp]:
  "ticket_values (drop_redemption r p) = ticket_values p"
  "ticket_values (invalidate_tickets P p) = ticket_values p"
  "ticket_values (signal_session reason i p) = ticket_values p"
  "ticket_values (finish_inner h reason p) = ticket_values p"
  by (auto simp: ticket_values_def drop_redemption_def invalidate_tickets_def signal_session_def finish_inner_def
      hm_simps split: if_splits option.splits)

lemma hm_wf_ops:
  assumes "hm_wf (tickets p)"
  shows "hm_wf (tickets (drop_redemption r p))" "hm_wf (tickets (invalidate_tickets P p))"
    "hm_wf (tickets (signal_session reason i p))" "hm_wf (tickets (finish_inner h reason p))"
  using assms by (auto simp: drop_redemption_def invalidate_tickets_def signal_session_def finish_inner_def
      split: option.splits)

lemma redeem_cases:
  assumes "redeem now val p = (x, p')"
  obtains (refused) e where "x = Err e" "p' = sweep now p"
  | (granted) t where "map_of (tickets (sweep now p)) val = Some t" "\<not> invalidated t" "now - issued t \<le> ticket_ttl p"
      "active_sessions t < per_ticket p" "total_sessions t < per_ticket_total p"
      "x = Ok \<lparr>r_ticket = val, r_agent = tk_agent t, r_connection = tk_connection t\<rparr>"
      "p' = (sweep now p)\<lparr>tickets := AList.map_entry val
         (\<lambda>t. t\<lparr>active_sessions := active_sessions t + 1, total_sessions := total_sessions t + 1\<rparr>)
         (tickets (sweep now p))\<rparr>"
  using assms by (auto simp: redeem_def Let_def split: option.splits if_splits)

lemma redeem_values:
  assumes "redeem now val p = (x, p')" and "hm_wf (tickets p)"
  shows "ticket_values p' \<subseteq> ticket_values p \<and> hm_wf (tickets p') \<and> (\<forall>r. x = Ok r \<longrightarrow> r_ticket r \<in> ticket_values p)"
  using assms(1)
proof (cases rule: redeem_cases)
  case (refused e)
  then show ?thesis using assms(2) values_sweep by simp
next
  case (granted t)
  have "val \<in> ticket_values p" using map_of_sweep [OF assms(2) granted(1)] by (auto simp: ticket_values_def)
  moreover have "ticket_values p' = ticket_values (sweep now p)"
    by (auto simp: granted(7) ticket_values_def hm_simps split: if_splits)
  ultimately show ?thesis using granted assms(2) values_sweep by simp
qed

lemma start_endpoint_tickets:
  "start_endpoint_session_with_fields now wall agent c ep kind extra p = (x, p') \<Longrightarrow> tickets p' = tickets (sweep now p)"
  by (auto simp: start_endpoint_session_with_fields_def Let_def register_session_def split: if_splits)

lemma minted_ok_cong:
  assumes "minted_ok s" and "hm_wf (tickets (plane s'))" and "ticket_values (plane s') \<subseteq> ticket_values (plane s)"
    and "set (started s') \<subseteq> set (minted s)" and "r_ticket ` set (pending s') \<subseteq> set (minted s)" and "minted s' = minted s"
  shows "minted_ok s'"
  using assms by (auto simp: minted_ok_def)

lemma minted_ok_step:
  assumes "plane_step s s'" and "minted_ok s"
  shows "minted_ok s'"
  using assms
proof (induction rule: plane_step.induct)
  case (ps_issue val s now agent c)
  then have "ticket_values (sweep now (plane s)) \<subseteq> set (minted s)"
    using values_sweep [of "plane s" now] by (auto simp: minted_ok_def)
  moreover have "ticket_values (issue_ticket now val agent c (plane s)) = insert val (ticket_values (sweep now (plane s)))"
    by (auto simp: ticket_values_def issue_ticket_def Let_def hm_simps split: if_splits)
  ultimately show ?case using ps_issue by (auto simp: minted_ok_def issue_ticket_def Let_def)
next
  case (ps_redeem now val s r p')
  then show ?case using redeem_values [OF ps_redeem.hyps]
    by (intro minted_ok_cong [OF ps_redeem.prems]) (auto simp: minted_ok_def)
next
  case (ps_refuse now val s e p')
  then show ?case using redeem_values [OF ps_refuse.hyps]
    by (intro minted_ok_cong [OF ps_refuse.prems]) (auto simp: minted_ok_def)
next
  case (ps_endpoint now wall agent c ep kind extra s x p')
  note t = start_endpoint_tickets [OF ps_endpoint.hyps]
  show ?case
    using values_sweep [of "plane s" now] t ps_endpoint.prems
    by (intro minted_ok_cong [OF ps_endpoint.prems]) (auto simp: minted_ok_def ticket_values_def)
next
  case (ps_start r s wall kind extra h p')
  note t = register_session_frame(1) [OF ps_start.hyps(2) [unfolded start_with_fields_def]]
  show ?case
    using t ps_start subsetD [OF set_remove1_subset [of r "pending s"]]
    by (intro minted_ok_cong [OF ps_start.prems]) (auto simp: minted_ok_def ticket_values_def)
next
  case (ps_drop r s)
  then show ?case using subsetD [OF set_remove1_subset [of r "pending s"]]
    by (intro minted_ok_cong [OF ps_drop.prems]) (auto simp: minted_ok_def hm_wf_ops)
next
  case (ps_finish s h reason)
  then show ?case by (intro minted_ok_cong [OF ps_finish.prems]) (auto simp: minted_ok_def finish_def hm_wf_ops)
qed (auto simp: minted_ok_def hm_wf_ops)

lemma plane_step_ok:
  assumes "plane_step s s'" and "plane_ok s" and "minted_ok s"
  shows "plane_ok s'"
  using assms
proof (induction rule: plane_step.induct)
  case (ps_issue val s now agent c)
  then have "map_of (tickets (plane s)) val = None" "val \<notin> set (started s)"
    by (auto simp: minted_ok_def ticket_values_def)
  with ps_issue show ?case by (intro plane_ok_issue)
next
  case (ps_refuse now val s e p')
  then have "p' = sweep now (plane s)"
    by (auto simp: redeem_def Let_def split: option.splits if_splits)
  with ps_refuse plane_ok_sweep show ?case by simp
next
  case (ps_finish s h reason)
  from plane_ok_finish_inner [OF plane_ok_finish_inner [OF ps_finish(1)]] show ?case by (simp add: finish_def)
qed (auto intro: plane_ok_redeem plane_ok_start plane_ok_drop plane_ok_endpoint
    plane_ok_invalidate plane_ok_signal)

lemma plane_step_caps:
  "plane_step s s' \<Longrightarrow> per_ticket (plane s') = per_ticket (plane s) \<and>
     per_ticket_total (plane s') = per_ticket_total (plane s)"
  by (induction rule: plane_step.induct)
    (auto simp: issue_ticket_def redeem_def start_with_fields_def drop_redemption_def invalidate_tickets_def
      start_endpoint_session_with_fields_def register_session_def signal_session_def finish_def finish_inner_def
      Let_def split: option.splits if_splits)

interpretation plane_life: invariant_system plane_step
  "\<lambda>s. plane_ok s \<and> minted_ok s \<and> per_ticket (plane s) = pt \<and> per_ticket_total (plane s) = ptt" for pt ptt
  by unfold_locales (use plane_step_ok minted_ok_step plane_step_caps in auto)

subsection \<open>Close cells and revoked tickets\<close>

lemma map_of_signal_session:
  "map_of (sessions (signal_session reason i p)) j =
     (if j = i then map_option (signal_close reason) (map_of (sessions p) i) else map_of (sessions p) j)"
  by (simp add: signal_session_def hm_simps)

lemma map_of_register:
  assumes "register_session wall kind agent c tk ep extra p = (h, p')"
  shows "map_of (sessions p') j = (if j = next_session p + 1
    then Some \<lparr>info = \<lparr>si_id = next_session p + 1, si_kind = kind, si_agent = agent, si_connection = conn_name c,
        si_detail = conn_target c, opened_at = wall\<rparr>, ticket = tk, endpoint_id = ep,
      s_connection_id = conn_id c, close = None\<rparr>
    else map_of (sessions p) j)"
  using assms by (auto simp: register_session_def Let_def hm_simps)

text \<open>Session \<open>i\<close>, once numbered, is gone or keeps the close reason \<open>reason\<close>.\<close>

definition closed_with :: "nat \<Rightarrow> ustring \<Rightarrow> plane_system \<Rightarrow> bool" where
  "closed_with i reason s \<longleftrightarrow> i \<le> next_session (plane s) \<and>
     (\<forall>e. map_of (sessions (plane s)) i = Some e \<longrightarrow> close e = Some reason)"

lemma map_of_finish_inner:
  "map_of (sessions (finish_inner h r p)) j = (if j = h_id h then None else map_of (sessions p) j)"
  "next_session (finish_inner h r p) = next_session p"
  by (auto simp: finish_inner_def hm_simps split: option.splits)

lemma closed_with_step: "plane_step s s' \<Longrightarrow> closed_with i reason s \<Longrightarrow> closed_with i reason s'"
proof (induction rule: plane_step.induct)
  case (ps_start r s wall kind extra h p')
  note reg = ps_start.hyps(2) [unfolded start_with_fields_def]
  show ?case
    using ps_start.prems map_of_register [OF reg] register_session_frame(6) [OF reg] by (simp add: closed_with_def)
next
  case (ps_endpoint now wall agent c ep kind extra s x p')
  show ?case
  proof (cases "length (sessions (plane s)) \<ge> global (plane s)")
    case True
    with ps_endpoint show ?thesis by (auto simp: closed_with_def start_endpoint_session_with_fields_def Let_def)
  next
    case False
    with ps_endpoint.hyps obtain h where
      reg: "register_session wall kind agent c None (Some ep) (via_endpoint # extra) (sweep now (plane s)) = (h, p')"
      by (auto simp: start_endpoint_session_with_fields_def Let_def split: prod.splits)
    show ?thesis
      using ps_endpoint.prems map_of_register [OF reg] register_session_frame(6) [OF reg] by (simp add: closed_with_def)
  qed
next
  case (ps_signal s r j)
  have "next_session (signal_session r j (plane s)) = next_session (plane s)" by (simp add: signal_session_def)
  with ps_signal show ?case by (auto simp: closed_with_def map_of_signal_session signal_close_def)
qed (auto simp: closed_with_def issue_ticket_def redeem_def drop_redemption_def invalidate_tickets_def
    finish_def map_of_finish_inner Let_def split: option.splits if_splits)

interpretation close_cell: invariant_system plane_step "closed_with i reason" for i reason
  by unfold_locales (rule closed_with_step)

text \<open>Ticket \<open>k\<close> was minted, and is gone or invalidated.\<close>

definition revoked :: "ustring \<Rightarrow> plane_system \<Rightarrow> bool" where
  "revoked k s \<longleftrightarrow> k \<in> set (minted s) \<and> hm_wf (tickets (plane s)) \<and>
     (\<forall>t. map_of (tickets (plane s)) k = Some t \<longrightarrow> invalidated t)"

lemma revoked_sweep: "revoked k s \<Longrightarrow> revoked k (s\<lparr>plane := sweep now (plane s)\<rparr>)"
  by (auto simp: revoked_def dest: map_of_sweep)

lemma revoked_map_entry:
  assumes "revoked k s" and "\<And>t. invalidated (f t) = invalidated t"
  shows "revoked k (s\<lparr>plane := (plane s)\<lparr>tickets := AList.map_entry j f (tickets (plane s))\<rparr>\<rparr>)"
  using assms by (auto simp: revoked_def hm_simps split: if_splits)

lemma revoked_cong:
  "revoked k s \<Longrightarrow> tickets (plane s') = tickets (plane s) \<Longrightarrow> minted s' = minted s \<Longrightarrow> revoked k s'"
  by (simp add: revoked_def)

lemma revoked_finish_inner: "revoked k s \<Longrightarrow> revoked k (s\<lparr>plane := finish_inner h r (plane s)\<rparr>)"
  by (auto simp: revoked_def finish_inner_def hm_simps split: option.splits if_splits)

lemma revoked_step: "plane_step s s' \<Longrightarrow> revoked k s \<Longrightarrow> revoked k s'"
proof (induction rule: plane_step.induct)
  case (ps_issue val s now agent c)
  then show ?case using revoked_sweep [OF ps_issue.prems, of now]
    by (auto simp: revoked_def issue_ticket_def Let_def hm_simps)
next
  case (ps_redeem now val s r p')
  then obtain f where p': "p' = (sweep now (plane s))\<lparr>tickets := AList.map_entry val f (tickets (sweep now (plane s)))\<rparr>"
    and f: "\<And>t. invalidated (f t) = invalidated t"
    by (auto simp: redeem_def Let_def split: option.splits if_splits)
  from revoked_map_entry [OF revoked_sweep [OF ps_redeem.prems, of now], of f val, OF f] show ?case
    by (rule revoked_cong) (simp_all add: p')
next
  case (ps_refuse now val s e p')
  then have "p' = sweep now (plane s)" by (auto simp: redeem_def Let_def split: option.splits if_splits)
  with revoked_sweep [OF ps_refuse.prems] show ?case by simp
next
  case (ps_start r s wall kind extra h p')
  then show ?case using register_session_frame(1) [OF ps_start.hyps(2) [unfolded start_with_fields_def]]
    by (auto intro: revoked_cong)
next
  case (ps_drop r s)
  have "revoked k (s\<lparr>plane := (plane s)\<lparr>tickets := AList.map_entry (r_ticket r)
      (\<lambda>t. t\<lparr>active_sessions := active_sessions t - 1, total_sessions := total_sessions t - 1\<rparr>) (tickets (plane s))\<rparr>\<rparr>)"
    by (rule revoked_map_entry [OF ps_drop.prems]) simp
  then show ?case by (rule revoked_cong) (simp_all add: drop_redemption_def)
next
  case (ps_endpoint now wall agent c ep kind extra s x p')
  from revoked_sweep [OF ps_endpoint.prems, of now] show ?case
    by (rule revoked_cong) (simp_all add: start_endpoint_tickets [OF ps_endpoint.hyps])
next
  case (ps_finish s h reason)
  from revoked_finish_inner [OF revoked_finish_inner [OF ps_finish]] show ?case by (simp add: finish_def)
qed (auto simp: revoked_def invalidate_tickets_def signal_session_def hm_simps)

interpretation revocation: invariant_system plane_step "revoked k" for k
  by unfold_locales (rule revoked_step)

subsection \<open>Properties\<close>

definition plane_start :: "duration \<Rightarrow> nat \<Rightarrow> nat \<Rightarrow> nat \<Rightarrow> plane_system" where
  "plane_start ttl pt ptt g = \<lparr>plane = new_data_plane ttl pt ptt g, pending = [], started = [], minted = []\<rparr>"

lemma plane_start_ok:
  "plane_ok (plane_start ttl pt ptt g) \<and> minted_ok (plane_start ttl pt ptt g) \<and>
   per_ticket (plane (plane_start ttl pt ptt g)) = pt \<and> per_ticket_total (plane (plane_start ttl pt ptt g)) = ptt"
  by (simp add: plane_start_def new_data_plane_def plane_ok_def minted_ok_def accounts_def on_ticket_def reserved_def
      ticket_values_def)

lemma plane_reaches_step: "reaches plane_step s0 s \<Longrightarrow> plane_step s t \<Longrightarrow> reaches plane_step s0 t"
  by (rule reaches_step)

lemma plane_reaches_once: "plane_step s t \<Longrightarrow> reaches plane_step s t"
  by (rule plane_reaches_step [OF reaches_refl])

definition sample_connection :: connection where
  "sample_connection = \<lparr>conn_id = 9, conn_name = [], conn_config =
     Ssh \<lparr>destination = None, ssh_host = [97], ssh_port = 22, ssh_user = [], host_key_fingerprint = []\<rparr>,
     conn_secrets = [], account = None, conn_oauth = None, conn_created_at = 0, conn_updated_at = 0\<rparr>"

definition ticketed_plane :: plane_system where
  "ticketed_plane = \<lparr>plane = issue_ticket 0 [7] [] sample_connection (new_data_plane 60 2 3 1),
     pending = [], started = [], minted = [[7]]\<rparr>"

lemma ticketed_plane_reachable: "reaches plane_step (plane_start 60 2 3 1) ticketed_plane"
proof -
  have "[7] \<notin> set (minted (plane_start 60 2 3 1))" by (simp add: plane_start_def)
  from plane_reaches_once [OF ps_issue [OF this, of 0 "[]" sample_connection]]
  show ?thesis by (simp add: plane_start_def ticketed_plane_def)
qed

text \<open>
  C1. A captured ticket opens a bounded number of sessions: in every interleaving of issuing,
  redeeming, dialing, failing, closing, revoking and sweeping, a ticket has at most
  \<open>per_ticket\<close> sessions live or reserved at any moment and starts at most
  \<open>per_ticket_total\<close> sessions ever; the two counters of a stored ticket are exact, so a failed dial
  gives its slot back and none is lost; and the ticket of a live session or open redemption is never
  swept.
\<close>

theorem ticket_budgets:
  assumes "reaches plane_step (plane_start ttl pt ptt g) s"
  shows "on_ticket k (plane s) + reserved k (pending s) \<le> pt \<and> count_list (started s) k \<le> ptt \<and>
    (case map_of (tickets (plane s)) k of
       Some t \<Rightarrow> active_sessions t = on_ticket k (plane s) + reserved k (pending s) \<and>
         total_sessions t = reserved k (pending s) + count_list (started s) k
     | None \<Rightarrow> on_ticket k (plane s) = 0 \<and> reserved k (pending s) = 0)"
proof -
  have ok: "plane_ok s" and caps: "per_ticket (plane s) = pt" "per_ticket_total (plane s) = ptt"
    using plane_life.reaches_inv [OF assms plane_start_ok] by auto
  note acc = plane_okD(3) [OF ok]
  show ?thesis
    using accountsD(1,2,4,5) [OF acc, of k] caps by (auto split: option.splits)
qed

theorem ticket_budgets_witness:
  "\<exists>r p1. redeem 0 [7] (plane ticketed_plane) = (Ok r, p1) \<and> on_ticket [7] p1 + reserved [7] [r] \<le> 2 \<and>
     map_option active_sessions (map_of (tickets p1) [7]) = Some (on_ticket [7] p1 + reserved [7] [r])"
proof -
  obtain r p1 t where r: "redeem 0 [7] (plane ticketed_plane) = (Ok r, p1)" and t: "map_of (tickets p1) [7] = Some t"
    by (simp add: ticketed_plane_def issue_ticket_def sweep_def new_data_plane_def hm_retain_def redeem_def)
  from ticket_budgets [OF plane_reaches_step [OF ticketed_plane_reachable ps_redeem [OF r]], of "[7]"] r t
  show ?thesis by (simp add: ticketed_plane_def)
qed

text \<open>
  The first cause of a close is kept: once a session's close cell holds a reason, no later event,
  broad revocations included, replaces it while the session exists.
\<close>

theorem first_close_reason_kept:
  assumes "plane_ok s" and "map_of (sessions (plane s)) i = Some e" and "close e = Some reason"
    and "reaches plane_step s s'" and "map_of (sessions (plane s')) i = Some e'"
  shows "close e' = Some reason"
proof -
  have "i \<le> next_session (plane s)"
    using assms(1,2) by (force simp: plane_ok_def dest: map_of_SomeD)
  then have "closed_with i reason s" using assms(2,3) by (simp add: closed_with_def)
  from close_cell.reaches_inv [OF assms(4) this] assms(5) show ?thesis by (simp add: closed_with_def)
qed

definition closing_plane :: plane_system where
  "closing_plane = \<lparr>plane = (new_data_plane 60 2 3 4)\<lparr>sessions := [(1, \<lparr>info = \<lparr>si_id = 1, si_kind = KindPg, si_agent = [],
       si_connection = [], si_detail = [], opened_at = 0\<rparr>, ticket = None, endpoint_id = Some 5, s_connection_id = 9,
       close = Some [1]\<rparr>)], next_session := 1\<rparr>, pending = [], started = [], minted = []\<rparr>"

theorem first_close_reason_kept_witness:
  "map_option close (map_of (sessions (plane (closing_plane\<lparr>plane := signal_session [2] 1 (plane closing_plane)\<rparr>))) 1)
   = Some (Some [1])"
proof -
  let ?e = "snd (hd (sessions (plane closing_plane)))"
  have "plane_ok closing_plane"
    by (simp add: closing_plane_def plane_ok_def hm_wf_def accounts_def on_ticket_def reserved_def new_data_plane_def)
  from first_close_reason_kept [OF this, of 1 ?e "[1]"
      "closing_plane\<lparr>plane := signal_session [2] 1 (plane closing_plane)\<rparr>" "signal_close [2] ?e"]
  show ?thesis
    by (simp add: plane_reaches_once [OF ps_signal] closing_plane_def signal_session_def signal_close_def)
qed

lemma map_of_signal_each:
  "map_of (sessions (signal_each reason is p)) j =
     (if j \<in> set is then map_option (signal_close reason) (map_of (sessions p) j) else map_of (sessions p) j)"
proof (induction "is" arbitrary: p)
  case (Cons i "is")
  have "signal_close reason (signal_close reason e) = signal_close reason e" for e by (simp add: signal_close_def)
  then have "map_option (signal_close reason) (map_option (signal_close reason) x) = map_option (signal_close reason) x" for x
    by (cases x) auto
  with Cons show ?case by (auto simp: signal_each_def map_of_signal_session)
qed (simp add: signal_each_def)

lemma signal_each_frame: "tickets (signal_each reason is p) = tickets p"
  by (induction "is" arbitrary: p) (auto simp: signal_each_def signal_session_def)

lemma mem_close_targets:
  assumes "hm_wf (sessions p)"
  shows "j \<in> set (close_targets P p) \<longleftrightarrow> (\<exists>e. map_of (sessions p) j = Some e \<and> P e)"
  using assms by (force simp: close_targets_def hm_wf_def map_of_eq_Some_iff)

lemma redeem_revoked:
  assumes "revoked k s"
  shows "fst (redeem now k (plane s)) \<in> {Err Expired, Err Unknown}"
  using revoked_sweep [OF assms, of now] by (auto simp: revoked_def redeem_def Let_def split: option.splits)

text \<open>
  C34. Withdrawing a connection reaches its tickets and sessions: \<open>close_connection_sessions\<close> signals
  every live session of that connection and no other, returns their number, and from then on, in
  every later state, redeeming a ticket issued for that connection is refused as expired or unknown.
\<close>

theorem close_connection_reaches_all:
  assumes "plane_ok s" and "minted_ok s"
    and "close_connection_sessions c reason (plane s) = (n, p')"
  shows "(\<forall>i. map_of (sessions p') i = map_option (\<lambda>e. if s_connection_id e = c then signal_close reason e else e)
        (map_of (sessions (plane s)) i)) \<and>
    n = length (filter (\<lambda>(_, e). s_connection_id e = c) (sessions (plane s))) \<and>
    (\<forall>k t s' now. map_of (tickets (plane s)) k = Some t \<longrightarrow> conn_id (tk_connection t) = c \<longrightarrow>
       reaches plane_step (s\<lparr>plane := p'\<rparr>) s' \<longrightarrow> fst (redeem now k (plane s')) \<in> {Err Expired, Err Unknown})"
proof -
  let ?q = "invalidate_tickets (\<lambda>k. conn_id k = c) (plane s)"
  let ?P = "\<lambda>s. s_connection_id s = c"
  have q: "sessions ?q = sessions (plane s)" by (simp add: invalidate_tickets_def)
  have p': "p' = signal_each reason (close_targets ?P ?q) ?q" and n: "n = length (close_targets ?P ?q)"
    using assms(3) by (auto simp: close_connection_sessions_def Let_def)
  have wf: "hm_wf (sessions ?q)" using plane_okD(1) [OF assms(1)] q by simp
  have "map_of (sessions p') i = map_option (\<lambda>e. if s_connection_id e = c then signal_close reason e else e)
      (map_of (sessions (plane s)) i)" for i
    using mem_close_targets [OF wf, of i ?P] q by (cases "map_of (sessions ?q) i") (auto simp: p' map_of_signal_each)
  moreover have "n = length (filter (\<lambda>(_, e). s_connection_id e = c) (sessions (plane s)))"
    by (simp add: n close_targets_def q)
  moreover have "fst (redeem now k (plane s')) \<in> {Err Expired, Err Unknown}"
    if t: "map_of (tickets (plane s)) k = Some t" "conn_id (tk_connection t) = c"
      and r: "reaches plane_step (s\<lparr>plane := p'\<rparr>) s'" for k t s' now
  proof -
    have "revoked k (s\<lparr>plane := p'\<rparr>)"
      using t assms(2) by (auto simp: revoked_def p' signal_each_frame invalidate_tickets_def hm_simps minted_ok_def
          ticket_values_def)
    then show ?thesis using revocation.reaches_inv [OF r] redeem_revoked by blast
  qed
  ultimately show ?thesis by blast
qed

lemma ticketed_plane_ok: "plane_ok ticketed_plane \<and> minted_ok ticketed_plane"
  by (simp add: ticketed_plane_def plane_ok_def minted_ok_def accounts_def on_ticket_def reserved_def new_data_plane_def
      issue_ticket_def sweep_def hm_retain_def ticket_values_def hm_wf_def)

theorem close_connection_reaches_all_witness:
  "fst (redeem 3 [7] (snd (close_connection_sessions 9 [1] (plane ticketed_plane)))) \<in> {Err Expired, Err Unknown}"
proof -
  have "map_of (tickets (plane ticketed_plane)) [7] =
      Some \<lparr>tk_agent = [], tk_connection = sample_connection, issued = 0, active_sessions = 0, total_sessions = 0,
        invalidated = False\<rparr>"
    by (simp add: ticketed_plane_def issue_ticket_def sweep_def new_data_plane_def hm_retain_def)
  moreover have "conn_id sample_connection = 9" by (simp add: sample_connection_def)
  moreover note close_connection_reaches_all [OF conjunct1 [OF ticketed_plane_ok] conjunct2 [OF ticketed_plane_ok],
      of 9 "[1]" "fst (close_connection_sessions 9 [1] (plane ticketed_plane))"
      "snd (close_connection_sessions 9 [1] (plane ticketed_plane))"]
  ultimately show ?thesis
    using reaches_refl [of plane_step
        "ticketed_plane\<lparr>plane := snd (close_connection_sessions 9 [1] (plane ticketed_plane))\<rparr>"]
    by fastforce
qed

text \<open>
  A redemption in flight escapes the broad closes: a task that redeemed its ticket before
  \<open>close_all\<close> (the shared key's rotation) and starts its session afterwards gets a live session whose
  close cell was never signalled.
\<close>

theorem redemption_escapes_close_all:
  assumes "redeem now k p = (Ok r, p1)" and "close_all reason p1 = (n, p2)"
    and "start_with_fields wall kind extra r p2 = (h, p3)"
  shows "\<exists>e. map_of (sessions p3) (h_id h) = Some e \<and> close e = None \<and> ticket e = Some k"
proof -
  have "r_ticket r = k" using assms(1) by (cases rule: redeem_cases) auto
  moreover note map_of_register [OF assms(3) [unfolded start_with_fields_def], of "h_id h"]
  moreover have "h_id h = next_session p2 + 1"
    using assms(3) by (auto simp: start_with_fields_def register_session_def Let_def)
  ultimately show ?thesis by simp
qed

theorem redemption_escapes_close_all_witness:
  "\<exists>r p1 h p3 e. redeem 5 [7] (plane ticketed_plane) = (Ok r, p1) \<and>
     start_with_fields 0 KindSsh [] r (snd (close_all [1] p1)) = (h, p3) \<and>
     map_of (sessions p3) (h_id h) = Some e \<and> close e = None"
proof -
  obtain r p1 where r: "redeem 5 [7] (plane ticketed_plane) = (Ok r, p1)"
    by (simp add: ticketed_plane_def issue_ticket_def sweep_def new_data_plane_def hm_retain_def redeem_def)
  obtain h p3 where h: "start_with_fields 0 KindSsh [] r (snd (close_all [1] p1)) = (h, p3)" by fastforce
  from redemption_escapes_close_all [OF r _ h, of "[1]" "fst (close_all [1] p1)"] r h show ?thesis by auto
qed

text \<open>
  The broker-wide backstop is not a bound: redemptions check it against the sessions already
  registered, not against those still being dialed, so with a backstop of one, two redemptions of
  one ticket both pass and both start.
\<close>

theorem global_backstop_exceeded:
  "\<exists>s. reaches plane_step (plane_start 60 2 3 1) s \<and> length (sessions (plane s)) = 2 \<and> global (plane s) = 1"
proof -
  let ?s0 = "plane_start 60 2 3 1"
  note s1 = ticketed_plane_reachable
  obtain r p1 where r1: "redeem 0 [7] (plane ticketed_plane) = (Ok r, p1)"
    and p1: "tickets p1 = [([7], \<lparr>tk_agent = [], tk_connection = sample_connection, issued = 0, active_sessions = 1,
        total_sessions = 1, invalidated = False\<rparr>)]" "sessions p1 = []" "global p1 = 1" "per_ticket p1 = 2"
        "per_ticket_total p1 = 3" "next_session p1 = 0" "ticket_ttl p1 = 60"
    by (simp add: ticketed_plane_def issue_ticket_def sweep_def new_data_plane_def hm_retain_def redeem_def)
  obtain p2 where r2: "redeem 0 [7] p1 = (Ok r, p2)"
    and p2: "sessions p2 = []" "global p2 = 1" "next_session p2 = 0"
    using r1 by (simp add: ticketed_plane_def issue_ticket_def sweep_def new_data_plane_def hm_retain_def redeem_def) (auto simp: hm_retain_def)
  let ?t1 = "ticketed_plane\<lparr>plane := p1, pending := [r]\<rparr>"
  let ?t2 = "ticketed_plane\<lparr>plane := p2, pending := [r, r]\<rparr>"
  have t2: "reaches plane_step ?s0 ?t2"
    using plane_reaches_step [OF plane_reaches_step [OF s1 ps_redeem [OF r1]], of "?t2"] ps_redeem [of 0 "[7]" ?t1 r p2] r2
    by (simp add: ticketed_plane_def)
  obtain h1 p3 where h1: "start_with_fields 0 KindSsh [] r p2 = (h1, p3)" by fastforce
  obtain h2 p4 where h2: "start_with_fields 0 KindSsh [] r p3 = (h2, p4)" by fastforce
  let ?t3 = "?t2\<lparr>plane := p3, pending := [r], started := [r_ticket r]\<rparr>"
  let ?t4 = "?t3\<lparr>plane := p4, pending := [], started := [r_ticket r, r_ticket r]\<rparr>"
  have "plane_step ?t2 ?t3" using ps_start [of r ?t2 0 KindSsh "[]" h1 p3] h1 by (simp add: ticketed_plane_def)
  moreover have "plane_step ?t3 ?t4" using ps_start [of r ?t3 0 KindSsh "[]" h2 p4] h2 by simp
  ultimately have "reaches plane_step ?s0 ?t4" using t2 plane_reaches_step by blast
  moreover have "length (sessions p4) = 2 \<and> global p4 = 1"
    using h1 h2 p2 by (auto simp: start_with_fields_def register_session_def Let_def)
  ultimately show ?thesis by fastforce
qed

end
