(* ===== verification/UntrustedText.thy ===== *)
theory UntrustedText
  imports RustStr
begin

text \<open>
  Display-safe treatment of agent- and upstream-controlled text,
  \<^verbatim>\<open>crates/aka-core/src/untrusted_text.rs\<close>, and the prompt caps of \<^verbatim>\<open>approvals.rs\<close>
  built on it. A \<open>char\<close> is a code point.
\<close>

definition in_range :: "uchar \<Rightarrow> uchar \<Rightarrow> uchar \<Rightarrow> bool" where
  "in_range lo hi c \<longleftrightarrow> lo \<le> c \<and> c \<le> hi"

definition is_invisible_format :: "uchar \<Rightarrow> bool" where
  "is_invisible_format c \<longleftrightarrow>
     c = 0xAD \<or> in_range 0x600 0x605 c \<or> c = 0x61C \<or> c = 0x6DD \<or> c = 0x70F \<or> in_range 0x890 0x891 c \<or>
     c = 0x8E2 \<or> in_range 0x115F 0x1160 c \<or> in_range 0x17B4 0x17B5 c \<or> c = 0x180E \<or>
     in_range 0x200B 0x200F c \<or> in_range 0x202A 0x202E c \<or> in_range 0x2060 0x206F c \<or> c = 0x3164 \<or>
     c = 0xFEFF \<or> c = 0xFFA0 \<or> in_range 0xFFF9 0xFFFB c \<or> c = 0x110BD \<or> c = 0x110CD \<or>
     in_range 0x13430 0x1343F c \<or> in_range 0x1BCA0 0x1BCA3 c \<or> in_range 0x1D173 0x1D17A c \<or>
     in_range 0xE0000 0xE007F c"

text \<open>\<open>char::is_control\<close>: general category Cc.\<close>

definition is_control :: "uchar \<Rightarrow> bool" where
  "is_control c \<longleftrightarrow> c < 32 \<or> in_range 127 159 c"

definition display_char :: "uchar \<Rightarrow> uchar" where
  "display_char c =
     (if is_invisible_format c \<or> (is_control c \<and> c \<noteq> 10 \<and> c \<noteq> 9) then 0xFFFD else c)"

definition sanitize :: "ustring \<Rightarrow> ustring" where
  "sanitize text = map display_char text"

definition cap :: "ustring \<Rightarrow> nat \<Rightarrow> ustring" where
  "cap text limit = map display_char (take limit text) @ (if limit < length text then [0x2026] else [])"

definition APPROVAL_TEXT_CAP :: nat where
  "APPROVAL_TEXT_CAP = 400"

definition cap_approval_text :: "ustring \<Rightarrow> ustring" where
  "cap_approval_text text = cap text APPROVAL_TEXT_CAP"

definition capped_text :: "ustring \<Rightarrow> ustring" where
  "capped_text text = (if APPROVAL_TEXT_CAP < length text then take APPROVAL_TEXT_CAP text @ [0x2026] else text)"

subsection \<open>Lemmas\<close>

definition displayable :: "uchar \<Rightarrow> bool" where
  "displayable c \<longleftrightarrow> \<not> is_invisible_format c \<and> (is_control c \<longrightarrow> c = 10 \<or> c = 9)"

lemma display_char_eq: "display_char c = (if displayable c then c else 0xFFFD)"
  by (auto simp: displayable_def display_char_def)

lemma replacement_displayable: "displayable 0xFFFD"
  by (simp add: displayable_def is_invisible_format_def is_control_def in_range_def)

lemma display_char_displayable: "displayable (display_char c)"
  using replacement_displayable by (simp add: display_char_eq)

lemma display_char_id: "displayable c \<Longrightarrow> display_char c = c"
  by (simp add: display_char_eq)

lemma ellipsis_displayable: "displayable 0x2026"
  by (simp add: displayable_def is_invisible_format_def is_control_def in_range_def)

lemma length_cap: "length (cap text limit) \<le> limit + 1"
  by (simp add: cap_def)

lemma cap_displayable: "list_all displayable (cap text limit)"
  by (auto simp: cap_def list_all_iff display_char_displayable ellipsis_displayable)

subsection \<open>Properties\<close>

text \<open>
  What a prompt shows cannot be visually rewritten: a capped text holds no invisible format
  character and no control character other than newline and tab, is at most one character longer than
  the limit, keeps every ordinary character in its place, and is the text itself when that is
  ordinary and within the limit.
\<close>

theorem cap_display_safe:
  "list_all displayable (cap text limit) \<and> length (cap text limit) \<le> limit + 1 \<and>
   (\<forall>i < min limit (length text). cap text limit ! i = display_char (text ! i)) \<and>
   (list_all displayable text \<and> length text \<le> limit \<longrightarrow> cap text limit = text)"
proof (intro conjI allI impI)
  show "cap text limit ! i = display_char (text ! i)" if "i < min limit (length text)" for i
    using that by (simp add: cap_def nth_append)
  show "cap text limit = text" if "list_all displayable text \<and> length text \<le> limit"
    using that by (simp add: cap_def list_all_iff display_char_id map_idI)
qed (rule cap_displayable length_cap)+

theorem cap_display_safe_witness:
  "cap [72, 105] 5 = [72, 105] \<and> length (cap [0x202E, 65, 66] 2) \<le> 2 + 1"
  using cap_display_safe [of "[72, 105]" 5] cap_display_safe [of "[0x202E, 65, 66]" 2]
  by (simp add: displayable_def is_invisible_format_def is_control_def in_range_def)

end
