(* ===== verification/RequestHistory.thy ===== *)
theory RequestHistory
  imports CoreTypes "HOL-Library.Product_Lexorder"
begin

text \<open>
  The bounded history of human decisions, \<^verbatim>\<open>crates/aka-core/src/request_history.rs\<close>, with the prompt
  records of \<^verbatim>\<open>approvals.rs\<close> and \<^verbatim>\<open>elicitations.rs\<close> it is built from. The wall clock of an
  operation is its argument.
\<close>

subsection \<open>Prompts\<close>

datatype approval_unit = UnitRequest | UnitTool | UnitSession | UnitLogin | UnitHostKey

definition unit_as_str :: "approval_unit \<Rightarrow> ustring" where
  "unit_as_str u = (case u of
       UnitRequest \<Rightarrow> ascii ''request'' | UnitTool \<Rightarrow> ascii ''tool'' | UnitSession \<Rightarrow> ascii ''session''
     | UnitLogin \<Rightarrow> ascii ''login'' | UnitHostKey \<Rightarrow> ascii ''host_key'')"

record pending_approval =
  pa_id :: uuid
  pa_connection_id :: uuid
  pa_connection :: ustring
  pa_kind :: connection_kind
  pa_unit :: approval_unit
  pa_target :: ustring
  pa_agent :: ustring
  pa_summary :: ustring
  pa_detail :: "ustring option"
  pa_credential_names :: "ustring list"
  pa_method :: "ustring option"
  pa_path :: "ustring option"
  pa_host_key_fingerprint :: "ustring option"
  pa_consequence :: "ustring option"
  pa_waiting :: nat
  pa_requested_at :: datetime
  pa_expires_at :: datetime
  pa_window_secs :: nat

record elicitation_field =
  ef_name :: ustring
  ef_label :: ustring
  ef_required :: bool
  ef_boolean :: bool
  ef_options :: "ustring list option"

record pending_elicitation =
  pe_id :: uuid
  pe_connection_id :: uuid
  pe_connection :: ustring
  pe_agent :: ustring
  pe_tool :: ustring
  pe_message :: ustring
  pe_fields :: "elicitation_field list"
  pe_credential_warning :: bool
  pe_requested_at :: datetime
  pe_expires_at :: datetime

subsection \<open>Records\<close>

datatype request_kind = ApprovalKind | ElicitationKind

datatype request_status = StPending | StApproved | StDenied | StExpired | StRevoked | StUnavailable | StAbandoned

datatype request_resolution =
    ApprovedForWindow | ApprovedAll | Denied | TimedOut | PolicyChanged | NoSurface
  | ConfirmationDisabled | Waived | CallerDisconnected | InputProvided | InputRefused

definition resolution_status :: "request_resolution \<Rightarrow> request_status" where
  "resolution_status r = (case r of
       ApprovedForWindow \<Rightarrow> StApproved | ApprovedAll \<Rightarrow> StApproved | ConfirmationDisabled \<Rightarrow> StApproved
     | Waived \<Rightarrow> StApproved | InputProvided \<Rightarrow> StApproved
     | Denied \<Rightarrow> StDenied | InputRefused \<Rightarrow> StDenied
     | TimedOut \<Rightarrow> StExpired | PolicyChanged \<Rightarrow> StRevoked | NoSurface \<Rightarrow> StUnavailable
     | CallerDisconnected \<Rightarrow> StAbandoned)"

record request_record =
  rr_id :: uuid
  rr_kind :: request_kind
  rr_status :: request_status
  rr_connection_id :: "uuid option"
  rr_connection :: ustring
  rr_connection_kind :: "connection_kind option"
  rr_unit :: "approval_unit option"
  rr_target :: "ustring option"
  rr_agent :: ustring
  rr_summary :: ustring
  rr_detail :: "ustring option"
  rr_credential_names :: "ustring list"
  rr_method :: "ustring option"
  rr_path :: "ustring option"
  rr_host_key_fingerprint :: "ustring option"
  rr_waiting :: nat
  rr_requested_at :: datetime
  rr_expires_at :: "datetime option"
  rr_resolved_at :: "datetime option"
  rr_resolution :: "request_resolution option"
  rr_window_secs :: "nat option"

definition record_of_approval :: "pending_approval \<Rightarrow> request_record" where
  "record_of_approval p =
     \<lparr>rr_id = pa_id p, rr_kind = ApprovalKind, rr_status = StPending, rr_connection_id = Some (pa_connection_id p),
      rr_connection = pa_connection p, rr_connection_kind = Some (pa_kind p), rr_unit = Some (pa_unit p),
      rr_target = Some (pa_target p), rr_agent = pa_agent p, rr_summary = pa_summary p, rr_detail = pa_detail p,
      rr_credential_names = pa_credential_names p, rr_method = pa_method p, rr_path = pa_path p,
      rr_host_key_fingerprint = pa_host_key_fingerprint p, rr_waiting = pa_waiting p,
      rr_requested_at = pa_requested_at p, rr_expires_at = Some (pa_expires_at p), rr_resolved_at = None,
      rr_resolution = None, rr_window_secs = Some (pa_window_secs p)\<rparr>"

definition record_of_elicitation :: "pending_elicitation \<Rightarrow> request_record" where
  "record_of_elicitation p =
     \<lparr>rr_id = pe_id p, rr_kind = ElicitationKind, rr_status = StPending, rr_connection_id = Some (pe_connection_id p),
      rr_connection = pe_connection p, rr_connection_kind = None, rr_unit = None, rr_target = None,
      rr_agent = pe_agent p, rr_summary = pe_tool p, rr_detail = Some (pe_message p), rr_credential_names = [],
      rr_method = None, rr_path = None, rr_host_key_fingerprint = None, rr_waiting = 1,
      rr_requested_at = pe_requested_at p, rr_expires_at = Some (pe_expires_at p), rr_resolved_at = None,
      rr_resolution = None, rr_window_secs = None\<rparr>"

type_synonym history = "request_record list"

subsection \<open>Pruning\<close>

definition TERMINAL_RETENTION :: int where
  "TERMINAL_RETENTION = 7 * 24 * 60 * 60 * 1000000000"

definition TERMINAL_CAP :: nat where
  "TERMINAL_CAP = 500"

definition terminal :: "request_record \<Rightarrow> bool" where
  "terminal r \<longleftrightarrow> rr_status r \<noteq> StPending"

definition changed_at :: "request_record \<Rightarrow> datetime" where
  "changed_at r = (case rr_resolved_at r of Some t \<Rightarrow> t | None \<Rightarrow> rr_requested_at r)"

text \<open>\<open>min_by_key\<close> over the terminal records: the first of the oldest, with its index.\<close>

fun oldest_terminal :: "history \<Rightarrow> (nat \<times> datetime) option" where
  "oldest_terminal [] = None"
| "oldest_terminal (r # rs) =
     (case oldest_terminal rs of
        None \<Rightarrow> if terminal r then Some (0, changed_at r) else None
      | Some (i, t) \<Rightarrow>
          if terminal r \<and> changed_at r \<le> t then Some (0, changed_at r) else Some (Suc i, t))"

definition remove_index :: "nat \<Rightarrow> 'a list \<Rightarrow> 'a list" where
  "remove_index i xs = take i xs @ drop (Suc i) xs"

text \<open>The loop \<open>while terminal_count > TERMINAL_CAP\<close>, given how many records it has to remove.\<close>

fun prune_excess :: "nat \<Rightarrow> history \<Rightarrow> history" where
  "prune_excess 0 rs = rs"
| "prune_excess (Suc n) rs =
     (case oldest_terminal rs of None \<Rightarrow> rs | Some (i, _) \<Rightarrow> prune_excess n (remove_index i rs))"

definition prune :: "datetime \<Rightarrow> history \<Rightarrow> history" where
  "prune now rs =
     (let cutoff = now - TERMINAL_RETENTION;
          rs = filter (\<lambda>r. rr_status r = StPending \<or>
                 (case rr_resolved_at r of None \<Rightarrow> True | Some t \<Rightarrow> t \<ge> cutoff)) rs;
          terminal_count = length (filter terminal rs) in
      prune_excess (terminal_count - TERMINAL_CAP) rs)"

subsection \<open>Operations\<close>

definition record_request :: "datetime \<Rightarrow> request_record \<Rightarrow> history \<Rightarrow> history" where
  "record_request now r rs =
     (if list_ex (\<lambda>x. rr_id x = rr_id r) rs then rs else prune now (rs @ [r]))"

definition record_approval :: "datetime \<Rightarrow> pending_approval \<Rightarrow> history \<Rightarrow> history" where
  "record_approval now p rs = record_request now (record_of_approval p) rs"

definition record_elicitation :: "datetime \<Rightarrow> pending_elicitation \<Rightarrow> history \<Rightarrow> history" where
  "record_elicitation now p rs = record_request now (record_of_elicitation p) rs"

definition update_approval :: "pending_approval \<Rightarrow> history \<Rightarrow> history" where
  "update_approval p rs =
     update_first (\<lambda>r. rr_id r = pa_id p \<and> rr_status r = StPending)
       (\<lambda>r. r\<lparr>rr_waiting := pa_waiting p, rr_expires_at := Some (pa_expires_at p)\<rparr>) rs"

definition resolve_at :: "uuid \<Rightarrow> request_resolution \<Rightarrow> datetime \<Rightarrow> history \<Rightarrow> bool \<times> history" where
  "resolve_at i res now rs =
     (case List.find (\<lambda>r. rr_id r = i \<and> rr_status r = StPending) rs of
        None \<Rightarrow> (False, rs)
      | Some _ \<Rightarrow>
          (True, prune now (update_first (\<lambda>r. rr_id r = i \<and> rr_status r = StPending)
            (\<lambda>r. r\<lparr>rr_status := resolution_status res, rr_resolution := Some res, rr_resolved_at := Some now\<rparr>) rs)))"

definition records :: "datetime \<Rightarrow> history \<Rightarrow> request_record list \<times> history" where
  "records now rs =
     (let rs = prune now rs in
      (sort_key (\<lambda>r. (- changed_at r, - rr_requested_at r, - uint (rr_id r))) rs, rs))"

subsection \<open>Pruning keeps what is pending and bounds the rest\<close>

lemma oldest_terminal_nth:
  "oldest_terminal rs = Some (i, t) \<Longrightarrow> i < length rs \<and> terminal (rs ! i)"
proof (induction rs arbitrary: i t)
  case (Cons r rs)
  show ?case
  proof (cases "oldest_terminal rs")
    case None
    with Cons.prems show ?thesis by (auto split: if_splits)
  next
    case (Some jt)
    obtain j u where jt: "jt = (j, u)" by (cases jt)
    have "j < length rs \<and> terminal (rs ! j)" using Cons.IH Some jt by simp
    with Cons.prems Some jt show ?thesis by (auto split: if_splits)
  qed
qed simp

lemma oldest_terminal_None: "oldest_terminal rs = None \<longleftrightarrow> filter terminal rs = []"
  by (induction rs) (auto split: option.splits prod.splits if_splits)

lemma remove_index_terminal:
  assumes "i < length rs" and "terminal (rs ! i)"
  shows "filter (\<lambda>r. \<not> terminal r) (remove_index i rs) = filter (\<lambda>r. \<not> terminal r) rs"
    and "Suc (length (filter terminal (remove_index i rs))) = length (filter terminal rs)"
proof -
  have rs: "rs = take i rs @ rs ! i # drop (Suc i) rs" using assms(1) by (rule id_take_nth_drop)
  have "filter P rs = filter P (take i rs) @ (if P (rs ! i) then [rs ! i] else []) @ filter P (drop (Suc i) rs)" for P
    by (subst rs) simp
  then show "filter (\<lambda>r. \<not> terminal r) (remove_index i rs) = filter (\<lambda>r. \<not> terminal r) rs"
    and "Suc (length (filter terminal (remove_index i rs))) = length (filter terminal rs)"
    using assms(2) by (simp_all add: remove_index_def)
qed

lemma remove_index_sub: "set (remove_index i rs) \<subseteq> set rs"
  using set_take_subset [of i rs] set_drop_subset [of "Suc i" rs] by (auto simp: remove_index_def)

lemma remove_index_distinct: "distinct (map f rs) \<Longrightarrow> distinct (map f (remove_index i rs))"
proof -
  assume d: "distinct (map f rs)"
  have "set (take i rs) \<inter> set (drop (Suc i) rs) = {}"
    using d set_take_disj_set_drop_if_distinct [of rs i "Suc i"] by (auto simp: distinct_map)
  with d show ?thesis
    unfolding remove_index_def map_append distinct_append take_map [symmetric] drop_map [symmetric]
    using set_take_disj_set_drop_if_distinct [of "map f rs" i "Suc i"] by (auto simp: distinct_take distinct_drop)
qed

lemma prune_excess_props:
  "filter (\<lambda>r. \<not> terminal r) (prune_excess n rs) = filter (\<lambda>r. \<not> terminal r) rs \<and>
   length (filter terminal (prune_excess n rs)) = length (filter terminal rs) - n \<and>
   set (prune_excess n rs) \<subseteq> set rs \<and>
   (distinct (map rr_id rs) \<longrightarrow> distinct (map rr_id (prune_excess n rs)))"
proof (induction n arbitrary: rs)
  case (Suc n)
  show ?case
  proof (cases "oldest_terminal rs")
    case None
    then have "filter terminal rs = []" by (simp add: oldest_terminal_None)
    with None show ?thesis by simp
  next
    case (Some it)
    obtain i t where it: "it = (i, t)" by (cases it)
    note nth = oldest_terminal_nth [OF Some [unfolded it]]
    have "filter (\<lambda>r. \<not> terminal r) (remove_index i rs) = filter (\<lambda>r. \<not> terminal r) rs"
      and l: "length (filter terminal (remove_index i rs)) = length (filter terminal rs) - 1"
      using remove_index_terminal [of i rs] nth by auto
    with Suc.IH [of "remove_index i rs"] remove_index_sub [of i rs] remove_index_distinct [of rr_id rs i] Some it
    show ?thesis by auto
  qed
qed simp

lemma prune_props:
  "filter (\<lambda>r. \<not> terminal r) (prune now rs) = filter (\<lambda>r. \<not> terminal r) rs"
  "length (filter terminal (prune now rs)) \<le> TERMINAL_CAP"
  "set (prune now rs) \<subseteq> set rs"
  "distinct (map rr_id rs) \<Longrightarrow> distinct (map rr_id (prune now rs))"
proof -
  let ?K = "\<lambda>r. rr_status r = StPending \<or>
      (case rr_resolved_at r of None \<Rightarrow> True | Some t \<Rightarrow> t \<ge> now - TERMINAL_RETENTION)"
  let ?rs = "filter ?K rs"
  have p: "prune now rs = prune_excess (length (filter terminal ?rs) - TERMINAL_CAP) ?rs"
    by (simp add: prune_def Let_def)
  note e = prune_excess_props [of "length (filter terminal ?rs) - TERMINAL_CAP" ?rs]
  have "filter (\<lambda>r. \<not> terminal r) ?rs = filter (\<lambda>r. \<not> terminal r) rs"
    unfolding filter_filter by (rule filter_cong) (auto simp: terminal_def)
  with e show "filter (\<lambda>r. \<not> terminal r) (prune now rs) = filter (\<lambda>r. \<not> terminal r) rs" by (simp add: p)
  show "length (filter terminal (prune now rs)) \<le> TERMINAL_CAP" using e by (simp add: p)
  show "set (prune now rs) \<subseteq> set rs" using e by (auto simp: p)
  show "distinct (map rr_id rs) \<Longrightarrow> distinct (map rr_id (prune now rs))"
    using e by (simp add: p distinct_map_filter)
qed

subsection \<open>The life of the history\<close>

text \<open>The history with the identifiers recorded so far; a recorded request has a new UUID.\<close>

inductive history_step :: "history \<times> uuid list \<Rightarrow> history \<times> uuid list \<Rightarrow> bool" where
  hs_record: "rr_status r = StPending \<Longrightarrow> rr_id r \<notin> set used \<Longrightarrow>
    history_step (rs, used) (record_request now r rs, rr_id r # used)"
| hs_update: "history_step (rs, used) (update_approval p rs, used)"
| hs_resolve: "history_step (rs, used) (snd (resolve_at i res now rs), used)"
| hs_records: "history_step (rs, used) (snd (records now rs), used)"

definition history_ok :: "history \<times> uuid list \<Rightarrow> bool" where
  "history_ok = (\<lambda>(rs, used). distinct (map rr_id rs) \<and> rr_id ` set rs \<subseteq> set used \<and>
     length (filter terminal rs) \<le> TERMINAL_CAP)"

definition settled :: "request_record \<Rightarrow> history \<times> uuid list \<Rightarrow> bool" where
  "settled r = (\<lambda>(rs, used). rr_id r \<in> set used \<and> (\<forall>x\<in>set rs. rr_id x = rr_id r \<longrightarrow> x = r))"

lemma history_ok_prune:
  assumes "distinct (map rr_id rs)" and "rr_id ` set rs \<subseteq> set used"
  shows "history_ok (prune now rs, used)"
  using assms prune_props [where now = now and rs = rs] by (auto simp: history_ok_def)

lemma map_eq_imp_image_eq: "map f xs = map f ys \<Longrightarrow> f ` set xs = f ` set ys"
  unfolding set_map [symmetric] by (rule arg_cong)

lemma history_ok_step: "history_step s s' \<Longrightarrow> history_ok s \<Longrightarrow> history_ok s'"
proof (induction rule: history_step.induct)
  case (hs_record r used rs now)
  have "history_ok (prune now (rs @ [r]), rr_id r # used)"
    using hs_record by (intro history_ok_prune) (auto simp: history_ok_def)
  with hs_record show ?case by (auto simp: record_request_def history_ok_def)
next
  case (hs_update rs used p)
  have "map rr_id (update_approval p rs) = map rr_id rs"
    unfolding update_approval_def by (rule map_update_first) simp
  moreover have "length (filter terminal (update_approval p rs)) = length (filter terminal rs)"
    unfolding update_approval_def by (rule length_filter_update_first) (simp add: terminal_def)
  moreover note map_eq_imp_image_eq [OF calculation(1)]
  ultimately show ?case using hs_update by (simp add: history_ok_def)
next
  case (hs_resolve rs used i res now)
  let ?f = "\<lambda>r. r\<lparr>rr_status := resolution_status res, rr_resolution := Some res, rr_resolved_at := Some now\<rparr>"
  let ?rs = "update_first (\<lambda>r. rr_id r = i \<and> rr_status r = StPending) ?f rs"
  have "map rr_id ?rs = map rr_id rs" by (rule map_update_first) simp
  moreover note map_eq_imp_image_eq [OF this]
  ultimately have "history_ok (prune now ?rs, used)"
    using hs_resolve by (intro history_ok_prune) (auto simp: history_ok_def)
  with hs_resolve show ?case by (auto simp: resolve_at_def split: option.splits)
next
  case (hs_records rs used now)
  then show ?case using history_ok_prune [of rs used now] by (simp add: records_def Let_def history_ok_def)
qed

lemma settled_sub: "settled r (rs, used) \<Longrightarrow> set rs' \<subseteq> set rs \<Longrightarrow> settled r (rs', used)"
  by (auto simp: settled_def)

lemma settled_update_first:
  assumes "settled r (rs, used)" and "terminal r" and "\<And>x. P x \<Longrightarrow> \<not> terminal x" and "\<And>x. rr_id (f x) = rr_id x"
  shows "settled r (update_first P f rs, used)"
  using assms set_update_first [of P f rs] by (fastforce simp: settled_def)

lemma settled_step: "history_step s s' \<Longrightarrow> terminal r \<Longrightarrow> settled r s \<Longrightarrow> settled r s'"
proof (induction rule: history_step.induct)
  case (hs_record x used rs now)
  have "settled r (rs @ [x], rr_id x # used)" using hs_record by (auto simp: settled_def)
  then have "settled r (prune now (rs @ [x]), rr_id x # used)" by (rule settled_sub) (rule prune_props)
  with hs_record show ?case by (auto simp: record_request_def settled_def)
next
  case (hs_update rs used p)
  then show ?case by (auto simp: update_approval_def terminal_def [of "_"] intro!: settled_update_first)
next
  case (hs_resolve rs used i res now)
  let ?P = "\<lambda>r. rr_id r = i \<and> rr_status r = StPending"
  let ?f = "\<lambda>r. r\<lparr>rr_status := resolution_status res, rr_resolution := Some res, rr_resolved_at := Some now\<rparr>"
  have "settled r (update_first ?P ?f rs, used)"
    by (rule settled_update_first [OF hs_resolve(2,1)]) (auto simp: terminal_def)
  then have "settled r (prune now (update_first ?P ?f rs), used)" by (rule settled_sub) (rule prune_props)
  with hs_resolve show ?case by (auto simp: resolve_at_def split: option.splits)
next
  case (hs_records rs used now)
  then show ?case using settled_sub [OF hs_records(2) prune_props(3)] by (simp add: records_def Let_def)
qed

interpretation history_life: invariant_system history_step history_ok
  by unfold_locales (rule history_ok_step)

interpretation disposition: invariant_system history_step "\<lambda>s. terminal r \<and> settled r s" for r
  by unfold_locales (auto intro: settled_step)

subsection \<open>Properties\<close>

text \<open>
  A disposition shown to the user is never rewritten and the history stays bounded: from the empty
  history, under any sequence of recording, refreshing, resolving and listing, at most 500 terminal
  records are kept, every id occurs once, and a record that has reached a terminal status is, as long
  as it is kept, the identical record in every later state.
\<close>

theorem history_resolves_once:
  assumes "reaches history_step ([], []) (rs, used)" and "r \<in> set rs" and "rr_status r \<noteq> StPending"
    and "reaches history_step (rs, used) (rs', used')" and "r' \<in> set rs'" and "rr_id r' = rr_id r"
  shows "r' = r \<and> distinct (map rr_id rs') \<and> length (filter terminal rs') \<le> 500"
proof -
  have ok: "history_ok (rs, used)"
    using history_life.reaches_inv [OF assms(1)] by (simp add: history_ok_def TERMINAL_CAP_def)
  then have "terminal r \<and> settled r (rs, used)"
    using assms(2,3) by (auto simp: terminal_def settled_def history_ok_def distinct_map dest: inj_onD)
  from disposition.reaches_inv [OF assms(4) this] history_life.reaches_inv [OF assms(4) ok] assms(5,6)
  show ?thesis by (auto simp: settled_def history_ok_def TERMINAL_CAP_def)
qed

definition sample_record :: request_record where
  "sample_record = record_of_elicitation \<lparr>pe_id = 1, pe_connection_id = 2, pe_connection = [], pe_agent = [],
     pe_tool = [], pe_message = [], pe_fields = [], pe_credential_warning = False, pe_requested_at = 0,
     pe_expires_at = 0\<rparr>"

definition resolved_record :: request_record where
  "resolved_record = sample_record\<lparr>rr_status := StDenied, rr_resolution := Some Denied, rr_resolved_at := Some 5\<rparr>"

theorem history_resolves_once_witness:
  "snd (resolve_at 1 TimedOut 9 [resolved_record]) = [resolved_record]"
proof -
  have rec: "record_request 0 sample_record [] = [sample_record]"
    by (simp add: record_request_def prune_def Let_def sample_record_def record_of_elicitation_def terminal_def)
  have res: "snd (resolve_at 1 Denied 5 [sample_record]) = [resolved_record]"
    by (simp add: resolve_at_def sample_record_def record_of_elicitation_def resolved_record_def prune_def Let_def
        TERMINAL_RETENTION_def TERMINAL_CAP_def resolution_status_def)
  have i: "rr_id sample_record = 1" "rr_status sample_record = StPending"
    by (simp_all add: sample_record_def record_of_elicitation_def)
  have "history_step ([], []) ([sample_record], [1])"
    using hs_record [of sample_record "[]" "[]" 0] rec i by simp
  moreover have "history_step ([sample_record], [1]) ([resolved_record], [1])"
    using hs_resolve [of "[sample_record]" "[1]" 1 Denied 5] res by simp
  ultimately have "reaches history_step ([], []) ([resolved_record], [1])"
    by (meson reaches_refl reaches_step)
  moreover have "reaches history_step ([resolved_record], [1]) (snd (resolve_at 1 TimedOut 9 [resolved_record]), [1])"
    by (meson reaches_refl reaches_step hs_resolve)
  moreover have "rr_id resolved_record = 1" "rr_status resolved_record \<noteq> StPending"
    using i by (simp_all add: resolved_record_def)
  moreover obtain r' where l: "snd (resolve_at 1 TimedOut 9 [resolved_record]) = [r']" and "rr_id r' = 1"
    by (simp add: resolve_at_def resolved_record_def sample_record_def record_of_elicitation_def prune_def Let_def
        TERMINAL_RETENTION_def TERMINAL_CAP_def)
  ultimately show ?thesis
    using history_resolves_once [of "[resolved_record]" "[1]" resolved_record
        "snd (resolve_at 1 TimedOut 9 [resolved_record])" "[1]" r'] by simp
qed

end
