(* ===== verification/AuditEntry.thy ===== *)
theory AuditEntry
  imports CoreTypes "HOL-Library.List_Lexorder"
begin

text \<open>
  One record of the activity log, \<^verbatim>\<open>crates/aka-core/src/audit.rs\<close>: its kinds with their presentation, the
  decision attribution of \<^verbatim>\<open>types.rs\<close>, the entry and its builders. Field values are JSON values
  (\<open>serde_json::Value\<close>); a JSON number is kept as its text. The \<open>mac\<close> of an entry is the UTF-8 of
  its string.
\<close>

subsection \<open>JSON values\<close>

datatype json =
    JNull
  | JBool bool
  | JNumber ustring
  | JString ustring
  | JArray "json list"
  | JObject "(ustring \<times> json) list"

definition json_get :: "json \<Rightarrow> ustring \<Rightarrow> json option" where
  "json_get j k = (case j of JObject kvs \<Rightarrow> map_of kvs k | _ \<Rightarrow> None)"

definition json_as_str :: "json \<Rightarrow> ustring option" where
  "json_as_str j = (case j of JString s \<Rightarrow> Some s | _ \<Rightarrow> None)"

definition json_as_bool :: "json \<Rightarrow> bool option" where
  "json_as_bool j = (case j of JBool b \<Rightarrow> Some b | _ \<Rightarrow> None)"

definition json_as_array :: "json \<Rightarrow> json list option" where
  "json_as_array j = (case j of JArray xs \<Rightarrow> Some xs | _ \<Rightarrow> None)"

definition json_as_object :: "json \<Rightarrow> (ustring \<times> json) list option" where
  "json_as_object j = (case j of JObject kvs \<Rightarrow> Some kvs | _ \<Rightarrow> None)"

subsection \<open>Kinds\<close>

datatype audit_kind =
    KPairRequested | KPaired | KPairDenied | KTokenRevoked | KManagementTokenIssued | KManagementTokenRevoked
  | KManagementTokenExpired | KAuthenticationFailed | KPeerIdentityMismatch | KRequested | KAllowedOnce
  | KGrantStarted | KGrantExpired | KGrantRevoked | KAutoAllowed | KDenied | KApprovalTimeout | KAbandoned
  | KListed | KWired | KUnwired | KRuleSaved | KRuleRemoved | KHttpExecuted | KSessionOpened
  | KSessionClosed | KSshSigned | KSshHostKeyPinned | KTlsDowngraded | KPgStatements | KSecretAdded
  | KSecretUpdated | KSecretDeleted | KSecretRevealed | KSecretCopied | KOnePasswordIntegrationAdded
  | KOnePasswordIntegrationUpdated | KOnePasswordIntegrationDeleted | KOnePasswordSecretLinked
  | KConnectionAdded | KConnectionUpdated | KConnectionDeleted | KConnectionTested | KMcpAuthCompleted
  | KMcpAuthFailed | KMcpTokenRefreshed | KMcpTokenRefreshFailed | KConnectRequested | KActivityCleared
  | KSettingsChanged | KRateLimited | KIntegrityAlert

fun audit_icon :: "audit_kind \<Rightarrow> ustring" where
  "audit_icon KPairRequested = ascii ''userRoundPlus''"
| "audit_icon KPaired = ascii ''userRoundCheck''"
| "audit_icon KPairDenied = ascii ''userRoundX''"
| "audit_icon KTokenRevoked = ascii ''unplug''"
| "audit_icon KManagementTokenIssued = ascii ''keyRound''"
| "audit_icon KManagementTokenRevoked = ascii ''keyRound''"
| "audit_icon KManagementTokenExpired = ascii ''clockAlert''"
| "audit_icon KAuthenticationFailed = ascii ''shieldAlert''"
| "audit_icon KPeerIdentityMismatch = ascii ''shieldAlert''"
| "audit_icon KRequested = ascii ''bell''"
| "audit_icon KAllowedOnce = ascii ''circleCheck''"
| "audit_icon KGrantStarted = ascii ''timer''"
| "audit_icon KGrantExpired = ascii ''timerOff''"
| "audit_icon KGrantRevoked = ascii ''shieldX''"
| "audit_icon KAutoAllowed = ascii ''zap''"
| "audit_icon KDenied = ascii ''circleX''"
| "audit_icon KApprovalTimeout = ascii ''clockAlert''"
| "audit_icon KAbandoned = ascii ''circleSlash''"
| "audit_icon KListed = ascii ''list''"
| "audit_icon KWired = ascii ''plug''"
| "audit_icon KUnwired = ascii ''unplug''"
| "audit_icon KRuleSaved = ascii ''shieldPlus''"
| "audit_icon KRuleRemoved = ascii ''shieldMinus''"
| "audit_icon KHttpExecuted = ascii ''globe''"
| "audit_icon KSessionOpened = ascii ''logIn''"
| "audit_icon KSessionClosed = ascii ''logOut''"
| "audit_icon KSshSigned = ascii ''keyRound''"
| "audit_icon KSshHostKeyPinned = ascii ''lock''"
| "audit_icon KTlsDowngraded = ascii ''shieldAlert''"
| "audit_icon KPgStatements = ascii ''database''"
| "audit_icon KSecretAdded = ascii ''fileKey''"
| "audit_icon KSecretUpdated = ascii ''pencil''"
| "audit_icon KSecretDeleted = ascii ''trash''"
| "audit_icon KSecretRevealed = ascii ''eye''"
| "audit_icon KSecretCopied = ascii ''clipboardCopy''"
| "audit_icon KOnePasswordIntegrationAdded = ascii ''plug''"
| "audit_icon KOnePasswordIntegrationUpdated = ascii ''refresh''"
| "audit_icon KOnePasswordIntegrationDeleted = ascii ''unplug''"
| "audit_icon KOnePasswordSecretLinked = ascii ''link''"
| "audit_icon KConnectionAdded = ascii ''plug''"
| "audit_icon KConnectionUpdated = ascii ''pencil''"
| "audit_icon KConnectionDeleted = ascii ''unplug''"
| "audit_icon KConnectionTested = ascii ''flaskConical''"
| "audit_icon KMcpAuthCompleted = ascii ''circleCheck''"
| "audit_icon KMcpAuthFailed = ascii ''circleX''"
| "audit_icon KMcpTokenRefreshed = ascii ''refresh''"
| "audit_icon KConnectRequested = ascii ''botMessageSquare''"
| "audit_icon KMcpTokenRefreshFailed = ascii ''circleX''"
| "audit_icon KActivityCleared = ascii ''trash''"
| "audit_icon KSettingsChanged = ascii ''gear''"
| "audit_icon KRateLimited = ascii ''gauge''"
| "audit_icon KIntegrityAlert = ascii ''shieldAlert''"

definition audit_tone :: "audit_kind \<Rightarrow> ustring" where
  "audit_tone k =
     (if k \<in> {KPaired, KAllowedOnce, KAutoAllowed, KMcpAuthCompleted}
      then ascii ''success''
      else if k \<in> {KPairRequested, KRequested, KGrantStarted, KTlsDowngraded, KConnectRequested}
      then ascii ''warning''
      else if k \<in> {KPairDenied, KTokenRevoked, KManagementTokenRevoked, KManagementTokenExpired,
        KAuthenticationFailed, KPeerIdentityMismatch, KGrantRevoked, KDenied, KApprovalTimeout,
        KMcpAuthFailed, KMcpTokenRefreshFailed, KRateLimited, KIntegrityAlert}
      then ascii ''danger''
      else ascii ''neutral'')"

subsection \<open>Attribution\<close>

datatype decision_surface = AppWindow | Cli | Remote "ustring option" | Harness

datatype confirmation_method = OsAuthentication | Terminal | WaivedConfirmation | RecentAuthentication | ManagementToken

record decision_context =
  dc_approver :: "ustring option"
  dc_surface :: decision_surface

definition local_context :: "decision_surface \<Rightarrow> decision_context" where
  "local_context s = \<lparr>dc_approver = None, dc_surface = s\<rparr>"

text \<open>A socket address is its text.\<close>

definition remote_context :: "ustring option \<Rightarrow> decision_context" where
  "remote_context peer =
     \<lparr>dc_approver = Some (case peer of Some a \<Rightarrow> a | None \<Rightarrow> ascii ''local_socket''), dc_surface = Remote peer\<rparr>"

subsection \<open>Entries\<close>

record audit_entry =
  ae_v :: nat
  ae_ts :: datetime
  ae_kind :: audit_kind
  ae_text :: ustring
  ae_detail :: "ustring option"
  ae_agent :: "ustring option"
  ae_connection :: "ustring option"
  ae_outcome :: "ustring option"
  ae_rule_id :: "uuid option"
  ae_approver :: "ustring option"
  ae_surface :: "decision_surface option"
  ae_confirmation :: "confirmation_method option"
  ae_duration_ms :: "nat option"
  ae_bytes_up :: "nat option"
  ae_bytes_down :: "nat option"
  ae_fields :: "(ustring \<times> json) list"
  ae_mac :: "8 word list option"

definition AUDIT_SCHEMA_VERSION :: nat where
  "AUDIT_SCHEMA_VERSION = 2"

definition new_entry :: "datetime \<Rightarrow> audit_kind \<Rightarrow> ustring \<Rightarrow> audit_entry" where
  "new_entry now kind text =
     \<lparr>ae_v = AUDIT_SCHEMA_VERSION, ae_ts = now, ae_kind = kind, ae_text = text, ae_detail = None, ae_agent = None,
      ae_connection = None, ae_outcome = None, ae_rule_id = None, ae_approver = None, ae_surface = None,
      ae_confirmation = None, ae_duration_ms = None, ae_bytes_up = None, ae_bytes_down = None, ae_fields = [],
      ae_mac = None\<rparr>"

text \<open>\<open>BTreeMap::insert\<close> on the list of pairs in key order.\<close>

fun btree_insert :: "ustring \<Rightarrow> 'v \<Rightarrow> (ustring \<times> 'v) list \<Rightarrow> (ustring \<times> 'v) list" where
  "btree_insert k v [] = [(k, v)]"
| "btree_insert k v ((k', v') # m) =
     (if k = k' then (k, v) # m
      else if k < k' then (k, v) # (k', v') # m
      else (k', v') # btree_insert k v m)"

definition with_field :: "ustring \<Rightarrow> json \<Rightarrow> audit_entry \<Rightarrow> audit_entry" where
  "with_field key val e = e\<lparr>ae_fields := btree_insert key val (ae_fields e)\<rparr>"

definition with_context :: "decision_context \<Rightarrow> audit_entry \<Rightarrow> audit_entry" where
  "with_context ctx e = e\<lparr>ae_approver := dc_approver ctx, ae_surface := Some (dc_surface ctx)\<rparr>"

definition with_confirmation :: "confirmation_method \<Rightarrow> audit_entry \<Rightarrow> audit_entry" where
  "with_confirmation m e = e\<lparr>ae_confirmation := Some m\<rparr>"

definition maybe_confirmation :: "confirmation_method option \<Rightarrow> audit_entry \<Rightarrow> audit_entry" where
  "maybe_confirmation m e = e\<lparr>ae_confirmation := m\<rparr>"

definition with_detail :: "ustring \<Rightarrow> audit_entry \<Rightarrow> audit_entry" where
  "with_detail d e = e\<lparr>ae_detail := Some d\<rparr>"

definition with_agent :: "ustring \<Rightarrow> audit_entry \<Rightarrow> audit_entry" where
  "with_agent a e = e\<lparr>ae_agent := Some a\<rparr>"

definition with_connection :: "ustring \<Rightarrow> audit_entry \<Rightarrow> audit_entry" where
  "with_connection c e = e\<lparr>ae_connection := Some c\<rparr>"

definition with_outcome :: "ustring \<Rightarrow> audit_entry \<Rightarrow> audit_entry" where
  "with_outcome t e = e\<lparr>ae_outcome := Some t\<rparr>"

definition with_rule :: "uuid \<Rightarrow> audit_entry \<Rightarrow> audit_entry" where
  "with_rule i e = e\<lparr>ae_rule_id := Some i\<rparr>"

definition with_duration_ms :: "nat \<Rightarrow> audit_entry \<Rightarrow> audit_entry" where
  "with_duration_ms ms e = e\<lparr>ae_duration_ms := Some ms\<rparr>"

definition with_bytes :: "nat \<Rightarrow> nat \<Rightarrow> audit_entry \<Rightarrow> audit_entry" where
  "with_bytes up down e = e\<lparr>ae_bytes_up := Some up, ae_bytes_down := Some down\<rparr>"

end
