(* ===== verification/AuditLog.thy ===== *)
theory AuditLog
  imports AuditEntry Integrity
begin

text \<open>
  The tamper-evident activity log, \<^verbatim>\<open>crates/aka-core/src/audit.rs\<close>: appending with a chained MAC, the
  sealed chain head, loading or adopting the seal at start, clearing, and verification. serde's
  encoding and decoding of an entry (\<open>enc\<close>, \<open>dec\<close>) and HMAC-SHA256 are parameters. The file is its list
  of lines; a line that is no UTF-8 text is \<open>None\<close>. A failed write leaves the file unchanged.
\<close>

type_synonym entry_encoder = "audit_entry \<Rightarrow> bytes"
type_synonym entry_decoder = "bytes \<Rightarrow> audit_entry option"

subsection \<open>State\<close>

record audit_seal =
  seal_head :: bytes
  sealed :: nat
  legacy :: nat

definition CHAIN_GENESIS :: bytes where
  "CHAIN_GENESIS = []"

definition genesis :: audit_seal where
  "genesis = \<lparr>seal_head = CHAIN_GENESIS, sealed = 0, legacy = 0\<rparr>"

text \<open>What reading \<^verbatim>\<open>audit-seal.json\<close> gives.\<close>

datatype seal_read = SealLoaded audit_seal | SealUnparsable | SealAbsent | SealRejected core_error

type_synonym log_file = "bytes option list option"

record audit_log =
  log_path :: path
  log_lines :: log_file
  log_integrity :: "state_integrity option"
  mem_seal :: audit_seal
  disk_seal :: seal_read
  notified :: "audit_entry list"

datatype tamper_detail =
    LogGone nat
  | LogUnreadable
  | EntryUnreadable nat
  | EntryNotJson nat
  | EntryNoMac nat
  | EntryMismatch nat
  | EntriesMissing nat nat nat
  | HeadMismatch

datatype audit_integrity =
    Verified nat nat
  | Unsealed nat nat
  | Tampered tamper_detail

definition is_verified :: "audit_integrity \<Rightarrow> bool" where
  "is_verified r = (case r of Verified _ _ \<Rightarrow> True | _ \<Rightarrow> False)"

subsection \<open>Blank lines\<close>

text \<open>\<open>line.trim().is_empty()\<close> on the UTF-8 bytes of a line: only whitespace code points.\<close>

fun blank :: "bytes \<Rightarrow> bool" where
  "blank [] = True"
| "blank (b # bs) =
     (if (9 \<le> b \<and> b \<le> 13) \<or> b = 32 then blank bs
      else case bs of
        [] \<Rightarrow> False
      | c # cs \<Rightarrow>
          if b = 194 \<and> (c = 133 \<or> c = 160) then blank cs
          else case cs of
            [] \<Rightarrow> False
          | d # ds \<Rightarrow>
              if b = 225 \<and> c = 154 \<and> d = 128 \<or>
                 b = 226 \<and> c = 128 \<and> ((128 \<le> d \<and> d \<le> 138) \<or> d = 168 \<or> d = 169 \<or> d = 175) \<or>
                 b = 226 \<and> c = 129 \<and> d = 159 \<or>
                 b = 227 \<and> c = 128 \<and> d = 128
              then blank ds else False)"

text \<open>\<open>count_lines\<close>: \<open>None\<close> for a read error.\<close>

fun count_nonblank :: "bytes option list \<Rightarrow> nat option" where
  "count_nonblank [] = Some 0"
| "count_nonblank (None # ls) = None"
| "count_nonblank (Some l # ls) = map_option (\<lambda>n. if blank l then n else Suc n) (count_nonblank ls)"

definition count_lines :: "log_file \<Rightarrow> core_error + nat" where
  "count_lines f =
     (case f of
        None \<Rightarrow> Ok 0
      | Some ls \<Rightarrow> (case count_nonblank ls of Some n \<Rightarrow> Ok n | None \<Rightarrow> Err IoError))"

subsection \<open>Opening\<close>

text \<open>\<open>persist_seal\<close>: \<open>seal_ok\<close> says whether the sealed write succeeds; a failure is only logged.\<close>

definition persist_seal :: "bool \<Rightarrow> audit_seal \<Rightarrow> audit_log \<Rightarrow> audit_log" where
  "persist_seal seal_ok v a = (if seal_ok then a\<lparr>disk_seal := SealLoaded v\<rparr> else a)"

definition load_or_adopt_seal :: "bool \<Rightarrow> audit_log \<Rightarrow> core_error + audit_log" where
  "load_or_adopt_seal seal_ok a =
     (case log_integrity a of
        None \<Rightarrow> Ok a
      | Some _ \<Rightarrow>
          (case disk_seal a of
             SealLoaded v \<Rightarrow> Ok (a\<lparr>mem_seal := v\<rparr>)
           | _ \<Rightarrow>
               (case count_lines (log_lines a) of
                  Inl e \<Rightarrow> Err e
                | Inr existing \<Rightarrow>
                    let adopted = \<lparr>seal_head = CHAIN_GENESIS, sealed = 0, legacy = existing\<rparr> in
                    Ok ((persist_seal seal_ok adopted a)\<lparr>mem_seal := adopted\<rparr>))))"

text \<open>\<open>open_inner\<close> creates the file when it is missing; creating it may fail.\<close>

definition open_sealed ::
    "core_error option \<Rightarrow> bool \<Rightarrow> path \<Rightarrow> state_integrity option \<Rightarrow> log_file \<Rightarrow> seal_read \<Rightarrow> core_error + audit_log" where
  "open_sealed fault seal_ok p si f sr =
     (case fault of
        Some e \<Rightarrow> Err e
      | None \<Rightarrow>
          load_or_adopt_seal seal_ok
            \<lparr>log_path = p, log_lines = Some (case f of Some ls \<Rightarrow> ls | None \<Rightarrow> []), log_integrity = si,
             mem_seal = genesis, disk_seal = sr, notified = []\<rparr>)"

subsection \<open>Appending and clearing\<close>

text \<open>Lines written to a file that was removed behind the broker's back are not seen under its path.\<close>

definition append_line :: "bytes \<Rightarrow> log_file \<Rightarrow> log_file" where
  "append_line l f = map_option (\<lambda>ls. ls @ [Some l]) f"

definition attribute_entry :: "decision_context option \<Rightarrow> audit_entry \<Rightarrow> audit_entry" where
  "attribute_entry ctx e =
     (case (ae_surface e, ctx) of
        (None, Some c) \<Rightarrow> e\<lparr>ae_approver := dc_approver c, ae_surface := Some (dc_surface c)\<rparr>
      | _ \<Rightarrow> e)"

definition append_entry ::
    "hmac \<Rightarrow> entry_encoder \<Rightarrow> decision_context option \<Rightarrow> bool \<Rightarrow> bool \<Rightarrow> audit_entry \<Rightarrow> audit_log \<Rightarrow> audit_log" where
  "append_entry hm enc ctx write_ok seal_ok e a =
     (let bare = (attribute_entry ctx e)\<lparr>ae_mac := None\<rparr> in
      case log_integrity a of
        None \<Rightarrow>
          a\<lparr>log_lines := (if write_ok then append_line (enc bare) (log_lines a) else log_lines a),
            notified := notified a @ [bare]\<rparr>
      | Some si \<Rightarrow>
          let mac = chain hm si (basename (log_path a)) (seal_head (mem_seal a)) (enc bare);
              entry = bare\<lparr>ae_mac := Some mac\<rparr> in
          if write_ok then
            let v = \<lparr>seal_head = mac, sealed = sealed (mem_seal a) + 1, legacy = legacy (mem_seal a)\<rparr> in
            (persist_seal seal_ok v (a\<lparr>log_lines := append_line (enc entry) (log_lines a)\<rparr>))
              \<lparr>mem_seal := v, notified := notified a @ [entry]\<rparr>
          else a\<lparr>notified := notified a @ [bare]\<rparr>)"

definition clear_log :: "core_error option \<Rightarrow> bool \<Rightarrow> audit_log \<Rightarrow> (core_error + unit) \<times> audit_log" where
  "clear_log fault seal_ok a =
     (case fault of
        Some e \<Rightarrow> (Err e, a)
      | None \<Rightarrow>
          let a = a\<lparr>log_lines := map_option (\<lambda>_. []) (log_lines a)\<rparr> in
          (case log_integrity a of
             None \<Rightarrow> (Ok (), a)
           | Some _ \<Rightarrow> (Ok (), (persist_seal seal_ok genesis a)\<lparr>mem_seal := genesis\<rparr>)))"

subsection \<open>Verification\<close>

text \<open>
  The loop of \<open>verify\<close>: running head, number of chained entries, index. \<open>Inl\<close> is an early return.
  \<open>chain_matches\<close> may panic on the text of a tampered MAC.
\<close>

record scan_state =
  sc_head :: bytes
  sc_chained :: nat
  sc_index :: nat

definition scan_line ::
    "hmac \<Rightarrow> entry_encoder \<Rightarrow> entry_decoder \<Rightarrow> state_integrity \<Rightarrow> bytes \<Rightarrow> nat \<Rightarrow> scan_state \<Rightarrow> bytes option \<Rightarrow>
     (audit_integrity + scan_state) outcome" where
  "scan_line hm enc dec si base leg st line =
     (case line of
        None \<Rightarrow> Return (Inl (Tampered (EntryUnreadable (sc_index st + 1))))
      | Some l \<Rightarrow>
          if blank l then Return (Inr st)
          else
            let st = st\<lparr>sc_index := sc_index st + 1\<rparr> in
            if sc_index st \<le> leg then Return (Inr st)
            else case dec l of
              None \<Rightarrow> Return (Inl (Tampered (EntryNotJson (sc_index st))))
            | Some entry \<Rightarrow>
                (case ae_mac entry of
                   None \<Rightarrow> Return (Inl (Tampered (EntryNoMac (sc_index st))))
                 | Some found \<Rightarrow>
                     let computed = chain hm si base (sc_head st) (enc (entry\<lparr>ae_mac := None\<rparr>)) in
                     (case chain_matches computed found of
                        Panic \<Rightarrow> Panic
                      | Return False \<Rightarrow> Return (Inl (Tampered (EntryMismatch (sc_index st))))
                      | Return True \<Rightarrow>
                          Return (Inr (st\<lparr>sc_head := computed, sc_chained := sc_chained st + 1\<rparr>)))))"

fun scan_lines ::
    "hmac \<Rightarrow> entry_encoder \<Rightarrow> entry_decoder \<Rightarrow> state_integrity \<Rightarrow> bytes \<Rightarrow> nat \<Rightarrow> scan_state \<Rightarrow> bytes option list \<Rightarrow>
     (audit_integrity + scan_state) outcome" where
  "scan_lines hm enc dec si base leg st [] = Return (Inr st)"
| "scan_lines hm enc dec si base leg st (l # ls) =
     (case scan_line hm enc dec si base leg st l of
        Panic \<Rightarrow> Panic
      | Return (Inl r) \<Rightarrow> Return (Inl r)
      | Return (Inr st') \<Rightarrow> scan_lines hm enc dec si base leg st' ls)"

definition scan_start :: scan_state where
  "scan_start = \<lparr>sc_head = CHAIN_GENESIS, sc_chained = 0, sc_index = 0\<rparr>"

definition conclude :: "audit_seal \<Rightarrow> scan_state \<Rightarrow> audit_integrity outcome" where
  "conclude expected st =
     (if sc_chained st < sealed expected then
        Return (Tampered (EntriesMissing (sealed expected - sc_chained st) (sc_chained st) (sealed expected)))
      else if sc_chained st > sealed expected then
        Return (Unsealed (sealed expected) (sc_chained st - sealed expected))
      else case chain_matches (sc_head st) (seal_head expected) of
        Panic \<Rightarrow> Panic
      | Return False \<Rightarrow> Return (Tampered HeadMismatch)
      | Return True \<Rightarrow> Return (Verified (sc_chained st) (legacy expected)))"

definition verify_log :: "hmac \<Rightarrow> entry_encoder \<Rightarrow> entry_decoder \<Rightarrow> bool \<Rightarrow> audit_log \<Rightarrow> audit_integrity outcome" where
  "verify_log hm enc dec open_ok a =
     (case log_integrity a of
        None \<Rightarrow> Return (Verified 0 0)
      | Some si \<Rightarrow>
          let expected = mem_seal a in
          (case log_lines a of
             None \<Rightarrow>
               if sealed expected = 0 then Return (Verified 0 (legacy expected))
               else Return (Tampered (LogGone (sealed expected)))
           | Some ls \<Rightarrow>
               if \<not> open_ok then Return (Tampered LogUnreadable)
               else
                 (case scan_lines hm enc dec si (basename (log_path a)) (legacy expected) scan_start ls of
                    Panic \<Rightarrow> Panic
                  | Return (Inl r) \<Rightarrow> Return r
                  | Return (Inr st) \<Rightarrow> conclude expected st)))"

subsection \<open>Replaying the chain\<close>

lemma scan_lines_append:
  "scan_lines hm enc dec si base leg st (xs @ ys) =
     (case scan_lines hm enc dec si base leg st xs of
        Panic \<Rightarrow> Panic
      | Return (Inl r) \<Rightarrow> Return (Inl r)
      | Return (Inr st') \<Rightarrow> scan_lines hm enc dec si base leg st' ys)"
  by (induction xs arbitrary: st) (auto split: outcome.split sum.split)

lemma scan_lines_early: "scan_lines hm enc dec si base leg st ls = Return (Inl r) \<Longrightarrow> \<exists>d. r = Tampered d"
proof (induction ls arbitrary: st)
  case (Cons l ls)
  have "\<exists>d. r = Tampered d" if "scan_line hm enc dec si base leg st l = Return (Inl r)"
    using that by (auto simp: scan_line_def Let_def split: option.splits if_splits outcome.splits bool.splits)
  with Cons show ?case by (auto split: outcome.splits sum.splits)
qed simp

lemma scan_legacy_prefix:
  "count_nonblank ls = Some n \<Longrightarrow> sc_index st + n \<le> leg \<Longrightarrow>
   scan_lines hm enc dec si base leg st ls = Return (Inr (st\<lparr>sc_index := sc_index st + n\<rparr>))"
proof (induction ls arbitrary: st n)
  case (Cons l ls)
  then obtain t where l: "l = Some t" by (cases l) auto
  with Cons.prems(1) obtain m where m: "count_nonblank ls = Some m" "n = (if blank t then m else Suc m)" by auto
  show ?case
  proof (cases "blank t")
    case True
    with Cons.IH [OF m(1), of st] Cons.prems(2) l m(2) show ?thesis by (simp add: scan_line_def)
  next
    case False
    with Cons.IH [OF m(1), of "st\<lparr>sc_index := sc_index st + 1\<rparr>"] Cons.prems(2) l m(2)
    show ?thesis by (simp add: scan_line_def Let_def)
  qed
qed simp

lemma chain_matches_TrueD:
  assumes "chain_matches a b = Return True"
  shows "\<exists>x. decode_hex a = Return (Some x) \<and> decode_hex b = Return (Some x)"
proof -
  from assms obtain x y where "decode_hex a = Return (Some x)" "decode_hex b = Return (Some y)"
    "length x = length y" "xor_fold x y = 0"
    by (auto simp: chain_matches_def split: outcome.splits option.splits)
  moreover from this have "x = y" using xor_foldl [of x y 0] by (simp add: xor_fold_def)
  ultimately show ?thesis by blast
qed

lemma chain_matches_hex: "chain_matches (encode_hex x) (encode_hex y) = Return (x = y)"
  by (auto simp: chain_matches_def decode_encode_hex xor_fold_def xor_foldl)

lemma encode_hex_inj:
  assumes "encode_hex x = encode_hex y"
  shows "x = y"
proof -
  have "Return (Some x) = Return (Some y)"
    using arg_cong [OF assms, of decode_hex] unfolding decode_encode_hex .
  then show ?thesis by simp
qed

lemma genesis_hex: "CHAIN_GENESIS = encode_hex []"
  by (simp add: CHAIN_GENESIS_def encode_hex_def)

text \<open>What the scan examines: the canonical texts of the entries after the legacy prefix.\<close>

fun audited :: "entry_encoder \<Rightarrow> entry_decoder \<Rightarrow> nat \<Rightarrow> nat \<Rightarrow> bytes option list \<Rightarrow> bytes list" where
  "audited enc dec leg i [] = []"
| "audited enc dec leg i (None # ls) = audited enc dec leg i ls"
| "audited enc dec leg i (Some l # ls) =
     (if blank l then audited enc dec leg i ls
      else if i + 1 \<le> leg then audited enc dec leg (i + 1) ls
      else case dec l of
        None \<Rightarrow> audited enc dec leg (i + 1) ls
      | Some e \<Rightarrow> enc (e\<lparr>ae_mac := None\<rparr>) # audited enc dec leg (i + 1) ls)"

definition replay :: "hmac \<Rightarrow> state_integrity \<Rightarrow> bytes \<Rightarrow> bytes \<Rightarrow> bytes list \<Rightarrow> bytes" where
  "replay hm si base h bodies = foldl (chain hm si base) h bodies"

lemma scan_lines_replay:
  "scan_lines hm enc dec si base leg st ls = Return (Inr st') \<Longrightarrow>
   sc_chained st' = sc_chained st + length (audited enc dec leg (sc_index st) ls) \<and>
   sc_head st' = replay hm si base (sc_head st) (audited enc dec leg (sc_index st) ls)"
proof (induction ls arbitrary: st)
  case (Cons l ls)
  from Cons.prems obtain st1 where s1: "scan_line hm enc dec si base leg st l = Return (Inr st1)"
    and rest: "scan_lines hm enc dec si base leg st1 ls = Return (Inr st')"
    by (auto split: outcome.splits sum.splits)
  from s1 obtain t where l: "l = Some t" by (cases l) (auto simp: scan_line_def)
  consider (blank) "blank t" "st1 = st"
    | (old) "\<not> blank t" "sc_index st + 1 \<le> leg" "st1 = st\<lparr>sc_index := sc_index st + 1\<rparr>"
    | (entry) e where "\<not> blank t" "\<not> sc_index st + 1 \<le> leg" "dec t = Some e"
        "st1 = st\<lparr>sc_index := sc_index st + 1, sc_head := chain hm si base (sc_head st) (enc (e\<lparr>ae_mac := None\<rparr>)),
           sc_chained := sc_chained st + 1\<rparr>"
    using s1 l by (auto simp: scan_line_def Let_def split: if_splits option.splits outcome.splits bool.splits)
  then show ?case
    by cases (use Cons.IH [OF rest] l in \<open>auto simp: replay_def\<close>)
qed (simp add: replay_def)

lemma hex_no_nul: "0 \<notin> set (encode_hex x)"
proof -
  have "hex_nibble n \<noteq> 0" if "unat n < 16" for n
    using hex_nibble_props(1) [OF that] by (auto simp: hex_val_def)
  then show ?thesis using nibble_bounds by (auto simp: encode_hex_def)
qed

lemma chain_inj:
  assumes inj: "inj_on (hm (key si)) S" "chain_input base p b \<in> S" "chain_input base p' b' \<in> S"
    and nul: "0 \<notin> set p" "0 \<notin> set p'" and eq: "chain hm si base p b = chain hm si base p' b'"
  shows "p = p' \<and> b = b'"
proof -
  have "chain_input base p b = chain_input base p' b'"
    using eq inj by (auto simp: chain_def dest!: encode_hex_inj inj_onD)
  then have "p @ [0] @ b = p' @ [0] @ b'" by (simp add: chain_input_def)
  from nul_free_split [OF this nul] show ?thesis .
qed

lemma replay_hex: "\<exists>x. replay hm si base (encode_hex h) bs = encode_hex x"
  by (cases bs rule: rev_cases) (auto simp: replay_def chain_def)

text \<open>The MAC inputs a replay computes on.\<close>

fun fed :: "hmac \<Rightarrow> state_integrity \<Rightarrow> bytes \<Rightarrow> bytes \<Rightarrow> bytes list \<Rightarrow> bytes set" where
  "fed hm si base h [] = {}"
| "fed hm si base h (b # bs) = insert (chain_input base h b) (fed hm si base (chain hm si base h b) bs)"

lemma fed_snoc: "fed hm si base h (bs @ [b]) = insert (chain_input base (replay hm si base h bs) b) (fed hm si base h bs)"
  by (induction bs arbitrary: h) (auto simp: replay_def)

lemma replay_inj:
  assumes "inj_on (hm (key si)) (fed hm si base (encode_hex h) bs \<union> fed hm si base (encode_hex h) bs')"
    and "length bs = length bs'" and "replay hm si base (encode_hex h) bs = replay hm si base (encode_hex h) bs'"
  shows "bs = bs'"
  using assms
proof (induction bs arbitrary: bs' rule: rev_induct)
  case (snoc b bs)
  then obtain c cs where bs': "bs' = cs @ [c]" by (cases bs' rule: rev_cases) auto
  let ?r = "replay hm si base (encode_hex h)" and ?f = "fed hm si base (encode_hex h)"
  have "chain hm si base (?r bs) b = chain hm si base (?r cs) c" using snoc.prems(3) bs' by (simp add: replay_def)
  moreover have "0 \<notin> set (?r bs)" "0 \<notin> set (?r cs)" using replay_hex hex_no_nul by metis+
  moreover have "chain_input base (?r bs) b \<in> ?f (bs @ [b]) \<union> ?f bs'" "chain_input base (?r cs) c \<in> ?f (bs @ [b]) \<union> ?f bs'"
    by (simp_all add: bs' fed_snoc)
  ultimately have "?r bs = ?r cs" "b = c" using chain_inj [where hm = hm and si = si, OF snoc.prems(1)] by blast+
  moreover have "inj_on (hm (key si)) (?f bs \<union> ?f cs)"
    by (rule inj_on_subset [OF snoc.prems(1)]) (auto simp: bs' fed_snoc)
  ultimately show ?case using snoc.IH [of cs] snoc.prems(2) bs' by simp
qed simp

subsection \<open>A healthy log\<close>

text \<open>The encoder and decoder agree on the entries over \<open>B\<close>, with any MAC, and write no blank line.\<close>

definition codec_on :: "audit_entry set \<Rightarrow> entry_encoder \<Rightarrow> entry_decoder \<Rightarrow> bool" where
  "codec_on B enc dec \<longleftrightarrow> (\<forall>b\<in>B. \<forall>m. dec (enc (b\<lparr>ae_mac := m\<rparr>)) = Some (b\<lparr>ae_mac := m\<rparr>) \<and> \<not> blank (enc (b\<lparr>ae_mac := m\<rparr>)))"

text \<open>The chain in the file arrives at the head in memory.\<close>

definition chained :: "hmac \<Rightarrow> entry_encoder \<Rightarrow> entry_decoder \<Rightarrow> state_integrity \<Rightarrow> audit_log \<Rightarrow> bool" where
  "chained hm enc dec si a \<longleftrightarrow> log_integrity a = Some si \<and> (\<exists>x. seal_head (mem_seal a) = encode_hex x) \<and>
     (\<exists>ls i. log_lines a = Some ls \<and> legacy (mem_seal a) \<le> i \<and>
        scan_lines hm enc dec si (basename (log_path a)) (legacy (mem_seal a)) scan_start ls =
          Return (Inr \<lparr>sc_head = seal_head (mem_seal a), sc_chained = sealed (mem_seal a), sc_index = i\<rparr>))"

lemma chained_append:
  assumes ch: "chained hm enc dec si a" and cod: "codec_on B enc dec"
    and e: "(attribute_entry ctx e)\<lparr>ae_mac := None\<rparr> \<in> B"
  shows "chained hm enc dec si (append_entry hm enc ctx write_ok seal_ok e a)"
proof (cases write_ok)
  case False
  with ch show ?thesis by (simp add: append_entry_def chained_def Let_def)
next
  case True
  let ?bare = "(attribute_entry ctx e)\<lparr>ae_mac := None\<rparr>"
  let ?base = "basename (log_path a)" and ?h = "seal_head (mem_seal a)" and ?leg = "legacy (mem_seal a)"
  let ?mac = "chain hm si ?base ?h (enc ?bare)"
  let ?entry = "?bare\<lparr>ae_mac := Some ?mac\<rparr>"
  from ch obtain ls i where ls: "log_lines a = Some ls" "?leg \<le> i" "log_integrity a = Some si"
    and sc: "scan_lines hm enc dec si ?base ?leg scan_start ls =
      Return (Inr \<lparr>sc_head = ?h, sc_chained = sealed (mem_seal a), sc_index = i\<rparr>)"
    by (auto simp: chained_def)
  have d: "dec (enc ?entry) = Some ?entry" "\<not> blank (enc ?entry)"
    using cod [unfolded codec_on_def, rule_format, OF e, of "Some ?mac"] by simp_all
  have m: "chain_matches ?mac ?mac = Return True" by (simp add: chain_def chain_matches_hex)
  have "scan_lines hm enc dec si ?base ?leg scan_start (ls @ [Some (enc ?entry)]) =
      Return (Inr \<lparr>sc_head = ?mac, sc_chained = sealed (mem_seal a) + 1, sc_index = i + 1\<rparr>)"
    using sc d m ls(2) by (simp add: scan_lines_append scan_line_def Let_def)
  moreover have "\<exists>x. ?mac = encode_hex x" by (auto simp: chain_def)
  ultimately show ?thesis
    using ls True by (auto simp: append_entry_def chained_def Let_def persist_seal_def append_line_def)
qed

lemma chained_verifies:
  assumes "chained hm enc dec si a"
  shows "verify_log hm enc dec True a = Return (Verified (sealed (mem_seal a)) (legacy (mem_seal a)))"
  using assms by (auto simp: chained_def verify_log_def conclude_def chain_matches_hex Let_def)

lemma adopted_chained:
  assumes "open_sealed None seal_ok p (Some si) f sr = Ok a" and "\<And>v. sr \<noteq> SealLoaded v"
  shows "chained hm enc dec si a \<and> sealed (mem_seal a) = 0 \<and> (seal_ok \<longrightarrow> disk_seal a = SealLoaded (mem_seal a)) \<and>
    log_path a = p"
proof -
  define ls where "ls = (case f of Some ls \<Rightarrow> ls | None \<Rightarrow> [])"
  from assms obtain n where n: "count_nonblank ls = Some n"
    and a: "a = (persist_seal seal_ok \<lparr>seal_head = CHAIN_GENESIS, sealed = 0, legacy = n\<rparr>
      \<lparr>log_path = p, log_lines = Some ls, log_integrity = Some si, mem_seal = genesis, disk_seal = sr, notified = []\<rparr>)
      \<lparr>mem_seal := \<lparr>seal_head = CHAIN_GENESIS, sealed = 0, legacy = n\<rparr>\<rparr>"
    by (auto simp: open_sealed_def load_or_adopt_seal_def count_lines_def Let_def ls_def
        split: seal_read.splits option.splits sum.splits)
  have "scan_lines hm enc dec si (basename p) n scan_start ls =
      Return (Inr \<lparr>sc_head = CHAIN_GENESIS, sc_chained = 0, sc_index = n\<rparr>)"
    using scan_legacy_prefix [OF n, of scan_start n] by (simp add: scan_start_def)
  then show ?thesis by (auto simp: a chained_def persist_seal_def genesis_hex)
qed

text \<open>The life of a log whose seal writes succeed: appends (some line writes failing), clears, restarts.\<close>

inductive audit_step :: "hmac \<Rightarrow> entry_encoder \<Rightarrow> audit_entry set \<Rightarrow> audit_log \<Rightarrow> audit_log \<Rightarrow> bool" for hm enc B where
  as_append: "(attribute_entry ctx e)\<lparr>ae_mac := None\<rparr> \<in> B \<Longrightarrow>
    audit_step hm enc B a (append_entry hm enc ctx write_ok True e a)"
| as_clear: "audit_step hm enc B a (snd (clear_log fault True a))"
| as_restart: "open_sealed None True (log_path a) (log_integrity a) (log_lines a) (disk_seal a) = Ok a' \<Longrightarrow>
    audit_step hm enc B a a'"

definition audit_ok :: "hmac \<Rightarrow> entry_encoder \<Rightarrow> entry_decoder \<Rightarrow> state_integrity \<Rightarrow> audit_log \<Rightarrow> bool" where
  "audit_ok hm enc dec si a \<longleftrightarrow> chained hm enc dec si a \<and> disk_seal a = SealLoaded (mem_seal a)"

lemma audit_ok_step:
  assumes "codec_on B enc dec" and "audit_step hm enc B a a'" and "audit_ok hm enc dec si a"
  shows "audit_ok hm enc dec si a'"
  using assms(2,3)
proof (induction rule: audit_step.induct)
  case (as_append ctx e a write_ok)
  have "log_integrity a = Some si" using as_append.prems by (simp add: audit_ok_def chained_def)
  then have "disk_seal (append_entry hm enc ctx write_ok True e a) =
      SealLoaded (mem_seal (append_entry hm enc ctx write_ok True e a))"
    using as_append.prems by (auto simp: append_entry_def Let_def persist_seal_def audit_ok_def)
  with chained_append [OF _ assms(1) as_append.hyps] as_append.prems show ?case by (simp add: audit_ok_def)
next
  case (as_clear a fault)
  then show ?case
    by (auto simp: audit_ok_def clear_log_def chained_def persist_seal_def genesis_def genesis_hex scan_start_def Let_def
        split: option.splits)
next
  case (as_restart a a')
  from as_restart.prems obtain ls where ls: "log_lines a = Some ls" "log_integrity a = Some si"
    "disk_seal a = SealLoaded (mem_seal a)" by (auto simp: audit_ok_def chained_def)
  with as_restart.hyps have "a' = \<lparr>log_path = log_path a, log_lines = Some ls, log_integrity = Some si,
      mem_seal = mem_seal a, disk_seal = disk_seal a, notified = []\<rparr>"
    by (simp add: open_sealed_def load_or_adopt_seal_def)
  with as_restart.prems ls show ?case by (auto simp: audit_ok_def chained_def)
qed

subsection \<open>Properties\<close>

text \<open>
  A log that lost nothing verifies: adopted over any existing lines and then taken through any
  sequence of appends, failed line writes, clears and restarts, as long as the seal writes succeed,
  verification reports \<open>Verified\<close> with exactly the number of chained entries and of legacy entries. The
  hypothesis on serde is that the entries appended survive encoding and decoding.
\<close>

theorem audit_log_verifies:
  assumes "codec_on B enc dec"
    and "open_sealed None True p (Some si) f SealAbsent = Ok a0"
    and "reaches (audit_step hm enc B) a0 a"
  shows "verify_log hm enc dec True a = Return (Verified (sealed (mem_seal a)) (legacy (mem_seal a)))"
proof -
  have "audit_ok hm enc dec si a0" using adopted_chained [OF assms(2)] by (simp add: audit_ok_def)
  with assms(3) have "audit_ok hm enc dec si a"
    by (induction rule: reaches.induct) (auto intro: audit_ok_step [OF assms(1)])
  then show ?thesis by (auto simp: audit_ok_def intro: chained_verifies)
qed

definition sample_entry :: audit_entry where
  "sample_entry = new_entry 0 KSecretAdded []"

definition sample_enc :: entry_encoder where
  "sample_enc e = (case ae_mac e of None \<Rightarrow> [65] | Some m \<Rightarrow> 66 # m)"

definition sample_dec :: entry_decoder where
  "sample_dec l = (case l of [] \<Rightarrow> None | b # m \<Rightarrow> Some (sample_entry\<lparr>ae_mac := (if b = 65 then None else Some m)\<rparr>))"

lemma letter_not_blank: "\<not> blank (65 # bs)" "\<not> blank (66 # bs)"
  by (simp_all split: list.split)

lemma sample_codec: "codec_on {sample_entry} sample_enc sample_dec"
  by (simp add: codec_on_def sample_enc_def sample_dec_def letter_not_blank del: blank.simps split: option.splits)

definition sample_integrity :: state_integrity where
  "sample_integrity = \<lparr>key = [], established = True\<rparr>"

theorem audit_log_verifies_witness:
  "\<exists>a0. open_sealed None True [] (Some sample_integrity) None SealAbsent = Ok a0 \<and>
     verify_log (\<lambda>k m. m) sample_enc sample_dec True
       (append_entry (\<lambda>k m. m) sample_enc None True True sample_entry a0) = Return (Verified 1 0)"
proof -
  let ?hm = "\<lambda>k m. m :: 8 word list"
  obtain a0 where a0: "open_sealed None True [] (Some sample_integrity) None SealAbsent = Ok a0"
    by (simp add: open_sealed_def load_or_adopt_seal_def count_lines_def Let_def)
  have "audit_step ?hm sample_enc {sample_entry} a0 (append_entry ?hm sample_enc None True True sample_entry a0)"
    by (rule as_append) (simp add: attribute_entry_def sample_entry_def new_entry_def)
  then have "reaches (audit_step ?hm sample_enc {sample_entry}) a0 (append_entry ?hm sample_enc None True True sample_entry a0)"
    by (meson reaches_refl reaches_step)
  from audit_log_verifies [OF sample_codec a0 this] a0 show ?thesis
    by (auto simp: open_sealed_def load_or_adopt_seal_def count_lines_def Let_def append_entry_def append_line_def
        persist_seal_def)
qed

text \<open>
  C32. The log is tamper-evident: any two files that verify against the same sealed head hold the same
  records after the legacy prefix, in the same order, unless the MAC collides on two of the inputs that
  verifying them computes. Editing, inserting, dropping, reordering or truncating entries is therefore
  always reported.
\<close>

theorem audit_log_tamper_evident:
  assumes "inj_on (hm (key si))
      (fed hm si (basename (log_path a)) CHAIN_GENESIS (audited enc dec (legacy (mem_seal a)) 0 ls') \<union>
       fed hm si (basename (log_path a)) CHAIN_GENESIS (audited enc dec (legacy (mem_seal a)) 0 ls))"
    and "log_integrity a = Some si" and "log_lines a = Some ls" and "verify_log hm enc dec True a = Return (Verified n l)"
    and "verify_log hm enc dec True (a\<lparr>log_lines := Some ls'\<rparr>) = Return (Verified n' l')"
  shows "audited enc dec (legacy (mem_seal a)) 0 ls' = audited enc dec (legacy (mem_seal a)) 0 ls"
proof -
  let ?base = "basename (log_path a)" and ?leg = "legacy (mem_seal a)"
  let ?A = "audited enc dec ?leg 0"
  let ?r = "replay hm si ?base (encode_hex [])"
  have *: "length (?A xs) = sealed (mem_seal a) \<and>
      (\<exists>x. ?r (?A xs) = encode_hex x \<and> decode_hex (seal_head (mem_seal a)) = Return (Some x))"
    if v: "verify_log hm enc dec True (a\<lparr>log_lines := Some xs\<rparr>) = Return (Verified m k)" for xs m k
  proof -
    from v assms(2) obtain st where st: "scan_lines hm enc dec si ?base ?leg scan_start xs = Return (Inr st)"
      and c: "conclude (mem_seal a) st = Return (Verified m k)"
      by (auto simp: verify_log_def Let_def split: outcome.splits sum.splits if_splits dest: scan_lines_early)
    have s: "sc_chained st = length (?A xs)" "sc_head st = ?r (?A xs)"
      using scan_lines_replay [OF st] by (simp_all add: scan_start_def genesis_hex)
    from c have "sc_chained st = sealed (mem_seal a)" "chain_matches (sc_head st) (seal_head (mem_seal a)) = Return True"
      by (auto simp: conclude_def split: if_splits outcome.splits bool.splits)
    moreover obtain y where y: "sc_head st = encode_hex y" using s(2) replay_hex by metis
    ultimately show ?thesis using s chain_matches_TrueD decode_encode_hex by fastforce
  qed
  have "a\<lparr>log_lines := Some ls\<rparr> = a" using assms(3) by simp
  with * [of ls n l] assms(4) obtain x where x: "length (?A ls) = sealed (mem_seal a)" "?r (?A ls) = encode_hex x"
    "decode_hex (seal_head (mem_seal a)) = Return (Some x)" by auto
  from * [OF assms(5)] x have "length (?A ls') = length (?A ls)" "?r (?A ls') = ?r (?A ls)" by auto
  then show ?thesis using assms(1) replay_inj [where hm = hm and si = si and base = ?base and h = "[]" and bs = "?A ls'" and bs' = "?A ls"] by (simp add: genesis_hex)
qed

theorem audit_log_tamper_evident_witness:
  "\<exists>a. sealed (mem_seal a) = 1 \<and>
     (\<forall>ls' n' l'. verify_log (\<lambda>k m. m) sample_enc sample_dec True (a\<lparr>log_lines := Some ls'\<rparr>) = Return (Verified n' l') \<longrightarrow>
       audited sample_enc sample_dec 0 0 ls' = [sample_enc sample_entry])"
proof -
  let ?hm = "\<lambda>k m. m :: 8 word list"
  obtain a0 where a0: "open_sealed None True [] (Some sample_integrity) None SealAbsent = Ok a0"
    by (simp add: open_sealed_def load_or_adopt_seal_def count_lines_def Let_def)
  let ?a = "append_entry ?hm sample_enc None True True sample_entry a0"
  have e: "attribute_entry None sample_entry = sample_entry" "sample_entry\<lparr>ae_mac := None\<rparr> = sample_entry"
    by (simp_all add: attribute_entry_def sample_entry_def new_entry_def)
  obtain m where ls: "log_lines ?a = Some [Some (sample_enc (sample_entry\<lparr>ae_mac := Some m\<rparr>))]"
    and st: "log_integrity ?a = Some sample_integrity" "sealed (mem_seal ?a) = 1" "legacy (mem_seal ?a) = 0"
    using a0 by (auto simp: open_sealed_def load_or_adopt_seal_def count_lines_def Let_def append_entry_def append_line_def
        persist_seal_def e)
  have "audit_ok ?hm sample_enc sample_dec sample_integrity a0"
    using adopted_chained [OF a0, of ?hm sample_enc sample_dec] by (simp add: audit_ok_def)
  then have "audit_ok ?hm sample_enc sample_dec sample_integrity ?a"
    by (rule audit_ok_step [OF sample_codec, rotated]) (rule as_append, simp add: e)
  then have "verify_log ?hm sample_enc sample_dec True ?a = Return (Verified 1 0)"
    using st by (auto simp: audit_ok_def dest: chained_verifies)
  moreover have "audited sample_enc sample_dec 0 0 [Some (sample_enc (sample_entry\<lparr>ae_mac := Some m\<rparr>))] = [sample_enc sample_entry]"
    using sample_codec e by (simp add: codec_on_def)
  ultimately show ?thesis
    using audit_log_tamper_evident [where hm = ?hm and a = ?a and enc = sample_enc and dec = sample_dec, OF _ st(1) ls] st
    by fastforce
qed

text \<open>
  A lost seal write turns into a false alarm: when an entry was written but its head not resealed
  (a crash, or a failed seal write), the restarted broker chains its next entry onto the old head, so
  verification accuses that genuine entry of not matching its MAC.
\<close>

theorem lost_reseal_reads_as_tampering:
  assumes "inj_on (hm (key si)) {chain_input (basename (log_path a)) m1 (enc (e2\<lparr>ae_mac := None\<rparr>)),
      chain_input (basename (log_path a)) (seal_head (mem_seal a)) (enc (e2\<lparr>ae_mac := None\<rparr>))}"
    and "codec_on B enc dec" and "audit_ok hm enc dec si a"
    and "e1\<lparr>ae_mac := None\<rparr> \<in> B" and "e2\<lparr>ae_mac := None\<rparr> \<in> B"
    and m1: "m1 = chain hm si (basename (log_path a)) (seal_head (mem_seal a)) (enc (e1\<lparr>ae_mac := None\<rparr>))"
    and "m1 \<noteq> seal_head (mem_seal a)"
    and "a1 = append_entry hm enc None True False e1 a"
    and "open_sealed None True (log_path a1) (log_integrity a1) (log_lines a1) (disk_seal a1) = Ok a2"
  shows "\<exists>i. verify_log hm enc dec True (append_entry hm enc None True True e2 a2) = Return (Tampered (EntryMismatch i))"
proof -
  let ?b1 = "e1\<lparr>ae_mac := None\<rparr>" and ?b2 = "e2\<lparr>ae_mac := None\<rparr>"
  let ?base = "basename (log_path a)" and ?h = "seal_head (mem_seal a)" and ?leg = "legacy (mem_seal a)"
  let ?m1 = "chain hm si ?base ?h (enc ?b1)" and ?m2 = "chain hm si ?base ?h (enc ?b2)"
  let ?l1 = "enc (?b1\<lparr>ae_mac := Some ?m1\<rparr>)" and ?l2 = "enc (?b2\<lparr>ae_mac := Some ?m2\<rparr>)"
  from assms(3) obtain ls i x where a: "log_integrity a = Some si" "log_lines a = Some ls" "?leg \<le> i"
    "disk_seal a = SealLoaded (mem_seal a)" "?h = encode_hex x"
    and sc: "scan_lines hm enc dec si ?base ?leg scan_start ls =
      Return (Inr \<lparr>sc_head = ?h, sc_chained = sealed (mem_seal a), sc_index = i\<rparr>)"
    by (auto simp: audit_ok_def chained_def)
  have d: "dec ?l1 = Some (?b1\<lparr>ae_mac := Some ?m1\<rparr>)" "\<not> blank ?l1" "dec ?l2 = Some (?b2\<lparr>ae_mac := Some ?m2\<rparr>)" "\<not> blank ?l2"
    using assms(2) [unfolded codec_on_def, rule_format, OF assms(4), of "Some ?m1"]
      assms(2) [unfolded codec_on_def, rule_format, OF assms(5), of "Some ?m2"] by simp_all
  have att: "attribute_entry None e = e" for e by (simp add: attribute_entry_def split: option.splits)
  have a1: "a1 = a\<lparr>log_lines := Some (ls @ [Some ?l1]), mem_seal := \<lparr>seal_head = ?m1, sealed = sealed (mem_seal a) + 1,
      legacy = ?leg\<rparr>, notified := notified a @ [?b1\<lparr>ae_mac := Some ?m1\<rparr>]\<rparr>"
    using assms(8) a by (simp add: append_entry_def att Let_def persist_seal_def append_line_def)
  have a2: "a2 = \<lparr>log_path = log_path a, log_lines = Some (ls @ [Some ?l1]), log_integrity = Some si,
      mem_seal = mem_seal a, disk_seal = SealLoaded (mem_seal a), notified = []\<rparr>"
    using assms(9) a a1 by (simp add: open_sealed_def load_or_adopt_seal_def)
  have mm: "chain_matches ?m1 ?m1 = Return True" by (simp add: chain_def chain_matches_hex)
  have "chain hm si ?base ?m1 (enc ?b2) \<noteq> ?m2"
  proof
    assume "chain hm si ?base ?m1 (enc ?b2) = ?m2"
    moreover have "0 \<notin> set ?m1" "0 \<notin> set ?h" using hex_no_nul a(5) by (simp_all add: chain_def)
    ultimately show False using chain_inj [where hm = hm and si = si, OF assms(1), of ?base ?m1 "enc ?b2" ?h "enc ?b2"] assms(7) m1 by blast
  qed
  then have "chain_matches (chain hm si ?base ?m1 (enc ?b2)) ?m2 = Return False"
    by (auto simp: chain_def chain_matches_hex)
  then show ?thesis
    using sc d mm a a2
    by (simp add: append_entry_def att Let_def persist_seal_def append_line_def verify_log_def scan_lines_append scan_line_def)
qed

theorem lost_reseal_reads_as_tampering_witness:
  "\<exists>a i. verify_log (\<lambda>k m. m) sample_enc sample_dec True
     (append_entry (\<lambda>k m. m) sample_enc None True True sample_entry a) = Return (Tampered (EntryMismatch i))"
proof -
  let ?hm = "\<lambda>k m. m :: 8 word list"
  obtain a where a: "open_sealed None True [] (Some sample_integrity) None SealAbsent = Ok a"
    by (simp add: open_sealed_def load_or_adopt_seal_def count_lines_def Let_def)
  then have ok: "audit_ok ?hm sample_enc sample_dec sample_integrity a"
    using adopted_chained [OF a, of ?hm sample_enc sample_dec] by (simp add: audit_ok_def)
  have h: "log_path a = []" "seal_head (mem_seal a) = []"
    using a by (auto simp: open_sealed_def load_or_adopt_seal_def count_lines_def Let_def persist_seal_def CHAIN_GENESIS_def)
  let ?a1 = "append_entry ?hm sample_enc None True False sample_entry a"
  obtain a2 where a2: "open_sealed None True (log_path ?a1) (log_integrity ?a1) (log_lines ?a1) (disk_seal ?a1) = Ok a2"
    using a by (auto simp: open_sealed_def load_or_adopt_seal_def count_lines_def Let_def persist_seal_def append_entry_def
        append_line_def)
  have e: "sample_entry\<lparr>ae_mac := None\<rparr> \<in> {sample_entry}" by (simp add: sample_entry_def new_entry_def)
  have "chain ?hm sample_integrity (basename (log_path a)) (seal_head (mem_seal a)) (sample_enc (sample_entry\<lparr>ae_mac := None\<rparr>)) \<noteq>
      seal_head (mem_seal a)"
    by (simp add: h chain_def chain_input_def basename_def encode_hex_def)
  from lost_reseal_reads_as_tampering [OF _ sample_codec ok e e refl this refl a2] show ?thesis by auto
qed

text \<open>
  Losing the seal hides everything: when \<^verbatim>\<open>audit-seal.json\<close> is missing or fails its own
  verification, the log on disk, whatever its lines say, is adopted as legacy and verification reports
  \<open>Verified\<close>.
\<close>

theorem rejected_seal_verifies:
  assumes "open_sealed None seal_ok p (Some si) f sr = Ok a" and "sr = SealAbsent \<or> sr = SealUnparsable \<or> (\<exists>e. sr = SealRejected e)"
  shows "\<exists>n. verify_log hm enc dec True a = Return (Verified 0 n)"
  using adopted_chained [OF assms(1), of hm enc dec] assms(2) chained_verifies [of hm enc dec si a] by auto

theorem rejected_seal_verifies_witness:
  "\<exists>a n. open_sealed None True [] (Some sample_integrity) (Some [Some [65]]) (SealRejected StateTampered) = Ok a \<and>
     verify_log (\<lambda>k m. m) sample_enc sample_dec True a = Return (Verified 0 n)"
proof -
  obtain a where a: "open_sealed None True [] (Some sample_integrity) (Some [Some [65]]) (SealRejected StateTampered) = Ok a"
    by (simp add: open_sealed_def load_or_adopt_seal_def count_lines_def Let_def)
  from a rejected_seal_verifies [OF a, of "\<lambda>k m. m" sample_enc sample_dec] show ?thesis by blast
qed

end
