(* ===== verification/Approvals.thy ===== *)
theory Approvals
  imports UntrustedText RequestHistory AuditEntry
begin

text \<open>
  Traffic confirmation, \<^verbatim>\<open>crates/aka-core/src/approvals.rs\<close>: prompts that agent calls park on, their
  coalescing, approval windows, denial cooldowns, revocation and release. Each definition is one
  critical section of the registry's mutex together with what follows it before the next one; the
  operations that take the lock twice are split accordingly. A waiter (the sending half of a oneshot
  channel) is a number, \<open>closed\<close> tells which receivers are gone, and \<open>answers\<close> is what was sent. The
  clocks (\<open>now\<close> monotonic, \<open>wall\<close>), the new prompt's UUID and the surface's answer are arguments.
\<close>

subsection \<open>Requests\<close>

record approval_request =
  ar_connection :: connection
  ar_unit :: approval_unit
  ar_agent :: ustring
  ar_summary :: ustring
  ar_detail :: "ustring option"
  ar_credential_names :: "ustring list"
  ar_method :: "ustring option"
  ar_path :: "ustring option"
  ar_host_key_fingerprint :: "ustring option"
  ar_consequence :: "ustring option"

definition new_request :: "connection \<Rightarrow> ustring \<Rightarrow> ustring \<Rightarrow> approval_request" where
  "new_request c agent summary =
     \<lparr>ar_connection = c,
      ar_unit = (case conn_kind c of KindPg \<Rightarrow> UnitSession | KindSsh \<Rightarrow> UnitLogin | KindApi \<Rightarrow> UnitRequest),
      ar_agent = cap_approval_text agent, ar_summary = cap_approval_text summary, ar_detail = None,
      ar_credential_names = [], ar_method = None, ar_path = None, ar_host_key_fingerprint = None,
      ar_consequence = None\<rparr>"

definition request_detail :: "ustring \<Rightarrow> approval_request \<Rightarrow> approval_request" where
  "request_detail d r = r\<lparr>ar_detail := Some (cap_approval_text d)\<rparr>"

definition request_consequence :: "ustring \<Rightarrow> approval_request \<Rightarrow> approval_request" where
  "request_consequence c r = r\<lparr>ar_consequence := Some c\<rparr>"

definition request_tool :: "approval_request \<Rightarrow> approval_request" where
  "request_tool r = r\<lparr>ar_unit := UnitTool\<rparr>"

definition oauth_credential_name :: "connection \<Rightarrow> ustring" where
  "oauth_credential_name c = cap_approval_text
     (case account c of
        Some a \<Rightarrow> ascii ''OAuth sign-in as '' @ a
      | None \<Rightarrow> ascii ''OAuth sign-in for '' @ conn_name c)"

text \<open>\<open>secret_name\<close> is the catalog's answer for a secret id: its name, if it can be read.\<close>

definition credentials_from :: "(uuid \<Rightarrow> ustring option) \<Rightarrow> approval_request \<Rightarrow> approval_request" where
  "credentials_from secret_name r =
     r\<lparr>ar_credential_names :=
        (if conn_oauth (ar_connection r) \<noteq> None then [oauth_credential_name (ar_connection r)]
         else map cap_approval_text (List.map_filter secret_name (conn_secrets (ar_connection r))))\<rparr>"

definition http_operation :: "ustring \<Rightarrow> ustring \<Rightarrow> approval_request \<Rightarrow> approval_request" where
  "http_operation m p r = r\<lparr>ar_method := Some (capped_text m), ar_path := Some (capped_text p)\<rparr>"

definition request_host_key :: "ustring \<Rightarrow> approval_request \<Rightarrow> approval_request" where
  "request_host_key fingerprint r = r\<lparr>ar_unit := UnitHostKey, ar_host_key_fingerprint := Some fingerprint\<rparr>"

definition maybe_detail :: "ustring option \<Rightarrow> approval_request \<Rightarrow> approval_request" where
  "maybe_detail d r = r\<lparr>ar_detail := map_option cap_approval_text d\<rparr>"

subsection \<open>Decisions and verdicts\<close>

datatype approval_decision = ApproveWindow | ApproveAll | Deny

datatype verdict = VAllowed | VDenied | VRevoked | VTimedOut | VUnavailable

datatype approval_handling = Taken | Unavailable | WaivedHandling

definition verdict_is_allowed :: "verdict \<Rightarrow> bool" where
  "verdict_is_allowed v \<longleftrightarrow> v = VAllowed"

definition verdict_reason :: "verdict \<Rightarrow> error_reason option" where
  "verdict_reason v = (case v of
       VAllowed \<Rightarrow> None
     | VDenied \<Rightarrow> Some ApprovalDenied
     | VRevoked \<Rightarrow> Some DeniedByPolicy
     | VTimedOut \<Rightarrow> Some error_reason.ApprovalTimeout
     | VUnavailable \<Rightarrow> Some ApprovalUnavailable)"

definition audit_outcome :: "verdict \<Rightarrow> ustring" where
  "audit_outcome v = (case v of
       VAllowed \<Rightarrow> ascii ''approved'' | VDenied \<Rightarrow> ascii ''denied'' | VRevoked \<Rightarrow> ascii ''denied_by_policy''
     | VTimedOut \<Rightarrow> ascii ''timed_out'' | VUnavailable \<Rightarrow> ascii ''unavailable'')"

subsection \<open>State\<close>

record approval_config =
  timeout :: duration
  surface_grace :: duration
  window :: duration
  deny_cooldown :: duration
  max_pending :: nat
  max_waiters :: nat

type_synonym grant_key = "uuid \<times> ustring"

record prompt =
  p_info :: pending_approval
  p_key :: grant_key
  waiters :: "nat list"
  deadline :: instant

record lapsed =
  l_info :: pending_approval
  l_resolution :: request_resolution

record grant =
  until :: instant
  wall_until :: datetime

datatype approval_event =
    ApprovalRequested pending_approval
  | ApprovalUpdated pending_approval
  | ApprovalResolved uuid request_resolution

record approvals =
  config :: approval_config
  pending :: "(uuid, prompt) hashmap"
  inflight :: "(grant_key, uuid) hashmap"
  grants :: "(grant_key, grant) hashmap"
  cooldowns :: "(uuid, instant) hashmap"
  history :: history
  answers :: "(nat \<times> verdict) list"
  events :: "approval_event list"
  audit :: "audit_entry list"

definition new_approvals :: "approval_config \<Rightarrow> approvals" where
  "new_approvals cfg =
     \<lparr>config = cfg, pending = [], inflight = [], grants = [], cooldowns = [], history = [], answers = [],
      events = [], audit = []\<rparr>"

subsection \<open>Sending and announcing\<close>

definition send_all :: "verdict \<Rightarrow> nat list \<Rightarrow> approvals \<Rightarrow> approvals" where
  "send_all v ws a = a\<lparr>answers := answers a @ map (\<lambda>w. (w, v)) ws\<rparr>"

definition announce_one :: "datetime \<Rightarrow> lapsed \<Rightarrow> approvals \<Rightarrow> approvals" where
  "announce_one wall l a =
     a\<lparr>history := snd (resolve_at (pa_id (l_info l)) (l_resolution l) wall (update_approval (l_info l) (history a))),
       events := events a @ [ApprovalResolved (pa_id (l_info l)) (l_resolution l)]\<rparr>"

definition announce_lapsed :: "datetime \<Rightarrow> lapsed list \<Rightarrow> approvals \<Rightarrow> approvals" where
  "announce_lapsed wall ls a = fold (announce_one wall) ls a"

definition arrow :: "approval_request \<Rightarrow> ustring" where
  "arrow r = ar_agent r @ [32, 0x2192, 32] @ conn_name (ar_connection r)"

definition decision_text :: "verdict \<Rightarrow> ustring option \<Rightarrow> approval_request \<Rightarrow> audit_kind \<times> ustring" where
  "decision_text v note r = (case v of
       VAllowed \<Rightarrow> (KAllowedOnce, ascii ''Confirmed: '' @ arrow r)
     | VDenied \<Rightarrow> (KDenied, ascii ''Refused by the user: '' @ arrow r)
     | VRevoked \<Rightarrow> (KDenied, ascii ''Refused (policy changed): '' @ arrow r)
     | VTimedOut \<Rightarrow> (KApprovalTimeout, ascii ''Confirmation not answered: '' @ arrow r)
     | VUnavailable \<Rightarrow>
         (KDenied,
          if note = Some (ascii ''queue_full'') \<or> note = Some (ascii ''waiter_queue_full'')
          then ascii ''Refused (confirmation queue full): '' @ arrow r
          else ascii ''Refused (nobody could confirm): '' @ arrow r))"

definition audit_decision :: "datetime \<Rightarrow> approval_request \<Rightarrow> verdict \<Rightarrow> ustring option \<Rightarrow> approvals \<Rightarrow> approvals" where
  "audit_decision wall r v note a =
     (let (kind, text) = decision_text v note r;
          e = with_field (ascii ''kind'') (JString (kind_as_str (conn_kind (ar_connection r))))
                (with_outcome (audit_outcome v)
                  (AuditEntry.with_detail (ar_summary r)
                    (with_connection (conn_name (ar_connection r)) (with_agent (ar_agent r) (new_entry wall kind text)))));
          e = (case note of Some n \<Rightarrow> with_field (ascii ''via'') (JString n) e | None \<Rightarrow> e) in
      a\<lparr>audit := audit a @ [e]\<rparr>)"

text \<open>The RFC 3339 text of a time is a parameter.\<close>

definition audit_window_allow :: "(datetime \<Rightarrow> ustring) \<Rightarrow> datetime \<Rightarrow> approval_request \<Rightarrow> grant \<Rightarrow> approvals \<Rightarrow> approvals" where
  "audit_window_allow rfc3339 wall r g a =
     a\<lparr>audit := audit a @
        [with_field (ascii ''window_until'') (JString (rfc3339 (wall_until g)))
          (with_field (ascii ''via'') (JString (ascii ''window''))
            (with_field (ascii ''kind'') (JString (kind_as_str (conn_kind (ar_connection r))))
              (with_outcome (ascii ''approved'')
                (AuditEntry.with_detail (ar_summary r)
                  (with_connection (conn_name (ar_connection r)) (with_agent (ar_agent r)
                    (new_entry wall KAutoAllowed (ascii ''Auto-approved under open window: '' @ arrow r))))))))]\<rparr>"

definition audit_requested :: "(uuid \<Rightarrow> ustring) \<Rightarrow> datetime \<Rightarrow> approval_request \<Rightarrow> uuid \<Rightarrow> approvals \<Rightarrow> approvals" where
  "audit_requested show_uuid wall r i a =
     a\<lparr>audit := audit a @
        [with_field (ascii ''approval_id'') (JString (show_uuid i))
          (with_field (ascii ''kind'') (JString (kind_as_str (conn_kind (ar_connection r))))
            (AuditEntry.with_detail (ar_summary r)
              (with_connection (conn_name (ar_connection r)) (with_agent (ar_agent r)
                (new_entry wall KRequested (ascii ''Confirmation requested: '' @ arrow r))))))]\<rparr>"

subsection \<open>The critical sections\<close>

text \<open>\<open>sweep\<close>: first the dropped receivers leave their prompts, then the lapsed prompts leave the queue.\<close>

definition prompt_expired :: "instant \<Rightarrow> datetime \<Rightarrow> prompt \<Rightarrow> bool" where
  "prompt_expired now wall p \<longleftrightarrow> deadline p \<le> now \<or> pa_expires_at (p_info p) \<le> wall"

definition drop_closed :: "(nat \<Rightarrow> bool) \<Rightarrow> prompt \<Rightarrow> prompt" where
  "drop_closed closed p =
     (let ws = filter (\<lambda>w. \<not> closed w) (waiters p) in
      p\<lparr>waiters := ws, p_info := (p_info p)\<lparr>pa_waiting := length ws\<rparr>\<rparr>)"

definition retire_one :: "uuid \<times> bool \<Rightarrow> approvals \<times> lapsed list \<Rightarrow> approvals \<times> lapsed list" where
  "retire_one = (\<lambda>(i, timed_out) (a, ls).
     case map_of (pending a) i of
       None \<Rightarrow> (a, ls)
     | Some p \<Rightarrow>
         let a = a\<lparr>pending := AList.delete i (pending a), inflight := AList.delete (p_key p) (inflight a)\<rparr>;
             a = (if timed_out then send_all VTimedOut (waiters p) a else a) in
         (a, ls @ [\<lparr>l_info = p_info p, l_resolution = (if timed_out then TimedOut else CallerDisconnected)\<rparr>]))"

definition sweep :: "(nat \<Rightarrow> bool) \<Rightarrow> instant \<Rightarrow> datetime \<Rightarrow> approvals \<Rightarrow> approvals \<times> lapsed list" where
  "sweep closed now wall a =
     (let a = a\<lparr>grants := hm_retain (\<lambda>_ g. until g > now \<and> wall_until g > wall) (grants a),
               cooldowns := hm_retain (\<lambda>_ u. u > now) (cooldowns a),
               pending := hm_map_values (drop_closed closed) (pending a)\<rparr>;
          retired = map (\<lambda>(i, p). (i, prompt_expired now wall p))
            (filter (\<lambda>(_, p). prompt_expired now wall p \<or> waiters p = []) (pending a)) in
      fold retire_one retired (a, []))"

text \<open>\<open>resolve\<close>: hand the verdict to everyone riding the prompt and retire it.\<close>

definition resolve :: "datetime \<Rightarrow> uuid \<Rightarrow> verdict \<Rightarrow> request_resolution \<Rightarrow> approvals \<Rightarrow> approvals" where
  "resolve wall i v res a =
     (case map_of (pending a) i of
        None \<Rightarrow> a
      | Some p \<Rightarrow>
          let a = a\<lparr>pending := AList.delete i (pending a), inflight := AList.delete (p_key p) (inflight a)\<rparr>;
              a = a\<lparr>history := snd (resolve_at i res wall (update_approval (p_info p) (history a)))\<rparr>;
              a = send_all v (waiters p) a in
          a\<lparr>events := events a @ [ApprovalResolved i res]\<rparr>)"

text \<open>The first lock of \<open>gate\<close>: retire what lapsed, then announce it.\<close>

definition gate_sweep :: "(nat \<Rightarrow> bool) \<Rightarrow> instant \<Rightarrow> datetime \<Rightarrow> approvals \<Rightarrow> approvals" where
  "gate_sweep closed now wall a = (case sweep closed now wall a of (a, ls) \<Rightarrow> announce_lapsed wall ls a)"

datatype gate_result =
    Answered verdict
  | Riding uuid instant
  | Raised pending_approval instant

definition waiter_count :: "approvals \<Rightarrow> nat" where
  "waiter_count a = sum_list (map (\<lambda>(_, p). length (waiters p)) (pending a))"

definition prompt_info :: "datetime \<Rightarrow> uuid \<Rightarrow> approval_request \<Rightarrow> approval_config \<Rightarrow> pending_approval" where
  "prompt_info wall i r cfg =
     \<lparr>pa_id = i, pa_connection_id = conn_id (ar_connection r),
      pa_connection = cap_approval_text (conn_name (ar_connection r)), pa_kind = conn_kind (ar_connection r),
      pa_unit = ar_unit r, pa_target = cap_approval_text (conn_target (ar_connection r)),
      pa_agent = cap_approval_text (ar_agent r), pa_summary = ar_summary r, pa_detail = ar_detail r,
      pa_credential_names = ar_credential_names r, pa_method = ar_method r, pa_path = ar_path r,
      pa_host_key_fingerprint = ar_host_key_fingerprint r, pa_consequence = ar_consequence r, pa_waiting = 1,
      pa_requested_at = wall, pa_expires_at = add_std wall (timeout cfg) 90,
      pa_window_secs = window cfg div 1000000000\<rparr>"

text \<open>
  The second lock of \<open>gate\<close> and what follows it up to the surface's hook: \<open>w\<close> is the new waiter, \<open>i\<close>
  the UUID minted for a new prompt. Indexing the pending map through the in-flight index may panic.
\<close>

definition gate_enter ::
    "(datetime \<Rightarrow> ustring) \<Rightarrow> (uuid \<Rightarrow> ustring) \<Rightarrow> instant \<Rightarrow> datetime \<Rightarrow> uuid \<Rightarrow> nat \<Rightarrow> approval_request \<Rightarrow> approvals \<Rightarrow>
     (gate_result \<times> approvals) outcome" where
  "gate_enter rfc3339 show_uuid now wall i w r a =
     (let c = conn_id (ar_connection r); k = (c, ar_agent r) in
      case map_of (grants a) k of
        Some g \<Rightarrow> Return (Answered VAllowed, audit_window_allow rfc3339 wall r g a)
      | None \<Rightarrow>
          if map_of (cooldowns a) c \<noteq> None
          then Return (Answered VDenied, audit_decision wall r VDenied (Some (ascii ''cooldown'')) a)
          else if waiter_count a \<ge> max_waiters (config a)
          then Return (Answered VUnavailable, audit_decision wall r VUnavailable (Some (ascii ''waiter_queue_full'')) a)
          else case map_of (inflight a) k of
            Some j \<Rightarrow>
              (case map_of (pending a) j of
                 None \<Rightarrow> Panic
               | Some p \<Rightarrow>
                   let ws = waiters p @ [w];
                       p = p\<lparr>waiters := ws, p_info := (p_info p)\<lparr>pa_waiting := length ws\<rparr>\<rparr> in
                   Return (Riding j (deadline p),
                     a\<lparr>pending := AList.update j p (pending a), history := update_approval (p_info p) (history a),
                       events := events a @ [ApprovalUpdated (p_info p)]\<rparr>))
          | None \<Rightarrow>
              if length (pending a) \<ge> max_pending (config a)
              then Return (Answered VUnavailable, audit_decision wall r VUnavailable (Some (ascii ''queue_full'')) a)
              else
                let dl = now + timeout (config a);
                    info = prompt_info wall i r (config a);
                    a = a\<lparr>pending := AList.update i \<lparr>p_info = info, p_key = k, waiters = [w], deadline = dl\<rparr> (pending a),
                          inflight := AList.update k i (inflight a)\<rparr>;
                    a = a\<lparr>history := record_approval wall info (history a)\<rparr>;
                    a = audit_requested show_uuid wall r i a in
                Return (Raised info dl, a\<lparr>events := events a @ [ApprovalRequested info]\<rparr>))"

text \<open>The surface's answer to a raised prompt; \<open>Taken\<close> and \<open>Unavailable\<close> leave the prompt to its monitor.\<close>

definition gate_handled ::
    "datetime \<Rightarrow> approval_handling \<Rightarrow> approval_request \<Rightarrow> pending_approval \<Rightarrow> instant \<Rightarrow> approvals \<Rightarrow> gate_result \<times> approvals" where
  "gate_handled wall h r info dl a =
     (case h of
        WaivedHandling \<Rightarrow>
          (Answered VAllowed,
           audit_decision wall r VAllowed (Some (ascii ''waived'')) (resolve wall (pa_id info) VAllowed Waived a))
      | _ \<Rightarrow> (Riding (pa_id info) dl, a))"

text \<open>The end of a parked call: a verdict on the channel, a dropped channel, or its own deadline.\<close>

datatype await = GotVerdict verdict | ChannelDropped | DeadlinePassed

definition gate_finish :: "datetime \<Rightarrow> uuid \<Rightarrow> approval_request \<Rightarrow> await \<Rightarrow> approvals \<Rightarrow> verdict \<times> approvals" where
  "gate_finish wall i r w a =
     (let (v, a) = (case w of
            GotVerdict v \<Rightarrow> (v, a)
          | ChannelDropped \<Rightarrow> (VRevoked, a)
          | DeadlinePassed \<Rightarrow> (VTimedOut, resolve wall i VTimedOut TimedOut a));
          note = (if v = VUnavailable then Some (ascii ''surface_grace_elapsed'') else None) in
      (v, audit_decision wall r v note a))"

text \<open>\<open>respond\<close>: one lock, then history, waiters and event.\<close>

definition decide :: "instant \<Rightarrow> datetime \<Rightarrow> approval_decision \<Rightarrow> prompt \<Rightarrow> approvals \<Rightarrow> approvals" where
  "decide now wall d p a =
     (case d of
        ApproveWindow \<Rightarrow>
          if pa_unit (p_info p) \<noteq> UnitHostKey
          then a\<lparr>grants := AList.update (p_key p)
                  \<lparr>until = now + window (config a), wall_until = add_std wall (window (config a)) 900\<rparr> (grants a)\<rparr>
          else a\<lparr>grants := AList.delete (p_key p) (grants a)\<rparr>
      | ApproveAll \<Rightarrow> a\<lparr>grants := AList.delete (p_key p) (grants a)\<rparr>
      | Deny \<Rightarrow>
          a\<lparr>cooldowns := AList.update (pa_connection_id (p_info p)) (now + deny_cooldown (config a)) (cooldowns a)\<rparr>)"

definition decision_resolution :: "approval_decision \<Rightarrow> request_resolution" where
  "decision_resolution d = (case d of
       ApproveWindow \<Rightarrow> ApprovedForWindow | ApproveAll \<Rightarrow> ApprovedAll | Deny \<Rightarrow> Denied)"

definition respond ::
    "(nat \<Rightarrow> bool) \<Rightarrow> instant \<Rightarrow> datetime \<Rightarrow> uuid \<Rightarrow> approval_decision \<Rightarrow> approvals \<Rightarrow> bool \<times> approvals" where
  "respond closed now wall i d a =
     (case sweep closed now wall a of
        (a, ls) \<Rightarrow>
          (case map_of (pending a) i of
             None \<Rightarrow> (False, announce_lapsed wall ls a)
           | Some p \<Rightarrow>
               let a = a\<lparr>pending := AList.delete i (pending a)\<rparr>;
                   a = (if map_of (inflight a) (p_key p) = Some i
                        then a\<lparr>inflight := AList.delete (p_key p) (inflight a)\<rparr> else a);
                   a = announce_lapsed wall ls (decide now wall d p a);
                   res = decision_resolution d;
                   a = a\<lparr>history := snd (resolve_at i res wall (update_approval (p_info p) (history a)))\<rparr>;
                   a = send_all (if d = Deny then VDenied else VAllowed) (waiters p) a in
               (True, a\<lparr>events := events a @ [ApprovalResolved i res]\<rparr>)))"

subsection \<open>Views\<close>

definition pending_list :: "(nat \<Rightarrow> bool) \<Rightarrow> instant \<Rightarrow> datetime \<Rightarrow> approvals \<Rightarrow> pending_approval list \<times> approvals" where
  "pending_list closed now wall a =
     (case sweep closed now wall a of
        (a, ls) \<Rightarrow>
          let infos = map (\<lambda>(_, p). p_info p) (pending a);
              a = announce_lapsed wall ls a in
          (sort_key pa_requested_at infos, a\<lparr>history := fold update_approval infos (history a)\<rparr>))"

definition request_list :: "(nat \<Rightarrow> bool) \<Rightarrow> instant \<Rightarrow> datetime \<Rightarrow> approvals \<Rightarrow> request_record list \<times> approvals" where
  "request_list closed now wall a =
     (let a = snd (pending_list closed now wall a) in
      case records wall (history a) of (rs, h) \<Rightarrow> (rs, a\<lparr>history := h\<rparr>))"

definition window_remaining ::
    "(nat \<Rightarrow> bool) \<Rightarrow> instant \<Rightarrow> datetime \<Rightarrow> uuid \<Rightarrow> approvals \<Rightarrow> duration option \<times> approvals" where
  "window_remaining closed now wall c a =
     (case sweep closed now wall a of
        (a, ls) \<Rightarrow>
          let left = map (\<lambda>(_, g). min (until g - now) (nat (wall_until g - wall)))
                (filter (\<lambda>((c', _), _). c' = c) (grants a)) in
          (if left = [] then None else Some (Max (set left)), announce_lapsed wall ls a))"

definition window_agents ::
    "(nat \<Rightarrow> bool) \<Rightarrow> instant \<Rightarrow> datetime \<Rightarrow> uuid \<Rightarrow> approvals \<Rightarrow> ustring list \<times> approvals" where
  "window_agents closed now wall c a =
     (case sweep closed now wall a of
        (a, ls) \<Rightarrow>
          (sort (map (\<lambda>((_, agent), _). agent) (filter (\<lambda>((c', _), _). c' = c) (grants a))), announce_lapsed wall ls a))"

definition cooldown_remaining ::
    "(nat \<Rightarrow> bool) \<Rightarrow> instant \<Rightarrow> datetime \<Rightarrow> uuid \<Rightarrow> approvals \<Rightarrow> duration option \<times> approvals" where
  "cooldown_remaining closed now wall c a =
     (case sweep closed now wall a of
        (a, ls) \<Rightarrow> (map_option (\<lambda>u. u - now) (map_of (cooldowns a) c), announce_lapsed wall ls a))"

subsection \<open>Revocation and release\<close>

definition drop_connection :: "uuid \<Rightarrow> approvals \<Rightarrow> uuid list \<times> approvals" where
  "drop_connection c a =
     (map snd (filter (\<lambda>((c', _), _). c' = c) (inflight a)),
      a\<lparr>grants := hm_retain (\<lambda>(c', _) _. c' \<noteq> c) (grants a), cooldowns := AList.delete c (cooldowns a),
        inflight := hm_retain (\<lambda>(c', _) _. c' \<noteq> c) (inflight a)\<rparr>)"

definition resolve_each :: "datetime \<Rightarrow> verdict \<Rightarrow> request_resolution \<Rightarrow> uuid list \<Rightarrow> approvals \<Rightarrow> approvals" where
  "resolve_each wall v res is a = fold (\<lambda>i. resolve wall i v res) is a"

definition revoke_approvals :: "datetime \<Rightarrow> uuid \<Rightarrow> approvals \<Rightarrow> approvals" where
  "revoke_approvals wall c a =
     (case drop_connection c a of (is, a) \<Rightarrow> resolve_each wall VRevoked PolicyChanged is a)"

definition release_as :: "datetime \<Rightarrow> uuid \<Rightarrow> request_resolution \<Rightarrow> approvals \<Rightarrow> approvals" where
  "release_as wall c res a =
     (case drop_connection c a of (is, a) \<Rightarrow> resolve_each wall VAllowed res is a)"

definition release :: "datetime \<Rightarrow> uuid \<Rightarrow> approvals \<Rightarrow> approvals" where
  "release wall c a = release_as wall c ConfirmationDisabled a"

definition drop_everything :: "approvals \<Rightarrow> uuid list \<times> approvals" where
  "drop_everything a = (map fst (pending a), a\<lparr>grants := [], cooldowns := []\<rparr>)"

definition revoke_all_approvals :: "datetime \<Rightarrow> approvals \<Rightarrow> approvals" where
  "revoke_all_approvals wall a =
     (case drop_everything a of (is, a) \<Rightarrow> resolve_each wall VRevoked PolicyChanged is a)"

subsection \<open>The prompt monitor\<close>

text \<open>
  The two loops of the task \<open>monitor_prompt\<close> spawns: \<open>monitor_top\<close> is the test before sleeping,
  \<open>monitor_woken\<close> what follows the sleep. In the grace phase (no surface took the prompt) the grace
  deadline or the prompt's ends the task, and a surface that is back is offered the prompt again
  (\<open>surface\<close>, \<open>None\<close> when there is none). \<open>None\<close> is the end of the task.
\<close>

datatype monitor = Grace instant | Watching

definition monitor_start :: "instant \<Rightarrow> instant \<Rightarrow> bool \<Rightarrow> approvals \<Rightarrow> monitor" where
  "monitor_start now dl initially_unavailable a =
     (if initially_unavailable then Grace (min dl (now + surface_grace (config a))) else Watching)"

definition monitor_top ::
    "instant \<Rightarrow> datetime \<Rightarrow> uuid \<Rightarrow> instant \<Rightarrow> monitor \<Rightarrow> approvals \<Rightarrow> monitor option \<times> approvals" where
  "monitor_top now wall i dl m a =
     (case m of
        Grace gd \<Rightarrow>
          if now \<ge> gd then
            (None, if now \<ge> dl then resolve wall i VTimedOut TimedOut a else resolve wall i VUnavailable NoSurface a)
          else (Some m, a)
      | Watching \<Rightarrow> if now \<ge> dl then (None, resolve wall i VTimedOut TimedOut a) else (Some m, a))"

definition monitor_woken ::
    "(nat \<Rightarrow> bool) \<Rightarrow> instant \<Rightarrow> datetime \<Rightarrow> approval_handling option \<Rightarrow> pending_approval \<Rightarrow> monitor \<Rightarrow> approvals \<Rightarrow>
     monitor option \<times> approvals" where
  "monitor_woken closed now wall surface info m a =
     (case pending_list closed now wall a of
        (ps, a) \<Rightarrow>
          if \<not> list_ex (\<lambda>p. pa_id p = pa_id info) ps then (None, a)
          else case m of
            Watching \<Rightarrow> (Some Watching, a)
          | Grace gd \<Rightarrow>
              (case surface of
                 None \<Rightarrow> (Some m, a)
               | Some h \<Rightarrow>
                   let a = a\<lparr>events := events a @ [ApprovalRequested info]\<rparr> in
                   (case h of
                      Taken \<Rightarrow> (Some Watching, a)
                    | WaivedHandling \<Rightarrow> (None, resolve wall (pa_id info) VAllowed Waived a)
                    | Unavailable \<Rightarrow> (Some m, a))))"

subsection \<open>The registry as a transition system\<close>

text \<open>
  The steps are the critical sections, in any order and with any clocks and dropped receivers: the
  sweeps of \<open>gate\<close>, \<open>pending\<close> and the views, the second half of \<open>gate\<close> (the minted UUID is new),
  \<open>resolve\<close> (surface, deadline and monitor), \<open>respond\<close>, and the first halves of \<open>revoke\<close>, \<open>release\<close> and
  \<open>revoke_all\<close>, whose second halves are \<open>resolve\<close> steps.
\<close>

inductive approval_step :: "approvals \<Rightarrow> approvals \<Rightarrow> bool" where
  st_sweep: "approval_step a (gate_sweep closed now wall a)"
| st_enter: "map_of (pending a) i = None \<Longrightarrow> gate_enter rfc sh now wall i w r a = Return (g, a') \<Longrightarrow> approval_step a a'"
| st_resolve: "approval_step a (resolve wall i v res a)"
| st_respond: "approval_step a (snd (respond closed now wall i d a))"
| st_drop_connection: "approval_step a (snd (drop_connection c a))"
| st_drop_everything: "approval_step a (snd (drop_everything a))"

definition index_ok :: "approvals \<Rightarrow> bool" where
  "index_ok a \<longleftrightarrow> hm_wf (pending a) \<and> hm_wf (inflight a) \<and> hm_wf (grants a) \<and> hm_wf (cooldowns a) \<and>
     (\<forall>k i. map_of (inflight a) k = Some i \<longrightarrow> (\<exists>p. map_of (pending a) i = Some p \<and> p_key p = k))"

definition queue_ok :: "approvals \<Rightarrow> bool" where
  "queue_ok a \<longleftrightarrow> waiter_count a \<le> max_waiters (config a) \<and> length (pending a) \<le> max_pending (config a)"

text \<open>The bookkeeping after a prompt left the queue touches neither index nor queue.\<close>

definition same_registry :: "approvals \<Rightarrow> approvals \<Rightarrow> bool" where
  "same_registry a b \<longleftrightarrow> pending a = pending b \<and> inflight a = inflight b \<and> grants a = grants b \<and>
     cooldowns a = cooldowns b \<and> config a = config b"

lemma same_registryD:
  assumes "same_registry a b"
  shows "index_ok a = index_ok b" "queue_ok a = queue_ok b" "waiter_count a = waiter_count b"
  using assms by (auto simp: same_registry_def index_ok_def queue_ok_def waiter_count_def)

lemma same_registry_refl [simp]: "same_registry a a"
  by (simp add: same_registry_def)

lemma send_all_frame [simp]:
  "pending (send_all v ws a) = pending a" "inflight (send_all v ws a) = inflight a" "grants (send_all v ws a) = grants a"
  "cooldowns (send_all v ws a) = cooldowns a" "config (send_all v ws a) = config a" "history (send_all v ws a) = history a"
  "answers (send_all v ws a) = answers a @ map (\<lambda>w. (w, v)) ws" "events (send_all v ws a) = events a"
  by (simp_all add: send_all_def)

lemma announce_frame [simp]:
  "pending (announce_lapsed wall ls a) = pending a" "inflight (announce_lapsed wall ls a) = inflight a"
  "grants (announce_lapsed wall ls a) = grants a" "cooldowns (announce_lapsed wall ls a) = cooldowns a"
  "config (announce_lapsed wall ls a) = config a" "answers (announce_lapsed wall ls a) = answers a"
  by (induction ls arbitrary: a) (simp_all add: announce_lapsed_def announce_one_def)

lemma audit_frame [simp]:
  "pending (audit_decision wall r v n a) = pending a" "inflight (audit_decision wall r v n a) = inflight a"
  "grants (audit_decision wall r v n a) = grants a" "cooldowns (audit_decision wall r v n a) = cooldowns a"
  "config (audit_decision wall r v n a) = config a"
  "pending (audit_window_allow rfc wall r g a) = pending a" "inflight (audit_window_allow rfc wall r g a) = inflight a"
  "grants (audit_window_allow rfc wall r g a) = grants a" "cooldowns (audit_window_allow rfc wall r g a) = cooldowns a"
  "config (audit_window_allow rfc wall r g a) = config a"
  "pending (audit_requested sh wall r i a) = pending a" "inflight (audit_requested sh wall r i a) = inflight a"
  "grants (audit_requested sh wall r i a) = grants a" "cooldowns (audit_requested sh wall r i a) = cooldowns a"
  "config (audit_requested sh wall r i a) = config a"
  by (simp_all add: audit_decision_def audit_window_allow_def audit_requested_def Let_def split: prod.splits)

text \<open>Taking a prompt out of the queue and its key out of the index.\<close>

definition retired_from :: "uuid \<Rightarrow> prompt \<Rightarrow> approvals \<Rightarrow> approvals" where
  "retired_from i p a = a\<lparr>pending := AList.delete i (pending a), inflight := AList.delete (p_key p) (inflight a)\<rparr>"

lemma sum_delete_le: "sum_list (map f (AList.delete i m)) \<le> (sum_list (map f m) :: nat)"
  by (induction m) (auto simp: AList.delete_eq)

lemma queue_ok_delete: "queue_ok a \<Longrightarrow> queue_ok (a\<lparr>pending := AList.delete i (pending a), inflight := m\<rparr>)"
  using sum_delete_le [of "\<lambda>(_, p). length (waiters p)" i "pending a"] length_AList_delete_le [of i "pending a"]
  by (simp add: queue_ok_def waiter_count_def)

lemma index_okD:
  "index_ok a \<Longrightarrow> map_of (inflight a) k = Some i \<Longrightarrow> \<exists>p. map_of (pending a) i = Some p \<and> p_key p = k"
  unfolding index_ok_def by blast

lemma index_okI:
  assumes "hm_wf (pending a)" "hm_wf (inflight a)" "hm_wf (grants a)" "hm_wf (cooldowns a)"
    and "\<And>k i. map_of (inflight a) k = Some i \<Longrightarrow> \<exists>p. map_of (pending a) i = Some p \<and> p_key p = k"
  shows "index_ok a"
  unfolding index_ok_def using assms by blast

lemma index_ok_wf:
  "index_ok a \<Longrightarrow> hm_wf (pending a)" "index_ok a \<Longrightarrow> hm_wf (inflight a)" "index_ok a \<Longrightarrow> hm_wf (grants a)"
  "index_ok a \<Longrightarrow> hm_wf (cooldowns a)"
  by (simp_all add: index_ok_def)

lemma index_ok_retired:
  assumes "index_ok a" and "map_of (pending a) i = Some p"
  shows "index_ok (retired_from i p a)"
proof (rule index_okI)
  fix k j assume "map_of (inflight (retired_from i p a)) k = Some j"
  then have k: "k \<noteq> p_key p" "map_of (inflight a) k = Some j"
    by (simp_all add: retired_from_def map_of_delete_eq split: if_splits)
  from index_okD [OF assms(1) k(2)] obtain q where q: "map_of (pending a) j = Some q" "p_key q = k" by blast
  then have "j \<noteq> i" using assms(2) k(1) by auto
  with q show "\<exists>p'. map_of (pending (retired_from i p a)) j = Some p' \<and> p_key p' = k"
    by (simp add: retired_from_def map_of_delete_eq)
qed (use index_ok_wf [OF assms(1)] in \<open>simp_all add: retired_from_def\<close>)

lemma index_ok_delete_pending:
  assumes "index_ok a" and "map_of (pending a) i = Some p" and "map_of (inflight a) (p_key p) \<noteq> Some i"
  shows "index_ok (a\<lparr>pending := AList.delete i (pending a)\<rparr>)"
proof (rule index_okI)
  fix k j assume "map_of (inflight (a\<lparr>pending := AList.delete i (pending a)\<rparr>)) k = Some j"
  then have k: "map_of (inflight a) k = Some j" by simp
  from index_okD [OF assms(1) k] obtain q where q: "map_of (pending a) j = Some q" "p_key q = k" by blast
  then have "j \<noteq> i" using assms(2,3) k by auto
  with q show "\<exists>p'. map_of (pending (a\<lparr>pending := AList.delete i (pending a)\<rparr>)) j = Some p' \<and> p_key p' = k"
    by (simp add: map_of_delete_eq)
qed (use index_ok_wf [OF assms(1)] in simp_all)

lemma retire_one_ok:
  assumes "retire_one x (a, ls) = (a', ls')" and "index_ok a" and "queue_ok a"
  shows "index_ok a' \<and> queue_ok a' \<and> grants a' = grants a \<and> cooldowns a' = cooldowns a \<and> config a' = config a"
proof -
  obtain i t where x: "x = (i, t)" by (cases x)
  show ?thesis
  proof (cases "map_of (pending a) i")
    case None
    with assms x show ?thesis by (auto simp: retire_one_def)
  next
    case (Some p)
    have ok: "index_ok (retired_from i p a)" "queue_ok (retired_from i p a)"
      using index_ok_retired [OF assms(2) Some] queue_ok_delete [OF assms(3)] by (simp_all add: retired_from_def)
    from assms(1) Some x have "same_registry a' (retired_from i p a)"
      by (auto simp: retire_one_def Let_def retired_from_def same_registry_def split: if_splits)
    with ok show ?thesis using same_registryD [of a' "retired_from i p a"]
      by (auto simp: same_registry_def retired_from_def)
  qed
qed

lemma retire_all_ok:
  assumes "fold retire_one xs (a, ls) = (a', ls')" and "index_ok a" and "queue_ok a"
  shows "index_ok a' \<and> queue_ok a' \<and> grants a' = grants a \<and> cooldowns a' = cooldowns a \<and> config a' = config a"
  using assms
proof (induction xs arbitrary: a ls)
  case (Cons x xs)
  obtain a1 ls1 where r: "retire_one x (a, ls) = (a1, ls1)" by fastforce
  from retire_one_ok [OF this Cons.prems(2,3)] Cons.IH [of a1 ls1] Cons.prems(1) r show ?case by simp
qed simp

definition swept :: "(nat \<Rightarrow> bool) \<Rightarrow> instant \<Rightarrow> datetime \<Rightarrow> approvals \<Rightarrow> approvals" where
  "swept closed now wall a = a\<lparr>grants := hm_retain (\<lambda>_ g. until g > now \<and> wall_until g > wall) (grants a),
     cooldowns := hm_retain (\<lambda>_ u. u > now) (cooldowns a), pending := hm_map_values (drop_closed closed) (pending a)\<rparr>"

lemma drop_closed_key [simp]: "p_key (drop_closed closed p) = p_key p"
  by (simp add: drop_closed_def Let_def)

lemma waiters_drop_closed_le:
  "sum_list (map (\<lambda>(_, p). length (waiters p)) (hm_map_values (drop_closed closed) m)) \<le>
   sum_list (map (\<lambda>(_, p). length (waiters p)) m)"
  by (induction m) (auto simp: hm_map_values_def drop_closed_def Let_def intro: add_mono)

lemma swept_ok:
  assumes "index_ok a" and "queue_ok a"
  shows "index_ok (swept closed now wall a)" and "queue_ok (swept closed now wall a)"
proof -
  show "index_ok (swept closed now wall a)"
  proof (rule index_okI)
    fix k i assume "map_of (inflight (swept closed now wall a)) k = Some i"
    then have "map_of (inflight a) k = Some i" by (simp add: swept_def)
    from index_okD [OF assms(1) this]
    show "\<exists>p. map_of (pending (swept closed now wall a)) i = Some p \<and> p_key p = k"
      by (auto simp: swept_def map_of_hm_map_values)
  qed (use index_ok_wf [OF assms(1)] in \<open>simp_all add: swept_def hm_wf_retain\<close>)
  show "queue_ok (swept closed now wall a)"
    using assms(2) waiters_drop_closed_le [of closed "pending a"]
    by (auto simp: queue_ok_def swept_def waiter_count_def)
qed

lemma sweep_ok:
  assumes "sweep closed now wall a = (a', ls)" and "index_ok a" and "queue_ok a"
  shows "index_ok a' \<and> queue_ok a' \<and> config a' = config a \<and>
    grants a' = hm_retain (\<lambda>_ g. until g > now \<and> wall_until g > wall) (grants a) \<and>
    cooldowns a' = hm_retain (\<lambda>_ u. u > now) (cooldowns a)"
proof -
  let ?s = "swept closed now wall a"
  obtain xs where "fold retire_one xs (?s, []) = (a', ls)"
    using assms(1) by (auto simp: sweep_def Let_def swept_def)
  from retire_all_ok [OF this] swept_ok [OF assms(2,3)] show ?thesis by (simp add: swept_def)
qed

definition approvals_ok :: "approvals \<Rightarrow> bool" where
  "approvals_ok a \<longleftrightarrow> index_ok a \<and> queue_ok a"

lemma approvals_ok_cong: "same_registry a b \<Longrightarrow> approvals_ok b \<Longrightarrow> approvals_ok a"
  using same_registryD [of a b] by (simp add: approvals_ok_def)

lemma gate_sweep_ok:
  assumes "approvals_ok a"
  shows "approvals_ok (gate_sweep closed now wall a)"
proof -
  obtain a1 ls where s: "sweep closed now wall a = (a1, ls)" by fastforce
  have "approvals_ok a1" using sweep_ok [OF s] assms by (simp add: approvals_ok_def)
  then show ?thesis by (rule approvals_ok_cong [rotated]) (simp add: gate_sweep_def s same_registry_def)
qed

lemma resolve_ok:
  assumes "approvals_ok a"
  shows "approvals_ok (resolve wall i v res a)"
proof (cases "map_of (pending a) i")
  case None
  with assms show ?thesis by (simp add: resolve_def)
next
  case (Some p)
  have "approvals_ok (retired_from i p a)"
    using index_ok_retired [OF _ Some] queue_ok_delete assms by (simp add: approvals_ok_def retired_from_def)
  then show ?thesis
    by (rule approvals_ok_cong [rotated]) (simp add: resolve_def Some Let_def retired_from_def same_registry_def)
qed

lemma decide_ok:
  assumes "approvals_ok a"
  shows "approvals_ok (decide now wall d p a)"
proof -
  have "index_ok (decide now wall d p a)"
  proof (rule index_okI)
    fix k i assume "map_of (inflight (decide now wall d p a)) k = Some i"
    then have "map_of (inflight a) k = Some i" by (simp add: decide_def split: approval_decision.splits if_splits)
    from index_okD [OF _ this] assms
    show "\<exists>q. map_of (pending (decide now wall d p a)) i = Some q \<and> p_key q = k"
      by (simp add: approvals_ok_def decide_def split: approval_decision.split)
  qed (use index_ok_wf assms in \<open>auto simp: approvals_ok_def decide_def split: approval_decision.splits\<close>)
  with assms show ?thesis
    by (auto simp: approvals_ok_def decide_def queue_ok_def waiter_count_def split: approval_decision.splits)
qed

text \<open>What \<open>respond\<close> does to the registry after its sweep.\<close>

definition taken_by :: "uuid \<Rightarrow> prompt \<Rightarrow> approvals \<Rightarrow> approvals" where
  "taken_by i p a = (if map_of (inflight a) (p_key p) = Some i then retired_from i p a
     else a\<lparr>pending := AList.delete i (pending a)\<rparr>)"

lemma taken_by_ok:
  assumes "approvals_ok a" and "map_of (pending a) i = Some p"
  shows "approvals_ok (taken_by i p a)"
proof (cases "map_of (inflight a) (p_key p) = Some i")
  case True
  with assms index_ok_retired [OF _ assms(2)] queue_ok_delete show ?thesis
    by (simp add: approvals_ok_def taken_by_def retired_from_def)
next
  case False
  then show ?thesis
    using assms index_ok_delete_pending [OF _ assms(2)] queue_ok_delete [where a = a and i = i and m = "inflight a"]
    by (simp add: approvals_ok_def taken_by_def)
qed

lemma respond_cases:
  assumes "sweep closed now wall a = (a1, ls)"
  obtains (absent) "map_of (pending a1) i = None" "fst (respond closed now wall i d a) = False"
      "same_registry (snd (respond closed now wall i d a)) a1"
  | (present) p where "map_of (pending a1) i = Some p" "fst (respond closed now wall i d a) = True"
      "same_registry (snd (respond closed now wall i d a)) (decide now wall d p (taken_by i p a1))"
proof (cases "map_of (pending a1) i")
  case None
  then show thesis using that(1) assms by (simp add: respond_def same_registry_def)
next
  case (Some p)
  show thesis
    by (rule that(2) [OF Some])
      (simp_all add: respond_def assms Some Let_def same_registry_def decide_def taken_by_def retired_from_def
        split: approval_decision.split)
qed

lemma respond_ok:
  assumes "approvals_ok a"
  shows "approvals_ok (snd (respond closed now wall i d a))"
proof -
  obtain a1 ls where s: "sweep closed now wall a = (a1, ls)" by fastforce
  have ok: "approvals_ok a1" using sweep_ok [OF s] assms by (simp add: approvals_ok_def)
  show ?thesis
    by (cases rule: respond_cases [OF s, of i d])
      (use ok decide_ok taken_by_ok approvals_ok_cong in blast)+
qed

lemma waiter_sum_update:
  "sum_list (map (\<lambda>(_, p). length (waiters p)) (AList.update k v m)) +
     (case map_of m k of Some q \<Rightarrow> length (waiters q) | None \<Rightarrow> 0) =
   sum_list (map (\<lambda>(_, p). length (waiters p)) m) + length (waiters v)"
  by (induction m) (auto split: option.splits)

lemma gate_enter_ok:
  assumes ok: "approvals_ok a" and fresh: "map_of (pending a) i = None"
    and g: "gate_enter rfc sh now wall i w r a = Return (g, a')"
  shows "approvals_ok a'"
proof -
  let ?k = "(conn_id (ar_connection r), ar_agent r)"
  consider (answered) "same_registry a' a"
    | (riding) j p where "map_of (pending a) j = Some p" "waiter_count a < max_waiters (config a)"
        "same_registry a' (a\<lparr>pending := AList.update j (p\<lparr>waiters := waiters p @ [w],
           p_info := (p_info p)\<lparr>pa_waiting := length (waiters p @ [w])\<rparr>\<rparr>) (pending a)\<rparr>)"
    | (raised) q where "waiter_count a < max_waiters (config a)" "length (pending a) < max_pending (config a)"
        "p_key q = ?k" "waiters q = [w]"
        "same_registry a' (a\<lparr>pending := AList.update i q (pending a), inflight := AList.update ?k i (inflight a)\<rparr>)"
  proof (cases "map_of (grants a) ?k \<noteq> None \<or> map_of (cooldowns a) (conn_id (ar_connection r)) \<noteq> None \<or>
      waiter_count a \<ge> max_waiters (config a)")
    case True
    with g show thesis
      by (intro answered) (auto simp: gate_enter_def Let_def same_registry_def split: option.splits if_splits)
  next
    case False
    show thesis
    proof (cases "map_of (inflight a) ?k")
      case (Some j)
      with False g obtain p where p: "map_of (pending a) j = Some p"
        by (auto simp: gate_enter_def Let_def split: option.splits)
      with False g Some show thesis
        by (intro riding [OF p]) (auto simp: gate_enter_def Let_def same_registry_def)
    next
      case None
      show thesis
      proof (cases "length (pending a) \<ge> max_pending (config a)")
        case True
        with False None g show thesis by (intro answered) (auto simp: gate_enter_def Let_def same_registry_def)
      next
        case nf: False
        with False None g show thesis
          by (intro raised [of "\<lparr>p_info = prompt_info wall i r (config a), p_key = ?k, waiters = [w],
              deadline = now + timeout (config a)\<rparr>"]) (auto simp: gate_enter_def Let_def same_registry_def)
      qed
    qed
  qed
  then show ?thesis
  proof cases
    case answered
    with ok show ?thesis by (rule approvals_ok_cong [rotated])
  next
    case (riding j p)
    let ?p = "p\<lparr>waiters := waiters p @ [w], p_info := (p_info p)\<lparr>pa_waiting := length (waiters p @ [w])\<rparr>\<rparr>"
    let ?a = "a\<lparr>pending := AList.update j ?p (pending a)\<rparr>"
    have "index_ok ?a"
    proof (rule index_okI)
      fix k n assume "map_of (inflight ?a) k = Some n"
      then have "map_of (inflight a) k = Some n" by simp
      from index_okD [OF _ this] ok riding(1) show "\<exists>q. map_of (pending ?a) n = Some q \<and> p_key q = k"
        by (auto simp: approvals_ok_def map_of_update_eq)
    qed (use index_ok_wf ok in \<open>auto simp: approvals_ok_def\<close>)
    moreover have "queue_ok ?a"
      using ok riding(1,2) waiter_sum_update [of j ?p "pending a"]
      by (simp add: approvals_ok_def queue_ok_def waiter_count_def length_AList_update)
    ultimately have "approvals_ok ?a" by (simp add: approvals_ok_def)
    with riding(3) show ?thesis by (rule approvals_ok_cong)
  next
    case (raised q)
    let ?a = "a\<lparr>pending := AList.update i q (pending a), inflight := AList.update ?k i (inflight a)\<rparr>"
    have "index_ok ?a"
    proof (rule index_okI)
      fix k n assume k: "map_of (inflight ?a) k = Some n"
      show "\<exists>p. map_of (pending ?a) n = Some p \<and> p_key p = k"
      proof (cases "k = ?k")
        case True
        with k raised(3) show ?thesis by (simp add: map_of_update_eq)
      next
        case False
        with k have "map_of (inflight a) k = Some n" by (simp add: map_of_update_eq)
        from index_okD [OF _ this] ok fresh show ?thesis by (auto simp: approvals_ok_def map_of_update_eq)
      qed
    qed (use index_ok_wf ok in \<open>auto simp: approvals_ok_def\<close>)
    moreover have "queue_ok ?a"
      using ok raised(1,2,4) fresh waiter_sum_update [of i q "pending a"]
      by (simp add: approvals_ok_def queue_ok_def waiter_count_def length_AList_update)
    ultimately have "approvals_ok ?a" by (simp add: approvals_ok_def)
    with raised(5) show ?thesis by (rule approvals_ok_cong)
  qed
qed

lemma drop_ok:
  assumes "approvals_ok a"
  shows "approvals_ok (snd (drop_connection c a))" and "approvals_ok (snd (drop_everything a))"
proof -
  have wf: "hm_wf (inflight a)" using index_ok_wf(2) assms by (simp add: approvals_ok_def)
  have "index_ok (snd (drop_connection c a))"
  proof (rule index_okI)
    fix k i assume "map_of (inflight (snd (drop_connection c a))) k = Some i"
    then have "map_of (inflight a) k = Some i"
      by (auto simp: drop_connection_def map_of_hm_retain [OF wf] split: option.splits if_splits)
    from index_okD [OF _ this] assms
    show "\<exists>p. map_of (pending (snd (drop_connection c a))) i = Some p \<and> p_key p = k"
      by (simp add: approvals_ok_def drop_connection_def)
  qed (use index_ok_wf assms in \<open>auto simp: approvals_ok_def drop_connection_def\<close>)
  then show "approvals_ok (snd (drop_connection c a))"
    using assms by (simp add: approvals_ok_def queue_ok_def waiter_count_def drop_connection_def)
  show "approvals_ok (snd (drop_everything a))"
    using assms by (simp add: approvals_ok_def index_ok_def queue_ok_def waiter_count_def drop_everything_def)
qed

lemma approval_step_ok: "approval_step a a' \<Longrightarrow> approvals_ok a \<Longrightarrow> approvals_ok a'"
  by (induction rule: approval_step.induct)
    (simp_all add: gate_sweep_ok resolve_ok respond_ok drop_ok gate_enter_ok)

lemma retire_all_config: "config (fst (fold retire_one xs (a, ls))) = config a"
proof (induction xs arbitrary: a ls)
  case (Cons x xs)
  obtain i t where x: "x = (i, t)" by (cases x)
  obtain a1 ls1 where r: "retire_one x (a, ls) = (a1, ls1)" by fastforce
  then have "config a1 = config a"
    by (auto simp: retire_one_def x Let_def split: option.splits if_splits)
  with Cons.IH [of a1 ls1] r show ?case by simp
qed simp

lemma sweep_config: "sweep closed now wall a = (a1, ls) \<Longrightarrow> config a1 = config a"
  using retire_all_config by (fastforce simp: sweep_def Let_def dest: arg_cong [of _ _ fst])

lemma approval_step_config: "approval_step a a' \<Longrightarrow> config a' = config a"
proof (induction rule: approval_step.induct)
  case (st_sweep a closed now wall)
  then show ?case using sweep_config by (auto simp: gate_sweep_def split: prod.split)
next
  case (st_respond a closed now wall i d)
  obtain a1 ls where s: "sweep closed now wall a = (a1, ls)" by fastforce
  from sweep_config [OF this] show ?case
    by (cases rule: respond_cases [OF s, of i d])
      (auto simp: same_registry_def decide_def taken_by_def retired_from_def split: approval_decision.splits)
qed (auto simp: gate_enter_def resolve_def drop_connection_def drop_everything_def Let_def split: option.splits if_splits)

interpretation approval_life: invariant_system approval_step "\<lambda>a. approvals_ok a \<and> config a = cfg" for cfg
  by unfold_locales (use approval_step_ok approval_step_config in auto)

lemma gate_enter_no_panic:
  assumes "index_ok a"
  shows "gate_enter rfc sh now wall i w r a \<noteq> Panic"
  using index_okD [OF assms, of "(conn_id (ar_connection r), ar_agent r)"]
  by (auto simp: gate_enter_def Let_def split: option.splits)

subsection \<open>What stays after a sweep\<close>

lemma retire_all_pending:
  "map_of (pending (fst (fold retire_one xs (a, ls)))) i = (if i \<in> fst ` set xs then None else map_of (pending a) i)"
proof (induction xs arbitrary: a ls)
  case (Cons x xs)
  obtain j t where x: "x = (j, t)" by (cases x)
  obtain a1 ls1 where r: "retire_one x (a, ls) = (a1, ls1)" by fastforce
  have "map_of (pending a1) i = (if i = j then None else map_of (pending a) i)"
    using r by (auto simp: retire_one_def x Let_def map_of_delete_eq split: option.splits if_splits)
  with Cons.IH [of a1 ls1] r x show ?case by auto
qed simp

lemma swept_prompts:
  assumes "sweep closed now wall a = (a1, ls)"
  shows "map_of (pending a1) i = (case map_of (pending a) i of
      None \<Rightarrow> None
    | Some p \<Rightarrow>
        let q = drop_closed closed p in
        if (i, q) \<in> set (hm_map_values (drop_closed closed) (pending a)) \<and> (prompt_expired now wall q \<or> waiters q = [])
        then None else if \<exists>q'. (i, q') \<in> set (hm_map_values (drop_closed closed) (pending a)) \<and>
          (prompt_expired now wall q' \<or> waiters q' = []) then None else Some q)"
proof -
  let ?m = "hm_map_values (drop_closed closed) (pending a)"
  let ?xs = "map (\<lambda>(i, p). (i, prompt_expired now wall p)) (filter (\<lambda>(_, p). prompt_expired now wall p \<or> waiters p = []) ?m)"
  have "a1 = fst (fold retire_one ?xs (swept closed now wall a, []))"
    using assms by (simp add: sweep_def Let_def swept_def)
  then have "map_of (pending a1) i = (if i \<in> fst ` set ?xs then None else map_of ?m i)"
    by (simp add: retire_all_pending) (simp add: swept_def)
  moreover have "i \<in> fst ` set ?xs \<longleftrightarrow> (\<exists>q. (i, q) \<in> set ?m \<and> (prompt_expired now wall q \<or> waiters q = []))"
    by (force simp: image_iff)
  ultimately show ?thesis by (auto simp: map_of_hm_map_values Let_def split: option.splits)
qed

lemma swept_prompt:
  assumes "sweep closed now wall a = (a1, ls)" and "hm_wf (pending a)"
  shows "map_of (pending a1) i = (case map_of (pending a) i of
      None \<Rightarrow> None
    | Some p \<Rightarrow>
        if prompt_expired now wall p \<or> list_all closed (waiters p) then None else Some (drop_closed closed p))"
proof -
  let ?m = "hm_map_values (drop_closed closed) (pending a)"
  have "distinct (map fst ?m)" using assms(2) by (simp add: hm_wf_def)
  then have mem: "(i, q) \<in> set ?m \<longleftrightarrow> map_option (drop_closed closed) (map_of (pending a) i) = Some q" for q
    by (metis map_of_eq_Some_iff map_of_hm_map_values)
  have "prompt_expired now wall (drop_closed closed p) = prompt_expired now wall p"
    "waiters (drop_closed closed p) = [] \<longleftrightarrow> list_all closed (waiters p)" for p
    by (auto simp: drop_closed_def Let_def prompt_expired_def filter_empty_conv list_all_iff)
  then show ?thesis unfolding swept_prompts [OF assms(1)] mem by (auto simp: Let_def split: option.splits)
qed

lemma resolve_grants [simp]: "grants (resolve wall i v res a) = grants a"
  by (simp add: resolve_def Let_def split: option.split)

lemma resolve_each_grants [simp]: "grants (resolve_each wall v res is a) = grants a"
  by (induction "is" arbitrary: a) (simp_all add: resolve_each_def)

lemma resolve_pending:
  "map_of (pending (resolve wall i v res a)) j = (if j = i then None else map_of (pending a) j)"
  by (simp add: resolve_def Let_def map_of_delete_eq split: option.split)

lemma resolve_each_pending:
  "map_of (pending (resolve_each wall v res is a)) j = (if j \<in> set is then None else map_of (pending a) j)"
  by (induction "is" arbitrary: a) (simp_all add: resolve_each_def resolve_pending)

lemma resolve_answers:
  "set (answers (resolve wall i v res a)) =
     set (answers a) \<union> (case map_of (pending a) i of Some p \<Rightarrow> (\<lambda>w. (w, v)) ` set (waiters p) | None \<Rightarrow> {})"
  by (simp add: resolve_def Let_def split: option.split)

lemma resolve_each_keeps_answers: "set (answers a) \<subseteq> set (answers (resolve_each wall v res is a))"
proof (induction "is" arbitrary: a)
  case (Cons i "is")
  from Cons.IH [of "resolve wall i v res a"] show ?case by (simp add: resolve_each_def resolve_answers)
qed (simp add: resolve_each_def)

lemma resolve_each_answers:
  assumes "map_of (pending a) i = Some p" and "i \<in> set is" and "w \<in> set (waiters p)"
  shows "(w, v) \<in> set (answers (resolve_each wall v res is a))"
  using assms
proof (induction "is" arbitrary: a)
  case (Cons j "is")
  show ?case
  proof (cases "i = j")
    case True
    have "(w, v) \<in> set (answers (resolve wall i v res a))"
      using Cons.prems(1,3) by (simp add: resolve_answers)
    then show ?thesis
      using resolve_each_keeps_answers [of "resolve wall i v res a" wall v res "is"] True
      by (auto simp: resolve_each_def)
  next
    case False
    with Cons.prems Cons.IH [of "resolve wall j v res a"] show ?thesis
      by (simp add: resolve_each_def resolve_pending)
  qed
qed simp

lemma resolve_inflight:
  "map_of (inflight (resolve wall i v res a)) k =
     (case map_of (pending a) i of Some p \<Rightarrow> if k = p_key p then None else map_of (inflight a) k
      | None \<Rightarrow> map_of (inflight a) k)"
  by (simp add: resolve_def Let_def map_of_delete_eq split: option.split)

lemma resolve_each_inflight_none:
  "map_of (inflight a) k = None \<Longrightarrow> map_of (inflight (resolve_each wall v res is a)) k = None"
proof (induction "is" arbitrary: a)
  case (Cons i "is")
  from Cons.prems have "map_of (inflight (resolve wall i v res a)) k = None"
    by (simp add: resolve_inflight split: option.split)
  from Cons.IH [OF this] show ?case by (simp add: resolve_each_def)
qed (simp add: resolve_each_def)

lemma resolve_each_inflight_other:
  assumes "\<And>i p. i \<in> set is \<Longrightarrow> map_of (pending a) i = Some p \<Longrightarrow> p_key p \<noteq> k"
  shows "map_of (inflight (resolve_each wall v res is a)) k = map_of (inflight a) k"
  using assms
proof (induction "is" arbitrary: a)
  case (Cons i "is")
  have "map_of (inflight (resolve_each wall v res is (resolve wall i v res a))) k = map_of (inflight (resolve wall i v res a)) k"
    by (rule Cons.IH) (use Cons.prems in \<open>auto simp: resolve_pending split: if_splits\<close>)
  also have "\<dots> = map_of (inflight a) k"
    using Cons.prems [of i] by (auto simp: resolve_inflight split: option.split)
  finally show ?case by (simp add: resolve_each_def)
qed (simp add: resolve_each_def)

lemma resolve_cooldowns [simp]: "cooldowns (resolve wall i v res a) = cooldowns a"
  by (simp add: resolve_def Let_def split: option.split)

lemma resolve_each_cooldowns [simp]: "cooldowns (resolve_each wall v res is a) = cooldowns a"
  by (induction "is" arbitrary: a) (simp_all add: resolve_each_def)

lemma reachable_ok:
  assumes "reaches approval_step (new_approvals cfg) a"
  shows "approvals_ok a" and "config a = cfg" and "index_ok a"
proof -
  have "approvals_ok (new_approvals cfg) \<and> config (new_approvals cfg) = cfg"
    by (simp add: approvals_ok_def new_approvals_def index_ok_def queue_ok_def waiter_count_def)
  from approval_life.reaches_inv [OF assms this]
  show "approvals_ok a" "config a = cfg" "index_ok a" by (simp_all add: approvals_ok_def)
qed

lemma drop_connection_asked:
  assumes "reaches approval_step (new_approvals cfg) a" and "drop_connection c a = (is, a1)"
  shows "i \<in> set is \<longleftrightarrow> (\<exists>agent. map_of (inflight a) (c, agent) = Some i)"
proof -
  have "distinct (map fst (inflight a))"
    using index_ok_wf(2) [OF reachable_ok(3) [OF assms(1)]] by (simp add: hm_wf_def)
  then have "map_of (inflight a) (c, agent) = Some i \<longleftrightarrow> ((c, agent), i) \<in> set (inflight a)" for agent
    by (simp add: map_of_eq_Some_iff)
  then show ?thesis using assms(2) by (force simp: drop_connection_def)
qed

subsection \<open>A concrete registry\<close>

definition sample_tool :: connection where
  "sample_tool = \<lparr>conn_id = 9, conn_name = [], conn_config =
     Ssh \<lparr>destination = None, ssh_host = [97], ssh_port = 22, ssh_user = [], host_key_fingerprint = []\<rparr>,
     conn_secrets = [], account = None, conn_oauth = None, conn_created_at = 0, conn_updated_at = 0\<rparr>"

definition sample_request :: approval_request where
  "sample_request = \<lparr>ar_connection = sample_tool, ar_unit = UnitLogin, ar_agent = [97], ar_summary = [], ar_detail = None,
     ar_credential_names = [], ar_method = None, ar_path = None, ar_host_key_fingerprint = None, ar_consequence = None\<rparr>"

definition sample_config :: approval_config where
  "sample_config = \<lparr>timeout = 90, surface_grace = 5, window = 900, deny_cooldown = 30, max_pending = 4, max_waiters = 8\<rparr>"

definition sample_prompt :: prompt where
  "sample_prompt = \<lparr>p_info = prompt_info 0 1 sample_request sample_config, p_key = (9, [97]), waiters = [7], deadline = 90\<rparr>"

definition asked :: approvals where
  "asked = (case gate_enter (\<lambda>_. []) (\<lambda>_. []) 0 0 1 7 sample_request (new_approvals sample_config) of
     Return (_, a) \<Rightarrow> a | Panic \<Rightarrow> new_approvals sample_config)"

definition approved :: approvals where
  "approved = snd (respond (\<lambda>_. False) 10 10 1 ApproveWindow asked)"

lemma sample_key [simp]: "conn_id (ar_connection sample_request) = 9" "ar_agent sample_request = [97]"
  by (simp_all add: sample_request_def sample_tool_def)

lemma sample_prompt_live [simp]:
  "prompt_expired now wall sample_prompt \<longleftrightarrow> 90 \<le> now \<or> 90 \<le> wall" "pa_unit (p_info sample_prompt) = UnitLogin"
  by (auto simp: prompt_expired_def sample_prompt_def prompt_info_def add_std_def chrono_max_def sample_config_def
      sample_request_def)

lemma asked_registry:
  "pending asked = [(1, sample_prompt)]" "inflight asked = [((9, [97]), 1)]" "grants asked = []" "cooldowns asked = []"
  "config asked = sample_config"
  by (simp_all add: asked_def gate_enter_def new_approvals_def waiter_count_def sample_prompt_def Let_def,
      simp_all add: sample_config_def)

lemma asked_reachable: "reaches approval_step (new_approvals sample_config) asked"
proof -
  have "gate_enter (\<lambda>_. []) (\<lambda>_. []) 0 0 1 7 sample_request (new_approvals sample_config) =
      Return (Raised (prompt_info 0 1 sample_request sample_config) 90, asked)"
    by (simp add: asked_def gate_enter_def new_approvals_def waiter_count_def Let_def, simp add: sample_config_def)
  moreover have "map_of (pending (new_approvals sample_config)) 1 = None" by (simp add: new_approvals_def)
  ultimately show ?thesis by (blast intro: st_enter reaches_refl reaches_step)
qed

lemma approved_reachable: "approval_step asked approved" "reaches approval_step (new_approvals sample_config) approved"
  using asked_reachable st_respond [of asked "\<lambda>_. False" 10 10 1 ApproveWindow]
  by (auto simp: approved_def intro: reaches_step)

lemma approved_registry:
  "grants approved = [((9, [97]), \<lparr>until = 910, wall_until = 910\<rparr>)]" "cooldowns approved = []"
  "config approved = sample_config"
proof -
  obtain a1 ls where s: "sweep (\<lambda>_. False) 10 10 asked = (a1, ls)" by fastforce
  note ok = reachable_ok [OF asked_reachable]
  have "grants a1 = []" "cooldowns a1 = []" "config a1 = sample_config"
    using sweep_ok [OF s ok(3)] ok(1) by (simp_all add: approvals_ok_def asked_registry hm_retain_def)
  moreover have "map_of (pending a1) 1 = Some (drop_closed (\<lambda>_. False) sample_prompt)"
    using swept_prompt [OF s index_ok_wf(1) [OF ok(3)], of 1]
    by (simp add: asked_registry, simp add: sample_prompt_def)
  ultimately show "grants approved = [((9, [97]), \<lparr>until = 910, wall_until = 910\<rparr>)]" "cooldowns approved = []"
      "config approved = sample_config"
    by (simp_all add: approved_def respond_def s Let_def decide_def drop_closed_def,
        simp_all add: sample_prompt_def sample_config_def add_std_def chrono_max_def prompt_info_def sample_request_def)
qed

subsection \<open>Properties\<close>

text \<open>
  The confirmation queue is bounded by its configuration: however calls, answers, timeouts,
  disconnects, policy changes and revocations interleave, at most \<open>max_pending\<close> prompts wait and at most
  \<open>max_waiters\<close> calls are parked on them, and a new call never meets the \<open>expect\<close> that every in-flight
  key has its prompt.
\<close>

theorem approvals_bounded:
  assumes "reaches approval_step (new_approvals cfg) a"
  shows "length (pending a) \<le> max_pending cfg \<and> waiter_count a \<le> max_waiters cfg \<and>
    gate_enter rfc sh now wall i w r a \<noteq> Panic"
proof -
  note ok = reachable_ok [OF assms]
  from gate_enter_no_panic [OF ok(3)] ok(1,2) show ?thesis
    by (simp add: approvals_ok_def queue_ok_def)
qed

theorem approvals_bounded_witness:
  "length (pending asked) \<le> 4 \<and> waiter_count asked \<le> 8 \<and>
    gate_enter (\<lambda>_. []) (\<lambda>_. []) 1 1 2 8 sample_request asked \<noteq> Panic"
  using approvals_bounded [OF asked_reachable] by (simp add: sample_config_def)

text \<open>
  What a call is told without asking: right after the sweep at \<open>now\<close> (\<open>wall\<close> on the wall clock), it
  is let through unasked exactly when a window for this connection and this very agent is open by both
  clocks, and refused unasked exactly when no such window is open and a denial's cooldown on the
  connection still runs.
\<close>

theorem gate_decision:
  assumes "reaches approval_step (new_approvals cfg) a"
    and "gate_enter rfc sh now wall i w r (gate_sweep closed now wall a) = Return (res, a')"
  shows "(res = Answered VAllowed \<longleftrightarrow>
      (\<exists>g. map_of (grants a) (conn_id (ar_connection r), ar_agent r) = Some g \<and> until g > now \<and> wall_until g > wall)) \<and>
    (res = Answered VDenied \<longleftrightarrow>
      \<not> (\<exists>g. map_of (grants a) (conn_id (ar_connection r), ar_agent r) = Some g \<and> until g > now \<and> wall_until g > wall) \<and>
      (\<exists>u. map_of (cooldowns a) (conn_id (ar_connection r)) = Some u \<and> u > now))"
proof -
  let ?k = "(conn_id (ar_connection r), ar_agent r)" and ?s = "gate_sweep closed now wall a"
  obtain a1 ls where s: "sweep closed now wall a = (a1, ls)" by fastforce
  note ok = reachable_ok [OF assms(1)]
  from sweep_ok [OF s ok(3)] ok(1)
  have "grants ?s = hm_retain (\<lambda>_ g. until g > now \<and> wall_until g > wall) (grants a)"
    "cooldowns ?s = hm_retain (\<lambda>_ u. u > now) (cooldowns a)"
    by (simp_all add: gate_sweep_def s approvals_ok_def)
  then have "map_of (grants ?s) ?k \<noteq> None \<longleftrightarrow>
      (\<exists>g. map_of (grants a) ?k = Some g \<and> until g > now \<and> wall_until g > wall)"
    "map_of (cooldowns ?s) (fst ?k) \<noteq> None \<longleftrightarrow> (\<exists>u. map_of (cooldowns a) (fst ?k) = Some u \<and> u > now)"
    using index_ok_wf [OF ok(3)] by (auto simp: map_of_hm_retain split: option.split)
  moreover have "res = Answered VAllowed \<longleftrightarrow> map_of (grants ?s) ?k \<noteq> None"
    "res = Answered VDenied \<longleftrightarrow> \<not> map_of (grants ?s) ?k \<noteq> None \<and> map_of (cooldowns ?s) (fst ?k) \<noteq> None"
    using assms(2) by (auto simp: gate_enter_def Let_def split: option.splits if_splits)
  ultimately show ?thesis by (simp only: fst_conv not_not)
qed

theorem gate_decision_witness:
  "\<exists>a'. gate_enter (\<lambda>_. []) (\<lambda>_. []) 20 20 2 8 sample_request (gate_sweep (\<lambda>_. False) 20 20 approved) =
     Return (Answered VAllowed, a')"
proof -
  let ?e = "gate_enter (\<lambda>_. []) (\<lambda>_. []) 20 20 2 8 sample_request (gate_sweep (\<lambda>_. False) 20 20 approved)"
  have "index_ok (gate_sweep (\<lambda>_. False) 20 20 approved)"
    using gate_sweep_ok [OF reachable_ok(1) [OF approved_reachable(2)]] by (simp add: approvals_ok_def)
  from gate_enter_no_panic [OF this] obtain res a' where e: "?e = Return (res, a')"
    by (metis outcome.exhaust surj_pair)
  from gate_decision [OF approved_reachable(2) e] e show ?thesis by (simp add: approved_registry)
qed

text \<open>
  C31. A window opens only by the user's answer: whenever a step of the registry leaves a window that was
  not there before, the step is the answer \<open>ApproveWindow\<close> to a prompt that is still waiting, not past
  either deadline, has a caller left, names exactly the window's connection and agent and is no host-key
  question; and the window lasts the configured time from that answer on both clocks.
\<close>

theorem window_only_from_approval:
  assumes "reaches approval_step (new_approvals cfg) a" and "approval_step a a'"
    and "map_of (grants a') k = Some g" and "map_of (grants a) k \<noteq> Some g"
  shows "\<exists>closed now wall i p. a' = snd (respond closed now wall i ApproveWindow a) \<and>
    map_of (pending a) i = Some p \<and> p_key p = k \<and> pa_unit (p_info p) \<noteq> UnitHostKey \<and>
    \<not> prompt_expired now wall p \<and> \<not> list_all closed (waiters p) \<and>
    g = \<lparr>until = now + window cfg, wall_until = add_std wall (window cfg) 900\<rparr>"
proof -
  note ok = reachable_ok [OF assms(1)]
  have swept: "map_of (grants a1) k = Some g \<Longrightarrow> map_of (grants a) k = Some g"
    if "sweep closed now wall a = (a1, ls)" for closed now wall a1 ls
    using sweep_ok [OF that ok(3)] ok(1) index_ok_wf(3) [OF ok(3)]
    by (auto simp: approvals_ok_def map_of_hm_retain split: option.splits if_splits)
  from assms(2-4) show ?thesis
  proof cases
    case (st_sweep closed now wall)
    then show ?thesis using assms(3,4) swept [of closed now wall] by (auto simp: gate_sweep_def split: prod.splits)
  next
    case (st_enter i rfc sh now wall w r res)
    then have "grants a' = grants a" by (auto simp: gate_enter_def Let_def split: option.splits if_splits)
    with assms(3,4) show ?thesis by simp
  next
    case (st_respond closed now wall i d)
    obtain a1 ls where s: "sweep closed now wall a = (a1, ls)" by fastforce
    show ?thesis
    proof (cases rule: respond_cases [OF s, of i d, case_names absent present])
      case absent
      with st_respond assms(3,4) swept [OF s] show ?thesis by (simp add: same_registry_def)
    next
      case (present q)
      have "grants (taken_by i q a1) = grants a1" "config (taken_by i q a1) = cfg"
        using sweep_config [OF s] ok(2) by (simp_all add: taken_by_def retired_from_def)
      then have new: "d = ApproveWindow" "pa_unit (p_info q) \<noteq> UnitHostKey" "p_key q = k"
          "g = \<lparr>until = now + window cfg, wall_until = add_std wall (window cfg) 900\<rparr>"
        using present(3) st_respond assms(3,4) swept [OF s]
        by (auto simp: same_registry_def decide_def map_of_update_eq map_of_delete_eq
            split: approval_decision.splits if_splits)
      from present(1) obtain p where "map_of (pending a) i = Some p" "q = drop_closed closed p"
          "\<not> prompt_expired now wall p" "\<not> list_all closed (waiters p)"
        by (auto simp: swept_prompt [OF s index_ok_wf(1) [OF ok(3)]] split: option.splits if_splits)
      with new st_respond show ?thesis
        by (intro exI [of _ closed] exI [of _ now] exI [of _ wall] exI [of _ i] exI [of _ p])
          (auto simp: drop_closed_def Let_def)
    qed
  qed (use assms(3,4) index_ok_wf(3) [OF ok(3)] in
      \<open>auto simp: drop_connection_def drop_everything_def map_of_hm_retain split: option.splits if_splits\<close>)
qed

theorem window_only_from_approval_witness:
  "\<exists>closed now wall i p. approved = snd (respond closed now wall i ApproveWindow asked) \<and>
     map_of (pending asked) i = Some p \<and> p_key p = (9, [97]) \<and> now + window sample_config = 910"
proof -
  have "map_of (grants approved) (9, [97]) = Some \<lparr>until = 910, wall_until = 910\<rparr>"
    "map_of (grants asked) (9, [97]) \<noteq> Some \<lparr>until = 910, wall_until = 910\<rparr>"
    by (simp_all add: approved_registry asked_registry)
  from window_only_from_approval [OF asked_reachable approved_reachable(1) this] show ?thesis by fastforce
qed

text \<open>
  Revoking a connection refuses what waits on it: no window, cooldown or in-flight prompt of the
  connection is left, every prompt that was in flight for it is gone and each call parked on it was told
  \<open>VRevoked\<close>, and other connections keep their windows and their in-flight prompts.
\<close>

theorem revoke_answers_prompts:
  assumes "reaches approval_step (new_approvals cfg) a"
  shows "map_of (grants (revoke_approvals wall c a)) (c', agent) = (if c' = c then None else map_of (grants a) (c', agent)) \<and>
    map_of (cooldowns (revoke_approvals wall c a)) c' = (if c' = c then None else map_of (cooldowns a) c') \<and>
    map_of (inflight (revoke_approvals wall c a)) (c', agent) = (if c' = c then None else map_of (inflight a) (c', agent)) \<and>
    (\<forall>i p. map_of (inflight a) (c, agent) = Some i \<and> map_of (pending a) i = Some p \<longrightarrow>
      map_of (pending (revoke_approvals wall c a)) i = None \<and>
      (\<forall>w\<in>set (waiters p). (w, VRevoked) \<in> set (answers (revoke_approvals wall c a))))"
proof -
  note ok = reachable_ok [OF assms]
  note wf = index_ok_wf [OF ok(3)]
  obtain "is" a1 where d: "drop_connection c a = (is, a1)" by fastforce
  then have a1: "a1 = a\<lparr>grants := hm_retain (\<lambda>(c', _) _. c' \<noteq> c) (grants a), cooldowns := AList.delete c (cooldowns a),
      inflight := hm_retain (\<lambda>(c', _) _. c' \<noteq> c) (inflight a)\<rparr>"
    by (simp add: drop_connection_def)
  have r: "revoke_approvals wall c a = resolve_each wall VRevoked PolicyChanged is a1"
    by (simp add: revoke_approvals_def d)
  note asked = drop_connection_asked [OF assms d]
  have inf: "map_of (inflight a1) (c', agent) = (if c' = c then None else map_of (inflight a) (c', agent))"
    using wf(2) by (simp add: a1 map_of_hm_retain split: option.split)
  have key: "p_key p \<noteq> (c', agent)" if "c' \<noteq> c" "i \<in> set is" "map_of (pending a1) i = Some p" for i p
    using that asked [of i] index_okD [OF ok(3), of _ i] by (fastforce simp: a1)
  have "map_of (inflight (revoke_approvals wall c a)) (c', agent) = (if c' = c then None else map_of (inflight a) (c', agent))"
  proof (cases "c' = c")
    case True
    with inf show ?thesis by (simp add: r resolve_each_inflight_none)
  next
    case False
    with resolve_each_inflight_other [where k = "(c', agent)", OF key] inf show ?thesis by (simp add: r)
  qed
  moreover have "map_of (pending (revoke_approvals wall c a)) i = None \<and>
      (\<forall>w\<in>set (waiters p). (w, VRevoked) \<in> set (answers (revoke_approvals wall c a)))"
    if "map_of (inflight a) (c, agent) = Some i" "map_of (pending a) i = Some p" for i p
    using that asked [of i] resolve_each_answers [of a1 i p "is"] by (auto simp: r resolve_each_pending a1)
  ultimately show ?thesis
    using wf(3) by (auto simp: r a1 map_of_hm_retain map_of_delete_eq split: option.split)
qed

theorem revoke_answers_prompts_witness:
  "map_of (pending (revoke_approvals 5 9 asked)) 1 = None \<and> (7, VRevoked) \<in> set (answers (revoke_approvals 5 9 asked))"
  using revoke_answers_prompts [OF asked_reachable, of 5 9 9 "[97]"] by (simp add: asked_registry, simp add: sample_prompt_def)

text \<open>
  A revocation can lose against an answer: \<open>revoke\<close> clears the windows under the lock, then refuses
  the collected prompts one by one. An \<open>ApproveWindow\<close> for one of them that takes the lock in between
  opens a window on the revoked connection which the rest of the revocation leaves open.
\<close>

theorem revoke_races_approval:
  assumes "reaches approval_step (new_approvals cfg) a" and "map_of (pending a) i = Some p"
    and "\<not> prompt_expired now wall p" and "\<not> list_all closed (waiters p)" and "pa_unit (p_info p) \<noteq> UnitHostKey"
  shows "case drop_connection (fst (p_key p)) a of (is, a1) \<Rightarrow>
      map_of (grants (resolve_each wall' VRevoked PolicyChanged is (snd (respond closed now wall i ApproveWindow a1)))) (p_key p)
      = Some \<lparr>until = now + window cfg, wall_until = add_std wall (window cfg) 900\<rparr>"
proof -
  obtain "is" a1 where d: "drop_connection (fst (p_key p)) a = (is, a1)" by fastforce
  have reach: "reaches approval_step (new_approvals cfg) a1"
    using reaches_step [OF assms(1) st_drop_connection [of a "fst (p_key p)"]] d by simp
  note ok = reachable_ok [OF reach]
  obtain a2 ls where s: "sweep closed now wall a1 = (a2, ls)" by fastforce
  have "pending a1 = pending a" using d by (auto simp: drop_connection_def)
  then have here: "map_of (pending a2) i = Some (drop_closed closed p)"
    using swept_prompt [OF s index_ok_wf(1) [OF ok(3)], of i] assms(2-4) by simp
  have cfg: "config (taken_by i q a2) = cfg" for q
    using sweep_config [OF s] ok(2) by (simp add: taken_by_def retired_from_def)
  have unit: "pa_unit (p_info (drop_closed closed p)) \<noteq> UnitHostKey" using assms(5) by (simp add: drop_closed_def Let_def)
  show ?thesis
    by (cases rule: respond_cases [OF s, of i ApproveWindow])
      (use here unit cfg in \<open>auto simp: d same_registry_def decide_def map_of_update_eq\<close>)
qed

theorem revoke_races_approval_witness:
  "case drop_connection 9 asked of (is, a1) \<Rightarrow>
     map_of (grants (resolve_each 11 VRevoked PolicyChanged is (snd (respond (\<lambda>_. False) 10 10 1 ApproveWindow a1)))) (9, [97])
     = Some \<lparr>until = 910, wall_until = 910\<rparr>"
proof -
  have k: "p_key sample_prompt = (9, [97])" "waiters sample_prompt = [7]" by (simp_all add: sample_prompt_def)
  have p: "map_of (pending asked) 1 = Some sample_prompt" by (simp add: asked_registry)
  have "\<not> prompt_expired 10 10 sample_prompt" "\<not> list_all (\<lambda>_. False) (waiters sample_prompt)"
    "pa_unit (p_info sample_prompt) \<noteq> UnitHostKey" by (simp_all add: k)
  from revoke_races_approval [OF asked_reachable p this, of 11] show ?thesis
    by (simp add: k, simp add: sample_config_def add_std_def chrono_max_def)
qed

text \<open>
  A question about a host key can be answered by a prompt that never showed the key: coalescing
  looks at connection and agent only. While any prompt \<open>p\<close> for them is in flight, the question to trust
  \<open>fp\<close> joins it, what the user is shown keeps its own fingerprint and text, and approving it tells the
  caller that \<open>fp\<close> was approved.
\<close>

theorem host_key_rides_other_prompt:
  assumes "reaches approval_step (new_approvals cfg) a"
    and "ar_agent r = agent" and "ar_connection r = c"
    and "map_of (grants a) (conn_id c, agent) = None" and "map_of (cooldowns a) (conn_id c) = None"
    and "waiter_count a < max_waiters cfg"
    and "map_of (inflight a) (conn_id c, agent) = Some j" and "map_of (pending a) j = Some p"
    and "\<not> prompt_expired now wall p" and "\<not> closed w"
  shows "\<exists>a1 q. gate_enter rfc sh t tw i w (request_host_key fp r) a = Return (Riding j (deadline p), a1) \<and>
    map_of (pending a1) j = Some q \<and>
    p_info q = (p_info p)\<lparr>pa_waiting := Suc (length (waiters p))\<rparr> \<and>
    (w, VAllowed) \<in> set (answers (snd (respond closed now wall j ApproveWindow a1)))"
proof -
  note ok = reachable_ok [OF assms(1)]
  let ?q = "p\<lparr>waiters := waiters p @ [w], p_info := (p_info p)\<lparr>pa_waiting := length (waiters p @ [w])\<rparr>\<rparr>"
  obtain a1 where e: "gate_enter rfc sh t tw i w (request_host_key fp r) a = Return (Riding j (deadline p), a1)"
      and p1: "pending a1 = AList.update j ?q (pending a)"
    using assms(2-8) ok(2) by (simp add: gate_enter_def request_host_key_def Let_def)
  have q: "map_of (pending a1) j = Some ?q" by (simp add: p1 map_of_update_eq)
  have "\<not> prompt_expired now wall ?q" "\<not> list_all closed (waiters ?q)" using assms(9,10) by (simp_all add: prompt_expired_def)
  moreover obtain a2 ls where s: "sweep closed now wall a1 = (a2, ls)" by fastforce
  moreover have "hm_wf (pending a1)" using index_ok_wf(1) [OF ok(3)] by (simp add: p1)
  ultimately have "map_of (pending a2) j = Some (drop_closed closed ?q)"
    using swept_prompt [of closed now wall a1 a2 ls j] q by simp
  moreover have "w \<in> set (waiters (drop_closed closed ?q))" using assms(10) by (simp add: drop_closed_def Let_def)
  ultimately have "(w, VAllowed) \<in> set (answers (snd (respond closed now wall j ApproveWindow a1)))"
    by (simp add: respond_def s Let_def)
  with e q show ?thesis by auto
qed

theorem host_key_rides_other_prompt_witness:
  "\<exists>a1 q. gate_enter (\<lambda>_. []) (\<lambda>_. []) 5 5 2 8 (request_host_key [70, 71] sample_request) asked =
     Return (Riding 1 90, a1) \<and>
     map_of (pending a1) 1 = Some q \<and> pa_host_key_fingerprint (p_info q) = None \<and>
     (8, VAllowed) \<in> set (answers (snd (respond (\<lambda>_. False) 10 10 1 ApproveWindow a1)))"
proof -
  have p: "map_of (pending asked) 1 = Some sample_prompt" "waiter_count asked < max_waiters sample_config"
      "map_of (grants asked) (conn_id sample_tool, [97]) = None" "map_of (cooldowns asked) (conn_id sample_tool) = None"
      "map_of (inflight asked) (conn_id sample_tool, [97]) = Some 1"
      "ar_connection sample_request = sample_tool" "\<not> prompt_expired 10 10 sample_prompt"
    by (simp_all add: asked_registry waiter_count_def sample_tool_def sample_request_def)
      (simp add: sample_prompt_def sample_config_def)
  have "pa_host_key_fingerprint (p_info sample_prompt) = None" "deadline sample_prompt = 90"
    by (simp_all add: sample_prompt_def prompt_info_def sample_request_def)
  with host_key_rides_other_prompt [OF asked_reachable sample_key(2) p(6) p(3,4,2,5,1,7),
      of "\<lambda>_. False" 8 "\<lambda>_. []" "\<lambda>_. []" 5 5 2 "[70, 71]"] show ?thesis by auto
qed

end
