(* ===== verification/Executions.thy ===== *)
theory Executions
  imports AuditEntry
begin

text \<open>
  Idempotent execution, \<^verbatim>\<open>crates/aka-core/src/executions.rs\<close>: a retry under the same key joins the
  execution in flight or replays its outcome, and a completed key leaves a tombstone for the retention
  time. The theory holds the registry and its critical sections, the byte-bounded replay cache, the
  abstract idempotency table the registry refines, and the at-most-once guarantee. The executor is
  whatever outcome \<open>complete\<close> is given; the length of an outcome's JSON text is a parameter, and a waiter
  (the sending half of a oneshot channel) is its number.
\<close>

declare split_paired_All [simp del] split_paired_Ex [simp del]

subsection \<open>Outcomes\<close>

record exec_outcome =
  status :: nat
  body :: json

definition refusal :: "error_reason \<Rightarrow> exec_outcome" where
  "refusal reason = \<lparr>status = 403, body = JObject [(ascii ''reason'', JString (ascii (error_reason_as_str reason)))]\<rparr>"

type_synonym coalesce_key = "uuid \<times> uuid \<times> ustring"

text \<open>\<open>body.get("reason").and_then(Value::as_str)\<close>\<close>

definition body_reason :: "json \<Rightarrow> ustring option" where
  "body_reason b = Option.bind (json_get b (ascii ''reason'')) json_as_str"

definition is_retryable_preflight_outcome :: "exec_outcome \<Rightarrow> bool" where
  "is_retryable_preflight_outcome oc \<longleftrightarrow>
     (status oc = 408 \<and> body_reason (body oc) = Some (ascii ''approval_timeout'')) \<or>
     (status oc = 403 \<and> body_reason (body oc) = Some (ascii ''approval_unavailable'')) \<or>
     (status oc = 403 \<and> body_reason (body oc) = Some (ascii ''denied_by_policy''))"

subsection \<open>State\<close>

record pending_exec =
  px_key :: "coalesce_key option"
  px_hash :: "ustring option"
  retention_reserved :: bool
  px_waiters :: "nat list"
  abandon :: "nat option"

record retained =
  at :: instant
  rt_hash :: "ustring option"
  rt_outcome :: "exec_outcome option"
  serialized_len :: nat

record executions =
  retention :: duration
  retention_max_entries :: nat
  retention_max_bytes :: nat
  px :: "(uuid, pending_exec) hashmap"
  by_key :: "(coalesce_key, uuid) hashmap"
  outcomes :: "(coalesce_key, retained) hashmap"
  outcome_order :: "coalesce_key list"
  replay_order :: "coalesce_key list"
  outcome_bytes :: nat
  retention_reservations :: nat
  waiter_seq :: nat
  sent :: "(nat \<times> exec_outcome) list"
  abandoned :: "nat list"

definition new_executions :: "duration \<Rightarrow> nat \<Rightarrow> nat \<Rightarrow> executions" where
  "new_executions keep entries bytes =
     \<lparr>retention = keep, retention_max_entries = entries, retention_max_bytes = bytes, px = [], by_key = [], outcomes = [],
      outcome_order = [], replay_order = [], outcome_bytes = 0, retention_reservations = 0, waiter_seq = 0, sent = [],
      abandoned = []\<rparr>"

record exec_request =
  coalesce_key :: "coalesce_key option"
  payload_hash :: "ustring option"
  rq_abandon :: "nat option"

datatype execution = Wait uuid nat | Replay exec_outcome

datatype exec_error = RequestIdMismatch | IdempotencyCapacity | OutcomeNotReplayable

subsection \<open>The retention table\<close>

text \<open>\<open>prune_expired_outcomes\<close> pops the completion order while its front is expired.\<close>

definition entry_expired :: "instant \<Rightarrow> executions \<Rightarrow> coalesce_key \<Rightarrow> bool" where
  "entry_expired now e k = (case map_of (outcomes e) k of None \<Rightarrow> True | Some r \<Rightarrow> now - at r > retention e)"

definition forget :: "coalesce_key \<Rightarrow> executions \<Rightarrow> executions" where
  "forget k e =
     (let e = (case map_of (outcomes e) k of
           Some r \<Rightarrow> e\<lparr>outcomes := AList.delete k (outcomes e), outcome_bytes := outcome_bytes e - serialized_len r\<rparr>
         | None \<Rightarrow> e) in
      e\<lparr>replay_order := filter (\<lambda>q. q \<noteq> k) (replay_order e)\<rparr>)"

fun prune_loop :: "instant \<Rightarrow> coalesce_key list \<Rightarrow> executions \<Rightarrow> executions" where
  "prune_loop now [] e = e"
| "prune_loop now (k # ks) e =
     (if entry_expired now e k then prune_loop now ks (forget k (e\<lparr>outcome_order := ks\<rparr>)) else e)"

definition prune_expired_outcomes :: "instant \<Rightarrow> executions \<Rightarrow> executions" where
  "prune_expired_outcomes now e = prune_loop now (outcome_order e) e"

text \<open>\<open>evict_oldest_replay_body\<close> pops replay bodies until one was really there.\<close>

fun evict_loop :: "coalesce_key list \<Rightarrow> executions \<Rightarrow> bool \<times> executions" where
  "evict_loop [] e = (False, e)"
| "evict_loop (k # ks) e =
     (let e = e\<lparr>replay_order := ks\<rparr> in
      case map_of (outcomes e) k of
        None \<Rightarrow> evict_loop ks e
      | Some r \<Rightarrow>
          if rt_outcome r = None then evict_loop ks e
          else (True, e\<lparr>outcome_bytes := outcome_bytes e - serialized_len r,
                 outcomes := AList.update k (r\<lparr>rt_outcome := None, serialized_len := 0\<rparr>) (outcomes e)\<rparr>))"

definition evict_oldest_replay_body :: "executions \<Rightarrow> bool \<times> executions" where
  "evict_oldest_replay_body e = evict_loop (replay_order e) e"

lemma evict_loop_shrinks: "evict_loop ks e = (True, e') \<Longrightarrow> length (replay_order e') < length ks"
  by (induction ks arbitrary: e) (auto simp: Let_def less_SucI split: option.splits if_splits)

lemma evict_shrinks: "evict_oldest_replay_body e = (True, e') \<Longrightarrow> length (replay_order e') < length (replay_order e)"
  unfolding evict_oldest_replay_body_def by (rule evict_loop_shrinks)

text \<open>The \<open>while\<close> that evicts until the new body fits ends because each round shortens the replay order.\<close>

function make_room :: "nat \<Rightarrow> executions \<Rightarrow> executions" where
  "make_room len e =
     (if len > retention_max_bytes e - outcome_bytes e then
        (case evict_oldest_replay_body e of
           (True, e') \<Rightarrow> make_room len e'
         | (False, e') \<Rightarrow> e')
      else e)"
  by pat_completeness auto
termination
  by (relation "measure (\<lambda>(_, e). length (replay_order e))") (auto dest: evict_shrinks [OF sym])

declare make_room.simps [simp del]

text \<open>\<open>outcome_len\<close> is the length of an outcome's JSON text, \<open>None\<close> when it cannot be serialized.\<close>

definition retain_completed_outcome ::
    "(exec_outcome \<Rightarrow> nat option) \<Rightarrow> instant \<Rightarrow> coalesce_key \<Rightarrow> ustring option \<Rightarrow> exec_outcome \<Rightarrow> executions \<Rightarrow> executions" where
  "retain_completed_outcome outcome_len now k hash oc e =
     (if retention e = 0 then e
      else
        let (kept, len, e) =
              (case outcome_len oc of
                 None \<Rightarrow> (None, 0, e)
               | Some len \<Rightarrow>
                   if len > retention_max_bytes e then (None, 0, e)
                   else
                     let e = make_room len e in
                     if len \<le> retention_max_bytes e - outcome_bytes e
                     then (Some oc, len, e\<lparr>outcome_bytes := outcome_bytes e + len, replay_order := replay_order e @ [k]\<rparr>)
                     else (None, 0, e)) in
        e\<lparr>outcome_order := outcome_order e @ [k],
          outcomes := AList.update k \<lparr>at = now, rt_hash = hash, rt_outcome = kept, serialized_len = len\<rparr> (outcomes e)\<rparr>)"

subsection \<open>Joining, starting, completing\<close>

definition next_waiter :: "executions \<Rightarrow> nat \<times> executions" where
  "next_waiter e = (waiter_seq e + 1, e\<lparr>waiter_seq := waiter_seq e + 1\<rparr>)"

text \<open>\<open>None\<close> is \<open>try_join\<close>'s \<open>None\<close>; the \<open>unwrap\<close> of the in-flight entry may panic.\<close>

definition try_join ::
    "instant \<Rightarrow> coalesce_key option \<Rightarrow> ustring option \<Rightarrow> executions \<Rightarrow>
     ((exec_error + execution) option \<times> executions) outcome" where
  "try_join now key hash e =
     (let e = prune_expired_outcomes now e in
      case key of
        None \<Rightarrow> Return (None, e)
      | Some k \<Rightarrow>
          (case map_of (outcomes e) k of
             Some r \<Rightarrow>
               if rt_hash r \<noteq> hash then Return (Some (Err RequestIdMismatch), e)
               else (case rt_outcome r of
                       Some oc \<Rightarrow> Return (Some (Ok (Replay oc)), e)
                     | None \<Rightarrow> Return (Some (Err OutcomeNotReplayable), e))
           | None \<Rightarrow>
               (case map_of (by_key e) k of
                  None \<Rightarrow> Return (None, e)
                | Some i \<Rightarrow>
                    let (w, e) = next_waiter e in
                    (case map_of (px e) i of
                       None \<Rightarrow> Panic
                     | Some p \<Rightarrow>
                         if px_hash p \<noteq> hash then Return (Some (Err RequestIdMismatch), e)
                         else Return (Some (Ok (Wait i w)),
                           e\<lparr>px := AList.update i (p\<lparr>px_waiters := px_waiters p @ [w]\<rparr>) (px e)\<rparr>)))))"

definition reserve_retention_slot :: "coalesce_key option \<Rightarrow> executions \<Rightarrow> (exec_error + bool) \<times> executions" where
  "reserve_retention_slot key e =
     (if key = None then (Ok False, e)
      else if retention e = 0 \<or> length (outcomes e) + retention_reservations e \<ge> retention_max_entries e
      then (Err IdempotencyCapacity, e)
      else (Ok True, e\<lparr>retention_reservations := retention_reservations e + 1\<rparr>))"

text \<open>\<open>run\<close>: \<open>i\<close> is the UUID minted for a new execution. \<open>Wait i w\<close> with a new \<open>i\<close> is a started execution.\<close>

definition run_exec :: "instant \<Rightarrow> uuid \<Rightarrow> exec_request \<Rightarrow> executions \<Rightarrow> ((exec_error + execution) \<times> executions) outcome" where
  "run_exec now i req e =
     (case try_join now (coalesce_key req) (payload_hash req) e of
        Panic \<Rightarrow> Panic
      | Return (Some joined, e) \<Rightarrow> Return (joined, e)
      | Return (None, e) \<Rightarrow>
          (case reserve_retention_slot (coalesce_key req) e of
             (Inl err, e) \<Rightarrow> Return (Err err, e)
           | (Inr reserved, e) \<Rightarrow>
               let (w, e) = next_waiter e;
                   e = e\<lparr>px := AList.update i \<lparr>px_key = coalesce_key req, px_hash = payload_hash req,
                         retention_reserved = reserved, px_waiters = [w],
                         abandon = (if coalesce_key req = None then rq_abandon req else None)\<rparr> (px e)\<rparr>;
                   e = (case coalesce_key req of Some k \<Rightarrow> e\<lparr>by_key := AList.update k i (by_key e)\<rparr> | None \<Rightarrow> e) in
               Return (Ok (Wait i w), e)))"

text \<open>The end of the spawned task: the executor returned \<open>oc\<close>.\<close>

definition release_retention_reservation :: "bool \<Rightarrow> executions \<Rightarrow> executions" where
  "release_retention_reservation reserved e =
     (if reserved then e\<lparr>retention_reservations := retention_reservations e - 1\<rparr> else e)"

definition complete_exec ::
    "(exec_outcome \<Rightarrow> nat option) \<Rightarrow> instant \<Rightarrow> uuid \<Rightarrow> exec_outcome \<Rightarrow> executions \<Rightarrow> executions" where
  "complete_exec outcome_len now i oc e =
     (case map_of (px e) i of
        None \<Rightarrow> e
      | Some p \<Rightarrow>
          let e = e\<lparr>px := AList.delete i (px e)\<rparr>;
              e = (case px_key p of
                  None \<Rightarrow> e
                | Some k \<Rightarrow>
                    let e = e\<lparr>by_key := AList.delete k (by_key e)\<rparr> in
                    if retention_reserved p then
                      let e = release_retention_reservation True e in
                      if is_retryable_preflight_outcome oc then e
                      else retain_completed_outcome outcome_len now k (px_hash p) oc e
                    else e) in
          e\<lparr>sent := sent e @ map (\<lambda>w. (w, oc)) (px_waiters p)\<rparr>)"

text \<open>\<open>WaiterGuard::drop\<close>\<close>

definition drop_waiter :: "uuid \<Rightarrow> nat \<Rightarrow> executions \<Rightarrow> executions" where
  "drop_waiter i w e =
     (case map_of (px e) i of
        None \<Rightarrow> e
      | Some p \<Rightarrow>
          let ws = filter (\<lambda>x. x \<noteq> w) (px_waiters p);
              e = e\<lparr>px := AList.update i (p\<lparr>px_waiters := ws\<rparr>) (px e)\<rparr> in
          (case (ws, abandon p) of
             ([], Some ch) \<Rightarrow> e\<lparr>abandoned := abandoned e @ [ch]\<rparr>
           | _ \<Rightarrow> e))"

definition retention_sweep_interval :: "duration \<Rightarrow> duration" where
  "retention_sweep_interval keep = min (max (keep div 2) 1000000) (secs 30)"

subsection \<open>The retention table is well-formed\<close>

definition kept_ok :: "executions \<Rightarrow> bool" where
  "kept_ok e \<longleftrightarrow> hm_wf (outcomes e) \<and> distinct (outcome_order e) \<and> set (outcome_order e) = dom (map_of (outcomes e)) \<and>
     distinct (replay_order e) \<and>
     (\<forall>k. k \<in> set (replay_order e) \<longleftrightarrow> (\<exists>r. map_of (outcomes e) k = Some r \<and> rt_outcome r \<noteq> None)) \<and>
     (\<forall>k r. map_of (outcomes e) k = Some r \<and> rt_outcome r = None \<longrightarrow> serialized_len r = 0) \<and>
     outcome_bytes e = sum_values serialized_len (outcomes e) \<and> outcome_bytes e \<le> retention_max_bytes e"

lemma kept_okD:
  assumes "kept_ok e"
  shows "hm_wf (outcomes e)" "distinct (outcome_order e)" "set (outcome_order e) = dom (map_of (outcomes e))"
    "distinct (replay_order e)"
    "k \<in> set (replay_order e) \<longleftrightarrow> (\<exists>r. map_of (outcomes e) k = Some r \<and> rt_outcome r \<noteq> None)"
    "map_of (outcomes e) k = Some r \<Longrightarrow> rt_outcome r = None \<Longrightarrow> serialized_len r = 0"
    "outcome_bytes e = sum_values serialized_len (outcomes e)" "outcome_bytes e \<le> retention_max_bytes e"
  using assms unfolding kept_ok_def by blast+

lemma kept_okI:
  assumes "hm_wf (outcomes e)" "distinct (outcome_order e)" "set (outcome_order e) = dom (map_of (outcomes e))"
    "distinct (replay_order e)"
    "\<And>k. k \<in> set (replay_order e) \<longleftrightarrow> (\<exists>r. map_of (outcomes e) k = Some r \<and> rt_outcome r \<noteq> None)"
    "\<And>k r. map_of (outcomes e) k = Some r \<Longrightarrow> rt_outcome r = None \<Longrightarrow> serialized_len r = 0"
    "outcome_bytes e = sum_values serialized_len (outcomes e)" "outcome_bytes e \<le> retention_max_bytes e"
  shows "kept_ok e"
  unfolding kept_ok_def using assms by blast

text \<open>What leaves everything but the retention table as it is.\<close>

definition table_only :: "executions \<Rightarrow> executions \<Rightarrow> bool" where
  "table_only e e' \<longleftrightarrow> e' = e\<lparr>outcomes := outcomes e', outcome_order := outcome_order e', replay_order := replay_order e',
     outcome_bytes := outcome_bytes e'\<rparr>"

lemma table_only_refl [simp]: "table_only e e"
  by (simp add: table_only_def)

lemma table_only_trans: "table_only e e' \<Longrightarrow> table_only e' e'' \<Longrightarrow> table_only e e''"
  unfolding table_only_def by (cases e; cases e'; cases e'') simp

lemma table_onlyD:
  assumes "table_only e e'"
  shows "px e' = px e" "by_key e' = by_key e" "retention e' = retention e" "retention_max_entries e' = retention_max_entries e"
    "retention_max_bytes e' = retention_max_bytes e" "retention_reservations e' = retention_reservations e"
    "waiter_seq e' = waiter_seq e" "sent e' = sent e"
  using assms unfolding table_only_def by (cases e; cases e'; simp)+

lemma forget_ok:
  assumes ok: "kept_ok e" and o: "outcome_order e = k # ks"
  shows "kept_ok (forget k (e\<lparr>outcome_order := ks\<rparr>))" and "table_only e (forget k (e\<lparr>outcome_order := ks\<rparr>))"
    and "outcome_order (forget k (e\<lparr>outcome_order := ks\<rparr>)) = ks"
    and "map_of (outcomes (forget k (e\<lparr>outcome_order := ks\<rparr>))) k' = (if k' = k then None else map_of (outcomes e) k')"
proof -
  note d = kept_okD [OF ok]
  from d(3) o obtain r where r: "map_of (outcomes e) k = Some r" by (cases "map_of (outcomes e) k") auto
  let ?e = "forget k (e\<lparr>outcome_order := ks\<rparr>)"
  have f: "outcomes ?e = AList.delete k (outcomes e)" "outcome_order ?e = ks"
      "replay_order ?e = filter (\<lambda>q. q \<noteq> k) (replay_order e)" "outcome_bytes ?e = outcome_bytes e - serialized_len r"
      "retention_max_bytes ?e = retention_max_bytes e"
    by (simp_all add: forget_def r)
  show "kept_ok ?e"
  proof (rule kept_okI)
    show "set (outcome_order ?e) = dom (map_of (outcomes ?e))"
      using d(2,3) o by (auto simp: f map_of_delete_eq dom_def)
    show "outcome_bytes ?e = sum_values serialized_len (outcomes ?e)"
      using d(7) sum_values_delete [OF d(1), of serialized_len k] r by (simp add: f)
    show "serialized_len r' = 0" if "map_of (outcomes ?e) k' = Some r'" "rt_outcome r' = None" for k' r'
      using that d(6) [of k' r'] by (simp add: f map_of_delete_eq split: if_splits)
  qed (use d(1,2,4,5,8) o in \<open>auto simp: f map_of_delete_eq\<close>)
  show "table_only e ?e" by (simp add: forget_def r table_only_def)
  show "outcome_order ?e = ks" by (simp add: f)
  show "map_of (outcomes ?e) k' = (if k' = k then None else map_of (outcomes e) k')" by (simp add: f map_of_delete_eq)
qed

lemma prune_loop_ok:
  assumes "kept_ok e" and "outcome_order e = ks"
  shows "kept_ok (prune_loop now ks e) \<and> table_only e (prune_loop now ks e) \<and>
    (map_of (outcomes (prune_loop now ks e)) k = map_of (outcomes e) k \<or>
     map_of (outcomes (prune_loop now ks e)) k = None \<and> entry_expired now e k)"
  using assms
proof (induction ks arbitrary: e)
  case (Cons q ks)
  show ?case
  proof (cases "entry_expired now e q")
    case True
    let ?e = "forget q (e\<lparr>outcome_order := ks\<rparr>)"
    note f = forget_ok [OF Cons.prems]
    have "entry_expired now ?e k \<Longrightarrow> entry_expired now e k"
      using True table_onlyD(3) [OF f(2)] f(4) [of k] by (auto simp: entry_expired_def split: if_splits option.splits)
    with Cons.IH [OF f(1,3)] f(4) [of k] True show ?thesis
      using table_only_trans [OF f(2)] by (auto split: if_splits)
  next
    case False
    with Cons.prems show ?thesis by simp
  qed
qed simp

lemmas prune_ok = prune_loop_ok [OF _ refl, folded prune_expired_outcomes_def]

text \<open>Eviction only fades replay bodies.\<close>

definition fades :: "retained option \<Rightarrow> retained option \<Rightarrow> bool" where
  "fades a b \<longleftrightarrow> b = a \<or> (\<exists>r. a = Some r \<and> b = Some (r\<lparr>rt_outcome := None, serialized_len := 0\<rparr>))"

lemma fades_refl [simp]: "fades a a"
  by (simp add: fades_def)

lemma fades_trans: "fades a b \<Longrightarrow> fades b c \<Longrightarrow> fades a c"
  by (auto simp: fades_def)

lemma fadesD:
  "fades a b \<Longrightarrow> (b = None) = (a = None)"
  "fades a b \<Longrightarrow> b = Some r' \<Longrightarrow> \<exists>r. a = Some r \<and> at r' = at r \<and> rt_hash r' = rt_hash r \<and> rt_outcome r' \<in> {rt_outcome r, None}"
  by (auto simp: fades_def)

definition evicted :: "coalesce_key \<Rightarrow> retained \<Rightarrow> coalesce_key list \<Rightarrow> executions \<Rightarrow> executions" where
  "evicted k r ks e = e\<lparr>replay_order := ks, outcome_bytes := outcome_bytes e - serialized_len r,
     outcomes := AList.update k (r\<lparr>rt_outcome := None, serialized_len := 0\<rparr>) (outcomes e)\<rparr>"

lemma evict_cases:
  assumes "kept_ok e"
  obtains (empty) "replay_order e = []" "evict_oldest_replay_body e = (False, e)"
  | (body) k ks r where "replay_order e = k # ks" "map_of (outcomes e) k = Some r" "rt_outcome r \<noteq> None"
      "evict_oldest_replay_body e = (True, evicted k r ks e)"
proof (cases "replay_order e")
  case Nil
  then show thesis using empty by (simp add: evict_oldest_replay_body_def)
next
  case (Cons k ks)
  then obtain r where r: "map_of (outcomes e) k = Some r" "rt_outcome r \<noteq> None"
    using kept_okD(5) [OF assms, of k] by auto
  show thesis
    by (rule body [OF Cons r]) (use Cons r in \<open>auto simp: evict_oldest_replay_body_def Let_def evicted_def\<close>)
qed

lemma evicted_ok:
  assumes ok: "kept_ok e" and k: "replay_order e = k # ks" "map_of (outcomes e) k = Some r"
  shows "kept_ok (evicted k r ks e)" and "table_only e (evicted k r ks e)"
    and "fades (map_of (outcomes e) q) (map_of (outcomes (evicted k r ks e)) q)"
proof -
  note d = kept_okD [OF ok]
  let ?e = "evicted k r ks e"
  have f: "outcomes ?e = AList.update k (r\<lparr>rt_outcome := None, serialized_len := 0\<rparr>) (outcomes e)"
      "outcome_order ?e = outcome_order e" "replay_order ?e = ks" "outcome_bytes ?e = outcome_bytes e - serialized_len r"
      "retention_max_bytes ?e = retention_max_bytes e"
    by (simp_all add: evicted_def)
  show "kept_ok ?e"
  proof (rule kept_okI)
    show "set (outcome_order ?e) = dom (map_of (outcomes ?e))"
      using d(3) k(2) by (auto simp: f map_of_update_eq dom_def)
    show "outcome_bytes ?e = sum_values serialized_len (outcomes ?e)"
      using d(7) sum_values_update [of serialized_len k "r\<lparr>rt_outcome := None, serialized_len := 0\<rparr>" "outcomes e"] k(2)
      by (simp add: f)
    show "q \<in> set (replay_order ?e) \<longleftrightarrow> (\<exists>r'. map_of (outcomes ?e) q = Some r' \<and> rt_outcome r' \<noteq> None)" for q
      using d(4) d(5) [of q] k by (auto simp: f map_of_update_eq)
    show "serialized_len r' = 0" if "map_of (outcomes ?e) q = Some r'" "rt_outcome r' = None" for q r'
      using that d(6) [of q r'] by (auto simp: f map_of_update_eq split: if_splits)
  qed (use d(1,2,4,8) k in \<open>auto simp: f\<close>)
  show "table_only e ?e" by (simp add: evicted_def table_only_def)
  show "fades (map_of (outcomes e) q) (map_of (outcomes ?e) q)" using k(2) by (simp add: f map_of_update_eq fades_def)
qed

lemma no_bodies_no_bytes:
  assumes "kept_ok e" and "replay_order e = []"
  shows "outcome_bytes e = 0"
proof -
  have "serialized_len r = 0" if "map_of (outcomes e) k = Some r" for k r
    using that kept_okD(5) [OF assms(1), of k] kept_okD(6) [OF assms(1) that] assms(2) by auto
  with kept_okD(1,7) [OF assms(1)] show ?thesis by (simp add: sum_values_zero)
qed

lemma make_room_ok:
  assumes "kept_ok e" and "len \<le> retention_max_bytes e"
  shows "kept_ok (make_room len e) \<and> table_only e (make_room len e) \<and>
    len \<le> retention_max_bytes e - outcome_bytes (make_room len e) \<and>
    fades (map_of (outcomes e) q) (map_of (outcomes (make_room len e)) q)"
  using assms
proof (induction len e rule: make_room.induct)
  case (1 len e)
  show ?case
  proof (cases "len > retention_max_bytes e - outcome_bytes e")
    case True
    from \<open>kept_ok e\<close> show ?thesis
    proof (cases rule: evict_cases)
      case empty
      with no_bodies_no_bytes [OF 1(2)] 1(3) True show ?thesis by simp
    next
      case (body k ks r)
      note ev = evicted_ok [OF 1(2) body(1,2)]
      have "make_room len e = make_room len (evicted k r ks e)"
        by (subst make_room.simps) (simp add: True body)
      with 1(1) [OF True body(4) [symmetric]] ev(1) 1(3) table_onlyD(5) [OF ev(2)] table_only_trans [OF ev(2)] fades_trans [OF ev(3)]
      show ?thesis by auto
    qed
  next
    case False
    then have "make_room len e = e" by (subst make_room.simps) simp
    with False 1(2) show ?thesis by simp
  qed
qed

definition stored :: "(exec_outcome \<Rightarrow> nat option) \<Rightarrow> exec_outcome \<Rightarrow> executions \<Rightarrow> exec_outcome option" where
  "stored outcome_len oc e = (case outcome_len oc of Some len \<Rightarrow> if len \<le> retention_max_bytes e then Some oc else None | None \<Rightarrow> None)"

text \<open>Adding the new key, with its body when there is one, to a table that has room for it.\<close>

definition put_outcome :: "instant \<Rightarrow> coalesce_key \<Rightarrow> ustring option \<Rightarrow> exec_outcome option \<Rightarrow> nat \<Rightarrow> executions \<Rightarrow> executions" where
  "put_outcome now k hash kept len e =
     (let e = (if kept = None then e else e\<lparr>outcome_bytes := outcome_bytes e + len, replay_order := replay_order e @ [k]\<rparr>) in
      e\<lparr>outcome_order := outcome_order e @ [k],
        outcomes := AList.update k \<lparr>at = now, rt_hash = hash, rt_outcome = kept, serialized_len = len\<rparr> (outcomes e)\<rparr>)"

lemma retain_put:
  assumes "retention e \<noteq> 0"
  shows "retain_completed_outcome outcome_len now k hash oc e =
    (case outcome_len oc of
       None \<Rightarrow> put_outcome now k hash None 0 e
     | Some len \<Rightarrow>
         if len > retention_max_bytes e then put_outcome now k hash None 0 e
         else if len \<le> retention_max_bytes (make_room len e) - outcome_bytes (make_room len e)
         then put_outcome now k hash (Some oc) len (make_room len e)
         else put_outcome now k hash None 0 (make_room len e))"
  using assms by (simp add: retain_completed_outcome_def put_outcome_def Let_def split: option.split)

lemma put_ok:
  assumes ok: "kept_ok e" and none: "map_of (outcomes e) k = None"
    and fit: "kept = None \<and> len = 0 \<or> len \<le> retention_max_bytes e - outcome_bytes e"
  shows "kept = None \<longrightarrow> len = 0 \<Longrightarrow> kept_ok (put_outcome now k hash kept len e)"
    and "table_only e (put_outcome now k hash kept len e)"
    and "length (outcomes (put_outcome now k hash kept len e)) = Suc (length (outcomes e))"
    and "map_of (outcomes (put_outcome now k hash kept len e)) q =
      (if q = k then Some \<lparr>at = now, rt_hash = hash, rt_outcome = kept, serialized_len = len\<rparr> else map_of (outcomes e) q)"
proof -
  note d = kept_okD [OF ok]
  let ?r = "\<lparr>at = now, rt_hash = hash, rt_outcome = kept, serialized_len = len\<rparr>"
  let ?e = "put_outcome now k hash kept len e"
  have k: "k \<notin> set (outcome_order e)" "k \<notin> set (replay_order e)" using none d(3) d(5) [of k] by auto
  have f: "outcomes ?e = AList.update k ?r (outcomes e)" "outcome_order ?e = outcome_order e @ [k]"
      "retention_max_bytes ?e = retention_max_bytes e"
    by (simp_all add: put_outcome_def Let_def)
  show "kept_ok ?e" if z: "kept = None \<longrightarrow> len = 0"
  proof (rule kept_okI)
    show "set (outcome_order ?e) = dom (map_of (outcomes ?e))"
      using d(3) by (auto simp: f map_of_update_eq dom_def)
    have b: "outcome_bytes ?e = outcome_bytes e + len" using z by (simp add: put_outcome_def Let_def)
    then show "outcome_bytes ?e = sum_values serialized_len (outcomes ?e)"
      using d(7) sum_values_update [of serialized_len k ?r "outcomes e"] none by (simp add: f)
    show "outcome_bytes ?e \<le> retention_max_bytes ?e" using d(8) fit b f(3) by auto
    show "distinct (replay_order ?e)" using d(4) k(2) by (simp add: put_outcome_def Let_def)
    have "set (replay_order ?e) = set (replay_order e) \<union> (if kept = None then {} else {k})"
      by (simp add: put_outcome_def Let_def)
    with none show "p \<in> set (replay_order ?e) \<longleftrightarrow> (\<exists>r. map_of (outcomes ?e) p = Some r \<and> rt_outcome r \<noteq> None)" for p
      using d(5) [of p] by (auto simp: f map_of_update_eq)
    show "serialized_len r' = 0" if "map_of (outcomes ?e) p = Some r'" "rt_outcome r' = None" for p r'
      using that d(6) [of p r'] z by (auto simp: f map_of_update_eq split: if_splits)
  qed (use d(1,2) k in \<open>auto simp: f\<close>)
  show "table_only e ?e" by (simp add: put_outcome_def Let_def table_only_def)
  show "length (outcomes ?e) = Suc (length (outcomes e))" using none by (simp add: f length_AList_update)
  show "map_of (outcomes ?e) q = (if q = k then Some ?r else map_of (outcomes e) q)" by (simp add: f map_of_update_eq)
qed

lemma hm_wf_same_length:
  assumes "hm_wf m" and "hm_wf m'" and "\<And>k. (map_of m k = None) = (map_of m' k = None)"
  shows "length m = length m'"
proof -
  have "fst ` set m = fst ` set m'" using assms(3) unfolding map_of_eq_None_iff by blast
  then show ?thesis
    using assms(1,2) distinct_card [of "map fst m"] distinct_card [of "map fst m'"] by (simp add: hm_wf_def)
qed

lemma retain_ok:
  assumes ok: "kept_ok e" and new: "map_of (outcomes e) k = None" and keep: "retention e \<noteq> 0"
    and e': "e' = retain_completed_outcome outcome_len now k hash oc e"
  shows "kept_ok e' \<and> table_only e e' \<and> length (outcomes e') = Suc (length (outcomes e)) \<and>
    (\<exists>len. map_of (outcomes e') k = Some \<lparr>at = now, rt_hash = hash, rt_outcome = stored outcome_len oc e, serialized_len = len\<rparr>) \<and>
    (q \<noteq> k \<longrightarrow> fades (map_of (outcomes e) q) (map_of (outcomes e') q))"
proof (cases "\<exists>len. outcome_len oc = Some len \<and> len \<le> retention_max_bytes e")
  case False
  then have "e' = put_outcome now k hash None 0 e" "stored outcome_len oc e = None"
    using e' by (auto simp: retain_put [OF keep] stored_def split: option.split)
  then show ?thesis using put_ok [OF ok new, of None 0 now hash] by simp
next
  case True
  then obtain len where len: "outcome_len oc = Some len" "len \<le> retention_max_bytes e" by blast
  let ?m = "make_room len e"
  have m: "kept_ok ?m" "table_only e ?m" "len \<le> retention_max_bytes ?m - outcome_bytes ?m"
      "\<And>q. fades (map_of (outcomes e) q) (map_of (outcomes ?m) q)"
    using make_room_ok [OF ok len(2)] table_onlyD(5) [of e ?m] by simp_all
  have none: "map_of (outcomes ?m) k = None" using fadesD(1) [OF m(4)] new by simp
  have "e' = put_outcome now k hash (Some oc) len ?m" "stored outcome_len oc e = Some oc"
    using e' len m(3) by (simp_all add: retain_put [OF keep] stored_def)
  moreover have "length (outcomes ?m) = length (outcomes e)"
    using hm_wf_same_length kept_okD(1) [OF ok] kept_okD(1) [OF m(1)] fadesD(1) [OF m(4)] by blast
  ultimately show ?thesis
    using put_ok [OF m(1) none, of "Some oc" len now hash] table_only_trans [OF m(2)] m(3,4) by simp
qed

subsection \<open>The registry is well-formed\<close>

definition pend_ok :: "executions \<Rightarrow> bool" where
  "pend_ok e \<longleftrightarrow> hm_wf (px e) \<and> hm_wf (by_key e) \<and>
     (\<forall>k i. map_of (by_key e) k = Some i \<longleftrightarrow> (\<exists>p. map_of (px e) i = Some p \<and> px_key p = Some k)) \<and>
     (\<forall>i p. map_of (px e) i = Some p \<longrightarrow> retention_reserved p = (px_key p \<noteq> None) \<and> (px_key p \<noteq> None \<longrightarrow> retention e \<noteq> 0)) \<and>
     (\<forall>k. map_of (by_key e) k \<noteq> None \<longrightarrow> map_of (outcomes e) k = None) \<and>
     retention_reservations e = sum_values (\<lambda>p. of_bool (retention_reserved p)) (px e) \<and>
     length (outcomes e) + retention_reservations e \<le> retention_max_entries e"

lemma pend_okD:
  assumes "pend_ok e"
  shows "hm_wf (px e)" "hm_wf (by_key e)"
    "map_of (by_key e) k = Some i \<longleftrightarrow> (\<exists>p. map_of (px e) i = Some p \<and> px_key p = Some k)"
    "map_of (px e) i = Some p \<Longrightarrow> retention_reserved p = (px_key p \<noteq> None) \<and> (px_key p \<noteq> None \<longrightarrow> retention e \<noteq> 0)"
    "map_of (by_key e) k \<noteq> None \<Longrightarrow> map_of (outcomes e) k = None"
    "retention_reservations e = sum_values (\<lambda>p. of_bool (retention_reserved p)) (px e)"
    "length (outcomes e) + retention_reservations e \<le> retention_max_entries e"
  using assms unfolding pend_ok_def by blast+

lemma pend_okI:
  assumes "hm_wf (px e)" "hm_wf (by_key e)"
    "\<And>k i. map_of (by_key e) k = Some i \<longleftrightarrow> (\<exists>p. map_of (px e) i = Some p \<and> px_key p = Some k)"
    "\<And>i p. map_of (px e) i = Some p \<Longrightarrow> retention_reserved p = (px_key p \<noteq> None) \<and> (px_key p \<noteq> None \<longrightarrow> retention e \<noteq> 0)"
    "\<And>k. map_of (by_key e) k \<noteq> None \<Longrightarrow> map_of (outcomes e) k = None"
    "retention_reservations e = sum_values (\<lambda>p. of_bool (retention_reserved p)) (px e)"
    "length (outcomes e) + retention_reservations e \<le> retention_max_entries e"
  shows "pend_ok e"
  unfolding pend_ok_def using assms by blast

definition exec_ok :: "executions \<Rightarrow> bool" where
  "exec_ok e \<longleftrightarrow> kept_ok e \<and> pend_ok e"

lemma kept_ok_frame:
  assumes "kept_ok e" and "outcomes e' = outcomes e" "outcome_order e' = outcome_order e" "replay_order e' = replay_order e"
    "outcome_bytes e' = outcome_bytes e" "retention_max_bytes e' = retention_max_bytes e"
  shows "kept_ok e'"
  using assms(1) unfolding kept_ok_def assms(2-) .

text \<open>Shrinking the retention table keeps the rest of the invariant.\<close>

lemma length_le_dom:
  assumes "hm_wf m" and "hm_wf m'" and "\<And>k. map_of m k \<noteq> None \<Longrightarrow> map_of m' k \<noteq> None"
  shows "length m \<le> length m'"
proof -
  have "fst ` set m \<subseteq> fst ` set m'" using assms(3) unfolding map_of_eq_None_iff by blast
  then have "card (set (map fst m)) \<le> card (set (map fst m'))" by (intro card_mono) auto
  then show ?thesis
    using assms(1,2) distinct_card [of "map fst m"] distinct_card [of "map fst m'"] by (simp add: hm_wf_def)
qed

lemma prune_exec_ok:
  assumes "exec_ok e"
  shows "exec_ok (prune_expired_outcomes now e)"
proof -
  let ?e = "prune_expired_outcomes now e"
  have k: "kept_ok e" and p: "pend_ok e" using assms by (simp_all add: exec_ok_def)
  note t = prune_ok [OF k, of now]
  have f: "table_only e ?e" and k': "kept_ok ?e" using t by blast+
  note d = pend_okD [OF p] and fr = table_onlyD [OF f]
  have le: "map_of (outcomes ?e) q \<noteq> None \<Longrightarrow> map_of (outcomes e) q \<noteq> None" for q using t [of q] by auto
  have "pend_ok ?e"
  proof (rule pend_okI)
    show "map_of (outcomes ?e) q = None" if "map_of (by_key ?e) q \<noteq> None" for q
      using that le [of q] d(5) [of q] fr(2) by fastforce
    have "length (outcomes ?e) \<le> length (outcomes e)" using length_le_dom kept_okD(1) [OF k] kept_okD(1) [OF k'] le by blast
    then show "length (outcomes ?e) + retention_reservations ?e \<le> retention_max_entries ?e" using d(7) by (simp add: fr)
    show "retention_reserved q = (px_key q \<noteq> None) \<and> (px_key q \<noteq> None \<longrightarrow> retention ?e \<noteq> 0)"
      if "map_of (px ?e) i = Some q" for i q
      using that d(4) [of i q] by (simp add: fr)
  qed (use d(1,2,6) d(3) in \<open>simp_all add: fr\<close>)
  with k' show ?thesis by (simp add: exec_ok_def)
qed

subsection \<open>The abstract idempotency table\<close>

text \<open>What a key stands for: nothing, an execution in flight, or a completed one, perhaps without its body.\<close>

datatype slot = InFlight "ustring option" uuid | Completed "ustring option" "exec_outcome option"

definition slot_of :: "executions \<Rightarrow> coalesce_key \<Rightarrow> slot option" where
  "slot_of e k = (case map_of (outcomes e) k of
       Some r \<Rightarrow> Some (Completed (rt_hash r) (rt_outcome r))
     | None \<Rightarrow> (case map_of (by_key e) k of
         Some i \<Rightarrow> map_option (\<lambda>p. InFlight (px_hash p) i) (map_of (px e) i)
       | None \<Rightarrow> None))"

definition spec_run :: "slot option \<Rightarrow> ustring option \<Rightarrow> bool \<Rightarrow> uuid \<Rightarrow> nat \<Rightarrow> exec_error + execution" where
  "spec_run s hash free i w = (case s of
       Some (Completed h oc) \<Rightarrow>
         if h \<noteq> hash then Err RequestIdMismatch
         else (case oc of Some x \<Rightarrow> Ok (Replay x) | None \<Rightarrow> Err OutcomeNotReplayable)
     | Some (InFlight h j) \<Rightarrow> if h \<noteq> hash then Err RequestIdMismatch else Ok (Wait j w)
     | None \<Rightarrow> if free then Ok (Wait i w) else Err IdempotencyCapacity)"

definition has_slot :: "executions \<Rightarrow> bool" where
  "has_slot e \<longleftrightarrow> retention e \<noteq> 0 \<and> length (outcomes e) + retention_reservations e < retention_max_entries e"

definition started :: "uuid \<Rightarrow> exec_request \<Rightarrow> executions \<Rightarrow> executions" where
  "started i req e =
     (let e = (if coalesce_key req = None then e else e\<lparr>retention_reservations := retention_reservations e + 1\<rparr>);
          e = e\<lparr>waiter_seq := waiter_seq e + 1\<rparr>;
          e = e\<lparr>px := AList.update i \<lparr>px_key = coalesce_key req, px_hash = payload_hash req,
                retention_reserved = (coalesce_key req \<noteq> None), px_waiters = [waiter_seq e],
                abandon = (if coalesce_key req = None then rq_abandon req else None)\<rparr> (px e)\<rparr> in
      case coalesce_key req of Some k \<Rightarrow> e\<lparr>by_key := AList.update k i (by_key e)\<rparr> | None \<Rightarrow> e)"

definition joined :: "uuid \<Rightarrow> pending_exec \<Rightarrow> executions \<Rightarrow> executions" where
  "joined j p e = e\<lparr>waiter_seq := waiter_seq e + 1,
     px := AList.update j (p\<lparr>px_waiters := px_waiters p @ [waiter_seq e + 1]\<rparr>) (px e)\<rparr>"

lemma started_ok:
  assumes ok: "exec_ok e" and fresh: "map_of (px e) i = None"
    and free: "\<And>k. coalesce_key req = Some k \<Longrightarrow> has_slot e \<and> map_of (by_key e) k = None \<and> map_of (outcomes e) k = None"
  shows "exec_ok (started i req e)"
    and "slot_of (started i req e) q = (if coalesce_key req = Some q then Some (InFlight (payload_hash req) i) else slot_of e q)"
proof -
  let ?e = "started i req e"
  let ?p = "\<lparr>px_key = coalesce_key req, px_hash = payload_hash req, retention_reserved = (coalesce_key req \<noteq> None),
      px_waiters = [waiter_seq e + 1], abandon = (if coalesce_key req = None then rq_abandon req else None)\<rparr>"
  have k: "kept_ok e" and p: "pend_ok e" using ok by (simp_all add: exec_ok_def)
  note d = pend_okD [OF p]
  have f: "px ?e = AList.update i ?p (px e)" "outcomes ?e = outcomes e" "retention ?e = retention e"
      "by_key ?e = (case coalesce_key req of Some k \<Rightarrow> AList.update k i (by_key e) | None \<Rightarrow> by_key e)"
      "retention_reservations ?e = retention_reservations e + of_bool (coalesce_key req \<noteq> None)"
      "retention_max_entries ?e = retention_max_entries e"
    by (auto simp: started_def Let_def split: option.split)
  have un: "map_of (by_key e) q \<noteq> Some i" for q using d(3) [of q i] fresh by auto
  have bk: "map_of (by_key ?e) q = (if coalesce_key req = Some q then Some i else map_of (by_key e) q)" for q
    by (auto simp: f map_of_update_eq split: option.split)
  have "pend_ok ?e"
  proof (rule pend_okI)
    show "hm_wf (by_key ?e)" using d(2) by (auto simp: f split: option.split)
    show "map_of (by_key ?e) q = Some j \<longleftrightarrow> (\<exists>p. map_of (px ?e) j = Some p \<and> px_key p = Some q)" for q j
    proof (cases "j = i")
      case True
      then show ?thesis using un [of q] by (auto simp: bk f(1) map_of_update_eq)
    next
      case False
      moreover have "coalesce_key req = Some q \<Longrightarrow> map_of (by_key e) q = None" using free by simp
      ultimately show ?thesis using d(3) [of q j] by (auto simp: bk f(1) map_of_update_eq)
    qed
    show "retention_reserved r = (px_key r \<noteq> None) \<and> (px_key r \<noteq> None \<longrightarrow> retention ?e \<noteq> 0)" if "map_of (px ?e) j = Some r" for j r
      using that d(4) [of j r] free by (auto simp: f map_of_update_eq has_slot_def split: if_splits)
    show "map_of (outcomes ?e) q = None" if "map_of (by_key ?e) q \<noteq> None" for q
      using that d(5) [of q] free by (auto simp: bk f(2) split: if_splits)
    show "retention_reservations ?e = sum_values (\<lambda>p. of_bool (retention_reserved p)) (px ?e)"
      using d(6) sum_values_update [of "\<lambda>p. of_bool (retention_reserved p)" i ?p "px e"] fresh by (simp add: f)
    show "length (outcomes ?e) + retention_reservations ?e \<le> retention_max_entries ?e"
      using d(7) free by (cases "coalesce_key req") (auto simp: f has_slot_def)
  qed (use d(1) in \<open>simp add: f\<close>)
  moreover have "kept_ok ?e" by (rule kept_ok_frame [OF k]) (auto simp: started_def Let_def split: option.split)
  ultimately show "exec_ok ?e" by (simp add: exec_ok_def)
  have "map_of (px ?e) j = map_of (px e) j" if "map_of (by_key e) q = Some j" for j
    using that un [of q] by (auto simp: f map_of_update_eq)
  then show "slot_of ?e q = (if coalesce_key req = Some q then Some (InFlight (payload_hash req) i) else slot_of e q)"
    using free by (auto simp: slot_of_def bk f(1,2) map_of_update_eq split: option.splits)
qed

text \<open>Changing the waiters of a parked execution.\<close>

lemma repark_ok:
  assumes ok: "exec_ok e" and i: "map_of (px e) i = Some p" "px_key p' = px_key p" "retention_reserved p' = retention_reserved p"
    and e': "px e' = AList.update i p' (px e)" "outcomes e' = outcomes e" "outcome_order e' = outcome_order e"
      "replay_order e' = replay_order e" "outcome_bytes e' = outcome_bytes e" "retention_max_bytes e' = retention_max_bytes e"
      "retention e' = retention e" "by_key e' = by_key e" "retention_reservations e' = retention_reservations e"
      "retention_max_entries e' = retention_max_entries e"
  shows "exec_ok e'"
proof -
  have k: "kept_ok e" and pe: "pend_ok e" using ok by (simp_all add: exec_ok_def)
  note d = pend_okD [OF pe]
  have "pend_ok e'"
  proof (rule pend_okI)
    show "map_of (by_key e') q = Some j \<longleftrightarrow> (\<exists>r. map_of (px e') j = Some r \<and> px_key r = Some q)" for q j
      using d(3) [of q j] i by (auto simp: e' map_of_update_eq)
    show "retention_reserved r = (px_key r \<noteq> None) \<and> (px_key r \<noteq> None \<longrightarrow> retention e' \<noteq> 0)" if "map_of (px e') j = Some r" for j r
    proof (cases "j = i")
      case True
      with that have "r = p'" by (simp add: e'(1) map_of_update_eq)
      with d(4) [OF i(1)] i(2,3) e'(7) show ?thesis by simp
    next
      case False
      with that d(4) [of j r] e'(7) show ?thesis by (simp add: e'(1) map_of_update_eq)
    qed
    show "map_of (outcomes e') q = None" if "map_of (by_key e') q \<noteq> None" for q
      using that d(5) [of q] by (simp add: e')
    show "retention_reservations e' = sum_values (\<lambda>p. of_bool (retention_reserved p)) (px e')"
      using d(6) sum_values_update [of "\<lambda>p. of_bool (retention_reserved p)" i p' "px e"] i by (simp add: e')
  qed (use d(1,2,7) in \<open>simp_all add: e'\<close>)
  with kept_ok_frame [OF k e'(2-6)] show ?thesis by (simp add: exec_ok_def)
qed

lemma joined_ok:
  assumes "exec_ok e" and j: "map_of (px e) j = Some p"
  shows "exec_ok (joined j p e)" and "slot_of (joined j p e) q = slot_of e q"
proof -
  show "exec_ok (joined j p e)" by (rule repark_ok [OF assms, where p' = "p\<lparr>px_waiters := px_waiters p @ [waiter_seq e + 1]\<rparr>"]) (simp_all add: joined_def)
  show "slot_of (joined j p e) q = slot_of e q"
    using j by (auto simp: slot_of_def joined_def map_of_update_eq split: option.split)
qed

text \<open>The five ways \<open>run\<close> ends, over the pruned registry.\<close>

lemma run_cases:
  assumes ok: "exec_ok e" and fresh: "map_of (px e) i = None"
    and e0: "e0 = prune_expired_outcomes now e"
  obtains (completed) k r where "coalesce_key req = Some k" "map_of (outcomes e0) k = Some r"
      "run_exec now i req e = Return (spec_run (Some (Completed (rt_hash r) (rt_outcome r))) (payload_hash req) True i 0, e0)"
  | (mismatch) k j p where "coalesce_key req = Some k" "map_of (outcomes e0) k = None" "map_of (by_key e0) k = Some j"
      "map_of (px e0) j = Some p" "px_hash p \<noteq> payload_hash req"
      "run_exec now i req e = Return (Err RequestIdMismatch, e0\<lparr>waiter_seq := waiter_seq e0 + 1\<rparr>)"
  | (join) k j p where "coalesce_key req = Some k" "map_of (outcomes e0) k = None" "map_of (by_key e0) k = Some j"
      "map_of (px e0) j = Some p" "px_hash p = payload_hash req"
      "run_exec now i req e = Return (Ok (Wait j (waiter_seq e0 + 1)), joined j p e0)"
  | (full) k where "coalesce_key req = Some k" "map_of (outcomes e0) k = None" "map_of (by_key e0) k = None" "\<not> has_slot e0"
      "run_exec now i req e = Return (Err IdempotencyCapacity, e0)"
  | (start) "\<And>k. coalesce_key req = Some k \<Longrightarrow> has_slot e0 \<and> map_of (by_key e0) k = None \<and> map_of (outcomes e0) k = None"
      "run_exec now i req e = Return (Ok (Wait i (waiter_seq e0 + 1)), started i req e0)"
proof (cases "coalesce_key req")
  case None
  then show thesis
    by (intro start)
      (simp_all add: run_exec_def try_join_def e0 [symmetric] reserve_retention_slot_def next_waiter_def started_def Let_def)
next
  case (Some k)
  have ok0: "exec_ok e0" using prune_exec_ok [OF ok] e0 by simp
  then have pe: "pend_ok e0" by (simp add: exec_ok_def)
  show thesis
  proof (cases "map_of (outcomes e0) k")
    case r: (Some r)
    then show thesis
      by (intro completed [OF Some r])
        (auto simp: run_exec_def try_join_def Some e0 [symmetric] spec_run_def Let_def split: option.split)
  next
    case no: None
    show thesis
    proof (cases "map_of (by_key e0) k")
      case None
      show thesis
      proof (cases "has_slot e0")
        case True
        with Some None no show thesis
          by (intro start)
            (auto simp: run_exec_def try_join_def e0 [symmetric] reserve_retention_slot_def next_waiter_def started_def Let_def
              has_slot_def)
      next
        case False
        then show thesis
          by (intro full [OF Some no None])
            (auto simp: run_exec_def try_join_def Some None no e0 [symmetric] reserve_retention_slot_def Let_def has_slot_def)
      qed
    next
      case j: (Some j)
      then obtain p where p: "map_of (px e0) j = Some p" using pend_okD(3) [OF pe, of k j] by auto
      note ev = run_exec_def try_join_def next_waiter_def Let_def
      show thesis
      proof (cases "px_hash p = payload_hash req")
        case True
        then show thesis
          by (intro join [OF Some no j p]) (simp_all add: ev Some no j p e0 [symmetric] joined_def)
      next
        case False
        then show thesis
          by (intro mismatch [OF Some no j p]) (simp_all add: ev Some no j p e0 [symmetric])
      qed
    qed
  qed
qed

lemma seq_ok:
  "exec_ok (e\<lparr>waiter_seq := n\<rparr>) = exec_ok e" "slot_of (e\<lparr>waiter_seq := n\<rparr>) q = slot_of e q"
  by (simp_all add: exec_ok_def kept_ok_def pend_ok_def slot_of_def split: option.split)

lemma run_ok:
  assumes ok: "exec_ok e" and fresh: "map_of (px e) i = None"
  shows "\<exists>res e'. run_exec now i req e = Return (res, e') \<and> exec_ok e'"
proof -
  let ?e0 = "prune_expired_outcomes now e"
  have ok0: "exec_ok ?e0" by (rule prune_exec_ok [OF ok])
  have fr: "map_of (px ?e0) i = None"
    using prune_ok [of e now] ok fresh table_onlyD(1) [of e ?e0] by (simp add: exec_ok_def)
  show ?thesis
    by (cases rule: run_cases [where now = now and req = req, OF ok fresh refl])
      (use ok0 joined_ok(1) [OF ok0] started_ok(1) [OF ok0 fr] in \<open>auto simp: seq_ok\<close>)
qed

text \<open>Completing: the state of the registry before the retention table is written.\<close>

definition unparked :: "uuid \<Rightarrow> pending_exec \<Rightarrow> executions \<Rightarrow> executions" where
  "unparked i p e =
     (let e = e\<lparr>px := AList.delete i (px e)\<rparr> in
      case px_key p of
        None \<Rightarrow> e
      | Some k \<Rightarrow> e\<lparr>by_key := AList.delete k (by_key e), retention_reservations := retention_reservations e - 1\<rparr>)"

lemma unparked_ok:
  assumes ok: "exec_ok e" and i: "map_of (px e) i = Some p"
  shows "exec_ok (unparked i p e)" and "outcomes (unparked i p e) = outcomes e" and "retention (unparked i p e) = retention e"
    and "retention_max_bytes (unparked i p e) = retention_max_bytes e"
    and "slot_of (unparked i p e) q = (if px_key p = Some q then None else slot_of e q)"
    and "px_key p = Some k \<Longrightarrow> map_of (outcomes e) k = None \<and> retention e \<noteq> 0 \<and> retention_reserved p \<and>
      Suc (length (outcomes e) + retention_reservations (unparked i p e)) \<le> retention_max_entries e"
proof -
  let ?e = "unparked i p e"
  have k: "kept_ok e" and pe: "pend_ok e" using ok by (simp_all add: exec_ok_def)
  note d = pend_okD [OF pe]
  have res: "retention_reserved p = (px_key p \<noteq> None)" using d(4) [OF i] by simp
  have f: "px ?e = AList.delete i (px e)" "outcomes ?e = outcomes e" "retention ?e = retention e"
      "retention_reservations ?e = retention_reservations e - of_bool (px_key p \<noteq> None)"
      "retention_max_entries ?e = retention_max_entries e" "retention_max_bytes ?e = retention_max_bytes e"
    by (auto simp: unparked_def Let_def split: option.split)
  have bk: "map_of (by_key ?e) q = (if px_key p = Some q then None else map_of (by_key e) q)" for q
    by (auto simp: unparked_def Let_def map_of_delete_eq split: option.split)
  have cnt: "sum_values (\<lambda>p. of_bool (retention_reserved p)) (px ?e) + of_bool (px_key p \<noteq> None) = retention_reservations e"
    using d(6) sum_values_delete [OF d(1), of "\<lambda>p. of_bool (retention_reserved p)" i] i res by (simp add: f)
  show "outcomes ?e = outcomes e" "retention ?e = retention e" "retention_max_bytes ?e = retention_max_bytes e"
    by (simp_all add: f)
  have uniq: "q = q'" if "map_of (by_key e) q = Some j" "map_of (by_key e) q' = Some j" for q q' j
    using that d(3) [of q j] d(3) [of q' j] by auto
  have "pend_ok ?e"
  proof (rule pend_okI)
    show "hm_wf (by_key ?e)" using d(2) by (auto simp: unparked_def Let_def split: option.split)
    show "map_of (by_key ?e) q = Some j \<longleftrightarrow> (\<exists>r. map_of (px ?e) j = Some r \<and> px_key r = Some q)" for q j
      using d(3) [of q j] d(3) [of q i] i uniq by (auto simp: bk f map_of_delete_eq)
    show "retention_reserved r = (px_key r \<noteq> None) \<and> (px_key r \<noteq> None \<longrightarrow> retention ?e \<noteq> 0)" if "map_of (px ?e) j = Some r" for j r
      using that d(4) [of j r] by (auto simp: f map_of_delete_eq split: if_splits)
    show "map_of (outcomes ?e) q = None" if "map_of (by_key ?e) q \<noteq> None" for q
      using that d(5) [of q] by (simp add: f bk split: if_splits)
    show "retention_reservations ?e = sum_values (\<lambda>p. of_bool (retention_reserved p)) (px ?e)" using cnt by (auto simp: f(4))
    show "length (outcomes ?e) + retention_reservations ?e \<le> retention_max_entries ?e" using d(7) by (simp add: f)
  qed (use d(1) in \<open>simp add: f\<close>)
  moreover have "kept_ok ?e" by (rule kept_ok_frame [OF k]) (auto simp: unparked_def Let_def split: option.split)
  ultimately show "exec_ok ?e" by (simp add: exec_ok_def)
  have "j \<noteq> i" if "px_key p \<noteq> Some q" "map_of (by_key e) q = Some j" for j
    using that d(3) [of q j] i by auto
  moreover have "map_of (outcomes e) q = None" if "px_key p = Some q"
    using that d(5) [of q] d(3) [of q i] i by simp
  ultimately show "slot_of ?e q = (if px_key p = Some q then None else slot_of e q)"
    by (auto simp: slot_of_def f bk map_of_delete_eq split: option.split)
  show "map_of (outcomes e) k = None \<and> retention e \<noteq> 0 \<and> retention_reserved p \<and>
      Suc (length (outcomes e) + retention_reservations ?e) \<le> retention_max_entries e" if "px_key p = Some k"
    using that d(4) [OF i] d(5) [of k] d(3) [of k i] d(7) i cnt by (auto simp: f(4))
qed

lemma complete_unparked:
  assumes ok: "exec_ok e" and i: "map_of (px e) i = Some p"
  shows "complete_exec outcome_len now i oc e =
    (let e1 = (case px_key p of
         None \<Rightarrow> unparked i p e
       | Some k \<Rightarrow> if is_retryable_preflight_outcome oc then unparked i p e
           else retain_completed_outcome outcome_len now k (px_hash p) oc (unparked i p e)) in
     e1\<lparr>sent := sent e1 @ map (\<lambda>w. (w, oc)) (px_waiters p)\<rparr>)"
  using unparked_ok(6) [OF ok i] i
  by (auto simp: complete_exec_def unparked_def release_retention_reservation_def Let_def split: option.split)

lemma sent_ok:
  "exec_ok (e\<lparr>sent := n\<rparr>) = exec_ok e" "slot_of (e\<lparr>sent := n\<rparr>) q = slot_of e q"
  by (simp_all add: exec_ok_def kept_ok_def pend_ok_def slot_of_def split: option.split)

lemma retained_ok:
  assumes ok: "exec_ok e" and new: "map_of (outcomes e) k = None" "map_of (by_key e) k = None" "retention e \<noteq> 0"
    "Suc (length (outcomes e) + retention_reservations e) \<le> retention_max_entries e"
    and e': "e' = retain_completed_outcome outcome_len now k hash oc e"
  shows "exec_ok e'"
proof -
  have k: "kept_ok e" and pe: "pend_ok e" using ok by (simp_all add: exec_ok_def)
  note r = retain_ok [OF k new(1,3) e'] and d = pend_okD [OF pe]
  have f: "table_only e e'" using r by blast
  note fr = table_onlyD [OF f]
  have "pend_ok e'"
  proof (rule pend_okI)
    show "map_of (outcomes e') q = None" if "map_of (by_key e') q \<noteq> None" for q
    proof -
      have q: "q \<noteq> k" "map_of (outcomes e) q = None" using that new(2) d(5) [of q] by (auto simp: fr)
      with r [of q] show ?thesis using fadesD(1) by metis
    qed
    show "length (outcomes e') + retention_reservations e' \<le> retention_max_entries e'" using r [of k] new(4) by (simp add: fr)
    show "retention_reserved q = (px_key q \<noteq> None) \<and> (px_key q \<noteq> None \<longrightarrow> retention e' \<noteq> 0)"
      if "map_of (px e') i = Some q" for i q
      using that d(4) [of i q] by (simp add: fr)
  qed (use d(1,2,6) d(3) in \<open>simp_all add: fr\<close>)
  with r [of k] show ?thesis by (simp add: exec_ok_def)
qed

lemma complete_ok:
  assumes ok: "exec_ok e"
  shows "exec_ok (complete_exec outcome_len now i oc e)"
proof (cases "map_of (px e) i")
  case None
  with ok show ?thesis by (simp add: complete_exec_def)
next
  case (Some p)
  note u = unparked_ok [OF ok Some]
  have "exec_ok (retain_completed_outcome outcome_len now k (px_hash p) oc (unparked i p e))" if k: "px_key p = Some k" for k
  proof (rule retained_ok [OF u(1) _ _ _ _ refl])
    show "map_of (by_key (unparked i p e)) k = None" using k by (simp add: unparked_def Let_def map_of_delete_eq)
    have "retention_max_entries (unparked i p e) = retention_max_entries e"
      by (simp add: unparked_def Let_def split: option.split)
    then show "Suc (length (outcomes (unparked i p e)) + retention_reservations (unparked i p e)) \<le> retention_max_entries (unparked i p e)"
      using u(6) [OF k] by (simp add: u(2))
  qed (use u(6) [OF k] in \<open>simp_all add: u(2,3)\<close>)
  with u(1) show ?thesis by (simp add: complete_unparked [OF ok Some] Let_def sent_ok split: option.split)
qed

lemma drop_waiter_ok:
  assumes ok: "exec_ok e"
  shows "exec_ok (drop_waiter i w e)"
proof (cases "map_of (px e) i")
  case None
  with ok show ?thesis by (simp add: drop_waiter_def)
next
  case (Some p)
  show ?thesis
    by (rule repark_ok [OF ok Some, where p' = "p\<lparr>px_waiters := filter (\<lambda>x. x \<noteq> w) (px_waiters p)\<rparr>"])
      (simp_all add: drop_waiter_def Some Let_def split: list.split option.split)
qed

subsection \<open>The registry over time\<close>

text \<open>
  The registry with a clock and the record of what completed: \<open>finished\<close> holds the keys whose execution
  ran to an outcome that must be remembered, with the time. The steps are the critical sections, in any
  order and at non-decreasing times; the UUID of a new execution is new.
\<close>

record exec_system =
  reg :: executions
  clock :: instant
  finished :: "(coalesce_key \<times> instant) list"

definition exec_start :: "duration \<Rightarrow> nat \<Rightarrow> nat \<Rightarrow> exec_system" where
  "exec_start keep entries bytes = \<lparr>reg = new_executions keep entries bytes, clock = 0, finished = []\<rparr>"

inductive exec_step :: "(exec_outcome \<Rightarrow> nat option) \<Rightarrow> exec_system \<Rightarrow> exec_system \<Rightarrow> bool" for outcome_len where
  es_run: "clock s \<le> now \<Longrightarrow> map_of (px (reg s)) i = None \<Longrightarrow> run_exec now i req (reg s) = Return (res, e) \<Longrightarrow>
    exec_step outcome_len s (s\<lparr>reg := e, clock := now\<rparr>)"
| es_complete: "clock s \<le> now \<Longrightarrow> map_of (px (reg s)) i = Some p \<Longrightarrow>
    exec_step outcome_len s (s\<lparr>reg := complete_exec outcome_len now i oc (reg s), clock := now,
      finished := (case px_key p of
          Some k \<Rightarrow> if is_retryable_preflight_outcome oc then finished s else (k, now) # finished s
        | None \<Rightarrow> finished s)\<rparr>)"
| es_drop: "exec_step outcome_len s (s\<lparr>reg := drop_waiter i w (reg s)\<rparr>)"
| es_sweep: "clock s \<le> now \<Longrightarrow> exec_step outcome_len s (s\<lparr>reg := prune_expired_outcomes now (reg s), clock := now\<rparr>)"

text \<open>A finished key is remembered, or its retention time is over.\<close>

definition remembers :: "executions \<Rightarrow> instant \<Rightarrow> coalesce_key \<Rightarrow> instant \<Rightarrow> bool" where
  "remembers e now k t \<longleftrightarrow> (\<exists>r. map_of (outcomes e) k = Some r \<and> t \<le> at r) \<or> t + retention e < now"

definition exec_system_ok :: "exec_system \<Rightarrow> bool" where
  "exec_system_ok s \<longleftrightarrow> exec_ok (reg s) \<and> (\<forall>k t. (k, t) \<in> set (finished s) \<longrightarrow> remembers (reg s) (clock s) k t)"

lemma remembers_mono:
  assumes "remembers e now k t" and "now \<le> now'" and "retention e' = retention e"
    and "\<And>r. map_of (outcomes e) k = Some r \<Longrightarrow> \<exists>r'. map_of (outcomes e') k = Some r' \<and> at r' = at r"
  shows "remembers e' now' k t"
  using assms unfolding remembers_def by fastforce

lemma prune_remembers:
  assumes "exec_ok e" and "remembers e now k t" and "now \<le> now'"
  shows "remembers (prune_expired_outcomes now' e) now' k t"
proof -
  let ?e = "prune_expired_outcomes now' e"
  have k: "kept_ok e" using assms(1) by (simp add: exec_ok_def)
  note p = prune_ok [OF k, of now' k]
  have r: "retention ?e = retention e" using p table_onlyD(3) by blast
  show ?thesis
  proof (cases "map_of (outcomes ?e) k = map_of (outcomes e) k")
    case True
    with remembers_mono [OF assms(2,3) r] show ?thesis by simp
  next
    case False
    with p have "entry_expired now' e k" by auto
    with assms(2,3) show ?thesis
      by (auto simp: remembers_def r entry_expired_def split: option.splits)
  qed
qed

lemma run_remembers:
  assumes ok: "exec_ok e" and fresh: "map_of (px e) i = None" and run: "run_exec now' i req e = Return (res, e')"
    and r: "remembers e now k t" and le: "now \<le> now'"
  shows "remembers e' now' k t"
proof -
  let ?e0 = "prune_expired_outcomes now' e"
  have "outcomes e' = outcomes ?e0 \<and> retention e' = retention ?e0"
    by (cases rule: run_cases [where now = now' and req = req, OF ok fresh refl])
      (use run in \<open>auto simp: joined_def started_def Let_def split: option.splits\<close>)
  with prune_remembers [OF ok r le] show ?thesis by (simp add: remembers_def)
qed

lemma complete_outcomes:
  assumes ok: "exec_ok e" and i: "map_of (px e) i = Some p" and e': "e' = complete_exec outcome_len now i oc e"
  shows "retention e' = retention e"
    and "px_key p \<noteq> Some q \<or> is_retryable_preflight_outcome oc \<Longrightarrow> fades (map_of (outcomes e) q) (map_of (outcomes e') q)"
    and "px_key p = Some q \<Longrightarrow> \<not> is_retryable_preflight_outcome oc \<Longrightarrow> \<exists>len. map_of (outcomes e') q =
      Some \<lparr>at = now, rt_hash = px_hash p, rt_outcome = stored outcome_len oc e, serialized_len = len\<rparr>"
proof -
  note u = unparked_ok [OF ok i]
  have k: "kept_ok (unparked i p e)" using u(1) by (simp add: exec_ok_def)
  have st: "stored outcome_len oc (unparked i p e) = stored outcome_len oc e" by (simp add: stored_def u(4) split: option.split)
  have eq: "e' = (case px_key p of
         None \<Rightarrow> unparked i p e
       | Some k \<Rightarrow> if is_retryable_preflight_outcome oc then unparked i p e
           else retain_completed_outcome outcome_len now k (px_hash p) oc (unparked i p e))\<lparr>sent := sent e'\<rparr>"
    using e' complete_unparked [OF ok i] by (simp add: Let_def)
  have keep: "retention e' = retention e \<and> (q \<noteq> q' \<longrightarrow> fades (map_of (outcomes e) q) (map_of (outcomes e') q)) \<and>
      (\<exists>len. map_of (outcomes e') q' = Some \<lparr>at = now, rt_hash = px_hash p, rt_outcome = stored outcome_len oc e, serialized_len = len\<rparr>)"
    if q': "px_key p = Some q'" "\<not> is_retryable_preflight_outcome oc" for q q'
  proof -
    let ?r = "retain_completed_outcome outcome_len now q' (px_hash p) oc (unparked i p e)"
    have new: "map_of (outcomes (unparked i p e)) q' = None" "retention (unparked i p e) \<noteq> 0" using u(6) [OF q'(1)] by (simp_all add: u(2,3))
    have r: "e' = ?r\<lparr>sent := sent e'\<rparr>" using eq q' by simp
    have "outcomes e' = outcomes ?r" "retention e' = retention ?r"
      using arg_cong [OF r, of outcomes] arg_cong [OF r, of retention] by simp_all
    with retain_ok [OF k new refl, of outcome_len now "px_hash p" oc q] table_onlyD(3) [of "unparked i p e" ?r]
    show ?thesis by (auto simp: st u(2,3))
  qed
  have same: "outcomes e' = outcomes e \<and> retention e' = retention e"
    if "px_key p = None \<or> is_retryable_preflight_outcome oc"
  proof -
    have r: "e' = (unparked i p e)\<lparr>sent := sent e'\<rparr>" using eq that by (auto split: option.splits)
    show ?thesis using arg_cong [OF r, of outcomes] arg_cong [OF r, of retention] u(2,3) by simp
  qed
  show "retention e' = retention e" using keep same by (cases "px_key p") blast+
  show "fades (map_of (outcomes e) q) (map_of (outcomes e') q)" if "px_key p \<noteq> Some q \<or> is_retryable_preflight_outcome oc"
    using that keep [of _ q] same by (cases "px_key p") (metis fades_refl)+
  show "\<exists>len. map_of (outcomes e') q = Some \<lparr>at = now, rt_hash = px_hash p, rt_outcome = stored outcome_len oc e, serialized_len = len\<rparr>"
    if "px_key p = Some q" "\<not> is_retryable_preflight_outcome oc"
    using keep [OF that] by blast
qed

lemma exec_step_ok:
  assumes "exec_system_ok s" and "exec_step outcome_len s s'"
  shows "exec_system_ok s'"
  using assms(2,1)
proof cases
  case (es_run now i req res e)
  have ok: "exec_ok (reg s)" using assms(1) by (simp add: exec_system_ok_def)
  have "exec_ok e" using run_ok [OF ok es_run(3), of now req] es_run(4) by auto
  moreover have "remembers e now k t" if "(k, t) \<in> set (finished s)" for k t
    using run_remembers [OF ok es_run(3,4) _ es_run(2)] assms(1) that by (simp add: exec_system_ok_def)
  ultimately show ?thesis using es_run(1) by (simp add: exec_system_ok_def)
next
  case (es_complete now i p oc)
  let ?e = "complete_exec outcome_len now i oc (reg s)"
  have ok: "exec_ok (reg s)" using assms(1) by (simp add: exec_system_ok_def)
  note c = complete_outcomes [where outcome_len = outcome_len and now = now and oc = oc, OF ok es_complete(3) refl]
  have old: "remembers ?e now k t" if "(k, t) \<in> set (finished s)" for k t
  proof -
    have r: "remembers (reg s) (clock s) k t" using assms(1) that by (simp add: exec_system_ok_def)
    show ?thesis
    proof (cases "px_key p = Some k \<and> \<not> is_retryable_preflight_outcome oc")
      case True
      then have "map_of (outcomes (reg s)) k = None" using unparked_ok(6) [OF ok es_complete(3)] by blast
      with r es_complete(2) show ?thesis by (simp add: remembers_def c(1))
    next
      case False
      then have "fades (map_of (outcomes (reg s)) k) (map_of (outcomes ?e) k)" using c(2) by blast
      then show ?thesis using remembers_mono [OF r es_complete(2) c(1)] by (auto simp: fades_def)
    qed
  qed
  have new: "remembers ?e now k now" if "px_key p = Some k" "\<not> is_retryable_preflight_outcome oc" for k
    using c(3) [OF that] by (auto simp: remembers_def)
  have "exec_system_ok s' \<longleftrightarrow> (\<forall>k t. (k, t) \<in> set (finished s') \<longrightarrow> remembers ?e now k t)"
    using complete_ok [OF ok] es_complete(1) by (simp add: exec_system_ok_def)
  moreover have "(k, t) \<in> set (finished s) \<or> px_key p = Some k \<and> \<not> is_retryable_preflight_outcome oc \<and> t = now"
    if "(k, t) \<in> set (finished s')" for k t
    using that es_complete(1) by (simp split: option.splits if_splits) blast+
  ultimately show ?thesis using old new by blast
next
  case (es_drop i w)
  have "outcomes (drop_waiter i w (reg s)) = outcomes (reg s)" "retention (drop_waiter i w (reg s)) = retention (reg s)"
    by (simp_all add: drop_waiter_def Let_def split: option.split list.split)
  with es_drop assms(1) drop_waiter_ok show ?thesis by (simp add: exec_system_ok_def remembers_def)
next
  case (es_sweep now)
  with assms(1) prune_exec_ok prune_remembers show ?thesis by (simp add: exec_system_ok_def) blast
qed

interpretation exec_life: invariant_system "exec_step outcome_len" exec_system_ok for outcome_len
  by unfold_locales (rule exec_step_ok)

lemma exec_start_ok: "exec_system_ok (exec_start keep entries bytes)"
  by (simp add: exec_system_ok_def exec_start_def exec_ok_def kept_ok_def pend_ok_def new_executions_def)

lemma exec_step_limits:
  assumes "exec_step outcome_len s s'" and "exec_ok (reg s)"
  shows "retention (reg s') = retention (reg s) \<and> retention_max_entries (reg s') = retention_max_entries (reg s) \<and>
    retention_max_bytes (reg s') = retention_max_bytes (reg s)"
  using assms(1)
proof cases
  case (es_run now i req res e)
  let ?e0 = "prune_expired_outcomes now (reg s)"
  have "table_only (reg s) ?e0" using prune_ok assms(2) unfolding exec_ok_def by blast
  note f = table_onlyD [OF this]
  show ?thesis
    by (cases rule: run_cases [where now = now and req = req, OF assms(2) es_run(3) refl])
      (use es_run f in \<open>auto simp: joined_def started_def Let_def split: option.splits\<close>)
next
  case (es_complete now i p oc)
  let ?u = "unparked i p (reg s)"
  have u: "retention ?u = retention (reg s)" "retention_max_entries ?u = retention_max_entries (reg s)"
      "retention_max_bytes ?u = retention_max_bytes (reg s)"
    by (simp_all add: unparked_def Let_def split: option.split)
  have k: "kept_ok ?u" using unparked_ok(1) [OF assms(2) es_complete(3)] by (simp add: exec_ok_def)
  have "table_only ?u (retain_completed_outcome outcome_len now k (px_hash p) oc ?u)" if "px_key p = Some k" for k
    using retain_ok [OF k _ _ refl, of k] unparked_ok(6) [OF assms(2) es_complete(3) that] unparked_ok(2,3) [OF assms(2) es_complete(3)]
    by auto
  from table_onlyD [OF this] u show ?thesis
    using es_complete(1) by (simp add: complete_unparked [OF assms(2) es_complete(3)] Let_def split: option.split)
next
  case (es_drop i w)
  then show ?thesis by (simp add: drop_waiter_def Let_def split: option.split list.split)
next
  case (es_sweep now)
  have "table_only (reg s) (prune_expired_outcomes now (reg s))" using prune_ok assms(2) unfolding exec_ok_def by blast
  from table_onlyD [OF this] es_sweep show ?thesis by simp
qed

lemma exec_limits:
  assumes "reaches (exec_step outcome_len) (exec_start keep entries bytes) s"
  shows "retention (reg s) = keep \<and> retention_max_entries (reg s) = entries \<and> retention_max_bytes (reg s) = bytes"
  using assms
proof (induction rule: reaches.induct)
  case reaches_refl
  then show ?case by (simp add: exec_start_def new_executions_def)
next
  case (reaches_step s t)
  have "exec_ok (reg s)"
    using exec_life.reaches_inv [OF reaches_step(1) exec_start_ok] by (simp add: exec_system_ok_def)
  with exec_step_limits [OF reaches_step(2)] reaches_step(3) show ?case by simp
qed

subsection \<open>A concrete registry\<close>

definition sample_exec :: exec_request where
  "sample_exec = \<lparr>coalesce_key = Some (1, 2, [97]), payload_hash = Some [104], rq_abandon = None\<rparr>"

definition sample_outcome :: exec_outcome where
  "sample_outcome = \<lparr>status = 200, body = JNull\<rparr>"

definition running_exec :: exec_system where
  "running_exec = (exec_start 60 4 100)\<lparr>reg := started 1 sample_exec (new_executions 60 4 100)\<rparr>"

definition completed_exec :: exec_system where
  "completed_exec = running_exec\<lparr>reg := complete_exec (\<lambda>_. Some 3) 5 1 sample_outcome (reg running_exec), clock := 5,
     finished := [((1, 2, [97]), 5)]\<rparr>"

lemma running_reachable: "reaches (exec_step (\<lambda>_. Some 3)) (exec_start 60 4 100) running_exec"
proof -
  have "run_exec 0 1 sample_exec (reg (exec_start 60 4 100)) = Return (Ok (Wait 1 1), reg running_exec)"
    by (simp add: run_exec_def try_join_def exec_start_def new_executions_def sample_exec_def prune_expired_outcomes_def
        reserve_retention_slot_def next_waiter_def running_exec_def started_def)
  then have "exec_step (\<lambda>_. Some 3) (exec_start 60 4 100) ((exec_start 60 4 100)\<lparr>reg := reg running_exec, clock := 0\<rparr>)"
    by (intro es_run) (simp_all add: exec_start_def new_executions_def)
  moreover have "(exec_start 60 4 100)\<lparr>reg := reg running_exec, clock := 0\<rparr> = running_exec"
    by (simp add: running_exec_def exec_start_def)
  ultimately show ?thesis by (metis reaches_refl reaches_step)
qed

lemma running_parked:
  "map_of (px (reg running_exec)) 1 = Some \<lparr>px_key = Some (1, 2, [97]), px_hash = Some [104], retention_reserved = True,
     px_waiters = [1], abandon = None\<rparr>" "clock running_exec = 0" "finished running_exec = []"
  by (simp_all add: running_exec_def started_def sample_exec_def new_executions_def exec_start_def)

lemma sample_not_retryable: "\<not> is_retryable_preflight_outcome sample_outcome"
  by (simp add: is_retryable_preflight_outcome_def sample_outcome_def)

lemma completed_reachable: "reaches (exec_step (\<lambda>_. Some 3)) (exec_start 60 4 100) completed_exec"
proof -
  have "exec_step (\<lambda>_. Some 3) running_exec completed_exec"
    using es_complete [of running_exec 5 1 _ "\<lambda>_. Some 3" sample_outcome, OF _ running_parked(1)]
    by (simp add: running_parked completed_exec_def sample_not_retryable)
  with running_reachable show ?thesis by (rule reaches_step)
qed

lemma completed_kept:
  "map_of (outcomes (reg completed_exec)) (1, 2, [97]) =
     Some \<lparr>at = 5, rt_hash = Some [104], rt_outcome = Some sample_outcome, serialized_len = 3\<rparr>"
  "px (reg completed_exec) = []" "outcome_order (reg completed_exec) = [(1, 2, [97])]" "retention (reg completed_exec) = 60"
  "by_key (reg completed_exec) = []" "retention_max_entries (reg completed_exec) = 4"
  "outcomes (reg completed_exec) = [((1, 2, [97]), \<lparr>at = 5, rt_hash = Some [104], rt_outcome = Some sample_outcome, serialized_len = 3\<rparr>)]"
  by (simp_all add: completed_exec_def complete_exec_def running_parked sample_not_retryable release_retention_reservation_def
      retain_completed_outcome_def make_room.simps Let_def,
      simp_all add: running_exec_def started_def sample_exec_def new_executions_def Let_def)

subsection \<open>Properties\<close>

text \<open>
  C15. At most one execution per idempotency key: whatever calls, retries, completions, disconnects and
  sweeps came before, when \<open>run\<close> starts an execution for a key, none is in flight for it and every earlier
  one that reached an upstream completed more than the retention time ago.
\<close>

theorem executions_at_most_once:
  assumes "reaches (exec_step outcome_len) (exec_start keep entries bytes) s" and "clock s \<le> now"
    and "map_of (px (reg s)) i = None" and "coalesce_key req = Some k"
    and "run_exec now i req (reg s) = Return (Ok (Wait i w), e')"
  shows "map_of (by_key (reg s)) k = None \<and> (\<forall>t. (k, t) \<in> set (finished s) \<longrightarrow> t + keep < now)"
proof -
  have ok: "exec_system_ok s" by (rule exec_life.reaches_inv [OF assms(1) exec_start_ok])
  then have eok: "exec_ok (reg s)" by (simp add: exec_system_ok_def)
  let ?e0 = "prune_expired_outcomes now (reg s)"
  have to: "table_only (reg s) ?e0" using prune_ok eok unfolding exec_ok_def by blast
  have none: "map_of (by_key ?e0) k = None \<and> map_of (outcomes ?e0) k = None"
  proof (cases rule: run_cases [where now = now and req = req, OF eok assms(3) refl, case_names completed mismatch join full start])
    case (join k' j p)
    with assms(5) have "j = i" by simp
    with join(4) assms(3) table_onlyD(1) [OF to] show ?thesis by simp
  next
    case start
    with assms(4) show ?thesis by blast
  qed (use assms(5) in \<open>auto simp: spec_run_def split: if_splits option.splits\<close>)
  have "t + keep < now" if "(k, t) \<in> set (finished s)" for t
  proof -
    have "remembers (reg s) (clock s) k t" using ok that by (simp add: exec_system_ok_def)
    from prune_remembers [OF eok this assms(2)] none show ?thesis
      using exec_limits [OF assms(1)] table_onlyD(3) [OF to] by (simp add: remembers_def)
  qed
  with none table_onlyD(2) [OF to] show ?thesis by simp
qed

theorem executions_at_most_once_witness:
  "\<exists>w e'. run_exec 70 9 sample_exec (reg completed_exec) = Return (Ok (Wait 9 w), e') \<and> 5 + 60 < (70 :: nat) \<and>
     map_of (by_key (reg completed_exec)) (1, 2, [97]) = None"
proof -
  have r: "run_exec 70 9 sample_exec (reg completed_exec) =
      Return (Ok (Wait 9 (waiter_seq (reg completed_exec) + 1)), snd (case run_exec 70 9 sample_exec (reg completed_exec) of Return x \<Rightarrow> x))"
    by (simp add: run_exec_def try_join_def prune_expired_outcomes_def completed_kept entry_expired_def forget_def
        sample_exec_def reserve_retention_slot_def next_waiter_def Let_def)
      (simp add: completed_exec_def complete_exec_def running_parked sample_not_retryable release_retention_reservation_def
        retain_completed_outcome_def make_room.simps Let_def running_exec_def started_def new_executions_def sample_exec_def)
  have "((1, 2, [97]), 5) \<in> set (finished completed_exec)" by (simp add: completed_exec_def)
  moreover have "clock completed_exec \<le> 70" by (simp add: completed_exec_def)
  moreover have "map_of (px (reg completed_exec)) 9 = None" "coalesce_key sample_exec = Some (1, 2, [97])"
    by (simp_all add: completed_kept sample_exec_def)
  ultimately have "map_of (by_key (reg completed_exec)) (1, 2, [97]) = None \<and> 5 + 60 < (70 :: nat)"
    using executions_at_most_once [OF completed_reachable _ _ _ r] by blast
  with r show ?thesis by blast
qed

text \<open>
  The registry implements the abstract idempotency table. After the expired keys are dropped, the
  answer of \<open>run\<close> to a keyed request is the table's answer to what the key stands for: a different payload
  is refused, a completed key is replayed or reported as not replayable, an execution in flight is
  joined, and an unused key starts one if a slot is left. The table changes in the last case only, at that
  key only; dropping expired keys removes completed keys only.
\<close>

theorem run_refines_table:
  assumes "reaches (exec_step outcome_len) (exec_start keep entries bytes) s" and "map_of (px (reg s)) i = None"
    and "coalesce_key req = Some k" and "e0 = prune_expired_outcomes now (reg s)"
  shows "\<exists>e'. run_exec now i req (reg s) =
      Return (spec_run (slot_of e0 k) (payload_hash req) (has_slot e0) i (waiter_seq (reg s) + 1), e') \<and>
    slot_of e' = (if slot_of e0 k = None \<and> has_slot e0 then (slot_of e0)(k \<mapsto> InFlight (payload_hash req) i) else slot_of e0) \<and>
    (slot_of e0 q \<noteq> slot_of (reg s) q \<longrightarrow>
      slot_of e0 q = None \<and> (\<exists>h oc. slot_of (reg s) q = Some (Completed h oc)) \<and> entry_expired now (reg s) q)"
proof -
  have ok: "exec_ok (reg s)" using exec_life.reaches_inv [OF assms(1) exec_start_ok] by (simp add: exec_system_ok_def)
  have ok0: "exec_ok e0" using prune_exec_ok [OF ok] assms(4) by simp
  have to: "table_only (reg s) e0" using prune_ok ok assms(4) unfolding exec_ok_def by blast
  note fr = table_onlyD [OF to]
  have fresh0: "map_of (px e0) i = None" using assms(2) by (simp add: fr)
  have pruned: "slot_of e0 q = None \<and> (\<exists>h oc. slot_of (reg s) q = Some (Completed h oc)) \<and> entry_expired now (reg s) q"
    if ne: "slot_of e0 q \<noteq> slot_of (reg s) q"
  proof -
    have "map_of (outcomes e0) q \<noteq> map_of (outcomes (reg s)) q" using ne by (auto simp: slot_of_def fr split: option.splits)
    with prune_ok [of "reg s" now q] ok assms(4)
    have gone: "map_of (outcomes e0) q = None" "entry_expired now (reg s) q" "map_of (outcomes (reg s)) q \<noteq> None"
      by (auto simp: exec_ok_def)
    then have "map_of (by_key e0) q = None" using pend_okD(5) [of "reg s" q] ok by (cases "map_of (by_key (reg s)) q") (auto simp: exec_ok_def fr)
    with gone show ?thesis by (auto simp: slot_of_def)
  qed
  have "\<exists>e'. run_exec now i req (reg s) =
      Return (spec_run (slot_of e0 k) (payload_hash req) (has_slot e0) i (waiter_seq (reg s) + 1), e') \<and>
    slot_of e' = (if slot_of e0 k = None \<and> has_slot e0 then (slot_of e0)(k \<mapsto> InFlight (payload_hash req) i) else slot_of e0)"
  proof (cases rule: run_cases [where now = now and req = req, OF ok assms(2,4), case_names completed mismatch join full start])
    case (completed k' r)
    with assms(3) have "slot_of e0 k = Some (Completed (rt_hash r) (rt_outcome r))" by (simp add: slot_of_def)
    with completed(3) show ?thesis by (auto simp: spec_run_def split: option.splits)
  next
    case (mismatch k' j p)
    with assms(3) have "slot_of e0 k = Some (InFlight (px_hash p) j)" by (simp add: slot_of_def)
    with mismatch(5,6) show ?thesis by (auto simp: spec_run_def seq_ok fun_eq_iff)
  next
    case (join k' j p)
    with assms(3) have "slot_of e0 k = Some (InFlight (px_hash p) j)" by (simp add: slot_of_def)
    with join(5,6) joined_ok(2) [OF ok0 join(4)] show ?thesis by (auto simp: spec_run_def fr fun_eq_iff)
  next
    case (full k')
    with assms(3) have "slot_of e0 k = None" by (simp add: slot_of_def)
    with full(4,5) show ?thesis by (auto simp: spec_run_def)
  next
    case start
    from start(1) [OF assms(3)] have "slot_of e0 k = None" "has_slot e0" by (simp_all add: slot_of_def)
    moreover have "slot_of (started i req e0) = (slot_of e0)(k \<mapsto> InFlight (payload_hash req) i)"
    proof
      fix q
      have "slot_of (started i req e0) q = (if coalesce_key req = Some q then Some (InFlight (payload_hash req) i) else slot_of e0 q)"
        by (rule started_ok(2) [OF ok0 fresh0]) (rule start(1))
      then show "slot_of (started i req e0) q = ((slot_of e0)(k \<mapsto> InFlight (payload_hash req) i)) q" using assms(3) by simp
    qed
    ultimately show ?thesis using start(2) by (simp add: spec_run_def fr)
  qed
  with pruned show ?thesis by blast
qed

theorem run_refines_table_witness:
  "\<exists>e'. run_exec 6 9 sample_exec (reg completed_exec) = Return (Ok (Replay sample_outcome), e')"
proof -
  have "prune_expired_outcomes 6 (reg completed_exec) = reg completed_exec"
    by (simp add: prune_expired_outcomes_def completed_kept entry_expired_def)
  then have "reg completed_exec = prune_expired_outcomes 6 (reg completed_exec)" by simp
  moreover have "slot_of (reg completed_exec) (1, 2, [97]) = Some (Completed (Some [104]) (Some sample_outcome))"
    by (simp add: slot_of_def completed_kept)
  moreover have "map_of (px (reg completed_exec)) 9 = None" "coalesce_key sample_exec = Some (1, 2, [97])"
      "payload_hash sample_exec = Some [104]"
    by (simp_all add: completed_kept sample_exec_def)
  ultimately show ?thesis
    using run_refines_table [OF completed_reachable, of 9 sample_exec "(1, 2, [97])" "reg completed_exec" 6] by (simp add: spec_run_def) blast
qed

text \<open>
  Completing an execution: every caller still waiting gets the outcome, in order; a keyed execution
  becomes a completed key carrying its payload hash, with the outcome itself whenever its text fits the
  byte budget; a refusal that happened before dispatch frees the key; any other key keeps what it stands
  for, except that a completed one may lose its body.
\<close>

theorem complete_refines_table:
  assumes "reaches (exec_step outcome_len) (exec_start keep entries bytes) s" and "map_of (px (reg s)) i = Some p"
    and "e' = complete_exec outcome_len now i oc (reg s)"
  shows "sent e' = sent (reg s) @ map (\<lambda>w. (w, oc)) (px_waiters p) \<and>
    (px_key p = Some k \<longrightarrow> slot_of e' k =
      (if is_retryable_preflight_outcome oc then None
       else Some (Completed (px_hash p) (case outcome_len oc of Some n \<Rightarrow> if n \<le> bytes then Some oc else None | None \<Rightarrow> None)))) \<and>
    (px_key p \<noteq> Some k \<longrightarrow> slot_of e' k = slot_of (reg s) k \<or>
      (\<exists>h b. slot_of (reg s) k = Some (Completed h b) \<and> slot_of e' k = Some (Completed h None)))"
proof -
  have ok: "exec_ok (reg s)" using exec_life.reaches_inv [OF assms(1) exec_start_ok] by (simp add: exec_system_ok_def)
  note u = unparked_ok [OF ok assms(2)] and c = complete_outcomes [OF ok assms(2,3)]
  let ?u = "unparked i p (reg s)"
  have kept: "kept_ok ?u" using u(1) by (simp add: exec_ok_def)
  have to: "table_only ?u (retain_completed_outcome outcome_len now k (px_hash p) oc ?u)" if "px_key p = Some k" for k
    using retain_ok [OF kept _ _ refl, of k] u(6) [OF that] by (auto simp: u(2,3))
  have us: "sent ?u = sent (reg s)" by (simp add: unparked_def Let_def split: option.split)
  have snt: "sent e' = sent (reg s) @ map (\<lambda>w. (w, oc)) (px_waiters p)"
    using table_onlyD(8) [OF to] us by (simp add: assms(3) complete_unparked [OF ok assms(2)] Let_def split: option.split)
  have frame: "by_key e' = by_key ?u \<and> px e' = px ?u"
    using table_onlyD(1,2) [OF to] by (simp add: assms(3) complete_unparked [OF ok assms(2)] Let_def split: option.split)
  have stored: "stored outcome_len oc (reg s) =
      (case outcome_len oc of Some n \<Rightarrow> if n \<le> bytes then Some oc else None | None \<Rightarrow> None)"
    using exec_limits [OF assms(1)] by (simp add: stored_def split: option.split)
  have own: "slot_of e' k = (if is_retryable_preflight_outcome oc then None else Some (Completed (px_hash p) (stored outcome_len oc (reg s))))"
    if k: "px_key p = Some k"
  proof (cases "is_retryable_preflight_outcome oc")
    case True
    then have "e' = ?u\<lparr>sent := sent e'\<rparr>" using assms(3) k by (simp add: complete_unparked [OF ok assms(2)] Let_def)
    then have "slot_of e' k = slot_of ?u k" by (metis sent_ok(2))
    with True k show ?thesis by (simp add: u(5))
  next
    case False
    with c(3) [OF k] show ?thesis by (auto simp: slot_of_def)
  qed
  have other: "slot_of e' k = slot_of (reg s) k \<or>
      (\<exists>h b. slot_of (reg s) k = Some (Completed h b) \<and> slot_of e' k = Some (Completed h None))" if k: "px_key p \<noteq> Some k"
  proof -
    have eq: "slot_of ?u k = slot_of (reg s) k" using k by (simp add: u(5))
    have f: "fades (map_of (outcomes (reg s)) k) (map_of (outcomes e') k)" using c(2) k by blast
    show ?thesis
    proof (cases "map_of (outcomes (reg s)) k")
      case None
      then have "map_of (outcomes e') k = None" using fadesD(1) [OF f] by simp
      then have "slot_of e' k = slot_of ?u k" using None frame by (simp add: slot_of_def u(2) split: option.split)
      with eq show ?thesis by simp
    next
      case (Some r)
      with f show ?thesis by (auto simp: slot_of_def fades_def)
    qed
  qed
  from snt own other stored show ?thesis by simp
qed

theorem complete_refines_table_witness:
  "sent (reg completed_exec) = sent (reg running_exec) @ [(1, sample_outcome)] \<and>
   slot_of (reg completed_exec) (1, 2, [97]) = Some (Completed (Some [104]) (Some sample_outcome))"
proof -
  have "reg completed_exec = complete_exec (\<lambda>_. Some 3) 5 1 sample_outcome (reg running_exec)" by (simp add: completed_exec_def)
  from complete_refines_table [OF running_reachable running_parked(1) this, of "(1, 2, [97])"] sample_not_retryable
  show ?thesis by simp
qed

text \<open>
  Retry protection is bounded and never starves itself: in every reachable state the completed keys
  and the reserved slots together stay within the configured number of entries, the replay bodies within
  the byte budget, whose counter is their exact sum; \<open>run\<close> never meets its \<open>unwrap\<close>, and when a keyed
  execution completes its slot in the table is free.
\<close>

theorem idempotency_bounded:
  assumes "reaches (exec_step outcome_len) (exec_start keep entries bytes) s"
  shows "length (outcomes (reg s)) + retention_reservations (reg s) \<le> entries \<and>
    outcome_bytes (reg s) = sum_values serialized_len (outcomes (reg s)) \<and> outcome_bytes (reg s) \<le> bytes \<and>
    (map_of (px (reg s)) i = None \<longrightarrow> run_exec now i req (reg s) \<noteq> Panic) \<and>
    (map_of (px (reg s)) j = Some p \<longrightarrow> px_key p = Some k \<longrightarrow> map_of (outcomes (reg s)) k = None)"
proof -
  have ok: "exec_ok (reg s)" using exec_life.reaches_inv [OF assms exec_start_ok] by (simp add: exec_system_ok_def)
  then have "kept_ok (reg s)" "pend_ok (reg s)" by (simp_all add: exec_ok_def)
  moreover have "run_exec now i req (reg s) \<noteq> Panic" if "map_of (px (reg s)) i = None"
    using run_ok [OF ok that, of now req] by auto
  ultimately show ?thesis
    using exec_limits [OF assms] kept_okD(7,8) pend_okD(7) unparked_ok(6) [OF ok] by auto
qed

theorem idempotency_bounded_witness:
  "outcome_bytes (reg completed_exec) = 3 \<and> length (outcomes (reg completed_exec)) \<le> 4"
  using idempotency_bounded [OF completed_reachable] by (simp add: completed_kept sum_values_def)

end
