(* ===== verification/Elicitations.thy ===== *)
theory Elicitations
  imports UntrustedText RequestHistory AuditEntry
begin

text \<open>
  Upstream MCP elicitation, \<^verbatim>\<open>crates/aka-core/src/elicitations.rs\<close>: the single-use permits that bind a prompt
  to what the upstream wrote, the scan for credential-shaped fields, the form built from a JSON schema,
  and the registry of parked calls. As in the approvals, each definition is one critical section and what
  follows it; waiters are numbers, \<open>closed\<close> tells which receivers are gone, and the clocks, the minted
  UUID and token texts and the surface's answer are arguments.
\<close>

subsection \<open>Permits\<close>

definition PERMIT_TTL :: duration where
  "PERMIT_TTL = secs 300"

definition MAX_PERMITS :: nat where
  "MAX_PERMITS = 256"

record elicitation_permit =
  ep_client_id :: uuid
  ep_connection :: uuid
  ep_tool :: ustring
  ep_message :: ustring
  ep_schema :: json
  ep_expires_at :: instant

record authorized_elicitation =
  ae_tool :: ustring
  ae_message :: ustring
  ae_requested_schema :: json

type_synonym elicitation_permits = "(ustring, elicitation_permit) hashmap"

text \<open>\<open>min_by_key\<close> on the expiry: the first of the entries that expire first.\<close>

fun oldest_permit :: "elicitation_permits \<Rightarrow> (ustring \<times> instant) option" where
  "oldest_permit [] = None"
| "oldest_permit ((t, p) # ps) =
     (case oldest_permit ps of
        Some (t', x) \<Rightarrow> if x < ep_expires_at p then Some (t', x) else Some (t, ep_expires_at p)
      | None \<Rightarrow> Some (t, ep_expires_at p))"

definition issue_permit ::
    "instant \<Rightarrow> ustring \<Rightarrow> uuid \<Rightarrow> uuid \<Rightarrow> ustring \<Rightarrow> ustring \<Rightarrow> json \<Rightarrow> elicitation_permits \<Rightarrow> elicitation_permits" where
  "issue_permit now token client c tool message schema ps =
     (let ps = hm_retain (\<lambda>_ p. ep_expires_at p > now) ps;
          ps = (if length ps \<ge> MAX_PERMITS
                then (case oldest_permit ps of Some (t, _) \<Rightarrow> AList.delete t ps | None \<Rightarrow> ps) else ps) in
      AList.update token
        \<lparr>ep_client_id = client, ep_connection = c, ep_tool = tool, ep_message = message, ep_schema = schema,
         ep_expires_at = now + PERMIT_TTL\<rparr> ps)"

definition consume_permit ::
    "instant \<Rightarrow> ustring \<Rightarrow> uuid \<Rightarrow> uuid \<Rightarrow> elicitation_permits \<Rightarrow> authorized_elicitation option \<times> elicitation_permits" where
  "consume_permit now token client c ps =
     (case map_of ps token of
        None \<Rightarrow> (None, ps)
      | Some p \<Rightarrow>
          (if ep_expires_at p \<le> now \<or> ep_client_id p \<noteq> client \<or> ep_connection p \<noteq> c then None
           else Some \<lparr>ae_tool = ep_tool p, ae_message = ep_message p, ae_requested_schema = ep_schema p\<rparr>,
           AList.delete token ps))"

definition cancel_permit :: "ustring \<Rightarrow> uuid \<Rightarrow> uuid \<Rightarrow> elicitation_permits \<Rightarrow> bool \<times> elicitation_permits" where
  "cancel_permit token client c ps =
     (let hit = (case map_of ps token of None \<Rightarrow> False | Some p \<Rightarrow> ep_client_id p = client \<and> ep_connection p = c) in
      (hit, if hit then AList.delete token ps else ps))"

subsection \<open>Credential-shaped schemas\<close>

definition is_ascii_uppercase :: "uchar \<Rightarrow> bool" where
  "is_ascii_uppercase c \<longleftrightarrow> 65 \<le> c \<and> c \<le> 90"

definition is_ascii_lowercase :: "uchar \<Rightarrow> bool" where
  "is_ascii_lowercase c \<longleftrightarrow> 97 \<le> c \<and> c \<le> 122"

text \<open>The loop of \<open>names_a_secret\<close>: \<open>cur\<close> is the word being collected, \<open>prev\<close> the previous character.\<close>

fun split_words :: "ustring \<Rightarrow> uchar option \<Rightarrow> ustring \<Rightarrow> ustring list" where
  "split_words cur prev [] = (if cur = [] then [] else [cur])"
| "split_words cur prev (c # cs) =
     (if \<not> is_ascii_alphanumeric c then
        (if cur \<noteq> [] then cur # split_words [] None cs else split_words [] None cs)
      else
        let boundary = is_ascii_uppercase c \<and>
              (case prev of Some p \<Rightarrow> is_ascii_lowercase p \<or> is_ascii_digit p | None \<Rightarrow> False);
            low = to_ascii_lowercase [c] in
        if boundary \<and> cur \<noteq> [] then cur # split_words low (Some c) cs
        else split_words (cur @ low) (Some c) cs)"

definition SECRET_WORDS :: "ustring list" where
  "SECRET_WORDS = map ascii
     [''password'', ''passwd'', ''pwd'', ''passphrase'', ''secret'', ''credential'', ''credentials'', ''token'', ''apikey'',
      ''accesskey'', ''secretkey'', ''privatekey'', ''signingkey'', ''otp'', ''totp'', ''cvv'', ''cvc'', ''mnemonic'',
      ''seedphrase'']"

definition MEASUREMENTS :: "ustring list" where
  "MEASUREMENTS = map ascii
     [''count'', ''limit'', ''budget'', ''usage'', ''size'', ''length'', ''max'', ''min'', ''total'', ''window'', ''per'',
      ''cost'', ''price'']"

definition KEY_QUALIFIERS :: "ustring list" where
  "KEY_QUALIFIERS = map ascii
     [''api'', ''access'', ''private'', ''secret'', ''signing'', ''encryption'', ''session'', ''client'', ''ssh'', ''gpg'',
      ''pgp'', ''master'', ''auth'', ''license'']"

text \<open>The scan of the words, with the word before the rest at hand.\<close>

fun secret_words :: "ustring option \<Rightarrow> ustring list \<Rightarrow> bool" where
  "secret_words before [] = False"
| "secret_words before (w # ws) =
     ((if w = ascii ''token'' then \<not> (case ws of n # _ \<Rightarrow> n \<in> set MEASUREMENTS | [] \<Rightarrow> False)
       else if w = ascii ''key'' then (case before of Some q \<Rightarrow> q \<in> set KEY_QUALIFIERS | None \<Rightarrow> False)
       else w \<in> set SECRET_WORDS) \<or> secret_words (Some w) ws)"

definition names_a_secret :: "ustring \<Rightarrow> bool" where
  "names_a_secret text = secret_words None (split_words [] None text)"

definition masked_formats :: "ustring list" where
  "masked_formats = map ascii [''password'', ''secret'', ''token'', ''credential'', ''private-key'', ''privatekey'']"

definition schema_properties :: "json \<Rightarrow> (ustring \<times> json) list option" where
  "schema_properties schema = Option.bind (json_get schema (ascii ''properties'')) json_as_object"

definition get_str :: "json \<Rightarrow> string \<Rightarrow> ustring option" where
  "get_str j k = Option.bind (json_get j (ascii k)) json_as_str"

definition property_asks_secret :: "ustring \<Rightarrow> json \<Rightarrow> bool" where
  "property_asks_secret name spec \<longleftrightarrow>
     (case get_str spec ''format'' of Some f \<Rightarrow> to_ascii_lowercase f \<in> set masked_formats | None \<Rightarrow> False) \<or>
     Option.bind (json_get spec (ascii ''writeOnly'')) json_as_bool = Some True \<or>
     list_ex names_a_secret (name # List.map_filter (get_str spec) [''title'', ''description''])"

definition schema_requests_secret :: "json \<Rightarrow> bool" where
  "schema_requests_secret schema =
     (case schema_properties schema of
        None \<Rightarrow> False
      | Some props \<Rightarrow> list_ex (\<lambda>(name, spec). property_asks_secret name spec) props)"

subsection \<open>The form and its answers\<close>

definition ELICITATION_TEXT_CAP :: nat where
  "ELICITATION_TEXT_CAP = 2000"

definition FIELD_TEXT_CAP :: nat where
  "FIELD_TEXT_CAP = 200"

text \<open>\<open>json_text\<close> is \<open>Value::to_string\<close>.\<close>

definition field_of :: "(json \<Rightarrow> ustring) \<Rightarrow> ustring list \<Rightarrow> ustring \<Rightarrow> json \<Rightarrow> elicitation_field" where
  "field_of json_text required name spec =
     (let label = (case get_str spec ''title'' of Some t \<Rightarrow> if t \<noteq> [] then t else name | None \<Rightarrow> name);
          boolean = (get_str spec ''type'' = Some (ascii ''boolean''));
          choices = map_option
            (map (\<lambda>c. cap (case c of JString t \<Rightarrow> t | other \<Rightarrow> json_text other) FIELD_TEXT_CAP))
            (Option.bind (json_get spec (ascii ''enum'')) json_as_array);
          options = (case choices of Some (c # cs) \<Rightarrow> Some (c # cs) | _ \<Rightarrow> None) in
      \<lparr>ef_name = cap name FIELD_TEXT_CAP, ef_label = cap label FIELD_TEXT_CAP, ef_required = (name \<in> set required),
       ef_boolean = boolean, ef_options = options\<rparr>)"

definition fields_from_schema :: "(json \<Rightarrow> ustring) \<Rightarrow> json \<Rightarrow> elicitation_field list" where
  "fields_from_schema json_text schema =
     (case schema_properties schema of
        None \<Rightarrow> []
      | Some props \<Rightarrow>
          let required = (case Option.bind (json_get schema (ascii ''required'')) json_as_array of
                Some xs \<Rightarrow> List.map_filter json_as_str xs | None \<Rightarrow> []) in
          map (\<lambda>(name, spec). field_of json_text required name spec) props)"

definition coerce_content :: "elicitation_field list \<Rightarrow> (ustring \<times> ustring) list \<Rightarrow> (ustring \<times> json) list" where
  "coerce_content fs vs =
     map (\<lambda>(name, v). (name,
       if name \<in> set (map ef_name (filter ef_boolean fs)) then JBool (v = ascii ''true'') else JString v)) vs"

subsection \<open>The registry\<close>

definition ELICITATION_TIMEOUT :: duration where
  "ELICITATION_TIMEOUT = secs 300"

definition MAX_PENDING :: nat where
  "MAX_PENDING = 64"

record elicitation_request =
  er_connection :: connection
  er_agent :: ustring
  er_tool :: ustring
  correlation_token :: ustring
  er_message :: ustring
  requested_schema :: json

datatype elicit_action = Accept | Decline | Cancel

record elicitation_outcome =
  action :: elicit_action
  content :: "(ustring \<times> json) list option"

definition cancelled :: elicitation_outcome where
  "cancelled = \<lparr>action = Cancel, content = None\<rparr>"

record parked =
  pk_info :: pending_elicitation
  pk_token :: ustring
  pk_waiter :: nat
  pk_deadline :: instant

datatype elicitation_handling = FormTaken | FormUnavailable

datatype elicitation_event = ElicitationRequested pending_elicitation | ElicitationResolved uuid

record elicitations =
  el_timeout :: duration
  el_pending :: "(uuid, parked) hashmap"
  el_history :: history
  el_answers :: "(nat \<times> elicitation_outcome) list"
  el_events :: "elicitation_event list"
  el_audit :: "audit_entry list"

definition new_elicitations :: "duration \<Rightarrow> elicitations" where
  "new_elicitations t =
     \<lparr>el_timeout = t, el_pending = [], el_history = [], el_answers = [], el_events = [], el_audit = []\<rparr>"

definition el_resolve :: "datetime \<Rightarrow> uuid \<Rightarrow> elicitation_outcome \<Rightarrow> request_resolution \<Rightarrow> elicitations \<Rightarrow> elicitations" where
  "el_resolve wall i oc res e =
     (case map_of (el_pending e) i of
        None \<Rightarrow> e
      | Some p \<Rightarrow>
          e\<lparr>el_pending := AList.delete i (el_pending e), el_history := snd (resolve_at i res wall (el_history e)),
            el_answers := el_answers e @ [(pk_waiter p, oc)], el_events := el_events e @ [ElicitationResolved i]\<rparr>)"

definition el_retire :: "uuid \<times> bool \<Rightarrow> elicitations \<times> (uuid \<times> request_resolution) list \<Rightarrow> elicitations \<times> (uuid \<times> request_resolution) list" where
  "el_retire = (\<lambda>(i, timed_out) (e, ls).
     case map_of (el_pending e) i of
       None \<Rightarrow> (e, ls)
     | Some p \<Rightarrow>
         let e = e\<lparr>el_pending := AList.delete i (el_pending e)\<rparr>;
             e = (if timed_out then e\<lparr>el_answers := el_answers e @ [(pk_waiter p, cancelled)]\<rparr> else e) in
         (e, ls @ [(i, if timed_out then TimedOut else CallerDisconnected)]))"

definition el_sweep :: "(nat \<Rightarrow> bool) \<Rightarrow> instant \<Rightarrow> elicitations \<Rightarrow> elicitations \<times> (uuid \<times> request_resolution) list" where
  "el_sweep closed now e =
     fold el_retire
       (map (\<lambda>(i, p). (i, pk_deadline p \<le> now))
         (filter (\<lambda>(_, p). pk_deadline p \<le> now \<or> closed (pk_waiter p)) (el_pending e))) (e, [])"

definition el_announce :: "datetime \<Rightarrow> (uuid \<times> request_resolution) list \<Rightarrow> elicitations \<Rightarrow> elicitations" where
  "el_announce wall ls e =
     fold (\<lambda>(i, res) e. e\<lparr>el_history := snd (resolve_at i res wall (el_history e)),
       el_events := el_events e @ [ElicitationResolved i]\<rparr>) ls e"

text \<open>\<open>elicit\<close> up to its second lock: the warning's audit record, then the sweep.\<close>

definition credential_note :: "datetime \<Rightarrow> elicitation_request \<Rightarrow> audit_entry" where
  "credential_note wall r =
     with_field (ascii ''tool'') (JString (cap (er_tool r) FIELD_TEXT_CAP))
       (with_field (ascii ''reason'') (JString (ascii ''credential_shaped_field''))
         (with_outcome (ascii ''credential_shaped'')
           (AuditEntry.with_detail
             (ascii ''Shown as plain text with a warning. Multitool never prompts for a credential on a tool's behalf '' @
              [0x2014] @ ascii '' store it in the vault instead.'')
             (with_connection (conn_name (er_connection r)) (with_agent (er_agent r)
               (new_entry wall KRequested
                 (ascii ''Input request asked for something credential-shaped: '' @ conn_name (er_connection r))))))))"

definition elicit_start ::
    "(nat \<Rightarrow> bool) \<Rightarrow> instant \<Rightarrow> datetime \<Rightarrow> elicitation_request \<Rightarrow> elicitations \<Rightarrow> elicitations" where
  "elicit_start closed now wall r e =
     (let e = (if schema_requests_secret (requested_schema r)
               then e\<lparr>el_audit := el_audit e @ [credential_note wall r]\<rparr> else e) in
      case el_sweep closed now e of (e, ls) \<Rightarrow> el_announce wall ls e)"

definition el_info :: "(json \<Rightarrow> ustring) \<Rightarrow> datetime \<Rightarrow> uuid \<Rightarrow> elicitation_request \<Rightarrow> duration \<Rightarrow> pending_elicitation" where
  "el_info json_text wall i r t =
     \<lparr>pe_id = i, pe_connection_id = conn_id (er_connection r), pe_connection = cap (conn_name (er_connection r)) FIELD_TEXT_CAP,
      pe_agent = cap (er_agent r) FIELD_TEXT_CAP, pe_tool = cap (er_tool r) FIELD_TEXT_CAP,
      pe_message = cap (er_message r) ELICITATION_TEXT_CAP, pe_fields = fields_from_schema json_text (requested_schema r),
      pe_credential_warning = schema_requests_secret (requested_schema r), pe_requested_at = wall,
      pe_expires_at = add_std wall t 300\<rparr>"

text \<open>The second lock and what follows it up to the surface's hook; \<open>None\<close> when the queue is full.\<close>

definition elicit_park ::
    "(json \<Rightarrow> ustring) \<Rightarrow> (uuid \<Rightarrow> ustring) \<Rightarrow> instant \<Rightarrow> datetime \<Rightarrow> uuid \<Rightarrow> nat \<Rightarrow> elicitation_request \<Rightarrow> elicitations \<Rightarrow>
     (pending_elicitation \<times> instant) option \<times> elicitations" where
  "elicit_park json_text show_uuid now wall i w r e =
     (if length (el_pending e) \<ge> MAX_PENDING then (None, e)
      else
        let info = el_info json_text wall i r (el_timeout e);
            dl = now + el_timeout e;
            e = e\<lparr>el_pending := AList.update i
                  \<lparr>pk_info = info, pk_token = correlation_token r, pk_waiter = w, pk_deadline = dl\<rparr> (el_pending e)\<rparr>;
            e = e\<lparr>el_history := record_elicitation wall info (el_history e)\<rparr>;
            e = e\<lparr>el_audit := el_audit e @
                  [with_field (ascii ''elicitation_id'') (JString (show_uuid i))
                    (with_field (ascii ''kind'') (JString (ascii ''elicitation''))
                      (AuditEntry.with_detail (pe_message info)
                        (with_connection (conn_name (er_connection r)) (with_agent (er_agent r)
                          (new_entry wall KRequested
                            (ascii ''Input requested: '' @ er_agent r @ [32, 0x2192, 32] @ conn_name (er_connection r) @
                             [32, 0xB7, 32] @ pe_tool info))))))]\<rparr> in
        (Some (info, dl), e\<lparr>el_events := el_events e @ [ElicitationRequested info]\<rparr>))"

definition elicit_handled :: "datetime \<Rightarrow> elicitation_handling \<Rightarrow> uuid \<Rightarrow> elicitations \<Rightarrow> elicitation_outcome option \<times> elicitations" where
  "elicit_handled wall h i e =
     (case h of
        FormTaken \<Rightarrow> (None, e)
      | FormUnavailable \<Rightarrow> (Some cancelled, el_resolve wall i cancelled NoSurface e))"

text \<open>The end of the call: an outcome on the channel, a dropped channel, or its own deadline.\<close>

datatype el_await = GotOutcome elicitation_outcome | SenderDropped | TimedOutWaiting

definition elicit_finish :: "datetime \<Rightarrow> uuid \<Rightarrow> el_await \<Rightarrow> elicitations \<Rightarrow> elicitation_outcome \<times> elicitations" where
  "elicit_finish wall i a e =
     (case a of
        GotOutcome oc \<Rightarrow> (oc, e)
      | SenderDropped \<Rightarrow> (cancelled, e)
      | TimedOutWaiting \<Rightarrow> (cancelled, el_resolve wall i cancelled TimedOut e))"

definition el_respond ::
    "(uuid \<Rightarrow> ustring) \<Rightarrow> datetime \<Rightarrow> uuid \<Rightarrow> bool \<Rightarrow> (ustring \<times> ustring) list \<Rightarrow> elicitations \<Rightarrow> bool \<times> elicitations" where
  "el_respond show_uuid wall i ok vs e =
     (case map_of (el_pending e) i of
        None \<Rightarrow> (False, e)
      | Some p \<Rightarrow>
          let info = pk_info p;
              oc = (if ok then \<lparr>action = Accept, content = Some (coerce_content (pe_fields info) vs)\<rparr>
                    else \<lparr>action = Decline, content = None\<rparr>);
              res = (if ok then InputProvided else InputRefused);
              word = (if ok then ascii ''provided'' else ascii ''refused'') in
          (True, e\<lparr>el_pending := AList.delete i (el_pending e),
             el_history := snd (resolve_at i res wall (el_history e)),
             el_audit := el_audit e @
               [with_field (ascii ''elicitation_id'') (JString (show_uuid i))
                 (with_field (ascii ''kind'') (JString (ascii ''elicitation''))
                   (with_connection (pe_connection info) (with_agent (pe_agent info)
                     (new_entry wall (if ok then KAllowedOnce else KDenied)
                       (ascii ''Input '' @ word @ ascii '': '' @ pe_agent info @ [32, 0x2192, 32] @ pe_connection info @
                        [32, 0xB7, 32] @ pe_tool info)))))],
             el_answers := el_answers e @ [(pk_waiter p, oc)], el_events := el_events e @ [ElicitationResolved i]\<rparr>))"

definition el_pending_list :: "(nat \<Rightarrow> bool) \<Rightarrow> instant \<Rightarrow> datetime \<Rightarrow> elicitations \<Rightarrow> pending_elicitation list \<times> elicitations" where
  "el_pending_list closed now wall e =
     (case el_sweep closed now e of
        (e, ls) \<Rightarrow> (sort_key pe_requested_at (map (\<lambda>(_, p). pk_info p) (el_pending e)), el_announce wall ls e))"

definition el_targets :: "uuid \<Rightarrow> elicitations \<Rightarrow> uuid list" where
  "el_targets c e = map fst (filter (\<lambda>(_, p). pe_connection_id (pk_info p) = c) (el_pending e))"

definition el_revoke :: "datetime \<Rightarrow> uuid \<Rightarrow> elicitations \<Rightarrow> elicitations" where
  "el_revoke wall c e = fold (\<lambda>i. el_resolve wall i cancelled PolicyChanged) (el_targets c e) e"

definition el_cancel :: "datetime \<Rightarrow> ustring \<Rightarrow> uuid \<Rightarrow> elicitations \<Rightarrow> bool \<times> elicitations" where
  "el_cancel wall token c e =
     (case List.find (\<lambda>(_, p). pe_connection_id (pk_info p) = c \<and> pk_token p = token) (el_pending e) of
        None \<Rightarrow> (False, e)
      | Some (i, _) \<Rightarrow> (True, el_resolve wall i cancelled CallerDisconnected e))"

definition el_revoke_all :: "datetime \<Rightarrow> elicitations \<Rightarrow> elicitations" where
  "el_revoke_all wall e = fold (\<lambda>i. el_resolve wall i cancelled PolicyChanged) (map fst (el_pending e)) e"

subsection \<open>Words\<close>

definition lower_word :: "ustring \<Rightarrow> bool" where
  "lower_word w \<longleftrightarrow> w \<noteq> [] \<and> list_all is_ascii_lowercase w"

fun join_words :: "uchar \<Rightarrow> ustring list \<Rightarrow> ustring" where
  "join_words sep [] = []"
| "join_words sep [w] = w"
| "join_words sep (w # ws) = w @ sep # join_words sep ws"

definition capitalize :: "ustring \<Rightarrow> ustring" where
  "capitalize w = (case w of [] \<Rightarrow> [] | c # cs \<Rightarrow> to_ascii_uppercase [c] @ cs)"

definition camel_case :: "ustring list \<Rightarrow> ustring" where
  "camel_case ws = (case ws of [] \<Rightarrow> [] | w # ws \<Rightarrow> w @ concat (map capitalize ws))"

lemma lower_char:
  assumes "is_ascii_lowercase c"
  shows "is_ascii_alphanumeric c" "\<not> is_ascii_uppercase c" "to_ascii_lowercase [c] = [c]"
  using assms
  by (auto simp: is_ascii_lowercase_def is_ascii_uppercase_def is_ascii_alphanumeric_def is_ascii_alphabetic_def to_ascii_lowercase_def)

lemma upper_char:
  assumes "is_ascii_lowercase c"
  obtains u where "to_ascii_uppercase [c] = [u]" "is_ascii_alphanumeric u" "is_ascii_uppercase u" "to_ascii_lowercase [u] = [c]"
    "\<not> is_ascii_lowercase u" "\<not> is_ascii_digit u"
  using assms
  by (intro that [of "c - 32"])
    (auto simp: is_ascii_lowercase_def is_ascii_uppercase_def is_ascii_alphanumeric_def is_ascii_alphabetic_def
      to_ascii_lowercase_def to_ascii_uppercase_def is_ascii_digit_def)

lemma split_lower_run:
  "list_all is_ascii_lowercase w \<Longrightarrow>
   split_words cur prev (w @ rest) = split_words (cur @ w) (if w = [] then prev else Some (last w)) rest"
proof (induction w arbitrary: cur prev)
  case (Cons c w)
  then have "is_ascii_lowercase c" "list_all is_ascii_lowercase w" by simp_all
  with Cons.IH [of "cur @ [c]" "Some c"] show ?case by (simp add: lower_char)
qed simp

lemma split_upper_run:
  assumes "list_all is_ascii_lowercase w" and "case prev of Some p \<Rightarrow> \<not> is_ascii_lowercase p \<and> \<not> is_ascii_digit p | None \<Rightarrow> True"
  shows "\<exists>prev'. split_words cur prev (to_ascii_uppercase w @ rest) = split_words (cur @ w) prev' rest"
  using assms
proof (induction w arbitrary: cur prev)
  case Nil
  then show ?case by (auto simp: to_ascii_uppercase_def)
next
  case (Cons c w)
  then have "is_ascii_lowercase c" by simp
  then obtain u where u: "to_ascii_uppercase [c] = [u]" "is_ascii_alphanumeric u" "to_ascii_lowercase [u] = [c]"
    "\<not> is_ascii_lowercase u" "\<not> is_ascii_digit u" by (rule upper_char)
  have "to_ascii_uppercase (c # w) = u # to_ascii_uppercase w" using u(1) by (simp add: to_ascii_uppercase_def)
  moreover obtain prev' where "split_words (cur @ [c]) (Some u) (to_ascii_uppercase w @ rest) = split_words ((cur @ [c]) @ w) prev' rest"
    using Cons.IH [of "Some u" "cur @ [c]"] Cons.prems(1) u(4,5) by auto
  ultimately show ?case using u(2,3) Cons.prems(2) by (auto simp: Let_def split: option.splits)
qed

lemma split_join:
  "list_all lower_word ws \<Longrightarrow> \<not> is_ascii_alphanumeric sep \<Longrightarrow> split_words [] None (join_words sep ws) = ws"
proof (induction sep ws rule: join_words.induct)
  case (2 sep w)
  then show ?case using split_lower_run [of w "[]" None "[]"] by (simp add: lower_word_def)
next
  case (3 sep w v vs)
  then have "split_words [] None (w @ sep # join_words sep (v # vs)) = w # split_words [] None (join_words sep (v # vs))"
    using split_lower_run [of w "[]" None "sep # join_words sep (v # vs)"] by (simp add: lower_word_def)
  with 3 show ?case by simp
qed simp

lemma split_shout:
  "list_all lower_word ws \<Longrightarrow> \<not> is_ascii_alphanumeric sep \<Longrightarrow>
   split_words [] None (join_words sep (map to_ascii_uppercase ws)) = ws"
proof (induction sep ws rule: join_words.induct)
  case (2 sep w)
  then show ?case using split_upper_run [of w None "[]" "[]"] by (auto simp: lower_word_def)
next
  case (3 sep w v vs)
  obtain prev' where "split_words [] None (to_ascii_uppercase w @ sep # join_words sep (map to_ascii_uppercase (v # vs))) =
      split_words w prev' (sep # join_words sep (map to_ascii_uppercase (v # vs)))"
    using split_upper_run [of w None "[]" "sep # join_words sep (map to_ascii_uppercase (v # vs))"] 3(2)
    by (auto simp: lower_word_def simp del: split_words.simps join_words.simps)
  with 3 show ?case by (auto simp: lower_word_def)
qed simp

lemma split_camel_rest:
  assumes "list_all (\<lambda>w. lower_word w \<and> 2 \<le> length w) ws" and "cur \<noteq> []" and "is_ascii_lowercase p"
  shows "split_words cur (Some p) (concat (map capitalize ws)) = cur # ws"
  using assms
proof (induction ws arbitrary: cur p)
  case (Cons w ws)
  from Cons.prems(1) obtain c d cs where w: "w = c # d # cs"
    by (cases w rule: remdups_adj.cases) (auto simp: lower_word_def)
  with Cons.prems(1) have l: "is_ascii_lowercase c" "list_all is_ascii_lowercase (d # cs)" by (auto simp: lower_word_def)
  obtain u where u: "to_ascii_uppercase [c] = [u]" "is_ascii_alphanumeric u" "is_ascii_uppercase u" "to_ascii_lowercase [u] = [c]"
    using upper_char [OF l(1)] by metis
  have "split_words cur (Some p) (concat (map capitalize (w # ws))) =
      cur # split_words [c] (Some u) ((d # cs) @ concat (map capitalize ws))"
    using u Cons.prems(2,3) by (simp add: w capitalize_def Let_def)
  also have "\<dots> = cur # split_words w (Some (last (d # cs))) (concat (map capitalize ws))"
    using split_lower_run [OF l(2), of "[c]" "Some u"] w by simp
  also have "\<dots> = cur # w # ws"
    using Cons.IH [of w "last (d # cs)"] Cons.prems(1) l(2) w by (auto simp: list_all_iff)
  finally show ?case .
qed simp

lemma split_camel:
  assumes "list_all (\<lambda>w. lower_word w \<and> 2 \<le> length w) ws"
  shows "split_words [] None (camel_case ws) = ws"
proof (cases ws)
  case Nil
  then show ?thesis by (simp add: camel_case_def)
next
  case (Cons w vs)
  then have l: "list_all is_ascii_lowercase w" "w \<noteq> []" using assms by (auto simp: lower_word_def)
  have "split_words [] None (camel_case ws) = split_words w (Some (last w)) (concat (map capitalize vs))"
    using split_lower_run [OF l(1), of "[]" None] l(2) by (simp add: Cons camel_case_def)
  also have "\<dots> = w # vs" using split_camel_rest [of vs w "last w"] assms l Cons by (auto simp: list_all_iff)
  finally show ?thesis by (simp add: Cons)
qed

text \<open>
  The credential scan does not depend on how an identifier is spelled: for words of lower-case
  letters, joining them by any separator, writing them in capitals with a separator, and (for words of
  two letters or more) camel case all give the same words back, hence the same verdict, which is the
  verdict on the words themselves.
\<close>

theorem secret_scan_style_independent:
  assumes "list_all (\<lambda>w. lower_word w \<and> 2 \<le> length w) ws" and "\<not> is_ascii_alphanumeric sep"
  shows "names_a_secret (join_words sep ws) = secret_words None ws \<and>
    names_a_secret (join_words sep (map to_ascii_uppercase ws)) = secret_words None ws \<and>
    names_a_secret (camel_case ws) = secret_words None ws"
proof -
  have "list_all lower_word ws" using assms(1) by (simp add: list_all_iff)
  with split_join split_shout split_camel assms show ?thesis by (simp add: names_a_secret_def)
qed

theorem secret_scan_style_independent_witness:
  "names_a_secret (ascii ''apiKey'') \<and> names_a_secret (ascii ''api_key'') \<and> names_a_secret (ascii ''API_KEY'') \<and>
   \<not> names_a_secret (ascii ''sort_key'')"
proof -
  have "list_all (\<lambda>w. lower_word w \<and> 2 \<le> length w) [ascii ''api'', ascii ''key'']"
      "list_all (\<lambda>w. lower_word w \<and> 2 \<le> length w) [ascii ''sort'', ascii ''key'']" "\<not> is_ascii_alphanumeric 95"
    by (simp_all add: lower_word_def is_ascii_lowercase_def is_ascii_alphanumeric_def is_ascii_alphabetic_def is_ascii_digit_def)
  note secret_scan_style_independent [OF this(1,3)] secret_scan_style_independent [OF this(2,3)]
  moreover have "camel_case [ascii ''api'', ascii ''key''] = ascii ''apiKey''"
      "join_words 95 [ascii ''api'', ascii ''key''] = ascii ''api_key''"
      "join_words 95 (map to_ascii_uppercase [ascii ''api'', ascii ''key'']) = ascii ''API_KEY''"
      "join_words 95 [ascii ''sort'', ascii ''key''] = ascii ''sort_key''"
    by (simp_all add: camel_case_def capitalize_def to_ascii_uppercase_def)
  moreover have "secret_words None [ascii ''api'', ascii ''key'']" "\<not> secret_words None [ascii ''sort'', ascii ''key'']"
    by (simp_all add: KEY_QUALIFIERS_def SECRET_WORDS_def)
  ultimately show ?thesis by (simp del: ascii_simps)
qed

subsection \<open>Permits over time\<close>

text \<open>
  The permits with what was minted and what was redeemed. Token texts are 122 random bits, so a minted
  token is new.
\<close>

record permit_system =
  permits :: elicitation_permits
  minted :: "(ustring \<times> elicitation_permit) list"
  redeemed :: "(ustring \<times> uuid \<times> uuid \<times> authorized_elicitation \<times> instant) list"

inductive permit_step :: "permit_system \<Rightarrow> permit_system \<Rightarrow> bool" where
  pm_issue: "token \<notin> fst ` set (minted s) \<Longrightarrow>
    permit_step s (s\<lparr>permits := issue_permit now token client c tool message schema (permits s),
      minted := (token, \<lparr>ep_client_id = client, ep_connection = c, ep_tool = tool, ep_message = message, ep_schema = schema,
        ep_expires_at = now + PERMIT_TTL\<rparr>) # minted s\<rparr>)"
| pm_consume: "consume_permit now token client c (permits s) = (res, ps) \<Longrightarrow>
    permit_step s (s\<lparr>permits := ps,
      redeemed := (case res of Some a \<Rightarrow> (token, client, c, a, now) # redeemed s | None \<Rightarrow> redeemed s)\<rparr>)"
| pm_cancel: "permit_step s (s\<lparr>permits := snd (cancel_permit token client c (permits s))\<rparr>)"

definition permit_start :: permit_system where
  "permit_start = \<lparr>permits = [], minted = [], redeemed = []\<rparr>"

definition permits_ok :: "permit_system \<Rightarrow> bool" where
  "permits_ok s \<longleftrightarrow> hm_wf (permits s) \<and> length (permits s) \<le> MAX_PERMITS \<and>
     (\<forall>t p. map_of (permits s) t = Some p \<longrightarrow> (t, p) \<in> set (minted s) \<and> t \<notin> fst ` set (redeemed s)) \<and>
     fst ` set (redeemed s) \<subseteq> fst ` set (minted s) \<and> distinct (map fst (redeemed s)) \<and> distinct (map fst (minted s)) \<and>
     (\<forall>t client c a now. (t, client, c, a, now) \<in> set (redeemed s) \<longrightarrow>
       (\<exists>p. (t, p) \<in> set (minted s) \<and> ep_client_id p = client \<and> ep_connection p = c \<and> now < ep_expires_at p \<and>
         a = \<lparr>ae_tool = ep_tool p, ae_message = ep_message p, ae_requested_schema = ep_schema p\<rparr>))"

lemma permits_okD:
  assumes "permits_ok s"
  shows "hm_wf (permits s)" "length (permits s) \<le> MAX_PERMITS"
    "map_of (permits s) t = Some p \<Longrightarrow> (t, p) \<in> set (minted s) \<and> t \<notin> fst ` set (redeemed s)"
    "fst ` set (redeemed s) \<subseteq> fst ` set (minted s)" "distinct (map fst (redeemed s))" "distinct (map fst (minted s))"
    "(t, client, c, a, now) \<in> set (redeemed s) \<Longrightarrow>
       \<exists>p. (t, p) \<in> set (minted s) \<and> ep_client_id p = client \<and> ep_connection p = c \<and> now < ep_expires_at p \<and>
         a = \<lparr>ae_tool = ep_tool p, ae_message = ep_message p, ae_requested_schema = ep_schema p\<rparr>"
  using assms unfolding permits_ok_def by blast+

lemma permits_okI:
  assumes "hm_wf (permits s)" "length (permits s) \<le> MAX_PERMITS"
    "\<And>t p. map_of (permits s) t = Some p \<Longrightarrow> (t, p) \<in> set (minted s) \<and> t \<notin> fst ` set (redeemed s)"
    "fst ` set (redeemed s) \<subseteq> fst ` set (minted s)" "distinct (map fst (redeemed s))" "distinct (map fst (minted s))"
    "\<And>t client c a now. (t, client, c, a, now) \<in> set (redeemed s) \<Longrightarrow>
       \<exists>p. (t, p) \<in> set (minted s) \<and> ep_client_id p = client \<and> ep_connection p = c \<and> now < ep_expires_at p \<and>
         a = \<lparr>ae_tool = ep_tool p, ae_message = ep_message p, ae_requested_schema = ep_schema p\<rparr>"
  shows "permits_ok s"
  unfolding permits_ok_def using assms by blast

lemma oldest_permit_mem: "ps \<noteq> [] \<Longrightarrow> \<exists>t x. oldest_permit ps = Some (t, x) \<and> t \<in> fst ` set ps"
proof (induction ps)
  case (Cons kp ps)
  obtain t p where kp: "kp = (t, p)" by (cases kp)
  show ?case
  proof (cases "ps = []")
    case False
    from Cons.IH [OF this] obtain t' x where "oldest_permit ps = Some (t', x)" "t' \<in> fst ` set ps" by blast
    with kp show ?thesis by simp
  qed (simp add: kp)
qed simp

lemma issue_permit_lookup:
  assumes "hm_wf ps"
  shows "map_of (issue_permit now token client c tool message schema ps) t = Some p \<Longrightarrow>
      t = token \<and> p = \<lparr>ep_client_id = client, ep_connection = c, ep_tool = tool, ep_message = message, ep_schema = schema,
        ep_expires_at = now + PERMIT_TTL\<rparr> \<or> t \<noteq> token \<and> map_of ps t = Some p"
    and "hm_wf (issue_permit now token client c tool message schema ps)"
  using assms
  by (auto simp: issue_permit_def Let_def map_of_update_eq map_of_delete_eq map_of_hm_retain
      split: option.splits if_splits prod.splits)

lemma issue_permit_bounded:
  assumes "hm_wf ps" and "length ps \<le> MAX_PERMITS"
  shows "length (issue_permit now token client c tool message schema ps) \<le> MAX_PERMITS"
proof -
  let ?r = "hm_retain (\<lambda>_ p. ep_expires_at p > now) ps"
  have r: "hm_wf ?r" "length ?r \<le> MAX_PERMITS" using assms length_hm_retain [of _ ps] by (auto intro: le_trans)
  show ?thesis
  proof (cases "length ?r \<ge> MAX_PERMITS")
    case True
    then have "?r \<noteq> []" by (auto simp: MAX_PERMITS_def)
    then obtain t x where t: "oldest_permit ?r = Some (t, x)" "t \<in> fst ` set ?r" using oldest_permit_mem by blast
    then obtain v where "map_of ?r t = Some v" by (metis map_of_eq_None_iff not_None_eq)
    then have "Suc (length (AList.delete t ?r)) = length ?r" by (rule length_delete_mem [OF r(1)])
    with r(2) True t(1) show ?thesis by (simp add: issue_permit_def Let_def length_AList_update)
  next
    case False
    then show ?thesis by (simp add: issue_permit_def Let_def length_AList_update)
  qed
qed

lemma permit_step_ok: "permits_ok s \<Longrightarrow> permit_step s s' \<Longrightarrow> permits_ok s'"
proof -
  assume ok: "permits_ok s"
  note d = permits_okD [OF ok]
  assume "permit_step s s'"
  then show ?thesis
  proof cases
    case (pm_issue token client c tool message schema now)
    let ?p = "\<lparr>ep_client_id = client, ep_connection = c, ep_tool = tool, ep_message = message, ep_schema = schema,
        ep_expires_at = now + PERMIT_TTL\<rparr>"
    have f: "permits s' = issue_permit now token client c tool message schema (permits s)" "minted s' = (token, ?p) # minted s"
        "redeemed s' = redeemed s" using pm_issue(1) by simp_all
    show ?thesis
    proof (rule permits_okI)
      fix t p assume "map_of (permits s') t = Some p"
      from this [unfolded f] have "t = token \<and> p = ?p \<or> t \<noteq> token \<and> map_of (permits s) t = Some p"
        by (rule issue_permit_lookup(1) [OF d(1)])
      with d(3) [of t p] d(4) pm_issue(2) show "(t, p) \<in> set (minted s') \<and> t \<notin> fst ` set (redeemed s')" by (auto simp: f)
    next
      fix t client' c' a now' assume "(t, client', c', a, now') \<in> set (redeemed s')"
      with d(7) [of t client' c' a now'] show "\<exists>p. (t, p) \<in> set (minted s') \<and> ep_client_id p = client' \<and> ep_connection p = c' \<and>
          now' < ep_expires_at p \<and> a = \<lparr>ae_tool = ep_tool p, ae_message = ep_message p, ae_requested_schema = ep_schema p\<rparr>"
        by (auto simp: f)
    qed (use pm_issue(2) d(4-6) issue_permit_lookup(2) [OF d(1)] issue_permit_bounded [OF d(1,2)] in \<open>auto simp: f\<close>)
  next
    case (pm_consume now token client c res ps)
    show ?thesis
    proof (cases "map_of (permits s) token")
      case None
      with pm_consume have "s' = s" by (simp add: consume_permit_def)
      with ok show ?thesis by simp
    next
      case (Some p)
      then have ps: "ps = AList.delete token (permits s)"
        and res: "res = (if ep_expires_at p \<le> now \<or> ep_client_id p \<noteq> client \<or> ep_connection p \<noteq> c then None
          else Some \<lparr>ae_tool = ep_tool p, ae_message = ep_message p, ae_requested_schema = ep_schema p\<rparr>)"
        using pm_consume(2) by (auto simp: consume_permit_def)
      have m: "(token, p) \<in> set (minted s)" "token \<notin> fst ` set (redeemed s)" using d(3) [OF Some] by auto
      have f: "permits s' = AList.delete token (permits s)" "minted s' = minted s"
          "redeemed s' = (case res of Some a \<Rightarrow> (token, client, c, a, now) # redeemed s | None \<Rightarrow> redeemed s)"
        using pm_consume(1) ps by simp_all
      show ?thesis
      proof (rule permits_okI)
        show "(t, q) \<in> set (minted s') \<and> t \<notin> fst ` set (redeemed s')" if "map_of (permits s') t = Some q" for t q
          using that d(3) [of t q] by (auto simp: f map_of_delete_eq split: if_splits option.split)
        show "length (permits s') \<le> MAX_PERMITS" using d(2) length_AList_delete_le [of token "permits s"] by (simp add: f)
        show "\<exists>p. (t, p) \<in> set (minted s') \<and> ep_client_id p = client' \<and> ep_connection p = c' \<and> now' < ep_expires_at p \<and>
            a = \<lparr>ae_tool = ep_tool p, ae_message = ep_message p, ae_requested_schema = ep_schema p\<rparr>"
          if "(t, client', c', a, now') \<in> set (redeemed s')" for t client' c' a now'
          using that d(7) [of t client' c' a now'] m res by (auto simp: f split: option.splits if_splits)
        have "token \<in> fst ` set (minted s)" using m(1) by force
        then show "fst ` set (redeemed s') \<subseteq> fst ` set (minted s')" using d(4) by (simp add: f split: option.split)
        show "distinct (map fst (redeemed s'))" using d(5) m(2) by (simp add: f split: option.split)
        show "distinct (map fst (minted s'))" using d(6) by (simp add: f)
      qed (use d(1) in \<open>simp add: f\<close>)
    qed
  next
    case (pm_cancel token client c)
    have sub: "map_of (permits s') t = Some p \<Longrightarrow> map_of (permits s) t = Some p" for t p
      using pm_cancel by (auto simp: cancel_permit_def Let_def map_of_delete_eq split: if_splits)
    show ?thesis
    proof (rule permits_okI)
      show "hm_wf (permits s')" "length (permits s') \<le> MAX_PERMITS"
        using pm_cancel d(1,2) length_AList_delete_le [of token "permits s"] by (auto simp: cancel_permit_def Let_def)
    qed (use pm_cancel sub d(3-7) in \<open>auto\<close>)
  qed
qed

interpretation permit_life: invariant_system permit_step permits_ok
  by unfold_locales (rule permit_step_ok)

text \<open>
  A prompt is the upstream's own and is asked once: in every interleaving, a token is redeemed at most
  once, by the client and connection it was minted for, within five minutes, and what it authorizes is
  exactly the tool, text and schema recorded when it was minted; at most 256 permits are held.
\<close>

theorem permit_single_use:
  assumes "reaches permit_step permit_start s"
  shows "distinct (map fst (redeemed s)) \<and> length (permits s) \<le> 256 \<and>
    ((t, client, c, a, now) \<in> set (redeemed s) \<longrightarrow>
      (\<exists>p. {q. (t, q) \<in> set (minted s)} = {p} \<and> ep_client_id p = client \<and> ep_connection p = c \<and> now < ep_expires_at p \<and>
        a = \<lparr>ae_tool = ep_tool p, ae_message = ep_message p, ae_requested_schema = ep_schema p\<rparr>))"
proof -
  have "permits_ok permit_start" by (simp add: permits_ok_def permit_start_def)
  note d = permits_okD [OF permit_life.reaches_inv [OF assms this]]
  have "{q. (t, q) \<in> set (minted s)} = {p}" if "(t, p) \<in> set (minted s)" for p
    using that d(6) by (auto dest: eq_key_imp_eq_value)
  with d(2,5) d(7) [of t client c a now] show ?thesis by (fastforce simp: MAX_PERMITS_def)
qed

definition sample_permit :: elicitation_permit where
  "sample_permit = \<lparr>ep_client_id = 1, ep_connection = 2, ep_tool = [3], ep_message = [4], ep_schema = JNull,
     ep_expires_at = 0 + PERMIT_TTL\<rparr>"

theorem permit_single_use_witness:
  "\<exists>s. reaches permit_step permit_start s \<and> map fst (redeemed s) = [[9]] \<and> {q. ([9], q) \<in> set (minted s)} = {sample_permit}"
proof -
  let ?s1 = "\<lparr>permits = [([9], sample_permit)], minted = [([9], sample_permit)], redeemed = []\<rparr>"
  let ?a = "\<lparr>ae_tool = [3], ae_message = [4], ae_requested_schema = JNull\<rparr>"
  let ?s2 = "\<lparr>permits = [], minted = [([9], sample_permit)], redeemed = [([9], 1, 2, ?a, 5)]\<rparr>"
  have "permit_step permit_start ?s1"
    using pm_issue [where token = "[9]" and s = permit_start and now = 0 and client = 1 and c = 2 and tool = "[3]" and
        message = "[4]" and schema = JNull]
    by (simp add: permit_start_def issue_permit_def sample_permit_def hm_retain_def MAX_PERMITS_def)
  moreover have "consume_permit 5 [9] 1 2 [([9], sample_permit)] = (Some ?a, [])"
    by (simp add: consume_permit_def sample_permit_def PERMIT_TTL_def secs_def)
  from pm_consume [of 5 "[9]" 1 2 ?s1, simplified, OF this] have "permit_step ?s1 ?s2" by simp
  ultimately have r: "reaches permit_step permit_start ?s2" by (meson reaches_refl reaches_step)
  from permit_single_use [OF r, of "[9]" 1 2 ?a 5] have "{q. ([9], q) \<in> set (minted ?s2)} = {sample_permit}" by auto
  with r show ?thesis by fastforce
qed

subsection \<open>The registry over time\<close>

text \<open>The registry with the receivers handed out; a new call's receiver is new.\<close>

inductive el_step :: "elicitations \<times> nat list \<Rightarrow> elicitations \<times> nat list \<Rightarrow> bool" where
  el_start: "el_step (e, u) (elicit_start closed now wall r e, u)"
| el_park: "map_of (el_pending e) i = None \<Longrightarrow> w \<notin> set u \<Longrightarrow>
    el_step (e, u) (snd (elicit_park json_text sh now wall i w r e), w # u)"
| el_settle: "el_step (e, u) (el_resolve wall i cancelled res e, u)"
| el_reply: "el_step (e, u) (snd (el_respond sh wall i ok vs e), u)"
| el_list: "el_step (e, u) (snd (el_pending_list closed now wall e), u)"

definition el_ok :: "elicitations \<times> nat list \<Rightarrow> bool" where
  "el_ok s \<longleftrightarrow> (case s of (e, u) \<Rightarrow>
     hm_wf (el_pending e) \<and> length (el_pending e) \<le> MAX_PENDING \<and> distinct (map fst (el_answers e)) \<and>
     fst ` set (el_answers e) \<subseteq> set u \<and>
     (\<forall>i p. map_of (el_pending e) i = Some p \<longrightarrow> pk_waiter p \<in> set u \<and> pk_waiter p \<notin> fst ` set (el_answers e)) \<and>
     (\<forall>i j p q. map_of (el_pending e) i = Some p \<and> map_of (el_pending e) j = Some q \<and> pk_waiter p = pk_waiter q \<longrightarrow> i = j))"

lemma el_okD:
  assumes "el_ok (e, u)"
  shows "hm_wf (el_pending e)" "length (el_pending e) \<le> MAX_PENDING" "distinct (map fst (el_answers e))"
    "fst ` set (el_answers e) \<subseteq> set u"
    "map_of (el_pending e) i = Some p \<Longrightarrow> pk_waiter p \<in> set u \<and> pk_waiter p \<notin> fst ` set (el_answers e)"
    "map_of (el_pending e) i = Some p \<Longrightarrow> map_of (el_pending e) j = Some q \<Longrightarrow> pk_waiter p = pk_waiter q \<Longrightarrow> i = j"
  using assms unfolding el_ok_def by blast+

lemma el_okI:
  assumes "hm_wf (el_pending e)" "length (el_pending e) \<le> MAX_PENDING" "distinct (map fst (el_answers e))"
    "fst ` set (el_answers e) \<subseteq> set u"
    "\<And>i p. map_of (el_pending e) i = Some p \<Longrightarrow> pk_waiter p \<in> set u \<and> pk_waiter p \<notin> fst ` set (el_answers e)"
    "\<And>i j p q. map_of (el_pending e) i = Some p \<Longrightarrow> map_of (el_pending e) j = Some q \<Longrightarrow> pk_waiter p = pk_waiter q \<Longrightarrow> i = j"
  shows "el_ok (e, u)"
proof -
  have "\<forall>i p. map_of (el_pending e) i = Some p \<longrightarrow> pk_waiter p \<in> set u \<and> pk_waiter p \<notin> fst ` set (el_answers e)"
    using assms(5) by blast
  moreover have "\<forall>i j p q. map_of (el_pending e) i = Some p \<and> map_of (el_pending e) j = Some q \<and> pk_waiter p = pk_waiter q \<longrightarrow> i = j"
    by (intro allI impI, elim conjE, rule assms(6))
  ultimately show ?thesis unfolding el_ok_def prod.case using assms(1-4) by (intro conjI)
qed

text \<open>A prompt leaves the queue, with or without an answer.\<close>

definition left :: "elicitations \<Rightarrow> uuid \<Rightarrow> parked \<Rightarrow> elicitation_outcome option \<Rightarrow> elicitations \<Rightarrow> bool" where
  "left e i p oc e' \<longleftrightarrow> map_of (el_pending e) i = Some p \<and> el_pending e' = AList.delete i (el_pending e) \<and>
     el_answers e' = el_answers e @ (case oc of Some x \<Rightarrow> [(pk_waiter p, x)] | None \<Rightarrow> [])"

lemma left_ok:
  assumes ok: "el_ok (e, u)" and l: "left e i p oc e'"
  shows "el_ok (e', u)"
proof (rule el_okI)
  note d = el_okD [OF ok] and f = l [unfolded left_def]
  have i: "map_of (el_pending e) i = Some p" using f by simp
  note dp = d(5) [OF i]
  show "hm_wf (el_pending e')" "length (el_pending e') \<le> MAX_PENDING"
    using d(1,2) f length_AList_delete_le [of i "el_pending e"] by auto
  show "distinct (map fst (el_answers e'))" "fst ` set (el_answers e') \<subseteq> set u"
    using d(3,4) dp f by (auto split: option.splits)
  show "pk_waiter q \<in> set u \<and> pk_waiter q \<notin> fst ` set (el_answers e')" if "map_of (el_pending e') j = Some q" for j q
  proof -
    have j: "j \<noteq> i" "map_of (el_pending e) j = Some q" using that f by (auto simp: map_of_delete_eq split: if_splits)
    then have "pk_waiter p \<noteq> pk_waiter q" using d(6) [OF i j(2)] by blast
    with d(5) [OF j(2)] f show ?thesis by (cases oc) auto
  qed
  show "j = k" if "map_of (el_pending e') j = Some q" "map_of (el_pending e') k = Some r" "pk_waiter q = pk_waiter r" for j k q r
    using that d(6) [of j q k r] f by (simp add: map_of_delete_eq split: if_splits)
qed

lemma el_cong:
  assumes "el_ok (e, u)" and "el_pending e' = el_pending e" and "el_answers e' = el_answers e"
  shows "el_ok (e', u)"
  using assms(1) unfolding el_ok_def by (simp add: assms(2,3))

lemma retire_left:
  assumes "el_retire x (e, ls) = (e', ls')"
  shows "e' = e \<or> (\<exists>i p oc. left e i p oc e' \<and> oc \<in> {None, Some cancelled})"
proof -
  obtain i t where x: "x = (i, t)" by (cases x)
  show ?thesis
  proof (cases "map_of (el_pending e) i")
    case None
    with assms x show ?thesis by (simp add: el_retire_def)
  next
    case (Some p)
    with assms x have "left e i p (if t then Some cancelled else None) e'"
      by (auto simp: el_retire_def left_def Let_def split: if_splits)
    then show ?thesis by (cases t) auto
  qed
qed

text \<open>A sweep answers with cancellations only.\<close>

lemma fold_retire:
  assumes "fold el_retire xs (e, ls) = (e', ls')" and "el_ok (e, u)"
  shows "el_ok (e', u) \<and> (\<forall>w oc. (w, oc) \<in> set (el_answers e') \<longrightarrow> (w, oc) \<in> set (el_answers e) \<or> oc = cancelled)"
  using assms
proof (induction xs arbitrary: e ls)
  case (Cons x xs)
  obtain e1 ls1 where r: "el_retire x (e, ls) = (e1, ls1)" by fastforce
  have "el_ok (e1, u) \<and> (\<forall>w oc. (w, oc) \<in> set (el_answers e1) \<longrightarrow> (w, oc) \<in> set (el_answers e) \<or> oc = cancelled)"
    using retire_left [OF r]
  proof (elim disjE exE conjE)
    fix i p oc assume l: "left e i p oc e1" and "oc \<in> {None, Some cancelled}"
    then show ?thesis using left_ok [OF Cons.prems(2) l] by (auto simp: left_def)
  qed (use Cons.prems(2) in auto)
  with Cons.IH [of e1 ls1] Cons.prems(1) r show ?case by auto
qed simp

lemma announce_same [simp]:
  "el_pending (el_announce wall ls e) = el_pending e" "el_answers (el_announce wall ls e) = el_answers e"
  by (induction ls arbitrary: e) (auto simp: el_announce_def)

lemma sweep_quiet:
  assumes "el_sweep closed now e = (e', ls)" and "el_ok (e, u)"
  shows "el_ok (e', u) \<and> (\<forall>w oc. (w, oc) \<in> set (el_answers e') \<longrightarrow> (w, oc) \<in> set (el_answers e) \<or> oc = cancelled)"
  using fold_retire assms unfolding el_sweep_def by blast

lemma start_quiet:
  assumes "el_ok (e, u)"
  shows "el_ok (elicit_start closed now wall r e, u) \<and>
    (\<forall>w oc. (w, oc) \<in> set (el_answers (elicit_start closed now wall r e)) \<longrightarrow> (w, oc) \<in> set (el_answers e) \<or> oc = cancelled)"
proof -
  define e1 where "e1 = (if schema_requests_secret (requested_schema r)
      then e\<lparr>el_audit := el_audit e @ [credential_note wall r]\<rparr> else e)"
  have e1: "el_pending e1 = el_pending e" "el_answers e1 = el_answers e" by (simp_all add: e1_def)
  have st: "elicit_start closed now wall r e = (case el_sweep closed now e1 of (x, ls) \<Rightarrow> el_announce wall ls x)"
    by (simp add: elicit_start_def e1_def Let_def)
  obtain e2 ls where s: "el_sweep closed now e1 = (e2, ls)" by fastforce
  from sweep_quiet [OF s el_cong [OF assms e1]] e1(2) st s show ?thesis by (auto intro: el_cong)
qed

lemma el_step_ok: "el_ok s \<Longrightarrow> el_step s s' \<Longrightarrow> el_ok s'"
proof -
  assume ok: "el_ok s"
  assume "el_step s s'"
  then show ?thesis
  proof cases
    case (el_start e u closed now wall r)
    then show ?thesis using start_quiet ok by blast
  next
    case (el_park e i w u json_text sh now wall r)
    let ?e = "snd (elicit_park json_text sh now wall i w r e)"
    note d = el_okD [OF ok [unfolded el_park(1)]]
    show ?thesis
    proof (cases "length (el_pending e) \<ge> MAX_PENDING")
      case True
      then have "?e = e" by (simp add: elicit_park_def)
      with el_park(1,2) ok show ?thesis unfolding el_ok_def by auto
    next
      case False
      then obtain p where p: "el_pending ?e = AList.update i p (el_pending e)" "pk_waiter p = w" "el_answers ?e = el_answers e"
        by (simp add: elicit_park_def Let_def)
      have "el_ok (?e, w # u)"
      proof (rule el_okI)
        show "length (el_pending ?e) \<le> MAX_PENDING" using False el_park(3) by (simp add: p length_AList_update)
        show "pk_waiter q \<in> set (w # u) \<and> pk_waiter q \<notin> fst ` set (el_answers ?e)" if "map_of (el_pending ?e) j = Some q" for j q
        proof (cases "j = i")
          case True
          with that p(1,2) have "pk_waiter q = w" by (simp add: map_of_update_eq)
          with d(4) el_park(4) p(3) show ?thesis by auto
        next
          case False
          with that p(1) have "map_of (el_pending e) j = Some q" by (simp add: map_of_update_eq)
          from d(5) [OF this] p(3) show ?thesis by auto
        qed
        show "j = k" if "map_of (el_pending ?e) j = Some q" "map_of (el_pending ?e) k = Some q'" "pk_waiter q = pk_waiter q'" for j k q q'
        proof -
          have old: "m = i \<and> pk_waiter x = w \<or> m \<noteq> i \<and> map_of (el_pending e) m = Some x \<and> pk_waiter x \<noteq> w"
            if "map_of (el_pending ?e) m = Some x" for m x
            using that d(5) [of m x] p(1,2) el_park(4) by (cases "m = i") (auto simp: map_of_update_eq)
          from old [OF that(1)] old [OF that(2)] that(3) d(6) [of j q k q'] show ?thesis by argo
        qed
      qed (use d(1,3,4) in \<open>auto simp: p\<close>)
      with el_park(2) show ?thesis by simp
    qed
  next
    case (el_settle e u wall i res)
    show ?thesis
    proof (cases "map_of (el_pending e) i")
      case None
      with el_settle ok show ?thesis by (simp add: el_resolve_def)
    next
      case (Some p)
      then have "left e i p (Some cancelled) (el_resolve wall i cancelled res e)" by (simp add: el_resolve_def left_def)
      with left_ok ok el_settle show ?thesis by blast
    qed
  next
    case (el_reply e u sh wall i okk vs)
    show ?thesis
    proof (cases "map_of (el_pending e) i")
      case None
      with el_reply ok show ?thesis by (simp add: el_respond_def)
    next
      case (Some p)
      then have "left e i p (Some (if okk then \<lparr>action = Accept, content = Some (coerce_content (pe_fields (pk_info p)) vs)\<rparr>
          else \<lparr>action = Decline, content = None\<rparr>)) (snd (el_respond sh wall i okk vs e))"
        by (simp add: el_respond_def left_def Let_def)
      with left_ok ok el_reply show ?thesis by blast
    qed
  next
    case (el_list e u closed now wall)
    obtain e1 ls where s: "el_sweep closed now e = (e1, ls)" by fastforce
    from sweep_quiet [OF s] ok el_list(1) have "el_ok (e1, u)" by blast
    with el_list(2) s show ?thesis by (auto simp: el_pending_list_def intro: el_cong)
  qed
qed

interpretation elicitation_life: invariant_system el_step el_ok
  by unfold_locales (rule el_step_ok)

text \<open>
  An elicitation is answered exactly when it leaves the queue: in every interleaving of new prompts,
  answers, lapses, disconnects and policy changes, no caller is answered twice, every prompt still on
  screen has a caller that has not been answered, and at most 64 prompts are held.
\<close>

theorem elicitation_answered_once:
  assumes "reaches el_step (new_elicitations t, []) (e, u)"
  shows "distinct (map fst (el_answers e)) \<and> length (el_pending e) \<le> 64 \<and>
    (map_of (el_pending e) i = Some p \<longrightarrow> pk_waiter p \<notin> fst ` set (el_answers e))"
proof -
  have "el_ok (new_elicitations t, [])" by (simp add: el_ok_def new_elicitations_def)
  note d = el_okD [OF elicitation_life.reaches_inv [OF assms this]]
  from d(2,3) d(5) [of i p] show ?thesis by (simp add: MAX_PENDING_def)
qed

definition sample_prompt :: elicitation_request where
  "sample_prompt = \<lparr>er_connection = \<lparr>conn_id = 9, conn_name = [], conn_config =
     Ssh \<lparr>destination = None, ssh_host = [97], ssh_port = 22, ssh_user = [], host_key_fingerprint = []\<rparr>,
     conn_secrets = [], account = None, conn_oauth = None, conn_created_at = 0, conn_updated_at = 0\<rparr>,
     er_agent = [97], er_tool = [116], correlation_token = [7], er_message = [109], requested_schema = JNull\<rparr>"

definition sample_registry :: elicitations where
  "sample_registry = snd (elicit_park (\<lambda>_. []) (\<lambda>_. []) 0 0 1 2 sample_prompt (new_elicitations 300))"

lemma sample_registry_reached: "reaches el_step (new_elicitations 300, []) (sample_registry, [2])"
proof -
  have "el_step (new_elicitations 300, []) (sample_registry, [2])"
    unfolding sample_registry_def by (rule el_park) (simp_all add: new_elicitations_def)
  then show ?thesis by (meson reaches_refl reaches_step)
qed

lemma sample_registry_pending:
  "map_of (el_pending sample_registry) 1 =
     Some \<lparr>pk_info = el_info (\<lambda>_. []) 0 1 sample_prompt 300, pk_token = [7], pk_waiter = 2, pk_deadline = 300\<rparr>"
  "el_answers sample_registry = []"
  by (simp_all add: sample_registry_def elicit_park_def new_elicitations_def MAX_PENDING_def sample_prompt_def Let_def)

theorem elicitation_answered_once_witness:
  "\<exists>e p. reaches el_step (new_elicitations 300, []) (e, [2]) \<and> map_of (el_pending e) 1 = Some p \<and> pk_waiter p = 2 \<and>
     2 \<notin> fst ` set (el_answers e)"
proof -
  let ?p = "\<lparr>pk_info = el_info (\<lambda>_. []) 0 1 sample_prompt 300, pk_token = [7], pk_waiter = 2, pk_deadline = 300\<rparr>"
  have "2 \<notin> fst ` set (el_answers sample_registry)"
    using elicitation_answered_once [OF sample_registry_reached, of 1 ?p] sample_registry_pending(1) by simp
  with sample_registry_reached sample_registry_pending(1) show ?thesis
    by (intro exI [of _ sample_registry] exI [of _ ?p]) simp
qed

text \<open>
  Only the user speaks for the user: whatever the queue does, an answer other than \<open>cancel\<close> is the
  one given through \<open>respond\<close> for the prompt that caller was waiting on, an accept carries exactly the
  values typed into that form, a boolean field as a JSON boolean and every other as the text itself, and
  a refusal carries nothing.
\<close>

theorem answer_is_the_users:
  assumes "reaches el_step (new_elicitations t, []) (e, u)" and "el_step (e, u) (e', u')"
    and "(w, oc) \<in> set (el_answers e')" and "(w, oc) \<notin> set (el_answers e)" and "action oc \<noteq> Cancel"
  shows "\<exists>i p vs. map_of (el_pending e) i = Some p \<and> pk_waiter p = w \<and> map_of (el_pending e') i = None \<and>
    oc = (if action oc = Accept
      then \<lparr>action = Accept, content = Some (map (\<lambda>(n, v).
             (n, if \<exists>f \<in> set (pe_fields (pk_info p)). ef_boolean f \<and> ef_name f = n then JBool (v = ascii ''true'') else JString v)) vs)\<rparr>
      else \<lparr>action = Decline, content = None\<rparr>)"
proof -
  have "el_ok (new_elicitations t, [])" by (simp add: el_ok_def new_elicitations_def)
  note ok = elicitation_life.reaches_inv [OF assms(1) this]
  have c: "action cancelled = Cancel" by (simp add: cancelled_def)
  show ?thesis
    using assms(2)
  proof cases
    case (el_start closed now wall r)
    then show ?thesis using start_quiet [OF ok] assms(3-5) c by metis
  next
    case (el_park i w' json_text sh now wall r)
    then have "el_answers e' = el_answers e" by (simp add: elicit_park_def Let_def)
    with assms(3,4) show ?thesis by simp
  next
    case (el_settle wall i res)
    then have "(w, oc) \<in> set (el_answers e) \<or> oc = cancelled"
      using assms(3) by (auto simp: el_resolve_def split: option.splits)
    with assms(4,5) c show ?thesis by auto
  next
    case (el_reply sh wall i okk vs)
    show ?thesis
    proof (cases "map_of (el_pending e) i")
      case None
      with el_reply assms(3,4) show ?thesis by (simp add: el_respond_def)
    next
      case (Some p)
      let ?oc = "if okk then \<lparr>action = Accept, content = Some (coerce_content (pe_fields (pk_info p)) vs)\<rparr>
          else \<lparr>action = Decline, content = None\<rparr>"
      have f: "el_answers e' = el_answers e @ [(pk_waiter p, ?oc)]" "map_of (el_pending e') i = None"
        using Some el_reply by (simp_all add: el_respond_def Let_def map_of_delete_eq)
      from f(1) assms(3,4) have "w = pk_waiter p" "oc = ?oc" by auto
      with Some f(2) show ?thesis by (intro exI [of _ i] exI [of _ p] exI [of _ vs]) (auto simp: coerce_content_def)
    qed
  next
    case (el_list closed now wall)
    obtain e1 ls where s: "el_sweep closed now e = (e1, ls)" by fastforce
    then have "el_answers e' = el_answers e1" using el_list by (simp add: el_pending_list_def)
    with sweep_quiet [OF s ok] assms(3-5) c show ?thesis by metis
  qed
qed

theorem answer_is_the_users_witness:
  "\<exists>e p. reaches el_step (new_elicitations 300, []) (e, [2]) \<and> map_of (el_pending e) 1 = Some p \<and> pk_waiter p = 2 \<and>
     (2, \<lparr>action = Accept, content = Some [([120], JString [121])]\<rparr>)
       \<in> set (el_answers (snd (el_respond (\<lambda>_. []) 5 1 True [([120], [121])] e))) \<and>
     map_of (el_pending (snd (el_respond (\<lambda>_. []) 5 1 True [([120], [121])] e))) 1 = None"
proof -
  let ?oc = "\<lparr>action = Accept, content = Some [([120], JString [121])]\<rparr>"
  let ?e = "snd (el_respond (\<lambda>_. []) 5 1 True [([120], [121])] sample_registry)"
  note st = el_reply [of sample_registry "[2]" "\<lambda>_. []" 5 1 True "[([120], [121])]"]
  have fs: "pe_fields (el_info (\<lambda>_. []) 0 1 sample_prompt 300) = []"
    by (simp add: el_info_def sample_prompt_def fields_from_schema_def schema_properties_def json_get_def)
  have a: "el_answers ?e = [(2, ?oc)]" "map_of (el_pending ?e) 1 = None"
    using sample_registry_pending fs by (simp_all add: el_respond_def coerce_content_def Let_def map_of_delete_eq)
  obtain i p vs where r: "map_of (el_pending sample_registry) i = Some p" "pk_waiter p = 2" "map_of (el_pending ?e) i = None"
    using answer_is_the_users [OF sample_registry_reached st, of 2 ?oc] a(1) sample_registry_pending(2) by auto
  with a sample_registry_reached sample_registry_pending(1) show ?thesis by (intro exI [of _ sample_registry]) auto
qed

lemma fold_resolve:
  assumes "hm_wf (el_pending e)" and "distinct ids" and "set ids \<subseteq> fst ` set (el_pending e)"
  shows "el_pending (fold (\<lambda>i. el_resolve wall i oc res) ids e) = filter (\<lambda>(i, _). i \<notin> set ids) (el_pending e) \<and>
    el_answers (fold (\<lambda>i. el_resolve wall i oc res) ids e) =
      el_answers e @ map (\<lambda>i. (pk_waiter (the (map_of (el_pending e) i)), oc)) ids"
  using assms
proof (induction ids arbitrary: e)
  case (Cons i ids)
  then obtain p where p: "map_of (el_pending e) i = Some p" by (auto simp: hm_wf_def)
  let ?e = "el_resolve wall i oc res e"
  have f: "el_pending ?e = AList.delete i (el_pending e)" "el_answers ?e = el_answers e @ [(pk_waiter p, oc)]"
    using p by (simp_all add: el_resolve_def)
  have "set ids \<subseteq> fst ` set (el_pending ?e)" using Cons.prems(2,3) by (force simp: f AList.delete_eq)
  with Cons.IH [of ?e] Cons.prems(1,2) f(1) have ih:
    "el_pending (fold (\<lambda>i. el_resolve wall i oc res) ids ?e) = filter (\<lambda>(i, _). i \<notin> set ids) (el_pending ?e)"
    "el_answers (fold (\<lambda>i. el_resolve wall i oc res) ids ?e) =
      el_answers ?e @ map (\<lambda>i. (pk_waiter (the (map_of (el_pending ?e) i)), oc)) ids" by auto
  have "map (\<lambda>j. (pk_waiter (the (map_of (el_pending ?e) j)), oc)) ids = map (\<lambda>j. (pk_waiter (the (map_of (el_pending e) j)), oc)) ids"
    using Cons.prems(2) by (auto simp: f map_of_delete_eq)
  moreover have "filter (\<lambda>(j, _). j \<notin> set ids) (el_pending ?e) = filter (\<lambda>(j, _). j \<notin> set (i # ids)) (el_pending e)"
    by (auto simp: f AList.delete_eq intro: filter_cong)
  ultimately show ?case using ih f(2) p by simp
qed simp

text \<open>
  Revoking a connection clears its prompts and no one else's: each of them leaves the queue and its
  caller is told \<open>cancel\<close> once, and every other prompt stays as it was.
\<close>

theorem revoke_reaches_prompts:
  assumes "hm_wf (el_pending e)"
  shows "el_pending (el_revoke wall c e) = filter (\<lambda>(_, p). pe_connection_id (pk_info p) \<noteq> c) (el_pending e) \<and>
    el_answers (el_revoke wall c e) =
      el_answers e @ map (\<lambda>(_, p). (pk_waiter p, cancelled)) (filter (\<lambda>(_, p). pe_connection_id (pk_info p) = c) (el_pending e))"
proof -
  let ?m = "filter (\<lambda>(_, p). pe_connection_id (pk_info p) = c) (el_pending e)"
  have ids: "distinct (el_targets c e)" "set (el_targets c e) \<subseteq> fst ` set (el_pending e)"
    using assms by (auto simp: el_targets_def hm_wf_def distinct_map_filter)
  have in_t: "i \<in> set (el_targets c e) \<longleftrightarrow> pe_connection_id (pk_info p) = c" if "(i, p) \<in> set (el_pending e)" for i p
    using that assms by (force simp: el_targets_def hm_wf_def dest: eq_key_imp_eq_value)
  have "filter (\<lambda>(i, _). i \<notin> set (el_targets c e)) (el_pending e) = filter (\<lambda>(_, p). pe_connection_id (pk_info p) \<noteq> c) (el_pending e)"
    using in_t by (auto intro: filter_cong)
  moreover have "map (\<lambda>i. (pk_waiter (the (map_of (el_pending e) i)), cancelled)) (el_targets c e) =
      map (\<lambda>(_, p). (pk_waiter p, cancelled)) ?m"
    using assms by (auto simp: el_targets_def hm_wf_def)
  ultimately show ?thesis using fold_resolve [OF assms ids, of wall cancelled PolicyChanged] by (simp add: el_revoke_def)
qed

theorem revoke_reaches_prompts_witness:
  "el_pending (el_revoke 5 9 sample_registry) = [] \<and> el_answers (el_revoke 5 9 sample_registry) = [(2, cancelled)]"
  using revoke_reaches_prompts [of sample_registry 5 9]
  by (simp add: sample_registry_def elicit_park_def new_elicitations_def MAX_PENDING_def sample_prompt_def Let_def el_info_def
      hm_wf_def)

end
