(* ===== verification/Identity.thy ===== *)
theory Identity
  imports Integrity
begin

text \<open>
  The shared broker identity, \<^verbatim>\<open>crates/aka-core/src/identity.rs\<close>: the agent key, its migration and recovery
  aliases, rotation, the management token, and the reconciliation of the sealed \<^verbatim>\<open>identity.json\<close> with the
  plaintext token file at start. SHA-256 is the parameter \<open>sha\<close>; the random bytes of a minted token, a new
  UUID and every reading of a clock are arguments. A write takes the fault it meets: it may fail before
  the rename that replaces the file, or after it, when the directory cannot be synced.
\<close>

unbundle bit_operations_syntax

subsection \<open>Data\<close>

datatype token_error = TInvalid | TExpired | TSuperseded

definition token_error_reason :: "token_error \<Rightarrow> error_reason" where
  "token_error_reason e =
     (case e of TInvalid \<Rightarrow> InvalidToken | TExpired \<Rightarrow> TokenExpired | TSuperseded \<Rightarrow> TokenSuperseded)"

datatype manage_token_mutation_error = Unauthorized token_error | PersistFailed core_error

record verified_token =
  vt_client_id :: uuid
  via_alias :: bool

record superseded_token_hash =
  sth_token_hash :: ustring
  superseded_at :: datetime

record broker_identity =
  bi_id :: uuid
  token_hash :: ustring
  alias_hashes :: "ustring list"
  alias_last_used :: "(ustring, datetime) hashmap"
  alias_expires_at :: "(ustring, datetime) hashmap"
  superseded_token_hashes :: "superseded_token_hash list"
  minted_at :: datetime
  last_used :: datetime
  manage_token_hash :: "ustring option"
  manage_token_expires_at :: "datetime option"

record legacy_agent =
  la_token_hash :: ustring
  la_last_used :: datetime

record identity_store =
  identity :: broker_identity
  plain_token :: ustring
  ttl :: duration

text \<open>What reading each file gives: the sealed records after verification and parsing, the text of the token file.\<close>

record identity_disk =
  identity_file :: "core_error + broker_identity option"
  legacy_agents :: "core_error + legacy_agent list option"
  token_file :: "ustring option"

type_synonym write_fault = "(core_error \<times> bool) option"

definition RECOVERY_ALIAS_TTL :: duration where
  "RECOVERY_ALIAS_TTL = secs (6 * 60 * 60)"

definition MAX_SUPERSEDED_TOKEN_HASHES :: nat where
  "MAX_SUPERSEDED_TOKEN_HASHES = 8"

definition SUPERSEDED_TOKEN_TTL :: duration where
  "SUPERSEDED_TOKEN_TTL = secs (7 * 24 * 60 * 60)"

text \<open>\<open>chrono::Duration::num_seconds\<close> rounds toward zero; \<open>d.as_secs() as i64\<close> reinterprets 64 bits.\<close>

definition num_seconds :: "int \<Rightarrow> int" where
  "num_seconds d = (if d \<ge> 0 then d div 1000000000 else - ((- d) div 1000000000))"

definition as_secs_i64 :: "duration \<Rightarrow> int" where
  "as_secs_i64 d = sint (of_nat (d div 1000000000) :: 64 word)"

subsection \<open>Tokens\<close>

definition hex_text :: "bytes \<Rightarrow> ustring" where
  "hex_text bs = map unat (encode_hex bs)"

definition hash_token :: "(ustring \<Rightarrow> bytes) \<Rightarrow> ustring \<Rightarrow> ustring" where
  "hash_token sha t = hex_text (sha t)"

definition mint_token :: "bytes \<Rightarrow> ustring" where
  "mint_token buf = ascii ''aka_'' @ hex_text buf"

definition MANAGE_TOKEN_PREFIX :: ustring where
  "MANAGE_TOKEN_PREFIX = ascii ''akamgr_''"

definition mint_manage_token :: "bytes \<Rightarrow> ustring" where
  "mint_manage_token buf = MANAGE_TOKEN_PREFIX @ hex_text buf"

definition starts_with :: "ustring \<Rightarrow> ustring \<Rightarrow> bool" where
  "starts_with p s \<longleftrightarrow> take (length p) s = p"

text \<open>The anchor is set at the first call of the process.\<close>

definition skew_guarded_now :: "instant \<times> datetime \<Rightarrow> instant \<Rightarrow> datetime \<Rightarrow> datetime" where
  "skew_guarded_now anchor now wall =
     (case anchor of (i, w) \<Rightarrow> max wall (add_std w (now - i) 0))"

definition verify_manage_identity ::
    "(ustring \<Rightarrow> bytes) \<Rightarrow> datetime \<Rightarrow> broker_identity \<Rightarrow> ustring \<Rightarrow> token_error + unit" where
  "verify_manage_identity sha guarded b token =
     (if \<not> starts_with MANAGE_TOKEN_PREFIX token then Err TInvalid
      else case manage_token_hash b of
        Some stored \<Rightarrow>
          if stored = hash_token sha token then
            (case manage_token_expires_at b of
               Some x \<Rightarrow> if guarded \<ge> x then Err TExpired else Ok ()
             | None \<Rightarrow> Ok ())
          else Err TInvalid
      | None \<Rightarrow> Err TInvalid)"

subsection \<open>Opening\<close>

definition persist_identity ::
    "write_fault \<Rightarrow> broker_identity \<Rightarrow> identity_disk \<Rightarrow> (core_error + unit) \<times> identity_disk" where
  "persist_identity w b d =
     (case w of
        None \<Rightarrow> (Ok (), d\<lparr>identity_file := Ok (Some b)\<rparr>)
      | Some (e, renamed) \<Rightarrow> (Err e, if renamed then d\<lparr>identity_file := Ok (Some b)\<rparr> else d))"

definition persist_and_write_file ::
    "write_fault \<Rightarrow> write_fault \<Rightarrow> broker_identity \<Rightarrow> ustring \<Rightarrow> identity_disk \<Rightarrow> (core_error + unit) \<times> identity_disk" where
  "persist_and_write_file w1 w2 b t d =
     (case persist_identity w1 b d of
        (Inl e, d) \<Rightarrow> (Err e, d)
      | (Inr _, d) \<Rightarrow>
          (case w2 of
             None \<Rightarrow> (Ok (), d\<lparr>token_file := Some t\<rparr>)
           | Some (e, renamed) \<Rightarrow> (Err e, if renamed then d\<lparr>token_file := Some t\<rparr> else d)))"

text \<open>The recovered identity: the old hash becomes an alias with its own clock and deadline.\<close>

definition recovered_identity ::
    "(ustring \<Rightarrow> bytes) \<Rightarrow> duration \<Rightarrow> ustring \<Rightarrow> datetime \<Rightarrow> datetime \<Rightarrow> datetime \<Rightarrow> broker_identity \<Rightarrow> broker_identity" where
  "recovered_identity sha keep token now minted used b =
     (let h = token_hash b; demote = h \<noteq> [] in
      \<lparr>bi_id = bi_id b, token_hash = hash_token sha token,
       alias_hashes = (if demote then alias_hashes b @ [h] else alias_hashes b),
       alias_last_used = (if demote then AList.update h now (alias_last_used b) else alias_last_used b),
       alias_expires_at = (if demote then AList.update h (add_std now (min RECOVERY_ALIAS_TTL keep) (6 * 3600)) (alias_expires_at b)
         else alias_expires_at b),
       superseded_token_hashes = superseded_token_hashes b, minted_at = minted, last_used = used,
       manage_token_hash = manage_token_hash b, manage_token_expires_at = manage_token_expires_at b\<rparr>)"

text \<open>The loop over the agents of the per-agent era, from the empty alias tables.\<close>

fun adopt_agents ::
    "duration \<Rightarrow> datetime \<Rightarrow> legacy_agent list \<Rightarrow>
     ustring list \<times> (ustring, datetime) hashmap \<times> (ustring, datetime) hashmap \<Rightarrow>
     ustring list \<times> (ustring, datetime) hashmap \<times> (ustring, datetime) hashmap" where
  "adopt_agents keep now [] acc = acc"
| "adopt_agents keep now (a # as) (hs, used, until) =
     (if num_seconds (now - la_last_used a) > as_secs_i64 keep then adopt_agents keep now as (hs, used, until)
      else adopt_agents keep now as
        (hs @ [la_token_hash a], AList.update (la_token_hash a) (la_last_used a) used,
         AList.update (la_token_hash a) (add_std (la_last_used a) keep (30 * 86400)) until))"

definition first_identity ::
    "(ustring \<Rightarrow> bytes) \<Rightarrow> duration \<Rightarrow> uuid \<Rightarrow> ustring \<Rightarrow> datetime \<Rightarrow> datetime \<Rightarrow> datetime \<Rightarrow> legacy_agent list \<Rightarrow> broker_identity" where
  "first_identity sha keep i token now minted used agents =
     (case adopt_agents keep now agents ([], [], []) of
        (hs, lu, until) \<Rightarrow>
          \<lparr>bi_id = i, token_hash = hash_token sha token, alias_hashes = hs, alias_last_used = lu, alias_expires_at = until,
           superseded_token_hashes = [], minted_at = minted, last_used = used, manage_token_hash = None,
           manage_token_expires_at = None\<rparr>)"

definition token_on_disk :: "identity_disk \<Rightarrow> ustring option" where
  "token_on_disk d =
     (case token_file d of
        None \<Rightarrow> None
      | Some s \<Rightarrow> if trim s = [] then None else Some (trim s))"

text \<open>\<open>with_legacy\<close> says whether a path to the per-agent file was given.\<close>

definition open_identity ::
    "(ustring \<Rightarrow> bytes) \<Rightarrow> bool \<Rightarrow> duration \<Rightarrow> write_fault \<Rightarrow> write_fault \<Rightarrow> uuid \<Rightarrow> bytes \<Rightarrow> datetime \<Rightarrow> datetime \<Rightarrow> datetime \<Rightarrow>
     identity_disk \<Rightarrow> (core_error + identity_store) \<times> identity_disk" where
  "open_identity sha with_legacy keep w1 w2 i buf now minted used d =
     (let token = mint_token buf;
          establish = (\<lambda>b. case persist_and_write_file w1 w2 b token d of
              (Inl e, d) \<Rightarrow> (Err e, d)
            | (Inr _, d) \<Rightarrow> (Ok \<lparr>identity = b, plain_token = token, ttl = keep\<rparr>, d)) in
      case identity_file d of
        Inl e \<Rightarrow> (Err e, d)
      | Inr (Some b) \<Rightarrow>
          (case token_on_disk d of
             Some t \<Rightarrow>
               if hash_token sha t = token_hash b then (Ok \<lparr>identity = b, plain_token = t, ttl = keep\<rparr>, d)
               else establish (recovered_identity sha keep token now minted used b)
           | None \<Rightarrow> establish (recovered_identity sha keep token now minted used b))
      | Inr None \<Rightarrow>
          if with_legacy then
            (case legacy_agents d of
               Inl e \<Rightarrow> (Err e, d)
             | Inr agents \<Rightarrow> establish (first_identity sha keep i token now minted used
                 (case agents of Some as \<Rightarrow> as | None \<Rightarrow> [])))
          else establish (first_identity sha keep i token now minted used []))"

subsection \<open>The agent key\<close>

definition refresh_interval :: "duration \<Rightarrow> int" where
  "refresh_interval keep = int (min (keep div 10) (secs 3600))"

definition alias_active :: "duration \<Rightarrow> datetime \<Rightarrow> broker_identity \<Rightarrow> ustring \<Rightarrow> bool" where
  "alias_active keep now b h =
     (case map_of (alias_last_used b) h of
        None \<Rightarrow> False
      | Some t \<Rightarrow> num_seconds (now - t) \<le> as_secs_i64 keep \<and>
          (case map_of (alias_expires_at b) h of None \<Rightarrow> True | Some x \<Rightarrow> now < x))"

definition active_alias_count :: "datetime \<Rightarrow> identity_store \<Rightarrow> nat" where
  "active_alias_count guarded s =
     length (filter (alias_active (ttl s) guarded (identity s)) (alias_hashes (identity s)))"

text \<open>Which key a hash is, and its last use; \<open>g1\<close> and \<open>wall\<close> are the clocks read here.\<close>

definition classify_token :: "datetime \<Rightarrow> datetime \<Rightarrow> broker_identity \<Rightarrow> ustring \<Rightarrow> token_error + bool \<times> datetime" where
  "classify_token g1 wall b h =
     (if token_hash b = h then Ok (False, last_used b)
      else if h \<in> set (alias_hashes b) then
        (case map_of (alias_last_used b) h of
           None \<Rightarrow> Err TExpired
         | Some t \<Rightarrow>
             (case map_of (alias_expires_at b) h of
                Some x \<Rightarrow> if g1 \<ge> x then Err TExpired else Ok (True, t)
              | None \<Rightarrow> Ok (True, t)))
      else if list_ex (\<lambda>e. sth_token_hash e = h \<and>
          num_seconds (wall - superseded_at e) \<le> as_secs_i64 SUPERSEDED_TOKEN_TTL) (superseded_token_hashes b)
      then Err TSuperseded
      else Err TInvalid)"

definition verify ::
    "(ustring \<Rightarrow> bytes) \<Rightarrow> write_fault \<Rightarrow> datetime \<Rightarrow> datetime \<Rightarrow> datetime \<Rightarrow> ustring \<Rightarrow> identity_store \<Rightarrow> identity_disk \<Rightarrow>
     (token_error + verified_token) \<times> identity_store \<times> identity_disk" where
  "verify sha w g1 wall now token s d =
     (let b = identity s; h = hash_token sha token in
      case classify_token g1 wall b h of
        Inl e \<Rightarrow> (Err e, s, d)
      | Inr (is_alias, used) \<Rightarrow>
          let age = now - used in
          if num_seconds age > as_secs_i64 (ttl s) then (Err TExpired, s, d)
          else
            let v = \<lparr>vt_client_id = bi_id b, via_alias = is_alias\<rparr> in
            if age < refresh_interval (ttl s) then (Ok v, s, d)
            else
              let b = (if is_alias then b\<lparr>alias_last_used := AList.update h now (alias_last_used b)\<rparr>
                       else b\<lparr>last_used := now\<rparr>) in
              (Ok v, s\<lparr>identity := b\<rparr>, snd (persist_identity w b d)))"

definition touch :: "write_fault \<Rightarrow> datetime \<Rightarrow> identity_store \<Rightarrow> identity_disk \<Rightarrow> identity_store \<times> identity_disk" where
  "touch w wall s d =
     (let b = (identity s)\<lparr>last_used := wall\<rparr> in (s\<lparr>identity := b\<rparr>, snd (persist_identity w b d)))"

text \<open>The superseded hashes after a rotation at \<open>now\<close>: the expired go, the outgoing key joins, the last eight stay.\<close>

definition supersede :: "datetime \<Rightarrow> ustring \<Rightarrow> superseded_token_hash list \<Rightarrow> superseded_token_hash list" where
  "supersede now h xs =
     (let xs = filter (\<lambda>e. num_seconds (now - superseded_at e) \<le> as_secs_i64 SUPERSEDED_TOKEN_TTL) xs;
          xs = filter (\<lambda>e. sth_token_hash e \<noteq> h) xs @ [\<lparr>sth_token_hash = h, superseded_at = now\<rparr>] in
      if length xs > MAX_SUPERSEDED_TOKEN_HASHES then drop (length xs - MAX_SUPERSEDED_TOKEN_HASHES) xs else xs)"

definition rotated_identity :: "(ustring \<Rightarrow> bytes) \<Rightarrow> ustring \<Rightarrow> datetime \<Rightarrow> broker_identity \<Rightarrow> broker_identity" where
  "rotated_identity sha token now b =
     \<lparr>bi_id = bi_id b, token_hash = hash_token sha token, alias_hashes = [], alias_last_used = [], alias_expires_at = [],
      superseded_token_hashes = supersede now (token_hash b) (superseded_token_hashes b), minted_at = now, last_used = now,
      manage_token_hash = manage_token_hash b, manage_token_expires_at = manage_token_expires_at b\<rparr>"

definition rotate ::
    "(ustring \<Rightarrow> bytes) \<Rightarrow> write_fault \<Rightarrow> write_fault \<Rightarrow> bytes \<Rightarrow> datetime \<Rightarrow> identity_store \<Rightarrow> identity_disk \<Rightarrow>
     (core_error + ustring) \<times> identity_store \<times> identity_disk" where
  "rotate sha w1 w2 buf now s d =
     (let token = mint_token buf; next = rotated_identity sha token now (identity s) in
      case persist_and_write_file w1 w2 next token d of
        (Inl e, d) \<Rightarrow> (Err e, s, d)
      | (Inr _, d) \<Rightarrow> (Ok token, s\<lparr>identity := next, plain_token := token\<rparr>, d))"

subsection \<open>The management token\<close>

definition with_manage_token :: "(ustring \<Rightarrow> bytes) \<Rightarrow> ustring \<Rightarrow> duration option \<Rightarrow> datetime \<Rightarrow> broker_identity \<Rightarrow> broker_identity" where
  "with_manage_token sha token keep wall b =
     b\<lparr>manage_token_hash := Some (hash_token sha token),
       manage_token_expires_at := map_option (\<lambda>k. add_std wall k (3650 * 86400)) keep\<rparr>"

definition without_manage_token :: "broker_identity \<Rightarrow> broker_identity" where
  "without_manage_token b = b\<lparr>manage_token_hash := None, manage_token_expires_at := None\<rparr>"

definition manage_token_issued :: "identity_store \<Rightarrow> bool" where
  "manage_token_issued s \<longleftrightarrow> manage_token_hash (identity s) \<noteq> None"

definition issue_manage_token_with_ttl ::
    "(ustring \<Rightarrow> bytes) \<Rightarrow> write_fault \<Rightarrow> bytes \<Rightarrow> datetime \<Rightarrow> duration option \<Rightarrow> identity_store \<Rightarrow> identity_disk \<Rightarrow>
     (core_error + ustring) \<times> identity_store \<times> identity_disk" where
  "issue_manage_token_with_ttl sha w buf wall keep s d =
     (let token = mint_manage_token buf; next = with_manage_token sha token keep wall (identity s) in
      case persist_identity w next d of
        (Inl e, d) \<Rightarrow> (Err e, s, d)
      | (Inr _, d) \<Rightarrow> (Ok token, s\<lparr>identity := next\<rparr>, d))"

definition issue_manage_token ::
    "(ustring \<Rightarrow> bytes) \<Rightarrow> write_fault \<Rightarrow> bytes \<Rightarrow> datetime \<Rightarrow> identity_store \<Rightarrow> identity_disk \<Rightarrow>
     (core_error + ustring) \<times> identity_store \<times> identity_disk" where
  "issue_manage_token sha w buf wall s d = issue_manage_token_with_ttl sha w buf wall None s d"

definition rotate_manage_token_with_ttl ::
    "(ustring \<Rightarrow> bytes) \<Rightarrow> write_fault \<Rightarrow> bytes \<Rightarrow> datetime \<Rightarrow> datetime \<Rightarrow> ustring \<Rightarrow> duration option \<Rightarrow> identity_store \<Rightarrow>
     identity_disk \<Rightarrow> (manage_token_mutation_error + ustring) \<times> identity_store \<times> identity_disk" where
  "rotate_manage_token_with_ttl sha w buf guarded wall current keep s d =
     (case verify_manage_identity sha guarded (identity s) current of
        Inl e \<Rightarrow> (Err (Unauthorized e), s, d)
      | Inr _ \<Rightarrow>
          let token = mint_manage_token buf; next = with_manage_token sha token keep wall (identity s) in
          (case persist_identity w next d of
             (Inl e, d) \<Rightarrow> (Err (PersistFailed e), s, d)
           | (Inr _, d) \<Rightarrow> (Ok token, s\<lparr>identity := next\<rparr>, d)))"

definition revoke_manage_token ::
    "write_fault \<Rightarrow> identity_store \<Rightarrow> identity_disk \<Rightarrow> (core_error + bool) \<times> identity_store \<times> identity_disk" where
  "revoke_manage_token w s d =
     (if manage_token_hash (identity s) = None then (Ok False, s, d)
      else
        let next = without_manage_token (identity s) in
        case persist_identity w next d of
          (Inl e, d) \<Rightarrow> (Err e, s, d)
        | (Inr _, d) \<Rightarrow> (Ok True, s\<lparr>identity := next\<rparr>, d))"

definition revoke_manage_token_with_token ::
    "(ustring \<Rightarrow> bytes) \<Rightarrow> write_fault \<Rightarrow> datetime \<Rightarrow> ustring \<Rightarrow> identity_store \<Rightarrow> identity_disk \<Rightarrow>
     (manage_token_mutation_error + unit) \<times> identity_store \<times> identity_disk" where
  "revoke_manage_token_with_token sha w guarded current s d =
     (case verify_manage_identity sha guarded (identity s) current of
        Inl e \<Rightarrow> (Err (Unauthorized e), s, d)
      | Inr _ \<Rightarrow>
          let next = without_manage_token (identity s) in
          (case persist_identity w next d of
             (Inl e, d) \<Rightarrow> (Err (PersistFailed e), s, d)
           | (Inr _, d) \<Rightarrow> (Ok (), s\<lparr>identity := next\<rparr>, d)))"

definition verify_manage :: "(ustring \<Rightarrow> bytes) \<Rightarrow> datetime \<Rightarrow> ustring \<Rightarrow> identity_store \<Rightarrow> token_error + unit" where
  "verify_manage sha guarded token s = verify_manage_identity sha guarded (identity s) token"

definition validate_agent_name :: "ustring \<Rightarrow> bool" where
  "validate_agent_name name \<longleftrightarrow>
     name \<noteq> [] \<and> utf8_len name \<le> 64 \<and> list_all (\<lambda>c. is_ascii_alphanumeric c \<or> c \<in> {45, 95, 46}) name"

subsection \<open>The identity over time\<close>

text \<open>
  The broker process, its files, and what a history remembers: the hashes of every agent key that was ever
  minted or adopted, of every management token, and of the keys that a successful rotation withdrew. The
  token file may be lost or replaced at any time, and the process may stop and start again.
\<close>

record id_system =
  running :: "identity_store option"
  idisk :: identity_disk
  known :: "ustring list"
  managed :: "ustring list"
  retired :: "ustring list"

definition accepted :: "broker_identity \<Rightarrow> ustring list" where
  "accepted b = token_hash b # alias_hashes b"

inductive id_step :: "(ustring \<Rightarrow> bytes) \<Rightarrow> id_system \<Rightarrow> id_system \<Rightarrow> bool" for sha where
  is_open: "hash_token sha (mint_token buf) \<notin> set (known y) \<union> set (managed y) \<Longrightarrow>
    open_identity sha legacy keep w1 w2 i buf now minted used (idisk y) = (r, d) \<Longrightarrow>
    id_step sha y (y\<lparr>running := (case r of Inl _ \<Rightarrow> None | Inr s \<Rightarrow> Some s), idisk := d,
      known := hash_token sha (mint_token buf) # known y\<rparr>)"
| is_stop: "id_step sha y (y\<lparr>running := None\<rparr>)"
| is_file: "id_step sha y (y\<lparr>idisk := (idisk y)\<lparr>token_file := x\<rparr>\<rparr>)"
| is_verify: "running y = Some s \<Longrightarrow> verify sha w g1 wall now token s (idisk y) = (rt, s', d) \<Longrightarrow>
    id_step sha y (y\<lparr>running := Some s', idisk := d\<rparr>)"
| is_touch: "running y = Some s \<Longrightarrow> touch w wall s (idisk y) = (s', d) \<Longrightarrow> id_step sha y (y\<lparr>running := Some s', idisk := d\<rparr>)"
| is_rotate: "running y = Some s \<Longrightarrow> hash_token sha (mint_token buf) \<notin> set (known y) \<union> set (managed y) \<Longrightarrow>
    rotate sha w1 w2 buf now s (idisk y) = (rk, s', d) \<Longrightarrow>
    id_step sha y (y\<lparr>running := Some s', idisk := d, known := hash_token sha (mint_token buf) # known y,
      retired := (if is_err rk then retired y else accepted (identity s) @ retired y)\<rparr>)"
| is_issue: "running y = Some s \<Longrightarrow> hash_token sha (mint_manage_token buf) \<notin> set (known y) \<union> set (managed y) \<Longrightarrow>
    issue_manage_token_with_ttl sha w buf wall k s (idisk y) = (rk, s', d) \<Longrightarrow>
    id_step sha y (y\<lparr>running := Some s', idisk := d, managed := hash_token sha (mint_manage_token buf) # managed y\<rparr>)"
| is_rotate_manage: "running y = Some s \<Longrightarrow> hash_token sha (mint_manage_token buf) \<notin> set (known y) \<union> set (managed y) \<Longrightarrow>
    rotate_manage_token_with_ttl sha w buf guarded wall current k s (idisk y) = (rm, s', d) \<Longrightarrow>
    id_step sha y (y\<lparr>running := Some s', idisk := d, managed := hash_token sha (mint_manage_token buf) # managed y\<rparr>)"
| is_revoke: "running y = Some s \<Longrightarrow> revoke_manage_token w s (idisk y) = (rb, s', d) \<Longrightarrow>
    id_step sha y (y\<lparr>running := Some s', idisk := d\<rparr>)"
| is_revoke_with: "running y = Some s \<Longrightarrow> revoke_manage_token_with_token sha w guarded current s (idisk y) = (ru, s', d) \<Longrightarrow>
    id_step sha y (y\<lparr>running := Some s', idisk := d\<rparr>)"

definition legacy_hashes :: "identity_disk \<Rightarrow> ustring list" where
  "legacy_hashes d = (case legacy_agents d of Inr (Some as) \<Rightarrow> map la_token_hash as | _ \<Rightarrow> [])"

definition id_start :: "identity_disk \<Rightarrow> id_system" where
  "id_start d = \<lparr>running = None, idisk = d\<lparr>identity_file := Ok None\<rparr>, known = legacy_hashes d, managed = [], retired = []\<rparr>"

definition key_ok :: "id_system \<Rightarrow> broker_identity \<Rightarrow> bool" where
  "key_ok y b \<longleftrightarrow> set (accepted b) \<subseteq> set (known y) \<and> set (accepted b) \<inter> set (retired y) = {} \<and>
     (\<forall>h. manage_token_hash b = Some h \<longrightarrow> h \<in> set (managed y))"

definition id_ok :: "(ustring \<Rightarrow> bytes) \<Rightarrow> id_system \<Rightarrow> bool" where
  "id_ok sha y \<longleftrightarrow>
     (\<forall>b. identity_file (idisk y) = Ok (Some b) \<longrightarrow> key_ok y b) \<and>
     (\<forall>s. running y = Some s \<longrightarrow> key_ok y (identity s) \<and> hash_token sha (plain_token s) = token_hash (identity s)) \<and>
     set (retired y) \<subseteq> set (known y) \<and> set (known y) \<inter> set (managed y) = {} \<and>
     set (legacy_hashes (idisk y)) \<subseteq> set (known y) \<and>
     (running y \<noteq> None \<or> retired y \<noteq> [] \<longrightarrow> (\<exists>b. identity_file (idisk y) = Ok (Some b)))"

lemma legacy_hashes_cong: "legacy_agents d = legacy_agents d' \<Longrightarrow> legacy_hashes d = legacy_hashes d'"
  by (simp add: legacy_hashes_def)

lemma persist_cases:
  assumes "persist_identity w b d = (r, d')"
  shows "identity_file d' = Ok (Some b) \<or> is_err r \<and> identity_file d' = identity_file d"
    and "legacy_agents d' = legacy_agents d" and "token_file d' = token_file d"
  using assms by (auto simp: persist_identity_def split: option.splits if_splits)

lemma persist_both_cases:
  assumes "persist_and_write_file w1 w2 b t d = (r, d')"
  shows "identity_file d' = Ok (Some b) \<or> is_err r \<and> identity_file d' = identity_file d"
    and "legacy_agents d' = legacy_agents d" and "\<not> is_err r \<Longrightarrow> token_file d' = Some t"
  using assms by (auto simp: persist_and_write_file_def persist_identity_def split: option.splits if_splits)

lemma adopt_agents_hashes:
  "set (fst (adopt_agents keep now as (hs, used, until))) \<subseteq> set hs \<union> la_token_hash ` set as"
proof (induction as arbitrary: hs used until)
  case (Cons a as)
  show ?case
  proof (cases "num_seconds (now - la_last_used a) > as_secs_i64 keep")
    case True
    then show ?thesis using Cons.IH [of hs used until] by auto
  next
    case False
    then show ?thesis using Cons.IH [of "hs @ [la_token_hash a]"] by fastforce
  qed
qed simp

lemma accepted_of:
  "set (accepted (recovered_identity sha keep t now minted used b)) \<subseteq> insert (hash_token sha t) (set (accepted b))"
  "manage_token_hash (recovered_identity sha keep t now minted used b) = manage_token_hash b"
  "accepted (rotated_identity sha t now b) = [hash_token sha t]"
  "manage_token_hash (rotated_identity sha t now b) = manage_token_hash b"
  "manage_token_hash (first_identity sha keep i t now minted used as) = None"
  "accepted (with_manage_token sha t k wall b) = accepted b" "accepted (without_manage_token b) = accepted b"
  "manage_token_hash (with_manage_token sha t k wall b) = Some (hash_token sha t)"
  "manage_token_hash (without_manage_token b) = None"
  by (auto simp: accepted_def recovered_identity_def rotated_identity_def first_identity_def with_manage_token_def
      without_manage_token_def Let_def split: prod.splits if_splits)

lemma accepted_first:
  "set (accepted (first_identity sha keep i t now minted used as)) \<subseteq> insert (hash_token sha t) (la_token_hash ` set as)"
  using adopt_agents_hashes [of keep now as "[]" "[]" "[]"]
  by (auto simp: accepted_def first_identity_def split: prod.splits)

lemma hash_of:
  "token_hash (recovered_identity sha keep t now minted used b) = hash_token sha t"
  "token_hash (rotated_identity sha t now b) = hash_token sha t"
  "token_hash (first_identity sha keep i t now minted used as) = hash_token sha t"
  "token_hash (with_manage_token sha t k wall b) = token_hash b" "token_hash (without_manage_token b) = token_hash b"
  by (auto simp: recovered_identity_def rotated_identity_def first_identity_def with_manage_token_def
      without_manage_token_def Let_def split: prod.splits)

lemma id_okD:
  assumes "id_ok sha y"
  shows "identity_file (idisk y) = Ok (Some b) \<Longrightarrow> key_ok y b"
    and "running y = Some s \<Longrightarrow> key_ok y (identity s)"
    and "running y = Some s \<Longrightarrow> hash_token sha (plain_token s) = token_hash (identity s)"
    and "set (retired y) \<subseteq> set (known y)" and "set (known y) \<inter> set (managed y) = {}"
    and "set (legacy_hashes (idisk y)) \<subseteq> set (known y)"
    and "running y \<noteq> None \<or> retired y \<noteq> [] \<Longrightarrow> \<exists>b. identity_file (idisk y) = Ok (Some b)"
  using assms unfolding id_ok_def by blast+

lemma key_ok_mono:
  assumes "key_ok y b" and "set (known y) \<subseteq> set (known y')" and "set (managed y) \<subseteq> set (managed y')"
    and "retired y' = retired y"
  shows "key_ok y' b"
  using assms unfolding key_ok_def by auto

text \<open>Every operation of a running broker keeps its identity or replaces it, in memory and possibly on disk, by one identity.\<close>

lemma id_ok_commit:
  assumes ok: "id_ok sha y" and run: "running y = Some s"
    and grow: "set (known y) \<subseteq> set k'" "set (managed y) \<subseteq> set m'" "set k' \<inter> set m' = {}"
    and b: "key_ok (y\<lparr>known := k', managed := m'\<rparr>) b"
    and s': "s' = s \<or> identity s' = b \<and> hash_token sha (plain_token s') = token_hash b"
    and d: "identity_file d = Ok (Some b) \<or> identity_file d = identity_file (idisk y)"
      "legacy_agents d = legacy_agents (idisk y)"
  shows "id_ok sha (y\<lparr>running := Some s', idisk := d, known := k', managed := m'\<rparr>)"
proof -
  let ?y = "y\<lparr>running := Some s', idisk := d, known := k', managed := m'\<rparr>"
  note D = id_okD [OF ok]
  have same: "key_ok ?y c \<longleftrightarrow> key_ok (y\<lparr>known := k', managed := m'\<rparr>) c" for c by (simp add: key_ok_def)
  have mono: "key_ok y c \<Longrightarrow> key_ok ?y c" for c by (erule key_ok_mono) (use grow in auto)
  obtain c where c: "identity_file (idisk y) = Ok (Some c)" using D(7) run by auto
  have "identity_file (idisk ?y) = Ok (Some x) \<Longrightarrow> key_ok ?y x" for x
    using d(1)
  proof
    assume "identity_file (idisk ?y) = Ok (Some x)" "identity_file d = Ok (Some b)"
    then have "x = b" by simp
    with b show ?thesis unfolding same by simp
  next
    assume "identity_file (idisk ?y) = Ok (Some x)" "identity_file d = identity_file (idisk y)"
    then have "identity_file (idisk y) = Ok (Some x)" by simp
    then show ?thesis by (intro mono D(1))
  qed
  moreover have "key_ok ?y (identity s') \<and> hash_token sha (plain_token s') = token_hash (identity s')"
    using s'
  proof
    assume "s' = s"
    with mono [OF D(2) [OF run]] D(3) [OF run] show ?thesis by simp
  next
    assume "identity s' = b \<and> hash_token sha (plain_token s') = token_hash b"
    with b show ?thesis unfolding same by simp
  qed
  moreover have "\<exists>x. identity_file (idisk ?y) = Ok (Some x)" using d(1) c by auto
  ultimately show ?thesis using D(4,6) grow legacy_hashes_cong [OF d(2)] unfolding id_ok_def by auto
qed

lemma id_ok_write:
  assumes ok: "id_ok sha y" and run: "running y = Some s" and p: "persist_identity w b (idisk y) = (r, d)"
    and keep: "accepted b = accepted (identity s)"
    and m: "set (managed y) \<subseteq> set m'" "set (known y) \<inter> set m' = {}" "\<And>h. manage_token_hash b = Some h \<Longrightarrow> h \<in> set m'"
    and s': "s' = s \<or> s' = s\<lparr>identity := b\<rparr>"
  shows "id_ok sha (y\<lparr>running := Some s', idisk := d, managed := m'\<rparr>)"
proof -
  note D = id_okD [OF ok]
  have "key_ok (y\<lparr>known := known y, managed := m'\<rparr>) b"
    using D(2) [OF run] m(3) keep unfolding key_ok_def by simp
  moreover have "hash_token sha (plain_token s) = token_hash b" using D(3) [OF run] keep by (simp add: accepted_def)
  ultimately have "id_ok sha (y\<lparr>running := Some s', idisk := d, known := known y, managed := m'\<rparr>)"
    using s' persist_cases [OF p] m by (intro id_ok_commit [OF ok run]) auto
  then show ?thesis by simp
qed

lemma id_ok_keep:
  assumes "id_ok sha y" "running y = Some s" "persist_identity w b (idisk y) = (r, d)" "accepted b = accepted (identity s)"
    and "manage_token_hash b = None \<or> manage_token_hash b = manage_token_hash (identity s)"
    and "s' = s \<or> s' = s\<lparr>identity := b\<rparr>"
  shows "id_ok sha (y\<lparr>running := Some s', idisk := d\<rparr>)"
proof -
  have "id_ok sha (y\<lparr>running := Some s', idisk := d, managed := managed y\<rparr>)"
    using assms(5) id_okD(2,5) [OF assms(1)] assms(2)
    by (intro id_ok_write [OF assms(1-4) _ _ _ assms(6)]) (auto simp: key_ok_def)
  then show ?thesis by simp
qed

lemma id_ok_idle:
  assumes "id_ok sha y" and "running y = Some s" and "set (managed y) \<subseteq> set m'" and "set (known y) \<inter> set m' = {}"
  shows "id_ok sha (y\<lparr>running := Some s, idisk := idisk y, managed := m'\<rparr>)"
proof -
  have "key_ok (y\<lparr>known := known y, managed := m'\<rparr>) (identity s)"
    using key_ok_mono [OF id_okD(2) [OF assms(1,2)]] assms(3) by simp
  from id_ok_commit [OF assms(1,2) _ assms(3,4) this, of s "idisk y"] show ?thesis by simp
qed

lemma verify_cases:
  assumes "verify sha w g1 wall now token s d = (r, s', d')"
  obtains "s' = s" "d' = d"
  | b where "s' = s\<lparr>identity := b\<rparr>" "d' = snd (persist_identity w b d)" "accepted b = accepted (identity s)"
      "manage_token_hash b = manage_token_hash (identity s)" "alias_expires_at b = alias_expires_at (identity s)"
proof (cases "classify_token g1 wall (identity s) (hash_token sha token)")
  case (Inl e)
  with assms that(1) show ?thesis by (simp add: verify_def)
next
  case (Inr x)
  obtain al used where x: "x = (al, used)" by (cases x)
  let ?h = "hash_token sha token" and ?b = "identity s"
  let ?c = "if al then ?b\<lparr>alias_last_used := AList.update ?h now (alias_last_used ?b)\<rparr> else ?b\<lparr>last_used := now\<rparr>"
  have "s' = s \<and> d' = d \<or> s' = s\<lparr>identity := ?c\<rparr> \<and> d' = snd (persist_identity w ?c d)"
    using assms Inr x by (simp add: verify_def Let_def split: if_splits)
  with that show ?thesis by (auto simp: accepted_def)
qed

lemma open_cases:
  assumes "open_identity sha legacy keep w1 w2 i buf now minted used d = (r, d')"
  obtains (refused) "is_err r" "d' = d"
  | (intact) b t where "identity_file d = Ok (Some b)" "r = Ok \<lparr>identity = b, plain_token = t, ttl = keep\<rparr>"
      "hash_token sha t = token_hash b" "d' = d"
  | (minted) c p where "persist_and_write_file w1 w2 c (mint_token buf) d = (p, d')" "is_err r = is_err p"
      "\<not> is_err p \<Longrightarrow> r = Ok \<lparr>identity = c, plain_token = mint_token buf, ttl = keep\<rparr>"
      "identity_file d = Ok None \<and> (\<exists>as. c = first_identity sha keep i (mint_token buf) now minted used as \<and>
          la_token_hash ` set as \<subseteq> set (legacy_hashes d)) \<or>
       (\<exists>b. identity_file d = Ok (Some b) \<and> c = recovered_identity sha keep (mint_token buf) now minted used b)"
proof -
  let ?t = "mint_token buf"
  let ?est = "\<lambda>b. case persist_and_write_file w1 w2 b ?t d of
      (Inl e, d) \<Rightarrow> (Err e, d) | (Inr _, d) \<Rightarrow> (Ok \<lparr>identity = b, plain_token = ?t, ttl = keep\<rparr>, d)"
  let ?src = "\<lambda>c. identity_file d = Ok None \<and> (\<exists>as. c = first_identity sha keep i ?t now minted used as \<and>
          la_token_hash ` set as \<subseteq> set (legacy_hashes d)) \<or>
       (\<exists>b. identity_file d = Ok (Some b) \<and> c = recovered_identity sha keep ?t now minted used b)"
  have est: thesis if "?est c = (r, d')" and src: "?src c" for c
  proof -
    obtain p d1 where p: "persist_and_write_file w1 w2 c ?t d = (p, d1)" by fastforce
    have "d1 = d'" "is_err r = is_err p" "\<not> is_err p \<longrightarrow> r = Ok \<lparr>identity = c, plain_token = ?t, ttl = keep\<rparr>"
      using that(1) p by (auto split: sum.splits)
    with p src minted show ?thesis by blast
  qed
  consider e where "identity_file d = Inl e" | "identity_file d = Ok None" | b where "identity_file d = Ok (Some b)"
    by (metis sum.exhaust option.exhaust)
  then show ?thesis
  proof cases
    case 1
    with assms refused show ?thesis by (auto simp: open_identity_def Let_def)
  next
    case 2
    show ?thesis
    proof (cases "legacy \<and> (\<exists>e. legacy_agents d = Inl e)")
      case True
      with 2 assms refused show ?thesis by (auto simp: open_identity_def Let_def)
    next
      case False
      define as where "as = (if legacy then case legacy_agents d of Inr (Some as) \<Rightarrow> as | _ \<Rightarrow> [] else [])"
      have e: "?est (first_identity sha keep i ?t now minted used as) = (r, d')"
        using 2 False assms by (auto simp: open_identity_def Let_def as_def split: sum.splits option.splits cong: prod.case_cong sum.case_cong)
      have "la_token_hash ` set as \<subseteq> set (legacy_hashes d)"
      proof (cases "as = []")
        case False
        then obtain xs where "legacy_agents d = Ok (Some xs)" "as = xs"
          by (auto simp: as_def split: if_splits sum.splits option.splits)
        then show ?thesis by (simp add: legacy_hashes_def)
      qed simp
      with 2 have "?src (first_identity sha keep i ?t now minted used as)" by blast
      with e show ?thesis by (rule est)
    qed
  next
    case (3 b)
    show ?thesis
    proof (cases "\<exists>t. token_on_disk d = Some t \<and> hash_token sha t = token_hash b")
      case True
      with 3 assms intact show ?thesis by (auto simp: open_identity_def Let_def)
    next
      case False
      then have e: "?est (recovered_identity sha keep ?t now minted used b) = (r, d')"
        using 3 assms by (auto simp: open_identity_def Let_def split: option.splits)
      from 3 have "?src (recovered_identity sha keep ?t now minted used b)" by blast
      with e show ?thesis by (rule est)
    qed
  qed
qed

lemma id_step_ok: "id_ok sha y \<Longrightarrow> id_step sha y y' \<Longrightarrow> id_ok sha y'"
proof -
  assume ok: "id_ok sha y"
  note D = id_okD [OF ok]
  assume "id_step sha y y'"
  then show ?thesis
  proof cases
    case is_stop
    then show ?thesis using ok unfolding id_ok_def key_ok_def by auto
  next
    case (is_file x)
    then show ?thesis using ok unfolding id_ok_def key_ok_def by (auto simp: legacy_hashes_def)
  next
    case (is_touch s w wall s' d)
    let ?b = "(identity s)\<lparr>last_used := wall\<rparr>"
    obtain r where p: "persist_identity w ?b (idisk y) = (r, d)" using is_touch(3) by (cases "persist_identity w ?b (idisk y)") (auto simp: touch_def)
    have "s' = s\<lparr>identity := ?b\<rparr>" using is_touch(3) by (simp add: touch_def Let_def)
    with id_ok_keep [OF ok is_touch(2) p, of s'] is_touch(1) show ?thesis by (simp add: accepted_def)
  next
    case (is_verify s w g1 wall now token rt s' d)
    from verify_cases [OF is_verify(3)] show ?thesis
    proof cases
      case 1
      with id_ok_idle [OF ok is_verify(2), of "managed y"] D(5) is_verify(1) show ?thesis by simp
    next
      case (2 b)
      have p: "persist_identity w b (idisk y) = (fst (persist_identity w b (idisk y)), d)" using 2(2) by simp
      from id_ok_keep [OF ok is_verify(2) p 2(3), of s'] 2(1,4) is_verify(1) show ?thesis by simp
    qed
  next
    case (is_issue s buf w wall k rk s' d)
    let ?b = "with_manage_token sha (mint_manage_token buf) k wall (identity s)"
    let ?m = "hash_token sha (mint_manage_token buf) # managed y"
    obtain r where p: "persist_identity w ?b (idisk y) = (r, d)" "s' = s \<or> s' = s\<lparr>identity := ?b\<rparr>"
      using is_issue(4) by (auto simp: issue_manage_token_with_ttl_def Let_def split: prod.splits sum.splits)
    from id_ok_write [OF ok is_issue(2) p(1), of ?m s'] p(2) is_issue(1,3) D(5)
    show ?thesis by (simp add: accepted_of subset_insertI)
  next
    case (is_rotate_manage s buf w guarded wall current k rm s' d)
    let ?b = "with_manage_token sha (mint_manage_token buf) k wall (identity s)"
    let ?m = "hash_token sha (mint_manage_token buf) # managed y"
    consider "s' = s" "d = idisk y" | r where "persist_identity w ?b (idisk y) = (r, d)" "s' = s \<or> s' = s\<lparr>identity := ?b\<rparr>"
      using is_rotate_manage(4) by (auto simp: rotate_manage_token_with_ttl_def Let_def split: prod.splits sum.splits)
    then show ?thesis
    proof cases
      case 1
      with id_ok_idle [OF ok is_rotate_manage(2), of ?m] D(5) is_rotate_manage(1,3) show ?thesis by auto
    next
      case (2 r)
      from id_ok_write [OF ok is_rotate_manage(2) 2(1), of ?m s'] 2(2) is_rotate_manage(1,3) D(5)
      show ?thesis by (simp add: accepted_of subset_insertI)
    qed
  next
    case (is_revoke s w rb s' d)
    let ?b = "without_manage_token (identity s)"
    consider "s' = s" "d = idisk y" | r where "persist_identity w ?b (idisk y) = (r, d)" "s' = s \<or> s' = s\<lparr>identity := ?b\<rparr>"
      using is_revoke(3) by (auto simp: revoke_manage_token_def Let_def split: prod.splits sum.splits if_splits)
    then show ?thesis
    proof cases
      case 1
      with id_ok_idle [OF ok is_revoke(2), of "managed y"] D(5) is_revoke(1) show ?thesis by simp
    next
      case (2 r)
      from id_ok_keep [OF ok is_revoke(2) 2(1), of s'] 2(2) is_revoke(1) show ?thesis by (simp add: accepted_of)
    qed
  next
    case (is_revoke_with s w guarded current ru s' d)
    let ?b = "without_manage_token (identity s)"
    consider "s' = s" "d = idisk y" | r where "persist_identity w ?b (idisk y) = (r, d)" "s' = s \<or> s' = s\<lparr>identity := ?b\<rparr>"
      using is_revoke_with(3) by (auto simp: revoke_manage_token_with_token_def Let_def split: prod.splits sum.splits)
    then show ?thesis
    proof cases
      case 1
      with id_ok_idle [OF ok is_revoke_with(2), of "managed y"] D(5) is_revoke_with(1) show ?thesis by simp
    next
      case (2 r)
      from id_ok_keep [OF ok is_revoke_with(2) 2(1), of s'] 2(2) is_revoke_with(1) show ?thesis by (simp add: accepted_of)
    qed
  next
    case (is_rotate s buf w1 w2 now rk s' d)
    let ?t = "mint_token buf"
    let ?b = "rotated_identity sha ?t now (identity s)" and ?k = "hash_token sha ?t # known y"
    obtain r where p: "persist_and_write_file w1 w2 ?b ?t (idisk y) = (r, d)"
      and r: "is_err r = is_err rk" "s' = (if is_err r then s else s\<lparr>identity := ?b, plain_token := ?t\<rparr>)"
      using is_rotate(4) by (auto simp: rotate_def Let_def split: prod.splits sum.splits)
    note pc = persist_both_cases [OF p]
    have fresh: "hash_token sha ?t \<notin> set (retired y)" using is_rotate(3) D(4) by auto
    have b: "key_ok (y\<lparr>known := ?k\<rparr>) ?b"
      using fresh D(2) [OF is_rotate(2)] by (simp add: key_ok_def accepted_of)
    show ?thesis
    proof (cases "is_err rk")
      case True
      have "id_ok sha (y\<lparr>running := Some s, idisk := d, known := ?k, managed := managed y\<rparr>)"
        using pc(1,2) b is_rotate(3) D(5) by (intro id_ok_commit [OF ok is_rotate(2)]) auto
      with is_rotate(1) True r show ?thesis by simp
    next
      case False
      then have f: "identity_file d = Ok (Some ?b)" using pc(1) r(1) by simp
      let ?y = "y\<lparr>running := Some s', idisk := d, known := ?k, retired := accepted (identity s) @ retired y\<rparr>"
      have s': "identity s' = ?b" "plain_token s' = ?t" using r False by simp_all
      have "hash_token sha ?t \<notin> set (accepted (identity s))" using D(2) [OF is_rotate(2)] is_rotate(3) by (auto simp: key_ok_def)
      with b have ky: "key_ok ?y ?b" by (auto simp: key_ok_def accepted_of)
      have "set (retired ?y) \<subseteq> set (known ?y)" "set (known ?y) \<inter> set (managed ?y) = {}"
        "set (legacy_hashes (idisk ?y)) \<subseteq> set (known ?y)"
        using D(2) [OF is_rotate(2)] D(4-6) is_rotate(3) legacy_hashes_cong [OF pc(2)] by (auto simp: key_ok_def)
      with ky f s' have "id_ok sha ?y" unfolding id_ok_def by (simp add: hash_of)
      with is_rotate(1) False show ?thesis by simp
    qed
  next
    case (is_open buf legacy keep w1 w2 i now minted used r d)
    let ?h = "hash_token sha (mint_token buf)"
    have fresh: "?h \<notin> set (retired y)" "?h \<notin> set (managed y)" using is_open(2) D(4) by auto
    have mono: "key_ok y b \<Longrightarrow> key_ok y' b" for b by (erule key_ok_mono) (use is_open(1) in auto)
    have rest: "set (retired y') \<subseteq> set (known y')" "set (known y') \<inter> set (managed y') = {}"
        "legacy_agents d = legacy_agents (idisk y) \<Longrightarrow> set (legacy_hashes (idisk y')) \<subseteq> set (known y')"
      using is_open(1) D(4-6) fresh legacy_hashes_cong [of d "idisk y"] by auto
    from is_open(3) show ?thesis
    proof (cases rule: open_cases)
      case refused
      with is_open(1) rest D(1,7) mono show ?thesis unfolding id_ok_def by (auto split: sum.splits)
    next
      case (intact b t)
      with is_open(1) rest D(1) mono show ?thesis unfolding id_ok_def by auto
    next
      case (minted c p)
      note pc = persist_both_cases [OF minted(1)]
      consider (first) as where "identity_file (idisk y) = Ok None" "c = first_identity sha keep i (mint_token buf) now minted used as"
          "la_token_hash ` set as \<subseteq> set (legacy_hashes (idisk y))"
        | (again) b where "identity_file (idisk y) = Ok (Some b)" "c = recovered_identity sha keep (mint_token buf) now minted used b"
        using minted(4) by blast
      then have "set (accepted c) \<subseteq> insert ?h (set (known y)) \<and> set (accepted c) \<inter> set (retired y) = {} \<and>
          (\<forall>h. manage_token_hash c = Some h \<longrightarrow> h \<in> set (managed y)) \<and> token_hash c = ?h"
      proof cases
        case first
        have "retired y = []" using D(7) first(1) by fastforce
        moreover have "set (accepted c) \<subseteq> insert ?h (la_token_hash ` set as)" unfolding first(2) by (rule accepted_first)
        ultimately show ?thesis using first(3) D(6) by (auto simp: first(2) accepted_of(5) hash_of)
      next
        case (again b)
        have "set (accepted c) \<subseteq> insert ?h (set (accepted b))" unfolding again(2) by (rule accepted_of(1))
        then show ?thesis using D(1) [OF again(1)] fresh(1) by (auto simp: again(2) accepted_of(2) hash_of key_ok_def)
      qed
      then have tc: "token_hash c = ?h" and c: "key_ok y' c" using is_open(1) by (auto simp: key_ok_def)
      show ?thesis
      proof (cases "is_err p")
        case True
        then have "running y' = None" using is_open(1) minted(2) by (auto split: sum.splits)
        with pc(1,2) c rest D(1,7) mono is_open(1) show ?thesis unfolding id_ok_def by auto
      next
        case False
        then have "identity_file d = Ok (Some c)" "running y' = Some \<lparr>identity = c, plain_token = mint_token buf, ttl = keep\<rparr>"
          using pc(1) minted(3) is_open(1) by auto
        with c rest pc(2) tc is_open(1) show ?thesis unfolding id_ok_def by auto
      qed
    qed
  qed
qed

interpretation identity_life: invariant_system "id_step sha" "id_ok sha" for sha
  by unfold_locales (rule id_step_ok)

lemma id_start_ok: "id_ok sha (id_start d)"
  by (simp add: id_ok_def id_start_def legacy_hashes_def)

lemmas reachable_identity = identity_life.reaches_inv [OF _ id_start_ok]

text \<open>What a presented key is accepted as.\<close>

lemma classify_accepted: "classify_token g1 wall b h = Ok x \<Longrightarrow> h \<in> set (accepted b)"
  by (auto simp: classify_token_def accepted_def split: if_splits)

lemma verify_accepted:
  "fst (verify sha w g1 wall now token s d) = Ok v \<Longrightarrow> hash_token sha token \<in> set (accepted (identity s))"
  by (auto simp: verify_def Let_def split: sum.splits prod.splits dest: classify_accepted)

lemma verify_unaccepted:
  assumes "hash_token sha token \<notin> set (accepted (identity s))"
  shows "verify sha w g1 wall now token s d \<in> {(Err TSuperseded, s, d), (Err TInvalid, s, d)}"
proof -
  have "classify_token g1 wall (identity s) (hash_token sha token) \<in> {Err TSuperseded, Err TInvalid}"
    using assms by (auto simp: classify_token_def accepted_def)
  then show ?thesis by (auto simp: verify_def Let_def)
qed

text \<open>
  C35. Rotation is final: in every history of starts and stops, lost or replaced token files, failed writes,
  key refreshes, recoveries and further rotations, a key (or alias) that was accepted before a successful
  rotation is never accepted again; it is answered as superseded or invalid and changes nothing.
\<close>

theorem withdrawn_key_stays_dead:
  assumes "reaches (id_step sha) (id_start d0) y" and "running y = Some s" and "hash_token sha token \<in> set (retired y)"
  shows "verify sha w g1 wall now token s d \<in> {(Err TSuperseded, s, d), (Err TInvalid, s, d)}"
proof (rule verify_unaccepted)
  have "key_ok y (identity s)" by (rule id_okD(2) [OF reachable_identity [OF assms(1)] assms(2)])
  with assms(3) show "hash_token sha token \<notin> set (accepted (identity s))" by (auto simp: key_ok_def)
qed

text \<open>A history: first start, then a rotation.\<close>

definition blank_disk :: identity_disk where
  "blank_disk = \<lparr>identity_file = Ok None, legacy_agents = Ok None, token_file = None\<rparr>"

definition sample_sha :: "ustring \<Rightarrow> bytes" where
  "sample_sha t = map of_nat (drop 4 t)"

definition first_store :: identity_store where
  "first_store = \<lparr>identity = first_identity sample_sha (secs 100) 7 (mint_token [1]) 0 0 0 [], plain_token = mint_token [1],
     ttl = secs 100\<rparr>"

definition first_system :: id_system where
  "first_system = \<lparr>running = Some first_store,
     idisk = blank_disk\<lparr>identity_file := Ok (Some (identity first_store)), token_file := Some (mint_token [1])\<rparr>,
     known = [hash_token sample_sha (mint_token [1])], managed = [], retired = []\<rparr>"

lemma first_reached: "reaches (id_step sample_sha) (id_start blank_disk) first_system"
proof -
  have "open_identity sample_sha False (secs 100) None None 7 [1] 0 0 0 (idisk (id_start blank_disk)) =
      (Ok first_store, idisk first_system)"
    by (simp add: open_identity_def id_start_def blank_disk_def first_store_def first_system_def persist_and_write_file_def
        persist_identity_def Let_def)
  from is_open [OF _ this] have "id_step sample_sha (id_start blank_disk) first_system"
    by (simp add: id_start_def blank_disk_def first_system_def legacy_hashes_def)
  then show ?thesis by (meson reaches_refl reaches_step)
qed

definition rotated_store :: identity_store where
  "rotated_store = first_store\<lparr>identity := rotated_identity sample_sha (mint_token [2]) 5 (identity first_store),
     plain_token := mint_token [2]\<rparr>"

definition rotated_system :: id_system where
  "rotated_system = first_system\<lparr>running := Some rotated_store,
     idisk := (idisk first_system)\<lparr>identity_file := Ok (Some (identity rotated_store)), token_file := Some (mint_token [2])\<rparr>,
     known := hash_token sample_sha (mint_token [2]) # known first_system,
     retired := accepted (identity first_store)\<rparr>"

lemma sample_hashes: "hash_token sample_sha (mint_token [2]) \<noteq> hash_token sample_sha (mint_token [1])"
  by (simp add: hash_token_def sample_sha_def mint_token_def hex_text_def encode_hex_def hex_nibble_def ascii_def)

lemma rotated_reached: "reaches (id_step sample_sha) (id_start blank_disk) rotated_system"
proof -
  have "rotate sample_sha None None [2] 5 first_store (idisk first_system) = (Ok (mint_token [2]), rotated_store, idisk rotated_system)"
    by (simp add: rotate_def persist_and_write_file_def persist_identity_def rotated_system_def rotated_store_def Let_def)
  from is_rotate [OF _ _ this] have "id_step sample_sha first_system rotated_system"
    using sample_hashes by (simp add: first_system_def rotated_system_def)
  with first_reached show ?thesis by (rule reaches_step)
qed

theorem withdrawn_key_stays_dead_witness:
  "\<exists>y s. reaches (id_step sample_sha) (id_start blank_disk) y \<and> running y = Some s \<and>
     hash_token sample_sha (mint_token [1]) \<in> set (retired y) \<and>
     fst (verify sample_sha None 9 9 9 (mint_token [1]) s blank_disk) \<in> {Err TSuperseded, Err TInvalid}"
proof -
  have r: "running rotated_system = Some rotated_store" "hash_token sample_sha (mint_token [1]) \<in> set (retired rotated_system)"
    by (simp_all add: rotated_system_def accepted_def first_store_def hash_of)
  from withdrawn_key_stays_dead [OF rotated_reached r, of None 9 9 9 blank_disk] rotated_reached r show ?thesis by auto
qed

text \<open>
  The two planes never meet: whatever happened before, a management token is not accepted as an agent
  key, the management plane accepts only a token with its own prefix that was issued on it, and no agent
  key is accepted there, whatever is stored.
\<close>

theorem token_planes_separate:
  assumes "reaches (id_step sha) (id_start d0) y" and "running y = Some s"
  shows "(hash_token sha token \<in> set (managed y) \<longrightarrow> is_err (fst (verify sha w g1 wall now token s d))) \<and>
    (verify_manage sha g token s = Ok () \<longrightarrow> starts_with MANAGE_TOKEN_PREFIX token \<and> hash_token sha token \<in> set (managed y)) \<and>
    verify_manage sha g (mint_token buf) s = Err TInvalid"
proof -
  note D = id_okD [OF reachable_identity [OF assms(1)]]
  have k: "key_ok y (identity s)" by (rule D(2) [OF assms(2)])
  have "is_err (fst (verify sha w g1 wall now token s d))" if "hash_token sha token \<in> set (managed y)"
  proof (cases "fst (verify sha w g1 wall now token s d)")
    case (Inr v)
    from verify_accepted [OF this] that k D(5) show ?thesis by (auto simp: key_ok_def)
  qed simp
  moreover have "starts_with MANAGE_TOKEN_PREFIX token \<and> hash_token sha token \<in> set (managed y)"
    if "verify_manage sha g token s = Ok ()"
    using that k by (auto simp: verify_manage_def verify_manage_identity_def key_ok_def split: if_splits option.splits)
  moreover have "verify_manage sha g (mint_token buf) s = Err TInvalid"
    by (simp add: verify_manage_def verify_manage_identity_def starts_with_def MANAGE_TOKEN_PREFIX_def mint_token_def)
  ultimately show ?thesis by blast
qed

definition managed_store :: identity_store where
  "managed_store = first_store\<lparr>identity := with_manage_token sample_sha (mint_manage_token [3]) None 5 (identity first_store)\<rparr>"

definition managed_system :: id_system where
  "managed_system = first_system\<lparr>running := Some managed_store,
     idisk := (idisk first_system)\<lparr>identity_file := Ok (Some (identity managed_store))\<rparr>,
     managed := [hash_token sample_sha (mint_manage_token [3])]\<rparr>"

lemma managed_reached: "reaches (id_step sample_sha) (id_start blank_disk) managed_system"
proof -
  have "issue_manage_token_with_ttl sample_sha None [3] 5 None first_store (idisk first_system) =
      (Ok (mint_manage_token [3]), managed_store, idisk managed_system)"
    by (simp add: issue_manage_token_with_ttl_def persist_identity_def managed_system_def managed_store_def Let_def)
  moreover have "hash_token sample_sha (mint_manage_token [3]) \<noteq> hash_token sample_sha (mint_token [1])"
    by (simp add: hash_token_def sample_sha_def mint_token_def mint_manage_token_def MANAGE_TOKEN_PREFIX_def hex_text_def
        encode_hex_def hex_nibble_def ascii_def)
  ultimately have "id_step sample_sha first_system managed_system"
    using is_issue [of first_system first_store sample_sha "[3]" None 5 None] by (simp add: first_system_def managed_system_def)
  with first_reached show ?thesis by (rule reaches_step)
qed

theorem token_planes_separate_witness:
  "\<exists>y s. reaches (id_step sample_sha) (id_start blank_disk) y \<and> running y = Some s \<and>
     verify_manage sample_sha 9 (mint_manage_token [3]) s = Ok () \<and>
     is_err (fst (verify sample_sha None 9 9 9 (mint_manage_token [3]) s blank_disk))"
proof -
  have r: "running managed_system = Some managed_store"
    and v: "verify_manage sample_sha 9 (mint_manage_token [3]) managed_store = Ok ()"
    by (simp_all add: managed_system_def verify_manage_def verify_manage_identity_def managed_store_def with_manage_token_def
        starts_with_def mint_manage_token_def)
  from token_planes_separate [OF managed_reached r, of "mint_manage_token [3]" None 9 9 9 blank_disk 9 "[]"] v managed_reached r
  show ?thesis by auto
qed

subsection \<open>Rotation and recovery\<close>

lemma as_secs_week: "as_secs_i64 SUPERSEDED_TOKEN_TTL = 604800"
  by (simp add: as_secs_i64_def SUPERSEDED_TOKEN_TTL_def secs_def)

lemma hex_text_chars: "c \<in> set (hex_text bs) \<Longrightarrow> \<not> is_whitespace c"
proof -
  have n: "\<not> is_whitespace (unat (hex_nibble n))" if "unat n < 16" for n
  proof -
    have "n \<in> set (map of_nat [0..<16])" using word8_cases16 [OF that] by simp
    moreover have "\<forall>n\<in>set (map of_nat [0..<16]). \<not> is_whitespace (unat (hex_nibble n))"
      by (simp add: upt_rec hex_nibble_def is_whitespace_def)
    ultimately show ?thesis by auto
  qed
  assume "c \<in> set (hex_text bs)"
  then show ?thesis using n nibble_bounds by (auto simp: hex_text_def encode_hex_def)
qed

lemma trim_minted: "trim (mint_token buf) = mint_token buf" "mint_token buf \<noteq> []"
proof -
  have "\<not> is_whitespace (last (mint_token buf))"
  proof (cases "hex_text buf = []")
    case True
    then show ?thesis by (simp add: mint_token_def is_whitespace_def)
  next
    case False
    then show ?thesis using hex_text_chars [OF last_in_set [OF False]] by (simp add: mint_token_def)
  qed
  then show "trim (mint_token buf) = mint_token buf" by (intro trim_id) (simp_all add: mint_token_def is_whitespace_def)
qed (simp add: mint_token_def)

lemma supersede_keeps: "\<lparr>sth_token_hash = h, superseded_at = now\<rparr> \<in> set (supersede now h xs)" "length (supersede now h xs) \<le> 8"
proof -
  have "e \<in> set (drop n (ys @ [e]))" if "n \<le> length ys" for n ys and e :: superseded_token_hash using that by simp
  from this [of "length ys + 1 - 8" ys for ys]
  show "\<lparr>sth_token_hash = h, superseded_at = now\<rparr> \<in> set (supersede now h xs)"
    by (simp add: supersede_def Let_def MAX_SUPERSEDED_TOKEN_HASHES_def)
qed (simp add: supersede_def Let_def MAX_SUPERSEDED_TOKEN_HASHES_def)

lemma rotate_Ok:
  assumes "rotate sha w1 w2 buf now s d = (Ok t, s', d')"
  shows "t = mint_token buf" "s' = s\<lparr>identity := rotated_identity sha t now (identity s), plain_token := t\<rparr>"
    "identity_file d' = Ok (Some (identity s'))" "token_file d' = Some t"
proof -
  obtain p where p: "persist_and_write_file w1 w2 (rotated_identity sha (mint_token buf) now (identity s)) (mint_token buf) d = (p, d')"
      "\<not> is_err p"
    and s': "t = mint_token buf" "s' = s\<lparr>identity := rotated_identity sha t now (identity s), plain_token := t\<rparr>"
    using assms by (auto simp: rotate_def Let_def split: prod.splits sum.splits)
  from s' show "t = mint_token buf" "s' = s\<lparr>identity := rotated_identity sha t now (identity s), plain_token := t\<rparr>" .
  from persist_both_cases [OF p(1)] p(2) s' show "identity_file d' = Ok (Some (identity s'))" "token_file d' = Some t" by auto
qed

text \<open>
  Rotation takes over at once and for good: the new key is accepted under the same client id until it
  has been idle for the TTL, the old key is answered \<open>token_superseded\<close> for seven days, the history of old
  hashes stays within eight, the management token is untouched, and a restart finds the new key and
  changes no file.
\<close>

theorem rotation_takes_over:
  assumes "rotate sha w1 w2 buf now s d = (Ok t, s', d')" and "hash_token sha old = token_hash (identity s)"
    and "hash_token sha t \<noteq> token_hash (identity s)"
  shows "(num_seconds (now' - now) \<le> as_secs_i64 (ttl s) \<longrightarrow>
      fst (verify sha w g1 wall now' t s' d') = Ok \<lparr>vt_client_id = bi_id (identity s), via_alias = False\<rparr>) \<and>
    (num_seconds (wall - now) \<le> 7 * 86400 \<longrightarrow> verify sha w g1 wall now' old s' d' = (Err TSuperseded, s', d')) \<and>
    length (superseded_token_hashes (identity s')) \<le> 8 \<and>
    manage_token_hash (identity s') = manage_token_hash (identity s) \<and>
    manage_token_expires_at (identity s') = manage_token_expires_at (identity s) \<and>
    open_identity sha legacy keep x1 x2 i buf' a b c d' = (Ok \<lparr>identity = identity s', plain_token = t, ttl = keep\<rparr>, d')"
proof -
  note r = rotate_Ok [OF assms(1)]
  let ?b = "rotated_identity sha t now (identity s)"
  have b: "token_hash ?b = hash_token sha t" "alias_hashes ?b = []" "last_used ?b = now" "bi_id ?b = bi_id (identity s)"
      "superseded_token_hashes ?b = supersede now (token_hash (identity s)) (superseded_token_hashes (identity s))"
    by (simp_all add: rotated_identity_def)
  have i: "identity s' = ?b" "ttl s' = ttl s" using r(2) by simp_all
  have "classify_token g1 wall ?b (hash_token sha t) = Ok (False, now)" by (simp add: classify_token_def b)
  then have "num_seconds (now' - now) \<le> as_secs_i64 (ttl s) \<longrightarrow>
      fst (verify sha w g1 wall now' t s' d') = Ok \<lparr>vt_client_id = bi_id (identity s), via_alias = False\<rparr>"
    by (auto simp: verify_def i b Let_def)
  moreover have "verify sha w g1 wall now' old s' d' = (Err TSuperseded, s', d')" if "num_seconds (wall - now) \<le> 7 * 86400"
  proof -
    have "list_ex (\<lambda>e. sth_token_hash e = token_hash (identity s) \<and> num_seconds (wall - superseded_at e) \<le> 604800)
        (superseded_token_hashes ?b)"
      unfolding b list_ex_iff using that by (intro bexI [OF _ supersede_keeps(1)]) simp
    then have "classify_token g1 wall ?b (hash_token sha old) = Err TSuperseded"
      using assms(2,3) b(1,2) by (simp add: classify_token_def as_secs_week)
    then show ?thesis by (simp add: verify_def i)
  qed
  moreover have "open_identity sha legacy keep x1 x2 i buf' a b c d' = (Ok \<lparr>identity = identity s', plain_token = t, ttl = keep\<rparr>, d')" for a b c
    using r(3,4) trim_minted [of buf] i(1) b(1) by (simp add: open_identity_def token_on_disk_def r(1) [symmetric] Let_def)
  ultimately show ?thesis using supersede_keeps(2) by (simp add: i b(5)) (simp add: rotated_identity_def)
qed

theorem rotation_takes_over_witness:
  "fst (verify sample_sha None 6 6 6 (mint_token [2]) rotated_store (idisk rotated_system)) = Ok \<lparr>vt_client_id = 7, via_alias = False\<rparr> \<and>
   fst (verify sample_sha None 6 6 6 (mint_token [1]) rotated_store (idisk rotated_system)) = Err TSuperseded"
proof -
  have r: "rotate sample_sha None None [2] 5 first_store (idisk first_system) = (Ok (mint_token [2]), rotated_store, idisk rotated_system)"
    by (simp add: rotate_def persist_and_write_file_def persist_identity_def rotated_system_def rotated_store_def Let_def)
  have h: "hash_token sample_sha (mint_token [1]) = token_hash (identity first_store)"
    "bi_id (identity first_store) = 7" "ttl first_store = secs 100"
    by (simp_all add: first_store_def hash_of first_identity_def)
  have "num_seconds (6 - 5) \<le> as_secs_i64 (ttl first_store)" "num_seconds (6 - 5) \<le> 7 * 86400"
    by (simp_all add: h num_seconds_def as_secs_i64_def secs_def)
  then show ?thesis
    using rotation_takes_over [OF r h(1), of 6 None 6 6 False 0 None None 0 "[]" 0 0 0] sample_hashes h by simp
qed

text \<open>A recovered key keeps the deadline it got, in memory and on disk, through everything that can happen later.\<close>

definition lapses :: "ustring \<Rightarrow> datetime \<Rightarrow> broker_identity \<Rightarrow> bool" where
  "lapses h x b \<longleftrightarrow> (h \<in> set (accepted b) \<longrightarrow> token_hash b \<noteq> h \<and> map_of (alias_expires_at b) h = Some x)"

definition deadline_ok :: "ustring \<Rightarrow> datetime \<Rightarrow> id_system \<Rightarrow> bool" where
  "deadline_ok h x y \<longleftrightarrow> h \<in> set (known y) \<and>
     (\<exists>b. identity_file (idisk y) = Ok (Some b) \<and> lapses h x b) \<and>
     (\<forall>s. running y = Some s \<longrightarrow> lapses h x (identity s))"

lemma lapses_of:
  "hash_token sha t \<noteq> h \<Longrightarrow> lapses h x b \<Longrightarrow> lapses h x (recovered_identity sha keep t now minted used b)"
  "hash_token sha t \<noteq> h \<Longrightarrow> lapses h x (rotated_identity sha t now b)"
  "lapses h x (with_manage_token sha t k wall b) = lapses h x b" "lapses h x (without_manage_token b) = lapses h x b"
  "lapses h x (b\<lparr>last_used := u\<rparr>) = lapses h x b" "lapses h x (b\<lparr>alias_last_used := m\<rparr>) = lapses h x b"
  by (auto simp: lapses_def accepted_def recovered_identity_def rotated_identity_def with_manage_token_def
      without_manage_token_def Let_def map_of_update_eq)

lemma deadline_write:
  assumes "deadline_ok h x y" and "running y = Some s" and "lapses h x b" and "h \<in> set k'"
    and "s' = s \<or> identity s' = b"
    and "identity_file d = Ok (Some b) \<or> identity_file d = identity_file (idisk y)"
  shows "deadline_ok h x (y\<lparr>running := Some s', idisk := d, known := k', managed := m', retired := r'\<rparr>)"
  using assms unfolding deadline_ok_def by auto

lemma deadline_step:
  assumes ok: "deadline_ok h x y" and "id_step sha y y'"
  shows "deadline_ok h x y'"
proof -
  have hk: "h \<in> set (known y)" using ok by (simp add: deadline_ok_def)
  have mem: "lapses h x (identity s)" if "running y = Some s" for s using ok that by (simp add: deadline_ok_def)
  from assms(2) show ?thesis
  proof cases
    case is_stop
    with ok show ?thesis by (simp add: deadline_ok_def)
  next
    case (is_file x)
    with ok show ?thesis by (simp add: deadline_ok_def)
  next
    case (is_touch s w wall s' d)
    let ?b = "(identity s)\<lparr>last_used := wall\<rparr>"
    have "lapses h x ?b" "identity s' = ?b" "identity_file d = Ok (Some ?b) \<or> identity_file d = identity_file (idisk y)"
      using is_touch(3) mem [OF is_touch(2)] persist_cases(1) [of w ?b "idisk y"]
      by (auto simp: touch_def Let_def lapses_of persist_identity_def split: option.splits)
    with deadline_write [OF ok is_touch(2) _ hk, of ?b s' d "retired y" "managed y"] is_touch(1) show ?thesis by simp
  next
    case (is_verify s w g1 wall now token rt s' d)
    from verify_cases [OF is_verify(3)] show ?thesis
    proof cases
      case 1
      with deadline_write [OF ok is_verify(2) mem hk, of s s d "retired y" "managed y"] is_verify(1,2) show ?thesis by simp
    next
      case (2 b)
      have "lapses h x b" using mem [OF is_verify(2)] 2(3,5) by (simp add: lapses_def accepted_def)
      with 2(1,2) deadline_write [OF ok is_verify(2) _ hk, of b s' d "retired y" "managed y"] is_verify(1)
      show ?thesis by (simp add: persist_identity_def split: option.splits)
    qed
  next
    case (is_rotate s buf w1 w2 now rk s' d)
    let ?b = "rotated_identity sha (mint_token buf) now (identity s)"
    obtain p where p: "persist_and_write_file w1 w2 ?b (mint_token buf) (idisk y) = (p, d)" "s' = s \<or> identity s' = ?b"
      using is_rotate(4) by (auto simp: rotate_def Let_def split: prod.splits sum.splits)
    have "lapses h x ?b" using is_rotate(3) hk by (intro lapses_of) auto
    with deadline_write [OF ok is_rotate(2), of ?b "hash_token sha (mint_token buf) # known y" s' d
        "if is_err rk then retired y else accepted (identity s) @ retired y" "managed y"]
      p(2) persist_both_cases(1) [OF p(1)] hk is_rotate(1) show ?thesis by auto
  next
    case (is_issue s buf w wall k rk s' d)
    let ?b = "with_manage_token sha (mint_manage_token buf) k wall (identity s)"
    obtain r where p: "persist_identity w ?b (idisk y) = (r, d)" "s' = s \<or> identity s' = ?b"
      using is_issue(4) by (auto simp: issue_manage_token_with_ttl_def Let_def split: prod.splits sum.splits)
    with deadline_write [OF ok is_issue(2) _ hk, of ?b s' d "retired y"] mem [OF is_issue(2)] persist_cases(1) [OF p(1)] is_issue(1)
    show ?thesis by (auto simp: lapses_of)
  next
    case (is_rotate_manage s buf w guarded wall current k rm s' d)
    let ?b = "with_manage_token sha (mint_manage_token buf) k wall (identity s)"
    have "(s' = s \<or> identity s' = ?b) \<and> (identity_file d = Ok (Some ?b) \<or> identity_file d = identity_file (idisk y))"
      using is_rotate_manage(4)
      by (auto simp: rotate_manage_token_with_ttl_def Let_def dest: persist_cases(1) split: prod.splits sum.splits)
    with deadline_write [OF ok is_rotate_manage(2) _ hk, of ?b s' d "retired y"] mem [OF is_rotate_manage(2)] is_rotate_manage(1)
    show ?thesis by (auto simp: lapses_of)
  next
    case (is_revoke s w rb s' d)
    let ?b = "without_manage_token (identity s)"
    have "(s' = s \<or> identity s' = ?b) \<and> (identity_file d = Ok (Some ?b) \<or> identity_file d = identity_file (idisk y))"
      using is_revoke(3) by (auto simp: revoke_manage_token_def Let_def dest: persist_cases(1) split: prod.splits sum.splits if_splits)
    with deadline_write [OF ok is_revoke(2) _ hk, of ?b s' d "retired y" "managed y"] mem [OF is_revoke(2)] is_revoke(1)
    show ?thesis by (auto simp: lapses_of)
  next
    case (is_revoke_with s w guarded current ru s' d)
    let ?b = "without_manage_token (identity s)"
    have "(s' = s \<or> identity s' = ?b) \<and> (identity_file d = Ok (Some ?b) \<or> identity_file d = identity_file (idisk y))"
      using is_revoke_with(3)
      by (auto simp: revoke_manage_token_with_token_def Let_def dest: persist_cases(1) split: prod.splits sum.splits)
    with deadline_write [OF ok is_revoke_with(2) _ hk, of ?b s' d "retired y" "managed y"] mem [OF is_revoke_with(2)] is_revoke_with(1)
    show ?thesis by (auto simp: lapses_of)
  next
    case (is_open buf legacy keep w1 w2 i now minted used r d)
    obtain b where b: "identity_file (idisk y) = Ok (Some b)" "lapses h x b" using ok by (auto simp: deadline_ok_def)
    from is_open(3) show ?thesis
    proof (cases rule: open_cases)
      case refused
      with is_open(1) ok show ?thesis by (auto simp: deadline_ok_def split: sum.splits)
    next
      case (intact b' t)
      with is_open(1) b hk show ?thesis by (simp add: deadline_ok_def)
    next
      case (minted c p)
      have "c = recovered_identity sha keep (mint_token buf) now minted used b" using minted(4) b(1) by auto
      then have c: "lapses h x c" using is_open(2) hk b(2) by (auto intro: lapses_of)
      have "\<exists>b. identity_file d = Ok (Some b) \<and> lapses h x b" using persist_both_cases(1) [OF minted(1)] b c by auto
      moreover have "lapses h x (identity s)" if "running y' = Some s" for s
        using that is_open(1) minted(2,3) c by (cases r) auto
      ultimately show ?thesis using is_open(1) hk by (simp add: deadline_ok_def)
    qed
  qed
qed

interpretation recovery_life: invariant_system "id_step sha" "deadline_ok h x" for sha h x
  by unfold_locales (rule deadline_step)

text \<open>
  A key lost with its token file lapses: when the broker starts without the plaintext, it mints a fresh
  key and the old one is accepted as an alias, but not past the fixed deadline six hours (or the TTL, if
  shorter) after that start, however often it is used, and whatever restarts, further losses and rotations follow.
\<close>

theorem recovered_key_lapses:
  assumes "reaches (id_step sha) (id_start d0) y0" and "identity_file (idisk y0) = Ok (Some b)"
    and "hash_token sha (mint_token buf) \<notin> set (known y0) \<union> set (managed y0)"
    and "\<forall>t. token_on_disk (idisk y0) = Some t \<longrightarrow> hash_token sha t \<noteq> token_hash b"
    and "open_identity sha legacy keep None None i buf now minted used (idisk y0) = (Ok s0, d)"
    and "reaches (id_step sha) (y0\<lparr>running := Some s0, idisk := d, known := hash_token sha (mint_token buf) # known y0\<rparr>) y"
    and "running y = Some s" and "token_hash b \<noteq> []" and "hash_token sha old = token_hash b"
    and "g1 \<ge> now + int (min (secs (6 * 3600)) keep)"
  shows "is_err (fst (verify sha w g1 wall now' old s d'))"
proof -
  let ?c = "recovered_identity sha keep (mint_token buf) now minted used b"
  let ?x = "add_std now (min RECOVERY_ALIAS_TTL keep) (6 * 3600)" and ?h = "token_hash b"
  note D = id_okD [OF reachable_identity [OF assms(1)]]
  have hk: "?h \<in> set (known y0)" using D(1) [OF assms(2)] by (simp add: key_ok_def accepted_def)
  have "(Ok s0, d) = (Ok \<lparr>identity = ?c, plain_token = mint_token buf, ttl = keep\<rparr>,
      (idisk y0)\<lparr>identity_file := Ok (Some ?c), token_file := Some (mint_token buf)\<rparr>)"
    using assms(2,4,5)
    by (cases "token_on_disk (idisk y0)") (simp_all add: open_identity_def persist_and_write_file_def persist_identity_def Let_def)
  then have o: "identity s0 = ?c" "identity_file d = Ok (Some ?c)" by simp_all
  have "lapses ?h ?x ?c"
    using hk assms(3,8) by (auto simp: lapses_def recovered_identity_def Let_def map_of_update_eq)
  then have "deadline_ok ?h ?x (y0\<lparr>running := Some s0, idisk := d, known := hash_token sha (mint_token buf) # known y0\<rparr>)"
    using hk o by (simp add: deadline_ok_def)
  from recovery_life.reaches_inv [OF assms(6) this] assms(7) have l: "lapses ?h ?x (identity s)" by (simp add: deadline_ok_def)
  have x: "?x \<le> g1"
    using assms(10) by (simp add: add_std_def RECOVERY_ALIAS_TTL_def chrono_max_def secs_def split: if_splits)
  show ?thesis
  proof (cases "?h \<in> set (accepted (identity s))")
    case True
    with l x have "classify_token g1 wall (identity s) ?h = Err TExpired"
      by (auto simp: lapses_def classify_token_def accepted_def split: option.splits)
    then show ?thesis by (simp add: verify_def assms(9))
  next
    case False
    with verify_unaccepted [of sha old s w g1 wall now' d'] assms(9) show ?thesis by auto
  qed
qed

definition lost_system :: id_system where
  "lost_system = first_system\<lparr>idisk := (idisk first_system)\<lparr>token_file := None\<rparr>\<rparr>"

theorem recovered_key_lapses_witness:
  "\<exists>s d. open_identity sample_sha False (secs 100) None None 1 [2] 9 9 9 (idisk lost_system) = (Ok s, d) \<and>
     fst (verify sample_sha None 10 10 10 (mint_token [1]) s d) = Ok \<lparr>vt_client_id = 7, via_alias = True\<rparr> \<and>
     is_err (fst (verify sample_sha None 100000000009 10 10 (mint_token [1]) s d))"
proof -
  have r: "reaches (id_step sample_sha) (id_start blank_disk) lost_system"
    using reaches_step [OF first_reached is_file [of sample_sha first_system None]] by (simp add: lost_system_def)
  let ?b = "identity first_store" and ?s = "\<lparr>identity = recovered_identity sample_sha (secs 100) (mint_token [2]) 9 9 9 (identity first_store),
      plain_token = mint_token [2], ttl = secs 100\<rparr>"
  let ?d = "(idisk lost_system)\<lparr>identity_file := Ok (Some (identity ?s)), token_file := Some (mint_token [2])\<rparr>"
  have o: "open_identity sample_sha False (secs 100) None None 1 [2] 9 9 9 (idisk lost_system) = (Ok ?s, ?d)"
    by (simp add: open_identity_def token_on_disk_def lost_system_def first_system_def persist_and_write_file_def persist_identity_def Let_def)
  have f: "identity_file (idisk lost_system) = Ok (Some ?b)" "token_on_disk (idisk lost_system) = None"
      "hash_token sample_sha (mint_token [2]) \<notin> set (known lost_system) \<union> set (managed lost_system)"
      "hash_token sample_sha (mint_token [1]) = token_hash ?b" "token_hash ?b \<noteq> []"
    using sample_hashes
    by (simp_all add: lost_system_def first_system_def token_on_disk_def first_store_def hash_of)
      (simp add: hash_token_def sample_sha_def mint_token_def hex_text_def encode_hex_def)
  let ?y = "lost_system\<lparr>running := Some ?s, idisk := ?d, known := hash_token sample_sha (mint_token [2]) # known lost_system\<rparr>"
  have e: "is_err (fst (verify sample_sha None 100000000009 10 10 (mint_token [1]) ?s ?d))"
    by (rule recovered_key_lapses [OF r f(1,3) _ o reaches_refl _ f(5,4)]) (simp_all add: f(2) secs_def)
  have h: "token_hash (identity ?s) \<noteq> token_hash ?b" using sample_hashes f(4) by (simp add: hash_of)
  have "classify_token 10 10 (identity ?s) (token_hash ?b) = Ok (True, 9)"
    using h f(5) by (simp add: classify_token_def recovered_identity_def Let_def map_of_update_eq add_std_def RECOVERY_ALIAS_TTL_def
        chrono_max_def secs_def)
  then have "fst (verify sample_sha None 10 10 10 (mint_token [1]) ?s ?d) = Ok \<lparr>vt_client_id = 7, via_alias = True\<rparr>"
    by (simp add: verify_def f(4) num_seconds_def as_secs_i64_def secs_def refresh_interval_def)
      (simp add: recovered_identity_def first_store_def first_identity_def Let_def)
  with o e show ?thesis by blast
qed

lemma alias_verifies:
  assumes "hash_token sha token \<noteq> token_hash (identity s)" and "hash_token sha token \<in> set (alias_hashes (identity s))"
  shows "\<not> is_err (fst (verify sha w now wall now token s d)) \<longleftrightarrow> alias_active (ttl s) now (identity s) (hash_token sha token)"
proof (cases "map_of (alias_last_used (identity s)) (hash_token sha token)")
  case None
  with assms show ?thesis by (simp add: verify_def classify_token_def alias_active_def)
next
  case (Some t)
  with assms show ?thesis
    by (cases "map_of (alias_expires_at (identity s)) (hash_token sha token)")
      (auto simp: verify_def classify_token_def alias_active_def Let_def)
qed

text \<open>
  The number of old keys shown as still accepted is the number that would be accepted: it counts exactly
  the aliases whose key, presented at that moment, succeeds.
\<close>

theorem active_aliases_verify:
  assumes "map (hash_token sha) tokens = alias_hashes (identity s)" and "token_hash (identity s) \<notin> set (alias_hashes (identity s))"
  shows "active_alias_count now s = length (filter (\<lambda>t. \<not> is_err (fst (verify sha w now wall now t s d))) tokens)"
proof -
  have "filter (\<lambda>t. \<not> is_err (fst (verify sha w now wall now t s d))) tokens =
      filter (\<lambda>t. alias_active (ttl s) now (identity s) (hash_token sha t)) tokens"
  proof (rule filter_cong [OF refl])
    fix t assume "t \<in> set tokens"
    then have "hash_token sha t \<in> set (alias_hashes (identity s))" by (simp flip: assms(1))
    with assms(2) show "(\<not> is_err (fst (verify sha w now wall now t s d))) = alias_active (ttl s) now (identity s) (hash_token sha t)"
      by (intro alias_verifies) auto
  qed
  then show ?thesis by (simp add: active_alias_count_def filter_map comp_def flip: assms(1))
qed

definition alias_store :: identity_store where
  "alias_store = \<lparr>identity = recovered_identity sample_sha (secs 100) (mint_token [2]) 9 9 9 (identity first_store),
     plain_token = mint_token [2], ttl = secs 100\<rparr>"

lemma alias_store_hashes:
  "map (hash_token sample_sha) [mint_token [1]] = alias_hashes (identity alias_store)"
  "token_hash (identity alias_store) \<notin> set (alias_hashes (identity alias_store))"
proof -
  have "hash_token sample_sha (mint_token [1]) \<noteq> []"
    by (simp add: hash_token_def sample_sha_def mint_token_def hex_text_def encode_hex_def)
  then show "map (hash_token sample_sha) [mint_token [1]] = alias_hashes (identity alias_store)"
    by (simp add: alias_store_def recovered_identity_def first_store_def hash_of Let_def) (simp add: first_identity_def)
  then show "token_hash (identity alias_store) \<notin> set (alias_hashes (identity alias_store))"
    using sample_hashes by (simp flip: \<open>map _ _ = _\<close>) (simp add: alias_store_def hash_of)
qed

theorem active_aliases_verify_witness:
  "\<exists>s. alias_hashes (identity s) \<noteq> [] \<and> active_alias_count 10 s =
     length (filter (\<lambda>t. \<not> is_err (fst (verify sample_sha None 10 5 10 t s blank_disk))) [mint_token [1]])"
  using active_aliases_verify [OF alias_store_hashes] alias_store_hashes(1) by (intro exI [of _ alias_store]) auto

text \<open>
  The management token changes hands once: a successful rotation leaves exactly one token that is
  accepted, so a second holder of the old one is refused, and only until the deadline it was given; an
  unauthorized rotation changes nothing and a failed write leaves the token in memory as it was.
\<close>

theorem manage_token_exclusive:
  "case rotate_manage_token_with_ttl sha w buf g wall current k s d of
      (Inl (Unauthorized e), s', d') \<Rightarrow> verify_manage sha g current s = Err e \<and> s' = s \<and> d' = d
    | (Inl (PersistFailed e), s', d') \<Rightarrow> verify_manage sha g current s = Ok () \<and> s' = s
    | (Inr t, s', d') \<Rightarrow> verify_manage sha g current s = Ok () \<and>
        (verify_manage sha g' token s' = Ok () \<longleftrightarrow>
          starts_with MANAGE_TOKEN_PREFIX token \<and> hash_token sha token = hash_token sha t \<and>
          (case k of None \<Rightarrow> True | Some n \<Rightarrow> g' < add_std wall n (3650 * 86400)))"
proof (cases "verify_manage_identity sha g (identity s) current")
  case (Inl e)
  then show ?thesis by (simp add: rotate_manage_token_with_ttl_def verify_manage_def)
next
  case (Inr u)
  show ?thesis
  proof (cases w)
    case None
    with Inr show ?thesis
      by (cases k) (auto simp: rotate_manage_token_with_ttl_def persist_identity_def Let_def verify_manage_def
          verify_manage_identity_def with_manage_token_def)
  next
    case (Some f)
    with Inr show ?thesis
      by (cases f) (auto simp: rotate_manage_token_with_ttl_def persist_identity_def verify_manage_def Let_def)
  qed
qed

text \<open>
  Winding the system clock back revives nothing: once the monotonic clock has passed a deadline, an
  alias and a management token past it are refused whatever the wall clock says.
\<close>

theorem clock_rollback_revives_nothing:
  assumes "x \<le> w0 + int (now - i0)" and "now - i0 \<le> chrono_max"
  shows "manage_token_expires_at (identity s) = Some x \<Longrightarrow>
      is_err (verify_manage sha (skew_guarded_now (i0, w0) now wall) token s)"
    and "map_of (alias_expires_at (identity s)) (hash_token sha token) = Some x \<Longrightarrow>
      hash_token sha token \<noteq> token_hash (identity s) \<Longrightarrow>
      is_err (fst (verify sha w (skew_guarded_now (i0, w0) now wall) wall' now' token s d))"
proof -
  have g: "x \<le> skew_guarded_now (i0, w0) now wall" using assms by (simp add: skew_guarded_now_def add_std_def)
  show "manage_token_expires_at (identity s) = Some x \<Longrightarrow>
      is_err (verify_manage sha (skew_guarded_now (i0, w0) now wall) token s)"
    using g by (auto simp: verify_manage_def verify_manage_identity_def split: option.splits)
  assume "map_of (alias_expires_at (identity s)) (hash_token sha token) = Some x" "hash_token sha token \<noteq> token_hash (identity s)"
  with g have "is_err (classify_token (skew_guarded_now (i0, w0) now wall) wall' (identity s) (hash_token sha token))"
    by (auto simp: classify_token_def split: option.splits)
  then show "is_err (fst (verify sha w (skew_guarded_now (i0, w0) now wall) wall' now' token s d))"
    by (auto simp: verify_def is_err_def split: sum.splits)
qed

text \<open>
  \<open>touch\<close> records the wall clock and \<open>verify\<close> compares with the guarded one: after the wall clock was wound
  back by more than the TTL, the key is expired immediately after the pairing that should have renewed it.
\<close>

theorem touch_after_rollback_expires:
  assumes "num_seconds (skew_guarded_now anchor i wall - wall) > as_secs_i64 (ttl s)" and "touch w wall s d = (s', d')"
    and "hash_token sha token = token_hash (identity s)"
  shows "fst (verify sha w' g1 wall (skew_guarded_now anchor i wall) token s' d') = Err TExpired"
  using assms by (auto simp: touch_def verify_def classify_token_def Let_def)

end
