(* ===== verification/Passwords.thy ===== *)
theory Passwords
  imports Template CoreTypes
begin

text \<open>
  Password credentials, \<^verbatim>\<open>crates/aka-core/src/password.rs\<close>: the canonical form of the site a password signs
  in to, and the internal name derived from site and user. \<open>parse_url\<close> is \<^verbatim>\<open>url::Url::parse\<close> reduced to the
  accessors used here; \<open>np\<close> are the characters that \<^verbatim>\<open>{:?}\<close> escapes.
\<close>

subsection \<open>Sites\<close>

record site_url =
  su_scheme :: ustring
  su_username :: ustring
  su_password :: "ustring option"
  su_host :: "ustring option"
  su_port :: "16 word option"

definition contains_str :: "ustring \<Rightarrow> ustring \<Rightarrow> bool" where
  "contains_str p s \<longleftrightarrow> list_ex (\<lambda>n. take (length p) (drop n s) = p) [0..<Suc (length s)]"

definition trim_end_dots :: "ustring \<Rightarrow> ustring" where
  "trim_end_dots h = rev (dropWhile (\<lambda>c. c = 46) (rev h))"

text \<open>\<^verbatim>\<open>www.\<close> goes only when a dotted domain remains.\<close>

definition strip_www :: "ustring \<Rightarrow> ustring" where
  "strip_www h =
     (if take 4 h = ascii ''www.'' \<and> 46 \<in> set (drop 4 h) then drop 4 h else h)"

definition normalize_site :: "(ustring \<Rightarrow> site_url option) \<Rightarrow> (uchar \<Rightarrow> bool) \<Rightarrow> ustring \<Rightarrow> core_error + ustring" where
  "normalize_site parse_url np input =
     (let t = trim input in
      if t = [] then Err (InvalidSite (ascii ''enter the website''))
      else
        let with_scheme = (if contains_str (ascii ''://'') t then t else ascii ''https://'' @ t) in
        case parse_url with_scheme of
          None \<Rightarrow> Err (InvalidSite (debug_str np t @ ascii '' is not a website address''))
        | Some url \<Rightarrow>
            if su_scheme url \<noteq> ascii ''http'' \<and> su_scheme url \<noteq> ascii ''https''
            then Err (InvalidSite (su_scheme url @ ascii '':// addresses are not websites''))
            else if su_username url \<noteq> [] \<or> su_password url \<noteq> None
            then Err (InvalidSite (ascii ''leave credentials out of the website address''))
            else case su_host url of
              None \<Rightarrow> Err (InvalidSite (debug_str np t @ ascii '' has no host''))
            | Some h \<Rightarrow>
                let h = to_ascii_lowercase (trim_end_dots h) in
                if h = [] then Err (InvalidSite (debug_str np t @ ascii '' has no host''))
                else
                  let h = strip_www h in
                  Ok (case su_port url of
                        Some p \<Rightarrow> if p \<noteq> 80 \<and> p \<noteq> 443 then h @ [58] @ show_u16 p else h
                      | None \<Rightarrow> h))"

subsection \<open>Derived names\<close>

text \<open>The loop of \<open>name_part\<close>, with the text so far and whether a gap was seen.\<close>

fun name_part_loop :: "ustring \<Rightarrow> bool \<Rightarrow> ustring \<Rightarrow> ustring" where
  "name_part_loop out gap [] = out"
| "name_part_loop out gap (c # cs) =
     (if is_ascii_alphanumeric c
      then name_part_loop ((if gap \<and> out \<noteq> [] then out @ [95] else out) @ to_ascii_uppercase [c]) False cs
      else name_part_loop out True cs)"

definition name_part :: "ustring \<Rightarrow> ustring" where
  "name_part s = name_part_loop [] False s"

definition trimmed_name :: "ustring \<Rightarrow> nat \<Rightarrow> ustring" where
  "trimmed_name name m = rev (dropWhile (\<lambda>c. c = 95) (rev (take m name)))"

definition name_stem :: "ustring \<Rightarrow> ustring option \<Rightarrow> ustring" where
  "name_stem site username =
     (let stem = ascii ''PASSWORD_'' @ name_part site in
      case username of
        None \<Rightarrow> stem
      | Some user \<Rightarrow>
          let part = name_part (takeWhile (\<lambda>c. c \<noteq> 64) user) in
          if part = [] then stem else stem @ [95] @ part)"

definition suffixed_name :: "ustring \<Rightarrow> nat \<Rightarrow> ustring" where
  "suffixed_name stem n = (let suffix = [95] @ show_nat n in trimmed_name stem (64 - length suffix) @ suffix)"

definition suffix_range :: "nat list" where
  "suffix_range = [2..<10000]"

definition derive_password_name :: "ustring \<Rightarrow> ustring option \<Rightarrow> (ustring \<Rightarrow> bool) \<Rightarrow> ustring" where
  "derive_password_name site username taken =
     (let stem = trimmed_name (name_stem site username) 64 in
      if is_valid_secret_name stem \<and> \<not> taken stem then stem
      else case List.find (\<lambda>n. is_valid_secret_name (suffixed_name stem n) \<and> \<not> taken (suffixed_name stem n)) suffix_range of
        Some n \<Rightarrow> suffixed_name stem n
      | None \<Rightarrow> stem)"

subsection \<open>Every derived name is valid and new\<close>

definition name_char :: "uchar \<Rightarrow> bool" where
  "name_char c \<longleftrightarrow> is_ascii_alphanumeric c \<or> c = 95"

lemma upper_name_char: "is_ascii_alphanumeric c \<Longrightarrow> list_all name_char (to_ascii_uppercase [c])"
  by (auto simp: name_char_def is_ascii_alphanumeric_def is_ascii_alphabetic_def is_ascii_digit_def to_ascii_uppercase_def)

lemma name_part_loop_chars: "list_all name_char out \<Longrightarrow> list_all name_char (name_part_loop out gap s)"
  by (induction out gap s rule: name_part_loop.induct) (auto simp: upper_name_char name_char_def)

lemma name_stem_props: "list_all name_char (name_stem site username) \<and> (\<exists>s. name_stem site username = ascii ''PASSWORD_'' @ s)"
proof -
  have p: "list_all name_char (name_part s)" for s using name_part_loop_chars [of "[]" False s] by (simp add: name_part_def)
  have "list_all name_char (ascii ''PASSWORD_'')"
    by (simp add: name_char_def is_ascii_alphanumeric_def is_ascii_alphabetic_def)
  with p show ?thesis by (auto simp: name_stem_def Let_def name_char_def [of 95] simp del: ascii_simps split: option.splits)
qed

lemma trimmed_name_props:
  assumes "list_all name_char s" and "hd s = 80" and "s \<noteq> []" and "0 < m"
  shows "list_all name_char (trimmed_name s m)" and "trimmed_name s m \<noteq> []" and "hd (trimmed_name s m) = 80"
    and "length (trimmed_name s m) \<le> m"
proof -
  obtain cs where s: "s = 80 # cs" using assms(2,3) by (cases s) auto
  obtain k where m: "m = Suc k" using assms(4) by (cases m) auto
  let ?d = "dropWhile (\<lambda>c. c = 95) (rev (take k cs) @ [80])"
  have t: "trimmed_name s m = rev ?d" by (simp add: trimmed_name_def s m)
  have d: "?d \<noteq> []" "last ?d = 80" by (simp_all add: dropWhile_append)
  show "list_all name_char (trimmed_name s m)"
    using assms(1) unfolding t by (auto simp: s list_all_iff dest!: set_dropWhileD in_set_takeD)
  show "trimmed_name s m \<noteq> []" using d(1) by (simp add: t)
  show "hd (trimmed_name s m) = 80" using d by (simp add: t hd_rev)
  have "length ?d \<le> length (rev (take k cs) @ [80])" by (rule length_dropWhile_le)
  then show "length (trimmed_name s m) \<le> m" unfolding t by (simp add: m)
qed

lemma valid_from_props:
  assumes "list_all name_char s" and "s \<noteq> []" and "hd s = 80" and "length s \<le> 64"
  shows "is_valid_secret_name s"
proof -
  obtain cs where s: "s = 80 # cs" using assms(2,3) by (cases s) auto
  have "c < 128" if "name_char c" for c
    using that by (auto simp: name_char_def is_ascii_alphanumeric_def is_ascii_alphabetic_def is_ascii_digit_def)
  then have "utf8_len s = length s" using assms(1) by (intro utf8_len_ascii) (auto simp: list_all_iff)
  with assms(1,4) show ?thesis
    by (auto simp: s is_valid_secret_name_def is_ascii_alphabetic_def name_char_def list_all_iff)
qed

lemma show_nat_name: "list_all (\<lambda>c. name_char c \<and> c \<noteq> 95) (show_nat n)"
  using show_nat_digits [of n] by (auto simp: list_all_iff name_char_def is_ascii_alphanumeric_def is_ascii_digit_def)

lemma suffixed_name_inj: "suffixed_name stem n = suffixed_name stem m \<Longrightarrow> n = m"
proof -
  assume e: "suffixed_name stem n = suffixed_name stem m"
  have tail: "takeWhile (\<lambda>c. c \<noteq> 95) (rev (suffixed_name stem k)) = rev (show_nat k)" for k
  proof -
    have "takeWhile (\<lambda>c. c \<noteq> 95) (rev (show_nat k) @ 95 # xs) = rev (show_nat k)" for xs
      using show_nat_name [of k] by (subst takeWhile_append2) (auto simp: list_all_iff)
    then show ?thesis by (simp add: suffixed_name_def Let_def)
  qed
  from tail [of n] tail [of m] e have "show_nat n = show_nat m" by simp
  then show ?thesis by (metis digits_value_show)
qed

lemma suffixed_name_valid:
  assumes "list_all name_char stem" and "hd stem = 80" and "stem \<noteq> []" and "n < 10000"
  shows "is_valid_secret_name (suffixed_name stem n)"
proof -
  have l: "length (show_nat n) \<le> 4" using length_show_nat [of 4 n] assms(4) by simp
  then have m: "0 < 64 - length ([95] @ show_nat n)" by simp
  note t = trimmed_name_props [OF assms(1-3) m]
  show ?thesis
  proof (rule valid_from_props)
    show "list_all name_char (suffixed_name stem n)"
      using t(1) show_nat_name [of n] by (auto simp: suffixed_name_def Let_def list_all_iff name_char_def)
    show "suffixed_name stem n \<noteq> []" by (simp add: suffixed_name_def)
    show "hd (suffixed_name stem n) = 80" using t(2,3) by (simp add: suffixed_name_def Let_def)
    show "length (suffixed_name stem n) \<le> 64" using t(4) l by (simp add: suffixed_name_def Let_def)
  qed
qed

text \<open>
  A password always gets a usable name: whatever the site and user contain, the derived name is a valid
  secret name of at most 64 characters, and it is not taken as long as fewer than 9,998 names are.
\<close>

theorem derived_name_valid_and_new:
  "is_valid_secret_name (derive_password_name site username taken) \<and>
   (finite {n. taken n} \<and> card {n. taken n} < 9998 \<longrightarrow> \<not> taken (derive_password_name site username taken))"
proof -
  let ?s = "name_stem site username" and ?stem = "trimmed_name (name_stem site username) 64"
  have s: "list_all name_char ?s" "hd ?s = 80" "?s \<noteq> []" using name_stem_props [of site username] by auto
  note t = trimmed_name_props [OF s, of 64, simplified]
  have v: "is_valid_secret_name ?stem" by (rule valid_from_props [OF t(1,2,3,4)])
  let ?P = "\<lambda>n. is_valid_secret_name (suffixed_name ?stem n) \<and> \<not> taken (suffixed_name ?stem n)"
  have vs: "is_valid_secret_name (suffixed_name ?stem n)" if "n < 10000" for n
    by (rule suffixed_name_valid [OF t(1,3,2) that])
  show ?thesis
  proof (cases "taken ?stem")
    case False
    with v show ?thesis by (simp add: derive_password_name_def Let_def)
  next
    case taken: True
    show ?thesis
    proof (cases "List.find ?P suffix_range")
      case None
      then have "suffixed_name ?stem ` {2..<10000} \<subseteq> {n. taken n}" using vs by (auto simp: find_None_iff_all suffix_range_def simp del: upt_rec_numeral)
      moreover have "card (suffixed_name ?stem ` {2..<10000}) = 9998"
        by (subst card_image) (auto intro: inj_onI suffixed_name_inj)
      ultimately have "\<not> (finite {n. taken n} \<and> card {n. taken n} < 9998)" by (metis card_mono not_le)
      with None v taken show ?thesis by (simp add: derive_password_name_def Let_def)
    next
      case (Some n)
      with find_SomeD [OF Some] taken show ?thesis by (simp add: derive_password_name_def Let_def)
    qed
  qed
qed

theorem derived_name_valid_and_new_witness:
  "derive_password_name (ascii ''x.com'') None (\<lambda>n. n = ascii ''PASSWORD_X_COM'') \<noteq> ascii ''PASSWORD_X_COM''"
  using derived_name_valid_and_new [of "ascii ''x.com''" None "\<lambda>n. n = ascii ''PASSWORD_X_COM''"] by simp

subsection \<open>The canonical site\<close>

text \<open>What the URL crate makes of a canonical \<^verbatim>\<open>https\<close> origin.\<close>

definition origin_url :: "ustring \<Rightarrow> 16 word option \<Rightarrow> site_url" where
  "origin_url h p = \<lparr>su_scheme = ascii ''https'', su_username = [], su_password = None, su_host = Some h, su_port = p\<rparr>"

definition origin_text :: "ustring \<Rightarrow> 16 word option \<Rightarrow> ustring" where
  "origin_text h p = (case p of Some p \<Rightarrow> h @ [58] @ show_u16 p | None \<Rightarrow> h)"

lemma trim_end_dots_idem: "trim_end_dots (trim_end_dots h) = trim_end_dots h"
  by (simp add: trim_end_dots_def)

lemma lower_idem: "to_ascii_lowercase (to_ascii_lowercase s) = to_ascii_lowercase s"
  by (auto simp: to_ascii_lowercase_def)

text \<open>A host whose letters, dots and leading \<^verbatim>\<open>www.\<close> are already canonical is left alone.\<close>

definition stable_host :: "ustring \<Rightarrow> bool" where
  "stable_host h \<longleftrightarrow> h \<noteq> [] \<and> to_ascii_lowercase (trim_end_dots h) = h \<and> strip_www h = h"

lemma normalize_origin:
  assumes "parse_url (ascii ''https://'' @ origin_text h p) = Some (origin_url h p)" and "stable_host h"
    and "p \<noteq> Some 80" and "p \<noteq> Some 443"
    and "trim (origin_text h p) = origin_text h p" and "\<not> contains_str (ascii ''://'') (origin_text h p)"
  shows "normalize_site parse_url np (origin_text h p) = Ok (origin_text h p)"
proof -
  have "origin_text h p \<noteq> []" using assms(2) by (auto simp: origin_text_def stable_host_def split: option.split)
  then have "normalize_site parse_url np (origin_text h p) =
      Ok (case p of Some q \<Rightarrow> if q \<noteq> 80 \<and> q \<noteq> 443 then h @ [58] @ show_u16 q else h | None \<Rightarrow> h)"
    unfolding normalize_site_def Let_def assms(5) using assms(1,2,6)
    by (cases p) (simp_all add: origin_url_def stable_host_def del: ascii_simps)
  also have "\<dots> = Ok (origin_text h p)" using assms(3,4) by (auto simp: origin_text_def split: option.split)
  finally show ?thesis .
qed

text \<open>
  The stored form is not always a fixpoint: of two leading \<^verbatim>\<open>www.\<close> only one is removed, so the site
  \<^verbatim>\<open>www.www.x.y\<close> is stored as \<^verbatim>\<open>www.x.y\<close>, which normalizes to \<^verbatim>\<open>x.y\<close>.
\<close>

theorem normalized_site_not_fixpoint:
  assumes "\<And>h. h \<in> {ascii ''www.www.x.y'', ascii ''www.x.y''} \<Longrightarrow> parse_url (ascii ''https://'' @ h) = Some (origin_url h None)"
  shows "normalize_site parse_url np (ascii ''www.www.x.y'') = Ok (ascii ''www.x.y'')"
    and "normalize_site parse_url np (ascii ''www.x.y'') = Ok (ascii ''x.y'')"
proof -
  have t: "trim (ascii ''www.www.x.y'') = ascii ''www.www.x.y''" "trim (ascii ''www.x.y'') = ascii ''www.x.y''"
    by (simp_all add: trim_def is_whitespace_def)
  have c: "\<not> contains_str (ascii ''://'') (ascii ''www.www.x.y'')" "\<not> contains_str (ascii ''://'') (ascii ''www.x.y'')"
    by (simp_all add: contains_str_def upt_rec)
  have l: "to_ascii_lowercase (trim_end_dots (ascii ''www.www.x.y'')) = ascii ''www.www.x.y''"
      "to_ascii_lowercase (trim_end_dots (ascii ''www.x.y'')) = ascii ''www.x.y''"
      "strip_www (ascii ''www.www.x.y'') = ascii ''www.x.y''" "strip_www (ascii ''www.x.y'') = ascii ''x.y''"
    by (simp_all add: trim_end_dots_def to_ascii_lowercase_def strip_www_def)
  have n: "ascii ''www.www.x.y'' \<noteq> []" "ascii ''www.x.y'' \<noteq> []" "ascii ''https'' \<noteq> ascii ''http''" by simp_all
  show "normalize_site parse_url np (ascii ''www.www.x.y'') = Ok (ascii ''www.x.y'')"
    using assms [of "ascii ''www.www.x.y''"] n unfolding normalize_site_def Let_def t
    by (simp add: c origin_url_def l del: ascii_simps)
  show "normalize_site parse_url np (ascii ''www.x.y'') = Ok (ascii ''x.y'')"
    using assms [of "ascii ''www.x.y''"] n unfolding normalize_site_def Let_def t
    by (simp add: c origin_url_def l del: ascii_simps)
qed

end
