(* ===== verification/Vault.thy ===== *)
theory Vault
  imports Integrity
begin

text \<open>
  Secret values, \<^verbatim>\<open>crates/aka-core/src/vault.rs\<close>: the trait \<open>SecretVault\<close> as a record of operations, the laws its
  users rely on as the locale \<open>secret_vault\<close>, the three backends in this crate, the master key, and the
  choice of the backend outside macOS. XChaCha20-Poly1305 and base64 are parameters; the faults that the
  file writes will meet are part of a backend's state. The Keychain backend is system glue.
\<close>

unbundle bit_operations_syntax

subsection \<open>UTF-8\<close>

text \<open>A Rust string consists of Unicode scalar values; \<open>as_bytes\<close> and \<open>String::from_utf8\<close>.\<close>

definition is_scalar :: "uchar \<Rightarrow> bool" where
  "is_scalar c \<longleftrightarrow> c < 55296 \<or> 57343 < c \<and> c \<le> 1114111"

definition rust_string :: "ustring \<Rightarrow> bool" where
  "rust_string s \<longleftrightarrow> list_all is_scalar s"

definition utf8_char :: "uchar \<Rightarrow> nat list" where
  "utf8_char c =
     (if c < 128 then [c]
      else if c < 2048 then [192 + c div 64, 128 + c mod 64]
      else if c < 65536 then [224 + c div 4096, 128 + c div 64 mod 64, 128 + c mod 64]
      else [240 + c div 262144, 128 + c div 4096 mod 64, 128 + c div 64 mod 64, 128 + c mod 64])"

definition as_bytes :: "ustring \<Rightarrow> bytes" where
  "as_bytes s = map of_nat (concat (map utf8_char s))"

definition is_cont :: "nat \<Rightarrow> bool" where
  "is_cont b \<longleftrightarrow> 128 \<le> b \<and> b < 192"

fun utf8_decode :: "nat list \<Rightarrow> ustring option" where
  "utf8_decode [] = Some []"
| "utf8_decode (a # r) =
     (if a < 128 then map_option ((#) a) (utf8_decode r)
      else case r of
        [] \<Rightarrow> None
      | b # r1 \<Rightarrow>
          if a < 194 \<or> \<not> is_cont b then None
          else if a < 224 then map_option ((#) ((a - 192) * 64 + (b - 128))) (utf8_decode r1)
          else case r1 of
            [] \<Rightarrow> None
          | c # r2 \<Rightarrow>
              if \<not> is_cont c then None
              else if a < 240 then
                let x = (a - 224) * 4096 + (b - 128) * 64 + (c - 128) in
                if x < 2048 \<or> \<not> is_scalar x then None else map_option ((#) x) (utf8_decode r2)
              else case r2 of
                [] \<Rightarrow> None
              | d # r3 \<Rightarrow>
                  let x = (a - 240) * 262144 + (b - 128) * 4096 + (c - 128) * 64 + (d - 128) in
                  if \<not> is_cont d \<or> x < 65536 \<or> \<not> is_scalar x then None else map_option ((#) x) (utf8_decode r3))"

definition from_utf8 :: "bytes \<Rightarrow> ustring option" where
  "from_utf8 bs = utf8_decode (map unat bs)"

lemma utf8_decode_char: "is_scalar c \<Longrightarrow> utf8_decode (utf8_char c @ r) = map_option ((#) c) (utf8_decode r)"
proof -
  assume s: "is_scalar c"
  have "c div 4096 = c div 64 div 64" "c div 262144 = c div 4096 div 64"
    using div_mult2_eq [of c 64 64] div_mult2_eq [of c 4096 64] by simp_all
  then have "c = c div 64 * 64 + c mod 64" "c div 64 = c div 4096 * 64 + c div 64 mod 64"
    "c div 4096 = c div 262144 * 64 + c div 4096 mod 64" by (simp_all only: div_mult_mod_eq)
  then have q: "c div 262144 * 262144 + c div 4096 mod 64 * 4096 + c div 64 mod 64 * 64 + c mod 64 = c"
    "c div 4096 * 4096 + c div 64 mod 64 * 64 + c mod 64 = c" by linarith+
  consider "c < 128" | "128 \<le> c" "c < 2048" | "2048 \<le> c" "c < 65536" | "65536 \<le> c" by linarith
  then show ?thesis
  proof cases
    case 2
    then have "2 \<le> c div 64" "c div 64 < 32" by (simp_all add: div_less_iff_less_mult less_eq_div_iff_mult_less_eq)
    with 2 show ?thesis by (simp add: utf8_char_def is_cont_def)
  next
    case 3
    have d: "c div 4096 < 16" using 3 by (simp add: div_less_iff_less_mult)
    with 3 q(2) s show ?thesis by (simp add: utf8_char_def is_cont_def)
  next
    case 4
    have "c \<le> 1114111" using s 4 by (auto simp: is_scalar_def)
    with 4 q(1) s show ?thesis by (simp add: utf8_char_def is_cont_def)
  qed (simp add: utf8_char_def)
qed

lemma utf8_char_byte: "is_scalar c \<Longrightarrow> b \<in> set (utf8_char c) \<Longrightarrow> b < 256"
proof -
  assume s: "is_scalar c" and b: "b \<in> set (utf8_char c)"
  have "c div 262144 < 5" using s by (auto simp: is_scalar_def div_less_iff_less_mult)
  moreover have "c < 65536 \<Longrightarrow> c div 4096 < 16" "c < 2048 \<Longrightarrow> c div 64 < 32" by (simp_all add: div_less_iff_less_mult)
  moreover have "c div 4096 mod 64 < 64" "c div 64 mod 64 < 64" "c mod 64 < 64" by simp_all
  ultimately show ?thesis using b by (auto simp: utf8_char_def split: if_splits)
qed

lemma from_utf8_as_bytes: "rust_string s \<Longrightarrow> from_utf8 (as_bytes s) = Some s"
proof -
  assume s: "rust_string s"
  have "map unat (map (of_nat :: nat \<Rightarrow> 8 word) (concat (map utf8_char s))) = concat (map utf8_char s)"
    unfolding map_map using s utf8_char_byte
    by (intro map_idI) (auto simp: rust_string_def list_all_iff unat_of_nat)
  moreover have "utf8_decode (concat (map utf8_char s)) = Some s"
    using s by (induction s) (simp_all add: rust_string_def utf8_decode_char)
  ultimately show ?thesis by (simp add: from_utf8_def as_bytes_def)
qed

subsection \<open>The trait\<close>

record vault_attrs =
  va_name :: ustring
  va_created_at :: datetime

record 'v vault_ops =
  v_set :: "uuid \<Rightarrow> vault_attrs \<Rightarrow> ustring \<Rightarrow> 'v \<Rightarrow> (core_error + unit) \<times> 'v"
  v_get :: "uuid \<Rightarrow> 'v \<Rightarrow> (core_error + ustring) outcome"
  v_delete :: "uuid \<Rightarrow> 'v \<Rightarrow> (core_error + unit) \<times> 'v"
  v_set_attrs :: "uuid \<Rightarrow> vault_attrs \<Rightarrow> 'v \<Rightarrow> (core_error + unit) \<times> 'v"
  v_reopen :: "(core_error \<times> bool) option list \<Rightarrow> (ustring + bytes) list \<Rightarrow> 'v \<Rightarrow> (core_error + 'v) outcome"

text \<open>
  \<open>v_reopen\<close> is what a new process does: it opens the backend again on what the old one left behind, with the
  write faults and the random draws that the new process will meet. The kernel fills a nonce's 24 bytes or fails.
\<close>

definition full_nonces :: "(ustring + bytes) list \<Rightarrow> bool" where
  "full_nonces random \<longleftrightarrow> (\<forall>n. Inr n \<in> set random \<longrightarrow> length n = 24)"

text \<open>
  What the store relies on: an operation that succeeds has its effect on exactly one value, an operation
  that fails has none, and attributes are not values.
\<close>

locale secret_vault =
  fixes V :: "'v vault_ops" and good :: "'v \<Rightarrow> bool"
  assumes set_ok: "good v \<Longrightarrow> rust_string x \<Longrightarrow> v_set V i a x v = (Ok u, v') \<Longrightarrow>
      good v' \<and> v_get V i v' = Return (Ok x) \<and> (\<forall>j. j \<noteq> i \<longrightarrow> v_get V j v' = v_get V j v)"
    and set_err: "good v \<Longrightarrow> v_set V i a x v = (Err e, v') \<Longrightarrow> good v' \<and> (\<forall>j. v_get V j v' = v_get V j v)"
    and delete_ok: "good v \<Longrightarrow> v_delete V i v = (Ok u, v') \<Longrightarrow>
      good v' \<and> v_get V i v' = Return (Err SecretNotFound) \<and> (\<forall>j. j \<noteq> i \<longrightarrow> v_get V j v' = v_get V j v)"
    and delete_err: "good v \<Longrightarrow> v_delete V i v = (Err e, v') \<Longrightarrow> good v' \<and> (\<forall>j. v_get V j v' = v_get V j v)"
    and attrs_frame: "good v \<Longrightarrow> v_set_attrs V i a v = (r, v') \<Longrightarrow> good v' \<and> (\<forall>j. v_get V j v' = v_get V j v)"
begin

text \<open>The set of ids under which a value can be fetched.\<close>

definition held :: "'v \<Rightarrow> uuid \<Rightarrow> bool" where
  "held v i \<longleftrightarrow> (\<exists>x. v_get V i v = Return (Ok x))"

lemma held_set:
  assumes "good v" and "rust_string x" and "v_set V i a x v = (r, v')"
  shows "good v' \<and> held v' j = (held v j \<or> \<not> is_err r \<and> j = i)"
proof (cases r)
  case (Inl e)
  with assms set_err [OF assms(1)] show ?thesis by (simp add: held_def)
next
  case (Inr u)
  with assms set_ok [OF assms(1,2)] show ?thesis by (cases "j = i") (auto simp: held_def)
qed

lemma held_delete:
  assumes "good v" and "v_delete V i v = (r, v')"
  shows "good v' \<and> held v' j = (held v j \<and> (is_err r \<or> j \<noteq> i))"
proof (cases r)
  case (Inl e)
  with assms delete_err [of v i e v'] show ?thesis by (simp add: held_def)
next
  case (Inr u)
  with assms delete_ok [of v i u v'] show ?thesis by (cases "j = i") (auto simp: held_def)
qed

lemma held_attrs: "good v \<Longrightarrow> v_set_attrs V i a v = (r, v') \<Longrightarrow> good v' \<and> held v' j = held v j"
  using attrs_frame [of v i a r v'] by (simp add: held_def)

end

text \<open>A vault that can be used again after a restart, whatever the old process left in its file.\<close>

locale reopenable_vault = secret_vault +
  assumes reopen_good: "good v \<Longrightarrow> full_nonces random \<Longrightarrow> v_reopen V faults random v = Return (Ok v') \<Longrightarrow> good v'"

text \<open>
  A vault whose values survive a restart: \<open>quiet\<close> says that no write to come fails after replacing the file,
  \<open>synced\<close> that the file holds what memory holds. Reopening then gives the same values.
\<close>

locale durable_vault = reopenable_vault V good for V :: "'v vault_ops" and good +
  fixes quiet :: "'v \<Rightarrow> bool" and synced :: "'v \<Rightarrow> bool"
  assumes set_settled: "good v \<Longrightarrow> quiet v \<Longrightarrow> synced v \<Longrightarrow> v_set V i a x v = (r, v') \<Longrightarrow> quiet v' \<and> synced v'"
    and delete_settled: "good v \<Longrightarrow> quiet v \<Longrightarrow> synced v \<Longrightarrow> v_delete V i v = (r, v') \<Longrightarrow> quiet v' \<and> synced v'"
    and attrs_settled: "good v \<Longrightarrow> quiet v \<Longrightarrow> synced v \<Longrightarrow> v_set_attrs V i a v = (r, v') \<Longrightarrow> quiet v' \<and> synced v'"
    and reopen_synced: "good v \<Longrightarrow> synced v \<Longrightarrow> v_reopen V faults random v = Return (Ok v') \<Longrightarrow>
      synced v' \<and> (\<forall>j. v_get V j v' = v_get V j v)"
begin

lemma settled_laws: "secret_vault V (\<lambda>v. good v \<and> quiet v \<and> synced v)"
proof unfold_locales
  fix v i a x u v' assume "good v \<and> quiet v \<and> synced v" "rust_string x" "v_set V i a x v = (Ok u, v')"
  then show "(good v' \<and> quiet v' \<and> synced v') \<and> v_get V i v' = Return (Ok x) \<and> (\<forall>j. j \<noteq> i \<longrightarrow> v_get V j v' = v_get V j v)"
    using set_ok [of v x i a u v'] set_settled [of v i a x "Ok u" v'] by simp
next
  fix v i a x e v' assume "good v \<and> quiet v \<and> synced v" "v_set V i a x v = (Err e, v')"
  then show "(good v' \<and> quiet v' \<and> synced v') \<and> (\<forall>j. v_get V j v' = v_get V j v)"
    using set_err [of v i a x e v'] set_settled [of v i a x "Err e" v'] by simp
next
  fix v i u v' assume "good v \<and> quiet v \<and> synced v" "v_delete V i v = (Ok u, v')"
  then show "(good v' \<and> quiet v' \<and> synced v') \<and> v_get V i v' = Return (Err SecretNotFound) \<and>
      (\<forall>j. j \<noteq> i \<longrightarrow> v_get V j v' = v_get V j v)"
    using delete_ok [of v i u v'] delete_settled [of v i "Ok u" v'] by simp
next
  fix v i e v' assume "good v \<and> quiet v \<and> synced v" "v_delete V i v = (Err e, v')"
  then show "(good v' \<and> quiet v' \<and> synced v') \<and> (\<forall>j. v_get V j v' = v_get V j v)"
    using delete_err [of v i e v'] delete_settled [of v i "Err e" v'] by simp
next
  fix v i a r v' assume "good v \<and> quiet v \<and> synced v" "v_set_attrs V i a v = (r, v')"
  then show "(good v' \<and> quiet v' \<and> synced v') \<and> (\<forall>j. v_get V j v' = v_get V j v)"
    using attrs_frame [of v i a r v'] attrs_settled [of v i a r v'] by simp
qed

end

subsection \<open>File-backed state\<close>

text \<open>
  The items in memory, what reading the file gives, and the faults of the writes to come: each write takes
  the next one, \<open>None\<close> standing for success and the flag for a failure after the file was replaced.
\<close>

record 'i vault_file =
  vf_items :: "(uuid, 'i) hashmap"
  vf_file :: "core_error + (uuid, 'i) hashmap option"
  vf_faults :: "(core_error \<times> bool) option list"

definition persist_vault :: "(uuid, 'i) hashmap \<Rightarrow> 'i vault_file \<Rightarrow> (core_error + unit) \<times> 'i vault_file" where
  "persist_vault next v =
     (let f = (case vf_faults v of [] \<Rightarrow> None | x # _ \<Rightarrow> x); v = v\<lparr>vf_faults := tl (vf_faults v)\<rparr> in
      case f of
        None \<Rightarrow> (Ok (), v\<lparr>vf_file := Ok (Some next)\<rparr>)
      | Some (e, renamed) \<Rightarrow> (Err e, if renamed then v\<lparr>vf_file := Ok (Some next)\<rparr> else v))"

text \<open>\<open>self.persist(&next)?; *state = next; Ok(())\<close>\<close>

definition commit_vault :: "(uuid, 'i) hashmap \<Rightarrow> 'i vault_file \<Rightarrow> (core_error + unit) \<times> 'i vault_file" where
  "commit_vault next v =
     (case persist_vault next v of
        (Inl e, v) \<Rightarrow> (Err e, v)
      | (Inr _, v) \<Rightarrow> (Ok (), v\<lparr>vf_items := next\<rparr>))"

definition remove_item :: "uuid \<Rightarrow> 'i vault_file \<Rightarrow> (core_error + unit) \<times> 'i vault_file" where
  "remove_item i v =
     (case map_of (vf_items v) i of
        None \<Rightarrow> (Err SecretNotFound, v)
      | Some _ \<Rightarrow> commit_vault (AList.delete i (vf_items v)) v)"

definition open_items :: "(core_error \<times> bool) option list \<Rightarrow> (core_error + (uuid, 'i) hashmap option) \<Rightarrow> core_error + 'i vault_file" where
  "open_items faults stored =
     (case stored of
        Inl e \<Rightarrow> Err e
      | Inr f \<Rightarrow> Ok \<lparr>vf_items = (case f of Some m \<Rightarrow> m | None \<Rightarrow> []), vf_file = stored, vf_faults = faults\<rparr>)"

text \<open>No write to come fails after replacing the file, and the file holds what memory holds.\<close>

definition vf_quiet :: "'i vault_file \<Rightarrow> bool" where
  "vf_quiet v \<longleftrightarrow> (\<forall>e. Some (e, True) \<notin> set (vf_faults v))"

definition vf_synced :: "'i vault_file \<Rightarrow> bool" where
  "vf_synced v \<longleftrightarrow> vf_file v = Ok (Some (vf_items v)) \<or> vf_file v = Ok None \<and> vf_items v = []"

lemma persist_vault_items [simp]: "vf_items (snd (persist_vault m v)) = vf_items v"
  by (auto simp: persist_vault_def Let_def split: list.splits option.splits)

lemma commit_vault_cases:
  assumes "commit_vault m v = (r, v')"
  shows "vf_items v' = (if is_err r then vf_items v else m)"
proof -
  obtain p w where p: "persist_vault m v = (p, w)" by fastforce
  then have "vf_items w = vf_items v" by (metis persist_vault_items snd_conv)
  with p assms show ?thesis by (cases p) (auto simp: commit_vault_def)
qed

lemma commit_vault_settled:
  assumes "commit_vault m v = (r, v')" and "vf_quiet v" and "vf_synced v"
  shows "vf_quiet v' \<and> vf_synced v'"
proof (cases "vf_faults v")
  case Nil
  with assms show ?thesis by (auto simp: commit_vault_def persist_vault_def vf_quiet_def vf_synced_def)
next
  case (Cons f fs)
  with assms show ?thesis
    by (cases f) (auto simp: commit_vault_def persist_vault_def vf_quiet_def vf_synced_def split: if_splits)
qed

lemma remove_item_settled:
  "remove_item i v = (r, v') \<Longrightarrow> vf_quiet v \<Longrightarrow> vf_synced v \<Longrightarrow> vf_quiet v' \<and> vf_synced v'"
  by (auto simp: remove_item_def dest: commit_vault_settled split: option.splits)

lemma open_items_synced:
  assumes "open_items faults stored = Ok v"
  shows "vf_file v = stored \<and> (case stored of Inr None \<Rightarrow> vf_items v = [] | Inr (Some m) \<Rightarrow> vf_items v = m | Inl _ \<Rightarrow> False) \<and> vf_synced v"
  using assms by (auto simp: open_items_def vf_synced_def split: sum.splits option.splits)

lemma reopened_items:
  assumes "open_items faults (vf_file v) = Ok v'" and "vf_synced v"
  shows "vf_items v' = vf_items v"
  using assms by (auto simp: open_items_def vf_synced_def)

subsection \<open>The plaintext development vault\<close>

record file_vault_item =
  fi_attrs :: vault_attrs
  fi_value :: ustring

definition file_vault_open :: "(core_error \<times> bool) option list \<Rightarrow> (core_error + (uuid, file_vault_item) hashmap option) \<Rightarrow>
    core_error + file_vault_item vault_file" where
  "file_vault_open faults stored = open_items faults stored"

definition file_vault_set :: "uuid \<Rightarrow> vault_attrs \<Rightarrow> ustring \<Rightarrow> file_vault_item vault_file \<Rightarrow>
    (core_error + unit) \<times> file_vault_item vault_file" where
  "file_vault_set i a x v = commit_vault (AList.update i \<lparr>fi_attrs = a, fi_value = x\<rparr> (vf_items v)) v"

definition file_vault_get :: "uuid \<Rightarrow> file_vault_item vault_file \<Rightarrow> (core_error + ustring) outcome" where
  "file_vault_get i v =
     Return (case map_of (vf_items v) i of Some it \<Rightarrow> Ok (fi_value it) | None \<Rightarrow> Err SecretNotFound)"

definition file_vault_delete :: "uuid \<Rightarrow> file_vault_item vault_file \<Rightarrow> (core_error + unit) \<times> file_vault_item vault_file" where
  "file_vault_delete i v = remove_item i v"

definition file_vault_set_attrs :: "uuid \<Rightarrow> vault_attrs \<Rightarrow> file_vault_item vault_file \<Rightarrow>
    (core_error + unit) \<times> file_vault_item vault_file" where
  "file_vault_set_attrs i a v =
     (case map_of (vf_items v) i of
        None \<Rightarrow> (Err SecretNotFound, v)
      | Some it \<Rightarrow> commit_vault (AList.update i (it\<lparr>fi_attrs := a\<rparr>) (vf_items v)) v)"

definition file_vault :: "file_vault_item vault_file vault_ops" where
  "file_vault = \<lparr>v_set = file_vault_set, v_get = file_vault_get, v_delete = file_vault_delete, v_set_attrs = file_vault_set_attrs,
     v_reopen = (\<lambda>faults _ v. Return (file_vault_open faults (vf_file v)))\<rparr>"

interpretation plain: durable_vault file_vault "\<lambda>_. True" vf_quiet vf_synced
proof unfold_locales
  fix v i a x u v' assume "v_set file_vault i a x v = (Ok u, v')"
  then have "vf_items v' = AList.update i \<lparr>fi_attrs = a, fi_value = x\<rparr> (vf_items v)"
    by (auto simp: file_vault_def file_vault_set_def dest!: commit_vault_cases)
  then show "True \<and> v_get file_vault i v' = Return (Ok x) \<and> (\<forall>j. j \<noteq> i \<longrightarrow> v_get file_vault j v' = v_get file_vault j v)"
    by (simp add: file_vault_def file_vault_get_def map_of_update_eq)
next
  fix v i a x e v' assume "v_set file_vault i a x v = (Err e, v')"
  then show "True \<and> (\<forall>j. v_get file_vault j v' = v_get file_vault j v)"
    by (auto simp: file_vault_def file_vault_set_def file_vault_get_def dest!: commit_vault_cases)
next
  fix v i u v' assume "v_delete file_vault i v = (Ok u, v')"
  then have "vf_items v' = AList.delete i (vf_items v)"
    by (auto simp: file_vault_def file_vault_delete_def remove_item_def dest!: commit_vault_cases split: option.splits)
  then show "True \<and> v_get file_vault i v' = Return (Err SecretNotFound) \<and> (\<forall>j. j \<noteq> i \<longrightarrow> v_get file_vault j v' = v_get file_vault j v)"
    by (simp add: file_vault_def file_vault_get_def map_of_delete_eq)
next
  fix v i e v' assume "v_delete file_vault i v = (Err e, v')"
  then show "True \<and> (\<forall>j. v_get file_vault j v' = v_get file_vault j v)"
    by (auto simp: file_vault_def file_vault_delete_def remove_item_def file_vault_get_def dest!: commit_vault_cases split: option.splits)
next
  fix v i a r v' assume s: "v_set_attrs file_vault i a v = (r, v')"
  show "True \<and> (\<forall>j. v_get file_vault j v' = v_get file_vault j v)"
  proof (cases "map_of (vf_items v) i")
    case None
    with s show ?thesis by (simp add: file_vault_def file_vault_set_attrs_def)
  next
    case (Some it)
    with s have "vf_items v' = (if is_err r then vf_items v else AList.update i (it\<lparr>fi_attrs := a\<rparr>) (vf_items v))"
      by (auto simp: file_vault_def file_vault_set_attrs_def dest!: commit_vault_cases)
    with Some show ?thesis by (simp add: file_vault_def file_vault_get_def map_of_update_eq)
  qed
next
  fix v i a x r v' assume "vf_quiet v" "vf_synced v" "v_set file_vault i a x v = (r, v')"
  then show "vf_quiet v' \<and> vf_synced v'" by (auto simp: file_vault_def file_vault_set_def dest: commit_vault_settled)
next
  fix v i r v' assume "vf_quiet v" "vf_synced v" "v_delete file_vault i v = (r, v')"
  then show "vf_quiet v' \<and> vf_synced v'" by (auto simp: file_vault_def file_vault_delete_def dest: remove_item_settled)
next
  fix v i a r v' assume "vf_quiet v" "vf_synced v" "v_set_attrs file_vault i a v = (r, v')"
  then show "vf_quiet v' \<and> vf_synced v'"
    by (auto simp: file_vault_def file_vault_set_attrs_def dest: commit_vault_settled split: option.splits)
next
  fix v faults random v' assume "vf_synced v" "v_reopen file_vault faults random v = Return (Ok v')"
  then show "vf_synced v' \<and> (\<forall>j. v_get file_vault j v' = v_get file_vault j v)"
    by (auto simp: file_vault_def file_vault_open_def file_vault_get_def dest: reopened_items open_items_synced)
qed auto

subsection \<open>The encrypted vault\<close>

text \<open>\<open>chacha20poly1305\<close> and \<open>base64\<close>, as far as they are called.\<close>

record vault_crypto =
  aead_encrypt :: "bytes \<Rightarrow> bytes \<Rightarrow> bytes \<Rightarrow> bytes \<Rightarrow> bytes option"
  aead_decrypt :: "bytes \<Rightarrow> bytes \<Rightarrow> bytes \<Rightarrow> bytes \<Rightarrow> bytes option"
  b64_encode :: "bytes \<Rightarrow> ustring"
  b64_decode :: "ustring \<Rightarrow> bytes option"

record encrypted_vault_item =
  ei_attrs :: vault_attrs
  ei_nonce :: ustring
  ei_ciphertext :: ustring

text \<open>The random source is the list of what its next calls give.\<close>

record encrypted_vault =
  ev_key :: bytes
  ev_store :: "encrypted_vault_item vault_file"
  ev_random :: "(ustring + bytes) list"

definition uuid_bytes :: "uuid \<Rightarrow> bytes" where
  "uuid_bytes i = map (\<lambda>n. ucast (drop_bit (8 * (15 - n)) i)) [0..<16]"

definition take_random :: "encrypted_vault \<Rightarrow> (ustring + bytes) \<times> encrypted_vault" where
  "take_random v =
     (case ev_random v of
        [] \<Rightarrow> (Err [], v)
      | r # rs \<Rightarrow> (r, v\<lparr>ev_random := rs\<rparr>))"

text \<open>The nonce and the ciphertext of an item; \<open>set\<close> overwrites the attributes at once.\<close>

definition encrypt_value ::
    "vault_crypto \<Rightarrow> uuid \<Rightarrow> ustring \<Rightarrow> encrypted_vault \<Rightarrow> (core_error + ustring \<times> ustring) \<times> encrypted_vault" where
  "encrypt_value C i x v =
     (case take_random v of
        (Inl e, v) \<Rightarrow> (Err (VaultError (ascii ''nonce entropy: '' @ e)), v)
      | (Inr nonce, v) \<Rightarrow>
          (case aead_encrypt C (ev_key v) nonce (uuid_bytes i) (as_bytes x) of
             None \<Rightarrow> (Err (VaultError (ascii ''vault encryption failed'')), v)
           | Some c \<Rightarrow> (Ok (b64_encode C nonce, b64_encode C c), v)))"

text \<open>\<open>XNonce::from_slice\<close> panics unless the nonce has 24 bytes.\<close>

definition decrypt_item :: "vault_crypto \<Rightarrow> bytes \<Rightarrow> uuid \<Rightarrow> encrypted_vault_item \<Rightarrow> (core_error + ustring) outcome" where
  "decrypt_item C mk i it =
     (case b64_decode C (ei_nonce it) of
        None \<Rightarrow> Return (Err (VaultError (ascii ''corrupt vault nonce'')))
      | Some nonce \<Rightarrow>
          (case b64_decode C (ei_ciphertext it) of
             None \<Rightarrow> Return (Err (VaultError (ascii ''corrupt vault ciphertext'')))
           | Some c \<Rightarrow>
               if length nonce \<noteq> 24 then Panic
               else case aead_decrypt C mk nonce (uuid_bytes i) c of
                 None \<Rightarrow> Return (Err (VaultError (ascii ''vault decryption failed (wrong key or tampered)'')))
               | Some p \<Rightarrow>
                   (case from_utf8 p of
                      None \<Rightarrow> Return (Err (VaultError (ascii ''decrypted vault value is not valid UTF-8'')))
                    | Some s \<Rightarrow> Return (Ok s))))"

definition wrong_key :: core_error where
  "wrong_key = VaultError (ascii ''the encrypted vault would not open: wrong master key (AKA_VAULT_KEY) or the store was tampered with'')"

definition encrypted_vault_open ::
    "vault_crypto \<Rightarrow> (core_error \<times> bool) option list \<Rightarrow> (ustring + bytes) list \<Rightarrow>
     (core_error + (uuid, encrypted_vault_item) hashmap option) \<Rightarrow> bytes \<Rightarrow> (core_error + encrypted_vault) outcome" where
  "encrypted_vault_open C faults random stored mk =
     (case open_items faults stored of
        Inl e \<Rightarrow> Return (Err e)
      | Inr st \<Rightarrow>
          let v = \<lparr>ev_key = mk, ev_store = st, ev_random = random\<rparr> in
          (case vf_items st of
             [] \<Rightarrow> Return (Ok v)
           | (i, it) # _ \<Rightarrow>
               (case decrypt_item C mk i it of
                  Panic \<Rightarrow> Panic
                | Return (Inl _) \<Rightarrow> Return (Err wrong_key)
                | Return (Inr _) \<Rightarrow> Return (Ok v))))"

definition encrypted_vault_set :: "vault_crypto \<Rightarrow> uuid \<Rightarrow> vault_attrs \<Rightarrow> ustring \<Rightarrow> encrypted_vault \<Rightarrow> (core_error + unit) \<times> encrypted_vault" where
  "encrypted_vault_set C i a x v =
     (case encrypt_value C i x v of
        (Inl e, v) \<Rightarrow> (Err e, v)
      | (Inr (n, c), v) \<Rightarrow>
          (case commit_vault (AList.update i \<lparr>ei_attrs = a, ei_nonce = n, ei_ciphertext = c\<rparr> (vf_items (ev_store v))) (ev_store v) of
             (r, st) \<Rightarrow> (r, v\<lparr>ev_store := st\<rparr>)))"

definition encrypted_vault_get :: "vault_crypto \<Rightarrow> uuid \<Rightarrow> encrypted_vault \<Rightarrow> (core_error + ustring) outcome" where
  "encrypted_vault_get C i v =
     (case map_of (vf_items (ev_store v)) i of
        None \<Rightarrow> Return (Err SecretNotFound)
      | Some it \<Rightarrow> decrypt_item C (ev_key v) i it)"

definition encrypted_vault_delete :: "uuid \<Rightarrow> encrypted_vault \<Rightarrow> (core_error + unit) \<times> encrypted_vault" where
  "encrypted_vault_delete i v = (case remove_item i (ev_store v) of (r, st) \<Rightarrow> (r, v\<lparr>ev_store := st\<rparr>))"

definition encrypted_vault_set_attrs :: "uuid \<Rightarrow> vault_attrs \<Rightarrow> encrypted_vault \<Rightarrow> (core_error + unit) \<times> encrypted_vault" where
  "encrypted_vault_set_attrs i a v =
     (case map_of (vf_items (ev_store v)) i of
        None \<Rightarrow> (Err SecretNotFound, v)
      | Some it \<Rightarrow>
          (case commit_vault (AList.update i (it\<lparr>ei_attrs := a\<rparr>) (vf_items (ev_store v))) (ev_store v) of
             (r, st) \<Rightarrow> (r, v\<lparr>ev_store := st\<rparr>)))"

definition encrypted_vault_ops :: "vault_crypto \<Rightarrow> encrypted_vault vault_ops" where
  "encrypted_vault_ops C = \<lparr>v_set = encrypted_vault_set C, v_get = encrypted_vault_get C, v_delete = encrypted_vault_delete,
     v_set_attrs = encrypted_vault_set_attrs,
     v_reopen = (\<lambda>faults random v. encrypted_vault_open C faults random (vf_file (ev_store v)) (ev_key v))\<rparr>"

subsection \<open>The vault of the tests\<close>

text \<open>It lives in memory only: a test that opens its store again hands it the same vault.\<close>

type_synonym memory_vault = "(uuid, vault_attrs \<times> ustring) hashmap"

definition memory_vault_set :: "uuid \<Rightarrow> vault_attrs \<Rightarrow> ustring \<Rightarrow> memory_vault \<Rightarrow> (core_error + unit) \<times> memory_vault" where
  "memory_vault_set i a x m = (Ok (), AList.update i (a, x) m)"

definition memory_vault_get :: "uuid \<Rightarrow> memory_vault \<Rightarrow> (core_error + ustring) outcome" where
  "memory_vault_get i m = Return (case map_of m i of Some (_, x) \<Rightarrow> Ok x | None \<Rightarrow> Err SecretNotFound)"

definition memory_vault_delete :: "uuid \<Rightarrow> memory_vault \<Rightarrow> (core_error + unit) \<times> memory_vault" where
  "memory_vault_delete i m =
     (case map_of m i of None \<Rightarrow> (Err SecretNotFound, m) | Some _ \<Rightarrow> (Ok (), AList.delete i m))"

definition memory_vault_set_attrs :: "uuid \<Rightarrow> vault_attrs \<Rightarrow> memory_vault \<Rightarrow> (core_error + unit) \<times> memory_vault" where
  "memory_vault_set_attrs i a m =
     (case map_of m i of None \<Rightarrow> (Err SecretNotFound, m) | Some (_, x) \<Rightarrow> (Ok (), AList.update i (a, x) m))"

definition memory_vault :: "memory_vault vault_ops" where
  "memory_vault = \<lparr>v_set = memory_vault_set, v_get = memory_vault_get, v_delete = memory_vault_delete,
     v_set_attrs = memory_vault_set_attrs, v_reopen = (\<lambda>_ _ m. Return (Ok m))\<rparr>"

subsection \<open>The master key\<close>

definition is_ascii_hexdigit :: "uchar \<Rightarrow> bool" where
  "is_ascii_hexdigit c \<longleftrightarrow> is_ascii_digit c \<or> 65 \<le> c \<and> c \<le> 70 \<or> 97 \<le> c \<and> c \<le> 102"

fun hex_pairs :: "ustring \<Rightarrow> bytes option" where
  "hex_pairs (a # b # r) =
     (case from_radix16 (of_nat a) (of_nat b) of
        None \<Rightarrow> None
      | Some x \<Rightarrow> map_option ((#) x) (hex_pairs r))"
| "hex_pairs _ = Some []"

text \<open>\<open>std64\<close> and \<open>url64\<close> decode the two alphabets. All hex digits are one byte long.\<close>

definition parse_master_key :: "(ustring \<Rightarrow> bytes option) \<Rightarrow> (ustring \<Rightarrow> bytes option) \<Rightarrow> ustring \<Rightarrow> core_error + bytes" where
  "parse_master_key std64 url64 text =
     (let t = trim text;
          bs = (if utf8_len t = 64 \<and> list_all is_ascii_hexdigit t then hex_pairs t
                else case std64 t of Some b \<Rightarrow> Some b | None \<Rightarrow> url64 t) in
      case bs of
        Some b \<Rightarrow> if length b = 32 then Ok b
            else Err (VaultError (ascii ''the vault master key must be 32 bytes as 64 hex chars or base64''))
      | None \<Rightarrow> Err (VaultError (ascii ''the vault master key must be 32 bytes as 64 hex chars or base64'')))"

text \<open>What reading the file gives: the error text, or its bytes.\<close>

definition load_master_key_file ::
    "(ustring \<Rightarrow> bytes option) \<Rightarrow> (ustring \<Rightarrow> bytes option) \<Rightarrow> ustring \<Rightarrow> (ustring + bytes) \<Rightarrow> core_error + bytes" where
  "load_master_key_file std64 url64 shown file_read =
     (case file_read of
        Inl e \<Rightarrow> Err (VaultError (ascii ''could not read '' @ shown @ ascii '' ('' @ e @ ascii '')''))
      | Inr raw \<Rightarrow>
          if length raw = 32 then Ok raw
          else case from_utf8 raw of
            None \<Rightarrow> Err (VaultError (ascii ''the vault key file is neither 32 bytes nor text''))
          | Some text \<Rightarrow> parse_master_key std64 url64 text)"

definition master_key_from_env ::
    "(ustring \<Rightarrow> bytes option) \<Rightarrow> (ustring \<Rightarrow> bytes option) \<Rightarrow> (ustring \<Rightarrow> ustring + bytes) \<Rightarrow> ustring option \<Rightarrow> ustring option \<Rightarrow>
     (core_error + bytes) option" where
  "master_key_from_env std64 url64 read key_var path_var =
     (case key_var of
        Some k \<Rightarrow>
          if trim k \<noteq> [] then Some (parse_master_key std64 url64 k)
          else (case path_var of
              Some p \<Rightarrow> if trim p \<noteq> [] then Some (load_master_key_file std64 url64 (trim p) (read (trim p))) else None
            | None \<Rightarrow> None)
      | None \<Rightarrow>
          (case path_var of
              Some p \<Rightarrow> if trim p \<noteq> [] then Some (load_master_key_file std64 url64 (trim p) (read (trim p))) else None
            | None \<Rightarrow> None))"

subsection \<open>Choosing the backend\<close>

datatype platform_vault_backend = MacosKeychain | EncryptedFile | PlaintextDevFile

text \<open>The data directory: the backend record (if it parses) and which vault files exist.\<close>

record vault_dir =
  backend_record :: "(nat \<times> platform_vault_backend) option"
  has_encrypted :: bool
  has_plaintext :: bool

definition read_vault_backend_record :: "vault_dir \<Rightarrow> platform_vault_backend option" where
  "read_vault_backend_record d =
     (case backend_record d of Some (ver, b) \<Rightarrow> if ver = 1 then Some b else None | None \<Rightarrow> None)"

definition infer_file_vault_backend :: "vault_dir \<Rightarrow> platform_vault_backend option" where
  "infer_file_vault_backend d =
     (case (has_encrypted d, has_plaintext d) of
        (True, False) \<Rightarrow> Some EncryptedFile
      | (False, True) \<Rightarrow> Some PlaintextDevFile
      | _ \<Rightarrow> None)"

definition recorded_platform_vault_backend :: "vault_dir \<Rightarrow> platform_vault_backend option" where
  "recorded_platform_vault_backend d =
     (case read_vault_backend_record d of Some b \<Rightarrow> Some b | None \<Rightarrow> infer_file_vault_backend d)"

definition selected_platform_vault_backend :: "(core_error + bytes) option \<Rightarrow> platform_vault_backend" where
  "selected_platform_vault_backend mk = (if mk \<noteq> None then EncryptedFile else PlaintextDevFile)"

definition backend_debug :: "platform_vault_backend \<Rightarrow> ustring" where
  "backend_debug b =
     (case b of
        MacosKeychain \<Rightarrow> ascii ''MacosKeychain''
      | EncryptedFile \<Rightarrow> ascii ''EncryptedFile''
      | PlaintextDevFile \<Rightarrow> ascii ''PlaintextDevFile'')"

definition backend_mismatch :: "platform_vault_backend \<Rightarrow> platform_vault_backend \<Rightarrow> ustring" where
  "backend_mismatch recorded selected =
     (case (recorded, selected) of
        (EncryptedFile, PlaintextDevFile) \<Rightarrow>
          ascii ''this store's secrets are sealed by the encrypted vault '' @ [0x2014] @
          ascii '' set AKA_VAULT_KEY or AKA_VAULT_KEY_FILE and retry''
      | (PlaintextDevFile, EncryptedFile) \<Rightarrow>
          ascii ''this store uses the plaintext development vault '' @ [0x2014] @
          ascii '' unset AKA_VAULT_KEY/AKA_VAULT_KEY_FILE or migrate the vault before retrying''
      | _ \<Rightarrow> ascii ''this store uses the '' @ backend_debug recorded @ ascii '' vault, but this process selected '' @ backend_debug selected)"

definition check_vault_backend :: "vault_dir \<Rightarrow> platform_vault_backend \<Rightarrow> core_error + unit" where
  "check_vault_backend d selected =
     (if read_vault_backend_record d = None \<and> has_encrypted d \<and> has_plaintext d
      then Err (VaultError (ascii ''both encrypted and plaintext vault files exist, but no valid backend marker selects one; refusing to guess''))
      else case recorded_platform_vault_backend d of
        None \<Rightarrow> Ok ()
      | Some b \<Rightarrow> if b = selected then Ok () else Err (VaultError (backend_mismatch b selected)))"

text \<open>
  \<open>non_macos_vault\<close>: the backend that was opened. The vault's own opening is the argument \<open>opened\<close>; a file
  vault creates its file at its first write, which is not part of this. \<open>ensured\<close> is the outcome of creating
  the directories, \<open>w\<close> the fault of writing the record.
\<close>

definition non_macos_vault ::
    "(core_error + unit) \<Rightarrow> (core_error + bytes) option \<Rightarrow> (platform_vault_backend \<Rightarrow> core_error + unit) \<Rightarrow> (core_error \<times> bool) option \<Rightarrow> vault_dir \<Rightarrow>
     (core_error + platform_vault_backend) \<times> vault_dir" where
  "non_macos_vault ensured mk opened w d =
     (let selected = selected_platform_vault_backend mk in
      case (case ensured of Inl e \<Rightarrow> Err e | Inr _ \<Rightarrow> check_vault_backend d selected) of
        Inl e \<Rightarrow> (Err e, d)
      | Inr _ \<Rightarrow>
          (case (case mk of Some (Inl e) \<Rightarrow> Err e | _ \<Rightarrow> opened selected) of
             Inl e \<Rightarrow> (Err e, d)
           | Inr _ \<Rightarrow>
               if read_vault_backend_record d \<noteq> Some selected then
                 (case w of
                    None \<Rightarrow> (Ok selected, d\<lparr>backend_record := Some (1, selected)\<rparr>)
                  | Some (e, renamed) \<Rightarrow> (Err e, if renamed then d\<lparr>backend_record := Some (1, selected)\<rparr> else d))
               else (Ok selected, d)))"

subsection \<open>The laws of the backends\<close>

interpretation mem: durable_vault memory_vault "\<lambda>_. True" "\<lambda>_. True" "\<lambda>_. True"
  by unfold_locales
    (auto simp: memory_vault_def memory_vault_set_def memory_vault_get_def memory_vault_delete_def memory_vault_set_attrs_def
      map_of_update_eq map_of_delete_eq split: option.splits if_splits)

lemma take_random_cases:
  "take_random v = (r, v') \<Longrightarrow> ev_key v' = ev_key v \<and> ev_store v' = ev_store v \<and> set (ev_random v') \<subseteq> set (ev_random v) \<and>
     (\<forall>n. r = Inr n \<longrightarrow> Inr n \<in> set (ev_random v))"
  by (auto simp: take_random_def split: list.splits)

lemma encrypt_cases:
  assumes "encrypt_value C i x v = (r, v')"
  shows "ev_key v' = ev_key v \<and> ev_store v' = ev_store v \<and> set (ev_random v') \<subseteq> set (ev_random v) \<and>
    (\<forall>n c. r = Ok (n, c) \<longrightarrow> (\<exists>nonce ct. Inr nonce \<in> set (ev_random v) \<and> n = b64_encode C nonce \<and> c = b64_encode C ct \<and>
       aead_encrypt C (ev_key v) nonce (uuid_bytes i) (as_bytes x) = Some ct))"
proof -
  obtain q w where q: "take_random v = (q, w)" by fastforce
  note t = take_random_cases [OF q]
  from assms q t show ?thesis by (cases q) (auto simp: encrypt_value_def split: option.splits)
qed

definition nonces_ok :: "encrypted_vault \<Rightarrow> bool" where
  "nonces_ok v \<longleftrightarrow> full_nonces (ev_random v)"

lemma decrypt_encrypted:
  assumes rt: "\<And>k n a m c. length n = 24 \<Longrightarrow> aead_encrypt C k n a m = Some c \<Longrightarrow> aead_decrypt C k n a c = Some m"
    and b64: "\<And>b. b64_decode C (b64_encode C b) = Some b"
    and "nonces_ok v" and "rust_string x" and "encrypt_value C i x v = (Ok (n, c), v')"
  shows "decrypt_item C (ev_key v) i \<lparr>ei_attrs = a, ei_nonce = n, ei_ciphertext = c\<rparr> = Return (Ok x)"
proof -
  from encrypt_cases [OF assms(5)] obtain nonce ct where "Inr nonce \<in> set (ev_random v)" and
    e: "n = b64_encode C nonce" "c = b64_encode C ct" "aead_encrypt C (ev_key v) nonce (uuid_bytes i) (as_bytes x) = Some ct"
    by blast
  then have "length nonce = 24" using assms(3) by (auto simp: nonces_ok_def full_nonces_def)
  with rt [OF this e(3)] e(1,2) b64 from_utf8_as_bytes [OF assms(4)] show ?thesis by (simp add: decrypt_item_def)
qed

lemma encrypted_get_frame:
  assumes "ev_key v' = ev_key v" and "map_of (vf_items (ev_store v')) j = map_of (vf_items (ev_store v)) j"
  shows "encrypted_vault_get C j v' = encrypted_vault_get C j v"
  using assms by (auto simp: encrypted_vault_get_def split: option.split)

lemma encrypted_get_attrs:
  assumes "ev_key v' = ev_key v" and "map_of (vf_items (ev_store v)) i = Some it"
    and "vf_items (ev_store v') = AList.update i (it\<lparr>ei_attrs := a\<rparr>) (vf_items (ev_store v))"
  shows "encrypted_vault_get C j v' = encrypted_vault_get C j v"
  using assms by (cases "j = i") (auto simp: encrypted_vault_get_def map_of_update_eq decrypt_item_def split: option.split)

lemma encrypted_set_effect:
  assumes "encrypted_vault_set C i a x v = (r, v')" and "nonces_ok v"
  shows "nonces_ok v' \<and> ev_key v' = ev_key v \<and>
    (if is_err r then vf_items (ev_store v') = vf_items (ev_store v)
     else \<exists>n c w. encrypt_value C i x v = (Ok (n, c), w) \<and>
       vf_items (ev_store v') = AList.update i \<lparr>ei_attrs = a, ei_nonce = n, ei_ciphertext = c\<rparr> (vf_items (ev_store v)))"
proof -
  obtain q w where q: "encrypt_value C i x v = (q, w)" by fastforce
  note e = encrypt_cases [OF q]
  have w: "nonces_ok w" using e assms(2) by (auto simp: nonces_ok_def full_nonces_def)
  show ?thesis
  proof (cases q)
    case (Inl er)
    with assms(1) q e w show ?thesis by (auto simp: encrypted_vault_set_def)
  next
    case (Inr nc)
    obtain n c where nc: "nc = (n, c)" by (cases nc)
    let ?m = "AList.update i \<lparr>ei_attrs = a, ei_nonce = n, ei_ciphertext = c\<rparr> (vf_items (ev_store w))"
    obtain p s where p: "commit_vault ?m (ev_store w) = (p, s)" by fastforce
    have "r = p" "v' = w\<lparr>ev_store := s\<rparr>" using assms(1) q Inr nc p by (auto simp: encrypted_vault_set_def)
    with commit_vault_cases [OF p] e w Inr nc q show ?thesis by (auto simp: nonces_ok_def full_nonces_def)
  qed
qed

lemma encrypted_delete_effect:
  assumes "encrypted_vault_delete i v = (r, v')"
  shows "ev_key v' = ev_key v \<and> ev_random v' = ev_random v \<and>
    vf_items (ev_store v') = (if is_err r then vf_items (ev_store v) else AList.delete i (vf_items (ev_store v)))"
proof -
  obtain p s where p: "remove_item i (ev_store v) = (p, s)" by fastforce
  then have "vf_items s = (if is_err p then vf_items (ev_store v) else AList.delete i (vf_items (ev_store v)))"
    by (auto simp: remove_item_def dest!: commit_vault_cases split: option.splits)
  with p assms show ?thesis by (auto simp: encrypted_vault_delete_def)
qed

lemma encrypted_attrs_effect:
  assumes "encrypted_vault_set_attrs i a v = (r, v')"
  shows "ev_key v' = ev_key v \<and> ev_random v' = ev_random v \<and> (vf_items (ev_store v') = vf_items (ev_store v) \<or>
    (\<exists>it. map_of (vf_items (ev_store v)) i = Some it \<and>
      vf_items (ev_store v') = AList.update i (it\<lparr>ei_attrs := a\<rparr>) (vf_items (ev_store v))))"
proof (cases "map_of (vf_items (ev_store v)) i")
  case None
  with assms show ?thesis by (simp add: encrypted_vault_set_attrs_def)
next
  case (Some it)
  obtain p s where p: "commit_vault (AList.update i (it\<lparr>ei_attrs := a\<rparr>) (vf_items (ev_store v))) (ev_store v) = (p, s)" by fastforce
  with Some assms commit_vault_cases [OF p] show ?thesis by (auto simp: encrypted_vault_set_attrs_def split: if_splits)
qed

lemma encrypted_set_settled:
  assumes "encrypted_vault_set C i a x v = (r, v')" and "vf_quiet (ev_store v)" and "vf_synced (ev_store v)"
  shows "vf_quiet (ev_store v') \<and> vf_synced (ev_store v')"
proof -
  obtain q w where q: "encrypt_value C i x v = (q, w)" by fastforce
  with assms encrypt_cases [OF q] show ?thesis
    by (cases q) (auto simp: encrypted_vault_set_def dest: commit_vault_settled split: prod.splits)
qed

lemma encrypted_reopened:
  assumes "encrypted_vault_open C faults random stored k = Return (Ok v)"
  shows "ev_key v = k \<and> ev_random v = random \<and> open_items faults stored = Ok (ev_store v)"
  using assms by (auto simp: encrypted_vault_open_def Let_def split: sum.splits list.splits outcome.splits)

text \<open>
  The encrypted vault keeps the contract, given that decryption inverts encryption under the same key,
  nonce and associated data, that base64 decoding inverts encoding, and that the nonces have 24 bytes.
\<close>

lemma encrypted_vault_laws:
  assumes rt: "\<And>k n a m c. length n = 24 \<Longrightarrow> aead_encrypt C k n a m = Some c \<Longrightarrow> aead_decrypt C k n a c = Some m"
    and b64: "\<And>b. b64_decode C (b64_encode C b) = Some b"
  shows "secret_vault (encrypted_vault_ops C) nonces_ok"
proof (unfold_locales, unfold encrypted_vault_ops_def vault_ops.simps)
  fix v i a x u v' assume g: "nonces_ok v" and x: "rust_string x" and st: "encrypted_vault_set C i a x v = (Ok u, v')"
  from encrypted_set_effect [OF st g] obtain n c w where e: "nonces_ok v'" "ev_key v' = ev_key v"
    "encrypt_value C i x v = (Ok (n, c), w)"
    "vf_items (ev_store v') = AList.update i \<lparr>ei_attrs = a, ei_nonce = n, ei_ciphertext = c\<rparr> (vf_items (ev_store v))" by auto
  have "encrypted_vault_get C i v' = Return (Ok x)"
    using decrypt_encrypted [OF rt b64 g x e(3), of a] by (simp add: encrypted_vault_get_def e(2,4) map_of_update_eq)
  moreover have "\<forall>j. j \<noteq> i \<longrightarrow> encrypted_vault_get C j v' = encrypted_vault_get C j v"
    using e(2,4) by (auto intro: encrypted_get_frame simp: map_of_update_eq)
  ultimately show "nonces_ok v' \<and> encrypted_vault_get C i v' = Return (Ok x) \<and>
      (\<forall>j. j \<noteq> i \<longrightarrow> encrypted_vault_get C j v' = encrypted_vault_get C j v)" using e(1) by blast
next
  fix v i a x er v' assume g: "nonces_ok v" and st: "encrypted_vault_set C i a x v = (Err er, v')"
  from encrypted_set_effect [OF st g] show "nonces_ok v' \<and> (\<forall>j. encrypted_vault_get C j v' = encrypted_vault_get C j v)"
    by (auto intro: encrypted_get_frame)
next
  fix v i u v' assume g: "nonces_ok v" and "encrypted_vault_delete i v = (Ok u, v')"
  from encrypted_delete_effect [OF this(2)] g show "nonces_ok v' \<and> encrypted_vault_get C i v' = Return (Err SecretNotFound) \<and>
      (\<forall>j. j \<noteq> i \<longrightarrow> encrypted_vault_get C j v' = encrypted_vault_get C j v)"
    by (auto intro: encrypted_get_frame simp: map_of_delete_eq nonces_ok_def full_nonces_def) (simp add: encrypted_vault_get_def map_of_delete_eq)
next
  fix v i er v' assume g: "nonces_ok v" and "encrypted_vault_delete i v = (Err er, v')"
  from encrypted_delete_effect [OF this(2)] g show "nonces_ok v' \<and> (\<forall>j. encrypted_vault_get C j v' = encrypted_vault_get C j v)"
    by (auto intro: encrypted_get_frame simp: nonces_ok_def full_nonces_def)
next
  fix v i a r v' assume g: "nonces_ok v" and "encrypted_vault_set_attrs i a v = (r, v')"
  from encrypted_attrs_effect [OF this(2)] g show "nonces_ok v' \<and> (\<forall>j. encrypted_vault_get C j v' = encrypted_vault_get C j v)"
    by (auto intro: encrypted_get_frame encrypted_get_attrs simp: nonces_ok_def full_nonces_def)
qed

text \<open>Reopened under the same master key, a settled vault gives the same values.\<close>

lemma encrypted_vault_durable:
  assumes "secret_vault (encrypted_vault_ops C) nonces_ok"
  shows "durable_vault (encrypted_vault_ops C) nonces_ok (\<lambda>v. vf_quiet (ev_store v)) (\<lambda>v. vf_synced (ev_store v))"
proof (intro durable_vault.intro reopenable_vault.intro reopenable_vault_axioms.intro durable_vault_axioms.intro assms,
    unfold encrypted_vault_ops_def vault_ops.simps)
  fix v faults random v' assume "full_nonces random"
    "encrypted_vault_open C faults random (vf_file (ev_store v)) (ev_key v) = Return (Ok v')"
  then show "nonces_ok v'" by (auto simp: nonces_ok_def dest: encrypted_reopened)
next
  fix v i a x r v' assume "vf_quiet (ev_store v)" "vf_synced (ev_store v)" "encrypted_vault_set C i a x v = (r, v')"
  then show "vf_quiet (ev_store v') \<and> vf_synced (ev_store v')" by (intro encrypted_set_settled)
next
  fix v i r v' assume "vf_quiet (ev_store v)" "vf_synced (ev_store v)" "encrypted_vault_delete i v = (r, v')"
  then show "vf_quiet (ev_store v') \<and> vf_synced (ev_store v')"
    by (auto simp: encrypted_vault_delete_def dest: remove_item_settled split: prod.splits)
next
  fix v i a r v' assume "vf_quiet (ev_store v)" "vf_synced (ev_store v)" "encrypted_vault_set_attrs i a v = (r, v')"
  then show "vf_quiet (ev_store v') \<and> vf_synced (ev_store v')"
    by (auto simp: encrypted_vault_set_attrs_def dest: commit_vault_settled split: prod.splits option.splits)
next
  fix v v' :: encrypted_vault and faults random assume sy: "vf_synced (ev_store v)"
    and op: "encrypted_vault_open C faults random (vf_file (ev_store v)) (ev_key v) = Return (Ok v')"
  note o = encrypted_reopened [OF op]
  then have "vf_items (ev_store v') = vf_items (ev_store v)" and "vf_synced (ev_store v')"
    using reopened_items [OF _ sy] open_items_synced by blast+
  then show "vf_synced (ev_store v') \<and> (\<forall>j. encrypted_vault_get C j v' = encrypted_vault_get C j v)"
    using o by (intro conjI allI encrypted_get_frame) simp_all
qed

subsection \<open>A sealed value belongs to its slot\<close>

lemma uuid_bytes_nth: "k < 16 \<Longrightarrow> uuid_bytes i ! k = ucast (drop_bit (8 * (15 - k)) i)"
  unfolding uuid_bytes_def by (subst nth_map) (simp_all only: length_upt nth_upt add_0 diff_zero)

lemma uuid_bytes_inj:
  assumes "uuid_bytes i = uuid_bytes j"
  shows "i = j"
proof (rule bit_eqI)
  fix n assume "possible_bit TYPE(128 word) n"
  then have n: "n < 128" by simp
  let ?k = "15 - n div 8"
  have u: "?k < 16" "15 - ?k = n div 8" using n by simp_all
  have "uuid_bytes i ! ?k = uuid_bytes j ! ?k" using assms by simp
  then have b: "(ucast (drop_bit (8 * (n div 8)) i) :: 8 word) = ucast (drop_bit (8 * (n div 8)) j)"
    unfolding uuid_bytes_nth [OF u(1)] u(2) .
  have "bit (ucast (drop_bit (8 * (n div 8)) i) :: 8 word) (n mod 8) = bit (ucast (drop_bit (8 * (n div 8)) j) :: 8 word) (n mod 8)"
    by (simp only: b)
  then show "bit i n = bit j n" by (simp add: bit_simps)
qed

text \<open>An item whose nonce has any other length than 24 makes the decryption panic.\<close>

lemma short_nonce_panics:
  assumes "b64_decode C (ei_nonce it) = Some nonce" and "length nonce \<noteq> 24" and "b64_decode C (ei_ciphertext it) \<noteq> None"
  shows "decrypt_item C k i it = Panic"
  using assms by (auto simp: decrypt_item_def)

text \<open>The item's own ciphertext seals a text for either of two slots, under its own nonce and the same key.\<close>

definition seal_collision :: "vault_crypto \<Rightarrow> bytes \<Rightarrow> encrypted_vault_item \<Rightarrow> uuid \<Rightarrow> uuid \<Rightarrow> bool" where
  "seal_collision C k it i j \<longleftrightarrow>
     (\<exists>n c m m'. b64_decode C (ei_nonce it) = Some n \<and> b64_decode C (ei_ciphertext it) = Some c \<and>
        aead_encrypt C k n (uuid_bytes i) m = Some c \<and> aead_encrypt C k n (uuid_bytes j) m' = Some c)"

definition toy_encrypt :: "bytes \<Rightarrow> bytes \<Rightarrow> bytes \<Rightarrow> bytes \<Rightarrow> bytes option" where
  "toy_encrypt k n a m = (if length a = 16 then Some (a @ m) else None)"

definition toy_decrypt :: "bytes \<Rightarrow> bytes \<Rightarrow> bytes \<Rightarrow> bytes \<Rightarrow> bytes option" where
  "toy_decrypt k n a c = (if length a = 16 \<and> take 16 c = a then Some (drop 16 c) else None)"

definition toy_crypto :: vault_crypto where
  "toy_crypto = \<lparr>aead_encrypt = toy_encrypt, aead_decrypt = toy_decrypt, b64_encode = map unat, b64_decode = (\<lambda>s. Some (map of_nat s))\<rparr>"

lemma toy_bound: "aead_encrypt toy_crypto k n a m = Some c \<Longrightarrow> aead_encrypt toy_crypto k n a' m' = Some c \<Longrightarrow> a' = a"
  by (auto simp: toy_crypto_def toy_encrypt_def append_eq_append_conv split: if_splits)

lemma toy_collision_free: "i \<noteq> j \<Longrightarrow> \<not> seal_collision toy_crypto k it i j"
  unfolding seal_collision_def using toy_bound uuid_bytes_inj by metis

lemma toy_laws:
  "aead_encrypt toy_crypto k n a m = Some c \<Longrightarrow> aead_decrypt toy_crypto k n a c = Some m"
  "aead_decrypt toy_crypto k n a c = Some m \<Longrightarrow> aead_encrypt toy_crypto k n a m = Some c"
  "b64_decode toy_crypto (b64_encode toy_crypto b) = Some b"
  by (auto simp: toy_crypto_def toy_encrypt_def toy_decrypt_def o_def split: if_splits)

text \<open>
  C39. The encrypted vault keeps the contract of a secret vault: a successful set is read back under its id
  and changes no other value, a successful delete removes exactly one value, and an operation that fails,
  whether for want of entropy or at the write of the file, changes nothing that can be read. It is durable:
  as long as no write fails after replacing the file, the file holds what memory holds, and opening it again
  under the same master key gives the same values. Assumed of the cipher: decryption inverts encryption under
  the same key, nonce and associated data; of base64: decoding inverts encoding.
\<close>

theorem encrypted_vault_is_a_vault:
  assumes "\<And>k n a m c. length n = 24 \<Longrightarrow> aead_encrypt C k n a m = Some c \<Longrightarrow> aead_decrypt C k n a c = Some m"
    and "\<And>b. b64_decode C (b64_encode C b) = Some b"
  shows "secret_vault (encrypted_vault_ops C) nonces_ok \<and>
    durable_vault (encrypted_vault_ops C) nonces_ok (\<lambda>v. vf_quiet (ev_store v)) (\<lambda>v. vf_synced (ev_store v))"
  using encrypted_vault_laws [OF assms] encrypted_vault_durable by blast

theorem encrypted_vault_is_a_vault_witness:
  "secret_vault (encrypted_vault_ops toy_crypto) nonces_ok \<and>
   durable_vault (encrypted_vault_ops toy_crypto) nonces_ok (\<lambda>v. vf_quiet (ev_store v)) (\<lambda>v. vf_synced (ev_store v))"
  by (rule encrypted_vault_is_a_vault) (erule toy_laws(1), rule toy_laws(3))

text \<open>
  C38. What was stored under one id is not given out under another: an item copied to another slot of the
  vault file does not decrypt there, whatever attributes it carries, while it still reads back in its own
  slot. The exception is an item whose very ciphertext, under its own nonce and the same key, is also what
  sealing some text for the other slot gives: a collision of the authentication tag. Assumed of the cipher:
  under a 24-byte nonce decryption inverts encryption, and what decrypts is what encryption gives for that
  text; of base64: decoding inverts encoding.
\<close>

theorem sealed_value_bound_to_slot:
  assumes "\<And>k n a m c. length n = 24 \<Longrightarrow> aead_encrypt C k n a m = Some c \<Longrightarrow> aead_decrypt C k n a c = Some m"
    and "\<And>k n a m c. length n = 24 \<Longrightarrow> aead_decrypt C k n a c = Some m \<Longrightarrow> aead_encrypt C k n a m = Some c"
    and "\<And>b. b64_decode C (b64_encode C b) = Some b"
    and "nonces_ok v" and "rust_string x" and "encrypted_vault_set C i a x v = (Ok u, v')"
    and "map_of (vf_items (ev_store v')) i = Some it" and "map_of (vf_items (ev_store w)) j = Some (it\<lparr>ei_attrs := a'\<rparr>)"
    and "ev_key w = ev_key v"
  shows "encrypted_vault_get C j w =
      Return (if j = i then Ok x else Err (VaultError (ascii ''vault decryption failed (wrong key or tampered)''))) \<or>
    j \<noteq> i \<and> seal_collision C (ev_key v) it i j"
proof -
  from encrypted_set_effect [OF assms(6,4)] obtain n c v1 where e: "encrypt_value C i x v = (Ok (n, c), v1)" and
    "vf_items (ev_store v') = AList.update i \<lparr>ei_attrs = a, ei_nonce = n, ei_ciphertext = c\<rparr> (vf_items (ev_store v))" by auto
  then have it: "it = \<lparr>ei_attrs = a, ei_nonce = n, ei_ciphertext = c\<rparr>" using assms(7) by (auto simp: map_of_update_eq)
  show ?thesis
  proof (cases "j = i")
    case True
    with decrypt_encrypted [OF assms(1,3,4,5) e, of a'] assms(8) show ?thesis by (simp add: encrypted_vault_get_def assms(9) it)
  next
    case False
    from encrypt_cases [OF e] obtain nonce ct where "Inr nonce \<in> set (ev_random v)" and
      d: "n = b64_encode C nonce" "c = b64_encode C ct" "aead_encrypt C (ev_key v) nonce (uuid_bytes i) (as_bytes x) = Some ct"
      by blast
    then have l: "length nonce = 24" using assms(4) by (auto simp: nonces_ok_def full_nonces_def)
    show ?thesis
    proof (cases "aead_decrypt C (ev_key v) nonce (uuid_bytes j) ct")
      case None
      with False l assms(3) show ?thesis by (simp add: encrypted_vault_get_def assms(8,9) it d(1,2) decrypt_item_def)
    next
      case (Some m)
      with assms(2) [OF l Some] d assms(3) False show ?thesis by (auto simp: seal_collision_def it)
    qed
  qed
qed

definition example_attrs :: vault_attrs where
  "example_attrs = \<lparr>va_name = ascii ''TOKEN'', va_created_at = 0\<rparr>"

definition example_vault :: encrypted_vault where
  "example_vault = \<lparr>ev_key = replicate 32 7, ev_store = \<lparr>vf_items = [], vf_file = Ok None, vf_faults = []\<rparr>, ev_random = [Inr (replicate 24 1)]\<rparr>"

definition moved_vault :: encrypted_vault where
  "moved_vault = example_vault\<lparr>ev_store := (ev_store example_vault)\<lparr>vf_items :=
     map (\<lambda>(_, it). (2, it)) (vf_items (ev_store (snd (encrypted_vault_set toy_crypto 1 example_attrs (ascii ''v'') example_vault))))\<rparr>\<rparr>"

theorem sealed_value_bound_to_slot_witness:
  "encrypted_vault_get toy_crypto 2 moved_vault = Return (Err (VaultError (ascii ''vault decryption failed (wrong key or tampered)'')))"
proof -
  let ?s = "encrypted_vault_set toy_crypto 1 example_attrs (ascii ''v'') example_vault"
  let ?it = "\<lparr>ei_attrs = example_attrs, ei_nonce = b64_encode toy_crypto (replicate 24 1),
    ei_ciphertext = b64_encode toy_crypto (uuid_bytes 1 @ as_bytes (ascii ''v''))\<rparr>"
  have l: "length (uuid_bytes 1) = 16" by (simp add: uuid_bytes_def)
  have s: "fst ?s = Ok () \<and> vf_items (ev_store (snd ?s)) = [(1, ?it)]"
    by (simp add: encrypted_vault_set_def encrypt_value_def take_random_def example_vault_def commit_vault_def persist_vault_def
        toy_crypto_def toy_encrypt_def l)
  have m: "map_of (vf_items (ev_store moved_vault)) 2 = Some (?it\<lparr>ei_attrs := example_attrs\<rparr>)" and k: "ev_key moved_vault = ev_key example_vault"
    unfolding moved_vault_def using conjunct2 [OF s] by simp_all
  have st: "?s = (Ok (), snd ?s)" using surjective_pairing [of ?s] unfolding conjunct1 [OF s] .
  have i: "map_of (vf_items (ev_store (snd ?s))) 1 = Some ?it" unfolding conjunct2 [OF s] by simp
  have x: "rust_string (ascii ''v'')" by (simp add: rust_string_def is_scalar_def ascii_def)
  have n: "nonces_ok example_vault" by (simp add: nonces_ok_def full_nonces_def example_vault_def)
  have "encrypted_vault_get toy_crypto 2 moved_vault = Return (if (2 :: uuid) = 1 then Ok (ascii ''v'')
      else Err (VaultError (ascii ''vault decryption failed (wrong key or tampered)''))) \<or>
      (2 :: uuid) \<noteq> 1 \<and> seal_collision toy_crypto (ev_key example_vault) ?it 1 2"
    by (rule sealed_value_bound_to_slot [OF _ _ _ n x st i m k]) (erule toy_laws(1), erule toy_laws(2), rule toy_laws(3))
  moreover have "\<not> seal_collision toy_crypto (ev_key example_vault) ?it 1 2" by (rule toy_collision_free) simp
  ultimately show ?thesis by simp
qed

subsection \<open>The backend is never switched\<close>

lemma non_macos_vault_ok:
  assumes "non_macos_vault en mk opened w d = (Ok b, d')"
  shows "b = selected_platform_vault_backend mk \<and> read_vault_backend_record d' = Some b \<and>
    (read_vault_backend_record d = None \<or> read_vault_backend_record d = Some b)"
  using assms
  by (auto simp: non_macos_vault_def Let_def check_vault_backend_def recorded_platform_vault_backend_def
      read_vault_backend_record_def split: sum.splits option.splits if_splits)

lemma non_macos_vault_recorded:
  assumes "read_vault_backend_record d = Some b"
  shows "read_vault_backend_record (snd (non_macos_vault en mk opened w d)) = Some b"
  using assms
  by (auto simp: non_macos_vault_def Let_def check_vault_backend_def recorded_platform_vault_backend_def
      split: sum.splits option.splits if_splits)

text \<open>What happens to the directory between two openings: the vault files come and go, failed openings too.\<close>

inductive vault_dir_step :: "vault_dir \<Rightarrow> vault_dir \<Rightarrow> bool" where
  files: "vault_dir_step d (d\<lparr>has_encrypted := e, has_plaintext := p\<rparr>)"
| reopen: "vault_dir_step d (snd (non_macos_vault en mk opened w d))"

lemma read_record_files [simp]:
  "read_vault_backend_record (d\<lparr>has_encrypted := e, has_plaintext := p\<rparr>) = read_vault_backend_record d"
  by (simp add: read_vault_backend_record_def)

lemma vault_dir_steps_keep:
  "vault_dir_step\<^sup>*\<^sup>* d d' \<Longrightarrow> read_vault_backend_record d = Some b \<Longrightarrow> read_vault_backend_record d' = Some b"
  by (induction rule: rtranclp_induct) (auto elim!: vault_dir_step.cases simp: non_macos_vault_recorded)

text \<open>
  Once a data directory was opened with one backend, no later opening uses another, whatever keys the
  environment provides then, however often openings failed in between and whatever vault files appeared or
  went: it opens with the same backend or it is an error.
\<close>

theorem vault_backend_never_switches:
  assumes "non_macos_vault en mk opened w d = (Ok b, d')" and "vault_dir_step\<^sup>*\<^sup>* d' d1"
    and "non_macos_vault en' mk' opened' w' d1 = (Ok b', d2)"
  shows "b' = b"
  using non_macos_vault_ok [OF assms(1)] vault_dir_steps_keep [OF assms(2)] non_macos_vault_ok [OF assms(3)] by auto

definition empty_dir :: vault_dir where
  "empty_dir = \<lparr>backend_record = None, has_encrypted = False, has_plaintext = False\<rparr>"

theorem vault_backend_never_switches_witness:
  "fst (non_macos_vault (Ok ()) None (\<lambda>_. Ok ()) None empty_dir) = Ok PlaintextDevFile \<and>
   fst (non_macos_vault (Ok ()) None (\<lambda>_. Ok ()) None
     ((snd (non_macos_vault (Ok ()) None (\<lambda>_. Ok ()) None empty_dir))\<lparr>has_encrypted := True, has_plaintext := False\<rparr>)) = Ok PlaintextDevFile"
proof -
  let ?d' = "snd (non_macos_vault (Ok ()) None (\<lambda>_. Ok ()) None empty_dir)"
  let ?d1 = "?d'\<lparr>has_encrypted := True, has_plaintext := False\<rparr>"
  have 1: "non_macos_vault (Ok ()) None (\<lambda>_. Ok ()) None empty_dir = (Ok PlaintextDevFile, ?d')" by code_simp
  obtain b d2 where 2: "non_macos_vault (Ok ()) None (\<lambda>_. Ok ()) None ?d1 = (Ok b, d2)"
    by (simp add: non_macos_vault_def empty_dir_def check_vault_backend_def recorded_platform_vault_backend_def
        read_vault_backend_record_def infer_file_vault_backend_def selected_platform_vault_backend_def)
  have "vault_dir_step\<^sup>*\<^sup>* ?d' ?d1" by (rule r_into_rtranclp, rule vault_dir_step.files)
  from vault_backend_never_switches [OF 1 this 2] 1 2 show ?thesis by (metis fst_conv)
qed

subsection \<open>The master key is read back\<close>

lemma hex_pairs_length: "hex_pairs t = Some b \<Longrightarrow> length b = length t div 2"
  by (induction t arbitrary: b rule: hex_pairs.induct) (auto split: option.splits)

lemma parse_master_key_length: "parse_master_key std64 url64 t = Ok b \<Longrightarrow> length b = 32"
  by (auto simp: parse_master_key_def Let_def split: option.splits if_splits)

lemma hex_pairs_encode: "hex_pairs (map unat (encode_hex k)) = Some k"
  by (induction k) (simp_all add: encode_hex_def from_radix16_nibbles)

end
