(* ===== verification/OnePassword.thy ===== *)
theory OnePassword
  imports CoreTypes UntrustedText
begin

text \<open>
  Links to 1Password, from \<^verbatim>\<open>crates/aka-core/src/onepassword.rs\<close>: the stored references and integrations and
  their validation. The clients that fetch values (a sidecar process and the Connect REST API) are I/O.
  The URL parser is a parameter: what it yields is the record \<open>connect_url\<close>.
\<close>

subsection \<open>Data\<close>

record onepassword_secret_ref =
  integration_id :: uuid
  vault_id :: ustring
  vault_label :: ustring
  item_id :: ustring
  item_label :: ustring
  section_id :: "ustring option"
  section_label :: "ustring option"
  field_id :: ustring
  field_label :: ustring
  field_type :: "ustring option"

datatype onepassword_auth = DesktopApp ustring | ServiceAccount | Connect ustring

definition requires_token :: "onepassword_auth \<Rightarrow> bool" where
  "requires_token a = (case a of DesktopApp _ \<Rightarrow> False | ServiceAccount \<Rightarrow> True | Connect _ \<Rightarrow> True)"

record onepassword_integration =
  opi_id :: uuid
  opi_label :: ustring
  opi_auth :: onepassword_auth
  opi_created_at :: datetime
  opi_updated_at :: datetime

definition eq_ignore_ascii_case :: "ustring \<Rightarrow> ustring \<Rightarrow> bool" where
  "eq_ignore_ascii_case a b \<longleftrightarrow> to_ascii_lowercase a = to_ascii_lowercase b"

definition is_totp_field_type :: "ustring \<Rightarrow> bool" where
  "is_totp_field_type t \<longleftrightarrow> to_ascii_lowercase (trim t) \<in> {ascii ''totp'', ascii ''otp''}"

definition is_unsupported_field_type :: "ustring \<Rightarrow> bool" where
  "is_unsupported_field_type t \<longleftrightarrow> to_ascii_lowercase (trim t) \<in> {ascii ''unsupported'', ascii ''unknown''}"

subsection \<open>Validation\<close>

record connect_url =
  cu_scheme :: ustring
  cu_username :: ustring
  cu_password :: "ustring option"
  cu_host :: "ustring option"
  cu_path :: ustring
  cu_query :: "ustring option"
  cu_fragment :: "ustring option"

fun split_on :: "uchar \<Rightarrow> ustring \<Rightarrow> ustring list" where
  "split_on x [] = [[]]"
| "split_on x (c # s) = (if c = x then [] # split_on x s else (case split_on x s of p # ps \<Rightarrow> (c # p) # ps | [] \<Rightarrow> [[c]]))"

text \<open>
  \<open>host.parse::<IpAddr>().is_ok_and(|a| a.is_loopback())\<close> for what \<open>Url::host_str\<close> can give: an IPv6 host is
  written in brackets there, which \<open>IpAddr\<close> does not parse, so only dotted decimal remains: four octets of
  one to three digits without leading zeros.
\<close>

definition ipv4_octet :: "ustring \<Rightarrow> nat option" where
  "ipv4_octet s =
     (if s = [] \<or> length s > 3 \<or> \<not> list_all is_ascii_digit s \<or> (length s > 1 \<and> hd s = 48) then None
      else let n = foldl (\<lambda>a c. a * 10 + (c - 48)) 0 s in if n \<le> 255 then Some n else None)"

definition is_loopback_ip :: "ustring \<Rightarrow> bool" where
  "is_loopback_ip host =
     (case map ipv4_octet (split_on 46 host) of
        [Some a, Some _, Some _, Some _] \<Rightarrow> a = 127
      | _ \<Rightarrow> False)"

definition validate_connect_url :: "(ustring \<Rightarrow> connect_url option) \<Rightarrow> ustring \<Rightarrow> core_error + unit" where
  "validate_connect_url parse_url raw =
     (case parse_url raw of
        None \<Rightarrow> Err (InvalidOnePasswordIntegration (ascii ''the Connect URL is invalid''))
      | Some url \<Rightarrow>
          if cu_username url \<noteq> [] \<or> cu_password url \<noteq> None \<or> cu_query url \<noteq> None \<or> cu_fragment url \<noteq> None
          then Err (InvalidOnePasswordIntegration (ascii ''the Connect URL must not contain credentials, a query, or a fragment''))
          else
            let host = (case cu_host url of Some h \<Rightarrow> h | None \<Rightarrow> []);
                loopback = (eq_ignore_ascii_case host (ascii ''localhost'') \<or> is_loopback_ip host) in
            if cu_scheme url \<noteq> ascii ''https'' \<and> \<not> (cu_scheme url = ascii ''http'' \<and> loopback)
            then Err (InvalidOnePasswordIntegration (ascii ''Connect requires HTTPS; plain HTTP is accepted only on loopback''))
            else if cu_path url \<noteq> [47] \<and> cu_path url \<noteq> []
            then Err (InvalidOnePasswordIntegration (ascii ''the Connect URL must be an origin without a path''))
            else Ok ())"

definition printable :: "nat \<Rightarrow> ustring \<Rightarrow> bool" where
  "printable n s \<longleftrightarrow> s \<noteq> [] \<and> length s \<le> n \<and> \<not> list_ex is_control s"

definition validate_integration :: "(ustring \<Rightarrow> connect_url option) \<Rightarrow> ustring \<Rightarrow> onepassword_auth \<Rightarrow> core_error + unit" where
  "validate_integration parse_url label auth =
     (if \<not> printable 64 (trim label)
      then Err (InvalidOnePasswordIntegration (ascii ''the integration label must be 1'' @ [0x2013] @ ascii ''64 printable characters''))
      else case auth of
        DesktopApp acc \<Rightarrow>
          if \<not> printable 128 (trim acc)
          then Err (InvalidOnePasswordIntegration (ascii ''a 1Password account name or account UUID is required''))
          else Ok ()
      | ServiceAccount \<Rightarrow> Ok ()
      | Connect base_url \<Rightarrow> validate_connect_url parse_url base_url)"

definition normalize_reference :: "onepassword_secret_ref \<Rightarrow> onepassword_secret_ref" where
  "normalize_reference r =
     r\<lparr>section_id := (if section_id r = Some [] then None else section_id r),
       section_label := (if map_option trim (section_label r) = Some [] then None else section_label r),
       field_type := (if field_type r = Some [] then None else field_type r)\<rparr>"

definition catalog_char :: "uchar \<Rightarrow> bool" where
  "catalog_char c \<longleftrightarrow> is_ascii_alphanumeric c \<or> c = 95 \<or> c = 45"

definition catalog_id :: "ustring \<Rightarrow> bool" where
  "catalog_id s \<longleftrightarrow> s \<noteq> [] \<and> utf8_len s \<le> 128 \<and> list_all catalog_char s"

definition validate_catalog_id :: "ustring \<Rightarrow> ustring \<Rightarrow> core_error + unit" where
  "validate_catalog_id what s =
     (if catalog_id s then Ok ()
      else Err (InvalidOnePasswordIntegration (ascii ''invalid 1Password '' @ what @ ascii '' identifier'')))"

definition first_error :: "(core_error + unit) list \<Rightarrow> core_error + unit" where
  "first_error rs = (case List.find is_err rs of Some r \<Rightarrow> r | None \<Rightarrow> Ok ())"

definition reference_label :: "ustring \<Rightarrow> ustring \<Rightarrow> core_error + unit" where
  "reference_label what s =
     (if printable 256 s then Ok () else Err (InvalidOnePasswordIntegration (ascii ''invalid 1Password '' @ what)))"

definition validate_reference :: "onepassword_secret_ref \<Rightarrow> core_error + unit" where
  "validate_reference r = first_error
     [validate_catalog_id (ascii ''vault'') (vault_id r),
      validate_catalog_id (ascii ''item'') (item_id r),
      validate_catalog_id (ascii ''field'') (field_id r),
      (case section_id r of
         Some s \<Rightarrow> if s = [] \<or> utf8_len s > 128 then Err (InvalidOnePasswordIntegration (ascii ''invalid 1Password section identifier'')) else Ok ()
       | None \<Rightarrow> Ok ()),
      reference_label (ascii ''vault label'') (vault_label r),
      reference_label (ascii ''item label'') (item_label r),
      reference_label (ascii ''field label'') (field_label r),
      (case section_label r of
         Some s \<Rightarrow> if s \<noteq> [] \<and> (length s > 256 \<or> list_ex is_control s) then Err (InvalidOnePasswordIntegration (ascii ''invalid 1Password section label'')) else Ok ()
       | None \<Rightarrow> Ok ()),
      (case field_type r of
         Some s \<Rightarrow> if s = [] \<or> utf8_len s > 64 \<or> \<not> list_all (\<lambda>c. is_ascii_alphanumeric c \<or> c = 95) s
           then Err (InvalidOnePasswordIntegration (ascii ''invalid 1Password field type'')) else Ok ()
       | None \<Rightarrow> Ok ()),
      (case field_type r of
         Some s \<Rightarrow> if is_unsupported_field_type s then Err (InvalidOnePasswordIntegration (ascii ''unsupported 1Password fields cannot be linked'')) else Ok ()
       | None \<Rightarrow> Ok ())]"

subsection \<open>What validation guarantees\<close>

lemma first_error_ok: "first_error rs = Ok () \<longleftrightarrow> list_all (\<lambda>r. \<not> is_err r) rs"
proof (induction rs)
  case (Cons r rs)
  then show ?case by (cases r) (simp_all add: first_error_def)
qed (simp add: first_error_def)

lemma normalize_reference_idem: "normalize_reference (normalize_reference r) = normalize_reference r"
  unfolding normalize_reference_def by (cases r) auto

text \<open>An accepted reference holds identifiers that are safe to put into a URL path, and a field that can be read.\<close>

lemma validate_reference_ok:
  assumes "validate_reference r = Ok ()"
  shows "catalog_id (vault_id r) \<and> catalog_id (item_id r) \<and> catalog_id (field_id r) \<and>
    section_id r \<noteq> Some [] \<and> (\<forall>t. field_type r = Some t \<longrightarrow> \<not> is_unsupported_field_type t)"
proof -
  note h = assms [unfolded validate_reference_def first_error_ok list.pred_inject]
  have c: "catalog_id s" if "\<not> is_err (validate_catalog_id w s)" for w s
    using that by (simp add: validate_catalog_id_def split: if_splits)
  from h have "section_id r \<noteq> Some []" by (elim conjE) (cases "section_id r", simp_all split: if_splits)
  moreover from h have "\<not> is_unsupported_field_type t" if "field_type r = Some t" for t
    using that by (elim conjE) (simp split: if_splits)
  ultimately show ?thesis using h c by blast
qed

text \<open>Plain HTTP to a Connect server is accepted for the loopback host only.\<close>

lemma validate_connect_url_ok:
  assumes "validate_connect_url parse_url raw = Ok ()"
  shows "\<exists>url. parse_url raw = Some url \<and> cu_username url = [] \<and> cu_password url = None \<and> cu_query url = None \<and>
    (cu_scheme url = ascii ''https'' \<or> cu_scheme url = ascii ''http'' \<and>
      (\<exists>h. cu_host url = Some h \<and> (eq_ignore_ascii_case h (ascii ''localhost'') \<or> is_loopback_ip h)))"
proof -
  have n: "\<not> eq_ignore_ascii_case [] (ascii ''localhost'')" "\<not> is_loopback_ip []"
    by (simp_all add: eq_ignore_ascii_case_def to_ascii_lowercase_def is_loopback_ip_def ipv4_octet_def)
  show ?thesis using assms n
    by (auto simp: validate_connect_url_def Let_def split: option.splits if_splits)
qed

end
