(* ===== verification/Catalog.thy ===== *)
theory Catalog
  imports OnePassword Passwords Vault "HOL-Library.List_Lexorder" "HOL-Library.Multiset"
begin

text \<open>
  What the store keeps in \<^verbatim>\<open>index.json\<close>, from \<^verbatim>\<open>crates/aka-core/src/store.rs\<close>: secrets, links and connections,
  the validation of a connection and the binding of its secrets, the rewriting of references when a secret
  is renamed, the inheritance of fields an edit leaves out, and the migrations at load. All functions here
  are pure; \<open>Store\<close> adds the file and the vault. The URL and fingerprint parsers and the character classes
  of \<^verbatim>\<open>{:?}\<close> are the fields of \<open>store_env\<close>.
\<close>

subsection \<open>Results\<close>

definition and_then :: "'e + 'a \<Rightarrow> ('a \<Rightarrow> 'e + 'b) \<Rightarrow> 'e + 'b" where
  "and_then r f = (case r of Inl e \<Rightarrow> Err e | Inr x \<Rightarrow> f x)"

lemma and_then_simps [simp]: "and_then (Inl e) f = Inl e" "and_then (Inr x) f = f x"
  by (simp_all add: and_then_def)

lemma and_then_ok [simp]: "and_then r f = Inr y \<longleftrightarrow> (\<exists>x. r = Inr x \<and> f x = Inr y)"
  by (cases r) simp_all

definition ensure :: "bool \<Rightarrow> 'e \<Rightarrow> 'e + unit" where
  "ensure p e = (if p then Ok () else Err e)"

lemma ensure_ok [simp]: "ensure p e = Inr u \<longleftrightarrow> p"
  by (simp add: ensure_def)

text \<open>\<open>iter().map(f).collect::<Result<Vec<_>, _>>()\<close>\<close>

fun collect_ok :: "('a \<Rightarrow> 'e + 'b) \<Rightarrow> 'a list \<Rightarrow> 'e + 'b list" where
  "collect_ok f [] = Ok []"
| "collect_ok f (x # xs) = and_then (f x) (\<lambda>y. and_then (collect_ok f xs) (\<lambda>ys. Ok (y # ys)))"

lemma collect_ok_Ok: "collect_ok f xs = Inr ys \<longleftrightarrow> map f xs = map Inr ys"
proof (induction xs arbitrary: ys)
  case (Cons x xs)
  show ?case by (cases ys) (auto simp: Cons)
qed auto

subsection \<open>Data\<close>

datatype secret_kind = Secret | Password

datatype secret_source = Local | FromOnePassword onepassword_secret_ref

record secret_meta =
  sm_id :: uuid
  sm_name :: ustring
  sm_created_at :: datetime
  sm_updated_at :: datetime
  sm_source :: secret_source
  sm_kind :: secret_kind
  sm_site :: "ustring option"
  sm_username :: "ustring option"
  totp_vault_id :: "uuid option"

record app_settings =
  legacy_pg_trusted_ca_bundle_path :: "ustring option"
  menu_bar_hides_dock :: bool
  confirm_ssh_host_keys :: bool

definition default_settings :: app_settings where
  "default_settings = \<lparr>legacy_pg_trusted_ca_bundle_path = None, menu_bar_hides_dock = False, confirm_ssh_host_keys = False\<rparr>"

record index_state =
  ix_secrets :: "secret_meta list"
  ix_integrations :: "onepassword_integration list"
  ix_connections :: "connection list"
  ix_settings :: "app_settings option"
  ix_access_generation :: nat

definition default_index :: index_state where
  "default_index = \<lparr>ix_secrets = [], ix_integrations = [], ix_connections = [], ix_settings = None, ix_access_generation = 0\<rparr>"

definition index_settings :: "index_state \<Rightarrow> app_settings" where
  "index_settings st = (case ix_settings st of Some x \<Rightarrow> x | None \<Rightarrow> default_settings)"

record new_credential =
  nc_kind :: secret_kind
  nc_name :: "ustring option"
  nc_site :: "ustring option"
  nc_username :: "ustring option"
  nc_value :: ustring
  nc_totp :: "ustring option"

record connection_spec =
  spec_name :: ustring
  spec_config :: connection_config
  spec_secrets :: "uuid list"

record 'f store_env =
  url_parse :: "ustring \<Rightarrow> connect_url option"
  fp_parse :: "ustring \<Rightarrow> ustring + 'f"
  fp_show :: "'f \<Rightarrow> ustring"
  unprintable :: "uchar \<Rightarrow> bool"

datatype 'f pin_outcome = Pinned 'f | AlreadyPinned 'f

definition totp_vault_attrs :: "ustring \<Rightarrow> datetime \<Rightarrow> vault_attrs" where
  "totp_vault_attrs name created = \<lparr>va_name = name @ ascii '' (2FA)'', va_created_at = created\<rparr>"

definition next_connection_updated_at :: "datetime \<Rightarrow> datetime \<Rightarrow> datetime" where
  "next_connection_updated_at now previous = (if now > previous then now else previous + 1)"

definition validate_onepassword_token_input :: "onepassword_auth \<Rightarrow> ustring option \<Rightarrow> core_error + unit" where
  "validate_onepassword_token_input auth token =
     (if requires_token auth \<and> (case token of None \<Rightarrow> True | Some t \<Rightarrow> trim t = [])
      then Err (InvalidOnePasswordIntegration (ascii ''a non-empty 1Password access token is required''))
      else if \<not> requires_token auth \<and> token \<noteq> None
      then Err (InvalidOnePasswordIntegration (ascii ''desktop-app integrations do not accept an access token''))
      else if (case token of None \<Rightarrow> False | Some t \<Rightarrow> utf8_len t > 16 * 1024)
      then Err (InvalidOnePasswordIntegration (ascii ''the 1Password access token is too large''))
      else Ok ())"

subsection \<open>Loading\<close>

text \<open>
  A stored row: its kind and name as far as the JSON has them, and what deserializing it as a connection
  gives.
\<close>

record stored_row =
  row_kind :: "ustring option"
  row_name :: "ustring option"
  row_connection :: "connection option"

definition SUPPORTED_CONNECTION_KINDS :: "ustring list" where
  "SUPPORTED_CONNECTION_KINDS = [ascii ''api'', ascii ''pg'', ascii ''ssh'']"

fun connections_dropping_retired_kinds :: "stored_row list \<Rightarrow> core_error + connection list \<times> ustring list" where
  "connections_dropping_retired_kinds [] = Ok ([], [])"
| "connections_dropping_retired_kinds (row # rows) =
     (case row_connection row of
        Some c \<Rightarrow> and_then (connections_dropping_retired_kinds rows) (\<lambda>(cs, dropped). Ok (c # cs, dropped))
      | None \<Rightarrow>
          (case row_kind row of
             None \<Rightarrow> Err CorruptState
           | Some kd \<Rightarrow>
               if kd \<in> set SUPPORTED_CONNECTION_KINDS then Err CorruptState
               else and_then (connections_dropping_retired_kinds rows)
                 (\<lambda>(cs, dropped). Ok (cs,
                    ((case row_name row of Some n \<Rightarrow> n | None \<Rightarrow> ascii ''unnamed'') @ ascii '' ('' @ kd @ ascii '')'') # dropped))))"

definition migrate_legacy_pg_ca_bundle :: "index_state \<Rightarrow> index_state \<times> bool" where
  "migrate_legacy_pg_ca_bundle st =
     (case ix_settings st of
        None \<Rightarrow> (st, False)
      | Some cfg \<Rightarrow>
          (case legacy_pg_trusted_ca_bundle_path cfg of
             None \<Rightarrow> (st, False)
           | Some path \<Rightarrow>
               (st\<lparr>ix_settings := Some (cfg\<lparr>legacy_pg_trusted_ca_bundle_path := None\<rparr>),
                  ix_connections := map (\<lambda>c.
                    case conn_config c of
                      Pg p \<Rightarrow> if pg_trusted_ca_bundle_path p = None
                        then c\<lparr>conn_config := Pg (p\<lparr>pg_trusted_ca_bundle_path := Some path\<rparr>)\<rparr> else c
                    | _ \<Rightarrow> c) (ix_connections st)\<rparr>, True)))"

definition migrate_token_secret_id :: "connection \<Rightarrow> connection \<times> bool" where
  "migrate_token_secret_id c =
     (case conn_config c of
        Api a \<Rightarrow>
          (case (api_oauth a, conn_secrets c) of
             (Some oa, [i]) \<Rightarrow>
               if token_secret_id oa = None
               then (c\<lparr>conn_config := Api (a\<lparr>api_oauth := Some (oa\<lparr>token_secret_id := Some i\<rparr>)\<rparr>)\<rparr>, True) else (c, False)
           | _ \<Rightarrow> (c, False))
      | _ \<Rightarrow> (c, False))"

definition migrate_oauth_token_secret_ids :: "index_state \<Rightarrow> index_state \<times> bool" where
  "migrate_oauth_token_secret_ids st =
     (st\<lparr>ix_connections := map (fst \<circ> migrate_token_secret_id) (ix_connections st)\<rparr>,
      list_ex (snd \<circ> migrate_token_secret_id) (ix_connections st))"

subsection \<open>Validation and binding\<close>

definition connection_name_char :: "uchar \<Rightarrow> bool" where
  "connection_name_char c \<longleftrightarrow> is_ascii_alphanumeric c \<or> c \<in> set (ascii '' -_()@.:[]'')"

definition connection_name_ok :: "ustring \<Rightarrow> bool" where
  "connection_name_ok name \<longleftrightarrow> name \<noteq> [] \<and> utf8_len name \<le> 64 \<and> list_all connection_name_char name \<and>
     is_ascii_alphanumeric (hd name) \<and> last name \<noteq> 32"

definition validate_connection_name :: "ustring \<Rightarrow> core_error + unit" where
  "validate_connection_name name = ensure (connection_name_ok name) (InvalidConnectionName name)"

text \<open>\<open>validate_path\<close> of \<^verbatim>\<open>capability/http.rs\<close>: whether the result is \<open>Ok\<close>.\<close>

definition validate_path :: "ustring \<Rightarrow> bool" where
  "validate_path p \<longleftrightarrow> take 1 p = [47] \<and> take 2 p \<noteq> [47, 47] \<and> 92 \<notin> set p \<and> 35 \<notin> set p \<and> \<not> list_ex (\<lambda>c. c < 32 \<or> c = 127) p"

definition template_error_text :: "(uchar \<Rightarrow> bool) \<Rightarrow> template_error \<Rightarrow> ustring" where
  "template_error_text np e =
     (case e of
        Unclosed \<Rightarrow> ascii ''unclosed '{{' placeholder''
      | Empty \<Rightarrow> ascii ''empty placeholder''
      | UnknownTransform n \<Rightarrow> ascii ''unknown transform '' @ debug_str np n @ ascii '' (v1 supports base64, url)''
      | NoArgs n \<Rightarrow> ascii ''transform '' @ n @ ascii '' expects at least one argument''
      | UrlArity \<Rightarrow> ascii ''url() takes exactly one argument''
      | UnterminatedString \<Rightarrow> ascii ''unterminated string literal in placeholder''
      | BadRef n \<Rightarrow> ascii ''invalid secret reference '' @ debug_str np n
      | Unexpected n \<Rightarrow> ascii ''unexpected token at '' @ debug_str np n)"

definition core_parse_template :: "'f store_env \<Rightarrow> ustring \<Rightarrow> core_error + template" where
  "core_parse_template E s =
     (case parse_template s of Inl e \<Rightarrow> Err (TemplateInvalid (template_error_text (unprintable E) e)) | Inr t \<Rightarrow> Ok t)"

text \<open>\<open>refs()\<close> is a \<open>BTreeSet\<close>: its iteration is sorted.\<close>

definition refs_in_order :: "template \<Rightarrow> ustring list" where
  "refs_in_order t = sorted_list_of_set (template_refs t)"

definition find_by_name :: "index_state \<Rightarrow> ustring \<Rightarrow> core_error + uuid" where
  "find_by_name st name =
     (case List.find (\<lambda>m. sm_name m = name) (ix_secrets st) of
        Some m \<Rightarrow> Ok (sm_id m)
      | None \<Rightarrow> Err (UnknownTemplateRef name))"

definition host_only :: "ustring \<Rightarrow> core_error + unit" where
  "host_only h = ensure (h \<noteq> [] \<and> 47 \<notin> set h \<and> 64 \<notin> set h \<and> 58 \<notin> set h)
     (InvalidConnectionField FieldHost (ascii ''Enter only the hostname, without a user, port, scheme, or path''))"

definition api_field_checks :: "api_config \<Rightarrow> (core_error + unit) list" where
  "api_field_checks a =
     [host_only (api_host a),
      ensure (api_scheme a = ascii ''https'' \<or> api_scheme a = ascii ''http'') (InvalidConnectionField FieldScheme (ascii ''Use http:// or https://'')),
      ensure (\<forall>p \<in> set_option (api_trusted_ca_bundle_path a). trim p \<noteq> [])
        (InvalidConnectionField FieldUrl (ascii ''The trusted CA bundle path cannot be blank'')),
      ensure (\<forall>p \<in> set_option (mcp_path a). take 1 p = [47])
        (InvalidConnectionField FieldUrl (ascii ''The MCP path must start with / (for example /mcp)'')),
      ensure (\<forall>p \<in> set_option (test_path a). validate_path p)
        (InvalidConnectionField FieldUrl (ascii ''The test path must start with a single / (for example /user)'')),
      ensure ((client_cert_path a = None) = (client_key_path a = None))
        (InvalidConnectionField FieldUrl (ascii ''A client certificate and its private key must be configured together'')),
      ensure (\<forall>p \<in> set_option (client_cert_path a) \<union> set_option (client_key_path a). trim p \<noteq> [])
        (InvalidConnectionField FieldUrl (ascii ''Client certificate paths cannot be blank''))]"

definition signer_checks :: "api_config \<Rightarrow> signer_spec \<Rightarrow> (core_error + unit) list" where
  "signer_checks a sg =
     [ensure (api_oauth a = None) (InvalidConnectionField FieldTemplate (ascii ''A request signer cannot be combined with OAuth'')),
      ensure (trim (api_template a) = [])
        (InvalidConnectionField FieldTemplate (ascii ''A request signer cannot be combined with an injection template'')),
      ensure (mcp_path a = None) (InvalidConnectionField FieldUrl (ascii ''A request signer cannot be combined with an MCP path'')),
      (case sg of
         AwsSigv4 w \<Rightarrow> ensure (trim (region w) \<noteq> [] \<and> trim (service w) \<noteq> [])
           (InvalidConnectionField FieldTemplate (ascii ''A SigV4 signer needs both a region and a service''))
       | GcpServiceAccount k scope \<Rightarrow> ensure (trim scope \<noteq> [])
           (InvalidConnectionField FieldTemplate (ascii ''A GCP service-account signer needs an OAuth scope'')))]"

definition https_url :: "'f store_env \<Rightarrow> ustring \<Rightarrow> bool" where
  "https_url E s =
     (case url_parse E s of
        None \<Rightarrow> False
      | Some u \<Rightarrow> cu_scheme u = ascii ''https'' \<or> cu_scheme u = ascii ''http'' \<and>
          cu_host u \<in> {Some (ascii ''127.0.0.1''), Some (ascii ''localhost''), Some (ascii ''[::1]'')})"

definition oauth_checks :: "'f store_env \<Rightarrow> api_config \<Rightarrow> (core_error + unit) list" where
  "oauth_checks E a =
     (case api_oauth a of
        None \<Rightarrow> []
      | Some oa \<Rightarrow>
          [ensure (mcp_path a = None)
             (InvalidConnectionField FieldUrl (ascii ''An MCP path cannot be combined with API OAuth; use the MCP sign-in flow instead'')),
           ensure (https_url E (auth_url oa) \<and> https_url E (token_url oa))
             (InvalidConnectionField FieldUrl (ascii ''OAuth endpoints must be complete https:// URLs'')),
           ensure (trim (client_id oa) \<noteq> []) (InvalidConnectionField FieldTemplate (ascii ''The OAuth client ID is required'')),
           ensure (trim (api_template a) \<noteq> [])
             (InvalidConnectionField FieldTemplate (ascii ''An OAuth connection must reference its token credential''))])"

definition bind_api_secrets :: "'f store_env \<Rightarrow> index_state \<Rightarrow> api_config \<Rightarrow> core_error + uuid list" where
  "bind_api_secrets E st a =
     and_then (first_error (api_field_checks a)) (\<lambda>_.
       case signer a of
         Some sg \<Rightarrow> and_then (first_error (signer_checks a sg)) (\<lambda>_. collect_ok (find_by_name st) (signer_refs sg))
       | None \<Rightarrow>
           and_then (first_error (oauth_checks E a)) (\<lambda>_.
             if trim (api_template a) = [] then Ok []
             else and_then (core_parse_template E (api_template a)) (\<lambda>t.
               if template_refs t = {}
               then Err (InvalidConnectionField FieldTemplate (ascii ''Add a saved credential reference such as {{API_KEY}}''))
               else collect_ok (find_by_name st) (refs_in_order t))))"

definition kind_label :: "connection_kind \<Rightarrow> ustring" where
  "kind_label k = (case k of KindPg \<Rightarrow> ascii ''postgres'' | KindSsh \<Rightarrow> ascii ''ssh'' | KindApi \<Rightarrow> ascii '''')"

definition bind_optional_secret :: "index_state \<Rightarrow> connection_spec \<Rightarrow> core_error + uuid list" where
  "bind_optional_secret st spec =
     (if length (spec_secrets spec) > 1 then Err (WrongSecretCount (kind_label (config_kind (spec_config spec))))
      else case spec_secrets spec of
        [] \<Rightarrow> Ok []
      | i # _ \<Rightarrow> if list_ex (\<lambda>m. sm_id m = i) (ix_secrets st) then Ok (spec_secrets spec) else Err SecretNotFound)"

definition pg_field_checks :: "pg_config \<Rightarrow> (core_error + unit) list" where
  "pg_field_checks p =
     [ensure (pg_host p \<noteq> []) (InvalidConnectionField FieldHost (ascii ''Host is required'')),
      ensure (pg_port p \<noteq> 0) (InvalidConnectionField FieldPort (ascii ''Port must be 1'' @ [0x2013] @ ascii ''65535'')),
      ensure (dbname p \<noteq> []) (InvalidConnectionField FieldDatabase (ascii ''Database is required'')),
      ensure (pg_user p \<noteq> []) (InvalidConnectionField FieldUser (ascii ''User is required''))]"

definition ssh_alias_ok :: "ustring \<Rightarrow> bool" where
  "ssh_alias_ok d \<longleftrightarrow> d \<noteq> [] \<and> 47 \<notin> set d \<and> 58 \<notin> set d \<and> \<not> list_ex is_whitespace d \<and> length (filter (\<lambda>c. c = 64) d) \<le> 1"

definition ssh_field_checks :: "'f store_env \<Rightarrow> ssh_config \<Rightarrow> (core_error + unit) list" where
  "ssh_field_checks E s =
     [ensure (\<forall>d \<in> set_option (destination s). ssh_alias_ok d) (InvalidConnectionConfig (ascii ''invalid SSH destination alias'')),
      host_only (ssh_host s),
      ensure (ssh_port s \<noteq> 0) (InvalidConnectionField FieldPort (ascii ''Port must be 1'' @ [0x2013] @ ascii ''65535'')),
      ensure (ssh_user s \<noteq> []) (InvalidConnectionField FieldUser (ascii ''User is required'')),
      ensure (host_key_fingerprint s = [] \<or> \<not> is_err (fp_parse E (host_key_fingerprint s)))
        (InvalidConnectionField FieldHostKeyFingerprint (ascii ''Enter an OpenSSH SHA-256 or SHA-512 fingerprint''))]"

definition validate_config_and_bind_secrets :: "'f store_env \<Rightarrow> index_state \<Rightarrow> connection_spec \<Rightarrow> core_error + uuid list" where
  "validate_config_and_bind_secrets E st spec =
     (case spec_config spec of
        Api a \<Rightarrow> bind_api_secrets E st a
      | Pg p \<Rightarrow> and_then (first_error (pg_field_checks p)) (\<lambda>_. bind_optional_secret st spec)
      | Ssh s \<Rightarrow> and_then (first_error (ssh_field_checks E s)) (\<lambda>_. bind_optional_secret st spec))"

subsection \<open>Inheritance at an edit\<close>

definition inherit_oauth_spec :: "connection_config \<Rightarrow> connection_config \<Rightarrow> connection_config" where
  "inherit_oauth_spec existing incoming =
     (case (existing, incoming) of
        (Api x, Api y) \<Rightarrow>
          (case (api_oauth x, api_oauth y) of
             (Some oa, None) \<Rightarrow> Api (y\<lparr>api_oauth := Some oa\<rparr>)
           | _ \<Rightarrow> incoming)
      | _ \<Rightarrow> incoming)"

definition inherit_oauth_token_secret_id :: "connection_config \<Rightarrow> connection_config \<Rightarrow> connection_config" where
  "inherit_oauth_token_secret_id existing incoming =
     (case (existing, incoming) of
        (Api x, Api y) \<Rightarrow>
          (case (api_oauth x, api_oauth y) of
             (Some ox, Some oy) \<Rightarrow>
               if token_secret_id oy = None then Api (y\<lparr>api_oauth := Some (oy\<lparr>token_secret_id := token_secret_id ox\<rparr>)\<rparr>) else incoming
           | _ \<Rightarrow> incoming)
      | _ \<Rightarrow> incoming)"

definition inherit_signer_and_mtls :: "connection_config \<Rightarrow> connection_config \<Rightarrow> connection_config" where
  "inherit_signer_and_mtls existing incoming =
     (if config_target existing \<noteq> config_target incoming then incoming
      else case (existing, incoming) of
        (Api x, Api y) \<Rightarrow>
          let y = (if signer y = None then y\<lparr>signer := signer x\<rparr> else y);
              y = (if client_cert_path y = None \<and> client_key_path y = None
                   then y\<lparr>client_cert_path := client_cert_path x, client_key_path := client_key_path x\<rparr> else y) in
          Api y
      | _ \<Rightarrow> incoming)"

definition pin_oauth_token_secret :: "connection_config \<Rightarrow> uuid list \<Rightarrow> uuid option \<Rightarrow> core_error + connection_config" where
  "pin_oauth_token_secret cfg bound preferred =
     (case cfg of
        Api a \<Rightarrow>
          (case api_oauth a of
             None \<Rightarrow> Ok cfg
           | Some oa \<Rightarrow>
               (case (case token_secret_id oa of
                        Some i \<Rightarrow> Some i
                      | None \<Rightarrow>
                          (case preferred of
                             Some i \<Rightarrow> if i \<in> set bound then Some i else (case bound of [j] \<Rightarrow> Some j | _ \<Rightarrow> None)
                           | None \<Rightarrow> (case bound of [j] \<Rightarrow> Some j | _ \<Rightarrow> None))) of
                  None \<Rightarrow> Err (InvalidConnectionConfig (ascii ''the OAuth token credential is ambiguous; reconnect this tool to bind it explicitly''))
                | Some i \<Rightarrow>
                    if i \<notin> set bound
                    then Err (InvalidConnectionConfig (ascii ''the OAuth token credential is not referenced by this connection''))
                    else Ok (Api (a\<lparr>api_oauth := Some (oa\<lparr>token_secret_id := Some i\<rparr>)\<rparr>))))
      | _ \<Rightarrow> Ok cfg)"

subsection \<open>New connections\<close>

text \<open>\<open>cid\<close> is the minted id, \<open>now\<close> the clock.\<close>

definition new_connection :: "uuid \<Rightarrow> datetime \<Rightarrow> ustring \<Rightarrow> connection_config \<Rightarrow> uuid list \<Rightarrow> connection" where
  "new_connection cid now name cfg bound =
     \<lparr>conn_id = cid, conn_name = name, conn_config = cfg, conn_secrets = bound, account = None, conn_oauth = None,
      conn_created_at = now, conn_updated_at = now\<rparr>"

definition prepare_connection :: "'f store_env \<Rightarrow> uuid \<Rightarrow> datetime \<Rightarrow> index_state \<Rightarrow> connection_spec \<Rightarrow> core_error + connection" where
  "prepare_connection E cid now st spec =
     and_then (validate_connection_name (spec_name spec)) (\<lambda>_.
     and_then (ensure (\<not> list_ex (\<lambda>c. conn_name c = spec_name spec) (ix_connections st)) (ConnectionNameTaken (spec_name spec))) (\<lambda>_.
     and_then (validate_config_and_bind_secrets E st spec) (\<lambda>bound.
     and_then (pin_oauth_token_secret (spec_config spec) bound (case spec_secrets spec of [i] \<Rightarrow> Some i | _ \<Rightarrow> None)) (\<lambda>cfg.
     Ok (new_connection cid now (spec_name spec) cfg bound)))))"

definition new_secret :: "uuid \<Rightarrow> datetime \<Rightarrow> ustring \<Rightarrow> secret_source \<Rightarrow> secret_meta" where
  "new_secret sid now name src =
     \<lparr>sm_id = sid, sm_name = name, sm_created_at = now, sm_updated_at = now, sm_source = src, sm_kind = Secret, sm_site = None,
      sm_username = None, totp_vault_id = None\<rparr>"

definition prepare_connection_with_secret ::
    "'f store_env \<Rightarrow> uuid \<Rightarrow> uuid \<Rightarrow> datetime \<Rightarrow> index_state \<Rightarrow> ustring \<Rightarrow> connection_spec \<Rightarrow> core_error + secret_meta \<times> connection" where
  "prepare_connection_with_secret E sid cid now st name spec =
     and_then (ensure (is_valid_secret_name name) (InvalidSecretName name)) (\<lambda>_.
     and_then (validate_connection_name (spec_name spec)) (\<lambda>_.
     and_then (ensure (\<not> list_ex (\<lambda>m. sm_name m = name) (ix_secrets st)) (SecretNameTaken name)) (\<lambda>_.
     and_then (ensure (\<not> list_ex (\<lambda>c. conn_name c = spec_name spec) (ix_connections st)) (ConnectionNameTaken (spec_name spec))) (\<lambda>_.
       let meta = new_secret sid now name Local;
           next_st = st\<lparr>ix_secrets := ix_secrets st @ [meta]\<rparr>;
           spec = (if config_kind (spec_config spec) \<noteq> KindApi then spec\<lparr>spec_secrets := [sid]\<rparr> else spec) in
       and_then (validate_config_and_bind_secrets E next_st spec) (\<lambda>bound.
       if sid \<notin> set bound
       then Err (InvalidConnectionConfig (ascii ''the new credential is not referenced by this connection''))
       else and_then (pin_oauth_token_secret (spec_config spec) bound (Some sid)) (\<lambda>cfg.
         Ok (meta, new_connection cid now (spec_name spec) cfg bound)))))))"

subsection \<open>Renaming a secret\<close>

text \<open>\<open>at\<close> is the clock when a connection is rewritten.\<close>

definition rename_in_connection ::
    "'f store_env \<Rightarrow> ustring \<Rightarrow> ustring \<Rightarrow> (uuid \<Rightarrow> datetime) \<Rightarrow> connection \<Rightarrow> core_error + connection \<times> bool" where
  "rename_in_connection E old new at c =
     (case conn_config c of
        Api a \<Rightarrow>
          and_then (core_parse_template E (api_template a)) (\<lambda>t.
            let hit = (old \<in> template_refs t);
                tmpl = (if hit then rename_ref (unprintable E) t old new else api_template a);
                sg = map_option (signer_rename_ref old new) (signer a);
                touched = (hit \<or> (case sg of Some (_, b) \<Rightarrow> b | None \<Rightarrow> False)) in
            Ok (if touched
                then c\<lparr>conn_config := Api (a\<lparr>api_template := tmpl, signer := map_option fst sg\<rparr>),
                       conn_updated_at := next_connection_updated_at (at (conn_id c)) (conn_updated_at c)\<rparr>
                else c, touched))
      | _ \<Rightarrow> Ok (c, False))"

fun rename_in_connections ::
    "'f store_env \<Rightarrow> ustring \<Rightarrow> ustring \<Rightarrow> (uuid \<Rightarrow> datetime) \<Rightarrow> connection list \<Rightarrow> core_error + connection list \<times> nat" where
  "rename_in_connections E old new at [] = Ok ([], 0)"
| "rename_in_connections E old new at (c # cs) =
     and_then (rename_in_connection E old new at c) (\<lambda>(c', touched).
     and_then (rename_in_connections E old new at cs) (\<lambda>(cs', n).
     Ok (c' # cs', (if touched then 1 else 0) + n)))"

subsection \<open>Reordering\<close>

fun take_ordered :: "uuid list \<Rightarrow> connection list \<Rightarrow> connection list" where
  "take_ordered [] remaining = remaining"
| "take_ordered (i # is) remaining =
     (case List.find (\<lambda>c. conn_id c = i) remaining of
        Some c \<Rightarrow> c # take_ordered is (remove_first (\<lambda>c. conn_id c = i) remaining)
      | None \<Rightarrow> take_ordered is remaining)"

subsection \<open>Versions\<close>

text \<open>
  The opaque version of a connection: SHA-256 over the time of the last change and the JSON of what a
  specification shows of it, cut to 16 bytes and printed in hex. The digest, the printed time and the
  JSON text are parameters.
\<close>

definition connection_version ::
    "(bytes \<Rightarrow> bytes) \<Rightarrow> (datetime \<Rightarrow> bytes) \<Rightarrow> (ustring \<times> connection_config \<times> uuid list \<Rightarrow> bytes) \<Rightarrow> connection \<Rightarrow> bytes" where
  "connection_version sha rfc json c =
     encode_hex (take 16 (sha (rfc (conn_updated_at c) @ json (conn_name c, conn_config c, conn_secrets c))))"

subsection \<open>The catalog invariant\<close>

text \<open>The vault items an index refers to.\<close>

definition secret_vault_ids :: "secret_meta \<Rightarrow> uuid list" where
  "secret_vault_ids m = (if sm_source m = Local then [sm_id m] else []) @ (case totp_vault_id m of Some t \<Rightarrow> [t] | None \<Rightarrow> [])"

definition integration_vault_ids :: "onepassword_integration \<Rightarrow> uuid list" where
  "integration_vault_ids x = (if requires_token (opi_auth x) then [opi_id x] else [])"

definition connection_vault_ids :: "connection \<Rightarrow> uuid list" where
  "connection_vault_ids c = (case conn_oauth c of Some oa \<Rightarrow> [grant_id oa] | None \<Rightarrow> [])"

definition vault_ids :: "index_state \<Rightarrow> uuid list" where
  "vault_ids st = concat (map secret_vault_ids (ix_secrets st)) @ concat (map integration_vault_ids (ix_integrations st)) @
     concat (map connection_vault_ids (ix_connections st))"

definition secret_shape :: "secret_meta \<Rightarrow> bool" where
  "secret_shape m \<longleftrightarrow> is_valid_secret_name (sm_name m) \<and>
     (case sm_kind m of
        Secret \<Rightarrow> sm_site m = None \<and> sm_username m = None \<and> totp_vault_id m = None
      | Password \<Rightarrow> sm_source m = Local \<and> sm_site m \<notin> {None, Some []} \<and> sm_username m \<noteq> Some [])"

definition secret_linked :: "onepassword_integration list \<Rightarrow> secret_meta \<Rightarrow> bool" where
  "secret_linked xs m = (case sm_source m of Local \<Rightarrow> True | FromOnePassword r \<Rightarrow> integration_id r \<in> opi_id ` set xs)"

definition connection_bound :: "secret_meta list \<Rightarrow> connection \<Rightarrow> bool" where
  "connection_bound ms c \<longleftrightarrow> connection_name_ok (conn_name c) \<and> set (conn_secrets c) \<subseteq> sm_id ` set ms \<and>
     (conn_kind c \<noteq> KindApi \<longrightarrow> length (conn_secrets c) \<le> 1)"

definition index_ok :: "index_state \<Rightarrow> bool" where
  "index_ok st \<longleftrightarrow>
     distinct (map sm_id (ix_secrets st)) \<and> distinct (map sm_name (ix_secrets st)) \<and>
     distinct (map opi_id (ix_integrations st)) \<and>
     distinct (map conn_id (ix_connections st)) \<and> distinct (map conn_name (ix_connections st)) \<and>
     distinct (vault_ids st) \<and>
     list_all (\<lambda>m. secret_shape m \<and> secret_linked (ix_integrations st) m) (ix_secrets st) \<and>
     list_all (connection_bound (ix_secrets st)) (ix_connections st)"

text \<open>Every id that is in use, in memory or in the file.\<close>

definition index_ids :: "index_state \<Rightarrow> uuid set" where
  "index_ids st = sm_id ` set (ix_secrets st) \<union> opi_id ` set (ix_integrations st) \<union> conn_id ` set (ix_connections st) \<union> set (vault_ids st)"

subsection \<open>What binding guarantees\<close>

lemma finite_template_refs: "finite (template_refs t)"
proof (induction t rule: template_refs.induct)
  case (3 e segs)
  have "finite (arg_refs a)" for a by (cases a) (simp_all add: arg_refs_def)
  with 3 show ?case by (cases e) (auto simp: expr_refs_def)
qed auto

lemma find_by_name_ok:
  "find_by_name st n = Inr i \<longleftrightarrow> (\<exists>m. List.find (\<lambda>m. sm_name m = n) (ix_secrets st) = Some m \<and> sm_id m = i)"
  by (auto simp: find_by_name_def split: option.splits)

lemma collect_names:
  assumes "collect_ok (find_by_name st) ns = Inr is"
  shows "set is \<subseteq> sm_id ` set (ix_secrets st) \<and> set ns \<subseteq> sm_name ` set (ix_secrets st) \<and>
    (distinct (map sm_name (ix_secrets st)) \<longrightarrow> set is = sm_id ` {m \<in> set (ix_secrets st). sm_name m \<in> set ns})"
  using assms
proof (induction ns arbitrary: "is")
  case (Cons n ns)
  then obtain i js where i: "find_by_name st n = Inr i" and js: "collect_ok (find_by_name st) ns = Inr js" and is_eq: "is = i # js" by auto
  from i obtain m where m: "List.find (\<lambda>m. sm_name m = n) (ix_secrets st) = Some m" "sm_id m = i" by (auto simp: find_by_name_ok)
  from find_SomeD [OF m(1)] have mem: "m \<in> set (ix_secrets st)" "sm_name m = n" by auto
  have "m' = m" if "distinct (map sm_name (ix_secrets st))" "m' \<in> set (ix_secrets st)" "sm_name m' = n" for m'
    using that mem by (metis (mono_tags, lifting) distinct_map inj_onD)
  then have "{m' \<in> set (ix_secrets st). sm_name m' = n} = {m}" if "distinct (map sm_name (ix_secrets st))" using that mem by blast
  moreover have "{m' \<in> set (ix_secrets st). sm_name m' \<in> set (n # ns)} =
      {m' \<in> set (ix_secrets st). sm_name m' = n} \<union> {m' \<in> set (ix_secrets st). sm_name m' \<in> set ns}" by auto
  ultimately show ?case using Cons.IH [OF js] mem m(2) is_eq by (auto simp: image_Un)
qed auto

text \<open>The names a configuration refers to.\<close>

definition config_refs :: "connection_config \<Rightarrow> ustring set" where
  "config_refs cfg =
     (case cfg of
        Api a \<Rightarrow>
          (case signer a of
             Some sg \<Rightarrow> set (signer_refs sg)
           | None \<Rightarrow> (case parse_template (api_template a) of Inr t \<Rightarrow> template_refs t | Inl _ \<Rightarrow> {}))
      | _ \<Rightarrow> {})"

text \<open>The secret list of an API connection is the set of secrets that its signer or its template names.\<close>

definition derived_binding :: "secret_meta list \<Rightarrow> connection_config \<Rightarrow> uuid list \<Rightarrow> bool" where
  "derived_binding ms cfg bound \<longleftrightarrow>
     (config_kind cfg = KindApi \<longrightarrow>
        config_refs cfg \<subseteq> sm_name ` set ms \<and> set bound = sm_id ` {m \<in> set ms. sm_name m \<in> config_refs cfg})"

lemma blank_trim: "trim s = [] \<Longrightarrow> list_all is_whitespace s"
  by (simp add: trim_def list_all_iff) (metis Un_iff dropWhile_eq_Nil_conv set_append set_rev set_takeWhileD takeWhile_dropWhile_id)

lemma whitespace_no_brace: "list_all is_whitespace s \<Longrightarrow> find_pair 123 s = None"
  by (induction "123 :: nat" s rule: find_pair.induct) (auto simp: is_whitespace_def)

lemma blank_template: "trim s = [] \<Longrightarrow> parse_template s = Inr (if s = [] then [] else [Literal s])"
  by (subst parse_template.simps) (simp add: whitespace_no_brace blank_trim)

lemma bind_optional_ok:
  assumes "bind_optional_secret st spec = Inr bound"
  shows "set bound \<subseteq> sm_id ` set (ix_secrets st) \<and> length bound \<le> 1"
proof (cases "spec_secrets spec")
  case Nil
  with assms show ?thesis by (simp add: bind_optional_secret_def)
next
  case (Cons i js)
  show ?thesis using assms unfolding bind_optional_secret_def Cons by (auto simp: list_ex_iff split: if_splits)
qed

lemma bind_secrets_ok:
  assumes "validate_config_and_bind_secrets E st spec = Inr bound"
  shows "set bound \<subseteq> sm_id ` set (ix_secrets st) \<and> (config_kind (spec_config spec) \<noteq> KindApi \<longrightarrow> length bound \<le> 1) \<and>
    (distinct (map sm_name (ix_secrets st)) \<longrightarrow> derived_binding (ix_secrets st) (spec_config spec) bound)"
proof (cases "spec_config spec")
  case (Api a)
  have b: "bind_api_secrets E st a = Inr bound" using assms Api by (simp add: validate_config_and_bind_secrets_def)
  show ?thesis
  proof (cases "signer a")
    case (Some sg)
    with b have "collect_ok (find_by_name st) (signer_refs sg) = Inr bound" by (auto simp: bind_api_secrets_def)
    from collect_names [OF this] Some Api show ?thesis by (simp add: derived_binding_def config_refs_def config_kind_def)
  next
    case None
    show ?thesis
    proof (cases "trim (api_template a) = []")
      case True
      with b None have "bound = []" by (auto simp: bind_api_secrets_def)
      with None Api True show ?thesis by (auto simp: derived_binding_def config_refs_def config_kind_def blank_template)
    next
      case False
      with b None obtain t where t: "parse_template (api_template a) = Inr t" and "collect_ok (find_by_name st) (refs_in_order t) = Inr bound"
        by (auto simp: bind_api_secrets_def core_parse_template_def split: sum.splits if_splits)
      from collect_names [OF this(2)] t None Api show ?thesis
        by (simp add: derived_binding_def config_refs_def config_kind_def refs_in_order_def finite_template_refs)
    qed
  qed
next
  case (Pg p)
  with assms have "bind_optional_secret st spec = Inr bound" by (auto simp: validate_config_and_bind_secrets_def)
  from bind_optional_ok [OF this] Pg show ?thesis by (simp add: derived_binding_def config_kind_def)
next
  case (Ssh h)
  with assms have "bind_optional_secret st spec = Inr bound" by (auto simp: validate_config_and_bind_secrets_def)
  from bind_optional_ok [OF this] Ssh show ?thesis by (simp add: derived_binding_def config_kind_def)
qed

lemma pin_oauth_keeps:
  assumes "pin_oauth_token_secret cfg bound pref = Inr cfg'"
  shows "config_kind cfg' = config_kind cfg \<and> config_refs cfg' = config_refs cfg"
proof (cases "\<exists>a oa. cfg = Api a \<and> api_oauth a = Some oa")
  case True
  then obtain a oa where a: "cfg = Api a" "api_oauth a = Some oa" by blast
  have "\<exists>i. cfg' = Api (a\<lparr>api_oauth := Some (oa\<lparr>token_secret_id := i\<rparr>)\<rparr>)"
    using assms by (auto simp: pin_oauth_token_secret_def a Let_def split: option.splits if_splits)
  then show ?thesis by (auto simp: config_kind_def config_refs_def a cong: option.case_cong)
next
  case False
  then have "cfg' = cfg" using assms by (auto simp: pin_oauth_token_secret_def split: connection_config.splits option.splits)
  then show ?thesis by simp
qed

lemma inherit_kind [simp]:
  "config_kind (inherit_oauth_spec x y) = config_kind y"
  "config_kind (inherit_oauth_token_secret_id x y) = config_kind y"
  "config_kind (inherit_signer_and_mtls x y) = config_kind y"
  by (auto simp: inherit_oauth_spec_def inherit_oauth_token_secret_id_def inherit_signer_and_mtls_def config_kind_def Let_def
      split: connection_config.splits option.splits)

subsection \<open>Changing the catalog\<close>

lemma find_split:
  "List.find P xs = Some x \<Longrightarrow> \<exists>as bs. xs = as @ x # bs \<and> P x \<and> remove_first P xs = as @ bs \<and> (\<forall>f. update_first P f xs = as @ f x # bs)"
proof (induction xs)
  case (Cons y ys)
  show ?case
  proof (cases "P y")
    case True
    with Cons.prems show ?thesis by (intro exI [of _ "[]"] exI [of _ ys]) simp
  next
    case False
    with Cons obtain as bs where "ys = as @ x # bs" "P x" "remove_first P ys = as @ bs" "\<forall>f. update_first P f ys = as @ f x # bs"
      by auto
    with False show ?thesis by (intro exI [of _ "y # as"] exI [of _ bs]) simp
  qed
qed simp

lemma catalog_okD:
  assumes "index_ok st"
  shows "distinct (map sm_id (ix_secrets st))" "distinct (map sm_name (ix_secrets st))" "distinct (map opi_id (ix_integrations st))"
    "distinct (map conn_id (ix_connections st))" "distinct (map conn_name (ix_connections st))" "distinct (vault_ids st)"
    "m \<in> set (ix_secrets st) \<Longrightarrow> secret_shape m" "m \<in> set (ix_secrets st) \<Longrightarrow> secret_linked (ix_integrations st) m"
    "c \<in> set (ix_connections st) \<Longrightarrow> connection_bound (ix_secrets st) c"
  using assms by (auto simp: index_ok_def list_all_iff)

lemma connection_bound_mono: "sm_id ` set ms \<subseteq> sm_id ` set ms' \<Longrightarrow> connection_bound ms c \<Longrightarrow> connection_bound ms' c"
  unfolding connection_bound_def by blast

lemma index_ok_settings [simp]:
  "index_ok (st\<lparr>ix_settings := x\<rparr>) = index_ok st" "index_ok (st\<lparr>ix_access_generation := g\<rparr>) = index_ok st"
  "vault_ids (st\<lparr>ix_settings := x\<rparr>) = vault_ids st" "vault_ids (st\<lparr>ix_access_generation := g\<rparr>) = vault_ids st"
  by (simp_all add: index_ok_def vault_ids_def)

lemma distinct_replace:
  assumes "distinct (xs @ ys @ zs)" and "distinct ys'" and "set ys' \<subseteq> set ys \<union> F" and "F \<inter> set (xs @ ys @ zs) = {}"
  shows "distinct (xs @ ys' @ zs) \<and> set (xs @ ys' @ zs) = set (xs @ ys @ zs) - set ys \<union> set ys'"
proof -
  have "set ys' \<inter> set xs = {}" "set ys' \<inter> set zs = {}" using assms(1,3,4) by (auto simp: subset_iff)
  with assms(1,2) show ?thesis by auto
qed

lemma index_ok_secret_update:
  assumes ok: "index_ok st" and f: "List.find (\<lambda>m. sm_id m = i) (ix_secrets st) = Some m"
    and m': "sm_id m' = sm_id m" "sm_source m' = sm_source m" "secret_shape m'"
      "sm_name m' = sm_name m \<or> sm_name m' \<notin> sm_name ` set (ix_secrets st)"
      "distinct (secret_vault_ids m')" "set (secret_vault_ids m') \<subseteq> set (secret_vault_ids m) \<union> F" "F \<inter> set (vault_ids st) = {}"
    and g: "g m = m'"
  shows "index_ok (st\<lparr>ix_secrets := update_first (\<lambda>m. sm_id m = i) g (ix_secrets st)\<rparr>) \<and>
    set (vault_ids (st\<lparr>ix_secrets := update_first (\<lambda>m. sm_id m = i) g (ix_secrets st)\<rparr>)) =
      set (vault_ids st) - set (secret_vault_ids m) \<union> set (secret_vault_ids m')"
proof -
  from find_split [OF f] obtain as bs where s: "ix_secrets st = as @ m # bs" and
    u: "update_first (\<lambda>m. sm_id m = i) g (ix_secrets st) = as @ m' # bs" using g by blast
  let ?st = "st\<lparr>ix_secrets := as @ m' # bs\<rparr>"
  note d = catalog_okD [OF ok]
  have l: "secret_linked (ix_integrations st) m'" using d(8) [of m] s m'(2) by (simp add: secret_linked_def)
  have "distinct (map sm_id (ix_secrets ?st))" "distinct (map sm_name (ix_secrets ?st))" using d(1,2) m'(1,4) by (auto simp: s) (metis imageI)+
  moreover have v: "distinct (vault_ids ?st) \<and> set (vault_ids ?st) = set (vault_ids st) - set (secret_vault_ids m) \<union> set (secret_vault_ids m')"
    using distinct_replace [of "concat (map secret_vault_ids as)" "secret_vault_ids m" "concat (map secret_vault_ids bs) @
        concat (map integration_vault_ids (ix_integrations st)) @ concat (map connection_vault_ids (ix_connections st))" "secret_vault_ids m'" F] d(6) m'(5,6,7)
    by (simp add: vault_ids_def s)
  moreover have "list_all (\<lambda>m. secret_shape m \<and> secret_linked (ix_integrations st) m) (as @ m' # bs)"
    using d(7,8) m'(3) l by (auto simp: list_all_iff s)
  moreover have "connection_bound (as @ m' # bs) = connection_bound (as @ m # bs)" using m'(1) by (simp add: connection_bound_def fun_eq_iff)
  then have "list_all (connection_bound (as @ m' # bs)) (ix_connections st)" using d(9) by (simp add: list_all_iff s)
  ultimately have "index_ok ?st" using d(3,4,5) by (simp add: index_ok_def)
  with v show ?thesis by (simp add: u)
qed

lemma index_ok_secret_add:
  assumes ok: "index_ok st" and m: "sm_id m \<notin> sm_id ` set (ix_secrets st)" "sm_name m \<notin> sm_name ` set (ix_secrets st)" "secret_shape m"
    "secret_linked (ix_integrations st) m" "distinct (secret_vault_ids m)" "set (secret_vault_ids m) \<inter> set (vault_ids st) = {}"
  shows "index_ok (st\<lparr>ix_secrets := ix_secrets st @ [m]\<rparr>) \<and>
    set (vault_ids (st\<lparr>ix_secrets := ix_secrets st @ [m]\<rparr>)) = set (vault_ids st) \<union> set (secret_vault_ids m)"
proof -
  note d = catalog_okD [OF ok]
  have "list_all (connection_bound (ix_secrets st @ [m])) (ix_connections st)"
    using d(9) by (auto simp: list_all_iff intro: connection_bound_mono [of "ix_secrets st"])
  moreover have "distinct (vault_ids (st\<lparr>ix_secrets := ix_secrets st @ [m]\<rparr>))" using d(6) m(5,6) by (auto simp: vault_ids_def)
  ultimately show ?thesis using ok m by (auto simp: index_ok_def vault_ids_def)
qed

lemma index_ok_secret_remove:
  assumes ok: "index_ok st" and f: "List.find (\<lambda>m. sm_id m = i) (ix_secrets st) = Some m"
    and unused: "\<forall>c\<in>set (ix_connections st). i \<notin> set (conn_secrets c)"
  shows "index_ok (st\<lparr>ix_secrets := remove_first (\<lambda>m. sm_id m = i) (ix_secrets st)\<rparr>) \<and>
    set (vault_ids (st\<lparr>ix_secrets := remove_first (\<lambda>m. sm_id m = i) (ix_secrets st)\<rparr>)) = set (vault_ids st) - set (secret_vault_ids m)"
proof -
  from find_split [OF f] obtain as bs where s: "ix_secrets st = as @ m # bs" "sm_id m = i" and
    u: "remove_first (\<lambda>m. sm_id m = i) (ix_secrets st) = as @ bs" by blast
  let ?st = "st\<lparr>ix_secrets := as @ bs\<rparr>"
  note d = catalog_okD [OF ok]
  have "connection_bound (as @ bs) c" if "c \<in> set (ix_connections st)" for c
    using d(9) [OF that] unused that s by (auto simp: connection_bound_def)
  moreover have "distinct (vault_ids ?st)" using d(6) by (auto simp: vault_ids_def s)
  ultimately have "index_ok ?st" using ok by (auto simp: index_ok_def list_all_iff s)
  moreover have "set (vault_ids ?st) = set (vault_ids st) - set (secret_vault_ids m)" using d(6) by (auto simp: vault_ids_def s)
  ultimately show ?thesis by (simp add: u)
qed

lemma index_ok_integration_update:
  assumes ok: "index_ok st" and f: "List.find (\<lambda>x. opi_id x = i) (ix_integrations st) = Some x"
    and g: "opi_id (g x) = opi_id x" "opi_auth (g x) = opi_auth x"
  shows "index_ok (st\<lparr>ix_integrations := update_first (\<lambda>x. opi_id x = i) g (ix_integrations st)\<rparr>) \<and>
    vault_ids (st\<lparr>ix_integrations := update_first (\<lambda>x. opi_id x = i) g (ix_integrations st)\<rparr>) = vault_ids st"
proof -
  from find_split [OF f] obtain as bs where s: "ix_integrations st = as @ x # bs" and
    u: "update_first (\<lambda>x. opi_id x = i) g (ix_integrations st) = as @ g x # bs" by blast
  have v: "vault_ids (st\<lparr>ix_integrations := as @ g x # bs\<rparr>) = vault_ids st"
    by (simp add: vault_ids_def integration_vault_ids_def s g)
  have "secret_linked (as @ g x # bs) m = secret_linked (as @ x # bs) m" for m
    by (simp add: secret_linked_def g split: secret_source.split)
  then have "index_ok (st\<lparr>ix_integrations := as @ g x # bs\<rparr>)" using ok v by (simp add: index_ok_def s g)
  then show ?thesis using v by (simp add: u)
qed

lemma index_ok_integration_add:
  assumes ok: "index_ok st" and x: "opi_id x \<notin> index_ids st"
  shows "index_ok (st\<lparr>ix_integrations := ix_integrations st @ [x]\<rparr>) \<and>
    set (vault_ids (st\<lparr>ix_integrations := ix_integrations st @ [x]\<rparr>)) = set (vault_ids st) \<union> set (integration_vault_ids x)"
proof -
  have "distinct (vault_ids (st\<lparr>ix_integrations := ix_integrations st @ [x]\<rparr>))"
    using catalog_okD(6) [OF ok] x by (auto simp: vault_ids_def integration_vault_ids_def index_ids_def)
  moreover have "secret_linked (ix_integrations st) m \<Longrightarrow> secret_linked (ix_integrations st @ [x]) m" for m
    by (auto simp: secret_linked_def split: secret_source.splits)
  ultimately show ?thesis using ok x by (auto simp: index_ok_def vault_ids_def index_ids_def list_all_iff)
qed

lemma index_ok_integration_remove:
  assumes ok: "index_ok st" and f: "List.find (\<lambda>x. opi_id x = i) (ix_integrations st) = Some x"
    and unused: "\<forall>m\<in>set (ix_secrets st). \<forall>r. sm_source m = FromOnePassword r \<longrightarrow> integration_id r \<noteq> i"
  shows "index_ok (st\<lparr>ix_integrations := remove_first (\<lambda>x. opi_id x = i) (ix_integrations st)\<rparr>) \<and>
    set (vault_ids (st\<lparr>ix_integrations := remove_first (\<lambda>x. opi_id x = i) (ix_integrations st)\<rparr>)) =
      set (vault_ids st) - set (integration_vault_ids x)"
proof -
  from find_split [OF f] obtain as bs where s: "ix_integrations st = as @ x # bs" "opi_id x = i" and
    u: "remove_first (\<lambda>x. opi_id x = i) (ix_integrations st) = as @ bs" by blast
  let ?st = "st\<lparr>ix_integrations := as @ bs\<rparr>"
  note d = catalog_okD [OF ok]
  have "secret_linked (as @ bs) m" if "m \<in> set (ix_secrets st)" for m
    using d(8) [OF that] unused that s by (auto simp: secret_linked_def split: secret_source.splits)
  moreover have "distinct (vault_ids ?st)" using d(6) by (auto simp: vault_ids_def s)
  ultimately have "index_ok ?st" using ok by (auto simp: index_ok_def list_all_iff s)
  moreover have "set (vault_ids ?st) = set (vault_ids st) - set (integration_vault_ids x)" using d(6) by (auto simp: vault_ids_def s)
  ultimately show ?thesis by (simp add: u)
qed

lemma index_ok_connection_update:
  assumes ok: "index_ok st" and f: "List.find (\<lambda>c. conn_id c = i) (ix_connections st) = Some c"
    and c': "conn_id c' = conn_id c" "connection_bound (ix_secrets st) c'"
      "\<forall>x\<in>set (ix_connections st). conn_name x = conn_name c' \<longrightarrow> conn_id x = i"
      "set (connection_vault_ids c') \<subseteq> set (connection_vault_ids c) \<union> F" "F \<inter> set (vault_ids st) = {}"
    and g: "g c = c'"
  shows "index_ok (st\<lparr>ix_connections := update_first (\<lambda>c. conn_id c = i) g (ix_connections st)\<rparr>) \<and>
    set (vault_ids (st\<lparr>ix_connections := update_first (\<lambda>c. conn_id c = i) g (ix_connections st)\<rparr>)) =
      set (vault_ids st) - set (connection_vault_ids c) \<union> set (connection_vault_ids c')"
proof -
  from find_split [OF f] obtain as bs where s: "ix_connections st = as @ c # bs" "conn_id c = i" and
    u: "update_first (\<lambda>c. conn_id c = i) g (ix_connections st) = as @ c' # bs" using g by blast
  let ?st = "st\<lparr>ix_connections := as @ c' # bs\<rparr>"
  note d = catalog_okD [OF ok]
  have "distinct (connection_vault_ids c')" by (simp add: connection_vault_ids_def split: option.split)
  then have v: "distinct (vault_ids ?st) \<and> set (vault_ids ?st) = set (vault_ids st) - set (connection_vault_ids c) \<union> set (connection_vault_ids c')"
    using distinct_replace [of "concat (map secret_vault_ids (ix_secrets st)) @ concat (map integration_vault_ids (ix_integrations st)) @
        concat (map connection_vault_ids as)" "connection_vault_ids c" "concat (map connection_vault_ids bs)" "connection_vault_ids c'" F] d(6) c'(4,5)
    by (simp add: vault_ids_def s)
  have "conn_name c' \<notin> conn_name ` set (as @ bs)" using c'(3) d(4) s by (auto, metis Un_iff imageI, metis Un_iff imageI)
  then have "index_ok ?st" using ok c'(1,2) v by (auto simp: index_ok_def s)
  with v show ?thesis by (simp add: u)
qed

lemma index_ok_connection_add:
  assumes ok: "index_ok st" and c: "conn_id c \<notin> index_ids st" "conn_name c \<notin> conn_name ` set (ix_connections st)"
    "connection_bound (ix_secrets st) c" "conn_oauth c = None"
  shows "index_ok (st\<lparr>ix_connections := ix_connections st @ [c]\<rparr>) \<and>
    vault_ids (st\<lparr>ix_connections := ix_connections st @ [c]\<rparr>) = vault_ids st"
proof -
  have "vault_ids (st\<lparr>ix_connections := ix_connections st @ [c]\<rparr>) = vault_ids st" using c(4) by (simp add: vault_ids_def connection_vault_ids_def)
  then show ?thesis using ok c by (auto simp: index_ok_def index_ids_def)
qed

lemma index_ok_connection_remove:
  assumes ok: "index_ok st" and f: "List.find (\<lambda>c. conn_id c = i) (ix_connections st) = Some c"
  shows "index_ok (st\<lparr>ix_connections := remove_first (\<lambda>c. conn_id c = i) (ix_connections st)\<rparr>) \<and>
    set (vault_ids (st\<lparr>ix_connections := remove_first (\<lambda>c. conn_id c = i) (ix_connections st)\<rparr>)) =
      set (vault_ids st) - set (connection_vault_ids c)"
proof -
  from find_split [OF f] obtain as bs where s: "ix_connections st = as @ c # bs" and
    u: "remove_first (\<lambda>c. conn_id c = i) (ix_connections st) = as @ bs" by blast
  have "distinct (vault_ids (st\<lparr>ix_connections := as @ bs\<rparr>)) \<and>
      set (vault_ids (st\<lparr>ix_connections := as @ bs\<rparr>)) = set (vault_ids st) - set (connection_vault_ids c)"
    using catalog_okD(6) [OF ok] by (auto simp: vault_ids_def s)
  moreover from this have "index_ok (st\<lparr>ix_connections := as @ bs\<rparr>)" using ok by (auto simp: index_ok_def s)
  ultimately show ?thesis by (simp add: u)
qed

lemma mset_take_ordered: "mset (take_ordered is cs) = mset cs"
proof (induction "is" arbitrary: cs)
  case (Cons i js)
  show ?case
  proof (cases "List.find (\<lambda>c. conn_id c = i) cs")
    case None
    with Cons show ?thesis by simp
  next
    case (Some c)
    from find_split [OF Some] obtain as bs where "cs = as @ c # bs" "remove_first (\<lambda>c. conn_id c = i) cs = as @ bs" by blast
    with Some Cons show ?thesis by simp
  qed
qed simp

lemma distinct_map_mset: "mset xs = mset ys \<Longrightarrow> distinct (map f xs) = distinct (map f ys)"
  by (metis mset_eq_imp_distinct_iff mset_map)

lemma index_ok_reorder:
  assumes ok: "index_ok st" and m: "mset cs = mset (ix_connections st)"
  shows "index_ok (st\<lparr>ix_connections := cs\<rparr>) \<and> set (vault_ids (st\<lparr>ix_connections := cs\<rparr>)) = set (vault_ids st)"
proof -
  have "mset (vault_ids (st\<lparr>ix_connections := cs\<rparr>)) = mset (vault_ids st)"
    using m by (simp add: vault_ids_def mset_concat) (metis mset_map sum_mset_sum_list)
  then have "distinct (vault_ids (st\<lparr>ix_connections := cs\<rparr>)) = distinct (vault_ids st) \<and> set (vault_ids (st\<lparr>ix_connections := cs\<rparr>)) = set (vault_ids st)"
    by (metis mset_eq_imp_distinct_iff mset_eq_setD)
  moreover have "set cs = set (ix_connections st)" using m by (rule mset_eq_setD)
  ultimately show ?thesis using ok distinct_map_mset [OF m, of conn_id] distinct_map_mset [OF m, of conn_name] by (simp add: index_ok_def list_all_iff)
qed

text \<open>Rewriting the references keeps everything else of a connection.\<close>

definition same_connection :: "connection \<Rightarrow> connection \<Rightarrow> bool" where
  "same_connection c c' \<longleftrightarrow> conn_id c' = conn_id c \<and> conn_name c' = conn_name c \<and> conn_secrets c' = conn_secrets c \<and>
     account c' = account c \<and> conn_oauth c' = conn_oauth c \<and> conn_kind c' = conn_kind c \<and> conn_created_at c' = conn_created_at c"

lemma rename_in_connection_same:
  assumes "rename_in_connection E old new at c = Inr (c', b)"
  shows "same_connection c c'"
proof -
  have "c' = c \<or> (\<exists>a x u. conn_config c = Api a \<and> c' = c\<lparr>conn_config := Api x, conn_updated_at := u\<rparr>)"
  proof (cases "conn_config c")
    case (Api a)
    with assms obtain t where "core_parse_template E (api_template a) = Inr t" by (auto simp: rename_in_connection_def)
    with assms Api show ?thesis by (simp add: rename_in_connection_def Let_def split: if_splits) blast+
  qed (use assms in \<open>simp_all add: rename_in_connection_def\<close>)
  then show ?thesis by (auto simp: same_connection_def conn_kind_def config_kind_def)
qed

lemma rename_in_connections_same:
  "rename_in_connections E old new at cs = Inr (cs', n) \<Longrightarrow> list_all2 same_connection cs cs'"
proof (induction cs arbitrary: cs' n)
  case (Cons c cs)
  then obtain c' b ds k where "rename_in_connection E old new at c = Inr (c', b)" "rename_in_connections E old new at cs = Inr (ds, k)"
    "cs' = c' # ds" by auto
  with Cons.IH rename_in_connection_same show ?case by auto
qed simp

lemma same_connections_map:
  assumes "list_all2 same_connection cs cs'"
  shows "map conn_id cs' = map conn_id cs" "map conn_name cs' = map conn_name cs" "map connection_vault_ids cs' = map connection_vault_ids cs"
    "list_all (connection_bound ms) cs' = list_all (connection_bound ms) cs"
  using assms by (induction rule: list_all2_induct) (auto simp: same_connection_def connection_vault_ids_def connection_bound_def)

lemma index_ok_same_connections:
  assumes "list_all2 same_connection (ix_connections st) cs'"
  shows "index_ok (st\<lparr>ix_connections := cs'\<rparr>) = index_ok st \<and> vault_ids (st\<lparr>ix_connections := cs'\<rparr>) = vault_ids st"
  using same_connections_map [OF assms] by (simp add: index_ok_def vault_ids_def)

end
