(* ===== verification/Renames.thy ===== *)
theory Renames
  imports Catalog
begin

text \<open>
  What renaming a secret does to the connections that refer to it (\<^verbatim>\<open>crates/aka-core/src/store.rs\<close>,
  \<^verbatim>\<open>rename_secret\<close>; \<^verbatim>\<open>template.rs\<close>, \<^verbatim>\<open>rename_ref\<close>): the references of every template and signer are
  rewritten, and the list of bound secrets stays the one the references derive.
\<close>

subsection \<open>Renaming keeps the bindings\<close>

definition plain_config :: "'f store_env \<Rightarrow> connection_config \<Rightarrow> bool" where
  "plain_config E cfg =
     (case cfg of
        Api a \<Rightarrow> (case parse_template (api_template a) of Inr t \<Rightarrow> plain_template (unprintable E) t | Inl _ \<Rightarrow> True)
      | _ \<Rightarrow> True)"

lemma rename_name_absent: "old \<notin> R \<Longrightarrow> rename_name old new ` R = R"
  by (auto simp: rename_name_def image_iff)

lemma rename_in_connection_refs:
  assumes r: "rename_in_connection E old new at c = Inr (c', b)" and pl: "plain_config E (conn_config c)" and v: "is_valid_secret_name new"
  shows "config_refs (conn_config c') = rename_name old new ` config_refs (conn_config c) \<and> plain_config E (conn_config c')"
proof (cases "conn_config c")
  case (Api a)
  from r Api obtain t where t: "parse_template (api_template a) = Inr t"
    by (auto simp: rename_in_connection_def core_parse_template_def split: sum.splits)
  have plt: "plain_template (unprintable E) t" using pl Api t by (simp add: plain_config_def)
  define tm where "tm = (if old \<in> template_refs t then rename_ref (unprintable E) t old new else api_template a)"
  define sg where "sg = map_option (signer_rename_ref old new) (signer a)"
  have c': "conn_config c' = Api (a\<lparr>api_template := tm, signer := map_option fst sg\<rparr>) \<or>
      conn_config c' = Api a \<and> old \<notin> template_refs t \<and> (\<forall>x. signer a = Some x \<longrightarrow> old \<notin> set (signer_refs x))"
  proof (cases "signer a")
    case None
    then show ?thesis using r Api t
      by (auto simp: rename_in_connection_def core_parse_template_def Let_def tm_def sg_def split: if_splits)
  next
    case (Some x)
    then show ?thesis using r Api t signer_rename_changed [of old new x]
      by (cases "signer_rename_ref old new x")
        (auto simp: rename_in_connection_def core_parse_template_def Let_def tm_def sg_def split: if_splits)
  qed
  have tp: "parse_template tm = Inr (map (rename_segment old new) t) \<or> parse_template tm = Inr t \<and> old \<notin> template_refs t"
    using parse_display wf_rename_template [OF v parse_template_wf [OF t]] plt t
    by (auto simp: tm_def rename_ref_def plain_rename_template)
  have refs: "\<exists>u. parse_template tm = Inr u \<and> template_refs u = rename_name old new ` template_refs t \<and> plain_template (unprintable E) u"
    using tp plt by (auto simp: template_refs_rename plain_rename_template rename_name_absent)
  from c' show ?thesis
  proof
    assume "conn_config c' = Api (a\<lparr>api_template := tm, signer := map_option fst sg\<rparr>)"
    with refs t Api show ?thesis
      by (cases "signer a") (auto simp: config_refs_def plain_config_def sg_def signer_rename_refs rename_name_def)
  next
    assume "conn_config c' = Api a \<and> old \<notin> template_refs t \<and> (\<forall>x. signer a = Some x \<longrightarrow> old \<notin> set (signer_refs x))"
    with t Api pl show ?thesis by (cases "signer a") (simp_all add: config_refs_def rename_name_absent)
  qed
qed (use r pl in \<open>auto simp: rename_in_connection_def config_refs_def\<close>)

lemma derived_binding_rename:
  assumes d: "derived_binding ms cfg bound" and ids: "distinct (map sm_id ms)" "distinct (map sm_name ms)" and m: "m \<in> set ms"
    and new: "new \<notin> sm_name ` set ms" and k: "config_kind cfg' = config_kind cfg" and r: "config_refs cfg' = rename_name (sm_name m) new ` config_refs cfg"
    and u: "\<And>x. sm_id (upd x) = sm_id x \<and> sm_name (upd x) = new"
  shows "derived_binding (map (\<lambda>x. if sm_id x = sm_id m then upd x else x) ms) cfg' bound"
  unfolding derived_binding_def
proof
  let ?f = "\<lambda>x. if sm_id x = sm_id m then upd x else x"
  assume "config_kind cfg' = KindApi"
  then have R: "config_refs cfg \<subseteq> sm_name ` set ms" and b: "set bound = sm_id ` {x \<in> set ms. sm_name x \<in> config_refs cfg}"
    using d k by (simp_all add: derived_binding_def)
  have same: "x = m" if "x \<in> set ms" "sm_id x = sm_id m \<or> sm_name x = sm_name m" for x
    using that m ids by (metis (mono_tags, lifting) distinct_map inj_onD)
  have nm: "sm_name (?f x) = rename_name (sm_name m) new (sm_name x)" if "x \<in> set ms" for x
    using same [OF that] u that by (auto simp: rename_name_def)
  have iff: "sm_name (?f x) \<in> config_refs cfg' \<longleftrightarrow> sm_name x \<in> config_refs cfg" if "x \<in> set ms" for x
    using that R new unfolding nm [OF that] r by (auto simp: rename_name_def split: if_splits)
  have "config_refs cfg' \<subseteq> sm_name ` set (map ?f ms)"
  proof
    fix n assume "n \<in> config_refs cfg'"
    then obtain x where "x \<in> set ms" "n = rename_name (sm_name m) new (sm_name x)" using r R by blast
    then have "n = sm_name (?f x)" "?f x \<in> set (map ?f ms)" using nm by simp_all
    then show "n \<in> sm_name ` set (map ?f ms)" by (rule image_eqI)
  qed
  moreover have "sm_id ` {x \<in> set (map ?f ms). sm_name x \<in> config_refs cfg'} = sm_id ` {x \<in> set ms. sm_name x \<in> config_refs cfg}"
  proof -
    have "{x \<in> set (map ?f ms). sm_name x \<in> config_refs cfg'} = ?f ` {x \<in> set ms. sm_name x \<in> config_refs cfg}"
      using iff unfolding set_map by blast
    moreover have "sm_id (?f x) = sm_id x" for x using u by simp
    ultimately show ?thesis by (simp only: image_image)
  qed
  ultimately show "config_refs cfg' \<subseteq> sm_name ` set (map ?f ms) \<and> set bound = sm_id ` {x \<in> set (map ?f ms). sm_name x \<in> config_refs cfg'}" using b by simp
qed

text \<open>
  A template with a delete character before a closing brace in a literal is accepted, but what a rename makes
  of it does not parse: \<^verbatim>\<open>{:?}\<close> prints the character as an escape in braces, so the literal closes the placeholder.
\<close>

lemma rename_breaks_template:
  "parse_template (ascii ''{{base64(A '' @ [34, 127, 125, 34] @ ascii '')}}'') =
     Ok [Placeholder (ExprTransform Base64 [ArgRef (ascii ''A''), ArgLit [127, 125]])] \<and>
   is_err (parse_template (rename_ref np [Placeholder (ExprTransform Base64 [ArgRef (ascii ''A''), ArgLit [127, 125]])] (ascii ''A'') (ascii ''N'')))"
  by (simp add: parse_template.simps parse_expr_def trim_def is_whitespace_def parse_args.simps
      transform_of_name_def rename_ref_def display_expr_def display_arg_def debug_str_def
      debug_escape_def hex_digits.simps hex_digit_def Let_def rename_expr_def rename_arg_def rename_name_def transform_name_def
      word_char_def is_valid_secret_name_def is_ascii_alphabetic_def utf8_len_def utf8_width_def)

end
