(* ===== verification/Store.thy ===== *)
theory Store
  imports Catalog
begin

text \<open>
  The store of \<^verbatim>\<open>crates/aka-core/src/store.rs\<close>: the catalog in memory, the sealed index file and the vault, and
  every operation on them. An operation is one critical section. The vault is a parameter (any
  \<open>vault_ops\<close>), minted UUIDs and clock readings are arguments. The list \<open>st_faults\<close> holds what becomes of the
  index writes to come: \<open>None\<close> for success, an error otherwise, with a flag that says whether the file had
  been replaced before the error.
\<close>

subsection \<open>State and persistence\<close>

record 'v store =
  st_index :: index_state
  st_disk :: index_state
  st_vault :: 'v
  st_faults :: "(core_error \<times> bool) option list"
  st_invalidated :: "uuid list"

definition persist_index :: "index_state \<Rightarrow> 'v store \<Rightarrow> (core_error + unit) \<times> 'v store" where
  "persist_index nxt s =
     (let f = (case st_faults s of [] \<Rightarrow> None | x # _ \<Rightarrow> x); s = s\<lparr>st_faults := tl (st_faults s)\<rparr> in
      case f of
        None \<Rightarrow> (Ok (), s\<lparr>st_disk := nxt\<rparr>)
      | Some (e, renamed) \<Rightarrow> (Err e, if renamed then s\<lparr>st_disk := nxt\<rparr> else s))"

definition commit_index :: "index_state \<Rightarrow> 'v store \<Rightarrow> (core_error + unit) \<times> 'v store" where
  "commit_index nxt s =
     (case persist_index nxt s of
        (Inl e, s) \<Rightarrow> (Err e, s)
      | (Inr _, s) \<Rightarrow> (Ok (), s\<lparr>st_index := nxt\<rparr>))"

definition commit_with :: "'a \<Rightarrow> index_state \<Rightarrow> 'v store \<Rightarrow> (core_error + 'a) \<times> 'v store" where
  "commit_with x nxt s = (case commit_index nxt s of (Inl e, s) \<Rightarrow> (Err e, s) | (Inr _, s) \<Rightarrow> (Ok x, s))"

definition vault_set :: "'v vault_ops \<Rightarrow> uuid \<Rightarrow> vault_attrs \<Rightarrow> ustring \<Rightarrow> 'v store \<Rightarrow> (core_error + unit) \<times> 'v store" where
  "vault_set V i a x s = (case v_set V i a x (st_vault s) of (r, v) \<Rightarrow> (r, s\<lparr>st_vault := v\<rparr>))"

definition vault_delete :: "'v vault_ops \<Rightarrow> uuid \<Rightarrow> 'v store \<Rightarrow> (core_error + unit) \<times> 'v store" where
  "vault_delete V i s = (case v_delete V i (st_vault s) of (r, v) \<Rightarrow> (r, s\<lparr>st_vault := v\<rparr>))"

definition vault_set_attrs :: "'v vault_ops \<Rightarrow> uuid \<Rightarrow> vault_attrs \<Rightarrow> 'v store \<Rightarrow> (core_error + unit) \<times> 'v store" where
  "vault_set_attrs V i a s = (case v_set_attrs V i a (st_vault s) of (r, v) \<Rightarrow> (r, s\<lparr>st_vault := v\<rparr>))"

definition vault_delete_all :: "'v vault_ops \<Rightarrow> uuid list \<Rightarrow> 'v store \<Rightarrow> 'v store" where
  "vault_delete_all V is s = foldl (\<lambda>s i. snd (vault_delete V i s)) s is"

text \<open>\<open>if let Err(rollback) = self.persist(&state) { log }; return Err(error)\<close>\<close>

definition rollback_index :: "core_error \<Rightarrow> 'v store \<Rightarrow> (core_error + 'a) \<times> 'v store" where
  "rollback_index e s = (Err e, snd (persist_index (st_index s) s))"

text \<open>
  Opening: what reading the sealed index gives is an error, nothing, or the stored index with its rows not
  yet read. The result holds the descriptions of the dropped rows.
\<close>

definition open_store ::
    "'v \<Rightarrow> (core_error \<times> bool) option list \<Rightarrow> core_error + (index_state \<times> stored_row list) option \<Rightarrow> core_error + 'v store \<times> ustring list" where
  "open_store v faults stored =
     and_then stored (\<lambda>found.
     and_then (case found of
         None \<Rightarrow> Ok (default_index, [])
       | Some (st, rows) \<Rightarrow> and_then (connections_dropping_retired_kinds rows) (\<lambda>(cs, dropped). Ok (st\<lparr>ix_connections := cs\<rparr>, dropped)))
     (\<lambda>(st0, dropped).
       let (st1, m1) = migrate_legacy_pg_ca_bundle st0; (st2, m2) = migrate_oauth_token_secret_ids st1;
           s = \<lparr>st_index = st2, st_disk = st0, st_vault = v, st_faults = faults, st_invalidated = []\<rparr> in
       if m1 \<or> m2 \<or> dropped \<noteq> []
       then (case persist_index st2 s of (Inl e, _) \<Rightarrow> Err e | (Inr _, s) \<Rightarrow> Ok (s, dropped))
       else Ok (s, dropped)))"

subsection \<open>Secrets\<close>

definition secret_by_id :: "uuid \<Rightarrow> index_state \<Rightarrow> core_error + secret_meta" where
  "secret_by_id i st =
     (case List.find (\<lambda>m. sm_id m = i) (ix_secrets st) of Some m \<Rightarrow> Ok m | None \<Rightarrow> Err SecretNotFound)"

definition secret_by_name :: "ustring \<Rightarrow> index_state \<Rightarrow> secret_meta option" where
  "secret_by_name n st = List.find (\<lambda>m. sm_name m = n) (ix_secrets st)"

definition list_secrets :: "index_state \<Rightarrow> secret_meta list" where
  "list_secrets st = sort_key (\<lambda>m. sm_name m) (filter (\<lambda>m. sm_source m = Local) (ix_secrets st)) @
     sort_key (\<lambda>m. sm_name m) (filter (\<lambda>m. sm_source m \<noteq> Local) (ix_secrets st))"

definition credential_profile :: "index_state \<Rightarrow> new_credential \<Rightarrow> core_error + ustring \<times> ustring option \<times> ustring option" where
  "credential_profile st nc =
     (case nc_kind nc of
        Secret \<Rightarrow>
          if nc_totp nc \<noteq> None \<or> nc_site nc \<noteq> None \<or> nc_username nc \<noteq> None then Err NotAPassword
          else Ok (case nc_name nc of Some n \<Rightarrow> n | None \<Rightarrow> [], None, None)
      | Password \<Rightarrow>
          (case nc_site nc of
             None \<Rightarrow> Err (InvalidSite (ascii ''enter the website''))
           | Some site \<Rightarrow>
               if site = [] then Err (InvalidSite (ascii ''enter the website''))
               else
                 let user = (if nc_username nc = Some [] then None else nc_username nc) in
                 Ok (derive_password_name site user (\<lambda>c. list_ex (\<lambda>m. sm_name m = c) (ix_secrets st)), Some site, user)))"

text \<open>The transaction of \<open>add_credential\<close>: the value, the factor, the index, each undone when a later one fails.\<close>

definition store_credential ::
    "'v vault_ops \<Rightarrow> secret_meta \<Rightarrow> ustring \<Rightarrow> ustring option \<Rightarrow> 'v store \<Rightarrow> (core_error + secret_meta) \<times> 'v store" where
  "store_credential V meta x totp s =
     (case vault_set V (sm_id meta) \<lparr>va_name = sm_name meta, va_created_at = sm_created_at meta\<rparr> x s of
        (Inl e, s) \<Rightarrow> (Err e, s)
      | (Inr _, s) \<Rightarrow>
          (case (case (totp_vault_id meta, totp) of
                   (Some t, Some seed) \<Rightarrow> vault_set V t (totp_vault_attrs (sm_name meta) (sm_created_at meta)) seed s
                 | _ \<Rightarrow> (Ok (), s)) of
             (Inl e, s) \<Rightarrow> (Err e, vault_delete_all V [sm_id meta] s)
           | (Inr _, s) \<Rightarrow>
               let nxt = (st_index s)\<lparr>ix_secrets := ix_secrets (st_index s) @ [meta]\<rparr> in
               (case persist_index nxt s of
                  (Inl e, s) \<Rightarrow> (Err e, vault_delete_all V (sm_id meta # (case totp_vault_id meta of Some t \<Rightarrow> [t] | None \<Rightarrow> [])) s)
                | (Inr _, s) \<Rightarrow> (Ok meta, s\<lparr>st_index := nxt\<rparr>))))"

definition add_credential ::
    "'v vault_ops \<Rightarrow> uuid \<Rightarrow> uuid \<Rightarrow> datetime \<Rightarrow> new_credential \<Rightarrow> 'v store \<Rightarrow> (core_error + secret_meta) \<times> 'v store" where
  "add_credential V sid tid now nc s =
     (case credential_profile (st_index s) nc of
        Inl e \<Rightarrow> (Err e, s)
      | Inr (name, site, user) \<Rightarrow>
          if \<not> is_valid_secret_name name then (Err (InvalidSecretName name), s)
          else if list_ex (\<lambda>m. sm_name m = name) (ix_secrets (st_index s)) then (Err (SecretNameTaken name), s)
          else store_credential V
            \<lparr>sm_id = sid, sm_name = name, sm_created_at = now, sm_updated_at = now, sm_source = Local, sm_kind = nc_kind nc,
             sm_site = site, sm_username = user, totp_vault_id = (if nc_totp nc \<noteq> None then Some tid else None)\<rparr>
            (nc_value nc) (nc_totp nc) s)"

definition add_secret :: "'v vault_ops \<Rightarrow> uuid \<Rightarrow> uuid \<Rightarrow> datetime \<Rightarrow> ustring \<Rightarrow> ustring \<Rightarrow> 'v store \<Rightarrow> (core_error + secret_meta) \<times> 'v store" where
  "add_secret V sid tid now name x s =
     add_credential V sid tid now \<lparr>nc_kind = Secret, nc_name = Some name, nc_site = None, nc_username = None, nc_value = x, nc_totp = None\<rparr> s"

definition set_password_profile ::
    "datetime \<Rightarrow> uuid \<Rightarrow> ustring option \<Rightarrow> ustring option option \<Rightarrow> 'v store \<Rightarrow> (core_error + secret_meta) \<times> 'v store" where
  "set_password_profile now i site user s =
     (case List.find (\<lambda>m. sm_id m = i) (ix_secrets (st_index s)) of
        None \<Rightarrow> (Err SecretNotFound, s)
      | Some m \<Rightarrow>
          if sm_kind m \<noteq> Password then (Err NotAPassword, s)
          else if site = Some [] then (Err (InvalidSite (ascii ''enter the website'')), s)
          else
            let upd = (\<lambda>m. m\<lparr>sm_site := (case site of Some x \<Rightarrow> Some x | None \<Rightarrow> sm_site m),
                  sm_username := (case user of Some u \<Rightarrow> if u = Some [] then None else u | None \<Rightarrow> sm_username m),
                  sm_updated_at := now\<rparr>) in
            commit_with (upd m) ((st_index s)\<lparr>ix_secrets := update_first (\<lambda>m. sm_id m = i) upd (ix_secrets (st_index s))\<rparr>) s)"

definition set_totp_factor ::
    "'v vault_ops \<Rightarrow> uuid \<Rightarrow> datetime \<Rightarrow> uuid \<Rightarrow> ustring option \<Rightarrow> 'v store \<Rightarrow> (core_error + secret_meta) \<times> 'v store" where
  "set_totp_factor V tid now i seed s =
     (case List.find (\<lambda>m. sm_id m = i) (ix_secrets (st_index s)) of
        None \<Rightarrow> (Err SecretNotFound, s)
      | Some m \<Rightarrow>
          if sm_kind m \<noteq> Password then (Err NotAPassword, s)
          else if sm_source m \<noteq> Local then (Err ExternalSecretReadOnly, s)
          else
            let upd = (\<lambda>t m. m\<lparr>totp_vault_id := t, sm_updated_at := now\<rparr>);
                nxt = (\<lambda>t. (st_index s)\<lparr>ix_secrets := update_first (\<lambda>m. sm_id m = i) (upd t) (ix_secrets (st_index s))\<rparr>) in
            (case seed of
               Some x \<Rightarrow>
                 (case vault_set V tid (totp_vault_attrs (sm_name m) (sm_created_at m)) x s of
                    (Inl e, s) \<Rightarrow> (Err e, s)
                  | (Inr _, s) \<Rightarrow>
                      (case persist_index (nxt (Some tid)) s of
                         (Inl e, s) \<Rightarrow> (Err e, vault_delete_all V [tid] s)
                       | (Inr _, s) \<Rightarrow>
                           let s = s\<lparr>st_index := nxt (Some tid)\<rparr> in
                           (Ok (upd (Some tid) m), vault_delete_all V (case totp_vault_id m of Some t \<Rightarrow> [t] | None \<Rightarrow> []) s)))
             | None \<Rightarrow>
                 (case totp_vault_id m of
                    None \<Rightarrow> (Err TotpNotConfigured, s)
                  | Some t \<Rightarrow>
                      (case persist_index (nxt None) s of
                         (Inl e, s) \<Rightarrow> (Err e, s)
                       | (Inr _, s) \<Rightarrow>
                           (case vault_delete V t s of
                              (Inl e, s) \<Rightarrow> rollback_index e s
                            | (Inr _, s) \<Rightarrow> (Ok (upd None m), s\<lparr>st_index := nxt None\<rparr>))))))"

definition rename_secret ::
    "'f store_env \<Rightarrow> 'v vault_ops \<Rightarrow> (uuid \<Rightarrow> datetime) \<Rightarrow> datetime \<Rightarrow> uuid \<Rightarrow> ustring \<Rightarrow> 'v store \<Rightarrow>
     (core_error + secret_meta \<times> nat) \<times> 'v store" where
  "rename_secret E V at now i new s =
     (if \<not> is_valid_secret_name new then (Err (InvalidSecretName new), s)
      else case List.find (\<lambda>m. sm_id m = i) (ix_secrets (st_index s)) of
        None \<Rightarrow> (Err SecretNotFound, s)
      | Some m \<Rightarrow>
          if new = sm_name m then (Ok (m, 0), s)
          else if list_ex (\<lambda>m. sm_name m = new) (ix_secrets (st_index s)) then (Err (SecretNameTaken new), s)
          else
            (case rename_in_connections E (sm_name m) new at (ix_connections (st_index s)) of
               Inl e \<Rightarrow> (Err e, s)
             | Inr (cs, n) \<Rightarrow>
                 let upd = (\<lambda>m. m\<lparr>sm_name := new, sm_updated_at := now\<rparr>);
                     nxt = (st_index s)\<lparr>ix_connections := cs, ix_secrets := update_first (\<lambda>m. sm_id m = i) upd (ix_secrets (st_index s))\<rparr> in
                 (case persist_index nxt s of
                    (Inl e, s) \<Rightarrow> (Err e, s)
                  | (Inr _, s) \<Rightarrow>
                      if sm_source m = Local then
                        (case vault_set_attrs V i \<lparr>va_name = new, va_created_at = sm_created_at m\<rparr> s of
                           (Inl e, s) \<Rightarrow> rollback_index e s
                         | (Inr _, s) \<Rightarrow>
                             let s = (case totp_vault_id m of
                                   Some t \<Rightarrow> snd (vault_set_attrs V t (totp_vault_attrs new (sm_created_at m)) s)
                                 | None \<Rightarrow> s) in
                             (Ok (upd m, n), s\<lparr>st_index := nxt\<rparr>))
                      else (Ok (upd m, n), s\<lparr>st_index := nxt\<rparr>))))"

definition replace_secret_value ::
    "'v vault_ops \<Rightarrow> datetime \<Rightarrow> uuid \<Rightarrow> ustring \<Rightarrow> 'v store \<Rightarrow> (core_error + secret_meta) \<times> 'v store" where
  "replace_secret_value V now i x s =
     (case List.find (\<lambda>m. sm_id m = i) (ix_secrets (st_index s)) of
        None \<Rightarrow> (Err SecretNotFound, s)
      | Some m \<Rightarrow>
          if sm_source m \<noteq> Local then (Err ExternalSecretReadOnly, s)
          else
            let upd = (\<lambda>m. m\<lparr>sm_updated_at := now\<rparr>);
                nxt = (st_index s)\<lparr>ix_secrets := update_first (\<lambda>m. sm_id m = i) upd (ix_secrets (st_index s))\<rparr> in
            (case persist_index nxt s of
               (Inl e, s) \<Rightarrow> (Err e, s)
             | (Inr _, s) \<Rightarrow>
                 (case vault_set V i \<lparr>va_name = sm_name m, va_created_at = sm_created_at m\<rparr> x s of
                    (Inl e, s) \<Rightarrow> rollback_index e s
                  | (Inr _, s) \<Rightarrow> (Ok (upd m), s\<lparr>st_index := nxt\<rparr>))))"

definition connections_using :: "uuid \<Rightarrow> index_state \<Rightarrow> ustring list" where
  "connections_using i st = map conn_name (filter (\<lambda>c. i \<in> set (conn_secrets c)) (ix_connections st))"

definition delete_secret :: "'v vault_ops \<Rightarrow> uuid \<Rightarrow> 'v store \<Rightarrow> (core_error + secret_meta) \<times> 'v store" where
  "delete_secret V i s =
     (case List.find (\<lambda>m. sm_id m = i) (ix_secrets (st_index s)) of
        None \<Rightarrow> (Err SecretNotFound, s)
      | Some m \<Rightarrow>
          if connections_using i (st_index s) \<noteq> [] then (Err (SecretInUse (connections_using i (st_index s))), s)
          else
            let nxt = (st_index s)\<lparr>ix_secrets := remove_first (\<lambda>m. sm_id m = i) (ix_secrets (st_index s))\<rparr> in
            (case persist_index nxt s of
               (Inl e, s) \<Rightarrow> (Err e, s)
             | (Inr _, s) \<Rightarrow>
                 if sm_source m = Local then
                   (case vault_delete V i s of
                      (Inl e, s) \<Rightarrow>
                        if e = SecretNotFound
                        then (Ok m, (vault_delete_all V (case totp_vault_id m of Some t \<Rightarrow> [t] | None \<Rightarrow> []) s)\<lparr>st_index := nxt\<rparr>)
                        else rollback_index e s
                    | (Inr _, s) \<Rightarrow> (Ok m, (vault_delete_all V (case totp_vault_id m of Some t \<Rightarrow> [t] | None \<Rightarrow> []) s)\<lparr>st_index := nxt\<rparr>))
                 else (Ok m, s\<lparr>st_index := nxt\<rparr>)))"

subsection \<open>Values\<close>

text \<open>\<open>resolve\<close> fetches a linked value from 1Password.\<close>

definition onepassword_integration :: "uuid \<Rightarrow> index_state \<Rightarrow> core_error + onepassword_integration" where
  "onepassword_integration i st =
     (case List.find (\<lambda>x. opi_id x = i) (ix_integrations st) of Some x \<Rightarrow> Ok x | None \<Rightarrow> Err OnePasswordIntegrationNotFound)"

definition secret_value ::
    "'v vault_ops \<Rightarrow> (onepassword_integration \<Rightarrow> onepassword_secret_ref \<Rightarrow> core_error + ustring) \<Rightarrow> uuid \<Rightarrow> 'v store \<Rightarrow> (core_error + ustring) outcome" where
  "secret_value V resolve i s =
     (case secret_by_id i (st_index s) of
        Inl e \<Rightarrow> Return (Err e)
      | Inr m \<Rightarrow>
          (case sm_source m of
             Local \<Rightarrow> v_get V i (st_vault s)
           | FromOnePassword r \<Rightarrow> Return (and_then (onepassword_integration (integration_id r) (st_index s)) (\<lambda>x. resolve x r))))"

definition secret_value_by_name ::
    "'v vault_ops \<Rightarrow> (onepassword_integration \<Rightarrow> onepassword_secret_ref \<Rightarrow> core_error + ustring) \<Rightarrow> ustring \<Rightarrow> 'v store \<Rightarrow> (core_error + ustring) outcome" where
  "secret_value_by_name V resolve n s =
     (case secret_by_name n (st_index s) of
        None \<Rightarrow> Return (Err SecretNotFound)
      | Some m \<Rightarrow> secret_value V resolve (sm_id m) s)"

fun fetch_values :: "(ustring \<Rightarrow> (core_error + ustring) outcome) \<Rightarrow> ustring list \<Rightarrow> (core_error + (ustring \<times> ustring) list) outcome" where
  "fetch_values f [] = Return (Ok [])"
| "fetch_values f (n # ns) =
     (case f n of
        Panic \<Rightarrow> Panic
      | Return (Inl e) \<Rightarrow> Return (Err e)
      | Return (Inr x) \<Rightarrow>
          (case fetch_values f ns of
             Panic \<Rightarrow> Panic
           | Return r \<Rightarrow> Return (and_then r (\<lambda>xs. Ok ((n, x) # xs)))))"

definition render_template ::
    "(ustring \<Rightarrow> ustring) \<Rightarrow> (ustring \<Rightarrow> ustring) \<Rightarrow> 'v vault_ops \<Rightarrow>
     (onepassword_integration \<Rightarrow> onepassword_secret_ref \<Rightarrow> core_error + ustring) \<Rightarrow> template \<Rightarrow> 'v store \<Rightarrow> (core_error + ustring) outcome" where
  "render_template b64 pct V resolve t s =
     (case fetch_values (\<lambda>n. secret_value_by_name V resolve n s) (refs_in_order t) of
        Panic \<Rightarrow> Panic
      | Return r \<Rightarrow> Return (and_then r (\<lambda>xs.
          render b64 pct (\<lambda>n. case map_of xs n of Some x \<Rightarrow> Ok x | None \<Rightarrow> Err (UnknownTemplateRef n)) t)))"

subsection \<open>1Password links\<close>

definition list_onepassword_integrations :: "index_state \<Rightarrow> onepassword_integration list" where
  "list_onepassword_integrations st = sort_key opi_label (ix_integrations st)"

definition label_taken :: "ustring \<Rightarrow> index_state \<Rightarrow> bool" where
  "label_taken label st \<longleftrightarrow> list_ex (\<lambda>x. eq_ignore_ascii_case (opi_label x) (trim label)) (ix_integrations st)"

definition label_in_use :: core_error where
  "label_in_use = InvalidOnePasswordIntegration (ascii ''that integration label is already in use'')"

definition token_attrs :: "ustring \<Rightarrow> datetime \<Rightarrow> vault_attrs" where
  "token_attrs label created = \<lparr>va_name = ascii ''1Password integration: '' @ label, va_created_at = created\<rparr>"

definition add_onepassword_integration_with_id ::
    "'f store_env \<Rightarrow> 'v vault_ops \<Rightarrow> datetime \<Rightarrow> uuid \<Rightarrow> ustring \<Rightarrow> onepassword_auth \<Rightarrow> ustring option \<Rightarrow> 'v store \<Rightarrow>
     (core_error + onepassword_integration) \<times> 'v store" where
  "add_onepassword_integration_with_id E V now i label auth token s =
     (case and_then (validate_integration (url_parse E) label auth) (\<lambda>_. validate_onepassword_token_input auth token) of
        Inl e \<Rightarrow> (Err e, s)
      | Inr _ \<Rightarrow>
          if label_taken label (st_index s) then (Err label_in_use, s)
          else
            let x = \<lparr>opi_id = i, opi_label = trim label, opi_auth = auth, opi_created_at = now, opi_updated_at = now\<rparr> in
            (case (case token of Some t \<Rightarrow> vault_set V i (token_attrs (trim label) now) t s | None \<Rightarrow> (Ok (), s)) of
               (Inl e, s) \<Rightarrow> (Err e, s)
             | (Inr _, s) \<Rightarrow>
                 let nxt = (st_index s)\<lparr>ix_integrations := ix_integrations (st_index s) @ [x]\<rparr> in
                 (case persist_index nxt s of
                    (Inl e, s) \<Rightarrow> (Err e, vault_delete_all V (if requires_token auth then [i] else []) s)
                  | (Inr _, s) \<Rightarrow> (Ok x, s\<lparr>st_index := nxt\<rparr>))))"

text \<open>The probes: \<open>probe\<close> is the provider's answer, and a failed probe discards the session.\<close>

definition validate_new_onepassword_integration ::
    "'f store_env \<Rightarrow> (onepassword_integration \<Rightarrow> ustring option \<Rightarrow> core_error + unit) \<Rightarrow> datetime \<Rightarrow> uuid \<Rightarrow> ustring \<Rightarrow> onepassword_auth \<Rightarrow>
     ustring option \<Rightarrow> 'v store \<Rightarrow> (core_error + unit) \<times> 'v store" where
  "validate_new_onepassword_integration E probe now i label auth token s =
     (case and_then (validate_integration (url_parse E) label auth) (\<lambda>_. validate_onepassword_token_input auth token) of
        Inl e \<Rightarrow> (Err e, s)
      | Inr _ \<Rightarrow>
          if label_taken label (st_index s) then (Err label_in_use, s)
          else
            let r = probe \<lparr>opi_id = i, opi_label = trim label, opi_auth = auth, opi_created_at = now, opi_updated_at = now\<rparr> token in
            (r, if is_err r then s\<lparr>st_invalidated := st_invalidated s @ [i]\<rparr> else s))"

definition no_stored_token :: core_error where
  "no_stored_token = InvalidOnePasswordIntegration (ascii ''desktop-app integrations do not store an access token'')"

definition validate_onepassword_replacement_token ::
    "(onepassword_integration \<Rightarrow> ustring option \<Rightarrow> core_error + unit) \<Rightarrow> uuid \<Rightarrow> uuid \<Rightarrow> ustring \<Rightarrow> 'v store \<Rightarrow> (core_error + unit) \<times> 'v store" where
  "validate_onepassword_replacement_token probe tmp i token s =
     (case and_then (onepassword_integration i (st_index s)) (\<lambda>x.
           and_then (validate_onepassword_token_input (opi_auth x) (Some token)) (\<lambda>_.
           if requires_token (opi_auth x) then Ok x else Err no_stored_token)) of
        Inl e \<Rightarrow> (Err e, s)
      | Inr x \<Rightarrow> (probe (x\<lparr>opi_id := tmp\<rparr>) (Some token), s\<lparr>st_invalidated := st_invalidated s @ [tmp]\<rparr>))"

definition replace_onepassword_token ::
    "'v vault_ops \<Rightarrow> datetime \<Rightarrow> uuid \<Rightarrow> ustring \<Rightarrow> 'v store \<Rightarrow> (core_error + onepassword_integration) \<times> 'v store" where
  "replace_onepassword_token V now i token s =
     (if trim token = [] then (Err (InvalidOnePasswordIntegration (ascii ''a non-empty 1Password access token is required'')), s)
      else if utf8_len token > 16 * 1024 then (Err (InvalidOnePasswordIntegration (ascii ''the 1Password access token is too large'')), s)
      else case List.find (\<lambda>x. opi_id x = i) (ix_integrations (st_index s)) of
        None \<Rightarrow> (Err OnePasswordIntegrationNotFound, s)
      | Some x \<Rightarrow>
          if \<not> requires_token (opi_auth x) then (Err no_stored_token, s)
          else
            let upd = (\<lambda>x. x\<lparr>opi_updated_at := now\<rparr>);
                nxt = (st_index s)\<lparr>ix_integrations := update_first (\<lambda>x. opi_id x = i) upd (ix_integrations (st_index s))\<rparr> in
            (case persist_index nxt s of
               (Inl e, s) \<Rightarrow> (Err e, s)
             | (Inr _, s) \<Rightarrow>
                 (case vault_set V i (token_attrs (opi_label x) (opi_created_at x)) token s of
                    (Inl e, s) \<Rightarrow> rollback_index e s
                  | (Inr _, s) \<Rightarrow> (Ok (upd x), s\<lparr>st_index := nxt, st_invalidated := st_invalidated s @ [i]\<rparr>))))"

definition integration_users :: "uuid \<Rightarrow> index_state \<Rightarrow> ustring list" where
  "integration_users i st =
     map sm_name (filter (\<lambda>m. case sm_source m of FromOnePassword r \<Rightarrow> integration_id r = i | Local \<Rightarrow> False) (ix_secrets st))"

definition delete_onepassword_integration ::
    "'v vault_ops \<Rightarrow> uuid \<Rightarrow> 'v store \<Rightarrow> (core_error + onepassword_integration) \<times> 'v store" where
  "delete_onepassword_integration V i s =
     (if integration_users i (st_index s) \<noteq> [] then (Err (OnePasswordIntegrationInUse (integration_users i (st_index s))), s)
      else case List.find (\<lambda>x. opi_id x = i) (ix_integrations (st_index s)) of
        None \<Rightarrow> (Err OnePasswordIntegrationNotFound, s)
      | Some x \<Rightarrow>
          let nxt = (st_index s)\<lparr>ix_integrations := remove_first (\<lambda>x. opi_id x = i) (ix_integrations (st_index s))\<rparr> in
          (case persist_index nxt s of
             (Inl e, s) \<Rightarrow> (Err e, s)
           | (Inr _, s) \<Rightarrow>
               (case (if requires_token (opi_auth x) then vault_delete V i s else (Ok (), s)) of
                  (Inl e, s) \<Rightarrow>
                    if e = SecretNotFound then (Ok x, s\<lparr>st_index := nxt, st_invalidated := st_invalidated s @ [i]\<rparr>)
                    else rollback_index e s
                | (Inr _, s) \<Rightarrow> (Ok x, s\<lparr>st_index := nxt, st_invalidated := st_invalidated s @ [i]\<rparr>))))"

definition add_onepassword_secret ::
    "uuid \<Rightarrow> datetime \<Rightarrow> ustring \<Rightarrow> onepassword_secret_ref \<Rightarrow> 'v store \<Rightarrow> (core_error + secret_meta) \<times> 'v store" where
  "add_onepassword_secret sid now name r s =
     (if \<not> is_valid_secret_name name then (Err (InvalidSecretName name), s)
      else let r = normalize_reference r in
      case validate_reference r of
        Inl e \<Rightarrow> (Err e, s)
      | Inr _ \<Rightarrow>
          if list_ex (\<lambda>m. sm_name m = name) (ix_secrets (st_index s)) then (Err (SecretNameTaken name), s)
          else if \<not> list_ex (\<lambda>x. opi_id x = integration_id r) (ix_integrations (st_index s)) then (Err OnePasswordIntegrationNotFound, s)
          else let meta = new_secret sid now name (FromOnePassword r) in
            commit_with meta ((st_index s)\<lparr>ix_secrets := ix_secrets (st_index s) @ [meta]\<rparr>) s)"

subsection \<open>Connections\<close>

definition connection_by_id :: "uuid \<Rightarrow> index_state \<Rightarrow> core_error + connection" where
  "connection_by_id i st =
     (case List.find (\<lambda>c. conn_id c = i) (ix_connections st) of Some c \<Rightarrow> Ok c | None \<Rightarrow> Err ConnectionNotFound)"

definition connection_by_name :: "ustring \<Rightarrow> index_state \<Rightarrow> connection option" where
  "connection_by_name n st = List.find (\<lambda>c. conn_name c = n) (ix_connections st)"

definition add_connection ::
    "'f store_env \<Rightarrow> uuid \<Rightarrow> datetime \<Rightarrow> connection_spec \<Rightarrow> 'v store \<Rightarrow> (core_error + connection) \<times> 'v store" where
  "add_connection E cid now spec s =
     (case prepare_connection E cid now (st_index s) spec of
        Inl e \<Rightarrow> (Err e, s)
      | Inr c \<Rightarrow> commit_with c ((st_index s)\<lparr>ix_connections := ix_connections (st_index s) @ [c]\<rparr>) s)"

definition add_connection_with_secret ::
    "'f store_env \<Rightarrow> 'v vault_ops \<Rightarrow> uuid \<Rightarrow> uuid \<Rightarrow> datetime \<Rightarrow> ustring \<Rightarrow> ustring \<Rightarrow> connection_spec \<Rightarrow> 'v store \<Rightarrow>
     (core_error + secret_meta \<times> connection) \<times> 'v store" where
  "add_connection_with_secret E V sid cid now name x spec s =
     (case prepare_connection_with_secret E sid cid now (st_index s) name spec of
        Inl e \<Rightarrow> (Err e, s)
      | Inr (meta, c) \<Rightarrow>
          let nxt = (st_index s)\<lparr>ix_secrets := ix_secrets (st_index s) @ [meta], ix_connections := ix_connections (st_index s) @ [c]\<rparr> in
          (case vault_set V sid \<lparr>va_name = sm_name meta, va_created_at = sm_created_at meta\<rparr> x s of
             (Inl e, s) \<Rightarrow> (Err e, s)
           | (Inr _, s) \<Rightarrow>
               (case persist_index nxt s of
                  (Inl e, s) \<Rightarrow> (Err e, vault_delete_all V [sid] s)
                | (Inr _, s) \<Rightarrow> (Ok (meta, c), s\<lparr>st_index := nxt\<rparr>))))"

definition inherited_config :: "connection_config \<Rightarrow> connection_config \<Rightarrow> connection_config" where
  "inherited_config existing incoming =
     inherit_signer_and_mtls existing (inherit_oauth_token_secret_id existing (inherit_oauth_spec existing incoming))"

definition oauth_rename_only :: "connection \<Rightarrow> ustring option" where
  "oauth_rename_only c =
     (case conn_config c of
        Api a \<Rightarrow>
          if api_oauth a \<noteq> None then Some (ascii ''OAuth API'')
          else if conn_oauth c \<noteq> None \<and> mcp_path a \<noteq> None then Some (ascii ''OAuth-managed MCP'') else None
      | _ \<Rightarrow> None)"

definition ssh_host_key_changed :: "connection_config \<Rightarrow> connection_config \<Rightarrow> bool" where
  "ssh_host_key_changed old new =
     (case (old, new) of (Ssh x, Ssh y) \<Rightarrow> host_key_fingerprint x \<noteq> host_key_fingerprint y | _ \<Rightarrow> False)"

text \<open>\<open>version\<close> is \<open>Connection::version\<close>; \<open>expected\<close> is the version the editor read, if it says.\<close>

definition update_connection_inner ::
    "'f store_env \<Rightarrow> (connection \<Rightarrow> bytes) \<Rightarrow> datetime \<Rightarrow> uuid \<Rightarrow> bytes option \<Rightarrow> connection_spec \<Rightarrow> 'v store \<Rightarrow>
     (core_error + connection \<times> bool) \<times> 'v store" where
  "update_connection_inner E version now i expected spec s =
     (case validate_connection_name (spec_name spec) of
        Inl e \<Rightarrow> (Err e, s)
      | Inr _ \<Rightarrow>
          (case List.find (\<lambda>c. conn_id c = i) (ix_connections (st_index s)) of
             None \<Rightarrow> (Err ConnectionNotFound, s)
           | Some c \<Rightarrow>
               if (case expected of Some x \<Rightarrow> version c \<noteq> x | None \<Rightarrow> False) then (Err ConnectionChanged, s)
               else if list_ex (\<lambda>c. conn_name c = spec_name spec \<and> conn_id c \<noteq> i) (ix_connections (st_index s))
               then (Err (ConnectionNameTaken (spec_name spec)), s)
               else if conn_kind c \<noteq> config_kind (spec_config spec) then (Err KindChange, s)
               else
                 let cfg = inherited_config (conn_config c) (spec_config spec) in
                 (case (if conn_config c \<noteq> cfg then oauth_rename_only c else None) of
                    Some what \<Rightarrow>
                      (Err (InvalidConnectionConfig (what @ ascii '' tools can only be renamed; reconnect the tool to change its authentication, or add another tool to use a different destination'')), s)
                  | None \<Rightarrow>
                      (case validate_config_and_bind_secrets E (st_index s) (spec\<lparr>spec_config := cfg\<rparr>) of
                         Inl e \<Rightarrow> (Err e, s)
                       | Inr bound \<Rightarrow>
                           let upd = (\<lambda>c. c\<lparr>conn_name := spec_name spec, conn_config := cfg, conn_secrets := bound,
                                 conn_updated_at := next_connection_updated_at now (conn_updated_at c)\<rparr>) in
                           commit_with (upd c, config_target cfg \<noteq> conn_target c \<or> ssh_host_key_changed (conn_config c) cfg)
                             ((st_index s)\<lparr>ix_connections := update_first (\<lambda>c. conn_id c = i) upd (ix_connections (st_index s))\<rparr>) s))))"

definition rename_connection_inner ::
    "(connection \<Rightarrow> bytes) \<Rightarrow> datetime \<Rightarrow> uuid \<Rightarrow> bytes option \<Rightarrow> ustring \<Rightarrow> 'v store \<Rightarrow> (core_error + connection) \<times> 'v store" where
  "rename_connection_inner version now i expected name s =
     (case validate_connection_name name of
        Inl e \<Rightarrow> (Err e, s)
      | Inr _ \<Rightarrow>
          (case List.find (\<lambda>c. conn_id c = i) (ix_connections (st_index s)) of
             None \<Rightarrow> (Err ConnectionNotFound, s)
           | Some c \<Rightarrow>
               if (case expected of Some x \<Rightarrow> version c \<noteq> x | None \<Rightarrow> False) then (Err ConnectionChanged, s)
               else if list_ex (\<lambda>c. conn_name c = name \<and> conn_id c \<noteq> i) (ix_connections (st_index s))
               then (Err (ConnectionNameTaken name), s)
               else
                 let upd = (\<lambda>c. c\<lparr>conn_name := name, conn_updated_at := next_connection_updated_at now (conn_updated_at c)\<rparr>) in
                 commit_with (upd c) ((st_index s)\<lparr>ix_connections := update_first (\<lambda>c. conn_id c = i) upd (ix_connections (st_index s))\<rparr>) s))"

definition set_connection_account :: "uuid \<Rightarrow> ustring option \<Rightarrow> 'v store \<Rightarrow> (core_error + connection) \<times> 'v store" where
  "set_connection_account i acc s =
     (case List.find (\<lambda>c. conn_id c = i) (ix_connections (st_index s)) of
        None \<Rightarrow> (Err ConnectionNotFound, s)
      | Some c \<Rightarrow>
          if account c = acc then (Ok c, s)
          else commit_with (c\<lparr>account := acc\<rparr>)
            ((st_index s)\<lparr>ix_connections := update_first (\<lambda>c. conn_id c = i) (\<lambda>c. c\<lparr>account := acc\<rparr>) (ix_connections (st_index s))\<rparr>) s)"

definition set_connection_oauth ::
    "'v vault_ops \<Rightarrow> uuid \<Rightarrow> datetime \<Rightarrow> uuid \<Rightarrow> ustring \<Rightarrow> datetime option \<Rightarrow> 'v store \<Rightarrow> (core_error + connection) \<times> 'v store" where
  "set_connection_oauth V gid now i x expires s =
     (case List.find (\<lambda>c. conn_id c = i) (ix_connections (st_index s)) of
        None \<Rightarrow> (Err ConnectionNotFound, s)
      | Some c \<Rightarrow>
          let existing = map_option grant_id (conn_oauth c);
              g = (case existing of Some g \<Rightarrow> g | None \<Rightarrow> gid);
              upd = (\<lambda>c. c\<lparr>conn_oauth := Some \<lparr>grant_id = g, oauth_expires_at = expires\<rparr>\<rparr>);
              nxt = (st_index s)\<lparr>ix_connections := update_first (\<lambda>c. conn_id c = i) upd (ix_connections (st_index s))\<rparr> in
          (case vault_set V g \<lparr>va_name = conn_name c @ ascii '' OAuth grant'', va_created_at = now\<rparr> x s of
             (Inl e, s) \<Rightarrow> (Err e, s)
           | (Inr _, s) \<Rightarrow>
               (case persist_index nxt s of
                  (Inl e, s) \<Rightarrow> (Err e, vault_delete_all V (if existing = None then [g] else []) s)
                | (Inr _, s) \<Rightarrow> (Ok (upd c), s\<lparr>st_index := nxt\<rparr>))))"

definition connection_oauth_grant :: "'v vault_ops \<Rightarrow> uuid \<Rightarrow> 'v store \<Rightarrow> (core_error + ustring) outcome" where
  "connection_oauth_grant V i s =
     (case connection_by_id i (st_index s) of
        Inl e \<Rightarrow> Return (Err e)
      | Inr c \<Rightarrow>
          (case conn_oauth c of
             None \<Rightarrow> Return (Err SecretNotFound)
           | Some oa \<Rightarrow> v_get V (grant_id oa) (st_vault s)))"

definition pin_ssh_host_key :: "'f store_env \<Rightarrow> uuid \<Rightarrow> 'f \<Rightarrow> 'v store \<Rightarrow> (core_error + 'f pin_outcome) \<times> 'v store" where
  "pin_ssh_host_key E i observed s =
     (case List.find (\<lambda>c. conn_id c = i) (ix_connections (st_index s)) of
        None \<Rightarrow> (Err ConnectionNotFound, s)
      | Some c \<Rightarrow>
          (case conn_config c of
             Ssh h \<Rightarrow>
               if host_key_fingerprint h \<noteq> [] then
                 (case fp_parse E (host_key_fingerprint h) of
                    Inl e \<Rightarrow> (Err (InvalidConnectionConfig (ascii ''stored host key fingerprint is invalid: '' @ e)), s)
                  | Inr f \<Rightarrow> (Ok (AlreadyPinned f), s))
               else
                 commit_with (Pinned observed) ((st_index s)\<lparr>ix_connections := update_first (\<lambda>c. conn_id c = i)
                   (\<lambda>c. c\<lparr>conn_config := Ssh (h\<lparr>host_key_fingerprint := fp_show E observed\<rparr>)\<rparr>) (ix_connections (st_index s))\<rparr>) s
           | _ \<Rightarrow> (Err (InvalidConnectionConfig (ascii ''not an ssh connection'')), s)))"

definition delete_connection :: "'v vault_ops \<Rightarrow> uuid \<Rightarrow> 'v store \<Rightarrow> (core_error + connection) \<times> 'v store" where
  "delete_connection V i s =
     (case List.find (\<lambda>c. conn_id c = i) (ix_connections (st_index s)) of
        None \<Rightarrow> (Err ConnectionNotFound, s)
      | Some c \<Rightarrow>
          (case commit_index ((st_index s)\<lparr>ix_connections := remove_first (\<lambda>c. conn_id c = i) (ix_connections (st_index s))\<rparr>) s of
             (Inl e, s) \<Rightarrow> (Err e, s)
           | (Inr _, s) \<Rightarrow> (Ok c, vault_delete_all V (case conn_oauth c of Some oa \<Rightarrow> [grant_id oa] | None \<Rightarrow> []) s)))"

definition reorder_connections :: "uuid list \<Rightarrow> 'v store \<Rightarrow> (core_error + connection list) \<times> 'v store" where
  "reorder_connections is s =
     (let ordered = take_ordered is (ix_connections (st_index s)) in
      if ordered = ix_connections (st_index s) then (Ok ordered, s)
      else commit_with ordered ((st_index s)\<lparr>ix_connections := ordered\<rparr>) s)"

subsection \<open>Settings and the access generation\<close>

definition set_menu_bar_hides_dock :: "bool \<Rightarrow> 'v store \<Rightarrow> (core_error + unit) \<times> 'v store" where
  "set_menu_bar_hides_dock on s =
     commit_index ((st_index s)\<lparr>ix_settings := Some ((index_settings (st_index s))\<lparr>menu_bar_hides_dock := on\<rparr>)\<rparr>) s"

definition set_confirm_ssh_host_keys :: "bool \<Rightarrow> 'v store \<Rightarrow> (core_error + unit) \<times> 'v store" where
  "set_confirm_ssh_host_keys on s =
     commit_index ((st_index s)\<lparr>ix_settings := Some ((index_settings (st_index s))\<lparr>confirm_ssh_host_keys := on\<rparr>)\<rparr>) s"

definition store_advance_access_generation :: "'v store \<Rightarrow> (core_error + nat) \<times> 'v store" where
  "store_advance_access_generation s =
     (let g = ix_access_generation (st_index s) in
      if g = 2 ^ 64 - 1 then (Err (InvalidSetting (ascii ''access generation overflow'')), s)
      else commit_with (g + 1) ((st_index s)\<lparr>ix_access_generation := g + 1\<rparr>) s)"

end
