(* ===== verification/StoreInvariant.thy ===== *)
theory StoreInvariant
  imports Store
begin

text \<open>
  What the operations of \<open>Store\<close> guarantee. Each operation is shown to lead to one of four outcomes (aborted,
  committed, rolled back, or a replaced file behind a reported error) towards an index that is legal; the
  invariants of the catalog, the completeness of the vault and the atomicity of every operation follow
  from that once. The lemmas about an arbitrary vault are proved in the locale \<open>secret_vault\<close>, those
  about histories with restarts in its extensions \<open>reopenable_vault\<close> and \<open>durable_vault\<close>.
\<close>

subsection \<open>What an operation may do\<close>

text \<open>No write to come fails after the file was replaced.\<close>

definition clean :: "'v store \<Rightarrow> bool" where
  "clean s \<longleftrightarrow> (\<forall>e. Some (e, True) \<notin> set (st_faults s))"

definition holds :: "'v vault_ops \<Rightarrow> 'v store \<Rightarrow> uuid \<Rightarrow> bool" where
  "holds V s i \<longleftrightarrow> (\<exists>x. v_get V i (st_vault s) = Return (Ok x))"

definition keeps :: "'v vault_ops \<Rightarrow> uuid set \<Rightarrow> 'v store \<Rightarrow> 'v store \<Rightarrow> bool" where
  "keeps V X s s' \<longleftrightarrow> (\<forall>i. i \<notin> X \<longrightarrow> holds V s i \<longrightarrow> holds V s' i)"

text \<open>
  An operation leads from \<open>s\<close> towards the index \<open>nxt\<close>, storing the vault items \<open>fresh\<close> and dropping \<open>gone\<close>. It
  is aborted, committed, rolled back, or it leaves a replaced file behind a reported error.
\<close>

inductive outcome_of :: "'v vault_ops \<Rightarrow> 'v store \<Rightarrow> index_state \<Rightarrow> uuid set \<Rightarrow> uuid set \<Rightarrow> 'v store \<Rightarrow> bool" for V s nxt fresh gone s' where
  aborted: "st_index s' = st_index s \<Longrightarrow> st_disk s' = st_disk s \<Longrightarrow> keeps V fresh s s' \<Longrightarrow> outcome_of V s nxt fresh gone s'"
| committed: "st_index s' = nxt \<Longrightarrow> st_disk s' = nxt \<Longrightarrow> keeps V gone s s' \<Longrightarrow> (\<forall>i\<in>fresh. holds V s' i) \<Longrightarrow> outcome_of V s nxt fresh gone s'"
| rolled_back: "st_index s' = st_index s \<Longrightarrow> st_disk s' \<in> {st_index s, nxt} \<Longrightarrow> keeps V {} s s' \<Longrightarrow> fresh = {} \<Longrightarrow> outcome_of V s nxt fresh gone s'"
| dirty: "\<not> clean s \<Longrightarrow> st_index s' = st_index s \<Longrightarrow> st_disk s' = nxt \<Longrightarrow> outcome_of V s nxt fresh gone s'"

definition used_ids :: "'v store \<Rightarrow> uuid set" where
  "used_ids s = index_ids (st_index s) \<union> index_ids (st_disk s)"

definition legal :: "index_state \<Rightarrow> index_state \<Rightarrow> uuid set \<Rightarrow> uuid set \<Rightarrow> bool" where
  "legal st nxt fresh gone \<longleftrightarrow>
     index_ok st \<longrightarrow> index_ok nxt \<and> set (vault_ids nxt) \<subseteq> set (vault_ids st) \<union> fresh \<and> gone \<inter> set (vault_ids nxt) = {}"

text \<open>\<open>failed\<close> says whether the operation reported an error.\<close>

definition changes :: "'v vault_ops \<Rightarrow> ('v \<Rightarrow> bool) \<Rightarrow> bool \<Rightarrow> 'v store \<Rightarrow> 'v store \<Rightarrow> bool" where
  "changes V good failed s s' \<longleftrightarrow>
     (\<exists>nxt fresh gone. fresh \<inter> used_ids s = {} \<and> legal (st_index s) nxt fresh gone \<and> outcome_of V s nxt fresh gone s') \<and>
     good (st_vault s') \<and> set (st_faults s') \<subseteq> set (st_faults s) \<and>
     (failed \<longrightarrow> st_index s' = st_index s) \<and> (\<not> failed \<longrightarrow> s' = s \<or> st_disk s' = st_index s')"

definition vault_complete :: "'v vault_ops \<Rightarrow> 'v store \<Rightarrow> bool" where
  "vault_complete V s \<longleftrightarrow> (\<forall>i \<in> set (vault_ids (st_index s)) \<union> set (vault_ids (st_disk s)). holds V s i)"

lemma vault_ids_used: "set (vault_ids (st_index s)) \<union> set (vault_ids (st_disk s)) \<subseteq> used_ids s"
  by (auto simp: used_ids_def index_ids_def)

lemma changes_index_ok:
  assumes "changes V good b s s'" and "index_ok (st_index s)" and "index_ok (st_disk s)"
  shows "index_ok (st_index s') \<and> index_ok (st_disk s')"
  using assms by (auto simp: changes_def legal_def elim!: outcome_of.cases)

lemma changes_vault_complete:
  assumes c: "changes V good b s s'" and ok: "index_ok (st_index s)" and full: "vault_complete V s" and "clean s"
  shows "vault_complete V s'"
proof -
  from c obtain nxt fresh gone where f: "fresh \<inter> used_ids s = {}" and l: "legal (st_index s) nxt fresh gone" and
    o: "outcome_of V s nxt fresh gone s'" by (auto simp: changes_def)
  have ids: "set (vault_ids nxt) \<subseteq> set (vault_ids (st_index s)) \<union> fresh" "gone \<inter> set (vault_ids nxt) = {}" using l ok by (auto simp: legal_def)
  have old: "i \<notin> fresh \<and> holds V s i" if "i \<in> set (vault_ids (st_index s)) \<union> set (vault_ids (st_disk s))" for i
    using that full f vault_ids_used [of s] by (auto simp: vault_complete_def)
  from o show ?thesis
  proof cases
    case aborted
    with old show ?thesis by (auto simp: vault_complete_def keeps_def)
  next
    case committed
    have "holds V s' i" if "i \<in> set (vault_ids nxt)" for i
      using that ids old committed(3,4) unfolding keeps_def by blast
    with committed(1,2) show ?thesis by (simp add: vault_complete_def)
  next
    case rolled_back
    with old ids(1) show ?thesis by (auto simp: vault_complete_def keeps_def)
  next
    case dirty
    with \<open>clean s\<close> show ?thesis by simp
  qed
qed

lemma faults_tl: "set (tl xs) \<subseteq> set xs"
  by (cases xs) auto

lemma persist_index_frame:
  assumes "persist_index nxt s = (r, s')"
  shows "st_index s' = st_index s \<and> st_vault s' = st_vault s \<and> set (st_faults s') \<subseteq> set (st_faults s) \<and>
    (\<not> is_err r \<longrightarrow> st_disk s' = nxt) \<and> (is_err r \<longrightarrow> st_disk s' = st_disk s \<or> \<not> clean s \<and> st_disk s' = nxt)"
proof (cases "st_faults s")
  case Nil
  with assms have "r = Inr ()" "s' = s\<lparr>st_faults := [], st_disk := nxt\<rparr>" by (simp_all add: persist_index_def)
  then show ?thesis by simp
next
  case (Cons f fs)
  show ?thesis
  proof (cases f)
    case None
    with assms Cons have "r = Inr ()" "s' = s\<lparr>st_faults := fs, st_disk := nxt\<rparr>" by (simp_all add: persist_index_def)
    with Cons show ?thesis by auto
  next
    case (Some er)
    obtain e b where "er = (e, b)" by (cases er)
    with assms Cons Some have "r = Inl e" "s' = (if b then s\<lparr>st_faults := fs, st_disk := nxt\<rparr> else s\<lparr>st_faults := fs\<rparr>)" "b \<Longrightarrow> \<not> clean s"
      by (auto simp: persist_index_def clean_def Let_def)
    with Cons show ?thesis by (cases b) auto
  qed
qed

lemma keeps_refl [simp]: "keeps V X s s"
  by (simp add: keeps_def)

lemma holds_same: "st_vault s' = st_vault s \<Longrightarrow> holds V s' = holds V s"
  by (simp add: holds_def fun_eq_iff)

lemma keeps_same: "st_vault s' = st_vault s \<Longrightarrow> keeps V X s s'"
  by (simp add: keeps_def holds_def)

lemma keeps_trans: "keeps V X s s' \<Longrightarrow> keeps V Y s' s'' \<Longrightarrow> keeps V (X \<union> Y) s s''"
  by (auto simp: keeps_def)

lemma keeps_mono: "keeps V X s s' \<Longrightarrow> X \<subseteq> Y \<Longrightarrow> keeps V Y s s'"
  by (auto simp: keeps_def)

lemma changesI:
  assumes "outcome_of V s nxt fresh gone s'" and "legal (st_index s) nxt fresh gone" and "fresh \<inter> used_ids s = {}"
    and "good (st_vault s')" and "set (st_faults s') \<subseteq> set (st_faults s)"
    and "failed \<Longrightarrow> st_index s' = st_index s" and "\<not> failed \<Longrightarrow> st_disk s' = st_index s'"
  shows "changes V good failed s s'"
  using assms unfolding changes_def by blast

context secret_vault
begin

lemma store_set:
  assumes "vault_set V i a x s = (r, s')" and "good (st_vault s)" and "rust_string x"
  shows "st_index s' = st_index s \<and> st_disk s' = st_disk s \<and> st_faults s' = st_faults s \<and> good (st_vault s') \<and> keeps V {} s s' \<and>
    (\<not> is_err r \<longrightarrow> holds V s' i)"
proof -
  obtain q v where q: "v_set V i a x (st_vault s) = (q, v)" by fastforce
  with assms(1) have s': "s' = s\<lparr>st_vault := v\<rparr>" "r = q" by (simp_all add: vault_set_def)
  have "good v" "\<And>j. held v j = (held (st_vault s) j \<or> \<not> is_err r \<and> j = i)" using held_set [OF assms(2,3) q] s'(2) by auto
  then show ?thesis by (auto simp: s' keeps_def holds_def held_def)
qed

lemma store_attrs:
  assumes "vault_set_attrs V i a s = (r, s')" and "good (st_vault s)"
  shows "st_index s' = st_index s \<and> st_disk s' = st_disk s \<and> st_faults s' = st_faults s \<and> good (st_vault s') \<and> keeps V {} s s'"
proof -
  obtain q v where q: "v_set_attrs V i a (st_vault s) = (q, v)" by fastforce
  with assms(1) have s': "s' = s\<lparr>st_vault := v\<rparr>" by (simp add: vault_set_attrs_def)
  have "good v" "\<And>j. held v j = held (st_vault s) j" using held_attrs [OF assms(2) q] by auto
  then show ?thesis by (auto simp: s' keeps_def holds_def held_def)
qed

lemma store_delete:
  assumes "vault_delete V i s = (r, s')" and "good (st_vault s)"
  shows "st_index s' = st_index s \<and> st_disk s' = st_disk s \<and> st_faults s' = st_faults s \<and> good (st_vault s') \<and> keeps V {i} s s' \<and>
    (is_err r \<longrightarrow> keeps V {} s s')"
proof -
  obtain q v where q: "v_delete V i (st_vault s) = (q, v)" by fastforce
  with assms(1) have s': "s' = s\<lparr>st_vault := v\<rparr>" "r = q" by (simp_all add: vault_delete_def)
  have "good v" "\<And>j. held v j = (held (st_vault s) j \<and> (is_err r \<or> j \<noteq> i))" using held_delete [OF assms(2) q] s'(2) by auto
  then show ?thesis by (auto simp: s' keeps_def holds_def held_def)
qed

lemma store_delete_all:
  "good (st_vault s) \<Longrightarrow> st_index (vault_delete_all V is s) = st_index s \<and> st_disk (vault_delete_all V is s) = st_disk s \<and>
     st_faults (vault_delete_all V is s) = st_faults s \<and> good (st_vault (vault_delete_all V is s)) \<and> keeps V (set is) s (vault_delete_all V is s)"
proof (induction "is" arbitrary: s)
  case (Cons i js)
  obtain r s1 where d: "vault_delete V i s = (r, s1)" by fastforce
  note e = store_delete [OF d Cons.prems]
  with Cons.IH [of s1] keeps_trans [of V "{i}" s s1 "set js"] show ?case by (simp add: vault_delete_all_def d)
qed (simp add: vault_delete_all_def)

lemma changes_none: "good (st_vault s) \<Longrightarrow> changes V good b s s"
  unfolding changes_def legal_def
  by (intro conjI exI [of _ "st_index s"] exI [of _ "{}"] outcome_of.aborted) simp_all

text \<open>An operation that only commits a new index.\<close>

lemma changes_commit:
  assumes "commit_index nxt s = (r, s')" and g: "good (st_vault s)" and l: "legal (st_index s) nxt {} {}"
  shows "changes V good (is_err r) s s'"
proof -
  obtain q s1 where p: "persist_index nxt s = (q, s1)" by fastforce
  note f = persist_index_frame [OF p]
  show ?thesis
  proof (cases q)
    case (Inl e)
    with assms(1) p have "s' = s1" "r = Inl e" by (simp_all add: commit_index_def)
    moreover have "outcome_of V s nxt {} {} s1"
      using f Inl by (auto intro: outcome_of.aborted outcome_of.dirty simp: keeps_same)
    ultimately show ?thesis using f g l by (intro changesI) auto
  next
    case (Inr u)
    with assms(1) p have "s' = s1\<lparr>st_index := nxt\<rparr>" "r = Inr ()" by (simp_all add: commit_index_def)
    moreover have "outcome_of V s nxt {} {} (s1\<lparr>st_index := nxt\<rparr>)" using f Inr by (intro outcome_of.committed) (simp_all add: keeps_same)
    ultimately show ?thesis using f g l Inr by (intro changesI) auto
  qed
qed

lemma changes_commit_with:
  assumes "commit_with x nxt s = (r, s')" and "good (st_vault s)" and "legal (st_index s) nxt {} {}"
  shows "changes V good (is_err r) s s'"
proof -
  obtain q s1 where c: "commit_index nxt s = (q, s1)" by fastforce
  with assms(1) have "s' = s1" "is_err r = is_err q" by (cases q; auto simp: commit_with_def)+
  with changes_commit [OF c assms(2,3)] show ?thesis by simp
qed

text \<open>Vault items stored before the index is written.\<close>

definition staged :: "'v store \<Rightarrow> uuid set \<Rightarrow> 'v store \<Rightarrow> bool" where
  "staged s F s1 \<longleftrightarrow> st_index s1 = st_index s \<and> st_disk s1 = st_disk s \<and> st_faults s1 = st_faults s \<and> good (st_vault s1) \<and>
     keeps V {} s s1 \<and> (\<forall>i\<in>F. holds V s1 i)"

lemma staged_refl: "good (st_vault s) \<Longrightarrow> staged s {} s"
  by (simp add: staged_def)

lemma staged_set:
  assumes "staged s F s1" and "vault_set V i a x s1 = (r, s2)" and "rust_string x"
  shows "staged s F s2" and "\<not> is_err r \<Longrightarrow> staged s (insert i F) s2"
proof -
  have g: "good (st_vault s1)" and F: "\<forall>i\<in>F. holds V s1 i" and k: "keeps V {} s s1" using assms(1) by (simp_all add: staged_def)
  note e = store_set [OF assms(2) g assms(3)]
  have "keeps V {} s s2" using keeps_trans [OF k, of "{}" s2] e by simp
  moreover have "\<forall>i\<in>F. holds V s2 i" using F e by (simp add: keeps_def)
  ultimately show "staged s F s2" and "\<not> is_err r \<Longrightarrow> staged s (insert i F) s2" using assms(1) e by (simp_all add: staged_def)
qed

lemma staged_abort:
  assumes st: "staged s F s1" and "st_index s2 = st_index s1" "st_disk s2 = st_disk s1" "st_vault s2 = st_vault s1"
    "set (st_faults s2) \<subseteq> set (st_faults s1)" and "set is \<subseteq> F" and "F \<inter> used_ids s = {}"
  shows "changes V good True s (vault_delete_all V is s2)"
proof -
  have g: "good (st_vault s2)" using st assms(4) by (simp add: staged_def)
  note d = store_delete_all [OF g, of "is"]
  have "keeps V {} s s2" using st assms(4) by (simp add: staged_def keeps_def holds_def)
  then have "keeps V F s (vault_delete_all V is s2)" using keeps_trans [of V "{}" s s2 "set is"] d assms(6) by (auto intro: keeps_mono)
  then have "outcome_of V s (st_index s) F {} (vault_delete_all V is s2)"
    using d st assms(2,3) by (intro outcome_of.aborted) (simp_all add: staged_def)
  then show ?thesis using d st assms(2,5,7) by (intro changesI) (auto simp: staged_def legal_def)
qed

lemma staged_persist_err:
  assumes st: "staged s F s1" and p: "persist_index nxt s1 = (Inl e, s2)" and "set is \<subseteq> F" and F: "F \<inter> used_ids s = {}"
    and l: "legal (st_index s) nxt F G"
  shows "changes V good True s (vault_delete_all V is s2)"
proof -
  note f = persist_index_frame [OF p]
  show ?thesis
  proof (cases "st_disk s2 = st_disk s1")
    case True
    with f st assms(3) F show ?thesis by (intro staged_abort [OF st]) (simp_all add: staged_def)
  next
    case False
    have g: "good (st_vault s2)" using st f by (simp add: staged_def)
    note d = store_delete_all [OF g, of "is"]
    have "\<not> clean s" "st_disk s2 = nxt" using False f st by (auto simp: staged_def clean_def)
    then have "outcome_of V s nxt F G (vault_delete_all V is s2)" using d f st by (intro outcome_of.dirty) (simp_all add: staged_def)
    then show ?thesis using d f st l F by (intro changesI) (auto simp: staged_def)
  qed
qed

lemma staged_commit:
  assumes st: "staged s F s1" and p: "persist_index nxt s1 = (Inr u, s2)" and l: "legal (st_index s) nxt F (set gs)"
    and F: "F \<inter> used_ids s = {}" and G: "set gs \<inter> F = {}"
  shows "changes V good False s (vault_delete_all V gs (s2\<lparr>st_index := nxt\<rparr>))"
proof -
  note f = persist_index_frame [OF p]
  have g: "good (st_vault (s2\<lparr>st_index := nxt\<rparr>))" using st f by (simp add: staged_def)
  note d = store_delete_all [OF g, of gs]
  have "keeps V {} s (s2\<lparr>st_index := nxt\<rparr>)" "\<forall>i\<in>F. holds V (s2\<lparr>st_index := nxt\<rparr>) i" using st f by (simp_all add: staged_def keeps_def holds_def)
  with d G have "keeps V (set gs) s (vault_delete_all V gs (s2\<lparr>st_index := nxt\<rparr>))" "\<forall>i\<in>F. holds V (vault_delete_all V gs (s2\<lparr>st_index := nxt\<rparr>)) i"
    by (auto simp: keeps_def)
  then have "outcome_of V s nxt F (set gs) (vault_delete_all V gs (s2\<lparr>st_index := nxt\<rparr>))" using d f by (intro outcome_of.committed) simp_all
  then show ?thesis using d f st l F by (intro changesI) (auto simp: staged_def)
qed

text \<open>Vault items changed after the index was written.\<close>

definition written :: "'v store \<Rightarrow> index_state \<Rightarrow> uuid set \<Rightarrow> 'v store \<Rightarrow> bool" where
  "written s nxt G s1 \<longleftrightarrow> st_index s1 = st_index s \<and> st_disk s1 = nxt \<and> set (st_faults s1) \<subseteq> set (st_faults s) \<and> good (st_vault s1) \<and> keeps V G s s1"

lemma written_persist: "persist_index nxt s = (Inr u, s1) \<Longrightarrow> good (st_vault s) \<Longrightarrow> written s nxt {} s1"
  using persist_index_frame [of nxt s "Inr u" s1] by (simp add: written_def keeps_same)

lemma written_set:
  "written s nxt G s1 \<Longrightarrow> vault_set V i a x s1 = (r, s2) \<Longrightarrow> rust_string x \<Longrightarrow> written s nxt G s2"
  using store_set [of i a x s1 r s2] keeps_trans [of V G s s1 "{}" s2] by (simp add: written_def)

lemma written_attrs: "written s nxt G s1 \<Longrightarrow> vault_set_attrs V i a s1 = (r, s2) \<Longrightarrow> written s nxt G s2"
  using store_attrs [of i a s1 r s2] keeps_trans [of V G s s1 "{}" s2] by (simp add: written_def)

lemma written_delete:
  "written s nxt G s1 \<Longrightarrow> vault_delete V i s1 = (r, s2) \<Longrightarrow> written s nxt (if is_err r then G else insert i G) s2"
  using store_delete [of i s1 r s2] keeps_trans [of V G s s1 "{}" s2] keeps_trans [of V G s s1 "{i}" s2] by (auto simp: written_def)

lemma written_delete_all: "written s nxt G s1 \<Longrightarrow> written s nxt (G \<union> set is) (vault_delete_all V is s1)"
  using store_delete_all [of s1 "is"] keeps_trans [of V G s s1 "set is"] by (auto simp: written_def)

lemma written_rollback:
  assumes w: "written s nxt {} s1" and l: "legal (st_index s) nxt {} G" and r: "rollback_index e s1 = (r, s2)"
  shows "changes V good (is_err r) s s2"
proof -
  obtain q s3 where p: "persist_index (st_index s1) s1 = (q, s3)" by fastforce
  note f = persist_index_frame [OF p]
  have s2: "s2 = s3" "r = Inl e" using r p by (simp_all add: rollback_index_def)
  have "outcome_of V s nxt {} G s2" using f w s2 by (intro outcome_of.rolled_back) (auto simp: written_def keeps_def holds_def)
  then show ?thesis using f w s2 l by (intro changesI) (auto simp: written_def)
qed

lemma written_commit:
  assumes w: "written s nxt G s1" and l: "legal (st_index s) nxt {} G"
    and "st_index s2 = nxt" "st_disk s2 = st_disk s1" "st_vault s2 = st_vault s1" "st_faults s2 = st_faults s1"
  shows "changes V good False s s2"
proof -
  have "outcome_of V s nxt {} G s2" using w assms(3-6) by (intro outcome_of.committed) (simp_all add: written_def keeps_def holds_def)
  then show ?thesis using w l assms(3-6) by (intro changesI) (auto simp: written_def)
qed

lemma persist_failed: "persist_index nxt s = (Inl e, s1) \<Longrightarrow> good (st_vault s) \<Longrightarrow> legal (st_index s) nxt {} G \<Longrightarrow> changes V good True s s1"
  using staged_persist_err [OF staged_refl, of s nxt e s1 "[]" G] by (simp add: vault_delete_all_def)

end

subsection \<open>Every operation is legal: secrets\<close>

lemma used_fresh:
  assumes "i \<notin> used_ids s"
  shows "i \<notin> index_ids (st_index s)" "i \<notin> set (vault_ids (st_index s))" "i \<notin> sm_id ` set (ix_secrets (st_index s))"
  using assms by (auto simp: used_ids_def index_ids_def)

lemma legal_trivial [simp]: "legal st st F {}"
  by (auto simp: legal_def)

lemma legal_gone: "legal st nxt F G \<Longrightarrow> legal st nxt F {}"
  by (simp add: legal_def)

lemma legal_secret_add:
  assumes "sm_id m \<notin> sm_id ` set (ix_secrets st)" and "\<not> list_ex (\<lambda>x. sm_name x = sm_name m) (ix_secrets st)"
    and "secret_shape m" and "secret_linked (ix_integrations st) m" and "distinct (secret_vault_ids m)"
    and "set (secret_vault_ids m) \<inter> set (vault_ids st) = {}"
  shows "legal st (st\<lparr>ix_secrets := ix_secrets st @ [m]\<rparr>) (set (secret_vault_ids m)) {}"
proof -
  have "sm_name m \<notin> sm_name ` set (ix_secrets st)" using assms(2) by (auto simp: list_ex_iff)
  with index_ok_secret_add [of st m] assms show ?thesis by (auto simp: legal_def)
qed

lemma legal_secret_update:
  assumes "List.find (\<lambda>m. sm_id m = i) (ix_secrets st) = Some m" and "sm_id (g m) = sm_id m" and "sm_source (g m) = sm_source m"
    and "secret_shape m \<Longrightarrow> secret_shape (g m)" and "sm_name (g m) = sm_name m \<or> sm_name (g m) \<notin> sm_name ` set (ix_secrets st)"
    and "secret_vault_ids (g m) = secret_vault_ids m"
  shows "legal st (st\<lparr>ix_secrets := update_first (\<lambda>m. sm_id m = i) g (ix_secrets st)\<rparr>) {} {}"
  unfolding legal_def
proof
  assume ok: "index_ok st"
  have m: "m \<in> set (ix_secrets st)" using find_SomeD [OF assms(1)] by simp
  then have "distinct (secret_vault_ids m)" using catalog_okD(6) [OF ok] by (auto simp: vault_ids_def dest!: split_list)
  moreover have "set (secret_vault_ids m) \<subseteq> set (vault_ids st)" using m by (auto simp: vault_ids_def)
  ultimately show "index_ok (st\<lparr>ix_secrets := update_first (\<lambda>m. sm_id m = i) g (ix_secrets st)\<rparr>) \<and>
      set (vault_ids (st\<lparr>ix_secrets := update_first (\<lambda>m. sm_id m = i) g (ix_secrets st)\<rparr>)) \<subseteq> set (vault_ids st) \<union> {} \<and>
      {} \<inter> set (vault_ids (st\<lparr>ix_secrets := update_first (\<lambda>m. sm_id m = i) g (ix_secrets st)\<rparr>)) = {}"
    using index_ok_secret_update [OF ok assms(1), of "g m" "{}" g] assms(2-6) catalog_okD(7) [OF ok m] by auto
qed

lemma credential_profile_shape:
  assumes "credential_profile st nc = Inr (name, site, user)"
  shows "case nc_kind nc of Secret \<Rightarrow> site = None \<and> user = None \<and> nc_totp nc = None
    | Password \<Rightarrow> site \<notin> {None, Some []} \<and> user \<noteq> Some []"
proof (cases "nc_kind nc")
  case Secret
  with assms show ?thesis by (simp add: credential_profile_def split: if_splits)
next
  case Password
  with assms obtain w where w: "nc_site nc = Some w" by (cases "nc_site nc") (simp_all add: credential_profile_def)
  show ?thesis using assms unfolding credential_profile_def Password w by (auto simp: Let_def split: if_splits)
qed

context secret_vault
begin

lemma store_credential_changes:
  assumes op: "store_credential V meta x totp s = (r, s')" and g: "good (st_vault s)"
    and str: "rust_string x" "\<And>x. totp = Some x \<Longrightarrow> rust_string x"
    and l: "legal (st_index s) ((st_index s)\<lparr>ix_secrets := ix_secrets (st_index s) @ [meta]\<rparr>) F {}"
    and F: "F = insert (sm_id meta) (set_option (totp_vault_id meta))" "F \<inter> used_ids s = {}" "totp_vault_id meta \<noteq> None \<Longrightarrow> totp \<noteq> None"
  shows "changes V good (is_err r) s s'"
proof -
  let ?nxt = "(st_index s)\<lparr>ix_secrets := ix_secrets (st_index s) @ [meta]\<rparr>" and ?i = "sm_id meta"
  obtain r1 s1 where v1: "vault_set V ?i \<lparr>va_name = sm_name meta, va_created_at = sm_created_at meta\<rparr> x s = (r1, s1)" by fastforce
  note st1 = staged_set [OF staged_refl [OF g] v1 str(1)]
  show ?thesis
  proof (cases r1)
    case (Inl e)
    with op v1 staged_abort [OF st1(1), of s1 "[]"] show ?thesis by (auto simp: store_credential_def vault_delete_all_def)
  next
    case r1: (Inr u1)
    have st1': "staged s {?i} s1" using st1(2) r1 by simp
    obtain r2 s2 where v2: "(case (totp_vault_id meta, totp) of
        (Some t, Some seed) \<Rightarrow> vault_set V t (totp_vault_attrs (sm_name meta) (sm_created_at meta)) seed s1 | _ \<Rightarrow> (Ok (), s1)) = (r2, s2)" by fastforce
    have st2: "staged s {?i} s2 \<and> (\<not> is_err r2 \<longrightarrow> staged s F s2)"
    proof (cases "totp_vault_id meta")
      case None
      with v2 st1' F show ?thesis by simp
    next
      case (Some t)
      with F(3) obtain y where y: "totp = Some y" by auto
      with v2 Some have "vault_set V t (totp_vault_attrs (sm_name meta) (sm_created_at meta)) y s1 = (r2, s2)" by simp
      from staged_set [OF st1' this str(2) [OF y]] Some F show ?thesis by (simp add: insert_commute)
    qed
    show ?thesis
    proof (cases r2)
      case (Inl e)
      with op v1 r1 v2 F(1,2) staged_abort [of s "{?i}" s2 s2 "[?i]"] st2 show ?thesis by (auto simp: store_credential_def)
    next
      case r2: (Inr u2)
      then have st2': "staged s F s2" "st_index s2 = st_index s" using st2 by (simp_all add: staged_def)
      obtain q s3 where p3: "persist_index ?nxt s2 = (q, s3)" by fastforce
      show ?thesis
      proof (cases q)
        case (Inl e)
        have "changes V good True s (vault_delete_all V (?i # (case totp_vault_id meta of Some t \<Rightarrow> [t] | None \<Rightarrow> [])) s3)"
          using staged_persist_err [OF st2'(1) p3 [unfolded Inl] _ F(2) l] F(1) by (auto split: option.splits)
        with op v1 r1 v2 r2 p3 Inl st2'(2) show ?thesis by (auto simp: store_credential_def)
      next
        case (Inr u3)
        with op v1 r1 v2 r2 p3 st2'(2) staged_commit [OF st2'(1) p3 [unfolded Inr], of "[]"] l F(2) show ?thesis
          by (auto simp: store_credential_def vault_delete_all_def)
      qed
    qed
  qed
qed

lemma add_credential_changes:
  assumes op: "add_credential V sid tid now nc s = (r, s')" and g: "good (st_vault s)"
    and str: "rust_string (nc_value nc)" "\<And>x. nc_totp nc = Some x \<Longrightarrow> rust_string x"
    and new: "sid \<notin> used_ids s" "tid \<notin> used_ids s" "sid \<noteq> tid"
  shows "changes V good (is_err r) s s'"
proof (cases "credential_profile (st_index s) nc")
  case (Inl e)
  with op g show ?thesis by (simp add: add_credential_def changes_none)
next
  case (Inr p)
  obtain name site user where p: "p = (name, site, user)" by (cases p)
  note prof = credential_profile_shape [OF Inr [unfolded p]]
  show ?thesis
  proof (cases "is_valid_secret_name name \<and> \<not> list_ex (\<lambda>m. sm_name m = name) (ix_secrets (st_index s))")
    case False
    with op Inr p g show ?thesis by (auto simp: add_credential_def changes_none split: if_splits)
  next
    case True
    define meta where "meta = \<lparr>sm_id = sid, sm_name = name, sm_created_at = now, sm_updated_at = now, sm_source = Local, sm_kind = nc_kind nc,
      sm_site = site, sm_username = user, totp_vault_id = (if nc_totp nc \<noteq> None then Some tid else None)\<rparr>"
    have l: "legal (st_index s) ((st_index s)\<lparr>ix_secrets := ix_secrets (st_index s) @ [meta]\<rparr>) (set (secret_vault_ids meta)) {}"
      using True used_fresh [OF new(1)] used_fresh [OF new(2)] new(3) prof
      by (intro legal_secret_add) (auto simp: meta_def secret_shape_def secret_linked_def secret_vault_ids_def split: secret_kind.splits)
    have "store_credential V meta (nc_value nc) (nc_totp nc) s = (r, s')" using op Inr p True by (simp add: add_credential_def meta_def)
    then show ?thesis
      by (rule store_credential_changes [OF _ g str l]) (use new in \<open>auto simp: meta_def secret_vault_ids_def split: if_splits\<close>)
  qed
qed

end

lemma find_name_fresh: "\<not> list_ex (\<lambda>m. sm_name m = n) ms \<Longrightarrow> n \<notin> sm_name ` set ms"
  by (auto simp: list_ex_iff)

lemma secret_shape_cong:
  "is_valid_secret_name (sm_name m') \<Longrightarrow> sm_kind m' = sm_kind m \<Longrightarrow> sm_source m' = sm_source m \<Longrightarrow> sm_site m' = sm_site m \<Longrightarrow>
    sm_username m' = sm_username m \<Longrightarrow> totp_vault_id m' = totp_vault_id m \<Longrightarrow> secret_shape m \<Longrightarrow> secret_shape m'"
  by (cases "sm_kind m") (simp_all add: secret_shape_def)

lemma legal_profile:
  assumes f: "List.find (\<lambda>m. sm_id m = i) (ix_secrets st) = Some m" and "sm_kind m = Password" and "site \<noteq> Some []"
    and "upd = (\<lambda>m. m\<lparr>sm_site := (case site of Some x \<Rightarrow> Some x | None \<Rightarrow> sm_site m),
                  sm_username := (case user of Some u \<Rightarrow> if u = Some [] then None else u | None \<Rightarrow> sm_username m), sm_updated_at := now\<rparr>)"
  shows "legal st (st\<lparr>ix_secrets := update_first (\<lambda>m. sm_id m = i) upd (ix_secrets st)\<rparr>) {} {}"
  using assms(2,3) unfolding assms(4)
  by (intro legal_secret_update [OF f]) (auto simp: secret_shape_def secret_vault_ids_def split: option.splits)

lemma legal_totp:
  assumes f: "List.find (\<lambda>m. sm_id m = i) (ix_secrets st) = Some m" and k: "sm_kind m = Password" "sm_source m = Local"
    and t: "set_option t \<inter> index_ids st = {}" and upd: "upd = (\<lambda>m. m\<lparr>totp_vault_id := t, sm_updated_at := now\<rparr>)"
  shows "legal st (st\<lparr>ix_secrets := update_first (\<lambda>m. sm_id m = i) upd (ix_secrets st)\<rparr>) (set_option t) (set_option (totp_vault_id m))"
  unfolding legal_def
proof
  let ?n = "st\<lparr>ix_secrets := update_first (\<lambda>m. sm_id m = i) upd (ix_secrets st)\<rparr>"
  assume ok: "index_ok st"
  have m: "m \<in> set (ix_secrets st)" using find_SomeD [OF f] by simp
  have F: "set_option t \<inter> set (vault_ids st) = {}" using t by (auto simp: index_ids_def)
  have v: "set (vault_ids st) \<supseteq> set (secret_vault_ids m)" using m by (auto simp: vault_ids_def)
  have ids: "secret_vault_ids (upd m) = sm_id m # (case t of Some x \<Rightarrow> [x] | None \<Rightarrow> [])"
    "secret_vault_ids m = sm_id m # (case totp_vault_id m of Some x \<Rightarrow> [x] | None \<Rightarrow> [])" by (simp_all add: upd secret_vault_ids_def k(2))
  have d: "distinct (secret_vault_ids m)" using catalog_okD(6) [OF ok] m by (auto simp: vault_ids_def dest!: split_list)
  have "index_ok ?n \<and> set (vault_ids ?n) = set (vault_ids st) - set (secret_vault_ids m) \<union> set (secret_vault_ids (upd m))"
    using catalog_okD(7) [OF ok m] F v ids
    by (intro index_ok_secret_update [OF ok f, of "upd m" "set_option t"])
      (auto simp: upd secret_shape_def k split: option.splits)
  then show "index_ok ?n \<and> set (vault_ids ?n) \<subseteq> set (vault_ids st) \<union> set_option t \<and> set_option (totp_vault_id m) \<inter> set (vault_ids ?n) = {}"
    using ids v d F by (auto split: option.splits)
qed

lemma legal_rename:
  assumes f: "List.find (\<lambda>m. sm_id m = i) (ix_secrets st) = Some m" and n: "is_valid_secret_name new" "\<not> list_ex (\<lambda>m. sm_name m = new) (ix_secrets st)"
    and cs: "list_all2 same_connection (ix_connections st) cs" and upd: "upd = (\<lambda>m. m\<lparr>sm_name := new, sm_updated_at := now\<rparr>)"
  shows "legal st (st\<lparr>ix_connections := cs, ix_secrets := update_first (\<lambda>m. sm_id m = i) upd (ix_secrets st)\<rparr>) {} {}"
proof -
  have "legal (st\<lparr>ix_connections := cs\<rparr>) (st\<lparr>ix_connections := cs, ix_secrets := update_first (\<lambda>m. sm_id m = i) upd (ix_secrets st)\<rparr>) {} {}"
    using legal_secret_update [of i "st\<lparr>ix_connections := cs\<rparr>" m upd] f n find_name_fresh [OF n(2)] secret_shape_cong [of "upd m" m]
    by (simp add: upd secret_vault_ids_def)
  with index_ok_same_connections [OF cs] show ?thesis by (simp add: legal_def)
qed

lemma legal_touch:
  assumes "List.find (\<lambda>m. sm_id m = i) (ix_secrets st) = Some m"
  shows "legal st (st\<lparr>ix_secrets := update_first (\<lambda>m. sm_id m = i) (\<lambda>m. m\<lparr>sm_updated_at := now\<rparr>) (ix_secrets st)\<rparr>) {} {}"
  by (rule legal_secret_update [OF assms]) (auto simp: secret_vault_ids_def secret_shape_def split: secret_kind.splits)

lemma legal_secret_remove:
  assumes f: "List.find (\<lambda>m. sm_id m = i) (ix_secrets st) = Some m" and "connections_using i st = []"
  shows "legal st (st\<lparr>ix_secrets := remove_first (\<lambda>m. sm_id m = i) (ix_secrets st)\<rparr>) {} (set (secret_vault_ids m))"
proof -
  have "\<forall>c\<in>set (ix_connections st). i \<notin> set (conn_secrets c)" using assms(2) by (simp add: connections_using_def filter_empty_conv)
  with index_ok_secret_remove [OF _ f] show ?thesis by (auto simp: legal_def)
qed

context secret_vault
begin

lemma set_password_profile_changes:
  assumes op: "set_password_profile now i site user s = (r, s')" and g: "good (st_vault s)"
  shows "changes V good (is_err r) s s'"
proof (cases "List.find (\<lambda>m. sm_id m = i) (ix_secrets (st_index s))")
  case None
  with op g show ?thesis by (auto simp: set_password_profile_def changes_none)
next
  case (Some m)
  show ?thesis
  proof (cases "sm_kind m = Password \<and> site \<noteq> Some []")
    case False
    with op g Some show ?thesis by (auto simp: set_password_profile_def changes_none split: if_splits)
  next
    case True
    with op Some show ?thesis
      by (simp add: set_password_profile_def Let_def) (erule changes_commit_with [OF _ g], rule legal_profile [OF Some], simp_all)
  qed
qed

lemma set_totp_factor_changes:
  assumes op: "set_totp_factor V tid now i seed s = (r, s')" and g: "good (st_vault s)"
    and str: "\<And>x. seed = Some x \<Longrightarrow> rust_string x" and new: "tid \<notin> used_ids s"
  shows "changes V good (is_err r) s s'"
proof (cases "List.find (\<lambda>m. sm_id m = i) (ix_secrets (st_index s))")
  case None
  with op g show ?thesis by (auto simp: set_totp_factor_def changes_none)
next
  case (Some m)
  show ?thesis
  proof (cases "sm_kind m = Password \<and> sm_source m = Local")
    case False
    with op g Some show ?thesis by (auto simp: set_totp_factor_def changes_none split: if_splits)
  next
    case True
    let ?n = "\<lambda>t. (st_index s)\<lparr>ix_secrets := update_first (\<lambda>m. sm_id m = i) (\<lambda>m. m\<lparr>totp_vault_id := t, sm_updated_at := now\<rparr>) (ix_secrets (st_index s))\<rparr>"
    have l: "legal (st_index s) (?n t) (set_option t) (set_option (totp_vault_id m))" if "set_option t \<inter> index_ids (st_index s) = {}" for t
      using True that by (intro legal_totp [OF Some]) simp_all
    show ?thesis
    proof (cases seed)
      case seed: (Some x)
      let ?gs = "case totp_vault_id m of Some t \<Rightarrow> [t] | None \<Rightarrow> []"
      have gs: "set ?gs = set_option (totp_vault_id m)" by (cases "totp_vault_id m") simp_all
      have l': "legal (st_index s) (?n (Some tid)) {tid} (set ?gs)" unfolding gs using l [of "Some tid"] used_fresh [OF new] by simp
      have old: "set ?gs \<inter> {tid} = {}"
        using used_fresh(2) [OF new] find_SomeD [OF Some] by (auto simp: gs vault_ids_def secret_vault_ids_def)
      obtain r1 s1 where v1: "vault_set V tid (totp_vault_attrs (sm_name m) (sm_created_at m)) x s = (r1, s1)" by fastforce
      note st1 = staged_set [OF staged_refl [OF g] v1 str [OF seed]]
      show ?thesis
      proof (cases r1)
        case (Inl e)
        with op Some True seed v1 staged_abort [OF st1(1), of s1 "[]"] show ?thesis
          by (auto simp: set_totp_factor_def vault_delete_all_def)
      next
        case r1: (Inr u1)
        have st1': "staged s {tid} s1" using st1(2) r1 by simp
        obtain q s2 where p: "persist_index (?n (Some tid)) s1 = (q, s2)" by fastforce
        show ?thesis
        proof (cases q)
          case (Inl e)
          from staged_persist_err [OF st1' p [unfolded Inl] _ _ l', of "[tid]"] new op Some True seed v1 r1 p Inl
          show ?thesis by (auto simp: set_totp_factor_def)
        next
          case (Inr u)
          from staged_commit [OF st1' p [unfolded Inr] l' _ old] new op Some True seed v1 r1 p Inr
          show ?thesis by (auto simp: set_totp_factor_def Let_def)
        qed
      qed
    next
      case None
      show ?thesis
      proof (cases "totp_vault_id m")
        case t: None
        with op g Some True None show ?thesis by (auto simp: set_totp_factor_def changes_none)
      next
        case t: (Some t)
        have l': "legal (st_index s) (?n None) {} {t}" using l [of None] t by simp
        obtain q s1 where p: "persist_index (?n None) s = (q, s1)" by fastforce
        show ?thesis
        proof (cases q)
          case (Inl e)
          with persist_failed [OF p [unfolded Inl] g l'] op Some True None t p show ?thesis by (auto simp: set_totp_factor_def)
        next
          case q: (Inr u)
          note w = written_persist [OF p [unfolded q] g]
          obtain r2 s2 where d: "vault_delete V t s1 = (r2, s2)" by fastforce
          note w2 = written_delete [OF w d]
          show ?thesis
          proof (cases r2)
            case (Inl e)
            have "rollback_index e s2 = (r, s')" using op Some True None t p q d Inl by (simp add: set_totp_factor_def)
            from written_rollback [OF _ l' this] w2 Inl show ?thesis by simp
          next
            case (Inr u2)
            with op Some True None t p q d have "s' = s2\<lparr>st_index := ?n None\<rparr>" "\<not> is_err r" by (auto simp: set_totp_factor_def)
            with written_commit [of s "?n None" "{t}" s2 s'] w2 l' Inr show ?thesis by simp
          qed
        qed
      qed
    qed
  qed
qed

lemma rename_secret_changes:
  assumes op: "rename_secret E V at now i new s = (r, s')" and g: "good (st_vault s)"
  shows "changes V good (is_err r) s s'"
proof (cases "List.find (\<lambda>m. sm_id m = i) (ix_secrets (st_index s))")
  case None
  with op g show ?thesis by (auto simp: rename_secret_def changes_none split: if_splits)
next
  case (Some m)
  show ?thesis
  proof (cases "is_valid_secret_name new \<and> new \<noteq> sm_name m \<and> \<not> list_ex (\<lambda>m. sm_name m = new) (ix_secrets (st_index s)) \<and>
      \<not> is_err (rename_in_connections E (sm_name m) new at (ix_connections (st_index s)))")
    case False
    with op g Some show ?thesis
      by (cases "rename_in_connections E (sm_name m) new at (ix_connections (st_index s))") (auto simp: rename_secret_def changes_none split: if_splits)
  next
    case True
    then obtain cs n where cs: "rename_in_connections E (sm_name m) new at (ix_connections (st_index s)) = Inr (cs, n)"
      by (cases "rename_in_connections E (sm_name m) new at (ix_connections (st_index s))") auto
    let ?u = "\<lambda>m. m\<lparr>sm_name := new, sm_updated_at := now\<rparr>"
    let ?n = "(st_index s)\<lparr>ix_connections := cs, ix_secrets := update_first (\<lambda>m. sm_id m = i) ?u (ix_secrets (st_index s))\<rparr>"
    have l: "legal (st_index s) ?n {} {}" using True by (intro legal_rename [OF Some _ _ rename_in_connections_same [OF cs]]) simp_all
    obtain q s1 where p: "persist_index ?n s = (q, s1)" by fastforce
    show ?thesis
    proof (cases q)
      case (Inl e)
      with persist_failed [OF p [unfolded Inl] g l] op Some True cs p show ?thesis by (auto simp: rename_secret_def)
    next
      case q: (Inr u)
      note w = written_persist [OF p [unfolded q] g]
      show ?thesis
      proof (cases "sm_source m = Local")
        case False
        with op Some True cs p q have "s' = s1\<lparr>st_index := ?n\<rparr>" "\<not> is_err r" by (auto simp: rename_secret_def)
        with written_commit [OF w l, of s'] show ?thesis by simp
      next
        case loc: True
        obtain r2 s2 where a: "vault_set_attrs V i \<lparr>va_name = new, va_created_at = sm_created_at m\<rparr> s1 = (r2, s2)" by fastforce
        note w2 = written_attrs [OF w a]
        show ?thesis
        proof (cases r2)
          case (Inl e)
          have "rollback_index e s2 = (r, s')" using op Some True cs p q loc a Inl by (simp add: rename_secret_def)
          from written_rollback [OF w2 l this] show ?thesis .
        next
          case (Inr u2)
          define s3 where "s3 = (case totp_vault_id m of
              Some t \<Rightarrow> snd (vault_set_attrs V t (totp_vault_attrs new (sm_created_at m)) s2) | None \<Rightarrow> s2)"
          have "written s ?n {} s3" using w2 written_attrs [OF w2] by (auto simp: s3_def split: option.split) (metis prod.collapse)
          moreover have "s' = s3\<lparr>st_index := ?n\<rparr>" "\<not> is_err r" using op Some True cs p q loc a Inr by (auto simp: rename_secret_def s3_def Let_def)
          ultimately show ?thesis using written_commit [of s ?n "{}" s3 s'] l by simp
        qed
      qed
    qed
  qed
qed

lemma replace_secret_value_changes:
  assumes op: "replace_secret_value V now i x s = (r, s')" and g: "good (st_vault s)" and str: "rust_string x"
  shows "changes V good (is_err r) s s'"
proof (cases "List.find (\<lambda>m. sm_id m = i) (ix_secrets (st_index s))")
  case None
  with op g show ?thesis by (auto simp: replace_secret_value_def changes_none)
next
  case (Some m)
  let ?n = "(st_index s)\<lparr>ix_secrets := update_first (\<lambda>m. sm_id m = i) (\<lambda>m. m\<lparr>sm_updated_at := now\<rparr>) (ix_secrets (st_index s))\<rparr>"
  note l = legal_touch [OF Some, of now]
  obtain q s1 where p: "persist_index ?n s = (q, s1)" by fastforce
  show ?thesis
  proof (cases "sm_source m = Local")
    case False
    with op g Some show ?thesis by (auto simp: replace_secret_value_def changes_none)
  next
    case loc: True
    show ?thesis
    proof (cases q)
      case (Inl e)
      with persist_failed [OF p [unfolded Inl] g l] op Some loc p show ?thesis by (auto simp: replace_secret_value_def)
    next
      case q: (Inr u)
      note w = written_persist [OF p [unfolded q] g]
      obtain r2 s2 where a: "vault_set V i \<lparr>va_name = sm_name m, va_created_at = sm_created_at m\<rparr> x s1 = (r2, s2)" by fastforce
      note w2 = written_set [OF w a str]
      show ?thesis
      proof (cases r2)
        case (Inl e)
        have "rollback_index e s2 = (r, s')" using op Some loc p q a Inl by (simp add: replace_secret_value_def)
        from written_rollback [OF w2 l this] show ?thesis .
      next
        case (Inr u2)
        with op Some loc p q a have "s' = s2\<lparr>st_index := ?n\<rparr>" "\<not> is_err r" by (auto simp: replace_secret_value_def Let_def)
        with written_commit [OF w2 l, of s'] show ?thesis by simp
      qed
    qed
  qed
qed

lemma delete_secret_changes:
  assumes op: "delete_secret V i s = (r, s')" and g: "good (st_vault s)"
  shows "changes V good (is_err r) s s'"
proof (cases "List.find (\<lambda>m. sm_id m = i) (ix_secrets (st_index s))")
  case None
  with op g show ?thesis by (auto simp: delete_secret_def changes_none)
next
  case (Some m)
  show ?thesis
  proof (cases "connections_using i (st_index s) = []")
    case False
    with op g Some show ?thesis by (auto simp: delete_secret_def changes_none)
  next
    case free: True
    let ?n = "(st_index s)\<lparr>ix_secrets := remove_first (\<lambda>m. sm_id m = i) (ix_secrets (st_index s))\<rparr>"
    let ?gs = "case totp_vault_id m of Some t \<Rightarrow> [t] | None \<Rightarrow> []"
    note l = legal_secret_remove [OF Some free]
    obtain q s1 where p: "persist_index ?n s = (q, s1)" by fastforce
    show ?thesis
    proof (cases q)
      case (Inl e)
      with persist_failed [OF p [unfolded Inl] g l] op Some free p show ?thesis by (auto simp: delete_secret_def)
    next
      case q: (Inr u)
      note w = written_persist [OF p [unfolded q] g]
      show ?thesis
      proof (cases "sm_source m = Local")
        case False
        with op Some free p q have "s' = s1\<lparr>st_index := ?n\<rparr>" "\<not> is_err r" by (auto simp: delete_secret_def)
        with written_commit [OF w legal_gone [OF l], of s'] show ?thesis by simp
      next
        case loc: True
        obtain r2 s2 where d: "vault_delete V i s1 = (r2, s2)" by fastforce
        note w2 = written_delete [OF w d]
        have i: "sm_id m = i" using find_SomeD [OF Some] by simp
        then have "set (secret_vault_ids m) = insert i (set ?gs)" using loc by (auto simp: secret_vault_ids_def)
        with l have l': "legal (st_index s) ?n {} (G \<union> set ?gs)" if "G \<subseteq> {i}" for G using that by (auto simp: legal_def)
        show ?thesis
        proof (cases "is_err r2 \<and> r2 \<noteq> Inl SecretNotFound")
          case True
          then obtain e where e: "r2 = Inl e" "e \<noteq> SecretNotFound" by (cases r2) auto
          have "rollback_index e s2 = (r, s')" using op Some free p q loc d e by (simp add: delete_secret_def)
          from written_rollback [OF _ l this] w2 e show ?thesis by simp
        next
          case False
          have s': "s' = (vault_delete_all V ?gs s2)\<lparr>st_index := ?n\<rparr>" "\<not> is_err r"
            using op Some free p q loc d False by (cases r2; auto simp: delete_secret_def)+
          with written_commit [OF written_delete_all [OF w2, of ?gs] l', of s'] show ?thesis by simp
        qed
      qed
    qed
  qed
qed

end

subsection \<open>Every operation is legal: links and connections\<close>

lemma legal_integration_add:
  assumes "opi_id x \<notin> index_ids st"
  shows "legal st (st\<lparr>ix_integrations := ix_integrations st @ [x]\<rparr>) (set (integration_vault_ids x)) {}"
  using index_ok_integration_add [of st x] assms by (simp add: legal_def)

lemma legal_integration_touch:
  assumes "List.find (\<lambda>x. opi_id x = i) (ix_integrations st) = Some x"
  shows "legal st (st\<lparr>ix_integrations := update_first (\<lambda>x. opi_id x = i) (\<lambda>x. x\<lparr>opi_updated_at := now\<rparr>) (ix_integrations st)\<rparr>) {} {}"
  using index_ok_integration_update [OF _ assms, of "\<lambda>x. x\<lparr>opi_updated_at := now\<rparr>"] by (simp add: legal_def)

lemma legal_integration_remove:
  assumes f: "List.find (\<lambda>x. opi_id x = i) (ix_integrations st) = Some x" and "integration_users i st = []"
  shows "legal st (st\<lparr>ix_integrations := remove_first (\<lambda>x. opi_id x = i) (ix_integrations st)\<rparr>) {} (set (integration_vault_ids x))"
proof -
  have "\<forall>m\<in>set (ix_secrets st). \<forall>r. sm_source m = FromOnePassword r \<longrightarrow> integration_id r \<noteq> i"
    using assms(2) by (auto simp: integration_users_def filter_empty_conv)
  with index_ok_integration_remove [OF _ f] show ?thesis by (auto simp: legal_def)
qed

lemma legal_connection_update:
  assumes f: "List.find (\<lambda>c. conn_id c = i) (ix_connections st) = Some c" and "conn_id (g c) = conn_id c" and "conn_oauth (g c) = conn_oauth c"
    and "index_ok st \<Longrightarrow> connection_bound (ix_secrets st) (g c)"
    and "conn_name (g c) = conn_name c \<or> \<not> list_ex (\<lambda>x. conn_name x = conn_name (g c) \<and> conn_id x \<noteq> i) (ix_connections st)"
  shows "legal st (st\<lparr>ix_connections := update_first (\<lambda>c. conn_id c = i) g (ix_connections st)\<rparr>) {} {}"
  unfolding legal_def
proof
  let ?n = "st\<lparr>ix_connections := update_first (\<lambda>c. conn_id c = i) g (ix_connections st)\<rparr>"
  assume ok: "index_ok st"
  have c: "c \<in> set (ix_connections st)" "conn_id c = i" using find_SomeD [OF f] by auto
  have "x = c" if "x \<in> set (ix_connections st)" "conn_name x = conn_name c" for x
    using catalog_okD(5) [OF ok] that c by (metis (mono_tags, lifting) distinct_map inj_onD)
  then have names: "\<forall>x\<in>set (ix_connections st). conn_name x = conn_name (g c) \<longrightarrow> conn_id x = i"
    using assms(5) c(2) unfolding list_ex_iff by metis
  have "connection_vault_ids (g c) = connection_vault_ids c" using assms(3) by (simp add: connection_vault_ids_def)
  with index_ok_connection_update [OF ok f assms(2) assms(4) [OF ok] names, of "{}" g] c
  have "index_ok ?n \<and> set (vault_ids ?n) = set (vault_ids st) - set (connection_vault_ids c) \<union> set (connection_vault_ids c)" by simp
  moreover have "set (connection_vault_ids c) \<subseteq> set (vault_ids st)" using c by (auto simp: vault_ids_def)
  ultimately show "index_ok ?n \<and> set (vault_ids ?n) \<subseteq> set (vault_ids st) \<union> {} \<and> {} \<inter> set (vault_ids ?n) = {}" by auto
qed

lemma legal_connection_grant:
  assumes f: "List.find (\<lambda>c. conn_id c = i) (ix_connections st) = Some c"
    and g: "upd = (\<lambda>c. c\<lparr>conn_oauth := Some \<lparr>grant_id = g, oauth_expires_at = ex\<rparr>\<rparr>)"
    and new: "conn_oauth c = None \<and> F = {g} \<and> g \<notin> index_ids st \<or> map_option grant_id (conn_oauth c) = Some g \<and> F = {}"
  shows "legal st (st\<lparr>ix_connections := update_first (\<lambda>c. conn_id c = i) upd (ix_connections st)\<rparr>) F {}"
  unfolding legal_def
proof
  let ?n = "st\<lparr>ix_connections := update_first (\<lambda>c. conn_id c = i) upd (ix_connections st)\<rparr>"
  assume ok: "index_ok st"
  have c: "c \<in> set (ix_connections st)" "conn_id c = i" using find_SomeD [OF f] by auto
  have "x = c" if "x \<in> set (ix_connections st)" "conn_name x = conn_name c" for x
    using catalog_okD(5) [OF ok] that c by (metis (mono_tags, lifting) distinct_map inj_onD)
  then have names: "\<forall>x\<in>set (ix_connections st). conn_name x = conn_name (upd c) \<longrightarrow> conn_id x = i" using c g by auto
  have b: "connection_bound (ix_secrets st) (upd c)" using catalog_okD(9) [OF ok c(1)] by (simp add: g connection_bound_def conn_kind_def)
  have v: "set (connection_vault_ids (upd c)) \<subseteq> set (connection_vault_ids c) \<union> F" "F \<inter> set (vault_ids st) = {}"
    using new by (auto simp: g connection_vault_ids_def index_ids_def)
  have "index_ok ?n \<and> set (vault_ids ?n) = set (vault_ids st) - set (connection_vault_ids c) \<union> set (connection_vault_ids (upd c))"
    using index_ok_connection_update [OF ok f, of "upd c" F upd] b names v by (simp add: g)
  moreover have "set (connection_vault_ids c) \<subseteq> set (vault_ids st)" using c by (auto simp: vault_ids_def)
  ultimately show "index_ok ?n \<and> set (vault_ids ?n) \<subseteq> set (vault_ids st) \<union> F \<and> {} \<inter> set (vault_ids ?n) = {}" using v by auto
qed

lemma prepare_connection_ok:
  assumes "prepare_connection E cid now st spec = Inr c"
  shows "conn_id c = cid \<and> conn_name c \<notin> conn_name ` set (ix_connections st) \<and> connection_bound (ix_secrets st) c \<and> conn_oauth c = None"
proof -
  from assms obtain bound cfg where v: "connection_name_ok (spec_name spec)" "\<not> list_ex (\<lambda>c. conn_name c = spec_name spec) (ix_connections st)"
    "validate_config_and_bind_secrets E st spec = Inr bound"
    and p: "pin_oauth_token_secret (spec_config spec) bound (case spec_secrets spec of [i] \<Rightarrow> Some i | _ \<Rightarrow> None) = Inr cfg"
    and c: "c = new_connection cid now (spec_name spec) cfg bound"
    by (auto simp: prepare_connection_def validate_connection_name_def)
  from bind_secrets_ok [OF v(3)] pin_oauth_keeps [OF p] v c show ?thesis
    by (auto simp: new_connection_def connection_bound_def conn_kind_def list_ex_iff)
qed

lemma if_err_ok [simp]: "(if p then Inl e else x) = Inr y \<longleftrightarrow> \<not> p \<and> x = Inr y"
  by simp

lemma prepare_with_secret_ok:
  assumes "prepare_connection_with_secret E sid cid now st name spec = Inr (m, c)"
  shows "m = new_secret sid now name Local \<and> is_valid_secret_name name \<and> \<not> list_ex (\<lambda>m. sm_name m = name) (ix_secrets st) \<and> conn_id c = cid \<and>
    conn_name c \<notin> conn_name ` set (ix_connections st) \<and> connection_bound (ix_secrets st @ [m]) c \<and> conn_oauth c = None \<and> sid \<in> set (conn_secrets c)"
proof -
  let ?m = "new_secret sid now name Local"
  let ?st = "st\<lparr>ix_secrets := ix_secrets st @ [?m]\<rparr>"
  let ?sp = "if config_kind (spec_config spec) \<noteq> KindApi then spec\<lparr>spec_secrets := [sid]\<rparr> else spec"
  from assms obtain bound cfg where v: "is_valid_secret_name name" "\<not> list_ex (\<lambda>m. sm_name m = name) (ix_secrets st)"
    "connection_name_ok (spec_name spec)" "\<not> list_ex (\<lambda>c. conn_name c = spec_name spec) (ix_connections st)"
    "validate_config_and_bind_secrets E ?st ?sp = Inr bound" "sid \<in> set bound"
    and p: "pin_oauth_token_secret (spec_config ?sp) bound (Some sid) = Inr cfg"
    and c: "m = ?m" "c = new_connection cid now (spec_name ?sp) cfg bound"
    unfolding prepare_connection_with_secret_def validate_connection_name_def Let_def and_then_ok ensure_ok if_err_ok by blast
  have sp: "spec_name ?sp = spec_name spec" "spec_config ?sp = spec_config spec" by simp_all
  from bind_secrets_ok [OF v(5)] pin_oauth_keeps [OF p] v c(2) show ?thesis
    unfolding sp c(1) by (auto simp: new_connection_def connection_bound_def conn_kind_def list_ex_iff)
qed

context secret_vault
begin

lemma add_integration_changes:
  assumes op: "add_onepassword_integration_with_id E V now i label auth token s = (r, s')" and g: "good (st_vault s)"
    and str: "\<And>x. token = Some x \<Longrightarrow> rust_string x" and new: "i \<notin> used_ids s"
  shows "changes V good (is_err r) s s'"
proof (cases "and_then (validate_integration (url_parse E) label auth) (\<lambda>_. validate_onepassword_token_input auth token)")
  case (Inl e)
  with op g show ?thesis by (auto simp: add_onepassword_integration_with_id_def changes_none)
next
  case ok: (Inr u)
  then have tok: "requires_token auth = (token \<noteq> None)"
    by (auto simp: validate_onepassword_token_input_def split: if_splits option.splits)
  show ?thesis
  proof (cases "label_taken label (st_index s)")
    case True
    with op g ok show ?thesis by (auto simp: add_onepassword_integration_with_id_def changes_none)
  next
    case free: False
    define x where "x = \<lparr>opi_id = i, opi_label = trim label, opi_auth = auth, opi_created_at = now, opi_updated_at = now\<rparr>"
    let ?n = "(st_index s)\<lparr>ix_integrations := ix_integrations (st_index s) @ [x]\<rparr>" and ?F = "if requires_token auth then {i} else {}"
    have l: "legal (st_index s) ?n ?F {}"
      using legal_integration_add [of x "st_index s"] used_fresh(1) [OF new] by (cases "requires_token auth") (simp_all add: x_def integration_vault_ids_def)
    have F: "?F \<inter> used_ids s = {}" using new by simp
    obtain r1 s1 where v1: "(case token of Some t \<Rightarrow> vault_set V i (token_attrs (trim label) now) t s | None \<Rightarrow> (Ok (), s)) = (r1, s1)" by fastforce
    have st1: "staged s {} s1 \<and> (\<not> is_err r1 \<longrightarrow> staged s ?F s1)"
    proof (cases token)
      case None
      with v1 tok staged_refl [OF g] show ?thesis by simp
    next
      case (Some t)
      with v1 have "vault_set V i (token_attrs (trim label) now) t s = (r1, s1)" by simp
      from staged_set [OF staged_refl [OF g] this str [OF Some]] Some tok show ?thesis by simp
    qed
    show ?thesis
    proof (cases r1)
      case (Inl e)
      with op ok free v1 st1 staged_abort [of s "{}" s1 s1 "[]"] show ?thesis
        by (auto simp: add_onepassword_integration_with_id_def vault_delete_all_def)
    next
      case r1: (Inr u1)
      then have st1': "staged s ?F s1" "st_index s1 = st_index s" using st1 by (auto simp: staged_def)
      obtain q s2 where p: "persist_index ?n s1 = (q, s2)" by fastforce
      show ?thesis
      proof (cases q)
        case (Inl e)
        have "changes V good True s (vault_delete_all V (if requires_token auth then [i] else []) s2)"
          using staged_persist_err [OF st1'(1) p [unfolded Inl] _ F l] by simp
        with op ok free v1 r1 st1'(2) p Inl show ?thesis by (auto simp: add_onepassword_integration_with_id_def x_def Let_def)
      next
        case (Inr u2)
        with op ok free v1 r1 st1'(2) p staged_commit [OF st1'(1) p [unfolded Inr], of "[]"] l F show ?thesis
          by (auto simp: add_onepassword_integration_with_id_def x_def Let_def vault_delete_all_def)
      qed
    qed
  qed
qed

lemma replace_token_changes:
  assumes op: "replace_onepassword_token V now i token s = (r, s')" and g: "good (st_vault s)" and str: "rust_string token"
  shows "changes V good (is_err r) s s'"
proof (cases "trim token = [] \<or> utf8_len token > 16 * 1024 \<or> List.find (\<lambda>x. opi_id x = i) (ix_integrations (st_index s)) = None")
  case True
  with op g show ?thesis by (auto simp: replace_onepassword_token_def changes_none split: if_splits)
next
  case False
  then obtain x where f: "List.find (\<lambda>x. opi_id x = i) (ix_integrations (st_index s)) = Some x" by auto
  let ?n = "(st_index s)\<lparr>ix_integrations := update_first (\<lambda>x. opi_id x = i) (\<lambda>x. x\<lparr>opi_updated_at := now\<rparr>) (ix_integrations (st_index s))\<rparr>"
  note l = legal_integration_touch [OF f, of now]
  show ?thesis
  proof (cases "requires_token (opi_auth x)")
    case no: False
    with op g f False show ?thesis by (auto simp: replace_onepassword_token_def changes_none)
  next
    case tok: True
    obtain q s1 where p: "persist_index ?n s = (q, s1)" by fastforce
    show ?thesis
    proof (cases q)
      case (Inl e)
      with persist_failed [OF p [unfolded Inl] g l] op f False tok p show ?thesis by (auto simp: replace_onepassword_token_def)
    next
      case q: (Inr u)
      note w = written_persist [OF p [unfolded q] g]
      obtain r2 s2 where a: "vault_set V i (token_attrs (opi_label x) (opi_created_at x)) token s1 = (r2, s2)" by fastforce
      note w2 = written_set [OF w a str]
      show ?thesis
      proof (cases r2)
        case (Inl e)
        have "rollback_index e s2 = (r, s')" using op f False tok p q a Inl by (simp add: replace_onepassword_token_def)
        from written_rollback [OF w2 l this] show ?thesis .
      next
        case (Inr u2)
        with op f False tok p q a have "s' = s2\<lparr>st_index := ?n, st_invalidated := st_invalidated s2 @ [i]\<rparr>" "\<not> is_err r"
          by (auto simp: replace_onepassword_token_def Let_def)
        with written_commit [OF w2 l, of s'] show ?thesis by simp
      qed
    qed
  qed
qed

lemma delete_integration_changes:
  assumes op: "delete_onepassword_integration V i s = (r, s')" and g: "good (st_vault s)"
  shows "changes V good (is_err r) s s'"
proof (cases "integration_users i (st_index s) \<noteq> [] \<or> List.find (\<lambda>x. opi_id x = i) (ix_integrations (st_index s)) = None")
  case True
  with op g show ?thesis by (auto simp: delete_onepassword_integration_def changes_none split: if_splits)
next
  case False
  then obtain x where f: "List.find (\<lambda>x. opi_id x = i) (ix_integrations (st_index s)) = Some x" and free: "integration_users i (st_index s) = []" by auto
  let ?n = "(st_index s)\<lparr>ix_integrations := remove_first (\<lambda>x. opi_id x = i) (ix_integrations (st_index s))\<rparr>"
  note l = legal_integration_remove [OF f free]
  obtain q s1 where p: "persist_index ?n s = (q, s1)" by fastforce
  show ?thesis
  proof (cases q)
    case (Inl e)
    with persist_failed [OF p [unfolded Inl] g l] op f free p show ?thesis by (auto simp: delete_onepassword_integration_def)
  next
    case q: (Inr u)
    note w = written_persist [OF p [unfolded q] g]
    have i: "opi_id x = i" using find_SomeD [OF f] by simp
    obtain r2 s2 where d: "(if requires_token (opi_auth x) then vault_delete V i s1 else (Ok (), s1)) = (r2, s2)" by fastforce
    obtain G where w2: "written s ?n G s2" "is_err r2 \<Longrightarrow> G = {}" "legal (st_index s) ?n {} G"
    proof (cases "requires_token (opi_auth x)")
      case True
      with d have "vault_delete V i s1 = (r2, s2)" by simp
      note w2 = written_delete [OF w this]
      have l': "legal (st_index s) ?n {} {i}" using l i True by (simp add: integration_vault_ids_def)
      show thesis using that [OF w2] l' legal_gone [OF l'] by (cases "is_err r2") simp_all
    next
      case no: False
      with d w l that [of "{}"] show thesis by (auto simp: integration_vault_ids_def)
    qed
    show ?thesis
    proof (cases "is_err r2 \<and> r2 \<noteq> Inl SecretNotFound")
      case True
      then obtain e where e: "r2 = Inl e" "e \<noteq> SecretNotFound" by (cases r2) auto
      have "rollback_index e s2 = (r, s')" using op f free p q d e by (simp add: delete_onepassword_integration_def)
      from written_rollback [OF _ l this] w2 e show ?thesis by simp
    next
      case False
      have "s' = s2\<lparr>st_index := ?n, st_invalidated := st_invalidated s2 @ [i]\<rparr>" "\<not> is_err r"
        using op f free p q d False by (cases r2; auto simp: delete_onepassword_integration_def)+
      with written_commit [OF w2(1,3), of s'] show ?thesis by simp
    qed
  qed
qed

lemma add_onepassword_secret_changes:
  assumes op: "add_onepassword_secret sid now name ref s = (r, s')" and g: "good (st_vault s)" and new: "sid \<notin> used_ids s"
  shows "changes V good (is_err r) s s'"
proof (cases "is_valid_secret_name name \<and> \<not> is_err (validate_reference (normalize_reference ref)) \<and>
    \<not> list_ex (\<lambda>m. sm_name m = name) (ix_secrets (st_index s)) \<and>
    list_ex (\<lambda>x. opi_id x = integration_id (normalize_reference ref)) (ix_integrations (st_index s))")
  case False
  with op g show ?thesis
    by (cases "validate_reference (normalize_reference ref)") (auto simp: add_onepassword_secret_def changes_none Let_def split: if_splits)
next
  case True
  let ?m = "new_secret sid now name (FromOnePassword (normalize_reference ref))"
  have v: "secret_vault_ids ?m = []" by (simp add: new_secret_def secret_vault_ids_def)
  have "legal (st_index s) ((st_index s)\<lparr>ix_secrets := ix_secrets (st_index s) @ [?m]\<rparr>) (set (secret_vault_ids ?m)) {}"
    using True used_fresh [OF new]
    by (intro legal_secret_add) (auto simp: v, auto simp: new_secret_def secret_shape_def secret_linked_def list_ex_iff image_iff, metis)
  then have l: "legal (st_index s) ((st_index s)\<lparr>ix_secrets := ix_secrets (st_index s) @ [?m]\<rparr>) {} {}" by (simp add: v)
  have "commit_with ?m ((st_index s)\<lparr>ix_secrets := ix_secrets (st_index s) @ [?m]\<rparr>) s = (r, s')"
    using op True by (cases "validate_reference (normalize_reference ref)") (auto simp: add_onepassword_secret_def Let_def)
  from changes_commit_with [OF this g l] show ?thesis .
qed

lemma add_connection_changes:
  assumes op: "add_connection E cid now spec s = (r, s')" and g: "good (st_vault s)" and new: "cid \<notin> used_ids s"
  shows "changes V good (is_err r) s s'"
proof (cases "prepare_connection E cid now (st_index s) spec")
  case (Inl e)
  with op g show ?thesis by (auto simp: add_connection_def changes_none)
next
  case (Inr c)
  note c = prepare_connection_ok [OF Inr]
  have "legal (st_index s) ((st_index s)\<lparr>ix_connections := ix_connections (st_index s) @ [c]\<rparr>) {} {}"
    using index_ok_connection_add [of "st_index s" c] c used_fresh [OF new] by (simp add: legal_def)
  with op Inr g show ?thesis by (auto simp: add_connection_def intro: changes_commit_with)
qed

lemma add_connection_with_secret_changes:
  assumes op: "add_connection_with_secret E V sid cid now name x spec s = (r, s')" and g: "good (st_vault s)" and str: "rust_string x"
    and new: "sid \<notin> used_ids s" "cid \<notin> used_ids s" "sid \<noteq> cid"
  shows "changes V good (is_err r) s s'"
proof (cases "prepare_connection_with_secret E sid cid now (st_index s) name spec")
  case (Inl e)
  with op g show ?thesis by (auto simp: add_connection_with_secret_def changes_none)
next
  case pr: (Inr mc)
  obtain m c where mc: "mc = (m, c)" by (cases mc)
  note c = prepare_with_secret_ok [OF pr [unfolded mc]]
  note op' = op [unfolded add_connection_with_secret_def pr mc sum.case prod.case Let_def]
  let ?s1 = "(st_index s)\<lparr>ix_secrets := ix_secrets (st_index s) @ [m]\<rparr>"
  let ?n = "(st_index s)\<lparr>ix_secrets := ix_secrets (st_index s) @ [m], ix_connections := ix_connections (st_index s) @ [c]\<rparr>"
  have m: "secret_vault_ids m = [sid]" "sm_id m = sid" using c by (simp_all add: new_secret_def secret_vault_ids_def)
  have "legal (st_index s) ?s1 {sid} {}"
    using legal_secret_add [of m "st_index s"] c m used_fresh [OF new(1)]
    by (auto simp: new_secret_def secret_shape_def secret_linked_def)
  moreover have "cid \<notin> index_ids ?s1" using used_fresh(1) [OF new(2)] new(3) m by (auto simp: index_ids_def vault_ids_def)
  then have "index_ok ?s1 \<Longrightarrow> index_ok ?n \<and> vault_ids ?n = vault_ids ?s1" using index_ok_connection_add [of ?s1 c] c by auto
  ultimately have l: "legal (st_index s) ?n {sid} {}" by (auto simp: legal_def)
  have F: "{sid} \<inter> used_ids s = {}" using new by simp
  obtain r1 s1 where v1: "vault_set V sid \<lparr>va_name = sm_name m, va_created_at = sm_created_at m\<rparr> x s = (r1, s1)" by fastforce
  note st1 = staged_set [OF staged_refl [OF g] v1 str]
  show ?thesis
  proof (cases r1)
    case (Inl e)
    with op' v1 staged_abort [OF st1(1), of s1 "[]"] show ?thesis by (auto simp: vault_delete_all_def)
  next
    case r1: (Inr u1)
    then have st1': "staged s {sid} s1" using st1(2) by simp
    obtain q s2 where p: "persist_index ?n s1 = (q, s2)" by fastforce
    show ?thesis
    proof (cases q)
      case (Inl e)
      with op' v1 r1 p staged_persist_err [OF st1' p [unfolded Inl] _ F l, of "[sid]"] show ?thesis
        by auto
    next
      case (Inr u2)
      with op' v1 r1 p staged_commit [OF st1' p [unfolded Inr], of "[]"] l F show ?thesis
        by (auto simp: vault_delete_all_def)
    qed
  qed
qed

end

lemma validate_name_ok: "validate_connection_name n = Inr u \<longleftrightarrow> connection_name_ok n"
  by (simp add: validate_connection_name_def)

lemma inherited_kind [simp]: "config_kind (inherited_config x y) = config_kind y"
  by (simp add: inherited_config_def)

context secret_vault
begin

lemma update_connection_changes:
  assumes op: "update_connection_inner E version now i expected spec s = (r, s')" and g: "good (st_vault s)"
  shows "changes V good (is_err r) s s'"
proof (cases "connection_name_ok (spec_name spec)")
  case False
  then obtain e where "validate_connection_name (spec_name spec) = Inl e" by (simp add: validate_connection_name_def ensure_def)
  with op g show ?thesis by (auto simp: update_connection_inner_def changes_none)
next
  case name: True
  then have nm: "validate_connection_name (spec_name spec) = Inr ()" by (simp add: validate_connection_name_def ensure_def)
  show ?thesis
  proof (cases "List.find (\<lambda>c. conn_id c = i) (ix_connections (st_index s))")
    case None
    with op g nm show ?thesis by (auto simp: update_connection_inner_def changes_none)
  next
    case (Some c)
    let ?cfg = "inherited_config (conn_config c) (spec_config spec)"
    let ?stale = "case expected of Some x \<Rightarrow> version c \<noteq> x | None \<Rightarrow> False"
    let ?taken = "list_ex (\<lambda>c. conn_name c = spec_name spec \<and> conn_id c \<noteq> i) (ix_connections (st_index s))"
    show ?thesis
    proof (cases "?stale \<or> ?taken \<or> conn_kind c \<noteq> config_kind (spec_config spec) \<or>
        (if conn_config c \<noteq> ?cfg then oauth_rename_only c else None) \<noteq> None \<or>
        is_err (validate_config_and_bind_secrets E (st_index s) (spec\<lparr>spec_config := ?cfg\<rparr>))")
      case True
      then show ?thesis using op g nm Some
        by (cases "validate_config_and_bind_secrets E (st_index s) (spec\<lparr>spec_config := ?cfg\<rparr>)")
          (auto simp: update_connection_inner_def changes_none Let_def split: if_splits option.splits)
    next
      case False
      then obtain bound where b: "validate_config_and_bind_secrets E (st_index s) (spec\<lparr>spec_config := ?cfg\<rparr>) = Inr bound"
        by (cases "validate_config_and_bind_secrets E (st_index s) (spec\<lparr>spec_config := ?cfg\<rparr>)") auto
      let ?u = "\<lambda>c. c\<lparr>conn_name := spec_name spec, conn_config := ?cfg, conn_secrets := bound,
        conn_updated_at := next_connection_updated_at now (conn_updated_at c)\<rparr>"
      have "legal (st_index s) ((st_index s)\<lparr>ix_connections := update_first (\<lambda>c. conn_id c = i) ?u (ix_connections (st_index s))\<rparr>) {} {}"
        using bind_secrets_ok [OF b] name False
        by (intro legal_connection_update [OF Some]) (auto simp: connection_bound_def conn_kind_def)
      moreover have "commit_with (?u c, config_target ?cfg \<noteq> conn_target c \<or> ssh_host_key_changed (conn_config c) ?cfg)
          ((st_index s)\<lparr>ix_connections := update_first (\<lambda>c. conn_id c = i) ?u (ix_connections (st_index s))\<rparr>) s = (r, s')"
        using op nm Some False b by (simp add: update_connection_inner_def Let_def)
      ultimately show ?thesis by (intro changes_commit_with [OF _ g])
    qed
  qed
qed

lemma rename_connection_changes:
  assumes op: "rename_connection_inner version now i expected name s = (r, s')" and g: "good (st_vault s)"
  shows "changes V good (is_err r) s s'"
proof (cases "connection_name_ok name")
  case False
  then obtain e where "validate_connection_name name = Inl e" by (simp add: validate_connection_name_def ensure_def)
  with op g show ?thesis by (auto simp: rename_connection_inner_def changes_none)
next
  case name: True
  then have nm: "validate_connection_name name = Inr ()" by (simp add: validate_connection_name_def ensure_def)
  show ?thesis
  proof (cases "List.find (\<lambda>c. conn_id c = i) (ix_connections (st_index s))")
    case None
    with op g nm show ?thesis by (auto simp: rename_connection_inner_def changes_none)
  next
    case (Some c)
    let ?stale = "case expected of Some x \<Rightarrow> version c \<noteq> x | None \<Rightarrow> False"
    let ?taken = "list_ex (\<lambda>c. conn_name c = name \<and> conn_id c \<noteq> i) (ix_connections (st_index s))"
    show ?thesis
    proof (cases "?stale \<or> ?taken")
      case True
      with op g nm Some show ?thesis by (auto simp: rename_connection_inner_def changes_none split: if_splits)
    next
      case False
      let ?u = "\<lambda>c. c\<lparr>conn_name := name, conn_updated_at := next_connection_updated_at now (conn_updated_at c)\<rparr>"
      have "connection_bound (ix_secrets (st_index s)) (?u c)" if "index_ok (st_index s)"
        using catalog_okD(9) [OF that, of c] find_SomeD [OF Some] name by (simp add: connection_bound_def conn_kind_def)
      then have "legal (st_index s) ((st_index s)\<lparr>ix_connections := update_first (\<lambda>c. conn_id c = i) ?u (ix_connections (st_index s))\<rparr>) {} {}"
        using False by (intro legal_connection_update [OF Some]) auto
      with op nm Some False show ?thesis
        by (auto simp: rename_connection_inner_def Let_def intro: changes_commit_with [OF _ g])
    qed
  qed
qed

lemma set_account_changes:
  assumes op: "set_connection_account i acc s = (r, s')" and g: "good (st_vault s)"
  shows "changes V good (is_err r) s s'"
proof (cases "List.find (\<lambda>c. conn_id c = i) (ix_connections (st_index s))")
  case None
  with op g show ?thesis by (auto simp: set_connection_account_def changes_none)
next
  case (Some c)
  have "connection_bound (ix_secrets (st_index s)) (c\<lparr>account := acc\<rparr>)" if "index_ok (st_index s)"
    using catalog_okD(9) [OF that, of c] find_SomeD [OF Some] by (simp add: connection_bound_def conn_kind_def)
  then have "legal (st_index s) ((st_index s)\<lparr>ix_connections := update_first (\<lambda>c. conn_id c = i) (\<lambda>c. c\<lparr>account := acc\<rparr>) (ix_connections (st_index s))\<rparr>) {} {}"
    by (intro legal_connection_update [OF Some]) auto
  with op Some g show ?thesis by (auto simp: set_connection_account_def changes_none intro: changes_commit_with split: if_splits)
qed

lemma pin_changes:
  assumes op: "pin_ssh_host_key E i f s = (r, s')" and g: "good (st_vault s)"
  shows "changes V good (is_err r) s s'"
proof (cases "\<exists>c h. List.find (\<lambda>c. conn_id c = i) (ix_connections (st_index s)) = Some c \<and> conn_config c = Ssh h \<and> host_key_fingerprint h = []")
  case False
  with op have "s' = s" by (auto simp: pin_ssh_host_key_def split: option.splits connection_config.splits if_splits sum.splits)
  with g show ?thesis by (simp add: changes_none)
next
  case True
  then obtain c h where c: "List.find (\<lambda>c. conn_id c = i) (ix_connections (st_index s)) = Some c" "conn_config c = Ssh h" "host_key_fingerprint h = []" by blast
  let ?u = "\<lambda>c. c\<lparr>conn_config := Ssh (h\<lparr>host_key_fingerprint := fp_show E f\<rparr>)\<rparr>"
  have "connection_bound (ix_secrets (st_index s)) (?u c)" if "index_ok (st_index s)"
    using catalog_okD(9) [OF that, of c] find_SomeD [OF c(1)] c(2) by (simp add: connection_bound_def conn_kind_def config_kind_def)
  then have "legal (st_index s) ((st_index s)\<lparr>ix_connections := update_first (\<lambda>c. conn_id c = i) ?u (ix_connections (st_index s))\<rparr>) {} {}"
    by (intro legal_connection_update [OF c(1)]) auto
  moreover have "commit_with (Pinned f) ((st_index s)\<lparr>ix_connections := update_first (\<lambda>c. conn_id c = i) ?u (ix_connections (st_index s))\<rparr>) s = (r, s')"
    using op c by (simp add: pin_ssh_host_key_def)
  ultimately show ?thesis by (intro changes_commit_with [OF _ g])
qed

lemma set_oauth_changes:
  assumes op: "set_connection_oauth V gid now i x ex s = (r, s')" and g: "good (st_vault s)" and str: "rust_string x" and new: "gid \<notin> used_ids s"
  shows "changes V good (is_err r) s s'"
proof (cases "List.find (\<lambda>c. conn_id c = i) (ix_connections (st_index s))")
  case None
  with op g show ?thesis by (auto simp: set_connection_oauth_def changes_none)
next
  case (Some c)
  define gr where "gr = (case map_option grant_id (conn_oauth c) of Some k \<Rightarrow> k | None \<Rightarrow> gid)"
  let ?u = "\<lambda>c. c\<lparr>conn_oauth := Some \<lparr>grant_id = gr, oauth_expires_at = ex\<rparr>\<rparr>"
  let ?n = "(st_index s)\<lparr>ix_connections := update_first (\<lambda>c. conn_id c = i) ?u (ix_connections (st_index s))\<rparr>"
  let ?F = "if map_option grant_id (conn_oauth c) = None then {gr} else {}"
  have l: "legal (st_index s) ?n ?F {}"
    using used_fresh(1) [OF new] by (intro legal_connection_grant [OF Some refl]) (auto simp: gr_def split: option.splits)
  have F: "?F \<inter> used_ids s = {}" using new by (simp add: gr_def split: option.splits)
  obtain r1 s1 where v1: "vault_set V gr \<lparr>va_name = conn_name c @ ascii '' OAuth grant'', va_created_at = now\<rparr> x s = (r1, s1)" by fastforce
  note st1 = staged_set [OF staged_refl [OF g] v1 str]
  note op' = op [unfolded set_connection_oauth_def Let_def Some option.case, folded gr_def]
  show ?thesis
  proof (cases r1)
    case (Inl e)
    with op' v1 staged_abort [OF st1(1), of s1 "[]"] show ?thesis by (auto simp: vault_delete_all_def)
  next
    case r1: (Inr u1)
    then have st1': "staged s ?F s1" using st1 by simp
    obtain q s2 where p: "persist_index ?n s1 = (q, s2)" by fastforce
    show ?thesis
    proof (cases q)
      case (Inl e)
      have "changes V good True s (vault_delete_all V (if map_option grant_id (conn_oauth c) = None then [gr] else []) s2)"
        using staged_persist_err [OF st1' p [unfolded Inl] _ F l] by simp
      with op' v1 r1 p Inl show ?thesis by auto
    next
      case (Inr u2)
      with op' v1 r1 p staged_commit [OF st1' p [unfolded Inr], of "[]"] l F show ?thesis by (auto simp: vault_delete_all_def)
    qed
  qed
qed

lemma delete_connection_changes:
  assumes op: "delete_connection V i s = (r, s')" and g: "good (st_vault s)"
  shows "changes V good (is_err r) s s'"
proof (cases "List.find (\<lambda>c. conn_id c = i) (ix_connections (st_index s))")
  case None
  with op g show ?thesis by (auto simp: delete_connection_def changes_none)
next
  case (Some c)
  let ?n = "(st_index s)\<lparr>ix_connections := remove_first (\<lambda>c. conn_id c = i) (ix_connections (st_index s))\<rparr>"
  let ?gs = "case conn_oauth c of Some oa \<Rightarrow> [grant_id oa] | None \<Rightarrow> []"
  have gs: "set ?gs = set (connection_vault_ids c)" by (simp add: connection_vault_ids_def split: option.split)
  have l: "legal (st_index s) ?n {} (set ?gs)" using index_ok_connection_remove [OF _ Some] unfolding gs by (auto simp: legal_def)
  obtain q s1 where p: "persist_index ?n s = (q, s1)" by fastforce
  show ?thesis
  proof (cases q)
    case (Inl e)
    with persist_failed [OF p [unfolded Inl] g l] op Some p show ?thesis by (auto simp: delete_connection_def commit_index_def)
  next
    case (Inr u)
    with op Some p have "s' = vault_delete_all V ?gs (s1\<lparr>st_index := ?n\<rparr>)" "\<not> is_err r" by (auto simp: delete_connection_def commit_index_def)
    with staged_commit [OF staged_refl [OF g] p [unfolded Inr] l] show ?thesis by simp
  qed
qed

lemma reorder_changes:
  assumes op: "reorder_connections is s = (r, s')" and g: "good (st_vault s)"
  shows "changes V good (is_err r) s s'"
proof -
  let ?cs = "take_ordered is (ix_connections (st_index s))"
  have "legal (st_index s) ((st_index s)\<lparr>ix_connections := ?cs\<rparr>) {} {}"
    using index_ok_reorder [of "st_index s" ?cs] by (simp add: legal_def mset_take_ordered)
  with op g show ?thesis by (auto simp: reorder_connections_def changes_none Let_def intro: changes_commit_with split: if_splits)
qed

lemma settings_changes:
  assumes "commit_index ((st_index s)\<lparr>ix_settings := x\<rparr>) s = (r, s')" and "good (st_vault s)"
  shows "changes V good (is_err r) s s'"
  by (rule changes_commit [OF assms]) (simp add: legal_def)

lemma generation_changes:
  assumes op: "store_advance_access_generation s = (r, s')" and g: "good (st_vault s)"
  shows "changes V good (is_err r) s s'"
proof -
  have "legal (st_index s) ((st_index s)\<lparr>ix_access_generation := k\<rparr>) {} {}" for k by (simp add: legal_def)
  with op g show ?thesis by (auto simp: store_advance_access_generation_def Let_def changes_none intro: changes_commit_with split: if_splits)
qed

end

subsection \<open>All histories\<close>

text \<open>
  One operation, with the flag that tells whether it reported an error. Minted ids are unused, values are
  Rust strings. The clock readings are arbitrary.
\<close>

inductive store_op :: "'f store_env \<Rightarrow> 'v vault_ops \<Rightarrow> (connection \<Rightarrow> bytes) \<Rightarrow> bool \<Rightarrow> 'v store \<Rightarrow> 'v store \<Rightarrow> bool" for E V version where
  op_add_credential: "add_credential V sid tid now nc s = (r, s') \<Longrightarrow> rust_string (nc_value nc) \<Longrightarrow>
    (\<And>x. nc_totp nc = Some x \<Longrightarrow> rust_string x) \<Longrightarrow> sid \<notin> used_ids s \<Longrightarrow> tid \<notin> used_ids s \<Longrightarrow> sid \<noteq> tid \<Longrightarrow> store_op E V version (is_err r) s s'"
| op_profile: "set_password_profile now i site user s = (r, s') \<Longrightarrow> store_op E V version (is_err r) s s'"
| op_totp: "set_totp_factor V tid now i seed s = (r, s') \<Longrightarrow> (\<And>x. seed = Some x \<Longrightarrow> rust_string x) \<Longrightarrow> tid \<notin> used_ids s \<Longrightarrow>
    store_op E V version (is_err r) s s'"
| op_rename_secret: "rename_secret E V at now i new s = (r, s') \<Longrightarrow> store_op E V version (is_err r) s s'"
| op_replace_value: "replace_secret_value V now i x s = (r, s') \<Longrightarrow> rust_string x \<Longrightarrow> store_op E V version (is_err r) s s'"
| op_delete_secret: "delete_secret V i s = (r, s') \<Longrightarrow> store_op E V version (is_err r) s s'"
| op_add_integration: "add_onepassword_integration_with_id E V now i label auth token s = (r, s') \<Longrightarrow>
    (\<And>x. token = Some x \<Longrightarrow> rust_string x) \<Longrightarrow> i \<notin> used_ids s \<Longrightarrow> store_op E V version (is_err r) s s'"
| op_replace_token: "replace_onepassword_token V now i token s = (r, s') \<Longrightarrow> rust_string token \<Longrightarrow> store_op E V version (is_err r) s s'"
| op_delete_integration: "delete_onepassword_integration V i s = (r, s') \<Longrightarrow> store_op E V version (is_err r) s s'"
| op_link_secret: "add_onepassword_secret sid now name ref s = (r, s') \<Longrightarrow> sid \<notin> used_ids s \<Longrightarrow> store_op E V version (is_err r) s s'"
| op_add_connection: "add_connection E cid now spec s = (r, s') \<Longrightarrow> cid \<notin> used_ids s \<Longrightarrow> store_op E V version (is_err r) s s'"
| op_add_with_secret: "add_connection_with_secret E V sid cid now name x spec s = (r, s') \<Longrightarrow> rust_string x \<Longrightarrow>
    sid \<notin> used_ids s \<Longrightarrow> cid \<notin> used_ids s \<Longrightarrow> sid \<noteq> cid \<Longrightarrow> store_op E V version (is_err r) s s'"
| op_update_connection: "update_connection_inner E version now i expected spec s = (r, s') \<Longrightarrow> store_op E V version (is_err r) s s'"
| op_rename_connection: "rename_connection_inner version now i expected name s = (r, s') \<Longrightarrow> store_op E V version (is_err r) s s'"
| op_account: "set_connection_account i acc s = (r, s') \<Longrightarrow> store_op E V version (is_err r) s s'"
| op_oauth: "set_connection_oauth V gid now i x ex s = (r, s') \<Longrightarrow> rust_string x \<Longrightarrow> gid \<notin> used_ids s \<Longrightarrow> store_op E V version (is_err r) s s'"
| op_pin: "pin_ssh_host_key E i f s = (r, s') \<Longrightarrow> store_op E V version (is_err r) s s'"
| op_delete_connection: "delete_connection V i s = (r, s') \<Longrightarrow> store_op E V version (is_err r) s s'"
| op_reorder: "reorder_connections ids s = (r, s') \<Longrightarrow> store_op E V version (is_err r) s s'"
| op_dock: "set_menu_bar_hides_dock on s = (r, s') \<Longrightarrow> store_op E V version (is_err r) s s'"
| op_host_keys: "set_confirm_ssh_host_keys on s = (r, s') \<Longrightarrow> store_op E V version (is_err r) s s'"
| op_generation: "store_advance_access_generation s = (r, s') \<Longrightarrow> store_op E V version (is_err r) s s'"

text \<open>What reading back a written index gives.\<close>

definition stored_rows :: "connection list \<Rightarrow> stored_row list" where
  "stored_rows cs = map (\<lambda>c. \<lparr>row_kind = Some (kind_as_str (conn_kind c)), row_name = Some (conn_name c), row_connection = Some c\<rparr>) cs"

text \<open>
  A restart opens the vault again on what its file holds, with the write faults and random draws of the new
  process, and the store on what the index file holds; a vault or an index that does not open starts nothing.
\<close>

inductive store_step :: "'f store_env \<Rightarrow> 'v vault_ops \<Rightarrow> (connection \<Rightarrow> bytes) \<Rightarrow> 'v store \<Rightarrow> 'v store \<Rightarrow> bool" for E V version where
  operate: "store_op E V version failed s s' \<Longrightarrow> store_step E V version s s'"
| restart: "full_nonces random \<Longrightarrow> v_reopen V vault_faults random (st_vault s) = Return (Ok v) \<Longrightarrow>
    open_store v faults (Ok (Some (st_disk s, stored_rows (ix_connections (st_disk s))))) = Ok (s', dropped) \<Longrightarrow>
    store_step E V version s s'"

lemma read_stored_rows: "connections_dropping_retired_kinds (stored_rows cs) = Ok (cs, [])"
  by (induction cs) (simp_all add: stored_rows_def)

lemma same_connection_refl [simp]: "same_connection c c"
  by (simp add: same_connection_def)

lemma migrate_pg_same: "list_all2 same_connection (ix_connections st) (ix_connections (fst (migrate_legacy_pg_ca_bundle st))) \<and>
    ix_secrets (fst (migrate_legacy_pg_ca_bundle st)) = ix_secrets st \<and> ix_integrations (fst (migrate_legacy_pg_ca_bundle st)) = ix_integrations st"
  by (auto simp: migrate_legacy_pg_ca_bundle_def list_all2_map2 list_all2_same same_connection_def conn_kind_def config_kind_def
      split: option.splits connection_config.splits)

lemma migrate_token_same: "same_connection c (fst (migrate_token_secret_id c))"
proof (cases "conn_config c")
  case (Api a)
  then show ?thesis
    by (cases "api_oauth a"; cases "conn_secrets c" rule: list.exhaust)
      (auto simp: migrate_token_secret_id_def same_connection_def conn_kind_def config_kind_def split: list.splits)
qed (simp_all add: migrate_token_secret_id_def)

definition migrated :: "index_state \<Rightarrow> index_state" where
  "migrated st = fst (migrate_oauth_token_secret_ids (fst (migrate_legacy_pg_ca_bundle st)))"

lemma index_state_same:
  assumes "list_all2 same_connection (ix_connections st) (ix_connections st')" "ix_secrets st' = ix_secrets st" "ix_integrations st' = ix_integrations st"
  shows "index_ok st' = index_ok st \<and> vault_ids st' = vault_ids st"
  using same_connections_map [OF assms(1)] assms(2,3) by (simp add: index_ok_def vault_ids_def)

lemma migrated_same: "index_ok (migrated st) = index_ok st \<and> vault_ids (migrated st) = vault_ids st"
proof -
  let ?s1 = "fst (migrate_legacy_pg_ca_bundle st)"
  have "list_all2 same_connection (ix_connections ?s1) (ix_connections (migrated st))" "ix_secrets (migrated st) = ix_secrets ?s1"
    "ix_integrations (migrated st) = ix_integrations ?s1"
    by (simp_all add: migrated_def migrate_oauth_token_secret_ids_def list_all2_map2 list_all2_same migrate_token_same)
  from index_state_same [OF this] index_state_same [of st ?s1] migrate_pg_same [of st] show ?thesis by simp
qed

lemma restart_effect:
  assumes "open_store v faults (Ok (Some (st, stored_rows (ix_connections st)))) = Ok (s', dropped)"
  shows "st_index s' = migrated st \<and> st_disk s' \<in> {st, migrated st} \<and> st_vault s' = v \<and> dropped = []"
proof -
  obtain st1 m1 where 1: "migrate_legacy_pg_ca_bundle st = (st1, m1)" by fastforce
  obtain st2 m2 where 2: "migrate_oauth_token_secret_ids st1 = (st2, m2)" by fastforce
  let ?s = "\<lparr>st_index = st2, st_disk = st, st_vault = v, st_faults = faults, st_invalidated = []\<rparr>"
  obtain q s1 where p: "persist_index st2 ?s = (q, s1)" by fastforce
  have m: "migrated st = st2" by (simp add: migrated_def 1 2)
  have "s' = ?s \<and> dropped = [] \<or> s' = s1 \<and> dropped = [] \<and> \<not> is_err q"
    using assms by (auto simp: open_store_def read_stored_rows 1 2 p Let_def split: if_splits sum.splits)
  with persist_index_frame [OF p] m show ?thesis by auto
qed

context secret_vault
begin

lemmas op_changes = add_credential_changes set_password_profile_changes set_totp_factor_changes rename_secret_changes replace_secret_value_changes
  delete_secret_changes add_integration_changes replace_token_changes delete_integration_changes add_onepassword_secret_changes
  add_connection_changes add_connection_with_secret_changes update_connection_changes rename_connection_changes set_account_changes
  set_oauth_changes pin_changes delete_connection_changes reorder_changes settings_changes generation_changes

lemma store_op_changes:
  assumes "store_op E V version failed s s'" and "good (st_vault s)"
  shows "changes V good failed s s'"
  using assms
  by (cases rule: store_op.cases)
    (auto intro: op_changes simp: set_menu_bar_hides_dock_def set_confirm_ssh_host_keys_def)

end

context reopenable_vault
begin

lemma store_step_index_ok:
  assumes "store_step E V version s s'" and "index_ok (st_index s)" "index_ok (st_disk s)" "good (st_vault s)"
  shows "index_ok (st_index s') \<and> index_ok (st_disk s') \<and> good (st_vault s')"
  using assms(1)
proof cases
  case (operate failed)
  from store_op_changes [OF this assms(4)] have "changes V good failed s s'" .
  with changes_index_ok [OF this assms(2,3)] show ?thesis by (simp add: changes_def)
next
  case (restart random vault_faults v faults dropped)
  from restart_effect [OF restart(3)] reopen_good [OF assms(4) restart(1,2)] assms(3) migrated_same [of "st_disk s"]
  show ?thesis by auto
qed

lemma store_reaches_inv:
  assumes "reaches (store_step E V version) s0 s" and "index_ok (st_index s0)" "index_ok (st_disk s0)" "good (st_vault s0)"
  shows "index_ok (st_index s) \<and> index_ok (st_disk s) \<and> good (st_vault s)"
  using assms by (induction rule: reaches.induct) (auto dest: store_step_index_ok)

end

context durable_vault
begin

lemma store_step_complete:
  assumes "store_step E V version s s'" and "index_ok (st_index s)" "good (st_vault s)" "clean s" "quiet (st_vault s)"
    "synced (st_vault s)" "vault_complete V s"
  shows "vault_complete V s' \<and> synced (st_vault s')"
  using assms(1)
proof cases
  case (operate failed)
  have c: "changes V (\<lambda>v. good v \<and> quiet v \<and> synced v) failed s s'"
    using secret_vault.store_op_changes [OF settled_laws operate] assms(3,5,6) by blast
  from changes_vault_complete [OF c assms(2,7,4)] c show ?thesis by (simp add: changes_def)
next
  case (restart random vault_faults v faults dropped)
  from restart_effect [OF restart(3)] reopen_synced [OF assms(3,6) restart(2)] assms(7) migrated_same [of "st_disk s"]
  show ?thesis by (auto simp: vault_complete_def holds_def)
qed

lemma store_reaches_complete:
  assumes "reaches (\<lambda>s t. clean s \<and> quiet (st_vault s) \<and> store_step E V version s t) s0 s" and "index_ok (st_index s0)"
    "index_ok (st_disk s0)" "good (st_vault s0)" "synced (st_vault s0)" "vault_complete V s0"
  shows "vault_complete V s \<and> synced (st_vault s) \<and> index_ok (st_index s) \<and> index_ok (st_disk s) \<and> good (st_vault s)"
  using assms by (induction rule: reaches.induct) (auto dest: store_step_index_ok store_step_complete)

end

subsection \<open>Properties\<close>

definition example_env :: "unit store_env" where
  "example_env = \<lparr>url_parse = (\<lambda>_. None), fp_parse = (\<lambda>_. Inr ()), fp_show = (\<lambda>_. [65]), unprintable = (\<lambda>_. False)\<rparr>"

definition empty_store :: "memory_vault store" where
  "empty_store = \<lparr>st_index = default_index, st_disk = default_index, st_vault = [], st_faults = [], st_invalidated = []\<rparr>"

definition example_credential :: new_credential where
  "example_credential = \<lparr>nc_kind = Secret, nc_name = Some (ascii ''TOKEN''), nc_site = None, nc_username = None, nc_value = ascii ''v'', nc_totp = None\<rparr>"

definition example_store :: "memory_vault store" where
  "example_store = snd (add_credential memory_vault 1 2 0 example_credential empty_store)"

lemma example_add:
  "add_credential memory_vault 1 2 0 example_credential empty_store =
     (Ok \<lparr>sm_id = 1, sm_name = ascii ''TOKEN'', sm_created_at = 0, sm_updated_at = 0, sm_source = Local, sm_kind = Secret, sm_site = None,
         sm_username = None, totp_vault_id = None\<rparr>, example_store)"
  "st_index example_store = default_index\<lparr>ix_secrets := [\<lparr>sm_id = 1, sm_name = ascii ''TOKEN'', sm_created_at = 0, sm_updated_at = 0,
     sm_source = Local, sm_kind = Secret, sm_site = None, sm_username = None, totp_vault_id = None\<rparr>]\<rparr>"
  by (simp_all add: example_store_def add_credential_def example_credential_def empty_store_def credential_profile_def default_index_def
      store_credential_def vault_set_def memory_vault_def memory_vault_set_def persist_index_def is_valid_secret_name_def
      is_ascii_alphabetic_def is_ascii_alphanumeric_def utf8_len_def utf8_width_def Let_def)

lemma example_op: "store_op example_env memory_vault version False empty_store example_store"
proof -
  have u: "used_ids empty_store = {}" by (simp add: used_ids_def index_ids_def empty_store_def default_index_def vault_ids_def)
  have "rust_string (nc_value example_credential)" by (simp add: example_credential_def rust_string_def is_scalar_def ascii_def)
  from store_op.op_add_credential [OF example_add(1) this, of example_env version] show ?thesis by (simp add: u example_credential_def)
qed

lemma empty_store_ok: "index_ok (st_index empty_store)" "index_ok (st_disk empty_store)" "vault_complete memory_vault empty_store" "clean empty_store"
  by (simp_all add: empty_store_def default_index_def index_ok_def vault_ids_def vault_complete_def clean_def)

definition unfiled_store :: "file_vault_item vault_file store" where
  "unfiled_store = \<lparr>st_index = default_index, st_disk = default_index,
     st_vault = \<lparr>vf_items = [], vf_file = Ok None, vf_faults = [None]\<rparr>, st_faults = [], st_invalidated = []\<rparr>"

definition filed_store :: "file_vault_item vault_file store" where
  "filed_store = snd (add_credential file_vault 1 2 0 example_credential unfiled_store)"

definition filed_items :: "(uuid, file_vault_item) hashmap" where
  "filed_items = [(1, \<lparr>fi_attrs = \<lparr>va_name = ascii ''TOKEN'', va_created_at = 0\<rparr>, fi_value = ascii ''v''\<rparr>)]"

lemma filed_add:
  "add_credential file_vault 1 2 0 example_credential unfiled_store =
     (Ok \<lparr>sm_id = 1, sm_name = ascii ''TOKEN'', sm_created_at = 0, sm_updated_at = 0, sm_source = Local, sm_kind = Secret, sm_site = None,
         sm_username = None, totp_vault_id = None\<rparr>, filed_store)"
  "st_index filed_store = default_index\<lparr>ix_secrets := [\<lparr>sm_id = 1, sm_name = ascii ''TOKEN'', sm_created_at = 0, sm_updated_at = 0,
     sm_source = Local, sm_kind = Secret, sm_site = None, sm_username = None, totp_vault_id = None\<rparr>]\<rparr>"
  "st_vault filed_store = \<lparr>vf_items = filed_items, vf_file = Ok (Some filed_items), vf_faults = []\<rparr>"
  by (simp_all add: filed_store_def filed_items_def add_credential_def example_credential_def unfiled_store_def credential_profile_def
      default_index_def store_credential_def vault_set_def file_vault_def file_vault_set_def commit_vault_def persist_vault_def
      persist_index_def is_valid_secret_name_def is_ascii_alphabetic_def is_ascii_alphanumeric_def utf8_len_def utf8_width_def Let_def)

lemma filed_op: "store_op example_env file_vault version False unfiled_store filed_store"
proof -
  have u: "used_ids unfiled_store = {}" by (simp add: used_ids_def index_ids_def unfiled_store_def default_index_def vault_ids_def)
  have "rust_string (nc_value example_credential)" by (simp add: example_credential_def rust_string_def is_scalar_def ascii_def)
  from store_op.op_add_credential [OF filed_add(1) this, of example_env version] show ?thesis by (simp add: u example_credential_def)
qed

lemma unfiled_store_ok: "index_ok (st_index unfiled_store)" "index_ok (st_disk unfiled_store)" "vault_complete file_vault unfiled_store"
  "clean unfiled_store" "vf_quiet (st_vault unfiled_store)" "vf_synced (st_vault unfiled_store)"
  by (simp_all add: unfiled_store_def default_index_def index_ok_def vault_ids_def vault_complete_def clean_def vf_quiet_def vf_synced_def)

text \<open>
  C4. The catalog invariant holds in memory and in the file after every history of operations, failed writes,
  rollbacks and restarts, for every vault that keeps its contract and can be opened again: ids and names are unique and valid, every
  bound secret exists, a Postgres or SSH connection binds at most one, a linked secret's integration exists,
  passwords and secrets have the fields of their kind, and no two entries share a vault item.
\<close>

theorem store_catalog_invariant:
  assumes "reopenable_vault V good" and "reaches (store_step E V version) s0 s"
    and "index_ok (st_index s0)" "index_ok (st_disk s0)" "good (st_vault s0)"
  shows "index_ok (st_index s) \<and> index_ok (st_disk s)"
  using reopenable_vault.store_reaches_inv [OF assms] by blast

theorem store_catalog_invariant_witness:
  "index_ok (st_index example_store) \<and> index_ok (st_disk example_store) \<and> map sm_name (ix_secrets (st_index example_store)) = [ascii ''TOKEN'']"
proof -
  have "reaches (store_step example_env memory_vault (\<lambda>_. [])) empty_store example_store"
    by (meson example_op reaches_refl reaches_step store_step.operate)
  from store_catalog_invariant [OF mem.reopenable_vault_axioms this empty_store_ok(1,2) TrueI] show ?thesis by (simp add: example_add(2))
qed

text \<open>
  C5. As long as no write of the index and no write of the vault's file fails after replacing the file, the
  vault is complete: every local secret, every TOTP factor, every access token of an integration and every
  OAuth grant that the catalog in memory or in the file refers to can be fetched, after every history of
  operations, other failures, rollbacks and restarts that open both files again; and opening the vault again
  from its file, at any moment, gives a complete vault too. It holds for every vault that keeps the contract
  \<open>durable_vault\<close>, as the encrypted vault, the development vault and the vault of the tests do.
\<close>

theorem store_vault_complete:
  assumes "durable_vault V good quiet synced"
    and "reaches (\<lambda>s t. clean s \<and> quiet (st_vault s) \<and> store_step E V version s t) s0 s"
    and "index_ok (st_index s0)" "index_ok (st_disk s0)" "good (st_vault s0)" "synced (st_vault s0)" "vault_complete V s0"
  shows "vault_complete V s \<and> (v_reopen V faults random (st_vault s) = Return (Ok v) \<longrightarrow> vault_complete V (s\<lparr>st_vault := v\<rparr>))"
proof -
  have "vault_complete V s \<and> synced (st_vault s) \<and> good (st_vault s)"
    using durable_vault.store_reaches_complete [OF assms] by blast
  then show ?thesis
    using durable_vault.reopen_synced [OF assms(1)] by (auto simp: vault_complete_def holds_def)
qed

theorem store_vault_complete_witness:
  "vault_complete file_vault filed_store \<and> vault_ids (st_index filed_store) = [1] \<and>
   vault_complete file_vault (filed_store\<lparr>st_vault := \<lparr>vf_items = filed_items, vf_file = Ok (Some filed_items), vf_faults = [None]\<rparr>\<rparr>)"
proof -
  have "reaches (\<lambda>s t. clean s \<and> vf_quiet (st_vault s) \<and> store_step example_env file_vault (\<lambda>_. []) s t) unfiled_store filed_store"
    by (rule reaches_step [OF reaches_refl]) (intro conjI unfiled_store_ok(4,5) store_step.operate [OF filed_op])
  note c = store_vault_complete [OF plain.durable_vault_axioms this unfiled_store_ok(1,2) TrueI unfiled_store_ok(6,3)]
  have "v_reopen file_vault [None] [] (st_vault filed_store) =
      Return (Ok \<lparr>vf_items = filed_items, vf_file = Ok (Some filed_items), vf_faults = [None]\<rparr>)"
    by (simp add: filed_add(3) file_vault_def file_vault_open_def open_items_def)
  with c [of "[None]" "[]"] show ?thesis by (simp add: filed_add(2) vault_ids_def secret_vault_ids_def default_index_def)
qed



text \<open>
  Why the vault has to be quiet: a deletion whose vault write fails after replacing the vault's file is reported as failed and the
  index is rolled back, so that the secret stays in the catalog; but the file no longer has its value, which a restart loses.
\<close>

lemma filed_rest: "st_disk filed_store = st_index filed_store" "st_faults filed_store = []"
  by (simp_all add: filed_store_def add_credential_def example_credential_def unfiled_store_def credential_profile_def
      default_index_def store_credential_def vault_set_def file_vault_def file_vault_set_def commit_vault_def persist_vault_def
      persist_index_def is_valid_secret_name_def is_ascii_alphabetic_def is_ascii_alphanumeric_def utf8_len_def utf8_width_def Let_def)

lemma late_vault_failure_loses_value:
  "\<exists>s v. delete_secret file_vault 1 (filed_store\<lparr>st_vault := (st_vault filed_store)\<lparr>vf_faults := [Some (IoError, True)]\<rparr>\<rparr>) = (Err IoError, s) \<and>
     vault_ids (st_index s) = [1] \<and> vault_ids (st_disk s) = [1] \<and> v_reopen file_vault [] [] (st_vault s) = Return (Ok v) \<and>
     v_get file_vault 1 v = Return (Err SecretNotFound)"
  by (simp add: delete_secret_def filed_add(2,3) filed_rest connections_using_def persist_index_def rollback_index_def vault_delete_def
      file_vault_def file_vault_delete_def file_vault_open_def file_vault_get_def open_items_def remove_item_def filed_items_def
      commit_vault_def persist_vault_def default_index_def vault_ids_def secret_vault_ids_def Let_def)

end
