(* ===== verification/StoreEdits.thy ===== *)
theory StoreEdits
  imports StoreInvariant Renames AuditLog
begin

text \<open>
  What single edits of the catalog do (\<^verbatim>\<open>crates/aka-core/src/store.rs\<close>): renaming a secret, editing a
  connection against a version, moving a connection to another target, pinning a host key, and what a
  write that fails late leaves behind.
\<close>

subsection \<open>Committing\<close>

lemma persist_index_ok: "persist_index nxt s = (Inr u, s') \<Longrightarrow> s' = s\<lparr>st_faults := tl (st_faults s), st_disk := nxt\<rparr>"
  by (auto simp: persist_index_def Let_def split: option.splits prod.splits)

lemma commit_with_ok: "commit_with x nxt s = (Inr y, s') \<Longrightarrow> y = x \<and> s' = s\<lparr>st_faults := tl (st_faults s), st_disk := nxt, st_index := nxt\<rparr>"
  by (auto simp: commit_with_def commit_index_def split: prod.splits sum.splits dest: persist_index_ok)

lemma update_first_map:
  assumes "distinct (map kf xs)" "x \<in> set xs"
  shows "update_first (\<lambda>y. kf y = kf x) f xs = map (\<lambda>y. if kf y = kf x then f y else y) xs"
  using assms
proof (induction xs)
  case (Cons y ys)
  show ?case
  proof (cases "kf y = kf x")
    case True
    then have "map (\<lambda>y. if kf y = kf x then f y else y) ys = ys" using Cons.prems(1) by (intro map_idI) (auto, metis imageI)
    then show ?thesis using True by simp
  qed (use Cons in auto)
qed simp

lemma list_all2_carry:
  assumes "list_all2 P xs ys" "list_all Q xs" "\<And>x y. P x y \<Longrightarrow> Q x \<Longrightarrow> R y \<and> g y = g x"
  shows "list_all R ys \<and> map g ys = map g xs"
  using assms(1,2) by (induction rule: list_all2_induct) (use assms(3) in auto)

subsection \<open>Renaming a secret\<close>

text \<open>What holds of every connection of an index that was built by validated operations.\<close>

definition bindings_derived :: "'f store_env \<Rightarrow> index_state \<Rightarrow> bool" where
  "bindings_derived E st \<longleftrightarrow>
     list_all (\<lambda>c. derived_binding (ix_secrets st) (conn_config c) (conn_secrets c) \<and> plain_config E (conn_config c)) (ix_connections st)"

lemma rename_in_connections_all:
  assumes "rename_in_connections E old new at cs = Inr (cs', n)"
  shows "list_all2 (\<lambda>c c'. \<exists>b. rename_in_connection E old new at c = Inr (c', b)) cs cs'"
  using assms by (induction cs arbitrary: cs' n) auto

lemma rename_secret_ok:
  assumes "rename_secret E V at now i new s = (Inr (m', n), s')" and m: "List.find (\<lambda>m. sm_id m = i) (ix_secrets (st_index s)) = Some m"
    and "sm_name m \<noteq> new"
  obtains cs where "is_valid_secret_name new" "new \<notin> sm_name ` set (ix_secrets (st_index s))"
    "rename_in_connections E (sm_name m) new at (ix_connections (st_index s)) = Inr (cs, n)"
    "m' = m\<lparr>sm_name := new, sm_updated_at := now\<rparr>"
    "st_index s' = (st_index s)\<lparr>ix_connections := cs, ix_secrets := update_first (\<lambda>m. sm_id m = i) (\<lambda>m. m\<lparr>sm_name := new, sm_updated_at := now\<rparr>) (ix_secrets (st_index s))\<rparr>"
proof -
  obtain cs k where r: "rename_in_connections E (sm_name m) new at (ix_connections (st_index s)) = Inr (cs, k)"
    using assms by (cases "rename_in_connections E (sm_name m) new at (ix_connections (st_index s))") (auto simp: rename_secret_def split: if_splits)
  have v: "is_valid_secret_name new" "\<not> list_ex (\<lambda>m. sm_name m = new) (ix_secrets (st_index s))"
    using assms by (auto simp: rename_secret_def split: if_splits)
  show thesis
  proof (rule that)
    show "new \<notin> sm_name ` set (ix_secrets (st_index s))" using v(2) by (auto simp: list_ex_iff)
  qed (use assms r v in \<open>auto simp: rename_secret_def Let_def rollback_index_def split: if_splits prod.splits sum.splits\<close>)
qed

text \<open>
  Renaming a secret keeps every connection bound to what it was bound to: the secret has the new name and
  nothing else of it changed but the time, the lists of bound secrets are the same, and every API connection's list is
  still the set of secrets its template or signer names, so the next edit derives the same list again. The
  literals of the templates are assumed to be printable, without backslashes and quotes (\<open>plain_config\<close>).
\<close>

theorem rename_secret_keeps_bindings:
  assumes r: "rename_secret E V at now i new s = (Ok (m', n), s')" and ok: "index_ok (st_index s)" and d: "bindings_derived E (st_index s)"
  shows "bindings_derived E (st_index s') \<and> map conn_secrets (ix_connections (st_index s')) = map conn_secrets (ix_connections (st_index s)) \<and>
    map sm_id (ix_secrets (st_index s')) = map sm_id (ix_secrets (st_index s)) \<and>
    List.find (\<lambda>m. sm_id m = i) (ix_secrets (st_index s')) = Some m' \<and> sm_name m' = new"
proof -
  obtain m where m: "List.find (\<lambda>m. sm_id m = i) (ix_secrets (st_index s)) = Some m"
    using r by (auto simp: rename_secret_def split: if_splits option.splits)
  from find_SomeD [OF m] have mem: "m \<in> set (ix_secrets (st_index s))" and mi: "sm_id m = i" by auto
  note ids = catalog_okD [OF ok]
  show ?thesis
  proof (cases "sm_name m = new")
    case True
    then have "m' = m \<and> s' = s" using r m by (auto simp: rename_secret_def split: if_splits)
    then show ?thesis using True m d by simp
  next
    case False
    let ?upd = "\<lambda>m. m\<lparr>sm_name := new, sm_updated_at := now\<rparr>"
    from rename_secret_ok [OF r m False] obtain cs where v: "is_valid_secret_name new" "new \<notin> sm_name ` set (ix_secrets (st_index s))"
      and cs: "rename_in_connections E (sm_name m) new at (ix_connections (st_index s)) = Inr (cs, n)" and m': "m' = ?upd m"
      and s': "st_index s' = (st_index s)\<lparr>ix_connections := cs, ix_secrets := update_first (\<lambda>m. sm_id m = i) ?upd (ix_secrets (st_index s))\<rparr>" .
    have upd: "update_first (\<lambda>m. sm_id m = i) ?upd (ix_secrets (st_index s)) =
        map (\<lambda>x. if sm_id x = sm_id m then ?upd x else x) (ix_secrets (st_index s))"
      using update_first_map [where kf = sm_id and x = m and xs = "ix_secrets (st_index s)" and f = ?upd] ids mem mi by simp
    have one: "derived_binding (map (\<lambda>x. if sm_id x = sm_id m then ?upd x else x) (ix_secrets (st_index s))) (conn_config c') (conn_secrets c') \<and>
        plain_config E (conn_config c') \<and> conn_secrets c' = conn_secrets c"
      if "derived_binding (ix_secrets (st_index s)) (conn_config c) (conn_secrets c) \<and> plain_config E (conn_config c)"
        and rc: "rename_in_connection E (sm_name m) new at c = Inr (c', b)" for c c' b
    proof -
      have same: "conn_secrets c' = conn_secrets c" "config_kind (conn_config c') = config_kind (conn_config c)"
        using rename_in_connection_same [OF rc] by (simp_all add: same_connection_def conn_kind_def)
      moreover have "derived_binding (map (\<lambda>x. if sm_id x = sm_id m then ?upd x else x) (ix_secrets (st_index s))) (conn_config c') (conn_secrets c)"
        by (rule derived_binding_rename [OF _ _ _ mem v(2) same(2) conjunct1 [OF rename_in_connection_refs [OF rc _ v(1)]]]) (use that ids in simp_all)
      ultimately show ?thesis using rename_in_connection_refs [OF rc _ v(1)] that by simp
    qed
    have "list_all (\<lambda>c. derived_binding (map (\<lambda>x. if sm_id x = sm_id m then ?upd x else x) (ix_secrets (st_index s))) (conn_config c) (conn_secrets c) \<and>
        plain_config E (conn_config c)) cs \<and> map conn_secrets cs = map conn_secrets (ix_connections (st_index s))"
      by (rule list_all2_carry [OF rename_in_connections_all [OF cs] d [unfolded bindings_derived_def]]) (use one in blast)
    moreover have "List.find (\<lambda>m. sm_id m = i) (update_first (\<lambda>m. sm_id m = i) ?upd (ix_secrets (st_index s))) = Some m'"
      using m m' by (subst find_update_first_same) auto
    ultimately show ?thesis using m' by (simp add: s' bindings_derived_def upd)
  qed
qed

definition rename_example :: "memory_vault store" where
  "rename_example = example_store\<lparr>st_index := (st_index example_store)\<lparr>ix_connections :=
     [new_connection 7 0 (ascii ''gh'')
       (Api \<lparr>api_host = ascii ''h'', api_scheme = ascii ''https'', api_port = None, api_trusted_ca_bundle_path = None,
          api_template = ascii ''{{TOKEN}}'', mcp_path = None, test_path = None, api_oauth = None, signer = None,
          client_cert_path = None, client_key_path = None\<rparr>) [1]]\<rparr>\<rparr>"

lemma example_store_rest: "st_vault example_store = [(1, \<lparr>va_name = ascii ''TOKEN'', va_created_at = 0\<rparr>, ascii ''v'')] \<and> st_faults example_store = []"
  by (simp add: example_store_def add_credential_def example_credential_def empty_store_def credential_profile_def default_index_def
      store_credential_def vault_set_def memory_vault_def memory_vault_set_def persist_index_def is_valid_secret_name_def
      is_ascii_alphabetic_def is_ascii_alphanumeric_def utf8_len_def utf8_width_def Let_def)

lemma rename_example_parse: "parse_template (ascii ''{{TOKEN}}'') = Ok [Placeholder (ExprRef (ascii ''TOKEN''))]"
  by (simp add: parse_template.simps parse_expr_def trim_def is_whitespace_def parse_args.simps
      word_char_def is_valid_secret_name_def is_ascii_alphabetic_def is_ascii_alphanumeric_def utf8_len_def utf8_width_def)

lemma rename_example_index:
  "index_ok (st_index rename_example)" "bindings_derived example_env (st_index rename_example)"
  by (simp_all add: rename_example_def new_connection_def example_add(2) default_index_def index_ok_def vault_ids_def secret_vault_ids_def
      connection_vault_ids_def secret_shape_def secret_linked_def connection_bound_def connection_name_ok_def connection_name_char_def
      is_valid_secret_name_def is_ascii_alphabetic_def is_ascii_alphanumeric_def utf8_len_def utf8_width_def
      bindings_derived_def derived_binding_def plain_config_def config_refs_def rename_example_parse [simplified] expr_refs_def plain_template_def plain_segment_def Collect_conv_if)

lemma rename_example_renamed:
  "\<exists>m n s. rename_secret example_env memory_vault (\<lambda>_. 1) 1 1 (ascii ''KEY'') rename_example = (Ok (m, n), s)"
  by (simp add: rename_example_def new_connection_def example_add(2) default_index_def rename_secret_def is_valid_secret_name_def
      is_ascii_alphabetic_def is_ascii_alphanumeric_def utf8_len_def utf8_width_def rename_in_connection_def core_parse_template_def
      rename_example_parse [simplified] expr_refs_def Let_def example_store_rest persist_index_def vault_set_attrs_def memory_vault_def memory_vault_set_attrs_def)

theorem rename_secret_keeps_bindings_witness:
  "bindings_derived example_env (st_index (snd (rename_secret example_env memory_vault (\<lambda>_. 1) 1 1 (ascii ''KEY'') rename_example))) \<and>
   map conn_secrets (ix_connections (st_index (snd (rename_secret example_env memory_vault (\<lambda>_. 1) 1 1 (ascii ''KEY'') rename_example)))) = [[1]]"
proof -
  obtain m n s where r: "rename_secret example_env memory_vault (\<lambda>_. 1) 1 1 (ascii ''KEY'') rename_example = (Ok (m, n), s)"
    using rename_example_renamed by blast
  have "map conn_secrets (ix_connections (st_index rename_example)) = [[1]]" by (simp add: rename_example_def new_connection_def)
  with rename_secret_keeps_bindings [OF r rename_example_index] r show ?thesis by simp
qed

subsection \<open>Edits of a connection\<close>

lemma update_connection_ok:
  assumes "update_connection_inner E version now i expected spec s = (Inr (c', moved), s')"
  obtains c bound where "List.find (\<lambda>c. conn_id c = i) (ix_connections (st_index s)) = Some c"
    "expected \<in> {None, Some (version c)}" "conn_kind c = config_kind (spec_config spec)"
    "inherited_config (conn_config c) (spec_config spec) = conn_config c \<or> oauth_rename_only c = None"
    "validate_config_and_bind_secrets E (st_index s) (spec\<lparr>spec_config := inherited_config (conn_config c) (spec_config spec)\<rparr>) = Inr bound"
    "c' = c\<lparr>conn_name := spec_name spec, conn_config := inherited_config (conn_config c) (spec_config spec), conn_secrets := bound,
       conn_updated_at := next_connection_updated_at now (conn_updated_at c)\<rparr>"
    "moved = (conn_target c' \<noteq> conn_target c \<or> ssh_host_key_changed (conn_config c) (conn_config c'))"
    "st_index s' = (st_index s)\<lparr>ix_connections := update_first (\<lambda>c. conn_id c = i) (\<lambda>c. c\<lparr>conn_name := spec_name spec,
       conn_config := conn_config c', conn_secrets := bound, conn_updated_at := next_connection_updated_at now (conn_updated_at c)\<rparr>)
       (ix_connections (st_index s))\<rparr>"
proof -
  obtain c where c: "List.find (\<lambda>c. conn_id c = i) (ix_connections (st_index s)) = Some c"
    using assms by (auto simp: update_connection_inner_def split: sum.splits option.splits)
  let ?cfg = "inherited_config (conn_config c) (spec_config spec)"
  have g: "expected \<in> {None, Some (version c)}" "conn_kind c = config_kind (spec_config spec)" "?cfg = conn_config c \<or> oauth_rename_only c = None"
    using assms c by (auto simp: update_connection_inner_def Let_def split: sum.splits if_splits option.splits)
  obtain bound where b: "validate_config_and_bind_secrets E (st_index s) (spec\<lparr>spec_config := ?cfg\<rparr>) = Inr bound"
    using assms c by (cases "validate_config_and_bind_secrets E (st_index s) (spec\<lparr>spec_config := ?cfg\<rparr>)")
      (auto simp: update_connection_inner_def Let_def split: sum.splits if_splits option.splits)
  define upd :: "connection \<Rightarrow> connection" where "upd = (\<lambda>c. c\<lparr>conn_name := spec_name spec, conn_config := ?cfg, conn_secrets := bound,
    conn_updated_at := next_connection_updated_at now (conn_updated_at c)\<rparr>)"
  have "commit_with (upd c, config_target ?cfg \<noteq> conn_target c \<or> ssh_host_key_changed (conn_config c) ?cfg)
      ((st_index s)\<lparr>ix_connections := update_first (\<lambda>c. conn_id c = i) upd (ix_connections (st_index s))\<rparr>) s = (Inr (c', moved), s')"
    using assms c b by (auto simp: update_connection_inner_def Let_def upd_def split: sum.splits if_splits option.splits)
  from commit_with_ok [OF this] show thesis by (intro that [OF c g b]) (auto simp: upd_def conn_target_def)
qed

lemma config_target_signer:
  "config_target (Api (y\<lparr>signer := sg\<rparr>)) = config_target (Api y)"
  "config_target (Api (y\<lparr>client_cert_path := p, client_key_path := q\<rparr>)) = config_target (Api y)"
  "config_target (Api (y\<lparr>signer := sg, client_cert_path := p, client_key_path := q\<rparr>)) = config_target (Api y)"
  unfolding config_target_def by simp_all

lemma inherited_config_moved:
  assumes "oauth_rename_only c = None" "config_target (inherited_config (conn_config c) cfg) \<noteq> conn_target c"
  shows "inherited_config (conn_config c) cfg = cfg"
proof (cases "conn_config c")
  case (Api a)
  then have o: "api_oauth a = None" using assms(1) by (auto simp: oauth_rename_only_def split: if_splits)
  have "inherit_oauth_token_secret_id (Api a) (inherit_oauth_spec (Api a) cfg) = cfg"
    by (cases cfg) (simp_all add: inherit_oauth_spec_def inherit_oauth_token_secret_id_def o)
  moreover have "config_target (inherit_signer_and_mtls (Api a) cfg) = config_target cfg"
    by (cases cfg) (simp_all add: inherit_signer_and_mtls_def Let_def config_target_signer)
  ultimately show ?thesis using assms(2) Api by (auto simp: inherited_config_def conn_target_def inherit_signer_and_mtls_def)
qed (cases cfg; simp add: inherited_config_def inherit_oauth_spec_def inherit_oauth_token_secret_id_def inherit_signer_and_mtls_def)+

text \<open>
  Nothing secret rides along when a connection is pointed elsewhere: an edit that changes the target stores the
  submitted configuration literally (no signer, client certificate or OAuth grant specification is taken over from the old
  one), is reported as moved, and is refused altogether for a connection whose access was granted by an OAuth sign-in.
\<close>

theorem repointing_inherits_nothing:
  assumes u: "update_connection_inner E version now i expected spec s = (Ok (c', moved), s')"
    and c: "List.find (\<lambda>c. conn_id c = i) (ix_connections (st_index s)) = Some c" and t: "conn_target c' \<noteq> conn_target c"
  shows "conn_config c' = spec_config spec \<and> moved \<and> oauth_rename_only c = None"
proof -
  from u show ?thesis
  proof (rule update_connection_ok)
    fix d b
    assume "List.find (\<lambda>c. conn_id c = i) (ix_connections (st_index s)) = Some d"
      and a: "inherited_config (conn_config d) (spec_config spec) = conn_config d \<or> oauth_rename_only d = None"
        "c' = d\<lparr>conn_name := spec_name spec, conn_config := inherited_config (conn_config d) (spec_config spec), conn_secrets := b,
           conn_updated_at := next_connection_updated_at now (conn_updated_at d)\<rparr>"
        "moved = (conn_target c' \<noteq> conn_target d \<or> ssh_host_key_changed (conn_config d) (conn_config c'))"
    with c have d: "d = c" by simp
    show ?thesis using a t inherited_config_moved [of c "spec_config spec"] unfolding d by (auto simp: conn_target_def)
  qed
qed

text \<open>\<open>moved_spec\<close> leaves the client certificate out and names another host.\<close>

definition mtls_example :: "memory_vault store" where
  "mtls_example = empty_store\<lparr>st_index := default_index\<lparr>ix_connections :=
     [new_connection 7 0 (ascii ''gh'')
       (Api \<lparr>api_host = ascii ''h'', api_scheme = ascii ''https'', api_port = None, api_trusted_ca_bundle_path = None,
          api_template = [], mcp_path = None, test_path = None, api_oauth = None, signer = None,
          client_cert_path = Some (ascii ''c''), client_key_path = Some (ascii ''k'')\<rparr>) []]\<rparr>\<rparr>"

definition moved_spec :: connection_spec where
  "moved_spec = \<lparr>spec_name = ascii ''gh'', spec_config =
       Api \<lparr>api_host = ascii ''x'', api_scheme = ascii ''https'', api_port = None, api_trusted_ca_bundle_path = None,
          api_template = [], mcp_path = None, test_path = None, api_oauth = None, signer = None,
          client_cert_path = None, client_key_path = None\<rparr>, spec_secrets = []\<rparr>"

lemma mtls_example_moved:
  "\<exists>c' b s'. update_connection_inner example_env (\<lambda>_. []) 5 7 None moved_spec mtls_example = (Ok (c', b), s') \<and>
     conn_target c' = ascii ''https://x''"
  by (simp add: update_connection_inner_def mtls_example_def moved_spec_def new_connection_def default_index_def empty_store_def
      validate_connection_name_def ensure_def connection_name_ok_def connection_name_char_def is_ascii_alphanumeric_def is_ascii_alphabetic_def
      utf8_len_def utf8_width_def conn_kind_def config_kind_def inherited_config_def inherit_oauth_spec_def inherit_oauth_token_secret_id_def
      inherit_signer_and_mtls_def config_target_def Let_def oauth_rename_only_def validate_config_and_bind_secrets_def bind_api_secrets_def
      first_error_def api_field_checks_def oauth_checks_def host_only_def trim_def commit_with_def commit_index_def persist_index_def conn_target_def)
    blast

theorem repointing_inherits_nothing_witness:
  "\<exists>c' b s'. update_connection_inner example_env (\<lambda>_. []) 5 7 None moved_spec mtls_example = (Ok (c', b), s') \<and>
     conn_config c' = spec_config moved_spec \<and> b"
proof -
  obtain c' b s' where u: "update_connection_inner example_env (\<lambda>_. []) 5 7 None moved_spec mtls_example = (Ok (c', b), s')"
    and t: "conn_target c' = ascii ''https://x''" using mtls_example_moved by blast
  define c where "c = hd (ix_connections (st_index mtls_example))"
  have c: "List.find (\<lambda>c. conn_id c = 7) (ix_connections (st_index mtls_example)) = Some c"
    by (simp add: c_def mtls_example_def new_connection_def)
  have "conn_target c = ascii ''https://h''"
    by (simp add: c_def mtls_example_def new_connection_def conn_target_def config_target_def Let_def)
  with t have "conn_target c' \<noteq> conn_target c" by simp
  from repointing_inherits_nothing [OF u c this] u show ?thesis by blast
qed

text \<open>
  No lost update: an edit or a rename that carries the version an editor read succeeds only if everything
  the editor saw is still so. \<open>c0\<close> is the connection as it was read, at any earlier time; the hypotheses
  are that the printed time and the JSON text determine what they print, that the times have one length,
  and that the digest does not collide on the two inputs at hand.
\<close>

theorem edit_needs_current_version:
  assumes f: "List.find (\<lambda>c. conn_id c = i) (ix_connections (st_index s)) = Some c"
    and u: "\<not> is_err (fst (update_connection_inner E (connection_version sha rfc json) now i (Some (connection_version sha rfc json c0)) spec s)) \<or>
            \<not> is_err (fst (rename_connection_inner (connection_version sha rfc json) now i (Some (connection_version sha rfc json c0)) name s))"
    and rfc: "rfc (conn_updated_at c) = rfc (conn_updated_at c0) \<Longrightarrow> conn_updated_at c = conn_updated_at c0"
      "length (rfc (conn_updated_at c)) = length (rfc (conn_updated_at c0))"
    and json: "json (conn_name c, conn_config c, conn_secrets c) = json (conn_name c0, conn_config c0, conn_secrets c0) \<Longrightarrow>
      (conn_name c, conn_config c, conn_secrets c) = (conn_name c0, conn_config c0, conn_secrets c0)"
    and sha: "take 16 (sha (rfc (conn_updated_at c) @ json (conn_name c, conn_config c, conn_secrets c))) =
        take 16 (sha (rfc (conn_updated_at c0) @ json (conn_name c0, conn_config c0, conn_secrets c0))) \<Longrightarrow>
      rfc (conn_updated_at c) @ json (conn_name c, conn_config c, conn_secrets c) =
        rfc (conn_updated_at c0) @ json (conn_name c0, conn_config c0, conn_secrets c0)"
  shows "conn_name c = conn_name c0 \<and> conn_config c = conn_config c0 \<and> conn_secrets c = conn_secrets c0 \<and> conn_updated_at c = conn_updated_at c0"
proof -
  let ?v = "connection_version sha rfc json"
  have "?v c = ?v c0"
  proof (rule ccontr)
    assume "?v c \<noteq> ?v c0"
    then have "is_err (fst (update_connection_inner E ?v now i (Some (?v c0)) spec s))" "is_err (fst (rename_connection_inner ?v now i (Some (?v c0)) name s))"
      using f by (simp_all add: update_connection_inner_def rename_connection_inner_def split: sum.split)
    with u show False by simp
  qed
  then have "rfc (conn_updated_at c) @ json (conn_name c, conn_config c, conn_secrets c) =
      rfc (conn_updated_at c0) @ json (conn_name c0, conn_config c0, conn_secrets c0)"
    by - (rule sha, rule encode_hex_inj, simp add: connection_version_def)
  with rfc json show ?thesis by simp
qed

theorem edit_needs_current_version_witness:
  "let v = connection_version (\<lambda>x. x) (\<lambda>t. [0]) (\<lambda>x. [1]); c0 = hd (ix_connections (st_index mtls_example)) in
     (\<exists>c s'. rename_connection_inner v 5 7 (Some (v c0)) (ascii ''gl'') mtls_example = (Ok c, s')) \<and> conn_name c0 = ascii ''gh''"
proof -
  let ?v = "connection_version (\<lambda>x. x) (\<lambda>t. [0]) (\<lambda>x. [1])"
  define c where "c = hd (ix_connections (st_index mtls_example))"
  have c: "List.find (\<lambda>c. conn_id c = 7) (ix_connections (st_index mtls_example)) = Some c" "conn_name c = ascii ''gh''"
    by (simp_all add: c_def mtls_example_def new_connection_def)
  have u: "\<exists>d s'. rename_connection_inner ?v 5 7 (Some (?v c)) (ascii ''gl'') mtls_example = (Ok d, s')"
    by (simp add: rename_connection_inner_def c mtls_example_def new_connection_def default_index_def empty_store_def c_def
        validate_connection_name_def ensure_def connection_name_ok_def connection_name_char_def is_ascii_alphanumeric_def is_ascii_alphabetic_def
        utf8_len_def utf8_width_def commit_with_def commit_index_def persist_index_def Let_def)
  then have "\<not> is_err (fst (rename_connection_inner ?v 5 7 (Some (?v c)) (ascii ''gl'') mtls_example))" by auto
  from edit_needs_current_version [OF c(1) disjI2 [OF this]] u c(2) show ?thesis by (simp add: c_def Let_def)
qed

subsection \<open>Host keys\<close>

text \<open>
  A host key is pinned once: after the first pin every later attempt, whatever key it observed, is told
  the pinned key and changes nothing. \<open>fp_show\<close> and \<open>fp_parse\<close> are printing and parsing a fingerprint.
\<close>

theorem host_key_pinned_once:
  assumes p: "pin_ssh_host_key E i f s = (Ok (Pinned g), s')" and "fp_show E f \<noteq> []" "fp_parse E (fp_show E f) = Ok f"
  shows "g = f \<and> pin_ssh_host_key E i h s' = (Ok (AlreadyPinned f), s') \<and> st_disk s' = st_index s' \<and>
    filter (\<lambda>c. conn_id c \<noteq> i) (ix_connections (st_index s')) = filter (\<lambda>c. conn_id c \<noteq> i) (ix_connections (st_index s))"
proof -
  obtain c where c: "List.find (\<lambda>c. conn_id c = i) (ix_connections (st_index s)) = Some c"
    using p by (auto simp: pin_ssh_host_key_def split: option.splits)
  obtain k where k: "conn_config c = Ssh k" using p c by (cases "conn_config c") (auto simp: pin_ssh_host_key_def)
  let ?upd = "\<lambda>c. c\<lparr>conn_config := Ssh (k\<lparr>host_key_fingerprint := fp_show E f\<rparr>)\<rparr>"
  have "commit_with (Pinned f) ((st_index s)\<lparr>ix_connections := update_first (\<lambda>c. conn_id c = i) ?upd (ix_connections (st_index s))\<rparr>) s = (Inr (Pinned g), s')"
    using p c k by (auto simp: pin_ssh_host_key_def split: if_splits sum.splits)
  from commit_with_ok [OF this] have s': "g = f" "st_disk s' = st_index s'"
    "ix_connections (st_index s') = update_first (\<lambda>c. conn_id c = i) ?upd (ix_connections (st_index s))" by auto
  have "List.find (\<lambda>c. conn_id c = i) (ix_connections (st_index s')) = Some (?upd c)" unfolding s' by (subst find_update_first_same) (simp_all add: c)
  moreover have "filter (\<lambda>c. conn_id c \<noteq> i) (update_first (\<lambda>c. conn_id c = i) ?upd xs) = filter (\<lambda>c. conn_id c \<noteq> i) xs" for xs
    by (induction xs) auto
  ultimately show ?thesis using assms(2,3) s' by (simp add: pin_ssh_host_key_def)
qed

definition ssh_example :: "memory_vault store" where
  "ssh_example = empty_store\<lparr>st_index := default_index\<lparr>ix_connections :=
     [new_connection 7 0 (ascii ''box'')
       (Ssh \<lparr>destination = None, ssh_host = ascii ''h'', ssh_port = 22, ssh_user = ascii ''u'', host_key_fingerprint = []\<rparr>) []]\<rparr>\<rparr>"

theorem host_key_pinned_once_witness:
  "pin_ssh_host_key example_env 7 () (snd (pin_ssh_host_key example_env 7 () ssh_example)) =
     (Ok (AlreadyPinned ()), snd (pin_ssh_host_key example_env 7 () ssh_example))"
proof -
  have p: "pin_ssh_host_key example_env 7 () ssh_example = (Ok (Pinned ()), snd (pin_ssh_host_key example_env 7 () ssh_example))"
    by (simp add: pin_ssh_host_key_def ssh_example_def new_connection_def empty_store_def default_index_def commit_with_def commit_index_def
        persist_index_def Let_def)
  show ?thesis using host_key_pinned_once [OF p, of "()"] by (simp add: example_env_def)
qed

subsection \<open>A write that fails late\<close>

text \<open>
  When the index write fails after the file was replaced, adding a secret reports the failure and deletes
  the vault item, but the file lists the secret: after a restart the catalog has a secret without a value.
\<close>

lemma late_failure_loses_value:
  "let s = snd (add_credential memory_vault 1 2 0 example_credential (empty_store\<lparr>st_faults := [Some (IoError, True)]\<rparr>)) in
     map sm_id (ix_secrets (st_disk s)) = [1] \<and> v_get memory_vault 1 (st_vault s) = Return (Err SecretNotFound) \<and> ix_secrets (st_index s) = []"
  by (simp add: add_credential_def example_credential_def empty_store_def credential_profile_def default_index_def
      store_credential_def vault_set_def vault_delete_all_def vault_delete_def memory_vault_def memory_vault_set_def memory_vault_delete_def memory_vault_get_def
      persist_index_def is_valid_secret_name_def is_ascii_alphabetic_def is_ascii_alphanumeric_def utf8_len_def utf8_width_def Let_def)

end
