(* ===== verification/Redaction.thy ===== *)
theory Redaction
  imports Vault OnePassword "HOL-Library.Sublist"
begin

text \<open>
  The scrubbing of reflected credentials, from \<^verbatim>\<open>crates/aka-core/src/capability/http.rs\<close>: which strings are
  looked for (\<open>from_injection\<close>), the replacement in a whole body (\<open>apply_to_bytes\<close>), and the streaming relay
  (\<open>poll_relay\<close>) that holds back the end of each chunk. Text is rewritten, binary bodies are refused. The
  main result is that whatever the chunks, no credential occurs in what the relay has let through.
\<close>

subsection \<open>Strings\<close>

definition trim_start :: "ustring \<Rightarrow> ustring" where
  "trim_start s = dropWhile is_whitespace s"

definition split_once_by :: "(uchar \<Rightarrow> bool) \<Rightarrow> ustring \<Rightarrow> (ustring \<times> ustring) option" where
  "split_once_by p s = (if list_ex p s then Some (takeWhile (\<lambda>c. \<not> p c) s, tl (dropWhile (\<lambda>c. \<not> p c) s)) else None)"

definition is_ascii_whitespace :: "uchar \<Rightarrow> bool" where
  "is_ascii_whitespace c \<longleftrightarrow> c \<in> {32, 9, 10, 12, 13}"

text \<open>\<open>split_ascii_whitespace\<close>: the non-empty pieces.\<close>

fun split_pieces :: "(uchar \<Rightarrow> bool) \<Rightarrow> ustring \<Rightarrow> ustring \<Rightarrow> ustring list" where
  "split_pieces p acc [] = (if acc = [] then [] else [rev acc])"
| "split_pieces p acc (c # s) =
     (if p c then (if acc = [] then [] else [rev acc]) @ split_pieces p [] s else split_pieces p (c # acc) s)"

definition split_ascii_whitespace :: "ustring \<Rightarrow> ustring list" where
  "split_ascii_whitespace s = split_pieces is_ascii_whitespace [] s"

text \<open>What follows the last occurrence of a pattern: \<open>rsplit_once(pat)\<close>, second component.\<close>

fun after_last :: "ustring \<Rightarrow> ustring \<Rightarrow> ustring option" where
  "after_last pat [] = None"
| "after_last pat (c # s) =
     (case after_last pat s of
        Some t \<Rightarrow> Some t
      | None \<Rightarrow> if prefix pat (c # s) then Some (drop (length pat) (c # s)) else None)"

subsection \<open>The needles\<close>

text \<open>A header value is what \<open>to_str\<close> gives of it, if it is text.\<close>

record sigv4_credentials =
  sv_access_key :: ustring
  sv_secret_key :: ustring
  sv_session_token :: "ustring option"
  sv_region :: ustring
  sv_service :: ustring

datatype rendered_injection =
    InjectNone
  | InjectHeader ustring "ustring option"
  | InjectQuery ustring
  | InjectSigv4 sigv4_credentials

record redactions =
  needles :: "ustring list"
  fired :: bool

definition add_needle :: "ustring \<Rightarrow> redactions \<Rightarrow> redactions" where
  "add_needle v r = (if v = [] \<or> v \<in> set (needles r) then r else r\<lparr>needles := needles r @ [v]\<rparr>)"

definition add_component :: "ustring \<Rightarrow> redactions \<Rightarrow> redactions" where
  "add_component v r = (if utf8_len v \<ge> 4 then add_needle v r else r)"

definition add_signature :: "ustring \<Rightarrow> redactions \<Rightarrow> redactions" where
  "add_signature authorization r =
     (let r = add_needle authorization r in
      case after_last (ascii ''Signature='') authorization of Some sig \<Rightarrow> add_component sig r | None \<Rightarrow> r)"

definition no_redactions :: redactions where
  "no_redactions = \<lparr>needles = [], fired = False\<rparr>"

text \<open>The credential in a header value: what follows the scheme word.\<close>

definition header_credential :: "ustring \<Rightarrow> ustring" where
  "header_credential v = (case split_once_by is_ascii_whitespace v of Some (_, rest) \<Rightarrow> trim_start rest | None \<Rightarrow> v)"

text \<open>\<open>decode\<close> is percent-decoding followed by \<open>decode_utf8\<close>.\<close>

definition query_pair_needles :: "(ustring \<Rightarrow> ustring option) \<Rightarrow> redactions \<Rightarrow> ustring \<Rightarrow> redactions" where
  "query_pair_needles decode r pair =
     (case split_once_by (\<lambda>c. c = 61) pair of
        None \<Rightarrow> r
      | Some (_, v) \<Rightarrow>
          let r = add_component v r in
          (case decode v of Some d \<Rightarrow> add_component d r | None \<Rightarrow> r))"

definition from_injection :: "(ustring \<Rightarrow> ustring option) \<Rightarrow> rendered_injection \<Rightarrow> redactions" where
  "from_injection decode injection =
     (case injection of
        InjectNone \<Rightarrow> no_redactions
      | InjectHeader name v \<Rightarrow>
          (case v of
             None \<Rightarrow> no_redactions
           | Some v \<Rightarrow>
               let r = add_needle v no_redactions;
                   r = add_needle (name @ ascii '': '' @ v) r;
                   credential = header_credential v;
                   r = add_component credential r in
               foldl (\<lambda>r part. add_component part r) r (split_ascii_whitespace credential))
      | InjectQuery fragment \<Rightarrow>
          let r = add_needle fragment no_redactions;
              r = (case decode fragment of Some d \<Rightarrow> add_needle d r | None \<Rightarrow> r) in
          foldl (query_pair_needles decode) r (split_on 38 fragment)
      | InjectSigv4 c \<Rightarrow> (case sv_session_token c of Some t \<Rightarrow> add_component t no_redactions | None \<Rightarrow> no_redactions))"

subsection \<open>Whole bodies\<close>

definition MASK :: bytes where
  "MASK = as_bytes (ascii ''[REDACTED]'')"

definition needle_bytes :: "redactions \<Rightarrow> bytes list" where
  "needle_bytes r = map as_bytes (needles r)"

text \<open>One pass: the new bytes, and whether the needle was met.\<close>

function redact_pass :: "bytes \<Rightarrow> bytes \<Rightarrow> bytes \<times> bool" where
  "redact_pass n xs =
     (case xs of
        [] \<Rightarrow> ([], False)
      | x # rest \<Rightarrow>
          if n \<noteq> [] \<and> prefix n xs
          then (MASK @ fst (redact_pass n (drop (length n) xs)), True)
          else (x # fst (redact_pass n rest), snd (redact_pass n rest)))"
  by pat_completeness auto
termination by (relation "measure (\<lambda>(n, xs). length xs)") auto

declare redact_pass.simps [simp del]

definition apply_to_bytes :: "redactions \<Rightarrow> bytes \<Rightarrow> bytes \<times> redactions" where
  "apply_to_bytes r v =
     (case foldl (\<lambda>(out, hit) n. if n = [] then (out, hit) else (fst (redact_pass n out), hit \<or> snd (redact_pass n out)))
        (v, fired r) (needle_bytes r) of
        (out, hit) \<Rightarrow> (out, r\<lparr>fired := hit\<rparr>))"

definition contains_in_bytes :: "redactions \<Rightarrow> bytes \<Rightarrow> bool" where
  "contains_in_bytes r v \<longleftrightarrow> list_ex (\<lambda>n. n \<noteq> [] \<and> sublist n v) (needle_bytes r)"

datatype response_body_mode = TextBody | BinaryBody

definition BINARY_CREDENTIAL_REFUSAL :: ustring where
  "BINARY_CREDENTIAL_REFUSAL = ascii ''upstream binary response contained the injected credential; response refused''"

definition apply_to_response_body :: "redactions \<Rightarrow> response_body_mode \<Rightarrow> bytes \<Rightarrow> (ustring + bytes) \<times> redactions" where
  "apply_to_response_body r mode v =
     (case mode of
        TextBody \<Rightarrow> (case apply_to_bytes r v of (out, r) \<Rightarrow> (Ok out, r))
      | BinaryBody \<Rightarrow>
          if contains_in_bytes r v then (Err BINARY_CREDENTIAL_REFUSAL, r\<lparr>fired := True\<rparr>) else (Ok v, r))"

text \<open>\<open>media\<close> is the \<^verbatim>\<open>content-type\<close> header, if it is there and is text.\<close>

definition response_body_mode_of :: "ustring option \<Rightarrow> response_body_mode" where
  "response_body_mode_of media =
     (case media of
        None \<Rightarrow> BinaryBody
      | Some content_type \<Rightarrow>
          let m = to_ascii_lowercase (trim (takeWhile (\<lambda>c. c \<noteq> 59) content_type)) in
          if prefix (ascii ''text/'') m \<or> suffix (ascii ''+json'') m \<or> suffix (ascii ''+xml'') m \<or>
             m \<in> set [ascii ''application/json'', ascii ''application/xml'', ascii ''application/javascript'',
               ascii ''application/x-javascript'', ascii ''application/x-www-form-urlencoded'', ascii ''application/graphql'',
               ascii ''application/sql'', ascii ''application/yaml'', ascii ''application/x-yaml'', ascii ''application/toml'']
          then TextBody else BinaryBody)"

subsection \<open>Streams\<close>

definition max_needle_len :: "redactions \<Rightarrow> nat" where
  "max_needle_len r = foldr max (map length (needle_bytes r)) 0"

text \<open>
  The loop of \<open>split_redacted\<close> on what is left of the buffer: the scrubbed prefix, the tail, and whether a
  needle was met. \<open>hold\<close> is the number of bytes at the end that are not decided yet.
\<close>

function redact_scan :: "nat \<Rightarrow> bytes list \<Rightarrow> bytes \<Rightarrow> bytes \<times> bytes \<times> bool" where
  "redact_scan hold N xs =
     (case xs of
        [] \<Rightarrow> ([], [], False)
      | x # rest \<Rightarrow>
          (case List.find (\<lambda>n. n \<noteq> [] \<and> prefix n xs) N of
             Some n \<Rightarrow> (case redact_scan hold N (drop (length n) xs) of (out, tail, _) \<Rightarrow> (MASK @ out, tail, True))
           | None \<Rightarrow>
               if length xs \<le> hold then ([], xs, False)
               else (case redact_scan hold N rest of (out, tail, hit) \<Rightarrow> (x # out, tail, hit))))"
  by pat_completeness auto
termination by (relation "measure (\<lambda>(hold, N, xs). length xs)") (auto dest: find_SomeD)

declare redact_scan.simps [simp del]

definition split_redacted :: "redactions \<Rightarrow> bytes \<Rightarrow> (bytes \<times> bytes) \<times> redactions" where
  "split_redacted r buf =
     (let hold = max_needle_len r - 1 in
      if hold = 0 then ((buf, []), r)
      else case redact_scan hold (needle_bytes r) buf of (out, tail, hit) \<Rightarrow> ((out, tail), r\<lparr>fired := fired r \<or> hit\<rparr>))"

definition split_verified_binary :: "redactions \<Rightarrow> bytes \<Rightarrow> (ustring + bytes \<times> bytes) \<times> redactions" where
  "split_verified_binary r buf =
     (if contains_in_bytes r buf then (Err BINARY_CREDENTIAL_REFUSAL, r\<lparr>fired := True\<rparr>)
      else let hold = max_needle_len r - 1 in
        if hold = 0 then (Ok (buf, []), r)
        else let emit_through = length buf - hold in (Ok (take emit_through buf, drop emit_through buf), r))"

text \<open>What the upstream delivers, and what one poll of the relay gives.\<close>

datatype upstream_item = UpChunk bytes | UpError ustring

datatype stream_finish = StreamComplete | StreamUpstreamError ustring | RefusedBinaryCredential | ConsumerDropped

datatype relay_poll = Emit bytes | EmitError ustring | Ended

record relay =
  rl_red :: redactions
  rl_carry :: bytes
  rl_stopped :: bool
  rl_bytes :: nat
  rl_reason :: stream_finish

definition new_relay :: "redactions \<Rightarrow> relay" where
  "new_relay r = \<lparr>rl_red = r, rl_carry = [], rl_stopped = False, rl_bytes = 0, rl_reason = ConsumerDropped\<rparr>"

definition split_chunk :: "response_body_mode \<Rightarrow> redactions \<Rightarrow> bytes \<Rightarrow> (ustring + bytes \<times> bytes) \<times> redactions" where
  "split_chunk mode r buf =
     (case mode of
        TextBody \<Rightarrow> (case split_redacted r buf of (parts, r) \<Rightarrow> (Ok parts, r))
      | BinaryBody \<Rightarrow> split_verified_binary r buf)"

fun poll_items :: "response_body_mode \<Rightarrow> upstream_item list \<Rightarrow> relay \<Rightarrow> relay_poll \<times> upstream_item list \<times> relay" where
  "poll_items mode [] s =
     (if rl_carry s = [] then (Ended, [], s\<lparr>rl_reason := StreamComplete\<rparr>)
      else (case apply_to_response_body (rl_red s) mode (rl_carry s) of
              (Inl e, r) \<Rightarrow> (EmitError e, [], s\<lparr>rl_red := r, rl_carry := [], rl_stopped := True, rl_reason := RefusedBinaryCredential\<rparr>)
            | (Inr tail, r) \<Rightarrow> (Emit tail, [], s\<lparr>rl_red := r, rl_carry := []\<rparr>)))"
| "poll_items mode (UpError e # items) s = (EmitError e, items, s\<lparr>rl_stopped := True, rl_reason := StreamUpstreamError e\<rparr>)"
| "poll_items mode (UpChunk c # items) s =
     (let s = s\<lparr>rl_bytes := min (2 ^ 64 - 1) (rl_bytes s + length c)\<rparr> in
      case split_chunk mode (rl_red s) (rl_carry s @ c) of
        (Inl e, r) \<Rightarrow> (EmitError e, items, s\<lparr>rl_red := r, rl_carry := [], rl_stopped := True, rl_reason := RefusedBinaryCredential\<rparr>)
      | (Inr (emit, held), r) \<Rightarrow>
          if emit = [] then poll_items mode items (s\<lparr>rl_red := r, rl_carry := held\<rparr>)
          else (Emit emit, items, s\<lparr>rl_red := r, rl_carry := held\<rparr>))"

definition poll_relay :: "response_body_mode \<Rightarrow> upstream_item list \<Rightarrow> relay \<Rightarrow> relay_poll \<times> upstream_item list \<times> relay" where
  "poll_relay mode items s = (if rl_stopped s then (Ended, items, s) else poll_items mode items s)"

lemma poll_items_emit:
  "poll_items mode items s = (Emit b, items', s') \<Longrightarrow>
     length items' < length items \<or> items = [] \<and> items' = [] \<and> rl_carry s \<noteq> [] \<and> rl_carry s' = []"
proof (induction items arbitrary: s)
  case Nil
  then show ?case by (auto split: if_splits prod.splits sum.splits)
next
  case (Cons it items)
  show ?case
  proof (cases it)
    case (UpChunk c)
    then show ?thesis using Cons.prems Cons.IH
      by (auto simp: Let_def split: prod.splits sum.splits if_splits dest!: Cons.IH)
  qed (use Cons.prems in simp)
qed

text \<open>Everything a consumer receives that polls until the end or an error.\<close>

function relay_output :: "response_body_mode \<Rightarrow> upstream_item list \<Rightarrow> relay \<Rightarrow> bytes list \<times> relay" where
  "relay_output mode items s =
     (case poll_relay mode items s of
        (Emit b, items', s') \<Rightarrow> (case relay_output mode items' s' of (bs, t) \<Rightarrow> (b # bs, t))
      | (EmitError _, _, s') \<Rightarrow> ([], s')
      | (Ended, _, s') \<Rightarrow> ([], s'))"
  by pat_completeness auto
termination
  by (relation "measure (\<lambda>(mode, items, s). 2 * length items + (if rl_carry s = [] then 0 else 1))")
    (auto simp: poll_relay_def split: if_splits dest!: poll_items_emit [OF sym])

declare relay_output.simps [simp del]

subsection \<open>Occurrences\<close>

text \<open>No occurrence of a needle in \<open>p @ xs\<close> starts in \<open>p\<close>.\<close>

definition free :: "bytes \<Rightarrow> bytes \<Rightarrow> bytes \<Rightarrow> bool" where
  "free n p xs \<longleftrightarrow> (\<forall>k < length p. \<not> prefix n (drop k (p @ xs)))"

text \<open>The needle neither contains the mask, nor is part of it, nor can overlap it.\<close>

definition mask_free :: "bytes \<Rightarrow> bool" where
  "mask_free n \<longleftrightarrow> n \<noteq> [] \<and> \<not> sublist MASK n \<and> \<not> sublist n MASK \<and>
     list_all (\<lambda>j. \<not> prefix (drop j MASK) n \<and> \<not> suffix (take (Suc j) MASK) n) [0..<10]"

lemma length_MASK [simp]: "length MASK = 10"
  by (simp add: MASK_def as_bytes_def utf8_char_def)

lemma mask_freeD:
  assumes "mask_free n"
  shows "n \<noteq> []" "\<not> sublist MASK n" "\<not> sublist n MASK" "j < 10 \<Longrightarrow> \<not> prefix (drop j MASK) n" "j < 10 \<Longrightarrow> \<not> suffix (take (Suc j) MASK) n"
  using assms by (auto simp: mask_free_def list_all_iff)

lemma prefix_drop_sublist: "prefix n (drop k xs) \<Longrightarrow> sublist n xs"
  by (metis append_take_drop_id prefix_def sublist_def)

lemma free_sublist: "n \<noteq> [] \<Longrightarrow> sublist n xs \<longleftrightarrow> \<not> free n xs []"
proof
  assume "n \<noteq> []" "sublist n xs"
  then obtain a b where "xs = a @ n @ b" by (auto simp: sublist_def)
  then have "length a < length xs" "prefix n (drop (length a) (xs @ []))" using \<open>n \<noteq> []\<close> by simp_all
  then show "\<not> free n xs []" by (auto simp: free_def)
next
  assume "\<not> free n xs []"
  then obtain k where "prefix n (drop k xs)" by (auto simp: free_def)
  then show "sublist n xs" by (rule prefix_drop_sublist)
qed

lemma prefix_mask:
  assumes "mask_free n" and "prefix n (u @ MASK @ z)"
  shows "prefix n u"
proof (rule ccontr)
  assume "\<not> prefix n u"
  with assms(2) obtain us where us: "n = u @ us" "prefix us (MASK @ z)" "us \<noteq> []" by (auto simp: prefix_append)
  from us(2) consider "prefix us MASK" | vs where "us = MASK @ vs" by (auto simp: prefix_append)
  then show False
  proof cases
    case 1
    then obtain zs where "MASK = us @ zs" by (auto elim: prefixE)
    then have "us = take (length us) MASK" by (metis append_eq_conv_conj)
    moreover have "length us \<le> 10" using prefix_length_le [OF 1] by simp
    moreover obtain j where "length us = Suc j" using us(3) by (cases us) auto
    ultimately have "suffix (take (Suc j) MASK) n" "j < 10" using us(1) by (auto simp: suffix_def)
    with mask_freeD(5) [OF assms(1)] show False by blast
  next
    case 2
    with us(1) have "sublist MASK n" by (auto simp: sublist_def)
    with mask_freeD(2) [OF assms(1)] show False by blast
  qed
qed

lemma no_prefix_in_mask:
  assumes "mask_free n" and "j < 10"
  shows "\<not> prefix n (drop j MASK @ z)"
proof
  assume "prefix n (drop j MASK @ z)"
  then consider "prefix n (drop j MASK)" | "prefix (drop j MASK) n" by (auto simp: prefix_append)
  then show False
  proof cases
    case 1
    then have "sublist n MASK" by (rule prefix_drop_sublist)
    with mask_freeD(3) [OF assms(1)] show False by blast
  qed (use mask_freeD(4) [OF assms] in blast)
qed

lemma free_mask:
  assumes "mask_free n" and "free n p x"
  shows "free n (p @ MASK) c"
  unfolding free_def
proof (intro allI impI)
  fix k assume k: "k < length (p @ MASK)"
  show "\<not> prefix n (drop k ((p @ MASK) @ c))"
  proof (cases "k < length p")
    case True
    show ?thesis
    proof
      assume "prefix n (drop k ((p @ MASK) @ c))"
      moreover have "drop k ((p @ MASK) @ c) = drop k p @ MASK @ c" using True by simp
      ultimately have "prefix n (drop k p)" using prefix_mask [OF assms(1)] by metis
      then have "prefix n (drop k (p @ x))" using True by (simp add: prefix_append)
      with assms(2) True show False by (auto simp: free_def)
    qed
  next
    case False
    with k no_prefix_in_mask [OF assms(1), of "k - length p" c] show ?thesis by simp
  qed
qed

lemma free_literal:
  assumes "free n p (b # c)" and "\<not> prefix n (b # c)"
  shows "free n (p @ [b]) c"
  using assms by (auto simp: free_def less_Suc_eq)


subsection \<open>Passes\<close>

lemma redact_pass_Nil [simp]: "redact_pass n [] = ([], False)"
  by (simp add: redact_pass.simps)

lemma redact_pass_hit: "n \<noteq> [] \<and> prefix n xs \<Longrightarrow> redact_pass n xs = (MASK @ fst (redact_pass n (drop (length n) xs)), True)"
  by (subst redact_pass.simps) (auto split: list.split)

lemma redact_pass_miss: "\<not> (n \<noteq> [] \<and> prefix n (b # c)) \<Longrightarrow> redact_pass n (b # c) = (b # fst (redact_pass n c), snd (redact_pass n c))"
  by (subst redact_pass.simps) (simp only: list.case if_False)

lemma redact_pass_keeps_free:
  assumes "mask_free n" and "\<And>k. k < length p \<Longrightarrow> \<not> prefix n (drop k (p @ q @ xs))" and "k < length p"
  shows "\<not> prefix n (drop k (p @ q @ fst (redact_pass m xs)))"
  using assms(2)
proof (induction m xs arbitrary: q rule: redact_pass.induct)
  case (1 m xs)
  show ?case
  proof (cases xs)
    case Nil
    then show ?thesis using "1.prems" assms(3) by simp
  next
    case (Cons b c)
    show ?thesis
    proof (cases "m \<noteq> [] \<and> prefix m xs")
      case True
      have "drop k (p @ q @ MASK @ z) = drop k (p @ q) @ MASK @ z" for z using assms(3) by simp
      moreover have "\<not> prefix n (drop k (p @ q))" using "1.prems" [OF assms(3)] assms(3) by (auto simp: prefix_append)
      ultimately show ?thesis using True Cons prefix_mask [OF assms(1)] unfolding redact_pass_hit [OF True] fst_conv by metis
    next
      case False
      from "1.IH"(2) [OF Cons False, of "q @ [b]"] "1.prems" False show ?thesis unfolding Cons by (simp add: redact_pass_miss)
    qed
  qed
qed

lemma redact_pass_clean:
  "mask_free n \<Longrightarrow> free n p xs \<Longrightarrow> free n (p @ fst (redact_pass n xs)) []"
proof (induction n xs arbitrary: p rule: redact_pass.induct)
  case (1 n xs)
  show ?case
  proof (cases xs)
    case (Cons b c)
    show ?thesis
    proof (cases "prefix n xs")
      case True
      then have m: "n \<noteq> [] \<and> prefix n xs" using mask_freeD(1) [OF "1.prems"(1)] by simp
      from "1.IH"(1) [OF Cons m "1.prems"(1) free_mask [OF "1.prems"]] show ?thesis by (simp only: redact_pass_hit [OF m]) simp
    next
      case False
      then have m: "\<not> (n \<noteq> [] \<and> prefix n xs)" by simp
      have "free n (p @ [b]) c" using "1.prems"(2) False Cons by (auto intro: free_literal)
      from "1.IH"(2) [OF Cons m "1.prems"(1) this] m show ?thesis unfolding Cons by (simp add: redact_pass_miss)
    qed
  qed (use "1.prems" in simp)
qed

lemma free_join:
  assumes "mask_free n" "free n p []" "free n xs []"
  shows "free n (p @ MASK @ xs) []"
  unfolding free_def
proof (intro allI impI)
  fix k assume k: "k < length (p @ MASK @ xs)"
  have "free n (p @ MASK) xs" by (rule free_mask [OF assms(1,2)])
  moreover have "drop k (p @ MASK @ xs) = drop (k - length p - 10) xs" if "\<not> k < length (p @ MASK)" using that by simp
  ultimately show "\<not> prefix n (drop k ((p @ MASK @ xs) @ []))"
    using k assms(3) by (cases "k < length (p @ MASK)") (auto simp: free_def)
qed

lemma free_suffix: "free n (p @ xs) [] \<Longrightarrow> free n xs []"
  unfolding free_def by (auto dest: spec [where x = "length p + k" for k])

lemma redact_pass_stays_clean:
  "mask_free n \<Longrightarrow> free n (p @ xs) [] \<Longrightarrow> free n (p @ fst (redact_pass m xs)) []"
proof (induction m xs arbitrary: p rule: redact_pass.induct)
  case (1 m xs)
  show ?case
  proof (cases xs)
    case (Cons b c)
    show ?thesis
    proof (cases "m \<noteq> [] \<and> prefix m xs")
      case True
      then obtain z where z: "xs = m @ z" by (auto simp: prefix_def)
      have "free n z []" using "1.prems"(2) free_suffix [of n "p @ m" z] z by simp
      then have "free n ([] @ fst (redact_pass m (drop (length m) xs))) []" using "1.IH"(1) [OF Cons True "1.prems"(1), of "[]"] z by simp
      moreover have "free n p []" using "1.prems"(2) by (auto simp: free_def prefix_append)
      ultimately show ?thesis using free_join [OF "1.prems"(1)] by (simp only: redact_pass_hit [OF True]) simp
    next
      case False
      from "1.IH"(2) [OF Cons False "1.prems"(1), of "p @ [b]"] "1.prems"(2) False show ?thesis unfolding Cons by (simp add: redact_pass_miss)
    qed
  qed (use "1.prems" in simp)
qed

text \<open>All passes, behind a text \<open>p\<close> that is already out.\<close>

lemma redact_passes_clean:
  assumes "\<And>n. n \<in> set N \<Longrightarrow> mask_free n" "\<And>n. n \<in> set N \<Longrightarrow> free n p xs" "\<And>n. n \<in> D \<Longrightarrow> mask_free n \<and> free n (p @ xs) []"
    and "foldl (\<lambda>(out, hit) n. if n = [] then (out, hit) else (fst (redact_pass n out), hit \<or> snd (redact_pass n out))) (xs, h) N = (out, h')"
  shows "\<forall>n \<in> D \<union> set N. free n (p @ out) []"
  using assms
proof (induction N arbitrary: xs h D)
  case (Cons m N)
  have m: "mask_free m" using Cons.prems(1) by simp
  have "\<forall>n \<in> insert m D \<union> set N. free n (p @ out) []"
  proof (rule Cons.IH)
    show "foldl (\<lambda>(out, hit) n. if n = [] then (out, hit) else (fst (redact_pass n out), hit \<or> snd (redact_pass n out)))
        (fst (redact_pass m xs), h \<or> snd (redact_pass m xs)) N = (out, h')" using Cons.prems(4) mask_freeD(1) [OF m] by simp
  next
    fix n assume "n \<in> set N"
    with Cons.prems(1,2) have n: "mask_free n" "\<And>k. k < length p \<Longrightarrow> \<not> prefix n (drop k (p @ [] @ xs))" by (auto simp: free_def)
    show "free n p (fst (redact_pass m xs))" using redact_pass_keeps_free [where q = "[]", OF n] by (simp add: free_def)
  next
    fix n assume "n \<in> insert m D"
    then show "mask_free n \<and> free n (p @ fst (redact_pass m xs)) []"
      using m redact_pass_clean [OF m Cons.prems(2)] redact_pass_stays_clean Cons.prems(3) by auto
  qed (use Cons.prems(1) in simp)
  then show ?case by simp
qed auto

subsection \<open>Scanning\<close>

lemma redact_scan_Nil [simp]: "redact_scan hold N [] = ([], [], False)"
  by (subst redact_scan.simps) simp

lemma redact_scan_hit:
  assumes "List.find (\<lambda>n. n \<noteq> [] \<and> prefix n xs) N = Some n" "xs \<noteq> []"
  shows "redact_scan hold N xs = (case redact_scan hold N (drop (length n) xs) of (out, tail, _) \<Rightarrow> (MASK @ out, tail, True))"
  using assms by (cases xs) (simp_all add: redact_scan.simps [of hold N "x # y" for x y])

lemma redact_scan_miss:
  assumes "List.find (\<lambda>n. n \<noteq> [] \<and> prefix n (b # c)) N = None"
  shows "redact_scan hold N (b # c) =
    (if length (b # c) \<le> hold then ([], b # c, False) else case redact_scan hold N c of (out, tail, hit) \<Rightarrow> (b # out, tail, hit))"
  using assms by (subst redact_scan.simps) simp

text \<open>Whatever bytes follow: no occurrence starts in what is out.\<close>

definition clear :: "bytes \<Rightarrow> bytes \<Rightarrow> bytes \<Rightarrow> bool" where
  "clear n p xs \<longleftrightarrow> (\<forall>f. free n p (xs @ f))"

lemma clear_free: "clear n p xs \<Longrightarrow> free n p xs"
  by (metis append_Nil2 clear_def)

lemma clear_more: "clear n p xs \<Longrightarrow> clear n p (xs @ ys)"
  by (simp add: clear_def)

lemma clear_out: "clear n p xs \<Longrightarrow> free n p []"
  unfolding clear_def free_def by (metis append_Nil2 drop_append prefix_append)

lemma redact_scan_clear:
  assumes "n \<in> set N" "mask_free n" "length n \<le> Suc hold"
  shows "redact_scan hold N xs = (out, tail, hit) \<Longrightarrow> clear n p xs \<Longrightarrow> clear n (p @ out) tail"
  using assms
proof (induction hold N xs arbitrary: p out hit rule: redact_scan.induct)
  case (1 hold N xs)
  note prems = "1.prems"
  show ?case
  proof (cases xs)
    case (Cons b c)
    show ?thesis
    proof (cases "List.find (\<lambda>n. n \<noteq> [] \<and> prefix n xs) N")
      case (Some m)
      then obtain o1 h1 where o: "redact_scan hold N (drop (length m) xs) = (o1, tail, h1)" "out = MASK @ o1"
        using prems(1) redact_scan_hit [OF Some] Cons by (auto split: prod.splits)
      have "clear n (p @ MASK) (drop (length m) xs)"
        using free_mask [OF prems(4) clear_free [OF prems(2)]] by (simp add: clear_def)
      from "1.IH"(2) [OF Cons Some o(1) this prems(3-5)] show ?thesis by (simp add: o(2))
    next
      case None
      show ?thesis
      proof (cases "length xs \<le> hold")
        case True
        then show ?thesis using prems(1,2) None Cons by (simp add: redact_scan_miss)
      next
        case False
        then obtain o1 h1 where o: "redact_scan hold N c = (o1, tail, h1)" "out = b # o1"
          using prems(1) None Cons by (auto simp: redact_scan_miss split: prod.splits)
        have "\<not> prefix n (b # c)" using None prems(3) mask_freeD(1) [OF prems(4)] Cons by (auto simp: find_None_iff)
        then have "\<not> prefix n (b # c @ f)" for f
          using False Cons prems(5) prefix_length_prefix [of n "b # c @ f" "b # c"] by auto
        then have "free n (p @ [b]) (c @ f)" for f
          using prems(2) Cons by (intro free_literal) (simp_all add: clear_def)
        then have "clear n (p @ [b]) c" by (simp add: clear_def)
        from "1.IH"(1) [OF Cons None False o(1) this prems(3-5)] show ?thesis by (simp add: o(2))
      qed
    qed
  qed (use prems in simp)
qed

subsection \<open>Bounds on the needles\<close>

lemma needle_len: "n \<in> set (needle_bytes r) \<Longrightarrow> length n \<le> max_needle_len r"
proof -
  have "n \<in> set xs \<Longrightarrow> length n \<le> foldr max (map length xs) 0" for xs :: "bytes list" by (induction xs) auto
  then show "n \<in> set (needle_bytes r) \<Longrightarrow> length n \<le> max_needle_len r" by (simp add: max_needle_len_def)
qed

lemma needles_kept [simp]:
  "needles (snd (apply_to_bytes r v)) = needles r" "needles (snd (apply_to_response_body r mode v)) = needles r"
  "needles (snd (split_redacted r v)) = needles r" "needles (snd (split_verified_binary r v)) = needles r"
  "needles (snd (split_chunk mode r v)) = needles r"
  by (simp_all add: apply_to_bytes_def apply_to_response_body_def split_redacted_def split_verified_binary_def split_chunk_def Let_def
      split: prod.splits response_body_mode.split)

lemma same_needles: "needles r = needles r' \<Longrightarrow> needle_bytes r = needle_bytes r' \<and> max_needle_len r = max_needle_len r'"
  by (simp add: needle_bytes_def max_needle_len_def)

lemma apply_to_bytes_clean:
  assumes "\<And>n. n \<in> set (needle_bytes r) \<Longrightarrow> mask_free n \<and> clear n p xs" "apply_to_bytes r xs = (out, r')" "n \<in> set (needle_bytes r)"
  shows "free n (p @ out) []"
proof -
  obtain h where "foldl (\<lambda>(out, hit) n. if n = [] then (out, hit) else (fst (redact_pass n out), hit \<or> snd (redact_pass n out)))
      (xs, fired r) (needle_bytes r) = (out, h)"
    using assms(2) by (auto simp: apply_to_bytes_def split: prod.splits)
  from redact_passes_clean [OF _ _ _ this, of p "{}"] assms(1,3) clear_free show ?thesis by auto
qed

lemma split_redacted_clear:
  assumes "split_redacted r xs = ((out, tail), r')" "\<And>n. n \<in> set (needle_bytes r) \<Longrightarrow> mask_free n \<and> clear n p xs" "max_needle_len r \<noteq> 1"
    and n: "n \<in> set (needle_bytes r)"
  shows "clear n (p @ out) tail"
proof -
  have "max_needle_len r - 1 \<noteq> 0" using assms(3) needle_len [OF n] mask_freeD(1) [of n] assms(2) [OF n] by (cases n) auto
  then obtain h where "redact_scan (max_needle_len r - 1) (needle_bytes r) xs = (out, tail, h)"
    using assms(1) by (auto simp: split_redacted_def Let_def split: prod.splits)
  moreover have "length n \<le> Suc (max_needle_len r - 1)" using needle_len [OF n] by simp
  ultimately show ?thesis using redact_scan_clear [OF n] assms(2) [OF n] by blast
qed

text \<open>One poll: \<open>p\<close> is what earlier polls let through.\<close>

lemma poll_text_clear:
  assumes "poll_items TextBody items s = (q, items', s')" "max_needle_len (rl_red s) \<noteq> 1"
    "\<And>n. n \<in> set (needle_bytes (rl_red s)) \<Longrightarrow> mask_free n \<and> clear n p (rl_carry s)"
  shows "needles (rl_red s') = needles (rl_red s) \<and>
    (\<forall>b. q = Emit b \<longrightarrow> (\<forall>n \<in> set (needle_bytes (rl_red s)). free n (p @ b) [] \<and> (items' = [] \<and> rl_carry s' = [] \<or> clear n (p @ b) (rl_carry s'))))"
  using assms
proof (induction items arbitrary: s)
  case Nil
  obtain out r where a: "apply_to_bytes (rl_red s) (rl_carry s) = (out, r)" by force
  have "needles r = needles (rl_red s)" using needles_kept(1) [of "rl_red s" "rl_carry s"] a by simp
  moreover have "free n (p @ out) []" if "n \<in> set (needle_bytes (rl_red s))" for n
    using apply_to_bytes_clean [OF Nil.prems(3) a that] by blast
  ultimately show ?case using Nil.prems(1) a by (auto simp: apply_to_response_body_def split: if_splits)
next
  case (Cons it items)
  show ?case
  proof (cases it)
    case (UpChunk c)
  let ?s = "s\<lparr>rl_bytes := min (2 ^ 64 - 1) (rl_bytes s + length c)\<rparr>"
  obtain emit held r where sp: "split_redacted (rl_red s) (rl_carry s @ c) = ((emit, held), r)" by (metis surj_pair)
  then have chunk: "split_chunk TextBody (rl_red ?s) (rl_carry ?s @ c) = (Inr (emit, held), r)" by (simp add: split_chunk_def)
  have r: "needles r = needles (rl_red s)" using needles_kept(3) [of "rl_red s" "rl_carry s @ c"] sp by simp
  have cl: "clear n (p @ emit) held" if "n \<in> set (needle_bytes (rl_red s))" for n
    using split_redacted_clear [OF sp _ Cons.prems(2) that] Cons.prems(3) clear_more by blast
  show ?thesis
  proof (cases "emit = []")
    case True
    have "poll_items TextBody items (?s\<lparr>rl_red := r, rl_carry := held\<rparr>) = (q, items', s')"
      using Cons.prems(1) chunk True UpChunk by (simp add: Let_def)
    from Cons.IH [OF this] show ?thesis using same_needles [OF r] r Cons.prems(2,3) cl True by simp
  next
    case False
    then have "q = Emit emit \<and> s' = ?s\<lparr>rl_red := r, rl_carry := held\<rparr>" using Cons.prems(1) chunk UpChunk by (simp add: Let_def)
    then show ?thesis using r cl clear_out by auto
  qed
  qed (use Cons.prems in auto)
qed

subsection \<open>The relay\<close>

lemma relay_output_unfold:
  "relay_output mode items s =
     (case poll_relay mode items s of
        (Emit b, items', s') \<Rightarrow> (case relay_output mode items' s' of (bs, t) \<Rightarrow> (b # bs, t))
      | (_, _, s') \<Rightarrow> ([], s'))"
  by (subst relay_output.simps) (simp split: relay_poll.split prod.split)

lemma relay_output_end [simp]: "rl_carry s = [] \<Longrightarrow> fst (relay_output mode [] s) = []"
  by (simp add: relay_output_unfold poll_relay_def)

lemma relay_text_clean:
  assumes "max_needle_len (rl_red s) \<noteq> 1" "\<And>n. n \<in> set (needle_bytes (rl_red s)) \<Longrightarrow> mask_free n \<and> clear n p (rl_carry s)"
    and "n \<in> set (needle_bytes (rl_red s))"
  shows "free n (p @ concat (fst (relay_output TextBody items s))) []"
  using assms
proof (induction "TextBody" items s arbitrary: p rule: relay_output.induct)
  case (1 items s)
  obtain q items' s' where poll: "poll_relay TextBody items s = (q, items', s')" by (metis surj_pair)
  show ?case
  proof (cases "\<exists>b. q = Emit b")
    case True
    then obtain b where b: "q = Emit b" by blast
    with poll have "poll_items TextBody items s = (Emit b, items', s')" by (auto simp: poll_relay_def split: if_splits)
    from poll_text_clear [OF this "1.prems"(1,2)]
    have r: "needles (rl_red s') = needles (rl_red s)"
      and cl: "\<And>n. n \<in> set (needle_bytes (rl_red s)) \<Longrightarrow> free n (p @ b) [] \<and> (items' = [] \<and> rl_carry s' = [] \<or> clear n (p @ b) (rl_carry s'))"
      by auto
    have out: "fst (relay_output TextBody items s) = b # fst (relay_output TextBody items' s')"
      using poll b by (simp add: relay_output_unfold [of TextBody items s] split: prod.split)
    show ?thesis
    proof (cases "items' = [] \<and> rl_carry s' = []")
      case True
      then show ?thesis using cl [OF "1.prems"(3)] out by simp
    next
      case False
      have "free n ((p @ b) @ concat (fst (relay_output TextBody items' s'))) []"
        by (rule "1.hyps" [OF poll [symmetric] _ refl]) (use b same_needles [OF r] "1.prems" cl False in auto)
      then show ?thesis using out by simp
    qed
  next
    case False
    then have "fst (relay_output TextBody items s) = []"
      using poll by (simp add: relay_output_unfold [of TextBody items s] split: relay_poll.split)
    then show ?thesis using clear_out [of n p "rl_carry s"] "1.prems"(2) [OF "1.prems"(3)] by simp
  qed
qed

subsection \<open>Bodies without a credential\<close>

lemma redact_pass_absent: "\<not> sublist n xs \<Longrightarrow> redact_pass n xs = (xs, False)"
proof (induction n xs rule: redact_pass.induct)
  case (1 n xs)
  show ?case
  proof (cases xs)
    case (Cons b c)
    have m: "\<not> (n \<noteq> [] \<and> prefix n (b # c))" using "1.prems" Cons by auto
    moreover have "\<not> sublist n c" using "1.prems" Cons by (auto simp: sublist_Cons_right)
    ultimately show ?thesis using "1.IH"(2) [OF Cons] Cons by (simp add: redact_pass_miss)
  qed simp
qed

lemma apply_absent:
  assumes "\<not> contains_in_bytes r xs"
  shows "apply_to_response_body r mode xs = (Ok xs, r)"
proof -
  have "foldl (\<lambda>(out, hit) n. if n = [] then (out, hit) else (fst (redact_pass n out), hit \<or> snd (redact_pass n out))) (xs, h) N = (xs, h)"
    if "\<forall>n \<in> set N. n = [] \<or> \<not> sublist n xs" for N h
    using that by (induction N) (auto simp: redact_pass_absent)
  moreover have "\<forall>n \<in> set (needle_bytes r). n = [] \<or> \<not> sublist n xs"
    using assms by (auto simp: contains_in_bytes_def list_ex_iff)
  ultimately show ?thesis using assms by (cases mode) (simp_all add: apply_to_response_body_def apply_to_bytes_def)
qed

lemma redact_scan_absent:
  "\<forall>n \<in> set N. n = [] \<or> \<not> sublist n xs \<Longrightarrow> \<exists>out tail. redact_scan hold N xs = (out, tail, False) \<and> out @ tail = xs"
proof (induction hold N xs rule: redact_scan.induct)
  case (1 hold N xs)
  show ?case
  proof (cases xs)
    case (Cons b c)
    have none: "List.find (\<lambda>n. n \<noteq> [] \<and> prefix n xs) N = None" using "1.prems" by (auto simp: find_None_iff)
    have "\<forall>n \<in> set N. n = [] \<or> \<not> sublist n c" using "1.prems" Cons by (auto simp: sublist_Cons_right)
    with "1.IH"(1) [OF Cons none] none Cons show ?thesis by (cases "length xs \<le> hold") (auto simp: redact_scan_miss)
  qed simp
qed

lemma split_chunk_absent:
  assumes "\<not> contains_in_bytes r xs"
  shows "\<exists>out tail. split_chunk mode r xs = (Inr (out, tail), r) \<and> out @ tail = xs"
proof (cases mode)
  case TextBody
  have "\<forall>n \<in> set (needle_bytes r). n = [] \<or> \<not> sublist n xs" using assms by (auto simp: contains_in_bytes_def list_ex_iff)
  from redact_scan_absent [OF this, of "max_needle_len r - 1"] TextBody show ?thesis
    by (auto simp: split_chunk_def split_redacted_def Let_def)
qed (use assms in \<open>auto simp: split_chunk_def split_verified_binary_def Let_def\<close>)

lemma contains_more: "contains_in_bytes r xs \<Longrightarrow> contains_in_bytes r (p @ xs @ q)"
  unfolding contains_in_bytes_def list_ex_iff using sublist_append_leftI sublist_append_rightI sublist_appendI by (metis sublist_def append.assoc)

text \<open>The bytes the upstream still delivers.\<close>

definition remaining :: "upstream_item list \<Rightarrow> bytes" where
  "remaining items = concat (map (\<lambda>it. case it of UpChunk c \<Rightarrow> c | UpError _ \<Rightarrow> []) items)"

definition no_errors :: "upstream_item list \<Rightarrow> bool" where
  "no_errors items \<longleftrightarrow> list_all (\<lambda>it. case it of UpChunk _ \<Rightarrow> True | UpError _ \<Rightarrow> False) items"

lemma poll_absent:
  "no_errors items \<Longrightarrow> \<not> contains_in_bytes (rl_red s) (rl_carry s @ remaining items) \<Longrightarrow> poll_items mode items s = (q, items', s') \<Longrightarrow>
     (case q of
        Emit b \<Rightarrow> b @ rl_carry s' @ remaining items' = rl_carry s @ remaining items \<and> no_errors items' \<and> rl_red s' = rl_red s \<and> rl_stopped s' = rl_stopped s
      | EmitError _ \<Rightarrow> False
      | Ended \<Rightarrow> rl_carry s @ remaining items = [] \<and> rl_reason s' = StreamComplete)"
proof (induction items arbitrary: s)
  case Nil
  then show ?case by (auto simp: apply_absent remaining_def split: if_splits)
next
  case (Cons it items)
  then obtain c where c: "it = UpChunk c" by (cases it) (simp_all add: no_errors_def)
  have rem: "remaining (it # items) = c @ remaining items" by (simp add: remaining_def c)
  have "\<not> contains_in_bytes (rl_red s) (rl_carry s @ c)"
    using Cons.prems(2) contains_more [of "rl_red s" "rl_carry s @ c" "[]"] by (auto simp: rem)
  from split_chunk_absent [OF this, of mode] obtain out tail where
    sp: "split_chunk mode (rl_red s) (rl_carry s @ c) = (Inr (out, tail), rl_red s)" "out @ tail = rl_carry s @ c" by auto
  let ?s = "s\<lparr>rl_bytes := min (2 ^ 64 - 1) (rl_bytes s + length c), rl_carry := tail\<rparr>"
  show ?case
  proof (cases "out = []")
    case True
    then have "poll_items mode items ?s = (q, items', s')" using Cons.prems(3) sp by (simp add: c Let_def)
    moreover have "\<not> contains_in_bytes (rl_red ?s) (rl_carry ?s @ remaining items)" using Cons.prems(2) sp True by (simp add: rem)
    ultimately show ?thesis using Cons.IH [of ?s] Cons.prems(1) sp True by (simp add: no_errors_def rem split: relay_poll.splits)
  next
    case False
    then have "q = Emit out \<and> items' = items \<and> s' = ?s" using Cons.prems(3) sp by (simp add: c Let_def)
    then show ?thesis using sp Cons.prems(1) by (simp add: rem no_errors_def)
  qed
qed

lemma relay_absent:
  assumes "no_errors items" "\<not> contains_in_bytes (rl_red s) (rl_carry s @ remaining items)" "\<not> rl_stopped s"
  shows "concat (fst (relay_output mode items s)) = rl_carry s @ remaining items \<and> rl_reason (snd (relay_output mode items s)) = StreamComplete"
  using assms
proof (induction mode items s rule: relay_output.induct)
  case (1 mode items s)
  obtain q items' s' where poll: "poll_relay mode items s = (q, items', s')" by (metis surj_pair)
  then have items: "poll_items mode items s = (q, items', s')" using "1.prems"(3) by (simp add: poll_relay_def)
  note p = poll_absent [OF "1.prems"(1,2) items]
  show ?case
  proof (cases q)
    case (Emit b)
    have "\<not> contains_in_bytes (rl_red s') (rl_carry s' @ remaining items')"
      using p Emit "1.prems"(2) contains_more [of "rl_red s" "rl_carry s' @ remaining items'" b "[]"] by auto
    with "1.IH" [OF poll [symmetric] _ refl] p Emit "1.prems"(3) poll show ?thesis
      by (cases "relay_output mode items' s'") (simp add: relay_output_unfold [of mode items s])
  qed (use p poll in \<open>simp_all add: relay_output_unfold [of mode items s]\<close>)
qed

subsection \<open>Binary bodies\<close>

lemma free_extend:
  assumes "free n (p @ c) []" "length n \<le> Suc (length c)" "free n (c @ d) []"
  shows "free n (p @ c @ d) []"
  unfolding free_def
proof (intro allI impI)
  fix k assume k: "k < length (p @ c @ d)"
  show "\<not> prefix n (drop k ((p @ c @ d) @ []))"
  proof (cases "k < length p")
    case True
    then have "length n \<le> length (drop k (p @ c))" using assms(2) by simp
    then have "prefix n (drop k (p @ c) @ d) \<longleftrightarrow> prefix n (drop k (p @ c))"
      using prefix_length_prefix [of n "drop k (p @ c) @ d" "drop k (p @ c)"] by (auto simp: prefix_append)
    moreover have "\<not> prefix n (drop k (p @ c))" using assms(1) True by (auto simp: free_def simp del: drop_append)
    moreover have "drop k ((p @ c @ d) @ []) = drop k (p @ c) @ d" using True by simp
    ultimately show ?thesis by simp
  next
    case False
    then show ?thesis using assms(3) k by (auto simp: free_def dest: spec [where x = "k - length p"])
  qed
qed

text \<open>What was let through, with what is held back: no needle, and enough is held back.\<close>

definition verified :: "redactions \<Rightarrow> bytes \<Rightarrow> bytes \<Rightarrow> bool" where
  "verified r p c \<longleftrightarrow> (\<forall>n \<in> set (needle_bytes r). n \<noteq> [] \<longrightarrow> free n (p @ c) []) \<and> (p = [] \<or> length c = max_needle_len r - 1)"

lemma split_verified_step:
  assumes "verified r p c" "split_verified_binary r (c @ d) = (Inr (emit, held), r')"
  shows "verified r (p @ emit) held \<and> emit @ held = c @ d \<and> r' = r"
proof -
  have no: "\<not> contains_in_bytes r (c @ d)" using assms(2) by (auto simp: split_verified_binary_def split: if_splits)
  have "free n (p @ c @ d) []" if n: "n \<in> set (needle_bytes r)" "n \<noteq> []" for n
  proof -
    have cd: "free n (c @ d) []" using no n free_sublist [OF n(2)] by (auto simp: contains_in_bytes_def list_ex_iff)
    show ?thesis
    proof (cases "p = []")
      case False
      then have "length n \<le> Suc (length c)" using assms(1) needle_len [OF n(1)] by (simp add: verified_def)
      with free_extend [of n p c d] cd assms(1) n show ?thesis by (simp add: verified_def)
    qed (use cd in simp)
  qed
  moreover have parts: "emit @ held = c @ d" "r' = r" using assms(2) no by (auto simp: split_verified_binary_def Let_def simp del: take_append drop_append split: if_splits)
  moreover have "p @ emit = [] \<or> length held = max_needle_len r - 1"
  proof -
    have "p = [] \<or> length c = max_needle_len r - 1" using assms(1) by (simp add: verified_def)
    then show ?thesis using assms(2) no by (auto simp: split_verified_binary_def Let_def simp del: take_append drop_append split: if_splits)
  qed
  ultimately show ?thesis by (simp add: verified_def)
qed

lemma poll_binary:
  "poll_items BinaryBody items s = (q, items', s') \<Longrightarrow> verified (rl_red s) p (rl_carry s) \<Longrightarrow>
     (\<forall>b. q = Emit b \<longrightarrow> rl_red s' = rl_red s \<and> prefix (b @ rl_carry s' @ remaining items') (rl_carry s @ remaining items) \<and>
        (verified (rl_red s) (p @ b) (rl_carry s')
         \<or> items' = [] \<and> rl_carry s' = [] \<and> (\<forall>n \<in> set (needle_bytes (rl_red s)). n \<noteq> [] \<longrightarrow> free n (p @ b) [])))"
proof (induction items arbitrary: s)
  case Nil
  then show ?case by (auto simp: apply_to_response_body_def verified_def remaining_def split: if_splits)
next
  case (Cons it items)
  show ?case
  proof (cases it)
    case (UpChunk c)
    show ?thesis
    proof (cases "split_verified_binary (rl_red s) (rl_carry s @ c)")
      case (Pair x r)
      show ?thesis
      proof (cases x)
        case (Inl e)
        with Pair Cons.prems UpChunk show ?thesis by (auto simp: Let_def split_chunk_def)
      next
        case (Inr parts)
        then obtain emit held where sp: "split_verified_binary (rl_red s) (rl_carry s @ c) = (Inr (emit, held), r)" using Pair by (cases parts) simp
        note v = split_verified_step [OF Cons.prems(2) sp]
        let ?s = "s\<lparr>rl_bytes := min (2 ^ 64 - 1) (rl_bytes s + length c), rl_carry := held\<rparr>"
        have rem: "remaining (it # items) = c @ remaining items" by (simp add: remaining_def UpChunk)
        show ?thesis
        proof (cases "emit = []")
          case True
          then have "poll_items BinaryBody items ?s = (q, items', s')" using Cons.prems(1) sp v by (simp add: UpChunk split_chunk_def Let_def)
          from Cons.IH [OF this] v True show ?thesis by (auto simp: rem)
        next
          case False
          then have "q = Emit emit \<and> items' = items \<and> s' = ?s" using Cons.prems(1) sp v by (simp add: UpChunk split_chunk_def Let_def)
          moreover have "prefix (emit @ held @ remaining items) (rl_carry s @ c @ remaining items)"
            using v by (metis append.assoc prefix_order.order_refl)
          ultimately show ?thesis using v by (simp add: rem)
        qed
      qed
    qed
  qed (use Cons.prems in auto)
qed

lemma relay_binary:
  assumes "verified (rl_red s) p (rl_carry s)"
  shows "(\<forall>n \<in> set (needle_bytes (rl_red s)). n \<noteq> [] \<longrightarrow> \<not> sublist n (p @ concat (fst (relay_output BinaryBody items s)))) \<and>
    prefix (concat (fst (relay_output BinaryBody items s))) (rl_carry s @ remaining items)"
  using assms
proof (induction "BinaryBody" items s arbitrary: p rule: relay_output.induct)
  case (1 items s)
  have here: "\<not> sublist n p" if "n \<in> set (needle_bytes (rl_red s))" "n \<noteq> []" for n
    using "1.prems" that free_sublist [of n "p @ rl_carry s"] sublist_append_rightI [of n p] by (auto simp: verified_def sublist_append)
  obtain q items' s' where poll: "poll_relay BinaryBody items s = (q, items', s')" by (metis surj_pair)
  show ?case
  proof (cases q)
    case (Emit b)
    with poll have "poll_items BinaryBody items s = (Emit b, items', s')" by (auto simp: poll_relay_def split: if_splits)
    note pb = poll_binary [OF this "1.prems", rule_format, OF refl]
    have out: "concat (fst (relay_output BinaryBody items s)) = b @ concat (fst (relay_output BinaryBody items' s'))"
      using poll Emit by (simp add: relay_output_unfold [of BinaryBody items s] split: prod.split)
    show ?thesis
    proof (cases "verified (rl_red s) (p @ b) (rl_carry s')")
      case True
      have "(\<forall>n \<in> set (needle_bytes (rl_red s')). n \<noteq> [] \<longrightarrow> \<not> sublist n ((p @ b) @ concat (fst (relay_output BinaryBody items' s')))) \<and>
          prefix (concat (fst (relay_output BinaryBody items' s'))) (rl_carry s' @ remaining items')"
        by (rule "1.hyps" [OF poll [symmetric] _ refl]) (use True pb Emit in auto)
      with pb out show ?thesis by (auto simp: prefix_def) (metis append.assoc)
    next
      case False
      with pb have "items' = []" "rl_carry s' = []" and clean: "\<forall>n \<in> set (needle_bytes (rl_red s)). n \<noteq> [] \<longrightarrow> free n (p @ b) []" by auto
      then have "concat (fst (relay_output BinaryBody items s)) = b" using out by simp
      then show ?thesis using clean free_sublist pb by (auto simp: prefix_def)
    qed
  qed (use here poll in \<open>simp_all add: relay_output_unfold [of BinaryBody items s]\<close>)
qed

subsection \<open>Properties\<close>

lemma add_needle_set: "set (needles (add_needle v r)) = (if v = [] then set (needles r) else insert v (set (needles r)))"
  by (auto simp: add_needle_def)

lemma add_component_set: "set (needles (add_component v r)) = (if utf8_len v < 4 \<or> v = [] then set (needles r) else insert v (set (needles r)))"
  by (simp add: add_component_def add_needle_set)

lemma fold_components: "set (needles (foldl (\<lambda>r part. add_component part r) r vs)) = set (needles r) \<union> {v \<in> set vs. \<not> (utf8_len v < 4 \<or> v = [])}"
  by (induction vs arbitrary: r) (auto simp: add_component_set)

lemma header_needles:
  "set (needles (from_injection decode (InjectHeader name (Some v)))) =
     (if v = [] then {} else {v}) \<union> {name @ ascii '': '' @ v} \<union>
     {w \<in> insert (header_credential v) (set (split_ascii_whitespace (header_credential v))). \<not> (utf8_len w < 4 \<or> w = [])}"
  by (auto simp: from_injection_def Let_def fold_components add_component_set add_needle_set no_redactions_def)

lemma long_needle: "n \<in> set (needle_bytes r) \<Longrightarrow> 2 \<le> length n \<Longrightarrow> max_needle_len r \<noteq> 1"
  using needle_len [of n r] by auto

lemma utf8_char_nonempty: "length (utf8_char c) \<ge> 1"
  by (simp add: utf8_char_def)

lemma length_as_bytes: "length s \<le> length (as_bytes s)"
proof (induction s)
  case (Cons c s)
  have "length (as_bytes (c # s)) = length (utf8_char c) + length (as_bytes s)" by (simp add: as_bytes_def)
  with Cons utf8_char_nonempty [of c] show ?case by simp
qed simp


definition split_example :: "upstream_item list" where
  "split_example = [UpChunk (as_bytes (ascii ''{k: tok'')), UpChunk (as_bytes (ascii ''en1}''))]"

definition example_redactions :: redactions where
  "example_redactions = from_injection (\<lambda>_. None) (InjectHeader (ascii ''x-key'') (Some (ascii ''token1'')))"

lemma example_needles: "needles example_redactions = [ascii ''token1'', ascii ''x-key: token1'']"
  by (simp add: example_redactions_def from_injection_def header_credential_def split_once_by_def is_ascii_whitespace_def Let_def
      split_ascii_whitespace_def add_needle_def add_component_def no_redactions_def utf8_len_def utf8_width_def)

lemma example_mask_free: "\<forall>n \<in> set (needle_bytes example_redactions). mask_free n"
  unfolding needle_bytes_def example_needles by code_simp

lemma example_reflects: "sublist (as_bytes (ascii ''token1'')) (remaining split_example)"
  unfolding split_example_def by code_simp


text \<open>
  A binary body is let through unchanged or refused: in every chunking, what the relay emits is a prefix of
  what the upstream sent, and contains none of the needles.
\<close>

theorem binary_stream_exact_or_refused:
  assumes "n \<in> set (needles r)" "n \<noteq> []"
  shows "prefix (concat (fst (relay_output BinaryBody items (new_relay r)))) (remaining items) \<and>
    \<not> sublist (as_bytes n) (concat (fst (relay_output BinaryBody items (new_relay r))))"
proof -
  have "verified (rl_red (new_relay r)) [] (rl_carry (new_relay r))" by (simp add: verified_def new_relay_def free_def)
  from relay_binary [OF this, of items] show ?thesis
    using assms length_as_bytes [of n] by (auto simp: new_relay_def needle_bytes_def)
qed

theorem binary_stream_exact_or_refused_witness:
  "\<not> sublist (as_bytes (ascii ''token1'')) (concat (fst (relay_output BinaryBody split_example (new_relay example_redactions)))) \<and>
   sublist (as_bytes (ascii ''token1'')) (remaining split_example)"
  using binary_stream_exact_or_refused [of "ascii ''token1''" example_redactions split_example] example_reflects by (simp add: example_needles)

text \<open>
  The relay is transparent for bodies without a credential: if no needle occurs in what the upstream sends and the
  transfer does not fail, the agent receives exactly the bytes sent, in both modes and for every chunking, and the
  transfer is reported complete.
\<close>

theorem stream_transparent:
  assumes "no_errors items" "\<not> contains_in_bytes r (remaining items)"
  shows "concat (fst (relay_output mode items (new_relay r))) = remaining items \<and>
    rl_reason (snd (relay_output mode items (new_relay r))) = StreamComplete"
  using relay_absent [of items "new_relay r" mode] assms by (simp add: new_relay_def)

theorem stream_transparent_witness:
  "concat (fst (relay_output TextBody [UpChunk [1, 2], UpChunk [3]] (new_relay example_redactions))) = [1, 2, 3]"
proof -
  have "\<not> contains_in_bytes example_redactions (remaining [UpChunk [1, 2], UpChunk [3]])"
    unfolding contains_in_bytes_def needle_bytes_def example_needles by code_simp
  moreover have "no_errors [UpChunk [1, 2], UpChunk [3]]" by (simp add: no_errors_def)
  ultimately show ?thesis using stream_transparent [of "[UpChunk [1, 2], UpChunk [3]]" example_redactions TextBody] by (simp add: remaining_def)
qed

text \<open>
  A query credential of one byte is the only needle, and then nothing is held back and nothing looked for: the stream lets
  it through although the buffered relay masks it.
\<close>

lemma single_byte_credential_streams:
  "needles (from_injection (\<lambda>_. None) (InjectQuery (ascii ''k''))) = [ascii ''k''] \<and>
   fst (split_redacted (from_injection (\<lambda>_. None) (InjectQuery (ascii ''k''))) (as_bytes (ascii ''k''))) = (as_bytes (ascii ''k''), []) \<and>
   fst (apply_to_bytes (from_injection (\<lambda>_. None) (InjectQuery (ascii ''k''))) (as_bytes (ascii ''k''))) = MASK"
  by (simp add: from_injection_def query_pair_needles_def split_once_by_def Let_def add_needle_def no_redactions_def split_redacted_def
      max_needle_len_def needle_bytes_def as_bytes_def utf8_char_def apply_to_bytes_def redact_pass_hit)

end
