(* ===== verification/HttpRules.thy ===== *)
theory HttpRules
  imports Redaction Wire Catalog AuditEntry
begin

text \<open>
  The rules of the HTTP plane that need no network, from \<^verbatim>\<open>crates/aka-core/src/capability/http.rs\<close>: methods,
  header validation and stripping, the form of an injected credential, the pinned authority, the test for
  the MCP path, and the fingerprint of a request. The \<^verbatim>\<open>http\<close> and \<^verbatim>\<open>url\<close> crates are parameters:
  \<open>header_env\<close> and \<open>url_env\<close>.
\<close>

subsection \<open>Methods and errors\<close>

datatype http_method = GET | HEAD | POST | PUT | PATCH | DELETE | OPTIONS

datatype http_validation_error = HttpInvalidMethod | HttpInvalidPath | HttpReservedHeader ustring | HttpInvalidHeader ustring

definition http_error_reason :: "http_validation_error \<Rightarrow> error_reason" where
  "http_error_reason e =
     (case e of
        HttpInvalidMethod \<Rightarrow> InvalidMethod
      | HttpInvalidPath \<Rightarrow> InvalidPath
      | HttpReservedHeader _ \<Rightarrow> ReservedHeader
      | HttpInvalidHeader _ \<Rightarrow> InvalidHeader)"

definition http_error_detail :: "(uchar \<Rightarrow> bool) \<Rightarrow> http_validation_error \<Rightarrow> ustring" where
  "http_error_detail np e =
     (case e of
        HttpInvalidMethod \<Rightarrow> ascii ''unsupported HTTP method''
      | HttpInvalidPath \<Rightarrow> ascii ''path must begin with exactly one '/' and carry no authority, userinfo or backslashes''
      | HttpReservedHeader h \<Rightarrow> ascii ''header '' @ debug_str np h @ ascii '' is broker-controlled and cannot be set by agents''
      | HttpInvalidHeader h \<Rightarrow> ascii ''invalid header '' @ debug_str np h)"

definition is_mutating :: "http_method \<Rightarrow> bool" where
  "is_mutating m \<longleftrightarrow> m \<noteq> GET \<and> m \<noteq> HEAD"

definition method_text :: "http_method \<Rightarrow> ustring" where
  "method_text m =
     (case m of GET \<Rightarrow> ascii ''GET'' | HEAD \<Rightarrow> ascii ''HEAD'' | POST \<Rightarrow> ascii ''POST'' | PUT \<Rightarrow> ascii ''PUT''
      | PATCH \<Rightarrow> ascii ''PATCH'' | DELETE \<Rightarrow> ascii ''DELETE'' | OPTIONS \<Rightarrow> ascii ''OPTIONS'')"

definition parse_method :: "ustring \<Rightarrow> http_validation_error + http_method" where
  "parse_method s =
     (let u = to_ascii_uppercase s in
      if u = ascii ''GET'' then Ok GET else if u = ascii ''HEAD'' then Ok HEAD else if u = ascii ''POST'' then Ok POST
      else if u = ascii ''PUT'' then Ok PUT else if u = ascii ''PATCH'' then Ok PATCH else if u = ascii ''DELETE'' then Ok DELETE
      else if u = ascii ''OPTIONS'' then Ok OPTIONS else Err HttpInvalidMethod)"

definition checked_path :: "ustring \<Rightarrow> http_validation_error + unit" where
  "checked_path p = (if validate_path p then Ok () else Err HttpInvalidPath)"

subsection \<open>Headers\<close>

text \<open>
  \<open>he_name\<close> is \<open>HeaderName::from_bytes\<close> (the normalized name), \<open>he_value\<close> is \<open>HeaderValue::from_str\<close>,
  \<open>he_text\<close> is \<open>to_str\<close>. A header map is the list of its fields in the order of iteration.
\<close>

record 'v header_env =
  he_name :: "ustring \<Rightarrow> ustring option"
  he_value :: "ustring \<Rightarrow> 'v option"
  he_text :: "'v \<Rightarrow> ustring option"

type_synonym 'v header_map = "(ustring \<times> 'v) list"

definition DENYLIST :: "ustring list" where
  "DENYLIST =
     [ascii ''host'', ascii ''content-length'', ascii ''transfer-encoding'', ascii ''connection'', ascii ''upgrade'',
      ascii ''proxy-authorization'', ascii ''proxy-authenticate'', ascii ''proxy-connection'', ascii ''keep-alive'', ascii ''te'',
      ascii ''trailer'', ascii ''expect'', ascii ''accept-encoding'', ascii ''content-encoding'']"

definition ALWAYS_RESERVED :: "ustring list" where
  "ALWAYS_RESERVED = [ascii ''authorization'']"

definition ENDPOINT_REQUEST_ID_HEADER :: ustring where
  "ENDPOINT_REQUEST_ID_HEADER = ascii ''x-multitool-request-id''"

definition names_header :: "ustring option \<Rightarrow> ustring \<Rightarrow> bool" where
  "names_header cred n = (case cred of Some c \<Rightarrow> eq_ignore_ascii_case c n | None \<Rightarrow> False)"

fun validate_headers :: "'v header_env \<Rightarrow> ustring option \<Rightarrow> (ustring \<times> ustring) list \<Rightarrow> http_validation_error + 'v header_map" where
  "validate_headers E cred [] = Ok []"
| "validate_headers E cred ((n, v) # hs) =
     (let lower = to_ascii_lowercase n in
      if lower \<in> set DENYLIST \<or> lower \<in> set ALWAYS_RESERVED \<or> names_header cred lower then Err (HttpReservedHeader n)
      else case he_name E n of
        None \<Rightarrow> Err (HttpInvalidHeader n)
      | Some name \<Rightarrow>
          (case he_value E v of
             None \<Rightarrow> Err (HttpInvalidHeader n)
           | Some val \<Rightarrow> (case validate_headers E cred hs of Inl e \<Rightarrow> Err e | Inr m \<Rightarrow> Ok ((name, val) # m))))"

text \<open>The fields that \<^verbatim>\<open>Connection\<close> nominates as hop-by-hop.\<close>

fun nominated_tokens :: "'v header_env \<Rightarrow> ustring list \<Rightarrow> http_validation_error + ustring list" where
  "nominated_tokens E [] = Ok []"
| "nominated_tokens E (t # ts) =
     (case he_name E t of
        None \<Rightarrow> Err (HttpInvalidHeader t)
      | Some n \<Rightarrow> (case nominated_tokens E ts of Inl e \<Rightarrow> Err e | Inr ns \<Rightarrow> Ok (n # ns)))"

fun connection_nominated :: "'v header_env \<Rightarrow> 'v list \<Rightarrow> http_validation_error + ustring list" where
  "connection_nominated E [] = Ok []"
| "connection_nominated E (v # vs) =
     (case he_text E v of
        None \<Rightarrow> Err (HttpInvalidHeader (ascii ''connection''))
      | Some s \<Rightarrow>
          (case nominated_tokens E (filter (\<lambda>t. t \<noteq> []) (map trim (split_on 44 s))) of
             Inl e \<Rightarrow> Err e
           | Inr ns \<Rightarrow> (case connection_nominated E vs of Inl e \<Rightarrow> Err e | Inr ms \<Rightarrow> Ok (ns @ ms))))"

definition shadows_credential :: "ustring option \<Rightarrow> ustring \<Rightarrow> bool" where
  "shadows_credential cred n =
     (case cred of Some c \<Rightarrow> \<not> eq_ignore_ascii_case c (ascii ''authorization'') \<and> eq_ignore_ascii_case c n | None \<Rightarrow> False)"

definition stripped :: "ustring list \<Rightarrow> ustring \<Rightarrow> bool" where
  "stripped nominated n \<longleftrightarrow>
     n = ascii ''authorization'' \<or> n = ascii ''accept-encoding'' \<or> n = ENDPOINT_REQUEST_ID_HEADER \<or> n \<in> set DENYLIST \<or> n \<in> set nominated"

fun forward_fields :: "ustring option \<Rightarrow> ustring list \<Rightarrow> 'v header_map \<Rightarrow> http_validation_error + 'v header_map" where
  "forward_fields cred nominated [] = Ok []"
| "forward_fields cred nominated ((n, v) # hs) =
     (if shadows_credential cred n then Err (HttpReservedHeader n)
      else case forward_fields cred nominated hs of
        Inl e \<Rightarrow> Err e
      | Inr m \<Rightarrow> Ok (if stripped nominated n then m else (n, v) # m))"

definition endpoint_forward_headers :: "'v header_env \<Rightarrow> ustring option \<Rightarrow> 'v header_map \<Rightarrow> http_validation_error + 'v header_map" where
  "endpoint_forward_headers E cred source =
     (case connection_nominated E (map snd (filter (\<lambda>(n, _). n = ascii ''connection'') source)) of
        Inl e \<Rightarrow> Err e
      | Inr nominated \<Rightarrow> forward_fields cred nominated source)"

definition response_header_is_relayable :: "ustring \<Rightarrow> bool \<Rightarrow> bool" where
  "response_header_is_relayable n expose \<longleftrightarrow>
     expose \<or> n \<notin> set [ascii ''set-cookie'', ascii ''set-cookie2'', ascii ''cookie'', ascii ''cookie2'', ascii ''www-authenticate'',
       ascii ''proxy-authenticate'', ascii ''authentication-info'', ascii ''proxy-authentication-info'', ascii ''authorization'',
       ascii ''proxy-authorization'']"

subsection \<open>The injected credential\<close>

datatype injection_form = FormHeader ustring | FormQuery

definition injection_form :: "ustring \<Rightarrow> injection_form option" where
  "injection_form src =
     (let t = trim_start src in
      if prefix [63] t then Some FormQuery
      else map_option (\<lambda>(n, _). FormHeader (trim n)) (split_once_by (\<lambda>c. c = 58) t))"

definition connection_credential_header :: "connection \<Rightarrow> ustring option" where
  "connection_credential_header c =
     (case conn_config c of
        Api a \<Rightarrow>
          if api_oauth a \<noteq> None then Some (ascii ''authorization'')
          else (case injection_form (api_template a) of Some (FormHeader n) \<Rightarrow> Some n | Some FormQuery \<Rightarrow> None | None \<Rightarrow> None)
      | _ \<Rightarrow> None)"

text \<open>
  \<open>rendering\<close> is what the store renders the template to, or its error. A header value is kept as the text it was
  made from.
\<close>

definition render_injection ::
    "'v header_env \<Rightarrow> (uchar \<Rightarrow> bool) \<Rightarrow> (template \<Rightarrow> ustring + ustring) \<Rightarrow> ustring \<Rightarrow> ustring + rendered_injection" where
  "render_injection E np rendering src =
     (if trim src = [] then Ok InjectNone
      else case parse_template src of
        Inl e \<Rightarrow> Err (template_error_text np e)
      | Inr t \<Rightarrow>
          (case rendering t of
             Inl e \<Rightarrow> Err e
           | Inr rendered \<Rightarrow>
               let s = trim_start rendered in
               if prefix [63] s then Ok (InjectQuery (tl s))
               else case split_once_by (\<lambda>c. c = 58) s of
                 None \<Rightarrow> Err (ascii ''template must render 'Header: value' or a '?query=form'' @ [39])
               | Some (n, v) \<Rightarrow>
                   (case he_name E (trim n) of
                      None \<Rightarrow> Err (ascii ''rendered header name invalid'')
                    | Some name \<Rightarrow>
                        (case he_value E (trim v) of
                           None \<Rightarrow> Err (ascii ''rendered header value invalid (control bytes?)'')
                         | Some val \<Rightarrow> Ok (InjectHeader name (he_text E val))))))"

subsection \<open>The pinned upstream\<close>

text \<open>What the sources look at in a parsed URL, and the operations of the crate that make one from another.\<close>

record url =
  u_scheme :: ustring
  u_username :: ustring
  u_password :: "ustring option"
  u_host :: "ustring option"
  u_port :: "nat option"
  u_port_or_default :: "nat option"
  u_path :: ustring
  u_query :: "ustring option"
  u_fragment :: "ustring option"

record url_env =
  ue_parse :: "ustring \<Rightarrow> url option"
  ue_join :: "url \<Rightarrow> ustring \<Rightarrow> url option"
  ue_set_port :: "url \<Rightarrow> nat option \<Rightarrow> url option"
  ue_set_query :: "url \<Rightarrow> ustring \<Rightarrow> url"
  ue_authority :: "url \<Rightarrow> ustring"

definition pinned_base :: "connection_config \<Rightarrow> (ustring \<times> ustring \<times> nat option) option" where
  "pinned_base cfg = (case cfg of Api a \<Rightarrow> Some (api_scheme a, api_host a, map_option unat (api_port a)) | _ \<Rightarrow> None)"

definition same_pinned_authority :: "url \<Rightarrow> ustring \<Rightarrow> ustring \<Rightarrow> nat option \<Rightarrow> bool" where
  "same_pinned_authority u scheme host prt =
     (let pinned_port = (case prt of Some p \<Rightarrow> p | None \<Rightarrow> if scheme = ascii ''https'' then 443 else 80);
          same_host = (case u_host u of Some h \<Rightarrow> eq_ignore_ascii_case h host | None \<Rightarrow> False);
          same_scheme_and_port = (u_scheme u = scheme \<and> u_port_or_default u = Some pinned_port);
          safe_upgrade = (scheme = ascii ''http'' \<and> u_scheme u = ascii ''https'' \<and> u_port_or_default u = Some 443) in
      same_host \<and> (same_scheme_and_port \<or> safe_upgrade))"

definition trim_end_slashes :: "ustring \<Rightarrow> ustring" where
  "trim_end_slashes s = rev (dropWhile (\<lambda>c. c = 47) (rev s))"

definition resolved_path :: "url_env \<Rightarrow> ustring \<Rightarrow> ustring option" where
  "resolved_path U p =
     (case ue_parse U (ascii ''http://mcp-path-compare.invalid'') of
        None \<Rightarrow> None
      | Some base \<Rightarrow>
          (case ue_join U base p of
             None \<Rightarrow> None
           | Some joined \<Rightarrow>
               if ue_authority U joined = ue_authority U base \<and> u_scheme joined = u_scheme base
               then Some (trim_end_slashes (u_path joined)) else None))"

definition resolves_to_mcp_path :: "url_env \<Rightarrow> ustring \<Rightarrow> ustring \<Rightarrow> bool" where
  "resolves_to_mcp_path U p mcp =
     (case (resolved_path U p, resolved_path U mcp) of (Some x, Some y) \<Rightarrow> x = y | _ \<Rightarrow> False)"

text \<open>\<open>quality\<close> parses a \<^verbatim>\<open>q\<close> value and says whether it is positive.\<close>

definition accepts_event_stream :: "(ustring \<Rightarrow> bool option) \<Rightarrow> ustring \<Rightarrow> bool" where
  "accepts_event_stream quality v =
     (case split_on 59 (trim v) of
        [] \<Rightarrow> False
      | m # params \<Rightarrow>
          eq_ignore_ascii_case (trim m) (ascii ''text/event-stream'') \<and>
          (case List.find (\<lambda>p. case split_once_by (\<lambda>c. c = 61) (trim p) of
                   Some (n, _) \<Rightarrow> eq_ignore_ascii_case (trim n) (ascii ''q'') | None \<Rightarrow> False) params of
             None \<Rightarrow> True
           | Some p \<Rightarrow> (case split_once_by (\<lambda>c. c = 61) (trim p) of Some (_, q) \<Rightarrow> quality (trim q) = Some True | None \<Rightarrow> False)))"

definition is_mcp_transport_leg ::
    "'v header_env \<Rightarrow> url_env \<Rightarrow> (ustring \<Rightarrow> bool option) \<Rightarrow> connection \<Rightarrow> http_method \<Rightarrow> ustring \<Rightarrow> 'v header_map \<Rightarrow> bool \<Rightarrow> bool" where
  "is_mcp_transport_leg E U quality c m p headers body_is_definitely_empty =
     (body_is_definitely_empty \<and>
      (case conn_config c of
         Api a \<Rightarrow>
           (case mcp_path a of
              None \<Rightarrow> False
            | Some mcp \<Rightarrow>
                resolves_to_mcp_path U p mcp \<and>
                (case m of
                   GET \<Rightarrow> list_ex (\<lambda>(n, v). n = ascii ''accept'' \<and>
                     (case he_text E v of Some s \<Rightarrow> list_ex (accepts_event_stream quality) (split_on 44 s) | None \<Rightarrow> False)) headers
                 | DELETE \<Rightarrow>
                     (case map_of headers (ascii ''mcp-session-id'') of
                        Some v \<Rightarrow> (case he_text E v of Some s \<Rightarrow> trim s \<noteq> [] | None \<Rightarrow> False)
                      | None \<Rightarrow> False)
                 | _ \<Rightarrow> False))
       | _ \<Rightarrow> False))"

definition mcp_request_message :: "json \<Rightarrow> bool" where
  "mcp_request_message j \<longleftrightarrow>
     (case json_get j (ascii ''jsonrpc'') of Some v \<Rightarrow> json_as_str v = Some (ascii ''2.0'') | None \<Rightarrow> False) \<and>
     (case json_get j (ascii ''method'') of Some v \<Rightarrow> json_as_str v \<noteq> None | None \<Rightarrow> False)"

definition is_mcp_client_message :: "json \<Rightarrow> bool" where
  "is_mcp_client_message v =
     (case v of JArray ms \<Rightarrow> ms \<noteq> [] \<and> list_all mcp_request_message ms | m \<Rightarrow> mcp_request_message m)"

definition probe_path :: "connection_config \<Rightarrow> ustring" where
  "probe_path cfg =
     (case cfg of
        Api a \<Rightarrow> (case test_path a of Some p \<Rightarrow> p | None \<Rightarrow> (case mcp_path a of Some p \<Rightarrow> p | None \<Rightarrow> [47]))
      | _ \<Rightarrow> [47])"

subsection \<open>The fingerprint of a request\<close>

text \<open>
  The bytes that are hashed: the hashers are fed piece by piece, which is hashing the concatenation. The id
  is the sixteen bytes of the UUID.
\<close>

definition uuid_bytes :: "uuid \<Rightarrow> bytes" where
  "uuid_bytes i = map (\<lambda>k. ucast (drop_bit (8 * k) i)) [15, 14, 13, 12, 11, 10, 9, 8, 7, 6, 5, 4, 3, 2, 1, 0]"

definition header_line :: "ustring \<times> ustring \<Rightarrow> ustring" where
  "header_line h = (case h of (k, v) \<Rightarrow> to_ascii_lowercase k @ [58] @ trim v)"

definition hash_request_prefix :: "ustring \<Rightarrow> uuid \<Rightarrow> http_method \<Rightarrow> ustring \<Rightarrow> (ustring \<times> ustring) list \<Rightarrow> bytes" where
  "hash_request_prefix client i m p headers =
     as_bytes client @ [0] @ uuid_bytes i @ [0] @ as_bytes (method_text m) @ [0] @ as_bytes p @ [0] @
     concat (map (\<lambda>l. as_bytes l @ [0]) (sort (map header_line headers)))"

definition payload_hash ::
    "(bytes \<Rightarrow> bytes) \<Rightarrow> ustring \<Rightarrow> uuid \<Rightarrow> http_method \<Rightarrow> ustring \<Rightarrow> (ustring \<times> ustring) list \<Rightarrow> bytes \<Rightarrow> bytes" where
  "payload_hash sha client i m p headers body = encode_hex (sha (hash_request_prefix client i m p headers @ body))"

text \<open>\<open>chunks\<close> are the pieces in which the spooled body is read.\<close>

definition spooled_payload_hash ::
    "(bytes \<Rightarrow> bytes) \<Rightarrow> ustring \<Rightarrow> uuid \<Rightarrow> http_method \<Rightarrow> ustring \<Rightarrow> (ustring \<times> ustring) list \<Rightarrow> bytes list \<Rightarrow> bytes" where
  "spooled_payload_hash sha client i m p headers chunks = encode_hex (sha (hash_request_prefix client i m p headers @ concat chunks))"

subsection \<open>What the rules guarantee\<close>

lemma eq_ignore_ascii_case_sym: "eq_ignore_ascii_case a b = eq_ignore_ascii_case b a"
  by (auto simp: eq_ignore_ascii_case_def)

lemma field_lower_idem [simp]: "to_ascii_lowercase (to_ascii_lowercase s) = to_ascii_lowercase s"
  by (simp add: to_ascii_lowercase_def)

lemma validate_headers_ok:
  assumes "validate_headers E cred hs = Inr m"
  shows "length m = length hs \<and>
    (\<forall>i < length hs. let l = to_ascii_lowercase (fst (hs ! i)) in
       l \<notin> set DENYLIST \<and> l \<notin> set ALWAYS_RESERVED \<and> \<not> names_header cred l \<and>
       he_name E (fst (hs ! i)) = Some (fst (m ! i)) \<and> he_value E (snd (hs ! i)) = Some (snd (m ! i)))"
  using assms
proof (induction hs arbitrary: m)
  case (Cons h hs)
  obtain n v where h: "h = (n, v)" by force
  from Cons.prems obtain name val ms where m: "m = (name, val) # ms" "validate_headers E cred hs = Inr ms" "he_name E n = Some name" "he_value E v = Some val"
    "to_ascii_lowercase n \<notin> set DENYLIST" "to_ascii_lowercase n \<notin> set ALWAYS_RESERVED" "\<not> names_header cred (to_ascii_lowercase n)"
    by (auto simp: h Let_def split: if_splits option.splits sum.splits)
  show ?case unfolding h m(1) using Cons.IH [OF m(2)] m
    by (auto simp: Let_def nth_Cons split: nat.splits prod.splits)
qed simp

text \<open>
  An agent cannot choose a field that the broker owns: every header of an accepted call has the lower-case name
  of one the agent sent, in order, and none is \<^verbatim>\<open>authorization\<close>, on the denylist, or the connection's own
  credential header in any spelling. The hypothesis is the documented normalization of \<^verbatim>\<open>HeaderName\<close>.
\<close>

theorem validated_headers_safe:
  assumes "validate_headers E cred hs = Ok m" "\<And>n x. he_name E n = Some x \<Longrightarrow> x = to_ascii_lowercase n"
  shows "map fst m = map (to_ascii_lowercase \<circ> fst) hs \<and>
    (\<forall>x \<in> set (map fst m). x \<noteq> ascii ''authorization'' \<and> x \<notin> set DENYLIST \<and> \<not> names_header cred x)"
proof -
  note ok = validate_headers_ok [OF assms(1)]
  have names: "map fst m = map (to_ascii_lowercase \<circ> fst) hs"
  proof (rule nth_equalityI)
    fix i assume "i < length (map fst m)"
    then have "he_name E (fst (hs ! i)) = Some (fst (m ! i))" "i < length hs" "i < length m" using ok by (auto simp: Let_def split: prod.splits)
    then show "map fst m ! i = map (to_ascii_lowercase \<circ> fst) hs ! i" using assms(2) by simp
  qed (use ok in simp)
  have "x \<noteq> ascii ''authorization'' \<and> x \<notin> set DENYLIST \<and> \<not> names_header cred x" if "x \<in> set (map fst m)" for x
  proof -
    from that names obtain i where i: "i < length hs" "x = to_ascii_lowercase (fst (hs ! i))" by (auto simp: in_set_conv_nth)
    have "to_ascii_lowercase (fst (hs ! i)) \<notin> set DENYLIST \<and> to_ascii_lowercase (fst (hs ! i)) \<notin> set ALWAYS_RESERVED \<and>
        \<not> names_header cred (to_ascii_lowercase (fst (hs ! i)))"
      using ok i(1) by (auto simp: Let_def split: prod.splits)
    then show ?thesis by (auto simp: i(2) ALWAYS_RESERVED_def)
  qed
  with names show ?thesis by blast
qed

definition plain_headers :: "ustring header_env" where
  "plain_headers = \<lparr>he_name = (\<lambda>n. Some (to_ascii_lowercase n)), he_value = Some, he_text = Some\<rparr>"

theorem validated_headers_safe_witness:
  "validate_headers plain_headers (Some (ascii ''X-Key'')) [(ascii ''Accept'', ascii ''*'')] = Ok [(ascii ''accept'', ascii ''*'')] \<and>
   \<not> names_header (Some (ascii ''X-Key'')) (ascii ''accept'')"
proof -
  have v: "validate_headers plain_headers (Some (ascii ''X-Key'')) [(ascii ''Accept'', ascii ''*'')] = Ok [(ascii ''accept'', ascii ''*'')]"
    by (simp add: plain_headers_def DENYLIST_def ALWAYS_RESERVED_def names_header_def eq_ignore_ascii_case_def to_ascii_lowercase_def Let_def)
  have n: "\<And>n x. he_name plain_headers n = Some x \<Longrightarrow> x = to_ascii_lowercase n" by (simp add: plain_headers_def)
  have "\<not> names_header (Some (ascii ''X-Key'')) (ascii ''accept'')"
    using bspec [OF conjunct2 [OF validated_headers_safe [OF v n]], of "ascii ''accept''"] by simp
  with v show ?thesis by (rule conjI)
qed

lemma forward_fields_ok:
  "forward_fields cred nominated hs = Inr m \<Longrightarrow>
     list_all (\<lambda>(n, _). \<not> shadows_credential cred n) hs \<and> m = filter (\<lambda>(n, _). \<not> stripped nominated n) hs"
proof (induction hs arbitrary: m)
  case (Cons h hs)
  obtain n v where h: "h = (n, v)" by force
  from Cons.prems obtain ms where "forward_fields cred nominated hs = Inr ms" "\<not> shadows_credential cred n"
    "m = (if stripped nominated n then ms else (n, v) # ms)"
    by (cases "forward_fields cred nominated hs") (simp_all add: h split: if_splits)
  with Cons.IH [of ms] h show ?case by simp
qed simp

text \<open>
  What a direct endpoint forwards is the client's request without the fields the broker owns: exactly those, in
  order, that are not \<^verbatim>\<open>authorization\<close>, not hop-by-hop, not the request id and not nominated by \<^verbatim>\<open>Connection\<close>; and a
  request that brings the connection's own credential header is refused. Names in a header map are in lower case.
\<close>

theorem forwarded_headers_exact:
  assumes "endpoint_forward_headers E cred source = Ok m" "\<forall>x \<in> set (map fst source). to_ascii_lowercase x = x"
  shows "\<exists>nominated. connection_nominated E (map snd (filter (\<lambda>(n, _). n = ascii ''connection'') source)) = Ok nominated \<and>
    m = filter (\<lambda>(n, _). \<not> stripped nominated n) source \<and>
    (\<forall>x \<in> set (map fst m). x \<noteq> ascii ''authorization'' \<and> x \<notin> set DENYLIST \<and> x \<notin> set nominated \<and> \<not> names_header cred x)"
proof -
  obtain nominated where n: "connection_nominated E (map snd (filter (\<lambda>(n, _). n = ascii ''connection'') source)) = Ok nominated"
    and f: "forward_fields cred nominated source = Inr m"
    using assms(1) by (auto simp: endpoint_forward_headers_def split: sum.splits)
  have "x \<noteq> ascii ''authorization'' \<and> x \<notin> set DENYLIST \<and> x \<notin> set nominated \<and> \<not> names_header cred x" if x: "x \<in> set (map fst m)" for x
  proof -
    have s: "\<not> stripped nominated x" "\<not> shadows_credential cred x" "x \<in> set (map fst source)"
      using forward_fields_ok [OF f] x by (auto simp: list_all_iff)
    then have "to_ascii_lowercase x \<noteq> ascii ''authorization''" using assms(2) by (auto simp: stripped_def)
    moreover have "to_ascii_lowercase (ascii ''authorization'') = ascii ''authorization''" by (simp add: to_ascii_lowercase_def)
    ultimately have "\<not> names_header cred x"
      using s(2) unfolding names_header_def shadows_credential_def eq_ignore_ascii_case_def by (cases cred) auto
    then show ?thesis using s(1) by (simp add: stripped_def)
  qed
  with n conjunct2 [OF forward_fields_ok [OF f]] show ?thesis by blast
qed

theorem forwarded_headers_exact_witness:
  "endpoint_forward_headers plain_headers None [(ascii ''connection'', ascii ''x-a''), (ascii ''x-a'', ascii ''1''), (ascii ''x-b'', ascii ''2'')] =
     Ok [(ascii ''x-b'', ascii ''2'')] \<and> \<not> names_header None (ascii ''x-b'')"
proof -
  let ?hs = "[(ascii ''connection'', ascii ''x-a''), (ascii ''x-a'', ascii ''1''), (ascii ''x-b'', ascii ''2'')]"
  have f: "endpoint_forward_headers plain_headers None ?hs = Ok [(ascii ''x-b'', ascii ''2'')]"
    by (simp add: endpoint_forward_headers_def plain_headers_def shadows_credential_def stripped_def DENYLIST_def
        ENDPOINT_REQUEST_ID_HEADER_def trim_def is_whitespace_def to_ascii_lowercase_def)
  have low: "\<forall>x \<in> set (map fst ?hs). to_ascii_lowercase x = x" by (simp add: to_ascii_lowercase_def)
  obtain nominated where "\<forall>x \<in> set (map fst [(ascii ''x-b'', ascii ''2'')]). x \<noteq> ascii ''authorization'' \<and> x \<notin> set DENYLIST \<and>
      x \<notin> set nominated \<and> \<not> names_header None x"
    using forwarded_headers_exact [OF f low] by blast
  then have "\<not> names_header None (ascii ''x-b'')" by simp
  with f show ?thesis by (rule conjI)
qed

text \<open>
  A pinned upstream is never left for another host, nor for plaintext: the only change that counts as the same
  authority is the upgrade of a plaintext origin to the standard TLS port of the same host.
\<close>

lemma pinned_authority_kept:
  "same_pinned_authority u scheme host prt \<Longrightarrow>
     (\<exists>h. u_host u = Some h \<and> eq_ignore_ascii_case h host) \<and> (scheme = ascii ''https'' \<longrightarrow> u_scheme u = ascii ''https'') \<and>
     (u_scheme u = scheme \<or> scheme = ascii ''http'' \<and> u_scheme u = ascii ''https'' \<and> u_port_or_default u = Some 443)"
  by (auto simp: same_pinned_authority_def Let_def split: option.splits)

text \<open>The two fingerprints agree, whatever the pieces in which a spooled body is read.\<close>

lemma spooled_hash_agrees: "spooled_payload_hash sha client i m p headers chunks = payload_hash sha client i m p headers (concat chunks)"
  by (simp add: spooled_payload_hash_def payload_hash_def)

text \<open>
  The fingerprint does not say where the headers end: a call with a header and no body has the same one as
  the call without the header whose body is that header's line and a zero byte.
\<close>

lemma payload_hash_ambiguous:
  "payload_hash sha client i m p [(ascii ''a'', ascii ''b'')] [] = payload_hash sha client i m p [] (as_bytes (ascii ''a:b'') @ [0])"
  by (simp add: payload_hash_def hash_request_prefix_def header_line_def to_ascii_lowercase_def trim_def is_whitespace_def as_bytes_def)

end
