(* ===== verification/Sigv4.thy ===== *)
theory Sigv4
  imports HttpRules "HOL-Library.Product_Lexorder"
begin

text \<open>
  AWS Signature Version 4, from \<^verbatim>\<open>crates/aka-core/src/sigv4.rs\<close>. HMAC-SHA256, SHA-256 and percent-encoding are
  parameters (\<open>sigv4_env\<close>): \<open>pe_decode\<close> is \<open>percent_decode_str\<close>, \<open>pe_path\<close> and \<open>pe_strict\<close> encode with the two sets.
\<close>

record sigv4_env =
  sg_hmac :: "bytes \<Rightarrow> bytes \<Rightarrow> bytes"
  sg_sha :: "bytes \<Rightarrow> bytes"
  pe_decode :: "ustring \<Rightarrow> bytes"
  pe_path :: "bytes \<Rightarrow> ustring"
  pe_strict :: "bytes \<Rightarrow> ustring"

definition EMPTY_PAYLOAD_SHA256 :: ustring where
  "EMPTY_PAYLOAD_SHA256 = ascii ''e3b0c44298fc1c149afbf4c8996fb92427ae41e4649b934ca495991b7852b855''"

definition UNSIGNED_PAYLOAD :: ustring where
  "UNSIGNED_PAYLOAD = ascii ''UNSIGNED-PAYLOAD''"

record sign_params =
  sp_access_key :: ustring
  sp_secret_key :: ustring
  sp_region :: ustring
  sp_service :: ustring
  sp_method :: ustring
  sp_url :: url
  sp_headers :: "(ustring \<times> ustring) list"
  sp_payload_hash :: ustring
  sp_timestamp :: ustring

definition hex_text :: "bytes \<Rightarrow> ustring" where
  "hex_text bs = concat (map (\<lambda>b. [hex_digit (unat b div 16), hex_digit (unat b mod 16)]) bs)"

definition sha256_hex :: "sigv4_env \<Rightarrow> bytes \<Rightarrow> ustring" where
  "sha256_hex S bs = hex_text (sg_sha S bs)"

definition canonical_uri :: "sigv4_env \<Rightarrow> url \<Rightarrow> ustring \<Rightarrow> ustring" where
  "canonical_uri S u svc =
     (if u_path u = [] then [47] else if svc = ascii ''s3'' then u_path u else pe_path S (as_bytes (u_path u)))"

definition recode :: "sigv4_env \<Rightarrow> ustring \<Rightarrow> ustring" where
  "recode S part = pe_strict S (pe_decode S part)"

definition query_pairs :: "sigv4_env \<Rightarrow> ustring \<Rightarrow> (ustring \<times> ustring) list" where
  "query_pairs S q =
     map (\<lambda>pair. case split_once_by (\<lambda>c. c = 61) pair of Some (k, v) \<Rightarrow> (recode S k, recode S v) | None \<Rightarrow> (recode S pair, []))
       (filter (\<lambda>pair. pair \<noteq> []) (split_on 38 q))"

definition join_with :: "ustring \<Rightarrow> ustring list \<Rightarrow> ustring" where
  "join_with sep xs = (case xs of [] \<Rightarrow> [] | x # xs \<Rightarrow> x @ concat (map (\<lambda>y. sep @ y) xs))"

definition canonical_query :: "sigv4_env \<Rightarrow> url \<Rightarrow> ustring" where
  "canonical_query S u =
     (case u_query u of
        None \<Rightarrow> []
      | Some q \<Rightarrow> join_with [38] (map (\<lambda>(k, v). k @ [61] @ v) (sort (query_pairs S q))))"

fun collapse_whitespace :: "bool \<Rightarrow> ustring \<Rightarrow> ustring" where
  "collapse_whitespace last_space [] = []"
| "collapse_whitespace last_space (c # s) =
     (if is_ascii_whitespace c then (if last_space then [] else [32]) @ collapse_whitespace True s
      else c # collapse_whitespace False s)"

definition canonical_header_value :: "ustring \<Rightarrow> ustring" where
  "canonical_header_value v = collapse_whitespace False (trim v)"

definition canonical_headers :: "sign_params \<Rightarrow> (ustring \<times> ustring) list" where
  "canonical_headers p = sort (map (\<lambda>(n, v). (to_ascii_lowercase n, canonical_header_value v)) (sp_headers p))"

definition signed_header_names :: "sign_params \<Rightarrow> ustring" where
  "signed_header_names p = join_with [59] (map fst (canonical_headers p))"

definition canonical_request :: "sigv4_env \<Rightarrow> sign_params \<Rightarrow> ustring" where
  "canonical_request S p =
     to_ascii_uppercase (sp_method p) @ [10] @ canonical_uri S (sp_url p) (sp_service p) @ [10] @ canonical_query S (sp_url p) @ [10] @
     concat (map (\<lambda>(n, v). n @ [58] @ v @ [10]) (canonical_headers p)) @ [10] @ signed_header_names p @ [10] @ sp_payload_hash p"

definition credential_scope :: "sign_params \<Rightarrow> ustring" where
  "credential_scope p = take 8 (sp_timestamp p) @ [47] @ sp_region p @ [47] @ sp_service p @ ascii ''/aws4_request''"

definition string_to_sign :: "sigv4_env \<Rightarrow> sign_params \<Rightarrow> ustring" where
  "string_to_sign S p =
     ascii ''AWS4-HMAC-SHA256'' @ [10] @ sp_timestamp p @ [10] @ credential_scope p @ [10] @ sha256_hex S (as_bytes (canonical_request S p))"

definition signing_key :: "sigv4_env \<Rightarrow> sign_params \<Rightarrow> bytes" where
  "signing_key S p =
     (let k_date = sg_hmac S (as_bytes (ascii ''AWS4'' @ sp_secret_key p)) (as_bytes (take 8 (sp_timestamp p)));
          k_region = sg_hmac S k_date (as_bytes (sp_region p));
          k_service = sg_hmac S k_region (as_bytes (sp_service p)) in
      sg_hmac S k_service (as_bytes (ascii ''aws4_request'')))"

definition request_signature :: "sigv4_env \<Rightarrow> sign_params \<Rightarrow> ustring" where
  "request_signature S p = hex_text (sg_hmac S (signing_key S p) (as_bytes (string_to_sign S p)))"

definition sign_request :: "sigv4_env \<Rightarrow> sign_params \<Rightarrow> ustring" where
  "sign_request S p =
     ascii ''AWS4-HMAC-SHA256 Credential='' @ sp_access_key p @ [47] @ credential_scope p @ ascii '', SignedHeaders='' @
     signed_header_names p @ ascii '', Signature='' @ request_signature S p"

subsection \<open>The canonical form\<close>

lemma collapse_idem: "collapse_whitespace b (collapse_whitespace b s) = collapse_whitespace b s"
proof (induction b s rule: collapse_whitespace.induct)
  case (2 b c s)
  then show ?case by (cases b) (auto simp: is_ascii_whitespace_def)
qed simp

lemma collapse_chars: "x \<in> set (collapse_whitespace b s) \<Longrightarrow> x = 32 \<or> x \<in> set s \<and> \<not> is_ascii_whitespace x"
  by (induction b s rule: collapse_whitespace.induct) (auto split: if_splits)

lemma sort_of_mset: "mset xs = mset ys \<Longrightarrow> sort xs = sort ys"
  by (metis mset_sort properties_for_sort sorted_sort)

text \<open>Only the multiset of the headers matters, and the spelling of their names does not.\<close>

lemma sign_request_headers:
  assumes "mset (map (\<lambda>(n, v). (to_ascii_lowercase n, canonical_header_value v)) hs) =
      mset (map (\<lambda>(n, v). (to_ascii_lowercase n, canonical_header_value v)) (sp_headers p))"
  shows "sign_request S (p\<lparr>sp_headers := hs\<rparr>) = sign_request S p"
proof -
  have "canonical_headers (p\<lparr>sp_headers := hs\<rparr>) = canonical_headers p"
    using sort_of_mset [OF assms] by (simp add: canonical_headers_def)
  then show ?thesis
    by (simp add: sign_request_def request_signature_def string_to_sign_def signing_key_def canonical_request_def credential_scope_def
        signed_header_names_def sha256_hex_def)
qed

lemma hex_text_inj: "hex_text x = hex_text y \<Longrightarrow> x = y"
proof (induction x arbitrary: y)
  case (Cons b x)
  then obtain c z where y: "y = c # z" by (cases y) (simp_all add: hex_text_def)
  with Cons.prems have h: "hex_digit (unat b div 16) = hex_digit (unat c div 16)" "hex_digit (unat b mod 16) = hex_digit (unat c mod 16)"
    "hex_text x = hex_text z" by (simp_all add: hex_text_def)
  have "m = n" if "hex_digit m = hex_digit n" "m < 16" "n < 16" for m n using that by (auto simp: hex_digit_def split: if_splits)
  moreover have "unat b div 16 < 16" "unat c div 16 < 16" using unsigned_less [of b, where ?'a = nat] unsigned_less [of c, where ?'a = nat] by simp_all
  ultimately have "unat b div 16 = unat c div 16" "unat b mod 16 = unat c mod 16" using h by simp_all
  then have "unat b = unat c" by (metis div_mult_mod_eq)
  then have "b = c" by (simp add: word_unat_eq_iff)
  then show ?case using Cons.IH [OF h(3)] y by simp
qed (simp add: hex_text_def split: list.splits)

lemma line_split: "a @ [10] @ r = b @ [10] @ q \<Longrightarrow> 10 \<notin> set a \<Longrightarrow> 10 \<notin> set b \<Longrightarrow> a = b \<and> r = (q :: ustring)"
proof (induction a arbitrary: b)
  case Nil
  then show ?case by (cases b) auto
next
  case (Cons x a)
  then show ?case by (cases b) auto
qed

lemma as_bytes_inj: "rust_string a \<Longrightarrow> rust_string b \<Longrightarrow> as_bytes a = as_bytes b \<Longrightarrow> a = b"
  by (metis from_utf8_as_bytes option.inject)

lemma last_line: "r @ [10] @ a = q @ [10] @ b \<Longrightarrow> 10 \<notin> set a \<Longrightarrow> 10 \<notin> set b \<Longrightarrow> a = (b :: ustring)"
  using line_split [of "rev a" "rev r" "rev b" "rev q"] by (metis append.assoc rev_append rev_rev_ident rev_singleton_conv set_rev)

lemma colon_split: "a @ [58] @ r = b @ [58] @ q \<Longrightarrow> 58 \<notin> set a \<Longrightarrow> 58 \<notin> set b \<Longrightarrow> a = b \<and> r = (q :: ustring)"
proof (induction a arbitrary: b)
  case Nil
  then show ?case by (cases b) auto
next
  case (Cons x a)
  then show ?case by (cases b) auto
qed

lemma split_last_line: "r @ [10] @ a = q @ [10] @ b \<Longrightarrow> 10 \<notin> set a \<Longrightarrow> 10 \<notin> set b \<Longrightarrow> r = q \<and> a = (b :: ustring)"
  using last_line [of r a q b] by simp

text \<open>The block of canonical headers: one line \<open>name:value\<close> each.\<close>

definition header_block :: "(ustring \<times> ustring) list \<Rightarrow> ustring" where
  "header_block hs = concat (map (\<lambda>(n, v). n @ [58] @ v @ [10]) hs)"

definition header_lines :: "(ustring \<times> ustring) list \<Rightarrow> bool" where
  "header_lines hs \<longleftrightarrow> (\<forall>(n, v) \<in> set hs. 10 \<notin> set n \<and> 58 \<notin> set n \<and> 10 \<notin> set v)"

lemma header_block_inj:
  assumes "header_block hs = header_block gs" and "header_lines hs" and "header_lines gs"
  shows "hs = gs"
  using assms
proof (induction hs arbitrary: gs)
  case Nil
  then show ?case by (cases gs) (auto simp: header_block_def)
next
  case (Cons h hs)
  obtain n v where h: "h = (n, v)" by (cases h)
  from Cons.prems(1) h obtain g gs' where gs: "gs = g # gs'" by (cases gs) (auto simp: header_block_def)
  obtain m w where g: "g = (m, w)" by (cases g)
  have c: "n @ [58] @ (v @ [10] @ header_block hs) = m @ [58] @ (w @ [10] @ header_block gs')"
    using Cons.prems(1) by (simp add: h gs g header_block_def)
  have n: "n = m" and r: "v @ [10] @ header_block hs = w @ [10] @ header_block gs'"
    using colon_split [OF c] Cons.prems(2,3) by (simp_all add: h gs g header_lines_def)
  have "v = w" "header_block hs = header_block gs'"
    using line_split [OF r] Cons.prems(2,3) by (simp_all add: h gs g header_lines_def)
  with Cons.IH [of gs'] Cons.prems(2,3) n show ?case by (simp add: h gs g header_lines_def)
qed

lemma canonical_value_line: "10 \<notin> set (canonical_header_value v)"
proof
  assume "10 \<in> set (canonical_header_value v)"
  from collapse_chars [OF this [unfolded canonical_header_value_def]] show False by (simp add: is_ascii_whitespace_def)
qed

lemma canonical_header_lines:
  assumes "\<forall>(n, v) \<in> set (sp_headers p). 10 \<notin> set n \<and> 58 \<notin> set n"
  shows "header_lines (canonical_headers p)"
  using assms canonical_value_line
  by (fastforce simp: header_lines_def canonical_headers_def to_ascii_lowercase_def split: if_splits)

lemma signed_names_line: "header_lines (canonical_headers p) \<Longrightarrow> 10 \<notin> set (signed_header_names p)"
proof -
  assume h: "header_lines (canonical_headers p)"
  have "10 \<notin> set n" if "n \<in> set (map fst (canonical_headers p))" for n
    using that h by (auto simp: header_lines_def)
  then show ?thesis by (auto simp: signed_header_names_def join_with_def split: list.splits)
qed


definition plain_sigv4 :: sigv4_env where
  "plain_sigv4 = \<lparr>sg_hmac = (\<lambda>k d. d), sg_sha = (\<lambda>d. d), pe_decode = (\<lambda>_. []), pe_path = (\<lambda>_. [47]), pe_strict = (\<lambda>_. [])\<rparr>"

definition sign_example :: "ustring \<Rightarrow> sign_params" where
  "sign_example m = \<lparr>sp_access_key = ascii ''A'', sp_secret_key = ascii ''K'', sp_region = ascii ''r'', sp_service = ascii ''s3'', sp_method = m,
     sp_url = \<lparr>u_scheme = ascii ''https'', u_username = [], u_password = None, u_host = Some (ascii ''h''), u_port = None, u_port_or_default = Some 443,
       u_path = [47], u_query = None, u_fragment = None\<rparr>,
     sp_headers = [(ascii ''host'', ascii ''h'')], sp_payload_hash = ascii ''0'', sp_timestamp = ascii ''20250101T000000Z''\<rparr>"

lemma sign_example_request:
  "m \<in> {ascii ''GET'', ascii ''get''} \<Longrightarrow>
   canonical_request plain_sigv4 (sign_example m) = ascii ''GET'' @ [10, 47, 10, 10] @ ascii ''host:h'' @ [10, 10] @ ascii ''host'' @ [10] @ ascii ''0''"
  by (auto simp: canonical_request_def sign_example_def plain_sigv4_def canonical_uri_def canonical_query_def canonical_headers_def
      signed_header_names_def join_with_def canonical_header_value_def trim_def is_whitespace_def is_ascii_whitespace_def to_ascii_uppercase_def
      to_ascii_lowercase_def)

lemma sign_example_same:
  "string_to_sign plain_sigv4 (sign_example (ascii ''get'')) = string_to_sign plain_sigv4 (sign_example (ascii ''GET''))"
  "request_signature plain_sigv4 (sign_example (ascii ''get'')) = request_signature plain_sigv4 (sign_example (ascii ''GET''))"
  unfolding request_signature_def string_to_sign_def sign_example_request [OF insertI1] sign_example_request [OF insertI2 [OF singletonI]]
  by (simp_all add: credential_scope_def sign_example_def signing_key_def)

lemma sign_example_strings:
  assumes "m \<in> {ascii ''GET'', ascii ''get''}"
  shows "rust_string (string_to_sign plain_sigv4 (sign_example m))" "rust_string (canonical_request plain_sigv4 (sign_example m))"
proof -
  have d: "is_scalar (hex_digit n)" if "n < 16" for n using that by (auto simp: hex_digit_def is_scalar_def)
  have "unat b div 16 < 16" for b :: "8 word" using unsigned_less [of b, where ?'a = nat] by simp
  then have "list_all is_scalar (hex_text bs)" for bs by (auto simp: hex_text_def list_all_iff d)
  then show "rust_string (string_to_sign plain_sigv4 (sign_example m))"
    unfolding string_to_sign_def sha256_hex_def rust_string_def list_all_append
    by (simp add: credential_scope_def sign_example_def is_scalar_def)
  show "rust_string (canonical_request plain_sigv4 (sign_example m))"
    unfolding sign_example_request [OF assms] rust_string_def by (simp add: is_scalar_def)
qed


end
