(* ===== verification/HttpDial.thy ===== *)
theory HttpDial
  imports Sigv4
begin

text \<open>
  The dial loop of the HTTP plane, from \<^verbatim>\<open>crates/aka-core/src/capability/http.rs\<close> (\<open>dial\<close>, \<open>sigv4_hop_headers\<close>): the
  credential is attached to every hop, redirects are followed on the pinned authority only, a rejected OAuth token
  is renewed once for an MCP message. The upstream is a function from the number of the request and the request to
  an answer; the trace of requests sent is part of the result. Rendering, token renewal, URLs and clocks are parameters.
\<close>

subsection \<open>Requests and answers\<close>

text \<open>A header value is its text, if it is text; \<open>rq_body\<close> says whether the body is sent.\<close>

record http_request =
  rq_method :: http_method
  rq_url :: url
  rq_headers :: "(ustring \<times> ustring option) list"
  rq_body :: bool

record http_response =
  rs_status :: nat
  rs_has_www_authenticate :: bool
  rs_location :: "ustring option"

datatype upstream_answer = Answered http_response | TimedOut ustring | SendFailed ustring

record dial_error =
  de_status :: nat
  de_reason :: error_reason
  de_detail :: ustring

record dialed =
  dl_response :: http_response
  dl_redactions :: redactions
  dl_redirects :: nat

text \<open>
  The parameters: the URL crate, the signing primitives, \<open>percent_decode\<close>, the clock as it prints the \<open>n\<close>-th date, the upstream,
  the renewal of a token, the second rendering, and the texts of URL errors.
\<close>

record dial_env =
  dn_url :: url_env
  dn_sign :: sigv4_env
  dn_decode :: "ustring \<Rightarrow> ustring option"
  dn_date :: "nat \<Rightarrow> ustring"
  dn_answer :: "nat \<Rightarrow> http_request \<Rightarrow> upstream_answer"
  dn_refresh :: bool
  dn_rerender :: "dial_error + rendered_injection"
  dn_max_redirects :: nat
  dn_parse_error :: "ustring \<Rightarrow> ustring"
  dn_join_error :: "url \<Rightarrow> ustring \<Rightarrow> ustring"

text \<open>What a call fixes: the pinned authority, the validated headers, the body and what is known of it (\<open>dc_body_error\<close>: a spooled body cannot be
  opened).\<close>

record dial_call =
  dc_scheme :: ustring
  dc_host :: ustring
  dc_port :: "nat option"
  dc_headers :: "(ustring \<times> ustring) list"
  dc_body_empty :: bool
  dc_inline_body :: "bytes option"
  dc_body_error :: "ustring option"
  dc_has_grant :: bool
  dc_mcp_message :: bool

record dial_state =
  ds_method :: http_method
  ds_url :: url
  ds_send_body :: bool
  ds_hops :: nat
  ds_recovered :: bool
  ds_injection :: rendered_injection
  ds_redactions :: redactions

definition broker_error :: "nat \<Rightarrow> error_reason \<Rightarrow> ustring \<Rightarrow> dial_error" where
  "broker_error st reason detail = \<lparr>de_status = st, de_reason = reason, de_detail = detail\<rparr>"

subsection \<open>Signing a hop\<close>

text \<open>\<open>forwarded\<close> without the fields that carry the authentication.\<close>

definition drop_signing_fields :: "(ustring \<times> ustring) list \<Rightarrow> (ustring \<times> ustring) list" where
  "drop_signing_fields hs =
     filter (\<lambda>(n, _). n \<notin> set [ascii ''x-amz-date'', ascii ''x-amz-content-sha256'', ascii ''x-amz-security-token'']) hs"

definition token_field :: "sigv4_credentials \<Rightarrow> (ustring \<times> ustring) list" where
  "token_field c = (case sv_session_token c of Some t \<Rightarrow> [(ascii ''x-amz-security-token'', t)] | None \<Rightarrow> [])"

definition hop_sign_params ::
    "sigv4_credentials \<Rightarrow> http_method \<Rightarrow> url \<Rightarrow> ustring \<Rightarrow> ustring \<Rightarrow> (ustring \<times> ustring) list \<Rightarrow> ustring \<Rightarrow> sign_params" where
  "hop_sign_params c m u pay date forwarded host_header =
     \<lparr>sp_access_key = sv_access_key c, sp_secret_key = sv_secret_key c, sp_region = sv_region c, sp_service = sv_service c,
      sp_method = method_text m, sp_url = u,
      sp_headers = [(ascii ''host'', host_header), (ascii ''x-amz-content-sha256'', pay), (ascii ''x-amz-date'', date)] @
        filter (\<lambda>(n, _). prefix (ascii ''x-amz-'') n) forwarded @ token_field c,
      sp_payload_hash = pay, sp_timestamp = date\<rparr>"

text \<open>The headers of a signed hop and the value of its \<^verbatim>\<open>Authorization\<close>.\<close>

definition sigv4_hop_headers ::
    "sigv4_env \<Rightarrow> sigv4_credentials \<Rightarrow> http_method \<Rightarrow> url \<Rightarrow> ustring \<Rightarrow> ustring \<Rightarrow> (ustring \<times> ustring) list \<Rightarrow>
     ustring + (ustring \<times> ustring) list \<times> ustring" where
  "sigv4_hop_headers S c m u pay date forwarded =
     (case u_host u of
        None \<Rightarrow> Err (ascii ''upstream URL has no host'')
      | Some h \<Rightarrow>
          let host_header = (case u_port u of Some p \<Rightarrow> h @ [58] @ show_nat p | None \<Rightarrow> h);
              authorization = sign_request S (hop_sign_params c m u pay date forwarded host_header) in
          Ok ([(ascii ''authorization'', authorization), (ascii ''x-amz-content-sha256'', pay), (ascii ''x-amz-date'', date)] @
              token_field c, authorization))"

definition hop_payload_hash :: "sigv4_env \<Rightarrow> dial_call \<Rightarrow> bool \<Rightarrow> ustring" where
  "hop_payload_hash S c send_body =
     (if \<not> send_body \<or> dc_body_empty c then EMPTY_PAYLOAD_SHA256
      else case dc_inline_body c of Some b \<Rightarrow> sha256_hex S b | None \<Rightarrow> UNSIGNED_PAYLOAD)"

text \<open>
  The request of one hop with its credential, and the redactions with the signature registered. A header
  whose value is not text cannot be signed; values here are text, and a signer's output is a valid value.
\<close>

definition hop_credential :: "dial_env \<Rightarrow> dial_call \<Rightarrow> nat \<Rightarrow> dial_state \<Rightarrow> dial_error + http_request \<times> redactions" where
  "hop_credential D c n s =
     (let body = (ds_send_body s \<and> \<not> dc_body_empty c);
          plain = \<lparr>rq_method = ds_method s, rq_url = ds_url s, rq_headers = map (apsnd Some) (dc_headers c), rq_body = body\<rparr> in
      case ds_injection s of
        InjectNone \<Rightarrow> Ok (plain, ds_redactions s)
      | InjectHeader name v \<Rightarrow>
          Ok (plain\<lparr>rq_headers := map (apsnd Some) (dc_headers c) @ [(name, v)]\<rparr>, ds_redactions s)
      | InjectQuery fragment \<Rightarrow>
          let combined = (case u_query (ds_url s) of
                            Some q \<Rightarrow> if q \<noteq> [] then q @ [38] @ fragment else fragment
                          | None \<Rightarrow> fragment) in
          Ok (plain\<lparr>rq_url := ue_set_query (dn_url D) (ds_url s) combined\<rparr>, ds_redactions s)
      | InjectSigv4 credentials \<Rightarrow>
          let headers = drop_signing_fields (dc_headers c) in
          (case sigv4_hop_headers (dn_sign D) credentials (ds_method s) (ds_url s)
                  (hop_payload_hash (dn_sign D) c (ds_send_body s)) (dn_date D n) headers of
             Inl e \<Rightarrow> Err (broker_error 500 CredentialRenderFailed e)
           | Inr (hop_fields, authorization) \<Rightarrow>
               Ok (plain\<lparr>rq_headers := map (apsnd Some) (headers @ hop_fields)\<rparr>, add_signature authorization (ds_redactions s))))"

definition hop_request :: "dial_env \<Rightarrow> dial_call \<Rightarrow> nat \<Rightarrow> dial_state \<Rightarrow> dial_error + http_request \<times> redactions" where
  "hop_request D c n s =
     (case hop_credential D c n s of
        Inl e \<Rightarrow> Err e
      | Inr (rq, reds) \<Rightarrow>
          (case dc_body_error c of
             Some e \<Rightarrow> if rq_body rq then Err (broker_error 500 BodyUnavailable e) else Ok (rq, reds)
           | None \<Rightarrow> Ok (rq, reds)))"

subsection \<open>The loop\<close>

definition clean_url :: "url \<Rightarrow> bool" where
  "clean_url u \<longleftrightarrow> u_username u = [] \<and> u_password u = None"

definition pinned :: "dial_call \<Rightarrow> url \<Rightarrow> bool" where
  "pinned c u \<longleftrightarrow> same_pinned_authority u (dc_scheme c) (dc_host c) (dc_port c)"

definition credential_rejected :: "http_response \<Rightarrow> bool" where
  "credential_rejected r \<longleftrightarrow> rs_status r = 401 \<or> rs_status r = 403 \<and> rs_has_www_authenticate r"

text \<open>Whether the token is renewed and the message replayed.\<close>

definition recovers :: "dial_env \<Rightarrow> dial_call \<Rightarrow> dial_state \<Rightarrow> http_response \<Rightarrow> bool" where
  "recovers D c s r \<longleftrightarrow> \<not> ds_recovered s \<and> dc_has_grant c \<and> dc_mcp_message c \<and> credential_rejected r"

text \<open>The redirect that is followed, if any.\<close>

definition followed_redirect :: "dial_env \<Rightarrow> dial_call \<Rightarrow> dial_state \<Rightarrow> http_response \<Rightarrow> url option" where
  "followed_redirect D c s r =
     (if ds_hops s < dn_max_redirects D \<and> rs_status r \<in> {301, 302, 303, 307, 308} then
        (case rs_location r of
           None \<Rightarrow> None
         | Some l \<Rightarrow>
             (case ue_join (dn_url D) (ds_url s) l of
                None \<Rightarrow> None
              | Some u \<Rightarrow> if clean_url u \<and> pinned c u then Some (u\<lparr>u_fragment := None\<rparr>) else None))
      else None)"

definition redirected :: "dial_state \<Rightarrow> nat \<Rightarrow> url \<Rightarrow> dial_state" where
  "redirected s st u =
     (let s = s\<lparr>ds_hops := ds_hops s + 1, ds_url := u\<rparr> in
      if st = 303 \<or> (st \<in> {301, 302} \<and> ds_method s = POST) then s\<lparr>ds_method := GET, ds_send_body := False\<rparr> else s)"

definition dial_finish :: "dial_state \<Rightarrow> http_response \<Rightarrow> dial_error + dialed" where
  "dial_finish s r = Ok \<lparr>dl_response = r, dl_redactions = ds_redactions s, dl_redirects = ds_hops s\<rparr>"

function dial_loop :: "dial_env \<Rightarrow> dial_call \<Rightarrow> nat \<Rightarrow> dial_state \<Rightarrow> (dial_error + dialed) \<times> http_request list" where
  "dial_loop D c n s =
     (case hop_request D c n s of
        Inl e \<Rightarrow> (Err e, [])
      | Inr (rq, reds) \<Rightarrow>
          let s = s\<lparr>ds_redactions := reds\<rparr> in
          (case dn_answer D n rq of
             TimedOut e \<Rightarrow> (Err (broker_error 504 UpstreamTimeout e), [rq])
           | SendFailed e \<Rightarrow> (Err (broker_error 502 UpstreamError e), [rq])
           | Answered r \<Rightarrow>
               if recovers D c s r \<and> dn_refresh D then
                 (case dn_rerender D of
                    Inl e \<Rightarrow> (Err e, [rq])
                  | Inr i \<Rightarrow>
                      (case dial_loop D c (n + 1) (s\<lparr>ds_recovered := True, ds_injection := i, ds_redactions := from_injection (dn_decode D) i\<rparr>) of
                         (res, tr) \<Rightarrow> (res, rq # tr)))
               else
                 let s = s\<lparr>ds_recovered := ds_recovered s \<or> recovers D c s r\<rparr> in
                 (case followed_redirect D c s r of
                    None \<Rightarrow> (dial_finish s r, [rq])
                  | Some u \<Rightarrow>
                      (case dial_loop D c (n + 1) (redirected s (rs_status r) u) of (res, tr) \<Rightarrow> (res, rq # tr)))))"
  by pat_completeness auto
termination
  by (relation "measure (\<lambda>(D, c, n, s). (dn_max_redirects D - ds_hops s) + (if ds_recovered s then 0 else 1))")
    (auto simp: recovers_def followed_redirect_def redirected_def Let_def split: if_splits)

declare dial_loop.simps [simp del]

text \<open>
  The whole dial: \<open>client\<close> is the error of building the client, \<open>first\<close> the first rendering. Renewing an expiring token before
  the call changes only what is rendered.
\<close>

definition dial :: "dial_env \<Rightarrow> ustring option \<Rightarrow> dial_error + rendered_injection \<Rightarrow> connection_config \<Rightarrow> dial_call \<Rightarrow> http_method \<Rightarrow> ustring \<Rightarrow>
    (dial_error + dialed) \<times> http_request list" where
  "dial D client first_render cfg c m path =
     (case pinned_base cfg of
        None \<Rightarrow> (Err (broker_error 500 WrongConnectionType (ascii ''not an api connection'')), [])
      | Some (scheme, host, prt) \<Rightarrow>
          let c = c\<lparr>dc_scheme := scheme, dc_host := host, dc_port := prt\<rparr> in
          (case client of
             Some e \<Rightarrow> (Err (broker_error 500 BadConnectionConfig e), [])
           | None \<Rightarrow>
               (case first_render of
                  Inl e \<Rightarrow> (Err e, [])
                | Inr injection \<Rightarrow>
                    (case ue_parse (dn_url D) (scheme @ ascii ''://'' @ host) of
                       None \<Rightarrow> (Err (broker_error 500 BadConnectionConfig (dn_parse_error D (scheme @ ascii ''://'' @ host))), [])
                     | Some base \<Rightarrow>
                         (case ue_set_port (dn_url D) base prt of
                            None \<Rightarrow> (Err (broker_error 500 BadConnectionConfig (ascii ''cannot set port'')), [])
                          | Some base \<Rightarrow>
                              (case ue_join (dn_url D) base path of
                                 None \<Rightarrow> (Err (broker_error 400 InvalidPath (dn_join_error D base path)), [])
                               | Some u \<Rightarrow>
                                   if \<not> pinned c u \<or> \<not> clean_url u
                                   then (Err (broker_error 400 InvalidPath (ascii ''path escaped the pinned authority'')), [])
                                   else dial_loop D c 0
                                     \<lparr>ds_method = m, ds_url = u, ds_send_body = True, ds_hops = 0, ds_recovered = False,
                                      ds_injection = injection, ds_redactions = from_injection (dn_decode D) injection\<rparr>))))))"

subsection \<open>Hops stay pinned\<close>

text \<open>Setting the query changes nothing else that matters.\<close>

definition query_only :: "url_env \<Rightarrow> bool" where
  "query_only U \<longleftrightarrow> (\<forall>u q. let v = ue_set_query U u q in u_scheme v = u_scheme u \<and> u_host v = u_host u \<and>
     u_port_or_default v = u_port_or_default u \<and> u_username v = u_username u \<and> u_password v = u_password u)"

lemma hop_request_url:
  assumes "hop_request D c n s = Inr (rq, reds)" "query_only (dn_url D)" "pinned c (ds_url s)" "clean_url (ds_url s)"
  shows "pinned c (rq_url rq) \<and> clean_url (rq_url rq)"
proof -
  have "hop_credential D c n s = Inr (rq, reds)"
    using assms(1) by (auto simp: hop_request_def split: sum.splits option.splits if_splits)
  then have "rq_url rq = ds_url s \<or> (\<exists>q. rq_url rq = ue_set_query (dn_url D) (ds_url s) q)"
    by (auto simp: hop_credential_def Let_def split: rendered_injection.splits sum.splits)
  moreover have "pinned c (ue_set_query (dn_url D) (ds_url s) q) \<and> clean_url (ue_set_query (dn_url D) (ds_url s) q)" for q
    using assms(2-4) by (simp add: query_only_def Let_def pinned_def clean_url_def same_pinned_authority_def)
  ultimately show ?thesis using assms(3,4) by auto
qed

lemma followed_redirectD:
  assumes "followed_redirect D c s r = Some u"
  shows "pinned c u \<and> clean_url u \<and> ds_hops s < dn_max_redirects D"
  using assms by (auto simp: followed_redirect_def pinned_def clean_url_def same_pinned_authority_def Let_def split: if_splits option.splits)

lemma dial_loop_cases:
  assumes "dial_loop D c n s = (res, tr)"
  obtains (refused) e where "hop_request D c n s = Inl e" "res = Inl e" "tr = []"
  | (failed) rq reds e where "hop_request D c n s = Inr (rq, reds)" "res = Inl e" "tr = [rq]"
  | (finished) rq reds r where "hop_request D c n s = Inr (rq, reds)"
      "res = Inr \<lparr>dl_response = r, dl_redactions = reds, dl_redirects = ds_hops s\<rparr>" "tr = [rq]"
  | (recover) rq reds i tr' where "hop_request D c n s = Inr (rq, reds)" "\<not> ds_recovered s" "dc_has_grant c" "dc_mcp_message c" "tr = rq # tr'"
      "dial_loop D c (n + 1) (s\<lparr>ds_recovered := True, ds_injection := i, ds_redactions := from_injection (dn_decode D) i\<rparr>) = (res, tr')"
  | (redirect) rq reds st b u tr' where "hop_request D c n s = Inr (rq, reds)" "ds_recovered s \<longrightarrow> b" "pinned c u" "clean_url u"
      "ds_hops s < dn_max_redirects D" "tr = rq # tr'" "b \<longrightarrow> ds_recovered s \<or> dc_has_grant c"
      "dial_loop D c (n + 1) (redirected (s\<lparr>ds_redactions := reds, ds_recovered := b\<rparr>) st u) = (res, tr')"
proof (cases "hop_request D c n s")
  case (Inl e)
  then show ?thesis using assms refused by (simp add: dial_loop.simps [of D c n s])
next
  case (Inr p)
  obtain rq reds where hop: "hop_request D c n s = Inr (rq, reds)" using Inr by (cases p) simp
  let ?s = "s\<lparr>ds_redactions := reds\<rparr>"
  note unf = assms [unfolded dial_loop.simps [of D c n s] hop sum.case prod.case Let_def]
  show ?thesis
  proof (cases "dn_answer D n rq")
    case (Answered r)
    show ?thesis
    proof (cases "recovers D c ?s r \<and> dn_refresh D")
      case True
      then show ?thesis
        using unf Answered failed [OF hop] recover [OF hop] by (auto simp: recovers_def split: sum.splits prod.splits)
    next
      case False
      show ?thesis
      proof (cases "followed_redirect D c (?s\<lparr>ds_recovered := ds_recovered ?s \<or> recovers D c ?s r\<rparr>) r")
        case None
        then show ?thesis using unf Answered False finished [OF hop] by (auto simp: dial_finish_def)
      next
        case (Some u)
        note f = followed_redirectD [OF Some]
        obtain res' tr' where "dial_loop D c (n + 1) (redirected (?s\<lparr>ds_recovered := ds_recovered ?s \<or> recovers D c ?s r\<rparr>) (rs_status r) u) = (res', tr')" by force
        moreover have "ds_recovered s \<or> recovers D c ?s r \<longrightarrow> ds_recovered s \<or> dc_has_grant c" by (simp add: recovers_def)
        ultimately show ?thesis using unf Answered False Some f redirect [OF hop, of "ds_recovered s \<or> recovers D c ?s r" u tr' "rs_status r"]
          by simp
      qed
    qed
  qed (use unf failed [OF hop] in auto)
qed

lemma redirected_simps [simp]:
  "ds_hops (redirected s st u) = ds_hops s + 1" "ds_url (redirected s st u) = u" "ds_recovered (redirected s st u) = ds_recovered s"
  "ds_injection (redirected s st u) = ds_injection s" "ds_redactions (redirected s st u) = ds_redactions s"
  by (simp_all add: redirected_def Let_def)

lemma dial_loop_pinned:
  assumes "query_only (dn_url D)" "dial_loop D c n s = (res, tr)" "pinned c (ds_url s)" "clean_url (ds_url s)"
  shows "(\<forall>rq \<in> set tr. pinned c (rq_url rq) \<and> clean_url (rq_url rq)) \<and>
    length tr \<le> dn_max_redirects D - ds_hops s + 1 + (if \<not> ds_recovered s \<and> dc_has_grant c \<and> dc_mcp_message c then 1 else 0)"
  using assms(2-)
proof (induction "(dn_max_redirects D - ds_hops s) + (if ds_recovered s then 0 else 1 :: nat)" arbitrary: n s res tr rule: less_induct)
  case less
  from less.prems(1) show ?case
  proof (cases rule: dial_loop_cases)
    case (failed rq reds e)
    then show ?thesis using hop_request_url [OF failed(1) assms(1) less.prems(2,3)] by simp
  next
    case (finished rq reds r)
    then show ?thesis using hop_request_url [OF finished(1) assms(1) less.prems(2,3)] by simp
  next
    case (recover rq reds i tr')
    have "(\<forall>rq \<in> set tr'. pinned c (rq_url rq) \<and> clean_url (rq_url rq)) \<and> length tr' \<le> dn_max_redirects D - ds_hops s + 1"
      using less.hyps [OF _ recover(6)] less.prems(2,3) recover(2) by simp
    then show ?thesis using hop_request_url [OF recover(1) assms(1) less.prems(2,3)] recover by simp
  next
    case (redirect rq reds st b u tr')
    let ?t = "redirected (s\<lparr>ds_redactions := reds, ds_recovered := b\<rparr>) st u"
    have "(dn_max_redirects D - ds_hops ?t) + (if ds_recovered ?t then 0 else 1) < (dn_max_redirects D - ds_hops s) + (if ds_recovered s then 0 else 1 :: nat)"
      using redirect(2,5) by auto
    from less.hyps [OF this redirect(8)] redirect(3,4)
    have "(\<forall>rq \<in> set tr'. pinned c (rq_url rq) \<and> clean_url (rq_url rq)) \<and>
        length tr' \<le> dn_max_redirects D - (ds_hops s + 1) + 1 + (if \<not> b \<and> dc_has_grant c \<and> dc_mcp_message c then 1 else 0)" by simp
    then show ?thesis using hop_request_url [OF redirect(1) assms(1) less.prems(2,3)] redirect(2,5,6) by (cases b) auto
  qed simp
qed

text \<open>
  C8. The credential goes nowhere but to the pinned upstream: every request of a call, after any redirects and whatever the
  upstream answers, goes to the connection's own host, over its scheme and port (or the TLS upgrade of plaintext), without user
  info; and a call sends at most one request per allowed redirect, one more to begin with and one to replay an MCP message
  with a renewed token. The hypothesis says that setting a URL's query leaves the rest of it alone.
\<close>

theorem dial_stays_pinned:
  assumes "query_only (dn_url D)" "dial D client first_render (Api a) c m path = (res, tr)"
  shows "(\<forall>rq \<in> set tr. same_pinned_authority (rq_url rq) (api_scheme a) (api_host a) (map_option unat (api_port a)) \<and> clean_url (rq_url rq)) \<and>
    length tr \<le> dn_max_redirects D + 1 + (if dc_has_grant c \<and> dc_mcp_message c then 1 else 0)"
proof -
  let ?c = "c\<lparr>dc_scheme := api_scheme a, dc_host := api_host a, dc_port := map_option unat (api_port a)\<rparr>"
  consider "tr = []" | s where "dial_loop D ?c 0 s = (res, tr)" "pinned ?c (ds_url s)" "clean_url (ds_url s)" "ds_hops s = 0" "\<not> ds_recovered s"
    using assms(2) by (auto simp: dial_def pinned_base_def Let_def split: option.splits sum.splits if_splits)
  then show ?thesis
  proof cases
    case 2
    from dial_loop_pinned [OF assms(1) 2(1-3)] 2(4,5) show ?thesis by (simp add: pinned_def)
  qed simp
qed

definition example_url :: "ustring \<Rightarrow> ustring \<Rightarrow> url" where
  "example_url h p = \<lparr>u_scheme = ascii ''https'', u_username = [], u_password = None, u_host = Some h, u_port = None, u_port_or_default = Some 443,
     u_path = p, u_query = None, u_fragment = None\<rparr>"

text \<open>An upstream that redirects to itself once and then away.\<close>

definition dial_example :: dial_env where
  "dial_example = \<lparr>
     dn_url = \<lparr>ue_parse = (\<lambda>_. Some (example_url (ascii ''h'') [])), ue_join = (\<lambda>u l. Some (if l = [47] then u\<lparr>u_path := l\<rparr> else example_url (ascii ''evil'') [47])),
       ue_set_port = (\<lambda>u _. Some u), ue_set_query = (\<lambda>u q. u\<lparr>u_query := Some q\<rparr>), ue_authority = (\<lambda>_. [])\<rparr>,
     dn_sign = plain_sigv4, dn_decode = (\<lambda>_. None), dn_date = (\<lambda>_. []),
     dn_answer = (\<lambda>n _. Answered \<lparr>rs_status = 302, rs_has_www_authenticate = False, rs_location = Some (if n = 0 then [47] else ascii ''//evil/'')\<rparr>),
     dn_refresh = False, dn_rerender = Ok InjectNone, dn_max_redirects = 5, dn_parse_error = (\<lambda>_. []), dn_join_error = (\<lambda>_ _. [])\<rparr>"

definition dial_example_call :: dial_call where
  "dial_example_call = \<lparr>dc_scheme = [], dc_host = [], dc_port = None, dc_headers = [], dc_body_empty = True, dc_inline_body = None, dc_body_error = None,
     dc_has_grant = False, dc_mcp_message = False\<rparr>"

definition dial_example_config :: api_config where
  "dial_example_config = \<lparr>api_host = ascii ''h'', api_scheme = ascii ''https'', api_port = None, api_trusted_ca_bundle_path = None, api_template = [],
     mcp_path = None, test_path = None, api_oauth = None, signer = None, client_cert_path = None, client_key_path = None\<rparr>"

theorem dial_stays_pinned_witness:
  "length (snd (dial dial_example None (Ok (InjectHeader (ascii ''x-key'') (Some (ascii ''k'')))) (Api dial_example_config) dial_example_call GET [47])) \<le> 6 \<and>
   query_only (dn_url dial_example)"
proof -
  have q: "query_only (dn_url dial_example)" by (simp add: query_only_def dial_example_def)
  obtain res tr where d: "dial dial_example None (Ok (InjectHeader (ascii ''x-key'') (Some (ascii ''k'')))) (Api dial_example_config) dial_example_call GET [47] = (res, tr)"
    by force
  from dial_stays_pinned [OF q d] q d show ?thesis by (simp add: dial_example_def dial_example_call_def)
qed

subsection \<open>Signatures are needles\<close>

lemma needles_grow: "set (needles r) \<subseteq> set (needles (add_signature a r))" "a \<noteq> [] \<Longrightarrow> a \<in> set (needles (add_signature a r))"
  by (auto simp: add_signature_def Let_def add_component_set add_needle_set split: option.splits)

lemma sigv4_hop:
  assumes "sigv4_hop_headers S cr m u pay date fwd = Inr (fs, a)"
  shows "a \<noteq> [] \<and> (\<forall>v. (ascii ''authorization'', v) \<in> set fs \<longrightarrow> v = a)"
proof -
  obtain host where fs: "fs = [(ascii ''authorization'', a), (ascii ''x-amz-content-sha256'', pay), (ascii ''x-amz-date'', date)] @ token_field cr"
    and a: "a = sign_request S (hop_sign_params cr m u pay date fwd host)"
    using assms by (auto simp: sigv4_hop_headers_def Let_def split: option.splits)
  have "a \<noteq> []" by (simp add: a sign_request_def)
  moreover have "(ascii ''authorization'', v) \<notin> set (token_field cr)" for v by (simp add: token_field_def split: option.split)
  ultimately show ?thesis by (auto simp: fs)
qed

lemma hop_request_needles:
  assumes "hop_request D c n s = Inr (rq, reds)" "ds_injection s = InjectSigv4 cr" "ascii ''authorization'' \<notin> set (map fst (dc_headers c))"
  shows "set (needles (ds_redactions s)) \<subseteq> set (needles reds) \<and> (\<forall>v. (ascii ''authorization'', Some v) \<in> set (rq_headers rq) \<longrightarrow> v \<in> set (needles reds))"
proof -
  have "hop_credential D c n s = Inr (rq, reds)"
    using assms(1) by (auto simp: hop_request_def split: sum.splits option.splits if_splits)
  then obtain hop_fields a where hf: "sigv4_hop_headers (dn_sign D) cr (ds_method s) (ds_url s) (hop_payload_hash (dn_sign D) c (ds_send_body s))
        (dn_date D n) (drop_signing_fields (dc_headers c)) = Inr (hop_fields, a)"
      and h: "rq_headers rq = map (apsnd Some) (drop_signing_fields (dc_headers c) @ hop_fields)" "reds = add_signature a (ds_redactions s)"
    using assms(2) by (auto simp: hop_credential_def Let_def split: sum.splits)
  note sigv4_hop [OF hf]
  moreover have "(ascii ''authorization'', v) \<notin> set (drop_signing_fields (dc_headers c))" for v
    using assms(3) by (force simp: drop_signing_fields_def)
  ultimately show ?thesis using needles_grow(1) [of "ds_redactions s" a] needles_grow(2) [of a "ds_redactions s"] h by auto
qed

text \<open>
  Every SigV4 signature that a call sent, on whichever hop, is among the strings that are scrubbed from the response
  (a connection with a signer has no OAuth grant, and the agent's own headers do not contain \<^verbatim>\<open>authorization\<close>).
\<close>

theorem signatures_are_redacted:
  assumes "dial_loop D c n s = (Ok d, tr)" "ds_injection s = InjectSigv4 cr" "\<not> dc_has_grant c" "ascii ''authorization'' \<notin> set (map fst (dc_headers c))"
  shows "set (needles (ds_redactions s)) \<subseteq> set (needles (dl_redactions d)) \<and>
    (\<forall>rq \<in> set tr. \<forall>v. (ascii ''authorization'', Some v) \<in> set (rq_headers rq) \<longrightarrow> v \<in> set (needles (dl_redactions d)))"
  using assms(1,2)
proof (induction "(dn_max_redirects D - ds_hops s)" arbitrary: n s tr rule: less_induct)
  case less
  from less.prems(1) show ?case
  proof (cases rule: dial_loop_cases)
    case (finished rq reds r)
    then show ?thesis using hop_request_needles [OF finished(1) less.prems(2) assms(4)] by auto
  next
    case (redirect rq reds st b u tr')
    let ?t = "redirected (s\<lparr>ds_redactions := reds, ds_recovered := b\<rparr>) st u"
    have "dn_max_redirects D - ds_hops ?t < dn_max_redirects D - ds_hops s" using redirect(5) by simp
    from less.hyps [OF this redirect(8)] less.prems(2)
    have "set (needles reds) \<subseteq> set (needles (dl_redactions d))"
      "\<forall>rq \<in> set tr'. \<forall>v. (ascii ''authorization'', Some v) \<in> set (rq_headers rq) \<longrightarrow> v \<in> set (needles (dl_redactions d))" by simp_all
    then show ?thesis using hop_request_needles [OF redirect(1) less.prems(2) assms(4)] redirect(6) by auto
  qed (use assms(3) in auto)
qed

definition sign_example_creds :: sigv4_credentials where
  "sign_example_creds = \<lparr>sv_access_key = ascii ''A'', sv_secret_key = ascii ''K'', sv_session_token = None, sv_region = ascii ''r'', sv_service = ascii ''s3''\<rparr>"

definition sign_example_state :: dial_state where
  "sign_example_state = \<lparr>ds_method = GET, ds_url = example_url (ascii ''h'') [47], ds_send_body = True, ds_hops = 0, ds_recovered = False,
     ds_injection = InjectSigv4 sign_example_creds, ds_redactions = no_redactions\<rparr>"

lemma sign_example_dial:
  "\<exists>d rq v. dial_loop (dial_example\<lparr>dn_max_redirects := 0\<rparr>) dial_example_call 0 sign_example_state = (Ok d, [rq]) \<and>
     (ascii ''authorization'', Some v) \<in> set (rq_headers rq)"
proof -
  let ?D = "dial_example\<lparr>dn_max_redirects := 0\<rparr>"
  obtain fs v where hf: "sigv4_hop_headers (dn_sign ?D) sign_example_creds GET (example_url (ascii ''h'') [47])
      (hop_payload_hash (dn_sign ?D) dial_example_call True) (dn_date ?D 0) (drop_signing_fields (dc_headers dial_example_call)) = Inr ((ascii ''authorization'', v) # fs, v)"
    by (auto simp: sigv4_hop_headers_def example_url_def Let_def)
  have hop: "hop_request ?D dial_example_call 0 sign_example_state =
      Inr (\<lparr>rq_method = GET, rq_url = example_url (ascii ''h'') [47],
        rq_headers = map (apsnd Some) (drop_signing_fields (dc_headers dial_example_call) @ (ascii ''authorization'', v) # fs), rq_body = False\<rparr>,
        add_signature v no_redactions)"
    using hf by (simp add: hop_request_def hop_credential_def sign_example_state_def Let_def del: map_append) (simp add: dial_example_call_def)
  show ?thesis
    by (subst dial_loop.simps, unfold hop) (simp add: recovers_def dial_example_def dial_example_call_def followed_redirect_def Let_def
        sign_example_state_def dial_finish_def credential_rejected_def, blast)
qed

theorem signatures_are_redacted_witness:
  "\<exists>d rq v. dial_loop (dial_example\<lparr>dn_max_redirects := 0\<rparr>) dial_example_call 0 sign_example_state = (Ok d, [rq]) \<and>
     (ascii ''authorization'', Some v) \<in> set (rq_headers rq) \<and> v \<in> set (needles (dl_redactions d))"
proof -
  obtain d rq v where l: "dial_loop (dial_example\<lparr>dn_max_redirects := 0\<rparr>) dial_example_call 0 sign_example_state = (Ok d, [rq])"
    and v: "(ascii ''authorization'', Some v) \<in> set (rq_headers rq)" using sign_example_dial by blast
  have "v \<in> set (needles (dl_redactions d))"
    using signatures_are_redacted [OF l, of sign_example_creds] v by (simp add: sign_example_state_def dial_example_call_def)
  with l v show ?thesis by blast
qed

end
