(* ===== verification/PgWire.thy ===== *)
theory PgWire
  imports Vault CoreTypes "HOL-Library.Sublist"
begin

text \<open>
  The Postgres wire format, from \<^verbatim>\<open>crates/aka-core/src/capability/pg.rs\<close>: framing, C strings, the startup phase that an
  unauthenticated client drives, the check of the identity it asks for, and the startup message sent upstream. A connection
  to a client is the bytes it will send, how its stream ends, the fault each write meets and the bytes written to it.
\<close>

subsection \<open>Lossy UTF-8\<close>

text \<open>\<open>String::from_utf8_lossy\<close>: every maximal malformed piece becomes one replacement character.\<close>

definition three_byte_start :: "nat \<Rightarrow> nat \<Rightarrow> bool" where
  "three_byte_start a b \<longleftrightarrow> a = 224 \<and> 160 \<le> b \<and> b < 192 \<or> (225 \<le> a \<and> a < 240 \<and> a \<noteq> 237) \<and> is_cont b \<or> a = 237 \<and> 128 \<le> b \<and> b < 160"

definition four_byte_start :: "nat \<Rightarrow> nat \<Rightarrow> bool" where
  "four_byte_start a b \<longleftrightarrow> a = 240 \<and> 144 \<le> b \<and> b < 192 \<or> (241 \<le> a \<and> a < 244) \<and> is_cont b \<or> a = 244 \<and> 128 \<le> b \<and> b < 144"

definition lossy_step :: "nat \<Rightarrow> nat list \<Rightarrow> uchar \<times> nat list" where
  "lossy_step a r =
     (if a < 128 then (a, r)
      else case r of
        [] \<Rightarrow> (65533, [])
      | b # r1 \<Rightarrow>
          if 194 \<le> a \<and> a < 224 \<and> is_cont b then ((a - 192) * 64 + (b - 128), r1)
          else if three_byte_start a b then
            (case r1 of
               [] \<Rightarrow> (65533, [])
             | c # r2 \<Rightarrow> if is_cont c then ((a - 224) * 4096 + (b - 128) * 64 + (c - 128), r2) else (65533, r1))
          else if four_byte_start a b then
            (case r1 of
               [] \<Rightarrow> (65533, [])
             | c # r2 \<Rightarrow>
                 if \<not> is_cont c then (65533, r1)
                 else case r2 of
                   [] \<Rightarrow> (65533, [])
                 | d # r3 \<Rightarrow>
                     if is_cont d then ((a - 240) * 262144 + (b - 128) * 4096 + (c - 128) * 64 + (d - 128), r3) else (65533, r2))
          else (65533, r))"

lemma lossy_step_length: "lossy_step a r = (c, r') \<Longrightarrow> length r' \<le> length r"
  by (auto simp: lossy_step_def split: if_splits list.splits)

function lossy :: "nat list \<Rightarrow> ustring" where
  "lossy [] = []"
| "lossy (a # r) = (case lossy_step a r of (c, r') \<Rightarrow> c # lossy r')"
  by pat_completeness auto
termination
  by (relation "measure length") (auto dest!: lossy_step_length [OF sym])

definition from_utf8_lossy :: "bytes \<Rightarrow> ustring" where
  "from_utf8_lossy bs = lossy (map unat bs)"

lemma base64_digits:
  fixes c :: nat
  shows "c = c div 4096 * 4096 + c div 64 mod 64 * 64 + c mod 64"
    and "c = c div 262144 * 262144 + c div 4096 mod 64 * 4096 + c div 64 mod 64 * 64 + c mod 64"
proof -
  have a: "c = c div 64 * 64 + c mod 64" "c div 64 = c div 64 div 64 * 64 + c div 64 mod 64"
    "c div 64 div 64 = c div 64 div 64 div 64 * 64 + c div 64 div 64 mod 64" by simp_all
  have b: "c div 4096 = c div 64 div 64" "c div 262144 = c div 64 div 64 div 64" by (simp_all add: div_mult2_eq [symmetric])
  show "c = c div 4096 * 4096 + c div 64 mod 64 * 64 + c mod 64" using a(1,2) unfolding b by linarith
  show "c = c div 262144 * 262144 + c div 4096 mod 64 * 4096 + c div 64 mod 64 * 64 + c mod 64" using a unfolding b by linarith
qed

lemma lossy_step_char:
  assumes "is_scalar c" "utf8_char c = a # t"
  shows "lossy_step a (t @ r) = (c, r)"
proof -
  consider "c < 128" | "128 \<le> c" "c < 2048" | "2048 \<le> c" "c < 65536" | "65536 \<le> c" by linarith
  then show ?thesis
  proof cases
    case 2
    then have "c div 64 < 32" "2 \<le> c div 64" by (auto intro: div_le_mono [of 128, simplified])
    moreover have "c div 64 * 64 + c mod 64 = c" by simp
    ultimately show ?thesis using assms(2) 2 by (auto simp: utf8_char_def lossy_step_def is_cont_def)
  next
    case 3
    note d = base64_digits(1) [of c, symmetric]
    have "c div 4096 < 16" "c div 64 mod 64 < 64" using 3 by auto
    with 3 d assms(1) have "three_byte_start (224 + c div 4096) (128 + c div 64 mod 64)"
      by (auto simp: three_byte_start_def is_cont_def is_scalar_def)
    with d assms(2) 3 show ?thesis by (auto simp: utf8_char_def lossy_step_def is_cont_def)
  next
    case 4
    note d = base64_digits(2) [of c, symmetric]
    have m: "c div 262144 < 5" "c div 4096 mod 64 < 64" "c div 64 mod 64 < 64" "c mod 64 < 64" using assms(1) by (auto simp: is_scalar_def)
    have "c \<le> 1114111" using assms(1) 4 by (auto simp: is_scalar_def)
    with 4 d m have "four_byte_start (240 + c div 262144) (128 + c div 4096 mod 64)"
      unfolding four_byte_start_def is_cont_def by linarith
    with d assms(2) 4 show ?thesis by (auto simp: utf8_char_def lossy_step_def is_cont_def three_byte_start_def)
  qed (use assms(2) in \<open>auto simp: utf8_char_def lossy_step_def\<close>)
qed

lemma lossy_utf8: "rust_string s \<Longrightarrow> lossy (concat (map utf8_char s)) = s"
proof (induction s)
  case (Cons c s)
  obtain a t where u: "utf8_char c = a # t" by (cases "utf8_char c") (auto simp: utf8_char_def split: if_splits)
  from Cons have "is_scalar c" "lossy (concat (map utf8_char s)) = s" by (auto simp: rust_string_def)
  with lossy_step_char [OF this(1) u] u show ?case by simp
qed simp

lemma from_utf8_lossy_as_bytes: "rust_string s \<Longrightarrow> from_utf8_lossy (as_bytes s) = s"
proof -
  assume s: "rust_string s"
  have "map unat (map (of_nat :: nat \<Rightarrow> 8 word) (concat (map utf8_char s))) = concat (map utf8_char s)"
    unfolding map_map using s utf8_char_byte
    by (intro map_idI) (fastforce simp: rust_string_def list_all_iff unat_of_nat)
  then show ?thesis using lossy_utf8 [OF s] by (simp add: from_utf8_lossy_def as_bytes_def)
qed

lemma two_byte_scalar:
  "194 \<le> a \<Longrightarrow> a < 224 \<Longrightarrow> is_cont b \<Longrightarrow> is_scalar ((a - 192) * 64 + (b - 128)) \<and> (a - 192) * 64 + (b - 128) \<noteq> 0"
  unfolding is_scalar_def is_cont_def by linarith

lemma three_byte_scalar:
  "three_byte_start a b \<Longrightarrow> is_cont c \<Longrightarrow>
     is_scalar ((a - 224) * 4096 + (b - 128) * 64 + (c - 128)) \<and> (a - 224) * 4096 + (b - 128) * 64 + (c - 128) \<noteq> 0"
  unfolding is_scalar_def is_cont_def three_byte_start_def by (elim disjE; linarith)

lemma four_byte_scalar:
  "four_byte_start a b \<Longrightarrow> is_cont c \<Longrightarrow> is_cont d \<Longrightarrow>
     is_scalar ((a - 240) * 262144 + (b - 128) * 4096 + (c - 128) * 64 + (d - 128)) \<and>
     (a - 240) * 262144 + (b - 128) * 4096 + (c - 128) * 64 + (d - 128) \<noteq> 0"
  unfolding is_scalar_def is_cont_def four_byte_start_def by (elim disjE; linarith)

lemma lossy_step_scalar: "lossy_step a r = (c, r') \<Longrightarrow> is_scalar c \<and> (c = 0 \<longrightarrow> a = 0)"
  unfolding lossy_step_def
  using two_byte_scalar three_byte_scalar four_byte_scalar
  by (clarsimp simp del: add_is_0 add_eq_0_iff_both_eq_0 mult_is_0 split: if_splits list.splits) (auto simp: is_scalar_def)

lemma lossy_step_set: "lossy_step a r = (c, r') \<Longrightarrow> set r' \<subseteq> set r"
  by (auto simp: lossy_step_def split: if_splits list.splits)

lemma lossy_scalar: "rust_string (lossy bs) \<and> (0 \<in> set (lossy bs) \<longrightarrow> 0 \<in> set bs)"
proof (induction bs rule: lossy.induct)
  case (2 a r)
  obtain c r' where s: "lossy_step a r = (c, r')" by fastforce
  with "2.IH" have "rust_string (lossy r') \<and> (0 \<in> set (lossy r') \<longrightarrow> 0 \<in> set r')" by auto
  then show ?case using s lossy_step_scalar [OF s] lossy_step_set [OF s] by (auto simp: rust_string_def)
qed (simp add: rust_string_def)

lemma from_utf8_lossy_scalar: "rust_string (from_utf8_lossy bs) \<and> (0 \<in> set (from_utf8_lossy bs) \<longrightarrow> 0 \<in> set bs)"
  using lossy_scalar [of "map unat bs"] by (auto simp: from_utf8_lossy_def unat_eq_0)

subsection \<open>Framing\<close>

text \<open>An \<open>i32\<close> is a 32-bit word, read with its sign by \<open>sint\<close>.\<close>

definition put_i32 :: "32 word \<Rightarrow> bytes" where
  "put_i32 v = [ucast (drop_bit 24 v), ucast (drop_bit 16 v), ucast (drop_bit 8 v), ucast v]"

definition put_cstr :: "ustring \<Rightarrow> bytes" where
  "put_cstr s = as_bytes s @ [0]"

text \<open>\<open>be_i32\<close> slices its argument to four bytes and panics on fewer; every caller has checked the length.\<close>

definition be_i32 :: "bytes \<Rightarrow> 32 word" where
  "be_i32 bs = fold (\<lambda>b w. push_bit 8 w OR ucast b) (take 4 bs) 0"

definition frame :: "8 word \<Rightarrow> bytes \<Rightarrow> bytes" where
  "frame tag p = tag # put_i32 (of_nat (length p) + 4) @ p"

datatype io_error = UnexpectedEof | InvalidData ustring | TransportError ustring

definition show_i32 :: "32 word \<Rightarrow> ustring" where
  "show_i32 w = (if sint w < 0 then 45 # show_nat (nat (- sint w)) else show_nat (nat (sint w)))"

definition take_cstr :: "bytes \<Rightarrow> io_error + ustring \<times> bytes" where
  "take_cstr bs =
     (case dropWhile (\<lambda>b. b \<noteq> 0) bs of
        [] \<Rightarrow> Err (InvalidData (ascii ''unterminated string''))
      | _ # rest \<Rightarrow> Ok (from_utf8_lossy (takeWhile (\<lambda>b. b \<noteq> 0) bs), rest))"

record pg_client =
  rd_bytes :: bytes
  rd_end :: io_error
  wr_faults :: "io_error option list"
  wr_out :: bytes

definition read_exact :: "nat \<Rightarrow> pg_client \<Rightarrow> (io_error + bytes) \<times> pg_client" where
  "read_exact n c =
     (if length (rd_bytes c) < n then (Err (rd_end c), c\<lparr>rd_bytes := []\<rparr>)
      else (Ok (take n (rd_bytes c)), c\<lparr>rd_bytes := drop n (rd_bytes c)\<rparr>))"

definition write_all :: "bytes \<Rightarrow> pg_client \<Rightarrow> (io_error + unit) \<times> pg_client" where
  "write_all bs c =
     (case wr_faults c of
        Some e # fs \<Rightarrow> (Err e, c\<lparr>wr_faults := fs\<rparr>)
      | None # fs \<Rightarrow> (Ok (), c\<lparr>wr_faults := fs, wr_out := wr_out c @ bs\<rparr>)
      | [] \<Rightarrow> (Ok (), c\<lparr>wr_out := wr_out c @ bs\<rparr>))"

definition MAX_STARTUP_PACKET :: int where
  "MAX_STARTUP_PACKET = 10000"

definition MAX_HANDSHAKE_MESSAGE :: int where
  "MAX_HANDSHAKE_MESSAGE = 1024 * 1024"

definition read_startup_packet :: "pg_client \<Rightarrow> (io_error + bytes) \<times> pg_client" where
  "read_startup_packet c =
     (case read_exact 4 c of
        (Inl e, c) \<Rightarrow> (Err e, c)
      | (Inr l, c) \<Rightarrow>
          let len = be_i32 l in
          if \<not> (8 \<le> sint len \<and> sint len \<le> MAX_STARTUP_PACKET)
          then (Err (InvalidData (ascii ''invalid startup packet length '' @ show_i32 len)), c)
          else read_exact (nat (sint len) - 4) c)"

definition read_message :: "pg_client \<Rightarrow> (io_error + 8 word \<times> bytes) \<times> pg_client" where
  "read_message c =
     (case read_exact 5 c of
        (Inl e, c) \<Rightarrow> (Err e, c)
      | (Inr h, c) \<Rightarrow>
          let len = be_i32 (drop 1 h) in
          if \<not> (4 \<le> sint len \<and> sint len \<le> MAX_HANDSHAKE_MESSAGE)
          then (Err (InvalidData (ascii ''invalid message length '' @ show_i32 len)), c)
          else (case read_exact (nat (sint len) - 4) c of
                  (Inl e, c) \<Rightarrow> (Err e, c)
                | (Inr p, c) \<Rightarrow> (Ok (hd h, p), c)))"

definition error_response :: "ustring \<Rightarrow> ustring \<Rightarrow> ustring \<Rightarrow> bytes" where
  "error_response severity sqlstate m =
     frame 69 ([83] @ put_cstr severity @ [86] @ put_cstr severity @ [67] @ put_cstr sqlstate @ [77] @ put_cstr m @ [0])"

lemma take_cstr_shorter: "take_cstr bs = Inr (s, rest) \<Longrightarrow> length rest < length bs"
proof -
  assume "take_cstr bs = Inr (s, rest)"
  then have "length (dropWhile (\<lambda>b. b \<noteq> 0) bs) = Suc (length rest)" by (auto simp: take_cstr_def split: list.splits)
  with length_dropWhile_le [of "\<lambda>b. b \<noteq> 0" bs] show ?thesis by linarith
qed

text \<open>The loop of \<open>parse_error_response\<close>, with the code and the message found so far.\<close>

function error_fields :: "bytes \<Rightarrow> ustring \<times> ustring \<Rightarrow> ustring \<times> ustring" where
  "error_fields rest (code, msg) =
     (case rest of
        [] \<Rightarrow> (code, msg)
      | field # tail \<Rightarrow>
          if field = 0 then (code, msg)
          else (case take_cstr tail of
                  Inl _ \<Rightarrow> (code, msg)
                | Inr (v, tail) \<Rightarrow> error_fields tail (if field = 67 then v else code, if field = 77 then v else msg)))"
  by pat_completeness auto
termination
  by (relation "measure (length \<circ> fst)") (auto dest!: take_cstr_shorter)

declare error_fields.simps [simp del]

definition parse_error_response :: "bytes \<Rightarrow> ustring \<times> ustring" where
  "parse_error_response p = error_fields p ([], [])"

function startup_params :: "bytes \<Rightarrow> (ustring \<times> ustring) list \<Rightarrow> io_error + (ustring \<times> ustring) list" where
  "startup_params rest params =
     (case take_cstr rest of
        Inl e \<Rightarrow> Err e
      | Inr (n, tail) \<Rightarrow>
          if n = [] then Ok params
          else (case take_cstr tail of
                  Inl e \<Rightarrow> Err e
                | Inr (v, tail) \<Rightarrow> startup_params tail (params @ [(n, v)])))"
  by pat_completeness auto
termination
  by (relation "measure (length \<circ> fst)") (auto dest!: take_cstr_shorter)

declare startup_params.simps [simp del]

definition parse_startup_params :: "bytes \<Rightarrow> io_error + (ustring \<times> ustring) list" where
  "parse_startup_params rest = startup_params rest []"

subsection \<open>Round trips\<close>

lemma length_put_i32 [simp]: "length (put_i32 v) = 4"
  by (simp add: put_i32_def)

lemma be_i32_put: "be_i32 (put_i32 v @ r) = v"
proof -
  have "be_i32 (put_i32 v @ r) = push_bit 8 (push_bit 8 (push_bit 8 (ucast (ucast (drop_bit 24 v) :: 8 word) :: 32 word) OR
      ucast (ucast (drop_bit 16 v) :: 8 word)) OR ucast (ucast (drop_bit 8 v) :: 8 word)) OR ucast (ucast v :: 8 word)"
    by (simp add: be_i32_def put_i32_def)
  also have "\<dots> = v"
  proof (rule bit_word_eqI)
    fix n assume "n < LENGTH(32)"
    then consider "n < 8" | "8 \<le> n" "n < 16" | "16 \<le> n" "n < 24" | "24 \<le> n" "n < 32" by fastforce
    then show "bit (push_bit 8 (push_bit 8 (push_bit 8 (ucast (ucast (drop_bit 24 v) :: 8 word) :: 32 word) OR
      ucast (ucast (drop_bit 16 v) :: 8 word)) OR ucast (ucast (drop_bit 8 v) :: 8 word)) OR ucast (ucast v :: 8 word)) n = bit v n"
      by cases (auto simp: bit_simps)
  qed
  finally show ?thesis .
qed

lemma no_nul_utf8: "is_scalar c \<Longrightarrow> c \<noteq> 0 \<Longrightarrow> 0 \<notin> (of_nat :: nat \<Rightarrow> 8 word) ` set (utf8_char c)"
proof
  assume a: "is_scalar c" "c \<noteq> 0" "0 \<in> (of_nat :: nat \<Rightarrow> 8 word) ` set (utf8_char c)"
  then obtain b where b: "b \<in> set (utf8_char c)" "(of_nat b :: 8 word) = 0" by auto
  from utf8_char_byte [OF a(1) b(1)] have "unat (of_nat b :: 8 word) = b" by (simp add: unat_of_nat)
  with b(2) have "b = 0" by simp
  with b(1) a(2) show False by (auto simp: utf8_char_def split: if_splits)
qed

definition c_string :: "ustring \<Rightarrow> bool" where
  "c_string s \<longleftrightarrow> rust_string s \<and> 0 \<notin> set s"

lemma as_bytes_no_nul: "c_string s \<Longrightarrow> 0 \<notin> set (as_bytes s)"
  using no_nul_utf8 by (fastforce simp: c_string_def as_bytes_def rust_string_def list_all_iff)

lemma take_cstr_put: "c_string s \<Longrightarrow> take_cstr (put_cstr s @ r) = Ok (s, r)"
proof -
  assume s: "c_string s"
  then have "\<forall>b\<in>set (as_bytes s). b \<noteq> 0" using as_bytes_no_nul by metis
  then have "dropWhile (\<lambda>b. b \<noteq> 0) (as_bytes s @ 0 # r) = 0 # r" "takeWhile (\<lambda>b. b \<noteq> 0) (as_bytes s @ 0 # r) = as_bytes s"
    by (simp_all add: dropWhile_append2 takeWhile_append2)
  with s show ?thesis by (simp add: take_cstr_def put_cstr_def from_utf8_lossy_as_bytes c_string_def)
qed

lemma take_cstr_c_string: "take_cstr bs = Inr (s, rest) \<Longrightarrow> c_string s"
  using from_utf8_lossy_scalar [of "takeWhile (\<lambda>b. b \<noteq> 0) bs"] set_takeWhileD [of 0 "\<lambda>b. b \<noteq> 0" bs]
  by (auto simp: take_cstr_def c_string_def split: list.splits)

definition put_params :: "(ustring \<times> ustring) list \<Rightarrow> bytes" where
  "put_params ps = concat (map (\<lambda>(n, v). put_cstr n @ put_cstr v) ps)"

definition param_ok :: "ustring \<times> ustring \<Rightarrow> bool" where
  "param_ok p \<longleftrightarrow> fst p \<noteq> [] \<and> c_string (fst p) \<and> c_string (snd p)"

lemma startup_params_put: "list_all param_ok ps \<Longrightarrow> startup_params (put_params ps @ 0 # r) acc = Ok (acc @ ps)"
proof (induction ps arbitrary: acc)
  case Nil
  have "take_cstr (put_cstr [] @ r) = Ok ([], r)" by (rule take_cstr_put) (simp add: c_string_def rust_string_def)
  then show ?case by (simp add: put_params_def startup_params.simps put_cstr_def as_bytes_def)
next
  case (Cons p ps)
  obtain n v where p: "p = (n, v)" by fastforce
  let ?r = "put_params ps @ 0 # r"
  have e: "put_params (p # ps) @ 0 # r = put_cstr n @ put_cstr v @ ?r" by (simp add: put_params_def p)
  have "take_cstr (put_cstr n @ put_cstr v @ ?r) = Ok (n, put_cstr v @ ?r)" "take_cstr (put_cstr v @ ?r) = Ok (v, ?r)" "n \<noteq> []"
    using Cons.prems p by (auto simp: param_ok_def intro: take_cstr_put)
  then have "startup_params (put_params (p # ps) @ 0 # r) acc = startup_params ?r (acc @ [(n, v)])"
    by (subst startup_params.simps) (simp add: e)
  with Cons show ?case by (simp add: p)
qed

lemma startup_params_ok: "startup_params rest acc = Inr ps \<Longrightarrow> list_all param_ok acc \<Longrightarrow> list_all param_ok ps"
proof (induction rest acc rule: startup_params.induct)
  case (1 rest acc)
  from "1.prems"(1) obtain n t where n: "take_cstr rest = Inr (n, t)" by (subst (asm) startup_params.simps) (auto split: sum.splits)
  show ?case
  proof (cases "n = []")
    case False
    then obtain v u where v: "take_cstr t = Inr (v, u)" using "1.prems"(1) n by (subst (asm) startup_params.simps) (auto split: sum.splits)
    have "startup_params u (acc @ [(n, v)]) = Inr ps" using "1.prems"(1) n v False by (subst (asm) startup_params.simps) simp
    from "1.IH" [OF n refl False v refl this] show ?thesis
      using "1.prems"(2) False take_cstr_c_string [OF n] take_cstr_c_string [OF v] by (simp add: param_ok_def)
  qed (use "1.prems" n in \<open>simp add: startup_params.simps [of rest]\<close>)
qed

lemma parse_startup_params_ok: "parse_startup_params rest = Inr ps \<Longrightarrow> list_all param_ok ps"
  unfolding parse_startup_params_def by (rule startup_params_ok) auto

subsection \<open>The startup phase\<close>

definition SSL_REQUEST_CODE :: "32 word" where "SSL_REQUEST_CODE = 80877103"

definition GSSENC_REQUEST_CODE :: "32 word" where "GSSENC_REQUEST_CODE = 80877104"

definition CANCEL_REQUEST_CODE :: "32 word" where "CANCEL_REQUEST_CODE = 80877102"

definition PROTOCOL_V3 :: "32 word" where "PROTOCOL_V3 = 196608"

text \<open>\<open>Cancelled\<close> carries the key whose session is to be cancelled, when the packet is long enough to have one.\<close>

datatype startup_phase = Startup "(ustring \<times> ustring) list" | Cancelled "(32 word \<times> 32 word) option"

definition is_protocol_option :: "ustring \<times> ustring \<Rightarrow> bool" where
  "is_protocol_option p \<longleftrightarrow> prefix (ascii ''_pq_.'') (fst p)"

definition negotiate_version :: "(ustring \<times> ustring) list \<Rightarrow> bytes" where
  "negotiate_version params =
     (let unsupported = map fst (filter is_protocol_option params) in
      frame 118 (put_i32 0 @ put_i32 (of_nat (length unsupported)) @ concat (map put_cstr unsupported)))"

definition other_protocol :: "32 word \<Rightarrow> bytes \<Rightarrow> pg_client \<Rightarrow> (io_error + startup_phase) \<times> pg_client" where
  "other_protocol other p c =
     (let major = unat (drop_bit 16 other AND 0xFFFF); minor = unat (other AND 0xFFFF) in
      if major = 3 \<and> minor > 0 then
        (case parse_startup_params (drop 4 p) of
           Inl e \<Rightarrow> (Err e, c)
         | Inr params \<Rightarrow>
             (case write_all (negotiate_version params) c of
                (Inl e, c) \<Rightarrow> (Err e, c)
              | (Inr _, c) \<Rightarrow> (Ok (Startup (filter (\<lambda>p. \<not> is_protocol_option p) params)), c)))
      else
        let (_, c) = write_all (error_response (ascii ''FATAL'') (ascii ''0A000'')
              (ascii ''Multitool: unsupported frontend protocol '' @ show_nat major @ [46] @ show_nat minor @
               ascii ''; this proxy speaks 3.0'')) c
        in (Err (InvalidData (ascii ''unsupported protocol code '' @ show_i32 other)), c))"

function read_startup_phase :: "nat \<Rightarrow> pg_client \<Rightarrow> (io_error + startup_phase) \<times> pg_client" where
  "read_startup_phase probes c =
     (case read_startup_packet c of
        (Inl e, c) \<Rightarrow> (Err e, c)
      | (Inr p, c) \<Rightarrow>
          let code = be_i32 p in
          if code = SSL_REQUEST_CODE \<or> code = GSSENC_REQUEST_CODE then
            if probes + 1 > 4 then (Err (InvalidData (ascii ''too many pre-startup probes'')), c)
            else (case write_all [78] c of
                    (Inl e, c) \<Rightarrow> (Err e, c)
                  | (Inr _, c) \<Rightarrow> read_startup_phase (probes + 1) c)
          else if code = CANCEL_REQUEST_CODE then
            (Ok (Cancelled (if length p \<ge> 12 then Some (be_i32 (drop 4 p), be_i32 (drop 8 p)) else None)), c)
          else if code = PROTOCOL_V3 then
            (case parse_startup_params (drop 4 p) of Inl e \<Rightarrow> (Err e, c) | Inr params \<Rightarrow> (Ok (Startup params), c))
          else other_protocol code p c)"
  by pat_completeness auto
termination
  by (relation "measure (\<lambda>(probes, c). 5 - probes)") auto

declare read_startup_phase.simps [simp del]

lemma write_all_reads: "write_all bs c = (r, c') \<Longrightarrow> rd_bytes c' = rd_bytes c"
  by (auto simp: write_all_def split: list.splits option.splits)

lemma write_all_ok: "write_all bs c = (Inr u, c') \<Longrightarrow> wr_out c' = wr_out c @ bs"
  by (auto simp: write_all_def split: list.splits option.splits)

lemma read_exact_ok: "read_exact n c = (Inr p, c') \<Longrightarrow> rd_bytes c = p @ rd_bytes c' \<and> length p = n \<and> wr_out c' = wr_out c"
  by (auto simp: read_exact_def split: if_splits)

lemma read_startup_packet_ok:
  assumes "read_startup_packet c = (Inr p, c')"
  shows "\<exists>h. rd_bytes c = h @ p @ rd_bytes c' \<and> length (h @ p) \<le> 10000 \<and> 4 \<le> length p \<and> wr_out c' = wr_out c"
proof -
  from assms obtain h c1 where h: "read_exact 4 c = (Inr h, c1)" "8 \<le> sint (be_i32 h)" "sint (be_i32 h) \<le> 10000"
      "read_exact (nat (sint (be_i32 h)) - 4) c1 = (Inr p, c')"
    by (auto simp: read_startup_packet_def Let_def MAX_STARTUP_PACKET_def split: prod.splits sum.splits if_splits)
  with read_exact_ok [OF h(1)] read_exact_ok [OF h(4)] show ?thesis by (intro exI [of _ h]) auto
qed

lemma startup_phase_acc:
  assumes "read_startup_phase probes c = (Inr (Startup ps), c')" "probes \<le> 4"
  shows "\<exists>k tail used. probes + k \<le> 4 \<and> wr_out c' = wr_out c @ replicate k 78 @ tail \<and>
    (tail = [] \<or> (\<exists>qs. tail = negotiate_version qs \<and> ps = filter (\<lambda>p. \<not> is_protocol_option p) qs)) \<and>
    rd_bytes c = used @ rd_bytes c' \<and> length used \<le> (5 - probes) * 10000 \<and> list_all param_ok ps"
  using assms
proof (induction probes c rule: read_startup_phase.induct)
  case (1 probes c)
  obtain p c1 where p: "read_startup_packet c = (Inr p, c1)"
    using "1.prems"(1) by (subst (asm) read_startup_phase.simps) (auto split: prod.splits sum.splits)
  obtain h where h: "rd_bytes c = (h @ p) @ rd_bytes c1" "length (h @ p) \<le> 10000" "wr_out c1 = wr_out c"
    using read_startup_packet_ok [OF p] by auto
  note body = "1.prems"(1) [unfolded read_startup_phase.simps [of probes] p prod.case sum.case Let_def]
  consider (probe) "be_i32 p = SSL_REQUEST_CODE \<or> be_i32 p = GSSENC_REQUEST_CODE"
    | (cancel) "\<not> (be_i32 p = SSL_REQUEST_CODE \<or> be_i32 p = GSSENC_REQUEST_CODE)" "be_i32 p = CANCEL_REQUEST_CODE"
    | (v3) "\<not> (be_i32 p = SSL_REQUEST_CODE \<or> be_i32 p = GSSENC_REQUEST_CODE)" "be_i32 p \<noteq> CANCEL_REQUEST_CODE" "be_i32 p = PROTOCOL_V3"
    | (other) "\<not> (be_i32 p = SSL_REQUEST_CODE \<or> be_i32 p = GSSENC_REQUEST_CODE)" "be_i32 p \<noteq> CANCEL_REQUEST_CODE" "be_i32 p \<noteq> PROTOCOL_V3"
    by blast
  then show ?case
  proof cases
    case probe
    then obtain u c2 where w: "\<not> probes + 1 > 4" "write_all [78] c1 = (Inr u, c2)" "read_startup_phase (probes + 1) c2 = (Inr (Startup ps), c')"
      using body by (auto split: if_splits prod.splits sum.splits)
    have "probes + 1 \<le> 4" using w(1) by simp
    from "1.IH" [OF p [symmetric] refl refl probe w(1) w(2) [symmetric] refl w(3) this] obtain k tail used where
      k: "probes + 1 + k \<le> 4" "wr_out c' = wr_out c2 @ replicate k 78 @ tail"
        "tail = [] \<or> (\<exists>qs. tail = negotiate_version qs \<and> ps = filter (\<lambda>p. \<not> is_protocol_option p) qs)"
        "rd_bytes c2 = used @ rd_bytes c'" "length used \<le> (5 - (probes + 1)) * 10000" "list_all param_ok ps" by blast
    show ?thesis using k h write_all_reads [OF w(2)] write_all_ok [OF w(2)]
      by (intro exI [of _ "Suc k"] exI [of _ tail] exI [of _ "(h @ p) @ used"]) auto
  next
    case v3
    then have "parse_startup_params (drop 4 p) = Inr ps" "c' = c1" using body by (auto split: sum.splits)
    then show ?thesis using h parse_startup_params_ok "1.prems"(2)
      by (intro exI [of _ 0] exI [of _ "[]"] exI [of _ "h @ p"]) auto
  next
    case other
    then have "other_protocol (be_i32 p) p c1 = (Inr (Startup ps), c')" using body by auto
    then obtain qs u where q: "parse_startup_params (drop 4 p) = Inr qs" "write_all (negotiate_version qs) c1 = (Inr u, c')"
        "ps = filter (\<lambda>p. \<not> is_protocol_option p) qs"
      by (auto simp: other_protocol_def Let_def split: if_splits sum.splits prod.splits)
    then show ?thesis using h parse_startup_params_ok [OF q(1)] "1.prems"(2) write_all_reads [OF q(2)] write_all_ok [OF q(2)]
      by (intro exI [of _ 0] exI [of _ "negotiate_version qs"] exI [of _ "h @ p"]) (auto simp: list_all_iff)
  qed (use body in auto)
qed

subsection \<open>Identity\<close>

record identity_mismatch =
  im_sqlstate :: ustring
  im_reason :: ustring
  im_detail :: ustring

text \<open>\<open>find_map\<close> takes the first parameter of a name; \<open>np\<close> are the characters that \<^verbatim>\<open>{:?}\<close> escapes.\<close>

definition first_param :: "ustring \<Rightarrow> (ustring \<times> ustring) list \<Rightarrow> ustring option" where
  "first_param n params = map_option snd (List.find (\<lambda>p. fst p = n) params)"

definition startup_identity_mismatch ::
  "(uchar \<Rightarrow> bool) \<Rightarrow> connection \<Rightarrow> (ustring \<times> ustring) list \<Rightarrow> ustring option \<Rightarrow> identity_mismatch option" where
  "startup_identity_mismatch np c params advertised =
     (case conn_config c of
        Pg p \<Rightarrow>
          let expected = (case advertised of Some u \<Rightarrow> u | None \<Rightarrow> pg_user p);
              user_check = (case first_param (ascii ''user'') params of
                  Some requested \<Rightarrow>
                    if requested \<noteq> expected then
                      Some \<lparr>im_sqlstate = ascii ''28000'', im_reason = ascii ''user_mismatch'',
                        im_detail =
                          (if expected = pg_user p then
                             ascii ''Multitool: requested user '' @ debug_str np requested @
                             ascii '' does not match this connection; use the pinned user '' @ debug_str np (pg_user p)
                           else
                             ascii ''Multitool: requested user '' @ debug_str np requested @
                             ascii '' does not match this ticket DSN; use the advertised user '' @ debug_str np expected @
                             ascii '' (the upstream user is pinned to '' @ debug_str np (pg_user p) @ ascii '')'')\<rparr>
                    else None
                | None \<Rightarrow> None)
          in (case first_param (ascii ''database'') params of
                Some requested \<Rightarrow>
                  if requested \<noteq> dbname p then
                    Some \<lparr>im_sqlstate = ascii ''3D000'', im_reason = ascii ''database_mismatch'',
                      im_detail = ascii ''Multitool: requested database '' @ debug_str np requested @
                        ascii '' does not match this connection; use the pinned database '' @ debug_str np (dbname p)\<rparr>
                  else user_check
              | None \<Rightarrow> user_check)
      | _ \<Rightarrow> None)"

text \<open>The startup message of \<open>dial_upstream_with_password\<close>.\<close>

definition upstream_startup :: "pg_config \<Rightarrow> (ustring \<times> ustring) list \<Rightarrow> bytes" where
  "upstream_startup p params =
     (let body = put_i32 PROTOCOL_V3 @ put_cstr (ascii ''user'') @ put_cstr (pg_user p) @ put_cstr (ascii ''database'') @ put_cstr (dbname p) @
            concat (map (\<lambda>(n, v). if n = ascii ''user'' \<or> n = ascii ''database'' then [] else put_cstr n @ put_cstr v) params) @ [0]
      in put_i32 (of_nat (length body) + 4) @ body)"

lemma startup_identity_accepts:
  "conn_config c = Pg p \<Longrightarrow> startup_identity_mismatch np c params advertised = None \<longleftrightarrow>
     first_param (ascii ''database'') params \<in> {None, Some (dbname p)} \<and>
     first_param (ascii ''user'') params \<in> {None, Some (case advertised of Some u \<Rightarrow> u | None \<Rightarrow> pg_user p)}"
  by (auto simp: startup_identity_mismatch_def Let_def split: option.splits)

lemma put_params_filter:
  "concat (map (\<lambda>(n, v). if n = ascii ''user'' \<or> n = ascii ''database'' then [] else put_cstr n @ put_cstr v) ps) =
     put_params (filter (\<lambda>p. fst p \<notin> {ascii ''user'', ascii ''database''}) ps)"
  by (induction ps) (auto simp: put_params_def)

text \<open>
  An agent cannot choose whom it signs in as: whatever bytes it sent, the startup message that goes upstream is well-formed and
  the server reads in it the configured user and database, each once, and then the client's other parameters.
\<close>

theorem upstream_startup_pinned:
  assumes "read_startup_phase 0 c = (Ok (Startup ps), c')" "c_string (pg_user p)" "c_string (dbname p)"
  shows "parse_startup_params (drop 8 (upstream_startup p ps)) =
      Ok ((ascii ''user'', pg_user p) # (ascii ''database'', dbname p) # filter (\<lambda>q. fst q \<notin> {ascii ''user'', ascii ''database''}) ps) \<and>
    be_i32 (upstream_startup p ps) = of_nat (length (upstream_startup p ps)) \<and> be_i32 (drop 4 (upstream_startup p ps)) = PROTOCOL_V3"
proof -
  let ?f = "filter (\<lambda>q. fst q \<notin> {ascii ''user'', ascii ''database''}) ps"
  let ?qs = "(ascii ''user'', pg_user p) # (ascii ''database'', dbname p) # ?f"
  have "list_all param_ok ps" using startup_phase_acc [OF assms(1)] by auto
  moreover have "c_string (ascii ''user'')" "c_string (ascii ''database'')" by (simp_all add: c_string_def rust_string_def ascii_def is_scalar_def)
  ultimately have ok: "list_all param_ok ?qs" using assms(2,3) by (auto simp: list_all_iff param_ok_def ascii_def)
  have u: "upstream_startup p ps = put_i32 (of_nat (length (put_i32 PROTOCOL_V3 @ put_params ?qs @ [0])) + 4) @ put_i32 PROTOCOL_V3 @ put_params ?qs @ [0]"
    unfolding upstream_startup_def Let_def put_params_filter by (simp add: put_params_def)
  show ?thesis unfolding u using startup_params_put [OF ok, of "[]" "[]"]
    by (simp add: parse_startup_params_def be_i32_put)
qed

definition example_client :: pg_client where
  "example_client = \<lparr>rd_bytes = put_i32 8 @ put_i32 SSL_REQUEST_CODE @ put_i32 33 @ put_i32 196610 @
       put_params [(ascii ''user'', ascii ''root''), (ascii ''_pq_.x'', ascii ''on''), (ascii ''a'', ascii ''b'')] @ [0, 7],
     rd_end = UnexpectedEof, wr_faults = [], wr_out = []\<rparr>"

definition example_pg :: pg_config where
  "example_pg = \<lparr>pg_host = ascii ''h'', pg_port = 5432, dbname = ascii ''d'', pg_user = ascii ''u'', sslmode = Disable, pg_trusted_ca_bundle_path = None\<rparr>"

lemma example_startup:
  "read_startup_phase 0 example_client = (Ok (Startup [(ascii ''user'', ascii ''root''), (ascii ''a'', ascii ''b'')]),
     example_client\<lparr>rd_bytes := [7], wr_out := 78 # negotiate_version [(ascii ''user'', ascii ''root''), (ascii ''_pq_.x'', ascii ''on''), (ascii ''a'', ascii ''b'')]\<rparr>)"
  by code_simp

theorem upstream_startup_pinned_witness:
  "parse_startup_params (drop 8 (upstream_startup example_pg [(ascii ''user'', ascii ''root''), (ascii ''a'', ascii ''b'')])) =
     Ok [(ascii ''user'', ascii ''u''), (ascii ''database'', ascii ''d''), (ascii ''a'', ascii ''b'')]"
proof -
  have "c_string (pg_user example_pg)" "c_string (dbname example_pg)"
    by (simp_all add: c_string_def rust_string_def example_pg_def ascii_def is_scalar_def)
  note upstream_startup_pinned [OF example_startup this]
  moreover have "(ascii ''user'', pg_user example_pg) # (ascii ''database'', dbname example_pg) #
      filter (\<lambda>q. fst q \<notin> {ascii ''user'', ascii ''database''}) [(ascii ''user'', ascii ''root''), (ascii ''a'', ascii ''b'')] =
      [(ascii ''user'', ascii ''u''), (ascii ''database'', ascii ''d''), (ascii ''a'', ascii ''b'')]" by code_simp
  ultimately show ?thesis by (simp only:)
qed

text \<open>
  What an unauthenticated client can make the proxy do before it gives its parameters: it gets at most four refusals of
  encryption and one answer on the version, and it is listened to for at most five packets of 10000 bytes. Whatever it sent
  after its startup message is kept for later, and no protocol option survives when the version was negotiated down.
\<close>

theorem startup_phase_bounded:
  assumes "read_startup_phase 0 c = (Ok (Startup ps), c')"
  shows "\<exists>k answer used. k \<le> 4 \<and> wr_out c' = wr_out c @ replicate k 78 @ answer \<and>
    (answer = [] \<or> (\<exists>qs. answer = negotiate_version qs \<and> ps = filter (\<lambda>p. \<not> is_protocol_option p) qs)) \<and>
    rd_bytes c = used @ rd_bytes c' \<and> length used \<le> 50000"
  using startup_phase_acc [OF assms] by auto

theorem startup_phase_bounded_witness:
  "\<exists>c' used. read_startup_phase 0 example_client = (Ok (Startup [(ascii ''user'', ascii ''root''), (ascii ''a'', ascii ''b'')]), c') \<and>
     rd_bytes example_client = used @ [7] \<and> length used \<le> 50000"
  using startup_phase_bounded [OF example_startup] example_startup by auto

subsection \<open>Reading what was written\<close>

lemma read_message_frame:
  assumes "int (length p) + 4 \<le> 1048576" "rd_bytes c = frame t p @ rest"
  shows "read_message c = (Ok (t, p), c\<lparr>rd_bytes := rest\<rparr>)"
proof -
  have "sint (of_nat (length p) + 4 :: 32 word) = int (length p) + 4"
  proof -
    have "sint (of_nat (length p + 4) :: 32 word) = int (length p + 4)"
      unfolding signed_of_nat using assms(1) by (simp add: signed_take_bit_int_eq_self)
    then show ?thesis by simp
  qed
  then show ?thesis using assms
    by (simp add: read_message_def read_exact_def frame_def be_i32_put be_i32_put [of _ "[]", simplified] MAX_HANDSHAKE_MESSAGE_def nat_add_distrib Let_def)
qed

lemma error_fields_put:
  "field \<noteq> 0 \<Longrightarrow> c_string v \<Longrightarrow>
     error_fields (field # put_cstr v @ r) (code, m) = error_fields r (if field = 67 then v else code, if field = 77 then v else m)"
  by (subst error_fields.simps) (simp add: take_cstr_put)

text \<open>
  A refusal arrives: a client that reads messages as the proxy does gets the SQLSTATE and the text of every refusal, and is left
  exactly behind it, provided that the texts hold no zero and the frame fits the bound on handshake messages.
\<close>

theorem refusal_round_trip:
  assumes "c_string severity" "c_string sqlstate" "c_string m" "rd_bytes c = error_response severity sqlstate m @ rest"
    and "length (error_response severity sqlstate m) \<le> 1048576"
  shows "\<exists>p. read_message c = (Ok (69, p), c\<lparr>rd_bytes := rest\<rparr>) \<and> parse_error_response p = (sqlstate, m)"
proof -
  let ?p = "[83] @ put_cstr severity @ [86] @ put_cstr severity @ [67] @ put_cstr sqlstate @ [77] @ put_cstr m @ [0]"
  have e: "error_response severity sqlstate m = frame 69 ?p" by (simp only: error_response_def)
  then have "length ?p + 5 \<le> 1048576" using assms(5) by (simp add: frame_def)
  then have "int (length ?p) + 4 \<le> 1048576" by linarith
  from read_message_frame [OF this assms(4) [unfolded e]] have "read_message c = (Ok (69, ?p), c\<lparr>rd_bytes := rest\<rparr>)" .
  moreover have "parse_error_response ?p = (sqlstate, m)"
    using assms(1-3) by (simp add: parse_error_response_def error_fields_put) (simp add: error_fields.simps)
  ultimately show ?thesis by blast
qed

theorem refusal_round_trip_witness:
  "\<exists>p. read_message (example_client\<lparr>rd_bytes := error_response (ascii ''FATAL'') (ascii ''53300'') (ascii ''full'')\<rparr>) =
     (Ok (69, p), example_client\<lparr>rd_bytes := []\<rparr>) \<and> parse_error_response p = (ascii ''53300'', ascii ''full'')"
proof -
  have "length (error_response (ascii ''FATAL'') (ascii ''53300'') (ascii ''full'')) = 33" by code_simp
  moreover have "c_string (ascii ''FATAL'')" "c_string (ascii ''53300'')" "c_string (ascii ''full'')"
    by (simp_all add: c_string_def rust_string_def ascii_def is_scalar_def)
  ultimately show ?thesis
    using refusal_round_trip [of "ascii ''FATAL''" "ascii ''53300''" "ascii ''full''"
      "example_client\<lparr>rd_bytes := error_response (ascii ''FATAL'') (ascii ''53300'') (ascii ''full'')\<rparr>" "[]"] by simp
qed

end
