(* ===== verification/PgSplice.thy ===== *)
theory PgSplice
  imports PgWire UntrustedText AuditEntry
begin

text \<open>
  The spliced Postgres session, from \<^verbatim>\<open>crates/aka-core/src/capability/pg.rs\<close>: the scanner that watches the forwarded bytes for
  message boundaries, the statements it reports, and the loop that forwards both directions, arms the idle timer and
  writes the statements to the audit log in batches. A callback is the list of its arguments; a session is driven by
  the events its \<open>select!\<close> can take, each with the time and the outcome of the write it leads to.
\<close>

subsection \<open>The scanner\<close>

definition SCAN_PEEK_CAP :: nat where "SCAN_PEEK_CAP = 1024"

definition MAX_SPLICE_MESSAGE :: int where "MAX_SPLICE_MESSAGE = 0x3fffffff"

record scan_body =
  sb_tag :: "8 word"
  sb_remaining :: nat
  sb_peek :: bytes

record frame_scanner =
  fs_header :: bytes
  fs_body :: "scan_body option"
  fs_aligned :: bool

definition new_scanner :: frame_scanner where
  "new_scanner = \<lparr>fs_header = [], fs_body = None, fs_aligned = True\<rparr>"

text \<open>The two halves of the loop's body: the message completed if any, what is in progress then, and the bytes left.\<close>

definition feed_body :: "scan_body \<Rightarrow> bytes \<Rightarrow> (8 word \<times> bytes) list \<times> scan_body option \<times> bytes" where
  "feed_body b bs =
     (let n = min (sb_remaining b) (length bs);
          room = SCAN_PEEK_CAP - length (sb_peek b);
          peek = (if room > 0 then sb_peek b @ take (min n room) bs else sb_peek b);
          remaining = sb_remaining b - n
      in if remaining = 0 then ([(sb_tag b, peek)], None, drop n bs)
         else ([], Some (b\<lparr>sb_remaining := remaining, sb_peek := peek\<rparr>), drop n bs))"

definition feed_header :: "frame_scanner \<Rightarrow> bytes \<Rightarrow> (8 word \<times> bytes) list \<times> frame_scanner \<times> bytes" where
  "feed_header s bs =
     (let n = min (5 - length (fs_header s)) (length bs);
          header = fs_header s @ take n bs;
          bs = drop n bs
      in if length header < 5 then ([], s\<lparr>fs_header := header\<rparr>, bs)
         else let tag = hd header; len = sint (be_i32 (drop 1 header)); s = s\<lparr>fs_header := []\<rparr> in
           if len < 4 \<or> len > MAX_SPLICE_MESSAGE then ([], s\<lparr>fs_aligned := False\<rparr>, bs)
           else if nat len - 4 = 0 then ([(tag, [])], s, bs)
           else ([], s\<lparr>fs_body := Some \<lparr>sb_tag = tag, sb_remaining = nat len - 4, sb_peek = []\<rparr>\<rparr>, bs))"

lemma feed_body_rest: "feed_body b bs = (ms, b', r) \<Longrightarrow> bs \<noteq> [] \<Longrightarrow> length r < length bs \<or> length r = length bs \<and> b' = None"
  by (auto simp: feed_body_def Let_def split: if_splits)

lemma feed_header_rest: "feed_header s bs = (ms, s', r) \<Longrightarrow> bs \<noteq> [] \<Longrightarrow> length (fs_header s) < 5 \<Longrightarrow> length r < length bs"
  by (auto simp: feed_header_def Let_def split: if_splits)

lemma feed_header_rest': "feed_header s bs = (ms, s', r) \<Longrightarrow> length r \<le> length bs \<and> (\<not> length (fs_header s) < 5 \<longrightarrow> fs_header s' = [])"
  by (auto simp: feed_header_def Let_def split: if_splits)

definition scan_measure :: "bytes \<times> frame_scanner \<Rightarrow> nat" where
  "scan_measure = (\<lambda>(bs, s). 4 * length bs + (if fs_body s = None then 0 else 1) + (if length (fs_header s) < 5 then 0 else 2))"

lemma feed_body_measure:
  "feed_body b bs = (ms, b', r) \<Longrightarrow> bs \<noteq> [] \<Longrightarrow> fs_body s = Some b \<Longrightarrow> scan_measure (r, s\<lparr>fs_body := b'\<rparr>) < scan_measure (bs, s)"
  using feed_body_rest [of b bs ms b' r] by (auto simp: scan_measure_def)

lemma feed_header_measure:
  "feed_header s bs = (ms, s', r) \<Longrightarrow> bs \<noteq> [] \<Longrightarrow> fs_body s = None \<Longrightarrow> scan_measure (r, s') < scan_measure (bs, s)"
  using feed_header_rest [of s bs ms s' r] feed_header_rest' [of s bs ms s' r]
  by (cases "length (fs_header s) < 5") (auto simp: scan_measure_def)

function feed_loop :: "bytes \<Rightarrow> frame_scanner \<Rightarrow> (8 word \<times> bytes) list \<times> frame_scanner" where
  "feed_loop bs s =
     (if bs = [] \<or> \<not> fs_aligned s then ([], s)
      else case fs_body s of
        Some b \<Rightarrow> (case feed_body b bs of (ms, b', r) \<Rightarrow> apfst ((@) ms) (feed_loop r (s\<lparr>fs_body := b'\<rparr>)))
      | None \<Rightarrow> (case feed_header s bs of (ms, s', r) \<Rightarrow> apfst ((@) ms) (feed_loop r s')))"
  by pat_completeness auto
termination
  by (relation "measure scan_measure") (auto intro: feed_body_measure [OF sym] feed_header_measure [OF sym] feed_body_measure feed_header_measure)

declare feed_loop.simps [simp del]

definition feed :: "bytes \<Rightarrow> frame_scanner \<Rightarrow> (8 word \<times> bytes) list \<times> frame_scanner" where
  "feed bs s = (if \<not> fs_aligned s then ([], s) else feed_loop bs s)"

text \<open>The same scanner, one byte at a time: a reference automaton without chunks.\<close>

definition scan_byte :: "8 word \<Rightarrow> frame_scanner \<Rightarrow> (8 word \<times> bytes) list \<times> frame_scanner" where
  "scan_byte x s =
     (if \<not> fs_aligned s then ([], s)
      else case fs_body s of
        Some b \<Rightarrow>
          let peek = (if length (sb_peek b) < SCAN_PEEK_CAP then sb_peek b @ [x] else sb_peek b) in
          if sb_remaining b = 1 then ([(sb_tag b, peek)], s\<lparr>fs_body := None\<rparr>)
          else ([], s\<lparr>fs_body := Some (b\<lparr>sb_remaining := sb_remaining b - 1, sb_peek := peek\<rparr>)\<rparr>)
      | None \<Rightarrow>
          let header = fs_header s @ [x] in
          if length header < 5 then ([], s\<lparr>fs_header := header\<rparr>)
          else let len = sint (be_i32 (drop 1 header)); s = s\<lparr>fs_header := []\<rparr> in
            if len < 4 \<or> len > MAX_SPLICE_MESSAGE then ([], s\<lparr>fs_aligned := False\<rparr>)
            else if len = 4 then ([(hd header, [])], s)
            else ([], s\<lparr>fs_body := Some \<lparr>sb_tag = hd header, sb_remaining = nat len - 4, sb_peek = []\<rparr>\<rparr>))"

fun scan_bytes :: "bytes \<Rightarrow> frame_scanner \<Rightarrow> (8 word \<times> bytes) list \<times> frame_scanner" where
  "scan_bytes [] s = ([], s)"
| "scan_bytes (x # xs) s = (case scan_byte x s of (ms, s) \<Rightarrow> apfst ((@) ms) (scan_bytes xs s))"

definition scanner_ok :: "frame_scanner \<Rightarrow> bool" where
  "scanner_ok s \<longleftrightarrow> length (fs_header s) < 5 \<and>
     (case fs_body s of None \<Rightarrow> True | Some b \<Rightarrow> fs_header s = [] \<and> 0 < sb_remaining b \<and> length (sb_peek b) \<le> SCAN_PEEK_CAP)"

lemma scanner_ok_new: "scanner_ok new_scanner"
  by (simp add: scanner_ok_def new_scanner_def)

lemma scan_bytes_append: "scan_bytes (xs @ ys) s = (case scan_bytes xs s of (ms, s) \<Rightarrow> apfst ((@) ms) (scan_bytes ys s))"
  by (induction xs arbitrary: s) (auto split: prod.splits simp: apfst_def map_prod_def)

lemma scan_bytes_unaligned: "\<not> fs_aligned s \<Longrightarrow> scan_bytes xs s = ([], s)"
  by (induction xs) (simp_all add: scan_byte_def)

lemma scan_byte_ok: "scanner_ok s \<Longrightarrow> scan_byte x s = (ms, s') \<Longrightarrow> scanner_ok s'"
  by (auto simp: scan_byte_def scanner_ok_def Let_def nat_less_iff split: if_splits option.splits)

lemma scan_bytes_ok: "scanner_ok s \<Longrightarrow> scan_bytes xs s = (ms, s') \<Longrightarrow> scanner_ok s'"
  by (induction xs arbitrary: s ms) (auto split: prod.splits dest: scan_byte_ok simp: apfst_def map_prod_def)

lemma scan_body_run:
  assumes "fs_aligned s" "fs_body s = Some b" "length (sb_peek b) \<le> SCAN_PEEK_CAP" "xs \<noteq> []" "length xs \<le> sb_remaining b"
  shows "scan_bytes xs s =
    (if length xs = sb_remaining b then ([(sb_tag b, take SCAN_PEEK_CAP (sb_peek b @ xs))], s\<lparr>fs_body := None\<rparr>)
     else ([], s\<lparr>fs_body := Some (b\<lparr>sb_remaining := sb_remaining b - length xs, sb_peek := take SCAN_PEEK_CAP (sb_peek b @ xs)\<rparr>)\<rparr>))"
  using assms
proof (induction xs arbitrary: s b)
  case (Cons x xs)
  let ?p = "take SCAN_PEEK_CAP (sb_peek b @ [x])"
  let ?b = "b\<lparr>sb_remaining := sb_remaining b - 1, sb_peek := ?p\<rparr>"
  let ?s = "s\<lparr>fs_body := Some ?b\<rparr>"
  have p: "(if length (sb_peek b) < SCAN_PEEK_CAP then sb_peek b @ [x] else sb_peek b) = ?p" using Cons.prems(3) by auto
  show ?case
  proof (cases "xs = []")
    case True
    then show ?thesis using Cons.prems by (auto simp: scan_byte_def Let_def p)
  next
    case False
    then have "sb_remaining b \<noteq> 1" using Cons.prems(5) by (cases xs) auto
    then have "scan_byte x s = ([], ?s)" using Cons.prems by (simp add: scan_byte_def Let_def p)
    moreover have "take SCAN_PEEK_CAP (?p @ xs) = take SCAN_PEEK_CAP (sb_peek b @ x # xs)"
      using Cons.prems(3) by (auto simp: take_Cons')
    ultimately show ?thesis using Cons.IH [of ?s ?b] Cons.prems False by auto
  qed
qed simp

lemma scan_header_run:
  "fs_aligned s \<Longrightarrow> fs_body s = None \<Longrightarrow> length (fs_header s) + length xs < 5 \<Longrightarrow> scan_bytes xs s = ([], s\<lparr>fs_header := fs_header s @ xs\<rparr>)"
  by (induction xs arbitrary: s) (auto simp: scan_byte_def Let_def)

lemma feed_body_scan:
  assumes "fs_aligned s" "scanner_ok s" "fs_body s = Some b" "bs \<noteq> []" "feed_body b bs = (ms, b', r)"
  shows "\<exists>xs. bs = xs @ r \<and> scan_bytes xs s = (ms, s\<lparr>fs_body := b'\<rparr>)"
proof -
  let ?n = "min (sb_remaining b) (length bs)"
  have b: "0 < sb_remaining b" "length (sb_peek b) \<le> SCAN_PEEK_CAP" using assms(2,3) by (auto simp: scanner_ok_def)
  have peek: "(if SCAN_PEEK_CAP - length (sb_peek b) > 0 then sb_peek b @ take (min ?n (SCAN_PEEK_CAP - length (sb_peek b))) bs else sb_peek b) =
      take SCAN_PEEK_CAP (sb_peek b @ take ?n bs)" using b(2) by (auto simp: min.commute)
  have "take ?n bs \<noteq> []" "length (take ?n bs) \<le> sb_remaining b" using assms(4) b(1) by auto
  from scan_body_run [OF assms(1,3) b(2) this] assms(5) have "scan_bytes (take ?n bs) s = (ms, s\<lparr>fs_body := b'\<rparr>)" "r = drop ?n bs"
    unfolding feed_body_def Let_def peek by (auto split: if_splits)
  then show ?thesis by (intro exI [of _ "take ?n bs"]) simp
qed

definition header_read :: "bytes \<Rightarrow> frame_scanner \<Rightarrow> (8 word \<times> bytes) list \<times> frame_scanner" where
  "header_read header s =
     (let len = sint (be_i32 (drop 1 header)) in
      if len < 4 \<or> len > MAX_SPLICE_MESSAGE then ([], s\<lparr>fs_header := [], fs_aligned := False\<rparr>)
      else if len = 4 then ([(hd header, [])], s\<lparr>fs_header := []\<rparr>)
      else ([], s\<lparr>fs_header := [], fs_body := Some \<lparr>sb_tag = hd header, sb_remaining = nat len - 4, sb_peek = []\<rparr>\<rparr>))"

lemma header_read_update [simp]: "header_read h (s\<lparr>fs_header := x\<rparr>) = header_read h s"
  by (simp add: header_read_def Let_def)

lemma scan_byte_full:
  "fs_aligned s \<Longrightarrow> fs_body s = None \<Longrightarrow> length (fs_header s) = 4 \<Longrightarrow> scan_byte x s = header_read (fs_header s @ [x]) s"
  by (simp add: scan_byte_def header_read_def Let_def)

lemma feed_header_full:
  assumes "min (5 - length (fs_header s)) (length bs) = n" "fs_header s @ take n bs = header" "length header = 5"
  shows "feed_header s bs = (case header_read header s of (ms, s') \<Rightarrow> (ms, s', drop n bs))"
proof -
  have "nat x - 4 = 0 \<longleftrightarrow> x = 4" if "\<not> (x < 4 \<or> x > MAX_SPLICE_MESSAGE)" for x :: int using that by auto
  then show ?thesis unfolding feed_header_def header_read_def Let_def assms(1,2) using assms(3) by simp
qed

lemma feed_header_scan:
  assumes "fs_aligned s" "scanner_ok s" "fs_body s = None" "bs \<noteq> []" "feed_header s bs = (ms, s', r)"
  shows "\<exists>xs. bs = xs @ r \<and> scan_bytes xs s = (ms, s')"
proof (cases "length (fs_header s) + length bs < 5")
  case True
  then show ?thesis using assms(5) scan_header_run [OF assms(1,3) True]
    by (intro exI [of _ bs]) (auto simp: feed_header_def Let_def)
next
  case False
  let ?n = "5 - length (fs_header s)"
  have h: "length (fs_header s) < 5" using assms(2) by (simp add: scanner_ok_def)
  with False have n: "min ?n (length bs) = ?n" "0 < ?n" "?n \<le> length bs" by auto
  then have t: "take ?n bs = take (?n - 1) bs @ [bs ! (?n - 1)]"
    by (metis Suc_diff_1 Suc_le_lessD take_Suc_conv_app_nth)
  let ?h = "fs_header s @ take (?n - 1) bs"
  have "scan_bytes (take (?n - 1) bs) s = ([], s\<lparr>fs_header := ?h\<rparr>)"
    using h n by (intro scan_header_run [OF assms(1,3)]) auto
  then have "scan_bytes (take ?n bs) s = apfst ((@) []) (scan_bytes [bs ! (?n - 1)] (s\<lparr>fs_header := ?h\<rparr>))"
    unfolding t scan_bytes_append by simp
  also have "\<dots> = (ms, s')"
    using scan_byte_full [of "s\<lparr>fs_header := ?h\<rparr>" "bs ! (?n - 1)"] feed_header_full [of s bs ?n "?h @ [bs ! (?n - 1)]"] assms(1,3,5) h n t
    by (auto split: prod.splits)
  finally have "scan_bytes (take ?n bs) s = (ms, s')" .
  moreover have "r = drop ?n bs" using assms(5) n by (auto simp: feed_header_def Let_def split: if_splits)
  ultimately show ?thesis by (intro exI [of _ "take ?n bs"]) simp
qed

lemma feed_loop_scan: "scanner_ok s \<Longrightarrow> feed_loop bs s = scan_bytes bs s"
proof (induction bs s rule: feed_loop.induct)
  case (1 bs s)
  show ?case
  proof (cases "bs = [] \<or> \<not> fs_aligned s")
    case True
    then show ?thesis by (subst feed_loop.simps) (auto simp: scan_bytes_unaligned)
  next
    case False
    obtain ms s' r xs where step: "feed_loop bs s = apfst ((@) ms) (feed_loop r s')" "bs = xs @ r" "scan_bytes xs s = (ms, s')"
      "scanner_ok s' \<Longrightarrow> feed_loop r s' = scan_bytes r s'"
    proof (cases "fs_body s")
      case None
      obtain ms s' r where h: "feed_header s bs = (ms, s', r)" by (metis prod_cases3)
      have "feed_loop bs s = apfst ((@) ms) (feed_loop r s')" using False None h by (subst feed_loop.simps) simp
      moreover obtain xs where "bs = xs @ r" "scan_bytes xs s = (ms, s')" using feed_header_scan [of s bs ms s' r] "1.prems" False None h by auto
      ultimately show ?thesis using that "1.IH"(1) [OF False None] h by auto
    next
      case (Some b)
      obtain ms b' r where h: "feed_body b bs = (ms, b', r)" by (metis prod_cases3)
      have "feed_loop bs s = apfst ((@) ms) (feed_loop r (s\<lparr>fs_body := b'\<rparr>))" using False Some h by (subst feed_loop.simps) simp
      moreover obtain xs where "bs = xs @ r" "scan_bytes xs s = (ms, s\<lparr>fs_body := b'\<rparr>)" using feed_body_scan [of s b bs ms b' r] "1.prems" False Some h by auto
      ultimately show ?thesis using that "1.IH"(2) [OF False Some] h by auto
    qed
    then show ?thesis using scan_bytes_ok [OF "1.prems" step(3)] by (simp add: scan_bytes_append)
  qed
qed

lemma feed_scan: "scanner_ok s \<Longrightarrow> feed bs s = scan_bytes bs s"
  by (simp add: feed_def feed_loop_scan scan_bytes_unaligned)

text \<open>A stream that comes in chunks.\<close>

fun feed_chunks :: "bytes list \<Rightarrow> frame_scanner \<Rightarrow> (8 word \<times> bytes) list \<times> frame_scanner" where
  "feed_chunks [] s = ([], s)"
| "feed_chunks (c # cs) s = (case feed c s of (ms, s) \<Rightarrow> apfst ((@) ms) (feed_chunks cs s))"

lemma feed_chunks_scan: "scanner_ok s \<Longrightarrow> feed_chunks cs s = scan_bytes (concat cs) s"
  by (induction cs arbitrary: s) (auto simp: feed_scan scan_bytes_append split: prod.splits dest: scan_bytes_ok)

text \<open>
  C29. The scanner does not depend on how the network cuts the stream: whatever the chunks, it reports what a byte-by-byte
  automaton reports on the whole stream, so also what it would report if all came in one piece.
\<close>

theorem scanner_chunk_independent:
  "feed_chunks cs new_scanner = scan_bytes (concat cs) new_scanner \<and> feed (concat cs) new_scanner = scan_bytes (concat cs) new_scanner"
  by (simp add: feed_chunks_scan feed_scan scanner_ok_new)

lemma scan_frame:
  assumes "fs_aligned s" "fs_body s = None" "fs_header s = []" "int (length p) + 4 \<le> MAX_SPLICE_MESSAGE"
  shows "scan_bytes (frame t p) s = ([(t, take SCAN_PEEK_CAP p)], s)"
proof -
  let ?len = "of_nat (length p) + 4 :: 32 word"
  have "sint (of_nat (length p + 4) :: 32 word) = int (length p + 4)"
    unfolding signed_of_nat using assms(4) by (simp add: signed_take_bit_int_eq_self MAX_SPLICE_MESSAGE_def)
  then have l: "sint ?len = int (length p) + 4" by simp
  have "length (t # put_i32 ?len) = 5" by simp
  from feed_header_full [of s "frame t p" 5 "t # put_i32 ?len"] assms(3)
  have h: "feed_header s (frame t p) = (case header_read (t # put_i32 ?len) s of (ms, s') \<Rightarrow> (ms, s', p))" by (simp add: frame_def)
  have r: "header_read (t # put_i32 ?len) s =
      (if p = [] then ([(t, [])], s) else ([], s\<lparr>fs_body := Some \<lparr>sb_tag = t, sb_remaining = length p, sb_peek = []\<rparr>\<rparr>))"
    using assms(3,4) be_i32_put [of ?len "[]"] l by (simp add: header_read_def)
  have ok: "scanner_ok s" using assms(2,3) by (simp add: scanner_ok_def)
  have "frame t p \<noteq> []" by (simp add: frame_def)
  then have f: "feed_loop (frame t p) s = (case header_read (t # put_i32 ?len) s of (ms, s') \<Rightarrow> apfst ((@) ms) (feed_loop p s'))"
    using assms(1,2) h by (subst feed_loop.simps) (auto split: prod.splits)
  show ?thesis
  proof (cases "p = []")
    case True
    then show ?thesis using f r feed_loop_scan [OF ok] by (simp add: feed_loop.simps [of "[]"])
  next
    case False
    let ?s = "s\<lparr>fs_body := Some \<lparr>sb_tag = t, sb_remaining = length p, sb_peek = []\<rparr>\<rparr>"
    have "scanner_ok ?s" using False assms(3) by (simp add: scanner_ok_def)
    then have "feed_loop p ?s = scan_bytes p ?s" by (rule feed_loop_scan)
    also have "\<dots> = ([(t, take SCAN_PEEK_CAP p)], s)" using scan_body_run [of ?s _ p] False assms(1,2) by simp
    finally show ?thesis using f r False feed_loop_scan [OF ok] by simp
  qed
qed

lemma scan_frames:
  "fs_aligned s \<Longrightarrow> fs_body s = None \<Longrightarrow> fs_header s = [] \<Longrightarrow> \<forall>m\<in>set ms. int (length (snd m)) + 4 \<le> MAX_SPLICE_MESSAGE \<Longrightarrow>
     scan_bytes (concat (map (\<lambda>(t, p). frame t p) ms)) s = (map (apsnd (take SCAN_PEEK_CAP)) ms, s)"
  by (induction ms) (auto simp: scan_bytes_append scan_frame)

text \<open>
  The scanner keeps the message boundary: from a client that sends messages, cut by the network in whatever way, it reports
  each message once, in order, with its tag and the first kilobyte of its payload.
\<close>

theorem scanner_reports_messages:
  assumes "concat cs = concat (map (\<lambda>(t, p). frame t p) ms)" "\<forall>m\<in>set ms. int (length (snd m)) + 4 \<le> MAX_SPLICE_MESSAGE"
  shows "feed_chunks cs new_scanner = (map (apsnd (take SCAN_PEEK_CAP)) ms, new_scanner)"
  using scan_frames [of new_scanner ms] assms by (simp add: feed_chunks_scan scanner_ok_new) (simp add: new_scanner_def)

theorem scanner_reports_messages_witness:
  "feed_chunks [[81, 0], [0, 0, 6, 49], [0, 90, 0, 0, 0], [4]] new_scanner = ([(81, [49, 0]), (90, [])], new_scanner)"
proof -
  have "concat [[81, 0], [0, 0, 6, 49], [0, 90, 0, 0, 0], [4]] = concat (map (\<lambda>(t, p). frame t p) [(81, [49, 0]), (90, [])])"
    by (simp add: frame_def put_i32_def)
  moreover have "\<forall>m\<in>set [(81 :: 8 word, [49, 0 :: 8 word]), (90, [])]. int (length (snd m)) + 4 \<le> MAX_SPLICE_MESSAGE"
    by (simp add: MAX_SPLICE_MESSAGE_def)
  ultimately have "feed_chunks [[81, 0], [0, 0, 6, 49], [0, 90, 0, 0, 0], [4]] new_scanner =
      (map (apsnd (take SCAN_PEEK_CAP)) [(81, [49, 0]), (90, [])], new_scanner)"
    by (rule scanner_reports_messages)
  then show ?thesis by (simp add: SCAN_PEEK_CAP_def)
qed

subsection \<open>Statements\<close>

definition cstr_prefix :: "bytes \<Rightarrow> bytes" where
  "cstr_prefix bs = takeWhile (\<lambda>b. b \<noteq> 0) bs"

definition statement_text :: "8 word \<Rightarrow> bytes \<Rightarrow> ustring option" where
  "statement_text tag peek =
     (let sql = (if tag = 81 then Some (cstr_prefix peek)
                 else if tag = 80 then
                   (case dropWhile (\<lambda>b. b \<noteq> 0) peek of [] \<Rightarrow> None | _ # r \<Rightarrow> Some (cstr_prefix r))
                 else None)
      in case sql of
           None \<Rightarrow> None
         | Some sql \<Rightarrow>
             let sql = trim (from_utf8_lossy sql) in
             if sql = [] then None else Some (cap_approval_text sql))"

lemma ascii_lossy: "\<forall>b\<in>set bs. unat b < 128 \<Longrightarrow> from_utf8_lossy bs = map unat bs"
proof (induction bs)
  case (Cons b bs)
  then show ?case by (simp add: from_utf8_lossy_def lossy_step_def)
qed (simp add: from_utf8_lossy_def)

text \<open>
  Two ways around the statement log: a query that begins with a kilobyte of blanks, and a statement prepared under a name
  of a kilobyte, are neither listed nor counted, because only the first kilobyte of a message is looked at.
\<close>

lemma padded_statement_unseen: "statement_text 81 (take SCAN_PEEK_CAP (replicate 1024 32 @ sql)) = None"
proof -
  have "cstr_prefix (take SCAN_PEEK_CAP (replicate 1024 32 @ sql)) = replicate 1024 32"
    unfolding cstr_prefix_def SCAN_PEEK_CAP_def by (simp add: takeWhile_replicate)
  moreover have "trim (from_utf8_lossy (replicate 1024 32)) = []"
    by (subst ascii_lossy) (simp_all add: trim_def is_whitespace_def)
  ultimately show ?thesis by (simp add: statement_text_def Let_def)
qed

lemma named_statement_unseen: "\<forall>b\<in>set nm. b \<noteq> 0 \<Longrightarrow> length nm = 1024 \<Longrightarrow> statement_text 80 (take SCAN_PEEK_CAP (nm @ 0 # sql)) = None"
  by (simp add: statement_text_def SCAN_PEEK_CAP_def dropWhile_eq_Nil_conv [THEN iffD2])

subsection \<open>The statement log\<close>

definition STATEMENT_AUDIT_MAX :: nat where "STATEMENT_AUDIT_MAX = 100"

definition STATEMENT_AUDIT_BATCH_MAX :: nat where "STATEMENT_AUDIT_BATCH_MAX = 16"

definition STATEMENT_AUDIT_FLUSH_INTERVAL :: duration where "STATEMENT_AUDIT_FLUSH_INTERVAL = secs 1"

record splice_audit =
  sa_connection :: ustring
  sa_agent :: ustring
  sa_record :: bool

record splice_state =
  sp_client_scan :: frame_scanner
  sp_upstream_scan :: frame_scanner
  sp_idle :: bool
  sp_idle_deadline :: instant
  sp_statements :: "ustring list"
  sp_pending :: nat
  sp_total :: nat
  sp_listed :: nat
  sp_audit_deadline :: "instant option"
  sp_bytes_up :: nat
  sp_bytes_down :: nat
  sp_to_upstream :: bytes
  sp_to_client :: bytes
  sp_log :: "audit_entry list"

fun join_lines :: "ustring list \<Rightarrow> ustring" where
  "join_lines [] = []"
| "join_lines [t] = t"
| "join_lines (t # ts) = t @ [10] @ join_lines ts"

definition statement_batch :: "splice_audit \<Rightarrow> datetime \<Rightarrow> ustring list \<Rightarrow> nat \<Rightarrow> nat \<Rightarrow> audit_entry" where
  "statement_batch a wall statements n session_total =
     (let plural = (if n = 1 then [] else ascii ''s'');
          e = new_entry wall KPgStatements (show_nat n @ ascii '' statement'' @ plural @ ascii '' on '' @ sa_connection a);
          e = with_connection (sa_connection a) (with_agent (sa_agent a) e);
          e = with_field (ascii ''kind'') (JString (ascii ''pg'')) e;
          e = with_field (ascii ''statements'') (JNumber (show_nat n)) e;
          e = with_field (ascii ''session_statements'') (JNumber (show_nat session_total)) e
      in if sa_record a then
           let listed = length statements;
               e = with_field (ascii ''listed'') (JNumber (show_nat listed)) e;
               e = (if statements \<noteq> [] then with_detail (join_lines statements) e else e)
           in if listed < n then with_field (ascii ''truncated'') (JBool True) e else e
         else e)"

definition flush_statements :: "splice_audit \<Rightarrow> datetime \<Rightarrow> splice_state \<Rightarrow> splice_state" where
  "flush_statements a wall s =
     (if sp_pending s = 0 then s
      else s\<lparr>sp_pending := 0, sp_statements := [],
             sp_log := sp_log s @ [statement_batch a wall (sp_statements s) (sp_pending s) (sp_total s)]\<rparr>)"

text \<open>The callback of \<open>watch_client\<close>; the flag it sets is \<open>backend_idle\<close>, which its callers overwrite.\<close>

definition watch_message :: "splice_audit \<Rightarrow> 8 word \<times> bytes \<Rightarrow> splice_state \<Rightarrow> splice_state" where
  "watch_message a m s =
     (let s = s\<lparr>sp_idle := True\<rparr> in
      case statement_text (fst m) (snd m) of
        None \<Rightarrow> s
      | Some sql \<Rightarrow>
          let s = s\<lparr>sp_pending := sp_pending s + 1, sp_total := sp_total s + 1\<rparr> in
          if sa_record a \<and> sp_listed s < STATEMENT_AUDIT_MAX
          then s\<lparr>sp_statements := sp_statements s @ [sql], sp_listed := sp_listed s + 1\<rparr> else s)"

definition watch_client :: "splice_audit \<Rightarrow> bytes \<Rightarrow> splice_state \<Rightarrow> splice_state" where
  "watch_client a bs s =
     (case feed bs (sp_client_scan s) of (ms, scan) \<Rightarrow> fold (watch_message a) ms (s\<lparr>sp_client_scan := scan\<rparr>))"

subsection \<open>The loop\<close>

text \<open>How a forwarding write ends, and the reason that ends the session then.\<close>

datatype write_event = WroteAll | WriteClosed ustring | WriteTtl | WriteIdle | WriteFailed | WriteStalled

definition splice_write :: "ustring \<Rightarrow> ustring \<Rightarrow> write_event \<Rightarrow> ustring + unit" where
  "splice_write peer_closed stalled w =
     (case w of
        WroteAll \<Rightarrow> Ok ()
      | WriteClosed reason \<Rightarrow> Err reason
      | WriteTtl \<Rightarrow> Err (ascii ''session_ttl'')
      | WriteIdle \<Rightarrow> Err (ascii ''idle_timeout'')
      | WriteFailed \<Rightarrow> Err peer_closed
      | WriteStalled \<Rightarrow> Err stalled)"

definition client_data :: "splice_audit \<Rightarrow> instant \<Rightarrow> datetime \<Rightarrow> bytes \<Rightarrow> write_event \<Rightarrow> splice_state \<Rightarrow> ustring option \<times> splice_state" where
  "client_data a now wall bs w s =
     (let batch_was_empty = (sp_pending s = 0);
          s = watch_client a bs (s\<lparr>sp_bytes_up := sp_bytes_up s + length bs\<rparr>);
          s = (if batch_was_empty \<and> sp_pending s > 0 then s\<lparr>sp_audit_deadline := Some (now + STATEMENT_AUDIT_FLUSH_INTERVAL)\<rparr> else s);
          s = (if sp_pending s \<ge> STATEMENT_AUDIT_BATCH_MAX then (flush_statements a wall s)\<lparr>sp_audit_deadline := None\<rparr> else s);
          s = s\<lparr>sp_idle := False\<rparr>
      in case splice_write (ascii ''upstream_closed'') (ascii ''upstream_write_timeout'') w of
           Inl reason \<Rightarrow> (Some reason, s)
         | Inr _ \<Rightarrow> (None, s\<lparr>sp_to_upstream := sp_to_upstream s @ bs\<rparr>))"

definition upstream_data :: "(splice_state \<Rightarrow> splice_state) \<Rightarrow> bytes \<Rightarrow> write_event \<Rightarrow> splice_state \<Rightarrow> ustring option \<times> splice_state" where
  "upstream_data rearm bs w s =
     (let (ms, scan) = feed bs (sp_upstream_scan s);
          s = s\<lparr>sp_bytes_down := sp_bytes_down s + length bs, sp_upstream_scan := scan\<rparr>;
          s = (if \<exists>m\<in>set ms. fst m = 90 then s\<lparr>sp_idle := True\<rparr> else s);
          s = rearm s
      in case splice_write (ascii ''client_closed'') (ascii ''client_write_timeout'') w of
           Inl reason \<Rightarrow> (Some reason, s)
         | Inr _ \<Rightarrow> (None, s\<lparr>sp_to_client := sp_to_client s @ bs\<rparr>))"

datatype splice_event =
    CloseRequested ustring
  | TtlTimer
  | IdleTimer
  | AuditTimer datetime
  | ClientRead instant datetime bytes write_event
  | ClientEnd
  | UpstreamRead instant bytes write_event
  | UpstreamEnd

text \<open>One turn of the loop: the reason to stop, if any. A read of no bytes is the end of a stream.\<close>

definition splice_turn :: "splice_audit \<Rightarrow> duration \<Rightarrow> splice_event \<Rightarrow> splice_state \<Rightarrow> ustring option \<times> splice_state" where
  "splice_turn a idle ev s =
     (case ev of
        CloseRequested reason \<Rightarrow> (Some reason, s)
      | TtlTimer \<Rightarrow> (Some (ascii ''session_ttl''), s)
      | IdleTimer \<Rightarrow> (Some (ascii ''idle_timeout''), s)
      | AuditTimer wall \<Rightarrow> (None, (flush_statements a wall s)\<lparr>sp_audit_deadline := None\<rparr>)
      | ClientRead now wall bs w \<Rightarrow> if bs = [] then (Some (ascii ''client_closed''), s) else client_data a now wall bs w s
      | ClientEnd \<Rightarrow> (Some (ascii ''client_closed''), s)
      | UpstreamRead now bs w \<Rightarrow>
          if bs = [] then (Some (ascii ''upstream_closed''), s)
          else upstream_data (\<lambda>s. if sp_idle s then s\<lparr>sp_idle_deadline := now + idle\<rparr> else s) bs w s
      | UpstreamEnd \<Rightarrow> (Some (ascii ''upstream_closed''), s))"

text \<open>Which events the timers allow: a busy backend has no idle deadline, and neither timer fires after the session's end.\<close>

definition timers_allow :: "instant \<Rightarrow> instant \<Rightarrow> splice_event \<Rightarrow> splice_state \<Rightarrow> bool" where
  "timers_allow ttl now ev s =
     (case ev of
        TtlTimer \<Rightarrow> now \<ge> ttl
      | IdleTimer \<Rightarrow> now \<ge> (if sp_idle s then sp_idle_deadline s else ttl + secs 1)
      | AuditTimer _ \<Rightarrow> now \<ge> (case sp_audit_deadline s of Some t \<Rightarrow> t | None \<Rightarrow> ttl + secs 1)
      | _ \<Rightarrow> True)"

fun splice_loop :: "splice_audit \<Rightarrow> duration \<Rightarrow> splice_event list \<Rightarrow> splice_state \<Rightarrow> ustring option \<times> splice_state" where
  "splice_loop a idle [] s = (None, s)"
| "splice_loop a idle (ev # evs) s =
     (case splice_turn a idle ev s of (None, s) \<Rightarrow> splice_loop a idle evs s | (Some r, s) \<Rightarrow> (Some r, s))"

definition new_splice :: "instant \<Rightarrow> splice_state" where
  "new_splice idle_deadline =
     \<lparr>sp_client_scan = new_scanner, sp_upstream_scan = new_scanner, sp_idle = True, sp_idle_deadline = idle_deadline,
      sp_statements = [], sp_pending = 0, sp_total = 0, sp_listed = 0, sp_audit_deadline = None,
      sp_bytes_up = 0, sp_bytes_down = 0, sp_to_upstream = [], sp_to_client = [], sp_log = []\<rparr>"

text \<open>The end of a session: the client is told why the broker ended it (if the write succeeds), and the rest is logged.\<close>

definition splice_finish :: "splice_audit \<Rightarrow> datetime \<Rightarrow> bool \<Rightarrow> ustring \<Rightarrow> splice_state \<Rightarrow> splice_state" where
  "splice_finish a wall told reason s =
     flush_statements a wall
       (if reason \<in> {ascii ''closed_by_user'', ascii ''session_ttl'', ascii ''idle_timeout''} \<and> told
        then s\<lparr>sp_to_client := sp_to_client s @ error_response (ascii ''FATAL'') (ascii ''57P01'') (ascii ''Multitool: '' @ reason)\<rparr>
        else s)"

text \<open>The whole of \<open>splice\<close>: residual bytes first, then the loop. \<open>None\<close> means that the session is still running.\<close>

definition splice :: "splice_audit \<Rightarrow> duration \<Rightarrow> instant \<Rightarrow> datetime \<Rightarrow> bytes \<Rightarrow> write_event \<Rightarrow> bytes \<Rightarrow> write_event \<Rightarrow>
    splice_event list \<Rightarrow> datetime \<Rightarrow> bool \<Rightarrow> ustring option \<times> splice_state" where
  "splice a idle start wall client_residual cw upstream_residual uw evs wall_end told =
     (let s = new_splice (start + idle);
          (early, s) = (if client_residual \<noteq> [] then client_data a start wall client_residual cw s else (None, s));
          (early, s) = (if early = None \<and> upstream_residual \<noteq> [] then upstream_data (\<lambda>s. s) upstream_residual uw s else (early, s));
          (reason, s) = (if early = None then splice_loop a idle evs s else (early, s))
      in case reason of
           None \<Rightarrow> (None, s)
         | Some r \<Rightarrow> (Some r, splice_finish a wall_end told r s))"

subsection \<open>The log accounts for every statement\<close>

definition entry_statements :: "audit_entry \<Rightarrow> nat" where
  "entry_statements e = (case map_of (ae_fields e) (ascii ''statements'') of Some (JNumber n) \<Rightarrow> digits_value n | _ \<Rightarrow> 0)"

definition statements_of :: "(8 word \<times> bytes) list \<Rightarrow> ustring list" where
  "statements_of ms = List.map_filter (\<lambda>m. statement_text (fst m) (snd m)) ms"

text \<open>The statements of the client's bytes as far as the scanner sees them: those whose text it finds in the part of a message it keeps.\<close>

definition sent_statements :: "bytes \<Rightarrow> ustring list" where
  "sent_statements bs = statements_of (fst (scan_bytes bs new_scanner))"

definition listed_statements :: "splice_audit \<Rightarrow> ustring list \<Rightarrow> ustring list" where
  "listed_statements a texts = (if sa_record a then take STATEMENT_AUDIT_MAX texts else [])"

definition batch_detail :: "ustring list \<Rightarrow> ustring option" where
  "batch_detail texts = (if texts = [] then None else Some (join_lines texts))"

text \<open>What has been logged and what waits to be, after the client bytes \<open>bs\<close>.\<close>

definition accounted :: "splice_audit \<Rightarrow> bytes \<Rightarrow> splice_state \<Rightarrow> bool" where
  "accounted a bs s \<longleftrightarrow>
     sp_client_scan s = snd (scan_bytes bs new_scanner) \<and> sp_bytes_up s = length bs \<and>
     sp_total s = length (sent_statements bs) \<and> sum_list (map entry_statements (sp_log s)) + sp_pending s = sp_total s \<and>
     (sa_record a \<longrightarrow> sp_listed s = length (listed_statements a (sent_statements bs))) \<and>
     (sp_pending s = 0 \<longrightarrow> sp_statements s = []) \<and>
     (\<exists>groups. concat groups @ sp_statements s = listed_statements a (sent_statements bs) \<and> map ae_detail (sp_log s) = map batch_detail groups)"

lemma statement_batch_facts:
  "entry_statements (statement_batch a wall texts n t) = n"
  "(\<not> sa_record a \<longrightarrow> texts = []) \<Longrightarrow> ae_detail (statement_batch a wall texts n t) = batch_detail texts"
  by (auto simp: statement_batch_def entry_statements_def Let_def with_field_def with_detail_def with_agent_def with_connection_def
      new_entry_def batch_detail_def digits_value_show ascii_def)

lemma listed_only_recorded: "concat groups @ st = listed_statements a texts \<Longrightarrow> \<not> sa_record a \<Longrightarrow> st = []"
  by (simp add: listed_statements_def)

lemma accounted_flush: "accounted a bs s \<Longrightarrow> accounted a bs (flush_statements a wall s) \<and> sp_pending (flush_statements a wall s) = 0"
proof -
  assume i: "accounted a bs s"
  then obtain groups where g: "concat groups @ sp_statements s = listed_statements a (sent_statements bs)" "map ae_detail (sp_log s) = map batch_detail groups"
    by (auto simp: accounted_def)
  show ?thesis
  proof (cases "sp_pending s = 0")
    case False
    have "\<exists>gs. concat gs @ [] = listed_statements a (sent_statements bs) \<and>
        map ae_detail (sp_log s @ [statement_batch a wall (sp_statements s) (sp_pending s) (sp_total s)]) = map batch_detail gs"
      using g statement_batch_facts(2) [of a "sp_statements s"] listed_only_recorded [OF g(1)]
      by (intro exI [of _ "groups @ [sp_statements s]"]) auto
    with i False show ?thesis by (simp add: flush_statements_def accounted_def statement_batch_facts(1))
  qed (use i in \<open>simp add: flush_statements_def\<close>)
qed

lemma statements_of_simps [simp]:
  "statements_of [] = []"
  "statements_of (m # ms) = (case statement_text (fst m) (snd m) of None \<Rightarrow> statements_of ms | Some t \<Rightarrow> t # statements_of ms)"
  "statements_of (ms @ ns) = statements_of ms @ statements_of ns"
  by (simp_all add: statements_of_def map_filter_def split: option.split)

lemma watch_message_fields [simp]:
  "sp_client_scan (watch_message a m s) = sp_client_scan s" "sp_bytes_up (watch_message a m s) = sp_bytes_up s"
  "sp_log (watch_message a m s) = sp_log s" "sp_to_upstream (watch_message a m s) = sp_to_upstream s"
  "sp_pending (watch_message a m s) = sp_pending s + length (statements_of [m])" "sp_total (watch_message a m s) = sp_total s + length (statements_of [m])"
  by (auto simp: watch_message_def Let_def split: option.split)

lemma watch_message_listed:
  "sa_record a \<Longrightarrow> sp_statements (watch_message a m s) = sp_statements s @ take (STATEMENT_AUDIT_MAX - sp_listed s) (statements_of [m])"
  "sa_record a \<Longrightarrow> sp_listed (watch_message a m s) = sp_listed s + length (take (STATEMENT_AUDIT_MAX - sp_listed s) (statements_of [m]))"
  "\<not> sa_record a \<Longrightarrow> sp_statements (watch_message a m s) = sp_statements s"
  by (auto simp: watch_message_def Let_def split: option.split)

lemma watch_messages_fields:
  "sp_client_scan (fold (watch_message a) ms s) = sp_client_scan s" "sp_bytes_up (fold (watch_message a) ms s) = sp_bytes_up s"
  "sp_log (fold (watch_message a) ms s) = sp_log s" "sp_to_upstream (fold (watch_message a) ms s) = sp_to_upstream s"
  "sp_pending (fold (watch_message a) ms s) = sp_pending s + length (statements_of ms)"
  "sp_total (fold (watch_message a) ms s) = sp_total s + length (statements_of ms)"
  by (induction ms arbitrary: s) (auto split: option.split)

lemma take_budget:
  fixes l :: nat
  shows "take (k - l) (xs @ ys) = take (k - l) xs @ take (k - (l + length (take (k - l) xs))) ys"
  by (auto simp: min_def)

lemma watch_messages_listed:
  "sa_record a \<Longrightarrow> sp_statements (fold (watch_message a) ms s) = sp_statements s @ take (STATEMENT_AUDIT_MAX - sp_listed s) (statements_of ms) \<and>
     sp_listed (fold (watch_message a) ms s) = sp_listed s + length (take (STATEMENT_AUDIT_MAX - sp_listed s) (statements_of ms))"
proof (induction ms arbitrary: s)
  case (Cons m ms)
  have e: "statements_of (m # ms) = statements_of [m] @ statements_of ms" using statements_of_simps(3) [of "[m]" ms] by simp
  show ?case
    unfolding e take_budget fold_simps using Cons.IH [of "watch_message a m s"] Cons.prems watch_message_listed(1,2) [of a m s]
    by (simp only: append_assoc length_append add.assoc simp_thms)
qed simp

lemma watch_messages_unlisted: "\<not> sa_record a \<Longrightarrow> sp_statements (fold (watch_message a) ms s) = sp_statements s"
  by (induction ms arbitrary: s) (simp_all add: watch_message_listed(3))

lemma sent_statements_append:
  "sent_statements (bs @ cs) = sent_statements bs @ statements_of (fst (scan_bytes cs (snd (scan_bytes bs new_scanner))))"
  by (auto simp: sent_statements_def scan_bytes_append split: prod.splits)

lemma listed_append:
  "listed_statements a (xs @ ys) =
     listed_statements a xs @ (if sa_record a then take (STATEMENT_AUDIT_MAX - length (listed_statements a xs)) ys else [])"
  using take_budget [of STATEMENT_AUDIT_MAX 0 xs ys] by (simp add: listed_statements_def)

lemma accounted_watch:
  assumes "accounted a bs s"
  shows "accounted a (bs @ cs) (watch_client a cs (s\<lparr>sp_bytes_up := sp_bytes_up s + length cs\<rparr>))"
proof -
  obtain ms scan where f: "scan_bytes cs (snd (scan_bytes bs new_scanner)) = (ms, scan)" by fastforce
  have "scanner_ok (snd (scan_bytes bs new_scanner))" using scan_bytes_ok [OF scanner_ok_new] by (metis prod.collapse)
  then have w: "watch_client a cs (s\<lparr>sp_bytes_up := sp_bytes_up s + length cs\<rparr>) =
      fold (watch_message a) ms (s\<lparr>sp_bytes_up := sp_bytes_up s + length cs, sp_client_scan := scan\<rparr>)" (is "_ = ?s")
    using assms f by (simp add: watch_client_def feed_scan accounted_def)
  have sent: "sent_statements (bs @ cs) = sent_statements bs @ statements_of ms" by (simp add: sent_statements_append f)
  have scan: "snd (scan_bytes (bs @ cs) new_scanner) = scan" using f by (auto simp: scan_bytes_append split: prod.splits)
  obtain groups where g: "concat groups @ sp_statements s = listed_statements a (sent_statements bs)" "map ae_detail (sp_log s) = map batch_detail groups"
    using assms by (auto simp: accounted_def)
  have l: "sa_record a \<Longrightarrow> sp_listed s = length (listed_statements a (sent_statements bs))" "sp_pending s = 0 \<Longrightarrow> sp_statements s = []"
    using assms by (auto simp: accounted_def)
  have st: "sp_statements ?s = sp_statements s @ (if sa_record a then take (STATEMENT_AUDIT_MAX - length (listed_statements a (sent_statements bs))) (statements_of ms) else [])"
    using watch_messages_listed [of a ms] watch_messages_unlisted [of a ms] l(1) by auto
  then have "concat groups @ sp_statements ?s = listed_statements a (sent_statements (bs @ cs))"
    unfolding sent listed_append using g(1) by (metis append.assoc)
  moreover have "sa_record a \<longrightarrow> sp_listed ?s = length (listed_statements a (sent_statements (bs @ cs)))"
    unfolding sent listed_append using watch_messages_listed [of a ms] l(1) by auto
  moreover have "sp_pending ?s = 0 \<longrightarrow> sp_statements ?s = []" using st l(2) by (auto simp: watch_messages_fields)
  ultimately show ?thesis unfolding w accounted_def using assms g(2) scan sent
    by (auto simp: watch_messages_fields accounted_def)
qed

lemma accounted_fields:
  "accounted a bs s \<Longrightarrow> sp_client_scan t = sp_client_scan s \<Longrightarrow> sp_bytes_up t = sp_bytes_up s \<Longrightarrow> sp_total t = sp_total s \<Longrightarrow> sp_log t = sp_log s \<Longrightarrow>
     sp_pending t = sp_pending s \<Longrightarrow> sp_listed t = sp_listed s \<Longrightarrow> sp_statements t = sp_statements s \<Longrightarrow> accounted a bs t"
  by (simp add: accounted_def)

lemma watch_client_forwarded: "sp_to_upstream (watch_client a bs s) = sp_to_upstream s"
  by (simp add: watch_client_def watch_messages_fields split: prod.split)

lemma flush_forwarded: "sp_to_upstream (flush_statements a wall s) = sp_to_upstream s"
  by (simp add: flush_statements_def)

lemma client_data_accounted:
  assumes "accounted a D s" "sp_to_upstream s = D" "client_data a now wall bs w s = (r, s')"
  shows "accounted a (D @ bs) s' \<and> sp_to_upstream s' = (if r = None then D @ bs else D)"
proof -
  let ?w = "watch_client a bs (s\<lparr>sp_bytes_up := sp_bytes_up s + length bs\<rparr>)"
  let ?d = "if sp_pending s = 0 \<and> sp_pending ?w > 0 then ?w\<lparr>sp_audit_deadline := Some (now + STATEMENT_AUDIT_FLUSH_INTERVAL)\<rparr> else ?w"
  let ?f = "if sp_pending ?d \<ge> STATEMENT_AUDIT_BATCH_MAX then (flush_statements a wall ?d)\<lparr>sp_audit_deadline := None\<rparr> else ?d"
  have "accounted a (D @ bs) ?d" by (rule accounted_fields [OF accounted_watch [OF assms(1), of bs]]) auto
  then have f: "accounted a (D @ bs) ?f" using accounted_fields [OF accounted_flush [THEN conjunct1]] by auto
  have t: "sp_to_upstream ?f = D" using assms(2) by (simp add: watch_client_forwarded flush_forwarded)
  from assms(3) consider "r = None" "s' = ?f\<lparr>sp_idle := False, sp_to_upstream := sp_to_upstream ?f @ bs\<rparr>" | "r \<noteq> None" "s' = ?f\<lparr>sp_idle := False\<rparr>"
    unfolding client_data_def Let_def by (simp split: sum.splits) blast+
  then show ?thesis using f t by cases (auto intro: accounted_fields)
qed

lemma upstream_data_accounted:
  assumes "accounted a D s" "upstream_data rearm bs w s = (r, s')"
    and "\<And>t. sp_to_upstream (rearm t) = sp_to_upstream t" "\<And>t. accounted a D t \<Longrightarrow> accounted a D (rearm t)"
  shows "accounted a D s' \<and> sp_to_upstream s' = sp_to_upstream s"
proof -
  obtain ms scan where m: "feed bs (sp_upstream_scan s) = (ms, scan)" by fastforce
  let ?s = "s\<lparr>sp_bytes_down := sp_bytes_down s + length bs, sp_upstream_scan := scan\<rparr>"
  let ?t = "if \<exists>m\<in>set ms. fst m = 90 then ?s\<lparr>sp_idle := True\<rparr> else ?s"
  have "accounted a D ?t" by (rule accounted_fields [OF assms(1)]) auto
  then have "accounted a D (rearm ?t)" "sp_to_upstream (rearm ?t) = sp_to_upstream s" using assms(3,4) by auto
  moreover have "s' = rearm ?t \<or> s' = (rearm ?t)\<lparr>sp_to_client := sp_to_client (rearm ?t) @ bs\<rparr>"
    using assms(2) unfolding upstream_data_def Let_def m prod.case
    by (cases "splice_write (ascii ''client_closed'') (ascii ''client_write_timeout'') w") (simp_all only: sum.case prod.inject simp_thms)
  ultimately show ?thesis by (auto intro: accounted_fields)
qed

definition client_input :: "splice_event list \<Rightarrow> bytes" where
  "client_input evs = concat (map (\<lambda>ev. case ev of ClientRead _ _ bs _ \<Rightarrow> bs | _ \<Rightarrow> []) evs)"

definition forwarded :: "splice_audit \<Rightarrow> bytes \<Rightarrow> splice_state \<Rightarrow> bool" where
  "forwarded a D s \<longleftrightarrow> accounted a D s \<and> sp_to_upstream s = D"

lemma splice_turn_accounted:
  assumes "forwarded a D s" "splice_turn a idle ev s = (r, s')"
  shows "\<exists>D'. prefix D D' \<and> prefix D' (D @ client_input [ev]) \<and> accounted a D' s' \<and> prefix (sp_to_upstream s') D' \<and>
    (r = None \<longrightarrow> forwarded a D' s' \<and> D' = D @ client_input [ev])"
proof (cases ev)
  case (ClientRead now wall bs w)
  show ?thesis
  proof (cases "bs = []")
    case False
    then have "client_data a now wall bs w s = (r, s')" using assms(2) ClientRead by (simp add: splice_turn_def)
    from client_data_accounted [OF _ _ this] assms(1) show ?thesis
      by (intro exI [of _ "D @ bs"]) (auto simp: forwarded_def ClientRead client_input_def split: if_splits)
  qed (use assms ClientRead in \<open>auto simp: splice_turn_def forwarded_def client_input_def\<close>)
next
  case (UpstreamRead now bs w)
  show ?thesis
  proof (cases "bs = []")
    case False
    then have u: "upstream_data (\<lambda>s. if sp_idle s then s\<lparr>sp_idle_deadline := now + idle\<rparr> else s) bs w s = (r, s')"
      using assms(2) UpstreamRead by (simp add: splice_turn_def)
    have "accounted a D s' \<and> sp_to_upstream s' = sp_to_upstream s"
      using assms(1) by (intro upstream_data_accounted [OF _ u]) (auto simp: forwarded_def intro: accounted_fields)
    then show ?thesis using assms(1) by (intro exI [of _ D]) (auto simp: forwarded_def UpstreamRead client_input_def)
  qed (use assms UpstreamRead in \<open>auto simp: splice_turn_def forwarded_def client_input_def\<close>)
next
  case (AuditTimer wall)
  then have "s' = (flush_statements a wall s)\<lparr>sp_audit_deadline := None\<rparr>" using assms(2) by (simp add: splice_turn_def)
  then have "forwarded a D s'" using assms(1) accounted_fields [OF accounted_flush [THEN conjunct1, of a D s wall]]
    by (auto simp: forwarded_def flush_forwarded)
  then show ?thesis by (intro exI [of _ D]) (auto simp: AuditTimer client_input_def forwarded_def)
qed (use assms in \<open>auto simp: splice_turn_def forwarded_def client_input_def\<close>)

lemma splice_loop_accounted:
  "forwarded a D s \<Longrightarrow> splice_loop a idle evs s = (r, s') \<Longrightarrow>
     \<exists>D'. prefix D' (D @ client_input evs) \<and> accounted a D' s' \<and> prefix (sp_to_upstream s') D'"
proof (induction evs arbitrary: D s)
  case (Cons ev evs)
  obtain q t where t: "splice_turn a idle ev s = (q, t)" by fastforce
  have e: "D @ client_input (ev # evs) = (D @ client_input [ev]) @ client_input evs" by (simp add: client_input_def)
  from splice_turn_accounted [OF Cons.prems(1) t] obtain E where
    E: "prefix E (D @ client_input [ev])" "accounted a E t" "prefix (sp_to_upstream t) E" "q = None \<longrightarrow> forwarded a E t \<and> E = D @ client_input [ev]" by blast
  show ?case
  proof (cases q)
    case None
    with E(4) have "forwarded a (D @ client_input [ev]) t" by blast
    from Cons.IH [OF this] Cons.prems(2) t None show ?thesis unfolding e by simp
  next
    case (Some x)
    then have "s' = t" using Cons.prems(2) t by simp
    moreover have "prefix E ((D @ client_input [ev]) @ client_input evs)" using E(1) by (rule prefix_prefix)
    ultimately show ?thesis using E(2,3) unfolding e by blast
  qed
qed (auto simp: forwarded_def client_input_def)

lemma forwarded_new: "forwarded a [] (new_splice t)"
  by (simp add: forwarded_def accounted_def new_splice_def sent_statements_def listed_statements_def)

lemma sent_statements_frames:
  assumes "\<forall>m\<in>set ms. int (length (snd m)) + 4 \<le> MAX_SPLICE_MESSAGE"
  shows "sent_statements (concat (map (\<lambda>(t, p). frame t p) ms)) = List.map_filter (\<lambda>(t, p). statement_text t (take SCAN_PEEK_CAP p)) ms"
proof -
  have "scan_bytes (concat (map (\<lambda>(t, p). frame t p) ms)) new_scanner = (map (apsnd (take SCAN_PEEK_CAP)) ms, new_scanner)"
    using assms by (intro scan_frames) (simp_all add: new_scanner_def)
  moreover have "statements_of (map (apsnd (take SCAN_PEEK_CAP)) ms) = List.map_filter (\<lambda>(t, p). statement_text t (take SCAN_PEEK_CAP p)) ms"
    by (induction ms) (auto simp: map_filter_def split: option.split)
  ultimately show ?thesis by (simp add: sent_statements_def)
qed


text \<open>A session with one statement, in the bytes left over from the handshake, that the user closes.\<close>

definition example_audit :: splice_audit where
  "example_audit = \<lparr>sa_connection = ascii ''db'', sa_agent = ascii ''a'', sa_record = True\<rparr>"

lemma example_feed: "feed (frame 81 [65, 0]) new_scanner = ([(81, [65, 0])], new_scanner)"
  using scan_frame [of new_scanner "[65, 0]" 81] by (simp add: feed_scan scanner_ok_new MAX_SPLICE_MESSAGE_def SCAN_PEEK_CAP_def) (simp add: new_scanner_def)

lemma example_statement: "statement_text 81 [65, 0] = Some [65]"
  by (simp add: statement_text_def cstr_prefix_def from_utf8_lossy_def lossy_step_def trim_def is_whitespace_def cap_approval_text_def cap_def
      APPROVAL_TEXT_CAP_def display_char_def is_invisible_format_def is_control_def in_range_def)

definition example_closed :: splice_state where
  "example_closed = snd (splice example_audit (secs 1) 0 0 (frame 81 [65, 0]) WroteAll [] WroteAll [CloseRequested (ascii ''closed_by_user'')] 9 False)"


end
