(* ===== verification/PgUpstream.thy ===== *)
theory PgUpstream
  imports PgWire
begin

text \<open>
  The upstream side of the Postgres plane, from \<^verbatim>\<open>crates/aka-core/src/capability/pg.rs\<close>: the choice between TLS and plaintext,
  the startup and authentication exchange up to \<open>ReadyForQuery\<close>, the test query, and the registry of cancel keys. The server
  is the bytes it will send. TCP, TLS, MD5, SCRAM and the Unicode case table are parameters (\<open>pg_env\<close>).
\<close>

subsection \<open>Errors\<close>

datatype test_error_kind = Unreachable | TlsDeclined | CertUnverified | NeedsPassword | AuthRejected | WrongProtocol | DialTimeout | OtherError

record test_error =
  te_kind :: test_error_kind
  te_detail :: ustring

definition plain_error :: "ustring \<Rightarrow> test_error" where
  "plain_error d = \<lparr>te_kind = OtherError, te_detail = d\<rparr>"

text \<open>
  \<open>pe_upper\<close> is \<open>char::to_uppercase\<close>, \<open>pe_io\<close> the text of an I/O error. \<open>pe_connect\<close>, \<open>pe_probe\<close> and \<open>pe_wrap\<close> are the outcomes of
  connecting, of the TLS request (the reply byte) and of the TLS handshake (the channel-binding digest). \<open>pe_scram\<close>
  is the client's side of SCRAM: its first message, its answer to the server's, and the check of the server's last.
\<close>

datatype channel_binding = TlsServerEndPoint bytes | BindingUnsupported | BindingUnrequested

record pg_env =
  pe_upper :: "uchar \<Rightarrow> ustring"
  pe_io :: "io_error \<Rightarrow> ustring"
  pe_connect :: "ustring + unit"
  pe_probe :: "ustring + 8 word"
  pe_wrap :: "pg_ssl_mode \<Rightarrow> ustring option \<Rightarrow> test_error + bytes option"
  pe_md5 :: "bytes \<Rightarrow> bytes"
  pe_scram_first :: "bytes \<Rightarrow> channel_binding \<Rightarrow> bytes"
  pe_scram_next :: "bytes \<Rightarrow> channel_binding \<Rightarrow> bytes \<Rightarrow> ustring + bytes"
  pe_scram_final :: "bytes \<Rightarrow> channel_binding \<Rightarrow> bytes \<Rightarrow> bytes \<Rightarrow> ustring + unit"

definition sentence_case :: "pg_env \<Rightarrow> ustring \<Rightarrow> ustring" where
  "sentence_case E m = (case m of [] \<Rightarrow> [] | c # cs \<Rightarrow> pe_upper E c @ cs)"

definition upstream_error :: "pg_env \<Rightarrow> bytes \<Rightarrow> test_error" where
  "upstream_error E p =
     (let (code, m) = parse_error_response p;
          m = sentence_case E m;
          kind = (if prefix (ascii ''28'') code then AuthRejected else OtherError);
          detail = (if m \<noteq> [] \<and> code \<noteq> [] then m @ ascii '' ('' @ code @ ascii '')''
                    else if m \<noteq> [] then m
                    else if code \<noteq> [] then ascii ''The server reported error '' @ code
                    else ascii ''The server reported an error with no detail'')
      in \<lparr>te_kind = kind, te_detail = detail\<rparr>)"

definition needs_password :: test_error where
  "needs_password = \<lparr>te_kind = NeedsPassword,
     te_detail = ascii ''The server asks for a password, but this connection has no saved credential''\<rparr>"

subsection \<open>Transport\<close>

definition sslmode_name :: "pg_ssl_mode \<Rightarrow> ustring" where
  "sslmode_name m =
     (case m of Disable \<Rightarrow> ascii ''disable'' | Prefer \<Rightarrow> ascii ''prefer'' | Require \<Rightarrow> ascii ''require''
      | VerifyCa \<Rightarrow> ascii ''verify-ca'' | VerifyFull \<Rightarrow> ascii ''verify-full'')"

definition effective_tls_mode :: "pg_ssl_mode \<Rightarrow> bool \<Rightarrow> ustring" where
  "effective_tls_mode m downgraded =
     (if downgraded \<or> m = Disable then ascii ''plaintext''
      else case m of
        VerifyCa \<Rightarrow> ascii ''tls_verified_ca''
      | VerifyFull \<Rightarrow> ascii ''tls_verified_full''
      | _ \<Rightarrow> ascii ''tls_unverified'')"

record upstream_transport =
  ut_tls :: bool
  ut_cert_hash :: "bytes option"
  ut_downgraded :: bool

definition unreachable :: "pg_config \<Rightarrow> ustring \<Rightarrow> test_error" where
  "unreachable p e = \<lparr>te_kind = Unreachable, te_detail = ascii ''Could not reach '' @ pg_host p @ [58] @ show_u16 (pg_port p) @ ascii '': '' @ e\<rparr>"

definition hex_byte :: "8 word \<Rightarrow> ustring" where
  "hex_byte b = [hex_digit (unat b div 16), hex_digit (unat b mod 16)]"

definition tls_connect :: "pg_env \<Rightarrow> pg_config \<Rightarrow> test_error + upstream_transport" where
  "tls_connect E p =
     (case pe_connect E of
        Inl e \<Rightarrow> Err (unreachable p e)
      | Inr _ \<Rightarrow>
          if sslmode p = Disable then Ok \<lparr>ut_tls = False, ut_cert_hash = None, ut_downgraded = False\<rparr>
          else case pe_probe E of
            Inl e \<Rightarrow> Err (plain_error e)
          | Inr answer \<Rightarrow>
              if answer = 83 then
                (case pe_wrap E (sslmode p) (pg_trusted_ca_bundle_path p) of
                   Inl e \<Rightarrow> Err e
                 | Inr digest \<Rightarrow> Ok \<lparr>ut_tls = True, ut_cert_hash = digest, ut_downgraded = False\<rparr>)
              else if answer = 78 then
                if sslmode p = Prefer then Ok \<lparr>ut_tls = False, ut_cert_hash = None, ut_downgraded = True\<rparr>
                else Err \<lparr>te_kind = TlsDeclined, te_detail = ascii ''The server refused to start TLS, but this connection's TLS mode ('' @ [34] @
                       sslmode_name (sslmode p) @ [34] @ ascii '') requires it''\<rparr>
              else Err \<lparr>te_kind = WrongProtocol, te_detail =
                     ascii ''The reply to the TLS request doesn't look like Postgres '' @ [8212] @ ascii '' check that '' @
                     pg_host p @ [58] @ show_u16 (pg_port p) @ ascii '' is really a PostgreSQL server (reply byte 0x'' @ hex_byte answer @ ascii '')''\<rparr>)"

subsection \<open>Authentication\<close>

definition hex_text :: "bytes \<Rightarrow> ustring" where
  "hex_text bs = concat (map hex_byte bs)"

definition md5_password :: "pg_env \<Rightarrow> ustring \<Rightarrow> bytes \<Rightarrow> bytes \<Rightarrow> ustring" where
  "md5_password E user pw salt =
     ascii ''md5'' @ hex_text (pe_md5 E (as_bytes (hex_text (pe_md5 E (pw @ as_bytes user))) @ salt))"

text \<open>A result with the failing text wrapped, as \<open>map_err(|e| format!(...))\<close>.\<close>

definition wrap_io :: "pg_env \<Rightarrow> string \<Rightarrow> (io_error + 'a) \<times> pg_client \<Rightarrow> (test_error + 'a) \<times> pg_client" where
  "wrap_io E what r = (case r of (Inl e, c) \<Rightarrow> (Err (plain_error (ascii what @ ascii '' failed: '' @ pe_io E e)), c) | (Inr x, c) \<Rightarrow> (Ok x, c))"

definition SCRAM_SHA_256 :: ustring where "SCRAM_SHA_256 = ascii ''SCRAM-SHA-256''"

definition SCRAM_SHA_256_PLUS :: ustring where "SCRAM_SHA_256_PLUS = ascii ''SCRAM-SHA-256-PLUS''"

function sasl_mechanisms :: "bytes \<Rightarrow> ustring list \<Rightarrow> io_error + ustring list" where
  "sasl_mechanisms rest ms =
     (case take_cstr rest of
        Inl e \<Rightarrow> Err e
      | Inr (n, tail) \<Rightarrow> if n = [] then Ok ms else sasl_mechanisms tail (ms @ [n]))"
  by pat_completeness auto
termination
  by (relation "measure (length \<circ> fst)") (auto dest!: take_cstr_shorter)

declare sasl_mechanisms.simps [simp del]

definition sasl_choice :: "ustring list \<Rightarrow> bytes option \<Rightarrow> (ustring \<times> channel_binding) option" where
  "sasl_choice ms digest =
     (case (SCRAM_SHA_256_PLUS \<in> set ms, digest) of
        (True, Some d) \<Rightarrow> Some (SCRAM_SHA_256_PLUS, TlsServerEndPoint d)
      | (True, None) \<Rightarrow> if SCRAM_SHA_256 \<in> set ms then Some (SCRAM_SHA_256, BindingUnsupported) else None
      | (False, _) \<Rightarrow> if SCRAM_SHA_256 \<in> set ms then Some (SCRAM_SHA_256, BindingUnrequested) else None)"

text \<open>The reply the exchange waits for: an authentication message with the code, or an error.\<close>

definition sasl_reply :: "pg_env \<Rightarrow> 32 word \<Rightarrow> string \<Rightarrow> pg_client \<Rightarrow> (test_error + bytes) \<times> pg_client" where
  "sasl_reply E code name c =
     (case wrap_io E ''SASL read'' (read_message c) of
        (Inl e, c) \<Rightarrow> (Err e, c)
      | (Inr (tag, p), c) \<Rightarrow>
          if tag = 82 \<and> length p \<ge> 4 \<and> be_i32 p = code then (Ok (drop 4 p), c)
          else if tag = 69 then (Err (upstream_error E p), c)
          else (Err (plain_error (ascii ''expected '' @ ascii name)), c))"

fun join_comma :: "ustring list \<Rightarrow> ustring" where
  "join_comma [] = []"
| "join_comma [t] = t"
| "join_comma (t # ts) = t @ ascii '', '' @ join_comma ts"

definition sasl_auth :: "pg_env \<Rightarrow> bytes \<Rightarrow> bytes \<Rightarrow> bytes option \<Rightarrow> pg_client \<Rightarrow> (test_error + unit) \<times> pg_client" where
  "sasl_auth E mechanisms pw digest c =
     (case sasl_mechanisms mechanisms [] of
        Inl e \<Rightarrow> (Err (plain_error (ascii ''bad SASL mechanisms: '' @ pe_io E e)), c)
      | Inr ms \<Rightarrow>
          (case sasl_choice ms digest of
             None \<Rightarrow> (Err (plain_error (ascii ''no supported SASL mechanism (offered: '' @ join_comma ms @ ascii '')'')), c)
           | Some (mechanism, binding) \<Rightarrow>
               let first = pe_scram_first E pw binding in
               (case wrap_io E ''SASL write'' (write_all (frame 112 (put_cstr mechanism @ put_i32 (of_nat (length first)) @ first)) c) of
                  (Inl e, c) \<Rightarrow> (Err e, c)
                | (Inr _, c) \<Rightarrow>
                    (case sasl_reply E 11 ''AuthenticationSASLContinue'' c of
                       (Inl e, c) \<Rightarrow> (Err e, c)
                     | (Inr server_first, c) \<Rightarrow>
                         (case pe_scram_next E pw binding server_first of
                            Inl e \<Rightarrow> (Err (plain_error (ascii ''SCRAM continue failed: '' @ e)), c)
                          | Inr m \<Rightarrow>
                              (case wrap_io E ''SASL write'' (write_all (frame 112 m) c) of
                                 (Inl e, c) \<Rightarrow> (Err e, c)
                               | (Inr _, c) \<Rightarrow>
                                   (case sasl_reply E 12 ''AuthenticationSASLFinal'' c of
                                      (Inl e, c) \<Rightarrow> (Err e, c)
                                    | (Inr server_final, c) \<Rightarrow>
                                        (case pe_scram_final E pw binding server_first server_final of
                                           Inl e \<Rightarrow> (Err (plain_error (ascii ''SCRAM verification failed: '' @ e)), c)
                                         | Inr _ \<Rightarrow> (Ok (), c)))))))))"

definition MAX_UPSTREAM_AUTH_MESSAGES :: nat where "MAX_UPSTREAM_AUTH_MESSAGES = 8"

definition password_message :: "ustring \<Rightarrow> bytes" where
  "password_message pw = frame 112 (put_cstr pw)"

text \<open>The answer to one authentication request that is not the final one.\<close>

definition answer_auth :: "pg_env \<Rightarrow> ustring \<Rightarrow> ustring option \<Rightarrow> bytes option \<Rightarrow> bytes \<Rightarrow> pg_client \<Rightarrow> (test_error + unit) \<times> pg_client" where
  "answer_auth E user pw digest p c =
     (let code = be_i32 p in
      if code = 3 then
        (case pw of
           None \<Rightarrow> (Err needs_password, c)
         | Some pw \<Rightarrow> wrap_io E ''password write'' (write_all (password_message pw) c))
      else if code = 5 then
        (case pw of
           None \<Rightarrow> (Err needs_password, c)
         | Some pw \<Rightarrow>
             if length p < 8 then (Err (plain_error (ascii ''short md5 auth request'')), c)
             else wrap_io E ''password write''
               (write_all (password_message (md5_password E user (as_bytes pw) (take 4 (drop 4 p)))) c))
      else if code = 10 then
        (case pw of
           None \<Rightarrow> (Err needs_password, c)
         | Some pw \<Rightarrow> sasl_auth E (drop 4 p) (as_bytes pw) digest c)
      else (Err (plain_error (ascii ''The server asked for an authentication method Multitool doesn't support (code '' @ show_i32 code @ ascii '')'')), c))"

definition unexpected_message :: "8 word \<Rightarrow> string \<Rightarrow> test_error" where
  "unexpected_message tag phase = plain_error (ascii ''unexpected message '' @ [39, unat tag, 39] @ ascii '' during upstream '' @ ascii phase)"

fun auth_loop :: "pg_env \<Rightarrow> ustring \<Rightarrow> ustring option \<Rightarrow> bytes option \<Rightarrow> nat \<Rightarrow> pg_client \<Rightarrow> (test_error + unit) \<times> pg_client" where
  "auth_loop E user pw digest 0 c =
     (Err \<lparr>te_kind = WrongProtocol, te_detail = ascii ''The server did not finish authentication within 8 messages''\<rparr>, c)"
| "auth_loop E user pw digest (Suc n) c =
     (case wrap_io E ''auth read'' (read_message c) of
        (Inl e, c) \<Rightarrow> (Err e, c)
      | (Inr (tag, p), c) \<Rightarrow>
          if tag = 69 then (Err (upstream_error E p), c)
          else if tag = 118 then auth_loop E user pw digest n c
          else if tag = 82 then
            if length p < 4 then (Err (plain_error (ascii ''short auth request'')), c)
            else if be_i32 p = 0 then (Ok (), c)
            else (case answer_auth E user pw digest p c of
                    (Inl e, c) \<Rightarrow> (Err e, c)
                  | (Inr _, c) \<Rightarrow> auth_loop E user pw digest n c)
          else (Err (unexpected_message tag ''auth''), c))"

subsection \<open>After authentication\<close>

definition MAX_STARTUP_FORWARD_BYTES :: nat where "MAX_STARTUP_FORWARD_BYTES = 64 * 1024"

record upstream_session =
  us_downgraded :: bool
  us_forward :: bytes
  us_pid :: "32 word"
  us_key :: "32 word"
  us_ready :: "8 word"
  us_server_version :: "ustring option"

definition reported_version :: "bytes \<Rightarrow> ustring option \<Rightarrow> ustring option" where
  "reported_version p old =
     (case take_cstr p of
        Inr (n, rest) \<Rightarrow>
          if n = ascii ''server_version'' then (case take_cstr rest of Inr (v, _) \<Rightarrow> Some v | Inl _ \<Rightarrow> old) else old
      | Inl _ \<Rightarrow> old)"

text \<open>One message of the startup phase; \<open>Inr (Some ready)\<close> ends it.\<close>

definition startup_message :: "pg_env \<Rightarrow> 8 word \<times> bytes \<Rightarrow> upstream_session \<Rightarrow> test_error + 8 word option \<times> upstream_session" where
  "startup_message E m u =
     (let (tag, p) = m in
      if tag = 83 \<or> tag = 78 then
        if length (us_forward u) + (length p + 5) > MAX_STARTUP_FORWARD_BYTES then
          Err \<lparr>te_kind = WrongProtocol, te_detail = ascii ''The server sent more than 64 KiB of startup metadata''\<rparr>
        else Ok (None, u\<lparr>us_forward := us_forward u @ frame tag p,
                         us_server_version := (if tag = 83 then reported_version p (us_server_version u) else us_server_version u)\<rparr>)
      else if tag = 75 then
        if length p < 8 then Err (plain_error (ascii ''short BackendKeyData''))
        else Ok (None, u\<lparr>us_pid := be_i32 p, us_key := be_i32 (drop 4 p)\<rparr>)
      else if tag = 90 then Ok (Some (case p of [] \<Rightarrow> 73 | b # _ \<Rightarrow> b), u)
      else if tag = 69 then Err (upstream_error E p)
      else if tag = 118 then Ok (None, u)
      else Err (unexpected_message tag ''startup''))"

lemma read_message_shorter: "read_message c = (Inr m, c') \<Longrightarrow> length (rd_bytes c') < length (rd_bytes c)"
  by (auto simp: read_message_def read_exact_def Let_def split: if_splits)

function startup_loop :: "pg_env \<Rightarrow> upstream_session \<Rightarrow> pg_client \<Rightarrow> (test_error + upstream_session) \<times> pg_client" where
  "startup_loop E u c =
     (case read_message c of
        (Inl e, c) \<Rightarrow> (Err (plain_error (ascii ''startup read failed: '' @ pe_io E e)), c)
      | (Inr m, c) \<Rightarrow>
          (case startup_message E m u of
             Inl e \<Rightarrow> (Err e, c)
           | Inr (Some ready, u) \<Rightarrow> (Ok (u\<lparr>us_ready := ready\<rparr>), c)
           | Inr (None, u) \<Rightarrow> startup_loop E u c))"
  by pat_completeness auto
termination
  by (relation "measure (\<lambda>(E, u, c). length (rd_bytes c))") (auto dest: read_message_shorter [OF sym] read_message_shorter)

declare startup_loop.simps [simp del]

text \<open>\<open>server\<close> is the connection to the server, after TLS where that was negotiated.\<close>

definition dial_upstream_with_password ::
  "pg_env \<Rightarrow> connection \<Rightarrow> ustring option \<Rightarrow> (ustring \<times> ustring) list \<Rightarrow> pg_client \<Rightarrow> (test_error + upstream_session) \<times> pg_client" where
  "dial_upstream_with_password E conn pw params server =
     (case conn_config conn of
        Pg p \<Rightarrow>
          (case tls_connect E p of
             Inl e \<Rightarrow> (Err e, server)
           | Inr t \<Rightarrow>
               (case wrap_io E ''startup write'' (write_all (upstream_startup p params) server) of
                  (Inl e, c) \<Rightarrow> (Err e, c)
                | (Inr _, c) \<Rightarrow>
                    (case auth_loop E (pg_user p) pw (ut_cert_hash t) MAX_UPSTREAM_AUTH_MESSAGES c of
                       (Inl e, c) \<Rightarrow> (Err e, c)
                     | (Inr _, c) \<Rightarrow>
                         startup_loop E \<lparr>us_downgraded = ut_downgraded t, us_forward = [], us_pid = 0, us_key = 0, us_ready = 73, us_server_version = None\<rparr> c)))
      | _ \<Rightarrow> (Err (plain_error (ascii ''not a postgres connection'')), server))"

text \<open>\<open>secret\<close> is the store's answer for a secret id, or the text of its error.\<close>

definition dial_upstream ::
  "pg_env \<Rightarrow> (uuid \<Rightarrow> ustring + ustring) \<Rightarrow> connection \<Rightarrow> (ustring \<times> ustring) list \<Rightarrow> pg_client \<Rightarrow> (test_error + upstream_session) \<times> pg_client" where
  "dial_upstream E secret conn params server =
     (case conn_secrets conn of
        [] \<Rightarrow> dial_upstream_with_password E conn None params server
      | i # _ \<Rightarrow>
          (case secret i of
             Inl e \<Rightarrow> (Err (plain_error (ascii ''The saved credential could not be read: '' @ e)), server)
           | Inr pw \<Rightarrow> dial_upstream_with_password E conn (Some pw) params server))"

subsection \<open>The test query\<close>

definition MAX_TEST_QUERY_MESSAGES :: nat where "MAX_TEST_QUERY_MESSAGES = 64"

definition MAX_TEST_QUERY_BYTES :: nat where "MAX_TEST_QUERY_BYTES = 64 * 1024"

fun select_one_loop :: "pg_env \<Rightarrow> nat \<Rightarrow> nat \<Rightarrow> bool \<Rightarrow> pg_client \<Rightarrow> (test_error + unit) \<times> pg_client" where
  "select_one_loop E 0 n completed c =
     (Err \<lparr>te_kind = WrongProtocol, te_detail = ascii ''The server did not finish SELECT 1 within 64 messages''\<rparr>, c)"
| "select_one_loop E (Suc k) n completed c =
     (case wrap_io E ''test query read'' (read_message c) of
        (Inl e, c) \<Rightarrow> (Err e, c)
      | (Inr (tag, p), c) \<Rightarrow>
          let n = n + (length p + 5) in
          if n > MAX_TEST_QUERY_BYTES then (Err \<lparr>te_kind = WrongProtocol, te_detail = ascii ''The SELECT 1 test response exceeded 64 KiB''\<rparr>, c)
          else if tag = 69 then (Err (upstream_error E p), c)
          else if tag = 67 then select_one_loop E k n True c
          else if tag = 90 then
            if completed then (Ok (), c)
            else (Err \<lparr>te_kind = WrongProtocol, te_detail = ascii ''The server returned ReadyForQuery without completing SELECT 1''\<rparr>, c)
          else select_one_loop E k n completed c)"

definition verify_select_one :: "pg_env \<Rightarrow> pg_client \<Rightarrow> (test_error + unit) \<times> pg_client" where
  "verify_select_one E c =
     (case wrap_io E ''test query write'' (write_all (frame 81 (as_bytes (ascii ''SELECT 1'') @ [0])) c) of
        (Inl e, c) \<Rightarrow> (Err e, c)
      | (Inr _, c) \<Rightarrow> select_one_loop E MAX_TEST_QUERY_MESSAGES 0 False c)"

definition signed_in_text :: "pg_config \<Rightarrow> ustring option \<Rightarrow> ustring" where
  "signed_in_text p version =
     ascii ''Signed in to '' @ dbname p @ ascii '' as '' @ pg_user p @ ascii ''; SELECT 1 succeeded'' @
     (case version of Some v \<Rightarrow> ascii '' (PostgreSQL '' @ v @ ascii '')'' | None \<Rightarrow> [])"

definition test_upstream ::
  "pg_env \<Rightarrow> (uuid \<Rightarrow> ustring + ustring) \<Rightarrow> connection \<Rightarrow> pg_client \<Rightarrow> (test_error + ustring \<times> bool) \<times> pg_client" where
  "test_upstream E secret conn server =
     (case conn_config conn of
        Pg p \<Rightarrow>
          (case dial_upstream E secret conn [] server of
             (Inl e, c) \<Rightarrow> (Err e, c)
           | (Inr u, c) \<Rightarrow>
               (case verify_select_one E c of
                  (Inl e, c) \<Rightarrow> (Err e, c)
                | (Inr _, c) \<Rightarrow>
                    let (_, c) = write_all (frame 88 []) c in
                    (Ok (signed_in_text p (us_server_version u) @
                           (if us_downgraded u then ascii ''; the server refused TLS, so traffic used plaintext'' else []), us_downgraded u), c)))
      | _ \<Rightarrow> (Err (plain_error (ascii ''not a postgres connection'')), server))"

definition test_draft_upstream ::
  "pg_env \<Rightarrow> connection \<Rightarrow> ustring option \<Rightarrow> bool \<Rightarrow> pg_client \<Rightarrow> (test_error + ustring) \<times> pg_client" where
  "test_draft_upstream E conn typed deferred server =
     (case conn_config conn of
        Pg p \<Rightarrow>
          (case dial_upstream_with_password E conn typed [] server of
             (Inr u, c) \<Rightarrow>
               (case verify_select_one E c of
                  (Inl e, c) \<Rightarrow> (Err e, c)
                | (Inr _, c) \<Rightarrow> let (_, c) = write_all (frame 88 []) c in (Ok (signed_in_text p (us_server_version u)), c))
           | (Inl e, c) \<Rightarrow>
               if deferred \<and> te_kind e = NeedsPassword
               then (Ok (ascii ''Reached '' @ pg_host p @ ascii '' and TLS checks passed; the saved credential is verified after adding''), c)
               else (Err e, c))
      | _ \<Rightarrow> (Err (plain_error (ascii ''not a postgres connection'')), server))"

subsection \<open>Cancel keys\<close>

record cancel_target =
  ct_config :: pg_config
  ct_pid :: "32 word"
  ct_key :: "32 word"

type_synonym cancel_registry = "(32 word \<times> 32 word, cancel_target) hashmap"

text \<open>\<open>draws\<close> are the random pairs the loop would draw; it ends at the first that is not in use.\<close>

fun register_cancel :: "(32 word \<times> 32 word) list \<Rightarrow> cancel_target \<Rightarrow> cancel_registry \<Rightarrow> ((32 word \<times> 32 word) \<times> cancel_registry) option" where
  "register_cancel [] t r = None"
| "register_cancel (k # ks) t r = (if map_of r k = None then Some (k, (k, t) # r) else register_cancel ks t r)"

definition resolve_cancel :: "32 word \<Rightarrow> 32 word \<Rightarrow> cancel_registry \<Rightarrow> cancel_target option" where
  "resolve_cancel pid k r = map_of r (pid, k)"

definition drop_cancel :: "32 word \<times> 32 word \<Rightarrow> cancel_registry \<Rightarrow> cancel_registry" where
  "drop_cancel k r = AList.delete k r"

text \<open>What a cancel request makes the proxy send, and to which server: the target's TLS negotiation, then the real key.\<close>

definition cancel_message :: "cancel_target \<Rightarrow> bytes" where
  "cancel_message t = put_i32 16 @ put_i32 CANCEL_REQUEST_CODE @ put_i32 (ct_pid t) @ put_i32 (ct_key t)"

definition handle_cancel :: "pg_env \<Rightarrow> 32 word \<Rightarrow> 32 word \<Rightarrow> cancel_registry \<Rightarrow> (pg_config \<times> bool \<times> bytes) option" where
  "handle_cancel E pid k r =
     (case resolve_cancel pid k r of
        None \<Rightarrow> None
      | Some t \<Rightarrow> (case tls_connect E (ct_config t) of Inl _ \<Rightarrow> None | Inr ut \<Rightarrow> Some (ct_config t, ut_tls ut, cancel_message t)))"

subsection \<open>What is sent, and when\<close>

lemma read_message_out: "read_message c = (r, c') \<Longrightarrow> wr_out c' = wr_out c"
  by (auto simp: read_message_def read_exact_def Let_def split: if_splits)

lemma wrap_io_snd [simp]: "snd (wrap_io E w r) = snd r" "wrap_io E w (Inr x, c) = (Inr x, c)"
  by (auto simp: wrap_io_def split: prod.splits sum.splits)

lemma wrap_io_iff: "wrap_io E w r = (Inr x, c) \<longleftrightarrow> r = (Inr x, c)"
  by (auto simp: wrap_io_def split: prod.splits sum.splits)

lemma answer_auth_no_password: "answer_auth E user None digest p c = (r, c') \<Longrightarrow> is_err r \<and> c' = c"
  by (auto simp: answer_auth_def Let_def is_err_def split: if_splits)

lemma auth_loop_no_password: "auth_loop E user None digest n c = (r, c') \<Longrightarrow> wr_out c' = wr_out c"
proof (induction n arbitrary: c)
  case (Suc n)
  obtain x d where m: "read_message c = (x, d)" by fastforce
  have o: "wr_out d = wr_out c" using read_message_out [OF m] .
  show ?case
  proof (cases x)
    case (Inl e)
    then show ?thesis using Suc.prems m o by (simp add: wrap_io_def)
  next
    case (Inr y)
    obtain tag p where y: "y = (tag, p)" by fastforce
    obtain q d' where q: "answer_auth E user None digest p d = (q, d')" by fastforce
    have "is_err q" "d' = d" using answer_auth_no_password [OF q] by auto
    then obtain e where "answer_auth E user None digest p d = (Inl e, d)" using q by (cases q) (auto simp: is_err_def)
    then show ?thesis using Suc.prems Suc.IH [of d] m o Inr y by (auto split: if_splits)
  qed
qed simp

lemma startup_loop_out: "startup_loop E u c = (r, c') \<Longrightarrow> wr_out c' = wr_out c"
proof (induction E u c rule: startup_loop.induct)
  case (1 E u c)
  obtain x d where m: "read_message c = (x, d)" by fastforce
  have o: "wr_out d = wr_out c" using read_message_out [OF m] .
  show ?case
  proof (cases x)
    case (Inr y)
    show ?thesis
    proof (cases "startup_message E y u")
      case (Inr z)
      obtain ready v where z: "z = (ready, v)" by fastforce
      show ?thesis
      proof (cases ready)
        case None
        from "1.IH" [OF m [symmetric] \<open>x = Inr y\<close> Inr z [symmetric] None] "1.prems" m o \<open>x = Inr y\<close> Inr z None show ?thesis
          by (simp add: startup_loop.simps [of E u c])
      qed (use "1.prems" m o \<open>x = Inr y\<close> Inr z in \<open>auto simp: startup_loop.simps [of E u c]\<close>)
    qed (use "1.prems" m o Inr in \<open>auto simp: startup_loop.simps [of E u c]\<close>)
  qed (use "1.prems" m o in \<open>auto simp: startup_loop.simps [of E u c]\<close>)
qed

lemma tls_connect_modes:
  "tls_connect E p = Inr t \<Longrightarrow>
     (if ut_tls t then sslmode p \<noteq> Disable \<and> pe_probe E = Inr 83 \<and> pe_wrap E (sslmode p) (pg_trusted_ca_bundle_path p) = Inr (ut_cert_hash t) \<and>
        \<not> ut_downgraded t
      else sslmode p = Disable \<and> \<not> ut_downgraded t \<or> sslmode p = Prefer \<and> pe_probe E = Inr 78 \<and> ut_downgraded t)"
  by (auto simp: tls_connect_def split: sum.splits if_splits)

lemma startup_message_keeps: "startup_message E m u = Inr (r, u') \<Longrightarrow> us_downgraded u' = us_downgraded u"
  by (auto simp: startup_message_def Let_def split: prod.splits if_splits)

definition relayed :: "bytes \<Rightarrow> bool" where
  "relayed bs \<longleftrightarrow> (\<exists>ms. bs = concat (map (\<lambda>(t, p). frame t p) ms) \<and> (\<forall>m\<in>set ms. fst m = 83 \<or> fst m = 78))"

lemma relayed_Nil: "relayed []"
  unfolding relayed_def by (rule exI [of _ "[]"]) simp

lemma startup_message_relayed:
  assumes "startup_message E m u = Inr (r, u')" "relayed (us_forward u)" "length (us_forward u) \<le> MAX_STARTUP_FORWARD_BYTES"
  shows "relayed (us_forward u') \<and> length (us_forward u') \<le> MAX_STARTUP_FORWARD_BYTES"
proof (cases "fst m = 83 \<or> fst m = 78")
  case True
  obtain ms where ms: "us_forward u = concat (map (\<lambda>(t, p). frame t p) ms)" "\<forall>m\<in>set ms. fst m = 83 \<or> fst m = 78" using assms(2) by (auto simp: relayed_def)
  have "us_forward u' = concat (map (\<lambda>(t, p). frame t p) (ms @ [m]))" "length (us_forward u') \<le> MAX_STARTUP_FORWARD_BYTES"
    using assms(1) True ms(1) by (auto simp: startup_message_def frame_def Let_def split: prod.splits if_splits)
  moreover have "\<forall>m\<in>set (ms @ [m]). fst m = 83 \<or> fst m = 78" using True ms(2) by auto
  ultimately show ?thesis unfolding relayed_def by blast
next
  case False
  then show ?thesis using assms by (auto simp: startup_message_def Let_def split: prod.splits if_splits)
qed

lemma startup_loop_relayed:
  assumes "startup_loop E u c = (Inr v, c')" "relayed (us_forward u)" "length (us_forward u) \<le> MAX_STARTUP_FORWARD_BYTES"
  shows "relayed (us_forward v) \<and> length (us_forward v) \<le> MAX_STARTUP_FORWARD_BYTES \<and> us_downgraded v = us_downgraded u"
  using assms
proof (induction E u c rule: startup_loop.induct)
  case (1 E u c)
  obtain y d where m: "read_message c = (Inr y, d)"
    using "1.prems"(1) by (subst (asm) startup_loop.simps) (auto split: prod.splits sum.splits)
  obtain ready w where s: "startup_message E y u = Inr (ready, w)"
    using "1.prems"(1) m by (subst (asm) startup_loop.simps) (auto split: prod.splits sum.splits)
  note w = startup_message_relayed [OF s "1.prems"(2,3)] startup_message_keeps [OF s]
  show ?case
  proof (cases ready)
    case None
    have "startup_loop E w d = (Inr v, c')" using "1.prems"(1) m s None by (subst (asm) startup_loop.simps) simp
    from "1.IH" [OF m [symmetric] refl s refl None this] w show ?thesis by simp
  next
    case (Some b)
    have "v = w\<lparr>us_ready := b\<rparr>" using "1.prems"(1) m s Some by (subst (asm) startup_loop.simps) simp
    then show ?thesis using w by simp
  qed
qed

text \<open>
  C30. The credential is protected as configured. Whatever is written after the request for TLS, the password included, is
  written over the one transport that was set up, and that transport is encrypted, after the server agreed to TLS and the handshake with
  the configured mode's verification succeeded; or it is plaintext because mode disable asks for that; or it is plaintext because in mode
  prefer the server itself declined TLS, and then a session that comes up is marked as downgraded, as no other is. In particular a handshake that
  fails is never followed by plaintext, and in the modes require, verify-ca and verify-full nothing is written without a handshake.
  A sign-in without a password sends nothing but the startup message.
\<close>

theorem credential_protected:
  assumes "dial_upstream_with_password E conn pw params server = (r, c)" "conn_config conn = Pg p"
  shows "(wr_out c \<noteq> wr_out server \<longrightarrow> (\<exists>t. tls_connect E p = Ok t \<and>
        (if ut_tls t then sslmode p \<noteq> Disable \<and> pe_probe E = Ok 83 \<and> pe_wrap E (sslmode p) (pg_trusted_ca_bundle_path p) = Ok (ut_cert_hash t)
         else sslmode p = Disable \<or> sslmode p = Prefer \<and> pe_probe E = Ok 78))) \<and>
    (sslmode p \<noteq> Disable \<and> pe_probe E = Ok 83 \<and> is_err (pe_wrap E (sslmode p) (pg_trusted_ca_bundle_path p)) \<longrightarrow> is_err r \<and> wr_out c = wr_out server) \<and>
    (sslmode p \<in> {Require, VerifyCa, VerifyFull} \<and> wr_out c \<noteq> wr_out server \<longrightarrow>
        (\<exists>digest. pe_wrap E (sslmode p) (pg_trusted_ca_bundle_path p) = Ok digest)) \<and>
    (\<forall>u. r = Ok u \<longrightarrow> (us_downgraded u \<longleftrightarrow> sslmode p = Prefer \<and> pe_probe E = Ok 78)) \<and>
    (pw = None \<longrightarrow> wr_out c \<in> {wr_out server, wr_out server @ upstream_startup p params})"
proof (cases "tls_connect E p")
  case (Inl e)
  then show ?thesis using assms by (auto simp: dial_upstream_with_password_def)
next
  case (Inr t)
  note modes = tls_connect_modes [OF Inr]
  have transport: "if ut_tls t then sslmode p \<noteq> Disable \<and> pe_probe E = Ok 83 \<and> pe_wrap E (sslmode p) (pg_trusted_ca_bundle_path p) = Ok (ut_cert_hash t)
      else sslmode p = Disable \<or> sslmode p = Prefer \<and> pe_probe E = Ok 78" using modes by (auto split: if_splits)
  have refused: "\<not> (sslmode p \<noteq> Disable \<and> pe_probe E = Ok 83 \<and> is_err (pe_wrap E (sslmode p) (pg_trusted_ca_bundle_path p)))"
    using modes by (auto split: if_splits)
  have tls: "sslmode p \<in> {Require, VerifyCa, VerifyFull} \<longrightarrow> (\<exists>digest. pe_wrap E (sslmode p) (pg_trusted_ca_bundle_path p) = Ok digest)"
    using modes by (cases "ut_tls t") auto
  have down: "ut_downgraded t \<longleftrightarrow> sslmode p = Prefer \<and> pe_probe E = Ok 78" using modes by (auto split: if_splits)
  obtain x c1 where w: "write_all (upstream_startup p params) server = (x, c1)" by fastforce
  have rest: "(\<forall>u. r = Ok u \<longrightarrow> us_downgraded u = ut_downgraded t) \<and> (pw = None \<longrightarrow> wr_out c \<in> {wr_out server, wr_out server @ upstream_startup p params})"
  proof (cases x)
    case (Inl e)
    then have "wr_out c1 = wr_out server" using w by (auto simp: write_all_def split: list.splits option.splits)
    then show ?thesis using assms Inr w Inl by (auto simp: dial_upstream_with_password_def wrap_io_def)
  next
    case (Inr y)
    have o: "wr_out c1 = wr_out server @ upstream_startup p params" using write_all_ok w Inr by auto
    obtain z c2 where a: "auth_loop E (pg_user p) pw (ut_cert_hash t) MAX_UPSTREAM_AUTH_MESSAGES c1 = (z, c2)" by fastforce
    have n: "pw = None \<longrightarrow> wr_out c2 = wr_out c1" using auth_loop_no_password a by auto
    show ?thesis
    proof (cases z)
      case (Inl e)
      then have "c = c2" "r = Inl e" using assms \<open>tls_connect E p = Inr t\<close> w Inr a by (auto simp: dial_upstream_with_password_def)
      then show ?thesis using n o by auto
    next
      case (Inr v)
      let ?u = "\<lparr>us_downgraded = ut_downgraded t, us_forward = [], us_pid = 0, us_key = 0, us_ready = 73, us_server_version = None\<rparr>"
      have s: "startup_loop E ?u c2 = (r, c)" using assms \<open>tls_connect E p = Inr t\<close> w \<open>x = Inr y\<close> a Inr by (simp add: dial_upstream_with_password_def)
      have "\<forall>u. r = Ok u \<longrightarrow> us_downgraded u = ut_downgraded t"
        using startup_loop_relayed [of E ?u c2 _ c] s by (auto simp: relayed_Nil)
      then show ?thesis using n o startup_loop_out [OF s] by auto
    qed
  qed
  with transport refused tls down Inr show ?thesis by blast
qed

definition example_env :: pg_env where
  "example_env = \<lparr>pe_upper = (\<lambda>c. [c]), pe_io = (\<lambda>_. []), pe_connect = Ok (), pe_probe = Ok 83, pe_wrap = (\<lambda>_ _. Ok (Some [1])),
     pe_md5 = id, pe_scram_first = (\<lambda>_ _. []), pe_scram_next = (\<lambda>_ _ _. Ok []), pe_scram_final = (\<lambda>_ _ _ _. Ok ())\<rparr>"

definition example_conn :: connection where
  "example_conn = \<lparr>conn_id = 1, conn_name = ascii ''db'', conn_config = Pg (example_pg\<lparr>sslmode := Require\<rparr>), conn_secrets = [], account = None,
     conn_oauth = None, conn_created_at = 0, conn_updated_at = 0\<rparr>"

text \<open>A server that asks for a cleartext password, accepts it, reports a parameter, its key, and readiness.\<close>

definition example_server :: pg_client where
  "example_server = \<lparr>rd_bytes = concat (map (\<lambda>(t, p). frame t p)
       [(82, put_i32 3), (82, put_i32 0), (83, [97, 0, 98, 0]), (75, put_i32 7 @ put_i32 8), (90, [73])]) @ [0],
     rd_end = UnexpectedEof, wr_faults = [], wr_out = []\<rparr>"

definition example_dialed :: "(test_error + upstream_session) \<times> pg_client" where
  "example_dialed = dial_upstream_with_password example_env example_conn (Some [120]) [] example_server"

lemma read_next_frame:
  "length p + 4 \<le> 1048576 \<Longrightarrow> read_message \<lparr>rd_bytes = frame t p @ rest, rd_end = e, wr_faults = f, wr_out = w\<rparr> =
     (Ok (t, p), \<lparr>rd_bytes = rest, rd_end = e, wr_faults = f, wr_out = w\<rparr>)"
  using read_message_frame [of p "\<lparr>rd_bytes = frame t p @ rest, rd_end = e, wr_faults = f, wr_out = w\<rparr>" t rest] by simp

lemma startup_loop_step:
  "read_message c = (Inr m, d) \<Longrightarrow> startup_message E m u = Inr (None, v) \<Longrightarrow> startup_loop E u c = startup_loop E v d"
  "read_message c = (Inr m, d) \<Longrightarrow> startup_message E m u = Inr (Some b, v) \<Longrightarrow> startup_loop E u c = (Inr (v\<lparr>us_ready := b\<rparr>), d)"
  by (simp_all add: startup_loop.simps [of E u c])

lemma example_startup_loop:
  "startup_loop E \<lparr>us_downgraded = x, us_forward = [], us_pid = 0, us_key = 0, us_ready = 73, us_server_version = None\<rparr>
     \<lparr>rd_bytes = frame 83 [97, 0, 98, 0] @ frame 75 (put_i32 7 @ put_i32 8) @ frame 90 [73] @ [0], rd_end = e, wr_faults = f, wr_out = w\<rparr> =
   (Ok \<lparr>us_downgraded = x, us_forward = frame 83 [97, 0, 98, 0], us_pid = 7, us_key = 8, us_ready = 73, us_server_version = None\<rparr>,
    \<lparr>rd_bytes = [0], rd_end = e, wr_faults = f, wr_out = w\<rparr>)"
proof -
  have t: "take_cstr [97, 0, 98, 0] = Ok ([97], [98, 0])" by (simp add: take_cstr_def from_utf8_lossy_def lossy_step_def)
  have k: "be_i32 (put_i32 7 @ put_i32 8) = 7" "be_i32 (put_i32 8) = 8" using be_i32_put [of _ "[]"] be_i32_put by auto
  note [simp] = startup_message_def MAX_STARTUP_FORWARD_BYTES_def reported_version_def t k ascii_def
  show ?thesis
    by (subst startup_loop_step(1), rule read_next_frame, simp, simp, subst startup_loop_step(1), rule read_next_frame, simp, simp,
        subst startup_loop_step(2), rule read_next_frame, simp, simp, simp)
qed

lemma example_dialed_eq:
  "example_dialed = (Ok \<lparr>us_downgraded = False, us_forward = frame 83 [97, 0, 98, 0], us_pid = 7, us_key = 8, us_ready = 73, us_server_version = None\<rparr>,
     \<lparr>rd_bytes = [0], rd_end = UnexpectedEof, wr_faults = [], wr_out = upstream_startup (example_pg\<lparr>sslmode := Require\<rparr>) [] @ password_message [120]\<rparr>)"
proof -
  have b: "be_i32 (put_i32 3) = 3" "be_i32 (put_i32 0) = 0" using be_i32_put [of _ "[]"] by auto
  obtain k where n: "MAX_UPSTREAM_AUTH_MESSAGES = Suc (Suc k)" by (rule that [of 6]) (simp add: MAX_UPSTREAM_AUTH_MESSAGES_def)
  show ?thesis
    by (simp add: example_dialed_def dial_upstream_with_password_def example_conn_def example_server_def tls_connect_def example_env_def example_pg_def
        write_all_def n b read_next_frame answer_auth_def example_startup_loop)
qed

lemma example_dial:
  "fst example_dialed = Ok \<lparr>us_downgraded = False, us_forward = frame 83 [97, 0, 98, 0], us_pid = 7, us_key = 8, us_ready = 73, us_server_version = None\<rparr>"
  "wr_out (snd example_dialed) = upstream_startup (example_pg\<lparr>sslmode := Require\<rparr>) [] @ password_message [120]"
  unfolding example_dialed_eq by simp_all

theorem credential_protected_witness:
  "wr_out (snd example_dialed) = upstream_startup (example_pg\<lparr>sslmode := Require\<rparr>) [] @ password_message [120] \<and>
     (\<exists>digest. pe_wrap example_env Require None = Ok digest)"
proof -
  have "dial_upstream_with_password example_env example_conn (Some [120]) [] example_server = (fst example_dialed, snd example_dialed)"
    by (simp add: example_dialed_def)
  moreover have "wr_out (snd example_dialed) \<noteq> wr_out example_server" unfolding example_dial by (simp add: example_server_def password_message_def frame_def)
  moreover have "conn_config example_conn = Pg (example_pg\<lparr>sslmode := Require\<rparr>)" by (simp add: example_conn_def)
  ultimately have "\<exists>digest. pe_wrap example_env Require None = Ok digest"
    using credential_protected [of example_env example_conn "Some [120]" "[]" example_server "fst example_dialed" "snd example_dialed"] by (simp add: example_pg_def)
  with example_dial(2) show ?thesis by blast
qed

text \<open>
  What a client learns of the server before its first query is bounded and contains no key: the bytes relayed are whole
  parameter and notice messages, at most 64 KiB of them, and the server's own cancel key is not among them.
\<close>

theorem startup_relay_bounded:
  assumes "dial_upstream E secret conn params server = (Ok u, c)"
  shows "\<exists>ms. us_forward u = concat (map (\<lambda>(t, p). frame t p) ms) \<and> (\<forall>m\<in>set ms. fst m = 83 \<or> fst m = 78) \<and> length (us_forward u) \<le> 65536"
proof -
  obtain pw where "dial_upstream_with_password E conn pw params server = (Inr u, c)"
    using assms by (auto simp: dial_upstream_def split: list.splits sum.splits)
  then obtain v c2 where "startup_loop E v c2 = (Inr u, c)" "us_forward v = []"
    by (fastforce simp: dial_upstream_with_password_def split: connection_config.splits sum.splits prod.splits)
  then have "relayed (us_forward u)" "length (us_forward u) \<le> MAX_STARTUP_FORWARD_BYTES"
    using startup_loop_relayed [of E v c2 u c] by (auto simp: relayed_Nil)
  then show ?thesis by (auto simp: relayed_def MAX_STARTUP_FORWARD_BYTES_def)
qed

theorem startup_relay_bounded_witness:
  "\<exists>ms. frame 83 [97, 0, 98, 0] = concat (map (\<lambda>(t, p). frame t p) ms) \<and> (\<forall>m\<in>set ms. fst m = 83 \<or> fst m = 78)"
proof -
  obtain u where u: "fst example_dialed = Ok u" "us_forward u = frame 83 [97, 0, 98, 0]" using example_dial(1) by simp
  have "dial_upstream example_env (\<lambda>_. Ok [120]) (example_conn\<lparr>conn_secrets := [4]\<rparr>) [] example_server = (Ok u, snd example_dialed)"
    using u(1) by (simp add: dial_upstream_def dial_upstream_with_password_def example_conn_def example_dialed_def prod_eq_iff)
  from startup_relay_bounded [OF this] u(2) show ?thesis by auto
qed

text \<open>
  Cancel keys are handed out: as soon as a drawn pair is not in use a session gets one, distinct from every live one; it then
  cancels that session and no other registration changes; and when the session ends the registry is as before.
\<close>

theorem cancel_key_fresh:
  assumes "\<exists>k\<in>set draws. map_of r k = None"
  shows "\<exists>pid k r'. register_cancel draws t r = Some ((pid, k), r') \<and> map_of r (pid, k) = None \<and> resolve_cancel pid k r' = Some t \<and>
    (\<forall>p q. (p, q) \<noteq> (pid, k) \<longrightarrow> resolve_cancel p q r' = resolve_cancel p q r) \<and>
    (\<forall>p q. resolve_cancel p q (drop_cancel (pid, k) r') = resolve_cancel p q r)"
  using assms
proof (induction draws)
  case (Cons d draws)
  show ?case
  proof (cases "map_of r d = None")
    case True
    then show ?thesis by (cases d) (auto simp: resolve_cancel_def drop_cancel_def delete_conv)
  next
    case False
    with Cons show ?thesis by auto
  qed
qed simp

theorem cancel_key_fresh_witness:
  "\<exists>pid k r'. register_cancel [(1, 2), (3, 4)] (undefined\<lparr>ct_pid := 9\<rparr>) [((1, 2), undefined)] = Some ((pid, k), r')"
proof -
  have "\<exists>k\<in>set [(1 :: 32 word, 2 :: 32 word), (3, 4)]. map_of [((1, 2), undefined :: cancel_target)] k = None" by simp
  from cancel_key_fresh [OF this] show ?thesis by blast
qed

end
