(* ===== verification/PgProxy.thy ===== *)
theory PgProxy
  imports PgUpstream PgSplice Sessions Policy Store Endpoints Approvals
begin

text \<open>
  The two Postgres listeners of \<^verbatim>\<open>crates/aka-core/src/capability/pg.rs\<close>: the ticket proxy (\<open>handle_conn\<close>) and the direct
  endpoints (\<open>handle_endpoint_conn\<close>), as the lists of their effects, in order. The access table, the catalog and the endpoint
  registry may change whenever a handler waits, so each check reads the \<open>broker_view\<close> of its moment. What the
  limiters, the data plane, the user and the server answer are arguments (\<open>proxy_call\<close>).
\<close>

subsection \<open>Effects\<close>

datatype proxy_effect =
    ToClient bytes
  | CancelRelay "(32 word \<times> 32 word) option"
  | Audited audit_entry
  | RevokePrompts uuid
  | AskUser approval_request
  | RetirePrompt
  | DialUpstream connection "(ustring \<times> ustring) list"
  | DialHealth uuid "test_error option"
  | DialWarning uuid
  | RegisterCancel cancel_target
  | StartSession connection "(ustring \<times> ustring) list"
  | FinishSession ustring
  | DropRedemption
  | SpliceSession connection

record broker_view =
  bv_access :: access_table
  bv_index :: index_state
  bv_endpoints :: registry
  bv_wall :: datetime

definition refusal_entry :: "datetime \<Rightarrow> ustring option \<Rightarrow> ustring \<Rightarrow> ustring \<Rightarrow> audit_entry" where
  "refusal_entry wall conn reason detail =
     (let e = with_field (ascii ''reason'') (JString reason) (with_field (ascii ''kind'') (JString (ascii ''pg''))
            (with_outcome reason (AuditEntry.with_detail detail (new_entry wall KDenied (ascii ''Postgres connection refused: '' @ reason)))))
      in case conn of Some n \<Rightarrow> with_connection n e | None \<Rightarrow> e)"

definition wait_secs :: "duration \<Rightarrow> nat" where
  "wait_secs d = max (d div secs 1) 1"

definition rate_limit_entry :: "datetime \<Rightarrow> ustring \<Rightarrow> ustring \<Rightarrow> ustring \<Rightarrow> duration \<Rightarrow> audit_entry" where
  "rate_limit_entry wall peer_ip peer_addr scope wait =
     with_field (ascii ''retry_after_seconds'') (JNumber (show_nat (wait_secs wait)))
       (with_field (ascii ''peer_addr'') (JString peer_addr)
         (with_field (ascii ''scope'') (JString scope)
           (with_field (ascii ''kind'') (JString (ascii ''pg''))
             (with_outcome (ascii ''rate_limited'')
               (AuditEntry.with_detail (ascii ''Too many data-plane redemption attempts; retry in '' @ show_nat (wait_secs wait) @ ascii ''s'')
                 (new_entry wall KRateLimited (ascii ''Postgres redemption rate limited: '' @ peer_ip)))))))"

definition throttle_entry :: "datetime \<Rightarrow> ustring \<Rightarrow> ustring \<Rightarrow> audit_entry" where
  "throttle_entry wall endpoint peer =
     with_field (ascii ''peer_addr'') (JString peer)
       (with_field (ascii ''endpoint_id'') (JString endpoint)
         (with_field (ascii ''reason'') (JString (ascii ''rate_limited''))
           (with_field (ascii ''kind'') (JString (ascii ''pg''))
             (with_outcome (ascii ''rate_limited'') (new_entry wall KDenied (ascii ''Postgres endpoint authentication throttled''))))))"

definition downgrade_entry :: "datetime \<Rightarrow> connection \<Rightarrow> audit_entry" where
  "downgrade_entry wall c =
     with_field (ascii ''sslmode'') (JString (ascii ''prefer''))
       (with_field (ascii ''kind'') (JString (ascii ''pg''))
         (with_outcome (ascii ''tls_downgraded'')
           (with_connection (conn_name c)
             (AuditEntry.with_detail
               (ascii ''The server refused TLS and this connection's mode is '' @ [34] @ ascii ''prefer'' @ [34] @
                ascii '', so the credential and every statement crossed the network unencrypted. Set the connection to '' @ [34] @ ascii ''require'' @ [34] @
                ascii '' or stronger to refuse instead.'')
               (new_entry wall KTlsDowngraded (ascii ''TLS unavailable, continued in clear text: '' @ conn_name c))))))"

definition fatal :: "string \<Rightarrow> ustring \<Rightarrow> proxy_effect" where
  "fatal sqlstate m = ToClient (error_response (ascii ''FATAL'') (ascii sqlstate) m)"

definition denied_by_policy :: proxy_effect where
  "denied_by_policy = fatal ''28000'' (ascii ''Multitool: denied_by_policy'')"

text \<open>The refusal of a call whose authority has gone: pending prompts are revoked, the refusal is logged, the client told.\<close>

definition withdraw :: "datetime \<Rightarrow> uuid \<Rightarrow> ustring \<Rightarrow> string \<Rightarrow> proxy_effect list" where
  "withdraw wall c conn detail =
     [RevokePrompts c, Audited (refusal_entry wall (Some conn) (ascii ''denied_by_policy'') (ascii detail)), denied_by_policy]"

subsection \<open>Confirmation\<close>

definition SESSION_CONSEQUENCE :: ustring where
  "SESSION_CONSEQUENCE =
     ascii ''Grants full SQL access for the whole session '' @ [8212] @ ascii '' reads, writes, schema changes, and anything else the role may do. '' @
     ascii ''Postgres is confirmed once per session, not per statement.''"

definition session_detail :: "connection \<Rightarrow> (ustring \<times> ustring) list \<Rightarrow> ustring" where
  "session_detail c params =
     (let user = (case conn_config c of Pg p \<Rightarrow> pg_user p | _ \<Rightarrow> []);
          parts = filter (\<lambda>p. p \<noteq> []) ((case first_param (ascii ''application_name'') params of Some n \<Rightarrow> [n] | None \<Rightarrow> []) @
                    (if user \<noteq> [] then [ascii ''user='' @ user] else []))
      in case parts of [] \<Rightarrow> [] | [a] \<Rightarrow> a | a # b # _ \<Rightarrow> a @ [32, 183, 32] @ b)"

definition session_request :: "(uuid \<Rightarrow> ustring option) \<Rightarrow> connection \<Rightarrow> ustring \<Rightarrow> (ustring \<times> ustring) list \<Rightarrow> approval_request" where
  "session_request secret_name c agent params =
     (let r = credentials_from secret_name (new_request c agent (ascii ''New Postgres session''));
          d = session_detail c params;
          r = (if d \<noteq> [] then request_detail d r else r)
      in request_consequence SESSION_CONSEQUENCE r)"

definition verdict_detail :: "verdict \<Rightarrow> ustring" where
  "verdict_detail v = (case v of
       VAllowed \<Rightarrow> ascii ''approved''
     | VDenied \<Rightarrow> ascii ''the user refused this call in Multitool''
     | VRevoked \<Rightarrow> ascii ''the connection or its access policy changed while confirmation was waiting''
     | VTimedOut \<Rightarrow> ascii ''the confirmation request was not answered in time''
     | VUnavailable \<Rightarrow> ascii ''traffic confirmation is unavailable; attach Multitool (updating it if one is already attached), or retry when capacity is available'')"

text \<open>\<open>verdict\<close> is the gate's answer, or \<open>None\<close> when the client hung up first. \<open>Inl\<close> ends the handler.\<close>

definition confirm_session ::
  "broker_view \<Rightarrow> (uuid \<Rightarrow> ustring option) \<Rightarrow> verdict option \<Rightarrow> connection \<Rightarrow> ustring \<Rightarrow> (ustring \<times> ustring) list \<Rightarrow> proxy_effect list \<times> bool" where
  "confirm_session v secret_name verdict c agent params =
     (if confirm_mode_of (bv_access v) (conn_id c) \<noteq> ConfirmOn then ([], True)
      else let ask = AskUser (session_request secret_name c agent params) in
        case verdict of
          None \<Rightarrow> ([ask, RetirePrompt], False)
        | Some w \<Rightarrow>
            if verdict_is_allowed w then ([ask], True)
            else ([ask, fatal ''28000'' (ascii ''Multitool: '' @
                     ascii (error_reason_as_str (case verdict_reason w of Some r \<Rightarrow> r | None \<Rightarrow> ApprovalDenied)) @ ascii '': '' @ verdict_detail w)], False))"

subsection \<open>Before authentication\<close>

record proxy_call =
  pc_admitted :: bool
  pc_client :: pg_client
  pc_startup_timely :: bool
  pc_password_timely :: bool
  pc_secret_name :: "uuid \<Rightarrow> ustring option"
  pc_verdict :: "verdict option"
  pc_dial :: "connection \<Rightarrow> (ustring \<times> ustring) list \<Rightarrow> test_error + upstream_session"
  pc_cancel_key :: "32 word \<times> 32 word"
  pc_completion_written :: bool
  pc_not_printable :: "uchar \<Rightarrow> bool"

text \<open>The startup phase and the password: \<open>Inr\<close> gives the password presented and the parameters.\<close>

definition pre_auth :: "proxy_call \<Rightarrow> proxy_effect list + ustring \<times> (ustring \<times> ustring) list" where
  "pre_auth pc =
     (if \<not> pc_startup_timely pc then Inl []
      else case read_startup_phase 0 (pc_client pc) of
        (Inl e, c) \<Rightarrow> Inl []
      | (Inr (Cancelled k), c) \<Rightarrow> Inl [CancelRelay k]
      | (Inr (Startup params), c) \<Rightarrow>
          (case write_all (frame 82 (put_i32 3)) c of
             (Inl e, c) \<Rightarrow> Inl []
           | (Inr _, c) \<Rightarrow>
               if \<not> pc_password_timely pc then Inl []
               else case read_message c of
                 (Inl e, c) \<Rightarrow> Inl []
               | (Inr (tag, p), c) \<Rightarrow>
                   if tag \<noteq> 112 then Inl [fatal ''08P01'' (ascii ''expected PasswordMessage'')]
                   else (case take_cstr p of Inl _ \<Rightarrow> Inl [] | Inr (pw, _) \<Rightarrow> Inr (pw, params))))"

definition is_pg :: "connection \<Rightarrow> bool" where
  "is_pg c \<longleftrightarrow> (case conn_config c of Pg _ \<Rightarrow> True | _ \<Rightarrow> False)"

definition mismatch_effects :: "datetime \<Rightarrow> connection \<Rightarrow> identity_mismatch \<Rightarrow> proxy_effect list" where
  "mismatch_effects wall c m =
     [Audited (refusal_entry wall (Some (conn_name c)) (im_reason m) (im_detail m)),
      ToClient (error_response (ascii ''FATAL'') (im_sqlstate m) (im_detail m))]"

definition dial_failed :: "datetime \<Rightarrow> connection \<Rightarrow> test_error \<Rightarrow> proxy_effect list" where
  "dial_failed wall c e =
     [DialHealth (conn_id c) (Some e),
      Audited (refusal_entry wall (Some (conn_name c)) (ascii ''upstream_connect_failed'') (te_detail e)),
      fatal ''08001'' (ascii ''Multitool: upstream_connect_failed: '' @ te_detail e)]"

text \<open>A connection that lost TLS works, but its health is a warning.\<close>

definition dial_succeeded :: "datetime \<Rightarrow> connection \<Rightarrow> upstream_session \<Rightarrow> proxy_effect list" where
  "dial_succeeded wall c u = (if us_downgraded u then [Audited (downgrade_entry wall c), DialWarning (conn_id c)] else [DialHealth (conn_id c) None])"

definition session_fields :: "pg_config \<Rightarrow> upstream_session \<Rightarrow> (ustring \<times> ustring) list" where
  "session_fields p u = [(ascii ''sslmode'', sslmode_name (sslmode p)), (ascii ''upstream_tls'', effective_tls_mode (sslmode p) (us_downgraded u))]"

definition completion :: "upstream_session \<Rightarrow> 32 word \<times> 32 word \<Rightarrow> bytes" where
  "completion u k = frame 82 (put_i32 0) @ us_forward u @ frame 75 (put_i32 (fst k) @ put_i32 (snd k)) @ frame 90 [us_ready u]"

definition go_live :: "proxy_call \<Rightarrow> connection \<Rightarrow> upstream_session \<Rightarrow> proxy_effect list" where
  "go_live pc c u =
     [ToClient (completion u (pc_cancel_key pc)),
      if pc_completion_written pc then SpliceSession c else FinishSession (ascii ''client_closed'')]"

subsection \<open>The ticket proxy\<close>

record ticket_call = proxy_call +
  tc_peer_ip :: ustring
  tc_peer_addr :: ustring
  tc_peer_check :: "duration + unit"
  tc_ticket_check :: "duration + unit"
  tc_redeem :: "ustring \<Rightarrow> redeem_error + redemption"

definition rate_limited :: "datetime \<Rightarrow> ticket_call \<Rightarrow> string \<Rightarrow> duration \<Rightarrow> proxy_effect list" where
  "rate_limited wall tc scope wait =
     [Audited (rate_limit_entry wall (tc_peer_ip tc) (tc_peer_addr tc) (ascii scope) wait),
      fatal ''53300'' (ascii ''Multitool: rate_limited: retry in '' @ show_nat (wait_secs wait) @ ascii ''s'')]"

definition redeem_failed :: "datetime \<Rightarrow> redeem_error \<Rightarrow> proxy_effect list" where
  "redeem_failed wall e =
     (let sqlstate = (case e of Unknown \<Rightarrow> ''28P01'' | Expired \<Rightarrow> ''28P01'' | _ \<Rightarrow> ''53300'');
          reason = ascii (error_reason_as_str (redeem_reason e))
      in [Audited (refusal_entry wall None reason (ascii ''the presented ticket could not be redeemed'')),
          fatal sqlstate (ascii ''Multitool: '' @ reason)])"

text \<open>The check that a redeemed ticket still names live, unchanged authority.\<close>

definition ticket_authority :: "broker_view \<Rightarrow> redemption \<Rightarrow> proxy_effect list + connection" where
  "ticket_authority v r =
     (let i = conn_id (r_connection r); n = conn_name (r_connection r) in
      if \<not> allows (bv_access v) i then Inl (withdraw (bv_wall v) i n ''agent access is disabled for this tool'')
      else case connection_by_id i (bv_index v) of
        Inl _ \<Rightarrow> Inl (withdraw (bv_wall v) i n ''the tool no longer exists'')
      | Inr c \<Rightarrow>
          if conn_updated_at c \<noteq> conn_updated_at (r_connection r)
          then Inl (withdraw (bv_wall v) (conn_id c) (conn_name c) ''the tool was retargeted after the approval'')
          else Inr c)"

definition still_current :: "broker_view \<Rightarrow> redemption \<Rightarrow> connection \<Rightarrow> bool" where
  "still_current v r c \<longleftrightarrow> allows (bv_access v) (conn_id c) \<and>
     (case connection_by_id (conn_id c) (bv_index v) of Inr d \<Rightarrow> conn_updated_at d = conn_updated_at (r_connection r) | Inl _ \<Rightarrow> False)"

text \<open>From the second check on: dialing, registering, and the last check before the client is told that the session is ready.\<close>

definition establish_ticket :: "ticket_call \<Rightarrow> broker_view \<Rightarrow> broker_view \<Rightarrow> redemption \<Rightarrow> (ustring \<times> ustring) list \<Rightarrow> proxy_effect list" where
  "establish_ticket tc v2 v3 r params =
     (case ticket_authority v2 r of
        Inl es \<Rightarrow> es @ [DropRedemption]
      | Inr c \<Rightarrow>
          (case conn_config c of
             Pg p \<Rightarrow>
               (case pc_dial tc c params of
                  Inl e \<Rightarrow> DialUpstream c params # dial_failed (bv_wall v2) c e @ [DropRedemption]
                | Inr u \<Rightarrow>
                    [DialUpstream c params] @ dial_succeeded (bv_wall v2) c u @
                    [RegisterCancel \<lparr>ct_config = p, ct_pid = us_pid u, ct_key = us_key u\<rparr>,
                     StartSession c (session_fields p u)] @
                    (if \<not> still_current v3 r c then
                       [FinishSession (ascii ''access_revoked'')] @
                       withdraw (bv_wall v3) (conn_id c) (conn_name c) ''the tool's access was revoked while the session was being established''
                     else go_live (proxy_call.truncate tc) c u))
           | _ \<Rightarrow> [RevokePrompts (conn_id c), fatal ''08P01'' (ascii ''Multitool: ticket is not for a Postgres connection''), DropRedemption]))"

text \<open>The part between redeeming the ticket and the answer of the user.\<close>

definition admit_ticket :: "ticket_call \<Rightarrow> broker_view \<Rightarrow> redemption \<Rightarrow> (ustring \<times> ustring) list \<Rightarrow> proxy_effect list \<times> bool" where
  "admit_ticket tc v1 r params =
     (if \<not> is_pg (r_connection r) then ([fatal ''08P01'' (ascii ''Multitool: ticket is not for a Postgres connection'')], False)
      else case ticket_authority v1 r of
        Inl es \<Rightarrow> (es, False)
      | Inr c \<Rightarrow>
          (case startup_identity_mismatch (pc_not_printable tc) c params (Some (ascii ''ticket'')) of
             Some m \<Rightarrow> (mismatch_effects (bv_wall v1) c m, False)
           | None \<Rightarrow> confirm_session v1 (pc_secret_name tc) (pc_verdict tc) c (r_agent r) params))"

definition handle_conn :: "ticket_call \<Rightarrow> datetime \<Rightarrow> broker_view \<Rightarrow> broker_view \<Rightarrow> broker_view \<Rightarrow> proxy_effect list" where
  "handle_conn tc wall v1 v2 v3 =
     (if \<not> pc_admitted tc then []
      else case pre_auth (proxy_call.truncate tc) of
        Inl es \<Rightarrow> es
      | Inr (value, params) \<Rightarrow>
          (case tc_peer_check tc of
             Inl wait \<Rightarrow> rate_limited wall tc ''peer'' wait
           | Inr _ \<Rightarrow>
               (case tc_ticket_check tc of
                  Inl wait \<Rightarrow> rate_limited wall tc ''ticket'' wait
                | Inr _ \<Rightarrow>
                    (case tc_redeem tc value of
                       Inl e \<Rightarrow> redeem_failed wall e
                     | Inr r \<Rightarrow>
                         (case admit_ticket tc v1 r params of
                            (es, False) \<Rightarrow> es @ [DropRedemption]
                          | (es, True) \<Rightarrow> es @ establish_ticket tc v2 v3 r params)))))"

subsection \<open>Direct endpoints\<close>

definition MAX_ENDPOINT_AUTH_FLOODS :: nat where "MAX_ENDPOINT_AUTH_FLOODS = 1024"

record endpoint_call = proxy_call +
  ec_endpoint :: uuid
  ec_endpoint_text :: ustring
  ec_peer :: ustring
  ec_hash :: "ustring \<Rightarrow> ustring"
  ec_retry_after :: "duration option"
  ec_failure_check :: "duration + unit"
  ec_start :: "redeem_error + unit"

text \<open>\<open>audit_endpoint_auth_throttled\<close> on the set of keys that were reported already.\<close>

definition throttled :: "datetime \<Rightarrow> endpoint_call \<Rightarrow> ustring set \<Rightarrow> proxy_effect list \<times> ustring set" where
  "throttled wall ec floods =
     (let k = ec_endpoint_text ec @ [58] @ ec_peer ec in
      if k \<in> floods \<or> card floods \<ge> MAX_ENDPOINT_AUTH_FLOODS then ([], floods)
      else ([Audited (throttle_entry wall (ec_endpoint_text ec) (ec_peer ec))], insert k floods))"

definition throttle_reply :: "duration \<Rightarrow> proxy_effect" where
  "throttle_reply wait = fatal ''53300'' (ascii ''Multitool: endpoint authentication rate limited; retry in '' @ show_nat (wait_secs wait) @ ascii ''s'')"

definition endpoint_of_secret :: "endpoint_call \<Rightarrow> broker_view \<Rightarrow> ustring \<Rightarrow> direct_endpoint option" where
  "endpoint_of_secret ec v pw =
     (case resolve_secret (ec_hash ec) (bv_wall v) pw (bv_endpoints v) of
        Some e \<Rightarrow> if ep_id e = ec_endpoint ec then Some e else None
      | None \<Rightarrow> None)"

definition authenticate_endpoint ::
  "endpoint_call \<Rightarrow> broker_view \<Rightarrow> ustring \<Rightarrow> ustring set \<Rightarrow> (proxy_effect list + direct_endpoint) \<times> ustring set" where
  "authenticate_endpoint ec v pw floods =
     (case ec_retry_after ec of
        Some wait \<Rightarrow> (case throttled (bv_wall v) ec floods of (es, floods) \<Rightarrow> (Inl (es @ [throttle_reply wait]), floods))
      | None \<Rightarrow>
          (case endpoint_of_secret ec v pw of
             Some e \<Rightarrow> (Inr e, floods)
           | None \<Rightarrow>
               (case ec_failure_check ec of
                  Inl wait \<Rightarrow> (case throttled (bv_wall v) ec floods of (es, floods) \<Rightarrow> (Inl (es @ [throttle_reply wait]), floods))
                | Inr _ \<Rightarrow>
                    (Inl [Audited (refusal_entry (bv_wall v) None (ascii ''invalid_secret'') (ascii ''the presented password is not this endpoint's secret'')),
                          fatal ''28P01'' (ascii ''Multitool: invalid endpoint secret'')],
                     floods - {ec_endpoint_text ec @ [58] @ ec_peer ec}))))"

definition unknown_connection :: proxy_effect where
  "unknown_connection = fatal ''08006'' (ascii ''Multitool: unknown_connection'')"

definition admit_endpoint :: "endpoint_call \<Rightarrow> broker_view \<Rightarrow> direct_endpoint \<Rightarrow> (ustring \<times> ustring) list \<Rightarrow> proxy_effect list \<times> connection option" where
  "admit_endpoint ec v e params =
     (let i = ep_connection_id e in
      if \<not> allows (bv_access v) i then
        ([Audited (refusal_entry (bv_wall v) (case connection_by_id i (bv_index v) of Inr c \<Rightarrow> Some (conn_name c) | Inl _ \<Rightarrow> None)
            (ascii ''denied_by_policy'') (ascii ''agent access is disabled for this tool'')), denied_by_policy], None)
      else case connection_by_id i (bv_index v) of
        Inl _ \<Rightarrow> ([unknown_connection], None)
      | Inr c \<Rightarrow>
          if \<not> is_pg c then ([fatal ''08P01'' (ascii ''Multitool: connection is no longer Postgres'')], None)
          else (case startup_identity_mismatch (pc_not_printable ec) c params None of
                  Some m \<Rightarrow> (mismatch_effects (bv_wall v) c m, None)
                | None \<Rightarrow>
                    (case confirm_session v (pc_secret_name ec) (pc_verdict ec) c (ascii ''endpoint'') params of
                       (es, go) \<Rightarrow> (es, if go then Some c else None))))"

definition REVOKED_WHILE_ESTABLISHING :: string where
  "REVOKED_WHILE_ESTABLISHING = ''the endpoint or the tool's access was revoked while the session was being established''"

definition endpoint_live :: "endpoint_call \<Rightarrow> broker_view \<Rightarrow> ustring \<Rightarrow> connection \<Rightarrow> bool" where
  "endpoint_live ec v pw c \<longleftrightarrow> endpoint_of_secret ec v pw \<noteq> None \<and> allows (bv_access v) (conn_id c)"

definition establish_endpoint ::
  "endpoint_call \<Rightarrow> broker_view \<Rightarrow> broker_view \<Rightarrow> ustring \<Rightarrow> direct_endpoint \<Rightarrow> connection \<Rightarrow> (ustring \<times> ustring) list \<Rightarrow> proxy_effect list" where
  "establish_endpoint ec v2 v3 pw e promised params =
     (if \<not> endpoint_live ec v2 pw promised then withdraw (bv_wall v2) (conn_id promised) (conn_name promised) REVOKED_WHILE_ESTABLISHING
      else case connection_by_id (ep_connection_id e) (bv_index v2) of
        Inl _ \<Rightarrow> [RevokePrompts (ep_connection_id e), unknown_connection]
      | Inr c \<Rightarrow>
          if conn_updated_at c \<noteq> conn_updated_at promised then
            withdraw (bv_wall v2) (conn_id c) (conn_name c) ''the tool was retargeted after the approval''
          else (case conn_config c of
             Pg p \<Rightarrow>
               (case pc_dial ec c params of
                  Inl er \<Rightarrow> DialUpstream c params # dial_failed (bv_wall v2) c er
                | Inr u \<Rightarrow>
                    [DialUpstream c params] @ dial_succeeded (bv_wall v2) c u @
                    (case ec_start ec of
                       Inl _ \<Rightarrow>
                         [Audited (refusal_entry (bv_wall v3) (Some (conn_name c)) (ascii ''broker_session_limit'')
                            (ascii ''the broker-wide live-session backstop is exhausted'')),
                          fatal ''53300'' (ascii ''Multitool: broker_session_limit'')]
                     | Inr _ \<Rightarrow>
                         StartSession c (session_fields p u) #
                         (if \<not> endpoint_live ec v3 pw c then
                            [FinishSession (ascii ''access_revoked''),
                             Audited (refusal_entry (bv_wall v3) (Some (conn_name c)) (ascii ''denied_by_policy'') (ascii REVOKED_WHILE_ESTABLISHING)),
                             denied_by_policy]
                          else RegisterCancel \<lparr>ct_config = p, ct_pid = us_pid u, ct_key = us_key u\<rparr> # go_live (proxy_call.truncate ec) c u)))
           | _ \<Rightarrow> [fatal ''08P01'' (ascii ''Multitool: connection is no longer Postgres'')]))"

definition handle_endpoint_conn ::
  "endpoint_call \<Rightarrow> ustring set \<Rightarrow> broker_view \<Rightarrow> broker_view \<Rightarrow> broker_view \<Rightarrow> proxy_effect list \<times> ustring set" where
  "handle_endpoint_conn ec floods v1 v2 v3 =
     (if \<not> pc_admitted ec then ([fatal ''53300'' (ascii ''Multitool: Postgres handshake admission exhausted; retry shortly'')], floods)
      else case pre_auth (proxy_call.truncate ec) of
        Inl es \<Rightarrow> (es, floods)
      | Inr (pw, params) \<Rightarrow>
          (case authenticate_endpoint ec v1 pw floods of
             (Inl es, floods) \<Rightarrow> (es, floods)
           | (Inr e, floods) \<Rightarrow>
               (case admit_endpoint ec v1 e params of
                  (es, None) \<Rightarrow> (es, floods)
                | (es, Some c) \<Rightarrow> (es @ establish_endpoint ec v2 v3 pw e c params, floods))))"

subsection \<open>A session runs on current authority\<close>

lemma connection_by_id_id: "connection_by_id i st = Inr c \<Longrightarrow> conn_id c = i"
  by (auto simp: connection_by_id_def find_Some_iff split: option.splits)

lemma ticket_authority_ok:
  "ticket_authority v r = Inr c \<Longrightarrow> allows (bv_access v) (conn_id (r_connection r)) \<and>
     connection_by_id (conn_id (r_connection r)) (bv_index v) = Inr c \<and> conn_updated_at c = conn_updated_at (r_connection r) \<and>
     conn_id c = conn_id (r_connection r)"
  using connection_by_id_id by (auto simp: ticket_authority_def Let_def split: if_splits sum.splits)

definition talk :: "proxy_effect \<Rightarrow> bool" where
  "talk e = (case e of ToClient _ \<Rightarrow> True | CancelRelay _ \<Rightarrow> True | Audited _ \<Rightarrow> True | RevokePrompts _ \<Rightarrow> True | AskUser _ \<Rightarrow> True | RetirePrompt \<Rightarrow> True
     | DialHealth _ _ \<Rightarrow> True | DialWarning _ \<Rightarrow> True | _ \<Rightarrow> False)"

lemma talk_simps [simp]:
  "talk (ToClient b)" "talk (CancelRelay k)" "talk (Audited a)" "talk (RevokePrompts i)" "talk (AskUser r)" "talk RetirePrompt" "talk (DialHealth i h)"
  "\<not> talk (DialUpstream c ps)" "\<not> talk (RegisterCancel t)" "\<not> talk (StartSession c fs)" "\<not> talk (FinishSession s)" "\<not> talk DropRedemption" "\<not> talk (SpliceSession c)"
  "talk (fatal q m)" "talk denied_by_policy" "talk unknown_connection" "talk (throttle_reply d)" "talk (DialWarning i)"
  by (simp_all add: talk_def fatal_def denied_by_policy_def unknown_connection_def throttle_reply_def)

lemma talk_lists [simp]:
  "list_all talk (withdraw w i n d)" "list_all talk (mismatch_effects w c m)" "list_all talk (dial_failed w c e)" "list_all talk (dial_succeeded w c u)" "list_all talk (rate_limited w tc q wt)"
  "list_all talk (redeem_failed w x)"
  by (auto simp: withdraw_def mismatch_effects_def dial_failed_def rate_limited_def redeem_failed_def dial_succeeded_def Let_def)

lemma confirm_session_talk: "confirm_session v nm vd c a ps = (es, go) \<Longrightarrow> list_all talk es"
  by (auto simp: confirm_session_def Let_def split: option.splits if_splits)

lemma pre_auth_talk: "pre_auth pc = Inl es \<Longrightarrow> list_all talk es"
  by (auto simp: pre_auth_def split: if_splits sum.splits prod.splits startup_phase.splits)

lemma ticket_authority_talk: "ticket_authority v r = Inl es \<Longrightarrow> list_all talk es"
  by (auto simp: ticket_authority_def Let_def split: if_splits sum.splits)

lemma admit_ticket_talk: "admit_ticket tc v r ps = (es, go) \<Longrightarrow> list_all talk es"
  by (auto simp: admit_ticket_def split: if_splits sum.splits option.splits dest: ticket_authority_talk confirm_session_talk)

lemma admit_ticket_go:
  assumes "admit_ticket tc v r ps = (es, True)"
  shows "\<exists>c. ticket_authority v r = Inr c \<and> startup_identity_mismatch (pc_not_printable tc) c ps (Some (ascii ''ticket'')) = None \<and>
    (confirm_mode_of (bv_access v) (conn_id c) = ConfirmOn \<longrightarrow> pc_verdict tc = Some VAllowed)"
  using assms
  by (auto simp: admit_ticket_def confirm_session_def verdict_is_allowed_def Let_def split: if_splits sum.splits option.splits)

text \<open>A run of the handler past the ticket: what was presented, what was redeemed, and the two parts of its effects.\<close>

lemma handle_conn_cases:
  obtains (refused) "list_all talk (handle_conn tc wall v1 v2 v3)" "\<And>pw ps. pre_auth (proxy_call.truncate tc) = Inr (pw, ps) \<Longrightarrow> pc_admitted tc \<Longrightarrow>
      \<not> is_err (tc_peer_check tc) \<Longrightarrow> \<not> is_err (tc_ticket_check tc) \<Longrightarrow> is_err (tc_redeem tc pw)"
  | (redeemed) pw ps r es go where "pc_admitted tc" "pre_auth (proxy_call.truncate tc) = Inr (pw, ps)" "\<not> is_err (tc_peer_check tc)" "\<not> is_err (tc_ticket_check tc)"
      "tc_redeem tc pw = Inr r" "admit_ticket tc v1 r ps = (es, go)"
      "handle_conn tc wall v1 v2 v3 = es @ (if go then establish_ticket tc v2 v3 r ps else [DropRedemption])"
proof (cases "pc_admitted tc \<and> \<not> is_err (pre_auth (proxy_call.truncate tc)) \<and> \<not> is_err (tc_peer_check tc) \<and> \<not> is_err (tc_ticket_check tc)")
  case False
  then have "list_all talk (handle_conn tc wall v1 v2 v3)"
    using pre_auth_talk by (auto simp: handle_conn_def is_err_def split: sum.splits prod.splits)
  with False show ?thesis by (intro refused) (auto simp: is_err_def)
next
  case True
  then obtain pw ps where p: "pre_auth (proxy_call.truncate tc) = Inr (pw, ps)" by (auto simp: is_err_def split: sum.splits)
  show ?thesis
  proof (cases "tc_redeem tc pw")
    case (Inl e)
    then have "list_all talk (handle_conn tc wall v1 v2 v3)" using True p by (auto simp: handle_conn_def is_err_def split: sum.splits)
    then show ?thesis using Inl p by (intro refused) (auto simp: is_err_def)
  next
    case (Inr r)
    obtain es go where a: "admit_ticket tc v1 r ps = (es, go)" by fastforce
    have "handle_conn tc wall v1 v2 v3 = es @ (if go then establish_ticket tc v2 v3 r ps else [DropRedemption])"
      using True p Inr a by (cases go) (auto simp: handle_conn_def is_err_def split: sum.splits)
    then show ?thesis using redeemed True p Inr a by blast
  qed
qed

definition carries :: "(proxy_effect \<Rightarrow> bool) \<Rightarrow> proxy_effect list \<Rightarrow> nat" where
  "carries P es = length (filter P es)"

lemma carries_append [simp]: "carries P (es @ fs) = carries P es + carries P fs" "carries P [] = 0"
  by (simp_all add: carries_def)

lemma carries_Cons: "carries P (e # es) = (if P e then 1 else 0) + carries P es"
  by (simp add: carries_def)

lemma carries_talk: "list_all talk es \<Longrightarrow> (\<And>e. P e \<Longrightarrow> \<not> talk e) \<Longrightarrow> carries P es = 0"
  by (auto simp: carries_def list_all_iff filter_empty_conv)

definition is_start :: "proxy_effect \<Rightarrow> bool" where "is_start e = (case e of StartSession _ _ \<Rightarrow> True | _ \<Rightarrow> False)"

definition is_end :: "proxy_effect \<Rightarrow> bool" where "is_end e = (case e of FinishSession _ \<Rightarrow> True | SpliceSession _ \<Rightarrow> True | _ \<Rightarrow> False)"

definition is_drop :: "proxy_effect \<Rightarrow> bool" where "is_drop e = (e = DropRedemption)"

lemma kinds_simps [simp]:
  "is_start (StartSession c fs)" "\<not> is_start (FinishSession s)" "\<not> is_start (SpliceSession c)" "\<not> is_start DropRedemption" "\<not> is_start (DialUpstream c ps)" "\<not> is_start (RegisterCancel t)"
  "is_end (FinishSession s)" "is_end (SpliceSession c)" "\<not> is_end (StartSession c fs)" "\<not> is_end DropRedemption" "\<not> is_end (DialUpstream c ps)" "\<not> is_end (RegisterCancel t)"
  "is_drop DropRedemption" "\<not> is_drop (StartSession c fs)" "\<not> is_drop (FinishSession s)" "\<not> is_drop (SpliceSession c)" "\<not> is_drop (DialUpstream c ps)" "\<not> is_drop (RegisterCancel t)"
  by (simp_all add: is_start_def is_end_def is_drop_def)

lemma kinds_talk: "talk e \<Longrightarrow> \<not> is_start e \<and> \<not> is_end e \<and> \<not> is_drop e"
  by (cases e) (simp_all add: is_start_def is_end_def is_drop_def)

lemma carries_kinds_talk [simp]: "list_all talk es \<Longrightarrow> carries is_start es = 0 \<and> carries is_end es = 0 \<and> carries is_drop es = 0"
  using kinds_talk by (auto intro!: carries_talk)

lemma establish_ticket_carries:
  "carries is_start (establish_ticket tc v2 v3 r ps) = carries is_end (establish_ticket tc v2 v3 r ps) \<and>
   carries is_start (establish_ticket tc v2 v3 r ps) + carries is_drop (establish_ticket tc v2 v3 r ps) = 1"
  using kinds_talk [of "fatal _ _"] kinds_talk [of "RevokePrompts _"] kinds_talk [of "ToClient _"] ticket_authority_talk [of v2 r]
  by (auto simp: establish_ticket_def go_live_def carries_Cons carries_kinds_talk split: sum.splits connection_config.splits)

lemma talk_not_splice: "list_all talk es \<Longrightarrow> SpliceSession c \<notin> set es \<and> DialUpstream c ps \<notin> set es"
  by (auto simp: list_all_iff)

lemma establish_ticket_dials:
  assumes "DialUpstream c ps' \<in> set (establish_ticket tc v2 v3 r ps) \<or> SpliceSession c \<in> set (establish_ticket tc v2 v3 r ps)"
  shows "ticket_authority v2 r = Inr c"
proof (cases "ticket_authority v2 r")
  case (Inl es)
  then show ?thesis using assms talk_not_splice [OF ticket_authority_talk [OF Inl]] by (auto simp: establish_ticket_def)
next
  case (Inr d)
  then show ?thesis using assms talk_not_splice
    by (auto simp: establish_ticket_def go_live_def fatal_def dial_succeeded_def dial_failed_def withdraw_def denied_by_policy_def
        split: sum.splits connection_config.splits if_splits)
qed

lemma establish_ticket_splices:
  assumes "SpliceSession c \<in> set (establish_ticket tc v2 v3 r ps)"
  shows "still_current v3 r c \<and> (\<exists>u. pc_dial tc c ps = Inr u)"
proof -
  have "ticket_authority v2 r = Inr c" using assms establish_ticket_dials by blast
  then show ?thesis using assms
    by (auto simp: establish_ticket_def go_live_def fatal_def dial_succeeded_def dial_failed_def withdraw_def denied_by_policy_def
        split: sum.splits connection_config.splits if_splits)
qed

definition authority_at :: "broker_view \<Rightarrow> redemption \<Rightarrow> bool" where
  "authority_at v r \<longleftrightarrow> allows (bv_access v) (conn_id (r_connection r)) \<and>
     (\<exists>d. connection_by_id (conn_id (r_connection r)) (bv_index v) = Ok d \<and> conn_updated_at d = conn_updated_at (r_connection r))"

lemma ticket_authority_at: "ticket_authority v r = Inr c \<Longrightarrow> authority_at v r"
  using ticket_authority_ok by (auto simp: authority_at_def)

text \<open>
  C21. A ticket is worth what it was issued for and no more: credentials are used, and a session runs, only if the presented
  ticket was redeemed, the tool was enabled and unchanged both before and after the user was asked, the identity the client
  asked for is the pinned one, and the user said yes where confirmation is on. And before the client is told that the session
  is ready, the same is checked once more, so that a change during the dial is not missed.
\<close>

theorem ticket_session_current:
  assumes "DialUpstream c ps \<in> set (handle_conn tc wall v1 v2 v3)"
  shows "\<exists>pw r. tc_redeem tc pw = Ok r \<and> authority_at v1 r \<and> authority_at v2 r \<and> ticket_authority v2 r = Ok c \<and>
    (confirm_mode_of (bv_access v1) (conn_id c) = ConfirmOn \<longrightarrow> pc_verdict tc = Some VAllowed) \<and>
    (SpliceSession c \<in> set (handle_conn tc wall v1 v2 v3) \<longrightarrow> authority_at v3 r)"
proof (cases rule: handle_conn_cases [of tc wall v1 v2 v3])
  case refused
  then show ?thesis using assms by (auto simp: list_all_iff)
next
  case (redeemed pw ps' r es go)
  note es = talk_not_splice [OF admit_ticket_talk [OF redeemed(6)]]
  then have go: go and e: "DialUpstream c ps \<in> set (establish_ticket tc v2 v3 r ps')" using assms redeemed(7) by (auto split: if_splits)
  obtain d where d: "ticket_authority v1 r = Inr d" "confirm_mode_of (bv_access v1) (conn_id d) = ConfirmOn \<longrightarrow> pc_verdict tc = Some VAllowed"
    using admit_ticket_go [of tc v1 r ps' es] redeemed(6) go by auto
  have c: "ticket_authority v2 r = Inr c" using establish_ticket_dials e by blast
  have "conn_id d = conn_id c" using ticket_authority_ok [OF d(1)] ticket_authority_ok [OF c] by simp
  moreover have "SpliceSession c \<in> set (handle_conn tc wall v1 v2 v3) \<longrightarrow> authority_at v3 r"
  proof
    assume "SpliceSession c \<in> set (handle_conn tc wall v1 v2 v3)"
    then have "still_current v3 r c" using establish_ticket_splices redeemed(7) es go by auto
    then show "authority_at v3 r" using ticket_authority_ok [OF c] by (auto simp: still_current_def authority_at_def split: sum.splits)
  qed
  ultimately show ?thesis using redeemed(5) d c ticket_authority_at [OF d(1)] ticket_authority_at [OF c] by auto
qed

text \<open>
  No slot is leaked: a handler that redeemed a ticket either starts one session or gives the reservation back, one that did
  not does neither, and a session that was started is either spliced or finished, exactly once.
\<close>

theorem ticket_slot_accounted:
  "carries is_start (handle_conn tc wall v1 v2 v3) = carries is_end (handle_conn tc wall v1 v2 v3) \<and>
   carries is_start (handle_conn tc wall v1 v2 v3) + carries is_drop (handle_conn tc wall v1 v2 v3) =
     (case pre_auth (proxy_call.truncate tc) of
        Inl _ \<Rightarrow> 0
      | Inr (pw, ps) \<Rightarrow> if pc_admitted tc \<and> \<not> is_err (tc_peer_check tc) \<and> \<not> is_err (tc_ticket_check tc) \<and> \<not> is_err (tc_redeem tc pw) then 1 else 0)"
proof (cases rule: handle_conn_cases [of tc wall v1 v2 v3])
  case refused
  then show ?thesis using carries_kinds_talk [OF refused(1)] by (auto split: sum.splits prod.splits)
next
  case (redeemed pw ps r es go)
  then show ?thesis using carries_kinds_talk [OF admit_ticket_talk [OF redeemed(6)]] establish_ticket_carries [of tc v2 v3 r ps]
    by (auto simp: is_err_def carries_Cons)
qed

lemma admit_endpoint_talk: "admit_endpoint ec v e ps = (es, c) \<Longrightarrow> list_all talk es"
  by (auto simp: admit_endpoint_def Let_def split: if_splits sum.splits option.splits prod.splits dest: confirm_session_talk)

lemma admit_endpoint_go:
  assumes "admit_endpoint ec v e ps = (es, Some c)"
  shows "allows (bv_access v) (ep_connection_id e) \<and> connection_by_id (ep_connection_id e) (bv_index v) = Inr c \<and>
    startup_identity_mismatch (pc_not_printable ec) c ps None = None \<and>
    (confirm_mode_of (bv_access v) (conn_id c) = ConfirmOn \<longrightarrow> pc_verdict ec = Some VAllowed)"
  using assms
  by (auto simp: admit_endpoint_def confirm_session_def verdict_is_allowed_def Let_def split: if_splits sum.splits option.splits)

lemma authenticate_talk: "authenticate_endpoint ec v pw fl = (Inl es, fl') \<Longrightarrow> list_all talk es"
  by (auto simp: authenticate_endpoint_def throttled_def Let_def split: option.splits sum.splits if_splits)

lemma authenticate_ok: "authenticate_endpoint ec v pw fl = (Inr e, fl') \<Longrightarrow> endpoint_of_secret ec v pw = Some e"
  by (auto simp: authenticate_endpoint_def split: option.splits sum.splits prod.splits)

lemma establish_endpoint_dials:
  assumes "DialUpstream c ps' \<in> set (establish_endpoint ec v2 v3 pw e d ps)"
  shows "endpoint_live ec v2 pw d \<and> connection_by_id (ep_connection_id e) (bv_index v2) = Inr c \<and> conn_updated_at c = conn_updated_at d \<and>
    (SpliceSession c \<in> set (establish_endpoint ec v2 v3 pw e d ps) \<longrightarrow> endpoint_live ec v3 pw c)"
  using assms
  by (auto simp: establish_endpoint_def go_live_def fatal_def dial_succeeded_def dial_failed_def withdraw_def denied_by_policy_def unknown_connection_def
      split: sum.splits connection_config.splits if_splits)

text \<open>
  C22. A direct endpoint's secret opens a session only while it is that endpoint's secret and the tool is enabled: before the user
  is asked, after, and again once the session is registered. What is dialed is the tool as it is after the user's
  answer, unchanged since it was shown.
\<close>

theorem endpoint_session_live:
  assumes "DialUpstream c ps \<in> set (fst (handle_endpoint_conn ec floods v1 v2 v3))"
  shows "\<exists>pw e shown. endpoint_of_secret ec v1 pw = Some e \<and> ep_id e = ec_endpoint ec \<and> allows (bv_access v1) (ep_connection_id e) \<and>
    connection_by_id (ep_connection_id e) (bv_index v1) = Ok shown \<and>
    (confirm_mode_of (bv_access v1) (ep_connection_id e) = ConfirmOn \<longrightarrow> pc_verdict ec = Some VAllowed) \<and>
    endpoint_live ec v2 pw c \<and> connection_by_id (ep_connection_id e) (bv_index v2) = Ok c \<and> conn_updated_at c = conn_updated_at shown \<and>
    (SpliceSession c \<in> set (fst (handle_endpoint_conn ec floods v1 v2 v3)) \<longrightarrow> endpoint_live ec v3 pw c)"
proof -
  obtain pw qs e fl es d where r: "authenticate_endpoint ec v1 pw floods = (Inr e, fl)" "admit_endpoint ec v1 e qs = (es, Some d)"
      "fst (handle_endpoint_conn ec floods v1 v2 v3) = es @ establish_endpoint ec v2 v3 pw e d qs"
    using assms pre_auth_talk talk_not_splice [of _ c ps] authenticate_talk admit_endpoint_talk
    by (fastforce simp: handle_endpoint_conn_def fatal_def split: if_splits sum.splits prod.splits option.splits)
  note t = talk_not_splice [OF admit_endpoint_talk [OF r(2)]]
  have x: "DialUpstream c ps \<in> set (establish_endpoint ec v2 v3 pw e d qs)" using assms r(3) t by auto
  note y = establish_endpoint_dials [OF x] admit_endpoint_go [OF r(2)] authenticate_ok [OF r(1)]
  have "conn_id d = ep_connection_id e" "conn_id c = ep_connection_id e" using y connection_by_id_id by auto
  moreover have "ep_id e = ec_endpoint ec" using y(3) by (auto simp: endpoint_of_secret_def split: option.splits if_splits)
  ultimately show ?thesis using y r(3) t by (auto simp: endpoint_live_def)
qed

text \<open>
  The last check of the endpoint handler does not look at the catalog: an edit of the connection during the dial (a stricter TLS
  mode, another credential) is not noticed, although an edit closes the sessions that are already registered.
\<close>

lemma establish_endpoint_index: "establish_endpoint ec v2 (v3\<lparr>bv_index := edited\<rparr>) pw e c ps = establish_endpoint ec v2 v3 pw e c ps"
proof -
  have "bv_wall (v3\<lparr>bv_index := edited\<rparr>) = bv_wall v3" "endpoint_live ec (v3\<lparr>bv_index := edited\<rparr>) pw = endpoint_live ec v3 pw"
    by (simp_all add: fun_eq_iff endpoint_live_def endpoint_of_secret_def)
  then show ?thesis unfolding establish_endpoint_def by (simp only:)
qed

lemma endpoint_edit_unseen:
  "handle_endpoint_conn ec floods v1 v2 (v3\<lparr>bv_index := edited\<rparr>) = handle_endpoint_conn ec floods v1 v2 v3"
  unfolding handle_endpoint_conn_def establish_endpoint_index ..

text \<open>A client that presents the password \<open>t\<close>, for witnesses.\<close>

definition example_params :: "(ustring \<times> ustring) list" where "example_params = [(ascii ''database'', ascii ''d'')]"

definition example_password :: ustring where "example_password = ascii ''t''"

definition example_upstream :: upstream_session where
  "example_upstream = \<lparr>us_downgraded = False, us_forward = [], us_pid = 1, us_key = 2, us_ready = 73, us_server_version = None\<rparr>"

definition example_call :: proxy_call where
  "example_call = \<lparr>pc_admitted = True,
     pc_client = example_client\<lparr>rd_bytes := put_i32 20 @ put_i32 PROTOCOL_V3 @ put_params example_params @ [0] @ password_message example_password\<rparr>,
     pc_startup_timely = True, pc_password_timely = True, pc_secret_name = (\<lambda>_. None), pc_verdict = Some VAllowed,
     pc_dial = (\<lambda>_ _. Ok example_upstream),
     pc_cancel_key = (3, 4), pc_completion_written = True, pc_not_printable = (\<lambda>_. False)\<rparr>"

lemma example_pre_auth: "pre_auth example_call = Inr (example_password, example_params)"
  by code_simp

definition example_access :: tool_access where
  "example_access = \<lparr>connection_id = 1, enabled = True, allowed_tools = None, confirm = ConfirmOn, expose_response_credentials = False,
     audit_statements = None, updated_at = 0\<rparr>"

definition example_endpoint :: direct_endpoint where
  "example_endpoint = \<lparr>ep_id = 5, ep_connection_id = 1, ep_kind = KindPg, secret_hash = example_password, ep_secret = [], port = None, require_auth = True,
     created_at = 0, expires_at = None\<rparr>"

definition example_view :: broker_view where
  "example_view = \<lparr>bv_access = \<lparr>entries = [example_access], generation = 0, has_generation_store = False\<rparr>,
     bv_index = default_index\<lparr>ix_connections := [example_conn]\<rparr>,
     bv_endpoints = \<lparr>max_total = 9, endpoints = [example_endpoint], reg_file = None\<rparr>, bv_wall = 0\<rparr>"

definition example_ticket_call :: ticket_call where
  "example_ticket_call = proxy_call.extend example_call (ticket_call.fields [] [] (Ok ()) (Ok ())
     (\<lambda>_. Ok \<lparr>r_ticket = example_password, r_agent = ascii ''a'', r_connection = example_conn\<rparr>))"

definition example_endpoint_call :: endpoint_call where
  "example_endpoint_call = proxy_call.extend example_call (endpoint_call.fields 5 [] [] (\<lambda>x. x) None (Ok ()) (Ok ()))"

lemma example_view_facts:
  "allows (bv_access example_view) 1" "confirm_mode_of (bv_access example_view) 1 = ConfirmOn" "connection_by_id 1 (bv_index example_view) = Ok example_conn"
  "conn_id example_conn = 1" "is_pg example_conn" "bv_wall example_view = 0" "endpoint_of_secret example_endpoint_call example_view example_password = Some example_endpoint"
  "ep_connection_id example_endpoint = 1" "conn_config example_conn = Pg (example_pg\<lparr>sslmode := Require\<rparr>)"
  by (simp_all add: example_view_def example_access_def allows_def confirm_mode_of_def connection_by_id_def example_conn_def is_pg_def
      endpoint_of_secret_def resolve_secret_def example_endpoint_call_def example_endpoint_def is_expired_def proxy_call.defs endpoint_call.defs)

lemma example_identity: "startup_identity_mismatch np example_conn example_params adv = None"
  using startup_identity_accepts [OF example_view_facts(9)] by (auto simp: first_param_def example_pg_def example_params_def ascii_def)

lemma example_calls:
  "proxy_call.truncate example_ticket_call = example_call" "proxy_call.truncate example_endpoint_call = example_call"
  "pc_admitted example_ticket_call" "pc_admitted example_endpoint_call" "pc_verdict example_ticket_call = Some VAllowed" "pc_verdict example_endpoint_call = Some VAllowed"
  "pc_dial example_ticket_call = (\<lambda>_ _. Ok example_upstream)" "pc_dial example_endpoint_call = (\<lambda>_ _. Ok example_upstream)"
  "pc_completion_written example_call" "tc_redeem example_ticket_call = (\<lambda>_. Ok \<lparr>r_ticket = example_password, r_agent = ascii ''a'', r_connection = example_conn\<rparr>)"
  "tc_peer_check example_ticket_call = Ok ()" "tc_ticket_check example_ticket_call = Ok ()" "ec_retry_after example_endpoint_call = None" "ec_start example_endpoint_call = Ok ()"
  by (simp_all add: example_ticket_call_def example_endpoint_call_def proxy_call.defs ticket_call.defs endpoint_call.defs example_call_def)

lemma example_ticket_run:
  "DialUpstream example_conn example_params \<in> set (handle_conn example_ticket_call 0 example_view example_view example_view)"
  "SpliceSession example_conn \<in> set (handle_conn example_ticket_call 0 example_view example_view example_view)"
  by (auto simp: handle_conn_def example_calls example_pre_auth admit_ticket_def ticket_authority_def example_view_facts example_identity confirm_session_def
      verdict_is_allowed_def Let_def establish_ticket_def still_current_def go_live_def)

lemma example_endpoint_run:
  "DialUpstream example_conn example_params \<in> set (fst (handle_endpoint_conn example_endpoint_call {} example_view example_view example_view))"
  "SpliceSession example_conn \<in> set (fst (handle_endpoint_conn example_endpoint_call {} example_view example_view example_view))"
  by (auto simp: handle_endpoint_conn_def example_calls example_pre_auth authenticate_endpoint_def admit_endpoint_def example_view_facts example_identity confirm_session_def
      verdict_is_allowed_def Let_def establish_endpoint_def endpoint_live_def go_live_def)

theorem ticket_session_current_witness:
  "\<exists>r. authority_at example_view r \<and> ticket_authority example_view r = Ok example_conn"
  using ticket_session_current [OF example_ticket_run(1)] by blast

theorem endpoint_session_live_witness:
  "\<exists>pw e. endpoint_of_secret example_endpoint_call example_view pw = Some e \<and> endpoint_live example_endpoint_call example_view pw example_conn"
  using endpoint_session_live [OF example_endpoint_run(1)] by blast

end
