(* ===== verification/Domain.thy ===== *)
theory Domain
  imports Store Policy Endpoints
begin

text \<open>
  The unit of work of \<^verbatim>\<open>crates/aka-core/src/domain.rs\<close>: user-visible actions that span the catalog, the access table and the
  endpoint registry, serialized by one gate, each returning the outbox events the broker applies afterwards. The
  three repositories are the states of \<open>Store\<close>, \<open>Policy\<close> and \<open>Endpoints\<close>; clock readings, minted UUIDs and write
  faults come from the environment \<open>domain_env\<close>.
\<close>

subsection \<open>Events and commits\<close>

datatype authority_change = CredentialRotated | AuthorityConnectionChanged | AuthorityConnectionDeleted | AccessDisabled

definition authority_change_as_str :: "authority_change \<Rightarrow> ustring" where
  "authority_change_as_str a = (case a of
       CredentialRotated \<Rightarrow> ascii ''secret_rotated''
     | AuthorityConnectionChanged \<Rightarrow> ascii ''connection_changed''
     | AuthorityConnectionDeleted \<Rightarrow> ascii ''connection_deleted''
     | AccessDisabled \<Rightarrow> ascii ''access_disabled'')"

datatype policy_change =
    EnabledChange bool
  | ConfirmChange confirm_mode
  | ExposeChange bool
  | ToolsChange "ustring list option"
  | AuditChange "bool option"

datatype outbox_kind =
    CredentialChangedEvent uuid bool nat
  | ConnectionCreatedEvent uuid bool
  | ConnectionChangedEvent uuid bool bool "uuid list"
  | ConnectionDeletedEvent uuid bool "uuid list"
  | PolicyChangedEvent uuid policy_change

record outbox_event =
  ob_id :: uuid
  ob_workspace :: uuid
  ob_kind :: outbox_kind

record 'a domain_commit =
  dc_value :: 'a
  dc_outbox :: "outbox_event list"

record ('f, 'v) domain_env =
  de_store :: "'f store_env"
  de_vault :: "'v vault_ops"
  de_version :: "connection \<Rightarrow> bytes"
  de_clock :: "nat \<Rightarrow> datetime"
  de_touched :: "uuid \<Rightarrow> datetime"
  de_fresh :: "nat \<Rightarrow> uuid"
  de_access_write :: write_faults
  de_endpoint_write :: write_fault
  de_workspace :: uuid

record 'v domain_repository =
  dr_store :: "'v store"
  dr_access :: access_table
  dr_disk :: access_disk
  dr_endpoints :: registry

definition commit_one :: "('f, 'v) domain_env \<Rightarrow> 'a \<Rightarrow> outbox_kind \<Rightarrow> 'a domain_commit" where
  "commit_one E x k = \<lparr>dc_value = x, dc_outbox = [\<lparr>ob_id = de_fresh E 0, ob_workspace = de_workspace E, ob_kind = k\<rparr>]\<rparr>"

definition without_event :: "'a \<Rightarrow> 'a domain_commit" where
  "without_event x = \<lparr>dc_value = x, dc_outbox = []\<rparr>"

text \<open>An operation of one repository, and the early return on its error.\<close>

type_synonym ('v, 'a) action = "'v domain_repository \<Rightarrow> (core_error + 'a) \<times> 'v domain_repository"

definition on_store :: "('v store \<Rightarrow> (core_error + 'a) \<times> 'v store) \<Rightarrow> ('v, 'a) action" where
  "on_store f d = (case f (dr_store d) of (r, s) \<Rightarrow> (r, d\<lparr>dr_store := s\<rparr>))"

definition on_access :: "(access_table \<Rightarrow> access_disk \<Rightarrow> (core_error + 'a) \<times> access_table \<times> access_disk) \<Rightarrow> ('v, 'a) action" where
  "on_access f d = (case f (dr_access d) (dr_disk d) of (r, t, k) \<Rightarrow> (r, d\<lparr>dr_access := t, dr_disk := k\<rparr>))"

definition on_endpoints :: "(registry \<Rightarrow> (core_error + 'a) \<times> registry) \<Rightarrow> ('v, 'a) action" where
  "on_endpoints f d = (case f (dr_endpoints d) of (r, e) \<Rightarrow> (r, d\<lparr>dr_endpoints := e\<rparr>))"

definition chain :: "('v, 'a) action \<Rightarrow> ('a \<Rightarrow> ('v, 'b) action) \<Rightarrow> ('v, 'b) action" where
  "chain f k d = (case f d of (Inl e, d) \<Rightarrow> (Err e, d) | (Inr x, d) \<Rightarrow> k x d)"

definition return :: "'a \<Rightarrow> ('v, 'a) action" where "return x d = (Ok x, d)"

definition catalog_connection :: "uuid \<Rightarrow> 'v domain_repository \<Rightarrow> core_error + connection" where
  "catalog_connection i d = connection_by_id i (st_index (dr_store d))"

subsection \<open>Credentials\<close>

definition domain_add_credential :: "('f, 'v) domain_env \<Rightarrow> new_credential \<Rightarrow> ('v, secret_meta domain_commit) action" where
  "domain_add_credential E nc =
     chain (on_store (add_credential (de_vault E) (de_fresh E 1) (de_fresh E 2) (de_clock E 0) nc))
       (\<lambda>m. return (commit_one E m (CredentialChangedEvent (sm_id m) False 0)))"

record credential_edit =
  ce_id :: uuid
  ce_name :: "ustring option"
  ce_value :: "ustring option"
  ce_site :: "ustring option"
  ce_username :: "ustring option option"
  ce_totp :: "ustring option option"

record credential_edit_result =
  er_meta :: secret_meta
  er_renamed_from :: "ustring option"
  er_rewritten :: nat
  er_value_replaced :: bool
  er_profile_changed :: bool
  er_totp_changed :: bool

text \<open>The checks before anything is written.\<close>

definition edit_refusal :: "credential_edit \<Rightarrow> secret_meta \<Rightarrow> core_error option" where
  "edit_refusal edit m =
     (if ce_value edit \<noteq> None \<and> sm_source m \<noteq> Local then Some ExternalSecretReadOnly
      else if (ce_site edit \<noteq> None \<or> ce_username edit \<noteq> None \<or> ce_totp edit \<noteq> None) \<and> sm_kind m \<noteq> Password then Some NotAPassword
      else if ce_totp edit \<noteq> None \<and> sm_source m \<noteq> Local then Some ExternalSecretReadOnly
      else None)"

text \<open>The four stages, each of which commits on its own.\<close>

definition rename_stage :: "('f, 'v) domain_env \<Rightarrow> credential_edit \<Rightarrow> secret_meta \<Rightarrow> ('v, secret_meta \<times> ustring option \<times> nat) action" where
  "rename_stage E edit m =
     (case ce_name edit of
        None \<Rightarrow> return (m, None, 0)
      | Some n \<Rightarrow>
          if n = sm_name m then return (m, None, 0)
          else chain (on_store (rename_secret (de_store E) (de_vault E) (de_touched E) (de_clock E 0) (ce_id edit) n))
            (\<lambda>(m', k). return (m', Some (sm_name m), k)))"

definition value_stage :: "('f, 'v) domain_env \<Rightarrow> credential_edit \<Rightarrow> secret_meta \<Rightarrow> ('v, secret_meta) action" where
  "value_stage E edit m =
     (case ce_value edit of None \<Rightarrow> return m | Some x \<Rightarrow> on_store (replace_secret_value (de_vault E) (de_clock E 1) (ce_id edit) x))"

definition profile_stage :: "('f, 'v) domain_env \<Rightarrow> credential_edit \<Rightarrow> secret_meta \<Rightarrow> ('v, secret_meta) action" where
  "profile_stage E edit m =
     (if ce_site edit \<noteq> None \<or> ce_username edit \<noteq> None
      then on_store (set_password_profile (de_clock E 2) (ce_id edit) (ce_site edit) (ce_username edit)) else return m)"

definition totp_stage :: "('f, 'v) domain_env \<Rightarrow> credential_edit \<Rightarrow> secret_meta \<Rightarrow> ('v, secret_meta) action" where
  "totp_stage E edit m =
     (case ce_totp edit of None \<Rightarrow> return m | Some t \<Rightarrow> on_store (set_totp_factor (de_vault E) (de_fresh E 2) (de_clock E 3) (ce_id edit) t))"

definition edit_result :: "credential_edit \<Rightarrow> ustring option \<Rightarrow> nat \<Rightarrow> secret_meta \<Rightarrow> credential_edit_result" where
  "edit_result edit old k m =
     \<lparr>er_meta = m, er_renamed_from = old, er_rewritten = k, er_value_replaced = (ce_value edit \<noteq> None),
      er_profile_changed = (ce_site edit \<noteq> None \<or> ce_username edit \<noteq> None), er_totp_changed = (ce_totp edit \<noteq> None)\<rparr>"

definition edit_commit :: "('f, 'v) domain_env \<Rightarrow> credential_edit \<Rightarrow> credential_edit_result \<Rightarrow> credential_edit_result domain_commit" where
  "edit_commit E edit r =
     (if \<not> er_value_replaced r \<and> er_renamed_from r = None \<and> \<not> er_profile_changed r \<and> \<not> er_totp_changed r then without_event r
      else commit_one E r (CredentialChangedEvent (ce_id edit) (er_value_replaced r) (er_rewritten r)))"

definition edit_credential :: "('f, 'v) domain_env \<Rightarrow> credential_edit \<Rightarrow> ('v, credential_edit_result domain_commit) action" where
  "edit_credential E edit d =
     (case secret_by_id (ce_id edit) (st_index (dr_store d)) of
        Inl e \<Rightarrow> (Err e, d)
      | Inr m \<Rightarrow>
          (case edit_refusal edit m of
             Some e \<Rightarrow> (Err e, d)
           | None \<Rightarrow>
               chain (rename_stage E edit m) (\<lambda>(m, old, k).
               chain (value_stage E edit m) (\<lambda>m.
               chain (profile_stage E edit m) (\<lambda>m.
               chain (totp_stage E edit m) (\<lambda>m.
               return (edit_commit E edit (edit_result edit old k m)))))) d))"

definition delete_credential :: "('f, 'v) domain_env \<Rightarrow> uuid \<Rightarrow> ('v, secret_meta domain_commit) action" where
  "delete_credential E i =
     chain (on_store (delete_secret (de_vault E) i)) (\<lambda>m. return (commit_one E m (CredentialChangedEvent i False 0)))"

subsection \<open>Connections\<close>

definition domain_add_connection :: "('f, 'v) domain_env \<Rightarrow> connection_spec \<Rightarrow> ('v, connection domain_commit) action" where
  "domain_add_connection E spec =
     chain (on_store (add_connection (de_store E) (de_fresh E 3) (de_clock E 0) spec))
       (\<lambda>c. return (commit_one E c (ConnectionCreatedEvent (conn_id c) False)))"

definition domain_add_connection_with_secret ::
  "('f, 'v) domain_env \<Rightarrow> ustring \<Rightarrow> ustring \<Rightarrow> connection_spec \<Rightarrow> ('v, (secret_meta \<times> connection) domain_commit) action" where
  "domain_add_connection_with_secret E name x spec =
     chain (on_store (add_connection_with_secret (de_store E) (de_vault E) (de_fresh E 1) (de_fresh E 3) (de_clock E 0) name x spec))
       (\<lambda>mc. return (commit_one E mc (ConnectionCreatedEvent (conn_id (snd mc)) True)))"

record connection_update =
  cu_id :: uuid
  cu_expected :: "bytes option"
  cu_spec :: connection_spec

record connection_update_result =
  ur_previous :: connection
  ur_connection :: connection
  ur_capability_changed :: bool
  ur_target_changed :: bool
  ur_removed_endpoints :: "uuid list"

definition capability_differs :: "connection \<Rightarrow> connection_spec \<Rightarrow> bool" where
  "capability_differs c spec \<longleftrightarrow>
     conn_config c \<noteq> spec_config spec \<or> conn_kind c \<noteq> KindApi \<and> conn_secrets c \<noteq> spec_secrets spec"

text \<open>An edit that changes nothing but the name is a rename, and cannot change the target.\<close>

definition write_connection :: "('f, 'v) domain_env \<Rightarrow> connection_update \<Rightarrow> bool \<Rightarrow> ('v, connection \<times> bool) action" where
  "write_connection E u capability =
     (if capability then on_store (update_connection_inner (de_store E) (de_version E) (de_clock E 0) (cu_id u) (cu_expected u) (cu_spec u))
      else chain (on_store (rename_connection_inner (de_version E) (de_clock E 0) (cu_id u) (cu_expected u) (spec_name (cu_spec u))))
        (\<lambda>c. return (c, False)))"

definition drop_endpoints :: "('f, 'v) domain_env \<Rightarrow> uuid \<Rightarrow> ('v, uuid list) action" where
  "drop_endpoints E i = chain (on_endpoints (remove_endpoints_for_connection (de_endpoint_write E) i)) (\<lambda>es. return (map ep_id es))"

definition domain_update_connection :: "('f, 'v) domain_env \<Rightarrow> connection_update \<Rightarrow> ('v, connection_update_result domain_commit) action" where
  "domain_update_connection E u d =
     (case catalog_connection (cu_id u) d of
        Inl e \<Rightarrow> (Err e, d)
      | Inr previous \<Rightarrow>
          if (case cu_expected u of Some x \<Rightarrow> de_version E previous \<noteq> x | None \<Rightarrow> False) then (Err ConnectionChanged, d)
          else
            let capability = capability_differs previous (cu_spec u) in
            chain (write_connection E u capability) (\<lambda>(c, target_changed).
            chain (if target_changed then drop_endpoints E (cu_id u) else return []) (\<lambda>removed.
            return (commit_one E
              \<lparr>ur_previous = previous, ur_connection = c, ur_capability_changed = capability, ur_target_changed = target_changed,
               ur_removed_endpoints = removed\<rparr>
              (ConnectionChangedEvent (cu_id u) capability target_changed removed)))) d)"

record connection_delete_result =
  dl_connection :: connection
  dl_policy_removed :: bool
  dl_removed_endpoints :: "uuid list"

definition domain_delete_connection :: "('f, 'v) domain_env \<Rightarrow> uuid \<Rightarrow> bytes \<Rightarrow> ('v, connection_delete_result domain_commit) action" where
  "domain_delete_connection E i expected d =
     (case catalog_connection i d of
        Inl e \<Rightarrow> (Err e, d)
      | Inr current \<Rightarrow>
          if de_version E current \<noteq> expected then (Err ApprovalConnectionChanged, d)
          else
            chain (on_store (delete_connection (de_vault E) i)) (\<lambda>c.
            chain (on_access (remove_for_connection (de_access_write E) i)) (\<lambda>policy_removed.
            chain (drop_endpoints E i) (\<lambda>removed.
            return (commit_one E \<lparr>dl_connection = c, dl_policy_removed = policy_removed, dl_removed_endpoints = removed\<rparr>
              (ConnectionDeletedEvent i policy_removed removed))))) d)"

subsection \<open>Policy\<close>

record policy_update =
  pu_connection :: uuid
  pu_expected_version :: "bytes option"
  pu_expected :: "policy_change option"
  pu_change :: policy_change

record policy_update_result =
  pr_connection :: connection
  pr_changed :: bool
  pr_change :: policy_change

text \<open>The value that a field of the access table has now, as a change that would set it.\<close>

definition current_policy_value :: "access_table \<Rightarrow> uuid \<Rightarrow> policy_change \<Rightarrow> policy_change" where
  "current_policy_value t c f = (case f of
       EnabledChange _ \<Rightarrow> EnabledChange (allows t c)
     | ConfirmChange _ \<Rightarrow> ConfirmChange (confirm_mode_of t c)
     | ExposeChange _ \<Rightarrow> ExposeChange (exposes_response_credentials t c)
     | ToolsChange _ \<Rightarrow> ToolsChange (allowed_tools_of t c)
     | AuditChange _ \<Rightarrow> AuditChange (case access_entry t c of Some e \<Rightarrow> audit_statements e | None \<Rightarrow> None))"

definition apply_policy_change ::
  "write_faults \<Rightarrow> datetime \<Rightarrow> uuid \<Rightarrow> policy_change \<Rightarrow> access_table \<Rightarrow> access_disk \<Rightarrow> (core_error + bool) \<times> access_table \<times> access_disk" where
  "apply_policy_change w now c ch = (case ch of
       EnabledChange b \<Rightarrow> set_enabled w now c b
     | ConfirmChange m \<Rightarrow> set_confirm_mode w now c m
     | ExposeChange b \<Rightarrow> set_expose_response_credentials w now c b
     | ToolsChange ts \<Rightarrow> set_allowed_tools w now c ts
     | AuditChange b \<Rightarrow> set_audit_statements w now c b)"

definition is_expose :: "policy_change \<Rightarrow> bool" where
  "is_expose ch \<longleftrightarrow> (case ch of ExposeChange _ \<Rightarrow> True | _ \<Rightarrow> False)"

definition domain_update_policy :: "('f, 'v) domain_env \<Rightarrow> policy_update \<Rightarrow> ('v, policy_update_result domain_commit) action" where
  "domain_update_policy E u d =
     (case catalog_connection (pu_connection u) d of
        Inl e \<Rightarrow> (Err e, d)
      | Inr c \<Rightarrow>
          if (case pu_expected_version u of Some x \<Rightarrow> de_version E c \<noteq> x | None \<Rightarrow> False) then (Err ApprovalConnectionChanged, d)
          else if (case pu_expected u of Some x \<Rightarrow> current_policy_value (dr_access d) (pu_connection u) x \<noteq> x | None \<Rightarrow> False)
          then (Err ApprovalConnectionChanged, d)
          else if is_expose (pu_change u) \<and> conn_kind c \<noteq> KindApi
          then (Err (InvalidSetting (ascii ''upstream response credentials apply only to API connections'')), d)
          else
            chain (on_access (apply_policy_change (de_access_write E) (de_clock E 0) (pu_connection u) (pu_change u))) (\<lambda>changed.
            return (let r = \<lparr>pr_connection = c, pr_changed = changed, pr_change = pu_change u\<rparr> in
              if changed then commit_one E r (PolicyChangedEvent (pu_connection u) (pu_change u)) else without_event r)) d)"

subsection \<open>What a policy update does\<close>

text \<open>The fields a policy change can be about.\<close>

fun policy_field :: "policy_change \<Rightarrow> nat" where
  "policy_field (EnabledChange _) = 0"
| "policy_field (ConfirmChange _) = 1"
| "policy_field (ExposeChange _) = 2"
| "policy_field (ToolsChange _) = 3"
| "policy_field (AuditChange _) = 4"

definition entry_value :: "tool_access option \<Rightarrow> policy_change \<Rightarrow> policy_change" where
  "entry_value e f = (case f of
       EnabledChange _ \<Rightarrow> EnabledChange (case e of Some x \<Rightarrow> enabled x | None \<Rightarrow> True)
     | ConfirmChange _ \<Rightarrow> ConfirmChange (case e of Some x \<Rightarrow> confirm x | None \<Rightarrow> ConfirmOff)
     | ExposeChange _ \<Rightarrow> ExposeChange (case e of Some x \<Rightarrow> expose_response_credentials x | None \<Rightarrow> True)
     | ToolsChange _ \<Rightarrow> ToolsChange (case e of Some x \<Rightarrow> allowed_tools x | None \<Rightarrow> None)
     | AuditChange _ \<Rightarrow> AuditChange (case e of Some x \<Rightarrow> audit_statements x | None \<Rightarrow> None))"

lemma current_policy_value_entry: "current_policy_value t c f = entry_value (access.lookup (entries t) c) f"
  by (simp add: current_policy_value_def entry_value_def access.lookup_def allows_def confirm_mode_of_def exposes_response_credentials_def
      allowed_tools_of_def access_entry_def split: policy_change.split)

lemma current_policy_value_shape [simp]: "current_policy_value t c (current_policy_value t' c' f) = current_policy_value t c f"
  by (cases f) (simp_all add: current_policy_value_def)

definition policy_written :: "access_table \<Rightarrow> uuid \<Rightarrow> policy_change \<Rightarrow> access_table \<Rightarrow> bool" where
  "policy_written t c ch t' \<longleftrightarrow> current_policy_value t' c ch = ch \<and>
     (\<forall>c' f. c' \<noteq> c \<or> policy_field f \<noteq> policy_field ch \<longrightarrow> current_policy_value t' c' f = current_policy_value t c' f)"

lemma policy_writtenI:
  assumes "entry_value (access.lookup (entries t') c) ch = ch"
    and "\<And>f. policy_field f \<noteq> policy_field ch \<Longrightarrow> entry_value (access.lookup (entries t') c) f = entry_value (access.lookup (entries t) c) f"
    and "\<And>c'. c' \<noteq> c \<Longrightarrow> access.lookup (entries t') c' = access.lookup (entries t) c'"
  shows "policy_written t c ch t'"
  unfolding policy_written_def current_policy_value_entry using assms by metis

lemmas written_lookups =
  enabled_field.entry_written enabled_field.entry_other confirm_field.entry_written confirm_field.entry_other
  expose_field.entry_written expose_field.entry_other tools_field.entry_written tools_field.entry_other
  audit_field.entry_written audit_field.entry_other

lemma apply_policy_change_unchanged:
  "current_policy_value t c ch = ch \<Longrightarrow> apply_policy_change w now c ch t d = (Ok False, t, d)"
  by (cases ch) (simp_all add: apply_policy_change_def current_policy_value_def access_entry_def set_enabled_def set_confirm_mode_def
      set_expose_response_credentials_def set_allowed_tools_def set_audit_statements_def)

lemma apply_policy_change_form:
  assumes "current_policy_value t c ch \<noteq> ch"
  obtains es where "apply_policy_change w now c ch t d = commit_entries w es t d"
    and "entry_value (access.lookup es c) ch = ch"
    and "\<And>f. policy_field f \<noteq> policy_field ch \<Longrightarrow> entry_value (access.lookup es c) f = entry_value (access.lookup (entries t) c) f"
    and "\<And>c'. c' \<noteq> c \<Longrightarrow> access.lookup es c' = access.lookup (entries t) c'"
proof (cases ch)
  case (EnabledChange b)
  with assms show ?thesis
    by (intro that [of "enabled_field.written now c b (entries t)"])
      (auto simp: apply_policy_change_def setter_forms current_policy_value_def written_lookups entry_value_def split: option.splits policy_change.splits)
next
  case (ConfirmChange b)
  with assms show ?thesis
    by (intro that [of "confirm_field.written now c b (entries t)"])
      (auto simp: apply_policy_change_def setter_forms current_policy_value_def written_lookups entry_value_def split: option.splits policy_change.splits)
next
  case (ExposeChange b)
  with assms show ?thesis
    by (intro that [of "expose_field.written now c b (entries t)"])
      (auto simp: apply_policy_change_def setter_forms current_policy_value_def written_lookups entry_value_def split: option.splits policy_change.splits)
next
  case (ToolsChange b)
  with assms show ?thesis
    by (intro that [of "tools_field.written now c b (entries t)"])
      (auto simp: apply_policy_change_def setter_forms current_policy_value_def written_lookups entry_value_def split: option.splits policy_change.splits)
next
  case (AuditChange b)
  with assms show ?thesis
    by (intro that [of "audit_field.written now c b (entries t)"])
      (auto simp: apply_policy_change_def setter_forms current_policy_value_def access_entry_def written_lookups entry_value_def split: option.splits policy_change.splits)
qed

lemma apply_policy_change_Ok:
  assumes "apply_policy_change w now c ch t d = (Ok changed, t', d')"
  shows "policy_written t c ch t' \<and> (changed \<longleftrightarrow> current_policy_value t c ch \<noteq> ch)"
proof (cases "current_policy_value t c ch = ch")
  case True
  with assms show ?thesis by (auto simp: apply_policy_change_unchanged policy_written_def)
next
  case False
  then obtain es where es: "apply_policy_change w now c ch t d = commit_entries w es t d" "entry_value (access.lookup es c) ch = ch"
    "\<And>f. policy_field f \<noteq> policy_field ch \<Longrightarrow> entry_value (access.lookup es c) f = entry_value (access.lookup (entries t) c) f"
    "\<And>c'. c' \<noteq> c \<Longrightarrow> access.lookup es c' = access.lookup (entries t) c'"
    by (rule apply_policy_change_form) blast
  with assms commit_entries_Ok have "changed" "entries t' = es" by fastforce+
  with es False policy_writtenI [of t' c ch t] show ?thesis by simp
qed

end
