(* ===== verification/BrokerEdits.thy ===== *)
theory BrokerEdits
  imports Domain Sessions Approvals Elicitations Passwords Totp
begin

text \<open>
  The management actions of \<^verbatim>\<open>crates/aka-core/src/broker.rs\<close>: each commits through \<open>Domain\<close> and then applies the outbox to the
  running broker, which closes sessions, invalidates tickets, withdraws prompts and windows, and stops listeners. An action
  reads what it expects before it waits for the gate; the state it read is its argument \<open>seen\<close>.
\<close>

subsection \<open>The running broker\<close>

datatype runtime_event =
    SecretsChanged
  | ConnectionsChanged
  | WiringsChanged
  | AgentSurfaceChanged
  | HealthForgotten uuid
  | McpToolsForgotten uuid
  | ListenerStopped uuid
  | EndpointDirRemoved uuid

record 'v broker =
  br_domain :: "'v domain_repository"
  br_plane :: data_plane
  br_approvals :: approvals
  br_elicitations :: elicitations
  br_listeners :: "uuid list"
  br_events :: "runtime_event list"
  br_audit :: "audit_entry list"

record applied_effects =
  closed_sessions :: nat
  endpoints_removed :: nat

definition notify :: "runtime_event \<Rightarrow> 'v broker \<Rightarrow> 'v broker" where
  "notify e b = b\<lparr>br_events := br_events b @ [e]\<rparr>"

definition log_action :: "audit_entry \<Rightarrow> 'v broker \<Rightarrow> 'v broker" where
  "log_action e b = b\<lparr>br_audit := br_audit b @ [e]\<rparr>"

definition revoke_windows :: "datetime \<Rightarrow> uuid \<Rightarrow> 'v broker \<Rightarrow> 'v broker" where
  "revoke_windows wall c b = b\<lparr>br_approvals := revoke_approvals wall c (br_approvals b)\<rparr>"

definition revoke_elicitations :: "datetime \<Rightarrow> uuid \<Rightarrow> 'v broker \<Rightarrow> 'v broker" where
  "revoke_elicitations wall c b = b\<lparr>br_elicitations := el_revoke wall c (br_elicitations b)\<rparr>"

definition close_sessions_of :: "uuid \<Rightarrow> authority_change \<Rightarrow> 'v broker \<times> applied_effects \<Rightarrow> 'v broker \<times> applied_effects" where
  "close_sessions_of c a = (\<lambda>(b, fx).
     case close_connection_sessions c (authority_change_as_str a) (br_plane b) of
       (n, p) \<Rightarrow> (b\<lparr>br_plane := p\<rparr>, fx\<lparr>closed_sessions := closed_sessions fx + n\<rparr>))"

definition stop_listener :: "uuid \<Rightarrow> 'v broker \<Rightarrow> 'v broker" where
  "stop_listener i b =
     (if i \<in> set (br_listeners b) then notify (ListenerStopped i) (b\<lparr>br_listeners := removeAll i (br_listeners b)\<rparr>) else b)"

definition teardown_endpoint :: "ustring \<Rightarrow> uuid \<Rightarrow> 'v broker \<Rightarrow> 'v broker" where
  "teardown_endpoint reason i b =
     (let b = stop_listener i b
      in notify (EndpointDirRemoved i) (b\<lparr>br_plane := snd (close_endpoint_sessions i reason (br_plane b))\<rparr>))"

definition teardown_endpoint_ids :: "authority_change \<Rightarrow> uuid list \<Rightarrow> 'v broker \<times> applied_effects \<Rightarrow> 'v broker \<times> applied_effects" where
  "teardown_endpoint_ids a is = (\<lambda>(b, fx).
     (fold (teardown_endpoint (authority_change_as_str a)) is b, fx\<lparr>endpoints_removed := endpoints_removed fx + length is\<rparr>))"

subsection \<open>The outbox\<close>

definition rotate_credential :: "datetime \<Rightarrow> uuid \<Rightarrow> 'v broker \<times> applied_effects \<Rightarrow> 'v broker \<times> applied_effects" where
  "rotate_credential wall i bf =
     fold (\<lambda>c bf. close_sessions_of (conn_id c) CredentialRotated (apfst (revoke_elicitations wall (conn_id c) \<circ> revoke_windows wall (conn_id c)) bf))
       (filter (\<lambda>c. i \<in> set (conn_secrets c)) (ix_connections (st_index (dr_store (br_domain (fst bf)))))) bf"

definition credential_changed :: "datetime \<Rightarrow> uuid \<Rightarrow> bool \<Rightarrow> nat \<Rightarrow> 'v broker \<times> applied_effects \<Rightarrow> 'v broker \<times> applied_effects" where
  "credential_changed wall i replaced rewritten bf =
     (let bf = apfst (notify SecretsChanged) bf;
          bf = (if rewritten > 0 then apfst (notify ConnectionsChanged) bf else bf);
          bf = (if replaced then rotate_credential wall i bf else bf)
      in apfst (notify AgentSurfaceChanged) bf)"

definition connection_changed :: "datetime \<Rightarrow> uuid \<Rightarrow> bool \<Rightarrow> bool \<Rightarrow> uuid list \<Rightarrow> 'v broker \<times> applied_effects \<Rightarrow> 'v broker \<times> applied_effects" where
  "connection_changed wall c capability target_moved removed bf =
     (let bf = (if capability then close_sessions_of c AuthorityConnectionChanged bf else bf);
          bf = (if target_moved then
                  apfst ((\<lambda>b. if removed \<noteq> [] then notify WiringsChanged b else b) \<circ> notify (McpToolsForgotten c) \<circ> notify (HealthForgotten c) \<circ>
                      revoke_elicitations wall c \<circ> revoke_windows wall c)
                    (teardown_endpoint_ids AuthorityConnectionChanged removed bf)
                else bf)
      in apfst (notify AgentSurfaceChanged \<circ> notify ConnectionsChanged) bf)"

definition connection_deleted :: "datetime \<Rightarrow> uuid \<Rightarrow> bool \<Rightarrow> uuid list \<Rightarrow> 'v broker \<times> applied_effects \<Rightarrow> 'v broker \<times> applied_effects" where
  "connection_deleted wall c policy_removed removed bf =
     (let bf = apfst (revoke_elicitations wall c \<circ> revoke_windows wall c \<circ> notify (McpToolsForgotten c) \<circ> notify (HealthForgotten c)) bf;
          bf = teardown_endpoint_ids AuthorityConnectionDeleted removed bf;
          bf = close_sessions_of c AuthorityConnectionDeleted bf
      in apfst (notify AgentSurfaceChanged \<circ> notify ConnectionsChanged \<circ> (\<lambda>b. if policy_removed \<or> removed \<noteq> [] then notify WiringsChanged b else b)) bf)"

definition policy_changed :: "datetime \<Rightarrow> uuid \<Rightarrow> policy_change \<Rightarrow> 'v broker \<times> applied_effects \<Rightarrow> 'v broker \<times> applied_effects" where
  "policy_changed wall c ch bf = apfst (notify WiringsChanged) (case ch of
       EnabledChange b \<Rightarrow>
         apfst (notify AgentSurfaceChanged)
           (if \<not> b then close_sessions_of c AccessDisabled (apfst (revoke_elicitations wall c \<circ> revoke_windows wall c) bf) else bf)
     | ToolsChange _ \<Rightarrow> apfst (notify AgentSurfaceChanged \<circ> revoke_windows wall c) bf
     | _ \<Rightarrow> bf)"

definition apply_event :: "datetime \<Rightarrow> outbox_kind \<Rightarrow> 'v broker \<times> applied_effects \<Rightarrow> 'v broker \<times> applied_effects" where
  "apply_event wall k = (case k of
       CredentialChangedEvent i replaced rewritten \<Rightarrow> credential_changed wall i replaced rewritten
     | ConnectionCreatedEvent c created \<Rightarrow>
         apfst (notify AgentSurfaceChanged \<circ> notify ConnectionsChanged \<circ> (if created then notify SecretsChanged else id))
     | ConnectionChangedEvent c capability target_moved removed \<Rightarrow> connection_changed wall c capability target_moved removed
     | ConnectionDeletedEvent c policy_removed removed \<Rightarrow> connection_deleted wall c policy_removed removed
     | PolicyChangedEvent c ch \<Rightarrow> policy_changed wall c ch)"

definition apply_domain_outbox :: "datetime \<Rightarrow> outbox_event list \<Rightarrow> 'v broker \<Rightarrow> 'v broker \<times> applied_effects" where
  "apply_domain_outbox wall obs b = fold (apply_event wall \<circ> ob_kind) obs (b, \<lparr>closed_sessions = 0, endpoints_removed = 0\<rparr>)"

text \<open>An action commits and applies its outbox, or fails and applies nothing.\<close>

definition commit_action ::
  "('f, 'v) domain_env \<Rightarrow> ('v, 'a domain_commit) action \<Rightarrow> 'v broker \<Rightarrow> (core_error + 'a \<times> applied_effects) \<times> 'v broker" where
  "commit_action E f b =
     (case f (br_domain b) of
        (Inl e, d) \<Rightarrow> (Err e, b\<lparr>br_domain := d\<rparr>)
      | (Inr cm, d) \<Rightarrow> (case apply_domain_outbox (de_clock E 4) (dc_outbox cm) (b\<lparr>br_domain := d\<rparr>) of (b, fx) \<Rightarrow> (Ok (dc_value cm, fx), b)))"

subsection \<open>Policy actions\<close>

definition flag :: "bool \<Rightarrow> string \<Rightarrow> string \<Rightarrow> ustring" where
  "flag b yes no = (if b then ascii yes else ascii no)"

definition policy_update_of :: "('f, 'v) domain_env \<Rightarrow> uuid \<Rightarrow> policy_change \<Rightarrow> 'v domain_repository \<Rightarrow> core_error + policy_update" where
  "policy_update_of E c ch seen =
     and_then (catalog_connection c seen) (\<lambda>conn.
       Ok \<lparr>pu_connection = c, pu_expected_version = Some (de_version E conn),
         pu_expected = Some (current_policy_value (dr_access seen) c ch), pu_change = ch\<rparr>)"

text \<open>What the policy actions share: \<open>after\<close> runs on success, with the connection and the effects.\<close>

definition ui_policy ::
  "('f, 'v) domain_env \<Rightarrow> 'v domain_repository \<Rightarrow> uuid \<Rightarrow> policy_change \<Rightarrow> (connection \<Rightarrow> bool \<Rightarrow> applied_effects \<Rightarrow> 'v broker \<Rightarrow> 'v broker) \<Rightarrow>
     'v broker \<Rightarrow> (core_error + bool) \<times> 'v broker" where
  "ui_policy E seen c ch after b =
     (case policy_update_of E c ch seen of
        Inl e \<Rightarrow> (Err e, b)
      | Inr u \<Rightarrow>
          (case commit_action E (domain_update_policy E u) b of
             (Inl e, b) \<Rightarrow> (Err e, b)
           | (Inr (r, fx), b) \<Rightarrow> (Ok (pr_changed r), after (pr_connection r) (pr_changed r) fx b)))"

definition ui_set_tool_access :: "('f, 'v) domain_env \<Rightarrow> 'v domain_repository \<Rightarrow> uuid \<Rightarrow> bool \<Rightarrow> 'v broker \<Rightarrow> (core_error + bool) \<times> 'v broker" where
  "ui_set_tool_access E seen c on = ui_policy E seen c (EnabledChange on) (\<lambda>conn changed fx b.
     let b = (if changed then log_action
           (with_field (ascii ''closed_sessions'') (JNumber (show_nat (closed_sessions fx)))
             (with_connection (conn_name conn)
               (new_entry (de_clock E 5) (if on then KWired else KUnwired)
                 (ascii ''Agent access '' @ flag on ''enabled'' ''disabled'' @ ascii '' for '' @ conn_name conn)))) b
         else b)
     in if \<not> on then revoke_elicitations (de_clock E 6) c (revoke_windows (de_clock E 6) c b) else b)"

definition confirm_on :: "confirm_mode \<Rightarrow> bool" where
  "confirm_on m \<longleftrightarrow> m = ConfirmOn"

definition ui_set_confirm_mode_with_resolution ::
  "('f, 'v) domain_env \<Rightarrow> 'v domain_repository \<Rightarrow> uuid \<Rightarrow> confirm_mode \<Rightarrow> request_resolution \<Rightarrow> 'v broker \<Rightarrow> (core_error + bool) \<times> 'v broker" where
  "ui_set_confirm_mode_with_resolution E seen c m res = ui_policy E seen c (ConfirmChange m) (\<lambda>conn changed fx b.
     if changed then
       log_action
         (with_field (ascii ''confirm'') (JBool (confirm_on m))
           (with_connection (conn_name conn)
             (new_entry (de_clock E 5) KWired
               (ascii ''Traffic confirmation '' @ flag (confirm_on m) ''enabled'' ''disabled'' @ ascii '' for '' @ conn_name conn))))
         (if \<not> confirm_on m then b\<lparr>br_approvals := release_as (de_clock E 6) c res (br_approvals b)\<rparr> else b)
     else b)"

definition ui_set_confirm_mode :: "('f, 'v) domain_env \<Rightarrow> 'v domain_repository \<Rightarrow> uuid \<Rightarrow> confirm_mode \<Rightarrow> 'v broker \<Rightarrow> (core_error + bool) \<times> 'v broker" where
  "ui_set_confirm_mode E seen c m = ui_set_confirm_mode_with_resolution E seen c m ConfirmationDisabled"

text \<open>\<open>dflt\<close> is the broker-wide setting for statement recording.\<close>

definition ui_set_audit_statements ::
  "bool \<Rightarrow> ('f, 'v) domain_env \<Rightarrow> 'v domain_repository \<Rightarrow> uuid \<Rightarrow> bool option \<Rightarrow> 'v broker \<Rightarrow> (core_error + bool) \<times> 'v broker" where
  "ui_set_audit_statements dflt E seen c a = ui_policy E seen c (AuditChange a) (\<lambda>conn changed fx b.
     if changed then
       let effective = audits_statements (dr_access (br_domain b)) c dflt in
       log_action
         (with_field (ascii ''effective'') (JBool effective)
           (with_field (ascii ''new'') (JString (case a of Some on \<Rightarrow> flag on ''true'' ''false'' | None \<Rightarrow> ascii ''default''))
             (with_field (ascii ''setting'') (JString (ascii ''audit_statements''))
               (with_connection (conn_name conn)
                 (new_entry (de_clock E 5) KSettingsChanged
                   (ascii ''Statement recording '' @ flag effective ''enabled'' ''disabled'' @ ascii '' for '' @ conn_name conn)))))) b
     else b)"

definition ui_set_expose_response_credentials ::
  "('f, 'v) domain_env \<Rightarrow> 'v domain_repository \<Rightarrow> uuid \<Rightarrow> bool \<Rightarrow> 'v broker \<Rightarrow> (core_error + bool) \<times> 'v broker" where
  "ui_set_expose_response_credentials E seen c x = ui_policy E seen c (ExposeChange x) (\<lambda>conn changed fx b.
     if changed then
       log_action
         (with_field (ascii ''new'') (JBool x)
           (with_field (ascii ''setting'') (JString (ascii ''expose_response_credentials''))
             (with_connection (conn_name conn)
               (new_entry (de_clock E 5) KSettingsChanged
                 (ascii ''Upstream response credentials '' @ flag x ''exposed'' ''contained'' @ ascii '' for '' @ conn_name conn))))) b
     else b)"

definition ui_set_allowed_tools ::
  "('f, 'v) domain_env \<Rightarrow> 'v domain_repository \<Rightarrow> uuid \<Rightarrow> ustring list option \<Rightarrow> 'v broker \<Rightarrow> (core_error + bool) \<times> 'v broker" where
  "ui_set_allowed_tools E seen c tools = ui_policy E seen c (ToolsChange tools) (\<lambda>conn changed fx b.
     if changed then
       let detail = (case tools of None \<Rightarrow> ascii ''all tools''
             | Some l \<Rightarrow> show_nat (length l) @ ascii '' tool'' @ flag (length l = 1) '''' ''s'' @ ascii '' allowed'') in
       log_action
         (with_connection (conn_name conn)
           (new_entry (de_clock E 5) KWired (ascii ''Tool selection for '' @ conn_name conn @ ascii '': '' @ detail))) b
     else b)"

subsection \<open>Connection actions\<close>

definition kind_badge :: "connection_kind \<Rightarrow> ustring" where
  "kind_badge k = (case k of KindApi \<Rightarrow> ascii ''API'' | KindPg \<Rightarrow> ascii ''PG'' | KindSsh \<Rightarrow> ascii ''SSH'')"

definition connection_added :: "datetime \<Rightarrow> connection \<Rightarrow> audit_entry" where
  "connection_added wall c =
     with_field (ascii ''target'') (JString (conn_target c))
       (with_field (ascii ''kind'') (JString (kind_as_str (conn_kind c)))
         (AuditEntry.with_detail (kind_badge (conn_kind c) @ [32, 8594, 32] @ conn_target c)
           (with_connection (conn_name c) (new_entry wall KConnectionAdded (ascii ''Tool added: '' @ conn_name c)))))"

definition ui_add_connection ::
  "('f, 'v) domain_env \<Rightarrow> 'v domain_repository \<Rightarrow> connection_spec \<Rightarrow> 'v broker \<Rightarrow> (core_error + connection) \<times> 'v broker" where
  "ui_add_connection E seen spec b =
     (case prepare_connection (de_store E) (de_fresh E 3) (de_clock E 7) (st_index (dr_store seen)) spec of
        Inl e \<Rightarrow> (Err e, b)
      | Inr _ \<Rightarrow>
          (case commit_action E (domain_add_connection E spec) b of
             (Inl e, b) \<Rightarrow> (Err e, b)
           | (Inr (c, fx), b) \<Rightarrow> (Ok c, log_action (connection_added (de_clock E 5) c) b)))"

definition secret_added :: "datetime \<Rightarrow> ustring \<Rightarrow> audit_entry" where
  "secret_added wall n = new_entry wall KSecretAdded (ascii ''Secret added: '' @ n)"

definition ui_add_connection_with_secret ::
  "('f, 'v) domain_env \<Rightarrow> 'v domain_repository \<Rightarrow> ustring \<Rightarrow> ustring \<Rightarrow> connection_spec \<Rightarrow> 'v broker \<Rightarrow> (core_error + connection) \<times> 'v broker" where
  "ui_add_connection_with_secret E seen name x spec b =
     (case prepare_connection_with_secret (de_store E) (de_fresh E 1) (de_fresh E 3) (de_clock E 7) (st_index (dr_store seen)) name spec of
        Inl e \<Rightarrow> (Err e, b)
      | Inr _ \<Rightarrow>
          (case commit_action E (domain_add_connection_with_secret E name x spec) b of
             (Inl e, b) \<Rightarrow> (Err e, b)
           | (Inr ((m, c), fx), b) \<Rightarrow>
               (Ok c, log_action (connection_added (de_clock E 6) c) (log_action (secret_added (de_clock E 5) (sm_name m)) b))))"

definition connection_updated :: "datetime \<Rightarrow> connection_update_result \<Rightarrow> applied_effects \<Rightarrow> audit_entry" where
  "connection_updated wall r fx =
     (let old = ur_previous r; c = ur_connection r; moved = conn_name old \<noteq> conn_name c; revoked = endpoints_removed fx > 0;
          e = with_field (ascii ''closed_sessions'') (JNumber (show_nat (closed_sessions fx)))
            (with_field (ascii ''endpoints_revoked'') (JBool revoked)
            (with_field (ascii ''capability_changed'') (JBool (ur_capability_changed r))
            (with_field (ascii ''target_changed'') (JBool (ur_target_changed r))
            (with_field (ascii ''target'') (JString (conn_target c))
            (AuditEntry.with_detail (conn_target c @ (if revoked then [32, 183, 32] @ ascii ''direct endpoints revoked (target changed)'' else []))
            (with_connection (conn_name c)
            (new_entry wall KConnectionUpdated
              (ascii ''Tool updated: '' @ (if moved then conn_name old @ [32, 8594, 32] @ conn_name c else conn_name c)))))))))
      in if moved then
           with_field (ascii ''renamed_to'') (JString (conn_name c)) (with_field (ascii ''renamed_from'') (JString (conn_name old)) e)
         else e)"

definition ui_update_connection_inner ::
  "('f, 'v) domain_env \<Rightarrow> 'v domain_repository \<Rightarrow> uuid \<Rightarrow> bytes option \<Rightarrow> connection_spec \<Rightarrow> 'v broker \<Rightarrow> (core_error + connection) \<times> 'v broker" where
  "ui_update_connection_inner E seen i expected spec b =
     (case (case expected of Some x \<Rightarrow> Ok x | None \<Rightarrow> and_then (catalog_connection i seen) (\<lambda>c. Ok (de_version E c))) of
        Inl e \<Rightarrow> (Err e, b)
      | Inr x \<Rightarrow>
          (case commit_action E (domain_update_connection E \<lparr>cu_id = i, cu_expected = Some x, cu_spec = spec\<rparr>) b of
             (Inl e, b) \<Rightarrow> (Err e, b)
           | (Inr (r, fx), b) \<Rightarrow> (Ok (ur_connection r), log_action (connection_updated (de_clock E 5) r fx) b)))"

definition ui_update_connection ::
  "('f, 'v) domain_env \<Rightarrow> 'v domain_repository \<Rightarrow> uuid \<Rightarrow> connection_spec \<Rightarrow> 'v broker \<Rightarrow> (core_error + connection) \<times> 'v broker" where
  "ui_update_connection E seen i spec = ui_update_connection_inner E seen i None spec"

definition ui_update_connection_if_current ::
  "('f, 'v) domain_env \<Rightarrow> 'v domain_repository \<Rightarrow> uuid \<Rightarrow> bytes \<Rightarrow> connection_spec \<Rightarrow> 'v broker \<Rightarrow> (core_error + connection) \<times> 'v broker" where
  "ui_update_connection_if_current E seen i x spec = ui_update_connection_inner E seen i (Some x) spec"

definition ui_rename_connection_if_current ::
  "('f, 'v) domain_env \<Rightarrow> 'v domain_repository \<Rightarrow> uuid \<Rightarrow> bytes \<Rightarrow> ustring \<Rightarrow> 'v broker \<Rightarrow> (core_error + connection) \<times> 'v broker" where
  "ui_rename_connection_if_current E seen i x name b =
     (case catalog_connection i seen of
        Inl e \<Rightarrow> (Err e, b)
      | Inr c \<Rightarrow> ui_update_connection_inner E seen i (Some x) \<lparr>spec_name = name, spec_config = conn_config c, spec_secrets = conn_secrets c\<rparr> b)"

definition ui_delete_connection :: "('f, 'v) domain_env \<Rightarrow> 'v domain_repository \<Rightarrow> uuid \<Rightarrow> 'v broker \<Rightarrow> (core_error + connection) \<times> 'v broker" where
  "ui_delete_connection E seen i b =
     (case catalog_connection i seen of
        Inl e \<Rightarrow> (Err e, b)
      | Inr c \<Rightarrow>
          (case commit_action E (domain_delete_connection E i (de_version E c)) b of
             (Inl e, b) \<Rightarrow> (Err e, b)
           | (Inr (r, fx), b) \<Rightarrow>
               (Ok (dl_connection r), log_action
                 (with_field (ascii ''closed_sessions'') (JNumber (show_nat (closed_sessions fx)))
                   (with_connection (conn_name (dl_connection r))
                     (new_entry (de_clock E 5) KConnectionDeleted (ascii ''Tool deleted: '' @ conn_name (dl_connection r))))) b)))"

subsection \<open>Credential actions\<close>

text \<open>\<open>norm\<close> is \<open>normalize_site\<close> and \<open>seed\<close> the parse and canonical form of a TOTP seed, with their parameters and errors.\<close>

record credential_env =
  ne_site :: "ustring \<Rightarrow> core_error + ustring"
  ne_seed :: "ustring \<Rightarrow> core_error + ustring"

definition credential_env_of ::
  "(ustring \<Rightarrow> site_url option) \<Rightarrow> (uchar \<Rightarrow> bool) \<Rightarrow> url_parser \<Rightarrow> (totp_error \<Rightarrow> ustring) \<Rightarrow> credential_env" where
  "credential_env_of parse_site np parse_url message =
     \<lparr>ne_site = normalize_site parse_site np,
      ne_seed = (\<lambda>s. case totp_parse parse_url s of Inl e \<Rightarrow> Err (InvalidTotpSeed (message e)) | Inr t \<Rightarrow> Ok (canonical t))\<rparr>"

text \<open>\<open>transpose\<close> of an optional result.\<close>

definition transpose :: "(core_error + 'a) option \<Rightarrow> core_error + 'a option" where
  "transpose x = (case x of None \<Rightarrow> Ok None | Some (Inl e) \<Rightarrow> Err e | Some (Inr y) \<Rightarrow> Ok (Some y))"

definition non_empty :: "ustring \<Rightarrow> ustring option" where
  "non_empty s = (if trim s = [] then None else Some (trim s))"

definition ui_add_secret :: "('f, 'v) domain_env \<Rightarrow> ustring \<Rightarrow> ustring \<Rightarrow> 'v broker \<Rightarrow> (core_error + secret_meta) \<times> 'v broker" where
  "ui_add_secret E name x b =
     (case commit_action E (domain_add_credential E
           \<lparr>nc_kind = Secret, nc_name = Some name, nc_site = None, nc_username = None, nc_value = x, nc_totp = None\<rparr>) b of
        (Inl e, b) \<Rightarrow> (Err e, b)
      | (Inr (m, fx), b) \<Rightarrow> (Ok m, log_action (secret_added (de_clock E 5) name) b))"

text \<open>A submitted form is a \<open>new_credential\<close> whose site and seed are as typed.\<close>

definition checked_credential :: "credential_env \<Rightarrow> new_credential \<Rightarrow> core_error + new_credential" where
  "checked_credential N nc =
     and_then (case nc_kind nc of
         Secret \<Rightarrow> Ok (None, None)
       | Password \<Rightarrow>
           and_then (ne_site N (case nc_site nc of Some s \<Rightarrow> s | None \<Rightarrow> [])) (\<lambda>site.
           and_then (transpose (case nc_totp nc of None \<Rightarrow> None | Some s \<Rightarrow> if trim s = [] then None else Some (ne_seed N s))) (\<lambda>t.
           Ok (Some site, t))))
       (\<lambda>(site, t). Ok (nc\<lparr>nc_site := site, nc_totp := t, nc_username := Option.bind (nc_username nc) non_empty\<rparr>))"

definition ui_add_credential :: "credential_env \<Rightarrow> ('f, 'v) domain_env \<Rightarrow> new_credential \<Rightarrow> 'v broker \<Rightarrow> (core_error + secret_meta) \<times> 'v broker" where
  "ui_add_credential N E nc b =
     (case checked_credential N nc of
        Inl e \<Rightarrow> (Err e, b)
      | Inr nc \<Rightarrow>
          (case commit_action E (domain_add_credential E nc) b of
             (Inl e, b) \<Rightarrow> (Err e, b)
           | (Inr (m, fx), b) \<Rightarrow>
               (Ok m, log_action (case sm_kind m of
                   Secret \<Rightarrow> secret_added (de_clock E 5) (sm_name m)
                 | Password \<Rightarrow>
                     with_field (ascii ''has_totp'') (JBool (totp_vault_id m \<noteq> None))
                       (new_entry (de_clock E 5) KSecretAdded (ascii ''Password added for '' @ (case sm_site m of Some s \<Rightarrow> s | None \<Rightarrow> [])))) b)))"

definition edit_input :: "credential_env \<Rightarrow> uuid \<Rightarrow> ustring option \<Rightarrow> ustring option \<Rightarrow> ustring option \<Rightarrow> ustring option \<Rightarrow> ustring option \<Rightarrow>
    core_error + credential_edit" where
  "edit_input N i name x site user seed =
     and_then (transpose (map_option (ne_site N) site)) (\<lambda>site.
     and_then (transpose (map_option (\<lambda>s. if trim s = [] then Ok None else and_then (ne_seed N s) (\<lambda>t. Ok (Some t))) seed)) (\<lambda>t.
     Ok \<lparr>ce_id = i, ce_name = name, ce_value = x, ce_site = site, ce_username = map_option non_empty user, ce_totp = t\<rparr>))"

fun join_dots :: "ustring list \<Rightarrow> ustring" where
  "join_dots [] = []"
| "join_dots [x] = x"
| "join_dots (x # xs) = x @ [32, 183, 32] @ join_dots xs"

definition edit_changes :: "credential_edit \<Rightarrow> credential_edit_result \<Rightarrow> ustring list" where
  "edit_changes edit r =
     (case er_renamed_from r of None \<Rightarrow> []
      | Some old \<Rightarrow>
          let base = ascii ''renamed '' @ old @ [32, 8594, 32] @ sm_name (er_meta r); n = er_rewritten r in
          [if n > 0 then base @ ascii '' ('' @ show_nat n @ ascii '' template'' @ flag (n = 1) '''' ''s'' @ ascii '' rewritten)'' else base]) @
     (if er_value_replaced r then [ascii ''value replaced''] else []) @
     (if er_profile_changed r then [ascii ''sign-in profile updated''] else []) @
     (if er_totp_changed r then [flag (ce_totp edit = Some None) ''2FA secret removed'' ''2FA secret set''] else [])"

definition secret_updated :: "datetime \<Rightarrow> credential_edit \<Rightarrow> credential_edit_result \<Rightarrow> applied_effects \<Rightarrow> audit_entry" where
  "secret_updated wall edit r fx =
     (let e = with_field (ascii ''closed_sessions'') (JNumber (show_nat (closed_sessions fx)))
            (with_field (ascii ''value_replaced'') (JBool (er_value_replaced r))
            (AuditEntry.with_detail (join_dots (edit_changes edit r))
            (new_entry wall KSecretUpdated (ascii ''Secret updated: '' @ sm_name (er_meta r)))))
      in case er_renamed_from r of None \<Rightarrow> e
         | Some old \<Rightarrow>
             with_field (ascii ''templates_rewritten'') (JNumber (show_nat (er_rewritten r)))
               (with_field (ascii ''renamed_to'') (JString (sm_name (er_meta r))) (with_field (ascii ''renamed_from'') (JString old) e)))"

text \<open>The checks of the broker are those of the domain, made early so that no input error lands after a rename.\<close>

definition ui_edit_credential ::
  "credential_env \<Rightarrow> ('f, 'v) domain_env \<Rightarrow> 'v domain_repository \<Rightarrow> uuid \<Rightarrow> ustring option \<Rightarrow> ustring option \<Rightarrow> ustring option \<Rightarrow>
     ustring option \<Rightarrow> ustring option \<Rightarrow> 'v broker \<Rightarrow> (core_error + secret_meta) \<times> 'v broker" where
  "ui_edit_credential N E seen i name x site user seed b =
     (case secret_by_id i (st_index (dr_store seen)) of
        Inl e \<Rightarrow> (Err e, b)
      | Inr m \<Rightarrow>
          (case edit_refusal \<lparr>ce_id = i, ce_name = name, ce_value = x, ce_site = site, ce_username = map_option Some user,
                  ce_totp = map_option Some seed\<rparr> m of
             Some e \<Rightarrow> (Err e, b)
           | None \<Rightarrow>
               (case edit_input N i name x site user seed of
                  Inl e \<Rightarrow> (Err e, b)
                | Inr edit \<Rightarrow>
                    (case commit_action E (edit_credential E edit) b of
                       (Inl e, b) \<Rightarrow> (Err e, b)
                     | (Inr (r, fx), b) \<Rightarrow>
                         (Ok (er_meta r), if edit_changes edit r \<noteq> [] then log_action (secret_updated (de_clock E 5) edit r fx) b else b)))))"

definition ui_edit_secret ::
  "credential_env \<Rightarrow> ('f, 'v) domain_env \<Rightarrow> 'v domain_repository \<Rightarrow> uuid \<Rightarrow> ustring option \<Rightarrow> ustring option \<Rightarrow> 'v broker \<Rightarrow> (core_error + secret_meta) \<times> 'v broker" where
  "ui_edit_secret N E seen i name x = ui_edit_credential N E seen i name x None None None"

definition ui_delete_secret :: "('f, 'v) domain_env \<Rightarrow> 'v domain_repository \<Rightarrow> uuid \<Rightarrow> 'v broker \<Rightarrow> (core_error + secret_meta) \<times> 'v broker" where
  "ui_delete_secret E seen i b =
     (if connections_using i (st_index (dr_store seen)) \<noteq> [] then (Err (SecretInUse (connections_using i (st_index (dr_store seen)))), b)
      else case commit_action E (delete_credential E i) b of
        (Inl e, b) \<Rightarrow> (Err e, b)
      | (Inr (m, fx), b) \<Rightarrow>
          (Ok m, log_action
            (AuditEntry.with_detail (flag (sm_source m = Local) ''Removed from Keychain'' ''Unlinked from Multitool; no 1Password items were changed'')
              (new_entry (de_clock E 5) KSecretDeleted (ascii ''Secret deleted: '' @ sm_name m))) b))"

subsection \<open>Endpoint actions\<close>

text \<open>\<open>bind\<close> is what binding the endpoint's listener gives: an error, or the port (none for SSH).\<close>

record endpoint_env =
  ee_hash :: "ustring \<Rightarrow> ustring"
  ee_bind :: "direct_endpoint \<Rightarrow> connection \<Rightarrow> core_error + 16 word option"
  ee_secret :: ustring
  ee_uuid_text :: "uuid \<Rightarrow> ustring"
  ee_rfc3339 :: "datetime \<Rightarrow> ustring"
  ee_port_write :: write_fault
  ee_revoke_write :: write_fault

definition with_endpoints :: "registry \<Rightarrow> 'v broker \<Rightarrow> 'v broker" where
  "with_endpoints r b = b\<lparr>br_domain := (br_domain b)\<lparr>dr_endpoints := r\<rparr>\<rparr>"

definition broker_registry :: "'v broker \<Rightarrow> registry" where
  "broker_registry b = dr_endpoints (br_domain b)"

definition bind_endpoint_listener :: "endpoint_env \<Rightarrow> direct_endpoint \<Rightarrow> connection \<Rightarrow> 'v broker \<Rightarrow> (core_error + unit) \<times> 'v broker" where
  "bind_endpoint_listener P e c b =
     (case ee_bind P e c of
        Inl err \<Rightarrow> (Err err, b)
      | Inr p \<Rightarrow>
          let b = (case p of
                Some p \<Rightarrow> if conn_kind c \<noteq> KindSsh \<and> port e \<noteq> Some p
                  then with_endpoints (snd (set_port (ee_port_write P) (ep_id e) p (broker_registry b))) b else b
              | None \<Rightarrow> b);
              b = (if ep_id e \<in> set (br_listeners b) then notify (ListenerStopped (ep_id e)) b else b)
          in (Ok (), b\<lparr>br_listeners := List.insert (ep_id e) (br_listeners b)\<rparr>))"

definition store_endpoint_secret :: "('f, 'v) domain_env \<Rightarrow> endpoint_env \<Rightarrow> uuid \<Rightarrow> ustring \<Rightarrow> 'v broker \<Rightarrow> 'v broker" where
  "store_endpoint_secret E P i x b = b\<lparr>br_domain := (br_domain b)\<lparr>dr_store :=
     snd (vault_set (de_vault E) i \<lparr>va_name = ascii ''endpoint:'' @ ee_uuid_text P i, va_created_at = de_clock E 8\<rparr> x (dr_store (br_domain b)))\<rparr>\<rparr>"

definition forget_endpoint_secret :: "('f, 'v) domain_env \<Rightarrow> uuid \<Rightarrow> 'v broker \<Rightarrow> 'v broker" where
  "forget_endpoint_secret E i b =
     b\<lparr>br_domain := (br_domain b)\<lparr>dr_store := snd (vault_delete (de_vault E) i (dr_store (br_domain b)))\<rparr>\<rparr>"

text \<open>
  Issuing: the first reads happen on \<open>seen\<close>, before the gate; under the gate only the access table and the endpoint are read
  again. \<open>address_error\<close> is the one way building the address fails.
\<close>

definition endpoint_lapsed :: "datetime \<Rightarrow> registry \<Rightarrow> uuid \<Rightarrow> bool" where
  "endpoint_lapsed now r c \<longleftrightarrow> (case get_for_connection r c of Some e \<Rightarrow> is_expired now e | None \<Rightarrow> False)"

definition address_error :: "connection \<Rightarrow> direct_endpoint \<Rightarrow> core_error option" where
  "address_error c e = (if conn_kind c = KindApi \<and> port e = None then Some (VaultError (ascii ''http endpoint bound no port'')) else None)"

definition endpoint_entry :: "('f, 'v) domain_env \<Rightarrow> endpoint_env \<Rightarrow> audit_kind \<Rightarrow> ustring \<Rightarrow> connection \<Rightarrow> uuid \<Rightarrow> audit_entry" where
  "endpoint_entry E P k what c i =
     with_field (ascii ''endpoint_id'') (JString (ee_uuid_text P i))
       (with_connection (conn_name c) (new_entry (de_clock E 5) k (what @ conn_name c)))"

text \<open>Under the gate: the issued record, and whether its listener runs already.\<close>

definition issue_gated :: "('f, 'v) domain_env \<Rightarrow> endpoint_env \<Rightarrow> connection \<Rightarrow> 'v broker \<Rightarrow> (core_error + issued_endpoint \<times> bool) \<times> 'v broker" where
  "issue_gated E P c b =
     (let r = broker_registry b in
      if \<not> allows (dr_access (br_domain b)) (conn_id c) then (Err EndpointRequiresWiring, b)
      else if endpoint_lapsed (de_clock E 1) r (conn_id c) then (Err EndpointExpired, b)
      else
        let live = (case get_for_connection r (conn_id c) of Some e \<Rightarrow> ep_id e \<in> set (br_listeners b) | None \<Rightarrow> False) \<and> conn_kind c \<noteq> KindSsh in
        case issue (ee_hash P) (de_endpoint_write E) (de_clock E 2) (ee_secret P) (de_fresh E 4) (conn_id c) (conn_kind c) r of
          (Inl e, r) \<Rightarrow> (Err e, with_endpoints r b)
        | (Inr is, r) \<Rightarrow> (Ok (is, live), with_endpoints r b))"

definition ui_issue_endpoint ::
  "('f, 'v) domain_env \<Rightarrow> endpoint_env \<Rightarrow> 'v domain_repository \<Rightarrow> uuid \<Rightarrow> 'v broker \<Rightarrow> (core_error + direct_endpoint) \<times> 'v broker" where
  "ui_issue_endpoint E P seen i b =
     (case catalog_connection i seen of
        Inl e \<Rightarrow> (Err e, b)
      | Inr c \<Rightarrow>
          if \<not> allows (dr_access seen) i then (Err EndpointRequiresWiring, b)
          else if endpoint_lapsed (de_clock E 0) (dr_endpoints seen) i then (Err EndpointExpired, b)
          else
            (case issue_gated E P c b of
               (Inl e, b) \<Rightarrow> (Err e, b)
             | (Inr (is, live), b) \<Rightarrow>
                 (case (if live then (Ok (), b) else bind_endpoint_listener P (issued_endpoint.issued is) c b) of
                    (Inl e, b) \<Rightarrow> (Err e, with_endpoints (snd (revoke (ee_revoke_write P) (ep_id (issued_endpoint.issued is)) (broker_registry b))) b)
                  | (Inr _, b) \<Rightarrow>
                      let b = store_endpoint_secret E P (ep_id (issued_endpoint.issued is)) (issued_secret is) b;
                          e = (case get_endpoint (broker_registry b) (ep_id (issued_endpoint.issued is)) of Some e \<Rightarrow> e | None \<Rightarrow> issued_endpoint.issued is)\<lparr>ep_secret := issued_secret is\<rparr>
                      in case address_error c e of
                           Some x \<Rightarrow> (Err x, b)
                         | None \<Rightarrow>
                             (Ok e, notify WiringsChanged (log_action
                               (with_field (ascii ''kind'') (JString (kind_as_str (conn_kind c)))
                                 (endpoint_entry E P KWired (ascii ''Direct endpoint issued: '') c (ep_id (issued_endpoint.issued is)))) b)))))"

definition auto_issue_api_endpoint ::
  "('f, 'v) domain_env \<Rightarrow> endpoint_env \<Rightarrow> 'v domain_repository \<Rightarrow> uuid \<Rightarrow> 'v broker \<Rightarrow> 'v broker" where
  "auto_issue_api_endpoint E P seen i b =
     (case catalog_connection i seen of
        Inl _ \<Rightarrow> b
      | Inr c \<Rightarrow>
          if (case conn_config c of Api a \<Rightarrow> mcp_path a \<noteq> None | _ \<Rightarrow> True) \<or> \<not> allows (dr_access seen) i \<or>
             get_for_connection (dr_endpoints seen) i \<noteq> None
          then b else snd (ui_issue_endpoint E P seen i b))"

text \<open>Renewing and changing expiry share their frame: the listener first, then the deadline under the gate.\<close>

definition redate_endpoint ::
  "('f, 'v) domain_env \<Rightarrow> endpoint_env \<Rightarrow> (uuid \<Rightarrow> registry \<Rightarrow> (core_error + direct_endpoint) \<times> registry) \<Rightarrow> ustring \<Rightarrow> 'v domain_repository \<Rightarrow> uuid \<Rightarrow>
     'v broker \<Rightarrow> (core_error + direct_endpoint) \<times> 'v broker" where
  "redate_endpoint E P redate what seen i b =
     (case catalog_connection i seen of
        Inl e \<Rightarrow> (Err e, b)
      | Inr c \<Rightarrow>
          if \<not> allows (dr_access seen) i then (Err EndpointRequiresWiring, b)
          else case get_for_connection (dr_endpoints seen) i of
            None \<Rightarrow> (Err EndpointNotFound, b)
          | Some e \<Rightarrow>
              let live = (ep_id e \<in> set (br_listeners b)) in
              (case (if live then (Ok (), b) else bind_endpoint_listener P e c b) of
                 (Inl x, b) \<Rightarrow> (Err x, b)
               | (Inr _, b) \<Rightarrow>
                   if \<not> allows (dr_access (br_domain b)) i then (Err EndpointRequiresWiring, b)
                   else if map_option ep_id (get_for_connection (broker_registry b) i) \<noteq> Some (ep_id e)
                   then (Err EndpointNotFound, if live then b else stop_listener (ep_id e) b)
                   else
                     (case redate (ep_id e) (broker_registry b) of
                        (Inl x, r) \<Rightarrow> (Err x, with_endpoints r b)
                      | (Inr d, r) \<Rightarrow>
                          let b = with_endpoints r b in
                          case address_error c d of
                            Some x \<Rightarrow> (Err x, b)
                          | None \<Rightarrow>
                              (Ok d, notify WiringsChanged (log_action
                                (with_field (ascii ''expires_at'') (JString (case expires_at d of Some t \<Rightarrow> ee_rfc3339 P t | None \<Rightarrow> []))
                                  (endpoint_entry E P KWired what c (ep_id d))) b)))))"

definition ui_renew_endpoint ::
  "('f, 'v) domain_env \<Rightarrow> endpoint_env \<Rightarrow> 'v domain_repository \<Rightarrow> uuid \<Rightarrow> 'v broker \<Rightarrow> (core_error + direct_endpoint) \<times> 'v broker" where
  "ui_renew_endpoint E P seen i =
     redate_endpoint E P (renew (de_endpoint_write E) (de_clock E 1)) (ascii ''Direct endpoint renewed: '') seen i"

definition ui_set_endpoint_expiry ::
  "('f, 'v) domain_env \<Rightarrow> endpoint_env \<Rightarrow> 'v domain_repository \<Rightarrow> uuid \<Rightarrow> bool \<Rightarrow> 'v broker \<Rightarrow> (core_error + direct_endpoint) \<times> 'v broker" where
  "ui_set_endpoint_expiry E P seen i expire =
     redate_endpoint E P (\<lambda>e. set_expiry (de_endpoint_write E) (de_clock E 1) e expire)
       (ascii ''Connection expiry '' @ flag expire ''enabled'' ''disabled'' @ ascii '': '') seen i"

definition auth_is_for_ssh :: core_error where
  "auth_is_for_ssh = InvalidConnectionConfig (ascii
     ''only SSH endpoints carry an agent-protocol authentication step; Postgres and HTTP endpoints already present their secret'')"

definition ui_set_endpoint_require_auth ::
  "('f, 'v) domain_env \<Rightarrow> endpoint_env \<Rightarrow> 'v domain_repository \<Rightarrow> uuid \<Rightarrow> bool \<Rightarrow> 'v broker \<Rightarrow> (core_error + bool) \<times> 'v broker" where
  "ui_set_endpoint_require_auth E P seen i required b =
     (case catalog_connection i seen of
        Inl e \<Rightarrow> (Err e, b)
      | Inr c \<Rightarrow>
          if conn_kind c \<noteq> KindSsh then (Err auth_is_for_ssh, b)
          else case get_for_connection (dr_endpoints seen) i of
            None \<Rightarrow> (Err EndpointNotFound, b)
          | Some e \<Rightarrow>
              if require_auth e = required then (Ok False, b)
              else
                (case set_require_auth (de_endpoint_write E) (ep_id e) required (broker_registry b) of
                   (Inl x, r) \<Rightarrow> (Err x, with_endpoints r b)
                 | (Inr changed, r) \<Rightarrow>
                     let b = with_endpoints r b in
                     if \<not> changed then (Ok False, b)
                     else
                       let b = (if required
                             then b\<lparr>br_plane := snd (close_endpoint_sessions (ep_id e) (ascii ''endpoint_auth_required'') (br_plane b))\<rparr> else b)
                       in (Ok True, notify WiringsChanged (log_action
                            (with_field (ascii ''require_auth'') (JBool required)
                              (endpoint_entry E P KWired
                                (ascii ''SSH endpoint authentication '' @ flag required ''required'' ''no longer required'' @ ascii '' for '') c (ep_id e))) b))))"

definition ui_revoke_endpoint :: "('f, 'v) domain_env \<Rightarrow> endpoint_env \<Rightarrow> uuid \<Rightarrow> 'v broker \<Rightarrow> (core_error + bool) \<times> 'v broker" where
  "ui_revoke_endpoint E P i b =
     (case revoke (de_endpoint_write E) i (broker_registry b) of
        (Inl x, r) \<Rightarrow> (Err x, with_endpoints r b)
      | (Inr None, r) \<Rightarrow> (Ok False, with_endpoints r b)
      | (Inr (Some e), r) \<Rightarrow>
          let b = teardown_endpoint (ascii ''endpoint_revoked'') (ep_id e) (forget_endpoint_secret E (ep_id e) (with_endpoints r b));
              name = (case catalog_connection (ep_connection_id e) (br_domain b) of Inr c \<Rightarrow> conn_name c | Inl _ \<Rightarrow> ascii ''removed tool'')
          in (Ok True, notify WiringsChanged (log_action
               (with_field (ascii ''endpoint_id'') (JString (ee_uuid_text P (ep_id e)))
                 (with_connection name (new_entry (de_clock E 5) KUnwired (ascii ''Direct endpoint revoked: '' @ name)))) b)))"

text \<open>One endpoint at daemon start.\<close>

definition rebind_one :: "('f, 'v) domain_env \<Rightarrow> endpoint_env \<Rightarrow> direct_endpoint \<Rightarrow> 'v broker \<Rightarrow> 'v broker" where
  "rebind_one E P e b =
     (if is_expired (de_clock E 0) e \<or> ep_id e \<in> set (br_listeners b) then b
      else
        let stale = (case catalog_connection (ep_connection_id e) (br_domain b) of Inr c \<Rightarrow> conn_kind c \<noteq> ep_kind e | Inl _ \<Rightarrow> True) in
        if stale then
          (case revoke (ee_revoke_write P) (ep_id e) (broker_registry b) of
             (Inr (Some x), r) \<Rightarrow> teardown_endpoint (ascii ''connection_changed'') (ep_id x) (with_endpoints r b)
           | (_, r) \<Rightarrow> with_endpoints r b)
        else case catalog_connection (ep_connection_id e) (br_domain b) of
          Inl _ \<Rightarrow> b
        | Inr c \<Rightarrow>
            (case bind_endpoint_listener P e c b of
               (Inr _, b) \<Rightarrow> b
             | (Inl _, b) \<Rightarrow>
                 (case revoke (ee_revoke_write P) (ep_id e) (broker_registry b) of
                    (Inr (Some x), r) \<Rightarrow>
                      notify WiringsChanged (log_action
                        (with_field (ascii ''endpoint_id'') (JString (ee_uuid_text P (ep_id e)))
                          (with_outcome (ascii ''listener_bind_failed'')
                            (with_connection (conn_name c)
                              (new_entry (de_clock E 5) KUnwired (ascii ''Direct endpoint revoked after bind conflict: '' @ conn_name c)))))
                        (teardown_endpoint (ascii ''endpoint_revoked'') (ep_id x) (with_endpoints r b)))
                  | (_, r) \<Rightarrow> with_endpoints r b)))"

definition rebind_endpoints :: "('f, 'v) domain_env \<Rightarrow> endpoint_env \<Rightarrow> 'v broker \<Rightarrow> 'v broker" where
  "rebind_endpoints E P b = fold (rebind_one E P) (endpoints (broker_registry b)) b"

text \<open>Rotating the broker key; \<open>rotated\<close> is what \<open>identity.rotate\<close> answers.\<close>

definition ui_rotate_key :: "('f, 'v) domain_env \<Rightarrow> core_error + unit \<Rightarrow> 'v broker \<Rightarrow> (core_error + unit) \<times> 'v broker" where
  "ui_rotate_key E rotated b =
     (case revoke_all (de_endpoint_write E) (broker_registry b) of
        (Inl x, r) \<Rightarrow> (Err x, with_endpoints r b)
      | (Inr es, r) \<Rightarrow>
          let b = fold (forget_endpoint_secret E) (map ep_id es) (with_endpoints r b);
              b = fold (teardown_endpoint (ascii ''key_rotated'')) (map ep_id es) b in
          (case rotated of
             Inl x \<Rightarrow> (Err x, b)
           | Inr _ \<Rightarrow>
               (case close_all (ascii ''key_rotated'') (br_plane b) of (n, p) \<Rightarrow>
                  (Ok (), log_action
                    (with_field (ascii ''endpoints_revoked'') (JNumber (show_nat (length es)))
                      (with_field (ascii ''sessions_closed'') (JNumber (show_nat n))
                        (new_entry (de_clock E 5) KTokenRevoked (ascii ''Key rotated; all agents disconnected''))))
                    (b\<lparr>br_plane := p, br_approvals := revoke_all_approvals (de_clock E 6) (br_approvals b)\<rparr>)))))"

definition begin_shutdown :: "datetime \<Rightarrow> 'v broker \<Rightarrow> nat \<times> 'v broker" where
  "begin_shutdown wall b =
     (let b = b\<lparr>br_approvals := revoke_all_approvals wall (br_approvals b), br_elicitations := el_revoke_all wall (br_elicitations b)\<rparr>;
          b = fold stop_listener (br_listeners b) b in
      case close_all (ascii ''broker_shutdown'') (br_plane b) of (n, p) \<Rightarrow> (n, b\<lparr>br_plane := p\<rparr>))"

definition ui_close_session :: "nat \<Rightarrow> 'v broker \<Rightarrow> bool \<times> 'v broker" where
  "ui_close_session i b = (case close_session i (br_plane b) of (x, p) \<Rightarrow> (x, b\<lparr>br_plane := p\<rparr>))"

end
