(* ===== verification/BrokerSafety.thy ===== *)
theory BrokerSafety
  imports BrokerEdits StoreEdits
begin

text \<open>
  What the management actions guarantee: after an action that takes authority away, nothing that was handed out under it can be
  used. The locale \<open>withdrawal\<close> is the contract of the three registries an outbox event reaches (data plane, traffic confirmation,
  elicitations): withdrawing makes quiet, quiet stays quiet, and withdrawing again changes nothing.
\<close>

subsection \<open>The contract of a withdrawal\<close>

locale withdrawal =
  fixes ok :: "'s \<Rightarrow> bool"
    and quiet :: "'c \<Rightarrow> 's \<Rightarrow> bool"
    and cut :: "'c \<Rightarrow> 's \<Rightarrow> 's"
  assumes ok_cut: "ok s \<Longrightarrow> ok (cut c s)"
    and quiet_cut: "ok s \<Longrightarrow> quiet c (cut c s)"
    and stays_quiet: "ok s \<Longrightarrow> quiet c s \<Longrightarrow> quiet c (cut d s)"
    and idle_cut: "ok s \<Longrightarrow> quiet c s \<Longrightarrow> cut c s = s"
begin

lemma ok_cuts: "ok s \<Longrightarrow> ok (fold cut cs s)"
  by (induction cs arbitrary: s) (auto simp: ok_cut)

lemma stays_quiet_cuts: "ok s \<Longrightarrow> quiet c s \<Longrightarrow> quiet c (fold cut cs s)"
  by (induction cs arbitrary: s) (auto simp: ok_cut stays_quiet)

lemma quiet_cuts: "ok s \<Longrightarrow> c \<in> set cs \<Longrightarrow> quiet c (fold cut cs s)"
  by (induction cs arbitrary: s) (auto simp: ok_cut quiet_cut stays_quiet_cuts)

lemma idle_cuts: "ok s \<Longrightarrow> (\<And>c. c \<in> set cs \<Longrightarrow> quiet c s) \<Longrightarrow> fold cut cs s = s"
  by (induction cs arbitrary: s) (auto simp: idle_cut)

lemma cuts_twice: "ok s \<Longrightarrow> set ds \<subseteq> set cs \<Longrightarrow> fold cut ds (fold cut cs s) = fold cut cs s"
  by (rule idle_cuts) (auto intro: ok_cuts quiet_cuts)

end

subsection \<open>The data plane\<close>

datatype plane_cut = ByConnection uuid ustring | ByEndpoint uuid ustring

fun cut_plane :: "plane_cut \<Rightarrow> data_plane \<Rightarrow> data_plane" where
  "cut_plane (ByConnection c reason) p = snd (close_connection_sessions c reason p)"
| "cut_plane (ByEndpoint i reason) p = snd (close_endpoint_sessions i reason p)"

text \<open>Nothing issued for the connection is usable: its tickets are invalid, its sessions told to close.\<close>

definition plane_quiet :: "uuid \<Rightarrow> data_plane \<Rightarrow> bool" where
  "plane_quiet c p \<longleftrightarrow> (\<forall>(k, t) \<in> set (tickets p). conn_id (tk_connection t) = c \<longrightarrow> invalidated t) \<and>
     (\<forall>(i, s) \<in> set (sessions p). s_connection_id s = c \<longrightarrow> close s \<noteq> None)"

definition endpoint_quiet :: "uuid \<Rightarrow> data_plane \<Rightarrow> bool" where
  "endpoint_quiet e p \<longleftrightarrow> (\<forall>(i, s) \<in> set (sessions p). endpoint_id s = Some e \<longrightarrow> close s \<noteq> None)"

fun cut_quiet :: "plane_cut \<Rightarrow> data_plane \<Rightarrow> bool" where
  "cut_quiet (ByConnection c reason) p = plane_quiet c p"
| "cut_quiet (ByEndpoint i reason) p = endpoint_quiet i p"

lemma signal_each_sessions:
  "hm_wf (sessions p) \<Longrightarrow> sessions (signal_each reason is p) =
     map (\<lambda>(j, s). (j, if j \<in> set is then signal_close reason s else s)) (sessions p)"
proof (induction "is" arbitrary: p)
  case (Cons i "is")
  have e: "AList.map_entry i f xs = map (\<lambda>(j, s). (j, if j = i then f s else s)) xs" if "distinct (map fst xs)" for f :: "session_entry \<Rightarrow> session_entry" and xs
    using that by (induction xs) (auto simp: image_iff intro!: map_idI [symmetric])
  have s: "sessions (signal_session reason i p) = map (\<lambda>(j, s). (j, if j = i then signal_close reason s else s)) (sessions p)"
    using Cons.prems e by (simp add: signal_session_def hm_wf_def)
  then have "hm_wf (sessions (signal_session reason i p))" using Cons.prems by (simp add: hm_wf_def comp_def case_prod_beta)
  from Cons.IH [OF this] show ?case
    by (auto simp: signal_each_def s signal_close_def intro!: map_cong)
qed (simp add: signal_each_def)

definition cut_tickets :: "plane_cut \<Rightarrow> ticket_entry \<Rightarrow> ticket_entry" where
  "cut_tickets d t = (case d of ByConnection c _ \<Rightarrow> if conn_id (tk_connection t) = c then t\<lparr>invalidated := True\<rparr> else t | ByEndpoint _ _ \<Rightarrow> t)"

definition cut_hits :: "plane_cut \<Rightarrow> session_entry \<Rightarrow> bool" where
  "cut_hits d s = (case d of ByConnection c _ \<Rightarrow> s_connection_id s = c | ByEndpoint i _ \<Rightarrow> endpoint_id s = Some i)"

definition cut_reason :: "plane_cut \<Rightarrow> ustring" where
  "cut_reason d = (case d of ByConnection _ r \<Rightarrow> r | ByEndpoint _ r \<Rightarrow> r)"

lemma hit_targets:
  assumes "hm_wf (sessions p)"
  shows "map (\<lambda>(j, s). (j, if j \<in> set (close_targets P p) then f s else s)) (sessions p) = map (\<lambda>(j, s). (j, if P s then f s else s)) (sessions p)"
proof (rule map_cong [OF refl])
  fix x assume x: "x \<in> set (sessions p)"
  obtain j s where js: "x = (j, s)" by (cases x)
  then have "map_of (sessions p) j = Some s" using assms x by (simp add: hm_wf_def)
  then show "(case x of (j, s) \<Rightarrow> (j, if j \<in> set (close_targets P p) then f s else s)) = (case x of (j, s) \<Rightarrow> (j, if P s then f s else s))"
    using mem_close_targets [OF assms, of j P] js by simp
qed

lemma cut_plane_form:
  assumes "hm_wf (sessions p)"
  shows "cut_plane d p = p\<lparr>tickets := hm_map_values (cut_tickets d) (tickets p),
     sessions := map (\<lambda>(j, s). (j, if cut_hits d s then signal_close (cut_reason d) s else s)) (sessions p)\<rparr>"
proof -
  have frame: "signal_each r is q = q\<lparr>sessions := sessions (signal_each r is q)\<rparr>" for r "is" q
  proof (induction "is" arbitrary: q)
    case (Cons i "is")
    have s: "signal_session r i q = q\<lparr>sessions := sessions (signal_session r i q)\<rparr>" for i q by (simp add: signal_session_def)
    from Cons [of "signal_session r i q"] show ?case
      unfolding signal_each_def fold_simps comp_def by (subst (asm) (2) s) simp
  qed (simp add: signal_each_def)
  show ?thesis
  proof (cases d)
    case (ByConnection c r)
    let ?q = "invalidate_tickets (\<lambda>k. conn_id k = c) p"
    have q: "sessions ?q = sessions p" by (simp add: invalidate_tickets_def)
    have "cut_plane d p = signal_each r (close_targets (\<lambda>s. s_connection_id s = c) ?q) ?q"
      by (simp add: ByConnection close_connection_sessions_def Let_def)
    also have "\<dots> = ?q\<lparr>sessions := map (\<lambda>(j, s). (j, if s_connection_id s = c then signal_close r s else s)) (sessions p)\<rparr>"
      using hit_targets [of ?q] signal_each_sessions [of ?q] assms q by (subst frame) simp
    finally show ?thesis unfolding ByConnection cut_tickets_def [abs_def] cut_hits_def cut_reason_def plane_cut.case by (simp add: invalidate_tickets_def)
  next
    case (ByEndpoint i r)
    have "cut_plane d p = signal_each r (close_targets (\<lambda>s. endpoint_id s = Some i) p) p"
      by (simp add: ByEndpoint close_endpoint_sessions_def Let_def)
    also have "\<dots> = p\<lparr>sessions := map (\<lambda>(j, s). (j, if endpoint_id s = Some i then signal_close r s else s)) (sessions p)\<rparr>"
      using hit_targets [of p] signal_each_sessions [of p] assms by (subst frame) simp
    finally show ?thesis unfolding ByEndpoint cut_tickets_def [abs_def] cut_hits_def cut_reason_def plane_cut.case by (simp add: hm_map_values_def)
  qed
qed

lemma signal_close_facts [simp]:
  "\<exists>y. close (signal_close r s) = Some y" "s_connection_id (signal_close r s) = s_connection_id s" "endpoint_id (signal_close r s) = endpoint_id s"
  "close s \<noteq> None \<Longrightarrow> signal_close r s = s"
  by (auto simp: signal_close_def)

lemma cut_tickets_facts [simp]:
  "tk_connection (cut_tickets d t) = tk_connection t" "invalidated t \<Longrightarrow> cut_tickets d t = t"
  by (auto simp: cut_tickets_def split: plane_cut.split)

lemma cut_quiet_form:
  "cut_quiet d p \<longleftrightarrow> (\<forall>(k, t) \<in> set (tickets p). cut_tickets d t = t) \<and> (\<forall>(i, s) \<in> set (sessions p). cut_hits d s \<longrightarrow> close s \<noteq> None)"
proof -
  have "cut_tickets (ByConnection c r) t = t \<longleftrightarrow> (conn_id (tk_connection t) = c \<longrightarrow> invalidated t)" for c r t
    by (cases t) (auto simp: cut_tickets_def)
  then show ?thesis by (cases d) (auto simp: plane_quiet_def endpoint_quiet_def cut_hits_def cut_tickets_def)
qed

lemma cut_plane_stays:
  assumes "hm_wf (sessions p)" "cut_quiet c p"
  shows "cut_quiet c (cut_plane d p)"
proof -
  have t: "cut_tickets c (cut_tickets d t) = cut_tickets d t" if "cut_tickets c t = t" for t
    using that by (cases t) (auto simp: cut_tickets_def split: plane_cut.splits)
  have h: "cut_hits c (if x then signal_close r s else s) = cut_hits c s" for x r s by (auto simp: cut_hits_def split: plane_cut.split)
  show ?thesis using assms(2) unfolding cut_quiet_form cut_plane_form [OF assms(1)]
    by (auto simp: hm_map_values_def t h split: if_splits)
qed

lemma cut_plane_quiet:
  assumes "hm_wf (sessions p)"
  shows "cut_quiet d (cut_plane d p)"
proof -
  have t: "cut_tickets d (cut_tickets d t) = cut_tickets d t" for t by (auto simp: cut_tickets_def split: plane_cut.split)
  have h: "cut_hits d (if x then signal_close r s else s) = cut_hits d s" for x r s by (auto simp: cut_hits_def split: plane_cut.split)
  show ?thesis unfolding cut_quiet_form cut_plane_form [OF assms] by (auto simp: hm_map_values_def t h split: if_splits)
qed

lemma cut_plane_idle:
  assumes "hm_wf (sessions p)" "cut_quiet d p"
  shows "cut_plane d p = p"
proof -
  have "hm_map_values (cut_tickets d) (tickets p) = tickets p"
    using assms(2) unfolding cut_quiet_form hm_map_values_def by (intro map_idI) auto
  moreover have "map (\<lambda>(j, s). (j, if cut_hits d s then signal_close (cut_reason d) s else s)) (sessions p) = sessions p"
    using assms(2) unfolding cut_quiet_form by (intro map_idI) auto
  ultimately show ?thesis unfolding cut_plane_form [OF assms(1)] by simp
qed

lemma cut_plane_wf: "hm_wf (sessions p) \<Longrightarrow> hm_wf (sessions (cut_plane d p))"
  by (simp add: cut_plane_form hm_wf_def comp_def case_prod_beta)

interpretation plane_withdrawal: withdrawal "\<lambda>p. hm_wf (sessions p)" cut_quiet cut_plane
  by unfold_locales (simp_all add: cut_plane_wf cut_plane_quiet cut_plane_stays cut_plane_idle)

subsection \<open>Traffic confirmation and elicitations\<close>

text \<open>No window, cooldown or in-flight prompt of the connection is left.\<close>

definition windows_quiet :: "uuid \<Rightarrow> approvals \<Rightarrow> bool" where
  "windows_quiet c a \<longleftrightarrow> (\<forall>((c', _), _) \<in> set (grants a). c' \<noteq> c) \<and> (\<forall>((c', _), _) \<in> set (inflight a). c' \<noteq> c) \<and>
     (\<forall>(c', _) \<in> set (cooldowns a). c' \<noteq> c)"

definition elicitations_quiet :: "uuid \<Rightarrow> elicitations \<Rightarrow> bool" where
  "elicitations_quiet c e \<longleftrightarrow> (\<forall>(_, p) \<in> set (el_pending e). pe_connection_id (pk_info p) \<noteq> c)"

lemma resolve_each_sub:
  "grants (resolve_each wall v res is a) = grants a \<and> cooldowns (resolve_each wall v res is a) = cooldowns a \<and>
   set (inflight (resolve_each wall v res is a)) \<subseteq> set (inflight a)"
proof (induction "is" arbitrary: a)
  case (Cons i "is")
  have "set (inflight (resolve wall i v res a)) \<subseteq> set (inflight a)"
    by (auto simp: resolve_def Let_def AList.delete_eq split: option.split)
  with Cons [of "resolve wall i v res a"] show ?case by (auto simp: resolve_each_def)
qed (simp add: resolve_each_def)

lemma revoke_approvals_sub:
  "set (grants (revoke_approvals wall c a)) = {x \<in> set (grants a). fst (fst x) \<noteq> c} \<and>
   set (cooldowns (revoke_approvals wall c a)) = {x \<in> set (cooldowns a). fst x \<noteq> c} \<and>
   set (inflight (revoke_approvals wall c a)) \<subseteq> {x \<in> set (inflight a). fst (fst x) \<noteq> c}"
  using resolve_each_sub [of wall VRevoked PolicyChanged "fst (drop_connection c a)" "snd (drop_connection c a)"]
  by (auto simp: revoke_approvals_def drop_connection_def hm_retain_def AList.delete_eq split: prod.splits)

lemma revoke_approvals_idle: "windows_quiet c a \<Longrightarrow> revoke_approvals wall c a = a"
proof -
  assume q: "windows_quiet c a"
  then have "filter (\<lambda>(k, _). fst k \<noteq> c) (grants a) = grants a" "filter (\<lambda>(k, _). fst k \<noteq> c) (inflight a) = inflight a"
    "AList.delete c (cooldowns a) = cooldowns a" "filter (\<lambda>(k, _). fst k = c) (inflight a) = []"
    by (auto simp: windows_quiet_def AList.delete_eq filter_id_conv filter_empty_conv)
  moreover have "hm_retain (\<lambda>(c', _) _. c' \<noteq> c) (grants a) = filter (\<lambda>(k, _). fst k \<noteq> c) (grants a)"
    "hm_retain (\<lambda>(c', _) _. c' \<noteq> c) (inflight a) = filter (\<lambda>(k, _). fst k \<noteq> c) (inflight a)"
    by (simp_all add: hm_retain_def case_prod_beta)
  moreover have "filter (\<lambda>((c', _), _). c' = c) (inflight a) = filter (\<lambda>(k, _). fst k = c) (inflight a)" by (rule filter_cong) auto
  ultimately show ?thesis by (simp add: revoke_approvals_def drop_connection_def resolve_each_def)
qed

lemma revoke_approvals_quiet: "windows_quiet c (revoke_approvals wall c a)"
  using revoke_approvals_sub [of wall c a] by (fastforce simp: windows_quiet_def)

lemma revoke_approvals_stays: "windows_quiet c a \<Longrightarrow> windows_quiet c (revoke_approvals wall d a)"
  using revoke_approvals_sub [of wall d a] by (fastforce simp: windows_quiet_def)

definition window_cut :: "uuid \<times> datetime \<Rightarrow> approvals \<Rightarrow> approvals" where
  "window_cut = (\<lambda>(c, wall). revoke_approvals wall c)"

definition elicitation_cut :: "uuid \<times> datetime \<Rightarrow> elicitations \<Rightarrow> elicitations" where
  "elicitation_cut = (\<lambda>(c, wall). el_revoke wall c)"

interpretation windows_withdrawal: withdrawal "\<lambda>_. True" "\<lambda>cw. windows_quiet (fst cw)" window_cut
  by unfold_locales (simp_all add: window_cut_def revoke_approvals_quiet revoke_approvals_stays revoke_approvals_idle case_prod_beta)

lemma el_resolve_pending: "el_pending (el_resolve wall i oc res e) = filter (\<lambda>x. fst x \<noteq> i) (el_pending e)"
proof (cases "map_of (el_pending e) i")
  case None
  then have "filter (\<lambda>x. fst x \<noteq> i) (el_pending e) = el_pending e" by (auto simp: map_of_eq_None_iff filter_id_conv)
  with None show ?thesis by (simp add: el_resolve_def)
qed (auto simp: el_resolve_def AList.delete_eq intro!: filter_cong)

lemma el_resolves_pending: "el_pending (fold (\<lambda>i. el_resolve wall i oc res) is e) = filter (\<lambda>x. fst x \<notin> set is) (el_pending e)"
  by (induction "is" arbitrary: e) (auto simp: el_resolve_pending intro!: filter_cong)

lemma el_revoke_pending: "set (el_pending (el_revoke wall c e)) \<subseteq> {x \<in> set (el_pending e). pe_connection_id (pk_info (snd x)) \<noteq> c}"
  by (force simp: el_revoke_def el_resolves_pending el_targets_def)

lemma el_revoke_idle: "elicitations_quiet c e \<Longrightarrow> el_revoke wall c e = e"
proof -
  assume "elicitations_quiet c e"
  then have "el_targets c e = []" by (auto simp: elicitations_quiet_def el_targets_def filter_empty_conv)
  then show ?thesis by (simp add: el_revoke_def)
qed

lemma el_revoke_quiet: "elicitations_quiet c (el_revoke wall c e)" and el_revoke_stays: "elicitations_quiet c e \<Longrightarrow> elicitations_quiet c (el_revoke wall d e)"
  using el_revoke_pending by (fastforce simp: elicitations_quiet_def)+

interpretation elicitations_withdrawal: withdrawal "\<lambda>_. True" "\<lambda>cw. elicitations_quiet (fst cw)" elicitation_cut
  by unfold_locales (simp_all add: elicitation_cut_def el_revoke_quiet el_revoke_stays el_revoke_idle case_prod_beta)

subsection \<open>What an outbox event reaches\<close>

definition bound_connections :: "uuid \<Rightarrow> 'v domain_repository \<Rightarrow> uuid list" where
  "bound_connections i d = map conn_id (filter (\<lambda>c. i \<in> set (conn_secrets c)) (ix_connections (st_index (dr_store d))))"

fun plane_cuts :: "'v domain_repository \<Rightarrow> outbox_kind \<Rightarrow> plane_cut list" where
  "plane_cuts d (CredentialChangedEvent i replaced n) =
     (if replaced then map (\<lambda>c. ByConnection c (authority_change_as_str CredentialRotated)) (bound_connections i d) else [])"
| "plane_cuts d (ConnectionCreatedEvent c created) = []"
| "plane_cuts d (ConnectionChangedEvent c capability moved removed) =
     (if capability then [ByConnection c (authority_change_as_str AuthorityConnectionChanged)] else []) @
     (if moved then map (\<lambda>i. ByEndpoint i (authority_change_as_str AuthorityConnectionChanged)) removed else [])"
| "plane_cuts d (ConnectionDeletedEvent c policy removed) =
     map (\<lambda>i. ByEndpoint i (authority_change_as_str AuthorityConnectionDeleted)) removed @
     [ByConnection c (authority_change_as_str AuthorityConnectionDeleted)]"
| "plane_cuts d (PolicyChangedEvent c ch) = (if ch = EnabledChange False then [ByConnection c (authority_change_as_str AccessDisabled)] else [])"

fun window_cuts :: "'v domain_repository \<Rightarrow> outbox_kind \<Rightarrow> uuid list" where
  "window_cuts d (CredentialChangedEvent i replaced n) = (if replaced then bound_connections i d else [])"
| "window_cuts d (ConnectionCreatedEvent c created) = []"
| "window_cuts d (ConnectionChangedEvent c capability moved removed) = (if moved then [c] else [])"
| "window_cuts d (ConnectionDeletedEvent c policy removed) = [c]"
| "window_cuts d (PolicyChangedEvent c ch) = (case ch of EnabledChange b \<Rightarrow> if b then [] else [c] | ToolsChange _ \<Rightarrow> [c] | _ \<Rightarrow> [])"

fun elicitation_cuts :: "'v domain_repository \<Rightarrow> outbox_kind \<Rightarrow> uuid list" where
  "elicitation_cuts d (PolicyChangedEvent c ch) = (if ch = EnabledChange False then [c] else [])"
| "elicitation_cuts d k = window_cuts d k"

fun listener_cuts :: "outbox_kind \<Rightarrow> uuid list" where
  "listener_cuts (ConnectionChangedEvent c capability moved removed) = (if moved then removed else [])"
| "listener_cuts (ConnectionDeletedEvent c policy removed) = removed"
| "listener_cuts k = []"

text \<open>The registries of a broker after the given cuts.\<close>

definition reached :: "plane_cut list \<Rightarrow> (uuid \<times> datetime) list \<Rightarrow> (uuid \<times> datetime) list \<Rightarrow> uuid list \<Rightarrow> 'v broker \<Rightarrow> 'v broker \<Rightarrow> bool" where
  "reached ps ws es ls b b' \<longleftrightarrow> br_domain b' = br_domain b \<and> br_plane b' = fold cut_plane ps (br_plane b) \<and>
     br_approvals b' = fold window_cut ws (br_approvals b) \<and> br_elicitations b' = fold elicitation_cut es (br_elicitations b) \<and>
     br_listeners b' = fold removeAll ls (br_listeners b)"

lemma reached_simps [simp]:
  "reached [] [] [] [] b b" "reached ps ws es ls b (notify e b') = reached ps ws es ls b b'"
  by (simp_all add: reached_def notify_def)

lemma reached_trans: "reached ps ws es ls b b' \<Longrightarrow> reached ps' ws' es' ls' b' b'' \<Longrightarrow> reached (ps @ ps') (ws @ ws') (es @ es') (ls @ ls') b b''"
  by (simp add: reached_def)

lemma reached_steps:
  "reached [] [(c, wall)] [] [] b (revoke_windows wall c b)"
  "reached [] [] [(c, wall)] [] b (revoke_elicitations wall c b)"
  "reached [ByConnection c (authority_change_as_str a)] [] [] [] b (fst (close_sessions_of c a (b, fx)))"
  by (simp_all add: reached_def revoke_windows_def revoke_elicitations_def close_sessions_of_def window_cut_def elicitation_cut_def split: prod.split)

lemma reached_teardown: "reached [ByEndpoint i reason] [] [] [i] b (teardown_endpoint reason i b)"
  by (simp add: reached_def teardown_endpoint_def stop_listener_def notify_def Let_def)

lemma reached_teardowns: "reached (map (\<lambda>i. ByEndpoint i reason) is) [] [] is b (fold (teardown_endpoint reason) is b)"
proof (induction "is" arbitrary: b)
  case (Cons i "is")
  from reached_trans [OF reached_teardown Cons] show ?case by simp
qed simp

lemma reached_rotation: 
  "reached (map (\<lambda>c. ByConnection c (authority_change_as_str CredentialRotated)) (map conn_id cs)) (map (\<lambda>c. (conn_id c, wall)) cs) (map (\<lambda>c. (conn_id c, wall)) cs) []
     (fst bf) (fst (fold (\<lambda>c bf. close_sessions_of (conn_id c) CredentialRotated
       (apfst (revoke_elicitations wall (conn_id c) \<circ> revoke_windows wall (conn_id c)) bf)) cs bf))"
proof (induction cs arbitrary: bf)
  case (Cons c cs)
  let ?b = "revoke_elicitations wall (conn_id c) (revoke_windows wall (conn_id c) (fst bf))"
  have "reached [ByConnection (conn_id c) (authority_change_as_str CredentialRotated)] [(conn_id c, wall)] [(conn_id c, wall)] [] (fst bf)
      (fst (close_sessions_of (conn_id c) CredentialRotated (?b, snd bf)))"
    using reached_trans [OF reached_trans [OF reached_steps(1) reached_steps(2)] reached_steps(3)] by fastforce
  from reached_trans [OF this Cons] show ?case by (simp add: apfst_def map_prod_def case_prod_beta)
qed simp

lemma close_sessions_of_fields [simp]:
  "br_domain (fst (close_sessions_of c a bf)) = br_domain (fst bf)"
  "br_plane (fst (close_sessions_of c a bf)) = cut_plane (ByConnection c (authority_change_as_str a)) (br_plane (fst bf))"
  "br_approvals (fst (close_sessions_of c a bf)) = br_approvals (fst bf)"
  "br_elicitations (fst (close_sessions_of c a bf)) = br_elicitations (fst bf)"
  "br_listeners (fst (close_sessions_of c a bf)) = br_listeners (fst bf)"
  by (simp_all add: close_sessions_of_def split: prod.split)

lemma teardown_ids_fields [simp]:
  "br_domain (fst (teardown_endpoint_ids a is bf)) = br_domain (fst bf)"
  "br_plane (fst (teardown_endpoint_ids a is bf)) = fold cut_plane (map (\<lambda>i. ByEndpoint i (authority_change_as_str a)) is) (br_plane (fst bf))"
  "br_approvals (fst (teardown_endpoint_ids a is bf)) = br_approvals (fst bf)"
  "br_elicitations (fst (teardown_endpoint_ids a is bf)) = br_elicitations (fst bf)"
  "br_listeners (fst (teardown_endpoint_ids a is bf)) = fold removeAll is (br_listeners (fst bf))"
  using reached_teardowns [of "authority_change_as_str a" "is" "fst bf"] by (simp_all add: reached_def teardown_endpoint_ids_def case_prod_beta)

lemmas effect_defs = notify_def revoke_windows_def revoke_elicitations_def window_cut_def elicitation_cut_def

lemma reached_event:
  "reached (plane_cuts (br_domain b) k) (map (\<lambda>c. (c, wall)) (window_cuts (br_domain b) k)) (map (\<lambda>c. (c, wall)) (elicitation_cuts (br_domain b) k))
     (listener_cuts k) b (fst (apply_event wall k (b, fx)))"
proof (cases k)
  case (CredentialChangedEvent i replaced n)
  let ?cs = "filter (\<lambda>c. i \<in> set (conn_secrets c)) (ix_connections (st_index (dr_store (br_domain b))))"
  let ?b = "(if n > 0 then notify ConnectionsChanged else id) (notify SecretsChanged b)"
  have d: "br_domain ?b = br_domain b" "\<And>ps ws es ls x. reached ps ws es ls ?b x = reached ps ws es ls b x" by (simp_all add: notify_def reached_def)
  show ?thesis using reached_rotation [where wall = wall and cs = ?cs and bf = "(?b, fx)"] d
    by (auto simp: CredentialChangedEvent apply_event_def credential_changed_def rotate_credential_def bound_connections_def Let_def comp_def)
next
  case (ConnectionChangedEvent c capability moved removed)
  show ?thesis
    by (simp add: ConnectionChangedEvent apply_event_def connection_changed_def reached_def effect_defs Let_def)
next
  case (ConnectionDeletedEvent c policy removed)
  show ?thesis
    by (simp add: ConnectionDeletedEvent apply_event_def connection_deleted_def reached_def effect_defs Let_def)
next
  case (ConnectionCreatedEvent c created)
  show ?thesis by (simp add: ConnectionCreatedEvent apply_event_def reached_def effect_defs)
next
  case (PolicyChangedEvent c ch)
  show ?thesis by (cases ch) (simp_all add: PolicyChangedEvent apply_event_def policy_changed_def reached_def effect_defs)
qed

abbreviation outbox_plane_cuts :: "'v domain_repository \<Rightarrow> outbox_event list \<Rightarrow> plane_cut list" where
  "outbox_plane_cuts d obs \<equiv> concat (map (\<lambda>x. plane_cuts d (ob_kind x)) obs)"

abbreviation outbox_window_cuts :: "'v domain_repository \<Rightarrow> datetime \<Rightarrow> outbox_event list \<Rightarrow> (uuid \<times> datetime) list" where
  "outbox_window_cuts d wall obs \<equiv> concat (map (\<lambda>x. map (\<lambda>c. (c, wall)) (window_cuts d (ob_kind x))) obs)"

abbreviation outbox_elicitation_cuts :: "'v domain_repository \<Rightarrow> datetime \<Rightarrow> outbox_event list \<Rightarrow> (uuid \<times> datetime) list" where
  "outbox_elicitation_cuts d wall obs \<equiv> concat (map (\<lambda>x. map (\<lambda>c. (c, wall)) (elicitation_cuts d (ob_kind x))) obs)"

abbreviation outbox_listener_cuts :: "outbox_event list \<Rightarrow> uuid list" where
  "outbox_listener_cuts obs \<equiv> concat (map (\<lambda>x. listener_cuts (ob_kind x)) obs)"

lemma reached_events:
  "reached (outbox_plane_cuts (br_domain b) obs) (outbox_window_cuts (br_domain b) wall obs) (outbox_elicitation_cuts (br_domain b) wall obs)
     (outbox_listener_cuts obs) b (fst (fold (apply_event wall \<circ> ob_kind) obs (b, fx)))"
proof (induction obs arbitrary: b fx)
  case (Cons x obs)
  obtain b' fx' where s: "apply_event wall (ob_kind x) (b, fx) = (b', fx')" by fastforce
  note one = reached_event [where b = b and k = "ob_kind x" and wall = wall and fx = fx, unfolded s fst_conv]
  then have "br_domain b' = br_domain b" by (simp add: reached_def)
  with reached_trans [OF one Cons [of b' fx']] show ?case by (simp add: s)
qed simp

lemma reached_outbox:
  "reached (outbox_plane_cuts (br_domain b) obs) (outbox_window_cuts (br_domain b) wall obs) (outbox_elicitation_cuts (br_domain b) wall obs)
     (outbox_listener_cuts obs) b (fst (apply_domain_outbox wall obs b))"
  by (simp add: apply_domain_outbox_def reached_events)

lemma apply_outbox_domain [simp]: "br_domain (fst (apply_domain_outbox wall obs b)) = br_domain b"
  using reached_outbox [where b = b and obs = obs and wall = wall] by (simp add: reached_def)

text \<open>The parts of the broker that decide what is authorized.\<close>

definition runtime :: "'v broker \<Rightarrow> 'v domain_repository \<times> data_plane \<times> approvals \<times> elicitations \<times> uuid list" where
  "runtime b = (br_domain b, br_plane b, br_approvals b, br_elicitations b, br_listeners b)"

lemma removeAll_twice: "set js \<subseteq> set is \<Longrightarrow> fold removeAll js (fold removeAll is xs) = fold removeAll is xs"
proof (induction js)
  case (Cons j js)
  have "j \<notin> set (fold removeAll is xs)" if "j \<in> set is" for j
  proof -
    have "set (fold removeAll is xs) = set xs - set is" by (induction "is" arbitrary: xs) auto
    with that show ?thesis by simp
  qed
  with Cons show ?case by simp
qed simp

text \<open>
  C14. Events may be delivered again: applying any of the events a second time, at any later moment, leaves the data plane, the
  approvals, the elicitations and the listeners as they are, as the handlers promise.
\<close>

theorem outbox_redelivery_harmless:
  assumes "hm_wf (sessions (br_plane b))" and "set again \<subseteq> set obs"
  shows "runtime (fst (apply_domain_outbox later again (fst (apply_domain_outbox wall obs b)))) = runtime (fst (apply_domain_outbox wall obs b))"
proof -
  let ?b = "fst (apply_domain_outbox wall obs b)"
  note first = reached_outbox [where b = b and obs = obs and wall = wall, unfolded reached_def]
  note second = reached_outbox [where b = ?b and obs = again and wall = later, unfolded reached_def]
  have d: "br_domain ?b = br_domain b" using first by simp
  have "fold cut_plane (outbox_plane_cuts (br_domain b) again) (br_plane ?b) = br_plane ?b"
    unfolding first [THEN conjunct2, THEN conjunct1] by (rule plane_withdrawal.cuts_twice) (use assms in auto)
  moreover have "fold window_cut (outbox_window_cuts (br_domain b) later again) (br_approvals ?b) = br_approvals ?b"
  proof (rule windows_withdrawal.idle_cuts)
    fix cw assume "cw \<in> set (outbox_window_cuts (br_domain b) later again)"
    then have "(fst cw, wall) \<in> set (outbox_window_cuts (br_domain b) wall obs)" using assms(2) by (fastforce simp: image_iff)
    from windows_withdrawal.quiet_cuts [OF TrueI this] show "windows_quiet (fst cw) (br_approvals ?b)" using first by simp
  qed simp
  moreover have "fold elicitation_cut (outbox_elicitation_cuts (br_domain b) later again) (br_elicitations ?b) = br_elicitations ?b"
  proof (rule elicitations_withdrawal.idle_cuts)
    fix cw assume "cw \<in> set (outbox_elicitation_cuts (br_domain b) later again)"
    then have "(fst cw, wall) \<in> set (outbox_elicitation_cuts (br_domain b) wall obs)" using assms(2) by (fastforce simp: image_iff)
    from elicitations_withdrawal.quiet_cuts [OF TrueI this] show "elicitations_quiet (fst cw) (br_elicitations ?b)" using first by simp
  qed simp
  moreover have "fold removeAll (outbox_listener_cuts again) (br_listeners ?b) = br_listeners ?b"
    using removeAll_twice [of "outbox_listener_cuts again" "outbox_listener_cuts obs" "br_listeners b"] assms(2) first by (auto simp: image_iff)
  ultimately show ?thesis using second d by (simp add: runtime_def)
qed

subsection \<open>What the domain commits\<close>

lemma commit_index_ok: "commit_index nxt s = (Inr u, s') \<Longrightarrow> st_index s' = nxt \<and> st_disk s' = nxt"
  by (auto simp: commit_index_def split: prod.splits sum.splits dest: persist_index_ok)

lemma vault_delete_all_files: "st_index (vault_delete_all V is s) = st_index s \<and> st_disk (vault_delete_all V is s) = st_disk s"
  by (induction "is" arbitrary: s) (auto simp: vault_delete_all_def vault_delete_def split: prod.split)

lemma store_delete_connection_ok:
  assumes "delete_connection V i s = (Inr c, s')"
  shows "List.find (\<lambda>c. conn_id c = i) (ix_connections (st_index s)) = Some c \<and>
    st_index s' = (st_index s)\<lparr>ix_connections := remove_first (\<lambda>c. conn_id c = i) (ix_connections (st_index s))\<rparr> \<and> st_disk s' = st_index s'"
  using assms
  by (auto simp: delete_connection_def vault_delete_all_files split: option.splits prod.splits sum.splits dest!: commit_index_ok)

lemma remove_endpoints_ok:
  assumes "remove_endpoints_for_connection fault c r = (Inr es, r')"
  shows "endpoints r' = filter (\<lambda>e. ep_connection_id e \<noteq> c) (endpoints r) \<and> es = filter (\<lambda>e. ep_connection_id e = c) (endpoints r)"
  using assms by (auto simp: remove_endpoints_for_connection_def Let_def filter_empty_conv filter_id_conv dest!: commit_endpoints_Ok split: if_splits)

lemma remove_access_ok:
  assumes "remove_for_connection w c t d = (Inr x, t', d')"
  shows "entries t' = filter (\<lambda>e. connection_id e \<noteq> c) (entries t)"
proof (cases "length (filter (\<lambda>e. connection_id e \<noteq> c) (entries t)) = length (entries t)")
  case True
  then have "filter (\<lambda>e. connection_id e \<noteq> c) (entries t) = entries t" 
    using length_filter_less [of _ "entries t" "\<lambda>e. connection_id e \<noteq> c"] by (fastforce simp: filter_id_conv)
  with assms True show ?thesis by (auto simp: remove_for_connection_def Let_def)
next
  case False
  with assms show ?thesis by (auto simp: remove_for_connection_def Let_def dest: commit_entries_Ok)
qed

lemma drop_endpoints_ok:
  assumes "drop_endpoints E i d = (Inr is, d')"
  shows "d' = d\<lparr>dr_endpoints := dr_endpoints d'\<rparr> \<and> endpoints (dr_endpoints d') = filter (\<lambda>e. ep_connection_id e \<noteq> i) (endpoints (dr_endpoints d)) \<and>
    is = map ep_id (filter (\<lambda>e. ep_connection_id e = i) (endpoints (dr_endpoints d)))"
  using assms
  by (auto simp: drop_endpoints_def chain_def on_endpoints_def return_def split: prod.splits sum.splits dest!: remove_endpoints_ok)

lemma domain_delete_ok:
  assumes "domain_delete_connection E i x d = (Inr cm, d')"
  obtains c policy gone where
    "catalog_connection i d = Inr c" "de_version E c = x" "delete_connection (de_vault E) i (dr_store d) = (Inr c, dr_store d')"
    "ix_connections (st_index (dr_store d')) = remove_first (\<lambda>c. conn_id c = i) (ix_connections (st_index (dr_store d)))"
    "st_disk (dr_store d') = st_index (dr_store d')"
    "entries (dr_access d') = filter (\<lambda>e. connection_id e \<noteq> i) (entries (dr_access d))"
    "endpoints (dr_endpoints d') = filter (\<lambda>e. ep_connection_id e \<noteq> i) (endpoints (dr_endpoints d))"
    "gone = map ep_id (filter (\<lambda>e. ep_connection_id e = i) (endpoints (dr_endpoints d)))"
    "dl_connection (dc_value cm) = c" "map ob_kind (dc_outbox cm) = [ConnectionDeletedEvent i policy gone]"
proof -
  obtain c0 where c0: "catalog_connection i d = Inr c0" "de_version E c0 = x"
    and rest: "chain (on_store (delete_connection (de_vault E) i)) (\<lambda>c.
            chain (on_access (remove_for_connection (de_access_write E) i)) (\<lambda>policy_removed.
            chain (drop_endpoints E i) (\<lambda>removed.
            return (commit_one E \<lparr>dl_connection = c, dl_policy_removed = policy_removed, dl_removed_endpoints = removed\<rparr>
              (ConnectionDeletedEvent i policy_removed removed))))) d = (Inr cm, d')"
    using assms by (auto simp: domain_delete_connection_def split: sum.splits if_splits)
  obtain c s1 where s: "delete_connection (de_vault E) i (dr_store d) = (Inr c, s1)"
    and r1: "chain (on_access (remove_for_connection (de_access_write E) i)) (\<lambda>policy_removed.
            chain (drop_endpoints E i) (\<lambda>removed.
            return (commit_one E \<lparr>dl_connection = c, dl_policy_removed = policy_removed, dl_removed_endpoints = removed\<rparr>
              (ConnectionDeletedEvent i policy_removed removed)))) (d\<lparr>dr_store := s1\<rparr>) = (Inr cm, d')"
    using rest by (auto simp: chain_def [of "on_store f" for f] on_store_def split: prod.splits sum.splits)
  obtain p t k where p: "remove_for_connection (de_access_write E) i (dr_access d) (dr_disk d) = (Inr p, t, k)"
    and r2: "chain (drop_endpoints E i) (\<lambda>removed.
            return (commit_one E \<lparr>dl_connection = c, dl_policy_removed = p, dl_removed_endpoints = removed\<rparr>
              (ConnectionDeletedEvent i p removed))) (d\<lparr>dr_store := s1, dr_access := t, dr_disk := k\<rparr>) = (Inr cm, d')"
    using r1 by (auto simp: chain_def [of "on_access f" for f] on_access_def split: prod.splits sum.splits)
  obtain "is" where e: "drop_endpoints E i (d\<lparr>dr_store := s1, dr_access := t, dr_disk := k\<rparr>) = (Inr is, d')"
    and cm: "cm = commit_one E \<lparr>dl_connection = c, dl_policy_removed = p, dl_removed_endpoints = is\<rparr> (ConnectionDeletedEvent i p is)"
    using r2 by (auto simp: chain_def return_def split: prod.splits sum.splits)
  have "c0 = c" using c0(1) store_delete_connection_ok [OF s] by (simp add: catalog_connection_def connection_by_id_def)
  moreover obtain r where "d' = d\<lparr>dr_store := s1, dr_access := t, dr_disk := k, dr_endpoints := r\<rparr>" using drop_endpoints_ok [OF e] by fastforce
  then have "dr_store d' = s1" "dr_access d' = t" by simp_all
  ultimately show ?thesis
    using that [of c "is" p] c0 s store_delete_connection_ok [OF s] remove_access_ok [OF p] drop_endpoints_ok [OF e] by (simp add: cm commit_one_def)
qed

subsection \<open>Actions that take authority away\<close>

lemma log_action_fields [simp]:
  "br_domain (log_action e b) = br_domain b" "br_plane (log_action e b) = br_plane b" "br_approvals (log_action e b) = br_approvals b"
  "br_elicitations (log_action e b) = br_elicitations b" "br_listeners (log_action e b) = br_listeners b"
  by (simp_all add: log_action_def)

lemma commit_action_ok:
  assumes "commit_action E f b = (Inr (x, fx), b')"
  obtains cm d where "f (br_domain b) = (Inr cm, d)" "x = dc_value cm"
    "b' = fst (apply_domain_outbox (de_clock E 4) (dc_outbox cm) (b\<lparr>br_domain := d\<rparr>))"
    "fx = snd (apply_domain_outbox (de_clock E 4) (dc_outbox cm) (b\<lparr>br_domain := d\<rparr>))"
  using assms by (auto simp: commit_action_def split: prod.splits sum.splits)

lemma commit_action_err:
  assumes "commit_action E f b = (Inl e, b')"
  shows "\<exists>d. f (br_domain b) = (Inl e, d) \<and> b' = b\<lparr>br_domain := d\<rparr>"
  using assms by (auto simp: commit_action_def split: prod.splits sum.splits)

text \<open>Nothing that was handed out for the connection works any more.\<close>

definition cut_off :: "uuid \<Rightarrow> 'v broker \<Rightarrow> bool" where
  "cut_off c b \<longleftrightarrow> plane_quiet c (br_plane b) \<and> windows_quiet c (br_approvals b) \<and> elicitations_quiet c (br_elicitations b)"

lemma outbox_effect:
  assumes "map ob_kind obs = [k]" and "hm_wf (sessions (br_plane b))" and "b' = fst (apply_domain_outbox wall obs b)"
  shows "br_domain b' = br_domain b" "hm_wf (sessions (br_plane b'))"
    "ByConnection c r \<in> set (plane_cuts (br_domain b) k) \<Longrightarrow> plane_quiet c (br_plane b')"
    "ByEndpoint i r \<in> set (plane_cuts (br_domain b) k) \<Longrightarrow> endpoint_quiet i (br_plane b')"
    "c \<in> set (window_cuts (br_domain b) k) \<Longrightarrow> windows_quiet c (br_approvals b')"
    "c \<in> set (elicitation_cuts (br_domain b) k) \<Longrightarrow> elicitations_quiet c (br_elicitations b')"
    "i \<in> set (listener_cuts k) \<Longrightarrow> i \<notin> set (br_listeners b')"
proof -
  obtain x where x: "obs = [x]" "ob_kind x = k" using assms(1) by (cases obs) auto
  note f = reached_outbox [where b = b and obs = obs and wall = wall, folded assms(3), unfolded reached_def x, simplified, unfolded x]
  show "br_domain b' = br_domain b" using f by simp
  show "hm_wf (sessions (br_plane b'))" using f plane_withdrawal.ok_cuts [OF assms(2)] by simp
  show "plane_quiet c (br_plane b')" if "ByConnection c r \<in> set (plane_cuts (br_domain b) k)"
    using plane_withdrawal.quiet_cuts [OF assms(2) that] f by simp
  show "endpoint_quiet i (br_plane b')" if "ByEndpoint i r \<in> set (plane_cuts (br_domain b) k)"
    using plane_withdrawal.quiet_cuts [OF assms(2) that] f by simp
  show "windows_quiet c (br_approvals b')" if "c \<in> set (window_cuts (br_domain b) k)"
    using windows_withdrawal.quiet_cuts [OF TrueI, of "(c, wall)" "map (\<lambda>c. (c, wall)) (window_cuts (br_domain b) k)"] that f by simp
  show "elicitations_quiet c (br_elicitations b')" if "c \<in> set (elicitation_cuts (br_domain b) k)"
    using elicitations_withdrawal.quiet_cuts [OF TrueI, of "(c, wall)" "map (\<lambda>c. (c, wall)) (elicitation_cuts (br_domain b) k)"] that f by simp
  have "set (fold removeAll is xs) = set xs - set is" for "is" xs :: "uuid list" by (induction "is" arbitrary: xs) auto
  then show "i \<notin> set (br_listeners b')" if "i \<in> set (listener_cuts k)" using that f by simp
qed

lemma removed_not_found:
  assumes "distinct (map conn_id cs)"
  shows "List.find (\<lambda>c. conn_id c = i) (remove_first (\<lambda>c. conn_id c = i) cs) = None"
  using assms by (induction cs) (auto simp: find_None_iff image_iff)

text \<open>
  C10. Deleting a tool leaves nothing behind: the catalog, in memory and in its file, has no such tool, the access table no entry, no
  endpoint secret resolves to it and its listeners are gone; every ticket issued for it is invalid, every session it served is
  told to close, and no window, prompt or elicitation of it is open.
\<close>

theorem deleted_connection_cut_off:
  assumes "ui_delete_connection E seen i b = (Ok c, b')" and "hm_wf (sessions (br_plane b))"
    and "distinct (map conn_id (ix_connections (st_index (dr_store (br_domain b)))))"
  shows "cut_off i b' \<and> catalog_connection i (br_domain b') = Err ConnectionNotFound \<and>
    st_disk (dr_store (br_domain b')) = st_index (dr_store (br_domain b')) \<and> access_entry (dr_access (br_domain b')) i = None \<and>
    (\<forall>h now s e. resolve_secret h now s (dr_endpoints (br_domain b')) = Some e \<longrightarrow> ep_connection_id e \<noteq> i) \<and>
    (\<forall>e\<in>set (endpoints (dr_endpoints (br_domain b))). ep_connection_id e = i \<longrightarrow>
       ep_id e \<notin> set (br_listeners b') \<and> endpoint_quiet (ep_id e) (br_plane b'))"
proof -
  obtain c0 r fx b1 where c0: "catalog_connection i seen = Inr c0"
    and a: "commit_action E (domain_delete_connection E i (de_version E c0)) b = (Inr (r, fx), b1)"
    and b': "\<And>x. runtime (log_action x b1) = runtime b'"
    using assms(1) by (auto simp: ui_delete_connection_def runtime_def split: sum.splits prod.splits)
  obtain cm d where d: "domain_delete_connection E i (de_version E c0) (br_domain b) = (Inr cm, d)"
    and b1: "b1 = fst (apply_domain_outbox (de_clock E 4) (dc_outbox cm) (b\<lparr>br_domain := d\<rparr>))"
    using commit_action_ok [OF a] by metis
  obtain cc policy gone where f: "ix_connections (st_index (dr_store d)) = remove_first (\<lambda>c. conn_id c = i) (ix_connections (st_index (dr_store (br_domain b))))"
      "st_disk (dr_store d) = st_index (dr_store d)" "entries (dr_access d) = filter (\<lambda>e. connection_id e \<noteq> i) (entries (dr_access (br_domain b)))"
      "endpoints (dr_endpoints d) = filter (\<lambda>e. ep_connection_id e \<noteq> i) (endpoints (dr_endpoints (br_domain b)))"
      "gone = map ep_id (filter (\<lambda>e. ep_connection_id e = i) (endpoints (dr_endpoints (br_domain b))))"
      "map ob_kind (dc_outbox cm) = [ConnectionDeletedEvent i policy gone]"
    by (rule domain_delete_ok [OF d])
  have wf: "hm_wf (sessions (br_plane (b\<lparr>br_domain := d\<rparr>)))" using assms(2) by simp
  note e = outbox_effect [OF f(6) wf b1]
  have "cut_off i b1" unfolding cut_off_def using e(3) [of i "authority_change_as_str AuthorityConnectionDeleted"] e(5,6) by simp
  moreover have "ep_id x \<notin> set (br_listeners b1) \<and> endpoint_quiet (ep_id x) (br_plane b1)"
    if "x \<in> set (endpoints (dr_endpoints (br_domain b)))" "ep_connection_id x = i" for x
    using that e(7) [of "ep_id x"] e(4) [of "ep_id x" "authority_change_as_str AuthorityConnectionDeleted"] f(5) by auto
  moreover have "br_domain b1 = d" using e(1) by simp
  moreover
have "List.find (\<lambda>c. conn_id c = i) (ix_connections (st_index (dr_store d))) = None" using f(1) removed_not_found [OF assms(3)] by simp
  then have "catalog_connection i d = Err ConnectionNotFound" by (simp add: catalog_connection_def connection_by_id_def)
  moreover have "access_entry (dr_access d) i = None" using f(3) by (auto simp: access_entry_def find_None_iff)
  moreover have "\<forall>h now s e. resolve_secret h now s (dr_endpoints d) = Some e \<longrightarrow> ep_connection_id e \<noteq> i"
    using f(4) by (auto simp: resolve_secret_def dest!: find_SomeD)
  ultimately show ?thesis using b' f(2) by (auto simp: runtime_def cut_off_def)
qed

lemma domain_update_policy_ok:
  assumes "domain_update_policy E u d = (Inr cm, d')"
  shows "\<exists>c. catalog_connection (pu_connection u) d = Inr c \<and>
    (\<forall>x. pu_expected_version u = Some x \<longrightarrow> de_version E c = x) \<and>
    (\<forall>x. pu_expected u = Some x \<longrightarrow> current_policy_value (dr_access d) (pu_connection u) x = x) \<and>
    policy_written (dr_access d) (pu_connection u) (pu_change u) (dr_access d') \<and> dr_store d' = dr_store d \<and> dr_endpoints d' = dr_endpoints d \<and>
    pr_connection (dc_value cm) = c \<and> (pr_changed (dc_value cm) \<longleftrightarrow> current_policy_value (dr_access d) (pu_connection u) (pu_change u) \<noteq> pu_change u) \<and>
    map ob_kind (dc_outbox cm) = (if pr_changed (dc_value cm) then [PolicyChangedEvent (pu_connection u) (pu_change u)] else [])"
proof -
  obtain c where c: "catalog_connection (pu_connection u) d = Inr c"
      "\<forall>x. pu_expected_version u = Some x \<longrightarrow> de_version E c = x"
      "\<forall>x. pu_expected u = Some x \<longrightarrow> current_policy_value (dr_access d) (pu_connection u) x = x"
    and rest: "chain (on_access (apply_policy_change (de_access_write E) (de_clock E 0) (pu_connection u) (pu_change u))) (\<lambda>changed.
            return (let r = \<lparr>pr_connection = c, pr_changed = changed, pr_change = pu_change u\<rparr> in
              if changed then commit_one E r (PolicyChangedEvent (pu_connection u) (pu_change u)) else without_event r)) d = (Inr cm, d')"
    using assms by (auto simp: domain_update_policy_def split: sum.splits if_splits option.splits)
  obtain changed t k where a: "apply_policy_change (de_access_write E) (de_clock E 0) (pu_connection u) (pu_change u) (dr_access d) (dr_disk d) = (Inr changed, t, k)"
    and r: "d' = d\<lparr>dr_access := t, dr_disk := k\<rparr>" "cm = (let r = \<lparr>pr_connection = c, pr_changed = changed, pr_change = pu_change u\<rparr> in
              if changed then commit_one E r (PolicyChangedEvent (pu_connection u) (pu_change u)) else without_event r)"
    using rest by (auto simp: chain_def on_access_def return_def split: prod.splits sum.splits)
  show ?thesis using c r apply_policy_change_Ok [OF a] by (auto simp: commit_one_def without_event_def Let_def)
qed

definition is_tools :: "policy_change \<Rightarrow> bool" where
  "is_tools ch \<longleftrightarrow> (case ch of ToolsChange _ \<Rightarrow> True | _ \<Rightarrow> False)"

text \<open>What every successful policy action did before its own epilogue; \<open>b1\<close> is the broker after the outbox.\<close>

lemma ui_policy_ok:
  assumes "ui_policy E seen i ch after b = (Inr changed, b')" and "hm_wf (sessions (br_plane b))"
  obtains c c0 fx b1 where "b' = after c changed fx b1" "catalog_connection i (br_domain b) = Inr c" "catalog_connection i seen = Inr c0"
    "de_version E c = de_version E c0" "current_policy_value (dr_access (br_domain b)) i ch = current_policy_value (dr_access seen) i ch"
    "policy_written (dr_access (br_domain b)) i ch (dr_access (br_domain b1))" "dr_store (br_domain b1) = dr_store (br_domain b)"
    "dr_endpoints (br_domain b1) = dr_endpoints (br_domain b)" "changed \<longleftrightarrow> current_policy_value (dr_access (br_domain b)) i ch \<noteq> ch"
    "hm_wf (sessions (br_plane b1))"
    "changed \<Longrightarrow> ch = EnabledChange False \<Longrightarrow> cut_off i b1" "changed \<Longrightarrow> is_tools ch \<Longrightarrow> windows_quiet i (br_approvals b1)"
    "\<not> changed \<Longrightarrow> runtime b1 = runtime (b\<lparr>br_domain := br_domain b1\<rparr>)"
proof -
  obtain c0 where c0: "catalog_connection i seen = Inr c0"
    using assms(1) by (auto simp: ui_policy_def policy_update_of_def split: sum.splits)
  let ?u = "\<lparr>pu_connection = i, pu_expected_version = Some (de_version E c0), pu_expected = Some (current_policy_value (dr_access seen) i ch), pu_change = ch\<rparr>"
  obtain r fx b1 where a: "commit_action E (domain_update_policy E ?u) b = (Inr (r, fx), b1)" "changed = pr_changed r" "b' = after (pr_connection r) (pr_changed r) fx b1"
    using assms(1) by (auto simp: ui_policy_def policy_update_of_def c0 split: sum.splits prod.splits)
  obtain cm d where d: "domain_update_policy E ?u (br_domain b) = (Inr cm, d)" "r = dc_value cm"
    and b1: "b1 = fst (apply_domain_outbox (de_clock E 4) (dc_outbox cm) (b\<lparr>br_domain := d\<rparr>))"
    using commit_action_ok [OF a(1)] by metis
  note f = domain_update_policy_ok [OF d(1), simplified]
  have wf: "hm_wf (sessions (br_plane (b\<lparr>br_domain := d\<rparr>)))" using assms(2) by simp
  show ?thesis
  proof (cases changed)
    case True
    then have k: "map ob_kind (dc_outbox cm) = [PolicyChangedEvent i ch]" using f a(2) d(2) by auto
    note e = outbox_effect [OF k wf b1]
    have "cut_off i b1" if "ch = EnabledChange False"
      unfolding cut_off_def using that e(3) [of i "authority_change_as_str AccessDisabled"] e(5) [of i] e(6) [of i] by simp
    moreover have "windows_quiet i (br_approvals b1)" if "is_tools ch" using that e(5) [of i] by (cases ch) (simp_all add: is_tools_def)
    ultimately show ?thesis using that [of "pr_connection r" fx b1 c0] f c0 a(2,3) d(2) e(1,2) True by auto
  next
    case False
    then have "dc_outbox cm = []" using f a(2) d(2) by auto
    then have "b1 = b\<lparr>br_domain := d\<rparr>" using b1 by (simp add: apply_domain_outbox_def)
    then show ?thesis using that [of "pr_connection r" fx b1 c0] f c0 a(2,3) d(2) wf False by (auto simp: runtime_def)
  qed
qed

lemma ui_set_tool_access_form:
  obtains after where "ui_set_tool_access E seen i False = ui_policy E seen i (EnabledChange False) after"
    "\<And>c changed fx b. br_domain (after c changed fx b) = br_domain b \<and> br_plane (after c changed fx b) = br_plane b \<and>
       windows_quiet i (br_approvals (after c changed fx b)) \<and> elicitations_quiet i (br_elicitations (after c changed fx b))"
  by (rule that [OF ui_set_tool_access_def])
    (simp add: Let_def revoke_windows_def revoke_elicitations_def revoke_approvals_quiet el_revoke_quiet)

text \<open>
  C11. Switching a tool off ends its use: on success the tool is disabled and nothing else in the access table changes; its windows,
  prompts and elicitations are gone; and if it was enabled before, its tickets are invalid and its sessions told to close. The
  switch takes effect only if the tool still has the version that was read (the hash over its record) and its setting still has
  the value that was read; otherwise the action does not succeed.
\<close>

theorem disabled_tool_cut_off:
  assumes "ui_set_tool_access E seen i False b = (Ok changed, b')" and "hm_wf (sessions (br_plane b))"
  shows "\<not> allows (dr_access (br_domain b')) i \<and> policy_written (dr_access (br_domain b)) i (EnabledChange False) (dr_access (br_domain b')) \<and>
    dr_store (br_domain b') = dr_store (br_domain b) \<and> (changed \<longleftrightarrow> allows (dr_access (br_domain b)) i) \<and>
    (\<exists>c c0. catalog_connection i (br_domain b) = Ok c \<and> catalog_connection i seen = Ok c0 \<and> de_version E c = de_version E c0) \<and>
    allows (dr_access seen) i = allows (dr_access (br_domain b)) i \<and>
    windows_quiet i (br_approvals b') \<and> elicitations_quiet i (br_elicitations b') \<and> (changed \<longrightarrow> plane_quiet i (br_plane b'))"
proof -
  obtain after where after: "ui_set_tool_access E seen i False = ui_policy E seen i (EnabledChange False) after"
    "\<And>c changed fx b. br_domain (after c changed fx b) = br_domain b \<and> br_plane (after c changed fx b) = br_plane b \<and>
       windows_quiet i (br_approvals (after c changed fx b)) \<and> elicitations_quiet i (br_elicitations (after c changed fx b))"
    by (rule ui_set_tool_access_form) blast
  from assms(1) have u: "ui_policy E seen i (EnabledChange False) after b = (Inr changed, b')" by (simp add: after(1))
  obtain c c0 fx b1 where b': "b' = after c changed fx b1"
    and v: "catalog_connection i (br_domain b) = Inr c" "catalog_connection i seen = Inr c0" "de_version E c = de_version E c0"
    and f: "current_policy_value (dr_access (br_domain b)) i (EnabledChange False) = current_policy_value (dr_access seen) i (EnabledChange False)"
      "policy_written (dr_access (br_domain b)) i (EnabledChange False) (dr_access (br_domain b1))"
      "dr_store (br_domain b1) = dr_store (br_domain b)" "changed \<longleftrightarrow> current_policy_value (dr_access (br_domain b)) i (EnabledChange False) \<noteq> EnabledChange False"
      "changed \<Longrightarrow> cut_off i b1"
    using ui_policy_ok [OF u assms(2)] by metis
  have "br_domain b' = br_domain b1" "br_plane b' = br_plane b1" "windows_quiet i (br_approvals b')" "elicitations_quiet i (br_elicitations b')"
    unfolding b' using after(2) by simp_all
  then show ?thesis using f v by (auto simp: current_policy_value_def policy_written_def cut_off_def)
qed

text \<open>
  A policy action is a compare-and-set: if the tool was edited, or the setting changed, after the user saw it, the action is refused
  and changes nothing.
\<close>

theorem stale_policy_refused:
  assumes "catalog_connection i seen = Ok c0" and "catalog_connection i (br_domain b) = Ok c"
    and "de_version E c \<noteq> de_version E c0 \<or> current_policy_value (dr_access (br_domain b)) i ch \<noteq> current_policy_value (dr_access seen) i ch"
  shows "ui_policy E seen i ch after b = (Err ApprovalConnectionChanged, b)"
  using assms by (auto simp: ui_policy_def policy_update_of_def commit_action_def domain_update_policy_def)

lemma write_connection_ok:
  assumes "write_connection E u capability d = (Inr (c, moved), d')" and "catalog_connection (cu_id u) d = Inr old"
  shows "d' = d\<lparr>dr_store := dr_store d'\<rparr> \<and> (moved \<longrightarrow> capability) \<and>
    (moved \<longleftrightarrow> conn_target c \<noteq> conn_target old \<or> ssh_host_key_changed (conn_config old) (conn_config c))"
proof -
  have old: "List.find (\<lambda>c. conn_id c = cu_id u) (ix_connections (st_index (dr_store d))) = Some old"
    using assms(2) by (auto simp: catalog_connection_def connection_by_id_def split: option.splits)
  show ?thesis
  proof (cases capability)
    case True
    then obtain s1 where s: "update_connection_inner (de_store E) (de_version E) (de_clock E 0) (cu_id u) (cu_expected u) (cu_spec u) (dr_store d) = (Inr (c, moved), s1)"
      and "d' = d\<lparr>dr_store := s1\<rparr>" using assms(1) by (auto simp: write_connection_def on_store_def split: prod.splits)
    moreover from s have "moved = (conn_target c \<noteq> conn_target old \<or> ssh_host_key_changed (conn_config old) (conn_config c))"
      by (rule update_connection_ok) (use old in auto)
    ultimately show ?thesis using True by simp
  next
    case False
    then obtain s1 where "rename_connection_inner (de_version E) (de_clock E 0) (cu_id u) (cu_expected u) (spec_name (cu_spec u)) (dr_store d) = (Inr c, s1)"
      "d' = d\<lparr>dr_store := s1\<rparr>" "\<not> moved" using assms(1) by (auto simp: write_connection_def chain_def on_store_def return_def split: prod.splits sum.splits)
    moreover from this(1) have "conn_config c = conn_config old"
      using old by (auto simp: rename_connection_inner_def Let_def split: sum.splits if_splits dest!: commit_with_ok)
    ultimately show ?thesis using False by (auto simp: conn_target_def ssh_host_key_changed_def split: connection_config.split)
  qed
qed

lemma domain_update_ok:
  assumes "domain_update_connection E u d = (Inr cm, d')"
  obtains old c moved gone where "catalog_connection (cu_id u) d = Inr old" "\<And>x. cu_expected u = Some x \<Longrightarrow> de_version E old = x"
    "moved \<longleftrightarrow> conn_target c \<noteq> conn_target old \<or> ssh_host_key_changed (conn_config old) (conn_config c)" "moved \<Longrightarrow> capability_differs old (cu_spec u)"
    "moved \<Longrightarrow> endpoints (dr_endpoints d') = filter (\<lambda>e. ep_connection_id e \<noteq> cu_id u) (endpoints (dr_endpoints d))"
    "moved \<Longrightarrow> gone = map ep_id (filter (\<lambda>e. ep_connection_id e = cu_id u) (endpoints (dr_endpoints d)))"
    "ur_connection (dc_value cm) = c" "dr_access d' = dr_access d"
    "map ob_kind (dc_outbox cm) = [ConnectionChangedEvent (cu_id u) (capability_differs old (cu_spec u)) moved gone]"
proof -
  obtain old where old: "catalog_connection (cu_id u) d = Inr old" "\<And>x. cu_expected u = Some x \<Longrightarrow> de_version E old = x"
    and rest: "chain (write_connection E u (capability_differs old (cu_spec u))) (\<lambda>(c, target_changed).
            chain (if target_changed then drop_endpoints E (cu_id u) else return []) (\<lambda>removed.
            return (commit_one E
              \<lparr>ur_previous = old, ur_connection = c, ur_capability_changed = capability_differs old (cu_spec u), ur_target_changed = target_changed,
               ur_removed_endpoints = removed\<rparr>
              (ConnectionChangedEvent (cu_id u) (capability_differs old (cu_spec u)) target_changed removed)))) d = (Inr cm, d')"
    using assms by (auto simp: domain_update_connection_def Let_def split: sum.splits if_splits option.splits)
  obtain c moved d1 where w: "write_connection E u (capability_differs old (cu_spec u)) d = (Inr (c, moved), d1)"
    and r: "chain (if moved then drop_endpoints E (cu_id u) else return []) (\<lambda>removed.
            return (commit_one E
              \<lparr>ur_previous = old, ur_connection = c, ur_capability_changed = capability_differs old (cu_spec u), ur_target_changed = moved,
               ur_removed_endpoints = removed\<rparr>
              (ConnectionChangedEvent (cu_id u) (capability_differs old (cu_spec u)) moved removed))) d1 = (Inr cm, d')"
    using rest by (auto simp: chain_def [of "write_connection E u x" for x] split: prod.splits sum.splits)
  note wf = write_connection_ok [OF w old(1)]
  then obtain s1 where d1: "d1 = d\<lparr>dr_store := s1\<rparr>" by blast
  show thesis
  proof (cases moved)
    case True
    obtain gone where g: "drop_endpoints E (cu_id u) d1 = (Inr gone, d')" and cm: "cm = commit_one E
              \<lparr>ur_previous = old, ur_connection = c, ur_capability_changed = capability_differs old (cu_spec u), ur_target_changed = moved,
               ur_removed_endpoints = gone\<rparr> (ConnectionChangedEvent (cu_id u) (capability_differs old (cu_spec u)) moved gone)"
      using r True by (auto simp: chain_def return_def split: prod.splits sum.splits)
    obtain r where "d' = d1\<lparr>dr_endpoints := r\<rparr>" using drop_endpoints_ok [OF g] by blast
    then show thesis using that [OF old, of moved c gone] wf drop_endpoints_ok [OF g] cm by (simp add: d1 commit_one_def)
  next
    case False
    then have "d' = d1" "cm = commit_one E
              \<lparr>ur_previous = old, ur_connection = c, ur_capability_changed = capability_differs old (cu_spec u), ur_target_changed = moved,
               ur_removed_endpoints = []\<rparr> (ConnectionChangedEvent (cu_id u) (capability_differs old (cu_spec u)) moved [])"
      using r by (auto simp: chain_def return_def)
    then show thesis using that [OF old, of moved c "[]"] wf False by (simp add: d1 commit_one_def)
  qed
qed

text \<open>
  C12. Repointing a tool cuts the old authority off: an edit is made only against the version the editor named; if it changes what the tool
  can do, its tickets are invalid and its sessions told to close; and if it changes the destination, no endpoint of the tool is
  left, their listeners and sessions are gone, and so are its windows, prompts and elicitations.
\<close>

theorem edited_connection_cut_off:
  assumes "ui_update_connection_inner E seen i expected spec b = (Ok c, b')" and "hm_wf (sessions (br_plane b))"
  shows "\<exists>old. catalog_connection i (br_domain b) = Ok old \<and> (\<forall>x. expected = Some x \<longrightarrow> de_version E old = x) \<and>
    (capability_differs old spec \<longrightarrow> plane_quiet i (br_plane b')) \<and>
    (conn_target c \<noteq> conn_target old \<or> ssh_host_key_changed (conn_config old) (conn_config c) \<longrightarrow>
       cut_off i b' \<and> (\<forall>h now s e. resolve_secret h now s (dr_endpoints (br_domain b')) = Some e \<longrightarrow> ep_connection_id e \<noteq> i) \<and>
       (\<forall>e\<in>set (endpoints (dr_endpoints (br_domain b))). ep_connection_id e = i \<longrightarrow>
          ep_id e \<notin> set (br_listeners b') \<and> endpoint_quiet (ep_id e) (br_plane b')))"
proof -
  obtain x where x: "expected = Some x \<or> expected = None"
    and x': "(case expected of Some x \<Rightarrow> Ok x | None \<Rightarrow> and_then (catalog_connection i seen) (\<lambda>c. Ok (de_version E c))) = Ok x"
    using assms(1) by (auto simp: ui_update_connection_inner_def split: sum.splits option.splits)
  let ?u = "\<lparr>cu_id = i, cu_expected = Some x, cu_spec = spec\<rparr>"
  obtain r fx b1 where a: "commit_action E (domain_update_connection E ?u) b = (Inr (r, fx), b1)" "c = ur_connection r"
    and b': "runtime b' = runtime b1"
    using assms(1) x' by (auto simp: ui_update_connection_inner_def runtime_def split: sum.splits prod.splits)
  obtain cm d where d: "domain_update_connection E ?u (br_domain b) = (Inr cm, d)" "r = dc_value cm"
    and b1: "b1 = fst (apply_domain_outbox (de_clock E 4) (dc_outbox cm) (b\<lparr>br_domain := d\<rparr>))"
    using commit_action_ok [OF a(1)] by metis
  obtain old moved gone where f: "catalog_connection i (br_domain b) = Inr old" "de_version E old = x"
      "moved \<longleftrightarrow> conn_target c \<noteq> conn_target old \<or> ssh_host_key_changed (conn_config old) (conn_config c)" "moved \<Longrightarrow> capability_differs old spec"
      "moved \<Longrightarrow> endpoints (dr_endpoints d) = filter (\<lambda>e. ep_connection_id e \<noteq> i) (endpoints (dr_endpoints (br_domain b)))"
      "moved \<Longrightarrow> gone = map ep_id (filter (\<lambda>e. ep_connection_id e = i) (endpoints (dr_endpoints (br_domain b))))"
      "map ob_kind (dc_outbox cm) = [ConnectionChangedEvent i (capability_differs old spec) moved gone]"
    by (rule domain_update_ok [OF d(1)]) (auto simp: a(2) d(2))
  have wf: "hm_wf (sessions (br_plane (b\<lparr>br_domain := d\<rparr>)))" using assms(2) by simp
  note e = outbox_effect [OF f(7) wf b1]
  have q: "plane_quiet i (br_plane b1)" if "capability_differs old spec"
    using e(3) [of i "authority_change_as_str AuthorityConnectionChanged"] that by simp
  moreover have "cut_off i b1" if moved using e(5) [of i] e(6) [of i] q f(4) that by (simp add: cut_off_def)
  moreover have "ep_id y \<notin> set (br_listeners b1) \<and> endpoint_quiet (ep_id y) (br_plane b1)"
    if moved "y \<in> set (endpoints (dr_endpoints (br_domain b)))" "ep_connection_id y = i" for y
    using that e(7) [of "ep_id y"] e(4) [of "ep_id y" "authority_change_as_str AuthorityConnectionChanged"] f(6) by auto
  moreover have "br_domain b1 = d" using e(1) by simp
  moreover have "\<forall>h now s y. resolve_secret h now s (dr_endpoints d) = Some y \<longrightarrow> ep_connection_id y \<noteq> i" if moved
    using f(5) [OF that] by (auto simp: resolve_secret_def dest!: find_SomeD)
  moreover have "\<forall>y. expected = Some y \<longrightarrow> x = y" using x' by auto
  ultimately show ?thesis using b' f(1-3) by (auto simp: runtime_def cut_off_def)
qed

lemma edit_credential_event:
  assumes "edit_credential E edit d = (Inr cm, d')" and "ce_value edit \<noteq> None"
  shows "\<exists>n. map ob_kind (dc_outbox cm) = [CredentialChangedEvent (ce_id edit) True n]"
proof -
  obtain old k m where "cm = edit_commit E edit (edit_result edit old k m)"
    using assms(1) by (auto simp: edit_credential_def chain_def return_def split: sum.splits option.splits prod.splits)
  then show ?thesis using assms(2) by (simp add: edit_commit_def edit_result_def commit_one_def)
qed

text \<open>
  C13. Replacing a credential's value ends what runs under the old one: once the edit is reported as done, every tool the credential is bound to has
  its tickets invalidated, its sessions told to close, and its windows, prompts and elicitations withdrawn.
\<close>

theorem rotated_credential_cut_off:
  assumes "ui_edit_credential N E seen i name (Some x) site user seed b = (Ok m, b')" and "hm_wf (sessions (br_plane b))"
    and "c \<in> set (ix_connections (st_index (dr_store (br_domain b'))))" and "i \<in> set (conn_secrets c)"
  shows "cut_off (conn_id c) b'"
proof -
  obtain edit where n: "edit_input N i name (Some x) site user seed = Ok edit"
    using assms(1) by (auto simp: ui_edit_credential_def split: sum.splits option.splits)
  then have edit: "ce_id edit = i" "ce_value edit = Some x"
    by (auto simp: edit_input_def and_then_def split: sum.splits)
  obtain r fx b1 where a: "commit_action E (edit_credential E edit) b = (Inr (r, fx), b1)" and b': "runtime b' = runtime b1"
    using assms(1) n by (auto simp: ui_edit_credential_def runtime_def split: sum.splits option.splits prod.splits if_splits)
  obtain cm d where d: "edit_credential E edit (br_domain b) = (Inr cm, d)"
    and b1: "b1 = fst (apply_domain_outbox (de_clock E 4) (dc_outbox cm) (b\<lparr>br_domain := d\<rparr>))"
    using commit_action_ok [OF a] by metis
  obtain n where k: "map ob_kind (dc_outbox cm) = [CredentialChangedEvent i True n]" using edit_credential_event [OF d] edit by auto
  have wf: "hm_wf (sessions (br_plane (b\<lparr>br_domain := d\<rparr>)))" using assms(2) by simp
  note e = outbox_effect [OF k wf b1]
  have "br_domain b' = d" using b' e(1) by (simp add: runtime_def)
  then have "conn_id c \<in> set (bound_connections i d)" using assms(3,4) by (auto simp: bound_connections_def)
  then have "cut_off (conn_id c) b1"
    unfolding cut_off_def using e(3) [of "conn_id c" "authority_change_as_str CredentialRotated"] e(5,6) [of "conn_id c"] by simp
  then show ?thesis using b' by (simp add: cut_off_def runtime_def)
qed

text \<open>
  But the stages of an edit commit one by one: an edit that replaces the value and asks to remove a second factor that is not there
  stores the new value, fails, and closes nothing, so that sessions go on under the old value.
\<close>

lemma rotation_reported_failed:
  assumes "replace_secret_value (de_vault E) (de_clock E 1) i x (dr_store (br_domain b)) = (Ok m, s)"
    and "secret_by_id i (st_index (dr_store (br_domain b))) = Ok m0" and "sm_kind m0 = Password" and "totp_vault_id m0 = None"
  shows "ui_edit_credential N E (br_domain b) i None (Some x) None None (Some []) b =
    (Err TotpNotConfigured, b\<lparr>br_domain := (br_domain b)\<lparr>dr_store := s\<rparr>\<rparr>)"
proof -
  let ?edit = "\<lparr>ce_id = i, ce_name = None, ce_value = Some x, ce_site = None, ce_username = None, ce_totp = Some None\<rparr>"
  have n: "edit_input N i None (Some x) None None (Some []) = Ok ?edit" by (simp add: edit_input_def transpose_def and_then_def trim_def)
  have f: "List.find (\<lambda>m. sm_id m = i) (ix_secrets (st_index (dr_store (br_domain b)))) = Some m0"
    using assms(2) by (simp add: secret_by_id_def split: option.splits)
  have l: "sm_source m0 = Local" using assms(1) f by (auto simp: replace_secret_value_def split: if_splits)
  have "st_index s = (st_index (dr_store (br_domain b)))\<lparr>ix_secrets := update_first (\<lambda>m. sm_id m = i) (\<lambda>m. m\<lparr>sm_updated_at := de_clock E 1\<rparr>)
      (ix_secrets (st_index (dr_store (br_domain b))))\<rparr>"
    using assms(1) f l by (auto simp: replace_secret_value_def Let_def rollback_index_def split: prod.splits sum.splits if_splits)
  then have "List.find (\<lambda>m. sm_id m = i) (ix_secrets (st_index s)) = Some (m0\<lparr>sm_updated_at := de_clock E 1\<rparr>)"
    using f by (simp add: find_update_first_same)
  then have t: "totp_stage E ?edit m ((br_domain b)\<lparr>dr_store := s\<rparr>) = (Err TotpNotConfigured, (br_domain b)\<lparr>dr_store := s\<rparr>)"
    using assms(3,4) l by (simp add: totp_stage_def on_store_def set_totp_factor_def)
  show ?thesis
    using assms(1-4) l t
    by (simp add: ui_edit_credential_def edit_refusal_def n commit_action_def edit_credential_def chain_def return_def
        rename_stage_def value_stage_def profile_stage_def on_store_def)
qed

text \<open>
  A deletion that fails half-way cannot be finished: if the access table cannot be written after the tool left the catalog, its tickets
  and sessions stay as they are, and deleting it again is refused because the catalog no longer has it.
\<close>

lemma deletion_stuck_half_way:
  assumes "catalog_connection i seen = Ok c" and "catalog_connection i (br_domain b) = Ok c"
    and "delete_connection (de_vault E) i (dr_store (br_domain b)) = (Ok c, s)" and "distinct (map conn_id (ix_connections (st_index (dr_store (br_domain b)))))"
    and "remove_for_connection (de_access_write E) i (dr_access (br_domain b)) (dr_disk (br_domain b)) = (Err e, t, k)"
  shows "\<exists>b'. ui_delete_connection E seen i b = (Err e, b') \<and> br_plane b' = br_plane b \<and> br_approvals b' = br_approvals b \<and>
    br_listeners b' = br_listeners b \<and> dr_endpoints (br_domain b') = dr_endpoints (br_domain b) \<and>
    ui_delete_connection E (br_domain b') i b' = (Err ConnectionNotFound, b')"
proof -
  let ?d = "(br_domain b)\<lparr>dr_store := s, dr_access := t, dr_disk := k\<rparr>"
  have "ui_delete_connection E seen i b = (Err e, b\<lparr>br_domain := ?d\<rparr>)"
    using assms(1-3,5) by (simp add: ui_delete_connection_def commit_action_def domain_delete_connection_def chain_def on_store_def on_access_def)
  moreover have "catalog_connection i ?d = Err ConnectionNotFound"
    using store_delete_connection_ok [OF assms(3)] removed_not_found [OF assms(4), of i] by (simp add: catalog_connection_def connection_by_id_def)
  ultimately show ?thesis by (intro exI [of _ "b\<lparr>br_domain := ?d\<rparr>"]) (simp add: ui_delete_connection_def)
qed

text \<open>
  The secret of an endpoint outlives its tool in the vault: revoking the endpoint or rotating the key removes it, deleting the tool does not.
\<close>

lemma memory_vault_deletes:
  "j \<notin> set is \<Longrightarrow> map_of (st_vault (vault_delete_all memory_vault is s)) j = map_of (st_vault s) j"
proof (induction "is" arbitrary: s)
  case (Cons i "is")
  have "map_of (st_vault (snd (vault_delete memory_vault i s))) j = map_of (st_vault s) j"
    using Cons.prems by (auto simp: vault_delete_def memory_vault_def memory_vault_delete_def map_of_delete_eq split: option.split)
  with Cons show ?case by (simp add: vault_delete_all_def)
qed (simp add: vault_delete_all_def)

lemma deletion_keeps_endpoint_secret:
  assumes "ui_delete_connection E seen i b = (Ok c, b')" and "de_vault E = memory_vault"
    and "\<And>oa. conn_oauth c = Some oa \<Longrightarrow> j \<noteq> grant_id oa"
  shows "map_of (st_vault (dr_store (br_domain b'))) j = map_of (st_vault (dr_store (br_domain b))) j"
proof -
  obtain c0 r fx b1 where a: "commit_action E (domain_delete_connection E i (de_version E c0)) b = (Inr (r, fx), b1)"
    and c: "c = dl_connection r" and b': "br_domain b' = br_domain b1"
    using assms(1) by (auto simp: ui_delete_connection_def split: sum.splits prod.splits)
  obtain cm d where d: "domain_delete_connection E i (de_version E c0) (br_domain b) = (Inr cm, d)" and r: "r = dc_value cm"
    and b1: "b1 = fst (apply_domain_outbox (de_clock E 4) (dc_outbox cm) (b\<lparr>br_domain := d\<rparr>))"
    by (rule commit_action_ok [OF a])
  have del: "delete_connection memory_vault i (dr_store (br_domain b)) = (Inr c, dr_store d)"
    by (rule domain_delete_ok [OF d]) (simp add: c r assms(2))
  have v: "st_vault s = st_vault s0" if "commit_index nxt s0 = (x, s)" for nxt s0 x and s :: "memory_vault store"
    using that by (auto simp: commit_index_def persist_index_def Let_def split: list.splits option.splits prod.splits sum.splits if_splits)
  obtain s1 nxt x where "commit_index nxt (dr_store (br_domain b)) = (x, s1)"
    and "dr_store d = vault_delete_all memory_vault (case conn_oauth c of Some oa \<Rightarrow> [grant_id oa] | None \<Rightarrow> []) s1"
    using del by (auto simp: delete_connection_def split: option.splits prod.splits sum.splits)
  then have "map_of (st_vault (dr_store d)) j = map_of (st_vault (dr_store (br_domain b))) j"
    using v assms(3) by (simp add: memory_vault_deletes split: option.split)
  then show ?thesis by (simp add: b' b1)
qed

subsection \<open>Rotating the broker key\<close>

lemma close_all_form:
  assumes "hm_wf (sessions p)"
  shows "(\<forall>(k, t) \<in> set (tickets (snd (close_all reason p))). invalidated t) \<and> (\<forall>(j, s) \<in> set (sessions (snd (close_all reason p))). close s \<noteq> None)"
proof -
  let ?q = "invalidate_tickets (\<lambda>_. True) p"
  have q: "sessions ?q = sessions p" by (simp add: invalidate_tickets_def)
  have "snd (close_all reason p) = signal_each reason (close_targets (\<lambda>_. True) ?q) ?q" by (simp add: close_all_def Let_def)
  moreover have "sessions (signal_each reason (close_targets (\<lambda>_. True) ?q) ?q) = map (\<lambda>(j, s). (j, signal_close reason s)) (sessions p)"
    using signal_each_sessions [of ?q] hit_targets [of ?q "\<lambda>_. True"] assms q by simp
  ultimately show ?thesis by (auto simp: signal_each_frame invalidate_tickets_def hm_map_values_def)
qed

lemma forget_secrets_frame:
  "br_plane (fold (forget_endpoint_secret E) is b) = br_plane b \<and> br_approvals (fold (forget_endpoint_secret E) is b) = br_approvals b \<and>
   br_elicitations (fold (forget_endpoint_secret E) is b) = br_elicitations b \<and> br_listeners (fold (forget_endpoint_secret E) is b) = br_listeners b \<and>
   broker_registry (fold (forget_endpoint_secret E) is b) = broker_registry b"
proof (induction "is" arbitrary: b)
  case (Cons i "is")
  from Cons [of "forget_endpoint_secret E i b"] show ?case by (simp add: forget_endpoint_secret_def broker_registry_def)
qed simp

text \<open>
  Rotating the key disconnects everything: no endpoint is left, every ticket is invalid, every session is told to close, and no
  window or cooldown outlives the old generation.
\<close>

theorem rotated_key_disconnects:
  assumes "ui_rotate_key E rotated b = (Ok (), b')" and "hm_wf (sessions (br_plane b))"
  shows "rotated = Ok () \<and> endpoints (broker_registry b') = [] \<and> (\<forall>e\<in>set (endpoints (broker_registry b)). ep_id e \<notin> set (br_listeners b')) \<and>
    (\<forall>(k, t) \<in> set (tickets (br_plane b')). invalidated t) \<and> (\<forall>(j, s) \<in> set (sessions (br_plane b')). close s \<noteq> None) \<and>
    grants (br_approvals b') = [] \<and> cooldowns (br_approvals b') = []"
proof -
  obtain es r where r: "revoke_all (de_endpoint_write E) (broker_registry b) = (Inr es, r)"
    using assms(1) by (auto simp: ui_rotate_key_def split: sum.splits prod.splits)
  then have es: "es = endpoints (broker_registry b)" "endpoints r = []"
    by (auto simp: revoke_all_def dest!: commit_endpoints_Ok split: if_splits)
  let ?f = "fold (forget_endpoint_secret E) (map ep_id es) (with_endpoints r b)"
  let ?t = "fold (teardown_endpoint (ascii ''key_rotated'')) (map ep_id es) ?f"
  have t: "reached (map (\<lambda>i. ByEndpoint i (ascii ''key_rotated'')) (map ep_id es)) [] [] (map ep_id es) ?f ?t" by (rule reached_teardowns)
  have f: "br_plane ?f = br_plane b" "br_listeners ?f = br_listeners b" "broker_registry ?f = r"
    using forget_secrets_frame [of E "map ep_id es" "with_endpoints r b"] by (simp_all add: with_endpoints_def broker_registry_def)
  have wf: "hm_wf (sessions (br_plane ?t))" using t f(1) plane_withdrawal.ok_cuts [OF assms(2)] by (simp add: reached_def)
  have ok: "rotated = Ok ()" and b': "br_domain b' = br_domain ?t" "br_listeners b' = br_listeners ?t"
    "br_plane b' = snd (close_all (ascii ''key_rotated'') (br_plane ?t))" "br_approvals b' = revoke_all_approvals (de_clock E 6) (br_approvals ?t)"
    using assms(1) r by (auto simp: ui_rotate_key_def Let_def split: sum.splits prod.splits)
  have "grants (br_approvals b') = [] \<and> cooldowns (br_approvals b') = []"
    unfolding b'(4) using resolve_each_sub by (simp add: revoke_all_approvals_def drop_everything_def)
  moreover have "set (fold removeAll is xs) = set xs - set is" for "is" xs :: "uuid list" by (induction "is" arbitrary: xs) auto
  then have "\<forall>e\<in>set (endpoints (broker_registry b)). ep_id e \<notin> set (br_listeners b')"
    using t f(2) es b'(2) by (simp add: reached_def)
  moreover have "endpoints (broker_registry b') = []" using t f(3) es b'(1) by (simp add: reached_def broker_registry_def)
  ultimately show ?thesis using ok close_all_form [OF wf] b'(3) by simp
qed

text \<open>Prompts for input stay: they are not withdrawn, and can be answered for a caller of the old generation.\<close>

lemma teardowns_elicitations: "br_elicitations (fold (teardown_endpoint reason) is b) = br_elicitations b"
  using reached_teardowns [of reason "is" b] by (simp add: reached_def)

lemma rotation_keeps_elicitations: "br_elicitations (snd (ui_rotate_key E rotated b)) = br_elicitations b"
  by (simp add: ui_rotate_key_def with_endpoints_def Let_def teardowns_elicitations forget_secrets_frame split: sum.split prod.split)

subsection \<open>A running broker\<close>

text \<open>One tool with an endpoint, a listener, a ticket and a session; \<open>s\<close> is its store.\<close>

definition running_env :: "(unit, memory_vault) domain_env" where
  "running_env = \<lparr>de_store = example_env, de_vault = memory_vault, de_version = (\<lambda>_. []), de_clock = (\<lambda>_. 5), de_touched = (\<lambda>_. 5), de_fresh = of_nat,
     de_access_write = no_faults, de_endpoint_write = None, de_workspace = 0\<rparr>"

definition running_endpoint :: direct_endpoint where
  "running_endpoint = \<lparr>ep_id = 3, ep_connection_id = 7, ep_kind = KindApi, secret_hash = [1], ep_secret = [], port = None, require_auth = False,
     created_at = 0, expires_at = None\<rparr>"

definition running_session :: session_entry where
  "running_session = \<lparr>info = \<lparr>si_id = 1, si_kind = KindApi, si_agent = [], si_connection = [], si_detail = [], opened_at = 0\<rparr>, ticket = None,
     endpoint_id = Some 3, s_connection_id = 7, close = None\<rparr>"

definition running_domain :: "memory_vault store \<Rightarrow> memory_vault domain_repository" where
  "running_domain s = \<lparr>dr_store = s, dr_access = \<lparr>entries = [], generation = 0, has_generation_store = True\<rparr>,
     dr_disk = \<lparr>access_file = Ok None, access_generation = 0\<rparr>, dr_endpoints = \<lparr>max_total = 4, endpoints = [running_endpoint], reg_file = None\<rparr>\<rparr>"

definition running :: "memory_vault store \<Rightarrow> memory_vault broker" where
  "running s = \<lparr>br_domain = running_domain s, br_plane = (new_data_plane 60 2 3 4)\<lparr>sessions := [(1, running_session)]\<rparr>,
     br_approvals = new_approvals sample_config, br_elicitations = new_elicitations 300, br_listeners = [3], br_events = [], br_audit = []\<rparr>"

lemma running_simps [simp]:
  "br_domain (running s) = running_domain s" "hm_wf (sessions (br_plane (running s)))" "dr_store (running_domain s) = s"
  "dr_access (running_domain s) = \<lparr>entries = [], generation = 0, has_generation_store = True\<rparr>"
  "dr_endpoints (running_domain s) = \<lparr>max_total = 4, endpoints = [running_endpoint], reg_file = None\<rparr>"
  "catalog_connection i (running_domain s) = connection_by_id i (st_index s)" "broker_registry (running s) = dr_endpoints (running_domain s)"
  by (simp_all add: running_def running_domain_def hm_wf_def catalog_connection_def broker_registry_def)

lemma running_busy: "\<not> plane_quiet 7 (br_plane (running s))" "ep_id running_endpoint \<in> set (br_listeners (running s))"
  by (simp_all add: running_def plane_quiet_def running_session_def running_endpoint_def)

lemma mtls_tool: "\<exists>c. ix_connections (st_index mtls_example) = [c] \<and> conn_id c = 7"
  by (simp add: mtls_example_def new_connection_def empty_store_def default_index_def)

lemma running_deleted: "\<exists>c b'. ui_delete_connection running_env (running_domain mtls_example) 7 (running mtls_example) = (Ok c, b')"
proof -
  obtain c where c: "ix_connections (st_index mtls_example) = [c]" "conn_id c = 7" using mtls_tool by blast
  then have i: "connection_by_id 7 (st_index mtls_example) = Ok c" by (simp add: connection_by_id_def)
  have "st_faults mtls_example = []" by (simp add: mtls_example_def empty_store_def)
  then obtain s where s: "delete_connection memory_vault 7 mtls_example = (Ok c, s)"
    using c by (simp add: delete_connection_def commit_index_def persist_index_def)
  have "\<exists>cm d. domain_delete_connection running_env 7 [] (running_domain mtls_example) = (Ok cm, d) \<and> dl_connection (dc_value cm) = c"
    using i s by (simp add: domain_delete_connection_def running_env_def chain_def on_store_def on_access_def running_domain_def remove_for_connection_def
        drop_endpoints_def on_endpoints_def remove_endpoints_for_connection_def running_endpoint_def commit_endpoints_def persist_endpoints_def return_def commit_one_def
        catalog_connection_def)
  then obtain cm d where "domain_delete_connection running_env 7 [] (running_domain mtls_example) = (Ok cm, d)" "dl_connection (dc_value cm) = c" by blast
  moreover have "de_version running_env c = []" by (simp add: running_env_def)
  ultimately show ?thesis using i by (simp add: ui_delete_connection_def commit_action_def split: prod.split)
qed

theorem deleted_connection_cut_off_witness:
  "\<exists>b'. cut_off 7 b' \<and> catalog_connection 7 (br_domain b') = Err ConnectionNotFound \<and> 3 \<notin> set (br_listeners b') \<and>
     b' = snd (ui_delete_connection running_env (running_domain mtls_example) 7 (running mtls_example))"
proof -
  obtain c b' where d: "ui_delete_connection running_env (running_domain mtls_example) 7 (running mtls_example) = (Ok c, b')" using running_deleted by blast
  have "distinct (map conn_id (ix_connections (st_index (dr_store (br_domain (running mtls_example))))))" using mtls_tool by auto
  from deleted_connection_cut_off [OF d running_simps(2) this] show ?thesis using d by (auto simp: running_endpoint_def)
qed

theorem disabled_tool_cut_off_witness:
  "\<exists>b'. ui_set_tool_access running_env (running_domain mtls_example) 7 False (running mtls_example) = (Ok True, b') \<and>
     \<not> allows (dr_access (br_domain b')) 7 \<and> plane_quiet 7 (br_plane b')"
proof -
  obtain c where c: "ix_connections (st_index mtls_example) = [c]" "conn_id c = 7" using mtls_tool by blast
  then have i: "connection_by_id 7 (st_index mtls_example) = Ok c" by (simp add: connection_by_id_def)
  have "\<exists>b'. ui_set_tool_access running_env (running_domain mtls_example) 7 False (running mtls_example) = (Ok True, b')"
    using i by (simp add: ui_set_tool_access_def ui_policy_def policy_update_of_def commit_action_def domain_update_policy_def current_policy_value_def
        allows_def is_expose_def chain_def on_access_def apply_policy_change_def set_enabled_def commit_entries_def persist_def running_domain_def
        running_env_def no_faults_def advance_access_generation_def u64_max_def return_def commit_one_def catalog_connection_def Let_def split: prod.split)
  then obtain b' where d: "ui_set_tool_access running_env (running_domain mtls_example) 7 False (running mtls_example) = (Ok True, b')" by blast
  from disabled_tool_cut_off [OF d running_simps(2)] d show ?thesis by simp
qed

definition switched_off :: "memory_vault broker" where
  "switched_off = (running mtls_example)\<lparr>br_domain := (running_domain mtls_example)\<lparr>dr_access :=
     \<lparr>entries = [\<lparr>connection_id = 7, enabled = False, allowed_tools = None, confirm = ConfirmOff, expose_response_credentials = True,
       audit_statements = None, updated_at = 0\<rparr>], generation = 0, has_generation_store = True\<rparr>\<rparr>\<rparr>"

theorem stale_policy_refused_witness:
  "ui_policy running_env (running_domain mtls_example) 7 (EnabledChange False) (\<lambda>_ _ _ b. b) switched_off = (Err ApprovalConnectionChanged, switched_off)"
proof -
  obtain c where c: "ix_connections (st_index mtls_example) = [c]" "conn_id c = 7" using mtls_tool by blast
  then have i: "connection_by_id 7 (st_index mtls_example) = Ok c" by (simp add: connection_by_id_def)
  show ?thesis
    by (rule stale_policy_refused [where c = c and ?c0.0 = c])
      (use i in \<open>simp_all add: switched_off_def catalog_connection_def current_policy_value_def allows_def\<close>)
qed

lemma mtls_moved_to:
  "\<exists>c b s'. update_connection_inner example_env (\<lambda>_. []) 5 7 (Some []) moved_spec mtls_example = (Ok (c, b), s') \<and>
     conn_target c = ascii ''https://x''"
  by (simp add: update_connection_inner_def mtls_example_def moved_spec_def new_connection_def default_index_def empty_store_def
      validate_connection_name_def ensure_def connection_name_ok_def connection_name_char_def is_ascii_alphanumeric_def is_ascii_alphabetic_def
      utf8_len_def utf8_width_def conn_kind_def config_kind_def inherited_config_def inherit_oauth_spec_def inherit_oauth_token_secret_id_def
      inherit_signer_and_mtls_def config_target_def Let_def oauth_rename_only_def validate_config_and_bind_secrets_def bind_api_secrets_def
      first_error_def api_field_checks_def oauth_checks_def host_only_def trim_def commit_with_def commit_index_def persist_index_def conn_target_def)
    blast

lemma running_moved:
  "\<exists>c b'. ui_update_connection_inner running_env (running_domain mtls_example) 7 None moved_spec (running mtls_example) = (Ok c, b') \<and>
     conn_target c = ascii ''https://x''"
proof -
  obtain c0 where c0: "connection_by_id 7 (st_index mtls_example) = Ok c0" "conn_config c0 \<noteq> spec_config moved_spec"
    by (simp add: connection_by_id_def mtls_example_def new_connection_def moved_spec_def ascii_def)
  obtain c m s where u: "update_connection_inner example_env (\<lambda>_. []) 5 7 (Some []) moved_spec mtls_example = (Ok (c, m), s)"
    and t: "conn_target c = ascii ''https://x''" using mtls_moved_to by blast
  let ?u = "\<lparr>cu_id = 7, cu_expected = Some [], cu_spec = moved_spec\<rparr>"
  have cap: "capability_differs c0 moved_spec" using c0(2) by (simp add: capability_differs_def)
  have "\<exists>cm d. domain_update_connection running_env ?u (running_domain mtls_example) = (Ok cm, d) \<and> ur_connection (dc_value cm) = c"
    using c0 u cap by (simp add: domain_update_connection_def write_connection_def running_env_def chain_def on_store_def running_domain_def
        drop_endpoints_def on_endpoints_def remove_endpoints_for_connection_def running_endpoint_def commit_endpoints_def persist_endpoints_def return_def
        commit_one_def catalog_connection_def Let_def)
  then obtain cm d where "domain_update_connection running_env ?u (running_domain mtls_example) = (Ok cm, d)" "ur_connection (dc_value cm) = c" by blast
  moreover have "de_version running_env c0 = []" by (simp add: running_env_def)
  ultimately show ?thesis using c0 t by (simp add: ui_update_connection_inner_def commit_action_def and_then_def split: prod.split)
qed

theorem edited_connection_cut_off_witness:
  "\<exists>b'. cut_off 7 b' \<and> 3 \<notin> set (br_listeners b') \<and>
     b' = snd (ui_update_connection_inner running_env (running_domain mtls_example) 7 None moved_spec (running mtls_example))"
proof -
  obtain c b' where d: "ui_update_connection_inner running_env (running_domain mtls_example) 7 None moved_spec (running mtls_example) = (Ok c, b')"
    and t: "conn_target c = ascii ''https://x''" using running_moved by blast
  obtain old where o: "catalog_connection 7 (running_domain mtls_example) = Ok old" "conn_target c \<noteq> conn_target old \<longrightarrow> cut_off 7 b' \<and> 3 \<notin> set (br_listeners b')"
    using edited_connection_cut_off [OF d running_simps(2)] by (auto simp: running_endpoint_def)
  have "conn_target old = ascii ''https://h''"
    using o(1) by (auto simp: connection_by_id_def mtls_example_def new_connection_def empty_store_def default_index_def conn_target_def config_target_def)
  then show ?thesis using o(2) t d by (auto simp: ascii_def)
qed

theorem rotated_key_disconnects_witness:
  "\<exists>b'. ui_rotate_key running_env (Ok ()) (running mtls_example) = (Ok (), b') \<and> endpoints (broker_registry b') = [] \<and> 3 \<notin> set (br_listeners b') \<and>
     (\<forall>(j, s) \<in> set (sessions (br_plane b')). close s \<noteq> None)"
proof -
  have "\<exists>b'. ui_rotate_key running_env (Ok ()) (running mtls_example) = (Ok (), b')"
    by (simp add: ui_rotate_key_def revoke_all_def commit_endpoints_def persist_endpoints_def running_env_def Let_def split: prod.split)
  then obtain b' where d: "ui_rotate_key running_env (Ok ()) (running mtls_example) = (Ok (), b')" by blast
  from rotated_key_disconnects [OF d running_simps(2)] d show ?thesis by (auto simp: running_endpoint_def)
qed

theorem outbox_redelivery_harmless_witness:
  "runtime (fst (apply_domain_outbox 9 [\<lparr>ob_id = 1, ob_workspace = 0, ob_kind = ConnectionDeletedEvent 7 True [3]\<rparr>]
     (fst (apply_domain_outbox 5 [\<lparr>ob_id = 1, ob_workspace = 0, ob_kind = ConnectionDeletedEvent 7 True [3]\<rparr>] (running mtls_example))))) =
   runtime (fst (apply_domain_outbox 5 [\<lparr>ob_id = 1, ob_workspace = 0, ob_kind = ConnectionDeletedEvent 7 True [3]\<rparr>] (running mtls_example)))"
  by (rule outbox_redelivery_harmless) simp_all

text \<open>A store with a password bound to a database, for rotation.\<close>

definition password_store :: "memory_vault store" where
  "password_store = empty_store\<lparr>st_index := default_index\<lparr>
     ix_secrets := [\<lparr>sm_id = 4, sm_name = ascii ''DB'', sm_created_at = 0, sm_updated_at = 0, sm_source = Local, sm_kind = Password,
       sm_site = Some (ascii ''x.y''), sm_username = None, totp_vault_id = None\<rparr>],
     ix_connections := [new_connection 7 0 (ascii ''db'') (Pg \<lparr>pg_host = ascii ''h'', pg_port = 5432, dbname = ascii ''d'', pg_user = ascii ''u'',
       sslmode = VerifyFull, pg_trusted_ca_bundle_path = None\<rparr>) [4]]\<rparr>, st_vault := [(4, (\<lparr>va_name = ascii ''DB'', va_created_at = 0\<rparr>, [1]))]\<rparr>"

definition plain_credentials :: credential_env where
  "plain_credentials = \<lparr>ne_site = Ok, ne_seed = Ok\<rparr>"

lemma password_rotated:
  "\<exists>m s. replace_secret_value memory_vault 5 4 [2] password_store = (Ok m, s) \<and> v_get memory_vault 4 (st_vault s) = Return (Ok [2]) \<and>
     (\<exists>c. ix_connections (st_index s) = [c] \<and> conn_id c = 7 \<and> conn_secrets c = [4])"
  by (simp add: replace_secret_value_def password_store_def empty_store_def default_index_def persist_index_def vault_set_def memory_vault_def
      memory_vault_set_def memory_vault_get_def new_connection_def Let_def)

theorem rotated_credential_cut_off_witness:
  "\<exists>b'. cut_off 7 b' \<and> b' = snd (ui_edit_credential plain_credentials running_env (running_domain password_store) 4 None (Some [2]) None None None (running password_store))"
proof -
  obtain m s c where r: "replace_secret_value memory_vault 5 4 [2] password_store = (Ok m, s)"
    and c: "ix_connections (st_index s) = [c]" "conn_id c = 7" "conn_secrets c = [4]" using password_rotated by blast
  have e: "edit_input plain_credentials 4 None (Some [2]) None None None =
      Ok \<lparr>ce_id = 4, ce_name = None, ce_value = Some [2], ce_site = None, ce_username = None, ce_totp = None\<rparr>"
    by (simp add: edit_input_def transpose_def and_then_def)
  obtain m0 where m0: "secret_by_id 4 (st_index password_store) = Ok m0" "sm_source m0 = Local"
    by (simp add: secret_by_id_def password_store_def empty_store_def default_index_def)
  have "\<exists>cm d. edit_credential running_env \<lparr>ce_id = 4, ce_name = None, ce_value = Some [2], ce_site = None, ce_username = None, ce_totp = None\<rparr>
      (running_domain password_store) = (Ok cm, d) \<and> dr_store d = s"
    using m0 r by (simp add: edit_refusal_def edit_credential_def chain_def return_def rename_stage_def value_stage_def profile_stage_def totp_stage_def
        on_store_def running_env_def)
  then obtain cm d where "edit_credential running_env \<lparr>ce_id = 4, ce_name = None, ce_value = Some [2], ce_site = None, ce_username = None, ce_totp = None\<rparr>
      (running_domain password_store) = (Ok cm, d)" "dr_store d = s" by blast
  then have "\<exists>m b'. ui_edit_credential plain_credentials running_env (running_domain password_store) 4 None (Some [2]) None None None (running password_store) = (Ok m, b') \<and>
      dr_store (br_domain b') = s"
    using m0 by (simp add: ui_edit_credential_def edit_refusal_def e commit_action_def case_prod_beta Let_def)
  then obtain m b' where d: "ui_edit_credential plain_credentials running_env (running_domain password_store) 4 None (Some [2]) None None None (running password_store) = (Ok m, b')"
      "dr_store (br_domain b') = s" by blast
  from rotated_credential_cut_off [OF d(1) running_simps(2), of c] c d show ?thesis by auto
qed

end
