(* ===== verification/SshAgent.thy ===== *)
theory SshAgent
  imports PgProxy Ratelimit
begin

text \<open>
  The agent protocol of \<^verbatim>\<open>crates/aka-core/src/capability/ssh.rs\<close>: the wire format, the host-bound sign request, \<open>session-bind\<close> with its
  trust on first use, the \<open>authenticate\<close> extension, and the answer to each request. A socket is shared by its connections; what a request
  reads while it waits is the \<open>agent_moment\<close> of that request. Keys, signatures and fingerprints belong to the \<^verbatim>\<open>ssh-key\<close>
  crate and are parameters.
\<close>

subsection \<open>Message numbers\<close>

definition SSH_AGENT_FAILURE :: "8 word" where "SSH_AGENT_FAILURE = 5"
definition SSH_AGENT_SUCCESS :: "8 word" where "SSH_AGENT_SUCCESS = 6"
definition SSH_AGENTC_REQUEST_IDENTITIES :: "8 word" where "SSH_AGENTC_REQUEST_IDENTITIES = 11"
definition SSH_AGENT_IDENTITIES_ANSWER :: "8 word" where "SSH_AGENT_IDENTITIES_ANSWER = 12"
definition SSH_AGENTC_SIGN_REQUEST :: "8 word" where "SSH_AGENTC_SIGN_REQUEST = 13"
definition SSH_AGENT_SIGN_RESPONSE :: "8 word" where "SSH_AGENT_SIGN_RESPONSE = 14"
definition SSH_AGENTC_EXTENSION :: "8 word" where "SSH_AGENTC_EXTENSION = 27"
definition SSH_AGENT_EXTENSION_FAILURE :: "8 word" where "SSH_AGENT_EXTENSION_FAILURE = 28"

lemmas agent_numbers = SSH_AGENT_FAILURE_def SSH_AGENT_SUCCESS_def SSH_AGENTC_REQUEST_IDENTITIES_def SSH_AGENT_IDENTITIES_ANSWER_def
  SSH_AGENTC_SIGN_REQUEST_def SSH_AGENT_SIGN_RESPONSE_def SSH_AGENTC_EXTENSION_def SSH_AGENT_EXTENSION_FAILURE_def

definition SESSION_BIND_EXTENSION :: bytes where "SESSION_BIND_EXTENSION = as_bytes (ascii ''session-bind@openssh.com'')"
definition AUTHENTICATE_EXTENSION :: bytes where "AUTHENTICATE_EXTENSION = as_bytes (ascii ''authenticate@multitool.dev'')"
definition LEGACY_AUTHENTICATE_EXTENSION :: bytes where "LEGACY_AUTHENTICATE_EXTENSION = as_bytes (ascii ''authenticate@agentmfa.dev'')"
definition HOSTBOUND_AUTH_METHOD :: bytes where "HOSTBOUND_AUTH_METHOD = as_bytes (ascii ''publickey-hostbound-v00@openssh.com'')"
definition SSH_AGENT_RSA_SHA2_256 :: "32 word" where "SSH_AGENT_RSA_SHA2_256 = 2"
definition SSH_AGENT_RSA_SHA2_512 :: "32 word" where "SSH_AGENT_RSA_SHA2_512 = 4"
definition SSH_MSG_USERAUTH_REQUEST :: "8 word" where "SSH_MSG_USERAUTH_REQUEST = 50"
definition MAX_AGENT_MESSAGE :: nat where "MAX_AGENT_MESSAGE = 256 * 1024"
definition SOCKET_GRACE :: duration where "SOCKET_GRACE = secs 30"

subsection \<open>The wire\<close>

definition read_u8 :: "bytes \<Rightarrow> (8 word \<times> bytes) option" where
  "read_u8 d = (case d of [] \<Rightarrow> None | b # rest \<Rightarrow> Some (b, rest))"

definition read_u32 :: "bytes \<Rightarrow> (32 word \<times> bytes) option" where
  "read_u32 d = (if length d < 4 then None else Some (be_i32 (take 4 d), drop 4 d))"

definition read_string :: "bytes \<Rightarrow> (bytes \<times> bytes) option" where
  "read_string d =
     (case read_u32 d of
        None \<Rightarrow> None
      | Some (n, d) \<Rightarrow> if length d < unat n then None else Some (take (unat n) d, drop (unat n) d))"

definition put_string :: "bytes \<Rightarrow> bytes" where
  "put_string s = put_i32 (of_nat (length s)) @ s"

definition agent_frame :: "8 word \<Rightarrow> bytes \<Rightarrow> bytes" where
  "agent_frame k body = put_i32 (of_nat (length body + 1)) @ k # body"

definition read_agent_message :: "pg_client \<Rightarrow> (io_error + 8 word \<times> bytes) \<times> pg_client" where
  "read_agent_message c =
     (case read_exact 4 c of
        (Inl e, c) \<Rightarrow> (Err e, c)
      | (Inr h, c) \<Rightarrow>
          let len = unat (be_i32 h) in
          if len = 0 \<or> len > MAX_AGENT_MESSAGE then (Err (InvalidData (ascii ''invalid agent message length '' @ show_nat len)), c)
          else case read_exact len c of
            (Inl e, c) \<Rightarrow> (Err e, c)
          | (Inr b, c) \<Rightarrow> (Ok (hd b, tl b), c))"

subsection \<open>Signing\<close>

datatype hash_alg = Sha256 | Sha512

datatype key_data = Ed25519Key | EcdsaKey | RsaKey | UnsupportedKey

text \<open>\<open>sg_plain\<close> is the key's own signature of data, \<open>sg_rsa\<close> the assembled RSA key's, both encoded.\<close>

record ssh_signer =
  sg_key :: key_data
  public_blob :: bytes
  sg_plain :: "bytes \<Rightarrow> ustring + bytes"
  sg_rsa :: "(hash_alg \<Rightarrow> bytes \<Rightarrow> ustring + bytes) option"

definition explain :: "string \<Rightarrow> ustring + 'a \<Rightarrow> ustring + 'a" where
  "explain what r = (case r of Inl e \<Rightarrow> Err (ascii what @ e) | Inr x \<Rightarrow> Ok x)"

definition sign :: "ssh_signer \<Rightarrow> bytes \<Rightarrow> 32 word \<Rightarrow> ustring + bytes" where
  "sign sg data flags = (case sg_key sg of
       Ed25519Key \<Rightarrow> explain ''ed25519 sign failed: '' (sg_plain sg data)
     | EcdsaKey \<Rightarrow> explain ''ecdsa sign failed: '' (sg_plain sg data)
     | RsaKey \<Rightarrow>
         let h = (if flags AND SSH_AGENT_RSA_SHA2_256 \<noteq> 0 then Some Sha256
               else if flags AND SSH_AGENT_RSA_SHA2_512 \<noteq> 0 then Some Sha512 else None) in
         (case h of
            None \<Rightarrow> Err (ascii ''client requested legacy ssh-rsa (SHA-1); ask for rsa-sha2-256 or rsa-sha2-512'')
          | Some h \<Rightarrow>
              (case sg_rsa sg of
                 None \<Rightarrow> Err (ascii ''rsa key was not assembled at load'')
               | Some f \<Rightarrow> explain ''rsa sign failed: '' (f h data)))
     | UnsupportedKey \<Rightarrow> Err (ascii ''unsupported key type''))"

definition identities_answer :: "ssh_signer \<Rightarrow> ustring \<Rightarrow> bytes" where
  "identities_answer sg comment = put_i32 1 @ put_string (public_blob sg) @ put_string (as_bytes comment)"

record hostbound_userauth =
  hu_session_id :: bytes
  hu_user :: ustring
  hu_host_key :: bytes

definition parse_hostbound_userauth :: "bytes \<Rightarrow> bytes \<Rightarrow> hostbound_userauth option" where
  "parse_hostbound_userauth data blob =
     Option.bind (read_string data) (\<lambda>(session_id, d).
     Option.bind (read_u8 d) (\<lambda>(msg, d). if msg \<noteq> SSH_MSG_USERAUTH_REQUEST then None else
     Option.bind (read_string d) (\<lambda>(u, d).
     Option.bind (from_utf8 u) (\<lambda>user.
     Option.bind (read_string d) (\<lambda>(svc, d). if svc \<noteq> as_bytes (ascii ''ssh-connection'') then None else
     Option.bind (read_string d) (\<lambda>(meth, d). if meth \<noteq> HOSTBOUND_AUTH_METHOD then None else
     Option.bind (read_u8 d) (\<lambda>(has, d). if has = 0 then None else
     Option.bind (read_string d) (\<lambda>(alg, d).
     Option.bind (read_string d) (\<lambda>(key_blob, d). if key_blob \<noteq> blob then None else
     Option.bind (read_string d) (\<lambda>(hk, d). if d \<noteq> [] then None else
     Some \<lparr>hu_session_id = session_id, hu_user = user, hu_host_key = hk\<rparr>))))))))))"

subsection \<open>Binding a session to a host key\<close>

record ('f, 'p, 's) ssh_env =
  se_store :: "'f store_env"
  se_public :: "bytes \<Rightarrow> ustring + 'p"
  se_signature :: "bytes \<Rightarrow> ustring + 's"
  se_verify :: "'p \<Rightarrow> bytes \<Rightarrow> 's \<Rightarrow> ustring + unit"
  se_fingerprint :: "hash_alg \<Rightarrow> 'p \<Rightarrow> 'f"
  se_algorithm :: "'f \<Rightarrow> hash_alg"
  se_not_printable :: "uchar \<Rightarrow> bool"
  se_secret_hash :: "ustring \<Rightarrow> ustring"
  se_uuid_text :: "uuid \<Rightarrow> ustring"
  se_secret_name :: "uuid \<Rightarrow> ustring option"
  se_error_text :: "core_error \<Rightarrow> ustring"

record session_binding =
  sb_host_key :: bytes
  sb_session_id :: bytes

definition CERT_SUFFIX :: ustring where "CERT_SUFFIX = ascii ''-cert-v01@openssh.com''"

definition certificate_algorithm :: "bytes \<Rightarrow> ustring option" where
  "certificate_algorithm hk =
     Option.bind (read_string hk) (\<lambda>(n, _).
     Option.bind (from_utf8 n) (\<lambda>name. if suffix CERT_SUFFIX name then Some name else None))"

text \<open>The fields of a \<open>session-bind\<close> request.\<close>

definition session_bind_fields :: "bytes \<Rightarrow> ustring + bytes \<times> bytes \<times> bytes" where
  "session_bind_fields req =
     (case read_string req of
        None \<Rightarrow> Err (ascii ''unsupported agent extension'')
      | Some (n, d) \<Rightarrow>
          if n \<noteq> SESSION_BIND_EXTENSION then Err (ascii ''unsupported agent extension'')
          else (case read_string d of
            None \<Rightarrow> Err (ascii ''missing session-bind host key'')
          | Some (hk, d) \<Rightarrow>
              (case read_string d of
                 None \<Rightarrow> Err (ascii ''missing session-bind session id'')
               | Some (session_id, d) \<Rightarrow>
                   (case read_string d of
                      None \<Rightarrow> Err (ascii ''missing session-bind signature'')
                    | Some (sig, d) \<Rightarrow>
                        (case read_u8 d of
                           None \<Rightarrow> Err (ascii ''missing session-bind forwarding flag'')
                         | Some (forwarding, d) \<Rightarrow>
                             if d \<noteq> [] \<or> forwarding > 1 then Err (ascii ''malformed session-bind request'')
                             else if forwarding \<noteq> 0 then Err (ascii ''forwarded SSH agent sessions are not allowed'')
                             else Ok (hk, session_id, sig))))))"

definition parse_and_verify_session_bind :: "('f, 'p, 's) ssh_env \<Rightarrow> bytes \<Rightarrow> ustring + session_binding \<times> 'p" where
  "parse_and_verify_session_bind E req =
     and_then (session_bind_fields req) (\<lambda>(hk, session_id, sig).
     and_then (explain ''invalid session-bind host key: '' (se_public E hk)) (\<lambda>p.
     (case certificate_algorithm hk of
        Some a \<Rightarrow> Err (ascii ''the server presented a certificate host key ('' @ a @
          ascii ''), which is not yet supported; configure this server to also offer a plain host key'')
      | None \<Rightarrow>
          and_then (explain ''invalid session-bind signature: '' (se_signature E sig)) (\<lambda>sg.
          and_then (explain ''session-bind host signature failed: '' (se_verify E p session_id sg)) (\<lambda>_.
          Ok (\<lparr>sb_host_key = hk, sb_session_id = session_id\<rparr>, p))))))"

definition mismatch_text :: "('f, 'p, 's) ssh_env \<Rightarrow> 'f \<Rightarrow> 'f \<Rightarrow> ustring" where
  "mismatch_text E actual expected =
     ascii ''host key fingerprint '' @ fp_show (se_store E) actual @ ascii '' does not match configured '' @ fp_show (se_store E) expected"

definition verify_session_bind :: "('f, 'p, 's) ssh_env \<Rightarrow> bytes \<Rightarrow> 'f \<Rightarrow> ustring + session_binding" where
  "verify_session_bind E req expected =
     and_then (parse_and_verify_session_bind E req) (\<lambda>(b, p).
       let actual = se_fingerprint E (se_algorithm E expected) p in
       if actual \<noteq> expected then Err (mismatch_text E actual expected) else Ok b)"

subsection \<open>A socket and its connections\<close>

record 'f agent_socket =
  as_endpoint :: "uuid option"
  as_user :: ustring
  as_connection :: uuid
  as_name :: ustring
  as_approved :: datetime
  as_expires :: "instant option"
  as_agent :: ustring
  as_comment :: ustring
  as_fingerprint :: "'f option"
  as_signatures :: window_limiter

record agent_conn =
  ac_binding :: "session_binding option"
  ac_required :: bool
  ac_authenticated :: bool
  ac_refused :: bool

text \<open>
  What one request reads: \<open>am_index n\<close> is the catalog at its \<open>n\<close>-th read, \<open>am_cached\<close> the socket's pin once the bind gate is held,
  \<open>am_store\<close> the store when the pin is written.
\<close>

record ('f, 'v) agent_moment =
  am_wall :: datetime
  am_instant :: instant
  am_access :: access_table
  am_index :: "nat \<Rightarrow> index_state"
  am_endpoints :: registry
  am_cached :: "'f option"
  am_verdict :: verdict
  am_store :: "'v store"

datatype 'v agent_effect =
    AgentAudited audit_entry
  | AgentAsked approval_request
  | StoreWritten "'v store"
  | ConnectionsChangedEvent

definition agent_auth_for :: "registry \<Rightarrow> 'f agent_socket \<Rightarrow> agent_conn" where
  "agent_auth_for r st =
     \<lparr>ac_binding = None,
      ac_required = (case as_endpoint st of None \<Rightarrow> False
        | Some i \<Rightarrow> (case get_endpoint r i of None \<Rightarrow> False | Some e \<Rightarrow> require_auth e)),
      ac_authenticated = False, ac_refused = False\<rparr>"

type_synonym ('f, 'v) agent_answer = "bytes \<times> agent_conn \<times> 'f agent_socket \<times> 'v agent_effect list"

definition agent_failure :: bytes where "agent_failure = agent_frame SSH_AGENT_FAILURE []"
definition extension_failure :: bytes where "extension_failure = agent_frame SSH_AGENT_EXTENSION_FAILURE []"
definition agent_success :: bytes where "agent_success = agent_frame SSH_AGENT_SUCCESS []"

definition refuse_with :: "('f, 'v) agent_moment \<Rightarrow> ustring \<Rightarrow> ustring \<Rightarrow> agent_conn \<Rightarrow> 'f agent_socket \<Rightarrow> ('f, 'v) agent_answer" where
  "refuse_with m reason outcome ac st =
     (agent_failure, ac, st,
      [AgentAudited (with_outcome outcome (AuditEntry.with_detail reason (with_connection (as_name st) (with_agent (as_agent st)
         (new_entry (am_wall m) KSshSigned (ascii ''SSH signature refused: '' @ as_name st))))))])"

definition refuse :: "('f, 'v) agent_moment \<Rightarrow> ustring \<Rightarrow> agent_conn \<Rightarrow> 'f agent_socket \<Rightarrow> ('f, 'v) agent_answer" where
  "refuse m reason = refuse_with m reason (ascii ''refused'')"

definition verdict_outcome :: "verdict \<Rightarrow> ustring" where
  "verdict_outcome v = (case verdict_reason v of Some r \<Rightarrow> ascii (error_reason_as_str r) | None \<Rightarrow> ascii ''refused'')"

definition bound :: "session_binding \<Rightarrow> agent_conn \<Rightarrow> 'f agent_socket \<Rightarrow> 'v agent_effect list \<Rightarrow> ('f, 'v) agent_answer" where
  "bound b ac st es = (agent_success, ac\<lparr>ac_binding := Some b\<rparr>, st, es)"

text \<open>Binding against a pinned key.\<close>

definition bind_pinned :: "('f, 'p, 's) ssh_env \<Rightarrow> ('f, 'v) agent_moment \<Rightarrow> bytes \<Rightarrow> 'f \<Rightarrow> agent_conn \<Rightarrow> 'f agent_socket \<Rightarrow> ('f, 'v) agent_answer" where
  "bind_pinned E m req fp ac st =
     (case verify_session_bind E req fp of Inl reason \<Rightarrow> refuse m reason ac st | Inr b \<Rightarrow> bound b ac st [])"

definition HOST_KEY_CONSEQUENCE :: ustring where
  "HOST_KEY_CONSEQUENCE =
     ascii ''Pinning is permanent for this tool: from now on only this key is accepted, and a server presenting any other is refused. '' @
     ascii ''If this is not the server you meant, the pin makes that mistake durable '' @ [8212] @
     ascii '' check the fingerprint against one you already trust.''"

text \<open>\<open>confirm_host_key\<close> answers the refusal, or nothing when the user trusts the key.\<close>

definition confirm_host_key ::
  "('f, 'p, 's) ssh_env \<Rightarrow> ('f, 'v) agent_moment \<Rightarrow> 'f \<Rightarrow> agent_conn \<Rightarrow> 'f agent_socket \<Rightarrow> ('f, 'v) agent_answer option \<times> 'v agent_effect list" where
  "confirm_host_key E m observed ac st =
     (case connection_by_id (as_connection st) (am_index m 2) of
        Inl _ \<Rightarrow> (Some (refuse m (ascii ''the connection has been removed'') ac st), [])
      | Inr c \<Rightarrow>
          let fp = fp_show (se_store E) observed;
              ask = request_consequence HOST_KEY_CONSEQUENCE (request_host_key fp (request_detail fp
                (new_request c (as_agent st) (ascii ''Trust the SSH host key for '' @ conn_target c)))) in
          (if verdict_is_allowed (am_verdict m) then None
           else Some (refuse_with m (ascii ''the host key was not trusted: '' @ verdict_detail (am_verdict m)) (verdict_outcome (am_verdict m)) ac st),
           [AgentAsked ask]))"

definition more_effects :: "'v agent_effect list \<Rightarrow> ('f, 'v) agent_answer \<Rightarrow> ('f, 'v) agent_answer" where
  "more_effects es a = (case a of (x, ac, st, fs) \<Rightarrow> (x, ac, st, es @ fs))"

text \<open>Pinning an observed key, and what a concurrent pin means.\<close>

definition pin_observed ::
  "('f, 'p, 's) ssh_env \<Rightarrow> ('f, 'v) agent_moment \<Rightarrow> session_binding \<Rightarrow> 'p \<Rightarrow> agent_conn \<Rightarrow> 'f agent_socket \<Rightarrow> ('f, 'v) agent_answer" where
  "pin_observed E m b p ac st =
     (case pin_ssh_host_key (se_store E) (as_connection st) (se_fingerprint E Sha256 p) (am_store m) of
        (Inl e, s) \<Rightarrow> more_effects [StoreWritten s] (refuse m (ascii ''host key pin failed: '' @ se_error_text E e) ac st)
      | (Inr (Pinned f), s) \<Rightarrow>
          bound b ac (st\<lparr>as_fingerprint := Some f\<rparr>)
            [StoreWritten s,
             AgentAudited (with_outcome (ascii ''pinned'') (AuditEntry.with_detail (fp_show (se_store E) f @ ascii '' pinned at first connection'')
               (with_connection (as_name st) (new_entry (am_wall m) KSshHostKeyPinned (ascii ''SSH host key trusted: '' @ as_name st))))),
             ConnectionsChangedEvent]
      | (Inr (AlreadyPinned f), s) \<Rightarrow>
          if se_fingerprint E (se_algorithm E f) p = f then bound b ac (st\<lparr>as_fingerprint := Some f\<rparr>) []
          else refuse m (ascii ''connection meanwhile pinned a different host key'') ac st)"

definition first_use :: "('f, 'p, 's) ssh_env \<Rightarrow> ('f, 'v) agent_moment \<Rightarrow> bytes \<Rightarrow> agent_conn \<Rightarrow> 'f agent_socket \<Rightarrow> ('f, 'v) agent_answer" where
  "first_use E m req ac st =
     (case parse_and_verify_session_bind E req of
        Inl reason \<Rightarrow> refuse m reason ac st
      | Inr (b, p) \<Rightarrow>
          if confirm_ssh_host_keys (index_settings (am_index m 1)) then
            (case confirm_host_key E m (se_fingerprint E Sha256 p) ac st of
               (Some refusal, es) \<Rightarrow> more_effects es refusal
             | (None, es) \<Rightarrow> more_effects es (pin_observed E m b p ac st))
          else pin_observed E m b p ac st)"

definition tofu_session_bind :: "('f, 'p, 's) ssh_env \<Rightarrow> ('f, 'v) agent_moment \<Rightarrow> bytes \<Rightarrow> agent_conn \<Rightarrow> 'f agent_socket \<Rightarrow> ('f, 'v) agent_answer" where
  "tofu_session_bind E m req ac st =
     (case as_fingerprint st of
        Some fp \<Rightarrow> bind_pinned E m req fp ac st
      | None \<Rightarrow>
          (case connection_by_id (as_connection st) (am_index m 0) of
             Inl _ \<Rightarrow> refuse m (ascii ''connection no longer exists'') ac st
           | Inr c \<Rightarrow>
               (case conn_config c of
                  Ssh h \<Rightarrow>
                    if host_key_fingerprint h \<noteq> [] then
                      (case fp_parse (se_store E) (host_key_fingerprint h) of
                         Inl e \<Rightarrow> refuse m (ascii ''stored host key fingerprint invalid: '' @ e) ac st
                       | Inr fp \<Rightarrow> bind_pinned E m req fp ac (st\<lparr>as_fingerprint := Some fp\<rparr>))
                    else first_use E m req ac st
                | _ \<Rightarrow> refuse m (ascii ''connection is no longer ssh'') ac st)))"

text \<open>The gate may be waited for, so that the pin is read again once it is held.\<close>

definition session_bind :: "('f, 'p, 's) ssh_env \<Rightarrow> ('f, 'v) agent_moment \<Rightarrow> bytes \<Rightarrow> agent_conn \<Rightarrow> 'f agent_socket \<Rightarrow> ('f, 'v) agent_answer" where
  "session_bind E m req ac st =
     (case as_fingerprint st of
        Some fp \<Rightarrow> bind_pinned E m req fp ac st
      | None \<Rightarrow> tofu_session_bind E m req ac (st\<lparr>as_fingerprint := am_cached m\<rparr>))"

subsection \<open>Authenticating\<close>

definition extension_name :: "bytes \<Rightarrow> bytes" where
  "extension_name req = (case read_string req of Some (n, _) \<Rightarrow> n | None \<Rightarrow> [])"

definition is_authenticate :: "bytes \<Rightarrow> bool" where
  "is_authenticate req \<longleftrightarrow> extension_name req = AUTHENTICATE_EXTENSION \<or> extension_name req = LEGACY_AUTHENTICATE_EXTENSION"

text \<open>The presented secret of a well-formed request.\<close>

definition presented_secret :: "bytes \<Rightarrow> ustring option" where
  "presented_secret req =
     Option.bind (read_string req) (\<lambda>(_, d).
     Option.bind (read_string d) (\<lambda>(s, d). if d \<noteq> [] then None else Some (from_utf8_lossy s)))"

definition wrong_secret_entry :: "('f, 'p, 's) ssh_env \<Rightarrow> datetime \<Rightarrow> uuid \<Rightarrow> 'f agent_socket \<Rightarrow> audit_entry" where
  "wrong_secret_entry E wall ep st =
     with_field (ascii ''endpoint_id'') (JString (se_uuid_text E ep))
       (with_field (ascii ''kind'') (JString (ascii ''ssh''))
         (with_outcome (ascii ''invalid_secret'')
           (AuditEntry.with_detail (ascii ''the presented secret is not this endpoint'' @ [39] @ ascii ''s'')
             (with_connection (as_name st) (with_agent (as_agent st)
               (new_entry wall KDenied (ascii ''SSH endpoint authentication refused: '' @ as_name st)))))))"

definition secret_matches :: "('f, 'p, 's) ssh_env \<Rightarrow> ('f, 'v) agent_moment \<Rightarrow> uuid \<Rightarrow> ustring \<Rightarrow> bool" where
  "secret_matches E m ep secret \<longleftrightarrow>
     (case resolve_secret (se_secret_hash E) (am_wall m) secret (am_endpoints m) of Some e \<Rightarrow> ep_id e = ep | None \<Rightarrow> False)"

definition authenticate_extension ::
  "('f, 'p, 's) ssh_env \<Rightarrow> ('f, 'v) agent_moment \<Rightarrow> bytes \<Rightarrow> agent_conn \<Rightarrow> 'f agent_socket \<Rightarrow> ('f, 'v) agent_answer" where
  "authenticate_extension E m req ac st =
     (case as_endpoint st of
        None \<Rightarrow> (extension_failure, ac, st, [])
      | Some ep \<Rightarrow>
          (case presented_secret req of
             None \<Rightarrow> (extension_failure, ac, st, [])
           | Some secret \<Rightarrow>
               if secret_matches E m ep secret then (agent_success, ac\<lparr>ac_authenticated := True\<rparr>, st, [])
               else (extension_failure, ac\<lparr>ac_refused := True\<rparr>, st, [AgentAudited (wrong_secret_entry E (am_wall m) ep st)])))"

subsection \<open>Signing a login\<close>

definition LOGIN_CONSEQUENCE :: ustring where
  "LOGIN_CONSEQUENCE =
     ascii ''Approving signs one SSH login. What runs afterwards is between the client and the host: '' @
     ascii ''Multitool is not in that connection, so it cannot see the commands, time the session out, or close it.''"

definition login_request :: "('f, 'p, 's) ssh_env \<Rightarrow> connection \<Rightarrow> ustring \<Rightarrow> 'f agent_socket \<Rightarrow> approval_request" where
  "login_request E c user st =
     request_consequence LOGIN_CONSEQUENCE
       (maybe_detail (map_option (\<lambda>f. ascii ''host key '' @ fp_show (se_store E) f) (as_fingerprint st))
         (credentials_from (se_secret_name E)
           (new_request c (as_agent st) (ascii ''SSH login as '' @ user @ [64] @ conn_target c))))"

definition confirm_login ::
  "('f, 'p, 's) ssh_env \<Rightarrow> ('f, 'v) agent_moment \<Rightarrow> ustring \<Rightarrow> agent_conn \<Rightarrow> 'f agent_socket \<Rightarrow> ('f, 'v) agent_answer option \<times> 'v agent_effect list" where
  "confirm_login E m user ac st =
     (if confirm_mode_of (am_access m) (as_connection st) \<noteq> ConfirmOn then (None, [])
      else case connection_by_id (as_connection st) (am_index m 0) of
        Inl _ \<Rightarrow> (Some (refuse m (ascii ''the connection has been removed'') ac st), [])
      | Inr c \<Rightarrow>
          (if verdict_is_allowed (am_verdict m) then None
           else Some (refuse_with m (verdict_detail (am_verdict m)) (verdict_outcome (am_verdict m)) ac st),
           [AgentAsked (login_request E c user st)]))"

definition signed_entry :: "('f, 'p, 's) ssh_env \<Rightarrow> datetime \<Rightarrow> ustring \<Rightarrow> 'f agent_socket \<Rightarrow> audit_entry" where
  "signed_entry E wall user st =
     with_outcome (ascii ''signed'')
       (AuditEntry.with_detail (ascii ''host-bound userauth as '' @ user @ [32, 183, 32] @
           (case as_fingerprint st of Some f \<Rightarrow> fp_show (se_store E) f | None \<Rightarrow> ascii ''(unpinned)''))
         (with_connection (as_name st) (with_agent (as_agent st)
           (new_entry wall KSshSigned (ascii ''SSH authentication signed: '' @ as_name st)))))"

text \<open>What a sign request asks for, once its budget is charged: the login it names, or why it is refused.\<close>

definition sign_request :: "bytes \<Rightarrow> (bytes \<times> bytes \<times> 32 word) option" where
  "sign_request req =
     Option.bind (read_string req) (\<lambda>(k, d).
     Option.bind (read_string d) (\<lambda>(data, d).
     Option.bind (read_u32 d) (\<lambda>(flags, d). if d \<noteq> [] then None else Some (k, data, flags))))"

definition login_of ::
  "('f, 'p, 's) ssh_env \<Rightarrow> ssh_signer \<Rightarrow> ustring \<Rightarrow> session_binding option \<Rightarrow> bytes \<Rightarrow> ustring + ustring \<times> bytes \<times> 32 word" where
  "login_of E sg pinned_user binding req =
     (case binding of
        None \<Rightarrow> Err (ascii ''SSH client did not bind the configured host key'')
      | Some b \<Rightarrow>
          (case sign_request req of
             None \<Rightarrow> Err (ascii ''malformed sign request'')
           | Some (k, data, flags) \<Rightarrow>
               if k \<noteq> public_blob sg then Err (ascii ''sign request names a different key'')
               else (case parse_hostbound_userauth data (public_blob sg) of
                 None \<Rightarrow> Err (ascii ''data is not host-bound publickey userauth for the pinned key'')
               | Some a \<Rightarrow>
                   if hu_session_id a \<noteq> sb_session_id b then Err (ascii ''userauth session id does not match session-bind'')
                   else if hu_host_key a \<noteq> sb_host_key b then Err (ascii ''userauth host key does not match session-bind'')
                   else if hu_user a \<noteq> pinned_user then
                     Err (ascii ''userauth names '' @ debug_str (se_not_printable E) (hu_user a) @ ascii '', connection pins '' @
                       debug_str (se_not_printable E) pinned_user)
                   else Ok (hu_user a, data, flags))))"

definition sign_response ::
  "('f, 'p, 's) ssh_env \<Rightarrow> ssh_signer option \<Rightarrow> ('f, 'v) agent_moment \<Rightarrow> bytes \<Rightarrow> agent_conn \<Rightarrow> 'f agent_socket \<Rightarrow> ('f, 'v) agent_answer" where
  "sign_response E loaded m req ac st =
     (case loaded of
        None \<Rightarrow> refuse m (ascii ''connection has no SSH private key'') ac st
      | Some sg \<Rightarrow>
          (case window_check_at (as_signatures st) (am_instant m) of
             (Inl wait, w) \<Rightarrow>
               refuse_with m (ascii ''signature budget exhausted; '' @ show_nat (wait_secs wait) @ ascii ''s until the next slot'')
                 (ascii ''rate_limited'') ac (st\<lparr>as_signatures := w\<rparr>)
           | (Inr _, w) \<Rightarrow>
               let st = st\<lparr>as_signatures := w\<rparr> in
               (case login_of E sg (as_user st) (ac_binding ac) req of
                  Inl reason \<Rightarrow> refuse m reason ac st
                | Inr (user, data, flags) \<Rightarrow>
                    (case confirm_login E m user ac st of
                       (Some refusal, es) \<Rightarrow> more_effects es refusal
                     | (None, es) \<Rightarrow>
                         more_effects es
                           (case sign sg data flags of
                              Inl e \<Rightarrow> refuse m (ascii ''sign failed: '' @ e) ac st
                            | Inr blob \<Rightarrow>
                                (agent_frame SSH_AGENT_SIGN_RESPONSE (put_string blob), ac, st,
                                 [AgentAudited (signed_entry E (am_wall m) user st)]))))))"

subsection \<open>Requests\<close>

definition handle_request ::
  "('f, 'p, 's) ssh_env \<Rightarrow> ssh_signer option \<Rightarrow> ('f, 'v) agent_moment \<Rightarrow> 8 word \<Rightarrow> bytes \<Rightarrow> agent_conn \<Rightarrow> 'f agent_socket \<Rightarrow> ('f, 'v) agent_answer" where
  "handle_request E loaded m kind req ac st =
     (if ac_required ac \<and> \<not> ac_authenticated ac \<and> (ac_refused ac \<or> kind \<noteq> SSH_AGENTC_EXTENSION) then (agent_failure, ac, st, [])
      else if kind = SSH_AGENTC_REQUEST_IDENTITIES then
        (agent_frame SSH_AGENT_IDENTITIES_ANSWER (case loaded of Some sg \<Rightarrow> identities_answer sg (as_comment st) | None \<Rightarrow> put_i32 0), ac, st, [])
      else if kind = SSH_AGENTC_EXTENSION then
        (if is_authenticate req then authenticate_extension E m req ac st
         else if extension_name req \<noteq> SESSION_BIND_EXTENSION then (agent_failure, ac, st, [])
         else if ac_binding ac \<noteq> None then refuse m (ascii ''agent connection is already session-bound'') ac st
         else session_bind E m req ac st)
      else if kind = SSH_AGENTC_SIGN_REQUEST then sign_response E loaded m req ac st
      else (agent_failure, ac, st, []))"

end
