(* ===== verification/SshSafety.thy ===== *)
theory SshSafety
  imports SshAgent StoreEdits
begin

text \<open>
  What the agent protocol guarantees: a socket signs only logins that name the pinned user at the pinned, proven host key, and on an endpoint
  that asks for authentication nothing depends on the key before its secret was presented.
\<close>

subsection \<open>The wire\<close>

lemma read_u32_put: "read_u32 (put_i32 v @ rest) = Some (v, rest)"
  by (simp add: read_u32_def be_i32_put be_i32_put [of _ "[]", simplified])

abbreviation short :: "bytes \<Rightarrow> bool" where
  "short s \<equiv> length s < 4294967296"

lemma read_string_put: "short s \<Longrightarrow> read_string (put_string s @ rest) = Some (s, rest)"
  by (simp add: read_string_def put_string_def read_u32_put unat_of_nat take_bit_nat_eq_self_iff)

lemma read_u8_Cons [simp]: "read_u8 (b # d) = Some (b, d)"
  by (simp add: read_u8_def)

text \<open>
  An agent message of admissible length is read back as it was framed, and nothing after it is consumed.
\<close>

theorem agent_message_round_trip:
  assumes "length body < MAX_AGENT_MESSAGE"
  shows "read_agent_message (c\<lparr>rd_bytes := agent_frame k body @ rest\<rparr>) = (Ok (k, body), c\<lparr>rd_bytes := rest\<rparr>)"
proof -
  have "unat (of_nat (length body + 1) :: 32 word) = length body + 1"
    using assms by (simp only: unat_of_nat) (simp add: MAX_AGENT_MESSAGE_def take_bit_nat_eq_self_iff)
  moreover have "be_i32 (put_i32 v) = v" for v using be_i32_put [of v "[]"] by simp
  ultimately show ?thesis
    using assms by (simp add: read_agent_message_def read_exact_def agent_frame_def length_put_i32 Let_def)
qed

text \<open>A \<open>session-bind\<close> request and a host-bound sign request, as OpenSSH writes them.\<close>

definition put_session_bind :: "bytes \<Rightarrow> bytes \<Rightarrow> bytes \<Rightarrow> bytes" where
  "put_session_bind hk sid s = put_string SESSION_BIND_EXTENSION @ put_string hk @ put_string sid @ put_string s @ [0]"

definition put_userauth :: "bytes \<Rightarrow> ustring \<Rightarrow> bytes \<Rightarrow> bytes \<Rightarrow> bytes \<Rightarrow> bytes" where
  "put_userauth sid user alg blob hk = put_string sid @ SSH_MSG_USERAUTH_REQUEST # put_string (as_bytes user) @
     put_string (as_bytes (ascii ''ssh-connection'')) @ put_string HOSTBOUND_AUTH_METHOD @ 1 # put_string alg @ put_string blob @ put_string hk"

definition put_sign_request :: "bytes \<Rightarrow> bytes \<Rightarrow> 32 word \<Rightarrow> bytes" where
  "put_sign_request blob data flags = put_string blob @ put_string data @ put_i32 flags"

lemma length_as_bytes_Cons: "length (as_bytes (c # s)) = length (utf8_char c) + length (as_bytes s)" "length (as_bytes []) = 0"
  by (simp_all add: as_bytes_def)

lemma names_short [simp]: "short SESSION_BIND_EXTENSION" "short HOSTBOUND_AUTH_METHOD"
  by (simp_all add: SESSION_BIND_EXTENSION_def HOSTBOUND_AUTH_METHOD_def length_as_bytes_Cons utf8_char_def)

lemma parse_put_userauth:
  assumes "short sid" "short (as_bytes user)" "short alg" "short blob" "short hk" and "rust_string user"
  shows "parse_hostbound_userauth (put_userauth sid user alg blob hk) blob = Some \<lparr>hu_session_id = sid, hu_user = user, hu_host_key = hk\<rparr>"
  using assms read_string_put [of hk "[]"]
  by (simp add: parse_hostbound_userauth_def put_userauth_def read_string_put length_as_bytes_Cons utf8_char_def from_utf8_as_bytes)

lemma parse_put_sign_request:
  assumes "short blob" "short data"
  shows "sign_request (put_sign_request blob data flags) = Some (blob, data, flags)"
  using assms read_u32_put [of flags "[]"] by (simp add: sign_request_def put_sign_request_def read_string_put)

lemma fields_put_session_bind:
  assumes "short hk" "short sid" "short s"
  shows "session_bind_fields (put_session_bind hk sid s) = Ok (hk, sid, s)"
  using assms by (simp add: session_bind_fields_def put_session_bind_def read_string_put)

subsection \<open>The binding of a connection is always proven\<close>

text \<open>The host key with fingerprint \<open>fp\<close> signed the session id.\<close>

definition proven :: "('f, 'p, 's) ssh_env \<Rightarrow> 'f \<Rightarrow> session_binding \<Rightarrow> bool" where
  "proven E fp b \<longleftrightarrow> (\<exists>p s sg a. se_public E (sb_host_key b) = Ok p \<and> se_fingerprint E a p = fp \<and>
     se_signature E s = Ok sg \<and> se_verify E p (sb_session_id b) sg = Ok () \<and> certificate_algorithm (sb_host_key b) = None)"

definition conn_ok :: "('f, 'p, 's) ssh_env \<Rightarrow> agent_conn \<Rightarrow> 'f agent_socket \<Rightarrow> bool" where
  "conn_ok E ac st \<longleftrightarrow> (\<forall>b. ac_binding ac = Some b \<longrightarrow> (\<exists>fp. as_fingerprint st = Some fp \<and> proven E fp b))"

lemma and_then_Inr: "and_then r f = Inr y \<longleftrightarrow> (\<exists>x. r = Inr x \<and> f x = Inr y)"
  by (cases r) (auto simp: and_then_def)

lemma explain_Inr: "explain what r = Inr x \<longleftrightarrow> r = Inr x"
  by (cases r) (auto simp: explain_def)

lemma parsed_binding:
  assumes "parse_and_verify_session_bind E req = Inr (b, p)"
  shows "se_public E (sb_host_key b) = Ok p \<and> (\<exists>s sg. se_signature E s = Ok sg \<and> se_verify E p (sb_session_id b) sg = Ok ()) \<and>
    certificate_algorithm (sb_host_key b) = None"
  using assms by (auto simp: parse_and_verify_session_bind_def and_then_Inr explain_Inr split: option.splits) blast

lemma verified_binding: "verify_session_bind E req fp = Inr b \<Longrightarrow> proven E fp b"
  unfolding verify_session_bind_def and_then_Inr proven_def by (auto simp: Let_def split: if_splits dest!: parsed_binding)

lemma refuse_answer [simp]:
  "fst (refuse_with m r out ac st) = agent_failure" "fst (snd (refuse_with m r out ac st)) = ac" "fst (snd (snd (refuse_with m r out ac st))) = st"
  "fst (refuse m r ac st) = agent_failure" "fst (snd (refuse m r ac st)) = ac" "fst (snd (snd (refuse m r ac st))) = st"
  by (simp_all add: refuse_def refuse_with_def)

lemma more_effects_answer [simp]:
  "fst (more_effects es a) = fst a" "fst (snd (more_effects es a)) = fst (snd a)" "fst (snd (snd (more_effects es a))) = fst (snd (snd a))"
  by (simp_all add: more_effects_def split: prod.split)

text \<open>What a step may do to a connection and its socket: \<open>steady\<close> keeps the pin, the user and who the socket is for.\<close>

definition steady :: "'f agent_socket \<Rightarrow> 'f agent_socket \<Rightarrow> bool" where
  "steady st st' \<longleftrightarrow> as_user st' = as_user st \<and> as_endpoint st' = as_endpoint st \<and> as_connection st' = as_connection st \<and>
     (as_fingerprint st \<noteq> None \<longrightarrow> as_fingerprint st' = as_fingerprint st)"

lemma steady_refl [simp]: "steady st st"
  by (simp add: steady_def)

definition good_answer :: "('f, 'p, 's) ssh_env \<Rightarrow> agent_conn \<Rightarrow> 'f agent_socket \<Rightarrow> ('f, 'v) agent_answer \<Rightarrow> bool" where
  "good_answer E ac st a \<longleftrightarrow> steady st (fst (snd (snd a))) \<and> ac_required (fst (snd a)) = ac_required ac \<and>
     (conn_ok E ac st \<longrightarrow> conn_ok E (fst (snd a)) (fst (snd (snd a))))"

lemma conn_ok_steady: "conn_ok E ac st \<Longrightarrow> steady st st' \<Longrightarrow> conn_ok E ac st'"
  by (auto simp: conn_ok_def steady_def)

lemma refuse_good [simp]: "steady st st' \<Longrightarrow> good_answer E ac st (refuse m r ac st')" "steady st st' \<Longrightarrow> good_answer E ac st (refuse_with m r out ac st')"
  by (auto simp: good_answer_def intro: conn_ok_steady)

lemma more_effects_good [simp]: "good_answer E ac st (more_effects es a) = good_answer E ac st a"
  by (simp add: good_answer_def)

lemma bound_good: "steady st st' \<Longrightarrow> as_fingerprint st' = Some fp \<Longrightarrow> proven E fp b \<Longrightarrow> good_answer E ac st (bound b ac st' es)"
  by (simp add: good_answer_def bound_def conn_ok_def)

lemma bind_pinned_good: "steady st st' \<Longrightarrow> as_fingerprint st' = Some fp \<Longrightarrow> good_answer E ac st (bind_pinned E m req fp ac st')"
  by (auto simp: bind_pinned_def intro: bound_good dest: verified_binding split: sum.split)

lemma pin_observed_good:
  assumes "parse_and_verify_session_bind E req = Inr (b, p)" and "as_fingerprint st = None"
  shows "good_answer E ac st (pin_observed E m b p ac st)"
proof -
  have pr: "proven E (se_fingerprint E a p) b" for a using parsed_binding [OF assms(1)] by (auto simp: proven_def)
  have pin: "f = se_fingerprint E Sha256 p" if "pin_ssh_host_key (se_store E) i (se_fingerprint E Sha256 p) s = (Inr (Pinned f), s')" for f i s s'
    using that by (auto simp: pin_ssh_host_key_def commit_with_def split: option.splits connection_config.splits if_splits sum.splits prod.splits)
  have st: "steady st (st\<lparr>as_fingerprint := Some f\<rparr>)" for f using assms(2) by (simp add: steady_def)
  show ?thesis unfolding pin_observed_def
    by (auto split: prod.split sum.split pin_outcome.split simp: st dest: pin intro!: bound_good pr) (metis pr)
qed

lemma first_use_good: "as_fingerprint st = None \<Longrightarrow> good_answer E ac st (first_use E m req ac st)"
  by (auto simp: first_use_def confirm_host_key_def Let_def pin_observed_good split: sum.split prod.split option.split)

lemma tofu_good: "good_answer E ac st (tofu_session_bind E m req ac st)"
  by (auto simp: tofu_session_bind_def steady_def bind_pinned_good first_use_good split: option.split sum.split connection_config.split)


lemma session_bind_tofu:
  assumes "am_cached m = as_fingerprint st"
  shows "session_bind E m req ac st = tofu_session_bind E m req ac st"
proof -
  have "st\<lparr>as_fingerprint := am_cached m\<rparr> = st" using assms by (cases st) simp
  then show ?thesis by (cases "as_fingerprint st") (simp_all only: session_bind_def tofu_session_bind_def option.case)
qed

lemma authenticate_good: "good_answer E ac st (authenticate_extension E m req ac st)"
  by (auto simp: authenticate_extension_def good_answer_def conn_ok_def split: option.split)

lemma confirm_login_refusal: "confirm_login E m user ac st = (Some a, es) \<Longrightarrow> good_answer E ac st a \<and> fst a = agent_failure"
  by (auto simp: confirm_login_def split: if_splits sum.splits)

lemma sign_response_good: "good_answer E ac st (sign_response E sg m req ac st)"
proof -
  have st: "steady st (st\<lparr>as_signatures := w\<rparr>)" for w by (simp add: steady_def)
  have same: "good_answer E ac st a" if "good_answer E ac (st\<lparr>as_signatures := w\<rparr>) a" for a w
    using that by (auto simp: good_answer_def steady_def conn_ok_def)
  have signed: "good_answer E ac st (x, ac, st\<lparr>as_signatures := w\<rparr>, es)" for x es w
    by (simp add: good_answer_def st conn_ok_def)
  show ?thesis
    by (auto simp: sign_response_def Let_def st signed split: option.split sum.split prod.split dest!: confirm_login_refusal intro: same)
qed

lemma idle_good [simp]: "good_answer E ac st (x, ac, st, es)"
  by (simp add: good_answer_def)

lemma handle_request_good:
  assumes "am_cached m = as_fingerprint st"
  shows "good_answer E ac st (handle_request E sg m kind req ac st)"
  using assms by (simp add: handle_request_def agent_numbers authenticate_good session_bind_tofu tofu_good sign_response_good)

subsection \<open>What is signed\<close>

lemma agent_frame_kind: "agent_frame k b = agent_frame k' b' \<Longrightarrow> k = k' \<and> b = b'"
  unfolding agent_frame_def by (drule arg_cong [where f = "drop 4"]) simp

lemma agent_frame_neq [simp]:
  "agent_failure \<noteq> agent_frame SSH_AGENT_SIGN_RESPONSE b" "extension_failure \<noteq> agent_frame SSH_AGENT_SIGN_RESPONSE b"
  "agent_success \<noteq> agent_frame SSH_AGENT_SIGN_RESPONSE b" "agent_frame SSH_AGENT_IDENTITIES_ANSWER a \<noteq> agent_frame SSH_AGENT_SIGN_RESPONSE b"
  by (auto simp: agent_failure_def extension_failure_def agent_success_def agent_numbers dest: agent_frame_kind)

lemmas agent_frame_neq' [simp] = agent_frame_neq [symmetric]

lemma login_of_ok:
  assumes "login_of E sg u bnd req = Inr (user, data, flags)"
  shows "\<exists>b. bnd = Some b \<and> sign_request req = Some (public_blob sg, data, flags) \<and> user = u \<and>
    parse_hostbound_userauth data (public_blob sg) = Some \<lparr>hu_session_id = sb_session_id b, hu_user = u, hu_host_key = sb_host_key b\<rparr>"
  using assms by (auto simp: login_of_def split: option.splits if_splits)

lemma bind_answers: "fst (tofu_session_bind E m req ac st) \<in> {agent_failure, agent_success}"
  by (auto simp: tofu_session_bind_def bind_pinned_def first_use_def pin_observed_def confirm_host_key_def bound_def Let_def
      split: option.split sum.split prod.split connection_config.split pin_outcome.split)

lemma authenticate_answers: "fst (authenticate_extension E m req ac st) \<in> {extension_failure, agent_success}"
  by (auto simp: authenticate_extension_def split: option.split)

lemma sign_response_signed:
  assumes "fst (sign_response E loaded m req ac st) = agent_frame SSH_AGENT_SIGN_RESPONSE body"
  shows "\<exists>sg b data flags blob. loaded = Some sg \<and> ac_binding ac = Some b \<and> sign_request req = Some (public_blob sg, data, flags) \<and>
    parse_hostbound_userauth data (public_blob sg) = Some \<lparr>hu_session_id = sb_session_id b, hu_user = as_user st, hu_host_key = sb_host_key b\<rparr> \<and>
    sign sg data flags = Ok blob \<and> body = put_string blob \<and> fst (window_check_at (as_signatures st) (am_instant m)) = Ok () \<and>
    (confirm_mode_of (am_access m) (as_connection st) = ConfirmOn \<longrightarrow> verdict_is_allowed (am_verdict m))"
proof -
  from assms obtain sg w user data flags es blob where
    "loaded = Some sg" "window_check_at (as_signatures st) (am_instant m) = (Inr (), w)"
    and l: "login_of E sg (as_user st) (ac_binding ac) req = Inr (user, data, flags)"
    and c: "confirm_login E m user ac (st\<lparr>as_signatures := w\<rparr>) = (None, es)" and "sign sg data flags = Inr blob" "body = put_string blob"
    by (auto simp: sign_response_def Let_def split: option.splits sum.splits prod.splits dest!: confirm_login_refusal agent_frame_kind)
  moreover have "confirm_mode_of (am_access m) (as_connection st) = ConfirmOn \<longrightarrow> verdict_is_allowed (am_verdict m)"
    using c by (auto simp: confirm_login_def split: if_splits sum.splits)
  ultimately show ?thesis using login_of_ok [OF l] by auto
qed

lemma handle_request_signed:
  assumes "fst (handle_request E loaded m kind req ac st) = agent_frame SSH_AGENT_SIGN_RESPONSE body" and "am_cached m = as_fingerprint st"
  shows "kind = SSH_AGENTC_SIGN_REQUEST \<and> (ac_required ac \<longrightarrow> ac_authenticated ac) \<and>
    fst (sign_response E loaded m req ac st) = agent_frame SSH_AGENT_SIGN_RESPONSE body"
  using assms bind_answers [of E m req ac st] authenticate_answers [of E m req ac st]
  by (auto simp: handle_request_def agent_numbers(3,5,7) session_bind_tofu split: if_splits)

subsection \<open>A socket with its connections\<close>

type_synonym ('f, 'v) ssh_system = "'f agent_socket \<times> (nat \<Rightarrow> (ssh_signer option \<times> agent_conn) option) \<times> 'v agent_effect list"

text \<open>
  The connections of a socket in any order. A request counts at the moment it holds the gate, when it has read the pin; the
  requests of other connections that do not bind may run while it waits.
\<close>

inductive ssh_step :: "('f, 'p, 's) ssh_env \<Rightarrow> ('f, 'v) ssh_system \<Rightarrow> ('f, 'v) ssh_system \<Rightarrow> bool" for E where
  ssh_accept: "conns i = None \<Longrightarrow> ssh_step E (st, conns, log) (st, conns(i \<mapsto> (loaded, agent_auth_for r st)), log)"
| ssh_request: "conns i = Some (loaded, ac) \<Longrightarrow> am_cached m = as_fingerprint st \<Longrightarrow> handle_request E loaded m kind req ac st = (x, ac', st', es) \<Longrightarrow>
    ssh_step E (st, conns, log) (st', conns(i \<mapsto> (loaded, ac')), log @ es)"
| ssh_leave: "ssh_step E (st, conns, log) (st, conns(i := None), log)"

definition ssh_ok :: "('f, 'p, 's) ssh_env \<Rightarrow> 'f agent_socket \<Rightarrow> ('f, 'v) ssh_system \<Rightarrow> bool" where
  "ssh_ok E st0 s = (case s of (st, conns, log) \<Rightarrow> steady st0 st \<and> (\<forall>i loaded ac. conns i = Some (loaded, ac) \<longrightarrow> conn_ok E ac st))"

lemma steady_trans: "steady a b \<Longrightarrow> steady b c \<Longrightarrow> steady a c"
  by (auto simp: steady_def)

lemma ssh_step_ok: "ssh_step E s t \<Longrightarrow> ssh_ok E st0 s \<Longrightarrow> ssh_ok E st0 t"
proof (induction rule: ssh_step.induct)
  case (ssh_request conns i loaded ac m st kind req x ac' st' es log)
  from handle_request_good [OF ssh_request(2), of E ac loaded kind req] ssh_request(3)
  have g: "steady st st'" "conn_ok E ac st \<Longrightarrow> conn_ok E ac' st'" by (simp_all add: good_answer_def)
  from ssh_request(1,4) g show ?case by (auto simp: ssh_ok_def intro: steady_trans conn_ok_steady)
qed (auto simp: ssh_ok_def conn_ok_def agent_auth_for_def)

interpretation ssh_inv: invariant_system "ssh_step E" "ssh_ok E st0" for E and st0
  by unfold_locales (rule ssh_step_ok)

text \<open>
  C23. The agent signs nothing but logins: whatever requests the connections of a socket send in whatever order, each signature is over one
  host-bound login that names the socket's user, the signer's own key, and the session and host key that a \<open>session-bind\<close> on this very connection
  proved; that host key has the pinned fingerprint, which is the one the socket was opened with where it had one. Where
  traffic confirmation is on, the user approved this login; where authentication is required, it was given.
\<close>

theorem signs_only_pinned_logins:
  assumes "reaches (ssh_step E) (st0, (\<lambda>_. None), []) (st, conns, log)" and "conns i = Some (loaded, ac)" and "am_cached m = as_fingerprint st"
    and "fst (handle_request E loaded m kind req ac st) = agent_frame SSH_AGENT_SIGN_RESPONSE body"
  shows "\<exists>sg b fp data flags blob. loaded = Some sg \<and> kind = SSH_AGENTC_SIGN_REQUEST \<and> sign_request req = Some (public_blob sg, data, flags) \<and>
    parse_hostbound_userauth data (public_blob sg) = Some \<lparr>hu_session_id = sb_session_id b, hu_user = as_user st0, hu_host_key = sb_host_key b\<rparr> \<and>
    ac_binding ac = Some b \<and> as_fingerprint st = Some fp \<and> proven E fp b \<and> (as_fingerprint st0 \<noteq> None \<longrightarrow> as_fingerprint st0 = Some fp) \<and>
    sign sg data flags = Ok blob \<and> body = put_string blob \<and>
    (confirm_mode_of (am_access m) (as_connection st0) = ConfirmOn \<longrightarrow> verdict_is_allowed (am_verdict m)) \<and> (ac_required ac \<longrightarrow> ac_authenticated ac)"
proof -
  have "ssh_ok E st0 (st, conns, log)" by (rule ssh_inv.reaches_inv [OF assms(1)]) (simp add: ssh_ok_def)
  then have ok: "steady st0 st" "conn_ok E ac st" using assms(2) by (auto simp: ssh_ok_def)
  note r = handle_request_signed [OF assms(4,3)]
  from sign_response_signed [of E loaded m req ac st body] r obtain sg b data flags blob where
    s: "loaded = Some sg" "ac_binding ac = Some b" "sign_request req = Some (public_blob sg, data, flags)" "sign sg data flags = Ok blob" "body = put_string blob"
      "parse_hostbound_userauth data (public_blob sg) = Some \<lparr>hu_session_id = sb_session_id b, hu_user = as_user st, hu_host_key = sb_host_key b\<rparr>"
      "confirm_mode_of (am_access m) (as_connection st) = ConfirmOn \<longrightarrow> verdict_is_allowed (am_verdict m)" by blast
  moreover obtain fp where "as_fingerprint st = Some fp" "proven E fp b" using ok(2) s(2) by (auto simp: conn_ok_def)
  ultimately show ?thesis using r ok(1) by (auto simp: steady_def)
qed

lemma bind_names:
  "extension_name (put_session_bind hk sid s) = SESSION_BIND_EXTENSION" "\<not> is_authenticate (put_session_bind hk sid s)"
proof -
  show n: "extension_name (put_session_bind hk sid s) = SESSION_BIND_EXTENSION"
    by (simp add: extension_name_def put_session_bind_def read_string_put)
  show "\<not> is_authenticate (put_session_bind hk sid s)"
    by (simp add: is_authenticate_def n SESSION_BIND_EXTENSION_def AUTHENTICATE_EXTENSION_def LEGACY_AUTHENTICATE_EXTENSION_def as_bytes_def utf8_char_def)
qed

subsection \<open>Before authentication\<close>

text \<open>The answers to the requests of one connection; the socket may change between them.\<close>

fun conversation :: "('f, 'p, 's) ssh_env \<Rightarrow> ssh_signer option \<Rightarrow> (8 word \<times> bytes \<times> ('f, 'v) agent_moment \<times> 'f agent_socket) list \<Rightarrow> agent_conn \<Rightarrow> bytes list" where
  "conversation E loaded [] ac = []"
| "conversation E loaded ((kind, req, m, st) # rs) ac =
     (let a = handle_request E loaded m kind req ac st in fst a # conversation E loaded rs (fst (snd a)))"

definition no_secret :: "('f, 'p, 's) ssh_env \<Rightarrow> uuid \<Rightarrow> 8 word \<times> bytes \<times> ('f, 'v) agent_moment \<times> 'f agent_socket \<Rightarrow> bool" where
  "no_secret E ep x = (case x of (kind, req, m, st) \<Rightarrow> as_endpoint st = Some ep \<and>
     (\<forall>s. is_authenticate req \<and> presented_secret req = Some s \<longrightarrow> \<not> secret_matches E m ep s))"

lemma session_bind_fields_kept:
  "ac_required (fst (snd (session_bind E m req ac st))) = ac_required ac \<and> ac_authenticated (fst (snd (session_bind E m req ac st))) = ac_authenticated ac \<and>
   fst (session_bind E m req ac st) \<in> {agent_failure, agent_success}"
  by (auto simp: session_bind_def tofu_session_bind_def bind_pinned_def first_use_def pin_observed_def confirm_host_key_def bound_def Let_def
      split: option.split sum.split prod.split connection_config.split pin_outcome.split)

lemma unauthenticated_step:
  assumes "ac_required ac" and "\<not> ac_authenticated ac" and "no_secret E ep (kind, req, m, st)"
  shows "handle_request E loaded m kind req ac st = handle_request E other m kind req ac st \<and>
    ac_required (fst (snd (handle_request E loaded m kind req ac st))) \<and> \<not> ac_authenticated (fst (snd (handle_request E loaded m kind req ac st))) \<and>
    fst (handle_request E loaded m kind req ac st) \<in> {agent_failure, extension_failure, agent_success}"
  using assms session_bind_fields_kept [of E m req ac st]
  by (auto simp: handle_request_def agent_numbers(3,5,7) no_secret_def authenticate_extension_def split: option.split)

text \<open>
  C24. On an endpoint that requires authentication, until the endpoint's secret is presented nothing depends on the key: whatever is asked, the answers are the same
  for every key, none lists an identity and none is a signature.
\<close>

theorem unauthenticated_key_unused:
  assumes "ac_required ac" and "\<not> ac_authenticated ac" and "\<forall>x \<in> set rs. no_secret E ep x"
  shows "conversation E loaded rs ac = conversation E other rs ac \<and> set (conversation E loaded rs ac) \<subseteq> {agent_failure, extension_failure, agent_success}"
  using assms
proof (induction rs arbitrary: ac)
  case (Cons x rs)
  obtain kind req m st where x: "x = (kind, req, m, st)" by (cases x)
  have n: "no_secret E ep (kind, req, m, st)" using Cons.prems(3) x by simp
  note s = unauthenticated_step [OF Cons.prems(1,2) n, of loaded other]
  let ?ac = "fst (snd (handle_request E other m kind req ac st))"
  from s have h: "handle_request E loaded m kind req ac st = handle_request E other m kind req ac st" ..
  have "\<forall>x \<in> set rs. no_secret E ep x" using Cons.prems(3) by simp
  from Cons.IH [OF _ _ this, of ?ac] s [unfolded h]
  have "conversation E loaded rs ?ac = conversation E other rs ?ac" "set (conversation E loaded rs ?ac) \<subseteq> {agent_failure, extension_failure, agent_success}"
    by blast+
  with s show ?case by (simp add: x Let_def h)
qed simp

text \<open>
  But a \<open>session-bind\<close> passes the guard, which only looks at the message number: a caller that never authenticated, on an endpoint that demands it, gets the
  first host key it presents pinned for the tool, for good.
\<close>

lemma unauthenticated_pins_host_key:
  assumes "ac_required ac" "\<not> ac_authenticated ac" "\<not> ac_refused ac" "ac_binding ac = None"
    and "am_cached m = None" "as_fingerprint st = None"
    and "connection_by_id (as_connection st) (am_index m 0) = Ok c" "conn_config c = Ssh h" "host_key_fingerprint h = []"
    and "parse_and_verify_session_bind E (put_session_bind hk sid sg) = Ok (b, p)" "short hk" "short sid" "short sg"
    and "\<not> confirm_ssh_host_keys (index_settings (am_index m 1))"
    and "pin_ssh_host_key (se_store E) (as_connection st) (se_fingerprint E Sha256 p) (am_store m) = (Ok (Pinned f), s)"
  shows "\<exists>es. handle_request E loaded m SSH_AGENTC_EXTENSION (put_session_bind hk sid sg) ac st =
    (agent_success, ac\<lparr>ac_binding := Some b\<rparr>, st\<lparr>as_fingerprint := Some f\<rparr>, StoreWritten s # es)"
proof -
  show ?thesis using assms
    by (simp add: handle_request_def agent_numbers(3,5,7) bind_names session_bind_tofu tofu_session_bind_def first_use_def pin_observed_def bound_def)
qed

text \<open>
  And the limit of one guess per connection holds only where authentication is demanded: elsewhere every wrong secret is tried and recorded.
\<close>

lemma guesses_not_limited:
  assumes "\<not> ac_required ac \<or> ac_authenticated ac" and "as_endpoint st = Some ep" and "is_authenticate req" and "presented_secret req = Some x"
    and "\<not> secret_matches E m ep x"
  shows "handle_request E loaded m SSH_AGENTC_EXTENSION req ac st =
    (extension_failure, ac\<lparr>ac_refused := True\<rparr>, st, [AgentAudited (wrong_secret_entry E (am_wall m) ep st)])"
  using assms by (auto simp: handle_request_def agent_numbers authenticate_extension_def)


subsection \<open>The signature budget\<close>

text \<open>
  The signatures a socket issues while it serves the given requests, of whatever connections, in the order in which their
  budget slots were taken: when the slot was taken, and when the signature was made. A login may wait for the user's decision
  between the two, while other connections go on; the number with each request is how long it took.
\<close>

definition is_signature :: "bytes \<Rightarrow> bool" where
  "is_signature x \<longleftrightarrow> hd (drop 4 x) = SSH_AGENT_SIGN_RESPONSE"

fun signatures_of ::
  "('f, 'p, 's) ssh_env \<Rightarrow> (duration \<times> ssh_signer option \<times> agent_conn \<times> ('f, 'v) agent_moment \<times> 8 word \<times> bytes) list \<Rightarrow> 'f agent_socket \<Rightarrow>
     (instant \<times> instant) list" where
  "signatures_of E [] st = []"
| "signatures_of E ((took, loaded, ac, m, kind, req) # xs) st =
     (let a = handle_request E loaded m kind req ac st
      in (if is_signature (fst a) then [(am_instant m, am_instant m + took)] else []) @ signatures_of E xs (fst (snd (snd a))))"

definition signature_times ::
  "('f, 'p, 's) ssh_env \<Rightarrow> (duration \<times> ssh_signer option \<times> agent_conn \<times> ('f, 'v) agent_moment \<times> 8 word \<times> bytes) list \<Rightarrow> 'f agent_socket \<Rightarrow>
     instant list" where
  "signature_times E xs st = map snd (signatures_of E xs st)"

abbreviation request_time :: "duration \<times> ssh_signer option \<times> agent_conn \<times> ('f, 'v) agent_moment \<times> 8 word \<times> bytes \<Rightarrow> instant" where
  "request_time x \<equiv> am_instant (fst (snd (snd (snd x))))"

lemma not_signature [simp]: "\<not> is_signature agent_failure" "\<not> is_signature extension_failure" "\<not> is_signature agent_success"
  "\<not> is_signature (agent_frame SSH_AGENT_IDENTITIES_ANSWER b)"
  by (simp_all add: is_signature_def agent_failure_def extension_failure_def agent_success_def agent_frame_def agent_numbers)

lemma sign_response_budget:
  "as_signatures (fst (snd (snd (sign_response E (Some sg) m req ac st)))) = window_step (as_signatures st) (am_instant m) \<and>
   (is_signature (fst (sign_response E (Some sg) m req ac st)) \<longrightarrow> window_admits (as_signatures st) (am_instant m))"
proof -
  have c: "fst (snd (snd a)) = st \<and> fst a = agent_failure" if "confirm_login E m user ac st = (Some a, es)" for a es st user
    using that by (auto simp: confirm_login_def split: if_splits sum.splits)
  show ?thesis
    by (auto simp: sign_response_def Let_def window_step_def window_admits_def split: sum.split prod.split option.split dest!: c)
qed

lemma sign_response_socket:
  "fst (snd (snd (sign_response E (Some sg) m req ac st))) = st\<lparr>as_signatures := window_step (as_signatures st) (am_instant m)\<rparr>"
proof -
  have c: "fst (snd (snd a)) = st" if "confirm_login E m user ac st = (Some a, es)" for a es st user
    using that by (auto simp: confirm_login_def split: if_splits sum.splits)
  show ?thesis
    by (auto simp: sign_response_def Let_def window_step_def split: sum.split prod.split option.split dest!: c)
qed

lemma session_bind_budget: "as_signatures (fst (snd (snd (session_bind E m req ac st)))) = as_signatures st"
  by (auto simp: session_bind_def tofu_session_bind_def bind_pinned_def first_use_def pin_observed_def confirm_host_key_def bound_def Let_def
      split: option.split sum.split prod.split connection_config.split pin_outcome.split)

lemma handle_request_budget:
  "as_signatures (fst (snd (snd (handle_request E loaded m kind req ac st)))) = window_step (as_signatures st) (am_instant m) \<and>
     (is_signature (fst (handle_request E loaded m kind req ac st)) \<longrightarrow> window_admits (as_signatures st) (am_instant m)) \<or>
   as_signatures (fst (snd (snd (handle_request E loaded m kind req ac st)))) = as_signatures st \<and>
     \<not> is_signature (fst (handle_request E loaded m kind req ac st))"
proof (cases "kind = SSH_AGENTC_SIGN_REQUEST \<and> (ac_required ac \<longrightarrow> ac_authenticated ac) \<and> loaded \<noteq> None")
  case True
  then obtain sg where "loaded = Some sg" by blast
  with True sign_response_budget [of E sg m req ac st] show ?thesis by (auto simp: handle_request_def agent_numbers(3,5,7))
next
  case False
  have "\<not> is_signature (fst (session_bind E m req ac st))" "\<not> is_signature (fst (authenticate_extension E m req ac st))"
    using session_bind_fields_kept [of E m req ac st] authenticate_answers [of E m req ac st] by auto
  moreover have "as_signatures (fst (snd (snd (authenticate_extension E m req ac st)))) = as_signatures st"
    by (simp add: authenticate_extension_def split: option.split)
  ultimately show ?thesis using False session_bind_budget [of E m req ac st]
    by (auto simp: handle_request_def agent_numbers(3,5,7) sign_response_def split: option.split)
qed

lemma signature_slots_admitted:
  "\<exists>ts. subseq ts (map request_time xs) \<and>
     subseq (map fst (signatures_of E xs st)) (admitted_times window_step window_admits (\<lambda>now. now) (as_signatures st) ts)"
proof (induction xs arbitrary: st)
  case (Cons x xs)
  obtain took loaded ac m kind req where x: "x = (took, loaded, ac, m, kind, req)" by (cases x)
  let ?st = "fst (snd (snd (handle_request E loaded m kind req ac st)))"
  obtain ts where ts: "subseq ts (map request_time xs)"
    "subseq (map fst (signatures_of E xs ?st)) (admitted_times window_step window_admits (\<lambda>now. now) (as_signatures ?st) ts)" using Cons by blast
  from handle_request_budget [of E loaded m kind req ac st] show ?case
  proof
    assume b: "as_signatures ?st = window_step (as_signatures st) (am_instant m) \<and>
      (is_signature (fst (handle_request E loaded m kind req ac st)) \<longrightarrow> window_admits (as_signatures st) (am_instant m))"
    then show ?thesis using ts by (intro exI [of _ "am_instant m # ts"]) (auto simp: x Let_def)
  next
    assume "as_signatures ?st = as_signatures st \<and> \<not> is_signature (fst (handle_request E loaded m kind req ac st))"
    then show ?thesis using ts by (intro exI [of _ ts]) (auto simp: x Let_def)
  qed
qed (simp add: exI [of _ "[]"])

lemma sorted_subseq: "subseq ts xs \<Longrightarrow> sorted xs \<Longrightarrow> sorted (ts :: 'a :: linorder list)"
  by (induction rule: list_emb.induct) (auto dest: list_emb_set)

lemma signature_slots_budget:
  assumes "as_signatures st = window_new budget w" and "sorted (map request_time xs)"
  shows "hits_within t w (map fst (signatures_of E xs st)) \<le> budget"
proof -
  obtain ts where ts: "subseq ts (map request_time xs)"
    "subseq (map fst (signatures_of E xs st)) (admitted_times window_step window_admits (\<lambda>now. now) (as_signatures st) ts)"
    using signature_slots_admitted by blast
  have "sorted ts" using assms(2) ts(1) by (rule sorted_subseq [rotated])
  then have "hits_within t w (admitted_times window_step window_admits (\<lambda>now. now) (window_new budget w) ts) \<le> budget"
    using global_window.budget [of "window_new budget w" w budget ts t] by (simp add: window_new_def)
  moreover have "hits_within t w as \<le> hits_within t w bs" if "subseq as bs" for as bs
    unfolding hits_within_def by (rule list_emb_length [OF subseq_filter [OF that]])
  ultimately show ?thesis using ts(2) assms(1) by (metis le_trans)
qed

lemma signatures_of_delay:
  assumes "(slot, made) \<in> set (signatures_of E xs st)" and "\<forall>x \<in> set xs. fst x \<le> delay"
  shows "slot \<le> made \<and> made \<le> slot + delay"
  using assms by (induction xs arbitrary: st) (auto simp: Let_def split: if_splits)

text \<open>An interval of the later times is covered by as many intervals of the earlier ones as the delay asks for.\<close>

definition windows_for :: "duration \<Rightarrow> duration \<Rightarrow> nat" where
  "windows_for delay w = 1 + (delay + w) div (w + 1)"

lemma covering_window:
  assumes "t - delay \<le> slot" and "slot \<le> t + w"
  shows "\<exists>k < windows_for delay w. (t - delay) + k * (w + 1) \<le> slot \<and> slot \<le> (t - delay) + k * (w + 1) + (w :: nat)"
proof -
  let ?d = "slot - (t - delay)" and ?n = "w + 1"
  have n: "?d div ?n * ?n \<le> ?d" "?d < ?d div ?n * ?n + ?n"
    using dividend_less_div_times [of ?n ?d] div_times_less_eq_dividend [of ?d ?n] by linarith+
  have "?d \<le> delay + w" using assms by linarith
  then have "?d div ?n \<le> (delay + w) div ?n" by (rule div_le_mono)
  then have "?d div ?n < windows_for delay w" by (simp add: windows_for_def)
  moreover have "(t - delay) + ?d div ?n * ?n \<le> slot" using n(1) assms(1) by linarith
  moreover have "slot \<le> (t - delay) + ?d div ?n * ?n + w" using n(2) assms(1) by linarith
  ultimately show ?thesis by blast
qed

lemma hits_delayed:
  assumes "\<forall>(slot, made) \<in> set ps. slot \<le> made \<and> made \<le> slot + delay"
  shows "hits_within t w (map snd ps) \<le> (\<Sum>k < windows_for delay w. hits_within ((t - delay) + k * (w + 1)) w (map fst ps))"
  using assms
proof (induction ps)
  case (Cons p ps)
  obtain slot made where p: "p = (slot, made)" by (cases p)
  let ?from = "\<lambda>k. (t - delay) + k * (w + 1)"
  let ?one = "\<lambda>k. if ?from k \<le> slot \<and> slot \<le> ?from k + w then 1 else 0 :: nat"
  have step: "hits_within (?from k) w (map fst (p # ps)) = ?one k + hits_within (?from k) w (map fst ps)" for k
    by (simp add: p hits_within_def)
  have "(if t \<le> made \<and> made \<le> t + w then 1 else 0 :: nat) \<le> (\<Sum>k < windows_for delay w. ?one k)"
  proof (cases "t \<le> made \<and> made \<le> t + w")
    case True
    with Cons.prems have "t - delay \<le> slot" "slot \<le> t + w" by (auto simp: p)
    from covering_window [OF this] obtain k where k: "k < windows_for delay w" "?one k = 1" by auto
    then have "?one k \<le> (\<Sum>k < windows_for delay w. ?one k)" by (intro member_le_sum) auto
    with True k(2) show ?thesis by simp
  next
    case False
    then show ?thesis by (simp only: if_False le0)
  qed
  moreover have "hits_within t w (map snd ps) \<le> (\<Sum>k < windows_for delay w. hits_within (?from k) w (map fst ps))"
    using Cons by simp
  moreover have "hits_within t w (map snd (p # ps)) = (if t \<le> made \<and> made \<le> t + w then 1 else 0) + hits_within t w (map snd ps)"
    by (simp add: p hits_within_def)
  ultimately show ?case unfolding step sum.distrib by linarith
qed (simp add: hits_within_def)

text \<open>
  C25. However many connections drive a socket, and whatever they send, no interval as long as the budget's window sees more budget slots taken
  for signatures than the budget has. A signature itself may be made later than its slot was taken, as a login may wait for the
  user's decision; if no signature is made more than \<open>delay\<close> after its slot was taken, no such interval sees more signatures than the budget of
  \<open>windows_for delay w\<close> windows: of one if nothing waits, of three for the default window of 60 and decision time of 90 seconds.
\<close>

theorem signature_budget:
  assumes "as_signatures st = window_new budget w" and "sorted (map request_time xs)" and "\<forall>x \<in> set xs. fst x \<le> delay"
  shows "hits_within t w (map fst (signatures_of E xs st)) \<le> budget \<and>
    hits_within t w (signature_times E xs st) \<le> windows_for delay w * budget \<and>
    windows_for 0 w = 1 \<and> windows_for 90 60 = 3"
proof -
  have "hits_within t w (signature_times E xs st) \<le>
      (\<Sum>k < windows_for delay w. hits_within ((t - delay) + k * (w + 1)) w (map fst (signatures_of E xs st)))"
    unfolding signature_times_def by (rule hits_delayed) (use signatures_of_delay assms(3) in blast)
  also have "\<dots> \<le> (\<Sum>k < windows_for delay w. budget)" by (intro sum_mono signature_slots_budget assms(1,2))
  finally show ?thesis using signature_slots_budget [OF assms(1,2)] by (simp add: windows_for_def)
qed

subsection \<open>A conforming client\<close>

lemma conforming_bind:
  assumes "ac_required ac \<longrightarrow> ac_authenticated ac" and "ac_binding ac = None" and "as_fingerprint st = Some fp"
    and "se_public E hk = Ok p" and "certificate_algorithm hk = None" and "se_signature E s = Ok sg" and "se_verify E p sid sg = Ok ()"
    and "se_fingerprint E (se_algorithm E fp) p = fp" and "short hk" "short sid" "short s"
  shows "handle_request E loaded m SSH_AGENTC_EXTENSION (put_session_bind hk sid s) ac st =
    (agent_success, ac\<lparr>ac_binding := Some \<lparr>sb_host_key = hk, sb_session_id = sid\<rparr>\<rparr>, st, [])"
proof -
  have "verify_session_bind E (put_session_bind hk sid s) fp = Ok \<lparr>sb_host_key = hk, sb_session_id = sid\<rparr>"
    using assms(4-11) fields_put_session_bind [of hk sid s]
    by (simp add: verify_session_bind_def parse_and_verify_session_bind_def and_then_def explain_def)
  then show ?thesis
    using assms(1-3) by (auto simp: handle_request_def agent_numbers(3,5,7) bind_names session_bind_def bind_pinned_def bound_def)
qed

lemma conforming_sign:
  assumes "ac_required ac \<longrightarrow> ac_authenticated ac" and "ac_binding ac = Some \<lparr>sb_host_key = hk, sb_session_id = sid\<rparr>"
    and "list_all short [hk, sid, alg, public_blob sk, data, as_bytes user]" and "rust_string user" and "as_user st = user"
    and "data = put_userauth sid user alg (public_blob sk) hk"
    and "window_admits (as_signatures st) (am_instant m)" and "sign sk data flags = Ok blob"
    and "confirm_mode_of (am_access m) (as_connection st) = ConfirmOn \<longrightarrow>
      verdict_is_allowed (am_verdict m) \<and> \<not> is_err (connection_by_id (as_connection st) (am_index m 0))"
  shows "fst (handle_request E (Some sk) m SSH_AGENTC_SIGN_REQUEST (put_sign_request (public_blob sk) data flags) ac st) =
    agent_frame SSH_AGENT_SIGN_RESPONSE (put_string blob)"
proof -
  have l: "login_of E sk user (ac_binding ac) (put_sign_request (public_blob sk) data flags) = Ok (user, data, flags)"
    using assms(2-4,6) by (simp add: login_of_def parse_put_sign_request parse_put_userauth)
  obtain w where w: "window_check_at (as_signatures st) (am_instant m) = (Ok (), w)"
    using assms(7) by (cases "window_check_at (as_signatures st) (am_instant m)") (auto simp: window_admits_def)
  have "\<exists>es. confirm_login E m user ac (st\<lparr>as_signatures := w\<rparr>) = (None, es)"
    using assms(9) by (cases "connection_by_id (as_connection st) (am_index m 0)") (auto simp: confirm_login_def)
  then obtain es where "confirm_login E m user ac (st\<lparr>as_signatures := w\<rparr>) = (None, es)" by blast
  then show ?thesis using assms(1,5,8) w l
    by (auto simp: handle_request_def agent_numbers(3,5,7) sign_response_def Let_def)
qed

text \<open>
  C26. The checks refuse no honest login: a client that binds its session to the pinned key and asks, as OpenSSH writes it, for a login as the pinned
  user with the key that was listed gets its signature. It is assumed that the connection has authenticated itself if the endpoint demands it and was not
  bound before, that the host key is no certificate, has the pinned fingerprint and verifies the signature of the session id, that every field is
  short enough for a four-byte length, that the budget has a slot left, that with confirmation on the connection still exists and the gate allows the
  login, and that the key itself signs.
\<close>

theorem conforming_login_signed:
  assumes "ac_required ac \<longrightarrow> ac_authenticated ac" and "ac_binding ac = None" and "as_fingerprint st = Some fp"
    and "se_public E hk = Ok p" and "certificate_algorithm hk = None" and "se_signature E s = Ok sg" and "se_verify E p sid sg = Ok ()"
    and "se_fingerprint E (se_algorithm E fp) p = fp" and "list_all short [hk, sid, s, alg, public_blob sk, data, as_bytes user]"
    and "rust_string user" and "as_user st = user" and "data = put_userauth sid user alg (public_blob sk) hk"
    and "window_admits (as_signatures st) (am_instant m')" and "sign sk data flags = Ok blob"
    and "confirm_mode_of (am_access m') (as_connection st) = ConfirmOn \<longrightarrow>
      verdict_is_allowed (am_verdict m') \<and> \<not> is_err (connection_by_id (as_connection st) (am_index m' 0))"
  shows "let (x, ac', st', es) = handle_request E (Some sk) m SSH_AGENTC_EXTENSION (put_session_bind hk sid s) ac st in
    x = agent_success \<and>
    fst (handle_request E (Some sk) m' SSH_AGENTC_SIGN_REQUEST (put_sign_request (public_blob sk) data flags) ac' st') =
      agent_frame SSH_AGENT_SIGN_RESPONSE (put_string blob)"
proof -
  have bind: "handle_request E (Some sk) m SSH_AGENTC_EXTENSION (put_session_bind hk sid s) ac st =
      (agent_success, ac\<lparr>ac_binding := Some \<lparr>sb_host_key = hk, sb_session_id = sid\<rparr>\<rparr>, st, [])"
    by (rule conforming_bind) (use assms in auto)
  show ?thesis unfolding bind by simp (rule conforming_sign, use assms in auto)
qed

subsection \<open>An example\<close>

definition example_names :: "unit store_env" where
  "example_names = \<lparr>url_parse = (\<lambda>_. None), fp_parse = (\<lambda>_. Ok ()), fp_show = (\<lambda>_. ascii ''SHA256:x''), unprintable = (\<lambda>_. False)\<rparr>"

text \<open>A key pair whose signatures are always accepted, and a login as \<open>u\<close>.\<close>

definition example_ssh :: "(unit, unit, unit) ssh_env" where
  "example_ssh = \<lparr>se_store = example_names, se_public = (\<lambda>_. Ok ()), se_signature = (\<lambda>_. Ok ()), se_verify = (\<lambda>_ _ _. Ok ()),
     se_fingerprint = (\<lambda>_ _. ()), se_algorithm = (\<lambda>_. Sha256), se_not_printable = (\<lambda>_. False), se_secret_hash = (\<lambda>s. s), se_uuid_text = (\<lambda>_. []),
     se_secret_name = (\<lambda>_. None), se_error_text = (\<lambda>_. [])\<rparr>"

definition example_key :: ssh_signer where
  "example_key = \<lparr>sg_key = Ed25519Key, public_blob = [9], sg_plain = (\<lambda>_. Ok [7]), sg_rsa = None\<rparr>"

definition example_socket :: "unit agent_socket" where
  "example_socket = \<lparr>as_endpoint = Some 3, as_user = ascii ''u'', as_connection = 7, as_name = [], as_approved = 0, as_expires = None, as_agent = [],
     as_comment = [], as_fingerprint = Some (), as_signatures = window_new 1 60\<rparr>"

definition example_moment :: "(unit, memory_vault) agent_moment" where
  "example_moment = \<lparr>am_wall = 0, am_instant = 5, am_access = \<lparr>entries = [], generation = 0, has_generation_store = True\<rparr>, am_index = (\<lambda>_. default_index),
     am_endpoints = \<lparr>max_total = 4, endpoints = [], reg_file = None\<rparr>, am_cached = Some (), am_verdict = VAllowed, am_store = empty_store\<rparr>"

definition example_conn :: agent_conn where
  "example_conn = \<lparr>ac_binding = None, ac_required = False, ac_authenticated = False, ac_refused = False\<rparr>"

definition example_login :: bytes where
  "example_login = put_userauth [2] (ascii ''u'') [] [9] [1]"

lemma length_put_string: "length (put_string s) = 4 + length s"
  by (simp add: put_string_def)

lemma example_login_short: "short example_login"
  by (simp add: example_login_def put_userauth_def length_put_string length_as_bytes_Cons utf8_char_def HOSTBOUND_AUTH_METHOD_def)

theorem conforming_login_signed_witness:
  "let (x, ac', st', es) = handle_request example_ssh (Some example_key) example_moment SSH_AGENTC_EXTENSION (put_session_bind [1] [2] [3]) example_conn example_socket in
    x = agent_success \<and>
    fst (handle_request example_ssh (Some example_key) example_moment SSH_AGENTC_SIGN_REQUEST (put_sign_request (public_blob example_key) example_login 0) ac' st') =
      agent_frame SSH_AGENT_SIGN_RESPONSE (put_string [7])"
proof (rule conforming_login_signed [where user = "ascii ''u''" and p = "()" and fp = "()" and alg = "[]" and sg = "()" and hk = "[1]" and sid = "[2]" and s = "[3]"])
  show "list_all short [[1], [2], [3], [], public_blob example_key, example_login, as_bytes (ascii ''u'')]"
    using example_login_short by (simp add: example_key_def length_as_bytes_Cons utf8_char_def)
  show "rust_string (ascii ''u'')" by (simp add: rust_string_def is_scalar_def)
  show "certificate_algorithm [1] = None" by (simp add: certificate_algorithm_def read_string_def read_u32_def)
  show "window_admits (as_signatures example_socket) (am_instant example_moment)"
    by (simp add: window_admits_def window_check_at_def window_new_def example_socket_def)
qed (simp_all add: example_ssh_def example_socket_def example_conn_def example_moment_def example_login_def example_key_def sign_def explain_def
      confirm_mode_of_def access_entry_def)


definition example_bound :: agent_conn where
  "example_bound = example_conn\<lparr>ac_binding := Some \<lparr>sb_host_key = [1], sb_session_id = [2]\<rparr>\<rparr>"

lemma example_bind:
  "handle_request example_ssh (Some example_key) example_moment SSH_AGENTC_EXTENSION (put_session_bind [1] [2] [3]) example_conn example_socket =
     (agent_success, example_bound, example_socket, [])"
  unfolding example_bound_def
  by (rule conforming_bind [where p = "()" and fp = "()" and sg = "()"])
    (simp_all add: example_conn_def example_ssh_def example_socket_def certificate_algorithm_def read_string_def read_u32_def)

lemma example_sign:
  "fst (handle_request example_ssh (Some example_key) example_moment SSH_AGENTC_SIGN_REQUEST (put_sign_request [9] example_login 0) example_bound example_socket) =
     agent_frame SSH_AGENT_SIGN_RESPONSE (put_string [7])"
proof -
  have u: "rust_string (ascii ''u'')" by (simp add: rust_string_def is_scalar_def)
  have b: "public_blob example_key = [9]" by (simp add: example_key_def)
  show ?thesis
    by (rule conforming_sign [where sk = example_key, OF _ _ _ u, unfolded b, where hk = "[1]" and sid = "[2]" and alg = "[]"])
      (use example_login_short in \<open>simp_all add: example_bound_def example_conn_def example_moment_def example_socket_def example_login_def example_key_def
        sign_def explain_def confirm_mode_of_def access_entry_def length_as_bytes_Cons utf8_char_def window_admits_def window_check_at_def window_new_def b\<close>)
qed

lemma example_instant: "am_instant example_moment = 5" "am_cached example_moment = as_fingerprint example_socket"
  by (simp_all add: example_moment_def example_socket_def)

theorem signs_only_pinned_logins_witness:
  "\<exists>data. sign_request (put_sign_request [9] example_login 0) = Some ([9], data, 0) \<and>
     parse_hostbound_userauth data [9] = Some \<lparr>hu_session_id = [2], hu_user = as_user example_socket, hu_host_key = [1]\<rparr> \<and>
     proven example_ssh () \<lparr>sb_host_key = [1], sb_session_id = [2]\<rparr>"
proof -
  let ?conns = "(\<lambda>_. None)(0 := Some (Some example_key, example_bound))"
  have c: "agent_auth_for \<lparr>max_total = 4, endpoints = [], reg_file = None\<rparr> example_socket = example_conn"
    by (simp add: agent_auth_for_def example_socket_def example_conn_def get_endpoint_def)
  have s1: "ssh_step example_ssh (example_socket, (\<lambda>_. None), [] :: memory_vault agent_effect list)
      (example_socket, (\<lambda>_. None)(0 \<mapsto> (Some example_key, example_conn)), [])"
    using ssh_accept [where conns = "\<lambda>_. None" and i = 0 and st = example_socket and loaded = "Some example_key"
        and r = "\<lparr>max_total = 4, endpoints = [], reg_file = None\<rparr>"] by (simp add: c)
  have s2: "ssh_step example_ssh (example_socket, (\<lambda>_. None)(0 \<mapsto> (Some example_key, example_conn)), [] :: memory_vault agent_effect list) (example_socket, ?conns, [])"
    using ssh_request [OF _ _ example_bind, where conns = "(\<lambda>_. None)(0 \<mapsto> (Some example_key, example_conn))" and i = 0 and log = "[]"]
    by (simp add: example_instant)
  have r: "reaches (ssh_step example_ssh) (example_socket, (\<lambda>_. None), [] :: memory_vault agent_effect list) (example_socket, ?conns, [])"
    by (rule reaches_step [where step = "ssh_step example_ssh", OF reaches_step [where step = "ssh_step example_ssh", OF reaches_refl s1] s2])
  have "?conns 0 = Some (Some example_key, example_bound)" by simp
  moreover have "am_cached example_moment = as_fingerprint example_socket" by (simp add: example_moment_def example_socket_def)
  ultimately obtain sg b data flags where "Some example_key = Some sg" "sign_request (put_sign_request [9] example_login 0) = Some (public_blob sg, data, flags)"
    "parse_hostbound_userauth data (public_blob sg) = Some \<lparr>hu_session_id = sb_session_id b, hu_user = as_user example_socket, hu_host_key = sb_host_key b\<rparr>"
    "ac_binding example_bound = Some b" "proven example_ssh () b"
    using signs_only_pinned_logins [OF r _ _ example_sign, of 0] by (fastforce simp: example_socket_def)
  moreover have "sign_request (put_sign_request [9] example_login 0) = Some ([9], example_login, 0)"
    by (rule parse_put_sign_request) (simp_all add: example_login_short)
  ultimately show ?thesis by (auto simp: example_key_def example_bound_def)
qed

theorem unauthenticated_key_unused_witness:
  "conversation example_ssh (Some example_key) [(SSH_AGENTC_REQUEST_IDENTITIES, [], example_moment, example_socket)] (example_conn\<lparr>ac_required := True\<rparr>) =
   conversation example_ssh None [(SSH_AGENTC_REQUEST_IDENTITIES, [], example_moment, example_socket)] (example_conn\<lparr>ac_required := True\<rparr>)"
  by (rule unauthenticated_key_unused [where ep = 3, THEN conjunct1])
    (simp_all add: example_conn_def no_secret_def example_socket_def is_authenticate_def extension_name_def read_string_def read_u32_def
      AUTHENTICATE_EXTENSION_def LEGACY_AUTHENTICATE_EXTENSION_def as_bytes_def utf8_char_def)

definition example_sign_request :: "duration \<Rightarrow> instant \<Rightarrow> duration \<times> ssh_signer option \<times> agent_conn \<times> (unit, memory_vault) agent_moment \<times> 8 word \<times> bytes" where
  "example_sign_request took now = (took, Some example_key, example_bound, example_moment\<lparr>am_instant := now\<rparr>, SSH_AGENTC_SIGN_REQUEST, put_sign_request [9] example_login 0)"

text \<open>Logins that wait for the user pile up: with a budget of one signature in 60 seconds, two are made within 25 seconds.\<close>

lemma parked_signatures_pile_up:
  "signature_times example_ssh [example_sign_request 90 5, example_sign_request 0 70] example_socket = [95, 70]"
proof -
  have sig: "is_signature (fst (handle_request example_ssh (Some example_key) (example_moment\<lparr>am_instant := now\<rparr>) SSH_AGENTC_SIGN_REQUEST
      (put_sign_request [9] example_login 0) example_bound (example_socket\<lparr>as_signatures := w\<rparr>)))" if "window_admits w now" for now w
  proof -
    have u: "rust_string (ascii ''u'')" by (simp add: rust_string_def is_scalar_def)
    have b: "public_blob example_key = [9]" by (simp add: example_key_def)
    have "fst (handle_request example_ssh (Some example_key) (example_moment\<lparr>am_instant := now\<rparr>) SSH_AGENTC_SIGN_REQUEST
        (put_sign_request [9] example_login 0) example_bound (example_socket\<lparr>as_signatures := w\<rparr>)) =
        agent_frame SSH_AGENT_SIGN_RESPONSE (put_string [7])"
      by (rule conforming_sign [where sk = example_key, OF _ _ _ u, unfolded b, where hk = "[1]" and sid = "[2]" and alg = "[]"])
        (use example_login_short that in \<open>simp_all add: example_bound_def example_conn_def example_moment_def example_socket_def example_login_def example_key_def
          sign_def explain_def confirm_mode_of_def access_entry_def length_as_bytes_Cons utf8_char_def b\<close>)
    then show ?thesis by (simp add: is_signature_def agent_frame_def agent_numbers)
  qed
  let ?st = "fst (snd (snd (handle_request example_ssh (Some example_key) (example_moment\<lparr>am_instant := 5\<rparr>) SSH_AGENTC_SIGN_REQUEST
      (put_sign_request [9] example_login 0) example_bound example_socket)))"
  have "?st = example_socket\<lparr>as_signatures := window_step (as_signatures example_socket) 5\<rparr>"
    by (simp add: handle_request_def agent_numbers example_bound_def example_conn_def sign_response_socket)
  moreover have "window_admits (window_step (as_signatures example_socket) 5) 70" "window_admits (as_signatures example_socket) 5"
    by (simp_all add: window_step_def window_admits_def window_check_at_def example_socket_def window_new_def)
  moreover have "example_socket\<lparr>as_signatures := as_signatures example_socket\<rparr> = example_socket" by simp
  ultimately show ?thesis
    using sig [of "window_step (as_signatures example_socket) 5" 70] sig [of "as_signatures example_socket" 5]
    by (simp add: signature_times_def example_sign_request_def Let_def)
qed

theorem signature_budget_witness:
  "hits_within 0 60 (signature_times example_ssh [example_sign_request 0 5, example_sign_request 0 6] example_socket) \<le> 1 \<and>
   hits_within 60 60 (signature_times example_ssh [example_sign_request 90 5, example_sign_request 0 70] example_socket) \<le> 3"
proof
  have 1: "windows_for 0 60 * 1 = 1" "windows_for 90 60 * 1 = 3" by (simp_all add: windows_for_def)
  show "hits_within 0 60 (signature_times example_ssh [example_sign_request 0 5, example_sign_request 0 6] example_socket) \<le> 1"
    using signature_budget [where st = example_socket and budget = 1 and w = 60 and delay = 0 and t = 0 and E = example_ssh and
        xs = "[example_sign_request 0 5, example_sign_request 0 6]"] unfolding 1 by (simp add: example_socket_def example_sign_request_def)
  show "hits_within 60 60 (signature_times example_ssh [example_sign_request 90 5, example_sign_request 0 70] example_socket) \<le> 3"
    using signature_budget [where st = example_socket and budget = 1 and w = 60 and delay = 90 and t = 60 and E = example_ssh and
        xs = "[example_sign_request 90 5, example_sign_request 0 70]"] unfolding 1 by (simp add: example_socket_def example_sign_request_def)
qed

theorem agent_message_round_trip_witness:
  "read_agent_message (example_client\<lparr>rd_bytes := agent_frame 11 [] @ [1]\<rparr>) = (Ok (11, []), example_client\<lparr>rd_bytes := [1]\<rparr>)"
  by (rule agent_message_round_trip) (simp add: MAX_AGENT_MESSAGE_def)

end
