(* ===== verification/SshPlane.thy ===== *)
theory SshPlane
  imports SshSafety
begin

text \<open>
  The SSH listeners of \<^verbatim>\<open>crates/aka-core/src/capability/ssh.rs\<close>: opening a socket for a ticket, the two handlers of accepted connections as
  lists of effects, the loop that serves a connection, and the agent of a login test. Each check reads the \<open>broker_view\<close> of its moment.
\<close>

subsection \<open>Sockets\<close>

definition UNIX_SOCKET_PATH_MAX :: "bool \<Rightarrow> nat" where
  "UNIX_SOCKET_PATH_MAX linux = (if linux then 107 else 103)"

definition validate_unix_socket_path :: "bool \<Rightarrow> bytes \<Rightarrow> io_error + unit" where
  "validate_unix_socket_path linux path =
     (if length path > UNIX_SOCKET_PATH_MAX linux
      then Err (InvalidData (ascii ''SSH agent socket path '' @ from_utf8_lossy path @ ascii '' is '' @ show_nat (length path) @
        ascii '' bytes; this platform'' @ [39] @ ascii ''s Unix socket limit is '' @ show_nat (UNIX_SOCKET_PATH_MAX linux) @
        ascii '' bytes (excluding the terminating NUL) '' @ [8212] @ ascii '' use a shorter --root''))
      else Ok ())"

definition LEGACY_ENDPOINT_SOCK :: ustring where "LEGACY_ENDPOINT_SOCK = ascii ''agent.sock''"

text \<open>\<open>sha\<close> is SHA-256; the name is separated from the stored hash of the secret by its prefix.\<close>

definition endpoint_sock_name :: "(bytes \<Rightarrow> bytes) \<Rightarrow> ustring \<Rightarrow> ustring" where
  "endpoint_sock_name sha secret =
     ascii ''agent-'' @ map unat (encode_hex (take 8 (sha (as_bytes (ascii ''multitool/ssh-endpoint-socket/v1'') @ [0] @ as_bytes secret)))) @ ascii ''.sock''"

definition endpoint_sock_file :: "(bytes \<Rightarrow> bytes) \<Rightarrow> ustring \<Rightarrow> ustring" where
  "endpoint_sock_file sha secret = (if secret = [] then LEGACY_ENDPOINT_SOCK else endpoint_sock_name sha secret)"

definition path_extension :: "ustring \<Rightarrow> ustring option" where
  "path_extension name =
     (case dropWhile (\<lambda>c. c \<noteq> 46) (rev name) of
        _ # _ # _ \<Rightarrow> Some (rev (takeWhile (\<lambda>c. c \<noteq> 46) (rev name)))
      | _ \<Rightarrow> None)"

text \<open>What is left of a socket directory after the sweep at daemon start.\<close>

definition sweep_stale_sockets :: "ustring list \<Rightarrow> ustring list" where
  "sweep_stale_sockets names = filter (\<lambda>n. path_extension n \<noteq> Some (ascii ''sock'') \<and> path_extension n \<noteq> Some (ascii ''bind'')) names"

text \<open>Other sockets in an endpoint's directory are removed when it is bound.\<close>

definition clear_siblings :: "ustring \<Rightarrow> ustring list \<Rightarrow> ustring list" where
  "clear_siblings mine names = filter (\<lambda>n. n = mine \<or> path_extension n \<noteq> Some (ascii ''sock'')) names"

definition SIGNATURE_WINDOW :: duration where "SIGNATURE_WINDOW = secs 60"

definition configured_fingerprint :: "('f, 'p, 's) ssh_env \<Rightarrow> string \<Rightarrow> ssh_config \<Rightarrow> ustring + 'f option" where
  "configured_fingerprint E what h =
     (if host_key_fingerprint h = [] then Ok None
      else case fp_parse (se_store E) (host_key_fingerprint h) of Inl e \<Rightarrow> Err (ascii what @ e) | Inr f \<Rightarrow> Ok (Some f))"

definition socket_for ::
  "('f, 'p, 's) ssh_env \<Rightarrow> string \<Rightarrow> uuid option \<Rightarrow> ustring \<Rightarrow> instant option \<Rightarrow> nat \<Rightarrow> connection \<Rightarrow> ustring + 'f agent_socket" where
  "socket_for E what ep agent expires budget c =
     (case conn_config c of
        Ssh h \<Rightarrow> and_then (configured_fingerprint E what h) (\<lambda>fp.
          Ok \<lparr>as_endpoint = ep, as_user = ssh_user h, as_connection = conn_id c, as_name = conn_name c, as_approved = conn_updated_at c,
            as_expires = expires, as_agent = agent, as_comment = ascii ''aka:'' @ conn_name c, as_fingerprint = fp,
            as_signatures = window_new budget SIGNATURE_WINDOW\<rparr>)
      | _ \<Rightarrow> Err (ascii ''not an ssh connection''))"

text \<open>\<open>reveal\<close> reads a stored secret and \<open>from_pem\<close> parses a private key.\<close>

definition load_optional :: "(core_error \<Rightarrow> ustring) \<Rightarrow> (uuid \<Rightarrow> core_error + ustring) \<Rightarrow> (bytes \<Rightarrow> ustring + ssh_signer) \<Rightarrow> connection \<Rightarrow> ustring + ssh_signer option" where
  "load_optional text_of reveal from_pem c =
     (case conn_secrets c of
        [] \<Rightarrow> Ok None
      | i # _ \<Rightarrow>
          (case reveal i of
             Inl e \<Rightarrow> Err (ascii ''The saved credential could not be read: '' @ text_of e)
           | Inr pem \<Rightarrow> and_then (from_pem (as_bytes pem)) (\<lambda>sg. Ok (Some sg))))"

record open_call =
  oc_now :: instant
  oc_ticket_ttl :: duration
  oc_budget :: nat
  oc_agent :: ustring
  oc_ticket :: ustring
  oc_load :: "connection \<Rightarrow> ustring + ssh_signer option"
  oc_bind :: "ustring + unit"

text \<open>The key is loaded before the ticket is issued; creating and binding the socket file (\<open>oc_bind\<close>) comes after.\<close>

definition open_agent ::
  "('f, 'p, 's) ssh_env \<Rightarrow> open_call \<Rightarrow> connection \<Rightarrow> data_plane \<Rightarrow> (ustring + 'f agent_socket \<times> ssh_signer option) \<times> data_plane" where
  "open_agent E oc c p =
     (case socket_for E ''SSH host key fingerprint is invalid: '' None (oc_agent oc)
         (Some (oc_now oc + oc_ticket_ttl oc + SOCKET_GRACE)) (oc_budget oc) c of
        Inl e \<Rightarrow> (Err e, p)
      | Inr st \<Rightarrow>
          (case oc_load oc c of
             Inl e \<Rightarrow> (Err e, p)
           | Inr sg \<Rightarrow>
               let p = issue_ticket (oc_now oc) (oc_ticket oc) (oc_agent oc) c p in
               (case oc_bind oc of Inl e \<Rightarrow> (Err e, p) | Inr _ \<Rightarrow> (Ok (st, sg), p))))"

text \<open>The socket of a standing endpoint.\<close>

definition bind_endpoint_socket :: "('f, 'p, 's) ssh_env \<Rightarrow> (core_error \<Rightarrow> ustring) \<Rightarrow> nat \<Rightarrow> index_state \<Rightarrow> direct_endpoint \<Rightarrow> ustring + 'f agent_socket" where
  "bind_endpoint_socket E text_of budget ix e =
     (case connection_by_id (ep_connection_id e) ix of
        Inl x \<Rightarrow> Err (ascii ''ssh endpoint: '' @ text_of x)
      | Inr c \<Rightarrow> socket_for E ''bad host key fingerprint: '' (Some (ep_id e)) (ascii ''endpoint'') None budget c)"

subsection \<open>Accepted connections\<close>

datatype ssh_effect =
    SshAudited audit_entry
  | SshShutdown
  | SshDropRedemption
  | SshStartTicket redemption
  | SshStartEndpoint connection uuid
  | SshServed "ssh_signer option"
  | SshFinished ustring

definition refused_connection_entry :: "('f, 'p, 's) ssh_env \<Rightarrow> datetime \<Rightarrow> 'f agent_socket \<Rightarrow> ustring \<Rightarrow> ustring \<Rightarrow> audit_entry" where
  "refused_connection_entry E wall st outcome detail =
     (let e = with_field (ascii ''reason'') (JString outcome) (with_field (ascii ''kind'') (JString (ascii ''ssh''))
           (with_outcome outcome (AuditEntry.with_detail detail (with_connection (as_name st) (with_agent (as_agent st)
             (new_entry wall KDenied (ascii ''SSH agent connection refused: '' @ as_name st)))))))
      in case as_endpoint st of
           Some i \<Rightarrow> with_field (ascii ''endpoint_id'') (JString (se_uuid_text E i)) (with_field (ascii ''via'') (JString (ascii ''endpoint'')) e)
         | None \<Rightarrow> with_field (ascii ''via'') (JString (ascii ''ticket'')) e)"

definition turn_away :: "('f, 'p, 's) ssh_env \<Rightarrow> broker_view \<Rightarrow> 'f agent_socket \<Rightarrow> string \<Rightarrow> string \<Rightarrow> ssh_effect list" where
  "turn_away E v st outcome detail = [SshAudited (refused_connection_entry E (bv_wall v) st (ascii outcome) (ascii detail)), SshShutdown]"

text \<open>\<open>ending\<close> is the reason with which serving ends. A redemption that is not reg is dropped on return.\<close>

definition handle_ticket_conn ::
  "('f, 'p, 's) ssh_env \<Rightarrow> 'f agent_socket \<Rightarrow> ssh_signer option \<Rightarrow> redeem_error + redemption \<Rightarrow> broker_view \<Rightarrow> ustring \<Rightarrow> ssh_effect list" where
  "handle_ticket_conn E st loaded redeemed v ending =
     (case redeemed of
        Inl e \<Rightarrow> [SshAudited (refused_connection_entry E (bv_wall v) st (ascii (error_reason_as_str (redeem_reason e)))
           (ascii ''the socket'' @ [39] @ ascii ''s ticket could not be redeemed'')), SshShutdown]
      | Inr r \<Rightarrow>
          if \<not> allows (bv_access v) (as_connection st) then turn_away E v st ''denied_by_policy'' ''agent access is disabled'' @ [SshDropRedemption]
          else (case connection_by_id (as_connection st) (bv_index v) of
            Inl _ \<Rightarrow> turn_away E v st ''denied_by_policy'' ''the tool no longer exists'' @ [SshDropRedemption]
          | Inr c \<Rightarrow>
              if conn_updated_at c \<noteq> as_approved st
              then turn_away E v st ''denied_by_policy'' ''the tool was retargeted after this socket was opened'' @ [SshDropRedemption]
              else [SshStartTicket r, SshServed loaded, SshShutdown, SshFinished ending]))"

definition endpoint_active :: "broker_view \<Rightarrow> uuid \<Rightarrow> uuid \<Rightarrow> bool" where
  "endpoint_active v i c \<longleftrightarrow> (case get_endpoint (bv_endpoints v) i of None \<Rightarrow> False | Some e \<Rightarrow> ep_connection_id e = c \<and> \<not> is_expired (bv_wall v) e)"

definition unreadable_key_entry :: "datetime \<Rightarrow> connection \<Rightarrow> ustring \<Rightarrow> audit_entry" where
  "unreadable_key_entry wall c e =
     with_field (ascii ''kind'') (JString (ascii ''ssh''))
       (with_outcome (ascii ''credential_unavailable'') (AuditEntry.with_detail e (with_connection (conn_name c)
         (new_entry wall KDenied (ascii ''SSH endpoint could not read its key: '' @ conn_name c)))))"

text \<open>\<open>v1\<close> is the broker at the accept, \<open>v2\<close> after the session was registered.\<close>

definition serve_endpoint_conn ::
  "(connection \<Rightarrow> ustring + ssh_signer option) \<Rightarrow> broker_view \<Rightarrow> uuid \<Rightarrow> connection \<Rightarrow> ustring \<Rightarrow> ssh_effect list" where
  "serve_endpoint_conn load v2 i c ending =
     (if \<not> endpoint_active v2 i (conn_id c) \<or> \<not> allows (bv_access v2) (conn_id c) then [SshFinished (ascii ''access_revoked''), SshShutdown]
      else case load c of
        Inl e \<Rightarrow> [SshAudited (unreadable_key_entry (bv_wall v2) c e), SshFinished (ascii ''credential_unavailable''), SshShutdown]
      | Inr sg \<Rightarrow> [SshServed sg, SshShutdown, SshFinished ending])"

definition handle_ssh_endpoint_conn ::
  "('f, 'p, 's) ssh_env \<Rightarrow> (connection \<Rightarrow> ustring + ssh_signer option) \<Rightarrow> 'f agent_socket \<Rightarrow> uuid \<Rightarrow> uuid \<Rightarrow> broker_view \<Rightarrow> redeem_error + session_handle \<Rightarrow>
     broker_view \<Rightarrow> ustring \<Rightarrow> ssh_effect list" where
  "handle_ssh_endpoint_conn E load st i cid v1 reg v2 ending =
     (if \<not> endpoint_active v1 i cid then turn_away E v1 st ''endpoint_revoked'' ''the direct endpoint is missing, expired, or no longer names this tool''
      else if \<not> allows (bv_access v1) cid then turn_away E v1 st ''denied_by_policy'' ''agent access is disabled''
      else case connection_by_id cid (bv_index v1) of
        Inl _ \<Rightarrow> turn_away E v1 st ''unknown_connection'' ''the tool no longer exists''
      | Inr c \<Rightarrow>
          if conn_kind c \<noteq> KindSsh then turn_away E v1 st ''wrong_connection_type'' ''the tool is no longer an SSH connection''
          else case reg of
            Inl _ \<Rightarrow> [SshShutdown]
          | Inr _ \<Rightarrow> SshStartEndpoint c i # serve_endpoint_conn load v2 i c ending)"

subsection \<open>Serving a connection\<close>

definition serve_deadline :: "instant \<Rightarrow> duration \<Rightarrow> 'f agent_socket \<Rightarrow> instant" where
  "serve_deadline now max_ttl st = (case as_expires st of Some t \<Rightarrow> min t (now + max_ttl) | None \<Rightarrow> now + max_ttl)"

text \<open>
  What the loop waits for, in the order in which it comes: the close signal, the two deadlines, a failed read, or a request, whose answer may be
  cut off by any of these while it waits; a cut answer is never sent. Deadlines fire no earlier than set.
\<close>

datatype serve_end = CloseSignal ustring | SessionTtl | IdleTimeout | ClientClosed

datatype ('f, 'v) serve_event =
    Ends serve_end
  | Asks "8 word" bytes "('f, 'v) agent_moment" "'f agent_socket" "serve_end option" bool

definition end_reason :: "serve_end \<Rightarrow> ustring" where
  "end_reason e = (case e of CloseSignal r \<Rightarrow> r | SessionTtl \<Rightarrow> ascii ''session_ttl'' | IdleTimeout \<Rightarrow> ascii ''idle_timeout'' | ClientClosed \<Rightarrow> ascii ''client_closed'')"

record served =
  sv_answers :: "bytes list"
  sv_up :: nat
  sv_down :: nat
  sv_reason :: "ustring option"

text \<open>A request carries the socket as it finds it; \<open>None\<close> as the reason means that the connection is still open after the given events.\<close>

fun serve :: "('f, 'p, 's) ssh_env \<Rightarrow> ssh_signer option \<Rightarrow> ('f, 'v) serve_event list \<Rightarrow> agent_conn \<Rightarrow> served \<Rightarrow> served" where
  "serve E loaded [] ac sv = sv"
| "serve E loaded (Ends e # evs) ac sv = sv\<lparr>sv_reason := Some (end_reason e)\<rparr>"
| "serve E loaded (Asks kind req m st off written # evs) ac sv =
     (let sv = sv\<lparr>sv_up := sv_up sv + length req + 1\<rparr> in
      case off of
        Some e \<Rightarrow> sv\<lparr>sv_reason := Some (end_reason e)\<rparr>
      | None \<Rightarrow>
          (case handle_request E loaded m kind req ac st of
             (x, ac, _, _) \<Rightarrow>
               let sv = sv\<lparr>sv_down := sv_down sv + length x\<rparr> in
               if \<not> written then sv\<lparr>sv_reason := Some (end_reason ClientClosed)\<rparr>
               else serve E loaded evs ac (sv\<lparr>sv_answers := sv_answers sv @ [x]\<rparr>)))"

subsection \<open>The agent of a login test\<close>

record 'f test_agent =
  ta_user :: ustring
  ta_expected :: "'f option"
  ta_observed :: "('f \<times> 'f) option"
  ta_signed :: bool
  ta_refusal :: "ustring option"

definition refuse_test :: "ustring \<Rightarrow> 'f test_agent \<Rightarrow> bytes \<times> 'f test_agent" where
  "refuse_test reason ta = (agent_failure, ta\<lparr>ta_refusal := (case ta_refusal ta of None \<Rightarrow> Some reason | Some r \<Rightarrow> Some r)\<rparr>)"

definition test_bound :: "('f, 'p, 's) ssh_env \<Rightarrow> session_binding \<Rightarrow> 'p \<Rightarrow> 'f test_agent \<Rightarrow> (bytes \<times> 'f test_agent) \<times> session_binding option" where
  "test_bound E b p ta = ((agent_success, ta\<lparr>ta_observed := Some (se_fingerprint E Sha256 p, se_fingerprint E Sha512 p)\<rparr>), Some b)"

definition read_sign_request :: "bytes \<Rightarrow> (bytes \<times> bytes \<times> 32 word \<times> bytes) option" where
  "read_sign_request req =
     Option.bind (read_string req) (\<lambda>(k, d).
     Option.bind (read_string d) (\<lambda>(data, d).
     Option.bind (read_u32 d) (\<lambda>(flags, d). Some (k, data, flags, d))))"

definition test_bind ::
  "('f, 'p, 's) ssh_env \<Rightarrow> session_binding option \<Rightarrow> bytes \<Rightarrow> 'f test_agent \<Rightarrow> (bytes \<times> 'f test_agent) \<times> session_binding option" where
  "test_bind E binding req ta =
     (if binding \<noteq> None then (refuse_test (ascii ''agent connection is already session-bound'') ta, binding)
      else case parse_and_verify_session_bind E req of
        Inl reason \<Rightarrow> (refuse_test reason ta, binding)
      | Inr (b, p) \<Rightarrow>
          (case ta_expected ta of
             Some f \<Rightarrow>
               let actual = se_fingerprint E (se_algorithm E f) p in
               if actual \<noteq> f then (refuse_test (mismatch_text E actual f) ta, binding) else test_bound E b p ta
           | None \<Rightarrow> test_bound E b p ta))"

definition test_login_of :: "('f, 'p, 's) ssh_env \<Rightarrow> ssh_signer \<Rightarrow> ustring \<Rightarrow> session_binding option \<Rightarrow> bytes \<Rightarrow> ustring + bytes \<times> 32 word" where
  "test_login_of E sg pinned_user binding req =
     (case binding of
        None \<Rightarrow> Err (ascii ''SSH client did not bind the configured host key'')
      | Some b \<Rightarrow>
          (case read_sign_request req of
             None \<Rightarrow> Err (ascii ''malformed sign request'')
           | Some (k, data, flags, rest) \<Rightarrow>
               if rest \<noteq> [] \<or> k \<noteq> public_blob sg then Err (ascii ''sign request names a different key'')
               else (case parse_hostbound_userauth data (public_blob sg) of
                 None \<Rightarrow> Err (ascii ''data is not host-bound publickey userauth for the configured key'')
               | Some a \<Rightarrow>
                   if hu_session_id a \<noteq> sb_session_id b \<or> hu_host_key a \<noteq> sb_host_key b
                   then Err (ascii ''userauth does not match the bound SSH session'')
                   else if hu_user a \<noteq> pinned_user then
                     Err (ascii ''userauth names '' @ debug_str (se_not_printable E) (hu_user a) @ ascii '', connection pins '' @
                       debug_str (se_not_printable E) pinned_user)
                   else Ok (data, flags))))"

definition test_sign :: "('f, 'p, 's) ssh_env \<Rightarrow> ssh_signer \<Rightarrow> session_binding option \<Rightarrow> bytes \<Rightarrow> 'f test_agent \<Rightarrow> bytes \<times> 'f test_agent" where
  "test_sign E sg binding req ta =
     (case test_login_of E sg (ta_user ta) binding req of
        Inl reason \<Rightarrow> refuse_test reason ta
      | Inr (data, flags) \<Rightarrow>
          (case sign sg data flags of
             Inl e \<Rightarrow> refuse_test (ascii ''sign failed: '' @ e) ta
           | Inr blob \<Rightarrow> (agent_frame SSH_AGENT_SIGN_RESPONSE (put_string blob), ta\<lparr>ta_signed := True\<rparr>)))"

definition handle_test_request ::
  "('f, 'p, 's) ssh_env \<Rightarrow> ssh_signer \<Rightarrow> 8 word \<Rightarrow> bytes \<Rightarrow> session_binding option \<times> 'f test_agent \<Rightarrow> bytes \<times> session_binding option \<times> 'f test_agent" where
  "handle_test_request E sg kind req = (\<lambda>(binding, ta).
     if kind = SSH_AGENTC_REQUEST_IDENTITIES then
       (agent_frame SSH_AGENT_IDENTITIES_ANSWER (identities_answer sg (ascii ''aka:test'')), binding, ta)
     else if kind = SSH_AGENTC_EXTENSION then (case test_bind E binding req ta of ((x, ta), b) \<Rightarrow> (x, b, ta))
     else if kind = SSH_AGENTC_SIGN_REQUEST then (case test_sign E sg binding req ta of (x, ta) \<Rightarrow> (x, binding, ta))
     else (agent_failure, binding, ta))"

subsection \<open>What the handlers guarantee\<close>

text \<open>
  C27. A connection is served only under live authority. On a ticket's socket: the ticket was redeemed, and the tool is enabled and unchanged since the socket
  was opened. On an endpoint's socket: the endpoint exists, is not expired and names the tool, and the tool is enabled, both at the accept and once the session
  is registered; the tool is an SSH connection, and the key is the one it is bound to now.
\<close>

theorem ssh_session_authorized:
  "(SshServed sg \<in> set (handle_ticket_conn E st loaded redeemed v ending) \<longrightarrow>
      (\<exists>r c. redeemed = Ok r \<and> sg = loaded \<and> allows (bv_access v) (as_connection st) \<and>
         connection_by_id (as_connection st) (bv_index v) = Ok c \<and> conn_updated_at c = as_approved st)) \<and>
   (SshServed sg \<in> set (handle_ssh_endpoint_conn E load st i cid v1 reg v2 ending) \<longrightarrow>
      (\<exists>c h. connection_by_id cid (bv_index v1) = Ok c \<and> conn_kind c = KindSsh \<and> reg = Ok h \<and> load c = Ok sg \<and>
         (\<forall>v \<in> {v1, v2}. endpoint_active v i cid \<and> allows (bv_access v) cid)))"
  by (auto simp: handle_ticket_conn_def handle_ssh_endpoint_conn_def serve_endpoint_conn_def turn_away_def connection_by_id_id
      split: sum.splits if_splits)

definition ssh_starts :: "ssh_effect list \<Rightarrow> nat" where
  "ssh_starts es = length (filter (\<lambda>e. case e of SshStartTicket _ \<Rightarrow> True | SshStartEndpoint _ _ \<Rightarrow> True | _ \<Rightarrow> False) es)"

definition ssh_drops :: "ssh_effect list \<Rightarrow> nat" where
  "ssh_drops es = length (filter (\<lambda>e. e = SshDropRedemption) es)"

definition ssh_finishes :: "ssh_effect list \<Rightarrow> nat" where
  "ssh_finishes es = length (filter (\<lambda>e. case e of SshFinished _ \<Rightarrow> True | _ \<Rightarrow> False) es)"

lemmas ssh_counts = ssh_starts_def ssh_drops_def ssh_finishes_def

lemma ssh_count_lists [simp]:
  "ssh_starts [] = 0" "ssh_drops [] = 0" "ssh_finishes [] = 0"
  "ssh_starts (a @ b) = ssh_starts a + ssh_starts b" "ssh_drops (a @ b) = ssh_drops a + ssh_drops b" "ssh_finishes (a @ b) = ssh_finishes a + ssh_finishes b"
  "ssh_starts (e # es) = (case e of SshStartTicket _ \<Rightarrow> 1 | SshStartEndpoint _ _ \<Rightarrow> 1 | _ \<Rightarrow> 0) + ssh_starts es"
  "ssh_drops (e # es) = (if e = SshDropRedemption then 1 else 0) + ssh_drops es"
  "ssh_finishes (e # es) = (case e of SshFinished _ \<Rightarrow> 1 | _ \<Rightarrow> 0) + ssh_finishes es"
  by (simp_all add: ssh_counts split: ssh_effect.split)

lemma turn_away_counts [simp]:
  "ssh_starts (turn_away E v st outcome detail) = 0" "ssh_drops (turn_away E v st outcome detail) = 0" "ssh_finishes (turn_away E v st outcome detail) = 0"
  by (simp_all add: turn_away_def)

lemma ticket_conn_counts:
  "ssh_starts (handle_ticket_conn E st loaded redeemed v ending) + ssh_drops (handle_ticket_conn E st loaded redeemed v ending) =
     (if is_err redeemed then 0 else 1) \<and>
   ssh_finishes (handle_ticket_conn E st loaded redeemed v ending) = ssh_starts (handle_ticket_conn E st loaded redeemed v ending)"
  by (cases redeemed; cases "connection_by_id (as_connection st) (bv_index v)") (simp_all add: handle_ticket_conn_def)

lemma serve_endpoint_counts: "ssh_starts (serve_endpoint_conn load v2 i c ending) = 0 \<and> ssh_finishes (serve_endpoint_conn load v2 i c ending) = 1"
  by (cases "load c") (simp_all add: serve_endpoint_conn_def)

lemma endpoint_conn_counts:
  "ssh_starts (handle_ssh_endpoint_conn E load st i cid v1 reg v2 ending) \<le> 1 \<and>
   ssh_finishes (handle_ssh_endpoint_conn E load st i cid v1 reg v2 ending) = ssh_starts (handle_ssh_endpoint_conn E load st i cid v1 reg v2 ending)"
  by (cases "connection_by_id cid (bv_index v1)"; cases reg) (simp_all add: handle_ssh_endpoint_conn_def serve_endpoint_counts)

text \<open>
  Session slots are accounted for: each redeemed reservation is either started or given back, exactly once; every session that is started is also finished, and one connection
  starts at most one.
\<close>

theorem ssh_sessions_accounted:
  "ssh_starts (handle_ticket_conn E st loaded redeemed v ending) + ssh_drops (handle_ticket_conn E st loaded redeemed v ending) =
     (if is_err redeemed then 0 else 1) \<and>
   ssh_finishes (handle_ticket_conn E st loaded redeemed v ending) = ssh_starts (handle_ticket_conn E st loaded redeemed v ending) \<and>
   ssh_starts (handle_ssh_endpoint_conn E load st i cid v1 reg v2 ending) \<le> 1 \<and>
   ssh_finishes (handle_ssh_endpoint_conn E load st i cid v1 reg v2 ending) = ssh_starts (handle_ssh_endpoint_conn E load st i cid v1 reg v2 ending)"
  using ticket_conn_counts endpoint_conn_counts by blast

subsection \<open>The loop serves the conversation\<close>

fun requests_of :: "('f, 'v) serve_event list \<Rightarrow> (8 word \<times> bytes \<times> ('f, 'v) agent_moment \<times> 'f agent_socket) list" where
  "requests_of [] = []"
| "requests_of (Ends e # evs) = requests_of evs"
| "requests_of (Asks kind req m st off written # evs) = (kind, req, m, st) # requests_of evs"

lemma serve_answers:
  "\<exists>n. sv_answers (serve E loaded evs ac sv) = sv_answers sv @ take n (conversation E loaded (requests_of evs) ac) \<and>
     sv_down sv + length (concat (take n (conversation E loaded (requests_of evs) ac))) \<le> sv_down (serve E loaded evs ac sv)"
proof (induction evs arbitrary: ac sv)
  case (Cons ev evs)
  show ?case
  proof (cases ev)
    case (Ends e)
    then show ?thesis by (intro exI [of _ 0]) simp
  next
    case (Asks kind req m st off written)
    obtain x ac' st' es where h: "handle_request E loaded m kind req ac st = (x, ac', st', es)" by (cases "handle_request E loaded m kind req ac st") auto
    let ?sv = "sv\<lparr>sv_up := sv_up sv + length req + 1, sv_down := sv_down sv + length x, sv_answers := sv_answers sv @ [x]\<rparr>"
    show ?thesis
    proof (cases "off = None \<and> written")
      case True
      obtain n where n: "sv_answers (serve E loaded evs ac' ?sv) = sv_answers ?sv @ take n (conversation E loaded (requests_of evs) ac')"
        "sv_down ?sv + length (concat (take n (conversation E loaded (requests_of evs) ac'))) \<le> sv_down (serve E loaded evs ac' ?sv)"
        using Cons.IH by blast
      have "serve E loaded (ev # evs) ac sv = serve E loaded evs ac' ?sv" using True by (simp add: Asks h Let_def)
      then show ?thesis using n True by (intro exI [of _ "Suc n"]) (simp add: Asks h Let_def)
    next
      case False
      then show ?thesis by (intro exI [of _ 0]) (auto simp: Asks h Let_def split: option.split)
    qed
  qed
qed (simp add: exI [of _ 0])

definition fresh_served :: served where
  "fresh_served = \<lparr>sv_answers = [], sv_up = 0, sv_down = 0, sv_reason = None\<rparr>"

text \<open>
  The loop adds nothing to the protocol: whatever closes, lapses or breaks while it runs, what the client receives is an initial part of the answers to its requests, in
  their order, and each of their bytes is counted.
\<close>

theorem serve_refines_conversation:
  "\<exists>n. sv_answers (serve E loaded evs ac fresh_served) = take n (conversation E loaded (requests_of evs) ac) \<and>
     length (concat (sv_answers (serve E loaded evs ac fresh_served))) \<le> sv_down (serve E loaded evs ac fresh_served)"
  using serve_answers [of E loaded evs ac fresh_served] by (auto simp: fresh_served_def)

subsection \<open>The login test\<close>

definition test_ok :: "('f, 'p, 's) ssh_env \<Rightarrow> session_binding option \<times> 'f test_agent \<Rightarrow> bool" where
  "test_ok E = (\<lambda>(binding, ta). (\<forall>b. binding = Some b \<longrightarrow>
     (\<exists>p s sg. se_public E (sb_host_key b) = Ok p \<and> se_signature E s = Ok sg \<and> se_verify E p (sb_session_id b) sg = Ok () \<and>
        ta_observed ta = Some (se_fingerprint E Sha256 p, se_fingerprint E Sha512 p) \<and>
        (\<forall>f. ta_expected ta = Some f \<longrightarrow> se_fingerprint E (se_algorithm E f) p = f))) \<and>
     (ta_signed ta \<longrightarrow> binding \<noteq> None))"

lemma refuse_test_fields [simp]:
  "ta_observed (snd (refuse_test r ta)) = ta_observed ta" "ta_expected (snd (refuse_test r ta)) = ta_expected ta" "ta_signed (snd (refuse_test r ta)) = ta_signed ta"
  by (simp_all add: refuse_test_def)

lemma test_request_ok:
  assumes "test_ok E (binding, ta)"
  shows "test_ok E (snd (handle_test_request E sg kind req (binding, ta))) \<and>
    ta_expected (snd (snd (handle_test_request E sg kind req (binding, ta)))) = ta_expected ta"
proof -
  have r: "refuse_test r ta = (agent_failure, snd (refuse_test r ta))" for r by (simp add: refuse_test_def)
  have b: "test_ok E (snd (test_bind E binding req ta), snd (fst (test_bind E binding req ta))) \<and>
      ta_expected (snd (fst (test_bind E binding req ta))) = ta_expected ta"
    using assms by (auto simp: test_bind_def test_bound_def test_ok_def Let_def split: sum.split option.split if_splits dest!: parsed_binding)
  have s: "test_ok E (binding, snd (test_sign E sg binding req ta)) \<and> ta_expected (snd (test_sign E sg binding req ta)) = ta_expected ta"
    using assms by (auto simp: test_sign_def test_login_of_def test_ok_def split: sum.split option.split if_splits)
  show ?thesis using assms b s by (auto simp: handle_test_request_def split: prod.split)
qed

definition new_test_agent :: "ustring \<Rightarrow> 'f option \<Rightarrow> 'f test_agent" where
  "new_test_agent user f = \<lparr>ta_user = user, ta_expected = f, ta_observed = None, ta_signed = False, ta_refusal = None\<rparr>"

text \<open>
  A login test that reports a signature reports a proven host: a host key was observed whose holder signed the session, and where the tool has a
  fingerprint, that key is the configured one.
\<close>

theorem test_login_honest:
  assumes "(binding, ta) = fold (\<lambda>(kind, req) s. snd (handle_test_request E sg kind req s)) reqs (None, new_test_agent user expected)" and "ta_signed ta"
  shows "\<exists>hk p sid s x. se_public E hk = Ok p \<and> se_signature E s = Ok x \<and> se_verify E p sid x = Ok () \<and>
    ta_observed ta = Some (se_fingerprint E Sha256 p, se_fingerprint E Sha512 p) \<and>
    (\<forall>f. expected = Some f \<longrightarrow> se_fingerprint E (se_algorithm E f) p = f)"
proof -
  have "test_ok E (fold (\<lambda>(kind, req) s. snd (handle_test_request E sg kind req s)) reqs z) \<and>
      ta_expected (snd (fold (\<lambda>(kind, req) s. snd (handle_test_request E sg kind req s)) reqs z)) = ta_expected (snd z)" if "test_ok E z" for z
    using that
  proof (induction reqs arbitrary: z)
    case (Cons x reqs)
    obtain kind req where x: "x = (kind, req)" by (cases x)
    have "test_ok E (fst z, snd z)" using Cons.prems by simp
    from test_request_ok [OF this, of sg kind req] Cons.IH [of "snd (handle_test_request E sg kind req z)"] show ?case by (simp add: x)
  qed simp
  from this [of "(None, new_test_agent user expected)"] assms(1)
  have "test_ok E (binding, ta)" "ta_expected ta = expected" by (auto simp: test_ok_def new_test_agent_def dest: sym) 
  then show ?thesis using assms(2) unfolding test_ok_def prod.case by (metis not_None_eq)
qed


subsection \<open>A race on a ticket's socket\<close>

text \<open>
  On an endpoint's socket authority is checked again once the session is registered; on a ticket's socket it is not. A tool switched off between the check and the
  registration closes the sessions it finds, and the one registered next is served, unsignalled.
\<close>

lemma disabled_ticket_session_runs:
  assumes "redeem now k p = (Ok r, p1)" and "allows (bv_access v) (as_connection st)" and "connection_by_id (as_connection st) (bv_index v) = Ok c"
    and "conn_updated_at c = as_approved st" and "close_connection_sessions (as_connection st) reason p1 = (n, p2)"
    and "start_with_fields wall KindSsh [] r p2 = (h, p3)"
  shows "handle_ticket_conn E st loaded (Ok r) v ending = [SshStartTicket r, SshServed loaded, SshShutdown, SshFinished ending] \<and>
    (\<exists>e. map_of (sessions p3) (h_id h) = Some e \<and> close e = None)"
proof
  show "handle_ticket_conn E st loaded (Ok r) v ending = [SshStartTicket r, SshServed loaded, SshShutdown, SshFinished ending]"
    using assms by (simp add: handle_ticket_conn_def)
  have "h_id h = next_session p2 + 1"
    using assms(6) by (auto simp: start_with_fields_def register_session_def Let_def)
  with map_of_register [OF assms(6) [unfolded start_with_fields_def], of "h_id h"] show "\<exists>e. map_of (sessions p3) (h_id h) = Some e \<and> close e = None"
    by simp
qed

subsection \<open>Opening\<close>

lemma configured_fingerprint_ok:
  "configured_fingerprint E what h = Inr fp \<Longrightarrow>
     (if host_key_fingerprint h = [] then fp = None else map_option Inr fp = Some (fp_parse (se_store E) (host_key_fingerprint h)))"
  by (auto simp: configured_fingerprint_def split: if_splits sum.splits)

lemma socket_for_ok:
  assumes "socket_for E what ep agent expires budget c = Inr st"
  shows "\<exists>h. conn_config c = Ssh h \<and> as_user st = ssh_user h \<and> as_connection st = conn_id c \<and> as_approved st = conn_updated_at c \<and>
    (if host_key_fingerprint h = [] then as_fingerprint st = None else map_option Inr (as_fingerprint st) = Some (fp_parse (se_store E) (host_key_fingerprint h)))"
proof (cases "conn_config c")
  case (Ssh h)
  with assms obtain fp where "configured_fingerprint E what h = Inr fp" and "st = \<lparr>as_endpoint = ep, as_user = ssh_user h, as_connection = conn_id c,
      as_name = conn_name c, as_approved = conn_updated_at c, as_expires = expires, as_agent = agent, as_comment = ascii ''aka:'' @ conn_name c,
      as_fingerprint = fp, as_signatures = window_new budget SIGNATURE_WINDOW\<rparr>"
    by (auto simp: socket_for_def and_then_Inr)
  with configured_fingerprint_ok [of E what h fp] Ssh show ?thesis by simp
qed (use assms in \<open>simp_all add: socket_for_def\<close>)

text \<open>What an opened socket is pinned to: the tool's user, and its fingerprint if it has one; and the key is loaded before a ticket exists.\<close>

lemma opened_socket:
  assumes "open_agent E oc c p = (Ok (st, sg), p')"
  shows "\<exists>h. conn_config c = Ssh h \<and> as_user st = ssh_user h \<and> as_connection st = conn_id c \<and> as_approved st = conn_updated_at c \<and>
    oc_load oc c = Ok sg \<and> p' = issue_ticket (oc_now oc) (oc_ticket oc) (oc_agent oc) c p \<and>
    (if host_key_fingerprint h = [] then as_fingerprint st = None else map_option Inr (as_fingerprint st) = Some (fp_parse (se_store E) (host_key_fingerprint h)))"
proof -
  obtain st0 where s: "socket_for E ''SSH host key fingerprint is invalid: '' None (oc_agent oc) (Some (oc_now oc + oc_ticket_ttl oc + SOCKET_GRACE)) (oc_budget oc) c = Inr st0"
    and l: "oc_load oc c = Inr sg" and r: "st = st0" "p' = issue_ticket (oc_now oc) (oc_ticket oc) (oc_agent oc) c p"
    using assms unfolding open_agent_def Let_def by (auto split: sum.splits)
  from socket_for_ok [OF s] l r show ?thesis by auto
qed

lemma failed_open_issues_nothing:
  assumes "oc_load oc c = Err e"
  shows "snd (open_agent E oc c p) = p"
  using assms by (simp add: open_agent_def split: sum.split)

subsection \<open>Examples\<close>

definition ssh_view :: broker_view where
  "ssh_view = \<lparr>bv_access = \<lparr>entries = [], generation = 0, has_generation_store = False\<rparr>, bv_index = st_index ssh_example,
     bv_endpoints = \<lparr>max_total = 9, endpoints = [\<lparr>ep_id = 3, ep_connection_id = 7, ep_kind = KindSsh, secret_hash = [1], ep_secret = [], port = None,
       require_auth = True, created_at = 0, expires_at = None\<rparr>], reg_file = None\<rparr>, bv_wall = 0\<rparr>"

definition ssh_handle :: session_handle where
  "ssh_handle = \<lparr>h_id = 1, h_kind = KindSsh, h_agent = [], h_connection = [], bytes_up = 0, bytes_down = 0\<rparr>"

lemma ssh_view_serves:
  "SshServed None \<in> set (handle_ssh_endpoint_conn example_ssh (\<lambda>_. Ok None) example_socket 3 7 ssh_view (Ok ssh_handle) ssh_view [])"
  by (simp add: handle_ssh_endpoint_conn_def serve_endpoint_conn_def endpoint_active_def ssh_view_def get_endpoint_def is_expired_def allows_def access_entry_def
      connection_by_id_def ssh_example_def new_connection_def conn_kind_def config_kind_def)

theorem ssh_session_authorized_witness:
  "\<exists>c. connection_by_id 7 (bv_index ssh_view) = Ok c \<and> conn_kind c = KindSsh \<and> endpoint_active ssh_view 3 7 \<and> allows (bv_access ssh_view) 7"
  using ssh_session_authorized [where sg = None and E = example_ssh and load = "\<lambda>_. Ok None" and st = example_socket and i = 3 and cid = 7 and ?v1.0 = ssh_view
      and ?v2.0 = ssh_view and reg = "Ok ssh_handle" and ending = "[]" and loaded = None and redeemed = "Inl Unknown" and v = ssh_view]
    ssh_view_serves by auto

definition example_test :: "(8 word \<times> bytes) list" where
  "example_test = [(SSH_AGENTC_EXTENSION, put_session_bind [1] [2] [3]), (SSH_AGENTC_SIGN_REQUEST, put_sign_request [9] example_login 0)]"

lemma example_test_run:
  "\<exists>ta. fold (\<lambda>(kind, req) s. snd (handle_test_request example_ssh example_key kind req s)) example_test (None, new_test_agent (ascii ''u'') (Some ())) =
     (Some \<lparr>sb_host_key = [1], sb_session_id = [2]\<rparr>, ta) \<and> ta_signed ta"
proof -
  have b: "parse_and_verify_session_bind example_ssh (put_session_bind [1] [2] [3]) = Ok (\<lparr>sb_host_key = [1], sb_session_id = [2]\<rparr>, ())"
    using fields_put_session_bind [of "[1]" "[2]" "[3]"]
    by (simp add: parse_and_verify_session_bind_def and_then_def explain_def example_ssh_def certificate_algorithm_def read_string_def [of "[1]"] read_u32_def)
  have r: "read_sign_request (put_sign_request [9] example_login 0) = Some ([9], example_login, 0, [])"
    using read_u32_put [of 0 "[]"] example_login_short by (simp add: read_sign_request_def put_sign_request_def read_string_put)
  have u: "rust_string (ascii ''u'')" by (simp add: rust_string_def is_scalar_def)
  have l: "parse_hostbound_userauth example_login [9] = Some \<lparr>hu_session_id = [2], hu_user = ascii ''u'', hu_host_key = [1]\<rparr>"
    unfolding example_login_def by (rule parse_put_userauth) (use u in \<open>simp_all add: length_as_bytes_Cons utf8_char_def\<close>)
  have k: "public_blob example_key = [9]" "sign example_key example_login 0 = Ok [7]" by (simp_all add: example_key_def sign_def explain_def)
  show ?thesis using l
    by (simp add: example_test_def handle_test_request_def agent_numbers(3,5,7) test_bind_def b test_bound_def new_test_agent_def
        test_sign_def test_login_of_def r k)
qed

theorem test_login_honest_witness:
  "\<exists>ta hk p. fold (\<lambda>(kind, req) s. snd (handle_test_request example_ssh example_key kind req s)) example_test (None, new_test_agent (ascii ''u'') (Some ())) =
     (Some \<lparr>sb_host_key = [1], sb_session_id = [2]\<rparr>, ta) \<and> se_public example_ssh hk = Ok p"
proof -
  obtain ta where "fold (\<lambda>(kind, req) s. snd (handle_test_request example_ssh example_key kind req s)) example_test (None, new_test_agent (ascii ''u'') (Some ())) =
     (Some \<lparr>sb_host_key = [1], sb_session_id = [2]\<rparr>, ta)" "ta_signed ta" using example_test_run by blast
  from test_login_honest [OF this(1) [symmetric] this(2)] this show ?thesis by blast
qed

end
