(* ===== verification/McpCalls.thy ===== *)
theory McpCalls
  imports HttpRules Approvals Elicitations Executions PgWire Sigv4
begin

text \<open>
  What the daemon reads in the body of a call (\<^verbatim>\<open>crates/aka-core/src/daemon/mod.rs\<close>): which MCP messages are session plumbing
  and raise no question, which tool or resource a call names, what the user is shown about a call (\<open>approval_for_call\<close>), and which of the
  prompts in an upstream's answer may be put to the user (\<open>attach_elicitation_permits\<close>). Parsing and printing JSON are parameters;
  a JSON object lists its members in the order in which the map iterates.
\<close>

subsection \<open>The code outside the repository\<close>

text \<open>
  \<open>ce_parse\<close> is \<open>serde_json::from_slice\<close> on UTF-8 text, \<open>ce_pieces\<close> the writes that \<open>serde_json::to_writer\<close> makes, \<open>ce_base64\<close> the
  decoder or its error text, \<open>ce_quality\<close> the parser of \<^verbatim>\<open>q\<close> values.
\<close>

record 'v call_env =
  ce_headers :: "'v header_env"
  ce_urls :: url_env
  ce_quality :: "ustring \<Rightarrow> bool option"
  ce_parse :: "bytes \<Rightarrow> json option"
  ce_pieces :: "json \<Rightarrow> bytes list"
  ce_base64 :: "ustring \<Rightarrow> ustring + bytes"
  ce_secret_name :: "uuid \<Rightarrow> ustring option"
  ce_sha :: "bytes \<Rightarrow> bytes"
  ce_not_printable :: "uchar \<Rightarrow> bool"

definition json_bytes :: "'v call_env \<Rightarrow> json \<Rightarrow> bytes" where
  "json_bytes E j = concat (ce_pieces E j)"

text \<open>\<open>value.pointer("/a/b")\<close> where neither name is an array index.\<close>

definition pointer2 :: "json \<Rightarrow> string \<Rightarrow> string \<Rightarrow> json option" where
  "pointer2 j a b = Option.bind (json_get j (ascii a)) (\<lambda>v. json_get v (ascii b))"

fun find_map :: "('a \<Rightarrow> 'b option) \<Rightarrow> 'a list \<Rightarrow> 'b option" where
  "find_map f [] = None"
| "find_map f (x # xs) = (case f x of Some y \<Rightarrow> Some y | None \<Rightarrow> find_map f xs)"

lemma find_map_None: "find_map f xs = None \<longleftrightarrow> (\<forall>x \<in> set xs. f x = None)"
  by (induction xs) (auto split: option.splits)

lemma find_map_Some: "find_map f xs = Some y \<Longrightarrow> \<exists>x \<in> set xs. f x = Some y"
  by (induction xs) (auto split: option.splits)

subsection \<open>Session plumbing\<close>

definition MCP_ENVELOPE :: "ustring list" where
  "MCP_ENVELOPE = map ascii
     [''initialize'', ''ping'', ''tools/list'', ''resources/list'', ''resources/templates/list'', ''prompts/list'', ''completion/complete'',
      ''notifications/initialized'', ''notifications/cancelled'', ''notifications/progress'', ''notifications/roots/list_changed'']"

definition is_mcp_envelope :: "ustring \<Rightarrow> bool" where
  "is_mcp_envelope m \<longleftrightarrow> m \<in> set MCP_ENVELOPE"

definition envelope_message :: "json \<Rightarrow> bool" where
  "envelope_message m \<longleftrightarrow> get_str m ''jsonrpc'' = Some (ascii ''2.0'') \<and>
     (case get_str m ''method'' of Some meth \<Rightarrow> is_mcp_envelope meth | None \<Rightarrow> False)"

definition is_mcp_envelope_value :: "json \<Rightarrow> bool" where
  "is_mcp_envelope_value v \<longleftrightarrow> (case v of JArray ms \<Rightarrow> ms \<noteq> [] \<and> list_all envelope_message ms | m \<Rightarrow> envelope_message m)"

definition is_mcp_envelope_body :: "'v call_env \<Rightarrow> bytes \<Rightarrow> bool" where
  "is_mcp_envelope_body E raw \<longleftrightarrow> (case ce_parse E raw of Some v \<Rightarrow> is_mcp_envelope_value v | None \<Rightarrow> False)"

text \<open>The pinned path of an MCP connection, and whether a call goes there.\<close>

definition pinned_mcp_path :: "connection \<Rightarrow> ustring option" where
  "pinned_mcp_path c = (case conn_config c of Api a \<Rightarrow> mcp_path a | _ \<Rightarrow> None)"

definition on_mcp_path :: "'v call_env \<Rightarrow> connection \<Rightarrow> ustring \<Rightarrow> bool" where
  "on_mcp_path E c p \<longleftrightarrow> (case pinned_mcp_path c of Some m \<Rightarrow> resolves_to_mcp_path (ce_urls E) p m | None \<Rightarrow> False)"

definition transport_leg :: "'v call_env \<Rightarrow> connection \<Rightarrow> http_method \<Rightarrow> ustring \<Rightarrow> 'v header_map \<Rightarrow> bool \<Rightarrow> bool" where
  "transport_leg E c m p headers no_body = is_mcp_transport_leg (ce_headers E) (ce_urls E) (ce_quality E) c m p headers no_body"

subsection \<open>What a curated tool subset lets through\<close>

definition messages_of :: "json \<Rightarrow> json list" where
  "messages_of v = (case v of JArray ms \<Rightarrow> ms | m \<Rightarrow> [m])"

definition call_outside :: "ustring list \<Rightarrow> json \<Rightarrow> ustring option" where
  "call_outside allowed v =
     (if get_str v ''method'' \<noteq> Some (ascii ''tools/call'') then None
      else let tool = Option.bind (pointer2 v ''params'' ''name'') json_as_str in
        if (case tool of Some t \<Rightarrow> t \<in> set allowed | None \<Rightarrow> False) then None
        else Some (capped_text (case tool of Some t \<Rightarrow> t | None \<Rightarrow> ascii ''(unnamed tool)'')))"

definition disallowed_mcp_tool_call :: "'v call_env \<Rightarrow> bytes \<Rightarrow> ustring list \<Rightarrow> ustring option" where
  "disallowed_mcp_tool_call E raw allowed =
     (case ce_parse E raw of None \<Rightarrow> None | Some v \<Rightarrow> find_map (call_outside allowed) (messages_of v))"

definition resource_read :: "json \<Rightarrow> ustring option" where
  "resource_read v =
     (if get_str v ''method'' \<noteq> Some (ascii ''resources/read'') then None
      else Some (capped_text (case Option.bind (pointer2 v ''params'' ''uri'') json_as_str of Some u \<Rightarrow> u | None \<Rightarrow> ascii ''(unnamed resource)'')))"

definition curated_mcp_resource_read :: "'v call_env \<Rightarrow> bytes \<Rightarrow> ustring option" where
  "curated_mcp_resource_read E raw = (case ce_parse E raw of None \<Rightarrow> None | Some v \<Rightarrow> find_map resource_read (messages_of v))"

definition mcp_elicitation_tool :: "'v call_env \<Rightarrow> bytes \<Rightarrow> ustring option" where
  "mcp_elicitation_tool E raw =
     (case ce_parse E raw of
        None \<Rightarrow> None
      | Some v \<Rightarrow>
          (case get_str v ''method'' of
             None \<Rightarrow> None
           | Some m \<Rightarrow>
               if m = ascii ''tools/call'' then Option.bind (pointer2 v ''params'' ''name'') json_as_str
               else if m = ascii ''resources/read'' then Option.bind (pointer2 v ''params'' ''uri'') json_as_str
               else None))"

subsection \<open>Previews\<close>

definition APPROVAL_PREVIEW_CAP :: nat where "APPROVAL_PREVIEW_CAP = 400"
definition APPROVAL_PREVIEW_SCAN_CAP :: nat where "APPROVAL_PREVIEW_SCAN_CAP = APPROVAL_PREVIEW_CAP * 4 + 4"
definition APPROVAL_RPC_PARSE_CAP :: nat where "APPROVAL_RPC_PARSE_CAP = 1024 * 1024"

definition preview_bytes_with_tail :: "bytes \<Rightarrow> bool \<Rightarrow> ustring" where
  "preview_bytes_with_tail bs unscanned_tail =
     (let scanned = min (length bs) APPROVAL_PREVIEW_SCAN_CAP; chars = from_utf8_lossy (take scanned bs); head = take APPROVAL_PREVIEW_CAP chars in
      if unscanned_tail \<or> scanned < length bs \<or> drop APPROVAL_PREVIEW_CAP chars \<noteq> [] then head @ [0x2026] else head)"

definition preview_bytes :: "bytes \<Rightarrow> ustring" where
  "preview_bytes bs = preview_bytes_with_tail bs False"

text \<open>
  The \<open>PrefixWriter\<close>: what it holds, whether it was truncated, and whether the last \<open>write_all\<close> failed, which ends the writing.
  \<open>write_all\<close> calls \<open>write\<close> until nothing is left, so a piece that does not fit is cut and then refused.
\<close>

fun prefix_write :: "bytes list \<Rightarrow> bytes \<times> bool \<Rightarrow> bytes \<times> bool" where
  "prefix_write [] w = w"
| "prefix_write (p # ps) (buf, trunc) =
     (let room = APPROVAL_PREVIEW_SCAN_CAP - length buf in
      if p = [] then prefix_write ps (buf, trunc)
      else if room < length p then (buf @ take room p, True)
      else prefix_write ps (buf @ p, trunc))"

definition preview_json :: "'v call_env \<Rightarrow> json \<Rightarrow> ustring" where
  "preview_json E j = (case prefix_write (ce_pieces E j) ([], False) of (buf, trunc) \<Rightarrow> preview_bytes_with_tail buf trunc)"

subsection \<open>The question a call raises\<close>

definition ellipsized_method :: "ustring \<Rightarrow> ustring" where
  "ellipsized_method m = (let m = capped_text m in if 60 < length m then take 60 m @ [0x2026] else m)"

definition batch_summary :: "json list \<Rightarrow> ustring" where
  "batch_summary batch =
     (let methods = map ellipsized_method (take 4 (List.map_filter (\<lambda>r. get_str r ''method'') (take 16 batch)));
          opening = ascii ''MCP batch ('' @ show_nat (length batch) @ ascii '' messages)'' in
      if methods = [] then opening
      else opening @ ascii '': '' @ join_with (ascii '', '') methods @ (if length batch > length methods then ascii '', '' @ [0x2026] else []))"

definition present :: "json option \<Rightarrow> json option" where
  "present j = (case j of Some JNull \<Rightarrow> None | _ \<Rightarrow> j)"

definition call_question :: "'v call_env \<Rightarrow> connection \<Rightarrow> ustring \<Rightarrow> http_method \<Rightarrow> ustring \<Rightarrow> ustring \<Rightarrow> approval_request" where
  "call_question E c client m p summary =
     http_operation (method_text m) p (credentials_from (ce_secret_name E) (new_request c client summary))"

definition body_preview :: "bytes \<Rightarrow> ustring option" where
  "body_preview raw = (if raw = [] then None else Some (preview_bytes raw))"

definition generic_question :: "'v call_env \<Rightarrow> connection \<Rightarrow> ustring \<Rightarrow> http_method \<Rightarrow> ustring \<Rightarrow> bytes \<Rightarrow> approval_request" where
  "generic_question E c client m p raw =
     maybe_detail (body_preview raw) (call_question E c client m p (method_text m @ [32] @ capped_text p))"

definition rpc_question :: "'v call_env \<Rightarrow> connection \<Rightarrow> ustring \<Rightarrow> http_method \<Rightarrow> ustring \<Rightarrow> json \<Rightarrow> ustring \<Rightarrow> approval_request" where
  "rpc_question E c client m p rpc meth =
     (if meth = ascii ''tools/call'' then
        maybe_detail (map_option (preview_json E) (present (pointer2 rpc ''params'' ''arguments'')))
          (request_tool (call_question E c client m p
             (capped_text (case Option.bind (pointer2 rpc ''params'' ''name'') json_as_str of Some t \<Rightarrow> t | None \<Rightarrow> ascii ''(unnamed tool)''))))
      else maybe_detail (map_option (preview_json E) (present (json_get rpc (ascii ''params'')))) (call_question E c client m p (capped_text meth)))"

definition approval_for_call ::
    "'v call_env \<Rightarrow> connection \<Rightarrow> ustring \<Rightarrow> http_method \<Rightarrow> ustring \<Rightarrow> 'v header_map \<Rightarrow> bytes \<Rightarrow> approval_request option" where
  "approval_for_call E c client m p headers raw =
     (let generic = generic_question E c client m p raw in
      if \<not> on_mcp_path E c p then
        (let r = call_question E c client m p (method_text m @ [32] @ capped_text p) in
         Some (if raw = [] then r else request_detail (preview_bytes raw) r))
      else if transport_leg E c m p headers (raw = []) then None
      else if length raw > APPROVAL_RPC_PARSE_CAP then Some generic
      else case ce_parse E raw of
        None \<Rightarrow> Some generic
      | Some rpc \<Rightarrow>
          (case json_as_array rpc of
             Some batch \<Rightarrow> Some (maybe_detail (body_preview raw) (call_question E c client m p (batch_summary batch)))
           | None \<Rightarrow>
               if get_str rpc ''jsonrpc'' \<noteq> Some (ascii ''2.0'') then Some generic
               else (case get_str rpc ''method'' of
                 None \<Rightarrow> Some generic
               | Some meth \<Rightarrow> if is_mcp_envelope meth then None else Some (rpc_question E c client m p rpc meth))))"

subsection \<open>Permits for the prompts in an answer\<close>

text \<open>\<open>body.replace("\r\n", "\n")\<close>, \<open>split("\n\n")\<close> and \<open>lines()\<close>.\<close>

fun unix_lines :: "ustring \<Rightarrow> ustring" where
  "unix_lines [] = []"
| "unix_lines (c # s) = (case s of d # t \<Rightarrow> if c = 13 \<and> d = 10 then 10 # unix_lines t else c # unix_lines s | [] \<Rightarrow> [c])"

fun split_frames :: "ustring \<Rightarrow> ustring \<Rightarrow> ustring list" where
  "split_frames cur [] = [cur]"
| "split_frames cur (c # s) =
     (case s of d # t \<Rightarrow> if c = 10 \<and> d = 10 then cur # split_frames [] t else split_frames (cur @ [c]) s | [] \<Rightarrow> [cur @ [c]])"

definition without_cr :: "ustring \<Rightarrow> ustring" where
  "without_cr l = (if l \<noteq> [] \<and> last l = 13 then butlast l else l)"

fun str_lines :: "ustring \<Rightarrow> ustring \<Rightarrow> ustring list" where
  "str_lines cur [] = (if cur = [] then [] else [cur])"
| "str_lines cur (c # s) = (if c = 10 then without_cr cur # str_lines [] s else str_lines (cur @ [c]) s)"

definition data_line :: "ustring \<Rightarrow> ustring option" where
  "data_line l =
     (if prefix (ascii ''data:'') l then
        (let rest = drop 5 l in Some (if prefix [32] rest then drop 1 rest else rest))
      else None)"

definition sse_data_frames :: "'v call_env \<Rightarrow> ustring \<Rightarrow> json list" where
  "sse_data_frames E raw =
     List.map_filter (\<lambda>fr.
       let text = join_with [10] (List.map_filter data_line (str_lines [] fr)) in
       if text = [] then None else ce_parse E (as_bytes text)) (split_frames [] (unix_lines raw))"

definition MAX_PER_RESPONSE :: nat where "MAX_PER_RESPONSE = 64"

definition input_requests :: "'v call_env \<Rightarrow> exec_outcome \<Rightarrow> (ustring \<times> json) list option" where
  "input_requests E oc =
     (if status oc \<noteq> 200 \<or> get_str (body oc) ''body_encoding'' = Some (ascii ''base64'') then None
      else case get_str (body oc) ''body'' of
        None \<Rightarrow> None
      | Some text \<Rightarrow>
          find_map (\<lambda>v. Option.bind (pointer2 v ''result'' ''inputRequests'') json_as_object)
            ((case ce_parse E (as_bytes text) of Some v \<Rightarrow> [v] | None \<Rightarrow> []) @ sse_data_frames E text))"

text \<open>The message and schema that are recorded for a prompt, and the tokens issued in order; \<open>mint n\<close> is the clock and the token of the \<open>n\<close>th.\<close>

definition prompt_of :: "json \<Rightarrow> (ustring \<times> json) option" where
  "prompt_of r =
     (if get_str r ''method'' \<noteq> Some (ascii ''elicitation/create'') then None
      else Some (case Option.bind (pointer2 r ''params'' ''message'') json_as_str of Some t \<Rightarrow> t | None \<Rightarrow> [],
                 case pointer2 r ''params'' ''requestedSchema'' of Some s \<Rightarrow> s | None \<Rightarrow> JObject []))"

fun issue_each ::
    "(nat \<Rightarrow> instant \<times> ustring) \<Rightarrow> nat \<Rightarrow> uuid \<Rightarrow> uuid \<Rightarrow> ustring \<Rightarrow> (ustring \<times> json) list \<Rightarrow> elicitation_permits \<Rightarrow>
     (ustring \<times> json) list \<times> elicitation_permits" where
  "issue_each mint n client c tool [] ps = ([], ps)"
| "issue_each mint n client c tool ((k, r) # rs) ps =
     (case prompt_of r of
        None \<Rightarrow> issue_each mint n client c tool rs ps
      | Some (message, schema) \<Rightarrow>
          (case mint n of (now, token) \<Rightarrow>
             case issue_each mint (n + 1) client c tool rs (issue_permit now token client c tool message schema ps) of
               (tokens, ps) \<Rightarrow> ((k, JString token) # tokens, ps)))"

definition json_set :: "json \<Rightarrow> ustring \<Rightarrow> json \<Rightarrow> json" where
  "json_set j k v = (case j of JObject kvs \<Rightarrow> JObject (AList.update k v kvs) | _ \<Rightarrow> j)"

definition attach_elicitation_permits ::
    "'v call_env \<Rightarrow> (nat \<Rightarrow> instant \<times> ustring) \<Rightarrow> uuid \<Rightarrow> uuid \<Rightarrow> ustring \<Rightarrow> exec_outcome \<Rightarrow> elicitation_permits \<Rightarrow> exec_outcome \<times> elicitation_permits" where
  "attach_elicitation_permits E mint client c tool oc ps =
     (case input_requests E oc of
        None \<Rightarrow> (oc, ps)
      | Some requests \<Rightarrow>
          (case issue_each mint 0 client c tool (take MAX_PER_RESPONSE requests) ps of
             (tokens, ps) \<Rightarrow>
               (if tokens = [] then oc else oc\<lparr>body := json_set (body oc) (ascii ''elicitation_tokens'') (JObject tokens)\<rparr>, ps)))"

subsection \<open>What the inspection guarantees\<close>

lemma prefix_write_take:
  "length buf \<le> APPROVAL_PREVIEW_SCAN_CAP \<Longrightarrow>
   prefix_write ps (buf, False) = (take APPROVAL_PREVIEW_SCAN_CAP (buf @ concat ps), APPROVAL_PREVIEW_SCAN_CAP < length (buf @ concat ps))"
proof (induction ps arbitrary: buf)
  case (Cons p ps)
  show ?case
  proof (cases "APPROVAL_PREVIEW_SCAN_CAP - length buf < length p")
    case True
    then have "p \<noteq> []" by auto
    with True Cons.prems show ?thesis by (simp add: Let_def)
  next
    case False
    then have "length (buf @ p) \<le> APPROVAL_PREVIEW_SCAN_CAP" using Cons.prems by simp
    from Cons.IH [OF this] False show ?thesis by (cases p) (simp_all add: Let_def)
  qed
qed simp

text \<open>
  The bounded writer changes nothing about the prompt: what is shown of the arguments of a tool call is what would be shown if
  they were serialized in full.
\<close>

theorem preview_of_prefix: "preview_json E j = preview_bytes (json_bytes E j)"
proof -
  have w: "prefix_write (ce_pieces E j) ([], False) =
      (take APPROVAL_PREVIEW_SCAN_CAP (json_bytes E j), APPROVAL_PREVIEW_SCAN_CAP < length (json_bytes E j))"
    using prefix_write_take [of "[]" "ce_pieces E j"] by (simp add: json_bytes_def)
  show ?thesis
    by (cases "APPROVAL_PREVIEW_SCAN_CAP < length (json_bytes E j)")
      (simp_all add: preview_json_def w preview_bytes_def preview_bytes_with_tail_def Let_def min_def)
qed

text \<open>
  No question is raised exactly for session plumbing: the call is sent to the pinned path of an MCP connection and is either a
  leg of the transport without a body or one JSON-RPC message with a method of the list.
\<close>

lemma question_None:
  "approval_for_call E c client m p headers raw = None \<longleftrightarrow>
     on_mcp_path E c p \<and>
     (transport_leg E c m p headers (raw = []) \<or>
      length raw \<le> APPROVAL_RPC_PARSE_CAP \<and>
      (\<exists>rpc meth. ce_parse E raw = Some rpc \<and> json_as_array rpc = None \<and> get_str rpc ''jsonrpc'' = Some (ascii ''2.0'') \<and>
         get_str rpc ''method'' = Some meth \<and> meth \<in> set MCP_ENVELOPE))"
  by (auto simp: approval_for_call_def Let_def is_mcp_envelope_def split: option.splits if_splits)

text \<open>The legs of the transport spelled out: the event stream is read, or the session is ended.\<close>

lemma transport_leg_cases:
  assumes "transport_leg E c m p headers no_body"
  shows "no_body \<and> (m = GET \<and> (\<exists>v s. (ascii ''accept'', v) \<in> set headers \<and> he_text (ce_headers E) v = Some s \<and>
        list_ex (accepts_event_stream (ce_quality E)) (split_on 44 s)) \<or>
      m = DELETE \<and> (\<exists>v s. map_of headers (ascii ''mcp-session-id'') = Some v \<and> he_text (ce_headers E) v = Some s \<and> trim s \<noteq> []))"
  using assms
  by (auto simp: transport_leg_def is_mcp_transport_leg_def list_ex_iff simp del: ascii_simps
      split: connection_config.splits option.splits http_method.splits)

text \<open>No method of the list names, reads or runs anything of the server: in particular none of these.\<close>

lemma envelope_methods: "meth \<in> set MCP_ENVELOPE \<Longrightarrow> meth \<notin> set (map ascii [''tools/call'', ''resources/read'', ''prompts/get'', ''resources/subscribe''])"
proof -
  have "list_all (\<lambda>x. x \<notin> set (map ascii [''tools/call'', ''resources/read'', ''prompts/get'', ''resources/subscribe''])) MCP_ENVELOPE"
    by code_simp
  then show "meth \<in> set MCP_ENVELOPE \<Longrightarrow> meth \<notin> set (map ascii [''tools/call'', ''resources/read'', ''prompts/get'', ''resources/subscribe''])"
    unfolding list_all_iff by blast
qed

lemma question_of_connection:
  "approval_for_call E c client m p headers raw = Some r \<Longrightarrow> ar_connection r = c \<and> ar_agent r = cap_approval_text client"
  by (auto simp: approval_for_call_def Let_def generic_question_def rpc_question_def call_question_def maybe_detail_def request_detail_def
      http_operation_def credentials_from_def new_request_def request_tool_def split: option.splits if_splits)

definition within_subset :: "ustring list \<Rightarrow> json \<Rightarrow> bool" where
  "within_subset allowed v \<longleftrightarrow> get_str v ''method'' \<noteq> Some (ascii ''resources/read'') \<and>
     (get_str v ''method'' = Some (ascii ''tools/call'') \<longrightarrow>
      (\<exists>t \<in> set allowed. Option.bind (pointer2 v ''params'' ''name'') json_as_str = Some t))"

lemma call_outside_None: "call_outside allowed v = None \<longleftrightarrow>
   (get_str v ''method'' = Some (ascii ''tools/call'') \<longrightarrow> (\<exists>t \<in> set allowed. Option.bind (pointer2 v ''params'' ''name'') json_as_str = Some t))"
  by (auto simp: call_outside_def Let_def split: option.splits)

lemma resource_read_None: "resource_read v = None \<longleftrightarrow> get_str v ''method'' \<noteq> Some (ascii ''resources/read'')"
  by (simp add: resource_read_def)

lemma subset_checks:
  assumes "ce_parse E raw = Some v"
  shows "disallowed_mcp_tool_call E raw allowed = None \<and> curated_mcp_resource_read E raw = None \<longleftrightarrow> (\<forall>m \<in> set (messages_of v). within_subset allowed m)"
  using assms
  by (auto simp: disallowed_mcp_tool_call_def curated_mcp_resource_read_def find_map_None call_outside_None resource_read_None within_subset_def)

text \<open>The checks fail open on a body that \<^verbatim>\<open>serde_json\<close> does not read, whatever a more lenient upstream would make of it.\<close>

lemma unread_body_escapes_subset:
  assumes "ce_parse E raw = None"
  shows "disallowed_mcp_tool_call E raw allowed = None \<and> curated_mcp_resource_read E raw = None"
  using assms by (simp add: disallowed_mcp_tool_call_def curated_mcp_resource_read_def)

lemma issued_permit_cases:
  assumes "map_of (issue_permit now token client c tool message schema ps) t = Some p" and "hm_wf ps"
  shows "map_of ps t = Some p \<or> p = \<lparr>ep_client_id = client, ep_connection = c, ep_tool = tool, ep_message = message, ep_schema = schema, ep_expires_at = now + PERMIT_TTL\<rparr>"
  using assms
  by (auto simp: issue_permit_def Let_def hm_simps split: option.splits if_splits prod.splits)

lemma issue_permit_wf: "hm_wf ps \<Longrightarrow> hm_wf (issue_permit now token client c tool message schema ps)"
  by (auto simp: issue_permit_def Let_def split: option.splits prod.splits)

lemma issue_each_permits:
  assumes "issue_each mint n client c tool rs ps = (tokens, ps')" and "hm_wf ps" and "map_of ps' t = Some p"
  shows "map_of ps t = Some p \<or> ep_client_id p = client \<and> ep_connection p = c \<and> ep_tool p = tool \<and>
    (\<exists>k r. (k, r) \<in> set rs \<and> prompt_of r = Some (ep_message p, ep_schema p))"
  using assms
proof (induction rs arbitrary: n ps tokens)
  case (Cons x rs)
  obtain k r where x: "x = (k, r)" by (cases x)
  show ?case
  proof (cases "prompt_of r")
    case None
    with Cons.IH [of n ps tokens] Cons.prems x show ?thesis by auto
  next
    case (Some ms)
    obtain message schema now token where ms: "ms = (message, schema)" "mint n = (now, token)" by (metis surj_pair)
    obtain ts where r: "issue_each mint (n + 1) client c tool rs (issue_permit now token client c tool message schema ps) = (ts, ps')"
      using Cons.prems(1) x Some ms by (auto split: prod.splits)
    from Cons.IH [OF r issue_permit_wf [OF Cons.prems(2)] Cons.prems(3)]
    show ?thesis using issued_permit_cases [OF _ Cons.prems(2)] x Some ms by (fastforce)
  qed
qed simp

lemma issue_each_length: "length (fst (issue_each mint n client c tool rs ps)) \<le> length rs"
  by (induction rs arbitrary: n ps) (auto split: option.splits prod.splits simp: le_SucI, metis Suc_le_mono fst_conv)

text \<open>
  Only prompts that an upstream really sent can be put to the user: each permit that reading an answer adds is for the caller, connection and
  tool of that call, and carries the text and schema of one \<open>elicitation/create\<close> request in the answer's \<open>inputRequests\<close>; at most \<open>64\<close> tokens are handed
  out per answer, and none for a failed or binary one.
\<close>

theorem permits_only_for_upstream_prompts:
  assumes "attach_elicitation_permits E mint client c tool oc ps = (oc', ps')" and "hm_wf ps"
  shows "(\<forall>t p. map_of ps' t = Some p \<and> map_of ps t \<noteq> Some p \<longrightarrow>
      ep_client_id p = client \<and> ep_connection p = c \<and> ep_tool p = tool \<and>
      (\<exists>requests k r. input_requests E oc = Some requests \<and> (k, r) \<in> set requests \<and> prompt_of r = Some (ep_message p, ep_schema p))) \<and>
    status oc' = status oc \<and>
    (oc' \<noteq> oc \<longrightarrow> (\<exists>tokens. length tokens \<le> MAX_PER_RESPONSE \<and> body oc' = json_set (body oc) (ascii ''elicitation_tokens'') (JObject tokens)))"
proof (cases "input_requests E oc")
  case None
  with assms show ?thesis by (auto simp: attach_elicitation_permits_def)
next
  case (Some requests)
  obtain tokens where i: "issue_each mint 0 client c tool (take MAX_PER_RESPONSE requests) ps = (tokens, ps')"
    "oc' = (if tokens = [] then oc else oc\<lparr>body := json_set (body oc) (ascii ''elicitation_tokens'') (JObject tokens)\<rparr>)"
    using assms(1) Some by (auto simp: attach_elicitation_permits_def split: prod.splits)
  have "length tokens \<le> MAX_PER_RESPONSE"
    using issue_each_length [of mint 0 client c tool "take MAX_PER_RESPONSE requests" ps] i(1) by simp
  moreover have "\<forall>t p. map_of ps' t = Some p \<longrightarrow> map_of ps t = Some p \<or> ep_client_id p = client \<and> ep_connection p = c \<and> ep_tool p = tool \<and>
      (\<exists>k r. (k, r) \<in> set requests \<and> prompt_of r = Some (ep_message p, ep_schema p))"
    using issue_each_permits [OF i(1) assms(2)] by (meson in_set_takeD)
  ultimately show ?thesis using i(2) Some by auto
qed

end
