(* ===== verification/CallGate.thy ===== *)
theory CallGate
  imports McpCalls PgProxy Identity Ratelimit
begin

text \<open>
  The daemon's gates for agents, \<^verbatim>\<open>crates/aka-core/src/daemon/mod.rs\<close>: the bearer check, \<open>post_http\<close> up to the execution, the shared
  tail \<open>run_allowed\<close> with the confirmation and the checks at the execution boundary, the two opens, and the elicitation calls. As in
  \<open>PgProxy\<close>, each check reads the broker of its moment, so that anything may change in between, and what a handler does is a list of effects.
\<close>

subsection \<open>Replies and effects\<close>

record reply =
  rp_status :: nat
  rp_body :: json
  rp_retry_after :: "nat option"

datatype gate_effect =
    GateAudited audit_entry
  | AuthFailed ustring
  | GateWaiting
  | GateAsked approval_request
  | GateRetired
  | GateRevoked uuid
  | GateRan connection
  | GateElicited elicitation_request

definition reason_json :: "error_reason \<Rightarrow> json" where
  "reason_json r = JString (ascii (error_reason_as_str r))"

definition err :: "nat \<Rightarrow> error_reason \<Rightarrow> reply" where
  "err s r = \<lparr>rp_status = s, rp_body = JObject [(ascii ''reason'', reason_json r)], rp_retry_after = None\<rparr>"

definition err_detail :: "nat \<Rightarrow> error_reason \<Rightarrow> ustring \<Rightarrow> reply" where
  "err_detail s r d =
     \<lparr>rp_status = s, rp_body = JObject [(ascii ''reason'', reason_json r), (ascii ''detail'', JString d)], rp_retry_after = None\<rparr>"

definition retry_after_secs :: "duration \<Rightarrow> nat" where
  "retry_after_secs d = max (d div secs 1 + (if d mod secs 1 > 0 then 1 else 0)) 1"

definition err_rate_limited :: "error_reason \<Rightarrow> duration \<Rightarrow> reply" where
  "err_rate_limited r wait =
     \<lparr>rp_status = 429,
      rp_body = JObject [(ascii ''reason'', reason_json r), (ascii ''retry_after_seconds'', JNumber (show_nat (retry_after_secs wait)))],
      rp_retry_after = Some (retry_after_secs wait)\<rparr>"

definition err_unknown_connection :: "index_state \<Rightarrow> reply" where
  "err_unknown_connection ix =
     (let names = map conn_name (ix_connections ix) in
      err_detail 404 UnknownConnection
        (if names = [] then ascii ''no connections are configured'' else ascii ''configured connections: '' @ join_with (ascii '', '') names))"

definition endpoint_for :: "connection_kind \<Rightarrow> ustring" where
  "endpoint_for k = (case k of KindApi \<Rightarrow> ascii ''/v1/http'' | KindPg \<Rightarrow> ascii ''/v1/pg/open'' | KindSsh \<Rightarrow> ascii ''/v1/ssh/open'')"

definition wrong_kind :: "connection \<Rightarrow> reply" where
  "wrong_kind c =
     err_detail 400 WrongConnectionType
       (conn_name c @ ascii '' is a '' @ kind_as_str (conn_kind c) @ ascii '' connection; use POST '' @ endpoint_for (conn_kind c))"

definition REQUEST_ID_MAX_BYTES :: nat where "REQUEST_ID_MAX_BYTES = 256"

definition request_id_error :: "ustring option \<Rightarrow> reply option" where
  "request_id_error rid =
     (case rid of
        Some i \<Rightarrow>
          if utf8_len i > REQUEST_ID_MAX_BYTES then
            Some (err_detail 400 InvalidBody
              (ascii ''request_id is '' @ show_nat (utf8_len i) @ ascii '' UTF-8 bytes; the maximum is '' @ show_nat REQUEST_ID_MAX_BYTES))
          else None
      | None \<Rightarrow> None)"

definition outcome_response :: "exec_outcome \<Rightarrow> reply" where
  "outcome_response oc =
     \<lparr>rp_status = (if 100 \<le> status oc \<and> status oc \<le> 999 then status oc else 500), rp_body = body oc, rp_retry_after = None\<rparr>"

subsection \<open>Who is calling\<close>

datatype missing_token_cause =
  AuthorizationHeaderAbsent | AuthorizationHeaderInvalid | AuthorizationSchemeInvalid | BearerTokenEmpty

definition missing_token_text :: "missing_token_cause \<Rightarrow> ustring" where
  "missing_token_text c = (case c of
       AuthorizationHeaderAbsent \<Rightarrow> ascii ''authorization_header_absent''
     | AuthorizationHeaderInvalid \<Rightarrow> ascii ''authorization_header_invalid''
     | AuthorizationSchemeInvalid \<Rightarrow> ascii ''authorization_scheme_invalid''
     | BearerTokenEmpty \<Rightarrow> ascii ''bearer_token_empty'')"

definition missing_token_detail :: "missing_token_cause \<Rightarrow> ustring" where
  "missing_token_detail c = (case c of
       AuthorizationHeaderAbsent \<Rightarrow> ascii ''No Authorization header reached the broker. It may have been blocked by a local application.''
     | AuthorizationHeaderInvalid \<Rightarrow> ascii ''An invalid Authorization header reached the broker. It may have been rewritten by a local application.''
     | AuthorizationSchemeInvalid \<Rightarrow>
         ascii ''An Authorization header reached the broker but did not use the Bearer scheme. It may have been rewritten by a local application.''
     | BearerTokenEmpty \<Rightarrow> ascii ''A Bearer Authorization header reached the broker without a token. It may have been rewritten by a local application.'')"

definition err_missing_token :: "missing_token_cause \<Rightarrow> reply" where
  "err_missing_token c =
     \<lparr>rp_status = 401,
      rp_body = JObject [(ascii ''reason'', reason_json MissingToken), (ascii ''cause'', JString (missing_token_text c)),
        (ascii ''detail'', JString (missing_token_detail c))],
      rp_retry_after = None\<rparr>"

definition bearer_token :: "'v header_env \<Rightarrow> 'v header_map \<Rightarrow> missing_token_cause + ustring" where
  "bearer_token H headers =
     (case map_of headers (ascii ''authorization'') of
        None \<Rightarrow> Err AuthorizationHeaderAbsent
      | Some v \<Rightarrow>
          (case he_text H v of
             None \<Rightarrow> Err AuthorizationHeaderInvalid
           | Some s \<Rightarrow>
               (let scheme = takeWhile (\<lambda>c. \<not> is_whitespace c) s; token = trim (drop 1 (dropWhile (\<lambda>c. \<not> is_whitespace c) s)) in
                if \<not> eq_ignore_ascii_case scheme (ascii ''Bearer'') then Err AuthorizationSchemeInvalid
                else if token = [] then Err BearerTokenEmpty
                else Ok token)))"

definition DEFAULT_CLIENT_LABEL :: ustring where "DEFAULT_CLIENT_LABEL = ascii ''agent''"

definition client_label :: "'v header_env \<Rightarrow> 'v header_map \<Rightarrow> ustring" where
  "client_label H headers =
     (case (case map_of headers (ascii ''x-multitool-client'') of Some v \<Rightarrow> Some v | None \<Rightarrow> map_of headers (ascii ''x-agentmfa-client'')) of
        None \<Rightarrow> DEFAULT_CLIENT_LABEL
      | Some v \<Rightarrow>
          (case he_text H v of
             None \<Rightarrow> DEFAULT_CLIENT_LABEL
           | Some s \<Rightarrow> if validate_agent_name (trim s) then trim s else DEFAULT_CLIENT_LABEL))"

record authed =
  au_client :: ustring
  au_client_id :: uuid
  au_via_alias :: bool

definition token_refusal :: "ustring \<Rightarrow> token_error \<Rightarrow> reply" where
  "token_refusal token_display e =
     (case e of
        TSuperseded \<Rightarrow>
          \<lparr>rp_status = 401,
           rp_body = JObject [(ascii ''reason'', reason_json (token_error_reason e)),
             (ascii ''detail'', JString (ascii ''the broker key was rotated; re-read the token file instead of treating this as fatal'')),
             (ascii ''store_at'', JString token_display)],
           rp_retry_after = None\<rparr>
      | TInvalid \<Rightarrow>
          err_detail 401 InvalidToken
            (ascii ''A bearer token reached the broker but was not recognized. '' @
             ascii ''Re-read the broker's token file, or POST /v1/pair to fetch the shared key.'')
      | TExpired \<Rightarrow> err 401 (token_error_reason e))"

text \<open>The extractor in front of every agent route; \<open>w\<close>, \<open>g1\<close>, \<open>wall\<close> and \<open>now\<close> are what \<open>verify\<close> meets.\<close>

definition authenticate ::
    "'v header_env \<Rightarrow> (ustring \<Rightarrow> bytes) \<Rightarrow> ustring \<Rightarrow> write_fault \<Rightarrow> datetime \<Rightarrow> datetime \<Rightarrow> datetime \<Rightarrow> 'v header_map \<Rightarrow>
     identity_store \<Rightarrow> identity_disk \<Rightarrow> (gate_effect list \<times> (reply + authed)) \<times> identity_store \<times> identity_disk" where
  "authenticate H sha token_display w g1 wall now headers s d =
     (case bearer_token H headers of
        Inl c \<Rightarrow> (([], Err (err_missing_token c)), s, d)
      | Inr token \<Rightarrow>
          (case verify sha w g1 wall now token s d of
             (Inl e, s, d) \<Rightarrow> (([AuthFailed (ascii (error_reason_as_str (token_error_reason e)))], Err (token_refusal token_display e)), s, d)
           | (Inr v, s, d) \<Rightarrow>
               (([], Ok \<lparr>au_client = client_label H headers, au_client_id = vt_client_id v, au_via_alias = via_alias v\<rparr>), s, d)))"

subsection \<open>Budgets\<close>

definition rate_limited_entry :: "datetime \<Rightarrow> ustring \<Rightarrow> audit_entry" where
  "rate_limited_entry wall client = with_agent client (new_entry wall KRateLimited (ascii ''Rate limited: '' @ client))"

text \<open>\<open>None\<close> admits; \<open>caller\<close> is the text of the caller's id.\<close>

definition http_rate_limit ::
    "datetime \<Rightarrow> string \<Rightarrow> ustring \<Rightarrow> instant \<Rightarrow> keyed_limiter \<Rightarrow> (gate_effect list \<times> reply) option \<times> keyed_limiter" where
  "http_rate_limit wall caller client now lim =
     (case keyed_check_at lim caller now of
        (Inl wait, lim) \<Rightarrow> (Some ([GateAudited (rate_limited_entry wall client)], err_rate_limited RateLimited wait), lim)
      | (Inr _, lim) \<Rightarrow> (None, lim))"

subsection \<open>An HTTP call, up to the execution\<close>

record http_call =
  hc_connection :: ustring
  hc_method :: ustring
  hc_path :: ustring
  hc_headers :: "(ustring \<times> ustring) list"
  hc_body :: "json option"
  hc_body_base64 :: "ustring option"
  hc_request_id :: "ustring option"
  hc_stream :: bool

fun appended_headers :: "'v header_env \<Rightarrow> (ustring \<times> ustring) list \<Rightarrow> 'v header_map option" where
  "appended_headers H [] = Some []"
| "appended_headers H ((n, v) # hs) =
     (case (he_name H n, he_value H v) of
        (Some name, Some val) \<Rightarrow> map_option (\<lambda>m. (name, val) # m) (appended_headers H hs)
      | _ \<Rightarrow> None)"

text \<open>Whether the budget may be left alone until the call is understood; \<open>found\<close> is the connection that the call names.\<close>

definition is_mcp_envelope_candidate :: "'v call_env \<Rightarrow> connection option \<Rightarrow> http_call \<Rightarrow> bool" where
  "is_mcp_envelope_candidate E found hc =
     (case found of
        None \<Rightarrow> False
      | Some c \<Rightarrow>
          (case pinned_mcp_path c of
             None \<Rightarrow> False
           | Some mcp \<Rightarrow>
               if \<not> resolves_to_mcp_path (ce_urls E) (hc_path hc) mcp then False
               else (case parse_method (hc_method hc) of
                 Inl _ \<Rightarrow> False
               | Inr m \<Rightarrow>
                   (let no_body = ((case hc_body hc of None \<Rightarrow> True | Some j \<Rightarrow> j = JNull) \<and>
                          (case hc_body_base64 hc of None \<Rightarrow> True | Some b \<Rightarrow> b = [])) in
                    case appended_headers (ce_headers E) (hc_headers hc) of
                      None \<Rightarrow> False
                    | Some headers \<Rightarrow>
                        transport_leg E c m (hc_path hc) headers no_body \<or>
                        (case (hc_body hc, hc_body_base64 hc) of
                           (Some (JString s), None) \<Rightarrow> is_mcp_envelope_body E (as_bytes s)
                         | (Some j, None) \<Rightarrow> is_mcp_envelope_value j
                         | (None, Some b) \<Rightarrow> (case ce_base64 E b of Inr raw \<Rightarrow> is_mcp_envelope_body E raw | Inl _ \<Rightarrow> False)
                         | _ \<Rightarrow> False)))))"

definition decode_body :: "'v call_env \<Rightarrow> http_call \<Rightarrow> reply + bytes" where
  "decode_body E hc =
     (case (hc_body hc, hc_body_base64 hc) of
        (Some _, Some _) \<Rightarrow> Err (err_detail 400 InvalidBody (ascii ''send body or body_base64, not both''))
      | (Some JNull, None) \<Rightarrow> Ok []
      | (None, None) \<Rightarrow> Ok []
      | (Some (JString s), None) \<Rightarrow> Ok (as_bytes s)
      | (Some j, None) \<Rightarrow> Ok (json_bytes E j)
      | (None, Some b) \<Rightarrow> (case ce_base64 E b of Inr raw \<Rightarrow> Ok raw | Inl e \<Rightarrow> Err (err_detail 400 InvalidBody e)))"

definition http_credential_header :: "api_config \<Rightarrow> reply + ustring option" where
  "http_credential_header a =
     (if api_oauth a \<noteq> None then Ok (Some (ascii ''authorization''))
      else case injection_form (api_template a) of
        Some (FormHeader n) \<Rightarrow> Ok (Some n)
      | Some FormQuery \<Rightarrow> Ok None
      | None \<Rightarrow>
          if trim (api_template a) = [] then Ok None
          else Err (err_detail 500 BadConnectionConfig (ascii ''connection template is neither a header line nor a query form'')))"

text \<open>The request proper: its method, path, headers and body.\<close>

record 'v wire_call =
  wc_method :: http_method
  wc_path :: ustring
  wc_headers :: "'v header_map"
  wc_body :: bytes

definition invalid :: "'v call_env \<Rightarrow> http_validation_error \<Rightarrow> reply" where
  "invalid E e = err_detail 400 (http_error_reason e) (http_error_detail (ce_not_printable E) e)"

definition parse_call :: "'v call_env \<Rightarrow> nat \<Rightarrow> api_config \<Rightarrow> http_call \<Rightarrow> reply + 'v wire_call" where
  "parse_call E request_cap a hc =
     (case parse_method (hc_method hc) of
        Inl e \<Rightarrow> Err (invalid E e)
      | Inr m \<Rightarrow>
          (case checked_path (hc_path hc) of
             Inl e \<Rightarrow> Err (invalid E e)
           | Inr _ \<Rightarrow>
               (case http_credential_header a of
                  Inl refused \<Rightarrow> Err refused
                | Inr cred \<Rightarrow>
                    (case validate_headers (ce_headers E) cred (hc_headers hc) of
                       Inl e \<Rightarrow> Err (invalid E e)
                     | Inr headers \<Rightarrow>
                         (case decode_body E hc of
                            Inl refused \<Rightarrow> Err refused
                          | Inr raw \<Rightarrow>
                              if length raw > request_cap then
                                Err (err_detail 413 RequestTooLarge
                                  (ascii ''request body cap on /v1/http is '' @ show_nat request_cap @
                                   ascii '' bytes; larger uploads go through this connection's direct endpoint, which streams''))
                              else Ok \<lparr>wc_method = m, wc_path = hc_path hc, wc_headers = headers, wc_body = raw\<rparr>)))))"

text \<open>The moments of a call: what each check of it reads, and what the user, the caller and the upstream do.\<close>

record call_moments =
  cm_candidate :: index_state
  cm_limited :: instant
  cm_resolved :: broker_view
  cm_tools :: access_table
  cm_spool_error :: "ustring option"
  cm_admitted :: broker_view
  cm_confirm :: access_table
  cm_before_asking :: broker_view
  cm_abandoned :: bool
  cm_verdict :: verdict
  cm_boundary :: broker_view
  cm_started :: access_table
  cm_outcome :: exec_outcome
  cm_mint :: "nat \<Rightarrow> instant \<times> ustring"

record 'v admitted = "'v wire_call" +
  ad_connection :: connection
  ad_on_mcp :: bool
  ad_tools :: "ustring list option"
  ad_elicitation_tool :: "ustring option"
  ad_question :: "approval_request option"
  ad_key :: "coalesce_key option"
  ad_hash :: "ustring option"
  ad_stream :: bool

definition denied_entry :: "datetime \<Rightarrow> ustring \<Rightarrow> connection \<Rightarrow> ustring \<Rightarrow> audit_entry" where
  "denied_entry wall client c text =
     with_outcome (ascii ''denied_by_policy'') (AuditEntry.with_connection (conn_name c) (with_agent client (new_entry wall KDenied text)))"

text \<open>The checks of a curated tool subset on a body that goes to the MCP path.\<close>

definition curated_refusal :: "'v call_env \<Rightarrow> datetime \<Rightarrow> ustring \<Rightarrow> connection \<Rightarrow> ustring list \<Rightarrow> bytes \<Rightarrow> (gate_effect list \<times> reply) option" where
  "curated_refusal E wall client c allowed raw =
     (let whom = client @ [32, 0x2192, 32] @ conn_name c @ [32, 183, 32] in
      case curated_mcp_resource_read E raw of
        Some resource \<Rightarrow>
          Some ([GateAudited (denied_entry wall client c (ascii ''Refused (resources not enabled): '' @ whom @ resource))],
                err_detail 403 DeniedByPolicy (ascii ''resources are unavailable while '' @ conn_name c @ ascii '' uses a curated MCP tool subset''))
      | None \<Rightarrow>
          (case disallowed_mcp_tool_call E raw allowed of
             Some tool \<Rightarrow>
               Some ([GateAudited (denied_entry wall client c (ascii ''Refused (tool not enabled): '' @ whom @ tool))],
                     err_detail 403 DeniedByPolicy
                       (ascii ''the tool '' @ debug_str (ce_not_printable E) tool @ ascii '' is not enabled on '' @ conn_name c @
                        ascii ''; the user can enable it in Multitool''))
           | None \<Rightarrow> None))"

definition call_key :: "uuid \<Rightarrow> connection \<Rightarrow> http_call \<Rightarrow> http_method \<Rightarrow> coalesce_key option" where
  "call_key who c hc m = (case hc_request_id hc of Some rid \<Rightarrow> if is_mutating m then Some (who, conn_id c, rid) else None | None \<Rightarrow> None)"

definition envelope_leg :: "'v call_env \<Rightarrow> connection \<Rightarrow> 'v wire_call \<Rightarrow> bool" where
  "envelope_leg E c w \<longleftrightarrow> on_mcp_path E c (wc_path w) \<and>
     (transport_leg E c (wc_method w) (wc_path w) (wc_headers w) (wc_body w = []) \<or> is_mcp_envelope_body E (wc_body w))"

definition admit_call ::
    "'v call_env \<Rightarrow> call_moments \<Rightarrow> authed \<Rightarrow> http_call \<Rightarrow> connection \<Rightarrow> 'v wire_call \<Rightarrow> gate_effect list \<times> (reply + 'v admitted)" where
  "admit_call E cm au hc c w =
     (let mcp = on_mcp_path E c (wc_path w); tools = allowed_tools_of (cm_tools cm) (conn_id c) in
      case (if mcp then Option.bind tools (\<lambda>allowed. curated_refusal E (bv_wall (cm_resolved cm)) (au_client au) c allowed (wc_body w)) else None) of
        Some (es, refused) \<Rightarrow> (es, Err refused)
      | None \<Rightarrow>
          (case cm_spool_error cm of
             Some e \<Rightarrow> ([], Err (err_detail 500 SpoolFailed e))
           | None \<Rightarrow>
               (let k = call_key (au_client_id au) c hc (wc_method w) in
                ([], Ok (wire_call.extend w
                  (admitted.fields c mcp tools (if mcp then mcp_elicitation_tool E (wc_body w) else None)
                    (approval_for_call E c (au_client au) (wc_method w) (wc_path w) (wc_headers w) (wc_body w))
                    k
                    (map_option (\<lambda>_. map unat (HttpRules.payload_hash (ce_sha E) (au_client au) (conn_id c) (wc_method w) (wc_path w) (hc_headers hc) (wc_body w))) k)
                    (hc_stream hc)))))))"

text \<open>\<open>post_http\<close> until the execution is handed to \<open>run_allowed\<close>, with the state of the caller's budget.\<close>

definition post_http ::
    "'v call_env \<Rightarrow> nat \<Rightarrow> string \<Rightarrow> call_moments \<Rightarrow> authed \<Rightarrow> http_call \<Rightarrow> keyed_limiter \<Rightarrow>
     (gate_effect list \<times> (reply + 'v admitted)) \<times> keyed_limiter" where
  "post_http E request_cap caller cm au hc lim =
     (let deferred = is_mcp_envelope_candidate E (connection_by_name (hc_connection hc) (cm_candidate cm)) hc;
          limited = (\<lambda>lim. http_rate_limit (bv_wall (cm_resolved cm)) caller (au_client au) (cm_limited cm) lim) in
      case (if deferred then (None, lim) else limited lim) of
        (Some (es, refused), lim) \<Rightarrow> ((es, Err refused), lim)
      | (None, lim) \<Rightarrow>
          (case request_id_error (hc_request_id hc) of
             Some refused \<Rightarrow> (([], Err refused), lim)
           | None \<Rightarrow>
               if hc_stream hc \<and> hc_request_id hc \<noteq> None then
                 (([], Err (err_detail 400 InvalidBody
                    (ascii ''request_id and stream cannot be combined: coalescing a retry means replaying a completed outcome, and a stream keeps none''))), lim)
               else (case connection_by_name (hc_connection hc) (bv_index (cm_resolved cm)) of
                 None \<Rightarrow> (([], Err (err_unknown_connection (bv_index (cm_resolved cm)))), lim)
               | Some c \<Rightarrow>
                   (case conn_config c of
                      Api a \<Rightarrow>
                        (case parse_call E request_cap a hc of
                           Inl refused \<Rightarrow> (([], Err refused), lim)
                         | Inr w \<Rightarrow>
                             (case (if deferred \<and> \<not> envelope_leg E c w then limited lim else (None, lim)) of
                                (Some (es, refused), lim) \<Rightarrow> ((es, Err refused), lim)
                              | (None, lim) \<Rightarrow> (admit_call E cm au hc c w, lim)))
                    | _ \<Rightarrow> (([], Err (wrong_kind c)), lim)))))"

subsection \<open>The shared tail\<close>

type_synonym gate_run = "gate_effect list \<times> exec_outcome \<times> elicitation_permits"

definition is_current :: "broker_view \<Rightarrow> connection \<Rightarrow> bool" where
  "is_current v c \<longleftrightarrow> (case connection_by_id (conn_id c) (bv_index v) of Inr d \<Rightarrow> conn_updated_at d = conn_updated_at c | Inl _ \<Rightarrow> False)"

text \<open>The checks where the call is about to run.\<close>

definition at_boundary :: "broker_view \<Rightarrow> connection \<Rightarrow> elicitation_permits \<Rightarrow> gate_run \<Rightarrow> gate_run" where
  "at_boundary v c ps inner =
     (if \<not> is_current v c then ([GateRevoked (conn_id c)], refusal DeniedByPolicy, ps)
      else if \<not> allows (bv_access v) (conn_id c) then ([], refusal DeniedByPolicy, ps)
      else inner)"

definition approval_refusal :: "verdict \<Rightarrow> ustring \<Rightarrow> exec_outcome" where
  "approval_refusal v conn =
     \<lparr>status = (if v = VTimedOut then 408 else 403),
      body = JObject [(ascii ''reason'', reason_json (case verdict_reason v of Some r \<Rightarrow> r | None \<Rightarrow> ApprovalDenied)),
        (ascii ''detail'', JString (verdict_detail v @ ascii '' on '' @ conn))]\<rparr>"

text \<open>Parking on the user's decision. Only a call without a key can be abandoned by its caller.\<close>

definition park_for_approval ::
    "call_moments \<Rightarrow> connection \<Rightarrow> approval_request \<Rightarrow> bool \<Rightarrow> bool \<Rightarrow> elicitation_permits \<Rightarrow> gate_run \<Rightarrow> gate_run" where
  "park_for_approval cm c r keyed streamed ps inner =
     (let v = cm_before_asking cm; asked = (if streamed then [GateWaiting] else []) @ [GateAsked r] in
      if \<not> allows (bv_access v) (conn_id c) \<or> \<not> is_current v c then ([], refusal DeniedByPolicy, ps)
      else if \<not> keyed \<and> cm_abandoned cm then (asked @ [GateRetired], refusal ApprovalUnavailable, ps)
      else if \<not> verdict_is_allowed (cm_verdict cm) then (asked, approval_refusal (cm_verdict cm) (conn_name c), ps)
      else (case inner of (es, oc, ps) \<Rightarrow> (asked @ es, oc, ps)))"

text \<open>\<open>Inl\<close> is the reply that ends the call before anything is executed; \<open>inner\<close> is the executor of the handler.\<close>

definition run_allowed ::
    "call_moments \<Rightarrow> ustring \<Rightarrow> connection \<Rightarrow> approval_request option \<Rightarrow> bool \<Rightarrow> bool \<Rightarrow> elicitation_permits \<Rightarrow> gate_run \<Rightarrow>
     (gate_effect list \<times> reply) + gate_run" where
  "run_allowed cm client c question keyed streamed ps inner =
     (let v = cm_admitted cm in
      if \<not> allows (bv_access v) (conn_id c) then
        Inl ([GateAudited (denied_entry (bv_wall v) client c (ascii ''Refused (agents disabled): '' @ client @ [32, 0x2192, 32] @ conn_name c))],
             err_detail 403 DeniedByPolicy (conn_name c @ ascii '' is not enabled for agents; the user can enable it in Multitool''))
      else
        (let exec = at_boundary (cm_boundary cm) c ps inner in
         Inr (case question of
                Some r \<Rightarrow>
                  if confirm_mode_of (cm_confirm cm) (conn_id c) = ConfirmOn then park_for_approval cm c r keyed streamed ps exec else exec
              | None \<Rightarrow> exec)))"

text \<open>The executor of an HTTP call: the subset must still be the one that was checked; the prompts in the answer get their permits.\<close>

definition http_executor :: "'v call_env \<Rightarrow> call_moments \<Rightarrow> authed \<Rightarrow> 'v admitted \<Rightarrow> elicitation_permits \<Rightarrow> gate_run" where
  "http_executor E cm au ad ps =
     (let c = ad_connection ad in
      if ad_on_mcp ad \<and> allowed_tools_of (cm_started cm) (conn_id c) \<noteq> ad_tools ad then ([GateRevoked (conn_id c)], refusal DeniedByPolicy, ps)
      else case ad_elicitation_tool ad of
        None \<Rightarrow> ([GateRan c], cm_outcome cm, ps)
      | Some tool \<Rightarrow> (GateRan c # [], attach_elicitation_permits E (cm_mint cm) (au_client_id au) (conn_id c) tool (cm_outcome cm) ps))"

definition run_http :: "'v call_env \<Rightarrow> call_moments \<Rightarrow> authed \<Rightarrow> 'v admitted \<Rightarrow> elicitation_permits \<Rightarrow> (gate_effect list \<times> reply) + gate_run" where
  "run_http E cm au ad ps =
     run_allowed cm (au_client au) (ad_connection ad) (ad_question ad) (ad_key ad \<noteq> None) (ad_stream ad) ps (http_executor E cm au ad ps)"

text \<open>What the execution registry is asked, and its answers as replies. A streamed call is not registered.\<close>

definition registry_request :: "call_moments \<Rightarrow> 'v admitted \<Rightarrow> nat \<Rightarrow> exec_request" where
  "registry_request cm ad ch =
     (let parks = (ad_question ad \<noteq> None \<and> confirm_mode_of (cm_confirm cm) (conn_id (ad_connection ad)) = ConfirmOn) in
      \<lparr>coalesce_key = ad_key ad, payload_hash = ad_hash ad, rq_abandon = (if parks \<and> ad_key ad = None then Some ch else None)\<rparr>)"

definition exec_error_reply :: "exec_error \<Rightarrow> reply" where
  "exec_error_reply e =
     (case e of
        exec_error.RequestIdMismatch \<Rightarrow> err 409 error_reason.RequestIdMismatch
      | exec_error.OutcomeNotReplayable \<Rightarrow> err 409 error_reason.OutcomeNotReplayable
      | exec_error.IdempotencyCapacity \<Rightarrow> err 503 error_reason.IdempotencyCapacity)"

definition execution_reply :: "exec_outcome option \<Rightarrow> exec_error + execution \<Rightarrow> reply" where
  "execution_reply waited x =
     (case x of
        Inr (Wait _ _) \<Rightarrow> (case waited of Some oc \<Rightarrow> outcome_response oc | None \<Rightarrow> err 500 BrokerShutdown)
      | Inr (Replay oc) \<Rightarrow> outcome_response oc
      | Inl e \<Rightarrow> exec_error_reply e)"

subsection \<open>Opening a session\<close>

text \<open>
  The body of \<^verbatim>\<open>/v1/ssh/open\<close> and \<^verbatim>\<open>/v1/pg/open\<close>. \<open>opened\<close> is what the open itself yields once it runs: the socket of
  \<open>capability::ssh::open_agent\<close> or its error, or the ticket. An admitted open has its key, and the hash of the caller's label and the connection's name.
\<close>

record open_call =
  oc_connection :: ustring
  oc_request_id :: "ustring option"

definition open_hash :: "'v call_env \<Rightarrow> string \<Rightarrow> ustring \<Rightarrow> ustring \<Rightarrow> ustring" where
  "open_hash E route client name = map unat (encode_hex (ce_sha E (as_bytes (ascii route @ [0] @ client @ [0] @ name))))"

definition open_key :: "authed \<Rightarrow> connection \<Rightarrow> open_call \<Rightarrow> coalesce_key option" where
  "open_key au c oc = map_option (\<lambda>rid. (au_client_id au, conn_id c, rid)) (oc_request_id oc)"

definition open_request :: "'v call_env \<Rightarrow> string \<Rightarrow> authed \<Rightarrow> connection \<Rightarrow> open_call \<Rightarrow> exec_request" where
  "open_request E route au c oc =
     (let k = open_key au c oc in
      \<lparr>coalesce_key = k, payload_hash = map_option (\<lambda>_. open_hash E route (au_client au) (conn_name c)) k, rq_abandon = None\<rparr>)"

definition ssh_open_outcome :: "ssh_config \<Rightarrow> duration \<Rightarrow> ustring + ustring \<Rightarrow> exec_outcome" where
  "ssh_open_outcome cfg ttl_of_ticket opened =
     (case opened of
        Inr sock \<Rightarrow>
          \<lparr>status = 200,
           body = JObject
             [(ascii ''auth_sock'', JString sock),
              (ascii ''destination'', JString (case destination cfg of Some d \<Rightarrow> d | None \<Rightarrow> ssh_host cfg)),
              (ascii ''host'', JString (ssh_host cfg)),
              (ascii ''port'', JNumber (show_nat (unat (ssh_port cfg)))),
              (ascii ''user'', JString (ssh_user cfg)),
              (ascii ''host_key_fingerprint'', if host_key_fingerprint cfg = [] then JNull else JString (host_key_fingerprint cfg)),
              (ascii ''expires_in_seconds'', JNumber (show_nat (ttl_of_ticket div secs 1)))]\<rparr>
      | Inl detail \<Rightarrow> \<lparr>status = 502, body = JObject [(ascii ''reason'', reason_json SshAgentOpenFailed), (ascii ''detail'', JString detail)]\<rparr>)"

definition ssh_of :: "connection \<Rightarrow> ssh_config option" where
  "ssh_of c = (case conn_config c of Ssh s \<Rightarrow> Some s | _ \<Rightarrow> None)"

definition post_ssh_open ::
    "string \<Rightarrow> bool \<Rightarrow> duration \<Rightarrow> call_moments \<Rightarrow> authed \<Rightarrow> open_call \<Rightarrow> ustring + ustring \<Rightarrow> elicitation_permits \<Rightarrow> keyed_limiter \<Rightarrow>
     ((gate_effect list \<times> reply) + gate_run) \<times> keyed_limiter" where
  "post_ssh_open caller tcp ttl_of_ticket cm au oc opened ps lim =
     (if tcp then (Inl ([], err_detail 404 NotServedRemotely (ascii ''SSH opens are same-machine only because they return a broker-local agent socket'')), lim)
      else case keyed_check_at lim caller (cm_limited cm) of
        (Inl wait, lim) \<Rightarrow> (Inl ([], err_rate_limited RateLimited wait), lim)
      | (Inr _, lim) \<Rightarrow>
          ((case request_id_error (oc_request_id oc) of
              Some refused \<Rightarrow> Inl ([], refused)
            | None \<Rightarrow>
                (case connection_by_name (oc_connection oc) (bv_index (cm_resolved cm)) of
                   None \<Rightarrow> Inl ([], err_unknown_connection (bv_index (cm_resolved cm)))
                 | Some c \<Rightarrow>
                     (case ssh_of c of
                        None \<Rightarrow> Inl ([], wrong_kind c)
                      | Some cfg \<Rightarrow>
                          run_allowed cm (au_client au) c None (oc_request_id oc \<noteq> None) False ps
                            ([GateRan c], ssh_open_outcome cfg ttl_of_ticket opened, ps)))), lim))"

definition pg_of :: "connection \<Rightarrow> pg_config option" where
  "pg_of c = (case conn_config c of Pg p \<Rightarrow> Some p | _ \<Rightarrow> None)"

definition pg_open_outcome :: "ustring \<Rightarrow> 16 word \<Rightarrow> ustring \<Rightarrow> duration \<Rightarrow> ustring \<Rightarrow> exec_outcome" where
  "pg_open_outcome advertised proxy_port db ttl_of_ticket handed =
     (let dsn = ascii ''postgres://ticket@'' @ advertised @ ascii '':'' @ show_nat (unat proxy_port) @ ascii ''/'' @ db @ ascii ''?sslmode=disable'' in
      \<lparr>status = 200,
       body = JObject
         [(ascii ''example'', JString (ascii ''PGPASSWORD=<ticket> psql '' @ [34] @ dsn @ [34])),
          (ascii ''dsn'', JString dsn),
          (ascii ''ticket'', JString handed),
          (ascii ''downstream_tls'', JString (ascii ''not_supported'')),
          (ascii ''sslmode_note'', JString
             (ascii ''The broker-facing Postgres leg does not support TLS. '' @
              ascii ''Use this DSN only over the trusted path to the broker and configure '' @
              ascii ''the client with sslmode=disable; upstream TLS is governed separately '' @
              ascii ''by the connection's sslmode.'')),
          (ascii ''expires_in_seconds'', JNumber (show_nat (ttl_of_ticket div secs 1)))]\<rparr>)"

definition post_pg_open ::
    "string \<Rightarrow> 16 word option \<Rightarrow> ustring \<Rightarrow> duration \<Rightarrow> call_moments \<Rightarrow> authed \<Rightarrow> open_call \<Rightarrow> ustring \<Rightarrow> elicitation_permits \<Rightarrow> keyed_limiter \<Rightarrow>
     ((gate_effect list \<times> reply) + gate_run) \<times> keyed_limiter" where
  "post_pg_open caller proxy advertised ttl_of_ticket cm au oc handed ps lim =
     (case http_rate_limit (bv_wall (cm_resolved cm)) caller (au_client au) (cm_limited cm) lim of
        (Some refused, lim) \<Rightarrow> (Inl refused, lim)
      | (None, lim) \<Rightarrow>
          ((case request_id_error (oc_request_id oc) of
              Some refused \<Rightarrow> Inl ([], refused)
            | None \<Rightarrow>
                (case connection_by_name (oc_connection oc) (bv_index (cm_resolved cm)) of
                   None \<Rightarrow> Inl ([], err_unknown_connection (bv_index (cm_resolved cm)))
                 | Some c \<Rightarrow>
                     (case pg_of c of
                        None \<Rightarrow> Inl ([], wrong_kind c)
                      | Some cfg \<Rightarrow>
                          (case proxy of
                             None \<Rightarrow> Inl ([], err 500 ProxyNotRunning)
                           | Some p \<Rightarrow>
                               run_allowed cm (au_client au) c None (oc_request_id oc \<noteq> None) False ps
                                 ([GateRan c], pg_open_outcome advertised p (dbname cfg) ttl_of_ticket handed, ps))))), lim))"

subsection \<open>Prompts for input\<close>

definition is_mcp_connection :: "connection \<Rightarrow> bool" where
  "is_mcp_connection c \<longleftrightarrow> pinned_mcp_path c \<noteq> None"

text \<open>\<open>outcome\<close> is what \<open>broker.elicit\<close> returns for the prompt.\<close>

definition elicit_answer :: "elicitation_outcome \<Rightarrow> reply" where
  "elicit_answer oc =
     \<lparr>rp_status = 200,
      rp_body = JObject ((ascii ''action'', JString (case action oc of Accept \<Rightarrow> ascii ''accept'' | Decline \<Rightarrow> ascii ''decline'' | Cancel \<Rightarrow> ascii ''cancel''))
        # (case content oc of Some kvs \<Rightarrow> [(ascii ''content'', JObject kvs)] | None \<Rightarrow> [])),
      rp_retry_after = None\<rparr>"

definition post_elicit ::
    "string \<Rightarrow> broker_view \<Rightarrow> broker_view \<Rightarrow> instant \<Rightarrow> instant \<Rightarrow> authed \<Rightarrow> ustring \<Rightarrow> ustring \<Rightarrow> elicitation_outcome \<Rightarrow>
     elicitation_permits \<Rightarrow> keyed_limiter \<Rightarrow> (gate_effect list \<times> reply) \<times> elicitation_permits \<times> keyed_limiter" where
  "post_elicit caller v v2 now now2 au conn token oc ps lim =
     (case http_rate_limit (bv_wall v) caller (au_client au) now lim of
        (Some (es, refused), lim) \<Rightarrow> ((es, refused), ps, lim)
      | (None, lim) \<Rightarrow>
          (case connection_by_name conn (bv_index v) of
             None \<Rightarrow> (([], err_unknown_connection (bv_index v)), ps, lim)
           | Some c \<Rightarrow>
               if \<not> is_mcp_connection c then (([], err_detail 400 WrongConnectionType (conn_name c @ ascii '' is not an MCP connection'')), ps, lim)
               else if \<not> allows (bv_access v2) (conn_id c) then
                 (([GateAudited (denied_entry (bv_wall v2) (au_client au) c
                      (ascii ''Refused elicitation (not wired): '' @ au_client au @ [32, 0x2192, 32] @ conn_name c))],
                   err_detail 403 DeniedByPolicy (conn_name c @ ascii '' is not enabled for agents; the user can enable it in Multitool'')), ps, lim)
               else (case consume_permit now2 token (au_client_id au) (conn_id c) ps of
                 (None, ps) \<Rightarrow>
                   (([GateAudited (denied_entry (bv_wall v2) (au_client au) c
                        (ascii ''Refused uncorrelated elicitation: '' @ au_client au @ [32, 0x2192, 32] @ conn_name c))],
                     err_detail 403 DeniedByPolicy (ascii ''the elicitation was not correlated with an upstream MCP response'')), ps, lim)
               | (Some ae, ps) \<Rightarrow>
                   (([GateElicited \<lparr>er_connection = c, er_agent = au_client au, er_tool = ae_tool ae, correlation_token = token,
                         er_message = ae_message ae, requested_schema = ae_requested_schema ae\<rparr>],
                     elicit_answer oc), ps, lim))))"

definition post_cancel_elicit ::
    "broker_view \<Rightarrow> broker_view \<Rightarrow> datetime \<Rightarrow> authed \<Rightarrow> ustring \<Rightarrow> ustring \<Rightarrow> elicitation_permits \<Rightarrow> elicitations \<Rightarrow>
     reply \<times> elicitation_permits \<times> elicitations" where
  "post_cancel_elicit v v2 wall au conn token ps els =
     (case connection_by_name conn (bv_index v) of
        None \<Rightarrow> (err_unknown_connection (bv_index v), ps, els)
      | Some c \<Rightarrow>
          if \<not> is_mcp_connection c then (err_detail 400 WrongConnectionType (conn_name c @ ascii '' is not an MCP connection''), ps, els)
          else if \<not> allows (bv_access v2) (conn_id c) then
            (err_detail 403 DeniedByPolicy (conn_name c @ ascii '' is not enabled for agents''), ps, els)
          else
            (let (hit, ps) = cancel_permit token (au_client_id au) (conn_id c) ps;
                 (hit, els) = (if hit then (True, els) else el_cancel wall token (conn_id c) els) in
             (\<lparr>rp_status = 200, rp_body = JObject [(ascii ''cancelled'', JBool hit)], rp_retry_after = None\<rparr>, ps, els)))"

end
