(* ===== verification/GateSafety.thy ===== *)
theory GateSafety
  imports CallGate
begin

text \<open>
  What the daemon's gates guarantee. \<open>run_allowed_ran\<close> is the shared fact about the tail of every capability call: an executor that runs passed the
  checks at admission and at the boundary, and the user's decision where one was asked for. The properties apply it to HTTP calls, to opens and to prompts.
\<close>

subsection \<open>The shared tail\<close>

definition runs :: "gate_effect list \<Rightarrow> bool" where
  "runs es \<longleftrightarrow> (\<exists>c. GateRan c \<in> set es)"

lemma runs_simps [simp]:
  "\<not> runs []" "runs (e # es) \<longleftrightarrow> (\<exists>c. e = GateRan c) \<or> runs es" "runs (xs @ ys) \<longleftrightarrow> runs xs \<or> runs ys"
  by (auto simp: runs_def)

lemma run_allowed_ran:
  assumes "run_allowed cm client c question keyed streamed ps inner = Inr (es, oc, ps')" and "runs es"
  shows "allows (bv_access (cm_admitted cm)) (conn_id c)" "allows (bv_access (cm_boundary cm)) (conn_id c)" "is_current (cm_boundary cm) c"
    "runs (fst inner)" "(oc, ps') = snd inner"
    "question = Some r \<Longrightarrow> confirm_mode_of (cm_confirm cm) (conn_id c) = ConfirmOn \<Longrightarrow> cm_verdict cm = VAllowed \<and> GateAsked r \<in> set es"
  using assms
  by (auto simp: run_allowed_def at_boundary_def park_for_approval_def Let_def verdict_is_allowed_def
      split: if_splits option.splits prod.splits)

lemma body_reason_refusal [simp]: "body_reason (body (refusal r)) = Some (ascii (error_reason_as_str r))" "status (refusal r) = 403"
  by (simp_all add: refusal_def body_reason_def json_get_def json_as_str_def)

lemma body_reason_approval [simp]:
  "body_reason (body (approval_refusal v conn)) = Some (ascii (error_reason_as_str (case verdict_reason v of Some r \<Rightarrow> r | None \<Rightarrow> ApprovalDenied)))"
  by (simp add: approval_refusal_def body_reason_def json_get_def json_as_str_def reason_json_def)

lemma retryable_refusals:
  "is_retryable_preflight_outcome (refusal DeniedByPolicy)" "is_retryable_preflight_outcome (refusal ApprovalUnavailable)"
  "v \<noteq> VAllowed \<Longrightarrow> is_retryable_preflight_outcome (approval_refusal v conn) \<longleftrightarrow> v \<noteq> VDenied"
  by (cases v; simp add: is_retryable_preflight_outcome_def; simp add: approval_refusal_def verdict_reason_def)+

lemma run_allowed_refused:
  assumes "run_allowed cm client c question keyed streamed ps inner = Inr (es, oc, ps')" and "\<not> runs es"
    and "\<not> runs (fst inner) \<Longrightarrow> is_retryable_preflight_outcome (fst (snd inner))"
  shows "is_retryable_preflight_outcome oc \<or> cm_verdict cm = VDenied \<and> oc = approval_refusal VDenied (conn_name c) \<and> (\<exists>r. GateAsked r \<in> set es)"
proof (cases "cm_verdict cm = VAllowed")
  case True
  with assms show ?thesis
    by (auto simp: run_allowed_def at_boundary_def park_for_approval_def Let_def verdict_is_allowed_def retryable_refusals
        split: if_splits option.splits prod.splits)
next
  case False
  with assms retryable_refusals(3) [OF False, of "conn_name c"] show ?thesis
    by (auto simp: run_allowed_def at_boundary_def park_for_approval_def Let_def verdict_is_allowed_def retryable_refusals
        split: if_splits option.splits prod.splits)
qed

subsection \<open>HTTP calls\<close>

lemma admit_call_ok:
  assumes "admit_call E cm au hc c w = (es, Ok ad)"
  shows "ad_connection ad = c" "wire_call.truncate ad = w" "ad_on_mcp ad = on_mcp_path E c (wc_path w)" "ad_tools ad = allowed_tools_of (cm_tools cm) (conn_id c)"
    "ad_question ad = approval_for_call E c (au_client au) (wc_method w) (wc_path w) (wc_headers w) (wc_body w)"
    "ad_key ad = call_key (au_client_id au) c hc (wc_method w)" "ad_stream ad = hc_stream hc" "es = []"
    "on_mcp_path E c (wc_path w) \<Longrightarrow> allowed_tools_of (cm_tools cm) (conn_id c) = Some allowed \<Longrightarrow>
       disallowed_mcp_tool_call E (wc_body w) allowed = None \<and> curated_mcp_resource_read E (wc_body w) = None"
  using assms
  by (auto simp: admit_call_def Let_def curated_refusal_def wire_call.defs admitted.defs split: if_splits option.splits prod.splits)

lemma post_http_ok:
  assumes "post_http E request_cap caller cm au hc lim = ((es, Ok ad), lim')"
  obtains c a w where "connection_by_name (hc_connection hc) (bv_index (cm_resolved cm)) = Some c" "conn_config c = Api a"
    "parse_call E request_cap a hc = Ok w" "admit_call E cm au hc c w = (es, Ok ad)"
    "\<not> (hc_stream hc \<and> hc_request_id hc \<noteq> None)"
    "lim' = snd (keyed_check_at lim caller (cm_limited cm)) \<and> fst (keyed_check_at lim caller (cm_limited cm)) = Ok () \<or> lim' = lim \<and> envelope_leg E c w"
  using assms
  by (auto simp: post_http_def Let_def http_rate_limit_def split: if_splits option.splits sum.splits prod.splits connection_config.splits)

lemma http_executor_ran:
  "runs (fst (http_executor E cm au ad ps)) \<longleftrightarrow> \<not> (ad_on_mcp ad \<and> allowed_tools_of (cm_started cm) (conn_id (ad_connection ad)) \<noteq> ad_tools ad)"
  by (auto simp: http_executor_def Let_def split: option.splits)

lemma http_executor_refusal:
  "\<not> runs (fst (http_executor E cm au ad ps)) \<Longrightarrow> fst (snd (http_executor E cm au ad ps)) = refusal DeniedByPolicy"
  by (auto simp: http_executor_def Let_def split: option.splits if_splits)

text \<open>
  C17. An HTTP call reaches its upstream only under live authority. The connection is the one the call named; it is enabled when the call is admitted and again where
  it runs, where it is also still the version that was checked. Where confirmation is on when the call is admitted, the call is session plumbing, for which no question
  is raised (\<open>approval_for_call\<close> gives none), or the approval gate was asked a question about this very call and its verdict was that the user allows it; the gate
  may take that verdict from the user's answer, from the answer to an equal question the call was merged with, or from a window the user opened. On the MCP path of a
  tool with a curated subset, the subset is the one in force where the call runs, and each message of a body that can be read calls a tool inside it and reads no resource.
\<close>

theorem http_call_authorized:
  assumes "post_http E request_cap caller cm au hc lim = ((es0, Ok ad), lim')" and "run_http E cm au ad ps = Inr (es, oc, ps')" and "runs es"
  shows "let c = ad_connection ad; i = conn_id c in
    connection_by_name (hc_connection hc) (bv_index (cm_resolved cm)) = Some c \<and> conn_kind c = KindApi \<and>
    allows (bv_access (cm_admitted cm)) i \<and> allows (bv_access (cm_boundary cm)) i \<and> is_current (cm_boundary cm) c \<and>
    (confirm_mode_of (cm_confirm cm) i = ConfirmOn \<longrightarrow>
      approval_for_call E c (au_client au) (wc_method ad) (wc_path ad) (wc_headers ad) (wc_body ad) = None \<or>
      cm_verdict cm = VAllowed \<and> (\<exists>r. GateAsked r \<in> set es \<and> ar_connection r = c \<and> ar_agent r = cap_approval_text (au_client au) \<and>
        approval_for_call E c (au_client au) (wc_method ad) (wc_path ad) (wc_headers ad) (wc_body ad) = Some r)) \<and>
    (on_mcp_path E c (wc_path ad) \<longrightarrow>
      (\<forall>allowed v. allowed_tools_of (cm_started cm) i = Some allowed \<and> ce_parse E (wc_body ad) = Some v \<longrightarrow>
        (\<forall>m \<in> set (messages_of v). within_subset allowed m)))"
proof -
  from post_http_ok [OF assms(1)] obtain c a w where p: "connection_by_name (hc_connection hc) (bv_index (cm_resolved cm)) = Some c" "conn_config c = Api a"
    "admit_call E cm au hc c w = (es0, Ok ad)" by metis
  note ok = admit_call_ok [OF p(3)]
  have w: "wc_method ad = wc_method w" "wc_path ad = wc_path w" "wc_headers ad = wc_headers w" "wc_body ad = wc_body w"
    using ok(2) by (auto simp: wire_call.defs)
  note ran = run_allowed_ran [OF assms(2) [unfolded run_http_def] assms(3)]
  have tools: "on_mcp_path E c (wc_path w) \<Longrightarrow> allowed_tools_of (cm_started cm) (conn_id c) = allowed_tools_of (cm_tools cm) (conn_id c)"
    using ran(4) ok by (auto simp: http_executor_ran)
  have asked: "ad_question ad = None \<or> cm_verdict cm = VAllowed \<and> (\<exists>r. ad_question ad = Some r \<and> GateAsked r \<in> set es)"
    if "confirm_mode_of (cm_confirm cm) (conn_id (ad_connection ad)) = ConfirmOn"
    using ran(6) that by (cases "ad_question ad") auto
  have subset: "\<forall>m \<in> set (messages_of v). within_subset allowed m"
    if "on_mcp_path E c (wc_path w)" "allowed_tools_of (cm_started cm) (conn_id c) = Some allowed" "ce_parse E (wc_body w) = Some v" for allowed v
    using ok(9) [OF that(1), of allowed] tools [OF that(1)] that(2) subset_checks [OF that(3), of allowed] by simp
  show ?thesis unfolding Let_def
  proof (intro conjI impI)
    show "conn_kind (ad_connection ad) = KindApi" using ok(1) p(2) by (simp add: conn_kind_def config_kind_def)
    assume "confirm_mode_of (cm_confirm cm) (conn_id (ad_connection ad)) = ConfirmOn"
    from asked [OF this] show "approval_for_call E (ad_connection ad) (au_client au) (wc_method ad) (wc_path ad) (wc_headers ad) (wc_body ad) = None \<or>
      cm_verdict cm = VAllowed \<and> (\<exists>r. GateAsked r \<in> set es \<and> ar_connection r = ad_connection ad \<and> ar_agent r = cap_approval_text (au_client au) \<and>
        approval_for_call E (ad_connection ad) (au_client au) (wc_method ad) (wc_path ad) (wc_headers ad) (wc_body ad) = Some r)"
      using ok(1,5) w question_of_connection by metis
  qed (use ran ok(1) p(1) w subset in auto)
qed

text \<open>
  C20. Where confirmation is on, a call that runs although no question was asked can do nothing with the server beyond session plumbing. It goes to the path
  pinned in its connection; and either its body is empty and it reads the event stream (\<open>GET\<close>, accepting one) or ends the session (\<open>DELETE\<close>, naming one), or its body is
  at most a mebibyte and is one JSON-RPC message, not a batch, whose method is one of the eleven below, hence none that calls a tool, reads a resource or gets a prompt.
\<close>

theorem unasked_calls_are_plumbing:
  assumes "post_http E request_cap caller cm au hc lim = ((es0, Ok ad), lim')" and "run_http E cm au ad ps = Inr (es, oc, ps')" and "runs es"
    and "confirm_mode_of (cm_confirm cm) (conn_id (ad_connection ad)) = ConfirmOn" and "\<forall>r. GateAsked r \<notin> set es"
  shows "(\<exists>a mcp. conn_config (ad_connection ad) = Api a \<and> mcp_path a = Some mcp \<and> resolves_to_mcp_path (ce_urls E) (wc_path ad) mcp) \<and>
    (wc_body ad = [] \<and>
       (wc_method ad = GET \<and> (\<exists>v s. (ascii ''accept'', v) \<in> set (wc_headers ad) \<and> he_text (ce_headers E) v = Some s \<and>
          list_ex (accepts_event_stream (ce_quality E)) (split_on 44 s)) \<or>
        wc_method ad = DELETE \<and> (\<exists>v s. map_of (wc_headers ad) (ascii ''mcp-session-id'') = Some v \<and> he_text (ce_headers E) v = Some s \<and> trim s \<noteq> [])) \<or>
     length (wc_body ad) \<le> 1024 * 1024 \<and>
       (\<exists>rpc meth. ce_parse E (wc_body ad) = Some rpc \<and> json_as_array rpc = None \<and> get_str rpc ''jsonrpc'' = Some (ascii ''2.0'') \<and>
          get_str rpc ''method'' = Some meth \<and>
          meth \<in> set (map ascii [''initialize'', ''ping'', ''tools/list'', ''resources/list'', ''resources/templates/list'', ''prompts/list'', ''completion/complete'',
            ''notifications/initialized'', ''notifications/cancelled'', ''notifications/progress'', ''notifications/roots/list_changed'']) \<and>
          meth \<notin> set (map ascii [''tools/call'', ''resources/read'', ''prompts/get'', ''resources/subscribe''])))"
proof -
  from post_http_ok [OF assms(1)] obtain c a w where p: "conn_config c = Api a" "admit_call E cm au hc c w = (es0, Ok ad)" by metis
  note ok = admit_call_ok [OF p(2)]
  have w: "wc_method ad = wc_method w" "wc_path ad = wc_path w" "wc_headers ad = wc_headers w" "wc_body ad = wc_body w"
    using ok(2) by (auto simp: wire_call.defs)
  have "ad_question ad = None"
    using run_allowed_ran(6) [OF assms(2) [unfolded run_http_def] assms(3)] assms(4,5) by (cases "ad_question ad") blast+
  then have q: "approval_for_call E c (au_client au) (wc_method ad) (wc_path ad) (wc_headers ad) (wc_body ad) = None"
    unfolding ok(5) w .
  have path: "\<exists>a mcp. conn_config (ad_connection ad) = Api a \<and> mcp_path a = Some mcp \<and> resolves_to_mcp_path (ce_urls E) (wc_path ad) mcp"
    using q p(1) unfolding question_None ok(1) by (auto simp: on_mcp_path_def pinned_mcp_path_def split: option.splits)
  from q consider (leg) "transport_leg E c (wc_method ad) (wc_path ad) (wc_headers ad) (wc_body ad = [])"
    | (rpc) "length (wc_body ad) \<le> APPROVAL_RPC_PARSE_CAP" "\<exists>rpc meth. ce_parse E (wc_body ad) = Some rpc \<and> json_as_array rpc = None \<and>
        get_str rpc ''jsonrpc'' = Some (ascii ''2.0'') \<and> get_str rpc ''method'' = Some meth \<and> meth \<in> set MCP_ENVELOPE"
    unfolding question_None by blast
  then show ?thesis
  proof cases
    case leg
    from path transport_leg_cases [OF leg] show ?thesis by blast
  next
    case rpc
    with path envelope_methods show ?thesis unfolding APPROVAL_RPC_PARSE_CAP_def MCP_ENVELOPE_def by blast
  qed
qed

text \<open>
  C19. Only a decision of the user is final: a call that ends without having run ends with an outcome that a retry under the same key may try again, unless the
  user was asked and refused, in which case that refusal is what the key replays.
\<close>

theorem unexecuted_calls_retryable:
  assumes "run_http E cm au ad ps = Inr (es, oc, ps')" and "\<not> runs es"
  shows "is_retryable_preflight_outcome oc \<or>
    cm_verdict cm = VDenied \<and> oc = approval_refusal VDenied (conn_name (ad_connection ad)) \<and> (\<exists>r. GateAsked r \<in> set es)"
  by (rule run_allowed_refused [OF assms(1) [unfolded run_http_def] assms(2)])
    (simp add: http_executor_refusal retryable_refusals)

text \<open>
  Every call is paid for: a call that is admitted has been charged to the caller's budget exactly once, unless it is session plumbing on the pinned path of
  an MCP connection, which alone may pass uncharged. A keyed call is a mutating one, its key names the caller and the connection, and it is not streamed.
\<close>

theorem http_calls_charged:
  assumes "post_http E request_cap caller cm au hc lim = ((es, Ok ad), lim')"
  shows "(lim' = snd (keyed_check_at lim caller (cm_limited cm)) \<and> fst (keyed_check_at lim caller (cm_limited cm)) = Ok () \<or>
      lim' = lim \<and> on_mcp_path E (ad_connection ad) (wc_path ad) \<and>
        (transport_leg E (ad_connection ad) (wc_method ad) (wc_path ad) (wc_headers ad) (wc_body ad = []) \<or> is_mcp_envelope_body E (wc_body ad))) \<and>
    (\<forall>k. ad_key ad = Some k \<longrightarrow> is_mutating (wc_method ad) \<and> \<not> ad_stream ad \<and> fst k = au_client_id au \<and> fst (snd k) = conn_id (ad_connection ad) \<and>
      hc_request_id hc = Some (snd (snd k)))"
proof -
  from post_http_ok [OF assms] obtain c a w where p: "admit_call E cm au hc c w = (es, Ok ad)" "\<not> (hc_stream hc \<and> hc_request_id hc \<noteq> None)"
    "lim' = snd (keyed_check_at lim caller (cm_limited cm)) \<and> fst (keyed_check_at lim caller (cm_limited cm)) = Ok () \<or> lim' = lim \<and> envelope_leg E c w"
    by metis
  note ok = admit_call_ok [OF p(1)]
  have w: "wc_method ad = wc_method w" "wc_path ad = wc_path w" "wc_headers ad = wc_headers w" "wc_body ad = wc_body w"
    using ok(2) by (auto simp: wire_call.defs)
  show ?thesis
    using p(2,3) ok(1,6,7) by (auto simp: w envelope_leg_def call_key_def split: option.splits if_splits)
qed

subsection \<open>Opens\<close>

text \<open>A session is opened for a tool of the right kind that is enabled and unchanged when the open runs; SSH is not opened over the network.\<close>

lemma ssh_open_authorized:
  assumes "post_ssh_open caller tcp keep cm au oc opened ps lim = (Inr (es, x, ps'), lim')" and "runs es"
  shows "\<not> tcp \<and> (\<exists>c cfg. connection_by_name (oc_connection oc) (bv_index (cm_resolved cm)) = Some c \<and> conn_config c = Ssh cfg \<and>
    allows (bv_access (cm_boundary cm)) (conn_id c) \<and> is_current (cm_boundary cm) c \<and> x = ssh_open_outcome cfg keep opened)"
  using assms
  by (auto simp: post_ssh_open_def ssh_of_def dest: run_allowed_ran split: if_splits option.splits sum.splits prod.splits connection_config.splits)

lemma pg_open_authorized:
  assumes "post_pg_open caller proxy advertised keep cm au oc handed ps lim = (Inr (es, x, ps'), lim')" and "runs es"
  shows "\<exists>c cfg p. connection_by_name (oc_connection oc) (bv_index (cm_resolved cm)) = Some c \<and> conn_config c = Pg cfg \<and> proxy = Some p \<and>
    allows (bv_access (cm_boundary cm)) (conn_id c) \<and> is_current (cm_boundary cm) c \<and> x = pg_open_outcome advertised p (dbname cfg) keep handed"
  using assms
  by (auto simp: post_pg_open_def pg_of_def dest: run_allowed_ran split: if_splits option.splits sum.splits prod.splits connection_config.splits)

subsection \<open>Callers\<close>

lemma authenticated_caller:
  assumes "authenticate H sha token_display w g1 wall now headers s d = ((es, Ok au), s', d')"
  shows "\<exists>token. bearer_token H headers = Ok token \<and> hash_token sha token \<in> set (accepted (identity s)) \<and> validate_agent_name (au_client au)"
proof -
  obtain token v where t: "bearer_token H headers = Ok token" "verify sha w g1 wall now token s d = (Ok v, s', d')"
    "au_client au = client_label H headers"
    using assms by (auto simp: authenticate_def split: sum.splits prod.splits)
  have d: "validate_agent_name DEFAULT_CLIENT_LABEL"
    by (simp add: validate_agent_name_def DEFAULT_CLIENT_LABEL_def utf8_len_def utf8_width_def is_ascii_alphanumeric_def is_ascii_alphabetic_def)
  then have "validate_agent_name (client_label H headers)" by (auto simp: client_label_def split: option.splits)
  moreover have "hash_token sha token \<in> set (accepted (identity s))" using verify_accepted t(2) by (metis fst_conv)
  ultimately show ?thesis using t by auto
qed

subsection \<open>Prompts for input\<close>

lemma elicited_permit:
  assumes "post_elicit caller v v2 now now2 au conn token oc ps lim = ((es, rp), ps', lim')" and "GateElicited r \<in> set es"
  shows "\<exists>p. map_of ps token = Some p \<and> ep_client_id p = au_client_id au \<and> ep_connection p = conn_id (er_connection r) \<and> now2 < ep_expires_at p \<and>
    er_message r = ep_message p \<and> requested_schema r = ep_schema p \<and> er_tool r = ep_tool p \<and> ps' = AList.delete token ps \<and>
    connection_by_name conn (bv_index v) = Some (er_connection r) \<and> is_mcp_connection (er_connection r) \<and> allows (bv_access v2) (conn_id (er_connection r))"
  using assms
  by (auto simp: post_elicit_def http_rate_limit_def consume_permit_def split: option.splits sum.splits prod.splits if_splits)

text \<open>The permits over time, with the answers read so far: caller, connection, tool and outcome.\<close>

type_synonym answered = "uuid \<times> uuid \<times> ustring \<times> exec_outcome"

inductive permit_history :: "'v call_env \<Rightarrow> elicitation_permits \<times> answered list \<Rightarrow> elicitation_permits \<times> answered list \<Rightarrow> bool" for E where
  ph_answer: "attach_elicitation_permits E mint client c tool oc ps = (oc', ps') \<Longrightarrow> permit_history E (ps, log) (ps', log @ [(client, c, tool, oc)])"
| ph_elicit: "post_elicit caller v v2 now now2 au conn token el ps lim = (x, ps', lim') \<Longrightarrow> permit_history E (ps, log) (ps', log)"
| ph_cancel: "post_cancel_elicit v v2 wall au conn token ps els = (rp, ps', els') \<Longrightarrow> permit_history E (ps, log) (ps', log)"

definition written_by :: "'v call_env \<Rightarrow> answered list \<Rightarrow> uuid \<Rightarrow> uuid \<Rightarrow> ustring \<Rightarrow> ustring \<Rightarrow> json \<Rightarrow> bool" where
  "written_by E log client c tool message schema \<longleftrightarrow>
     (\<exists>oc requests k r. (client, c, tool, oc) \<in> set log \<and> input_requests E oc = Some requests \<and> (k, r) \<in> set requests \<and> prompt_of r = Some (message, schema))"

definition permits_written :: "'v call_env \<Rightarrow> elicitation_permits \<times> answered list \<Rightarrow> bool" where
  "permits_written E s = (case s of (ps, log) \<Rightarrow> hm_wf ps \<and>
     (\<forall>t p. map_of ps t = Some p \<longrightarrow> written_by E log (ep_client_id p) (ep_connection p) (ep_tool p) (ep_message p) (ep_schema p)))"

lemma issue_each_wf: "hm_wf ps \<Longrightarrow> hm_wf (snd (issue_each mint n client c tool rs ps))"
  by (induction rs arbitrary: n ps) (auto split: option.splits prod.splits dest: issue_permit_wf, metis issue_permit_wf snd_conv)

lemma attach_permits:
  assumes "attach_elicitation_permits E mint client c tool oc ps = (oc', ps')" and "hm_wf ps"
  shows "hm_wf ps' \<and> (\<forall>t p. map_of ps' t = Some p \<longrightarrow> map_of ps t = Some p \<or> ep_client_id p = client \<and> ep_connection p = c \<and> ep_tool p = tool \<and>
      (\<exists>requests k r. input_requests E oc = Some requests \<and> (k, r) \<in> set requests \<and> prompt_of r = Some (ep_message p, ep_schema p)))"
proof (cases "input_requests E oc")
  case None
  with assms show ?thesis by (auto simp: attach_elicitation_permits_def)
next
  case (Some requests)
  obtain tokens where i: "issue_each mint 0 client c tool (take MAX_PER_RESPONSE requests) ps = (tokens, ps')"
    using assms(1) Some by (auto simp: attach_elicitation_permits_def split: prod.splits)
  from issue_each_wf [OF assms(2), of mint 0 client c tool "take MAX_PER_RESPONSE requests"] i have "hm_wf ps'" by simp
  with issue_each_permits [OF i assms(2)] Some show ?thesis by (meson in_set_takeD)
qed

lemma post_elicit_permits: "post_elicit caller v v2 now now2 au conn token el ps lim = (x, ps', lim') \<Longrightarrow> ps' = ps \<or> ps' = AList.delete token ps"
  by (auto simp: post_elicit_def http_rate_limit_def consume_permit_def split: option.splits sum.splits prod.splits if_splits)

lemma post_cancel_permits: "post_cancel_elicit v v2 wall au conn token ps els = (rp, ps', els') \<Longrightarrow> ps' = ps \<or> ps' = AList.delete token ps"
  by (auto simp: post_cancel_elicit_def cancel_permit_def Let_def split: option.splits prod.splits if_splits)

lemma permits_written_delete: "permits_written E (ps, log) \<Longrightarrow> permits_written E (AList.delete t ps, log)"
  by (auto simp: permits_written_def hm_simps split: if_splits)

lemma written_by_append: "written_by E log client c tool m s \<Longrightarrow> written_by E (log @ xs) client c tool m s"
  by (fastforce simp: written_by_def)

lemma permit_history_written:
  assumes "permits_written E s" and "permit_history E s t"
  shows "permits_written E t"
  using assms(2,1)
proof (cases rule: permit_history.cases)
  case (ph_answer mint client c tool oc ps oc' ps' log)
  with assms(1) have "hm_wf ps" by (simp add: permits_written_def)
  from attach_permits [OF ph_answer(3) this] assms(1) ph_answer(1,2) show ?thesis
    by (auto simp: permits_written_def written_by_append) (fastforce simp: written_by_def)+
next
  case (ph_elicit caller v v2 now now2 au conn token el ps lim x ps' lim' log)
  with assms(1) post_elicit_permits [OF ph_elicit(3)] permits_written_delete show ?thesis by blast
next
  case (ph_cancel v v2 wall au conn token ps els rp ps' els' log)
  with assms(1) post_cancel_permits [OF ph_cancel(3)] permits_written_delete show ?thesis by blast
qed

interpretation permits_inv: invariant_system "permit_history E" "permits_written E" for E
  by unfold_locales (rule permit_history_written)

text \<open>
  C18. Nobody can put words into an upstream's mouth: over any history of answers, prompts and cancellations, what a prompt for input shows the user, the message
  and the form, is a request that the upstream sent in its answer to a call of the same caller and tool on the same connection, which is an MCP connection
  enabled for agents; the token that raised it is spent.
\<close>

theorem prompts_written_by_upstream:
  assumes "reaches (permit_history E) ([], []) (ps, log)" and "post_elicit caller v v2 now now2 au conn token oc ps lim = ((es, rp), ps', lim')"
    and "GateElicited r \<in> set es"
  shows "written_by E log (au_client_id au) (conn_id (er_connection r)) (er_tool r) (er_message r) (requested_schema r) \<and>
    connection_by_name conn (bv_index v) = Some (er_connection r) \<and> is_mcp_connection (er_connection r) \<and>
    allows (bv_access v2) (conn_id (er_connection r)) \<and> map_of ps' token = None"
proof -
  have "permits_written E (ps, log)" by (rule permits_inv.reaches_inv [OF assms(1)]) (simp add: permits_written_def)
  then have w: "\<And>t p. map_of ps t = Some p \<Longrightarrow> written_by E log (ep_client_id p) (ep_connection p) (ep_tool p) (ep_message p) (ep_schema p)"
    and wf: "hm_wf ps" by (auto simp: permits_written_def)
  from elicited_permit [OF assms(2,3)] obtain p where p: "map_of ps token = Some p" "ep_client_id p = au_client_id au" "ep_connection p = conn_id (er_connection r)"
    "er_message r = ep_message p" "requested_schema r = ep_schema p" "er_tool r = ep_tool p" "ps' = AList.delete token ps"
    "connection_by_name conn (bv_index v) = Some (er_connection r)" "is_mcp_connection (er_connection r)" "allows (bv_access v2) (conn_id (er_connection r))"
    by blast
  from w [OF p(1)] p wf show ?thesis by (simp add: hm_simps)
qed

subsection \<open>A flaw\<close>

text \<open>
  Whether to ask is decided when the call is admitted. Confirmation that is switched on afterwards does not reach a call that has not run yet, although the
  check at the boundary reads the same table again.
\<close>

lemma late_confirmation_unasked:
  assumes "allows (bv_access (cm_admitted cm)) (conn_id c)" and "confirm_mode_of (cm_confirm cm) (conn_id c) = ConfirmOff"
    and "is_current (cm_boundary cm) c" and "allows (bv_access (cm_boundary cm)) (conn_id c)"
    and "confirm_mode_of (bv_access (cm_boundary cm)) (conn_id c) = ConfirmOn"
  shows "run_allowed cm client c (Some r) keyed streamed ps inner = Inr inner"
  using assms by (simp add: run_allowed_def at_boundary_def Let_def)

subsection \<open>Examples\<close>

definition mcp_example_url :: url where
  "mcp_example_url = \<lparr>u_scheme = [104], u_username = [], u_password = None, u_host = None, u_port = None, u_port_or_default = None, u_path = [],
     u_query = None, u_fragment = None\<rparr>"

definition search_rpc :: json where
  "search_rpc = JObject [(ascii ''jsonrpc'', JString (ascii ''2.0'')), (ascii ''method'', JString (ascii ''tools/call'')),
     (ascii ''params'', JObject [(ascii ''name'', JString (ascii ''search''))])]"

definition mcp_env :: "ustring call_env" where
  "mcp_env = \<lparr>ce_headers = plain_headers,
     ce_urls = \<lparr>ue_parse = (\<lambda>_. Some mcp_example_url), ue_join = (\<lambda>u p. Some (u\<lparr>u_path := p\<rparr>)), ue_set_port = (\<lambda>u _. Some u), ue_set_query = (\<lambda>u _. u),
       ue_authority = (\<lambda>_. [])\<rparr>,
     ce_quality = (\<lambda>_. None), ce_parse = (\<lambda>_. Some search_rpc), ce_pieces = (\<lambda>_. []), ce_base64 = (\<lambda>_. Err []), ce_secret_name = (\<lambda>_. None), ce_sha = (\<lambda>_. []),
     ce_not_printable = (\<lambda>_. False)\<rparr>"

definition mcp_conn :: connection where
  "mcp_conn = \<lparr>conn_id = 1, conn_name = [109], conn_config = Api \<lparr>api_host = [104], api_scheme = [], api_port = None, api_trusted_ca_bundle_path = None,
     api_template = [], mcp_path = Some [47, 109], test_path = None, api_oauth = None, signer = None, client_cert_path = None, client_key_path = None\<rparr>,
     conn_secrets = [], account = None, conn_oauth = None, conn_created_at = 0, conn_updated_at = 0\<rparr>"

definition mcp_view :: broker_view where
  "mcp_view = \<lparr>bv_access = \<lparr>entries = [example_access\<lparr>allowed_tools := Some [ascii ''search'']\<rparr>], generation = 0, has_generation_store = False\<rparr>,
     bv_index = default_index\<lparr>ix_connections := [mcp_conn]\<rparr>, bv_endpoints = \<lparr>max_total = 9, endpoints = [], reg_file = None\<rparr>, bv_wall = 0\<rparr>"

definition mcp_moments :: "verdict \<Rightarrow> call_moments" where
  "mcp_moments v = \<lparr>cm_candidate = bv_index mcp_view, cm_limited = 0, cm_resolved = mcp_view, cm_tools = bv_access mcp_view, cm_spool_error = None,
     cm_admitted = mcp_view, cm_confirm = bv_access mcp_view, cm_before_asking = mcp_view, cm_abandoned = False, cm_verdict = v, cm_boundary = mcp_view,
     cm_started = bv_access mcp_view, cm_outcome = \<lparr>status = 200, body = JNull\<rparr>, cm_mint = (\<lambda>_. (0, []))\<rparr>"

definition mcp_caller :: authed where
  "mcp_caller = \<lparr>au_client = [97], au_client_id = 7, au_via_alias = False\<rparr>"

definition search_call :: http_call where
  "search_call = \<lparr>hc_connection = [109], hc_method = ascii ''POST'', hc_path = [47, 109], hc_headers = [], hc_body = Some (JString [120]), hc_body_base64 = None,
     hc_request_id = Some [49], hc_stream = False\<rparr>"

definition search_wire :: "ustring wire_call" where
  "search_wire = \<lparr>wc_method = POST, wc_path = [47, 109], wc_headers = [], wc_body = [120]\<rparr>"

definition fresh_budget :: keyed_limiter where
  "fresh_budget = \<lparr>kwindow = 100, kmax = 5, max_keys = 5, buckets = []\<rparr>"

lemma mcp_view_facts:
  "connection_by_name [109] (bv_index mcp_view) = Some mcp_conn" "connection_by_id 1 (bv_index mcp_view) = Ok mcp_conn" "conn_id mcp_conn = 1"
  "allows (bv_access mcp_view) 1" "confirm_mode_of (bv_access mcp_view) 1 = ConfirmOn" "allowed_tools_of (bv_access mcp_view) 1 = Some [ascii ''search'']"
  by (simp_all add: mcp_view_def connection_by_name_def connection_by_id_def mcp_conn_def allows_def example_access_def confirm_mode_of_def allowed_tools_of_def)

lemma mcp_path_facts:
  "pinned_mcp_path mcp_conn = Some [47, 109]" "resolves_to_mcp_path (ce_urls mcp_env) [47, 109] [47, 109]" "on_mcp_path mcp_env mcp_conn [47, 109]"
  by (simp_all add: pinned_mcp_path_def mcp_conn_def on_mcp_path_def resolves_to_mcp_path_def resolved_path_def mcp_env_def mcp_example_url_def trim_end_slashes_def)

lemma search_rpc_facts:
  "get_str search_rpc ''method'' = Some (ascii ''tools/call'')" "get_str search_rpc ''jsonrpc'' = Some (ascii ''2.0'')" "json_as_array search_rpc = None"
  "messages_of search_rpc = [search_rpc]" "Option.bind (pointer2 search_rpc ''params'' ''name'') json_as_str = Some (ascii ''search'')"
  "ce_parse mcp_env raw = Some search_rpc" "\<not> is_mcp_envelope (ascii ''tools/call'')" "\<not> is_mcp_envelope_value search_rpc"
  by (simp_all add: search_rpc_def get_str_def json_get_def json_as_str_def json_as_array_def messages_of_def pointer2_def mcp_env_def is_mcp_envelope_def MCP_ENVELOPE_def
      is_mcp_envelope_value_def envelope_message_def)

lemma search_call_fields:
  "hc_connection search_call = [109]" "hc_path search_call = [47, 109]" "hc_headers search_call = []" "hc_request_id search_call = Some [49]" "\<not> hc_stream search_call"
  "hc_body search_call = Some (JString [120])" "hc_body_base64 search_call = None" "parse_method (hc_method search_call) = Ok POST" "checked_path [47, 109] = Ok ()"
  "decode_body mcp_env search_call = Ok [120]"
  by (simp_all add: search_call_def parse_method_def to_ascii_uppercase_def Let_def checked_path_def decode_body_def as_bytes_def utf8_char_def prefix_def validate_path_def
      is_control_def in_range_def)

lemma search_parsed:
  assumes "conn_config mcp_conn = Api a"
  shows "parse_call mcp_env 9 a search_call = Ok search_wire"
proof -
  have "http_credential_header a = Ok None"
    using assms by (auto simp: mcp_conn_def http_credential_header_def injection_form_def trim_start_def split_once_by_def trim_def)
  then show ?thesis by (simp add: parse_call_def search_call_fields search_wire_def)
qed

lemma search_not_leg: "\<not> transport_leg mcp_env mcp_conn POST [47, 109] [] b"
  by (simp add: transport_leg_def is_mcp_transport_leg_def mcp_conn_def)

lemma search_not_candidate: "\<not> is_mcp_envelope_candidate mcp_env (Some mcp_conn) search_call"
  using search_rpc_facts(8) search_not_leg
  by (simp add: is_mcp_envelope_candidate_def mcp_path_facts search_call_fields is_mcp_envelope_body_def search_rpc_facts(6))

lemma search_inside: "curated_refusal mcp_env wall client mcp_conn [ascii ''search''] raw = None"
proof -
  have "\<forall>m \<in> set (messages_of search_rpc). within_subset [ascii ''search''] m"
    by (simp add: search_rpc_facts(4) within_subset_def search_rpc_facts(1,5) del: ascii_simps) (simp add: search_rpc_facts)
  with subset_checks [OF search_rpc_facts(6), of raw "[ascii ''search'']"] show ?thesis by (simp add: curated_refusal_def Let_def)
qed

lemma mcp_moment_fields [simp]:
  "cm_candidate (mcp_moments v) = bv_index mcp_view" "cm_limited (mcp_moments v) = 0" "cm_resolved (mcp_moments v) = mcp_view" "cm_tools (mcp_moments v) = bv_access mcp_view"
  "cm_spool_error (mcp_moments v) = None" "cm_admitted (mcp_moments v) = mcp_view" "cm_confirm (mcp_moments v) = bv_access mcp_view"
  "cm_before_asking (mcp_moments v) = mcp_view" "\<not> cm_abandoned (mcp_moments v)" "cm_verdict (mcp_moments v) = v" "cm_boundary (mcp_moments v) = mcp_view"
  "cm_started (mcp_moments v) = bv_access mcp_view"
  by (simp_all add: mcp_moments_def)

lemma mcp_names [simp]: "conn_name mcp_conn = [109]" "conn_updated_at mcp_conn = 0" "au_client mcp_caller = [97]" "au_client_id mcp_caller = 7"
  "wc_method search_wire = POST" "wc_path search_wire = [47, 109]" "wc_headers search_wire = []" "wc_body search_wire = [120]"
  by (simp_all add: mcp_conn_def mcp_caller_def search_wire_def)

lemma search_admitted:
  obtains ad where "post_http mcp_env 9 [] (mcp_moments v) mcp_caller search_call fresh_budget =
      (([], Ok ad), snd (keyed_check_at fresh_budget [] 0))" "ad_connection ad = mcp_conn" "wc_body ad = [120]" "wc_path ad = [47, 109]" "ad_on_mcp ad"
    "ad_tools ad = Some [ascii ''search'']" "ad_question ad \<noteq> None" "ad_key ad = Some (7, 1, [49])"
proof -
  obtain a where a: "conn_config mcp_conn = Api a" by (simp add: mcp_conn_def)
  have q: "approval_for_call mcp_env mcp_conn [97] POST [47, 109] [] [120] \<noteq> None"
    by (subst question_None) (use search_not_leg search_rpc_facts in \<open>auto simp: is_mcp_envelope_def\<close>)
  have lim: "fst (keyed_check_at fresh_budget [] 0) = Ok ()"
    by (simp add: keyed_check_at_def fresh_budget_def prune_buckets_def hm_retain_def hm_map_values_def Let_def)
  obtain ad where ad: "admit_call mcp_env (mcp_moments v) mcp_caller search_call mcp_conn search_wire = ([], Ok ad)"
    unfolding admit_call_def mcp_moment_fields mcp_view_facts Let_def bind.bind_lunit search_inside by simp
  note ok = admit_call_ok [OF ad]
  have "post_http mcp_env 9 [] (mcp_moments v) mcp_caller search_call fresh_budget = (([], Ok ad), snd (keyed_check_at fresh_budget [] 0))"
    using lim ad
    by (simp add: post_http_def search_call_fields mcp_view_facts search_not_candidate http_rate_limit_def request_id_error_def utf8_len_def utf8_width_def
        REQUEST_ID_MAX_BYTES_def a search_parsed [OF a] Let_def case_prod_beta split: sum.splits)
  moreover have "wc_body ad = [120]" "wc_path ad = [47, 109]" using ok(2) by (auto simp: wire_call.defs search_wire_def)
  ultimately show ?thesis
    using ok q that [of ad]
    by (simp add: mcp_path_facts mcp_view_facts call_key_def search_call_fields is_mutating_def)
qed

lemma search_run:
  assumes "ad_connection ad = mcp_conn" "ad_tools ad = Some [ascii ''search'']" "ad_question ad = Some r" "ad_key ad \<noteq> None"
  shows "\<exists>es oc ps. run_http mcp_env (mcp_moments VAllowed) mcp_caller ad [] = Inr (es, oc, ps) \<and> runs es"
    "v \<noteq> VAllowed \<Longrightarrow> run_http mcp_env (mcp_moments v) mcp_caller ad [] =
      Inr ((if ad_stream ad then [GateWaiting] else []) @ [GateAsked r], approval_refusal v [109], [])"
  using assms
  by (auto simp: run_http_def run_allowed_def mcp_view_facts at_boundary_def is_current_def park_for_approval_def verdict_is_allowed_def
      http_executor_def Let_def split: option.splits prod.splits)

theorem http_call_authorized_witness:
  "\<exists>ad es oc ps. run_http mcp_env (mcp_moments VAllowed) mcp_caller ad [] = Inr (es, oc, ps) \<and> ad_connection ad = mcp_conn \<and> runs es \<and> is_current mcp_view mcp_conn \<and>
     within_subset [ascii ''search''] search_rpc"
proof -
  obtain ad where ad: "post_http mcp_env 9 [] (mcp_moments VAllowed) mcp_caller search_call fresh_budget =
      (([], Ok ad), snd (keyed_check_at fresh_budget [] 0))" "ad_connection ad = mcp_conn" "wc_body ad = [120]" "wc_path ad = [47, 109]" "ad_on_mcp ad"
    "ad_tools ad = Some [ascii ''search'']" "ad_question ad \<noteq> None" "ad_key ad = Some (7, 1, [49])"
    by (rule search_admitted)
  obtain r where r: "ad_question ad = Some r" using ad(7) by auto
  then obtain es oc ps where run: "run_http mcp_env (mcp_moments VAllowed) mcp_caller ad [] = Inr (es, oc, ps)" "runs es"
    using search_run(1) [OF ad(2,6) r] ad(8) by auto
  note h = http_call_authorized [OF ad(1) run(1,2), unfolded Let_def mcp_moment_fields ad(2,4) mcp_view_facts(3)]
  have cur: "is_current mcp_view mcp_conn" using h by (elim conjE)
  have "\<forall>allowed v. allowed_tools_of (bv_access mcp_view) 1 = Some allowed \<and> ce_parse mcp_env (wc_body ad) = Some v \<longrightarrow>
      (\<forall>m \<in> set (messages_of v). within_subset allowed m)"
    using h by (elim conjE) (erule mp [OF _ mcp_path_facts(3)])
  from mp [OF spec [OF spec [OF this]] conjI [OF mcp_view_facts(6) search_rpc_facts(6)]]
  have "\<forall>m \<in> set (messages_of search_rpc). within_subset [ascii ''search''] m" .
  then have sub: "within_subset [ascii ''search''] search_rpc" unfolding search_rpc_facts(4) by (rule bspec) (rule list.set_intros)
  show ?thesis by (intro exI conjI) (rule run(1) ad(2) run(2) cur sub)+
qed

theorem unexecuted_calls_retryable_witness:
  "\<exists>ad es oc ps. run_http mcp_env (mcp_moments VDenied) mcp_caller ad [] = Inr (es, oc, ps) \<and> \<not> is_retryable_preflight_outcome oc \<and> oc = approval_refusal VDenied [109]"
proof -
  obtain ad where ad: "post_http mcp_env 9 [] (mcp_moments VDenied) mcp_caller search_call fresh_budget =
      (([], Ok ad), snd (keyed_check_at fresh_budget [] 0))" "ad_connection ad = mcp_conn" "wc_body ad = [120]" "wc_path ad = [47, 109]" "ad_on_mcp ad"
    "ad_tools ad = Some [ascii ''search'']" "ad_question ad \<noteq> None" "ad_key ad = Some (7, 1, [49])"
    by (rule search_admitted)
  obtain r where r: "ad_question ad = Some r" using ad(7) by auto
  have run: "run_http mcp_env (mcp_moments VDenied) mcp_caller ad [] =
      Inr ((if ad_stream ad then [GateWaiting] else []) @ [GateAsked r], approval_refusal VDenied [109], [])"
    using search_run(2) [OF ad(2,6) r] ad(8) by simp
  have "\<not> is_retryable_preflight_outcome (approval_refusal VDenied [109])" using retryable_refusals(3) [of VDenied] by simp
  with unexecuted_calls_retryable [OF run] run show ?thesis by auto
qed

theorem http_calls_charged_witness:
  "\<exists>ad. post_http mcp_env 9 [] (mcp_moments VAllowed) mcp_caller search_call fresh_budget = (([], Ok ad), snd (keyed_check_at fresh_budget [] 0)) \<and>
     ad_key ad = Some (7, 1, [49]) \<and> \<not> ad_stream ad"
proof -
  obtain ad where ad: "post_http mcp_env 9 [] (mcp_moments VAllowed) mcp_caller search_call fresh_budget =
      (([], Ok ad), snd (keyed_check_at fresh_budget [] 0))" "ad_connection ad = mcp_conn" "wc_body ad = [120]" "wc_path ad = [47, 109]" "ad_on_mcp ad"
    "ad_tools ad = Some [ascii ''search'']" "ad_question ad \<noteq> None" "ad_key ad = Some (7, 1, [49])"
    by (rule search_admitted)
  from http_calls_charged [OF ad(1)] ad show ?thesis by auto
qed

definition prompt_answer :: json where
  "prompt_answer = JObject [(ascii ''result'', JObject [(ascii ''inputRequests'', JObject [([107], JObject [(ascii ''method'', JString (ascii ''elicitation/create'')),
     (ascii ''params'', JObject [(ascii ''message'', JString [104, 105])])])])])]"

definition prompt_env :: "ustring call_env" where
  "prompt_env = mcp_env\<lparr>ce_parse := \<lambda>_. Some prompt_answer\<rparr>"

definition prompt_outcome :: exec_outcome where
  "prompt_outcome = \<lparr>status = 200, body = JObject [(ascii ''body'', JString [])]\<rparr>"

definition prompt_permit :: elicitation_permit where
  "prompt_permit = \<lparr>ep_client_id = 7, ep_connection = 1, ep_tool = ascii ''search'', ep_message = [104, 105], ep_schema = JObject [], ep_expires_at = 0 + PERMIT_TTL\<rparr>"

lemma prompt_read: "input_requests prompt_env prompt_outcome = Some [([107], JObject [(ascii ''method'', JString (ascii ''elicitation/create'')),
     (ascii ''params'', JObject [(ascii ''message'', JString [104, 105])])])]"
  by (simp add: input_requests_def prompt_outcome_def get_str_def json_get_def json_as_str_def prompt_env_def prompt_answer_def pointer2_def json_as_object_def)

lemma prompt_attached:
  "snd (attach_elicitation_permits prompt_env (\<lambda>_. (0, [116])) 7 1 (ascii ''search'') prompt_outcome []) = [([116], prompt_permit)]"
  by (simp add: attach_elicitation_permits_def prompt_read MAX_PER_RESPONSE_def prompt_of_def get_str_def json_get_def json_as_str_def pointer2_def
      issue_permit_def prompt_permit_def hm_retain_def MAX_PERMITS_def)

theorem prompts_written_by_upstream_witness:
  "\<exists>r. GateElicited r \<in> set (fst (fst (post_elicit [] mcp_view mcp_view 0 0 mcp_caller [109] [116] cancelled [([116], prompt_permit)] fresh_budget))) \<and>
     er_message r = [104, 105] \<and>
     written_by prompt_env [(7, 1, ascii ''search'', prompt_outcome)] 7 1 (er_tool r) (er_message r) (requested_schema r)"
proof -
  have "reaches (permit_history prompt_env) ([], []) ([([116], prompt_permit)], [] @ [(7, 1, ascii ''search'', prompt_outcome)])"
    by (rule reaches_step [OF reaches_refl], rule ph_answer [where mint = "\<lambda>_. (0, [116])" and oc' = "fst (attach_elicitation_permits prompt_env (\<lambda>_. (0, [116])) 7 1 (ascii ''search'') prompt_outcome [])"])
      (rule prod_eqI, simp_all only: fst_conv snd_conv prompt_attached)
  moreover obtain es rp ps' lim' r where e: "post_elicit [] mcp_view mcp_view 0 0 mcp_caller [109] [116] cancelled [([116], prompt_permit)] fresh_budget = ((es, rp), ps', lim')"
    "GateElicited r \<in> set es" "er_message r = [104, 105]" "conn_id (er_connection r) = 1"
    by (simp add: post_elicit_def http_rate_limit_def keyed_check_at_def fresh_budget_def prune_buckets_def hm_retain_def hm_map_values_def mcp_view_facts
        is_mcp_connection_def mcp_path_facts consume_permit_def prompt_permit_def PERMIT_TTL_def secs_def Let_def)
  ultimately have "written_by prompt_env ([] @ [(7, 1, ascii ''search'', prompt_outcome)]) (au_client_id mcp_caller) (conn_id (er_connection r)) (er_tool r)
      (er_message r) (requested_schema r)"
    using prompts_written_by_upstream by blast
  then show ?thesis using e by (intro exI [of _ r]) (simp add: e(4) del: ascii_simps)
qed

definition ping_rpc :: json where
  "ping_rpc = JObject [(ascii ''jsonrpc'', JString (ascii ''2.0'')), (ascii ''method'', JString (ascii ''ping''))]"

definition ping_env :: "ustring call_env" where
  "ping_env = mcp_env\<lparr>ce_parse := (\<lambda>_. Some ping_rpc)\<rparr>"

lemma ping_facts:
  "get_str ping_rpc ''method'' = Some (ascii ''ping'')" "get_str ping_rpc ''jsonrpc'' = Some (ascii ''2.0'')" "json_as_array ping_rpc = None"
  "messages_of ping_rpc = [ping_rpc]" "ce_parse ping_env raw = Some ping_rpc" "ascii ''ping'' \<in> set MCP_ENVELOPE" "is_mcp_envelope_body ping_env raw"
  by (simp_all add: ping_rpc_def get_str_def json_get_def json_as_str_def json_as_array_def messages_of_def ping_env_def is_mcp_envelope_body_def
      is_mcp_envelope_def MCP_ENVELOPE_def is_mcp_envelope_value_def envelope_message_def)

lemma ping_env_fields [simp]: "ce_urls ping_env = ce_urls mcp_env" "ce_headers ping_env = ce_headers mcp_env" "ce_quality ping_env = ce_quality mcp_env"
  by (simp_all add: ping_env_def)

lemma ping_same: "on_mcp_path ping_env c p = on_mcp_path mcp_env c p" "transport_leg ping_env c m p hs b = transport_leg mcp_env c m p hs b"
  "decode_body ping_env hc = decode_body mcp_env hc" "parse_call ping_env n a hc = parse_call mcp_env n a hc"
proof -
  have i: "json_bytes ping_env j = json_bytes mcp_env j" "invalid ping_env e = invalid mcp_env e" "ce_base64 ping_env = ce_base64 mcp_env" for j e
    by (simp_all add: json_bytes_def invalid_def ping_env_def)
  show d: "decode_body ping_env hc = decode_body mcp_env hc" for hc unfolding decode_body_def i ..
  show "parse_call ping_env n a hc = parse_call mcp_env n a hc" unfolding parse_call_def i d ping_env_fields ..
qed (simp_all add: on_mcp_path_def transport_leg_def cong: option.case_cong)

lemma ping_inside: "curated_refusal ping_env wall client mcp_conn [ascii ''search''] raw = None"
proof -
  have "\<forall>m \<in> set (messages_of ping_rpc). within_subset [ascii ''search''] m"
    by (simp add: ping_facts(4) within_subset_def ping_facts(1) del: ascii_simps) simp
  with subset_checks [OF ping_facts(5), of raw "[ascii ''search'']"] show ?thesis by (simp add: curated_refusal_def Let_def)
qed

lemma ping_candidate: "is_mcp_envelope_candidate ping_env (Some mcp_conn) search_call"
  using ping_facts(7) mcp_path_facts(2)
  by (simp add: is_mcp_envelope_candidate_def mcp_path_facts search_call_fields ping_same)

lemma ping_admitted:
  obtains ad where "post_http ping_env 9 [] (mcp_moments VDenied) mcp_caller search_call fresh_budget = (([], Ok ad), fresh_budget)"
    "ad_connection ad = mcp_conn" "ad_tools ad = Some [ascii ''search'']" "ad_question ad = None" "ad_on_mcp ad"
proof -
  obtain a where a: "conn_config mcp_conn = Api a" by (simp add: mcp_conn_def)
  have q: "approval_for_call ping_env mcp_conn [97] POST [47, 109] [] [120] = None"
    unfolding question_None ping_same using mcp_path_facts(3) ping_facts(1,2,3,5,6) by (auto simp: APPROVAL_RPC_PARSE_CAP_def)
  obtain ad where ad: "admit_call ping_env (mcp_moments VDenied) mcp_caller search_call mcp_conn search_wire = ([], Ok ad)"
    unfolding admit_call_def mcp_moment_fields mcp_view_facts Let_def bind.bind_lunit ping_inside by simp
  note ok = admit_call_ok [OF ad]
  have leg: "envelope_leg ping_env mcp_conn search_wire" using ping_facts(7) mcp_path_facts(3) by (simp add: envelope_leg_def ping_same)
  have "post_http ping_env 9 [] (mcp_moments VDenied) mcp_caller search_call fresh_budget = (([], Ok ad), fresh_budget)"
    using ad leg
    by (simp add: post_http_def search_call_fields mcp_view_facts ping_candidate request_id_error_def utf8_len_def utf8_width_def
        REQUEST_ID_MAX_BYTES_def a ping_same search_parsed [OF a] Let_def)
  then show ?thesis using ok q that [of ad] by (simp add: mcp_path_facts mcp_view_facts ping_same)
qed

theorem unasked_calls_are_plumbing_witness:
  "\<exists>ad es oc ps. run_http ping_env (mcp_moments VDenied) mcp_caller ad [] = Inr (es, oc, ps) \<and> runs es \<and> ad_connection ad = mcp_conn \<and>
     (\<exists>a mcp. conn_config mcp_conn = Api a \<and> mcp_path a = Some mcp \<and> resolves_to_mcp_path (ce_urls ping_env) (wc_path ad) mcp)"
proof -
  obtain ad where ad: "post_http ping_env 9 [] (mcp_moments VDenied) mcp_caller search_call fresh_budget = (([], Ok ad), fresh_budget)"
    "ad_connection ad = mcp_conn" "ad_tools ad = Some [ascii ''search'']" "ad_question ad = None" "ad_on_mcp ad" by (rule ping_admitted)
  obtain es oc ps where run: "run_http ping_env (mcp_moments VDenied) mcp_caller ad [] = Inr (es, oc, ps)" and r: "runs es" and q: "\<forall>r. GateAsked r \<notin> set es"
    using ad that by (cases "http_executor ping_env (mcp_moments VDenied) mcp_caller ad []"; cases "ad_elicitation_tool ad")
      (auto simp: run_http_def run_allowed_def mcp_view_facts at_boundary_def is_current_def http_executor_def Let_def)
  have "confirm_mode_of (cm_confirm (mcp_moments VDenied)) (conn_id (ad_connection ad)) = ConfirmOn" by (simp add: ad(2) mcp_view_facts)
  from conjunct1 [OF unasked_calls_are_plumbing [OF ad(1) run r this q]] run r ad(2) show ?thesis by auto
qed

end
