(* ===== verification/Spec2Isabelle.thy ===== *)
theory Spec2Isabelle
  imports Ratelimit Template Totp Wire CoreTypes Integrity Policy Endpoints Sessions UntrustedText RequestHistory
    AuditEntry AuditLog Approvals Executions Elicitations Identity Passwords Vault
    OnePassword Catalog Renames Store StoreInvariant StoreEdits Redaction HttpRules Sigv4 HttpDial
    PgWire PgSplice PgUpstream PgProxy Domain BrokerEdits BrokerSafety
    SshAgent SshSafety SshPlane McpCalls CallGate GateSafety
begin

text \<open>
  Verification of the Multitool credential broker, \<^verbatim>\<open>crates/aka-core\<close>.

  \<^bold>\<open>The program.\<close> The broker holds a user's credentials and lets agents use them without seeing them. A
  request goes through the access table (is the tool switched on?), through traffic confirmation (does
  the user have to be asked?), gets a ticket or presents a direct-endpoint secret, opens a bounded
  session on the data plane, has its secrets rendered into the upstream request, and leaves an audit
  record. All durable state is stored in files sealed with a MAC whose key lives in the vault.

  \<^bold>\<open>The theories\<close>, each of which models one source file of \<^verbatim>\<open>crates/aka-core/src\<close>:
  \<^item> \<open>Prelude\<close>, \<open>RustStr\<close>: results, panics, association-list maps, durations, reachability and the locale
    of invariants; what the sources use of Rust strings (a string is the list of its scalar values).
  \<^item> \<open>CoreTypes\<close> (\<^verbatim>\<open>types.rs\<close>, \<^verbatim>\<open>error.rs\<close>), \<open>Wire\<close> (\<^verbatim>\<open>wire.rs\<close>): connections and their targets, access and
    endpoint records, errors with their reasons and statuses, the closed reason vocabulary.
  \<^item> \<open>Ratelimit\<close> (\<^verbatim>\<open>ratelimit.rs\<close>): both limiters. No window ever holds more admissions than the budget, per
    key too; active buckets are never evicted; the retry time is the exact threshold. The locale
    \<open>sliding_window\<close> carries the counting argument and is interpreted for both.
  \<^item> \<open>Template\<close> (\<^verbatim>\<open>template.rs\<close>): the placeholder language. Parsing inverts printing, renaming a reference
    renames exactly it, and the reference set is what rendering asks for.
  \<^item> \<open>Totp\<close> (\<^verbatim>\<open>totp.rs\<close>): Base32 and HOTP truncation on machine words, otpauth parsing, the canonical form.
  \<^item> \<open>Integrity\<close> (\<^verbatim>\<open>integrity.rs\<close>): sealed files, the key's establishment and the record chain.
  \<^item> \<open>Policy\<close> (\<^verbatim>\<open>policy.rs\<close>, and the generation counter of \<^verbatim>\<open>store.rs\<close>): the access table with its file and
    rollback counter as \<open>access_disk\<close>. Every policy change is one file write and one index write, each of
    which may fail, the first also with the new file in place; the table reopens after any crash, and rollbacks are refused.
  \<^item> \<open>Endpoints\<close> (\<^verbatim>\<open>endpoints.rs\<close>): the registry of direct endpoints, its sealed file and restarts (\<open>endpoint_step\<close>). \<open>keyed_table\<close> is the contract of the
    access table and the registry, \<open>access_field\<close> that of the five policy setters.
  \<^item> \<open>Sessions\<close> (\<^verbatim>\<open>sessions.rs\<close>): tickets, redemptions and sessions as the step relation \<open>plane_step\<close>, whose
    steps are the critical sections in any order, with exact accounting of the budgets.
  \<^item> \<open>UntrustedText\<close> (\<^verbatim>\<open>untrusted_text.rs\<close>), \<open>RequestHistory\<close> (\<^verbatim>\<open>request_history.rs\<close>): what a prompt shows, and
    the bounded history of what became of it.
  \<^item> \<open>Approvals\<close> (\<^verbatim>\<open>approvals.rs\<close>): prompts, coalescing, windows, cooldowns, revocation, the prompt monitor,
    as the step relation \<open>approval_step\<close>.
  \<^item> \<open>Executions\<close> (\<^verbatim>\<open>executions.rs\<close>): idempotency keys, joining, replay and retention. \<open>slot_of\<close> is the abstract
    table from keys to slots, which \<open>run_exec\<close> and \<open>complete_exec\<close> refine; over all interleavings
    (\<open>exec_step\<close>) a key is executed at most once within the retention time.
  \<^item> \<open>Elicitations\<close> (\<^verbatim>\<open>elicitations.rs\<close>): permits (\<open>permit_step\<close>), the credential scan, and the registry of
    prompts for input (\<open>el_step\<close>).
  \<^item> \<open>Identity\<close> (\<^verbatim>\<open>identity.rs\<close>): the broker key and the management token, their hashes, aliases and files. A
    withdrawn key stays dead over any history of restarts and failed writes (\<open>id_step\<close>).
  \<^item> \<open>Vault\<close> (\<^verbatim>\<open>vault.rs\<close>): the secret vaults. The locale \<open>secret_vault\<close> is their contract, \<open>reopenable_vault\<close> adds
    that a new process can open them again, \<open>durable_vault\<close> that their values survive this unless a write failed after replacing the
    file. All three are interpreted for the plaintext and in-memory vaults and proved for the encrypted one from the laws of its cipher.
  \<^item> \<open>Passwords\<close> (\<^verbatim>\<open>password.rs\<close>): normal forms of sites and derived names.
  \<^item> \<open>OnePassword\<close> (\<^verbatim>\<open>onepassword.rs\<close>): references into 1Password and their validation.
  \<^item> \<open>Catalog\<close>, \<open>Renames\<close>, \<open>Store\<close>, \<open>StoreInvariant\<close> (\<^verbatim>\<open>store.rs\<close>): the catalog of secrets, links and connections.
    \<open>Catalog\<close> has the pure part (validation, binding, inheritance, migrations), \<open>Store\<close> every operation on the
    index in memory, the index file and the vault. Each operation is shown to make one legal change or
    none (\<open>changes\<close>), from which the invariants follow for all histories \<open>store_step\<close>, for every vault that
    keeps its contract; a restart opens the index file and the vault again. \<open>Renames\<close> and \<open>StoreEdits\<close> show what single edits do: renaming keeps every binding,
    moving a connection to another target inherits nothing, a stale edit is refused.
  \<^item> \<open>Redaction\<close>, \<open>HttpRules\<close>, \<open>HttpDial\<close> (\<^verbatim>\<open>capability/http.rs\<close>), \<open>Sigv4\<close> (\<^verbatim>\<open>sigv4.rs\<close>): the HTTP plane. \<open>Redaction\<close> is the
    scrubbing of reflected credentials, whole and streaming; \<open>HttpRules\<close> the rules for headers, paths and
    fingerprints; \<open>Sigv4\<close> the signature; \<open>HttpDial\<close> the loop that sends a request, follows redirects on the pinned
    authority only and renews a rejected token once.
  \<^item> \<open>PgWire\<close>, \<open>PgSplice\<close>, \<open>PgUpstream\<close>, \<open>PgProxy\<close> (\<^verbatim>\<open>capability/pg.rs\<close>): the Postgres plane. \<open>PgWire\<close> is the framing, the startup
    phase and the identity check; \<open>PgUpstream\<close> the sign-in at the server and the cancel keys; \<open>PgSplice\<close> the relay of a
    session with its statement log, whose scanner is shown equal to a byte-by-byte automaton; \<open>PgProxy\<close> the two handlers,
    as lists of effects, over \<open>Sessions\<close>, \<open>Policy\<close>, \<open>Store\<close>, \<open>Endpoints\<close> and \<open>Approvals\<close>.
  \<^item> \<open>SshAgent\<close>, \<open>SshSafety\<close>, \<open>SshPlane\<close> (\<^verbatim>\<open>capability/ssh.rs\<close>): the SSH plane. \<open>SshAgent\<close> is the agent protocol of one socket, request by
    request; \<open>SshSafety\<close> its guarantees over all interleavings of connections (\<open>ssh_step\<close>): the key signs nothing but logins of the pinned user
    to the pinned host, slots for signatures are taken within the budget (the signature itself may be made later, when the user answers), and a
    conforming client is served; \<open>SshPlane\<close> the handlers around it and the loop that
    refines the protocol.
  \<^item> \<open>McpCalls\<close>, \<open>CallGate\<close>, \<open>GateSafety\<close> (\<^verbatim>\<open>daemon/mod.rs\<close>): the routes for agents. \<open>McpCalls\<close> is what the daemon reads in a call: session
    plumbing, curated tools, the question put to the user, the prompts in an answer. \<open>CallGate\<close> is the bearer check, the HTTP call, the opens and
    the elicitation routes, as effects over the moments of a call, over \<open>Identity\<close>, \<open>Ratelimit\<close>, \<open>Store\<close>, \<open>Policy\<close>, \<open>Approvals\<close>, \<open>Executions\<close> and
    \<open>Elicitations\<close>. \<open>GateSafety\<close> shows what has been checked when a call runs, which refusals a retry may repeat, and that prompts come from
    upstreams (\<open>permit_history\<close>).
  \<^item> \<open>Domain\<close> (\<^verbatim>\<open>domain.rs\<close>), \<open>BrokerEdits\<close>, \<open>BrokerSafety\<close> (\<^verbatim>\<open>broker.rs\<close>): the management actions. \<open>Domain\<close> commits one change over store, access
    table and endpoints together and says in an outbox what changed; \<open>BrokerEdits\<close> applies the outbox to the running broker.
    \<open>BrokerSafety\<close> composes the parts: the locale \<open>withdrawal\<close> is the contract of the registries that withdraw authority, and the
    theorems say that after a tool was deleted, switched off or repointed, or a credential or the key rotated, nothing that was handed
    out before is usable.
  \<^item> \<open>AuditEntry\<close>, \<open>AuditLog\<close> (\<^verbatim>\<open>audit.rs\<close>): the audit record and its builders; the sealed, chained log.

  \<^bold>\<open>How state and effects are modelled.\<close> A struct behind a mutex is a record, and each critical section is
  a function from the record to a result and the new record; operations that take a lock twice are two
  definitions, so that interleavings are sequences of steps. \<open>HashMap\<close>s are association lists with one
  entry per key (\<open>hm_wf\<close>, an invariant). A fallible operation returns \<open>core_error + 'a\<close>; a definition whose
  source can panic returns \<open>outcome\<close>. Durable state is a record of what reading each file would yield,
  and every write takes the fault it meets as an argument (with, where the file may already have been replaced, a flag that says so), so a crash
  is a fault and nothing after it.
  Clocks, minted UUIDs and secrets, dropped receivers and the answers of the approval surface are
  arguments. All definitions are total and executable; there is no fuel.

  \<^bold>\<open>Parameters\<close> stand for code outside the repository: HMAC-SHA256 and SHA-256, the JSON layer (the payload
  an envelope carries, the text of an audit entry), URL parsing, base64 and percent-encoding, RFC 3339
  and UUID texts, the character classes of \<^verbatim>\<open>{:?}\<close>. Hypotheses about them are part of the statements:
  \<open>codec_on\<close> says that the entries written survive JSON, and freedom from collisions is asked of the MAC
  inputs that occur in the statement and of no others.

  \<^bold>\<open>Flaws\<close> that modelling showed are theorems too: a redemption in flight escapes \<open>close_all\<close>, the session
  backstop can be exceeded, a failed policy commit can be replayed, an answer can win against a
  revocation, a host-key question can be answered by another prompt, a lost reseal reads as tampering, a
  rejected seal hides tampering, a tampered MAC or vault nonce makes a read panic, renaming changes tab literals, a long
  TOTP seed becomes unusable, normalizing a site is not idempotent, a rename can make a template unreadable,
  an index write or a vault write that fails late loses a secret's value, a one-byte credential streams through, different
  requests share a fingerprint, a statement behind a kilobyte of blanks escapes the statement log, an edit of a connection
  goes unseen by an endpoint that is dialing, an unauthenticated caller can pin an SSH host key, SSH logins that wait for the user pile up beyond the signature budget, an SSH session that was being set up when its tool
  was switched off runs on, a body that does not parse passes the check of curated tools, confirmation switched on late is not asked for.

  \<^bold>\<open>Not modelled\<close>: the management routes and the MCP host, which call the parts above; sockets, TLS, HTTP, Tauri and OS-keychain glue, which only call the parts above; the
  OAuth and 1Password clients; the paged reader of the audit log; connection tests, the settings and the address texts of \<^verbatim>\<open>broker.rs\<close>. Of the Postgres plane,
  sockets, listeners, the TLS configuration and the DER parser of the channel binding; of the SSH plane, sockets and their files, the
  cryptography of \<^verbatim>\<open>ssh-key\<close>, and the \<^verbatim>\<open>ssh\<close> process of the login test.
\<close>

end
